(* ===== verification/Kernel_Prelude.thy ===== *)
theory Kernel_Prelude
  imports Main "HOL-Library.Word" "HOL-Library.Monad_Syntax"
begin

text \<open>
  The shared layer of the yaosp kernel development: the error codes of
  \<^verbatim>\<open>source/include/errno.h\<close>, the C integer and pointer types, the memory cells that
  arrays and buffers are made of, linked chains of nodes in a store, and the
  contract of the kernel's memory allocator as its clients see it.

  Conventions of every theory:
  \<^item> a value of type \<open>'a option\<close> that stands for a run of C code is \<open>None\<close> when the C code
    has no defined continuation: an \<^verbatim>\<open>ASSERT\<close> that panics, a \<^verbatim>\<open>NULL\<close> dereference, an access
    outside an object, or a loop that does not end;
  \<^item> a C result that is \<open>0\<close> or a negated error code is a value of \<open>errno + 'a\<close>;
  \<^item> a C pointer is an \<open>addr option\<close> with \<open>None\<close> for \<^verbatim>\<open>NULL\<close>.
\<close>

section \<open>Collections of facts\<close>

named_theorems cell_simps \<open>reads and writes of memory cells\<close>
named_theorems chain_intros \<open>linked chains kept by store updates\<close>

section \<open>Types\<close>

type_synonym addr = nat
type_synonym vptr = "addr option"
type_synonym byte = "8 word"
type_synonym u32 = "32 word"
type_synonym u64 = "64 word"

text \<open>The error codes, in the order of \<^verbatim>\<open>errno.h\<close>.\<close>

datatype errno =
    ENOMEM | EINVAL | EIO | ETIME | ENOSYS | ENOENT | EEXIST | EBUSY | EISDIR | ENOINO
  | ENOEXEC | EBADF | EHW | ERANGE | ENXIO | EDOM | ENODEV | EINTR | ENOTTY | EPERM
  | EROFS | ELOOP | ENOTDIR | ENOTEMPTY | EAGAIN | E2BIG | ETIMEDOUT | EOVERFLOW
  | ENOSPC | ECHILD | ENAMETOOLONG | ESPIPE | EACCES | EDEADLK | EADDRINUSE | EWOULDBLOCK
  | EADDRNOTAVAIL | EISCONN | EINPROGRESS | ENETUNREACH | EALREADY
  | ENETDOWN | ENOTCONN | EAFNOSUPPORT | ECONNREFUSED | ENOTSOCK

fun errno_code :: "errno \<Rightarrow> int" where
  "errno_code ENOMEM = 1" | "errno_code EINVAL = 2" | "errno_code EIO = 3"
| "errno_code ETIME = 4" | "errno_code ENOSYS = 5" | "errno_code ENOENT = 6"
| "errno_code EEXIST = 7" | "errno_code EBUSY = 8" | "errno_code EISDIR = 9"
| "errno_code ENOINO = 10" | "errno_code ENOEXEC = 11" | "errno_code EBADF = 12"
| "errno_code EHW = 13" | "errno_code ERANGE = 14" | "errno_code ENXIO = 15"
| "errno_code EDOM = 16" | "errno_code ENODEV = 17" | "errno_code EINTR = 18"
| "errno_code ENOTTY = 19" | "errno_code EPERM = 20" | "errno_code EROFS = 21"
| "errno_code ELOOP = 22" | "errno_code ENOTDIR = 23" | "errno_code ENOTEMPTY = 24"
| "errno_code EAGAIN = 25" | "errno_code E2BIG = 26" | "errno_code ETIMEDOUT = 27"
| "errno_code EOVERFLOW = 28" | "errno_code ENOSPC = 29" | "errno_code ECHILD = 30"
| "errno_code ENAMETOOLONG = 31" | "errno_code ESPIPE = 32" | "errno_code EACCES = 33"
| "errno_code EDEADLK = 34" | "errno_code EADDRINUSE = 35" | "errno_code EWOULDBLOCK = 36"
| "errno_code EADDRNOTAVAIL = 37" | "errno_code EISCONN = 38" | "errno_code EINPROGRESS = 39"
| "errno_code ENETUNREACH = 40" | "errno_code EALREADY = 41" | "errno_code ENETDOWN = 42"
| "errno_code ENOTCONN = 43" | "errno_code EAFNOSUPPORT = 44" | "errno_code ECONNREFUSED = 45"
| "errno_code ENOTSOCK = 46"

lemma errno_code_pos: "0 < errno_code e"
  by (cases e) simp_all

text \<open>The \<^verbatim>\<open>uint32_t\<close> value of a natural number, its decrement, and the \<^verbatim>\<open>ALIGN\<close> macro.\<close>

abbreviation u32_of :: "nat \<Rightarrow> nat" where
  "u32_of n \<equiv> n mod 4294967296"

text \<open>\<^verbatim>\<open>x--\<close> on a \<^verbatim>\<open>uint32_t\<close>.\<close>

definition dec32 :: "nat \<Rightarrow> nat" where
  "dec32 n = (if n = 0 then 4294967295 else n - 1)"

lemma dec32_pos [simp]: "0 < n \<Longrightarrow> dec32 n = n - 1"
  by (simp add: dec32_def)

definition ALIGN :: "nat \<Rightarrow> nat \<Rightarrow> nat" where
  "ALIGN n a = (n + a - 1) div a * a"

lemma ALIGN_dvd: "a dvd ALIGN n a"
  by (simp add: ALIGN_def)

lemma ALIGN_ge: "0 < a \<Longrightarrow> n \<le> ALIGN n a"
proof -
  assume a: "0 < a"
  have "n + a - 1 = ALIGN n a + (n + a - 1) mod a"
    by (simp add: ALIGN_def)
  moreover have "(n + a - 1) mod a < a" using a by simp
  ultimately show ?thesis using a by linarith
qed

lemma ALIGN_less: "0 < a \<Longrightarrow> ALIGN n a < n + a"
  unfolding ALIGN_def by (metis add_gr_0 diff_Suc_less div_times_less_eq_dividend le_less_trans
      One_nat_def)

section \<open>Memory cells\<close>

text \<open>
  A heap object is \<open>None\<close> for a \<^verbatim>\<open>NULL\<close> base pointer and otherwise the list of its cells.
  Reading or writing through \<^verbatim>\<open>NULL\<close> or out of range is a fault.
\<close>

definition read_cell :: "'a list option \<Rightarrow> int \<Rightarrow> 'a option" where
  "read_cell blk i = (case blk of None \<Rightarrow> None
     | Some xs \<Rightarrow> if 0 \<le> i \<and> i < int (length xs) then Some (xs ! nat i) else None)"

definition write_cell :: "'a list option \<Rightarrow> int \<Rightarrow> 'a \<Rightarrow> 'a list option" where
  "write_cell blk i v = (case blk of None \<Rightarrow> None
     | Some xs \<Rightarrow> if 0 \<le> i \<and> i < int (length xs) then Some (xs[nat i := v]) else None)"

lemma read_cell_Some [cell_simps]:
  "0 \<le> i \<Longrightarrow> i < int (length xs) \<Longrightarrow> read_cell (Some xs) i = Some (xs ! nat i)"
  by (simp add: read_cell_def)

lemma write_cell_Some [cell_simps]:
  "0 \<le> i \<Longrightarrow> i < int (length xs) \<Longrightarrow> write_cell (Some xs) i v = Some (xs[nat i := v])"
  by (simp add: write_cell_def)

lemma read_cell_NULL [simp]: "read_cell None i = None"
  by (simp add: read_cell_def)

lemma write_cell_NULL [simp]: "write_cell None i v = None"
  by (simp add: write_cell_def)

section \<open>Chains of nodes in a store\<close>

text \<open>
  \<open>chain nx p xs\<close>: following the \<^verbatim>\<open>next\<close> pointers \<open>nx\<close> from the pointer \<open>p\<close> visits exactly
  the nodes \<open>xs\<close> and then reaches \<^verbatim>\<open>NULL\<close>.
\<close>

primrec chain :: "(addr \<Rightarrow> vptr) \<Rightarrow> vptr \<Rightarrow> addr list \<Rightarrow> bool" where
  "chain nx p [] = (p = None)"
| "chain nx p (x # xs) = (p = Some x \<and> chain nx (nx x) xs)"

lemma chain_None [simp]: "chain nx None xs = (xs = [])"
  by (cases xs) simp_all

lemma chain_Some: "chain nx (Some x) xs = (\<exists>ys. xs = x # ys \<and> chain nx (nx x) ys)"
  by (cases xs) auto

lemma chain_unique: "chain nx p xs \<Longrightarrow> chain nx p ys \<Longrightarrow> xs = ys"
  by (induction xs arbitrary: p ys) (auto simp: chain_Some)

lemma chain_upd [simp, chain_intros]:
  "u \<notin> set xs \<Longrightarrow> chain (nx(u := v)) p xs = chain nx p xs"
  by (induction xs arbitrary: p) auto

lemma chain_upd_eta [simp]:
  "u \<notin> set xs \<Longrightarrow> chain (\<lambda>a. if a = u then v else nx a) p xs = chain nx p xs"
  using chain_upd [of u xs nx v p] by (simp add: fun_upd_def)

lemma chain_cong: "(\<And>x. x \<in> set xs \<Longrightarrow> nx x = ny x) \<Longrightarrow> chain nx p xs = chain ny p xs"
  by (induction xs arbitrary: p) auto

lemma chain_tail: "chain nx p (xs @ x # ys) \<Longrightarrow> chain nx (Some x) (x # ys)"
  by (induction xs arbitrary: p) auto

lemma chain_distinct: "chain nx p xs \<Longrightarrow> distinct xs"
proof (induction xs arbitrary: p)
  case Nil
  then show ?case by simp
next
  case (Cons x xs)
  have "x \<notin> set xs"
  proof
    assume "x \<in> set xs"
    then obtain ys zs where xs: "xs = ys @ x # zs"
      by (auto simp: in_set_conv_decomp)
    then have "chain nx (Some x) (x # zs)"
      using Cons.prems chain_tail [of nx p "x # ys" x zs] by simp
    moreover have "chain nx (Some x) (x # xs)" using Cons.prems by simp
    ultimately have "x # zs = x # xs" by (rule chain_unique)
    then have "length zs = length (ys @ x # zs)" using xs by simp
    then show False by simp
  qed
  with Cons show ?case by auto
qed

lemma chain_append:
  "chain nx p (xs @ ys) \<Longrightarrow> \<exists>q. chain nx q ys \<and> (xs = [] \<longrightarrow> q = p)"
  by (induction xs arbitrary: p) auto

text \<open>Appending a node: the last node's \<^verbatim>\<open>next\<close> is set to a node that ends the chain.\<close>

lemma chain_snoc [chain_intros]:
  assumes "chain nx p (xs @ [l])" and "n \<notin> set (xs @ [l])"
  shows "chain (nx(n := None, l := Some n)) p (xs @ [l, n])"
  using assms
proof (induction xs arbitrary: p)
  case Nil
  then show ?case by simp
next
  case (Cons x xs)
  have "x \<noteq> l" using chain_distinct [OF Cons.prems(1)] by simp
  with Cons show ?case by auto
qed

section \<open>Lists\<close>

lemma take_Suc_nth: "n < length xs \<Longrightarrow> take (Suc n) xs = take n xs @ [xs ! n]"
  by (simp add: take_Suc_conv_app_nth)

lemma drop_take_swap: "i + n \<le> length xs \<Longrightarrow> length (take n (drop i xs)) = n"
  by simp

lemma upt_split: "k \<le> n \<Longrightarrow> [0..<n] = [0..<k] @ map (\<lambda>i. i + k) [0..<n - k]"
  using upt_add_eq_append [of 0 k "n - k"] by (simp add: map_add_upt)

lemma nat_int_plus_1 [simp]: "nat (int k + 1) = Suc k"
  by simp

lemma nat_int_minus [simp]: "nat (int n - int k) = n - k"
  by simp

lemma nat_int_minus_Suc [simp]: "nat (int n - (int k + 1)) = n - Suc k"
  by simp

section \<open>The allocator as its clients see it\<close>

text \<open>
  \<^verbatim>\<open>kmalloc\<close> seen from a client that asks for \<open>n\<close> cells: \<^verbatim>\<open>NULL\<close>, or an object of exactly \<open>n\<close>
  cells of unspecified content. A request of size 0 is always refused. The theory of
  \<^verbatim>\<open>kmalloc\<close> proves these laws for the model of \<^verbatim>\<open>source/kernel/src/mm/kmalloc.c\<close>.
\<close>

type_synonym 'a alloc = "nat \<Rightarrow> 'a list option"

locale allocator =
  fixes km :: "'a alloc"
  assumes km_length: "km n = Some xs \<Longrightarrow> length xs = n"
    and km_zero: "km 0 = None"
begin

lemma km_pos: "km n = Some xs \<Longrightarrow> 0 < n"
  using km_zero by (cases n) auto

end

locale ptr_allocator = allocator km for km :: "vptr alloc"

text \<open>An allocator that always succeeds, for examples.\<close>

definition eager_alloc :: "'a \<Rightarrow> 'a alloc" where
  "eager_alloc x n = (if n = 0 then None else Some (replicate n x))"

lemma allocator_eager: "allocator (eager_alloc x)"
  by unfold_locales (auto simp: eager_alloc_def split: if_splits)

section \<open>Calls that may block\<close>

text \<open>The result of a call, or that its thread goes to sleep and runs the call again after it has been woken.\<close>

datatype 'a call = Waits | Returns 'a

end
