(* ===== verification/Kernel_String.thy ===== *)
theory Kernel_String
  imports Kernel_Prelude
begin

text \<open>
  The memory and string routines of \<^verbatim>\<open>source/kernel/src/lib/string.c\<close> and the character
  routines of \<^verbatim>\<open>lib/ctype.c\<close>.

  A pointer into an object is modelled by the cells of that object from the pointer on, so
  \<^verbatim>\<open>*p\<close> is the head of a list, \<^verbatim>\<open>p++\<close> its tail, and reading the empty list is a read past
  the end of the object. \<open>memmove\<close>, whose two arguments may overlap, works on one object and
  two offsets. \<^verbatim>\<open>char\<close> is signed on the i386 target: \<open>sint\<close> reads it.
\<close>

section \<open>Blocks of memory\<close>

fun memset :: "'a list \<Rightarrow> 'a \<Rightarrow> nat \<Rightarrow> 'a list option" where
  "memset s c 0 = Some s"
| "memset [] c (Suc n) = None"
| "memset (x # s) c (Suc n) = map_option ((#) c) (memset s c n)"

fun memcpy :: "'a list \<Rightarrow> 'a list \<Rightarrow> nat \<Rightarrow> 'a list option" where
  "memcpy dest src 0 = Some dest"
| "memcpy (d # dest) (s # src) (Suc n) = map_option ((#) s) (memcpy dest src n)"
| "memcpy _ _ (Suc n) = None"

text \<open>
  \<open>memmove\<close> copies upwards when the destination lies below the source and downwards
  otherwise; \<open>d\<close> and \<open>s\<close> are the offsets of the running pointers \<^verbatim>\<open>_dest\<close> and \<^verbatim>\<open>_src\<close>.
\<close>

fun memmove_up :: "'a list \<Rightarrow> nat \<Rightarrow> nat \<Rightarrow> nat \<Rightarrow> 'a list option" where
  "memmove_up m d s 0 = Some m"
| "memmove_up m d s (Suc n) =
     (if d < length m \<and> s < length m then memmove_up (m[d := m ! s]) (d + 1) (s + 1) n
      else None)"

fun memmove_down :: "'a list \<Rightarrow> nat \<Rightarrow> nat \<Rightarrow> nat \<Rightarrow> 'a list option" where
  "memmove_down m d s 0 = Some m"
| "memmove_down m d s (Suc n) =
     (if 0 < d \<and> 0 < s \<and> d - 1 < length m \<and> s - 1 < length m
      then memmove_down (m[d - 1 := m ! (s - 1)]) (d - 1) (s - 1) n
      else None)"

definition memmove :: "'a list \<Rightarrow> nat \<Rightarrow> nat \<Rightarrow> nat \<Rightarrow> 'a list option" where
  "memmove m dest src n =
     (if dest < src then memmove_up m dest src n
      else memmove_down m (dest + n) (src + n) n)"

fun memcmp :: "byte list \<Rightarrow> byte list \<Rightarrow> nat \<Rightarrow> int option" where
  "memcmp s1 s2 0 = Some 0"
| "memcmp (a # s1) (b # s2) (Suc n) =
     (let res = uint a - uint b in if res \<noteq> 0 then Some res else memcmp s1 s2 n)"
| "memcmp _ _ (Suc n) = None"

section \<open>Characters\<close>

definition isdigit :: "int \<Rightarrow> bool" where
  "isdigit c \<longleftrightarrow> 48 \<le> c \<and> c \<le> 57"

definition islower :: "int \<Rightarrow> bool" where
  "islower c \<longleftrightarrow> 97 \<le> c \<and> c \<le> 122"

definition isupper :: "int \<Rightarrow> bool" where
  "isupper c \<longleftrightarrow> 65 \<le> c \<and> c \<le> 90"

definition toupper :: "int \<Rightarrow> int" where
  "toupper c = (if islower c then c - (97 - 65) else c)"

definition tolower :: "int \<Rightarrow> int" where
  "tolower c = (if isupper c then c + (97 - 65) else c)"

section \<open>Strings\<close>

fun strlen :: "byte list \<Rightarrow> nat option" where
  "strlen [] = None"
| "strlen (c # str) = (if c = 0 then Some 0 else map_option Suc (strlen str))"

fun strcmp :: "byte list \<Rightarrow> byte list \<Rightarrow> int option" where
  "strcmp (a # s1) (b # s2) =
     (let result = sint a - sint b in
      if result \<noteq> 0 \<or> a = 0 then Some result else strcmp s1 s2)"
| "strcmp _ _ = None"

fun strncmp :: "byte list \<Rightarrow> byte list \<Rightarrow> nat \<Rightarrow> int option" where
  "strncmp s1 s2 0 = Some 0"
| "strncmp (a # s1) (b # s2) (Suc c) =
     (let result = sint a - sint b in
      if result \<noteq> 0 \<or> a = 0 then Some result else strncmp s1 s2 c)"
| "strncmp _ _ (Suc c) = None"

fun strcasecmp :: "byte list \<Rightarrow> byte list \<Rightarrow> int option" where
  "strcasecmp (a # s1) (b # s2) =
     (let result = toupper (sint a) - toupper (sint b) in
      if result \<noteq> 0 \<or> a = 0 then Some result else strcasecmp s1 s2)"
| "strcasecmp _ _ = None"

fun strncasecmp :: "byte list \<Rightarrow> byte list \<Rightarrow> nat \<Rightarrow> int option" where
  "strncasecmp s1 s2 0 = Some 0"
| "strncasecmp (a # s1) (b # s2) (Suc c) =
     (let result = toupper (sint a) - toupper (sint b) in
      if result \<noteq> 0 \<or> a = 0 then Some result else strncasecmp s1 s2 c)"
| "strncasecmp _ _ (Suc c) = None"

fun strcpy :: "byte list \<Rightarrow> byte list \<Rightarrow> byte list option" where
  "strcpy (d # dest) (s # src) =
     (if s = 0 then Some (s # dest) else map_option ((#) s) (strcpy dest src))"
| "strcpy _ _ = None"

text \<open>
  \<open>strchr\<close> and \<open>strrchr\<close> return a pointer into the string: here its offset, \<open>Some None\<close>
  for \<^verbatim>\<open>NULL\<close>.
\<close>

fun strchr :: "byte list \<Rightarrow> byte \<Rightarrow> nat option option" where
  "strchr [] c = None"
| "strchr (x # s) c =
     (if x = c then Some (Some 0)
      else if x = 0 then Some None
      else map_option (map_option Suc) (strchr s c))"

fun strrchr_loop :: "byte list \<Rightarrow> byte \<Rightarrow> nat \<Rightarrow> nat option" where
  "strrchr_loop s c 0 = (if s ! 0 = c then Some 0 else None)"
| "strrchr_loop s c (Suc e) = (if s ! Suc e = c then Some (Suc e) else strrchr_loop s c e)"

definition strrchr :: "byte list \<Rightarrow> byte \<Rightarrow> nat option option" where
  "strrchr s c = (case strlen s of None \<Rightarrow> None | Some n \<Rightarrow> Some (strrchr_loop s c n))"

fun strncpy :: "byte list \<Rightarrow> byte list \<Rightarrow> nat \<Rightarrow> byte list option" where
  "strncpy dest src 0 = Some dest"
| "strncpy (d # dest) (s # src) (Suc c) =
     (if s = 0 then Some (s # dest) else map_option ((#) s) (strncpy dest src c))"
| "strncpy _ _ (Suc c) = None"

text \<open>
  \<open>strdup\<close> and \<open>strndup\<close> call \<^verbatim>\<open>kmalloc\<close> (the argument \<open>km\<close>): \<open>Some None\<close> is the \<^verbatim>\<open>NULL\<close> they
  return when it fails.
\<close>

definition strdup :: "byte alloc \<Rightarrow> byte list \<Rightarrow> byte list option option" where
  "strdup km s = do {
     length \<leftarrow> strlen s;
     case km (length + 1) of
       None \<Rightarrow> Some None
     | Some s2 \<Rightarrow> map_option Some (memcpy s2 s (length + 1)) }"

definition strndup :: "byte alloc \<Rightarrow> byte list \<Rightarrow> nat \<Rightarrow> byte list option option" where
  "strndup km s length0 = do {
     real_length \<leftarrow> strlen s;
     let length = (if real_length < length0 then real_length else length0);
     case km (length + 1) of
       None \<Rightarrow> Some None
     | Some s2 \<Rightarrow> do {
         s2 \<leftarrow> memcpy s2 s length;
         map_option Some (write_cell (Some s2) (int length) 0) } }"

fun strcat_loop :: "byte list \<Rightarrow> byte list \<Rightarrow> byte list option" where
  "strcat_loop (d # dest) (s # src) =
     (if s \<noteq> 0 then map_option ((#) s) (strcat_loop dest src) else Some (0 # dest))"
| "strcat_loop _ _ = None"

definition strcat :: "byte list \<Rightarrow> byte list \<Rightarrow> byte list option" where
  "strcat dest src = do {
     dest_len \<leftarrow> strlen dest;
     r \<leftarrow> strcat_loop (drop dest_len dest) src;
     Some (take dest_len dest @ r) }"

fun strncat_loop :: "byte list \<Rightarrow> byte list \<Rightarrow> nat \<Rightarrow> byte list option" where
  "strncat_loop [] src n = None"
| "strncat_loop (d # dest) src 0 = Some (0 # dest)"
| "strncat_loop (d # dest) [] (Suc n) = None"
| "strncat_loop (d # dest) (s # src) (Suc n) =
     (if s \<noteq> 0 then map_option ((#) s) (strncat_loop dest src n) else Some (0 # dest))"

definition strncat :: "byte list \<Rightarrow> byte list \<Rightarrow> nat \<Rightarrow> byte list option" where
  "strncat dest src n = do {
     dest_len \<leftarrow> strlen dest;
     r \<leftarrow> strncat_loop (drop dest_len dest) src n;
     Some (take dest_len dest @ r) }"

text \<open>
  \<open>str_to_num\<close>: \<open>Some None\<close> is the result \<^verbatim>\<open>false\<close>, \<open>Some (Some n)\<close> the result \<^verbatim>\<open>true\<close> with \<open>n\<close>
  stored. The accumulator is a 32 bit \<^verbatim>\<open>int\<close>.
\<close>

fun str_to_num_loop :: "byte list \<Rightarrow> u32 \<Rightarrow> u32 option option" where
  "str_to_num_loop [] number = None"
| "str_to_num_loop (c # string) number =
     (if c = 0 then Some (Some number)
      else if \<not> isdigit (sint c) then Some None
      else str_to_num_loop string (number * 10 + word_of_int (sint c - 48)))"

definition str_to_num :: "byte list \<Rightarrow> u32 option option" where
  "str_to_num string = str_to_num_loop string 0"

section \<open>Blocks: what the loops compute\<close>

lemma memset_eq: "n \<le> length s \<Longrightarrow> memset s c n = Some (replicate n c @ drop n s)"
  by (induction s c n rule: memset.induct) auto

lemma memset_fault: "length s < n \<Longrightarrow> memset s c n = None"
  by (induction s c n rule: memset.induct) auto

lemma memcpy_eq:
  "n \<le> length dest \<Longrightarrow> n \<le> length src \<Longrightarrow> memcpy dest src n = Some (take n src @ drop n dest)"
  by (induction dest src n rule: memcpy.induct) auto

lemma memcpy_Some_iff:
  "memcpy dest src n = Some r \<longleftrightarrow>
     n \<le> length dest \<and> n \<le> length src \<and> r = take n src @ drop n dest"
  by (induction dest src n arbitrary: r rule: memcpy.induct) auto

lemma memmove_up_nth:
  assumes "d < s" and "s + n \<le> length m"
  shows "\<exists>r. memmove_up m d s n = Some r \<and> length r = length m \<and>
    (\<forall>i < length m. r ! i = (if d \<le> i \<and> i < d + n then m ! (i - d + s) else m ! i))"
  using assms
proof (induction n arbitrary: m d s)
  case 0
  then show ?case by auto
next
  case (Suc n)
  let ?m = "m[d := m ! s]"
  obtain r where r: "memmove_up ?m (d + 1) (s + 1) n = Some r" "length r = length ?m"
    "\<And>i. i < length ?m \<Longrightarrow>
       r ! i = (if d + 1 \<le> i \<and> i < d + 1 + n then ?m ! (i - (d + 1) + (s + 1)) else ?m ! i)"
    using Suc.IH [of "d + 1" "s + 1" ?m] Suc.prems by auto
  have "r ! i = (if d \<le> i \<and> i < d + Suc n then m ! (i - d + s) else m ! i)"
    if "i < length m" for i
    using r(3) [of i] that Suc.prems by (cases "i = d") (auto simp: nth_list_update Suc_diff_Suc)
  with r(1,2) Suc.prems show ?case by auto
qed

lemma memmove_down_nth:
  assumes "s \<le> d" and "d + n \<le> length m"
  shows "\<exists>r. memmove_down m (d + n) (s + n) n = Some r \<and> length r = length m \<and>
    (\<forall>i < length m. r ! i = (if d \<le> i \<and> i < d + n then m ! (i - d + s) else m ! i))"
  using assms
proof (induction n arbitrary: m)
  case 0
  then show ?case by auto
next
  case (Suc n)
  let ?m = "m[d + n := m ! (s + n)]"
  obtain r where r: "memmove_down ?m (d + n) (s + n) n = Some r" "length r = length ?m"
    "\<And>i. i < length ?m \<Longrightarrow>
       r ! i = (if d \<le> i \<and> i < d + n then ?m ! (i - d + s) else ?m ! i)"
    using Suc.IH [of ?m] Suc.prems by auto
  have "r ! i = (if d \<le> i \<and> i < d + Suc n then m ! (i - d + s) else m ! i)"
    if "i < length m" for i
    using r(3) [of i] that Suc.prems by (cases "i = d + n") (auto simp: nth_list_update add.commute)
  with r(1,2) Suc.prems show ?case by auto
qed

lemma memmove_eq:
  assumes "dest + n \<le> length m" and "src + n \<le> length m"
  shows "memmove m dest src n =
    Some (take dest m @ take n (drop src m) @ drop (dest + n) m)"
proof -
  have "\<exists>r. memmove m dest src n = Some r \<and> length r = length m \<and>
    (\<forall>i < length m. r ! i =
      (if dest \<le> i \<and> i < dest + n then m ! (i - dest + src) else m ! i))"
    using memmove_up_nth [of dest src n m] memmove_down_nth [of src dest n m] assms
    by (cases "dest < src") (simp_all add: memmove_def)
  then obtain r where r: "memmove m dest src n = Some r" "length r = length m"
    "\<And>i. i < length m \<Longrightarrow> r ! i =
      (if dest \<le> i \<and> i < dest + n then m ! (i - dest + src) else m ! i)"
    by blast
  have "r = take dest m @ take n (drop src m) @ drop (dest + n) m"
    using r(2,3) assms
    by (intro nth_equalityI) (auto simp: nth_append min_absorb2 add.commute)
  with r(1) show ?thesis by simp
qed

lemma memcmp_zero_iff:
  "n \<le> length s1 \<Longrightarrow> n \<le> length s2 \<Longrightarrow>
     memcmp s1 s2 n = Some 0 \<longleftrightarrow> take n s1 = take n s2"
  by (induction s1 s2 n rule: memcmp.induct) (auto simp: Let_def word_uint_eq_iff)

section \<open>Strings: what the loops compute\<close>

text \<open>
  A C string \<open>s\<close> in memory is \<open>s @ 0 # r\<close> with no zero byte in \<open>s\<close>; \<open>r\<close> is the rest of the
  object.
\<close>

lemma strlen_eq [simp]: "0 \<notin> set s \<Longrightarrow> strlen (s @ 0 # r) = Some (length s)"
  by (induction s) auto

lemma sint_inj: "sint (a :: byte) = sint b \<longleftrightarrow> a = b"
  by (metis signed_word_eqI)

lemma sint_eq_0: "sint (a :: byte) = 0 \<longleftrightarrow> a = 0"
  using sint_inj [of a 0] by simp

lemma strcmp_total:
  assumes "0 \<notin> set s" and "0 \<notin> set t"
  shows "\<exists>r. strcmp (s @ 0 # x) (t @ 0 # y) = Some r \<and> (r = 0 \<longleftrightarrow> s = t)"
  using assms
proof (induction s arbitrary: t)
  case Nil
  then show ?case by (cases t) (auto simp: Let_def sint_eq_0)
next
  case (Cons a s)
  show ?case
  proof (cases t)
    case Nil
    with Cons.prems show ?thesis by (auto simp: Let_def sint_eq_0)
  next
    case (Cons b t')
    with \<open>0 \<notin> set (a # s)\<close> Cons.prems(2) Cons.IH [of t'] show ?thesis
      by (auto simp: Let_def sint_inj)
  qed
qed

lemma strncmp_zero_iff:
  assumes "0 \<notin> set s" and "0 \<notin> set t"
  shows "\<exists>r. strncmp (s @ 0 # x) (t @ 0 # y) c = Some r \<and> (r = 0 \<longleftrightarrow> take c s = take c t)"
  using assms
proof (induction s arbitrary: t c)
  case Nil
  then show ?case by (cases t; cases c) (auto simp: Let_def sint_eq_0)
next
  case (Cons a s)
  show ?case
  proof (cases c)
    case 0
    then show ?thesis by simp
  next
    case (Suc c')
    with Cons.prems Cons.IH [of "tl t" c'] show ?thesis
      by (cases t) (auto simp: Let_def sint_inj sint_eq_0)
  qed
qed

lemma toupper_idem: "toupper (toupper c) = toupper c"
  by (simp add: toupper_def islower_def)

lemma toupper_tolower: "isupper c \<Longrightarrow> toupper (tolower c) = c"
  by (simp add: toupper_def tolower_def islower_def isupper_def)

lemma strcasecmp_zero_iff:
  assumes "0 \<notin> set s" and "0 \<notin> set t"
  shows "\<exists>r. strcasecmp (s @ 0 # x) (t @ 0 # y) = Some r \<and>
    (r = 0 \<longleftrightarrow> map (toupper \<circ> sint) s = map (toupper \<circ> sint) t)"
  using assms
proof (induction s arbitrary: t)
  case Nil
  have nz: "toupper (sint b) \<noteq> 0" if "b \<noteq> (0 :: byte)" for b
    using that by (auto simp: toupper_def islower_def sint_eq_0)
  from Nil show ?case by (cases t) (auto simp: Let_def toupper_def islower_def dest: nz)
next
  case (Cons a s)
  have nz: "toupper (sint b) \<noteq> 0" if "b \<noteq> (0 :: byte)" for b
    using that by (auto simp: toupper_def islower_def sint_eq_0)
  have t0: "toupper 0 = 0" by (simp add: toupper_def islower_def)
  show ?case
  proof (cases t)
    case Nil
    with Cons.prems nz t0 show ?thesis by (auto simp: Let_def)
  next
    case (Cons b t')
    with \<open>0 \<notin> set (a # s)\<close> Cons.prems(2) Cons.IH [of t'] show ?thesis
      by (auto simp: Let_def)
  qed
qed

lemma strcpy_eq:
  "0 \<notin> set s \<Longrightarrow> length s < length dest \<Longrightarrow>
     strcpy dest (s @ 0 # x) = Some (s @ 0 # drop (Suc (length s)) dest)"
proof (induction s arbitrary: dest)
  case Nil
  then show ?case by (cases dest) auto
next
  case (Cons a s)
  then show ?case by (cases dest) auto
qed

text \<open>\<open>strncpy\<close> stops at the terminator and does not pad; a source of \<open>c\<close> bytes or more
  leaves the destination without one.\<close>

lemma strncpy_eq:
  "0 \<notin> set s \<Longrightarrow> c \<le> length dest \<Longrightarrow>
     strncpy dest (s @ 0 # x) c =
       Some (if c \<le> length s then take c s @ drop c dest
             else s @ 0 # drop (Suc (length s)) dest)"
proof (induction s arbitrary: dest c)
  case Nil
  then show ?case by (cases dest; cases c) auto
next
  case (Cons a s)
  then show ?case by (cases dest; cases c) auto
qed

lemma strchr_eq:
  "0 \<notin> set s \<Longrightarrow> c \<noteq> 0 \<Longrightarrow>
     strchr (s @ 0 # x) c =
       Some (if c \<in> set s then Some (length (takeWhile (\<lambda>b. b \<noteq> c) s)) else None)"
  by (induction s) auto

lemma strcat_loop_eq:
  "0 \<notin> set s \<Longrightarrow> length s < length dest \<Longrightarrow>
     strcat_loop dest (s @ 0 # x) = Some (s @ 0 # drop (Suc (length s)) dest)"
proof (induction s arbitrary: dest)
  case Nil
  then show ?case by (cases dest) auto
next
  case (Cons a s)
  then show ?case by (cases dest) auto
qed

lemma strcat_eq:
  assumes "0 \<notin> set d" and "0 \<notin> set s" and "length s \<le> length r"
  shows "strcat (d @ 0 # r) (s @ 0 # x) = Some (d @ s @ 0 # drop (length s) r)"
  using assms by (simp add: strcat_def strcat_loop_eq)

lemma strncat_loop_eq:
  "0 \<notin> set s \<Longrightarrow> min n (length s) < length dest \<Longrightarrow>
     strncat_loop dest (s @ 0 # x) n = Some (take n s @ 0 # drop (Suc (min n (length s))) dest)"
proof (induction s arbitrary: dest n)
  case Nil
  then show ?case by (cases dest; cases n) auto
next
  case (Cons a s)
  then show ?case by (cases dest; cases n) auto
qed

lemma strncat_eq:
  assumes "0 \<notin> set d" and "0 \<notin> set s" and "min n (length s) \<le> length r"
  shows "strncat (d @ 0 # r) (s @ 0 # x) n =
    Some (d @ take n s @ 0 # drop (min n (length s)) r)"
  using assms by (simp add: strncat_def strncat_loop_eq)

lemma strrchr_loop_eq:
  "strrchr_loop s c e =
     (if \<exists>i\<le>e. s ! i = c then Some (Max {i. i \<le> e \<and> s ! i = c}) else None)"
proof (induction e)
  case 0
  have "{i. i = 0 \<and> s ! i = c} = (if s ! 0 = c then {0} else {})" by auto
  then show ?case by auto
next
  case (Suc e)
  show ?case
  proof (cases "s ! Suc e = c")
    case True
    then have "Max {i. i \<le> Suc e \<and> s ! i = c} = Suc e"
      by (intro Max_eqI) auto
    with True show ?thesis by auto
  next
    case False
    then have "{i. i \<le> Suc e \<and> s ! i = c} = {i. i \<le> e \<and> s ! i = c}"
      by (auto simp: le_Suc_eq)
    moreover have "(\<exists>i\<le>Suc e. s ! i = c) = (\<exists>i\<le>e. s ! i = c)"
      using False by (auto simp: le_Suc_eq)
    ultimately show ?thesis using False Suc.IH by simp
  qed
qed

section \<open>Duplicating strings, with the allocator's laws\<close>

context allocator
begin

lemma km_cells: "km n = Some xs \<Longrightarrow> n \<le> length xs"
  by (simp add: km_length)

end

lemma strdup_eq:
  assumes "allocator km" and "0 \<notin> set s"
  shows "strdup km (s @ 0 # x) =
    Some (if km (length s + 1) = None then None else Some (s @ [0]))"
  using assms allocator.km_length [of km]
  by (auto simp: strdup_def memcpy_eq split: option.splits)

lemma strndup_eq:
  assumes "allocator km" and "0 \<notin> set s"
  shows "strndup km (s @ 0 # x) n =
    Some (if km (length (take n s) + 1) = None then None else Some (take n s @ [0]))"
proof (cases "km (length (take n s) + 1)")
  case None
  have n: "length (take n s) = (if length s < n then length s else n)" by auto
  show ?thesis using None assms(2) unfolding n by (simp add: strndup_def)
next
  case (Some b)
  let ?n = "length (take n s)"
  have b: "length b = ?n + 1" using assms(1) Some by (rule allocator.km_length)
  have n: "?n = (if length s < n then length s else n)" by auto
  have t: "take ?n (s @ 0 # x) = take n s" by (simp add: min_def)
  have "drop ?n b = [b ! ?n]" using b by (simp add: Cons_nth_drop_Suc [symmetric])
  with b have "memcpy b (s @ 0 # x) ?n = Some (take n s @ [b ! ?n])"
    by (subst memcpy_eq) (auto simp: t min_def)
  moreover have "write_cell (Some (take n s @ [b ! ?n])) (int ?n) 0 = Some (take n s @ [0])"
    by (simp add: write_cell_def list_update_append)
  ultimately show ?thesis using Some assms(2) unfolding n by (simp add: strndup_def)
qed

section \<open>Decimal numbers\<close>

text \<open>The number a string of decimal digits denotes.\<close>

definition dec_value :: "byte list \<Rightarrow> nat" where
  "dec_value s = foldl (\<lambda>n c. n * 10 + nat (sint c - 48)) 0 s"

lemma str_to_num_loop_digits:
  "\<forall>c \<in> set s. isdigit (sint c) \<Longrightarrow>
     str_to_num_loop (s @ 0 # x) (of_nat n) =
       Some (Some (of_nat (foldl (\<lambda>n c. n * 10 + nat (sint c - 48)) n s)))"
proof (induction s arbitrary: n)
  case Nil
  then show ?case by simp
next
  case (Cons c s)
  have c: "isdigit (sint c)" using Cons.prems by simp
  then have "c \<noteq> 0" by (auto simp: isdigit_def)
  moreover have "of_nat (nat (sint c - 48)) = (word_of_int (sint c - 48) :: u32)"
    using c of_int_of_nat_eq [of "nat (sint c - 48)", where ?'a = u32]
    by (simp add: isdigit_def)
  then have "of_nat n * 10 + word_of_int (sint c - 48) =
      (of_nat (n * 10 + nat (sint c - 48)) :: u32)"
    by simp
  ultimately show ?case
    using c Cons.prems Cons.IH [of "n * 10 + nat (sint c - 48)"] by simp
qed

lemma str_to_num_loop_reject:
  assumes "0 \<notin> set s" and "\<exists>c \<in> set s. \<not> isdigit (sint c)"
  shows "str_to_num_loop (s @ 0 # x) n = Some None"
  using assms by (induction s arbitrary: n) auto

section \<open>Properties\<close>

text \<open>\<open>memmove\<close> copies correctly when source and destination overlap in either direction and
  touches no byte outside the destination: the result is the old block with the destination range
  replaced by the \<^emph>\<open>old\<close> content of the source range.\<close>

theorem memmove_overlap:
  assumes "dest + n \<le> length m" and "src + n \<le> length m"
  shows "\<exists>r. memmove m dest src n = Some r \<and> length r = length m \<and>
    (\<forall>i < n. r ! (dest + i) = m ! (src + i)) \<and>
    (\<forall>i < length m. i < dest \<or> dest + n \<le> i \<longrightarrow> r ! i = m ! i)"
proof -
  have "length (take n (drop src m)) = n" "length (take dest m) = dest" using assms by simp_all
  with assms show ?thesis by (auto simp: memmove_eq nth_append simp del: length_take)
qed

theorem memmove_overlap_witness:
  "\<exists>r. memmove [1, 2, 3, 4, 5 :: nat] 1 0 3 = Some r \<and> r = [1, 1, 2, 3, 5]"
  using memmove_overlap [of 1 3 "[1, 2, 3, 4, 5 :: nat]" 0]
  by (simp add: memmove_def eval_nat_numeral)

text \<open>The sign of \<open>strcmp\<close>: the order of the strings, terminators included, by signed characters.\<close>

lemma strcmp_sign:
  assumes "0 \<notin> set s" and "0 \<notin> set t" and "strcmp (s @ 0 # x) (t @ 0 # y) = Some r"
  shows "r < 0 \<longleftrightarrow> (map sint s @ [0], map sint t @ [0]) \<in> lexord {(a, b). a < b}"
  using assms
proof (induction s arbitrary: t)
  case Nil
  then show ?case by (cases t) (auto simp: Let_def sint_eq_0 split: if_splits)
next
  case (Cons a s)
  show ?case
  proof (cases t)
    case Nil
    then show ?thesis using Cons.prems by (auto simp: Let_def sint_eq_0 split: if_splits)
  next
    case (Cons b t')
    then show ?thesis using Cons.prems Cons.IH [of t'] \<open>0 \<notin> set (a # s)\<close>
      by (cases "a = b") (auto simp: Let_def sint_inj split: if_splits)
  qed
qed

text \<open>\<open>strcmp\<close> on two NUL-terminated strings always returns; the result is 0 exactly for equal
  strings, and it is negative exactly when the first string, with its terminator, precedes the
  second in the lexicographic order of signed characters.\<close>

theorem strcmp_orders_strings:
  assumes "0 \<notin> set s" and "0 \<notin> set t"
  shows "\<exists>r. strcmp (s @ 0 # x) (t @ 0 # y) = Some r \<and> (r = 0 \<longleftrightarrow> s = t) \<and>
    (r < 0 \<longleftrightarrow> (map sint s @ [0], map sint t @ [0]) \<in> lexord {(a, b). a < b})"
  using strcmp_total [OF assms, of x y] strcmp_sign [OF assms] by blast

theorem strcmp_orders_strings_witness:
  "\<exists>r. strcmp ([97, 98] @ 0 # []) ([97, 99] @ 0 # []) = Some r \<and> r < 0"
  using strcmp_orders_strings [of "[97, 98]" "[97, 99]" "[]" "[]"] by auto

text \<open>\<open>str_to_num\<close> returns \<^verbatim>\<open>true\<close> with the value of the decimal number, reduced to 32 bits, for a
  string of digits, and \<^verbatim>\<open>false\<close> as soon as there is another character.\<close>

theorem str_to_num_correct:
  assumes "0 \<notin> set s"
  shows "str_to_num (s @ 0 # x) =
    Some (if \<forall>c \<in> set s. isdigit (sint c) then Some (of_nat (dec_value s)) else None)"
  using assms str_to_num_loop_digits [of s x 0] str_to_num_loop_reject [of s x 0]
  by (simp add: str_to_num_def dec_value_def)

theorem str_to_num_correct_witness:
  "str_to_num ([52, 50] @ 0 # [7]) = Some (Some 42)"
  using str_to_num_correct [of "[52, 50]" "[7]"] by (simp add: isdigit_def dec_value_def)

end
