(* ===== verification/Kernel_Array.thy ===== *)
theory Kernel_Array
  imports Kernel_String
begin

text \<open>
  The growable pointer array of \<^verbatim>\<open>source/kernel/src/lib/array.c\<close>: \<open>array_t\<close> with its counters
  and its block of pointers, every operation of the file, the invariant that ties the
  counters to the block, and the refinement to operations on lists. Each operation returns
  \<open>None\<close> if it would touch a cell outside the block, so that an equation with \<open>Some\<close> on the
  right also says that the operation is memory safe.

  The counters are C \<^verbatim>\<open>int\<close>s. An array of \<open>2^31\<close> pointers does not fit the address space of
  the machine, so they are integers without wrap-around here.
\<close>

section \<open>Data\<close>

record array_t =
  item_count :: int
  max_item_count :: int
  realloc_size :: int
  items :: "vptr list option"

section \<open>Operations\<close>

definition check_array_buffer ::
    "vptr alloc \<Rightarrow> array_t \<Rightarrow> int \<Rightarrow> ((errno + unit) \<times> array_t) option" where
  "check_array_buffer km array new_item_count =
     (if item_count array + new_item_count \<le> max_item_count array then Some (Inr (), array)
      else case km (nat (max_item_count array + realloc_size array)) of
        None \<Rightarrow> Some (Inl ENOMEM, array)
      | Some new_items \<Rightarrow> do {
          new_items \<leftarrow> memcpy new_items
             (case items array of None \<Rightarrow> [] | Some xs \<Rightarrow> xs) (nat (max_item_count array));
          Some (Inr (), array\<lparr> items := Some new_items,
            max_item_count := max_item_count array + realloc_size array \<rparr>) })"

definition array_add_item ::
    "vptr alloc \<Rightarrow> array_t \<Rightarrow> vptr \<Rightarrow> ((errno + unit) \<times> array_t) option" where
  "array_add_item km array item = do {
     (error, array) \<leftarrow> check_array_buffer km array 1;
     case error of
       Inl e \<Rightarrow> Some (Inl e, array)
     | Inr _ \<Rightarrow> do {
         xs \<leftarrow> write_cell (items array) (item_count array) item;
         Some (Inr (), array\<lparr> items := Some xs, item_count := item_count array + 1 \<rparr>) } }"

definition array_insert_item ::
    "vptr alloc \<Rightarrow> array_t \<Rightarrow> int \<Rightarrow> vptr \<Rightarrow> ((errno + unit) \<times> array_t) option" where
  "array_insert_item km array index item =
     (if index < 0 \<or> index > item_count array then Some (Inl EINVAL, array)
      else do {
        (error, array) \<leftarrow> check_array_buffer km array 1;
        case error of
          Inl e \<Rightarrow> Some (Inl e, array)
        | Inr _ \<Rightarrow> do {
            let count = item_count array - index;
            xs \<leftarrow> items array;
            xs \<leftarrow> (if count > 0 then memmove xs (nat (index + 1)) (nat index) (nat count)
                  else Some xs);
            xs \<leftarrow> write_cell (Some xs) index item;
            Some (Inr (), array\<lparr> items := Some xs, item_count := item_count array + 1 \<rparr>) } })"

text \<open>The search loop of \<open>array_remove_item\<close> and \<open>array_index_of\<close>: the first hit at or after
  \<open>i\<close>, or \<open>sz\<close>.\<close>

function array_find :: "vptr list option \<Rightarrow> vptr \<Rightarrow> int \<Rightarrow> int \<Rightarrow> int option" where
  "array_find blk item i sz =
     (if i < sz then do {
        x \<leftarrow> read_cell blk i;
        if x = item then Some i else array_find blk item (i + 1) sz }
      else Some i)"
  by pat_completeness auto
termination
  by (relation "measure (\<lambda>(blk, item, i, sz). nat (sz - i))") auto

declare array_find.simps [simp del]

definition array_remove_item :: "array_t \<Rightarrow> vptr \<Rightarrow> ((errno + unit) \<times> array_t) option" where
  "array_remove_item array item = do {
     let sz = item_count array;
     i \<leftarrow> array_find (items array) item 0 sz;
     if i = sz then Some (Inl ENOENT, array)
     else do {
       xs \<leftarrow> items array;
       xs \<leftarrow> memmove xs (nat i) (nat (i + 1)) (nat (sz - (i + 1)));
       Some (Inr (), array\<lparr> items := Some xs, item_count := item_count array - 1 \<rparr>) } }"

definition array_remove_item_from :: "array_t \<Rightarrow> int \<Rightarrow> ((errno + unit) \<times> array_t) option" where
  "array_remove_item_from array index =
     (if index < 0 \<or> index \<ge> item_count array then Some (Inl EINVAL, array)
      else do {
        xs \<leftarrow> items array;
        xs \<leftarrow> memmove xs (nat index) (nat (index + 1)) (nat (item_count array - (index + 1)));
        Some (Inr (), array\<lparr> items := Some xs, item_count := item_count array - 1 \<rparr>) })"

definition array_get_size :: "array_t \<Rightarrow> int" where
  "array_get_size array = item_count array"

definition array_get_item :: "array_t \<Rightarrow> int \<Rightarrow> vptr option" where
  "array_get_item array index =
     (if index < 0 \<or> index \<ge> item_count array then Some None
      else read_cell (items array) index)"

definition array_index_of :: "array_t \<Rightarrow> vptr \<Rightarrow> int option" where
  "array_index_of array item = do {
     i \<leftarrow> array_find (items array) item 0 (item_count array);
     Some (if i < item_count array then i else - 1) }"

definition array_make_empty :: "array_t \<Rightarrow> array_t option" where
  "array_make_empty array = do {
     xs \<leftarrow> memset (case items array of None \<Rightarrow> [] | Some xs \<Rightarrow> xs) None
            (nat (max_item_count array));
     Some (array\<lparr> item_count := 0, items := map_option (\<lambda>_. xs) (items array) \<rparr>) }"

definition array_set_realloc_size :: "array_t \<Rightarrow> int \<Rightarrow> (errno + unit) \<times> array_t" where
  "array_set_realloc_size array n =
     (if n \<le> 0 then (Inl EINVAL, array) else (Inr (), array\<lparr> realloc_size := n \<rparr>))"

definition array_init :: array_t where
  "array_init = \<lparr> item_count = 0, max_item_count = 0, realloc_size = 1, items = None \<rparr>"

definition array_destroy :: "array_t \<Rightarrow> array_t" where
  "array_destroy array = array\<lparr> items := None \<rparr>"

section \<open>Invariant and abstraction\<close>

text \<open>
  The block holds \<open>max_item_count\<close> pointers, of which the first \<open>item_count\<close> are the array's
  content; an array that never grew has no block.
\<close>

definition array_cells :: "array_t \<Rightarrow> vptr list" where
  "array_cells a = (case items a of None \<Rightarrow> [] | Some xs \<Rightarrow> xs)"

definition array_inv :: "array_t \<Rightarrow> bool" where
  "array_inv a \<longleftrightarrow> 0 \<le> item_count a \<and> item_count a \<le> max_item_count a \<and>
     max_item_count a = int (length (array_cells a)) \<and> 1 \<le> realloc_size a \<and>
     (items a = None \<longrightarrow> max_item_count a = 0)"

definition array_list :: "array_t \<Rightarrow> vptr list" where
  "array_list a = take (nat (item_count a)) (array_cells a)"

lemma array_inv_init [simp]: "array_inv array_init"
  by (simp add: array_inv_def array_init_def array_cells_def)

lemma array_list_init [simp]: "array_list array_init = []"
  by (simp add: array_list_def array_init_def array_cells_def)

lemma length_array_list: "array_inv a \<Longrightarrow> int (length (array_list a)) = item_count a"
  by (auto simp: array_inv_def array_list_def)

lemma array_list_nth: "array_inv a \<Longrightarrow> 0 \<le> i \<Longrightarrow> i < item_count a \<Longrightarrow>
    array_list a ! nat i = array_cells a ! nat i"
  by (simp add: array_list_def array_inv_def)

lemma array_list_upd:
  "array_list (a\<lparr> items := Some xs, item_count := int n \<rparr>) = take n xs"
  by (simp add: array_list_def array_cells_def)

text \<open>An array with room for one more item: the state in which the writers run.\<close>

lemma array_state_cases:
  assumes "array_inv a" and "item_count a < max_item_count a"
  obtains xs n where "items a = Some xs" "item_count a = int n" "n < length xs"
    "max_item_count a = int (length xs)" "array_list a = take n xs" "1 \<le> realloc_size a"
proof -
  from assms obtain xs where xs: "items a = Some xs"
    by (cases "items a") (auto simp: array_inv_def)
  show ?thesis
    by (rule that [of xs "nat (item_count a)"])
      (use assms xs in \<open>auto simp: array_inv_def array_list_def array_cells_def\<close>)
qed

lemma check_array_buffer_ok:
  assumes "allocator km" and "array_inv a"
  shows "\<exists>r a'. check_array_buffer km a 1 = Some (r, a') \<and> array_inv a' \<and>
    array_list a' = array_list a \<and> item_count a' = item_count a \<and>
    realloc_size a' = realloc_size a \<and>
    (r = Inr () \<and> item_count a' < max_item_count a' \<or> r = Inl ENOMEM \<and> a' = a)"
proof (cases "item_count a + 1 \<le> max_item_count a")
  case True
  with assms show ?thesis by (simp add: check_array_buffer_def)
next
  case False
  let ?n = "nat (max_item_count a + realloc_size a)"
  show ?thesis
  proof (cases "km ?n")
    case None
    with False assms show ?thesis by (simp add: check_array_buffer_def)
  next
    case (Some b)
    have b: "length b = ?n" using assms(1) Some by (rule allocator.km_length)
    let ?xs = "take (nat (max_item_count a)) (array_cells a) @ drop (nat (max_item_count a)) b"
    let ?a = "a\<lparr> items := Some ?xs, max_item_count := max_item_count a + realloc_size a \<rparr>"
    have "memcpy b (array_cells a) (nat (max_item_count a)) = Some ?xs"
      using b assms(2) by (intro memcpy_eq) (auto simp: array_inv_def)
    then have "check_array_buffer km a 1 = Some (Inr (), ?a)"
      using False Some by (simp add: check_array_buffer_def array_cells_def [symmetric])
    moreover have "array_inv ?a" "array_list ?a = array_list a"
      using b assms(2) by (auto simp: array_inv_def array_list_def array_cells_def)
    moreover have "item_count ?a < max_item_count ?a"
      using assms(2) by (simp add: array_inv_def)
    ultimately show ?thesis by auto
  qed
qed

section \<open>The operations refine operations on lists\<close>

text \<open>Insertion into and removal from a list, the specification side.\<close>

definition insert_at :: "nat \<Rightarrow> 'a \<Rightarrow> 'a list \<Rightarrow> 'a list" where
  "insert_at i x xs = take i xs @ x # drop i xs"

definition remove_at :: "nat \<Rightarrow> 'a list \<Rightarrow> 'a list" where
  "remove_at i xs = take i xs @ drop (Suc i) xs"

lemma length_insert_at: "i \<le> length xs \<Longrightarrow> length (insert_at i x xs) = Suc (length xs)"
  by (simp add: insert_at_def)

lemma insert_at_end [simp]: "insert_at (length xs) x xs = xs @ [x]"
  by (simp add: insert_at_def)

lemma set_insert_at: "i \<le> length xs \<Longrightarrow> set (insert_at i x xs) = insert x (set xs)"
proof -
  have "set xs = set (take i xs) \<union> set (drop i xs)"
    by (metis append_take_drop_id set_append)
  then show ?thesis by (auto simp: insert_at_def)
qed

lemma remove_at_insert_at: "i \<le> length xs \<Longrightarrow> remove_at i (insert_at i x xs) = xs"
  by (simp add: remove_at_def insert_at_def)

text \<open>What the shifting of cells does to the first \<open>n\<close> of them.\<close>

lemma shift_up_cells:
  assumes "i \<le> n" and "n < length xs"
  shows "\<exists>ys. memmove xs (Suc i) i (n - i) = Some ys \<and> length ys = length xs \<and>
    take (Suc n) (ys[i := x]) = insert_at i x (take n xs)"
proof -
  let ?ys = "take (Suc i) xs @ take (n - i) (drop i xs) @ drop (Suc n) xs"
  have m: "memmove xs (Suc i) i (n - i) = Some ?ys"
    using assms by (subst memmove_eq) auto
  have l: "length ?ys = length xs" using assms by auto
  have "?ys[i := x] = take i xs @ x # take (n - i) (drop i xs) @ drop (Suc n) xs"
    using assms by (simp add: take_Suc_nth list_update_append)
  then have "take (Suc n) (?ys[i := x]) = insert_at i x (take n xs)"
    using assms by (simp add: insert_at_def drop_take Suc_diff_le min_absorb2)
  with m l show ?thesis by blast
qed

lemma shift_down_cells:
  assumes "i < n" and "n \<le> length xs"
  shows "\<exists>ys. memmove xs i (Suc i) (n - Suc i) = Some ys \<and> length ys = length xs \<and>
    take (n - 1) ys = remove_at i (take n xs)"
proof -
  let ?ys = "take i xs @ take (n - Suc i) (drop (Suc i) xs) @ drop (n - 1) xs"
  have m: "memmove xs i (Suc i) (n - Suc i) = Some ?ys"
    using assms by (subst memmove_eq) auto
  have l: "length ?ys = length xs" using assms by auto
  have "take (n - 1) ?ys = remove_at i (take n xs)"
    using assms by (auto simp: remove_at_def drop_take)
  with m l show ?thesis by blast
qed

lemma array_insert_item_refines:
  assumes "allocator km" and "array_inv a" and "0 \<le> i" and "i \<le> item_count a"
  shows "\<exists>r a'. array_insert_item km a i x = Some (r, a') \<and> array_inv a' \<and>
    realloc_size a' = realloc_size a \<and>
    (r = Inr () \<and> array_list a' = insert_at (nat i) x (array_list a) \<or>
     r = Inl ENOMEM \<and> a' = a)"
proof -
  obtain r b where b: "check_array_buffer km a 1 = Some (r, b)" "array_inv b"
    "array_list b = array_list a" "item_count b = item_count a"
    "realloc_size b = realloc_size a"
    "r = Inr () \<and> item_count b < max_item_count b \<or> r = Inl ENOMEM \<and> b = a"
    using check_array_buffer_ok [OF assms(1,2)] by blast
  show ?thesis
  proof (cases r)
    case (Inl e)
    with assms b show ?thesis by (auto simp: array_insert_item_def)
  next
    case (Inr u)
    with b have room: "item_count b < max_item_count b" and r: "r = Inr ()" by auto
    obtain xs n where xs: "items b = Some xs" "item_count b = int n" "n < length xs"
      "max_item_count b = int (length xs)" "array_list b = take n xs" "1 \<le> realloc_size b"
      using array_state_cases [OF b(2) room] by blast
    have n: "item_count a = int n" using b(4) xs(2) by simp
    obtain k where k: "i = int k" "k \<le> n"
      using assms(3,4) n by (metis nonneg_int_cases of_nat_le_iff)
    obtain ys where ys: "memmove xs (Suc k) k (n - k) = Some ys" "length ys = length xs"
      "take (Suc n) (ys[k := x]) = insert_at k x (take n xs)"
      using shift_up_cells [OF k(2) xs(3)] by blast
    let ?zs = "if k < n then ys else xs"
    have z: "take (Suc n) (?zs[k := x]) = insert_at k x (take n xs)" "length ?zs = length xs"
      using ys k(2) xs(3) by (auto simp: memmove_def split: if_splits)
    have "array_insert_item km a i x =
      Some (Inr (), b\<lparr> items := Some (?zs[k := x]), item_count := int (Suc n) \<rparr>)"
      using b(1) r n k xs ys by (auto simp: array_insert_item_def write_cell_def)
    moreover have "array_inv (b\<lparr> items := Some (?zs[k := x]), item_count := int (Suc n) \<rparr>)"
      using xs z(2) by (auto simp: array_inv_def array_cells_def)
    moreover have "array_list (b\<lparr> items := Some (?zs[k := x]), item_count := int (Suc n) \<rparr>)
        = insert_at (nat i) x (array_list a)"
      using z(1) k b(3) xs(5) by (simp only: array_list_upd nat_int)
    ultimately show ?thesis using b(5) by auto
  qed
qed

lemma array_add_item_insert:
  assumes "allocator km" and "array_inv a"
  shows "array_add_item km a x = array_insert_item km a (item_count a) x"
proof -
  obtain r b where b: "check_array_buffer km a 1 = Some (r, b)" "item_count b = item_count a"
    "array_inv b" "r = Inr () \<and> item_count b < max_item_count b \<or> r = Inl ENOMEM \<and> b = a"
    using check_array_buffer_ok [OF assms] by blast
  have "0 \<le> item_count a" using assms(2) by (simp add: array_inv_def)
  with b show ?thesis
    by (auto simp: array_add_item_def array_insert_item_def array_inv_def array_cells_def
        split: option.splits)
qed

lemma array_find_spec:
  assumes "n \<le> length xs" and "i \<le> n"
  shows "\<exists>k. array_find (Some xs) x (int i) (int n) = Some (int k) \<and> i \<le> k \<and> k \<le> n \<and>
    x \<notin> set (take (k - i) (drop i xs)) \<and> (k < n \<longrightarrow> xs ! k = x)"
  using assms
proof (induction "n - i" arbitrary: i)
  case 0
  then show ?case by (simp add: array_find.simps)
next
  case (Suc m)
  then have i: "i < n" "m = n - Suc i" by simp_all
  show ?case
  proof (cases "xs ! i = x")
    case True
    with i Suc.prems show ?thesis
      by (subst array_find.simps) (auto simp: read_cell_def intro!: exI [of _ i])
  next
    case False
    obtain k where k: "array_find (Some xs) x (int (Suc i)) (int n) = Some (int k)"
      "Suc i \<le> k" "k \<le> n" "x \<notin> set (take (k - Suc i) (drop (Suc i) xs))"
      "k < n \<longrightarrow> xs ! k = x"
      using Suc.hyps(1) [of "Suc i"] Suc.prems i by auto
    have "drop i xs = xs ! i # drop (Suc i) xs"
      using i Suc.prems by (simp add: Cons_nth_drop_Suc)
    then have "x \<notin> set (take (k - i) (drop i xs))"
      using k(2,4) False by (simp add: Suc_diff_le [of "Suc i" k, simplified])
    moreover have "array_find (Some xs) x (int i) (int n) = Some (int k)"
      using i Suc.prems False k(1)
      by (subst array_find.simps) (simp add: read_cell_def add.commute)
    ultimately show ?thesis using k i by (auto intro!: exI [of _ k])
  qed
qed

lemma array_find_empty: "array_find None x 0 0 = Some 0"
  by (simp add: array_find.simps)

lemma remove1_at: "k < length xs \<Longrightarrow> x \<notin> set (take k xs) \<Longrightarrow> xs ! k = x \<Longrightarrow>
    remove1 x xs = remove_at k xs"
proof -
  assume k: "k < length xs" "x \<notin> set (take k xs)" "xs ! k = x"
  then have "xs = take k xs @ x # drop (Suc k) xs" by (metis id_take_nth_drop)
  then have "remove1 x xs = remove1 x (take k xs @ x # drop (Suc k) xs)" by simp
  also have "\<dots> = remove_at k xs" using k(2) by (simp add: remove1_append remove_at_def)
  finally show ?thesis .
qed

lemma array_remove_item_from_refines:
  assumes "array_inv a" and "0 \<le> i" and "i < item_count a"
  shows "\<exists>a'. array_remove_item_from a i = Some (Inr (), a') \<and> array_inv a' \<and>
    realloc_size a' = realloc_size a \<and> array_list a' = remove_at (nat i) (array_list a)"
proof -
  obtain xs where xs: "items a = Some xs" "item_count a \<le> int (length xs)"
    "max_item_count a = int (length xs)" "1 \<le> realloc_size a"
    using assms by (cases "items a") (auto simp: array_inv_def array_cells_def)
  obtain n k where n: "item_count a = int n" "i = int k" "k < n" "n \<le> length xs"
    using assms(2,3) xs(2) by (metis nonneg_int_cases of_nat_le_iff of_nat_less_iff
        dual_order.trans less_imp_le)
  obtain ys where ys: "memmove xs k (Suc k) (n - Suc k) = Some ys" "length ys = length xs"
    "take (n - 1) ys = remove_at k (take n xs)"
    using shift_down_cells [OF n(3,4)] by blast
  let ?a = "a\<lparr> items := Some ys, item_count := int n - 1 \<rparr>"
  have "array_remove_item_from a i = Some (Inr (), ?a)"
    using xs n ys by (simp add: array_remove_item_from_def)
  moreover have "array_inv ?a"
    using xs n ys(2) by (auto simp: array_inv_def array_cells_def)
  moreover have "array_list ?a = remove_at (nat i) (array_list a)"
    using xs n ys by (simp add: array_list_def array_cells_def nat_diff_distrib)
  ultimately show ?thesis by auto
qed

lemma array_find_list:
  assumes "array_inv a"
  shows "\<exists>k. array_find (items a) x 0 (item_count a) = Some (int k) \<and>
    int k \<le> item_count a \<and> x \<notin> set (take k (array_list a)) \<and>
    (int k < item_count a \<longrightarrow> array_list a ! k = x)"
proof (cases "items a")
  case None
  with assms have "item_count a = 0" by (simp add: array_inv_def)
  with None show ?thesis by (auto simp: array_find_empty intro!: exI [of _ 0])
next
  case (Some xs)
  obtain n where n: "item_count a = int n" "n \<le> length xs"
    using assms Some by (auto simp: array_inv_def array_cells_def elim: nonneg_int_cases)
  then show ?thesis
    using array_find_spec [of n xs 0 x] Some
    by (auto simp: array_list_def array_cells_def min_def)
qed

lemma array_remove_item_refines:
  assumes "array_inv a"
  shows "\<exists>r a'. array_remove_item a x = Some (r, a') \<and> array_inv a' \<and>
    realloc_size a' = realloc_size a \<and>
    (if x \<in> set (array_list a)
     then r = Inr () \<and> array_list a' = remove1 x (array_list a)
     else r = Inl ENOENT \<and> a' = a)"
proof -
  obtain k where k: "array_find (items a) x 0 (item_count a) = Some (int k)"
    "int k \<le> item_count a" "x \<notin> set (take k (array_list a))"
    "int k < item_count a \<longrightarrow> array_list a ! k = x"
    using array_find_list [OF assms] by blast
  have len: "int (length (array_list a)) = item_count a"
    using assms by (rule length_array_list)
  show ?thesis
  proof (cases "int k = item_count a")
    case True
    with k(3) len have "x \<notin> set (array_list a)" by simp
    with True k(1) assms show ?thesis by (simp add: array_remove_item_def)
  next
    case False
    with k(2) have lt: "int k < item_count a" by simp
    with k(4) len have "x \<in> set (array_list a)" by (metis nth_mem of_nat_less_iff)
    moreover obtain a' where a': "array_remove_item_from a (int k) = Some (Inr (), a')"
      "array_inv a'" "realloc_size a' = realloc_size a"
      "array_list a' = remove_at k (array_list a)"
      using array_remove_item_from_refines [OF assms, of "int k"] lt by auto
    moreover have "array_remove_item a x = Some (Inr (), a')"
      using a'(1) False k(1) lt by (simp add: array_remove_item_def array_remove_item_from_def)
    moreover have "remove1 x (array_list a) = remove_at k (array_list a)"
      using k(3,4) lt len by (intro remove1_at) auto
    ultimately show ?thesis by auto
  qed
qed

lemma array_get_item_refines:
  assumes "array_inv a"
  shows "array_get_item a i =
    Some (if 0 \<le> i \<and> i < item_count a then array_list a ! nat i else None)"
proof (cases "0 \<le> i \<and> i < item_count a")
  case True
  with assms obtain xs where "items a = Some xs" "item_count a \<le> int (length xs)"
    by (cases "items a") (auto simp: array_inv_def array_cells_def)
  with True assms show ?thesis
    by (auto simp: array_get_item_def array_list_nth cell_simps array_cells_def)
next
  case False
  then show ?thesis by (auto simp: array_get_item_def)
qed

lemma array_index_of_refines:
  assumes "array_inv a"
  shows "\<exists>k. array_index_of a x = Some (if x \<in> set (array_list a) then int k else - 1) \<and>
    (x \<in> set (array_list a) \<longrightarrow>
       k < length (array_list a) \<and> array_list a ! k = x \<and> x \<notin> set (take k (array_list a)))"
proof -
  obtain k where k: "array_find (items a) x 0 (item_count a) = Some (int k)"
    "int k \<le> item_count a" "x \<notin> set (take k (array_list a))"
    "int k < item_count a \<longrightarrow> array_list a ! k = x"
    using array_find_list [OF assms] by blast
  have len: "int (length (array_list a)) = item_count a"
    using assms by (rule length_array_list)
  then have "x \<in> set (array_list a) \<longleftrightarrow> int k < item_count a"
    using k(2-4) by (metis linorder_not_le nth_mem of_nat_less_iff of_nat_le_iff take_all)
  with k len show ?thesis by (auto simp: array_index_of_def intro!: exI [of _ k])
qed

lemma array_make_empty_refines:
  assumes "array_inv a"
  shows "\<exists>a'. array_make_empty a = Some a' \<and> array_inv a' \<and> array_list a' = [] \<and>
    max_item_count a' = max_item_count a \<and> realloc_size a' = realloc_size a"
  using assms
  by (cases "items a")
    (auto simp: array_make_empty_def array_inv_def array_cells_def array_list_def memset_eq)

lemma array_set_realloc_size_inv:
  "array_inv a \<Longrightarrow> array_set_realloc_size a n = (r, a') \<Longrightarrow>
     array_inv a' \<and> array_list a' = array_list a"
  by (auto simp: array_set_realloc_size_def array_inv_def array_list_def array_cells_def
      split: if_splits)

section \<open>The array as its clients see it\<close>

text \<open>
  The loop that the clients of the array share: the first index, from \<open>i\<close> on, of an item
  on which the test \<open>P\<close> succeeds, and \<open>sz\<close> if there is none
  (\<open>memory_context_insert_region\<close>, \<open>route_insert\<close> and the lookups of both files).
\<close>

function array_scan ::
    "(int \<Rightarrow> vptr option) \<Rightarrow> (vptr \<Rightarrow> bool option) \<Rightarrow> int \<Rightarrow> int \<Rightarrow> int option" where
  "array_scan get P i sz =
     (if i < sz then do {
        x \<leftarrow> get i;
        hit \<leftarrow> P x;
        if hit then Some i else array_scan get P (i + 1) sz }
      else Some i)"
  by pat_completeness auto
termination
  by (relation "measure (\<lambda>(get, P, i, sz). nat (sz - i))") auto

declare array_scan.simps [simp del]

locale pointer_array =
  fixes inv :: "'s \<Rightarrow> bool"
    and content :: "'s \<Rightarrow> vptr list"
    and get_size :: "'s \<Rightarrow> int"
    and get_item :: "'s \<Rightarrow> int \<Rightarrow> vptr option"
    and insert_item :: "'s \<Rightarrow> int \<Rightarrow> vptr \<Rightarrow> ((errno + unit) \<times> 's) option"
    and remove_item :: "'s \<Rightarrow> vptr \<Rightarrow> ((errno + unit) \<times> 's) option"
  assumes size_law: "inv s \<Longrightarrow> get_size s = int (length (content s))"
    and item_law: "inv s \<Longrightarrow> i < length (content s) \<Longrightarrow> get_item s (int i) = Some (content s ! i)"
    and insert_law: "inv s \<Longrightarrow> i \<le> length (content s) \<Longrightarrow>
      \<exists>r s'. insert_item s (int i) x = Some (r, s') \<and> inv s' \<and>
        (r = Inr () \<and> content s' = insert_at i x (content s) \<or> r = Inl ENOMEM \<and> s' = s)"
    and remove_law: "inv s \<Longrightarrow>
      \<exists>r s'. remove_item s x = Some (r, s') \<and> inv s' \<and>
        (if x \<in> set (content s) then r = Inr () \<and> content s' = remove1 x (content s)
         else r = Inl ENOENT \<and> s' = s)"
begin

lemma scan_from:
  assumes "inv s" and "i \<le> length (content s)"
    and "\<And>x. x \<in> set (content s) \<Longrightarrow> P x = Some (p x)"
  shows "array_scan (get_item s) P (int i) (get_size s) =
    Some (int (i + length (takeWhile (\<lambda>x. \<not> p x) (drop i (content s)))))"
  using assms(2)
proof (induction "length (content s) - i" arbitrary: i)
  case 0
  with assms(1) show ?case by (simp add: array_scan.simps size_law)
next
  case (Suc m)
  then have i: "i < length (content s)" by simp
  let ?x = "content s ! i"
  have d: "drop i (content s) = ?x # drop (Suc i) (content s)"
    using i by (simp add: Cons_nth_drop_Suc)
  have "array_scan (get_item s) P (int i) (get_size s) =
    (if p ?x then Some (int i) else array_scan (get_item s) P (int (Suc i)) (get_size s))"
    using i assms(1,3) by (subst array_scan.simps) (simp add: size_law item_law add.commute)
  then show ?case using Suc.hyps(1) [of "Suc i"] Suc.hyps(2) i d by simp
qed

lemma scan_eq:
  assumes "inv s" and "\<And>x. x \<in> set (content s) \<Longrightarrow> P x = Some (p x)"
  shows "array_scan (get_item s) P 0 (get_size s) =
    Some (int (length (takeWhile (\<lambda>x. \<not> p x) (content s))))"
  using scan_from [of s 0 P p] assms by simp

text \<open>
  Scanning for the first item that is to stay behind the new one and inserting there: the
  result is the list split at that point, and an ordered list stays ordered.
\<close>

lemma scan_insert:
  assumes "inv s" and "\<And>y. y \<in> set (content s) \<Longrightarrow> P y = Some (p y)"
  shows "\<exists>i r s'. array_scan (get_item s) P 0 (get_size s) = Some i \<and>
    insert_item s i x = Some (r, s') \<and> inv s' \<and>
    (r = Inr () \<and> content s' =
       takeWhile (\<lambda>y. \<not> p y) (content s) @ x # dropWhile (\<lambda>y. \<not> p y) (content s) \<or>
     r = Inl ENOMEM \<and> s' = s)"
proof -
  let ?n = "length (takeWhile (\<lambda>y. \<not> p y) (content s))"
  have "insert_at ?n x (content s) =
      takeWhile (\<lambda>y. \<not> p y) (content s) @ x # dropWhile (\<lambda>y. \<not> p y) (content s)"
    by (simp add: insert_at_def takeWhile_eq_take [symmetric] dropWhile_eq_drop [symmetric])
  moreover have "?n \<le> length (content s)" by (rule length_takeWhile_le)
  ultimately show ?thesis
    using scan_eq [OF assms] insert_law [OF assms(1), of ?n x] by auto
qed

end

sublocale ptr_allocator \<subseteq> karr: pointer_array array_inv array_list array_get_size
  array_get_item "array_insert_item km" array_remove_item
proof unfold_locales
  fix s :: array_t and i x
  assume inv: "array_inv s"
  show "array_get_size s = int (length (array_list s))"
    using inv by (simp add: array_get_size_def length_array_list)
  show "array_get_item s (int i) = Some (array_list s ! i)" if "i < length (array_list s)"
    using that inv length_array_list [OF inv] by (simp add: array_get_item_refines)
  show "\<exists>r s'. array_insert_item km s (int i) x = Some (r, s') \<and> array_inv s' \<and>
        (r = Inr () \<and> array_list s' = insert_at i x (array_list s) \<or> r = Inl ENOMEM \<and> s' = s)"
    if "i \<le> length (array_list s)"
    using array_insert_item_refines [OF allocator_axioms inv, of "int i" x] that
      length_array_list [OF inv] by auto
  show "\<exists>r s'. array_remove_item s x = Some (r, s') \<and> array_inv s' \<and>
        (if x \<in> set (array_list s) then r = Inr () \<and> array_list s' = remove1 x (array_list s)
         else r = Inl ENOENT \<and> s' = s)"
    using array_remove_item_refines [OF inv, of x] by blast
qed

context ptr_allocator
begin

lemma client: "pointer_array array_inv array_list array_get_size array_get_item (array_insert_item km) array_remove_item"
  by (rule karr.pointer_array_axioms)

end

lemma array_client:
  "allocator km \<Longrightarrow> pointer_array array_inv array_list array_get_size array_get_item (array_insert_item km) array_remove_item"
  by (rule ptr_allocator.client) (simp add: ptr_allocator_def)

lemma sorted_split_insert:
  fixes f :: "'a \<Rightarrow> 'b::linorder"
  assumes "sorted (map f xs)"
  shows "sorted (map f (takeWhile (\<lambda>y. \<not> f x < f y) xs @ x # dropWhile (\<lambda>y. \<not> f x < f y) xs))"
  using assms
proof (induction xs)
  case Nil
  then show ?case by simp
next
  case (Cons y xs)
  show ?case
  proof (cases "f x < f y")
    case True
    with Cons.prems show ?thesis by auto
  next
    case False
    have "set (takeWhile (\<lambda>y. \<not> f x < f y) xs) \<subseteq> set xs"
      "set (dropWhile (\<lambda>y. \<not> f x < f y) xs) \<subseteq> set xs"
      by (auto dest: set_takeWhileD set_dropWhileD)
    with False Cons show ?thesis by auto
  qed
qed

section \<open>Properties\<close>

text \<open>Inserting at an index of a well-formed array is memory safe on every branch: an index out of
  range gives \<^verbatim>\<open>EINVAL\<close>, a failed allocation \<^verbatim>\<open>ENOMEM\<close>, both without any change; otherwise the
  item is at that index with the others in their order, and removing it again gives the old content.\<close>

theorem array_insert_then_remove:
  assumes "allocator km" and "array_inv a"
  shows "\<exists>r a'. array_insert_item km a i x = Some (r, a') \<and> array_inv a' \<and>
    (if 0 \<le> i \<and> i \<le> item_count a
     then r = Inl ENOMEM \<and> a' = a \<or>
       r = Inr () \<and> array_list a' = insert_at (nat i) x (array_list a) \<and>
       array_get_item a' i = Some x \<and>
       (\<exists>a''. array_remove_item_from a' i = Some (Inr (), a'') \<and> array_inv a'' \<and>
          array_list a'' = array_list a)
     else r = Inl EINVAL \<and> a' = a)"
proof (cases "0 \<le> i \<and> i \<le> item_count a")
  case False
  with assms show ?thesis by (auto simp: array_insert_item_def)
next
  case True
  obtain r a' where a': "array_insert_item km a i x = Some (r, a')" "array_inv a'"
    "r = Inr () \<and> array_list a' = insert_at (nat i) x (array_list a) \<or> r = Inl ENOMEM \<and> a' = a"
    using array_insert_item_refines [OF assms] True by blast
  have le: "nat i \<le> length (array_list a)" using True length_array_list [OF assms(2)] by linarith
  have "array_get_item a' i = Some x \<and> (\<exists>a''. array_remove_item_from a' i = Some (Inr (), a'') \<and>
      array_inv a'' \<and> array_list a'' = array_list a)"
    if l: "array_list a' = insert_at (nat i) x (array_list a)"
  proof -
    have lt: "i < item_count a'"
      using length_array_list [OF a'(2)] l length_insert_at [OF le, of x] True le by simp
    have "insert_at (nat i) x (array_list a) ! nat i = x"
      using le by (simp add: insert_at_def nth_append)
    then show ?thesis
      using array_get_item_refines [OF a'(2)] lt True l le
        array_remove_item_from_refines [OF a'(2), of i] by (auto simp: remove_at_insert_at)
  qed
  with a' True show ?thesis by auto
qed

theorem array_insert_then_remove_witness:
  "\<exists>a'. array_insert_item (eager_alloc None) array_init 0 (Some 7) = Some (Inr (), a') \<and>
    array_get_item a' 0 = Some (Some 7)"
proof -
  have "array_insert_item (eager_alloc None) array_init 0 (Some 7) \<noteq> Some (Inl ENOMEM, array_init)"
    by (simp add: array_insert_item_def check_array_buffer_def array_init_def eager_alloc_def
        write_cell_def)
  then show ?thesis
    using array_insert_then_remove [OF allocator_eager [of None] array_inv_init, of 0 "Some 7"]
    by (auto simp: array_init_def)
qed

text \<open>removing an item removes its first occurrence and keeps the order of the rest, or reports
  \<^verbatim>\<open>ENOENT\<close> and changes nothing; \<open>array_index_of\<close> finds the same occurrence.\<close>

theorem array_remove_item_first:
  assumes "array_inv a"
  shows "\<exists>r a' k. array_remove_item a x = Some (r, a') \<and> array_inv a' \<and> array_index_of a x = Some k \<and>
    (if x \<in> set (array_list a)
     then r = Inr () \<and> array_list a' = remove1 x (array_list a) \<and> 0 \<le> k \<and>
       array_list a ! nat k = x \<and> x \<notin> set (take (nat k) (array_list a))
     else r = Inl ENOENT \<and> a' = a \<and> k = - 1)"
proof -
  obtain k where "array_index_of a x = Some (if x \<in> set (array_list a) then int k else - 1)"
    "x \<in> set (array_list a) \<longrightarrow> k < length (array_list a) \<and> array_list a ! k = x \<and>
       x \<notin> set (take k (array_list a))"
    using array_index_of_refines [OF assms] by blast
  then show ?thesis using array_remove_item_refines [OF assms, of x] by (cases "x \<in> set (array_list a)") auto
qed

theorem array_remove_item_first_witness:
  "\<exists>a'. array_remove_item \<lparr> item_count = 3, max_item_count = 3, realloc_size = 1,
      items = Some [Some 1, Some 2, Some 1] \<rparr> (Some 1) = Some (Inr (), a') \<and>
    array_list a' = [Some 2, Some 1]"
proof -
  let ?a = "\<lparr> item_count = 3, max_item_count = 3, realloc_size = 1,
      items = Some [Some 1, Some 2, Some 1] \<rparr>"
  have "array_inv ?a" by (simp add: array_inv_def array_cells_def)
  moreover have "array_list ?a = [Some 1, Some 2, Some 1]"
    by (simp add: array_list_def array_cells_def eval_nat_numeral)
  ultimately show ?thesis using array_remove_item_first [of ?a "Some 1"] by auto
qed

end
