(* ===== verification/Kernel_Stack.thy ===== *)
theory Kernel_Stack
  imports Kernel_String
begin

text \<open>
  The pointer stack of \<^verbatim>\<open>source/kernel/src/lib/stack.c\<close>: its state, every operation, the
  invariant of its counters, and the refinement to a list whose last element is the top.
\<close>

section \<open>Data and operations\<close>

record stack_t =
  stack_items :: "vptr list option"
  stack_item_count :: int
  stack_max_items :: int

definition stack_resize :: "vptr alloc \<Rightarrow> stack_t \<Rightarrow> ((errno + unit) \<times> stack_t) option" where
  "stack_resize km stack =
     (case km (nat (stack_max_items stack + 32)) of
        None \<Rightarrow> Some (Inl ENOMEM, stack)
      | Some new_items \<Rightarrow> do {
          new_items \<leftarrow> memcpy new_items
             (case stack_items stack of None \<Rightarrow> [] | Some xs \<Rightarrow> xs)
             (nat (stack_item_count stack));
          Some (Inr (), stack\<lparr> stack_items := Some new_items,
                          stack_max_items := stack_max_items stack + 32 \<rparr>) })"

definition stack_push :: "vptr alloc \<Rightarrow> stack_t \<Rightarrow> vptr \<Rightarrow> ((errno + unit) \<times> stack_t) option" where
  "stack_push km stack item = do {
     (error, stack) \<leftarrow>
       (if stack_item_count stack + 1 \<ge> stack_max_items stack then stack_resize km stack
        else Some (Inr (), stack));
     case error of
       Inl e \<Rightarrow> Some (Inl e, stack)
     | Inr _ \<Rightarrow> do {
         xs \<leftarrow> write_cell (stack_items stack) (stack_item_count stack) item;
         Some (Inr (), stack\<lparr> stack_items := Some xs,
                         stack_item_count := stack_item_count stack + 1 \<rparr>) } }"

definition stack_pop :: "stack_t \<Rightarrow> ((errno + vptr) \<times> stack_t) option" where
  "stack_pop stack =
     (if stack_item_count stack = 0 then Some (Inl ENOENT, stack)
      else do {
        x \<leftarrow> read_cell (stack_items stack) (stack_item_count stack - 1);
        Some (Inr x, stack\<lparr> stack_item_count := stack_item_count stack - 1 \<rparr>) })"

definition stack_peek :: "stack_t \<Rightarrow> (errno + vptr) option" where
  "stack_peek stack =
     (if stack_item_count stack = 0 then Some (Inl ENOENT)
      else do {
        x \<leftarrow> read_cell (stack_items stack) (stack_item_count stack - 1);
        Some (Inr x) })"

definition init_stack :: stack_t where
  "init_stack = \<lparr> stack_items = None, stack_item_count = 0, stack_max_items = 0 \<rparr>"

definition destroy_stack :: "stack_t \<Rightarrow> stack_t" where
  "destroy_stack stack = stack\<lparr> stack_items := None \<rparr>"

section \<open>Invariant and abstraction\<close>

definition stack_cells :: "stack_t \<Rightarrow> vptr list" where
  "stack_cells s = (case stack_items s of None \<Rightarrow> [] | Some xs \<Rightarrow> xs)"

definition stack_inv :: "stack_t \<Rightarrow> bool" where
  "stack_inv s \<longleftrightarrow> 0 \<le> stack_item_count s \<and> stack_item_count s \<le> stack_max_items s \<and>
     stack_max_items s = int (length (stack_cells s))"

definition stack_list :: "stack_t \<Rightarrow> vptr list" where
  "stack_list s = take (nat (stack_item_count s)) (stack_cells s)"

lemma init_stack_ok [simp]: "stack_inv init_stack" "stack_list init_stack = []"
  by (simp_all add: stack_inv_def stack_list_def stack_cells_def init_stack_def)

lemma stack_cases:
  assumes "stack_inv s"
  obtains n where "stack_item_count s = int n" "n \<le> length (stack_cells s)"
    "stack_max_items s = int (length (stack_cells s))" "stack_list s = take n (stack_cells s)"
  by (rule that [of "nat (stack_item_count s)"])
    (use assms in \<open>auto simp: stack_inv_def stack_list_def\<close>)

lemma stack_list_empty: "stack_inv s \<Longrightarrow> stack_list s = [] \<longleftrightarrow> stack_item_count s = 0"
  by (auto simp: stack_inv_def stack_list_def)

lemma stack_resize_ok:
  assumes "allocator km" and "stack_inv s"
  shows "stack_resize km s = Some (Inl ENOMEM, s) \<or>
    (\<exists>s'. stack_resize km s = Some (Inr (), s') \<and> stack_inv s' \<and> stack_list s' = stack_list s \<and>
       stack_item_count s' = stack_item_count s \<and> stack_item_count s' < stack_max_items s')"
proof (cases "km (nat (stack_max_items s + 32))")
  case None
  then show ?thesis by (simp add: stack_resize_def)
next
  case (Some b)
  obtain n where n: "stack_item_count s = int n" "n \<le> length (stack_cells s)"
    "stack_max_items s = int (length (stack_cells s))" "stack_list s = take n (stack_cells s)"
    using assms(2) by (rule stack_cases)
  have b: "length b = length (stack_cells s) + 32"
    using allocator.km_length [OF assms(1) Some] n(3) by simp
  have "memcpy b (stack_cells s) n = Some (take n (stack_cells s) @ drop n b)"
    using b n(2) by (intro memcpy_eq) auto
  then show ?thesis
    using Some n b
    by (simp add: stack_resize_def stack_cells_def [symmetric])
      (simp add: stack_inv_def stack_list_def stack_cells_def)
qed

lemma write_top:
  assumes "stack_inv s" and "stack_item_count s < stack_max_items s"
  shows "\<exists>xs. write_cell (stack_items s) (stack_item_count s) x = Some xs \<and>
    (let s' = s\<lparr> stack_items := Some xs, stack_item_count := stack_item_count s + 1 \<rparr> in
     stack_inv s' \<and> stack_list s' = stack_list s @ [x])"
proof -
  obtain n where n: "stack_item_count s = int n" "n \<le> length (stack_cells s)"
    "stack_max_items s = int (length (stack_cells s))" "stack_list s = take n (stack_cells s)"
    using assms(1) by (rule stack_cases)
  moreover obtain xs where "stack_items s = Some xs"
    using assms n by (cases "stack_items s") (auto simp: stack_cells_def)
  ultimately show ?thesis
    using assms(2)
    by (simp add: write_cell_def stack_inv_def stack_list_def stack_cells_def Let_def
        take_Suc_nth)
qed

lemma stack_push_refines:
  assumes "allocator km" and "stack_inv s"
  shows "\<exists>r s'. stack_push km s x = Some (r, s') \<and> stack_inv s' \<and>
    (r = Inr () \<and> stack_list s' = stack_list s @ [x] \<or> r = Inl ENOMEM \<and> s' = s)"
proof (cases "stack_item_count s + 1 \<ge> stack_max_items s")
  case True
  from stack_resize_ok [OF assms] show ?thesis
  proof
    assume "stack_resize km s = Some (Inl ENOMEM, s)"
    with True assms(2) show ?thesis by (simp add: stack_push_def)
  next
    assume "\<exists>s'. stack_resize km s = Some (Inr (), s') \<and> stack_inv s' \<and>
      stack_list s' = stack_list s \<and> stack_item_count s' = stack_item_count s \<and>
      stack_item_count s' < stack_max_items s'"
    then obtain s' where s': "stack_resize km s = Some (Inr (), s')" "stack_inv s'"
      "stack_list s' = stack_list s" "stack_item_count s' < stack_max_items s'" by blast
    with True write_top [OF s'(2,4), of x] show ?thesis
      by (auto simp: stack_push_def Let_def)
  qed
next
  case False
  then have "stack_item_count s < stack_max_items s" by simp
  with False write_top [OF assms(2) this, of x] show ?thesis
    by (auto simp: stack_push_def Let_def)
qed

lemma stack_pop_refines:
  assumes "stack_inv s" and "stack_list s = xs @ [x]"
  shows "\<exists>s'. stack_pop s = Some (Inr x, s') \<and> stack_inv s' \<and> stack_list s' = xs"
proof -
  obtain n where n: "stack_item_count s = int n" "n \<le> length (stack_cells s)"
    "stack_max_items s = int (length (stack_cells s))" "stack_list s = take n (stack_cells s)"
    using assms(1) by (rule stack_cases)
  obtain m where m: "n = Suc m" using n(4) assms(2) by (cases n) auto
  obtain cs where cs: "stack_items s = Some cs"
    using m n(2) by (cases "stack_items s") (auto simp: stack_cells_def)
  have "take m cs @ [cs ! m] = xs @ [x]"
    using n m cs assms(2) by (simp add: stack_cells_def take_Suc_nth)
  then show ?thesis
    using n m cs
    by (simp add: stack_pop_def read_cell_def stack_inv_def stack_list_def stack_cells_def)
qed

lemma stack_peek_pop:
  "stack_peek s = map_option fst (stack_pop s)"
  by (cases "read_cell (stack_items s) (stack_item_count s - 1)")
    (simp_all add: stack_peek_def stack_pop_def)

section \<open>Properties\<close>

text \<open>the stack is last-in first-out and memory safe: on a well-formed stack a push either fails
  with \<^verbatim>\<open>ENOMEM\<close> and changes nothing, or leaves a well-formed stack from which a pop returns exactly the
  pushed item and the old content; a peek agrees with the pop.\<close>

theorem stack_push_pop:
  assumes "allocator km" and "stack_inv s"
  shows "\<exists>r s'. stack_push km s x = Some (r, s') \<and> stack_inv s' \<and>
    (r = Inl ENOMEM \<and> s' = s \<or>
     r = Inr () \<and> stack_peek s' = Some (Inr x) \<and>
     (\<exists>s''. stack_pop s' = Some (Inr x, s'') \<and> stack_inv s'' \<and> stack_list s'' = stack_list s))"
proof -
  obtain r s' where s': "stack_push km s x = Some (r, s')" "stack_inv s'"
    "r = Inr () \<and> stack_list s' = stack_list s @ [x] \<or> r = Inl ENOMEM \<and> s' = s"
    using stack_push_refines [OF assms] by blast
  then show ?thesis
    using stack_pop_refines [of s' "stack_list s" x] by (fastforce simp: stack_peek_pop)
qed

theorem stack_push_pop_witness:
  "\<exists>r s'. stack_push (eager_alloc None) init_stack (Some 5) = Some (r, s') \<and> r = Inr () \<and>
    (\<exists>s''. stack_pop s' = Some (Inr (Some 5), s'') \<and> stack_list s'' = [])"
proof -
  have "stack_push (eager_alloc None) init_stack (Some 5) \<noteq> Some (Inl ENOMEM, init_stack)"
    by (simp add: stack_push_def stack_resize_def init_stack_def eager_alloc_def write_cell_def)
  then show ?thesis
    using stack_push_pop [OF allocator_eager [of None] init_stack_ok(1), of "Some 5"] by fastforce
qed

end
