(* ===== verification/Kernel_Bitmap.thy ===== *)
theory Kernel_Bitmap
  imports Kernel_Prelude
begin

unbundle bit_operations_syntax

text \<open>
  The bitmap of \<^verbatim>\<open>source/kernel/src/lib/bitmap.c\<close>: a table of 32-bit words. Every operation
  is modelled on the words; the lemmas describe the bitmap as a set of bit numbers. A negative
  bit number makes \<^verbatim>\<open>i / 32\<close> or the shift count negative, which is a fault here.
\<close>

section \<open>Data and operations\<close>

record bitmap_t =
  bm_table :: "u32 list option"
  max_bit_count :: int

definition bit_mask :: "int \<Rightarrow> u32" where
  "bit_mask idx2 = push_bit (nat idx2) 1"

definition bitmap_get :: "bitmap_t \<Rightarrow> int \<Rightarrow> u32 option" where
  "bitmap_get bitmap bit_index =
     (if bit_index < 0 \<or> bit_index \<ge> max_bit_count bitmap then Some 0
      else do {
        let idx1 = bit_index div 32;
        let idx2 = bit_index mod 32;
        w \<leftarrow> read_cell (bm_table bitmap) idx1;
        Some (w AND bit_mask idx2) })"

definition bitmap_set :: "bitmap_t \<Rightarrow> int \<Rightarrow> ((errno + unit) \<times> bitmap_t) option" where
  "bitmap_set bitmap bit_index =
     (if bit_index < 0 \<or> bit_index \<ge> max_bit_count bitmap then Some (Inl EINVAL, bitmap)
      else do {
        let idx1 = bit_index div 32;
        let idx2 = bit_index mod 32;
        w \<leftarrow> read_cell (bm_table bitmap) idx1;
        t \<leftarrow> write_cell (bm_table bitmap) idx1 (w OR bit_mask idx2);
        Some (Inr (), bitmap\<lparr> bm_table := Some t \<rparr>) })"

definition bitmap_unset :: "bitmap_t \<Rightarrow> int \<Rightarrow> ((errno + unit) \<times> bitmap_t) option" where
  "bitmap_unset bitmap bit_index =
     (if bit_index < 0 \<or> bit_index \<ge> max_bit_count bitmap then Some (Inl EINVAL, bitmap)
      else do {
        let idx1 = bit_index div 32;
        let idx2 = bit_index mod 32;
        w \<leftarrow> read_cell (bm_table bitmap) idx1;
        t \<leftarrow> write_cell (bm_table bitmap) idx1 (w AND NOT (bit_mask idx2));
        Some (Inr (), bitmap\<lparr> bm_table := Some t \<rparr>) })"

function bitmap_first_not_set_in_range :: "bitmap_t \<Rightarrow> int \<Rightarrow> int \<Rightarrow> int option" where
  "bitmap_first_not_set_in_range bitmap i stop =
     (if i \<le> stop then do {
        let idx1 = i div 32;
        let idx2 = i mod 32;
        w \<leftarrow> read_cell (bm_table bitmap) idx1;
        if w AND bit_mask idx2 = 0 then Some i
        else bitmap_first_not_set_in_range bitmap (i + 1) stop }
      else Some (- 1))"
  by pat_completeness auto
termination
  by (relation "measure (\<lambda>(bitmap, i, stop). nat (stop + 1 - i))") auto

declare bitmap_first_not_set_in_range.simps [simp del]

definition bitmap_first_not_set :: "bitmap_t \<Rightarrow> int option" where
  "bitmap_first_not_set bitmap =
     bitmap_first_not_set_in_range bitmap 0 (max_bit_count bitmap - 1)"

text \<open>
  \<^verbatim>\<open>sizeof( uint32_t ) * ( ( max_bits + 31 ) & ~31 )\<close>: the request is for as many words as
  \<open>max_bits\<close> rounded up to a multiple of 32, not for one word per 32 bits.
\<close>

definition init_bitmap ::
    "u32 alloc \<Rightarrow> bitmap_t \<Rightarrow> int \<Rightarrow> (errno + unit) \<times> bitmap_t" where
  "init_bitmap km bitmap max_bits =
     (case km (nat ((max_bits + 31) div 32 * 32)) of
        None \<Rightarrow> (Inl ENOMEM, bitmap\<lparr> bm_table := None \<rparr>)
      | Some t \<Rightarrow> (Inr (), bitmap\<lparr> bm_table := Some t, max_bit_count := max_bits \<rparr>))"

definition destroy_bitmap :: "bitmap_t \<Rightarrow> bitmap_t" where
  "destroy_bitmap bitmap = bitmap\<lparr> bm_table := None \<rparr>"

section \<open>Invariant and abstraction\<close>

text \<open>The table is large enough for \<open>max_bit_count\<close> bits.\<close>

definition bitmap_inv :: "bitmap_t \<Rightarrow> bool" where
  "bitmap_inv b \<longleftrightarrow>
     (case bm_table b of None \<Rightarrow> False | Some t \<Rightarrow> max_bit_count b \<le> 32 * int (length t))"

definition bitmap_bit :: "bitmap_t \<Rightarrow> int \<Rightarrow> bool" where
  "bitmap_bit b i \<longleftrightarrow> 0 \<le> i \<and> i < max_bit_count b \<and>
     (case bm_table b of None \<Rightarrow> False | Some t \<Rightarrow> bit (t ! nat (i div 32)) (nat (i mod 32)))"

lemma bitmap_inv_cases:
  assumes "bitmap_inv b"
  obtains t where "bm_table b = Some t" "max_bit_count b \<le> 32 * int (length t)"
  using assms by (auto simp: bitmap_inv_def split: option.splits)

lemma idx_in_table: "(i::int) < 32 * int n \<Longrightarrow> 0 \<le> i \<Longrightarrow> 0 \<le> i div 32 \<and> i div 32 < int n"
  by presburger

lemma bit_bit_mask: "0 \<le> k \<Longrightarrow> k < 32 \<Longrightarrow> bit (bit_mask k) n \<longleftrightarrow> n = nat k"
  by (auto simp: bit_mask_def bit_exp_iff)

lemma and_bit_mask_zero:
  assumes "0 \<le> k" and "k < 32"
  shows "(w AND bit_mask k = 0) = (\<not> bit w (nat k))"
proof -
  have "(w AND bit_mask k = 0) = (\<forall>n<32. \<not> (bit w n \<and> bit (bit_mask k) n))"
    by (simp add: bit_eq_iff bit_and_iff)
  moreover have "nat k < 32" using assms by simp
  ultimately show ?thesis using assms by (auto simp: bit_bit_mask)
qed

text \<open>The three operations on one bit.\<close>

lemma bitmap_get_iff:
  assumes "bitmap_inv b"
  shows "\<exists>w. bitmap_get b i = Some w \<and> (w \<noteq> 0) = bitmap_bit b i"
  using assms idx_in_table [of i]
  by (auto elim!: bitmap_inv_cases
      simp: bitmap_get_def bitmap_bit_def read_cell_def and_bit_mask_zero Let_def)

text \<open>What replacing one word of the table does to the bits.\<close>

lemma bitmap_bit_update:
  assumes "bm_table b = Some t" "max_bit_count b \<le> 32 * int (length t)"
    and "0 \<le> i" "i < max_bit_count b"
  shows "bitmap_bit (b\<lparr> bm_table := Some (t[nat (i div 32) := w]) \<rparr>) j =
    (if 0 \<le> j \<and> j < max_bit_count b \<and> j div 32 = i div 32 then bit w (nat (j mod 32))
     else bitmap_bit b j)"
proof -
  have "nat (i div 32) < length t" using assms idx_in_table [of i "length t"] by linarith
  moreover have "nat (j div 32) = nat (i div 32) \<longleftrightarrow> j div 32 = i div 32" if "0 \<le> j"
    using that assms(3) by (simp add: nat_eq_iff)
  ultimately show ?thesis using assms by (auto simp: bitmap_bit_def nth_list_update)
qed

lemma same_word: "(j::int) div 32 = i div 32 \<Longrightarrow> (nat (j mod 32) = nat (i mod 32)) = (j = i)"
proof -
  assume "j div 32 = i div 32"
  then have "(j mod 32 = i mod 32) = (j = i)"
    by (metis div_mult_mod_eq)
  moreover have "(nat (j mod 32) = nat (i mod 32)) = (j mod 32 = i mod 32)"
    by (simp add: eq_nat_nat_iff)
  ultimately show ?thesis by simp
qed

lemma bitmap_set_spec:
  assumes "bitmap_inv b" and "0 \<le> i" and "i < max_bit_count b"
  shows "\<exists>b'. bitmap_set b i = Some (Inr (), b') \<and> bitmap_inv b' \<and>
    max_bit_count b' = max_bit_count b \<and> (\<forall>j. bitmap_bit b' j = (j = i \<or> bitmap_bit b j))"
proof -
  obtain t where t: "bm_table b = Some t" "max_bit_count b \<le> 32 * int (length t)"
    using assms(1) by (rule bitmap_inv_cases)
  have k: "0 \<le> i div 32" "i div 32 < int (length t)"
    using idx_in_table [of i "length t"] t(2) assms by auto
  let ?w = "t ! nat (i div 32) OR bit_mask (i mod 32)"
  let ?b = "b\<lparr> bm_table := Some (t[nat (i div 32) := ?w]) \<rparr>"
  have "bitmap_set b i = Some (Inr (), ?b)"
    using assms t k by (simp add: bitmap_set_def read_cell_def write_cell_def Let_def)
  moreover have "bitmap_inv ?b" using t by (simp add: bitmap_inv_def)
  moreover have "bitmap_bit ?b j = (j = i \<or> bitmap_bit b j)" for j
    using bitmap_bit_update [OF t assms(2,3), of ?w j] assms t
    by (auto simp: bit_or_iff bit_bit_mask same_word bitmap_bit_def)
  ultimately show ?thesis by simp
qed

lemma bitmap_unset_spec:
  assumes "bitmap_inv b" and "0 \<le> i" and "i < max_bit_count b"
  shows "\<exists>b'. bitmap_unset b i = Some (Inr (), b') \<and> bitmap_inv b' \<and>
    max_bit_count b' = max_bit_count b \<and> (\<forall>j. bitmap_bit b' j = (j \<noteq> i \<and> bitmap_bit b j))"
proof -
  obtain t where t: "bm_table b = Some t" "max_bit_count b \<le> 32 * int (length t)"
    using assms(1) by (rule bitmap_inv_cases)
  have k: "0 \<le> i div 32" "i div 32 < int (length t)"
    using idx_in_table [of i "length t"] t(2) assms by auto
  let ?w = "t ! nat (i div 32) AND NOT (bit_mask (i mod 32))"
  let ?b = "b\<lparr> bm_table := Some (t[nat (i div 32) := ?w]) \<rparr>"
  have "bitmap_unset b i = Some (Inr (), ?b)"
    using assms t k by (simp add: bitmap_unset_def read_cell_def write_cell_def Let_def)
  moreover have "bitmap_inv ?b" using t by (simp add: bitmap_inv_def)
  moreover have "bitmap_bit ?b j = (j \<noteq> i \<and> bitmap_bit b j)" for j
    using bitmap_bit_update [OF t assms(2,3), of ?w j] assms t
    by (auto simp: bit_and_iff bit_not_iff bit_bit_mask same_word bitmap_bit_def)
  ultimately show ?thesis by simp
qed

text \<open>The search returns the first clear bit of the range, and -1 exactly when there is none.\<close>

lemma bitmap_first_not_set_in_range_spec:
  assumes "bitmap_inv b" and "0 \<le> i" and "stop < max_bit_count b"
  shows "\<exists>r. bitmap_first_not_set_in_range b i stop = Some r \<and>
    (if \<exists>j. i \<le> j \<and> j \<le> stop \<and> \<not> bitmap_bit b j
     then i \<le> r \<and> r \<le> stop \<and> \<not> bitmap_bit b r \<and> (\<forall>j. i \<le> j \<and> j < r \<longrightarrow> bitmap_bit b j)
     else r = - 1)"
  using assms(2)
proof (induction "nat (stop + 1 - i)" arbitrary: i)
  case 0
  then show ?case by (subst bitmap_first_not_set_in_range.simps) auto
next
  case (Suc n)
  obtain t where t: "bm_table b = Some t" "max_bit_count b \<le> 32 * int (length t)"
    using assms(1) by (rule bitmap_inv_cases)
  have i: "i \<le> stop" using Suc.hyps(2) by simp
  have k: "0 \<le> i div 32" "i div 32 < int (length t)"
    using idx_in_table [of i "length t"] t(2) assms(3) i Suc.prems by auto
  have bi: "(t ! nat (i div 32) AND bit_mask (i mod 32) = 0) = (\<not> bitmap_bit b i)"
    using t i assms(3) Suc.prems by (simp add: and_bit_mask_zero bitmap_bit_def)
  have step: "bitmap_first_not_set_in_range b i stop =
      (if \<not> bitmap_bit b i then Some i else bitmap_first_not_set_in_range b (i + 1) stop)"
    using i t(1) k bi by (subst bitmap_first_not_set_in_range.simps) (simp add: read_cell_def)
  show ?case
  proof (cases "bitmap_bit b i")
    case False
    with step i show ?thesis by auto
  next
    case True
    have r: "(i \<le> j) = (j = i \<or> i + 1 \<le> j)" for j by auto
    obtain r where "bitmap_first_not_set_in_range b (i + 1) stop = Some r"
      "if \<exists>j. i + 1 \<le> j \<and> j \<le> stop \<and> \<not> bitmap_bit b j
       then i + 1 \<le> r \<and> r \<le> stop \<and> \<not> bitmap_bit b r \<and>
         (\<forall>j. i + 1 \<le> j \<and> j < r \<longrightarrow> bitmap_bit b j)
       else r = - 1"
      using Suc.hyps(1) [of "i + 1"] Suc.hyps(2) Suc.prems i by force
    with True step show ?thesis by (auto simp: r split: if_splits)
  qed
qed

lemma init_bitmap_inv:
  assumes "allocator km" and "init_bitmap km b n = (Inr (), b')"
  shows "bitmap_inv b' \<and> max_bit_count b' = n"
proof -
  obtain t where t: "km (nat ((n + 31) div 32 * 32)) = Some t"
    "b' = b\<lparr> bm_table := Some t, max_bit_count := n \<rparr>"
    using assms(2) by (auto simp: init_bitmap_def split: option.splits)
  have "length t = nat ((n + 31) div 32 * 32)" "0 < nat ((n + 31) div 32 * 32)"
    using allocator.km_length [OF assms(1) t(1)] allocator.km_pos [OF assms(1) t(1)] by auto
  then have "n \<le> 32 * int (length t)" by simp
  with t(2) show ?thesis by (simp add: bitmap_inv_def)
qed

section \<open>Properties\<close>

text \<open>setting and clearing a bit of a well-formed bitmap change that bit and no other, and
  \<open>bitmap_get\<close> reads it back; an index outside the bitmap is refused with \<^verbatim>\<open>EINVAL\<close> and reads as 0.\<close>

theorem bitmap_set_unset_get:
  assumes "bitmap_inv b"
  shows "if 0 \<le> i \<and> i < max_bit_count b
    then (\<exists>b1 b2. bitmap_set b i = Some (Inr (), b1) \<and> bitmap_unset b i = Some (Inr (), b2) \<and>
       bitmap_inv b1 \<and> bitmap_inv b2 \<and>
       (\<forall>j. \<exists>w v1 v2. bitmap_get b j = Some w \<and> bitmap_get b1 j = Some v1 \<and>
          bitmap_get b2 j = Some v2 \<and>
          (v1 \<noteq> 0) = (j = i \<or> w \<noteq> 0) \<and> (v2 \<noteq> 0) = (j \<noteq> i \<and> w \<noteq> 0)))
    else bitmap_set b i = Some (Inl EINVAL, b) \<and> bitmap_unset b i = Some (Inl EINVAL, b) \<and>
      bitmap_get b i = Some 0"
proof (cases "0 \<le> i \<and> i < max_bit_count b")
  case True
  obtain b1 where b1: "bitmap_set b i = Some (Inr (), b1)" "bitmap_inv b1"
    "\<forall>j. bitmap_bit b1 j = (j = i \<or> bitmap_bit b j)"
    using bitmap_set_spec [OF assms] True by blast
  obtain b2 where b2: "bitmap_unset b i = Some (Inr (), b2)" "bitmap_inv b2"
    "\<forall>j. bitmap_bit b2 j = (j \<noteq> i \<and> bitmap_bit b j)"
    using bitmap_unset_spec [OF assms] True by blast
  have "\<exists>w v1 v2. bitmap_get b j = Some w \<and> bitmap_get b1 j = Some v1 \<and> bitmap_get b2 j = Some v2 \<and>
      (v1 \<noteq> 0) = (j = i \<or> w \<noteq> 0) \<and> (v2 \<noteq> 0) = (j \<noteq> i \<and> w \<noteq> 0)" for j
    using bitmap_get_iff [OF assms, of j] bitmap_get_iff [OF b1(2), of j]
      bitmap_get_iff [OF b2(2), of j] b1(3) b2(3) by metis
  with True b1 b2 show ?thesis by auto
next
  case False
  then show ?thesis by (auto simp: bitmap_set_def bitmap_unset_def bitmap_get_def)
qed

theorem bitmap_set_unset_get_witness:
  "\<exists>b1. bitmap_set \<lparr> bm_table = Some [0, 0], max_bit_count = 40 \<rparr> 33 = Some (Inr (), b1) \<and>
    (\<exists>v. bitmap_get b1 33 = Some v \<and> v \<noteq> 0)"
proof -
  have "bitmap_inv \<lparr> bm_table = Some [0, 0], max_bit_count = 40 \<rparr>" by (simp add: bitmap_inv_def)
  from bitmap_set_unset_get [OF this, of 33]
  obtain b1 where b1: "bitmap_set \<lparr> bm_table = Some [0, 0], max_bit_count = 40 \<rparr> 33 =
      Some (Inr (), b1)"
    and "\<exists>w v1. bitmap_get b1 33 = Some v1 \<and> (v1 \<noteq> 0) = (33 = (33::int) \<or> w \<noteq> (0::u32))"
    by simp blast
  then show ?thesis by auto
qed

text \<open>\<open>bitmap_first_not_set\<close> returns the lowest clear bit of the bitmap, and -1 exactly when all
  bits are set.\<close>

theorem bitmap_first_not_set_lowest:
  assumes "bitmap_inv b"
  shows "\<exists>r. bitmap_first_not_set b = Some r \<and>
    (if \<forall>j. 0 \<le> j \<and> j < max_bit_count b \<longrightarrow> bitmap_bit b j then r = - 1
     else 0 \<le> r \<and> r < max_bit_count b \<and> \<not> bitmap_bit b r \<and>
       (\<forall>j. 0 \<le> j \<and> j < r \<longrightarrow> bitmap_bit b j))"
proof -
  let ?m = "max_bit_count b"
  obtain r where r: "bitmap_first_not_set b = Some r"
    "if \<exists>j. 0 \<le> j \<and> j \<le> ?m - 1 \<and> \<not> bitmap_bit b j
     then 0 \<le> r \<and> r \<le> ?m - 1 \<and> \<not> bitmap_bit b r \<and> (\<forall>j. 0 \<le> j \<and> j < r \<longrightarrow> bitmap_bit b j)
     else r = - 1"
    using bitmap_first_not_set_in_range_spec [OF assms, of 0 "?m - 1"]
    by (auto simp: bitmap_first_not_set_def)
  have le: "j \<le> ?m - 1 \<longleftrightarrow> j < ?m" for j by auto
  show ?thesis
  proof (cases "\<forall>j. 0 \<le> j \<and> j < ?m \<longrightarrow> bitmap_bit b j")
    case True
    then have "\<not> (\<exists>j. 0 \<le> j \<and> j \<le> ?m - 1 \<and> \<not> bitmap_bit b j)" unfolding le by blast
    from r(2) [unfolded if_not_P [OF this]] show ?thesis
      using r(1) unfolding if_P [OF True] by blast
  next
    case False
    then have "\<exists>j. 0 \<le> j \<and> j \<le> ?m - 1 \<and> \<not> bitmap_bit b j" unfolding le by blast
    from r(2) [unfolded if_P [OF this]] show ?thesis
      using r(1) unfolding if_not_P [OF False] le by blast
  qed
qed

theorem bitmap_first_not_set_lowest_witness:
  "bitmap_first_not_set \<lparr> bm_table = Some [1], max_bit_count = 2 \<rparr> = Some 1"
proof -
  let ?b = "\<lparr> bm_table = Some [1], max_bit_count = 2 \<rparr>"
  have bits: "\<not> bitmap_bit ?b 1" "bitmap_bit ?b 0" by (simp_all add: bitmap_bit_def)
  have m: "max_bit_count ?b = 2" and inv: "bitmap_inv ?b" by (simp_all add: bitmap_inv_def)
  have "(0::int) \<le> 1 \<and> (1::int) < 2" by simp
  then have no: "\<not> (\<forall>j. 0 \<le> j \<and> j < 2 \<longrightarrow> bitmap_bit ?b j)" using bits(1) by blast
  from bitmap_first_not_set_lowest [OF inv, unfolded m, unfolded if_not_P [OF no]]
  obtain r where r: "bitmap_first_not_set ?b = Some r" "0 \<le> r" "r < 2" "\<not> bitmap_bit ?b r" by blast
  with bits(2) have "r \<noteq> 0" by metis
  with r(2,3) have "r = 1" by linarith
  with r(1) show ?thesis by simp
qed

end
