(* ===== verification/Kernel_Circular.thy ===== *)
theory Kernel_Circular
  imports Kernel_String
begin

text \<open>
  The circular buffer of \<^verbatim>\<open>source/kernel/src/lib/circular.c\<close>, used for the receive and send
  windows of TCP and by the terminals. \<^verbatim>\<open>size_t\<close> is 32 bits wide: the offset of a pointer wraps at
  \<open>2^32\<close> before it is reduced modulo the buffer size.
\<close>

section \<open>Data and operations\<close>

record circular_buffer_t =
  cb_buffer :: "byte list option"
  cb_buffer_size :: nat

record circular_pointer_t =
  cp_offset :: nat

definition init_circular_pointer ::
    "circular_buffer_t \<Rightarrow> circular_pointer_t \<Rightarrow> nat \<Rightarrow> (errno + unit) \<times> circular_pointer_t" where
  "init_circular_pointer buffer pointer offset =
     (if offset \<ge> cb_buffer_size buffer then (Inl EINVAL, pointer)
      else (Inr (), pointer\<lparr> cp_offset := offset \<rparr>))"

definition circular_pointer_diff ::
    "circular_buffer_t \<Rightarrow> circular_pointer_t \<Rightarrow> circular_pointer_t \<Rightarrow> nat" where
  "circular_pointer_diff buffer ptr1 ptr2 =
     (if cp_offset ptr1 \<le> cp_offset ptr2 then cp_offset ptr2 - cp_offset ptr1
      else cb_buffer_size buffer - cp_offset ptr1 + cp_offset ptr2)"

definition circular_pointer_move ::
    "circular_buffer_t \<Rightarrow> circular_pointer_t \<Rightarrow> nat \<Rightarrow> circular_pointer_t" where
  "circular_pointer_move buffer pointer sz =
     pointer\<lparr> cp_offset := u32_of (cp_offset pointer + sz) mod cb_buffer_size buffer \<rparr>"

definition circular_pointer_get ::
    "circular_buffer_t \<Rightarrow> circular_pointer_t \<Rightarrow> byte list option" where
  "circular_pointer_get buffer pointer =
     map_option (drop (cp_offset pointer)) (cb_buffer buffer)"

definition init_circular_buffer ::
    "byte alloc \<Rightarrow> circular_buffer_t \<Rightarrow> nat \<Rightarrow> (errno + unit) \<times> circular_buffer_t" where
  "init_circular_buffer km buffer sz =
     (case km sz of
        None \<Rightarrow> (Inl ENOMEM, buffer\<lparr> cb_buffer := None \<rparr>)
      | Some b \<Rightarrow> (Inr (), buffer\<lparr> cb_buffer := Some b, cb_buffer_size := sz \<rparr>))"

definition destroy_circular_buffer :: "circular_buffer_t \<Rightarrow> circular_buffer_t" where
  "destroy_circular_buffer buffer = buffer\<lparr> cb_buffer := None \<rparr>"

definition circular_buffer_size :: "circular_buffer_t \<Rightarrow> nat" where
  "circular_buffer_size buffer = cb_buffer_size buffer"

text \<open>
  \<^verbatim>\<open>memcpy\<close> into an object at an offset: the cells before the offset stay.
\<close>

definition memcpy_at :: "'a list \<Rightarrow> nat \<Rightarrow> 'a list \<Rightarrow> nat \<Rightarrow> 'a list option" where
  "memcpy_at dest off src n =
     (if off \<le> length dest then map_option ((@) (take off dest)) (memcpy (drop off dest) src n)
      else None)"

text \<open>
  The two copy loops. \<open>pos\<close> is the running pointer \<^verbatim>\<open>data\<close> as an offset. The loop does not
  end on a buffer of size 0 (\<^verbatim>\<open>to_copy\<close> stays 0).
\<close>

partial_function (option) circular_read_loop ::
    "byte list \<Rightarrow> nat \<Rightarrow> byte list \<Rightarrow> nat \<Rightarrow> nat \<Rightarrow> byte list option" where
  "circular_read_loop buf buffer_size data pos sz =
     (if sz > 0 then do {
        let to_copy = min sz buffer_size;
        data \<leftarrow> memcpy_at data pos buf to_copy;
        circular_read_loop buf buffer_size data (pos + to_copy) (sz - to_copy) }
      else Some data)"

definition circular_buffer_read ::
    "circular_buffer_t \<Rightarrow> circular_pointer_t \<Rightarrow> byte list \<Rightarrow> nat \<Rightarrow> byte list option" where
  "circular_buffer_read buffer pointer data sz = do {
     buf \<leftarrow> cb_buffer buffer;
     let to_copy = min (cb_buffer_size buffer - cp_offset pointer) sz;
     data \<leftarrow> memcpy data (drop (cp_offset pointer) buf) to_copy;
     circular_read_loop buf (cb_buffer_size buffer) data to_copy (sz - to_copy) }"

partial_function (option) circular_write_loop ::
    "byte list \<Rightarrow> nat \<Rightarrow> byte list \<Rightarrow> nat \<Rightarrow> nat \<Rightarrow> byte list option" where
  "circular_write_loop buf buffer_size data pos sz =
     (if sz > 0 then do {
        let to_copy = min sz buffer_size;
        buf \<leftarrow> memcpy_at buf 0 (drop pos data) to_copy;
        circular_write_loop buf buffer_size data (pos + to_copy) (sz - to_copy) }
      else Some buf)"

definition circular_buffer_write ::
    "circular_buffer_t \<Rightarrow> circular_pointer_t \<Rightarrow> byte list \<Rightarrow> nat \<Rightarrow> circular_buffer_t option" where
  "circular_buffer_write buffer pointer data sz = do {
     buf \<leftarrow> cb_buffer buffer;
     let to_copy = min (cb_buffer_size buffer - cp_offset pointer) sz;
     buf \<leftarrow> memcpy_at buf (cp_offset pointer) data to_copy;
     buf \<leftarrow> circular_write_loop buf (cb_buffer_size buffer) data to_copy (sz - to_copy);
     Some (buffer\<lparr> cb_buffer := Some buf \<rparr>) }"

section \<open>Invariant and specification\<close>

definition circular_inv :: "circular_buffer_t \<Rightarrow> circular_pointer_t \<Rightarrow> bool" where
  "circular_inv b p \<longleftrightarrow> (\<exists>xs. cb_buffer b = Some xs \<and> length xs = cb_buffer_size b) \<and>
     cp_offset p < cb_buffer_size b"

text \<open>The buffer as an endless tape: cell \<open>i\<close> after the pointer.\<close>

definition circular_cell :: "circular_buffer_t \<Rightarrow> circular_pointer_t \<Rightarrow> nat \<Rightarrow> byte" where
  "circular_cell b p i =
     (case cb_buffer b of None \<Rightarrow> 0 | Some xs \<Rightarrow> xs ! ((cp_offset p + i) mod cb_buffer_size b))"

lemma memcpy_at_eq:
  "off + n \<le> length dest \<Longrightarrow> n \<le> length src \<Longrightarrow>
   memcpy_at dest off src n = Some (take off dest @ take n src @ drop (off + n) dest)"
  by (simp add: memcpy_at_def memcpy_eq add.commute)

lemma circular_inv_cases:
  assumes "circular_inv b p"
  obtains xs where "cb_buffer b = Some xs" "length xs = cb_buffer_size b"
    "cp_offset p < length xs"
  using assms by (auto simp: circular_inv_def)

lemma circular_read_loop_eq:
  assumes "length buf = bs" and "0 < bs" and "pos + sz \<le> length data"
  shows "circular_read_loop buf bs data pos sz =
    Some (take pos data @ map (\<lambda>i. buf ! (i mod bs)) [0..<sz] @ drop (pos + sz) data)"
  using assms(3)
proof (induction sz arbitrary: data pos rule: less_induct)
  case (less sz)
  show ?case
  proof (cases "sz \<le> bs")
    case True
    have "map (\<lambda>i. buf ! (i mod bs)) [0..<sz] = take sz buf"
      using True assms by (intro nth_equalityI) auto
    with True less.prems assms show ?thesis
      by (cases "sz = 0")
        (simp_all add: circular_read_loop.simps memcpy_at_eq min_absorb1)
  next
    case False
    let ?d = "take pos data @ buf @ drop (pos + bs) data"
    have s: "[0..<sz] = [0..<bs] @ map (\<lambda>i. i + bs) [0..<sz - bs]"
      using False by (intro upt_split) simp
    have b: "map (\<lambda>i. buf ! (i mod bs)) [0..<bs] = buf"
      using assms by (intro nth_equalityI) auto
    have "circular_read_loop buf bs data pos sz =
        circular_read_loop buf bs ?d (pos + bs) (sz - bs)"
      using False less.prems assms
      by (subst circular_read_loop.simps) (simp add: memcpy_at_eq min_absorb2)
    also have "\<dots> = Some (take (pos + bs) ?d @ map (\<lambda>i. buf ! (i mod bs)) [0..<sz - bs] @
        drop (pos + bs + (sz - bs)) ?d)"
      using False less.prems assms by (intro less.IH) auto
    also have "\<dots> = Some (take pos data @ map (\<lambda>i. buf ! (i mod bs)) [0..<sz] @
        drop (pos + sz) data)"
      using False less.prems assms by (simp add: s b o_def add.commute)
    finally show ?thesis .
  qed
qed

text \<open>Reading returns the next \<open>sz\<close> cells of the tape.\<close>

lemma circular_buffer_read_eq:
  assumes "circular_inv b p" and "sz \<le> length data"
  shows "circular_buffer_read b p data sz =
    Some (map (circular_cell b p) [0..<sz] @ drop sz data)"
proof -
  obtain xs where xs: "cb_buffer b = Some xs" "length xs = cb_buffer_size b"
    "cp_offset p < length xs"
    using assms(1) by (rule circular_inv_cases)
  let ?o = "cp_offset p" let ?n = "length xs - ?o"
  let ?t = "min ?n sz"
  have a: "map (circular_cell b p) [0..<?t] = take ?t (drop ?o xs)"
    using xs by (intro nth_equalityI) (auto simp: circular_cell_def)
  have split: "[0..<sz] = [0..<?t] @ map (\<lambda>i. i + ?t) [0..<sz - ?t]"
    by (rule upt_split) simp
  have c: "map (circular_cell b p) (map (\<lambda>i. i + ?t) [0..<sz - ?t]) =
      map (\<lambda>i. xs ! (i mod length xs)) [0..<sz - ?t]"
  proof (cases "sz \<le> ?n")
    case False
    have "(?o + (i + ?n)) mod length xs = i mod length xs" for i
      using xs(3) by (metis add.commute add.left_commute le_add_diff_inverse less_imp_le
          mod_add_self2)
    with False xs show ?thesis by (simp add: circular_cell_def min_absorb1)
  qed simp
  have "circular_buffer_read b p data sz =
      circular_read_loop xs (length xs) (take ?t (drop ?o xs) @ drop ?t data) ?t (sz - ?t)"
    using xs assms(2) by (simp add: circular_buffer_read_def memcpy_eq Let_def)
  also have "\<dots> = Some (take ?t (drop ?o xs) @ map (\<lambda>i. xs ! (i mod length xs)) [0..<sz - ?t]
      @ drop sz data)"
    using xs assms(2) by (subst circular_read_loop_eq) (auto simp: min_def)
  finally show ?thesis
    unfolding split map_append a c by simp
qed

text \<open>Writing up to one buffer length replaces exactly the next \<open>sz\<close> cells.\<close>

lemma circular_buffer_write_eq:
  assumes "circular_inv b p" and "sz \<le> length data" and "sz \<le> cb_buffer_size b"
  shows "\<exists>b'. circular_buffer_write b p data sz = Some b' \<and> circular_inv b' p \<and>
    cb_buffer_size b' = cb_buffer_size b \<and>
    (\<forall>i < cb_buffer_size b. circular_cell b' p i =
       (if i < sz then data ! i else circular_cell b p i))"
proof -
  obtain xs where xs: "cb_buffer b = Some xs" "length xs = cb_buffer_size b"
    "cp_offset p < length xs"
    using assms(1) by (rule circular_inv_cases)
  let ?o = "cp_offset p" let ?n = "length xs - ?o"
  let ?t = "min ?n sz"
  let ?r = "sz - ?t"
  let ?ys = "take ?o xs @ take ?t data @ drop (?o + ?t) xs"
  let ?zs = "take ?r (drop ?t data) @ drop ?r ?ys"
  have l: "length ?ys = length xs" using xs assms(2) by auto
  have r: "?r \<le> ?o" using xs assms(3) by auto
  have "circular_write_loop ?ys (length xs) data ?t ?r = Some ?zs"
    using assms(2) l r xs
    by (cases "?r = 0")
      (simp_all add: circular_write_loop.simps memcpy_at_eq min_absorb1 Let_def)
  moreover have "memcpy_at xs ?o data ?t = Some ?ys"
    using xs assms(2) by (intro memcpy_at_eq) auto
  ultimately have w: "circular_buffer_write b p data sz = Some (b\<lparr> cb_buffer := Some ?zs \<rparr>)"
    using xs by (simp add: circular_buffer_write_def Let_def)
  have lz: "length ?zs = length xs" using l r assms(2) xs by auto
  have ys: "?ys ! j = (if ?o \<le> j \<and> j < ?o + ?t then data ! (j - ?o) else xs ! j)"
    if "j < length xs" for j
    using that xs(3) assms(2) by (auto simp: nth_append)
  have lr: "length (take ?r (drop ?t data)) = ?r" using assms(2) by simp
  have zs: "?zs ! j = (if j < ?r then data ! (?t + j) else ?ys ! j)" if "j < length xs" for j
  proof (cases "j < ?r")
    case True
    then have "?zs ! j = take ?r (drop ?t data) ! j" by (simp only: nth_append lr if_True)
    also have "\<dots> = data ! (?t + j)" using True assms(2) by simp
    finally show ?thesis using True by (simp only: if_True)
  next
    case False
    then have "?zs ! j = drop ?r ?ys ! (j - ?r)" by (subst nth_append) (simp only: lr if_False)
    also have "\<dots> = ?ys ! j" using False that l
      by (subst nth_drop) (simp_all only: le_add_diff_inverse not_less)
    finally show ?thesis using False by (simp only: if_False)
  qed
  define zz where "zz = ?zs"
  define yy where "yy = ?ys"
  have zz: "zz ! ((?o + i) mod length xs) =
      (if i < sz then data ! i else xs ! ((?o + i) mod length xs))"
    if i: "i < length xs" for i
  proof (cases "?o + i < length xs")
    case True
    then have "(?o + i) mod length xs = ?o + i" "\<not> ?o + i < ?r" using r by simp_all
    moreover have "i < ?t \<longleftrightarrow> i < sz" using True by auto
    ultimately show ?thesis
      using zs [OF True, folded zz_def yy_def] ys [OF True, folded yy_def] by simp
  next
    case False
    let ?j = "?o + i - length xs"
    have j: "(?o + i) mod length xs = ?j" "?j < length xs" "?j < ?o"
      using False i xs(3) by (simp_all add: le_mod_geq)
    moreover have "?j < ?r \<longleftrightarrow> i < sz" using False i xs(3) by auto
    moreover have "?t + ?j = i" if "i < sz" using that False i xs(3) by auto
    ultimately show ?thesis
      using zs [OF j(2), folded zz_def yy_def] ys [OF j(2), folded yy_def] by simp
  qed
  have lz': "length zz = length xs" using lz unfolding zz_def .
  from w [folded zz_def] lz' xs zz show ?thesis
    by (auto simp: circular_inv_def circular_cell_def)
qed

section \<open>Properties\<close>

text \<open>A read from the same pointer after a write of at most a buffer length returns the written
  bytes, also when they wrap around the end of the buffer, and leaves the rest of the reader's
  memory alone.\<close>

theorem circular_write_read:
  assumes "circular_inv b p" and "sz \<le> length data" and "sz \<le> cb_buffer_size b"
    and "sz \<le> length out"
  shows "\<exists>b'. circular_buffer_write b p data sz = Some b' \<and> circular_inv b' p \<and>
    circular_buffer_read b' p out sz = Some (take sz data @ drop sz out)"
proof -
  obtain b' where b': "circular_buffer_write b p data sz = Some b'" "circular_inv b' p"
    "\<forall>i < cb_buffer_size b. circular_cell b' p i = (if i < sz then data ! i else circular_cell b p i)"
    using circular_buffer_write_eq [OF assms(1-3)] by blast
  have "map (circular_cell b' p) [0..<sz] = take sz data"
    using b'(3) assms(2,3) by (intro nth_equalityI) auto
  with b' circular_buffer_read_eq [OF b'(2) assms(4)] show ?thesis by simp
qed

theorem circular_write_read_witness:
  "\<exists>b'. circular_buffer_write \<lparr> cb_buffer = Some [1, 2, 3, 4], cb_buffer_size = 4 \<rparr>
      \<lparr> cp_offset = 3 \<rparr> [7, 8, 9] 3 = Some b' \<and>
    circular_buffer_read b' \<lparr> cp_offset = 3 \<rparr> [0, 0, 0, 5] 3 = Some [7, 8, 9, 5]"
proof -
  have "circular_inv \<lparr> cb_buffer = Some [1, 2, 3, 4], cb_buffer_size = 4 \<rparr> \<lparr> cp_offset = 3 \<rparr>"
    by (simp add: circular_inv_def)
  from circular_write_read [OF this, of 3 "[7, 8, 9]" "[0, 0, 0, 5]"] show ?thesis by auto
qed

end
