(* ===== verification/Kernel_Time.thy ===== *)
theory Kernel_Time
  imports Kernel_Prelude
begin

text \<open>
  Calendar time: \<^verbatim>\<open>source/kernel/src/lib/time.c\<close> (broken-down time from seconds since the
  epoch and days between dates) and \<^verbatim>\<open>mktime\<close> of \<^verbatim>\<open>source/kernel/src/time.c\<close>. \<^verbatim>\<open>time_t\<close> is an
  unsigned 64-bit integer, so time values are natural numbers. The arithmetic of \<^verbatim>\<open>mktime\<close> is
  done in \<^verbatim>\<open>int\<close>; a value outside its range is a signed overflow.
\<close>

section \<open>Tables and data\<close>

definition monthdays :: "nat list" where
  "monthdays = [0, 31, 59, 90, 120, 151, 181, 212, 243, 273, 304, 334, 365]"

definition monthdays2 :: "nat list" where
  "monthdays2 = [0, 31, 60, 91, 121, 152, 182, 213, 244, 274, 305, 335, 366]"

definition sumofdays :: "nat list" where
  "sumofdays = [
    0, 366, 731, 1096, 1461, 1827, 2192, 2557, 2922, 3288, 3653, 4018, 4383, 4749,
    5114, 5479, 5844, 6210, 6575, 6940, 7305, 7671, 8036, 8401, 8766, 9132, 9497,
    9862, 10227, 10593, 10958, 11323, 11688, 12054, 12419, 12784, 13149, 13515,
    13880, 14245, 14610, 14976, 15341, 15706, 16071, 16437, 16802, 17167, 17532,
    17898, 18263, 18628, 18993, 19359, 19724, 20089, 20454, 20820, 21185, 21550]"

definition EPOCH :: nat where
  "EPOCH = 1970"

record tm_t =
  tm_sec :: nat
  tm_min :: nat
  tm_hour :: nat
  tm_mday :: nat
  tm_mon :: nat
  tm_year :: nat
  tm_wday :: nat
  tm_yday :: nat
  tm_isdst :: int

section \<open>Operations\<close>

text \<open>The search loops of \<^verbatim>\<open>gettime\<close>: the first index below \<open>n\<close> whose entry exceeds \<open>v\<close>,
  or \<open>n\<close>.\<close>

function first_above :: "nat list \<Rightarrow> nat \<Rightarrow> nat \<Rightarrow> nat \<Rightarrow> nat" where
  "first_above tab n v i =
     (if i < n then if tab ! i > v then i else first_above tab n v (i + 1) else i)"
  by pat_completeness auto
termination
  by (relation "measure (\<lambda>(tab, n, v, i). n - i)") auto

declare first_above.simps [simp del]

text \<open>The year, the day of the year, the month and the day of the month of a day number.\<close>

definition gettime_year :: "nat \<Rightarrow> nat \<times> nat" where
  "gettime_year timeval =
     (let i = first_above sumofdays 60 timeval 0 in
      if i < 60 then (EPOCH + i - 1, timeval - sumofdays ! (i - 1)) else (EPOCH, timeval))"

definition gettime_month :: "nat \<Rightarrow> nat \<Rightarrow> nat \<times> nat" where
  "gettime_month year timeval =
     (let tab = (if year mod 4 = 0 then monthdays2 else monthdays);
          m = first_above tab 12 timeval 0 in
      if m < 12 then (m - 1, timeval - tab ! (m - 1)) else (m, timeval))"

definition gettime :: "nat \<Rightarrow> tm_t" where
  "gettime timeval =
     (let sec = timeval mod 60; timeval = timeval div 60;
          min = timeval mod 60; timeval = timeval div 60;
          hour = timeval mod 24; timeval = timeval div 24;
          wday = (4 + timeval) mod 7;
          (year, timeval) = gettime_year timeval;
          yday = timeval;
          (mon, timeval) = gettime_month year timeval
      in \<lparr> tm_sec = sec, tm_min = min, tm_hour = hour, tm_mday = timeval + 1, tm_mon = mon,
           tm_year = year, tm_wday = wday, tm_yday = yday, tm_isdst = - 1 \<rparr>)"

text \<open>The year loop of \<^verbatim>\<open>daysdiff\<close> counts from \<^verbatim>\<open>EPOCH\<close>.\<close>

primrec year_days :: "nat \<Rightarrow> nat" where
  "year_days 0 = 0"
| "year_days (Suc k) = year_days k + (if (EPOCH + k) mod 4 = 0 then 366 else 365)"

definition daysdiff :: "nat \<Rightarrow> nat \<Rightarrow> nat \<Rightarrow> int option" where
  "daysdiff year month day =
     (if month < 13 then
        Some (int (year_days (year - EPOCH)) +
              int ((if year mod 4 = 0 then monthdays2 else monthdays) ! month) + int day - 1)
      else None)"

definition dayofweek :: "nat \<Rightarrow> nat \<Rightarrow> nat \<Rightarrow> int option" where
  "dayofweek year month day = map_option (\<lambda>d. (4 + d) mod 7) (daysdiff year month day)"

text \<open>Signed 32-bit arithmetic without overflow, or \<open>None\<close>.\<close>

definition c_int :: "int \<Rightarrow> int option" where
  "c_int x = (if - 2147483648 \<le> x \<and> x < 2147483648 then Some x else None)"

definition mktime :: "tm_t \<Rightarrow> int option" where
  "mktime t =
     (if tm_year t > 2100 then Some (2 ^ 64 - 1)
      else do {
        d \<leftarrow> daysdiff (tm_year t) (tm_mon t) (tm_mday t);
        a \<leftarrow> c_int (d * 86400);
        b \<leftarrow> c_int (int (tm_hour t) * 3600);
        c \<leftarrow> c_int (a + b);
        e \<leftarrow> c_int (int (tm_min t) * 60);
        f \<leftarrow> c_int (c + e);
        c_int (f + int (tm_sec t)) })"

section \<open>Lemmas\<close>

lemma first_above_mono:
  assumes "i \<le> k" and "k < n" and "\<And>j. i \<le> j \<Longrightarrow> j < k \<Longrightarrow> tab ! j \<le> v" and "tab ! k > v"
  shows "first_above tab n v i = k"
  using assms
proof (induction "k - i" arbitrary: i)
  case 0
  then show ?case by (simp add: first_above.simps)
next
  case (Suc d)
  then have "i < k" "i < n" "\<not> v < tab ! i" by fastforce+
  then show ?case using Suc.hyps(1) [of "i + 1"] Suc.hyps(2) Suc.prems
    by (subst first_above.simps) auto
qed

lemma first_above_none:
  assumes "i \<le> n" and "\<And>j. i \<le> j \<Longrightarrow> j < n \<Longrightarrow> tab ! j \<le> v"
  shows "first_above tab n v i = n"
  using assms
proof (induction "n - i" arbitrary: i)
  case 0
  then show ?case by (simp add: first_above.simps)
next
  case (Suc d)
  then have "i < n" "\<not> v < tab ! i" by fastforce+
  then show ?case using Suc.hyps(1) [of "i + 1"] Suc.hyps(2) Suc.prems
    by (subst first_above.simps) auto
qed

text \<open>In a sorted table the search finds the interval of the value.\<close>

lemma first_above_sorted:
  assumes "sorted tab" and "n \<le> length tab" and "Suc k < n" and "tab ! k \<le> v" and "v < tab ! Suc k"
  shows "first_above tab n v 0 = Suc k"
proof (rule first_above_mono)
  fix j assume "j < Suc k"
  then have "tab ! j \<le> tab ! k" using assms by (intro sorted_nth_mono) auto
  then show "tab ! j \<le> v" using assms(4) by simp
qed (use assms in auto)

lemma sorted_interval:
  assumes "sorted tab" and "tab \<noteq> []" and "tab ! 0 \<le> v" and "v < tab ! (length tab - 1)"
  shows "\<exists>k. Suc k < length tab \<and> tab ! k \<le> v \<and> v < tab ! Suc k"
proof -
  define k where "k = (LEAST j. v < tab ! j)"
  have k: "v < tab ! k" unfolding k_def by (rule LeastI [of _ "length tab - 1"]) (rule assms(4))
  have le: "k \<le> length tab - 1" unfolding k_def by (rule Least_le) (rule assms(4))
  have "k \<noteq> 0" using k assms(3) by (cases k) auto
  then obtain m where m: "k = Suc m" by (cases k) auto
  have "\<not> v < tab ! m" using not_less_Least [of m "\<lambda>j. v < tab ! j"] m by (simp add: k_def)
  with k le m show ?thesis by (intro exI [of _ m]) auto
qed

lemma tables_sorted: "sorted sumofdays" "sorted monthdays" "sorted monthdays2"
  by (simp_all add: sumofdays_def monthdays_def monthdays2_def)

lemma tables_length [simp]:
  "length sumofdays = 60" "length monthdays = 13" "length monthdays2 = 13"
  by (simp_all add: sumofdays_def monthdays_def monthdays2_def)

text \<open>
  The table \<^verbatim>\<open>sumofdays\<close> has its leap years in 1970, 1974, ...; it agrees with the calendar
  of \<^verbatim>\<open>daysdiff\<close> (leap years 1972, 1976, ...) in the years that are 0 or 3 modulo 4 after the epoch
  and is one day ahead in the other two.
\<close>

lemma year_days_eq: "year_days i = 365 * i + (i + 1) div 4"
proof (induction i)
  case (Suc i)
  have "(1970 + i) mod 4 = 0 \<longleftrightarrow> i mod 4 = 2" by presburger
  moreover have "(i + 2) div 4 = (i + 1) div 4 + (if i mod 4 = 2 then 1 else 0)" by presburger
  ultimately show ?case using Suc by (simp add: EPOCH_def)
qed simp

lemma sumofdays_eq: "sumofdays = map (\<lambda>i. 365 * i + (i + 3) div 4) [0..<60]"
  by (simp add: sumofdays_def upt_rec)

lemma sumofdays_calendar:
  "i < 60 \<Longrightarrow> sumofdays ! i = year_days i + (if i mod 4 = 1 \<or> i mod 4 = 2 then 1 else 0)"
proof -
  assume "i < 60"
  moreover have "(i + 3) div 4 = (i + 1) div 4 + (if i mod 4 = 1 \<or> i mod 4 = 2 then 1 else 0)"
    by presburger
  ultimately show ?thesis by (simp add: sumofdays_eq year_days_eq)
qed

lemma gettime_year_eq:
  "Suc i < 60 \<Longrightarrow> sumofdays ! i \<le> d \<Longrightarrow> d < sumofdays ! Suc i \<Longrightarrow>
   gettime_year d = (EPOCH + i, d - sumofdays ! i)"
  using first_above_sorted [of sumofdays 60 i d] tables_sorted by (simp add: gettime_year_def)

text \<open>Before December the month search finds the month of the day of the year; from 1 December
  on it does not find any and leaves \<^verbatim>\<open>tm_mon\<close> at 12.\<close>

lemma gettime_month_eq:
  assumes "tab = (if y mod 4 = 0 then monthdays2 else monthdays)"
  shows "Suc m < 12 \<Longrightarrow> tab ! m \<le> v \<Longrightarrow> v < tab ! Suc m \<Longrightarrow> gettime_month y v = (m, v - tab ! m)"
    and "tab ! 11 \<le> v \<Longrightarrow> gettime_month y v = (12, v)"
proof -
  have s: "sorted tab" "length tab = 13" using tables_sorted by (simp_all add: assms)
  show "gettime_month y v = (m, v - tab ! m)" if "Suc m < 12" "tab ! m \<le> v" "v < tab ! Suc m"
    using first_above_sorted [OF s(1) _ that] s(2) that(1)
    by (simp add: gettime_month_def Let_def assms [symmetric])
  show "gettime_month y v = (12, v)" if "tab ! 11 \<le> v"
  proof -
    have "tab ! j \<le> tab ! 11" if "j < 12" for j
      using that s by (intro sorted_nth_mono) auto
    then have "first_above tab 12 v 0 = 12"
      using that by (intro first_above_none) (auto intro: le_trans)
    then show ?thesis by (simp add: gettime_month_def Let_def assms [symmetric])
  qed
qed

text \<open>The seconds of a day number and a time of day.\<close>

definition seconds :: "nat \<Rightarrow> nat \<Rightarrow> nat \<Rightarrow> nat \<Rightarrow> nat" where
  "seconds d h mi s = ((d * 24 + h) * 60 + mi) * 60 + s"

lemma div_mod_mult_add: "s < n \<Longrightarrow> (a * n + s) div n = a" "s < n \<Longrightarrow> (a * n + s) mod n = (s::nat)"
  by simp_all

lemma seconds_split:
  assumes "h < 24" "mi < 60" "s < 60"
  shows "seconds d h mi s mod 60 = s" "seconds d h mi s div 60 mod 60 = mi"
    "seconds d h mi s div 60 div 60 mod 24 = h" "seconds d h mi s div 60 div 60 div 24 = d"
  using assms unfolding seconds_def by (simp_all only: div_mod_mult_add)

lemma gettime_eq:
  assumes "h < 24" "mi < 60" "s < 60" and "gettime_year d = (y, yd)"
    and "gettime_month y yd = (m, md)"
  shows "gettime (seconds d h mi s) = \<lparr> tm_sec = s, tm_min = mi, tm_hour = h, tm_mday = md + 1,
    tm_mon = m, tm_year = y, tm_wday = (4 + d) mod 7, tm_yday = yd, tm_isdst = - 1 \<rparr>"
  using assms by (simp add: gettime_def seconds_split)

lemma seconds_range:
  assumes "h < 24" "mi < 60" "s < 60" "d < 24855"
  shows "int d * 86400 + int h * 3600 + int mi * 60 + int s < 2147483648"
  using assms by linarith

lemma mktime_eq:
  assumes "h < 24" "mi < 60" "s < 60" and "y \<le> 2100" and "daysdiff y m md = Some (int d)"
    and "d < 24855"
  shows "mktime \<lparr> tm_sec = s, tm_min = mi, tm_hour = h, tm_mday = md, tm_mon = m, tm_year = y,
    tm_wday = wd, tm_yday = yd, tm_isdst = dst \<rparr> = Some (int (seconds d h mi s))"
  using assms seconds_range [OF assms(1-3,6)] by (simp add: mktime_def c_int_def seconds_def)

text \<open>
  \<open>mktime\<close> undoes \<open>gettime\<close> on a day that \<^verbatim>\<open>gettime\<close> places in the year \<open>EPOCH + i\<close> with \<open>i\<close> 0 or 3
  modulo 4 and before December.
\<close>

lemma mktime_gettime:
  assumes "h < 24" "mi < 60" "s < 60" and i: "Suc i < 60" "i mod 4 = 0 \<or> i mod 4 = 3"
    and d: "sumofdays ! i \<le> d" "d < sumofdays ! Suc i"
    and "d - sumofdays ! i < (if (EPOCH + i) mod 4 = 0 then monthdays2 else monthdays) ! 11"
  shows "mktime (gettime (seconds d h mi s)) = Some (int (seconds d h mi s))"
proof -
  let ?y = "EPOCH + i" and ?v = "d - sumofdays ! i"
  define tab where "tab = (if ?y mod 4 = 0 then monthdays2 else monthdays)"
  have tab: "sorted (take 12 tab)" "take 12 tab \<noteq> []" "take 12 tab ! 0 = 0" "length tab = 13"
    using tables_sorted by (auto simp: tab_def sorted_wrt_take monthdays_def monthdays2_def)
  obtain m where m: "Suc m < 12" "tab ! m \<le> ?v" "?v < tab ! Suc m"
    using sorted_interval [OF tab(1,2), of ?v] tab assms(8) by (auto simp: tab_def)
  have y: "gettime_year d = (?y, ?v)" using i(1) d by (rule gettime_year_eq)
  have mon: "gettime_month ?y ?v = (m, ?v - tab ! m)"
    using m by (intro gettime_month_eq(1)) (simp_all add: tab_def)
  have ys: "sumofdays ! i = year_days i" using sumofdays_calendar [of i] i by auto
  have "daysdiff ?y m (?v - tab ! m + 1) = Some (int d)"
    using m d(1) ys by (simp add: daysdiff_def tab_def [symmetric])
  moreover have "sumofdays ! Suc i \<le> sumofdays ! 59"
    using i(1) tables_sorted by (intro sorted_nth_mono) auto
  then have "d < 24855" using d(2) by (simp add: sumofdays_def)
  ultimately show ?thesis
    using assms(1-3) i(1) gettime_eq [OF assms(1-3) y mon]
    by (simp add: mktime_eq EPOCH_def)
qed

section \<open>Properties\<close>

text \<open>On every day that \<open>gettime\<close> places in a year that is 0 or 3 modulo 4 after 1970 and before
  1 December, \<open>mktime\<close> undoes \<open>gettime\<close>: the broken-down time denotes the given second.\<close>

theorem mktime_gettime_roundtrip:
  assumes "h < 24" "mi < 60" "s < 60" and "Suc i < 60" "i mod 4 = 0 \<or> i mod 4 = 3"
    and "sumofdays ! i \<le> d" "d < sumofdays ! Suc i"
    and "d - sumofdays ! i < (if (EPOCH + i) mod 4 = 0 then monthdays2 else monthdays) ! 11"
  shows "mktime (gettime (seconds d h mi s)) = Some (int (seconds d h mi s))"
  using assms by (rule mktime_gettime)

theorem mktime_gettime_roundtrip_witness:
  "mktime (gettime (seconds 100 12 30 15)) = Some (int (seconds 100 12 30 15))"
  using mktime_gettime_roundtrip [of 12 30 15 0 100]
  by (simp add: sumofdays_def EPOCH_def monthdays_def)

text \<open>in December \<open>gettime\<close> finds no month. From 1 December on, in every year of the table, it
  returns month 12, outside the documented range 0 to 11, and the day of the year as the day of
  the month.\<close>

theorem gettime_december:
  assumes "h < 24" "mi < 60" "s < 60" and "Suc i < 60"
    and "sumofdays ! i \<le> d" "d < sumofdays ! Suc i"
    and "(if (EPOCH + i) mod 4 = 0 then monthdays2 else monthdays) ! 11 \<le> d - sumofdays ! i"
  shows "tm_mon (gettime (seconds d h mi s)) = 12 \<and>
    tm_mday (gettime (seconds d h mi s)) = d - sumofdays ! i + 1 \<and>
    335 \<le> tm_mday (gettime (seconds d h mi s))"
proof -
  have y: "gettime_year d = (EPOCH + i, d - sumofdays ! i)"
    using assms(4-6) by (rule gettime_year_eq)
  have m: "gettime_month (EPOCH + i) (d - sumofdays ! i) = (12, d - sumofdays ! i)"
    using assms(7) by (intro gettime_month_eq(2)) simp_all
  have "334 \<le> d - sumofdays ! i"
    using assms(7) by (auto simp: monthdays_def monthdays2_def split: if_splits)
  then show ?thesis using gettime_eq [OF assms(1-3) y m] by simp
qed

theorem gettime_december_witness:
  "tm_mon (gettime (seconds 358 0 0 0)) = 12 \<and> tm_mday (gettime (seconds 358 0 0 0)) = 359"
  using gettime_december [of 0 0 0 0 358]
  by (simp add: sumofdays_def EPOCH_def monthdays_def)

text \<open>1 January 1971 is not the first day of 1971 for \<open>gettime\<close>: \<open>daysdiff\<close> puts it on day 365,
  and \<open>gettime\<close> of that day answers with the year 1970. The tables of the two functions disagree on
  which years are leap years.\<close>

theorem gettime_new_year_1971:
  "daysdiff 1971 0 1 = Some 365 \<and> tm_year (gettime (seconds 365 0 0 0)) = 1970 \<and>
   tm_year (gettime (seconds 366 0 0 0)) = 1971"
proof -
  have "first_above sumofdays 60 365 0 = Suc 0"
    by (rule first_above_sorted [OF tables_sorted(1)]) (simp_all add: sumofdays_def)
  moreover have "first_above sumofdays 60 366 0 = Suc (Suc 0)"
    by (rule first_above_sorted [OF tables_sorted(1)]) (simp_all add: sumofdays_def)
  ultimately have "gettime_year 365 = (1970, 365)" "gettime_year 366 = (1971, 0)"
    by (simp_all add: gettime_year_def EPOCH_def sumofdays_def)
  then have "tm_year (gettime (seconds 365 0 0 0)) = 1970" "tm_year (gettime (seconds 366 0 0 0)) = 1971"
    by (simp_all add: gettime_def seconds_split split: prod.splits)
  then show ?thesis by (simp add: daysdiff_def EPOCH_def monthdays_def)
qed

end
