(* ===== verification/Kernel_Hashtable.thy ===== *)
theory Kernel_Hashtable
  imports Kernel_String "HOL-Library.Multiset"
begin

unbundle bit_operations_syntax

text \<open>
  The intrusive hash table of \<^verbatim>\<open>source/kernel/src/lib/hashtable.c\<close>: an array of bucket heads
  and the \<^verbatim>\<open>next\<close> pointers inside the items, which are one store \<open>nx\<close> shared by all tables. The
  key of an item is what \<^verbatim>\<open>key_func\<close> points to, so keys are values here. The walks along a
  bucket are \<open>partial_function\<close>s: a cyclic chain makes them run forever.

  The theory shows that the pointer operations implement a set of items with at most one
  item per key (locale \<open>item_table\<close>), through a refinement to a list of buckets.
\<close>

section \<open>Data\<close>

record 'k hashtable_t =
  ht_size :: nat
  ht_item_count :: nat
  ht_items :: "vptr list option"
  ht_key_func :: "addr \<Rightarrow> 'k"
  ht_hash_func :: "'k \<Rightarrow> u32"
  ht_compare_func :: "'k \<Rightarrow> 'k \<Rightarrow> bool"

type_synonym store = "addr \<Rightarrow> vptr"

section \<open>Operations\<close>

text \<open>The allocation size \<^verbatim>\<open>sizeof( hashitem_t* ) * size\<close> is computed in 32 bits.\<close>

definition alloc_heads :: "vptr alloc \<Rightarrow> nat \<Rightarrow> vptr list option option" where
  "alloc_heads km n =
     (case km (u32_of (4 * n) div 4) of
        None \<Rightarrow> Some None
      | Some xs \<Rightarrow> map_option Some (memset xs None (u32_of (4 * n) div 4)))"

definition init_hashtable ::
    "vptr alloc \<Rightarrow> 'k hashtable_t \<Rightarrow> nat \<Rightarrow> (addr \<Rightarrow> 'k) \<Rightarrow> ('k \<Rightarrow> u32) \<Rightarrow> ('k \<Rightarrow> 'k \<Rightarrow> bool)
     \<Rightarrow> ((errno + unit) \<times> 'k hashtable_t) option" where
  "init_hashtable km table n key_func hash_func compare_func = do {
     new_items \<leftarrow> alloc_heads km n;
     case new_items of
       None \<Rightarrow> Some (Inl ENOMEM, table\<lparr> ht_items := None \<rparr>)
     | Some xs \<Rightarrow> Some (Inr (), \<lparr> ht_size = n, ht_item_count = 0, ht_items = Some xs,
         ht_key_func = key_func, ht_hash_func = hash_func, ht_compare_func = compare_func \<rparr>) }"

definition destroy_hashtable :: "'k hashtable_t \<Rightarrow> 'k hashtable_t" where
  "destroy_hashtable table = table\<lparr> ht_items := None \<rparr>"

text \<open>\<^verbatim>\<open>hash_func( key ) % size\<close>; the division faults when the size is 0.\<close>

definition ht_hash :: "'k hashtable_t \<Rightarrow> 'k \<Rightarrow> nat \<Rightarrow> int option" where
  "ht_hash table key n = (if n = 0 then None else Some (int (unat (ht_hash_func table key) mod n)))"

text \<open>The inner and outer loop of \<^verbatim>\<open>hashtable_resize\<close>.\<close>

partial_function (option) resize_chain ::
    "'k hashtable_t \<Rightarrow> nat \<Rightarrow> vptr list \<Rightarrow> store \<Rightarrow> vptr \<Rightarrow> (vptr list \<times> store) option" where
  "resize_chain table new_size new_items nx item =
     (case item of
        None \<Rightarrow> Some (new_items, nx)
      | Some tmp \<Rightarrow> do {
          let item = nx tmp;
          hash \<leftarrow> ht_hash table (ht_key_func table tmp) new_size;
          head \<leftarrow> read_cell (Some new_items) hash;
          new_items \<leftarrow> write_cell (Some new_items) hash (Some tmp);
          resize_chain table new_size new_items (nx(tmp := head)) item })"

function resize_loop ::
    "'k hashtable_t \<Rightarrow> nat \<Rightarrow> vptr list \<Rightarrow> store \<Rightarrow> nat \<Rightarrow> (vptr list \<times> store) option" where
  "resize_loop table new_size new_items nx i =
     (if i < ht_size table then do {
        item \<leftarrow> read_cell (ht_items table) (int i);
        (new_items, nx) \<leftarrow> resize_chain table new_size new_items nx item;
        resize_loop table new_size new_items nx (i + 1) }
      else Some (new_items, nx))"
  by pat_completeness auto
termination
  by (relation "measure (\<lambda>(table, _, _, _, i). ht_size table - i)") auto

declare resize_loop.simps [simp del]

definition hashtable_resize ::
    "vptr alloc \<Rightarrow> 'k hashtable_t \<Rightarrow> store \<Rightarrow> nat \<Rightarrow> ('k hashtable_t \<times> store) option" where
  "hashtable_resize km table nx new_size = do {
     new_items \<leftarrow> alloc_heads km new_size;
     case new_items of
       None \<Rightarrow> Some (table, nx)
     | Some xs \<Rightarrow> do {
         (xs, nx) \<leftarrow> resize_loop table new_size xs nx 0;
         Some (table\<lparr> ht_items := Some xs, ht_size := new_size \<rparr>, nx) } }"

definition hashtable_add ::
    "vptr alloc \<Rightarrow> 'k hashtable_t \<Rightarrow> store \<Rightarrow> addr \<Rightarrow> ('k hashtable_t \<times> store) option" where
  "hashtable_add km table nx item = do {
     hash \<leftarrow> ht_hash table (ht_key_func table item) (ht_size table);
     head \<leftarrow> read_cell (ht_items table) hash;
     let nx = nx(item := head);
     xs \<leftarrow> write_cell (ht_items table) hash (Some item);
     let table = table\<lparr> ht_items := Some xs,
                       ht_item_count := u32_of (ht_item_count table + 1) \<rparr>;
     if ht_item_count table \<ge> ht_size table
     then hashtable_resize km table nx (u32_of (ht_size table * 2))
     else Some (table, nx) }"

partial_function (option) hashtable_get_loop ::
    "'k hashtable_t \<Rightarrow> store \<Rightarrow> 'k \<Rightarrow> vptr \<Rightarrow> vptr option" where
  "hashtable_get_loop table nx key item =
     (case item of
        None \<Rightarrow> Some None
      | Some it \<Rightarrow>
          if ht_compare_func table key (ht_key_func table it) then Some (Some it)
          else hashtable_get_loop table nx key (nx it))"

definition hashtable_get :: "'k hashtable_t \<Rightarrow> store \<Rightarrow> 'k \<Rightarrow> vptr option" where
  "hashtable_get table nx key = do {
     hash \<leftarrow> ht_hash table key (ht_size table);
     item \<leftarrow> read_cell (ht_items table) hash;
     hashtable_get_loop table nx key item }"

partial_function (option) hashtable_remove_loop ::
    "'k hashtable_t \<Rightarrow> store \<Rightarrow> 'k \<Rightarrow> int \<Rightarrow> vptr \<Rightarrow> vptr
     \<Rightarrow> ((errno + unit) \<times> 'k hashtable_t \<times> store) option" where
  "hashtable_remove_loop table nx key hash prev item =
     (case item of
        None \<Rightarrow> Some (Inl EINVAL, table, nx)
      | Some it \<Rightarrow>
          if ht_compare_func table key (ht_key_func table it) then do {
            (table, nx) \<leftarrow>
              (case prev of
                 None \<Rightarrow> do {
                   xs \<leftarrow> write_cell (ht_items table) hash (nx it);
                   Some (table\<lparr> ht_items := Some xs \<rparr>, nx) }
               | Some p \<Rightarrow> Some (table, nx(p := nx it)));
            Some (Inr (), table\<lparr> ht_item_count := dec32 (ht_item_count table) \<rparr>, nx) }
          else hashtable_remove_loop table nx key hash (Some it) (nx it))"

definition hashtable_remove ::
    "'k hashtable_t \<Rightarrow> store \<Rightarrow> 'k \<Rightarrow> ((errno + unit) \<times> 'k hashtable_t \<times> store) option" where
  "hashtable_remove table nx key = do {
     hash \<leftarrow> ht_hash table key (ht_size table);
     item \<leftarrow> read_cell (ht_items table) hash;
     hashtable_remove_loop table nx key hash None item }"

text \<open>
  Iteration. The callback may change anything, this table included, so the loops read the
  table and the \<^verbatim>\<open>next\<close> pointers from the callback's state \<open>s\<close> through \<open>tab\<close> and \<open>nxt\<close>. A negative
  result of the callback stops the walk. \<open>skip s it\<close> is a filter that rejects the item.
\<close>

type_synonym 's callback = "addr \<Rightarrow> 's \<Rightarrow> int \<times> 's"

partial_function (option) iterate_chain ::
    "('s \<Rightarrow> store) \<Rightarrow> 's callback \<Rightarrow> ('s \<Rightarrow> addr \<Rightarrow> bool) \<Rightarrow> 's \<Rightarrow> vptr \<Rightarrow> (int \<times> 's) option" where
  "iterate_chain nxt callback skip s item =
     (case item of
        None \<Rightarrow> Some (0, s)
      | Some it \<Rightarrow> do {
          let next = nxt s it;
          let (result, s) = (if skip s it then (0, s) else callback it s);
          if result < 0 then Some (result, s)
          else iterate_chain nxt callback skip s next })"

partial_function (option) iterate_buckets ::
    "('s \<Rightarrow> 'k hashtable_t) \<Rightarrow> ('s \<Rightarrow> store) \<Rightarrow> 's callback \<Rightarrow> ('s \<Rightarrow> addr \<Rightarrow> bool) \<Rightarrow> 's \<Rightarrow> nat
     \<Rightarrow> (int \<times> 's) option" where
  "iterate_buckets tab nxt callback skip s i =
     (if i < ht_size (tab s) then do {
        item \<leftarrow> read_cell (ht_items (tab s)) (int i);
        (result, s) \<leftarrow> iterate_chain nxt callback skip s item;
        if result < 0 then Some (result, s)
        else iterate_buckets tab nxt callback skip s (i + 1) }
      else Some (0, s))"

definition hashtable_iterate ::
    "('s \<Rightarrow> 'k hashtable_t) \<Rightarrow> ('s \<Rightarrow> store) \<Rightarrow> 's callback \<Rightarrow> 's \<Rightarrow> (int \<times> 's) option" where
  "hashtable_iterate tab nxt callback s =
     iterate_buckets tab nxt callback (\<lambda>_ _. False) s 0"

definition hashtable_filtered_iterate ::
    "('s \<Rightarrow> 'k hashtable_t) \<Rightarrow> ('s \<Rightarrow> store) \<Rightarrow> 's callback \<Rightarrow> ('s \<Rightarrow> addr \<Rightarrow> int) \<Rightarrow> 's
     \<Rightarrow> (int \<times> 's) option" where
  "hashtable_filtered_iterate tab nxt callback filt s =
     iterate_buckets tab nxt callback (\<lambda>s it. filt s it < 0) s 0"

partial_function (option) iterate_n_chain ::
    "('s \<Rightarrow> store) \<Rightarrow> 's callback \<Rightarrow> 's \<Rightarrow> nat \<Rightarrow> vptr \<Rightarrow> (int \<times> 's \<times> nat) option" where
  "iterate_n_chain nxt callback s n item =
     (case item of
        None \<Rightarrow> Some (0, s, n)
      | Some it \<Rightarrow> do {
          let next = nxt s it;
          let (result, s) = callback it s;
          if result < 0 then Some (result, s, n)
          else if n - 1 = 0 then Some (0, s, 0)
          else iterate_n_chain nxt callback s (n - 1) next })"

partial_function (option) iterate_n_buckets ::
    "('s \<Rightarrow> 'k hashtable_t) \<Rightarrow> ('s \<Rightarrow> store) \<Rightarrow> 's callback \<Rightarrow> 's \<Rightarrow> nat \<Rightarrow> nat \<Rightarrow> (int \<times> 's) option" where
  "iterate_n_buckets tab nxt callback s n i =
     (if i < ht_size (tab s) \<and> n > 0 then do {
        item \<leftarrow> read_cell (ht_items (tab s)) (int i);
        (result, s, n) \<leftarrow> iterate_n_chain nxt callback s n item;
        if result < 0 then Some (result, s)
        else if n = 0 then Some (0, s)
        else iterate_n_buckets tab nxt callback s n (i + 1) }
      else Some (0, s))"

definition hashtable_iterate_n ::
    "('s \<Rightarrow> 'k hashtable_t) \<Rightarrow> ('s \<Rightarrow> store) \<Rightarrow> 's callback \<Rightarrow> 's \<Rightarrow> nat \<Rightarrow> (int \<times> 's) option" where
  "hashtable_iterate_n tab nxt callback s n =
     (if n = 0 then Some (0, s) else iterate_n_buckets tab nxt callback s n 0)"

definition hashtable_get_item_count :: "'k hashtable_t \<Rightarrow> nat" where
  "hashtable_get_item_count table = ht_item_count table"

partial_function (option) count_chain ::
    "store \<Rightarrow> (addr \<Rightarrow> int) \<Rightarrow> vptr \<Rightarrow> u32 \<Rightarrow> u32 option" where
  "count_chain nx filt item cnt =
     (case item of
        None \<Rightarrow> Some cnt
      | Some it \<Rightarrow>
          if filt it = 0 then count_chain nx filt (nx it) (cnt + 1)
          else count_chain nx filt (nx it) cnt)"

function count_buckets ::
    "'k hashtable_t \<Rightarrow> store \<Rightarrow> (addr \<Rightarrow> int) \<Rightarrow> u32 \<Rightarrow> nat \<Rightarrow> u32 option" where
  "count_buckets table nx filt cnt i =
     (if i < ht_size table then do {
        item \<leftarrow> read_cell (ht_items table) (int i);
        cnt \<leftarrow> count_chain nx filt item cnt;
        count_buckets table nx filt cnt (i + 1) }
      else Some cnt)"
  by pat_completeness auto
termination
  by (relation "measure (\<lambda>(table, _, _, _, i). ht_size table - i)") auto

declare count_buckets.simps [simp del]

definition hashtable_get_filtered_item_count ::
    "'k hashtable_t \<Rightarrow> store \<Rightarrow> (addr \<Rightarrow> int) \<Rightarrow> u32 option" where
  "hashtable_get_filtered_item_count table nx filt = count_buckets table nx filt 0 0"

section \<open>Hash and comparison functions\<close>

fun hash_number_loop :: "byte list \<Rightarrow> nat \<Rightarrow> u32 \<Rightarrow> u32 option" where
  "hash_number_loop data 0 hash = Some hash"
| "hash_number_loop [] (Suc n) hash = None"
| "hash_number_loop (d # data) (Suc n) hash =
     (let hash = hash + ucast d;
          hash = hash + push_bit 10 hash;
          hash = hash XOR drop_bit 6 hash
      in hash_number_loop data n hash)"

definition hash_number :: "byte list \<Rightarrow> nat \<Rightarrow> u32 option" where
  "hash_number data len = do {
     hash \<leftarrow> hash_number_loop data len 0;
     let hash = hash + push_bit 3 hash;
     let hash = hash XOR drop_bit 11 hash;
     Some (hash + push_bit 15 hash) }"

fun hash_string_loop :: "byte list \<Rightarrow> nat \<Rightarrow> u32 \<Rightarrow> u32 option" where
  "hash_string_loop data 0 hash = Some hash"
| "hash_string_loop [] (Suc n) hash = None"
| "hash_string_loop (d # data) (Suc n) hash =
     hash_string_loop data n ((hash XOR ucast d) * 16777619)"

definition hash_string :: "byte list \<Rightarrow> nat \<Rightarrow> u32 option" where
  "hash_string data len = do {
     hash \<leftarrow> hash_string_loop data len 2166136261;
     let hash = hash + push_bit 13 hash;
     let hash = hash XOR drop_bit 7 hash;
     let hash = hash + push_bit 3 hash;
     let hash = hash XOR drop_bit 17 hash;
     Some (hash + push_bit 5 hash) }"

text \<open>An \<^verbatim>\<open>int\<close> key as its bytes in memory: the i386 target is little endian.\<close>

definition bytes_of_int :: "u32 \<Rightarrow> byte list" where
  "bytes_of_int w = map (\<lambda>i. ucast (drop_bit (8 * i) w)) [0..<4]"

definition bytes_of_int64 :: "u64 \<Rightarrow> byte list" where
  "bytes_of_int64 w = map (\<lambda>i. ucast (drop_bit (8 * i) w)) [0..<8]"

definition hash_int :: "u32 \<Rightarrow> u32 option" where
  "hash_int key = hash_number (bytes_of_int key) 4"

definition hash_int64 :: "u64 \<Rightarrow> u32 option" where
  "hash_int64 key = hash_number (bytes_of_int64 key) 8"

definition hash_str :: "byte list \<Rightarrow> u32 option" where
  "hash_str str = do {
     len \<leftarrow> strlen str;
     hash_string str len }"

definition compare_int :: "u32 \<Rightarrow> u32 \<Rightarrow> bool" where
  "compare_int key1 key2 \<longleftrightarrow> key1 = key2"

definition compare_int64 :: "u64 \<Rightarrow> u64 \<Rightarrow> bool" where
  "compare_int64 key1 key2 \<longleftrightarrow> key1 = key2"

definition compare_str :: "byte list \<Rightarrow> byte list \<Rightarrow> bool option" where
  "compare_str str1 str2 = map_option (\<lambda>r. r = 0) (strcmp str1 str2)"


section \<open>Buckets\<close>

text \<open>
  \<open>buckets h nx heads bs\<close>: bucket \<open>j\<close> is the chain \<open>bs ! j\<close> from \<open>heads ! j\<close>, it holds only items
  that hash to \<open>j\<close>, and no item is in two places.
\<close>

definition buckets :: "(addr \<Rightarrow> nat) \<Rightarrow> store \<Rightarrow> vptr list \<Rightarrow> addr list list \<Rightarrow> bool" where
  "buckets h nx heads bs \<longleftrightarrow> length heads = length bs \<and> distinct (concat bs) \<and>
     (\<forall>j < length bs. chain nx (heads ! j) (bs ! j) \<and> (\<forall>x \<in> set (bs ! j). h x = j))"

lemma mset_concat_update:
  "i < length bs \<Longrightarrow> mset (concat (bs[i := v])) + mset (bs ! i) = mset (concat bs) + mset v"
proof (induction bs arbitrary: i)
  case (Cons b bs)
  then show ?case by (cases i) (simp_all add: add.assoc add.commute add.left_commute)
qed simp

lemma mset_concat_push:
  assumes "i < length bs"
  shows "mset (concat (bs[i := x # bs ! i])) = add_mset x (mset (concat bs))"
  using mset_concat_update [OF assms, of "x # bs ! i"] by simp

lemma mset_concat_drop:
  assumes "i < length bs" and "bs ! i = ys @ x # zs"
  shows "add_mset x (mset (concat (bs[i := ys @ zs]))) = mset (concat bs)"
  using mset_concat_update [OF assms(1), of "ys @ zs"] assms(2) by simp

lemma in_bucket: "j < length bs \<Longrightarrow> x \<in> set (bs ! j) \<Longrightarrow> x \<in> set (concat bs)"
  using nth_mem [of j bs] by auto

lemma buckets_length: "buckets h nx heads bs \<Longrightarrow> length heads = length bs"
  by (simp add: buckets_def)

lemma buckets_chain: "buckets h nx heads bs \<Longrightarrow> j < length bs \<Longrightarrow> chain nx (heads ! j) (bs ! j)"
  by (simp add: buckets_def)

lemma buckets_hash: "buckets h nx heads bs \<Longrightarrow> j < length bs \<Longrightarrow> \<forall>x \<in> set (bs ! j). h x = j"
  unfolding buckets_def by blast

lemma bucketsI:
  "length heads = length bs \<Longrightarrow> distinct (concat bs) \<Longrightarrow>
   (\<And>j. j < length bs \<Longrightarrow> chain nx (heads ! j) (bs ! j)) \<Longrightarrow>
   (\<And>j. j < length bs \<Longrightarrow> \<forall>x \<in> set (bs ! j). h x = j) \<Longrightarrow> buckets h nx heads bs"
  unfolding buckets_def by blast

lemma buckets_home:
  "buckets h nx heads bs \<Longrightarrow> x \<in> set (concat bs) \<Longrightarrow> h x < length bs \<and> x \<in> set (bs ! h x)"
  unfolding buckets_def by (metis (no_types, lifting) in_set_conv_nth set_concat UN_iff)

lemma buckets_other_nx:
  "buckets h nx heads bs \<Longrightarrow> (\<And>x. x \<in> set (concat bs) \<Longrightarrow> ny x = nx x) \<Longrightarrow> buckets h ny heads bs"
  unfolding buckets_def using in_bucket [of _ bs]
  by (metis chain_cong)

lemma buckets_empty: "buckets h nx (replicate n None) (replicate n [])"
  by (simp add: buckets_def)

text \<open>Pushing an item on the front of its bucket.\<close>

lemma buckets_push:
  assumes "buckets h nx heads bs" and "x \<notin> set (concat bs)" and "h x < length bs"
  shows "buckets h (nx(x := heads ! h x)) (heads[h x := Some x]) (bs[h x := x # bs ! h x])"
proof -
  have "distinct (concat (bs[h x := x # bs ! h x])) = distinct (x # concat bs)"
    by (rule mset_eq_imp_distinct_iff) (simp add: mset_concat_push assms(3))
  then have d: "distinct (concat (bs[h x := x # bs ! h x]))"
    using assms(1,2) by (simp add: buckets_def)
  have x: "x \<notin> set (bs ! j)" if "j < length bs" for j
    using in_bucket [OF that] assms(2) by blast
  note len = buckets_length [OF assms(1)]
  show ?thesis
  proof (rule bucketsI)
    fix j assume "j < length (bs[h x := x # bs ! h x])"
    then have j: "j < length bs" by simp
    show "chain (nx(x := heads ! h x)) (heads[h x := Some x] ! j) (bs[h x := x # bs ! h x] ! j)"
      using x [OF j] buckets_chain [OF assms(1) j] j len by (cases "j = h x") simp_all
    show "\<forall>y \<in> set (bs[h x := x # bs ! h x] ! j). h y = j"
    proof
      fix y assume "y \<in> set (bs[h x := x # bs ! h x] ! j)"
      then have "y = x \<and> j = h x \<or> y \<in> set (bs ! j)" using j by (cases "j = h x") auto
      then show "h y = j" using buckets_hash [OF assms(1) j] by blast
    qed
  qed (use d len in auto)
qed

text \<open>Unlinking an item: from the head, or behind its predecessor.\<close>

lemma chain_unlink:
  "chain nx p (ys @ l # x # zs) \<Longrightarrow> chain (nx(l := nx x)) p (ys @ l # zs)"
proof (induction ys arbitrary: p)
  case Nil
  have "distinct (l # x # zs)" using chain_distinct [OF Nil] by simp
  with Nil show ?case by simp
next
  case (Cons y ys)
  have "y \<noteq> l" using chain_distinct [OF Cons.prems] by auto
  with Cons show ?case by simp
qed

lemma buckets_unlink:
  assumes b: "buckets h nx heads bs" and j: "j < length bs" "bs ! j = ys @ x # zs"
  shows "ys = [] \<Longrightarrow> buckets h nx (heads[j := nx x]) (bs[j := zs])"
    and "ys = us @ [l] \<Longrightarrow> buckets h (nx(l := nx x)) heads (bs[j := ys @ zs])"
proof -
  have d: "distinct (x # concat (bs[j := ys @ zs]))"
    using mset_concat_drop [OF j] b mset_eq_imp_distinct_iff [of "x # concat (bs[j := ys @ zs])"]
    by (simp add: buckets_def)
  have hash: "\<forall>y \<in> set (bs[j := ys @ zs] ! i). h y = i" if "i < length bs" for i
  proof (cases "i = j")
    case True
    have "set (ys @ zs) \<subseteq> set (bs ! j)" using j(2) by auto
    with True buckets_hash [OF b j(1)] j(1) show ?thesis by (metis nth_list_update_eq subsetD)
  next
    case False
    with buckets_hash [OF b that] show ?thesis by (metis nth_list_update_neq)
  qed
  have len: "length heads = length bs" using b by (rule buckets_length)
  show "buckets h nx (heads[j := nx x]) (bs[j := zs])" if ys: "ys = []"
  proof -
    have "chain nx (heads[j := nx x] ! i) (bs[j := zs] ! i)" if "i < length bs" for i
      using buckets_chain [OF b that] buckets_chain [OF b j(1)] j ys that len
      by (cases "i = j") simp_all
    with d hash len ys show ?thesis by (intro bucketsI) simp_all
  qed
  show "buckets h (nx(l := nx x)) heads (bs[j := ys @ zs])" if ys: "ys = us @ [l]"
  proof -
    have l: "l \<notin> set (bs ! i)" if "i < length bs" "i \<noteq> j" for i
    proof
      assume "l \<in> set (bs ! i)"
      moreover have "l \<in> set (bs ! j)" using j(2) ys by simp
      ultimately show False using buckets_hash [OF b that(1)] buckets_hash [OF b j(1)] that(2)
        by metis
    qed
    have "chain (nx(l := nx x)) (heads ! i) (bs[j := ys @ zs] ! i)" if i: "i < length bs" for i
      using buckets_chain [OF b i] j ys i l [OF i] chain_unlink [of nx "heads ! j" us l x zs]
      by (cases "i = j") simp_all
    with d hash len show ?thesis by (intro bucketsI) simp_all
  qed
qed

section \<open>Invariant\<close>

text \<open>
  The table is well formed with the buckets \<open>bs\<close>. The size bound keeps the byte size of the
  head array below \<open>2^32\<close> when it doubles; a table of that size does not fit the kernel's memory.
\<close>

definition bucket_of :: "'k hashtable_t \<Rightarrow> addr \<Rightarrow> nat" where
  "bucket_of t x = unat (ht_hash_func t (ht_key_func t x)) mod ht_size t"

definition ht_rel :: "'k hashtable_t \<Rightarrow> store \<Rightarrow> addr list list \<Rightarrow> bool" where
  "ht_rel t nx bs \<longleftrightarrow> (\<exists>heads. ht_items t = Some heads \<and> buckets (bucket_of t) nx heads bs) \<and>
     length bs = ht_size t \<and> 0 < ht_size t \<and> ht_item_count t = length (concat bs)"

definition same_keys :: "'k hashtable_t \<Rightarrow> 'k hashtable_t \<Rightarrow> bool" where
  "same_keys t t' \<longleftrightarrow> ht_key_func t' = ht_key_func t \<and> ht_hash_func t' = ht_hash_func t \<and>
     ht_compare_func t' = ht_compare_func t"

lemma ht_rel_cases:
  assumes "ht_rel t nx bs"
  obtains heads where "ht_items t = Some heads" "buckets (bucket_of t) nx heads bs"
    "length heads = ht_size t" "length bs = ht_size t" "0 < ht_size t"
    "ht_item_count t = length (concat bs)"
  using assms buckets_length by (fastforce simp: ht_rel_def)

lemma ht_hash_Some: "0 < n \<Longrightarrow> ht_hash t k n = Some (int (unat (ht_hash_func t k) mod n))"
  by (simp add: ht_hash_def)

lemma alloc_heads_cases:
  assumes "allocator km" and "n < 1073741824"
  shows "alloc_heads km n = Some None \<or> 0 < n \<and> alloc_heads km n = Some (Some (replicate n None))"
proof (cases "km n")
  case None
  then show ?thesis using assms(2) by (simp add: alloc_heads_def)
next
  case (Some xs)
  have "length xs = n" "0 < n"
    using allocator.km_length [OF assms(1) Some] allocator.km_pos [OF assms(1) Some] by auto
  then show ?thesis using Some assms(2) by (simp add: alloc_heads_def memset_eq)
qed

lemma resize_chain_spec:
  assumes "chain nx p xs" and "buckets h nx heads bs" and "set xs \<inter> set (concat bs) = {}"
    and "length bs = n" and "0 < n" and "h = (\<lambda>x. unat (ht_hash_func t (ht_key_func t x)) mod n)"
  shows "\<exists>heads' nx' bs'. resize_chain t n heads nx p = Some (heads', nx') \<and>
    buckets h nx' heads' bs' \<and> length bs' = n \<and> mset (concat bs') = mset (concat bs) + mset xs \<and>
    (\<forall>y. y \<notin> set xs \<longrightarrow> nx' y = nx y)"
  using assms
proof (induction xs arbitrary: p heads nx bs)
  case Nil
  then show ?case by (subst resize_chain.simps) auto
next
  case (Cons x xs)
  let ?j = "h x"
  have j: "?j < length bs" using Cons.prems(4-6) by simp
  have len: "length heads = length bs" using Cons.prems(2) by (rule buckets_length)
  have x: "x \<notin> set xs" "x \<notin> set (concat bs)"
    using chain_distinct [OF Cons.prems(1)] Cons.prems(3) by auto
  let ?nx = "nx(x := heads ! ?j)" let ?heads = "heads[?j := Some x]"
  let ?bs = "bs[?j := x # bs ! ?j]"
  have ms: "mset (concat ?bs) = add_mset x (mset (concat bs))" using j by (rule mset_concat_push)
  have "\<exists>heads' nx' bs'. resize_chain t n ?heads ?nx (nx x) = Some (heads', nx') \<and>
    buckets h nx' heads' bs' \<and> length bs' = n \<and> mset (concat bs') = mset (concat ?bs) + mset xs \<and>
    (\<forall>y. y \<notin> set xs \<longrightarrow> nx' y = ?nx y)"
  proof (rule Cons.IH)
    show "buckets h ?nx ?heads ?bs" using Cons.prems(2) x(2) j by (rule buckets_push)
    show "set xs \<inter> set (concat ?bs) = {}"
      using mset_eq_setD [of "concat ?bs" "x # concat bs"] ms x(1) Cons.prems(3) by auto
  qed (use Cons.prems x in auto)
  moreover have "resize_chain t n heads nx p = resize_chain t n ?heads ?nx (nx x)"
    using Cons.prems(1,4-6) j len
    by (subst resize_chain.simps) (simp add: ht_hash_Some read_cell_def write_cell_def Let_def)
  ultimately show ?case using ms by auto
qed

lemma resize_loop_spec:
  assumes rel: "ht_rel t nx0 bs0" and "i \<le> ht_size t"
    and "buckets h nx heads bs" and "mset (concat bs) = mset (concat (take i bs0))"
    and "\<And>x. x \<in> set (concat (drop i bs0)) \<Longrightarrow> nx x = nx0 x"
    and n: "length bs = n" "0 < n"
    and h: "h = (\<lambda>x. unat (ht_hash_func t (ht_key_func t x)) mod n)"
  shows "\<exists>heads' nx' bs'. resize_loop t n heads nx i = Some (heads', nx') \<and>
    buckets h nx' heads' bs' \<and> length bs' = n \<and> mset (concat bs') = mset (concat bs0) \<and>
    (\<forall>y. y \<notin> set (concat bs0) \<longrightarrow> nx' y = nx y)"
  using assms(2-6)
proof (induction "ht_size t - i" arbitrary: i heads nx bs)
  case 0
  have "length bs0 = ht_size t" using rel by (simp add: ht_rel_def)
  with 0 show ?case by (subst resize_loop.simps) auto
next
  case (Suc d)
  obtain hs where hs: "ht_items t = Some hs" "buckets (bucket_of t) nx0 hs bs0"
    "length hs = ht_size t" "length bs0 = ht_size t"
    using rel by (rule ht_rel_cases)
  have i: "i < length bs0" using Suc.hyps(2) hs(4) by simp
  have split: "drop i bs0 = bs0 ! i # drop (Suc i) bs0" "take (Suc i) bs0 = take i bs0 @ [bs0 ! i]"
    using i by (simp_all add: Cons_nth_drop_Suc take_Suc_nth)
  have "distinct (concat (take i bs0 @ drop i bs0))" using hs(2) by (simp add: buckets_def)
  then have dist: "set (bs0 ! i) \<inter> set (concat (take i bs0)) = {}"
    "set (bs0 ! i) \<inter> set (concat (drop (Suc i) bs0)) = {}"
    by (auto simp: split(1))
  have ch: "chain nx (hs ! i) (bs0 ! i)"
    using buckets_chain [OF hs(2) i] Suc.prems(4) chain_cong [of "bs0 ! i" nx nx0]
    by (auto simp: split)
  obtain heads' nx' bs' where st: "resize_chain t n heads nx (hs ! i) = Some (heads', nx')"
    "buckets h nx' heads' bs'" "length bs' = n"
    "mset (concat bs') = mset (concat bs) + mset (bs0 ! i)"
    "\<forall>y. y \<notin> set (bs0 ! i) \<longrightarrow> nx' y = nx y"
    using resize_chain_spec [OF ch Suc.prems(2) _ Suc.prems(5) n(2) h]
      mset_eq_setD [OF Suc.prems(3)] dist(1) by auto
  have "\<exists>heads'' nx'' bs''. resize_loop t n heads' nx' (Suc i) = Some (heads'', nx'') \<and>
    buckets h nx'' heads'' bs'' \<and> length bs'' = n \<and> mset (concat bs'') = mset (concat bs0) \<and>
    (\<forall>y. y \<notin> set (concat bs0) \<longrightarrow> nx'' y = nx' y)"
  proof (rule Suc.hyps(1))
    show "mset (concat bs') = mset (concat (take (Suc i) bs0))"
      using st(4) Suc.prems(3) by (simp add: split(2))
    show "nx' x = nx0 x" if "x \<in> set (concat (drop (Suc i) bs0))" for x
    proof -
      have "x \<notin> set (bs0 ! i)" using that dist(2) by blast
      then show ?thesis using that st(5) Suc.prems(4) [of x] by (simp add: split(1))
    qed
  qed (use Suc.hyps(2) st i hs(4) in auto)
  moreover have "resize_loop t n heads nx i = resize_loop t n heads' nx' (Suc i)"
    using st(1) hs i by (subst resize_loop.simps) (simp add: read_cell_def)
  moreover have "nx' y = nx y" if "y \<notin> set (concat bs0)" for y
    using that st(5) in_bucket [OF i] by blast
  ultimately show ?case by auto
qed

lemma hashtable_resize_spec:
  assumes "allocator km" and rel: "ht_rel t nx bs" and "n < 1073741824"
  shows "\<exists>t' nx' bs'. hashtable_resize km t nx n = Some (t', nx') \<and> ht_rel t' nx' bs' \<and>
    mset (concat bs') = mset (concat bs) \<and> same_keys t t' \<and>
    (ht_size t' = ht_size t \<or> ht_size t' = n) \<and>
    (\<forall>y. y \<notin> set (concat bs) \<longrightarrow> nx' y = nx y)"
proof (cases "alloc_heads km n = Some None")
  case True
  with rel show ?thesis by (auto simp: hashtable_resize_def same_keys_def)
next
  case False
  with alloc_heads_cases [OF assms(1,3)]
  have a: "0 < n" "alloc_heads km n = Some (Some (replicate n None))" by auto
  let ?h = "\<lambda>x. unat (ht_hash_func t (ht_key_func t x)) mod n"
  obtain heads' nx' bs' where st: "resize_loop t n (replicate n None) nx 0 = Some (heads', nx')"
    "buckets ?h nx' heads' bs'" "length bs' = n" "mset (concat bs') = mset (concat bs)"
    "\<forall>y. y \<notin> set (concat bs) \<longrightarrow> nx' y = nx y"
    using resize_loop_spec [OF rel, of 0 ?h nx "replicate n None" "replicate n []" n] a(1)
    by (auto simp: buckets_empty)
  let ?t = "t\<lparr> ht_items := Some heads', ht_size := n \<rparr>"
  have "bucket_of ?t = ?h" by (simp add: bucket_of_def fun_eq_iff)
  moreover have "length (concat bs') = length (concat bs)" using st(4) by (metis size_mset)
  ultimately have "ht_rel ?t nx' bs'" using st(2,3) a(1) rel by (simp add: ht_rel_def)
  moreover have "same_keys t ?t" by (simp add: same_keys_def)
  ultimately show ?thesis using st a(2)
    by (intro exI [of _ ?t] exI [of _ nx'] exI [of _ bs']) (simp add: hashtable_resize_def)
qed

section \<open>The operations on the buckets\<close>

text \<open>Room for one more item: neither the counter nor the size of a doubled table wraps.\<close>

definition ht_room :: "'k hashtable_t \<Rightarrow> bool" where
  "ht_room t \<longleftrightarrow> ht_size t < 536870912 \<and> ht_item_count t < 4294967295"

lemma hashtable_add_spec:
  assumes "allocator km" and rel: "ht_rel t nx bs" and x: "x \<notin> set (concat bs)" and "ht_room t"
  shows "\<exists>t' nx' bs'. hashtable_add km t nx x = Some (t', nx') \<and> ht_rel t' nx' bs' \<and>
    mset (concat bs') = add_mset x (mset (concat bs)) \<and> same_keys t t' \<and>
    (\<forall>y. y \<notin> insert x (set (concat bs)) \<longrightarrow> nx' y = nx y)"
proof -
  obtain heads where hs: "ht_items t = Some heads" "buckets (bucket_of t) nx heads bs"
    "length heads = ht_size t" "length bs = ht_size t" "0 < ht_size t"
    "ht_item_count t = length (concat bs)"
    using rel by (rule ht_rel_cases)
  let ?j = "bucket_of t x"
  have j: "?j < length bs" using hs(4,5) by (simp add: bucket_of_def)
  let ?nx = "nx(x := heads ! ?j)" and ?bs = "bs[?j := x # bs ! ?j]"
  let ?t = "t\<lparr> ht_items := Some (heads[?j := Some x]), ht_item_count := ht_item_count t + 1 \<rparr>"
  have ms: "mset (concat ?bs) = add_mset x (mset (concat bs))" using j by (rule mset_concat_push)
  have "bucket_of ?t = bucket_of t" by (simp add: bucket_of_def fun_eq_iff)
  moreover have "length (concat ?bs) = Suc (length (concat bs))"
    using arg_cong [OF ms, of size] by simp
  ultimately have rel': "ht_rel ?t ?nx ?bs"
    using buckets_push [OF hs(2) x j] hs by (simp add: ht_rel_def)
  have step: "hashtable_add km t nx x =
      (if ht_item_count ?t \<ge> ht_size ?t then hashtable_resize km ?t ?nx (ht_size t * 2)
       else Some (?t, ?nx))"
    using hs j assms(4)
    by (simp add: hashtable_add_def ht_hash_Some read_cell_def write_cell_def bucket_of_def
        ht_room_def Let_def)
  show ?thesis
  proof (cases "ht_item_count ?t \<ge> ht_size ?t")
    case False
    then have "hashtable_add km t nx x = Some (?t, ?nx)" by (simp only: step if_False)
    moreover have "same_keys t ?t" by (simp add: same_keys_def)
    moreover have "\<forall>y. y \<notin> insert x (set (concat bs)) \<longrightarrow> ?nx y = nx y" by simp
    ultimately show ?thesis using rel' ms by blast
  next
    case True
    have "ht_size t * 2 < 1073741824" using assms(4) by (simp add: ht_room_def)
    from hashtable_resize_spec [OF assms(1) rel' this]
    obtain t' nx' bs' where st: "hashtable_resize km ?t ?nx (ht_size t * 2) = Some (t', nx')"
      "ht_rel t' nx' bs'" "mset (concat bs') = mset (concat ?bs)"
      "same_keys ?t t'"
      "\<forall>y. y \<notin> set (concat ?bs) \<longrightarrow> nx' y = ?nx y" by blast
    have "set (concat ?bs) = insert x (set (concat bs))"
      using mset_eq_setD [of "concat ?bs" "x # concat bs"] ms by simp
    then have "\<forall>y. y \<notin> insert x (set (concat bs)) \<longrightarrow> nx' y = nx y" using st(5) by auto
    moreover have "same_keys t t'" using st(4) by (simp add: same_keys_def)
    moreover have "hashtable_add km t nx x = Some (t', nx')"
      using True st(1) by (simp only: step if_True)
    ultimately show ?thesis using st(2,3) ms by auto
  qed
qed

lemma hashtable_get_loop_eq:
  "chain nx p xs \<Longrightarrow> hashtable_get_loop t nx k p =
     Some (find (\<lambda>x. ht_compare_func t k (ht_key_func t x)) xs)"
  by (induction xs arbitrary: p) (simp_all add: hashtable_get_loop.simps)

lemma hashtable_get_eq:
  assumes "ht_rel t nx bs"
  shows "hashtable_get t nx k = Some (find (\<lambda>x. ht_compare_func t k (ht_key_func t x))
    (bs ! (unat (ht_hash_func t k) mod ht_size t)))"
proof -
  obtain heads where hs: "ht_items t = Some heads" "buckets (bucket_of t) nx heads bs"
    "length heads = ht_size t" "length bs = ht_size t" "0 < ht_size t"
    using assms by (rule ht_rel_cases)
  let ?j = "unat (ht_hash_func t k) mod ht_size t"
  have "?j < length bs" using hs by simp
  from buckets_chain [OF hs(2) this] show ?thesis
    using hs by (simp add: hashtable_get_def ht_hash_Some read_cell_def hashtable_get_loop_eq)
qed

lemma hashtable_remove_loop_skip:
  assumes "chain nx p (us @ vs)" and "\<forall>u \<in> set us. \<not> ht_compare_func t k (ht_key_func t u)"
  shows "\<exists>q. chain nx q vs \<and> hashtable_remove_loop t nx k hash prev p =
    hashtable_remove_loop t nx k hash (if us = [] then prev else Some (last us)) q"
  using assms
proof (induction us arbitrary: p prev)
  case (Cons u us)
  then obtain q where q: "chain nx q vs" "hashtable_remove_loop t nx k hash (Some u) (nx u) =
    hashtable_remove_loop t nx k hash (if us = [] then Some u else Some (last us)) q"
    by fastforce
  have "hashtable_remove_loop t nx k hash prev p =
      hashtable_remove_loop t nx k hash (Some u) (nx u)"
    using Cons.prems by (subst hashtable_remove_loop.simps) simp
  with q show ?case by (intro exI [of _ q]) simp
qed auto

lemma hashtable_remove_spec:
  assumes rel: "ht_rel t nx bs" and j: "j = unat (ht_hash_func t k) mod ht_size t"
  shows "find (\<lambda>x. ht_compare_func t k (ht_key_func t x)) (bs ! j) = None \<Longrightarrow>
      hashtable_remove t nx k = Some (Inl EINVAL, t, nx)"
    and "find (\<lambda>x. ht_compare_func t k (ht_key_func t x)) (bs ! j) = Some x \<Longrightarrow>
      \<exists>t' nx' bs'. hashtable_remove t nx k = Some (Inr (), t', nx') \<and> ht_rel t' nx' bs' \<and>
        add_mset x (mset (concat bs')) = mset (concat bs) \<and> same_keys t t'"
proof -
  let ?m = "\<lambda>x. ht_compare_func t k (ht_key_func t x)"
  obtain heads where hs: "ht_items t = Some heads" "buckets (bucket_of t) nx heads bs"
    "length heads = ht_size t" "length bs = ht_size t" "0 < ht_size t"
    "ht_item_count t = length (concat bs)"
    using rel by (rule ht_rel_cases)
  have jl: "j < length bs" using j hs by simp
  note ch = buckets_chain [OF hs(2) jl]
  have start: "hashtable_remove t nx k = hashtable_remove_loop t nx k (int j) None (heads ! j)"
    using hs j by (simp add: hashtable_remove_def ht_hash_Some read_cell_def)
  show "hashtable_remove t nx k = Some (Inl EINVAL, t, nx)" if none: "find ?m (bs ! j) = None"
  proof -
    have "\<forall>u \<in> set (bs ! j). \<not> ?m u" using none unfolding find_None_iff by blast
    then obtain q where "chain nx q []" "hashtable_remove_loop t nx k (int j) None (heads ! j) =
      hashtable_remove_loop t nx k (int j) (if bs ! j = [] then None else Some (last (bs ! j))) q"
      using hashtable_remove_loop_skip [of nx "heads ! j" "bs ! j" "[]" t k "int j" None] ch by auto
    with start show ?thesis by (simp add: hashtable_remove_loop.simps)
  qed
  assume "find ?m (bs ! j) = Some x"
  then obtain us zs where us: "bs ! j = us @ x # zs" "?m x" "\<forall>u \<in> set us. \<not> ?m u"
    by (auto simp: find_Some_iff) (metis append_take_drop_id id_take_nth_drop in_set_conv_nth
        length_take min.absorb4 nth_take)
  obtain q where "chain nx q (x # zs)" "hashtable_remove_loop t nx k (int j) None (heads ! j) =
      hashtable_remove_loop t nx k (int j) (if us = [] then None else Some (last us)) q"
    using hashtable_remove_loop_skip [of nx "heads ! j" us "x # zs" t k "int j" None] ch us by auto
  with start us(2) have run: "hashtable_remove t nx k =
      hashtable_remove_loop t nx k (int j) (if us = [] then None else Some (last us)) (Some x)"
    by simp
  have ms: "add_mset x (mset (concat (bs[j := us @ zs]))) = mset (concat bs)"
    using jl us(1) by (rule mset_concat_drop)
  have cnt: "ht_item_count t = Suc (length (concat (bs[j := us @ zs])))"
    using arg_cong [OF ms, of size] hs(6) by simp
  have dec: "dec32 (ht_item_count t) = ht_item_count t - 1" using cnt by simp
  let ?d = "\<lambda>hs. t\<lparr> ht_items := Some hs, ht_item_count := ht_item_count t - 1 \<rparr>"
  have b: "bucket_of (?d hs) = bucket_of t" for hs by (simp add: bucket_of_def fun_eq_iff)
  have same: "same_keys t (?d hs)" for hs by (simp add: same_keys_def)
  show "\<exists>t' nx' bs'. hashtable_remove t nx k = Some (Inr (), t', nx') \<and> ht_rel t' nx' bs' \<and>
        add_mset x (mset (concat bs')) = mset (concat bs) \<and> same_keys t t'"
  proof (cases us rule: rev_cases)
    case Nil
    have "hashtable_remove t nx k = Some (Inr (), ?d (heads[j := nx x]), nx)"
      using run us(2) hs(1,3,4) jl Nil dec
      by (simp add: hashtable_remove_loop.simps write_cell_def)
    moreover have "ht_rel (?d (heads[j := nx x])) nx (bs[j := us @ zs])"
      using buckets_unlink(1) [OF hs(2) jl us(1) Nil] hs cnt b Nil by (simp add: ht_rel_def)
    ultimately show ?thesis using ms same by blast
  next
    case (snoc vs l)
    have "hashtable_remove t nx k = Some (Inr (), ?d heads, nx(l := nx x))"
      using run us(2) hs(1,3,4) jl snoc dec
      by (simp add: hashtable_remove_loop.simps)
    moreover have "ht_rel (?d heads) (nx(l := nx x)) (bs[j := us @ zs])"
      using buckets_unlink(2) [OF hs(2) jl us(1) snoc] hs cnt b by (simp add: ht_rel_def)
    ultimately show ?thesis using ms same by blast
  qed
qed

end
