(* ===== verification/Kernel_Item_Table.thy ===== *)
theory Kernel_Item_Table
  imports Kernel_Hashtable
begin

text \<open>
  The contract of the hash table as the kernel's registries use it (threads, processes,
  regions, locks, inodes, sockets): a set of items, at most one per key, with insertion, lookup and
  removal by key. The locale \<open>item_table\<close> states it and proves the clients' laws once;
  \<open>hash_table\<close> shows that \<^verbatim>\<open>hashtable_add\<close>, \<^verbatim>\<open>hashtable_get\<close> and \<^verbatim>\<open>hashtable_remove\<close> provide it for every
  hash and comparison function that fit together, and the interpretations discharge that for
  the ones of \<^verbatim>\<open>hashtable.c\<close>.
\<close>

section \<open>The interface\<close>

locale item_table =
  fixes inv :: "'t \<Rightarrow> bool"
    and room :: "'t \<Rightarrow> bool"
    and elems :: "'t \<Rightarrow> addr set"
    and key :: "addr \<Rightarrow> 'k"
    and same :: "'k \<Rightarrow> 'k \<Rightarrow> bool"
    and add :: "'t \<Rightarrow> addr \<Rightarrow> 't option"
    and get :: "'t \<Rightarrow> 'k \<Rightarrow> vptr option"
    and remove :: "'t \<Rightarrow> 'k \<Rightarrow> ((errno + unit) \<times> 't) option"
  assumes same_equivp: "equivp same"
    and add_law: "inv t \<Longrightarrow> room t \<Longrightarrow> x \<notin> elems t \<Longrightarrow>
      \<exists>t'. add t x = Some t' \<and> inv t' \<and> elems t' = insert x (elems t)"
    and get_law: "inv t \<Longrightarrow> \<exists>r. get t k = Some r \<and>
      (case r of None \<Rightarrow> \<forall>x \<in> elems t. \<not> same k (key x)
       | Some x \<Rightarrow> x \<in> elems t \<and> same k (key x))"
    and remove_law: "inv t \<Longrightarrow> \<exists>r t'. remove t k = Some (r, t') \<and> inv t' \<and>
      (case r of Inl e \<Rightarrow> e = EINVAL \<and> t' = t \<and> (\<forall>x \<in> elems t. \<not> same k (key x))
       | Inr _ \<Rightarrow> \<exists>x \<in> elems t. same k (key x) \<and> elems t' = elems t - {x})"
begin

text \<open>At most one item per key.\<close>

definition one_per_key :: "'t \<Rightarrow> bool" where
  "one_per_key t \<longleftrightarrow> (\<forall>x \<in> elems t. \<forall>y \<in> elems t. same (key x) (key y) \<longrightarrow> x = y)"

lemma same_refl: "same k k"
  using same_equivp by (rule equivp_reflp)

lemma same_sym: "same k l \<Longrightarrow> same l k"
  using same_equivp by (rule equivp_symp)

lemma same_trans: "same k l \<Longrightarrow> same l m \<Longrightarrow> same k m"
  using same_equivp by (rule equivp_transp)

lemma get_unique:
  assumes "inv t" and "one_per_key t"
  shows "get t k = Some (Some x) \<longleftrightarrow> x \<in> elems t \<and> same k (key x)"
proof -
  obtain r where r: "get t k = Some r" "case r of None \<Rightarrow> \<forall>x \<in> elems t. \<not> same k (key x)
       | Some x \<Rightarrow> x \<in> elems t \<and> same k (key x)"
    using get_law [OF assms(1)] by blast
  show ?thesis
  proof (cases r)
    case None
    with r show ?thesis by auto
  next
    case (Some y)
    have "y = x" if "x \<in> elems t" "same k (key x)"
    proof -
      have y: "y \<in> elems t" "same k (key y)" using r(2) Some by auto
      then have "same (key y) (key x)" using that(2) same_sym same_trans by blast
      with y(1) that(1) assms(2) show ?thesis unfolding one_per_key_def by blast
    qed
    with r Some show ?thesis by auto
  qed
qed

lemma get_none: "inv t \<Longrightarrow> get t k = Some None \<longleftrightarrow> (\<forall>x \<in> elems t. \<not> same k (key x))"
proof -
  assume "inv t"
  then obtain r where "get t k = Some r" "case r of None \<Rightarrow> \<forall>x \<in> elems t. \<not> same k (key x)
       | Some x \<Rightarrow> x \<in> elems t \<and> same k (key x)"
    using get_law by blast
  then show ?thesis by (cases r) auto
qed

lemma add_lookup:
  assumes "inv t" and "room t" and "one_per_key t" and "get t (key x) = Some None"
  shows "\<exists>t'. add t x = Some t' \<and> inv t' \<and> one_per_key t' \<and> elems t' = insert x (elems t) \<and>
    (\<forall>k. get t' k = (if same k (key x) then Some (Some x) else get t k))"
proof -
  have new: "\<forall>y \<in> elems t. \<not> same (key x) (key y)" using assms(1,4) get_none by blast
  then have x: "x \<notin> elems t" using same_refl by blast
  obtain t' where t': "add t x = Some t'" "inv t'" "elems t' = insert x (elems t)"
    using add_law [OF assms(1,2) x] by blast
  have one: "one_per_key t'"
    using assms(3) new same_sym unfolding one_per_key_def t'(3) by blast
  have "get t' k = (if same k (key x) then Some (Some x) else get t k)" for k
  proof (cases "same k (key x)")
    case True
    then show ?thesis using get_unique [OF t'(2) one, of k x] t'(3) by simp
  next
    case False
    obtain r where r: "get t k = Some r" using get_law [OF assms(1)] by blast
    show ?thesis
    proof (cases r)
      case None
      then show ?thesis
        using r False get_none [OF assms(1), of k] get_none [OF t'(2), of k] t'(3) by simp
    next
      case (Some y)
      then show ?thesis
        using r False get_unique [OF assms(1,3), of k y] get_unique [OF t'(2) one, of k y] t'(3)
        by simp
    qed
  qed
  with t' one show ?thesis by blast
qed

lemma remove_lookup:
  assumes "inv t" and "one_per_key t" and "get t k = Some (Some x)"
  shows "\<exists>t'. remove t k = Some (Inr (), t') \<and> inv t' \<and> one_per_key t' \<and>
    elems t' = elems t - {x} \<and> (\<forall>l. get t' l = (if same k l then Some None else get t l))"
proof -
  have x: "x \<in> elems t" "same k (key x)" using get_unique [OF assms(1,2)] assms(3) by blast+
  obtain r t' where t': "remove t k = Some (r, t')" "inv t'"
    "case r of Inl e \<Rightarrow> e = EINVAL \<and> t' = t \<and> (\<forall>x \<in> elems t. \<not> same k (key x))
     | Inr _ \<Rightarrow> \<exists>x \<in> elems t. same k (key x) \<and> elems t' = elems t - {x}"
    using remove_law [OF assms(1)] by blast
  have "same (key y) (key x)" if "same k (key y)" for y using that x(2) same_sym same_trans by blast
  then have e: "r = Inr ()" "elems t' = elems t - {x}"
    using t'(3) x assms(2) unfolding one_per_key_def by (cases r; auto)+
  have one: "one_per_key t'" using assms(2) e(2) by (auto simp: one_per_key_def)
  have "get t' l = (if same k l then Some None else get t l)" for l
  proof (cases "same k l")
    case True
    have "\<not> same l (key y)" if "y \<in> elems t'" for y
    proof
      assume "same l (key y)"
      then have "same (key y) (key x)" using True x(2) same_sym same_trans by blast
      then show False using that e(2) x(1) assms(2) unfolding one_per_key_def by blast
    qed
    then show ?thesis using True get_none [OF t'(2)] by simp
  next
    case False
    then have nx: "\<not> same l (key x)" using x(2) same_sym same_trans by blast
    obtain r where r: "get t l = Some r" using get_law [OF assms(1)] by blast
    show ?thesis
    proof (cases r)
      case None
      then show ?thesis
        using r False get_none [OF assms(1), of l] get_none [OF t'(2), of l] e(2) by simp
    next
      case (Some y)
      have "y \<noteq> x" using nx Some r get_unique [OF assms(1,2), of l y] by blast
      with Some show ?thesis
        using r False get_unique [OF assms(1,2), of l y] get_unique [OF t'(2) one, of l y] e(2)
        by simp
    qed
  qed
  with t' e one show ?thesis by blast
qed

end

section \<open>The hash table provides it\<close>

text \<open>A hash function and a comparison that fit together.\<close>

locale hash_keys =
  fixes hash :: "'k \<Rightarrow> u32" and cmp :: "'k \<Rightarrow> 'k \<Rightarrow> bool"
  assumes cmp_equivp: "equivp cmp"
    and hash_cmp: "cmp k l \<Longrightarrow> hash k = hash l"

locale hash_table = hash_keys hash cmp + ptr_allocator km
  for hash :: "'k \<Rightarrow> u32" and cmp :: "'k \<Rightarrow> 'k \<Rightarrow> bool" and km :: "vptr alloc" +
  fixes key :: "addr \<Rightarrow> 'k"
begin

text \<open>A table together with the store of \<^verbatim>\<open>next\<close> pointers.\<close>

definition hinv :: "'k hashtable_t \<times> store \<Rightarrow> bool" where
  "hinv s \<longleftrightarrow> (\<exists>bs. ht_rel (fst s) (snd s) bs) \<and> ht_key_func (fst s) = key \<and>
     ht_hash_func (fst s) = hash \<and> ht_compare_func (fst s) = cmp"

definition hitems :: "'k hashtable_t \<times> store \<Rightarrow> addr set" where
  "hitems s = {x. \<exists>bs. ht_rel (fst s) (snd s) bs \<and> x \<in> set (concat bs)}"

end

text \<open>The buckets of a table are determined by its pointers.\<close>

lemma ht_rel_unique:
  assumes "ht_rel t nx bs" and "ht_rel t nx bs'"
  shows "bs = bs'"
proof (rule nth_equalityI)
  show "length bs = length bs'" using assms by (simp add: ht_rel_def)
  fix i assume i: "i < length bs"
  obtain heads where "ht_items t = Some heads" "buckets (bucket_of t) nx heads bs"
    "buckets (bucket_of t) nx heads bs'" "length bs' = length bs"
    using assms by (auto simp: ht_rel_def)
  then have "chain nx (heads ! i) (bs ! i)" "chain nx (heads ! i) (bs' ! i)"
    using i by (simp_all add: buckets_chain)
  then show "bs ! i = bs' ! i" by (rule chain_unique)
qed

lemma find_bucket:
  assumes "ht_rel t nx bs" and "hash_keys (ht_hash_func t) (ht_compare_func t)"
  shows "find (\<lambda>x. ht_compare_func t k (ht_key_func t x))
      (bs ! (unat (ht_hash_func t k) mod ht_size t)) = None \<Longrightarrow>
      x \<in> set (concat bs) \<Longrightarrow> \<not> ht_compare_func t k (ht_key_func t x)"
    and "find (\<lambda>x. ht_compare_func t k (ht_key_func t x))
      (bs ! (unat (ht_hash_func t k) mod ht_size t)) = Some x \<Longrightarrow>
      x \<in> set (concat bs) \<and> ht_compare_func t k (ht_key_func t x)"
proof -
  obtain heads where hs: "buckets (bucket_of t) nx heads bs" "length bs = ht_size t" "0 < ht_size t"
    using assms(1) by (rule ht_rel_cases)
  let ?j = "unat (ht_hash_func t k) mod ht_size t"
  show "\<not> ht_compare_func t k (ht_key_func t x)"
    if none: "find (\<lambda>x. ht_compare_func t k (ht_key_func t x)) (bs ! ?j) = None"
      and x: "x \<in> set (concat bs)"
  proof
    assume c: "ht_compare_func t k (ht_key_func t x)"
    then have "ht_hash_func t k = ht_hash_func t (ht_key_func t x)"
      using assms(2) by (simp add: hash_keys_def)
    then have "bucket_of t x = ?j" by (simp add: bucket_of_def)
    then have "x \<in> set (bs ! ?j)" using buckets_home [OF hs(1) x] by simp
    with none c show False unfolding find_None_iff by blast
  qed
  have "?j < length bs" using hs by simp
  then show "x \<in> set (concat bs) \<and> ht_compare_func t k (ht_key_func t x)"
    if "find (\<lambda>x. ht_compare_func t k (ht_key_func t x)) (bs ! ?j) = Some x"
    using that in_bucket unfolding find_Some_iff by (metis nth_mem)
qed

context hash_table
begin

lemma hitems_eq: "ht_rel t nx bs \<Longrightarrow> hitems (t, nx) = set (concat bs)"
proof -
  assume "ht_rel t nx bs"
  then have "ht_rel t nx bs' \<longleftrightarrow> bs' = bs" for bs' using ht_rel_unique by blast
  then show ?thesis by (simp add: hitems_def set_concat [symmetric] del: set_concat)
qed

lemma keys: "hash_keys hash cmp"
  by unfold_locales

lemma hinv_same:
  "hinv (t, nx) \<Longrightarrow> same_keys t t' \<Longrightarrow> ht_rel t' nx' bs \<Longrightarrow> hinv (t', nx')"
  by (auto simp: hinv_def same_keys_def)

lemma table_laws: "item_table hinv (\<lambda>s. ht_room (fst s)) hitems key cmp
  (\<lambda>s x. hashtable_add km (fst s) (snd s) x) (\<lambda>s k. hashtable_get (fst s) (snd s) k)
  (\<lambda>s k. hashtable_remove (fst s) (snd s) k)"
proof
  show "equivp cmp" by (rule cmp_equivp)
next
  fix s :: "'k hashtable_t \<times> store" and x
  assume s: "hinv s" "ht_room (fst s)" "x \<notin> hitems s"
  obtain t nx bs where t: "s = (t, nx)" "ht_rel t nx bs" using s(1) by (cases s) (auto simp: hinv_def)
  have x: "x \<notin> set (concat bs)" using s(3) t hitems_eq by simp
  obtain t' nx' bs' where r: "hashtable_add km t nx x = Some (t', nx')" "ht_rel t' nx' bs'"
    "mset (concat bs') = add_mset x (mset (concat bs))" "same_keys t t'"
    using hashtable_add_spec [OF allocator_axioms t(2) x] s(2) t(1) by auto
  have "set (concat bs') = insert x (set (concat bs))"
    using mset_eq_setD [of "concat bs'" "x # concat bs"] r(3) by simp
  then show "\<exists>t'. hashtable_add km (fst s) (snd s) x = Some t' \<and> hinv t' \<and>
      hitems t' = insert x (hitems s)"
    using r t hitems_eq [OF t(2)] hitems_eq [OF r(2)] hinv_same [OF _ r(4,2)] s(1) by simp
next
  fix s :: "'k hashtable_t \<times> store" and k
  assume s: "hinv s"
  obtain t nx bs where t: "s = (t, nx)" "ht_rel t nx bs" using s by (cases s) (auto simp: hinv_def)
  have f: "ht_key_func t = key" "ht_hash_func t = hash" "ht_compare_func t = cmp"
    using s t(1) by (simp_all add: hinv_def)
  note fb = find_bucket [OF t(2), unfolded f, OF keys]
  show "\<exists>r. hashtable_get (fst s) (snd s) k = Some r \<and>
      (case r of None \<Rightarrow> \<forall>x \<in> hitems s. \<not> cmp k (key x) | Some x \<Rightarrow> x \<in> hitems s \<and> cmp k (key x))"
  proof (cases "find (\<lambda>x. cmp k (key x)) (bs ! (unat (hash k) mod ht_size t))")
    case None
    then show ?thesis
      using hashtable_get_eq [OF t(2), of k] hitems_eq [OF t(2)] fb(1) [OF None] t(1) f
      by (simp del: set_concat)
  next
    case (Some x)
    then show ?thesis
      using hashtable_get_eq [OF t(2), of k] hitems_eq [OF t(2)] fb(2) [OF Some] t(1) f
      by (simp del: set_concat)
  qed
  let ?f = "find (\<lambda>x. cmp k (key x)) (bs ! (unat (hash k) mod ht_size t))"
  show "\<exists>r t'. hashtable_remove (fst s) (snd s) k = Some (r, t') \<and> hinv t' \<and>
      (case r of Inl e \<Rightarrow> e = EINVAL \<and> t' = s \<and> (\<forall>x \<in> hitems s. \<not> cmp k (key x))
       | Inr _ \<Rightarrow> \<exists>x \<in> hitems s. cmp k (key x) \<and> hitems t' = hitems s - {x})"
  proof (cases ?f)
    case None
    then show ?thesis
      using hashtable_remove_spec(1) [OF t(2) refl, of k] f fb(1) [OF None] hitems_eq [OF t(2)] s t(1)
      by auto
  next
    case (Some x)
    obtain t' nx' bs' where r: "hashtable_remove t nx k = Some (Inr (), t', nx')"
      "ht_rel t' nx' bs'" "add_mset x (mset (concat bs')) = mset (concat bs)" "same_keys t t'"
      using hashtable_remove_spec(2) [OF t(2) refl, of k x] f Some by auto
    have d: "distinct (concat bs)" using t(2) by (auto simp: ht_rel_def buckets_def)
    have "mset (x # concat bs') = mset (concat bs)" using r(3) by simp
    then have "set (x # concat bs') = set (concat bs)" "distinct (x # concat bs')"
      using mset_eq_setD mset_eq_imp_distinct_iff d by blast+
    then have "set (concat bs') = set (concat bs) - {x}" by auto
    moreover have "x \<in> set (concat bs) \<and> cmp k (key x)" using fb(2) Some by blast
    moreover have "hinv (t', nx')" using hinv_same [OF _ r(4,2)] s t(1) by simp
    ultimately show ?thesis
      using r(1) t(1) hitems_eq [OF t(2)] hitems_eq [OF r(2)] by auto
  qed
qed

end

sublocale hash_table \<subseteq> table: item_table hinv "\<lambda>s. ht_room (fst s)" hitems key cmp
  "\<lambda>s x. hashtable_add km (fst s) (snd s) x" "\<lambda>s k. hashtable_get (fst s) (snd s) k"
  "\<lambda>s k. hashtable_remove (fst s) (snd s) k"
  by (rule table_laws)


section \<open>The hash and comparison functions of the kernel\<close>

lemma hash_number_loop_total:
  "n \<le> length data \<Longrightarrow> \<exists>r. hash_number_loop data n h = Some r"
  by (induction data n h rule: hash_number_loop.induct) (auto simp: Let_def)

lemma hash_string_loop_take:
  "n \<le> length data \<Longrightarrow> hash_string_loop data n h = hash_string_loop (take n data) n h"
  by (induction data n h rule: hash_string_loop.induct) auto

lemma hash_string_loop_total:
  "n \<le> length data \<Longrightarrow> \<exists>r. hash_string_loop data n h = Some r"
  by (induction data n h rule: hash_string_loop.induct) auto

lemma hash_int_total: "\<exists>h. hash_int k = Some h"
  using hash_number_loop_total [of 4 "bytes_of_int k" 0]
  by (auto simp: hash_int_def hash_number_def bytes_of_int_def Let_def)

lemma hash_int64_total: "\<exists>h. hash_int64 k = Some h"
  using hash_number_loop_total [of 8 "bytes_of_int64 k" 0]
  by (auto simp: hash_int64_def hash_number_def bytes_of_int64_def Let_def)

text \<open>A C string key: its characters up to the terminator.\<close>

abbreviation c_chars :: "byte list \<Rightarrow> byte list" where
  "c_chars k \<equiv> takeWhile (\<lambda>b. b \<noteq> 0) k"

lemma c_string_split: "\<exists>r. k @ [0] = c_chars k @ 0 # r"
  by (induction k) auto

lemma c_chars_no_0: "0 \<notin> set (c_chars k)"
  by (auto dest: set_takeWhileD)

lemma hash_str_chars: "hash_str (k @ [0]) = hash_string (c_chars k) (length (c_chars k))"
proof -
  obtain r where r: "k @ [0] = c_chars k @ 0 # r" using c_string_split by blast
  have "hash_str (c_chars k @ 0 # r) = hash_string (c_chars k @ 0 # r) (length (c_chars k))"
    using c_chars_no_0 [of k] by (simp add: hash_str_def)
  moreover have "hash_string_loop (c_chars k @ 0 # r) (length (c_chars k)) h =
      hash_string_loop (c_chars k) (length (c_chars k)) h" for h
    using hash_string_loop_take [of "length (c_chars k)" "c_chars k @ 0 # r" h] by simp
  ultimately show ?thesis unfolding r by (simp add: hash_string_def)
qed

lemma compare_str_chars: "compare_str (k @ [0]) (l @ [0]) = Some (c_chars k = c_chars l)"
proof -
  obtain r where r: "k @ [0] = c_chars k @ 0 # r" using c_string_split by blast
  obtain q where q: "l @ [0] = c_chars l @ 0 # q" using c_string_split by blast
  show ?thesis
    unfolding r q using strcmp_total [OF c_chars_no_0 c_chars_no_0, of k r l q]
    by (auto simp: compare_str_def)
qed

interpretation int_keys: hash_keys "\<lambda>k. the (hash_int k)" compare_int
  by unfold_locales (auto simp: compare_int_def intro!: equivpI reflpI sympI transpI)

interpretation int64_keys: hash_keys "\<lambda>k. the (hash_int64 k)" compare_int64
  by unfold_locales (auto simp: compare_int64_def intro!: equivpI reflpI sympI transpI)

interpretation str_keys: hash_keys "\<lambda>k. the (hash_str (k @ [0]))"
    "\<lambda>k l. compare_str (k @ [0]) (l @ [0]) = Some True"
  by unfold_locales
    (auto simp: compare_str_chars hash_str_chars intro!: equivpI reflpI sympI transpI)

section \<open>Iteration\<close>

text \<open>What an iteration over the items \<open>xs\<close> does: the callback on each in turn, until one
  returns a negative number.\<close>

primrec visit :: "'s callback \<Rightarrow> ('s \<Rightarrow> addr \<Rightarrow> bool) \<Rightarrow> addr list \<Rightarrow> 's \<Rightarrow> int \<times> 's" where
  "visit cb skip [] s = (0, s)"
| "visit cb skip (x # xs) s =
     (let (r, s') = (if skip s x then (0, s) else cb x s)
      in if r < 0 then (r, s') else visit cb skip xs s')"

definition keeps :: "('s \<Rightarrow> 'a) \<Rightarrow> 's callback \<Rightarrow> bool" where
  "keeps f cb \<longleftrightarrow> (\<forall>x s. f (snd (cb x s)) = f s)"

lemma visit_append:
  "visit cb skip (xs @ ys) s =
     (let (r, s') = visit cb skip xs s in if r < 0 then (r, s') else visit cb skip ys s')"
  by (induction xs arbitrary: s) (auto simp: Let_def split: prod.splits)

lemma visit_keeps: "keeps f cb \<Longrightarrow> f (snd (visit cb skip xs s)) = f s"
proof (induction xs arbitrary: s)
  case (Cons x xs)
  obtain r s' where rs: "(if skip s x then (0, s) else cb x s) = (r, s')" by fastforce
  have "f s' = f s" using Cons.prems rs by (auto simp: keeps_def split: if_splits) (metis snd_conv)
  with Cons rs show ?case by (simp add: Let_def)
qed simp

lemma iterate_chain_eq:
  "keeps nxt cb \<Longrightarrow> chain (nxt s) p xs \<Longrightarrow>
   iterate_chain nxt cb skip s p = Some (visit cb skip xs s)"
proof (induction xs arbitrary: s p)
  case Nil
  then show ?case by (simp add: iterate_chain.simps)
next
  case (Cons x xs)
  obtain r s' where rs: "(if skip s x then (0, s) else cb x s) = (r, s')" by fastforce
  have "nxt s' = nxt s"
    using Cons.prems(1) rs by (auto simp: keeps_def split: if_splits) (metis snd_conv)
  then have "iterate_chain nxt cb skip s' (nxt s x) = Some (visit cb skip xs s')"
    using Cons by simp
  with Cons.prems(2) rs show ?case
    by (subst iterate_chain.simps) (simp add: Let_def)
qed

lemma iterate_buckets_eq:
  assumes "keeps nxt cb" and "keeps tab cb" and "ht_rel (tab s) (nxt s) bs"
  shows "iterate_buckets tab nxt cb skip s i = Some (visit cb skip (concat (drop i bs)) s)"
  using assms(3)
proof (induction "length bs - i" arbitrary: i s)
  case 0
  then have "\<not> i < ht_size (tab s)" by (simp add: ht_rel_def)
  with 0 show ?case by (simp add: iterate_buckets.simps)
next
  case (Suc d)
  obtain heads where hs: "ht_items (tab s) = Some heads"
    "buckets (bucket_of (tab s)) (nxt s) heads bs"
    "length heads = ht_size (tab s)" "length bs = ht_size (tab s)"
    using Suc.prems by (rule ht_rel_cases)
  have i: "i < length bs" using Suc.hyps(2) by simp
  obtain r s' where rs: "visit cb skip (bs ! i) s = (r, s')" by fastforce
  have keep: "nxt s' = nxt s" "tab s' = tab s"
    using visit_keeps [OF assms(1), of skip "bs ! i" s] visit_keeps [OF assms(2), of skip "bs ! i" s]
      rs by simp_all
  have "iterate_buckets tab nxt cb skip s i =
      (if r < 0 then Some (r, s') else iterate_buckets tab nxt cb skip s' (i + 1))"
    using hs i rs iterate_chain_eq [OF assms(1) buckets_chain [OF hs(2) i], of skip]
    by (subst iterate_buckets.simps) (simp add: read_cell_def)
  also have "iterate_buckets tab nxt cb skip s' (i + 1) =
      Some (visit cb skip (concat (drop (i + 1) bs)) s')"
    using Suc.hyps Suc.prems keep by (intro Suc.hyps(1)) auto
  finally show ?case
    using i rs by (simp add: Cons_nth_drop_Suc [symmetric] visit_append)
qed

lemma count_chain_eq:
  "chain nx p xs \<Longrightarrow> count_chain nx f p n = Some (n + of_nat (length (filter (\<lambda>x. f x = 0) xs)))"
  by (induction xs arbitrary: p n) (simp_all add: count_chain.simps add.assoc add.commute)

lemma count_buckets_eq:
  assumes "ht_rel t nx bs"
  shows "count_buckets t nx f n i =
    Some (n + of_nat (length (filter (\<lambda>x. f x = 0) (concat (drop i bs)))))"
proof (induction "length bs - i" arbitrary: i n)
  case 0
  with assms have "\<not> i < ht_size t" by (simp add: ht_rel_def)
  with 0 show ?case by (simp add: count_buckets.simps)
next
  case (Suc d)
  obtain heads where hs: "ht_items t = Some heads" "buckets (bucket_of t) nx heads bs"
    "length heads = ht_size t" "length bs = ht_size t"
    using assms by (rule ht_rel_cases)
  have i: "i < length bs" using Suc.hyps(2) by simp
  have "count_buckets t nx f n i =
      count_buckets t nx f (n + of_nat (length (filter (\<lambda>x. f x = 0) (bs ! i)))) (i + 1)"
    using hs i count_chain_eq [OF buckets_chain [OF hs(2) i]]
    by (subst count_buckets.simps) (simp add: read_cell_def)
  also have "\<dots> = Some (n + of_nat (length (filter (\<lambda>x. f x = 0) (bs ! i))) +
      of_nat (length (filter (\<lambda>x. f x = 0) (concat (drop (i + 1) bs)))))"
    using Suc.hyps by (intro Suc.hyps(1)) auto
  finally show ?case using i by (simp add: Cons_nth_drop_Suc [symmetric] add.assoc)
qed

section \<open>Properties\<close>

context hash_table
begin

lemma add_laws:
  assumes "ht_rel t nx bs" and f: "ht_key_func t = key" "ht_hash_func t = hash" "ht_compare_func t = cmp"
    and "ht_room t" and "\<forall>y \<in> set (concat bs). \<forall>z \<in> set (concat bs). cmp (key y) (key z) \<longrightarrow> y = z"
    and "hashtable_get t nx (key x) = Some None"
  shows "\<exists>t' nx' bs'. hashtable_add km t nx x = Some (t', nx') \<and> ht_rel t' nx' bs' \<and>
    set (concat bs') = insert x (set (concat bs)) \<and>
    (\<forall>k. hashtable_get t' nx' k = (if cmp k (key x) then Some (Some x) else hashtable_get t nx k))"
proof -
  have i: "hinv (t, nx)" using assms by (auto simp: hinv_def)
  have "table.one_per_key (t, nx)"
    unfolding table.one_per_key_def hitems_eq [OF assms(1)] using assms(6) .
  from table.add_lookup [OF i _ this, of x] assms(5,7) hitems_eq [OF assms(1)]
  obtain t' nx' where "hashtable_add km t nx x = Some (t', nx')" "hinv (t', nx')"
    "hitems (t', nx') = insert x (set (concat bs))"
    "\<forall>k. hashtable_get t' nx' k = (if cmp k (key x) then Some (Some x) else hashtable_get t nx k)"
    by auto
  moreover then obtain bs' where "ht_rel t' nx' bs'" by (auto simp: hinv_def)
  ultimately show ?thesis using hitems_eq by metis
qed

lemma remove_laws:
  assumes "ht_rel t nx bs" and f: "ht_key_func t = key" "ht_hash_func t = hash" "ht_compare_func t = cmp"
    and "\<forall>y \<in> set (concat bs). \<forall>z \<in> set (concat bs). cmp (key y) (key z) \<longrightarrow> y = z"
  shows "\<exists>r t' nx' bs'. hashtable_remove t nx k = Some (r, t', nx') \<and> ht_rel t' nx' bs' \<and>
    (case r of
       Inl e \<Rightarrow> e = EINVAL \<and> hashtable_get t nx k = Some None \<and> t' = t \<and> nx' = nx
     | Inr _ \<Rightarrow> (\<exists>x. hashtable_get t nx k = Some (Some x) \<and>
         set (concat bs') = set (concat bs) - {x}) \<and>
         (\<forall>l. hashtable_get t' nx' l = (if cmp k l then Some None else hashtable_get t nx l)))"
proof -
  have i: "hinv (t, nx)" using assms by (auto simp: hinv_def)
  have one: "table.one_per_key (t, nx)"
    unfolding table.one_per_key_def hitems_eq [OF assms(1)] using assms(5) .
  obtain r where r: "hashtable_get t nx k = Some r" using hashtable_get_eq [OF assms(1)] by blast
  show ?thesis
  proof (cases r)
    case None
    have no: "\<forall>x \<in> hitems (t, nx). \<not> cmp k (key x)" using table.get_none [OF i] r None by auto
    obtain q u where u: "hashtable_remove t nx k = Some (q, u)"
      "case q of Inl e \<Rightarrow> e = EINVAL \<and> u = (t, nx) \<and> (\<forall>x \<in> hitems (t, nx). \<not> cmp k (key x))
       | Inr _ \<Rightarrow> \<exists>x \<in> hitems (t, nx). cmp k (key x) \<and> hitems u = hitems (t, nx) - {x}"
      using table.remove_law [OF i, of k] by auto
    then obtain e where "q = Inl e" using no by (cases q) auto
    then show ?thesis using u r None assms(1) by auto
  next
    case (Some x)
    from table.remove_lookup [OF i one, of k x] r Some
    obtain t' nx' where u: "hashtable_remove t nx k = Some (Inr (), t', nx')" "hinv (t', nx')"
      "hitems (t', nx') = hitems (t, nx) - {x}"
      "\<forall>l. hashtable_get t' nx' l = (if cmp k l then Some None else hashtable_get t nx l)" by auto
    then obtain bs' where "ht_rel t' nx' bs'" by (auto simp: hinv_def)
    with u r Some hitems_eq assms(1) show ?thesis
      by (intro exI [of _ "Inr ()"] exI [of _ t'] exI [of _ nx'] exI [of _ bs'])
        (auto simp del: set_concat)
  qed
qed

end

text \<open>The empty table of an initialisation.\<close>

lemma ht_rel_empty:
  "0 < n \<Longrightarrow> ht_rel \<lparr> ht_size = n, ht_item_count = 0, ht_items = Some (replicate n None),
     ht_key_func = kf, ht_hash_func = hf, ht_compare_func = cf \<rparr> nx (replicate n [])"
  by (simp add: ht_rel_def buckets_empty)

text \<open>C38: adding an item whose key is not in the table makes it the result of every lookup with that
  key and changes no other lookup; the set of items grows by exactly this item. This holds across
  the resizing of the table, and when the resizing fails for lack of memory.\<close>

theorem hashtable_add_get:
  assumes "allocator km" and "hash_keys (ht_hash_func t) (ht_compare_func t)" and "ht_rel t nx bs"
    and "ht_room t"
    and "\<forall>y \<in> set (concat bs). \<forall>z \<in> set (concat bs).
      ht_compare_func t (ht_key_func t y) (ht_key_func t z) \<longrightarrow> y = z"
    and "hashtable_get t nx (ht_key_func t x) = Some None"
  shows "\<exists>t' nx' bs'. hashtable_add km t nx x = Some (t', nx') \<and> ht_rel t' nx' bs' \<and>
    set (concat bs') = insert x (set (concat bs)) \<and>
    (\<forall>k. hashtable_get t' nx' k =
       (if ht_compare_func t k (ht_key_func t x) then Some (Some x) else hashtable_get t nx k))"
proof -
  have "hash_table (ht_hash_func t) (ht_compare_func t) km"
    using assms(1,2) by (simp add: hash_table_def ptr_allocator_def)
  then show ?thesis using assms(3-6) by (intro hash_table.add_laws) auto
qed

theorem hashtable_add_get_witness:
  "\<exists>t' nx'. hashtable_add (eager_alloc None) \<lparr> ht_size = 2, ht_item_count = 0,
      ht_items = Some (replicate 2 None), ht_key_func = (\<lambda>a. word_of_nat a),
      ht_hash_func = (\<lambda>k. the (hash_int k)), ht_compare_func = compare_int \<rparr> (\<lambda>_. None) 5 =
      Some (t', nx') \<and> hashtable_get t' nx' 5 = Some (Some 5) \<and> hashtable_get t' nx' 6 = Some None"
proof -
  let ?t = "\<lparr> ht_size = 2, ht_item_count = 0, ht_items = Some (replicate 2 None),
      ht_key_func = (\<lambda>a. word_of_nat a), ht_hash_func = (\<lambda>k. the (hash_int k)),
      ht_compare_func = compare_int \<rparr>"
  have rel: "ht_rel ?t (\<lambda>_. None) (replicate 2 [])" by (rule ht_rel_empty) simp
  have none: "hashtable_get ?t (\<lambda>_. None) k = Some None" for k
    using hashtable_get_eq [OF rel, of k] by simp
  have keys: "hash_keys (ht_hash_func ?t) (ht_compare_func ?t)"
    using int_keys.hash_keys_axioms by simp
  have "ht_room ?t" by (simp add: ht_room_def)
  from hashtable_add_get [OF allocator_eager [of None] keys rel this _ none, of 5]
  show ?thesis using none by (auto simp: compare_int_def)
qed

text \<open>C39: removing by key takes exactly the item with that key out of the table: afterwards the key
  is not found and all other lookups are unchanged. With no such item it reports \<^verbatim>\<open>EINVAL\<close> and changes
  nothing.\<close>

theorem hashtable_remove_get:
  assumes "hash_keys (ht_hash_func t) (ht_compare_func t)" and "ht_rel t nx bs"
    and "\<forall>y \<in> set (concat bs). \<forall>z \<in> set (concat bs).
      ht_compare_func t (ht_key_func t y) (ht_key_func t z) \<longrightarrow> y = z"
  shows "\<exists>r t' nx' bs'. hashtable_remove t nx k = Some (r, t', nx') \<and> ht_rel t' nx' bs' \<and>
    (case r of
       Inl e \<Rightarrow> e = EINVAL \<and> hashtable_get t nx k = Some None \<and> t' = t \<and> nx' = nx
     | Inr _ \<Rightarrow> (\<exists>x. hashtable_get t nx k = Some (Some x) \<and>
         set (concat bs') = set (concat bs) - {x}) \<and>
         (\<forall>l. hashtable_get t' nx' l =
            (if ht_compare_func t k l then Some None else hashtable_get t nx l)))"
proof -
  have "hash_table (ht_hash_func t) (ht_compare_func t) (eager_alloc None)"
    using assms(1) allocator_eager by (simp add: hash_table_def ptr_allocator_def)
  then show ?thesis using assms(2,3) by (intro hash_table.remove_laws) auto
qed

theorem hashtable_remove_get_witness:
  "hashtable_remove \<lparr> ht_size = 2, ht_item_count = 0,
      ht_items = Some (replicate 2 None), ht_key_func = (\<lambda>a. [word_of_nat a]),
      ht_hash_func = (\<lambda>k. the (hash_str (k @ [0]))),
      ht_compare_func = (\<lambda>k l. compare_str (k @ [0]) (l @ [0]) = Some True) \<rparr> (\<lambda>_. None) [9]
    \<noteq> None"
proof -
  let ?t = "\<lparr> ht_size = 2, ht_item_count = 0, ht_items = Some (replicate 2 None),
      ht_key_func = (\<lambda>a. [word_of_nat a]), ht_hash_func = (\<lambda>k. the (hash_str (k @ [0]))),
      ht_compare_func = (\<lambda>k l. compare_str (k @ [0]) (l @ [0]) = Some True) \<rparr>"
  have rel: "ht_rel ?t (\<lambda>_. None) (replicate 2 [])" by (rule ht_rel_empty) simp
  have "hash_keys (ht_hash_func ?t) (ht_compare_func ?t)"
    using str_keys.hash_keys_axioms by simp
  from hashtable_remove_get [OF this rel, of "[9]"] show ?thesis by auto
qed

text \<open>an iteration calls the callback on every item of the table exactly once, bucket by bucket,
  until a callback returns a negative number, provided the callback leaves the table alone; the
  number of items is the table's counter.\<close>

theorem hashtable_iterate_all:
  assumes "keeps nxt cb" and "keeps tab cb" and "ht_rel (tab s) (nxt s) bs"
  shows "hashtable_iterate tab nxt cb s = Some (visit cb (\<lambda>_ _. False) (concat bs) s) \<and>
    distinct (concat bs) \<and> hashtable_get_item_count (tab s) = length (concat bs)"
  using iterate_buckets_eq [OF assms, of "\<lambda>_ _. False" 0] assms(3)
  by (auto simp: hashtable_iterate_def hashtable_get_item_count_def ht_rel_def buckets_def)

theorem hashtable_iterate_all_witness:
  "hashtable_iterate (\<lambda>_ :: nat. \<lparr> ht_size = 2, ht_item_count = 1,
      ht_items = Some [None, Some 3], ht_key_func = id, ht_hash_func = (\<lambda>_. 1),
      ht_compare_func = (=) \<rparr>) (\<lambda>_ _. None) (\<lambda>x n. (0, n + x)) 10 = Some (0, 13)"
proof -
  let ?t = "\<lparr> ht_size = 2, ht_item_count = 1, ht_items = Some [None, Some 3], ht_key_func = id,
      ht_hash_func = (\<lambda>_. 1), ht_compare_func = (=) \<rparr>"
  have "ht_rel ?t (\<lambda>_. None) [[], [3]]"
    by (auto simp: ht_rel_def buckets_def bucket_of_def nth_Cons' less_Suc_eq)
  then show ?thesis
    using hashtable_iterate_all [of "\<lambda>_ _. None" "\<lambda>x n. (0, n + x)" "\<lambda>_ :: nat. ?t" 10 "[[], [3]]"]
    by (simp add: keeps_def)
qed

end
