(* ===== verification/Kernel_Scheduler.thy ===== *)
theory Kernel_Scheduler
  imports Kernel_Prelude
begin

text \<open>
  The thread scheduler: \<^verbatim>\<open>source/kernel/src/sched/scheduler.c\<close> and the thread selection of
  \<^verbatim>\<open>source/kernel/arch/i386/src/scheduler.c\<close>. Threads live in a store; the ready and the expired
  list are singly linked through \<^verbatim>\<open>queue_next\<close> with a head and a tail pointer each. After the last
  thread of the ready list is taken its tail pointer is stale; the invariant says when it
  is meaningful. The state holds one processor: the one that runs \<^verbatim>\<open>schedule\<close> under the scheduler
  spinlock. Switching stacks, page tables and FPU state is hardware and not part of the model.

  Times are 64-bit words, as in the source.
\<close>

section \<open>Data\<close>

datatype thread_state =
    THREAD_UNKNOWN | THREAD_NEW | THREAD_READY | THREAD_RUNNING | THREAD_WAITING
  | THREAD_SLEEPING | THREAD_ZOMBIE

record thread_t =
  queue_next :: vptr
  t_state :: thread_state
  in_scheduler :: bool
  quantum :: u64
  exec_time :: u64
  cpu_time :: u64
  in_system :: bool
  sys_time :: u64
  user_time :: u64
  prev_checkpoint :: u64

record sched_t =
  first_ready :: vptr
  last_ready :: vptr
  first_expired :: vptr
  last_expired :: vptr
  threads :: "addr \<Rightarrow> thread_t"
  sched_locked :: bool
  idle_thread :: addr
  idle_time :: u64
  current_thread :: vptr

section \<open>Operations\<close>

text \<open>A write to fields of one thread.\<close>

definition thread_upd :: "addr \<Rightarrow> (thread_t \<Rightarrow> thread_t) \<Rightarrow> sched_t \<Rightarrow> sched_t" where
  "thread_upd t f s = s\<lparr> threads := (threads s)(t := f (threads s t)) \<rparr>"

definition scheduler_lock :: "sched_t \<Rightarrow> sched_t option" where
  "scheduler_lock s = (if sched_locked s then None else Some (s\<lparr> sched_locked := True \<rparr>))"

definition scheduler_unlock :: "sched_t \<Rightarrow> sched_t option" where
  "scheduler_unlock s = (if sched_locked s then Some (s\<lparr> sched_locked := False \<rparr>) else None)"

definition reset_thread_quantum :: "thread_t \<Rightarrow> thread_t" where
  "reset_thread_quantum th = th\<lparr> quantum := 50 * 1000 \<rparr>"

definition add_thread_to_ready :: "addr \<Rightarrow> sched_t \<Rightarrow> sched_t option" where
  "add_thread_to_ready thread s =
     (if \<not> sched_locked s then None
      else if in_scheduler (threads s thread) then Some s
      else do {
        let s = thread_upd thread (\<lambda>th. th\<lparr> t_state := THREAD_READY, queue_next := None,
                                         in_scheduler := True \<rparr>) s;
        case first_ready s of
          None \<Rightarrow> Some (s\<lparr> first_ready := Some thread, last_ready := Some thread \<rparr>)
        | Some _ \<Rightarrow> do {
            l \<leftarrow> last_ready s;
            Some ((thread_upd l (\<lambda>th. th\<lparr> queue_next := Some thread \<rparr>) s)
                    \<lparr> last_ready := Some thread \<rparr>) } })"

definition add_thread_to_expired :: "addr \<Rightarrow> sched_t \<Rightarrow> sched_t option" where
  "add_thread_to_expired thread s =
     (if \<not> sched_locked s then None
      else if in_scheduler (threads s thread) then Some s
      else do {
        let s = thread_upd thread (\<lambda>th. th\<lparr> t_state := THREAD_READY, queue_next := None,
                                         in_scheduler := True \<rparr>) s;
        let s = thread_upd thread reset_thread_quantum s;
        case first_expired s of
          None \<Rightarrow> Some (s\<lparr> first_expired := Some thread, last_expired := Some thread \<rparr>)
        | Some _ \<Rightarrow> do {
            l \<leftarrow> last_expired s;
            Some ((thread_upd l (\<lambda>th. th\<lparr> queue_next := Some thread \<rparr>) s)
                    \<lparr> last_expired := Some thread \<rparr>) } })"

definition swap_expired_and_ready_lists :: "sched_t \<Rightarrow> sched_t" where
  "swap_expired_and_ready_lists s =
     s\<lparr> first_ready := first_expired s, last_ready := last_expired s,
        first_expired := None, last_expired := None \<rparr>"

definition update_prev_thread :: "addr \<Rightarrow> u64 \<Rightarrow> sched_t \<Rightarrow> sched_t option" where
  "update_prev_thread thread now s = do {
     let runtime = now - exec_time (threads s thread);
     let time_used = now - prev_checkpoint (threads s thread);
     let s = thread_upd thread (\<lambda>th. th\<lparr> cpu_time := cpu_time th + runtime \<rparr>) s;
     let s = thread_upd thread (\<lambda>th.
         if in_system th then th\<lparr> sys_time := sys_time th + time_used \<rparr>
         else th\<lparr> user_time := user_time th + time_used \<rparr>) s;
     if thread = idle_thread s then
       Some ((thread_upd thread (\<lambda>th. th\<lparr> t_state := THREAD_WAITING, in_scheduler := True \<rparr>) s)
               \<lparr> idle_time := idle_time s + runtime \<rparr>)
     else case t_state (threads s thread) of
       THREAD_RUNNING \<Rightarrow>
         if runtime \<ge> quantum (threads s thread) then add_thread_to_expired thread s
         else add_thread_to_ready thread
                (thread_upd thread (\<lambda>th. th\<lparr> quantum := quantum th - runtime \<rparr>) s)
     | THREAD_READY \<Rightarrow> Some s
     | THREAD_WAITING \<Rightarrow> Some (thread_upd thread (\<lambda>th.
           th\<lparr> quantum := (if runtime \<ge> quantum th then 0 else quantum th - runtime) \<rparr>) s)
     | THREAD_SLEEPING \<Rightarrow> Some (thread_upd thread (\<lambda>th.
           th\<lparr> quantum := (if runtime \<ge> quantum th then 0 else quantum th - runtime) \<rparr>) s)
     | THREAD_ZOMBIE \<Rightarrow> Some s
     | _ \<Rightarrow> None }"

definition update_next_thread :: "addr \<Rightarrow> u64 \<Rightarrow> sched_t \<Rightarrow> sched_t" where
  "update_next_thread thread now =
     thread_upd thread (\<lambda>th. th\<lparr> exec_time := now, prev_checkpoint := now, in_scheduler := False \<rparr>)"

definition do_schedule :: "u64 \<Rightarrow> vptr \<Rightarrow> sched_t \<Rightarrow> (addr \<times> sched_t) option" where
  "do_schedule now current s = do {
     s \<leftarrow> (case current of None \<Rightarrow> Some s | Some c \<Rightarrow> update_prev_thread c now s);
     let s = (if first_ready s = None then swap_expired_and_ready_lists s else s);
     let (next, s) = (case first_ready s of
           None \<Rightarrow> (idle_thread s, s)
         | Some n \<Rightarrow> (n, thread_upd n (\<lambda>th. th\<lparr> queue_next := None \<rparr>)
                       (s\<lparr> first_ready := queue_next (threads s n) \<rparr>)));
     Some (next, update_next_thread next now s) }"

definition schedule :: "u64 \<Rightarrow> sched_t \<Rightarrow> sched_t option" where
  "schedule now s = do {
     s \<leftarrow> scheduler_lock s;
     (next, s) \<leftarrow> do_schedule now (current_thread s) s;
     let s = s\<lparr> current_thread := Some next \<rparr>;
     let s = thread_upd next (\<lambda>th. th\<lparr> t_state := THREAD_RUNNING \<rparr>) s;
     scheduler_unlock s }"

definition init_scheduler :: "sched_t \<Rightarrow> sched_t" where
  "init_scheduler s = s\<lparr> first_ready := None, last_ready := None,
                         first_expired := None, last_expired := None \<rparr>"

section \<open>Invariant\<close>

text \<open>
  \<open>queue_ok next first lst xs\<close>: the list is \<open>xs\<close>; its tail pointer is right unless it is empty.
\<close>

definition queue_ok :: "(addr \<Rightarrow> vptr) \<Rightarrow> vptr \<Rightarrow> vptr \<Rightarrow> addr list \<Rightarrow> bool" where
  "queue_ok nx first lst xs \<longleftrightarrow> chain nx first xs \<and> (xs \<noteq> [] \<longrightarrow> lst = Some (last xs))"

abbreviation next_of :: "sched_t \<Rightarrow> addr \<Rightarrow> vptr" where
  "next_of s \<equiv> \<lambda>t. queue_next (threads s t)"

text \<open>
  The ready list is \<open>rs\<close>, the expired list \<open>es\<close>; no thread is twice in them; apart from the idle
  thread a thread is marked \<^verbatim>\<open>in_scheduler\<close> exactly when it is in one of them, and then it is
  \<^verbatim>\<open>THREAD_READY\<close>.
\<close>

definition sched_inv :: "sched_t \<Rightarrow> addr list \<Rightarrow> addr list \<Rightarrow> bool" where
  "sched_inv s rs es \<longleftrightarrow>
     queue_ok (next_of s) (first_ready s) (last_ready s) rs \<and>
     queue_ok (next_of s) (first_expired s) (last_expired s) es \<and>
     distinct (rs @ es) \<and> idle_thread s \<notin> set (rs @ es) \<and>
     (\<forall>t. t \<noteq> idle_thread s \<longrightarrow> in_scheduler (threads s t) = (t \<in> set (rs @ es))) \<and>
     (\<forall>t \<in> set (rs @ es). t_state (threads s t) = THREAD_READY)"

lemma queue_ok_cong:
  "(\<And>x. x \<in> set xs \<Longrightarrow> nx x = ny x) \<Longrightarrow> queue_ok nx p l xs = queue_ok ny p l xs"
  unfolding queue_ok_def using chain_cong [of xs nx ny p] by simp

lemma queue_ok_upd [simp]: "u \<notin> set xs \<Longrightarrow> queue_ok (nx(u := v)) p l xs = queue_ok nx p l xs"
  by (simp add: queue_ok_def)

lemma queue_ok_first: "queue_ok nx p l xs \<Longrightarrow> p = None \<longleftrightarrow> xs = []"
  by (cases xs) (auto simp: queue_ok_def)

lemma queue_ok_single: "queue_ok (nx(n := None)) (Some n) (Some n) [n]"
  by (simp add: queue_ok_def)

lemma queue_ok_snoc:
  assumes "queue_ok nx p l xs" and "xs \<noteq> []" and "n \<notin> set xs"
  shows "\<exists>t. l = Some t \<and> t \<in> set xs \<and> queue_ok (nx(n := None, t := Some n)) p (Some n) (xs @ [n])"
proof -
  obtain ys t where xs: "xs = ys @ [t]" using assms(2) by (cases xs rule: rev_cases) auto
  show ?thesis using assms chain_snoc [of nx p ys t n] by (auto simp: queue_ok_def xs)
qed

lemma queue_ok_tl:
  assumes "queue_ok nx (Some x) l (x # xs)"
  shows "queue_ok (nx(x := None)) (nx x) l xs"
proof -
  have "distinct (x # xs)" using assms chain_distinct unfolding queue_ok_def by blast
  with assms show ?thesis by (simp add: queue_ok_def split: if_splits)
qed

text \<open>Reading fields after a write to one thread.\<close>

lemma thread_upd_threads:
  "threads (thread_upd t f s) = (threads s)(t := f (threads s t))"
  by (simp add: thread_upd_def)

lemma thread_upd_fields [simp]:
  "first_ready (thread_upd t f s) = first_ready s" "last_ready (thread_upd t f s) = last_ready s"
  "first_expired (thread_upd t f s) = first_expired s"
  "last_expired (thread_upd t f s) = last_expired s"
  "sched_locked (thread_upd t f s) = sched_locked s" "idle_thread (thread_upd t f s) = idle_thread s"
  "idle_time (thread_upd t f s) = idle_time s"
  "current_thread (thread_upd t f s) = current_thread s"
  by (simp_all add: thread_upd_def)

lemma thread_upd_same [simp]: "threads (thread_upd t f s) t = f (threads s t)"
  by (simp add: thread_upd_def)

lemma thread_upd_other [simp]: "u \<noteq> t \<Longrightarrow> threads (thread_upd t f s) u = threads s u"
  by (simp add: thread_upd_def)

lemma next_of_upd:
  "next_of (thread_upd t f s) = (next_of s)(t := queue_next (f (threads s t)))"
  by (auto simp: thread_upd_def)

text \<open>A write that leaves a thread's links and marks alone keeps the invariant.\<close>

lemma sched_inv_upd:
  assumes "sched_inv s rs es" and "queue_next (f (threads s t)) = queue_next (threads s t)"
    and "in_scheduler (f (threads s t)) = in_scheduler (threads s t)"
    and "t_state (f (threads s t)) = t_state (threads s t)"
  shows "sched_inv (thread_upd t f s) rs es"
proof -
  have "next_of (thread_upd t f s) = next_of s" using assms(2) by (simp add: next_of_upd fun_upd_idem)
  moreover have "in_scheduler (threads (thread_upd t f s) u) = in_scheduler (threads s u)"
    "t_state (threads (thread_upd t f s) u) = t_state (threads s u)" for u
    using assms(3,4) by (cases "u = t"; simp)+
  ultimately show ?thesis using assms(1) by (simp add: sched_inv_def)
qed

lemma sched_inv_locked [simp]: "sched_inv (s\<lparr> sched_locked := b \<rparr>) rs es = sched_inv s rs es"
  "sched_inv (s\<lparr> current_thread := c \<rparr>) rs es = sched_inv s rs es"
  "sched_inv (s\<lparr> idle_time := i \<rparr>) rs es = sched_inv s rs es"
  by (simp_all add: sched_inv_def)

section \<open>The queue operations\<close>

lemma sched_inv_mark:
  assumes "sched_inv s rs es" and "t \<noteq> idle_thread s" and "\<not> in_scheduler (threads s t)"
  shows "t \<notin> set rs" "t \<notin> set es"
  using assms by (auto simp: sched_inv_def)

text \<open>The state after a thread is marked and linked behind the list.\<close>

lemma sched_inv_link:
  assumes inv: "sched_inv s rs es" and t: "t \<noteq> idle_thread s" "t \<notin> set rs" "t \<notin> set es"
    and s': "idle_thread s' = idle_thread s"
      "in_scheduler (threads s' t)" "t_state (threads s' t) = THREAD_READY"
      "\<And>u. u \<noteq> t \<Longrightarrow> in_scheduler (threads s' u) = in_scheduler (threads s u)"
      "\<And>u. u \<noteq> t \<Longrightarrow> t_state (threads s' u) = t_state (threads s u)"
    and q: "queue_ok (next_of s') (first_ready s') (last_ready s') rs'"
      "queue_ok (next_of s') (first_expired s') (last_expired s') es'"
    and l: "rs' = rs @ [t] \<and> es' = es \<or> rs' = rs \<and> es' = es @ [t]"
  shows "sched_inv s' rs' es'"
proof -
  have set: "set (rs' @ es') = insert t (set (rs @ es))" using l by auto
  have dist: "distinct (rs' @ es')" using inv t l by (auto simp: sched_inv_def)
  have mark: "in_scheduler (threads s' u) = (u \<in> insert t (set (rs @ es)))"
    if "u \<noteq> idle_thread s" for u
    using inv that s'(2) s'(4) [of u] by (cases "u = t") (auto simp: sched_inv_def)
  have st: "t_state (threads s' u) = THREAD_READY" if "u \<in> insert t (set (rs @ es))" for u
    using inv that s'(3) s'(5) [of u] by (cases "u = t") (auto simp: sched_inv_def)
  show ?thesis unfolding sched_inv_def set using q dist mark st inv t(1) s'(1)
    by (simp add: sched_inv_def)
qed

lemma add_thread_to_ready_inv:
  assumes inv: "sched_inv s rs es" and "sched_locked s" and t: "t \<noteq> idle_thread s"
    and new: "\<not> in_scheduler (threads s t)"
  shows "\<exists>s'. add_thread_to_ready t s = Some s' \<and> sched_inv s' (rs @ [t]) es \<and> sched_locked s' \<and>
    idle_thread s' = idle_thread s \<and> current_thread s' = current_thread s"
proof -
  let ?s = "thread_upd t (\<lambda>th. th\<lparr> t_state := THREAD_READY, queue_next := None,
                            in_scheduler := True \<rparr>) s"
  note out = sched_inv_mark [OF inv t new]
  have nx: "next_of ?s = (next_of s)(t := None)" by (simp add: next_of_upd)
  have q: "queue_ok (next_of s) (first_ready s) (last_ready s) rs"
    "queue_ok (next_of s) (first_expired s) (last_expired s) es"
    using inv by (auto simp: sched_inv_def)
  show ?thesis
  proof (cases "first_ready s")
    case None
    let ?r = "?s\<lparr> first_ready := Some t, last_ready := Some t \<rparr>"
    have rs: "rs = []" using queue_ok_first [OF q(1)] None by simp
    have "sched_inv ?r (rs @ [t]) es"
      by (rule sched_inv_link [OF inv t out])
        (use rs q out in \<open>simp_all add: nx queue_ok_single\<close>)
    with None assms(2) new show ?thesis by (simp add: add_thread_to_ready_def Let_def)
  next
    case (Some a)
    have "rs \<noteq> []" using queue_ok_first [OF q(1)] Some by simp
    then obtain l where l: "last_ready s = Some l" "l \<in> set rs"
      "queue_ok ((next_of s)(t := None, l := Some t)) (first_ready s) (Some t) (rs @ [t])"
      using queue_ok_snoc [OF q(1) _ out(1)] by blast
    let ?r = "(thread_upd l (\<lambda>th. th\<lparr> queue_next := Some t \<rparr>) ?s)\<lparr> last_ready := Some t \<rparr>"
    have ne: "l \<noteq> t" using l(2) out(1) by auto
    have nr: "next_of ?r = (next_of s)(t := None, l := Some t)"
      using nx by (simp add: next_of_upd)
    have le: "l \<notin> set es" using inv l(2) by (auto simp: sched_inv_def)
    have same: "in_scheduler (threads ?r u) = in_scheduler (threads s u)"
      "t_state (threads ?r u) = t_state (threads s u)" if "u \<noteq> t" for u
      using that by (cases "u = l"; simp)+
    have "sched_inv ?r (rs @ [t]) es"
      by (rule sched_inv_link [OF inv t out])
        (use q(2) l ne out le same nr in \<open>simp_all\<close>)
    moreover have "add_thread_to_ready t s = Some ?r"
      using Some l(1) assms(2) new by (simp add: add_thread_to_ready_def Let_def)
    ultimately show ?thesis using assms(2) by simp
  qed
qed

lemma add_thread_to_expired_inv:
  assumes inv: "sched_inv s rs es" and "sched_locked s" and t: "t \<noteq> idle_thread s"
    and new: "\<not> in_scheduler (threads s t)"
  shows "\<exists>s'. add_thread_to_expired t s = Some s' \<and> sched_inv s' rs (es @ [t]) \<and> sched_locked s' \<and>
    idle_thread s' = idle_thread s \<and> current_thread s' = current_thread s \<and>
    quantum (threads s' t) = 50000"
proof -
  let ?s = "thread_upd t reset_thread_quantum (thread_upd t (\<lambda>th. th\<lparr> t_state := THREAD_READY,
    queue_next := None, in_scheduler := True \<rparr>) s)"
  note out = sched_inv_mark [OF inv t new]
  have nx: "next_of ?s = (next_of s)(t := None)" by (simp add: next_of_upd reset_thread_quantum_def)
  have q: "queue_ok (next_of s) (first_ready s) (last_ready s) rs"
    "queue_ok (next_of s) (first_expired s) (last_expired s) es"
    using inv by (auto simp: sched_inv_def)
  show ?thesis
  proof (cases "first_expired s")
    case None
    let ?r = "?s\<lparr> first_expired := Some t, last_expired := Some t \<rparr>"
    have es: "es = []" using queue_ok_first [OF q(2)] None by simp
    have "sched_inv ?r rs (es @ [t])"
      by (rule sched_inv_link [OF inv t out])
        (use es q out in \<open>simp_all add: nx queue_ok_single reset_thread_quantum_def\<close>)
    with None assms(2) new show ?thesis
      by (simp add: add_thread_to_expired_def Let_def reset_thread_quantum_def)
  next
    case (Some a)
    have "es \<noteq> []" using queue_ok_first [OF q(2)] Some by simp
    then obtain l where l: "last_expired s = Some l" "l \<in> set es"
      "queue_ok ((next_of s)(t := None, l := Some t)) (first_expired s) (Some t) (es @ [t])"
      using queue_ok_snoc [OF q(2) _ out(2)] by blast
    let ?r = "(thread_upd l (\<lambda>th. th\<lparr> queue_next := Some t \<rparr>) ?s)\<lparr> last_expired := Some t \<rparr>"
    have ne: "l \<noteq> t" using l(2) out(2) by auto
    have nr: "next_of ?r = (next_of s)(t := None, l := Some t)"
      using nx by (simp add: next_of_upd)
    have le: "l \<notin> set rs" using inv l(2) by (auto simp: sched_inv_def)
    have same: "in_scheduler (threads ?r u) = in_scheduler (threads s u)"
      "t_state (threads ?r u) = t_state (threads s u)" if "u \<noteq> t" for u
      using that by (cases "u = l"; simp)+
    have "sched_inv ?r rs (es @ [t])"
      by (rule sched_inv_link [OF inv t out])
        (use q(1) l ne out le same nr in \<open>simp_all add: reset_thread_quantum_def\<close>)
    moreover have "add_thread_to_expired t s = Some ?r"
      using Some l(1) assms(2) new by (simp add: add_thread_to_expired_def Let_def)
    ultimately show ?thesis using assms(2) ne by (simp add: reset_thread_quantum_def)
  qed
qed

section \<open>Selecting a thread\<close>

text \<open>A write to a thread outside the lists keeps the invariant if its mark stays right.\<close>

lemma sched_inv_upd_out:
  assumes "sched_inv s rs es" and "t \<notin> set (rs @ es)"
    and "t \<noteq> idle_thread s \<Longrightarrow> \<not> in_scheduler (f (threads s t))"
  shows "sched_inv (thread_upd t f s) rs es"
proof -
  have u: "threads (thread_upd t f s) u = threads s u" if "u \<in> set (rs @ es)" for u
    using that assms(2) by (cases "u = t") auto
  have "in_scheduler (threads (thread_upd t f s) u) = (u \<in> set (rs @ es))"
    if "u \<noteq> idle_thread s" for u
    using assms that by (cases "u = t") (auto simp: sched_inv_def)
  moreover have "queue_ok (next_of (thread_upd t f s)) p l xs = queue_ok (next_of s) p l xs"
    if "set xs \<subseteq> set (rs @ es)" for p l xs
    using that u by (intro queue_ok_cong) auto
  ultimately show ?thesis using assms(1) u by (simp add: sched_inv_def)
qed

text \<open>
  The specification of the selection, on the two lists: where the thread that ran goes, and
  which thread is next.
\<close>

definition requeue :: "sched_t \<Rightarrow> addr \<Rightarrow> u64 \<Rightarrow> addr list \<times> addr list \<Rightarrow> addr list \<times> addr list" where
  "requeue s c now q =
     (if c = idle_thread s \<or> t_state (threads s c) \<noteq> THREAD_RUNNING then q
      else if now - exec_time (threads s c) \<ge> quantum (threads s c) then (fst q, snd q @ [c])
      else (fst q @ [c], snd q))"

definition dispatch :: "addr \<Rightarrow> addr list \<times> addr list \<Rightarrow> addr \<times> addr list \<times> addr list" where
  "dispatch idle q =
     (let (rs, es) = (if fst q = [] then (snd q, []) else q)
      in case rs of [] \<Rightarrow> (idle, [], es) | x # xs \<Rightarrow> (x, xs, es))"

text \<open>A thread that may be handed to the scheduler as the one that ran.\<close>

definition may_yield :: "sched_t \<Rightarrow> addr \<Rightarrow> bool" where
  "may_yield s c \<longleftrightarrow> c = idle_thread s \<or> t_state (threads s c) \<notin> {THREAD_UNKNOWN, THREAD_NEW}"

lemma running_not_queued:
  "sched_inv s rs es \<Longrightarrow> t_state (threads s c) = THREAD_RUNNING \<Longrightarrow> c \<notin> set (rs @ es)"
  by (auto simp: sched_inv_def)

lemma update_prev_thread_inv:
  assumes inv: "sched_inv s rs es" and lk: "sched_locked s" and "may_yield s c"
  shows "\<exists>s'. update_prev_thread c now s = Some s' \<and>
    sched_inv s' (fst (requeue s c now (rs, es))) (snd (requeue s c now (rs, es))) \<and>
    sched_locked s' \<and> idle_thread s' = idle_thread s \<and> current_thread s' = current_thread s"
proof -
  let ?run = "now - exec_time (threads s c)" and ?used = "now - prev_checkpoint (threads s c)"
  define s1 where "s1 = thread_upd c (\<lambda>th.
      if in_system th then th\<lparr> sys_time := sys_time th + ?used \<rparr>
      else th\<lparr> user_time := user_time th + ?used \<rparr>)
    (thread_upd c (\<lambda>th. th\<lparr> cpu_time := cpu_time th + ?run \<rparr>) s)"
  have s1: "sched_inv s1 rs es" "sched_locked s1" "idle_thread s1 = idle_thread s"
    "current_thread s1 = current_thread s" "t_state (threads s1 c) = t_state (threads s c)"
    "quantum (threads s1 c) = quantum (threads s c)"
    "in_scheduler (threads s1 c) = in_scheduler (threads s c)"
    unfolding s1_def using lk by (simp_all add: sched_inv_upd inv)
  have step: "update_prev_thread c now s =
     (if c = idle_thread s1 then
       Some ((thread_upd c (\<lambda>th. th\<lparr> t_state := THREAD_WAITING, in_scheduler := True \<rparr>) s1)
               \<lparr> idle_time := idle_time s1 + ?run \<rparr>)
      else case t_state (threads s1 c) of
       THREAD_RUNNING \<Rightarrow>
         if ?run \<ge> quantum (threads s1 c) then add_thread_to_expired c s1
         else add_thread_to_ready c (thread_upd c (\<lambda>th. th\<lparr> quantum := quantum th - ?run \<rparr>) s1)
     | THREAD_READY \<Rightarrow> Some s1
     | THREAD_WAITING \<Rightarrow> Some (thread_upd c (\<lambda>th.
           th\<lparr> quantum := (if ?run \<ge> quantum th then 0 else quantum th - ?run) \<rparr>) s1)
     | THREAD_SLEEPING \<Rightarrow> Some (thread_upd c (\<lambda>th.
           th\<lparr> quantum := (if ?run \<ge> quantum th then 0 else quantum th - ?run) \<rparr>) s1)
     | THREAD_ZOMBIE \<Rightarrow> Some s1
     | _ \<Rightarrow> None)"
    unfolding update_prev_thread_def s1_def Let_def by (rule refl)
  show ?thesis
  proof (cases "c = idle_thread s \<or> t_state (threads s c) \<noteq> THREAD_RUNNING")
    case True
    have "c \<notin> set (rs @ es)" if "c = idle_thread s" using inv that by (auto simp: sched_inv_def)
    then have "sched_inv (thread_upd c (\<lambda>th. th\<lparr> t_state := THREAD_WAITING,
        in_scheduler := True \<rparr>) s1) rs es" if "c = idle_thread s"
      using that s1(1,3) by (intro sched_inv_upd_out) auto
    moreover have "sched_inv (thread_upd c (\<lambda>th.
        th\<lparr> quantum := (if ?run \<ge> quantum th then 0 else quantum th - ?run) \<rparr>) s1) rs es"
      using s1(1) by (rule sched_inv_upd) simp_all
    ultimately show ?thesis
      using True s1(1-5) assms(3) step
      by (cases "t_state (threads s c)") (auto simp: requeue_def may_yield_def)
  next
    case False
    then have run: "c \<noteq> idle_thread s1" "t_state (threads s1 c) = THREAD_RUNNING"
      "\<not> in_scheduler (threads s1 c)"
      using s1 running_not_queued [OF inv, of c] inv by (auto simp: sched_inv_def)
    show ?thesis
    proof (cases "?run \<ge> quantum (threads s c)")
      case True
      with False run s1 step add_thread_to_expired_inv [OF s1(1,2) run(1,3)]
      show ?thesis by (auto simp: requeue_def)
    next
      case lt: False
      let ?s = "thread_upd c (\<lambda>th. th\<lparr> quantum := quantum th - ?run \<rparr>) s1"
      have "sched_inv ?s rs es" using s1(1) by (rule sched_inv_upd) simp_all
      from add_thread_to_ready_inv [OF this] run s1 step lt False
      show ?thesis by (auto simp: requeue_def)
    qed
  qed
qed

text \<open>\<open>do_schedule\<close> refines \<open>requeue\<close> followed by \<open>dispatch\<close>.\<close>

lemma do_schedule_refines:
  assumes inv: "sched_inv s rs es" and lk: "sched_locked s"
    and "\<And>c. current = Some c \<Longrightarrow> may_yield s c"
    and q: "(case current of None \<Rightarrow> (rs, es) | Some c \<Rightarrow> requeue s c now (rs, es)) = q"
    and d: "dispatch (idle_thread s) q = (n, rs', es')"
  shows "\<exists>s'. do_schedule now current s = Some (n, s') \<and> sched_inv s' rs' es' \<and> sched_locked s' \<and>
    idle_thread s' = idle_thread s \<and> n \<notin> set (rs' @ es') \<and>
    (n \<noteq> idle_thread s \<longrightarrow> \<not> in_scheduler (threads s' n)) \<and> exec_time (threads s' n) = now"
proof -
  obtain s1 where s1: "(case current of None \<Rightarrow> Some s | Some c \<Rightarrow> update_prev_thread c now s) = Some s1"
    "sched_inv s1 (fst q) (snd q)" "sched_locked s1" "idle_thread s1 = idle_thread s"
    using inv lk assms(3) q update_prev_thread_inv [OF inv lk, of _ now]
    by (cases current) fastforce+
  define s2 where "s2 = (if first_ready s1 = None then swap_expired_and_ready_lists s1 else s1)"
  obtain r2 e2 where re: "(if fst q = [] then (snd q, []) else q) = (r2, e2)" by fastforce
  have empty: "first_ready s1 = None \<longleftrightarrow> fst q = []"
    using s1(2) queue_ok_first by (auto simp: sched_inv_def)
  have s2: "sched_inv s2 r2 e2" "sched_locked s2" "idle_thread s2 = idle_thread s"
    using s1 re empty
    by (auto simp: s2_def swap_expired_and_ready_lists_def sched_inv_def queue_ok_def
        split: if_splits)
  have first: "first_ready s2 = None \<longleftrightarrow> r2 = []"
    using s2(1) queue_ok_first by (auto simp: sched_inv_def)
  show ?thesis
  proof (cases r2)
    case Nil
    then have n: "n = idle_thread s" "rs' = []" "es' = e2" using d re by (auto simp: dispatch_def)
    have "sched_inv (update_next_thread n now s2) rs' es'"
      unfolding update_next_thread_def
      using s2 Nil n by (intro sched_inv_upd_out) (auto simp: sched_inv_def)
    moreover have "do_schedule now current s = Some (n, update_next_thread n now s2)"
      using s1(1) first Nil n s2(3)
      by (simp add: do_schedule_def s2_def [symmetric] Let_def)
    ultimately show ?thesis using s2 n Nil
      by (auto simp: update_next_thread_def sched_inv_def)
  next
    case (Cons x xs)
    then have n: "n = x" "rs' = xs" "es' = e2" using d re by (auto simp: dispatch_def)
    have f: "first_ready s2 = Some x" using s2(1) Cons by (auto simp: sched_inv_def queue_ok_def)
    define s3 where "s3 = update_next_thread n now (thread_upd n (\<lambda>th. th\<lparr> queue_next := None \<rparr>)
      (s2\<lparr> first_ready := queue_next (threads s2 n) \<rparr>))"
    have x: "x \<notin> set (xs @ e2)" "x \<noteq> idle_thread s"
      using s2(1,3) Cons by (auto simp: sched_inv_def)
    have thr: "threads s3 u = (if u = x then (threads s2 x)\<lparr> queue_next := None, exec_time := now,
        prev_checkpoint := now, in_scheduler := False \<rparr> else threads s2 u)" for u
      by (simp add: s3_def update_next_thread_def n(1) thread_upd_def)
    have nx: "next_of s3 = (next_of s2)(x := None)" using thr by auto
    have fields: "first_ready s3 = queue_next (threads s2 x)" "last_ready s3 = last_ready s2"
      "first_expired s3 = first_expired s2" "last_expired s3 = last_expired s2"
      "idle_thread s3 = idle_thread s" "sched_locked s3"
      using s2 by (simp_all add: s3_def update_next_thread_def n(1))
    have q3: "queue_ok (next_of s3) (first_ready s3) (last_ready s3) xs"
      "queue_ok (next_of s3) (first_expired s3) (last_expired s3) e2"
      using s2(1) Cons f queue_ok_tl [of "next_of s2" x "last_ready s2" xs] x
      by (auto simp: sched_inv_def nx fields)
    have "sched_inv s3 xs e2"
      using s2(1) q3 x Cons fields(5) s2(3) by (auto simp: sched_inv_def thr)
    moreover have "do_schedule now current s = Some (n, s3)"
      using s1(1) f n s2(3)
      by (simp add: do_schedule_def s2_def [symmetric] Let_def s3_def)
    ultimately show ?thesis using n x fields thr by simp
  qed
qed

text \<open>The state between two calls of \<^verbatim>\<open>schedule\<close>.\<close>

definition cpu_inv :: "sched_t \<Rightarrow> addr list \<Rightarrow> addr list \<Rightarrow> bool" where
  "cpu_inv s rs es \<longleftrightarrow> sched_inv s rs es \<and> \<not> sched_locked s \<and>
     (case current_thread s of None \<Rightarrow> True | Some c \<Rightarrow> may_yield s c)"

lemma schedule_refines:
  assumes "cpu_inv s rs es"
    and "dispatch (idle_thread s) (case current_thread s of None \<Rightarrow> (rs, es)
          | Some c \<Rightarrow> requeue s c now (rs, es)) = (n, rs', es')"
  shows "\<exists>s'. schedule now s = Some s' \<and> cpu_inv s' rs' es' \<and> current_thread s' = Some n \<and>
    t_state (threads s' n) = THREAD_RUNNING \<and> idle_thread s' = idle_thread s"
proof -
  let ?s = "s\<lparr> sched_locked := True \<rparr>"
  have rq: "requeue ?s c now q = requeue s c now q" for c q by (simp add: requeue_def)
  obtain s' where s': "do_schedule now (current_thread s) ?s = Some (n, s')" "sched_inv s' rs' es'"
    "sched_locked s'" "idle_thread s' = idle_thread s" "n \<notin> set (rs' @ es')"
    "n \<noteq> idle_thread s \<longrightarrow> \<not> in_scheduler (threads s' n)"
    using do_schedule_refines [of ?s rs es "current_thread s" now _ n rs' es'] assms
    by (auto simp: cpu_inv_def may_yield_def rq split: option.splits)
  let ?r = "thread_upd n (\<lambda>th. th\<lparr> t_state := THREAD_RUNNING \<rparr>) (s'\<lparr> current_thread := Some n \<rparr>)"
  have "sched_inv ?r rs' es'"
    using s'(2,4-6) by (intro sched_inv_upd_out) auto
  moreover have "schedule now s = Some (?r\<lparr> sched_locked := False \<rparr>)"
    using assms(1) s'(1,3)
    by (simp add: schedule_def scheduler_lock_def scheduler_unlock_def cpu_inv_def Let_def)
  ultimately show ?thesis using s'(4) by (simp add: cpu_inv_def may_yield_def)
qed

section \<open>Runs of the scheduler\<close>

text \<open>
  What happens to the scheduler state over time: a timer tick or a voluntary yield runs
  \<^verbatim>\<open>schedule\<close>; a wake-up puts a thread back (the code shared by the wake-up functions of
  \<^verbatim>\<open>waitqueue.c\<close>); the running thread marks itself waiting, sleeping or dead before it yields.
\<close>

datatype sched_ev = Tick u64 | Wake addr | Block thread_state

definition wake_thread :: "addr \<Rightarrow> sched_t \<Rightarrow> sched_t option" where
  "wake_thread t s =
     (if quantum (threads s t) = 0 then add_thread_to_expired t s else add_thread_to_ready t s)"

fun sched_event :: "sched_ev \<Rightarrow> sched_t \<Rightarrow> sched_t option" where
  "sched_event (Tick now) s = schedule now s"
| "sched_event (Wake t) s = do {
     s \<leftarrow> scheduler_lock s;
     s \<leftarrow> wake_thread t s;
     scheduler_unlock s }"
| "sched_event (Block st) s = do {
     s \<leftarrow> scheduler_lock s;
     s \<leftarrow> (case current_thread s of None \<Rightarrow> None
          | Some c \<Rightarrow> Some (thread_upd c (\<lambda>th. th\<lparr> t_state := st \<rparr>) s));
     scheduler_unlock s }"

fun sched_run :: "sched_ev list \<Rightarrow> sched_t \<Rightarrow> sched_t option" where
  "sched_run [] s = Some s"
| "sched_run (e # es) s = do { s \<leftarrow> sched_event e s; sched_run es s }"

text \<open>The idle thread is never woken and never blocks; a thread blocks while it runs.\<close>

fun event_ok :: "sched_t \<Rightarrow> sched_ev \<Rightarrow> bool" where
  "event_ok s (Tick now) = True"
| "event_ok s (Wake t) = (t \<noteq> idle_thread s)"
| "event_ok s (Block st) = (st \<in> {THREAD_WAITING, THREAD_SLEEPING, THREAD_ZOMBIE} \<and>
     (case current_thread s of None \<Rightarrow> False
      | Some c \<Rightarrow> c \<noteq> idle_thread s \<and> t_state (threads s c) = THREAD_RUNNING))"

fun run_ok :: "sched_ev list \<Rightarrow> sched_t \<Rightarrow> bool" where
  "run_ok [] s = True"
| "run_ok (e # es) s = (event_ok s e \<and>
     (case sched_event e s of None \<Rightarrow> True | Some s' \<Rightarrow> run_ok es s'))"

definition ticks :: "sched_ev list \<Rightarrow> nat" where
  "ticks evs = length (filter (\<lambda>e. \<exists>now. e = Tick now) evs)"

lemma may_yield_unlocked [simp]: "may_yield (s\<lparr> sched_locked := b \<rparr>) c = may_yield s c"
  by (simp add: may_yield_def)

lemma wake_thread_inv:
  assumes "sched_inv s rs es" and "sched_locked s" and "t \<noteq> idle_thread s"
  shows "\<exists>s' xs ys. wake_thread t s = Some s' \<and> sched_inv s' (rs @ xs) (es @ ys) \<and> sched_locked s' \<and>
    idle_thread s' = idle_thread s \<and> current_thread s' = current_thread s \<and> t \<in> set (rs @ xs @ es @ ys) \<and>
    set (xs @ ys) \<subseteq> {t}"
proof (cases "in_scheduler (threads s t)")
  case True
  then have "t \<in> set (rs @ es)" using assms by (auto simp: sched_inv_def)
  with True assms show ?thesis
    by (intro exI [of _ s] exI [of _ "[]"])
      (auto simp: wake_thread_def add_thread_to_ready_def add_thread_to_expired_def)
next
  case False
  show ?thesis
  proof (cases "quantum (threads s t) = 0")
    case True
    with add_thread_to_expired_inv [OF assms False] obtain s' where
      "wake_thread t s = Some s'" "sched_inv s' rs (es @ [t])" "sched_locked s'"
      "idle_thread s' = idle_thread s" "current_thread s' = current_thread s"
      by (auto simp: wake_thread_def)
    then show ?thesis
      by (intro exI [of _ s'] exI [of _ "[]"] exI [of _ "[t]"]) simp
  next
    case q: False
    with add_thread_to_ready_inv [OF assms False] obtain s' where
      "wake_thread t s = Some s'" "sched_inv s' (rs @ [t]) es" "sched_locked s'"
      "idle_thread s' = idle_thread s" "current_thread s' = current_thread s"
      by (auto simp: wake_thread_def)
    then show ?thesis
      by (intro exI [of _ s'] exI [of _ "[t]"] exI [of _ "[]"]) simp
  qed
qed

text \<open>A write to the state of threads never makes a runnable thread unfit to yield.\<close>

lemma wake_thread_state:
  "wake_thread t s = Some s' \<Longrightarrow>
     t_state (threads s' u) = t_state (threads s u) \<or> t_state (threads s' u) = THREAD_READY"
  by (auto simp: wake_thread_def add_thread_to_ready_def add_thread_to_expired_def thread_upd_def
      reset_thread_quantum_def Let_def bind_eq_Some_conv split: if_splits option.splits)

text \<open>One event: it succeeds, keeps the invariant, and only takes threads from the front of
  the ready list.\<close>

lemma sched_event_inv:
  assumes inv: "cpu_inv s rs es" and "event_ok s e"
  shows "\<exists>s' rs' es'. sched_event e s = Some s' \<and> cpu_inv s' rs' es' \<and>
    idle_thread s' = idle_thread s \<and>
    (\<forall>x xs. rs = x # xs \<longrightarrow>
       (if \<exists>now. e = Tick now then current_thread s' = Some x \<and> (\<exists>ys. rs' = xs @ ys)
        else current_thread s' = current_thread s \<and> (\<exists>ys. rs' = rs @ ys)))"
proof (cases e)
  case (Tick now)
  define q where "q = (case current_thread s of None \<Rightarrow> (rs, es) | Some c \<Rightarrow> requeue s c now (rs, es))"
  obtain n rs' es' where d: "dispatch (idle_thread s) q = (n, rs', es')" by (metis prod_cases3)
  obtain s' where "schedule now s = Some s'" "cpu_inv s' rs' es'" "current_thread s' = Some n"
    "idle_thread s' = idle_thread s"
    using schedule_refines [OF inv, of now n rs' es'] d by (auto simp: q_def)
  moreover have "n = x \<and> (\<exists>ys. rs' = xs @ ys)" if rs: "rs = x # xs" for x xs
  proof -
    have "\<exists>ys. fst q = x # xs @ ys"
      using rs by (cases "current_thread s") (auto simp: q_def requeue_def)
    then obtain ys where "fst q = x # xs @ ys" by blast
    with d show ?thesis by (cases q) (auto simp: dispatch_def)
  qed
  ultimately show ?thesis using Tick by auto
next
  case (Wake t)
  let ?s = "s\<lparr> sched_locked := True \<rparr>"
  have "sched_inv ?s rs es" "sched_locked ?s" "t \<noteq> idle_thread ?s"
    using inv assms(2) Wake by (simp_all add: cpu_inv_def)
  from wake_thread_inv [OF this] obtain s' xs ys where s': "wake_thread t ?s = Some s'"
    "sched_inv s' (rs @ xs) (es @ ys)" "sched_locked s'" "idle_thread s' = idle_thread s"
    "current_thread s' = current_thread s" by auto
  have "may_yield s' c" if "may_yield s c" for c
    using that wake_thread_state [OF s'(1), of c] s'(4) by (auto simp: may_yield_def)
  then have "cpu_inv (s'\<lparr> sched_locked := False \<rparr>) (rs @ xs) (es @ ys)"
    using s' inv by (auto simp: cpu_inv_def split: option.splits)
  moreover have "sched_event e s = Some (s'\<lparr> sched_locked := False \<rparr>)"
    using inv s'(1,3) Wake by (simp add: cpu_inv_def scheduler_lock_def scheduler_unlock_def)
  ultimately show ?thesis using Wake s'(4,5) by auto
next
  case (Block st)
  obtain c where c: "current_thread s = Some c" "c \<noteq> idle_thread s"
    "t_state (threads s c) = THREAD_RUNNING" "st \<in> {THREAD_WAITING, THREAD_SLEEPING, THREAD_ZOMBIE}"
    using assms(2) Block by (auto split: option.splits)
  let ?s = "thread_upd c (\<lambda>th. th\<lparr> t_state := st \<rparr>) (s\<lparr> sched_locked := True \<rparr>)"
  have i: "sched_inv s rs es" "\<not> sched_locked s" using inv by (simp_all add: cpu_inv_def)
  have out: "c \<notin> set (rs @ es)" using i(1) c(3) by (rule running_not_queued)
  have "sched_inv ?s rs es"
    using i(1) out c(2) by (intro sched_inv_upd_out) (auto simp: sched_inv_def)
  then have "cpu_inv (?s\<lparr> sched_locked := False \<rparr>) rs es"
    using c by (auto simp: cpu_inv_def may_yield_def)
  moreover have "sched_event e s = Some (?s\<lparr> sched_locked := False \<rparr>)"
    using i(2) c(1) Block by (simp add: scheduler_lock_def scheduler_unlock_def)
  ultimately show ?thesis using Block c(1)
    by (intro exI [of _ "?s\<lparr> sched_locked := False \<rparr>"] exI [of _ rs] exI [of _ es]) auto
qed

lemma sched_run_inv:
  assumes "cpu_inv s rs es" and "run_ok evs s"
  shows "\<exists>s' rs' es'. sched_run evs s = Some s' \<and> cpu_inv s' rs' es' \<and> idle_thread s' = idle_thread s"
  using assms
proof (induction evs arbitrary: s rs es)
  case (Cons e evs)
  from sched_event_inv [OF Cons.prems(1), of e] Cons.prems(2)
  obtain s' rs' es' where s': "sched_event e s = Some s'" "cpu_inv s' rs' es'"
    "idle_thread s' = idle_thread s" by auto
  with Cons.IH [OF s'(2)] Cons.prems(2) show ?case by auto
qed auto

lemma ticks_simps [simp]:
  "ticks [] = 0" "ticks (Tick now # evs) = Suc (ticks evs)" "ticks (Wake t # evs) = ticks evs"
  "ticks (Block st # evs) = ticks evs"
  by (simp_all add: ticks_def)

text \<open>A thread with \<open>k\<close> threads in front of it runs at the tick number \<open>k + 1\<close>, whatever else
  happens.\<close>

lemma sched_run_turn:
  assumes "cpu_inv s (pre @ t # post) es" and "run_ok (evs @ [Tick now]) s"
    and "ticks evs = length pre"
  shows "\<exists>s'. sched_run (evs @ [Tick now]) s = Some s' \<and> current_thread s' = Some t"
  using assms
proof (induction evs arbitrary: s pre post es)
  case Nil
  then show ?case using sched_event_inv [OF Nil.prems(1), of "Tick now"] by auto
next
  case (Cons e evs)
  obtain x xs where x: "pre @ t # post = x # xs" by (cases pre) auto
  have ok: "event_ok s e" using Cons.prems(2) by simp
  obtain s' rs' es' where s': "sched_event e s = Some s'" "cpu_inv s' rs' es'"
    "if \<exists>now. e = Tick now then current_thread s' = Some x \<and> (\<exists>ys. rs' = xs @ ys)
        else current_thread s' = current_thread s \<and> (\<exists>ys. rs' = (pre @ t # post) @ ys)"
    using sched_event_inv [OF Cons.prems(1) ok] x by blast
  have rest: "run_ok (evs @ [Tick now]) s'" using Cons.prems(2) s'(1) by simp
  have "\<exists>pre' post'. rs' = pre' @ t # post' \<and> ticks evs = length pre'"
  proof (cases e)
    case (Tick n)
    then obtain ys where "rs' = xs @ ys" "length pre = Suc (ticks evs)" using s'(3) Cons.prems(3) by auto
    with x show ?thesis
      by (intro exI [of _ "tl pre"] exI [of _ "post @ ys"]) (cases pre; auto)
  next
    case (Wake u)
    then show ?thesis using s'(3) Cons.prems(3) by auto
  next
    case (Block st)
    then show ?thesis using s'(3) Cons.prems(3) by auto
  qed
  then obtain pre' post' where "rs' = pre' @ t # post'" "ticks evs = length pre'" by blast
  with Cons.IH [of s' pre' post' es'] s'(1,2) rest show ?case by auto
qed

section \<open>Properties\<close>

text \<open>C3: from every state between two calls, \<open>schedule\<close> never panics or follows a bad pointer, and
  refines its specification on the two lists: the thread that ran goes to the end of the expired
  list if its quantum is used up, to the end of the ready list otherwise, and nowhere if it does
  not want to run; then the first ready thread runs, the lists being swapped first if no
  thread is ready; the idle thread runs exactly when both lists are empty.\<close>

theorem schedule_selects:
  assumes "cpu_inv s rs es"
    and "q = (case current_thread s of None \<Rightarrow> (rs, es) | Some c \<Rightarrow> requeue s c now (rs, es))"
  shows "\<exists>s' n rs' es'. schedule now s = Some s' \<and> cpu_inv s' rs' es' \<and>
    current_thread s' = Some n \<and> t_state (threads s' n) = THREAD_RUNNING \<and>
    (case fst q @ snd q of
       [] \<Rightarrow> n = idle_thread s \<and> rs' = [] \<and> es' = []
     | x # xs \<Rightarrow> n = x \<and> x \<noteq> idle_thread s \<and> rs' @ es' = xs \<and>
         (if fst q = [] then es' = [] else es' = snd q))"
proof -
  obtain n rs' es' where d: "dispatch (idle_thread s) q = (n, rs', es')" by (metis prod_cases3)
  obtain s' where s': "schedule now s = Some s'" "cpu_inv s' rs' es'" "current_thread s' = Some n"
    "t_state (threads s' n) = THREAD_RUNNING" "idle_thread s' = idle_thread s"
    using schedule_refines [OF assms(1)] d assms(2) by blast
  have "set (fst q @ snd q) \<subseteq> set (rs @ es) \<union> {c. current_thread s = Some c \<and> c \<noteq> idle_thread s}"
    using assms(2) by (cases "current_thread s") (auto simp: requeue_def)
  moreover have "idle_thread s \<notin> set (rs @ es)" using assms(1) by (simp add: cpu_inv_def sched_inv_def)
  ultimately have idle: "idle_thread s \<notin> set (fst q @ snd q)" by auto
  show ?thesis
    using s' d idle by (cases q) (auto simp: dispatch_def split: list.splits if_splits)
qed

theorem schedule_selects_witness:
  "\<exists>s'. schedule 100 \<lparr> first_ready = Some 1, last_ready = Some 1, first_expired = None,
      last_expired = None, threads = (\<lambda>t. \<lparr> queue_next = None, t_state = THREAD_READY,
        in_scheduler = (t = 1), quantum = 50000, exec_time = 0, cpu_time = 0, in_system = False,
        sys_time = 0, user_time = 0, prev_checkpoint = 0 \<rparr>),
      sched_locked = False, idle_thread = 0, idle_time = 0, current_thread = None \<rparr> = Some s' \<and>
    current_thread s' = Some 1"
proof -
  let ?s = "\<lparr> first_ready = Some 1, last_ready = Some 1, first_expired = None,
      last_expired = None, threads = (\<lambda>t. \<lparr> queue_next = None, t_state = THREAD_READY,
        in_scheduler = (t = 1), quantum = 50000, exec_time = 0, cpu_time = 0, in_system = False,
        sys_time = 0, user_time = 0, prev_checkpoint = 0 \<rparr>),
      sched_locked = False, idle_thread = 0, idle_time = 0, current_thread = None \<rparr>"
  have "cpu_inv ?s [1] []" by (simp add: cpu_inv_def sched_inv_def queue_ok_def)
  from schedule_selects [OF this, of _ 100] show ?thesis by auto
qed

text \<open>C4: in every run of ticks, wake-ups and blocking threads that starts in a well-formed state the
  scheduler never fails and its lists stay well formed: linked, free of duplicates, and marked.\<close>

theorem sched_run_safe:
  assumes "cpu_inv s rs es" and "run_ok evs s"
  shows "\<exists>s' rs' es'. sched_run evs s = Some s' \<and> cpu_inv s' rs' es' \<and> distinct (rs' @ es') \<and>
    (\<forall>t. t \<noteq> idle_thread s \<longrightarrow> in_scheduler (threads s' t) = (t \<in> set (rs' @ es')))"
proof -
  obtain s' rs' es' where "sched_run evs s = Some s'" "cpu_inv s' rs' es'"
    "idle_thread s' = idle_thread s"
    using sched_run_inv [OF assms] by blast
  then show ?thesis by (auto simp: cpu_inv_def sched_inv_def)
qed

theorem sched_run_safe_witness:
  "\<exists>s'. sched_run [Wake 2, Tick 10, Wake 1] \<lparr> first_ready = None, last_ready = None,
      first_expired = None, last_expired = None, threads = (\<lambda>t. \<lparr> queue_next = None,
        t_state = THREAD_WAITING, in_scheduler = False, quantum = 0, exec_time = 0, cpu_time = 0,
        in_system = False, sys_time = 0, user_time = 0, prev_checkpoint = 0 \<rparr>),
      sched_locked = False, idle_thread = 0, idle_time = 0, current_thread = None \<rparr> = Some s'"
proof -
  let ?s = "\<lparr> first_ready = None, last_ready = None,
      first_expired = None, last_expired = None, threads = (\<lambda>t. \<lparr> queue_next = None,
        t_state = THREAD_WAITING, in_scheduler = False, quantum = 0, exec_time = 0, cpu_time = 0,
        in_system = False, sys_time = 0, user_time = 0, prev_checkpoint = 0 \<rparr>),
      sched_locked = False, idle_thread = 0, idle_time = 0, current_thread = None \<rparr>"
  have inv: "cpu_inv ?s [] []" by (simp add: cpu_inv_def sched_inv_def queue_ok_def)
  obtain s1 where s1: "sched_event (Wake 2) ?s = Some s1" "idle_thread s1 = idle_thread ?s"
    using sched_event_inv [OF inv, of "Wake 2"] by auto
  obtain rs1 es1 where inv1: "cpu_inv s1 rs1 es1"
    using sched_event_inv [OF inv, of "Wake 2"] s1(1) by auto
  obtain s2 where s2: "sched_event (Tick 10) s1 = Some s2" "idle_thread s2 = idle_thread s1"
    using sched_event_inv [OF inv1, of "Tick 10"] by auto
  have "run_ok [Wake 2, Tick 10, Wake 1] ?s"
    using s1 s2 by (auto split: option.splits)
  from sched_run_safe [OF inv this] show ?thesis by blast
qed

text \<open>C5: no thread in the ready list is overtaken: a thread with \<open>k\<close> ready threads in front of it is
  running after exactly \<open>k + 1\<close> further ticks, whatever wake-ups and blocking happen in between.\<close>

theorem sched_bounded_wait:
  assumes "cpu_inv s (pre @ t # post) es" and "run_ok (evs @ [Tick now]) s"
    and "ticks evs = length pre"
  shows "\<exists>s'. sched_run (evs @ [Tick now]) s = Some s' \<and> current_thread s' = Some t"
  using assms by (rule sched_run_turn)

theorem sched_bounded_wait_witness:
  "\<exists>s'. sched_run ([Tick 10] @ [Tick 20]) \<lparr> first_ready = Some 1, last_ready = Some 2,
      first_expired = None, last_expired = None, threads = (\<lambda>t. \<lparr> queue_next = (if t = 1 then Some 2
        else None), t_state = THREAD_READY, in_scheduler = (t = 1 \<or> t = 2), quantum = 50000,
        exec_time = 0, cpu_time = 0, in_system = False, sys_time = 0, user_time = 0,
        prev_checkpoint = 0 \<rparr>),
      sched_locked = False, idle_thread = 0, idle_time = 0, current_thread = None \<rparr> = Some s' \<and>
    current_thread s' = Some 2"
proof -
  let ?s = "\<lparr> first_ready = Some 1, last_ready = Some 2,
      first_expired = None, last_expired = None, threads = (\<lambda>t. \<lparr> queue_next = (if t = 1 then Some 2
        else None), t_state = THREAD_READY, in_scheduler = (t = 1 \<or> t = 2), quantum = 50000,
        exec_time = 0, cpu_time = 0, in_system = False, sys_time = 0, user_time = 0,
        prev_checkpoint = 0 \<rparr>),
      sched_locked = False, idle_thread = 0, idle_time = 0, current_thread = None \<rparr>"
  have inv: "cpu_inv ?s ([1] @ 2 # []) []" by (auto simp: cpu_inv_def sched_inv_def queue_ok_def)
  have "run_ok ([Tick 10] @ [Tick 20]) ?s" by (auto split: option.splits)
  from sched_bounded_wait [OF inv this] show ?thesis by simp
qed

end
