(* ===== verification/Kernel_Waitqueue.thy ===== *)
theory Kernel_Waitqueue
  imports Kernel_Scheduler
begin

text \<open>
  Wait queues, \<^verbatim>\<open>source/kernel/src/sched/waitqueue.c\<close>, and the timers of
  \<^verbatim>\<open>source/kernel/src/timer.c\<close> that use them: doubly linked lists of nodes ordered (for sleepers)
  by wake-up time. Nodes live in a store. \<^verbatim>\<open>get_thread_by_id\<close> is the argument \<open>thr\<close>: a lookup in
  the thread table, \<open>None\<close> for an unknown id. The functions run with the scheduler spinlock held,
  except \<open>waitqueue_wake_up\<close>, which takes it.
\<close>

section \<open>Data\<close>

datatype wait_type = WAIT_THREAD int | WAIT_CALLBACK addr addr

record waitnode_t =
  wn_type :: wait_type
  wakeup_time :: u64
  in_queue :: bool
  wn_prev :: vptr
  wn_next :: vptr

record waitqueue_t =
  first_node :: vptr
  last_node :: vptr

type_synonym nodes = "addr \<Rightarrow> waitnode_t"

section \<open>Operations\<close>

definition node_upd :: "addr \<Rightarrow> (waitnode_t \<Rightarrow> waitnode_t) \<Rightarrow> nodes \<Rightarrow> nodes" where
  "node_upd n f ns = ns(n := f (ns n))"

text \<open>The search loop of \<open>waitqueue_add_node\<close> and what follows it.\<close>

partial_function (option) add_node_loop ::
    "addr \<Rightarrow> addr \<Rightarrow> waitqueue_t \<Rightarrow> nodes \<Rightarrow> (waitqueue_t \<times> nodes) option" where
  "add_node_loop node current queue ns =
     (case wn_next (ns current) of
        None \<Rightarrow>
          if last_node queue \<noteq> Some current then None
          else do {
            let ns = node_upd node (\<lambda>n. n\<lparr> wn_prev := Some current, wn_next := None \<rparr>) ns;
            let ns = node_upd current (\<lambda>n. n\<lparr> wn_next := Some node \<rparr>) ns;
            Some (queue\<lparr> last_node := Some node \<rparr>, ns) }
      | Some next \<Rightarrow>
          if wakeup_time (ns node) < wakeup_time (ns current) then do {
            p \<leftarrow> wn_prev (ns current);
            let ns = node_upd p (\<lambda>n. n\<lparr> wn_next := Some node \<rparr>) ns;
            let ns = node_upd node (\<lambda>n. n\<lparr> wn_prev := wn_prev (ns current) \<rparr>) ns;
            let ns = node_upd node (\<lambda>n. n\<lparr> wn_next := Some current \<rparr>) ns;
            let ns = node_upd current (\<lambda>n. n\<lparr> wn_prev := Some node \<rparr>) ns;
            Some (queue, ns) }
          else add_node_loop node next queue ns)"

definition waitqueue_add_node ::
    "waitqueue_t \<Rightarrow> nodes \<Rightarrow> addr \<Rightarrow> (waitqueue_t \<times> nodes) option" where
  "waitqueue_add_node queue ns node =
     (if in_queue (ns node) then None
      else do {
        let ns = node_upd node (\<lambda>n. n\<lparr> in_queue := True \<rparr>) ns;
        if (case first_node queue of None \<Rightarrow> True
            | Some f \<Rightarrow> wakeup_time (ns node) < wakeup_time (ns f))
        then do {
          let ns = node_upd node (\<lambda>n. n\<lparr> wn_prev := None, wn_next := first_node queue \<rparr>) ns;
          let queue = queue\<lparr> first_node := Some node \<rparr>;
          case wn_next (ns node) of
            Some next \<Rightarrow>
              if last_node queue = None then None
              else Some (queue, node_upd next (\<lambda>n. n\<lparr> wn_prev := Some node \<rparr>) ns)
          | None \<Rightarrow>
              if last_node queue \<noteq> None then None
              else Some (queue\<lparr> last_node := Some node \<rparr>, ns) }
        else do {
          current \<leftarrow> first_node queue;
          add_node_loop node current queue ns } })"

definition waitqueue_add_node_tail ::
    "waitqueue_t \<Rightarrow> nodes \<Rightarrow> addr \<Rightarrow> (waitqueue_t \<times> nodes) option" where
  "waitqueue_add_node_tail queue ns node =
     (if in_queue (ns node) then None
      else do {
        let ns = node_upd node (\<lambda>n. n\<lparr> in_queue := True \<rparr>) ns;
        case first_node queue of
          None \<Rightarrow>
            if last_node queue \<noteq> None then None
            else Some (queue\<lparr> first_node := Some node, last_node := Some node \<rparr>,
                       node_upd node (\<lambda>n. n\<lparr> wn_prev := None, wn_next := None \<rparr>) ns)
        | Some _ \<Rightarrow> do {
            l \<leftarrow> last_node queue;
            let ns = node_upd node (\<lambda>n. n\<lparr> wn_next := None, wn_prev := Some l \<rparr>) ns;
            let ns = node_upd l (\<lambda>n. n\<lparr> wn_next := Some node \<rparr>) ns;
            Some (queue\<lparr> last_node := Some node \<rparr>, ns) } })"

definition waitqueue_remove_node ::
    "waitqueue_t \<Rightarrow> nodes \<Rightarrow> addr \<Rightarrow> (waitqueue_t \<times> nodes) option" where
  "waitqueue_remove_node queue ns node =
     (if \<not> in_queue (ns node) then
        if wn_prev (ns node) = None \<and> wn_next (ns node) = None then Some (queue, ns) else None
      else do {
        queue \<leftarrow>
          (if first_node queue = Some node then
             if wn_prev (ns node) = None then Some (queue\<lparr> first_node := wn_next (ns node) \<rparr>)
             else None
           else Some queue);
        queue \<leftarrow>
          (if last_node queue = Some node then
             if wn_next (ns node) = None then Some (queue\<lparr> last_node := wn_prev (ns node) \<rparr>)
             else None
           else Some queue);
        let ns = (case wn_next (ns node) of None \<Rightarrow> ns
                  | Some x \<Rightarrow> node_upd x (\<lambda>n. n\<lparr> wn_prev := wn_prev (ns node) \<rparr>) ns);
        let ns = (case wn_prev (ns node) of None \<Rightarrow> ns
                  | Some x \<Rightarrow> node_upd x (\<lambda>n. n\<lparr> wn_next := wn_next (ns node) \<rparr>) ns);
        let ns = node_upd node (\<lambda>n. n\<lparr> wn_prev := None, wn_next := None, in_queue := False \<rparr>) ns;
        Some (queue, ns) })"

text \<open>The wake-up of one thread node.\<close>

definition wake_node ::
    "(int \<Rightarrow> vptr) \<Rightarrow> int \<Rightarrow> sched_t \<Rightarrow> sched_t option" where
  "wake_node thr tid s = (case thr tid of None \<Rightarrow> Some s | Some t \<Rightarrow> wake_thread t s)"

definition clear_node :: "waitnode_t \<Rightarrow> waitnode_t" where
  "clear_node n = n\<lparr> wn_prev := None, wn_next := None, in_queue := False \<rparr>"

partial_function (option) wake_up_loop ::
    "(int \<Rightarrow> vptr) \<Rightarrow> u64 \<Rightarrow> vptr \<Rightarrow> vptr \<Rightarrow> nodes \<Rightarrow> sched_t
     \<Rightarrow> (vptr \<times> vptr \<times> nodes \<times> sched_t) option" where
  "wake_up_loop thr now callbacks node ns s =
     (case node of
        None \<Rightarrow> Some (callbacks, None, ns, s)
      | Some n \<Rightarrow>
          if wakeup_time (ns n) \<le> now then do {
            let next = wn_next (ns n);
            (case wn_type (ns n) of
               WAIT_THREAD tid \<Rightarrow> do {
                 s \<leftarrow> wake_node thr tid s;
                 wake_up_loop thr now callbacks next (node_upd n clear_node ns) s }
             | WAIT_CALLBACK _ _ \<Rightarrow>
                 wake_up_loop thr now (Some n) next
                   (node_upd n (\<lambda>m. m\<lparr> in_queue := False, wn_next := callbacks \<rparr>) ns) s) }
          else Some (callbacks, Some n, ns, s))"

text \<open>The update of the queue after a walk that stopped at \<open>node\<close>.\<close>

definition advance_queue ::
    "waitqueue_t \<Rightarrow> vptr \<Rightarrow> nodes \<Rightarrow> waitqueue_t \<times> nodes" where
  "advance_queue queue node ns =
     (let queue = queue\<lparr> first_node := node \<rparr> in
      case first_node queue of
        Some f \<Rightarrow> (queue, node_upd f (\<lambda>m. m\<lparr> wn_prev := None \<rparr>) ns)
      | None \<Rightarrow> (queue\<lparr> last_node := None \<rparr>, ns))"

text \<open>
  Firing the callbacks. \<open>fire callback data\<close> is the effect of the callback on the queue, the
  nodes and the scheduler; the next pointer is read before the call.
\<close>

type_synonym wait_world = "waitqueue_t \<times> nodes \<times> sched_t"

partial_function (option) fire_callbacks ::
    "(addr \<Rightarrow> addr \<Rightarrow> wait_world \<Rightarrow> wait_world option) \<Rightarrow> vptr \<Rightarrow> wait_world \<Rightarrow> wait_world option" where
  "fire_callbacks fire callbacks w =
     (case callbacks of
        None \<Rightarrow> Some w
      | Some c \<Rightarrow> do {
          let callbacks = wn_next (fst (snd w) c);
          (case wn_type (fst (snd w) c) of
             WAIT_THREAD _ \<Rightarrow> None
           | WAIT_CALLBACK callback data \<Rightarrow> do {
               w \<leftarrow> fire callback data w;
               fire_callbacks fire callbacks w }) })"

definition waitqueue_wake_up ::
    "(int \<Rightarrow> vptr) \<Rightarrow> (addr \<Rightarrow> addr \<Rightarrow> wait_world \<Rightarrow> wait_world option) \<Rightarrow> u64 \<Rightarrow> wait_world
     \<Rightarrow> wait_world option" where
  "waitqueue_wake_up thr fire now w = do {
     let (queue, ns, s) = w;
     s \<leftarrow> scheduler_lock s;
     (callbacks, node, ns, s) \<leftarrow> wake_up_loop thr now None (first_node queue) ns s;
     let (queue, ns) = advance_queue queue node ns;
     s \<leftarrow> scheduler_unlock s;
     fire_callbacks fire callbacks (queue, ns, s) }"

partial_function (option) wake_up_head_loop ::
    "(int \<Rightarrow> vptr) \<Rightarrow> nat \<Rightarrow> vptr \<Rightarrow> nodes \<Rightarrow> sched_t \<Rightarrow> (vptr \<times> nodes \<times> sched_t) option" where
  "wake_up_head_loop thr cnt node ns s =
     (case node of
        None \<Rightarrow> Some (None, ns, s)
      | Some n \<Rightarrow>
          if cnt > 0 then
            (case wn_type (ns n) of
               WAIT_CALLBACK _ _ \<Rightarrow> None
             | WAIT_THREAD tid \<Rightarrow> do {
                 s \<leftarrow> wake_node thr tid s;
                 let next = wn_next (ns n);
                 wake_up_head_loop thr (cnt - 1) next (node_upd n clear_node ns) s })
          else Some (Some n, ns, s))"

definition waitqueue_wake_up_head ::
    "(int \<Rightarrow> vptr) \<Rightarrow> nat \<Rightarrow> wait_world \<Rightarrow> wait_world option" where
  "waitqueue_wake_up_head thr cnt w = do {
     let (queue, ns, s) = w;
     if cnt = 0 then None
     else do {
       (node, ns, s) \<leftarrow> wake_up_head_loop thr cnt (first_node queue) ns s;
       let (queue, ns) = advance_queue queue node ns;
       Some (queue, ns, s) } }"

partial_function (option) wake_up_all_loop ::
    "(int \<Rightarrow> vptr) \<Rightarrow> vptr \<Rightarrow> nodes \<Rightarrow> sched_t \<Rightarrow> (nodes \<times> sched_t) option" where
  "wake_up_all_loop thr node ns s =
     (case node of
        None \<Rightarrow> Some (ns, s)
      | Some n \<Rightarrow>
          (case wn_type (ns n) of
             WAIT_CALLBACK _ _ \<Rightarrow> None
           | WAIT_THREAD tid \<Rightarrow> do {
               s \<leftarrow> wake_node thr tid s;
               let next = wn_next (ns n);
               wake_up_all_loop thr next (node_upd n clear_node ns) s }))"

definition waitqueue_wake_up_all :: "(int \<Rightarrow> vptr) \<Rightarrow> wait_world \<Rightarrow> wait_world option" where
  "waitqueue_wake_up_all thr w = do {
     let (queue, ns, s) = w;
     (ns, s) \<leftarrow> wake_up_all_loop thr (first_node queue) ns s;
     Some (queue\<lparr> first_node := None, last_node := None \<rparr>, ns, s) }"

definition waitqueue_is_empty :: "waitqueue_t \<Rightarrow> bool option" where
  "waitqueue_is_empty queue =
     (case first_node queue of
        None \<Rightarrow> if last_node queue = None then Some True else None
      | Some _ \<Rightarrow> if last_node queue \<noteq> None then Some False else None)"

definition init_waitqueue :: waitqueue_t where
  "init_waitqueue = \<lparr> first_node = None, last_node = None \<rparr>"

section \<open>Timers\<close>

text \<open>A timer is its wait node on the sleep queue.\<close>

definition timer_init :: "addr \<Rightarrow> addr \<Rightarrow> addr \<Rightarrow> nodes \<Rightarrow> nodes" where
  "timer_init node callback data ns = ns(node := \<lparr> wn_type = WAIT_CALLBACK callback data,
     wakeup_time = 0, in_queue = False, wn_prev = None, wn_next = None \<rparr>)"

definition timer_setup :: "addr \<Rightarrow> u64 \<Rightarrow> wait_world \<Rightarrow> wait_world option" where
  "timer_setup node expire_time w = do {
     let (sleep_queue, ns, s) = w;
     s \<leftarrow> scheduler_lock s;
     (sleep_queue, ns) \<leftarrow> (if in_queue (ns node) then waitqueue_remove_node sleep_queue ns node
                           else Some (sleep_queue, ns));
     let ns = node_upd node (\<lambda>n. n\<lparr> wakeup_time := expire_time \<rparr>) ns;
     (sleep_queue, ns) \<leftarrow> waitqueue_add_node sleep_queue ns node;
     s \<leftarrow> scheduler_unlock s;
     Some (sleep_queue, ns, s) }"

definition timer_cancel :: "addr \<Rightarrow> wait_world \<Rightarrow> wait_world option" where
  "timer_cancel node w = do {
     let (sleep_queue, ns, s) = w;
     s \<leftarrow> scheduler_lock s;
     (sleep_queue, ns) \<leftarrow> (if in_queue (ns node) then waitqueue_remove_node sleep_queue ns node
                           else Some (sleep_queue, ns));
     s \<leftarrow> scheduler_unlock s;
     Some (sleep_queue, ns, s) }"

section \<open>Doubly linked segments\<close>

text \<open>
  \<open>seg nx pv prv p xs l q\<close>: from the pointer \<open>p\<close> the nodes \<open>xs\<close> follow each other, linked in both
  directions; the first points back to \<open>prv\<close>, the last is \<open>l\<close> and points on to \<open>q\<close>.
\<close>

primrec seg :: "(addr \<Rightarrow> vptr) \<Rightarrow> (addr \<Rightarrow> vptr) \<Rightarrow> vptr \<Rightarrow> vptr \<Rightarrow> addr list \<Rightarrow> vptr \<Rightarrow> vptr \<Rightarrow> bool" where
  "seg nx pv prv p [] l q = (p = q \<and> prv = l)"
| "seg nx pv prv p (x # xs) l q = (p = Some x \<and> pv x = prv \<and> seg nx pv (Some x) (nx x) xs l q)"

lemma seg_append:
  "seg nx pv prv p (xs @ ys) l q = (\<exists>m r. seg nx pv prv p xs m r \<and> seg nx pv m r ys l q)"
  by (induction xs arbitrary: prv p) auto

lemma seg_cong:
  "(\<And>x. x \<in> set xs \<Longrightarrow> nx x = nx' x) \<Longrightarrow> (\<And>x. x \<in> set xs \<Longrightarrow> pv x = pv' x) \<Longrightarrow>
   seg nx pv prv p xs l q = seg nx' pv' prv p xs l q"
  by (induction xs arbitrary: prv p) auto

lemma seg_chain: "seg nx pv prv p xs l None \<Longrightarrow> chain nx p xs"
  by (induction xs arbitrary: prv p) auto

lemma seg_last: "seg nx pv prv p xs l q \<Longrightarrow> l = (if xs = [] then prv else Some (last xs))"
  by (induction xs arbitrary: prv p) auto

lemma seg_first: "seg nx pv prv p (x # xs) l q \<Longrightarrow> p = Some x"
  by simp

lemma seg_empty: "seg nx pv prv None xs l None \<Longrightarrow> xs = []"
  by (cases xs) auto

abbreviation wnx :: "nodes \<Rightarrow> addr \<Rightarrow> vptr" where
  "wnx ns \<equiv> \<lambda>n. wn_next (ns n)"

abbreviation wpv :: "nodes \<Rightarrow> addr \<Rightarrow> vptr" where
  "wpv ns \<equiv> \<lambda>n. wn_prev (ns n)"

lemma node_upd_same [simp]: "node_upd n f ns n = f (ns n)"
  by (simp add: node_upd_def)

lemma node_upd_other [simp]: "m \<noteq> n \<Longrightarrow> node_upd n f ns m = ns m"
  by (simp add: node_upd_def)

text \<open>The queue holds the nodes \<open>xs\<close>; every one of them is marked.\<close>

definition wq_rel :: "waitqueue_t \<Rightarrow> nodes \<Rightarrow> addr list \<Rightarrow> bool" where
  "wq_rel q ns xs \<longleftrightarrow> seg (wnx ns) (wpv ns) None (first_node q) xs (last_node q) None \<and>
     (\<forall>x \<in> set xs. in_queue (ns x))"

lemma wq_distinct: "wq_rel q ns xs \<Longrightarrow> distinct xs"
  unfolding wq_rel_def using seg_chain chain_distinct by blast

lemma wq_first: "wq_rel q ns xs \<Longrightarrow> first_node q = (case xs of [] \<Rightarrow> None | x # _ \<Rightarrow> Some x)"
  by (cases xs) (auto simp: wq_rel_def)

lemma wq_last: "wq_rel q ns xs \<Longrightarrow> last_node q = (if xs = [] then None else Some (last xs))"
  unfolding wq_rel_def using seg_last by blast

lemma wq_unmarked: "wq_rel q ns xs \<Longrightarrow> \<not> in_queue (ns n) \<Longrightarrow> n \<notin> set xs"
  by (auto simp: wq_rel_def)

text \<open>Two facts that every operation on a node in the middle of the list rests on: what the
  list looks like around a node, and that links outside the changed nodes stay.\<close>

lemma seg_around:
  assumes "seg nx pv None p (xs @ x # ys) l None"
  shows "pv x = (if xs = [] then None else Some (last xs))"
    "nx x = (case ys of [] \<Rightarrow> None | y # _ \<Rightarrow> Some y)"
    "p = (case xs of [] \<Rightarrow> Some x | y # _ \<Rightarrow> Some y)"
    "l = (if ys = [] then Some x else Some (last ys))"
proof -
  obtain m r where mr: "seg nx pv None p xs m r" "seg nx pv m r (x # ys) l None"
    using assms by (auto simp: seg_append)
  show "pv x = (if xs = [] then None else Some (last xs))" using mr seg_last [OF mr(1)] by simp
  show "nx x = (case ys of [] \<Rightarrow> None | y # _ \<Rightarrow> Some y)" using mr(2) by (cases ys) auto
  show "p = (case xs of [] \<Rightarrow> Some x | y # _ \<Rightarrow> Some y)" using mr by (cases xs) auto
  show "l = (if ys = [] then Some x else Some (last ys))" using seg_last [OF mr(2)] by simp
qed

text \<open>Linking a node between two parts of a list.\<close>

lemma seg_insert:
  assumes s: "seg nx pv None p (xs @ ys) l None" and n: "n \<notin> set (xs @ ys)"
    and d: "distinct (xs @ ys)"
    and nx': "nx' n = (case ys of [] \<Rightarrow> None | y # _ \<Rightarrow> Some y)"
      "\<And>x. x \<in> set (xs @ ys) \<Longrightarrow> nx' x = (if xs \<noteq> [] \<and> x = last xs then Some n else nx x)"
    and pv': "pv' n = (if xs = [] then None else Some (last xs))"
      "\<And>x. x \<in> set (xs @ ys) \<Longrightarrow> pv' x = (if ys \<noteq> [] \<and> x = hd ys then Some n else pv x)"
  shows "seg nx' pv' None (case xs of [] \<Rightarrow> Some n | y # _ \<Rightarrow> Some y) (xs @ n # ys)
    (if ys = [] then Some n else l) None"
proof -
  obtain m r where mr: "seg nx pv None p xs m r" "seg nx pv m r ys l None"
    using s by (auto simp: seg_append)
  have r: "r = (case ys of [] \<Rightarrow> None | y # _ \<Rightarrow> Some y)" using mr(2) by (cases ys) auto
  have right: "seg nx' pv' (Some n) (nx' n) ys (if ys = [] then Some n else l) None"
  proof (cases ys)
    case (Cons y zs)
    have nz: "nx' z = nx z" if "z \<in> set ys" for z
      using that nx'(2) [of z] d last_in_set [of xs] by (auto simp: disjoint_iff)
    moreover have "pv' z = pv z" if "z \<in> set zs" for z
      using that pv'(2) [of z] Cons d by auto
    ultimately have "seg nx' pv' (Some y) (nx y) zs l None"
      using mr(2) Cons seg_cong [of zs nx' nx pv' pv] by simp
    then show ?thesis using Cons nx'(1) nz [of y] pv'(2) [of y] by simp
  qed (simp add: nx'(1))
  have left: "seg nx' pv' None (case xs of [] \<Rightarrow> Some n | y # _ \<Rightarrow> Some y) xs
      (if xs = [] then None else Some (last xs)) (Some n)"
  proof (cases xs rule: rev_cases)
    case (snoc us u)
    have pz: "pv' z = pv z" if "z \<in> set xs" for z
      using that pv'(2) [of z] d by (auto dest: hd_in_set split: if_splits)
    moreover have nz: "nx' z = nx z" if "z \<in> set us" for z
      using that nx'(2) [of z] snoc d by auto
    moreover obtain m' r' where u: "seg nx pv None p us m' r'" "r' = Some u" "pv u = m'"
      using mr(1) snoc by (auto simp: seg_append)
    ultimately have "seg nx' pv' None p us m' (Some u)"
      using seg_cong [of us nx' nx pv' pv] snoc by simp
    moreover have "nx' u = Some n" using nx'(2) [of u] snoc by simp
    moreover have "p = (case xs of [] \<Rightarrow> Some n | y # _ \<Rightarrow> Some y)"
      using mr(1) snoc by (cases us) auto
    ultimately show ?thesis using snoc u(3) pz [of u] by (auto simp: seg_append)
  qed simp
  show ?thesis unfolding seg_append using left right pv'(1) by auto
qed

text \<open>Unlinking a node.\<close>

lemma seg_remove:
  assumes s: "seg nx pv None p (xs @ n # ys) l None" and d: "distinct (xs @ n # ys)"
    and nx': "\<And>x. x \<in> set (xs @ ys) \<Longrightarrow>
      nx' x = (if xs \<noteq> [] \<and> x = last xs then (case ys of [] \<Rightarrow> None | y # _ \<Rightarrow> Some y) else nx x)"
    and pv': "\<And>x. x \<in> set (xs @ ys) \<Longrightarrow>
      pv' x = (if ys \<noteq> [] \<and> x = hd ys then (if xs = [] then None else Some (last xs)) else pv x)"
  shows "seg nx' pv' None (if xs = [] then (case ys of [] \<Rightarrow> None | y # _ \<Rightarrow> Some y) else p) (xs @ ys)
    (if ys = [] then (if xs = [] then None else Some (last xs)) else l) None"
proof -
  let ?m = "if xs = [] then None else Some (last xs)"
  let ?r = "case ys of [] \<Rightarrow> None | y # _ \<Rightarrow> Some y"
  obtain m r where mr: "seg nx pv None p xs m r" "seg nx pv (Some n) (nx n) ys l None"
    using s by (auto simp: seg_append)
  have right: "seg nx' pv' ?m ?r ys (if ys = [] then ?m else l) None"
  proof (cases ys)
    case (Cons y zs)
    have nz: "nx' z = nx z" if "z \<in> set ys" for z
      using that nx' [of z] d last_in_set [of xs] by (auto simp: disjoint_iff)
    moreover have "pv' z = pv z" if "z \<in> set zs" for z
      using that pv' [of z] Cons d by auto
    ultimately have "seg nx' pv' (Some y) (nx y) zs l None"
      using mr(2) Cons seg_cong [of zs nx' nx pv' pv] by simp
    then show ?thesis using Cons nz [of y] pv' [of y] by simp
  qed simp
  have left: "seg nx' pv' None (if xs = [] then ?r else p) xs ?m ?r"
  proof (cases xs rule: rev_cases)
    case (snoc us u)
    have pz: "pv' z = pv z" if "z \<in> set xs" for z
      using that pv' [of z] d by (auto dest: hd_in_set split: if_splits)
    moreover have nz: "nx' z = nx z" if "z \<in> set us" for z
      using that nx' [of z] snoc d by auto
    moreover obtain m' r' where u: "seg nx pv None p us m' r'" "r' = Some u" "pv u = m'"
      using mr(1) snoc by (auto simp: seg_append)
    ultimately have "seg nx' pv' None p us m' (Some u)"
      using seg_cong [of us nx' nx pv' pv] snoc by simp
    moreover have "nx' u = ?r" using nx' [of u] snoc by simp
    ultimately show ?thesis using snoc u(3) pz [of u] by (auto simp: seg_append)
  qed simp
  show ?thesis unfolding seg_append using left right by blast
qed

section \<open>Insertion and removal refine list operations\<close>

text \<open>
  The position that \<open>waitqueue_add_node\<close> chooses: before the first node, or before the first
  later one that is not the last of the queue, or at the end.
\<close>

fun wq_ins :: "(addr \<Rightarrow> u64) \<Rightarrow> addr \<Rightarrow> addr list \<Rightarrow> addr list" where
  "wq_ins key n [] = [n]"
| "wq_ins key n [x] = [x, n]"
| "wq_ins key n (x # y # ys) = (if key n < key x then n # x # y # ys else x # wq_ins key n (y # ys))"

definition wq_insert :: "(addr \<Rightarrow> u64) \<Rightarrow> addr \<Rightarrow> addr list \<Rightarrow> addr list" where
  "wq_insert key n xs =
     (case xs of [] \<Rightarrow> [n] | x # _ \<Rightarrow> if key n < key x then n # xs else wq_ins key n xs)"

text \<open>The links of a node between the parts \<open>us\<close> and \<open>vs\<close> of a queue.\<close>

definition link_node :: "addr list \<Rightarrow> addr \<Rightarrow> addr list \<Rightarrow> nodes \<Rightarrow> nodes" where
  "link_node us n vs ns m =
     (if m = n then (ns n)\<lparr> wn_prev := (if us = [] then None else Some (last us)),
                            wn_next := (case vs of [] \<Rightarrow> None | v # _ \<Rightarrow> Some v) \<rparr>
      else if us \<noteq> [] \<and> m = last us then (ns m)\<lparr> wn_next := Some n \<rparr>
      else if vs \<noteq> [] \<and> m = hd vs then (ns m)\<lparr> wn_prev := Some n \<rparr>
      else ns m)"

definition unlink_node :: "addr list \<Rightarrow> addr \<Rightarrow> addr list \<Rightarrow> nodes \<Rightarrow> nodes" where
  "unlink_node us n vs ns m =
     (if m = n then clear_node (ns n)
      else if us \<noteq> [] \<and> m = last us then (ns m)\<lparr> wn_next := (case vs of [] \<Rightarrow> None | v # _ \<Rightarrow> Some v) \<rparr>
      else if vs \<noteq> [] \<and> m = hd vs then (ns m)\<lparr> wn_prev := (if us = [] then None else Some (last us)) \<rparr>
      else ns m)"

text \<open>Nothing but the links and the mark of nodes changes.\<close>

definition same_nodes :: "addr set \<Rightarrow> nodes \<Rightarrow> nodes \<Rightarrow> bool" where
  "same_nodes A ns ns' \<longleftrightarrow> (\<forall>m. wn_type (ns' m) = wn_type (ns m) \<and>
     wakeup_time (ns' m) = wakeup_time (ns m)) \<and> (\<forall>m. m \<notin> A \<longrightarrow> ns' m = ns m)"

lemma last_hd_distinct: "distinct (us @ vs) \<Longrightarrow> us \<noteq> [] \<Longrightarrow> vs \<noteq> [] \<Longrightarrow> last us \<noteq> hd vs"
  by (metis last_in_set hd_in_set distinct_append disjoint_iff)

lemma link_node_rel:
  assumes rel: "wq_rel q ns (us @ vs)" and n: "n \<notin> set (us @ vs)"
    and ns1: "ns1 = node_upd n (\<lambda>m. m\<lparr> in_queue := True \<rparr>) ns"
    and q': "first_node q' = (case us of [] \<Rightarrow> Some n | u # _ \<Rightarrow> Some u)"
      "last_node q' = (if vs = [] then Some n else last_node q)"
  shows "wq_rel q' (link_node us n vs ns1) (us @ n # vs) \<and>
    same_nodes (insert n (set (us @ vs))) ns (link_node us n vs ns1)"
proof -
  have d: "distinct (us @ vs)" using rel by (rule wq_distinct)
  have s: "seg (wnx ns) (wpv ns) None (first_node q) (us @ vs) (last_node q) None"
    using rel by (simp add: wq_rel_def)
  have "seg (wnx (link_node us n vs ns1)) (wpv (link_node us n vs ns1)) None
      (case us of [] \<Rightarrow> Some n | u # _ \<Rightarrow> Some u) (us @ n # vs)
      (if vs = [] then Some n else last_node q) None"
    by (rule seg_insert [OF s n d])
      (use n d last_hd_distinct [OF d] in
        \<open>auto simp: link_node_def ns1 node_upd_def dest: hd_in_set last_in_set\<close>)
  moreover have "in_queue (link_node us n vs ns1 m)" if "m \<in> set (us @ n # vs)" for m
    using that rel by (auto simp: link_node_def ns1 node_upd_def wq_rel_def)
  moreover have "same_nodes (insert n (set (us @ vs))) ns (link_node us n vs ns1)"
    by (auto simp: same_nodes_def link_node_def ns1 node_upd_def)
  ultimately show ?thesis using q' by (simp add: wq_rel_def)
qed

lemma unlink_node_rel:
  assumes rel: "wq_rel q ns (us @ n # vs)"
    and q': "first_node q' = (if us = [] then (case vs of [] \<Rightarrow> None | v # _ \<Rightarrow> Some v) else first_node q)"
      "last_node q' = (if vs = [] then (if us = [] then None else Some (last us)) else last_node q)"
  shows "wq_rel q' (unlink_node us n vs ns) (us @ vs) \<and>
    same_nodes (insert n (set (us @ vs))) ns (unlink_node us n vs ns)"
proof -
  have d: "distinct (us @ n # vs)" using rel by (rule wq_distinct)
  have s: "seg (wnx ns) (wpv ns) None (first_node q) (us @ n # vs) (last_node q) None"
    using rel by (simp add: wq_rel_def)
  have "seg (wnx (unlink_node us n vs ns)) (wpv (unlink_node us n vs ns)) None
      (if us = [] then (case vs of [] \<Rightarrow> None | v # _ \<Rightarrow> Some v) else first_node q) (us @ vs)
      (if vs = [] then (if us = [] then None else Some (last us)) else last_node q) None"
    by (rule seg_remove [OF s d])
      (use d last_hd_distinct [of us vs] in
        \<open>auto simp: unlink_node_def dest: hd_in_set last_in_set\<close>)
  moreover have "in_queue (unlink_node us n vs ns m)" if "m \<in> set (us @ vs)" for m
    using that rel d by (auto simp: unlink_node_def wq_rel_def)
  moreover have "same_nodes (insert n (set (us @ vs))) ns (unlink_node us n vs ns)"
    by (auto simp: same_nodes_def unlink_node_def clear_node_def)
  ultimately show ?thesis using q' by (simp add: wq_rel_def)
qed

text \<open>The loop links the node at the position of \<open>wq_ins\<close>.\<close>

lemma add_node_loop_eq:
  assumes "seg (wnx ns) (wpv ns) None p (us @ c # cs) (last_node q) None"
    and "n \<notin> set (us @ c # cs)" and "distinct (us @ c # cs)"
    and "us \<noteq> [] \<or> \<not> wakeup_time (ns n) < wakeup_time (ns c)"
  shows "\<exists>as bs. c # cs = as @ bs \<and> us @ as \<noteq> [] \<and>
    wq_ins (\<lambda>m. wakeup_time (ns m)) n (c # cs) = as @ n # bs \<and>
    add_node_loop n c q ns = Some (q\<lparr> last_node := (if bs = [] then Some n else last_node q) \<rparr>,
      link_node (us @ as) n bs ns)"
  using assms
proof (induction cs arbitrary: us c)
  case Nil
  note around = seg_around [OF Nil.prems(1)]
  have "node_upd c (\<lambda>m. m\<lparr> wn_next := Some n \<rparr>)
      (node_upd n (\<lambda>m. m\<lparr> wn_prev := Some c, wn_next := None \<rparr>) ns) = link_node (us @ [c]) n [] ns"
    using Nil.prems(2) by (intro ext) (auto simp: link_node_def node_upd_def)
  then have "add_node_loop n c q ns =
      Some (q\<lparr> last_node := Some n \<rparr>, link_node (us @ [c]) n [] ns)"
    using around(2,4) by (subst add_node_loop.simps) (simp add: Let_def)
  then show ?case by - (rule exI [of _ "[c]"], rule exI [of _ "[]"], simp)
next
  case (Cons d cs)
  note around = seg_around [OF Cons.prems(1)]
  show ?case
  proof (cases "wakeup_time (ns n) < wakeup_time (ns c)")
    case True
    then have us: "us \<noteq> []" using Cons.prems(4) by blast
    let ?p = "last us"
    have ne: "?p \<noteq> n" "?p \<noteq> c" "c \<noteq> n"
      using us Cons.prems(2,3) last_in_set [OF us] by auto
    have "node_upd c (\<lambda>m. m\<lparr> wn_prev := Some n \<rparr>) (node_upd n (\<lambda>m. m\<lparr> wn_next := Some c \<rparr>)
        (node_upd n (\<lambda>m. m\<lparr> wn_prev := Some ?p \<rparr>)
        (node_upd ?p (\<lambda>m. m\<lparr> wn_next := Some n \<rparr>) ns))) = link_node us n (c # d # cs) ns"
      using ne us by (intro ext) (auto simp: link_node_def node_upd_def)
    then have "add_node_loop n c q ns = Some (q, link_node us n (c # d # cs) ns)"
      using around(1,2) True us ne by (subst add_node_loop.simps) (simp add: Let_def)
    then show ?thesis using True us by - (rule exI [of _ "[]"], rule exI [of _ "c # d # cs"], simp)
  next
    case False
    have "\<exists>as bs. d # cs = as @ bs \<and> (us @ [c]) @ as \<noteq> [] \<and>
      wq_ins (\<lambda>m. wakeup_time (ns m)) n (d # cs) = as @ n # bs \<and>
      add_node_loop n d q ns = Some (q\<lparr> last_node := (if bs = [] then Some n else last_node q) \<rparr>,
        link_node ((us @ [c]) @ as) n bs ns)"
      using Cons.prems by (intro Cons.IH) auto
    then obtain as bs where "d # cs = as @ bs"
      "wq_ins (\<lambda>m. wakeup_time (ns m)) n (d # cs) = as @ n # bs"
      "add_node_loop n d q ns = Some (q\<lparr> last_node := (if bs = [] then Some n else last_node q) \<rparr>,
        link_node (us @ c # as) n bs ns)" by auto
    moreover have "wq_ins (\<lambda>m. wakeup_time (ns m)) n (c # d # cs) = c # as @ n # bs"
      using calculation(2) False by simp
    moreover have "add_node_loop n c q ns = add_node_loop n d q ns"
      using around(2) False by (subst add_node_loop.simps) simp
    ultimately show ?thesis using False
      by - (rule exI [of _ "c # as"], rule exI [of _ bs], simp)
  qed
qed

lemma waitqueue_add_node_refines:
  assumes rel: "wq_rel q ns xs" and n: "\<not> in_queue (ns n)"
  shows "\<exists>q' ns'. waitqueue_add_node q ns n = Some (q', ns') \<and>
    wq_rel q' ns' (wq_insert (\<lambda>m. wakeup_time (ns m)) n xs) \<and>
    same_nodes (insert n (set xs)) ns ns'"
proof -
  let ?key = "\<lambda>m. wakeup_time (ns m)"
  define ns1 where "ns1 = node_upd n (\<lambda>m. m\<lparr> in_queue := True \<rparr>) ns"
  have key1: "(\<lambda>m. wakeup_time (ns1 m)) = ?key" by (auto simp: ns1_def node_upd_def)
  have out: "n \<notin> set xs" using rel n by (rule wq_unmarked)
  note d = wq_distinct [OF rel] and fst = wq_first [OF rel] and lst = wq_last [OF rel]
  have s: "seg (wnx ns1) (wpv ns1) None (first_node q) xs (last_node q) None"
  proof -
    have "wnx ns1 = wnx ns" "wpv ns1 = wpv ns" by (auto simp: ns1_def node_upd_def)
    then show ?thesis using rel by (simp add: wq_rel_def)
  qed
  show ?thesis
  proof (cases "xs = [] \<or> ?key n < ?key (hd xs)")
    case True
    let ?q = "q\<lparr> first_node := Some n, last_node := (if xs = [] then Some n else last_node q) \<rparr>"
    have "waitqueue_add_node q ns n = Some (?q, link_node [] n xs ns1)"
    proof (cases xs)
      case Nil
      have "node_upd n (\<lambda>m. m\<lparr> wn_prev := None, wn_next := None \<rparr>) ns1 = link_node [] n [] ns1"
        by (intro ext) (auto simp: link_node_def node_upd_def)
      then show ?thesis using n fst lst Nil
        by (simp add: waitqueue_add_node_def ns1_def [symmetric] Let_def)
    next
      case (Cons x ys)
      have "node_upd x (\<lambda>m. m\<lparr> wn_prev := Some n \<rparr>)
          (node_upd n (\<lambda>m. m\<lparr> wn_prev := None, wn_next := Some x \<rparr>) ns1) = link_node [] n xs ns1"
        using out Cons by (intro ext) (auto simp: link_node_def node_upd_def)
      moreover have "wakeup_time (ns1 n) < wakeup_time (ns1 x)"
        using True Cons fun_cong [OF key1, of n] fun_cong [OF key1, of x] by simp
      ultimately show ?thesis using n fst lst Cons
        by (simp add: waitqueue_add_node_def ns1_def [symmetric] Let_def)
    qed
    moreover have "wq_insert ?key n xs = [] @ n # xs"
      using True by (cases xs) (auto simp: wq_insert_def)
    ultimately show ?thesis
      using link_node_rel [of q ns "[]" xs n ns1 ?q] rel out ns1_def by auto
  next
    case False
    then obtain c cs where xs: "xs = c # cs" "\<not> ?key n < ?key c" by (cases xs) auto
    have lt: "\<not> wakeup_time (ns1 n) < wakeup_time (ns1 c)"
      using xs(2) fun_cong [OF key1, of n] fun_cong [OF key1, of c] by simp
    obtain as bs where ab: "c # cs = as @ bs" "as \<noteq> []" "wq_ins ?key n (c # cs) = as @ n # bs"
      "add_node_loop n c q ns1 = Some (q\<lparr> last_node := (if bs = [] then Some n else last_node q) \<rparr>,
        link_node as n bs ns1)"
      using add_node_loop_eq [of ns1 "first_node q" "[]" c cs q n] s out d xs key1 lt by auto
    have "waitqueue_add_node q ns n = add_node_loop n c q ns1"
      using n fst xs(1) lt by (simp add: waitqueue_add_node_def ns1_def [symmetric])
    moreover have "wq_insert ?key n xs = as @ n # bs" using xs ab(3) by (simp add: wq_insert_def)
    moreover have "first_node q = (case as of [] \<Rightarrow> Some n | u # _ \<Rightarrow> Some u)"
      using fst xs(1) ab(1,2) by (cases as) auto
    ultimately show ?thesis
      using link_node_rel [of q ns as bs n ns1
          "q\<lparr> last_node := (if bs = [] then Some n else last_node q) \<rparr>"]
        rel out ns1_def ab(1,4) xs(1) by auto
  qed
qed

lemma waitqueue_add_node_tail_refines:
  assumes rel: "wq_rel q ns xs" and n: "\<not> in_queue (ns n)"
  shows "\<exists>q' ns'. waitqueue_add_node_tail q ns n = Some (q', ns') \<and> wq_rel q' ns' (xs @ [n]) \<and>
    same_nodes (insert n (set xs)) ns ns'"
proof -
  define ns1 where "ns1 = node_upd n (\<lambda>m. m\<lparr> in_queue := True \<rparr>) ns"
  have out: "n \<notin> set xs" using rel n by (rule wq_unmarked)
  note fst = wq_first [OF rel] and lst = wq_last [OF rel]
  let ?q = "q\<lparr> first_node := (case xs of [] \<Rightarrow> Some n | u # _ \<Rightarrow> Some u), last_node := Some n \<rparr>"
  have "waitqueue_add_node_tail q ns n = Some (?q, link_node xs n [] ns1)"
  proof (cases xs rule: rev_cases)
    case Nil
    have "node_upd n (\<lambda>m. m\<lparr> wn_prev := None, wn_next := None \<rparr>) ns1 = link_node [] n [] ns1"
      by (intro ext) (auto simp: link_node_def node_upd_def)
    then show ?thesis using n fst lst Nil
      by (simp add: waitqueue_add_node_tail_def ns1_def [symmetric] Let_def)
  next
    case (snoc us l)
    have "node_upd l (\<lambda>m. m\<lparr> wn_next := Some n \<rparr>)
        (node_upd n (\<lambda>m. m\<lparr> wn_next := None, wn_prev := Some l \<rparr>) ns1) = link_node xs n [] ns1"
      using out snoc by (intro ext) (auto simp: link_node_def node_upd_def)
    moreover obtain f where "first_node q = Some f" "?q = q\<lparr> last_node := Some n \<rparr>"
      using fst snoc by (cases us) auto
    ultimately show ?thesis using n lst snoc
      by (simp add: waitqueue_add_node_tail_def ns1_def [symmetric] Let_def)
  qed
  then show ?thesis using link_node_rel [of q ns xs "[]" n ns1 ?q] rel out ns1_def by auto
qed

lemma waitqueue_remove_node_refines:
  assumes rel: "wq_rel q ns xs" and n: "n \<in> set xs"
  shows "\<exists>q' ns'. waitqueue_remove_node q ns n = Some (q', ns') \<and> wq_rel q' ns' (remove1 n xs) \<and>
    same_nodes (set xs) ns ns' \<and> ns' n = clear_node (ns n)"
proof -
  obtain us vs where xs: "xs = us @ n # vs" "n \<notin> set us" using n by (meson split_list_first)
  have d: "distinct xs" using rel by (rule wq_distinct)
  have s: "seg (wnx ns) (wpv ns) None (first_node q) (us @ n # vs) (last_node q) None"
    using rel xs by (simp add: wq_rel_def)
  note a = seg_around [OF s]
  define q' where "q' = \<lparr> first_node = (if us = [] then (case vs of [] \<Rightarrow> None | v # _ \<Rightarrow> Some v)
      else first_node q), last_node = (if vs = [] then (if us = [] then None else Some (last us))
      else last_node q) \<rparr>"
  have fn: "first_node q = Some n \<longleftrightarrow> us = []" using a(3) xs(2) by (cases us) auto
  have ln: "last_node q = Some n \<longleftrightarrow> vs = []"
    using a(4) d xs(1) last_in_set [of vs] by (auto split: if_splits)
  have ne: "us \<noteq> [] \<Longrightarrow> last us \<noteq> n" "vs \<noteq> [] \<Longrightarrow> hd vs \<noteq> n"
    "us \<noteq> [] \<Longrightarrow> vs \<noteq> [] \<Longrightarrow> last us \<noteq> hd vs"
    using d xs last_in_set [of us] hd_in_set [of vs] last_hd_distinct [of us vs] by auto
  have "in_queue (ns n)" using rel xs by (simp add: wq_rel_def)
  moreover have "\<And>m. m \<in> set xs \<Longrightarrow> True" by simp
  ultimately have "waitqueue_remove_node q ns n = Some (q', unlink_node us n vs ns)"
    using a fn ln ne xs(2)
    by (cases us rule: rev_cases; cases vs)
      (auto simp: waitqueue_remove_node_def Let_def q'_def unlink_node_def node_upd_def
        clear_node_def fun_eq_iff intro!: waitqueue_t.equality)
  moreover have "remove1 n xs = us @ vs" using xs by (simp add: remove1_append)
  moreover have "wq_rel q' (unlink_node us n vs ns) (us @ vs) \<and>
      same_nodes (insert n (set (us @ vs))) ns (unlink_node us n vs ns)"
    using unlink_node_rel [of q ns us n vs q'] rel xs(1) by (simp add: q'_def)
  ultimately show ?thesis using xs(1) by (simp add: unlink_node_def)
qed

section \<open>Waking up\<close>

text \<open>No id belongs to the idle thread (it is not in the thread table).\<close>

definition thr_ok :: "(int \<Rightarrow> vptr) \<Rightarrow> sched_t \<Rightarrow> bool" where
  "thr_ok thr s \<longleftrightarrow> (\<forall>tid. thr tid \<noteq> Some (idle_thread s))"

definition is_callback :: "waitnode_t \<Rightarrow> bool" where
  "is_callback n \<longleftrightarrow> (case wn_type n of WAIT_THREAD _ \<Rightarrow> False | WAIT_CALLBACK _ _ \<Rightarrow> True)"

text \<open>The threads of the nodes \<open>xs\<close>.\<close>

definition node_threads :: "(int \<Rightarrow> vptr) \<Rightarrow> nodes \<Rightarrow> addr list \<Rightarrow> addr set" where
  "node_threads thr ns xs = {t. \<exists>x \<in> set xs. \<exists>tid. wn_type (ns x) = WAIT_THREAD tid \<and> thr tid = Some t}"

text \<open>The lists only grow, at their ends and by the given threads, which are in them afterwards.\<close>

definition sched_grows :: "sched_t \<Rightarrow> addr list \<Rightarrow> addr list \<Rightarrow> addr set \<Rightarrow> sched_t \<Rightarrow> bool" where
  "sched_grows s rs es T s' \<longleftrightarrow> (\<exists>ys zs. sched_inv s' (rs @ ys) (es @ zs) \<and>
     T \<subseteq> set (rs @ ys @ es @ zs) \<and> set (ys @ zs) \<subseteq> T) \<and> sched_locked s' = sched_locked s \<and>
     idle_thread s' = idle_thread s \<and> current_thread s' = current_thread s"

lemma sched_grows_refl: "sched_inv s rs es \<Longrightarrow> sched_grows s rs es {} s"
  unfolding sched_grows_def by (intro conjI exI [of _ "[]"]) auto

lemma sched_grows_trans:
  assumes "sched_grows s rs es T s1"
    and "\<And>rs' es'. sched_inv s1 rs' es' \<Longrightarrow> sched_grows s1 rs' es' U s2"
  shows "sched_grows s rs es (T \<union> U) s2"
proof -
  obtain ys zs where yz: "sched_inv s1 (rs @ ys) (es @ zs)" "T \<subseteq> set (rs @ ys @ es @ zs)"
    "set (ys @ zs) \<subseteq> T" "sched_locked s1 = sched_locked s" "idle_thread s1 = idle_thread s"
    "current_thread s1 = current_thread s"
    using assms(1) by (auto simp: sched_grows_def)
  obtain ys' zs' where yz': "sched_inv s2 (rs @ ys @ ys') (es @ zs @ zs')"
    "U \<subseteq> set (rs @ ys @ ys' @ es @ zs @ zs')" "set (ys' @ zs') \<subseteq> U" "sched_locked s2 = sched_locked s1"
    "idle_thread s2 = idle_thread s1" "current_thread s2 = current_thread s1"
    using assms(2) [OF yz(1)] by (auto simp: sched_grows_def)
  have "T \<union> U \<subseteq> set (rs @ (ys @ ys') @ es @ zs @ zs')" "set ((ys @ ys') @ zs @ zs') \<subseteq> T \<union> U"
    using yz(2,3) yz'(2,3) by auto
  with yz yz' show ?thesis unfolding sched_grows_def
    by - (rule conjI, rule exI [of _ "ys @ ys'"], rule exI [of _ "zs @ zs'"], simp_all)
qed

lemma wake_node_grows:
  assumes "sched_inv s rs es" and "sched_locked s" and "thr_ok thr s"
  shows "\<exists>s'. wake_node thr tid s = Some s' \<and> sched_grows s rs es {t. thr tid = Some t} s'"
proof (cases "thr tid")
  case None
  with sched_grows_refl [OF assms(1)] show ?thesis by (simp add: wake_node_def)
next
  case (Some t)
  have "t \<noteq> idle_thread s" using assms(3) Some by (auto simp: thr_ok_def)
  from wake_thread_inv [OF assms(1,2) this] obtain s' xs ys where
    "wake_thread t s = Some s'" "sched_inv s' (rs @ xs) (es @ ys)" "sched_locked s'"
    "idle_thread s' = idle_thread s" "current_thread s' = current_thread s"
    "t \<in> set (rs @ xs @ es @ ys)" "set (xs @ ys) \<subseteq> {t}" by blast
  then have "sched_grows s rs es {t. thr tid = Some t} s'"
    unfolding sched_grows_def using Some assms(2)
    by - (rule conjI, rule exI [of _ xs], rule exI [of _ ys], auto)
  then show ?thesis using Some \<open>wake_thread t s = Some s'\<close> by (simp add: wake_node_def)
qed

lemma node_threads_cong:
  "(\<And>x. x \<in> set xs \<Longrightarrow> wn_type (ns x) = wn_type (ns' x)) \<Longrightarrow>
   node_threads thr ns xs = node_threads thr ns' xs"
  by (auto simp: node_threads_def)

lemma wake_up_head_loop_spec:
  assumes "chain (wnx ns) p xs" and "sched_inv s rs es" and "sched_locked s" and "thr_ok thr s"
    and "\<forall>x \<in> set xs. \<not> is_callback (ns x)"
  shows "\<exists>s'. wake_up_head_loop thr c p ns s =
      Some (case drop c xs of [] \<Rightarrow> None | y # _ \<Rightarrow> Some y,
            \<lambda>m. if m \<in> set (take c xs) then clear_node (ns m) else ns m, s') \<and>
    sched_grows s rs es (node_threads thr ns (take c xs)) s'"
  using assms
proof (induction xs arbitrary: p ns s rs es c)
  case Nil
  then show ?case
    using sched_grows_refl [OF Nil.prems(2)]
    by (subst wake_up_head_loop.simps) (simp add: node_threads_def)
next
  case (Cons x xs)
  show ?case
  proof (cases c)
    case 0
    then show ?thesis using Cons.prems(1) sched_grows_refl [OF Cons.prems(2)]
      by (subst wake_up_head_loop.simps) (simp add: node_threads_def)
  next
    case (Suc d)
    obtain tid where tid: "wn_type (ns x) = WAIT_THREAD tid"
      using Cons.prems(5) by (auto simp: is_callback_def split: wait_type.splits)
    obtain s1 where s1: "wake_node thr tid s = Some s1" "sched_grows s rs es {t. thr tid = Some t} s1"
      using wake_node_grows [OF Cons.prems(2-4)] by blast
    have x: "x \<notin> set xs" using chain_distinct [OF Cons.prems(1)] by simp
    let ?ns = "node_upd x clear_node ns"
    have same: "?ns m = ns m" if "m \<in> set xs" for m using that x by (cases "m = x") auto
    have "chain (wnx ?ns) (wn_next (ns x)) xs"
      using Cons.prems(1) chain_cong [of xs "wnx ?ns" "wnx ns"] same by simp
    moreover have lk: "sched_locked s1" "thr_ok thr s1"
      using s1(2) Cons.prems(3,4) by (auto simp: sched_grows_def thr_ok_def)
    moreover have "\<forall>x \<in> set xs. \<not> is_callback (?ns x)" using Cons.prems(5) same by simp
    ultimately have ih: "sched_inv s1 rs1 es1 \<Longrightarrow>
      \<exists>s'. wake_up_head_loop thr d (wn_next (ns x)) ?ns s1 =
      Some (case drop d xs of [] \<Rightarrow> None | y # _ \<Rightarrow> Some y,
            \<lambda>m. if m \<in> set (take d xs) then clear_node (?ns m) else ?ns m, s') \<and>
        sched_grows s1 rs1 es1 (node_threads thr ?ns (take d xs)) s'" for rs1 es1
      using Cons.IH by blast
    obtain rs1 es1 where i1: "sched_inv s1 rs1 es1" using s1(2) by (auto simp: sched_grows_def)
    obtain s' where s': "wake_up_head_loop thr d (wn_next (ns x)) ?ns s1 =
      Some (case drop d xs of [] \<Rightarrow> None | y # _ \<Rightarrow> Some y,
            \<lambda>m. if m \<in> set (take d xs) then clear_node (?ns m) else ?ns m, s')"
      using ih [OF i1] by blast
    have "sched_grows s1 rs2 es2 (node_threads thr ?ns (take d xs)) s'"
      if "sched_inv s1 rs2 es2" for rs2 es2 using ih [OF that] s' by auto
    from sched_grows_trans [OF s1(2) this]
    have g: "sched_grows s rs es ({t. thr tid = Some t} \<union> node_threads thr ?ns (take d xs)) s'" .
    have "node_threads thr ?ns (take d xs) = node_threads thr ns (take d xs)"
    proof (rule node_threads_cong)
      fix m assume "m \<in> set (take d xs)"
      then have "m \<in> set xs" by (rule in_set_takeD)
      then show "wn_type (?ns m) = wn_type (ns m)" using same by simp
    qed
    then have t: "{t. thr tid = Some t} \<union> node_threads thr ?ns (take d xs) =
        node_threads thr ns (take c (x # xs))"
      using tid Suc by (auto simp: node_threads_def)
    have e1: "(\<lambda>m. if m \<in> set (take d xs) then clear_node (?ns m) else ?ns m) =
        (\<lambda>m. if m \<in> set (take c (x # xs)) then clear_node (ns m) else ns m)"
      using x Suc by (intro ext) (auto simp: node_upd_def dest: in_set_takeD)
    have e2: "wake_up_head_loop thr c p ns s = wake_up_head_loop thr d (wn_next (ns x)) ?ns s1"
      using Cons.prems(1) Suc tid s1(1) by (subst wake_up_head_loop.simps) simp
    have e3: "drop c (x # xs) = drop d xs" using Suc by simp
    show ?thesis unfolding e2 s' e1 e3 using g unfolding t by blast
  qed
qed

text \<open>The queue after its first nodes are taken off.\<close>

lemma advance_queue_rel:
  assumes rel: "wq_rel q ns (us @ vs)"
    and ns': "\<And>m. m \<notin> set us \<Longrightarrow> ns' m = ns m"
  shows "wq_rel (fst (advance_queue q (case vs of [] \<Rightarrow> None | y # _ \<Rightarrow> Some y) ns'))
    (snd (advance_queue q (case vs of [] \<Rightarrow> None | y # _ \<Rightarrow> Some y) ns')) vs"
proof (cases vs)
  case Nil
  then show ?thesis by (simp add: advance_queue_def wq_rel_def)
next
  case (Cons y ys)
  have d: "distinct (us @ vs)" using rel by (rule wq_distinct)
  have out: "m \<notin> set us" if "m \<in> set vs" for m using d that by auto
  obtain m r where "seg (wnx ns) (wpv ns) m r (y # ys) (last_node q) None"
    using rel Cons by (auto simp: wq_rel_def seg_append)
  then have s: "seg (wnx ns) (wpv ns) (Some y) (wnx ns y) ys (last_node q) None" by simp
  let ?ns = "node_upd y (\<lambda>m. m\<lparr> wn_prev := None \<rparr>) ns'"
  have "?ns z = ns z" if "z \<in> set ys" for z
    using that d Cons ns' out by (cases "z = y") auto
  then have "seg (wnx ?ns) (wpv ?ns) (Some y) (wnx ns y) ys (last_node q) None"
    using s seg_cong [of ys "wnx ?ns" "wnx ns" "wpv ?ns" "wpv ns"] by simp
  moreover have "in_queue (?ns z)" if "z \<in> set vs" for z
    using that rel ns' [OF out [OF that]] by (cases "z = y") (auto simp: wq_rel_def)
  ultimately show ?thesis
    using Cons ns' out by (simp add: advance_queue_def wq_rel_def)
qed

lemma waitqueue_wake_up_head_spec:
  assumes rel: "wq_rel q ns xs" and "sched_inv s rs es" and "sched_locked s" and "thr_ok thr s"
    and "\<forall>x \<in> set xs. \<not> is_callback (ns x)" and "0 < c"
  shows "\<exists>q' ns' s'. waitqueue_wake_up_head thr c (q, ns, s) = Some (q', ns', s') \<and>
    wq_rel q' ns' (drop c xs) \<and> sched_grows s rs es (node_threads thr ns (take c xs)) s' \<and>
    (\<forall>m. m \<notin> set (drop c xs) \<longrightarrow> ns' m = (if m \<in> set (take c xs) then clear_node (ns m) else ns m)) \<and>
    (\<forall>m. wn_type (ns' m) = wn_type (ns m))"
proof -
  have ch: "chain (wnx ns) (first_node q) xs" using rel seg_chain by (auto simp: wq_rel_def)
  let ?ns = "\<lambda>m. if m \<in> set (take c xs) then clear_node (ns m) else ns m"
  let ?p = "case drop c xs of [] \<Rightarrow> None | y # _ \<Rightarrow> Some y"
  obtain s' where s': "wake_up_head_loop thr c (first_node q) ns s = Some (?p, ?ns, s')"
    "sched_grows s rs es (node_threads thr ns (take c xs)) s'"
    using wake_up_head_loop_spec [OF ch assms(2-5)] by blast
  have "wq_rel (fst (advance_queue q ?p ?ns)) (snd (advance_queue q ?p ?ns)) (drop c xs)"
    by (rule advance_queue_rel [of q ns "take c xs"]) (use rel in auto)
  moreover have "snd (advance_queue q ?p ?ns) m = ?ns m" if "m \<notin> set (drop c xs)" for m
    using that by (cases "drop c xs") (auto simp: advance_queue_def node_upd_def)
  moreover have "wn_type (snd (advance_queue q ?p ?ns) m) = wn_type (ns m)" for m
    by (cases "drop c xs") (auto simp: advance_queue_def node_upd_def clear_node_def)
  ultimately show ?thesis using s' assms(6)
    by (auto simp: waitqueue_wake_up_head_def split: prod.splits)
qed

text \<open>Waking all is waking as many as there are.\<close>

lemma wake_up_all_loop_eq:
  "chain (wnx ns) p xs \<Longrightarrow> wake_up_all_loop thr p ns s =
     map_option snd (wake_up_head_loop thr (length xs) p ns s)"
proof (induction xs arbitrary: p ns s)
  case Nil
  then show ?case by (subst wake_up_all_loop.simps, subst wake_up_head_loop.simps) simp
next
  case (Cons x xs)
  have "x \<notin> set xs" using chain_distinct [OF Cons.prems] by simp
  then have "wnx (node_upd x clear_node ns) m = wnx ns m" if "m \<in> set xs" for m
    using that by (cases "m = x") auto
  then have ch: "chain (wnx (node_upd x clear_node ns)) (wn_next (ns x)) xs"
    using Cons.prems chain_cong [of xs "wnx (node_upd x clear_node ns)" "wnx ns"] by simp
  show ?case
    using Cons.prems Cons.IH [OF ch]
    by (subst wake_up_all_loop.simps, subst wake_up_head_loop.simps)
      (auto split: wait_type.splits bind_splits)
qed

lemma waitqueue_wake_up_all_spec:
  assumes rel: "wq_rel q ns xs" and "sched_inv s rs es" and "sched_locked s" and "thr_ok thr s"
    and "\<forall>x \<in> set xs. \<not> is_callback (ns x)"
  shows "\<exists>q' ns' s'. waitqueue_wake_up_all thr (q, ns, s) = Some (q', ns', s') \<and> wq_rel q' ns' [] \<and>
    sched_grows s rs es (node_threads thr ns xs) s' \<and>
    ns' = (\<lambda>m. if m \<in> set xs then clear_node (ns m) else ns m)"
proof -
  have ch: "chain (wnx ns) (first_node q) xs" using rel seg_chain by (auto simp: wq_rel_def)
  from wake_up_head_loop_spec [OF ch assms(2-5), of "length xs"]
  show ?thesis
    by (auto simp: waitqueue_wake_up_all_def wake_up_all_loop_eq [OF ch] wq_rel_def)
qed

text \<open>The timed wake-up: the nodes at the front whose time has come.\<close>

abbreviation due :: "u64 \<Rightarrow> nodes \<Rightarrow> addr list \<Rightarrow> addr list" where
  "due now ns xs \<equiv> takeWhile (\<lambda>x. wakeup_time (ns x) \<le> now) xs"

abbreviation later :: "u64 \<Rightarrow> nodes \<Rightarrow> addr list \<Rightarrow> addr list" where
  "later now ns xs \<equiv> dropWhile (\<lambda>x. wakeup_time (ns x) \<le> now) xs"

definition woken_nodes :: "addr set \<Rightarrow> nodes \<Rightarrow> nodes \<Rightarrow> bool" where
  "woken_nodes A ns ns' \<longleftrightarrow> same_nodes A ns ns' \<and> (\<forall>m \<in> A. \<not> in_queue (ns' m))"

lemma woken_nodes_step:
  assumes "woken_nodes A (node_upd x f ns) ns'" and "x \<notin> A"
    and "\<And>n. wn_type (f n) = wn_type n" "\<And>n. wakeup_time (f n) = wakeup_time n"
    "\<And>n. \<not> in_queue (f n)"
  shows "woken_nodes (insert x A) ns ns'"
proof -
  have same: "wn_type (ns' m) = wn_type (node_upd x f ns m)"
    "wakeup_time (ns' m) = wakeup_time (node_upd x f ns m)"
    "m \<notin> A \<Longrightarrow> ns' m = node_upd x f ns m" for m
    using assms(1) by (auto simp: woken_nodes_def same_nodes_def)
  have "wn_type (ns' m) = wn_type (ns m) \<and> wakeup_time (ns' m) = wakeup_time (ns m)" for m
    using same(1,2) [of m] assms(3,4) by (cases "m = x") auto
  moreover have "ns' m = ns m" if "m \<notin> insert x A" for m using same(3) [of m] that by auto
  moreover have "\<not> in_queue (ns' x)" using same(3) [of x] assms(2,5) by simp
  ultimately show ?thesis using assms(1) by (auto simp: woken_nodes_def same_nodes_def)
qed

lemma wake_up_loop_spec:
  assumes "chain (wnx ns) p xs" and "chain (wnx ns) cb cbs" and "set cbs \<inter> set xs = {}"
    and "sched_inv s rs es" and "sched_locked s" and "thr_ok thr s"
  shows "\<exists>cb' ns' s'. wake_up_loop thr now cb p ns s =
      Some (cb', case later now ns xs of [] \<Rightarrow> None | y # _ \<Rightarrow> Some y, ns', s') \<and>
    chain (wnx ns') cb' (rev (filter (\<lambda>x. is_callback (ns x)) (due now ns xs)) @ cbs) \<and>
    sched_grows s rs es (node_threads thr ns (due now ns xs)) s' \<and>
    woken_nodes (set (due now ns xs)) ns ns'"
  using assms
proof (induction xs arbitrary: p ns s rs es cb cbs)
  case Nil
  then show ?case
    using sched_grows_refl [OF Nil.prems(4)]
    by (subst wake_up_loop.simps) (simp add: node_threads_def woken_nodes_def same_nodes_def)
next
  case (Cons x xs)
  show ?case
  proof (cases "wakeup_time (ns x) \<le> now")
    case False
    then show ?thesis using Cons.prems(1,2) sched_grows_refl [OF Cons.prems(4)]
      by (subst wake_up_loop.simps) (simp add: node_threads_def woken_nodes_def same_nodes_def)
  next
    case True
    have x: "x \<notin> set xs" "x \<notin> set cbs"
      using chain_distinct [OF Cons.prems(1)] Cons.prems(3) by auto
    define f where "f = (if is_callback (ns x) then (\<lambda>m. m\<lparr> in_queue := False, wn_next := cb \<rparr>)
      else clear_node)"
    define cb1 where "cb1 = (if is_callback (ns x) then Some x else cb)"
    define cbs1 where "cbs1 = (if is_callback (ns x) then x # cbs else cbs)"
    let ?ns = "node_upd x f ns"
    let ?T = "{t. \<exists>tid. wn_type (ns x) = WAIT_THREAD tid \<and> thr tid = Some t}"
    have "\<exists>s1. sched_grows s rs es ?T s1 \<and>
        wake_up_loop thr now cb p ns s = wake_up_loop thr now cb1 (wnx ns x) ?ns s1"
    proof (cases "wn_type (ns x)")
      case (WAIT_THREAD tid)
      obtain s1 where "wake_node thr tid s = Some s1" "sched_grows s rs es {t. thr tid = Some t} s1"
        using wake_node_grows [OF Cons.prems(4-6)] by blast
      with WAIT_THREAD True Cons.prems(1) show ?thesis
        by (subst wake_up_loop.simps) (auto simp: f_def cb1_def is_callback_def)
    next
      case (WAIT_CALLBACK c d)
      with True Cons.prems(1) sched_grows_refl [OF Cons.prems(4)] show ?thesis
        by (subst wake_up_loop.simps) (auto simp: f_def cb1_def is_callback_def)
    qed
    then obtain s1 where s1: "sched_grows s rs es ?T s1"
      "wake_up_loop thr now cb p ns s = wake_up_loop thr now cb1 (wnx ns x) ?ns s1" by blast
    have same: "?ns m = ns m" if "m \<noteq> x" for m using that by simp
    have c1: "chain (wnx ?ns) (wnx ns x) xs"
      using Cons.prems(1) chain_cong [of xs "wnx ?ns" "wnx ns"] same x by fastforce
    have "chain (wnx ?ns) cb cbs"
      using Cons.prems(2) chain_cong [of cbs "wnx ?ns" "wnx ns"] same x by fastforce
    then have c2: "chain (wnx ?ns) cb1 cbs1"
      by (cases "is_callback (ns x)") (simp_all add: cb1_def cbs1_def f_def)
    have lk: "sched_locked s1" "thr_ok thr s1"
      using s1(1) Cons.prems(5,6) by (auto simp: sched_grows_def thr_ok_def)
    have dj: "set cbs1 \<inter> set xs = {}" using Cons.prems(3) x by (auto simp: cbs1_def)
    have due: "due now ?ns xs = due now ns xs" "later now ?ns xs = later now ns xs"
      using same x(1) by (metis (no_types, lifting) takeWhile_cong, metis (no_types, lifting) dropWhile_cong)
    have flt: "filter (\<lambda>x. is_callback (?ns x)) (due now ns xs) =
        filter (\<lambda>x. is_callback (ns x)) (due now ns xs)"
      by (rule filter_cong) (use x(1) same set_takeWhileD in metis)+
    have nt: "node_threads thr ?ns (due now ns xs) = node_threads thr ns (due now ns xs)"
      by (rule node_threads_cong) (use x(1) same set_takeWhileD in metis)
    obtain rs1 es1 where i1: "sched_inv s1 rs1 es1" using s1(1) by (auto simp: sched_grows_def)
    note ih = Cons.IH [OF c1 c2 dj _ lk, unfolded due flt nt]
    obtain cb' ns' s' where r: "wake_up_loop thr now cb1 (wnx ns x) ?ns s1 =
        Some (cb', case later now ns xs of [] \<Rightarrow> None | y # _ \<Rightarrow> Some y, ns', s')"
      "chain (wnx ns') cb' (rev (filter (\<lambda>x. is_callback (ns x)) (due now ns xs)) @ cbs1)"
      "woken_nodes (set (due now ns xs)) ?ns ns'"
      using ih [OF i1] by blast
    have "sched_grows s1 rs2 es2 (node_threads thr ns (due now ns xs)) s'"
      if "sched_inv s1 rs2 es2" for rs2 es2 using ih [OF that] r(1) by auto
    from sched_grows_trans [OF s1(1) this]
    have g: "sched_grows s rs es (?T \<union> node_threads thr ns (due now ns xs)) s'" .
    have T: "?T \<union> node_threads thr ns (due now ns xs) = node_threads thr ns (due now ns (x # xs))"
      using True by (auto simp: node_threads_def)
    have "x \<notin> set (due now ns xs)" using x(1) by (auto dest: set_takeWhileD)
    with r(3) have "woken_nodes (insert x (set (due now ns xs))) ns ns'"
      by (rule woken_nodes_step) (auto simp: f_def clear_node_def)
    then have w: "woken_nodes (set (due now ns (x # xs))) ns ns'" using True by simp
    have c: "chain (wnx ns') cb' (rev (filter (\<lambda>x. is_callback (ns x)) (due now ns (x # xs))) @ cbs)"
      using r(2) True by (simp add: cbs1_def split: if_splits)
    have l: "later now ns (x # xs) = later now ns xs" using True by simp
    show ?thesis unfolding s1(2) r(1) l using g w c unfolding T by blast
  qed
qed

lemma advance_queue_nodes:
  "snd (advance_queue q (case vs of [] \<Rightarrow> None | y # _ \<Rightarrow> Some y) ns) m =
     (if vs \<noteq> [] \<and> m = hd vs then (ns m)\<lparr> wn_prev := None \<rparr> else ns m)"
  by (cases vs) (auto simp: advance_queue_def node_upd_def)

lemma waitqueue_wake_up_spec:
  assumes rel: "wq_rel q ns xs" and "sched_inv s rs es" and "\<not> sched_locked s" and "thr_ok thr s"
  shows "\<exists>cb q' ns' s'. waitqueue_wake_up thr fire now (q, ns, s) = fire_callbacks fire cb (q', ns', s') \<and>
    wq_rel q' ns' (later now ns xs) \<and>
    chain (wnx ns') cb (rev (filter (\<lambda>x. is_callback (ns x)) (due now ns xs))) \<and>
    sched_grows s rs es (node_threads thr ns (due now ns xs)) s' \<and>
    (\<forall>m \<in> set (due now ns xs). \<not> in_queue (ns' m)) \<and>
    (\<forall>m. wn_type (ns' m) = wn_type (ns m) \<and> wakeup_time (ns' m) = wakeup_time (ns m))"
proof -
  have ch: "chain (wnx ns) (first_node q) xs" using rel seg_chain by (auto simp: wq_rel_def)
  let ?s = "s\<lparr> sched_locked := True \<rparr>" and ?due = "due now ns xs" and ?later = "later now ns xs"
  let ?p = "case ?later of [] \<Rightarrow> None | y # _ \<Rightarrow> Some y"
  have "sched_inv ?s rs es" "sched_locked ?s" "thr_ok thr ?s"
    using assms(2,4) by (simp_all add: thr_ok_def)
  from wake_up_loop_spec [OF ch _ _ this, of None "[]" now]
  obtain cb ns' s' where r: "wake_up_loop thr now None (first_node q) ns ?s = Some (cb, ?p, ns', s')"
    "chain (wnx ns') cb (rev (filter (\<lambda>x. is_callback (ns x)) ?due))"
    "sched_grows ?s rs es (node_threads thr ns ?due) s'" "woken_nodes (set ?due) ns ns'" by auto
  define q2 ns2 where "q2 = fst (advance_queue q ?p ns')" and "ns2 = snd (advance_queue q ?p ns')"
  have "wq_rel q2 ns2 ?later"
    unfolding q2_def ns2_def by (rule advance_queue_rel [of q ns ?due])
      (use rel r(4) in \<open>auto simp: woken_nodes_def same_nodes_def\<close>)
  moreover have d: "distinct (?due @ ?later)" using wq_distinct [OF rel] by simp
  moreover have ns2: "ns2 m = (if ?later \<noteq> [] \<and> m = hd ?later then (ns' m)\<lparr> wn_prev := None \<rparr> else ns' m)" for m
    unfolding ns2_def by (rule advance_queue_nodes)
  moreover have "chain (wnx ns2) cb (rev (filter (\<lambda>x. is_callback (ns x)) ?due))"
    using r(2) chain_cong [of _ "wnx ns2" "wnx ns'"] ns2 by simp
  moreover have "sched_grows s rs es (node_threads thr ns ?due) (s'\<lparr> sched_locked := False \<rparr>)"
    using r(3) assms(3) by (simp add: sched_grows_def)
  moreover have "waitqueue_wake_up thr fire now (q, ns, s) =
      fire_callbacks fire cb (q2, ns2, s'\<lparr> sched_locked := False \<rparr>)"
  proof -
    have "sched_locked s'" using r(3) by (simp add: sched_grows_def)
    then show ?thesis using assms(3) r(1)
      by (simp add: waitqueue_wake_up_def scheduler_lock_def scheduler_unlock_def q2_def ns2_def
          split: prod.splits)
  qed
  moreover have "\<not> in_queue (ns2 m)" if "m \<in> set ?due" for m
    using r(4) that by (auto simp: ns2 woken_nodes_def)
  moreover have "wn_type (ns2 m) = wn_type (ns m) \<and> wakeup_time (ns2 m) = wakeup_time (ns m)" for m
    using r(4) by (simp add: ns2 woken_nodes_def same_nodes_def)
  ultimately show ?thesis by blast
qed

section \<open>The order of the sleep queue\<close>

text \<open>
  A queue ordered by wake-up time stays ordered when the new node belongs in front of some
  node other than the last, or at the end. Between the last two nodes it is put at the wrong
  place.
\<close>

lemma wq_ins_sorted:
  assumes "sorted (map key xs)"
    and "\<not> (\<forall>x \<in> set (butlast xs). key x \<le> key n) \<or> xs = [] \<or> key (last xs) \<le> key n"
  shows "sorted (map key (wq_ins key n xs))"
  using assms
proof (induction key n xs rule: wq_ins.induct)
  case (2 key n x)
  then show ?case by auto
next
  case (3 key n x y ys)
  show ?case
  proof (cases "key n < key x")
    case True
    then show ?thesis using 3 by auto
  next
    case False
    have "sorted (map key (wq_ins key n (y # ys)))" using 3 False by (intro "3.IH") auto
    moreover have "set (wq_ins key n zs) = insert n (set zs)" for zs
      by (induction key n zs rule: wq_ins.induct) auto
    ultimately show ?thesis using False 3(2) by auto
  qed
qed simp

lemma wq_insert_sorted:
  assumes "sorted (map key xs)"
    and "length xs \<le> 1 \<or> (\<exists>x \<in> set (butlast xs). key n < key x) \<or> key (last xs) \<le> key n"
  shows "sorted (map key (wq_insert key n xs))"
proof (cases xs)
  case Nil
  then show ?thesis by (simp add: wq_insert_def)
next
  case (Cons x ys)
  show ?thesis
  proof (cases "key n < key x")
    case True
    then show ?thesis using assms(1) Cons by (auto simp: wq_insert_def)
  next
    case False
    have "sorted (map key (wq_ins key n xs))"
      by (rule wq_ins_sorted [OF assms(1)]) (use assms(2) False Cons in \<open>force simp: not_less\<close>)
    then show ?thesis using False Cons by (simp add: wq_insert_def)
  qed
qed

lemma set_wq_insert: "set (wq_insert key n xs) = insert n (set xs)"
proof -
  have "set (wq_ins key n zs) = insert n (set zs)" for zs
    by (induction key n zs rule: wq_ins.induct) auto
  then show ?thesis by (auto simp: wq_insert_def split: list.splits)
qed

text \<open>In an ordered queue the timed wake-up finds every node whose time has come.\<close>

lemma due_sorted:
  "sorted (map (\<lambda>x. wakeup_time (ns x)) xs) \<Longrightarrow>
   set (due now ns xs) = {x \<in> set xs. wakeup_time (ns x) \<le> now}"
  by (induction xs) fastforce+

section \<open>Properties\<close>



text \<open>C32: the timed wake-up takes exactly the nodes at the front whose time has come off the queue,
  leaves a well-formed queue with the rest, and puts each of their threads into the ready or the
  expired list; callbacks are fired for the callback nodes among them, with the scheduler lock
  released, the last of the queue first. On a queue ordered by time these are all the nodes whose
  time has come.\<close>

theorem waitqueue_wake_up_due:
  assumes "wq_rel q ns xs" and "sched_inv s rs es" and "\<not> sched_locked s" and "thr_ok thr s"
  shows "\<exists>cb q' ns' s' rs' es'.
    waitqueue_wake_up thr fire now (q, ns, s) = fire_callbacks fire cb (q', ns', s') \<and>
    wq_rel q' ns' (later now ns xs) \<and>
    chain (wnx ns') cb (rev (filter (\<lambda>x. is_callback (ns x)) (due now ns xs))) \<and>
    sched_inv s' rs' es' \<and> \<not> sched_locked s' \<and>
    node_threads thr ns (due now ns xs) \<subseteq> set (rs' @ es') \<and>
    (sorted (map (\<lambda>x. wakeup_time (ns x)) xs) \<longrightarrow>
       set (due now ns xs) = {x \<in> set xs. wakeup_time (ns x) \<le> now})"
proof -
  obtain cb q' ns' s' where r:
    "waitqueue_wake_up thr fire now (q, ns, s) = fire_callbacks fire cb (q', ns', s')"
    "wq_rel q' ns' (later now ns xs)"
    "chain (wnx ns') cb (rev (filter (\<lambda>x. is_callback (ns x)) (due now ns xs)))"
    "sched_grows s rs es (node_threads thr ns (due now ns xs)) s'"
    using waitqueue_wake_up_spec [OF assms, of fire now] by blast
  from r(4) obtain ys zs where "sched_inv s' (rs @ ys) (es @ zs)" "\<not> sched_locked s'"
    "node_threads thr ns (due now ns xs) \<subseteq> set ((rs @ ys) @ (es @ zs))"
    using assms(3) by (auto simp: sched_grows_def)
  with r due_sorted show ?thesis by blast
qed

theorem waitqueue_wake_up_due_witness:
  "\<exists>cb q' ns' s'. waitqueue_wake_up (\<lambda>_. None) (\<lambda>_ _ w. Some w) 7 (\<lparr> first_node = Some 3,
      last_node = Some 3 \<rparr>, \<lambda>_. \<lparr> wn_type = WAIT_THREAD 1, wakeup_time = 5, in_queue = True,
        wn_prev = None, wn_next = None \<rparr>,
      \<lparr> first_ready = None, last_ready = None, first_expired = None, last_expired = None,
        threads = (\<lambda>t. \<lparr> queue_next = None, t_state = THREAD_WAITING, in_scheduler = False,
          quantum = 0, exec_time = 0, cpu_time = 0, in_system = False, sys_time = 0, user_time = 0,
          prev_checkpoint = 0 \<rparr>),
        sched_locked = False, idle_thread = 0, idle_time = 0, current_thread = None \<rparr>) =
      fire_callbacks (\<lambda>_ _ w. Some w) cb (q', ns', s') \<and> wq_rel q' ns' []"
proof -
  let ?ns = "\<lambda>_. \<lparr> wn_type = WAIT_THREAD 1, wakeup_time = 5, in_queue = True,
        wn_prev = None, wn_next = None \<rparr>"
  let ?s = "\<lparr> first_ready = None, last_ready = None, first_expired = None, last_expired = None,
        threads = (\<lambda>t. \<lparr> queue_next = None, t_state = THREAD_WAITING, in_scheduler = False,
          quantum = 0, exec_time = 0, cpu_time = 0, in_system = False, sys_time = 0, user_time = 0,
          prev_checkpoint = 0 \<rparr>),
        sched_locked = False, idle_thread = 0, idle_time = 0, current_thread = None \<rparr>"
  have "wq_rel \<lparr> first_node = Some 3, last_node = Some 3 \<rparr> ?ns [3]" by (simp add: wq_rel_def)
  moreover have "sched_inv ?s [] []" by (simp add: sched_inv_def queue_ok_def)
  moreover have "thr_ok (\<lambda>_. None) ?s" by (simp add: thr_ok_def)
  ultimately show ?thesis
    using waitqueue_wake_up_due [of "\<lparr> first_node = Some 3, last_node = Some 3 \<rparr>" ?ns "[3]" ?s
      "[]" "[]" "\<lambda>_. None" "\<lambda>_ _ w. Some w" 7] by fastforce
qed

text \<open>\<open>waitqueue_add_node\<close> does not keep the queue ordered by wake-up time. Its search stops
  before the last node without comparing with it, so a node that belongs between the last two is put
  behind the last, and a timed wake-up then leaves it asleep although its time has come. For every
  ordered queue with at least two nodes and a new node due strictly before the last and not before any
  other, the insertion puts it last, and a wake-up at its time does not reach it.\<close>

theorem waitqueue_add_node_misplaces:
  assumes "wq_rel q ns xs" and "\<not> in_queue (ns n)" and "2 \<le> length xs"
    and "\<forall>x \<in> set (butlast xs). wakeup_time (ns x) \<le> wakeup_time (ns n)"
    and "wakeup_time (ns n) < wakeup_time (ns (last xs))"
  shows "\<exists>q' ns'. waitqueue_add_node q ns n = Some (q', ns') \<and> wq_rel q' ns' (xs @ [n]) \<and>
    \<not> sorted (map (\<lambda>x. wakeup_time (ns' x)) (xs @ [n])) \<and>
    n \<notin> set (due (wakeup_time (ns' n)) ns' (xs @ [n]))"
proof -
  let ?key = "\<lambda>m. wakeup_time (ns m)"
  have ins: "ys \<noteq> [] \<Longrightarrow> \<forall>x \<in> set (butlast ys). ?key x \<le> ?key n \<Longrightarrow> wq_ins ?key n ys = ys @ [n]" for ys
    by (induction ?key n ys rule: wq_ins.induct) (auto split: if_splits)
  obtain ys l where xs: "xs = ys @ [l]" using assms(3) by (cases xs rule: rev_cases) auto
  have l: "?key n < ?key l" "\<forall>x \<in> set ys. ?key x \<le> ?key n" using assms(4,5) xs by auto
  have "hd xs \<in> set (butlast xs)" using assms(3) xs by (cases ys) auto
  then have "wq_insert ?key n xs = xs @ [n]"
    using assms(3,4) ins [of xs] by (cases xs) (auto simp: wq_insert_def)
  then obtain q' ns' where r: "waitqueue_add_node q ns n = Some (q', ns')" "wq_rel q' ns' (xs @ [n])"
    "same_nodes (insert n (set xs)) ns ns'"
    using waitqueue_add_node_refines [OF assms(1,2)] by auto
  have key: "wakeup_time (ns' m) = ?key m" for m using r(3) by (simp add: same_nodes_def)
  have out: "n \<notin> set xs" using assms(1,2) by (rule wq_unmarked)
  have "due (?key n) ns' (ys @ l # [n]) = ys @ due (?key n) ns' (l # [n])"
    using l(2) key by (intro takeWhile_append2) auto
  then have "n \<notin> set (due (?key n) ns' (xs @ [n]))" using l(1) out by (simp add: xs key not_le)
  moreover have "\<not> sorted (map ?key (xs @ [n]))" using l(1) by (auto simp: xs sorted_append)
  ultimately show ?thesis using r(1,2) key by auto
qed

theorem waitqueue_add_node_misplaces_witness:
  "\<exists>q' ns'. waitqueue_add_node \<lparr> first_node = Some 1, last_node = Some 2 \<rparr>
      (\<lambda>m. \<lparr> wn_type = WAIT_THREAD 1, wakeup_time = (if m = 1 then 10 else if m = 2 then 30 else 20),
         in_queue = (m = 1 \<or> m = 2), wn_prev = (if m = 2 then Some 1 else None),
         wn_next = (if m = 1 then Some 2 else None) \<rparr>) 3 = Some (q', ns') \<and>
    wq_rel q' ns' [1, 2, 3] \<and> \<not> sorted (map (\<lambda>x. wakeup_time (ns' x)) [1, 2, 3])"
proof -
  let ?ns = "\<lambda>m. \<lparr> wn_type = WAIT_THREAD 1,
      wakeup_time = (if m = 1 then 10 else if m = 2 then 30 else 20),
      in_queue = (m = 1 \<or> m = 2), wn_prev = (if m = 2 then Some 1 else None),
      wn_next = (if m = 1 then Some 2 else None) \<rparr>"
  have "wq_rel \<lparr> first_node = Some 1, last_node = Some 2 \<rparr> ?ns [1, 2]" by (simp add: wq_rel_def)
  from waitqueue_add_node_misplaces [OF this, of 3] show ?thesis by auto
qed

end
