(* ===== verification/Kernel_Ids.thy ===== *)
theory Kernel_Ids
  imports Kernel_Prelude
begin

text \<open>
  Handing out ids. The kernel numbers its locks, memory regions and other objects with a counter and a
  loop that skips the ids that are still in a table (\<^verbatim>\<open>lock_context_insert\<close> in \<^verbatim>\<open>lock/context.c\<close>,
  \<^verbatim>\<open>memory_region_insert_global\<close> in \<^verbatim>\<open>mm/region.c\<close>). The theory holds the loop and shows that it ends with a
  free id as long as there is one.
\<close>

text \<open>A counter of a signed type with \<open>b\<close> non-negative values goes back to 0 when it becomes negative.\<close>

definition next_id_below :: "int \<Rightarrow> int \<Rightarrow> int" where
  "next_id_below b i = (if i + 1 \<ge> b then 0 else i + 1)"

partial_function (option) fresh_id_below :: "int \<Rightarrow> (int \<Rightarrow> 'a option) \<Rightarrow> int \<Rightarrow> (int \<times> int) option" where
  "fresh_id_below b tab n =
     (if tab n = None then Some (n, next_id_below b n) else fresh_id_below b tab (next_id_below b n))"

text \<open>The counters of type \<^verbatim>\<open>int\<close>, and the 64-bit \<^verbatim>\<open>ino_t\<close> of the root file system.\<close>

definition next_id :: "int \<Rightarrow> int" where
  "next_id = next_id_below 2147483648"

definition fresh_id :: "(int \<Rightarrow> 'a option) \<Rightarrow> int \<Rightarrow> (int \<times> int) option" where
  "fresh_id = fresh_id_below 2147483648"

definition next_ino :: "int \<Rightarrow> int" where
  "next_ino = next_id_below 9223372036854775808"

definition fresh_ino :: "(int \<Rightarrow> 'a option) \<Rightarrow> int \<Rightarrow> (int \<times> int) option" where
  "fresh_ino = fresh_id_below 9223372036854775808"

text \<open>From \<open>n\<close> on, the counter visits every id of the range; with a free id in the table the loop
  ends at a free one.\<close>

lemma fresh_below_run:
  assumes "\<forall>j < k. tab (n + int j) \<noteq> None" and "tab (n + int k) = None"
    and "0 \<le> n" and "n + int k < b"
  shows "fresh_id_below b tab n = Some (n + int k, next_id_below b (n + int k))"
  using assms
proof (induction k arbitrary: n)
  case 0
  then show ?case by (subst fresh_id_below.simps) simp
next
  case (Suc k)
  have taken: "tab n \<noteq> None" using Suc.prems(1) by (metis add_0_right int_ops(1) zero_less_Suc)
  have step: "next_id_below b n = n + 1" using Suc.prems(4) by (simp add: next_id_below_def)
  have sh: "n + 1 + int j = n + int (Suc j)" for j by simp
  have "fresh_id_below b tab (n + 1) = Some (n + 1 + int k, next_id_below b (n + 1 + int k))"
    by (rule Suc.IH) (use Suc.prems in \<open>auto simp: sh simp del: of_nat_Suc\<close>)
  then show ?case using taken step by (subst fresh_id_below.simps) (simp add: add.assoc)
qed

text \<open>Running off the top of the range and starting again at 0.\<close>

lemma fresh_below_wrap:
  assumes "\<forall>j. n \<le> j \<and> j < b \<longrightarrow> tab j \<noteq> None" and "0 \<le> n" and "n < b"
  shows "fresh_id_below b tab n = fresh_id_below b tab 0"
  using assms
proof (induction "nat (b - 1 - n)" arbitrary: n)
  case 0
  then have n: "n = b - 1" by simp
  moreover have "tab n \<noteq> None" using 0 n by auto
  ultimately show ?case by (subst fresh_id_below.simps) (auto simp: next_id_below_def)
next
  case (Suc k)
  then have n: "n + 1 < b" by simp
  have "fresh_id_below b tab (n + 1) = fresh_id_below b tab 0"
    by (rule Suc.hyps(1)) (use Suc.hyps(2) Suc.prems n in auto)
  moreover have "tab n \<noteq> None" using Suc.prems by simp
  moreover have "next_id_below b n = n + 1" using n by (simp add: next_id_below_def)
  ultimately show ?case by (subst fresh_id_below.simps) auto
qed

lemma first_free:
  assumes "tab (j :: int) = None" and "n \<le> j"
  obtains k where "\<forall>i < k. tab (n + int i) \<noteq> None" "tab (n + int k) = None" "n + int k \<le> j"
proof -
  let ?P = "\<lambda>k. tab (n + int k) = None"
  define m where "m = (LEAST k. ?P k)"
  have ex: "?P (nat (j - n))" using assms by simp
  then have "?P m" unfolding m_def by (rule LeastI)
  moreover have "\<forall>i < m. \<not> ?P i" unfolding m_def using not_less_Least by blast
  moreover have "m \<le> nat (j - n)" unfolding m_def using ex by (rule Least_le)
  then have "n + int m \<le> j" using assms(2) by linarith
  ultimately show ?thesis using that by blast
qed

lemma fresh_id_below_ok:
  assumes "tab j = None" and "0 \<le> j" and "j < b" and "0 \<le> n" and "n < b"
  shows "\<exists>i. fresh_id_below b tab n = Some (i, next_id_below b i) \<and> tab i = None \<and> 0 \<le> i \<and> i < b"
proof -
  have up: "\<exists>i. fresh_id_below b tab m = Some (i, next_id_below b i) \<and> tab i = None \<and> 0 \<le> i \<and> i < b"
    if free: "tab k = None" and range: "0 \<le> m" "m \<le> k" "k < b" for k m
  proof -
    obtain d where "\<forall>i < d. tab (m + int i) \<noteq> None" "tab (m + int d) = None" "m + int d \<le> k"
      using first_free [of tab k m] free range(2) by blast
    then show ?thesis using fresh_below_run [of d tab m b] range by auto
  qed
  show ?thesis
  proof (cases "\<exists>k. n \<le> k \<and> k < b \<and> tab k = None")
    case True
    then show ?thesis using up assms(4) by blast
  next
    case False
    then have "fresh_id_below b tab n = fresh_id_below b tab 0"
      using fresh_below_wrap [of n b tab] assms(4,5) by auto
    then show ?thesis using up [of j 0] assms(1-3) by simp
  qed
qed

lemmas fresh_id_ok = fresh_id_below_ok [of _ _ 2147483648, folded fresh_id_def next_id_def]
lemmas fresh_ino_ok = fresh_id_below_ok [of _ _ 9223372036854775808, folded fresh_ino_def next_ino_def]

end
