(* ===== verification/Kernel_Lock.thy ===== *)
theory Kernel_Lock
  imports Kernel_Waitqueue Kernel_Ids
begin

unbundle bit_operations_syntax

text \<open>
  The sleeping locks of \<^verbatim>\<open>source/kernel/src/lock/\<close>: lock contexts (\<^verbatim>\<open>context.c\<close>), waiting on a lock
  (\<^verbatim>\<open>common.c\<close>), mutexes (\<^verbatim>\<open>mutex.c\<close>), semaphores (\<^verbatim>\<open>semaphore.c\<close>) and condition variables
  (\<^verbatim>\<open>condition.c\<close>).

  A lock context is protected by its spinlock (\<open>ctx_locked\<close>), so a call runs without
  interference up to the point where the thread goes to sleep in \<^verbatim>\<open>sched_preempt\<close>, and from its
  wake-up to its return or next sleep. Each blocking function is therefore split at that point: its
  \<open>_start\<close> part runs from the call to the result \<open>Sleep\<close> or \<open>Return\<close>, its \<open>_resume\<close> part from the
  wake-up on. Any interleaving of such parts of different threads is a possible execution. The
  system time and the pending-signal flag are inputs of each part.

  The table of a context is a map from lock ids to locks; the hash table behind it is the
  subject of the theory of \<open>item_table\<close>. The wait node (and sleep node) of a waiting thread is
  on its stack: \<open>wnode\<close> and \<open>snode\<close> give its address.
\<close>

section \<open>Data\<close>

datatype lock_type = MUTEX | SEMAPHORE | CONDITION | RWLOCK

record mutex_t =
  m_flags :: u32
  recursive_count :: int
  holder :: int
  m_waiters :: waitqueue_t

record semaphore_t =
  s_count :: int
  initial_count :: int
  s_waiters :: waitqueue_t

record condition_t =
  c_waiters :: waitqueue_t

datatype lock_obj = Mutex mutex_t | Semaphore semaphore_t | Condition condition_t | Rwlock

fun type_of_lock :: "lock_obj \<Rightarrow> lock_type" where
  "type_of_lock (Mutex _) = MUTEX"
| "type_of_lock (Semaphore _) = SEMAPHORE"
| "type_of_lock (Condition _) = CONDITION"
| "type_of_lock Rwlock = RWLOCK"

fun waiters_of :: "lock_obj \<Rightarrow> waitqueue_t" where
  "waiters_of (Mutex m) = m_waiters m"
| "waiters_of (Semaphore s) = s_waiters s"
| "waiters_of (Condition c) = c_waiters c"
| "waiters_of Rwlock = init_waitqueue"

fun set_waiters :: "waitqueue_t \<Rightarrow> lock_obj \<Rightarrow> lock_obj" where
  "set_waiters q (Mutex m) = Mutex (m\<lparr> m_waiters := q \<rparr>)"
| "set_waiters q (Semaphore s) = Semaphore (s\<lparr> s_waiters := q \<rparr>)"
| "set_waiters q (Condition c) = Condition (c\<lparr> c_waiters := q \<rparr>)"
| "set_waiters q Rwlock = Rwlock"

record lock_world =
  ctx_locked :: bool
  next_lock_id :: int
  lock_table :: "int \<Rightarrow> lock_obj option"
  lw_nodes :: nodes
  lw_sched :: sched_t
  sleep_queue :: waitqueue_t
  blocking_semaphore :: "addr \<Rightarrow> int"

text \<open>What the locks need to know of threads: the id, the lookup by id, and the addresses of the
  two nodes.\<close>

record lock_env =
  tid :: "addr \<Rightarrow> int"
  thr :: "int \<Rightarrow> vptr"
  wnode :: "addr \<Rightarrow> addr"
  snode :: "addr \<Rightarrow> addr"

definition INFINITE_TIMEOUT :: u64 where
  "INFINITE_TIMEOUT = 18446744073709551615"

definition MUTEX_RECURSIVE :: u32 where
  "MUTEX_RECURSIVE = 1"

definition LOCK_IGNORE_SIGNAL :: u32 where
  "LOCK_IGNORE_SIGNAL = 1"

datatype 'a progress = Return "errno + 'a" | Sleep

section \<open>Lock contexts\<close>

definition ctx_lock :: "lock_world \<Rightarrow> lock_world option" where
  "ctx_lock w = (if ctx_locked w then None else Some (w\<lparr> ctx_locked := True \<rparr>))"

definition ctx_unlock :: "lock_world \<Rightarrow> lock_world option" where
  "ctx_unlock w = (if ctx_locked w then Some (w\<lparr> ctx_locked := False \<rparr>) else None)"

definition lock_context_get :: "lock_world \<Rightarrow> int \<Rightarrow> lock_obj option option" where
  "lock_context_get w i = (if ctx_locked w then Some (lock_table w i) else None)"

definition put_lock :: "int \<Rightarrow> lock_obj \<Rightarrow> lock_world \<Rightarrow> lock_world" where
  "put_lock i l w = w\<lparr> lock_table := (lock_table w)(i \<mapsto> l) \<rparr>"

definition lock_context_insert :: "lock_obj \<Rightarrow> lock_world \<Rightarrow> (int \<times> lock_world) option" where
  "lock_context_insert l w = do {
     w \<leftarrow> ctx_lock w;
     (i, n) \<leftarrow> fresh_id (lock_table w) (next_lock_id w);
     w \<leftarrow> ctx_unlock (put_lock i l (w\<lparr> next_lock_id := n \<rparr>));
     Some (i, w) }"

definition lock_context_remove ::
    "int \<Rightarrow> lock_type \<Rightarrow> lock_world \<Rightarrow> ((errno + lock_obj) \<times> lock_world) option" where
  "lock_context_remove i ty w = do {
     w \<leftarrow> ctx_lock w;
     let (r, w) = (case lock_table w i of
           None \<Rightarrow> (Inl EINVAL, w)
         | Some l \<Rightarrow> if type_of_lock l \<noteq> ty then (Inl EINVAL, w)
             else (Inr l, w\<lparr> lock_table := (lock_table w)(i := None) \<rparr>));
     w \<leftarrow> ctx_unlock w;
     Some (r, w) }"

section \<open>Waiting on a lock\<close>

definition sched_of :: "(sched_t \<Rightarrow> sched_t option) \<Rightarrow> lock_world \<Rightarrow> lock_world option" where
  "sched_of f w = map_option (\<lambda>s. w\<lparr> lw_sched := s \<rparr>) (f (lw_sched w))"

text \<open>\<^verbatim>\<open>spinlock( &scheduler_lock ); waitqueue_wake_up_head( q, n ); spinunlock( &scheduler_lock )\<close>
  on the waiters of a lock, and the same for \<^verbatim>\<open>waitqueue_wake_up_all\<close>.\<close>

definition wake_waiters ::
    "lock_env \<Rightarrow> nat option \<Rightarrow> waitqueue_t \<Rightarrow> lock_world \<Rightarrow> (waitqueue_t \<times> lock_world) option" where
  "wake_waiters e n q w = do {
     w \<leftarrow> sched_of scheduler_lock w;
     (q, ns, s) \<leftarrow> (case n of
         Some c \<Rightarrow> waitqueue_wake_up_head (thr e) c (q, lw_nodes w, lw_sched w)
       | None \<Rightarrow> waitqueue_wake_up_all (thr e) (q, lw_nodes w, lw_sched w));
     w \<leftarrow> sched_of scheduler_unlock (w\<lparr> lw_nodes := ns, lw_sched := s \<rparr>);
     Some (q, w) }"

text \<open>\<open>lock_wait_on\<close> up to the call of the scheduler, and from there on. The fields of the node that
  the code does not initialise keep what was on the stack.\<close>

definition lock_wait_on_start ::
    "lock_env \<Rightarrow> addr \<Rightarrow> int \<Rightarrow> lock_world \<Rightarrow> lock_world option" where
  "lock_wait_on_start e t i w = do {
     l \<leftarrow> lock_table w i;
     w \<leftarrow> sched_of scheduler_lock w;
     let ns = node_upd (wnode e t) (\<lambda>n. n\<lparr> wn_type := WAIT_THREAD (tid e t), in_queue := False \<rparr>)
                (lw_nodes w);
     (q, ns) \<leftarrow> waitqueue_add_node_tail (waiters_of l) ns (wnode e t);
     let w = put_lock i (set_waiters q l) (w\<lparr> lw_nodes := ns \<rparr>);
     let w = w\<lparr> lw_sched := thread_upd t (\<lambda>th. th\<lparr> t_state := THREAD_WAITING \<rparr>) (lw_sched w),
                blocking_semaphore := (blocking_semaphore w)(t := i) \<rparr>;
     w \<leftarrow> sched_of scheduler_unlock w;
     ctx_unlock w }"

definition lock_wait_on_resume ::
    "lock_env \<Rightarrow> addr \<Rightarrow> lock_type \<Rightarrow> int \<Rightarrow> lock_world \<Rightarrow> ((errno + unit) \<times> lock_world) option" where
  "lock_wait_on_resume e t ty i w = do {
     w \<leftarrow> ctx_lock w;
     let w = w\<lparr> blocking_semaphore := (blocking_semaphore w)(t := - 1) \<rparr>;
     header \<leftarrow> lock_context_get w i;
     case header of
       None \<Rightarrow> Some (Inl EINVAL, w)
     | Some l \<Rightarrow>
         if type_of_lock l \<noteq> ty then Some (Inl EINVAL, w)
         else do {
           (q, ns) \<leftarrow> waitqueue_remove_node (waiters_of l) (lw_nodes w) (wnode e t);
           Some (Inr (), put_lock i (set_waiters q l) (w\<lparr> lw_nodes := ns \<rparr>)) } }"

definition lock_timed_wait_on_start ::
    "lock_env \<Rightarrow> addr \<Rightarrow> int \<Rightarrow> u64 \<Rightarrow> lock_world \<Rightarrow> lock_world option" where
  "lock_timed_wait_on_start e t i wakeup w = do {
     l \<leftarrow> lock_table w i;
     w \<leftarrow> sched_of scheduler_lock w;
     let ns = node_upd (wnode e t) (\<lambda>n. n\<lparr> wn_type := WAIT_THREAD (tid e t), in_queue := False \<rparr>)
                (lw_nodes w);
     (q, ns) \<leftarrow> waitqueue_add_node_tail (waiters_of l) ns (wnode e t);
     let ns = node_upd (snode e t) (\<lambda>n. n\<lparr> wn_type := WAIT_THREAD (tid e t),
                wakeup_time := wakeup, in_queue := False \<rparr>) ns;
     (sq, ns) \<leftarrow> waitqueue_add_node (sleep_queue w) ns (snode e t);
     let w = put_lock i (set_waiters q l) (w\<lparr> lw_nodes := ns, sleep_queue := sq \<rparr>);
     let w = w\<lparr> lw_sched := thread_upd t (\<lambda>th. th\<lparr> t_state := THREAD_WAITING \<rparr>) (lw_sched w),
                blocking_semaphore := (blocking_semaphore w)(t := i) \<rparr>;
     w \<leftarrow> sched_of scheduler_unlock w;
     ctx_unlock w }"

definition lock_timed_wait_on_resume ::
    "lock_env \<Rightarrow> addr \<Rightarrow> lock_type \<Rightarrow> int \<Rightarrow> lock_world \<Rightarrow> ((errno + unit) \<times> lock_world) option" where
  "lock_timed_wait_on_resume e t ty i w = do {
     w \<leftarrow> ctx_lock w;
     let w = w\<lparr> blocking_semaphore := (blocking_semaphore w)(t := - 1) \<rparr>;
     w \<leftarrow> sched_of scheduler_lock w;
     (sq, ns) \<leftarrow> waitqueue_remove_node (sleep_queue w) (lw_nodes w) (snode e t);
     w \<leftarrow> sched_of scheduler_unlock (w\<lparr> lw_nodes := ns, sleep_queue := sq \<rparr>);
     header \<leftarrow> lock_context_get w i;
     case header of
       None \<Rightarrow> Some (Inl EINVAL, w)
     | Some l \<Rightarrow>
         if type_of_lock l \<noteq> ty then Some (Inl EINVAL, w)
         else do {
           (q, ns) \<leftarrow> waitqueue_remove_node (waiters_of l) (lw_nodes w) (wnode e t);
           Some (Inr (), put_lock i (set_waiters q l) (w\<lparr> lw_nodes := ns \<rparr>)) } }"

text \<open>The choice between the two that all three kinds of locks make.\<close>

definition wait_start ::
    "lock_env \<Rightarrow> addr \<Rightarrow> int \<Rightarrow> u64 \<Rightarrow> u64 \<Rightarrow> lock_world \<Rightarrow> lock_world option" where
  "wait_start e t i timeout wakeup w =
     (if timeout \<noteq> INFINITE_TIMEOUT then lock_timed_wait_on_start e t i wakeup w
      else lock_wait_on_start e t i w)"

definition wait_resume ::
    "lock_env \<Rightarrow> addr \<Rightarrow> lock_type \<Rightarrow> int \<Rightarrow> u64 \<Rightarrow> lock_world \<Rightarrow> ((errno + unit) \<times> lock_world) option" where
  "wait_resume e t ty i timeout w =
     (if timeout \<noteq> INFINITE_TIMEOUT then lock_timed_wait_on_resume e t ty i w
      else lock_wait_on_resume e t ty i w)"

section \<open>Mutexes\<close>

text \<open>
  The loop of \<open>do_acquire_mutex\<close>, cut at the wait: \<open>acquire_loop\<close> is the loop head with its tests
  and what follows the loop, \<open>acquire_resume\<close> the rest of the loop body after a wait. When
  the wait reports that the mutex is gone, the body reads \<^verbatim>\<open>mutex->holder\<close> of freed memory.
\<close>

definition acquire_loop ::
    "lock_env \<Rightarrow> addr \<Rightarrow> int \<Rightarrow> u64 \<Rightarrow> u64 \<Rightarrow> bool \<Rightarrow> u64 \<Rightarrow> lock_world
     \<Rightarrow> (unit progress \<times> lock_world) option" where
  "acquire_loop e t i timeout wakeup try now w =
     (case lock_table w i of
        Some (Mutex m) \<Rightarrow>
          if holder m = - 1 \<or> holder m = tid e t \<and> m_flags m AND MUTEX_RECURSIVE \<noteq> 0 then
            Some (Return (Inr ()),
                  put_lock i (Mutex (m\<lparr> holder := tid e t, recursive_count := recursive_count m + 1 \<rparr>)) w)
          else if try then Some (Return (Inl EBUSY), w)
          else if timeout \<noteq> INFINITE_TIMEOUT \<and> wakeup \<le> now then Some (Return (Inl ETIME), w)
          else do {
            w \<leftarrow> wait_start e t i timeout wakeup w;
            Some (Sleep, w) }
      | _ \<Rightarrow> None)"

definition acquire_resume ::
    "lock_env \<Rightarrow> addr \<Rightarrow> int \<Rightarrow> u64 \<Rightarrow> u64 \<Rightarrow> u32 \<Rightarrow> u64 \<Rightarrow> bool \<Rightarrow> lock_world
     \<Rightarrow> (unit progress \<times> lock_world) option" where
  "acquire_resume e t i timeout wakeup flags now signal w = do {
     (error, w) \<leftarrow> wait_resume e t MUTEX i timeout w;
     case error of
       Inl _ \<Rightarrow> None
     | Inr _ \<Rightarrow>
         (case lock_table w i of
            Some (Mutex m) \<Rightarrow>
              if timeout \<noteq> INFINITE_TIMEOUT \<and> holder m \<noteq> - 1 \<and> \<not> now < wakeup
              then Some (Return (Inl ETIME), w)
              else if holder m \<noteq> - 1 \<and> signal \<and> flags AND LOCK_IGNORE_SIGNAL = 0
              then acquire_loop e t i timeout wakeup False now w
              else if timeout \<noteq> INFINITE_TIMEOUT \<and> holder m \<noteq> - 1
              then Some (Return (Inl EINTR), w)
              else acquire_loop e t i timeout wakeup False now w
          | _ \<Rightarrow> None) }"

text \<open>The exit of a lock function: the spinlock is released unless the thread sleeps, in which case
  it has been released already.\<close>

definition leave :: "('a progress \<times> lock_world) \<Rightarrow> ('a progress \<times> lock_world) option" where
  "leave rw = (case rw of (Sleep, w) \<Rightarrow> Some (Sleep, w)
     | (Return r, w) \<Rightarrow> map_option (Pair (Return r)) (ctx_unlock w))"

definition do_lock_mutex_start ::
    "lock_env \<Rightarrow> addr \<Rightarrow> int \<Rightarrow> bool \<Rightarrow> u64 \<Rightarrow> u64 \<Rightarrow> lock_world
     \<Rightarrow> (unit progress \<times> lock_world) option" where
  "do_lock_mutex_start e t i try timeout now w = do {
     w \<leftarrow> ctx_lock w;
     header \<leftarrow> lock_context_get w i;
     case header of
       Some (Mutex m) \<Rightarrow>
         if holder m = tid e t \<and> timeout = INFINITE_TIMEOUT \<and> \<not> try \<and>
            m_flags m AND MUTEX_RECURSIVE = 0
         then leave (Return (Inl EDEADLK), w)
         else do {
           rw \<leftarrow> acquire_loop e t i timeout (now + timeout) try now w;
           leave rw }
     | _ \<Rightarrow> leave (Return (Inl EINVAL), w) }"

definition do_lock_mutex_resume ::
    "lock_env \<Rightarrow> addr \<Rightarrow> int \<Rightarrow> u64 \<Rightarrow> u64 \<Rightarrow> u32 \<Rightarrow> u64 \<Rightarrow> bool \<Rightarrow> lock_world
     \<Rightarrow> (unit progress \<times> lock_world) option" where
  "do_lock_mutex_resume e t i timeout wakeup flags now signal w = do {
     rw \<leftarrow> acquire_resume e t i timeout wakeup flags now signal w;
     leave rw }"

definition do_release_mutex :: "lock_env \<Rightarrow> int \<Rightarrow> mutex_t \<Rightarrow> lock_world \<Rightarrow> lock_world option" where
  "do_release_mutex e i m w = do {
     let m = m\<lparr> recursive_count := recursive_count m - 1 \<rparr>;
     if recursive_count m = 0 then do {
       let m = m\<lparr> holder := - 1 \<rparr>;
       (q, w) \<leftarrow> wake_waiters e (Some 1) (m_waiters m) w;
       Some (put_lock i (Mutex (m\<lparr> m_waiters := q \<rparr>)) w) }
     else Some (put_lock i (Mutex m) w) }"

definition do_mutex_unlock ::
    "lock_env \<Rightarrow> addr \<Rightarrow> int \<Rightarrow> lock_world \<Rightarrow> ((errno + unit) \<times> lock_world) option" where
  "do_mutex_unlock e t i w = do {
     w \<leftarrow> ctx_lock w;
     header \<leftarrow> lock_context_get w i;
     case header of
       Some (Mutex m) \<Rightarrow>
         if holder m \<noteq> tid e t then map_option (Pair (Inl EPERM)) (ctx_unlock w)
         else do {
           w \<leftarrow> do_release_mutex e i m w;
           map_option (Pair (Inr ())) (ctx_unlock w) }
     | _ \<Rightarrow> map_option (Pair (Inl EINVAL)) (ctx_unlock w) }"

definition do_mutex_is_locked ::
    "lock_env \<Rightarrow> addr \<Rightarrow> int \<Rightarrow> lock_world \<Rightarrow> ((errno + bool) \<times> lock_world) option" where
  "do_mutex_is_locked e t i w = do {
     w \<leftarrow> ctx_lock w;
     header \<leftarrow> lock_context_get w i;
     case header of
       Some (Mutex m) \<Rightarrow> map_option (Pair (Inr (holder m = tid e t))) (ctx_unlock w)
     | _ \<Rightarrow> map_option (Pair (Inl EINVAL)) (ctx_unlock w) }"

definition mutex_clone :: "int \<Rightarrow> mutex_t \<Rightarrow> mutex_t" where
  "mutex_clone current old =
     \<lparr> m_flags = m_flags old,
       recursive_count = (if holder old = current then recursive_count old else 0),
       holder = (if holder old = current then 0 else - 1),
       m_waiters = init_waitqueue \<rparr>"

definition mutex_update :: "int \<Rightarrow> mutex_t \<Rightarrow> mutex_t" where
  "mutex_update new_thread m = (if holder m = 0 then m\<lparr> holder := new_thread \<rparr> else m)"

text \<open>Creation: \<open>ok\<close> is whether \<^verbatim>\<open>kmalloc\<close> returned memory for the lock and its name.\<close>

definition do_create_mutex ::
    "bool \<Rightarrow> u32 \<Rightarrow> lock_world \<Rightarrow> ((errno + int) \<times> lock_world) option" where
  "do_create_mutex ok flags w =
     (if \<not> ok then Some (Inl ENOMEM, w)
      else do {
        (i, w) \<leftarrow> lock_context_insert (Mutex \<lparr> m_flags = flags, recursive_count = 0, holder = - 1,
                     m_waiters = init_waitqueue \<rparr>) w;
        Some (Inr i, w) })"

text \<open>The destroy functions of the three kinds differ in the type only.\<close>

definition do_destroy_lock ::
    "lock_env \<Rightarrow> lock_type \<Rightarrow> int \<Rightarrow> lock_world \<Rightarrow> ((errno + unit) \<times> lock_world) option" where
  "do_destroy_lock e ty i w = do {
     (r, w) \<leftarrow> lock_context_remove i ty w;
     case r of
       Inl err \<Rightarrow> Some (Inl err, w)
     | Inr l \<Rightarrow> do {
         (q, w) \<leftarrow> wake_waiters e None (waiters_of l) w;
         Some (Inr (), w) } }"

definition do_destroy_mutex ::
    "lock_env \<Rightarrow> int \<Rightarrow> lock_world \<Rightarrow> ((errno + unit) \<times> lock_world) option" where
  "do_destroy_mutex e = do_destroy_lock e MUTEX"

section \<open>Semaphores\<close>

text \<open>The loop of \<open>do_lock_semaphore\<close>, cut at the wait. The error path after the wait returns
  without releasing the spinlock of the context.\<close>

definition semaphore_loop ::
    "lock_env \<Rightarrow> addr \<Rightarrow> int \<Rightarrow> int \<Rightarrow> u64 \<Rightarrow> u64 \<Rightarrow> u64 \<Rightarrow> lock_world
     \<Rightarrow> (unit progress \<times> lock_world) option" where
  "semaphore_loop e t i cnt timeout wakeup now w =
     (case lock_table w i of
        Some (Semaphore s) \<Rightarrow>
          if \<not> s_count s < cnt then
            leave (Return (Inr ()), put_lock i (Semaphore (s\<lparr> s_count := s_count s - cnt \<rparr>)) w)
          else if timeout \<noteq> INFINITE_TIMEOUT \<and> wakeup \<le> now then leave (Return (Inl ETIME), w)
          else do {
            w \<leftarrow> wait_start e t i timeout wakeup w;
            Some (Sleep, w) }
      | _ \<Rightarrow> None)"

definition do_lock_semaphore_start ::
    "lock_env \<Rightarrow> addr \<Rightarrow> int \<Rightarrow> int \<Rightarrow> u64 \<Rightarrow> u64 \<Rightarrow> lock_world
     \<Rightarrow> (unit progress \<times> lock_world) option" where
  "do_lock_semaphore_start e t i cnt timeout now w = do {
     w \<leftarrow> ctx_lock w;
     header \<leftarrow> lock_context_get w i;
     case header of
       Some (Semaphore s) \<Rightarrow> semaphore_loop e t i cnt timeout (now + timeout) now w
     | _ \<Rightarrow> leave (Return (Inl EINVAL), w) }"

definition do_lock_semaphore_resume ::
    "lock_env \<Rightarrow> addr \<Rightarrow> int \<Rightarrow> int \<Rightarrow> u64 \<Rightarrow> u64 \<Rightarrow> u32 \<Rightarrow> u64 \<Rightarrow> bool \<Rightarrow> lock_world
     \<Rightarrow> (unit progress \<times> lock_world) option" where
  "do_lock_semaphore_resume e t i cnt timeout wakeup flags now signal w = do {
     (error, w) \<leftarrow> wait_resume e t SEMAPHORE i timeout w;
     case error of
       Inl err \<Rightarrow> Some (Return (Inl err), w)
     | Inr _ \<Rightarrow>
         if signal \<and> flags AND LOCK_IGNORE_SIGNAL = 0 then leave (Return (Inl EINTR), w)
         else semaphore_loop e t i cnt timeout wakeup now w }"

definition do_unlock_semaphore ::
    "lock_env \<Rightarrow> int \<Rightarrow> nat \<Rightarrow> lock_world \<Rightarrow> ((errno + unit) \<times> lock_world) option" where
  "do_unlock_semaphore e i cnt w = do {
     w \<leftarrow> ctx_lock w;
     header \<leftarrow> lock_context_get w i;
     case header of
       Some (Semaphore s) \<Rightarrow> do {
         let s = s\<lparr> s_count := s_count s + int cnt \<rparr>;
         (q, w) \<leftarrow> wake_waiters e (Some cnt) (s_waiters s) w;
         map_option (Pair (Inr ())) (ctx_unlock (put_lock i (Semaphore (s\<lparr> s_waiters := q \<rparr>)) w)) }
     | _ \<Rightarrow> map_option (Pair (Inl EINVAL)) (ctx_unlock w) }"

definition do_reset_semaphore :: "int \<Rightarrow> lock_world \<Rightarrow> ((errno + unit) \<times> lock_world) option" where
  "do_reset_semaphore i w = do {
     w \<leftarrow> ctx_lock w;
     header \<leftarrow> lock_context_get w i;
     case header of
       Some (Semaphore s) \<Rightarrow> map_option (Pair (Inr ()))
         (ctx_unlock (put_lock i (Semaphore (s\<lparr> s_count := initial_count s \<rparr>)) w))
     | _ \<Rightarrow> map_option (Pair (Inl EINVAL)) (ctx_unlock w) }"

definition do_create_semaphore ::
    "bool \<Rightarrow> int \<Rightarrow> lock_world \<Rightarrow> ((errno + int) \<times> lock_world) option" where
  "do_create_semaphore ok cnt w =
     (if \<not> ok then Some (Inl ENOMEM, w)
      else do {
        (i, w) \<leftarrow> lock_context_insert (Semaphore \<lparr> s_count = cnt, initial_count = cnt,
                     s_waiters = init_waitqueue \<rparr>) w;
        Some (Inr i, w) })"

definition do_destroy_semaphore ::
    "lock_env \<Rightarrow> int \<Rightarrow> lock_world \<Rightarrow> ((errno + unit) \<times> lock_world) option" where
  "do_destroy_semaphore e = do_destroy_lock e SEMAPHORE"

section \<open>Condition variables\<close>

text \<open>
  \<open>do_wait_condition\<close> releases the mutex and waits on the condition without releasing the
  spinlock in between. It sleeps a first time on the condition and possibly again on the mutex.
\<close>

definition do_wait_condition_start ::
    "lock_env \<Rightarrow> addr \<Rightarrow> int \<Rightarrow> int \<Rightarrow> u64 \<Rightarrow> u64 \<Rightarrow> lock_world
     \<Rightarrow> (unit progress \<times> lock_world) option" where
  "do_wait_condition_start e t c i timeout now w = do {
     w \<leftarrow> ctx_lock w;
     header \<leftarrow> lock_context_get w c;
     case header of
       Some (Condition cond) \<Rightarrow> do {
         header \<leftarrow> lock_context_get w i;
         case header of
           Some (Mutex m) \<Rightarrow>
             if holder m \<noteq> tid e t then leave (Return (Inl EPERM), w)
             else do {
               w \<leftarrow> do_release_mutex e i m w;
               w \<leftarrow> wait_start e t c timeout (now + timeout) w;
               Some (Sleep, w) }
         | _ \<Rightarrow> leave (Return (Inl EINVAL), w) }
     | _ \<Rightarrow> leave (Return (Inl EINVAL), w) }"

definition do_wait_condition_resume ::
    "lock_env \<Rightarrow> addr \<Rightarrow> int \<Rightarrow> int \<Rightarrow> u64 \<Rightarrow> u64 \<Rightarrow> lock_world
     \<Rightarrow> ((errno + unit) \<times> unit progress \<times> lock_world) option" where
  "do_wait_condition_resume e t c i timeout now w = do {
     (error, w) \<leftarrow> wait_resume e t CONDITION c timeout w;
     rw \<leftarrow> acquire_loop e t i INFINITE_TIMEOUT (now + INFINITE_TIMEOUT) False now w;
     rw \<leftarrow> leave rw;
     Some (error, rw) }"

definition do_wait_condition_relock ::
    "lock_env \<Rightarrow> addr \<Rightarrow> int \<Rightarrow> u64 \<Rightarrow> bool \<Rightarrow> lock_world \<Rightarrow> (unit progress \<times> lock_world) option" where
  "do_wait_condition_relock e t i now signal w = do {
     rw \<leftarrow> acquire_resume e t i INFINITE_TIMEOUT (now + INFINITE_TIMEOUT) LOCK_IGNORE_SIGNAL
            now signal w;
     leave rw }"

definition do_signal_condition ::
    "lock_env \<Rightarrow> int \<Rightarrow> lock_world \<Rightarrow> ((errno + unit) \<times> lock_world) option" where
  "do_signal_condition e c w = do {
     w \<leftarrow> ctx_lock w;
     header \<leftarrow> lock_context_get w c;
     case header of
       Some (Condition cond) \<Rightarrow> do {
         (q, w) \<leftarrow> wake_waiters e (Some 1) (c_waiters cond) w;
         map_option (Pair (Inr ())) (ctx_unlock (put_lock c (Condition (cond\<lparr> c_waiters := q \<rparr>)) w)) }
     | _ \<Rightarrow> map_option (Pair (Inl EINVAL)) (ctx_unlock w) }"

definition do_broadcast_condition ::
    "lock_env \<Rightarrow> int \<Rightarrow> lock_world \<Rightarrow> ((errno + unit) \<times> lock_world) option" where
  "do_broadcast_condition e c w = do {
     w \<leftarrow> ctx_lock w;
     header \<leftarrow> lock_context_get w c;
     case header of
       Some (Condition cond) \<Rightarrow> do {
         (q, w) \<leftarrow> wake_waiters e None (c_waiters cond) w;
         map_option (Pair (Inr ())) (ctx_unlock (put_lock c (Condition (cond\<lparr> c_waiters := q \<rparr>)) w)) }
     | _ \<Rightarrow> map_option (Pair (Inl EINVAL)) (ctx_unlock w) }"

definition condition_clone :: "condition_t \<Rightarrow> condition_t" where
  "condition_clone old = \<lparr> c_waiters = init_waitqueue \<rparr>"

definition condition_update :: "int \<Rightarrow> condition_t \<Rightarrow> condition_t" where
  "condition_update new_thread c = c"

definition do_create_condition ::
    "bool \<Rightarrow> lock_world \<Rightarrow> ((errno + int) \<times> lock_world) option" where
  "do_create_condition ok w =
     (if \<not> ok then Some (Inl ENOMEM, w)
      else do {
        (i, w) \<leftarrow> lock_context_insert (Condition \<lparr> c_waiters = init_waitqueue \<rparr>) w;
        Some (Inr i, w) })"

definition do_destroy_condition ::
    "lock_env \<Rightarrow> int \<Rightarrow> lock_world \<Rightarrow> ((errno + unit) \<times> lock_world) option" where
  "do_destroy_condition e = do_destroy_lock e CONDITION"

section \<open>Cloning a context\<close>

text \<open>
  The callbacks of the iterations over a context, on one lock. A cloned semaphore is allocated and
  not put into the new table; a rwlock makes the clone fail.
\<close>

definition lock_context_clone_iterator ::
    "bool \<Rightarrow> int \<Rightarrow> int \<Rightarrow> lock_obj \<Rightarrow> (int \<Rightarrow> lock_obj option) \<Rightarrow> (errno + (int \<Rightarrow> lock_obj option))" where
  "lock_context_clone_iterator ok current i l tab =
     (if \<not> ok then Inl ENOMEM
      else case l of
        Mutex m \<Rightarrow> Inr (tab(i \<mapsto> Mutex (mutex_clone current m)))
      | Semaphore s \<Rightarrow> Inr tab
      | Condition c \<Rightarrow> Inr (tab(i \<mapsto> Condition (condition_clone c)))
      | Rwlock \<Rightarrow> Inl ENOSYS)"

definition lock_context_update_iterator :: "int \<Rightarrow> lock_obj \<Rightarrow> errno + lock_obj" where
  "lock_context_update_iterator new_thread l =
     (case l of
        Mutex m \<Rightarrow> Inr (Mutex (mutex_update new_thread m))
      | Semaphore s \<Rightarrow> Inr (Semaphore s)
      | Condition c \<Rightarrow> Inr (Condition (condition_update new_thread c))
      | Rwlock \<Rightarrow> Inl ENOSYS)"

fun lock_context_clone_loop ::
    "bool \<Rightarrow> int \<Rightarrow> (int \<times> lock_obj) list \<Rightarrow> (int \<Rightarrow> lock_obj option) \<Rightarrow> errno + (int \<Rightarrow> lock_obj option)" where
  "lock_context_clone_loop ok current [] tab = Inr tab"
| "lock_context_clone_loop ok current ((i, l) # xs) tab =
     (case lock_context_clone_iterator ok current i l tab of
        Inl err \<Rightarrow> Inl err
      | Inr tab \<Rightarrow> lock_context_clone_loop ok current xs tab)"

fun lock_context_update_loop ::
    "int \<Rightarrow> (int \<times> lock_obj) list \<Rightarrow> (int \<Rightarrow> lock_obj option) \<Rightarrow> errno + (int \<Rightarrow> lock_obj option)" where
  "lock_context_update_loop new_thread [] tab = Inr tab"
| "lock_context_update_loop new_thread ((i, l) # xs) tab =
     (case lock_context_update_iterator new_thread l of
        Inl err \<Rightarrow> Inl err
      | Inr l \<Rightarrow> lock_context_update_loop new_thread xs (tab(i \<mapsto> l)))"

end
