(* ===== verification/Kernel_Lock_Safety.thy ===== *)
theory Kernel_Lock_Safety
  imports Kernel_Lock
begin

text \<open>
  Correctness of the locks of \<open>Kernel_Lock\<close>: the wait and wake-up parts as
  operations on lists of waiting nodes, and a transition system of threads that lock and unlock one
  mutex in any interleaving, with its invariant.
\<close>

section \<open>Waking up waiters\<close>

definition sched_idle :: "lock_env \<Rightarrow> lock_world \<Rightarrow> bool" where
  "sched_idle e w \<longleftrightarrow> (\<exists>rs es. sched_inv (lw_sched w) rs es) \<and> \<not> sched_locked (lw_sched w) \<and>
     thr_ok (thr e) (lw_sched w)"

definition wake_count :: "nat option \<Rightarrow> 'a list \<Rightarrow> nat" where
  "wake_count n xs = (case n of None \<Rightarrow> length xs | Some c \<Rightarrow> c)"

lemma wq_rel_cong:
  assumes "wq_rel q ns xs" and "\<And>x. x \<in> set xs \<Longrightarrow> ns' x = ns x"
  shows "wq_rel q ns' xs"
  using assms seg_cong [of xs "wnx ns" "wnx ns'" "wpv ns" "wpv ns'"] by (simp add: wq_rel_def)

lemma wq_rel_frame:
  assumes "wq_rel q ns xs" and "same_nodes A ns ns'" and "A \<inter> set xs = {}"
  shows "wq_rel q ns' xs"
  using assms(1) by (rule wq_rel_cong) (use assms(2,3) in \<open>auto simp: same_nodes_def disjoint_iff\<close>)

lemma sched_listed: "sched_inv s rs es \<Longrightarrow> t \<in> set (rs @ es) \<Longrightarrow> in_scheduler (threads s t)"
  unfolding sched_inv_def by metis

lemma waitqueue_wake_spec:
  assumes "wq_rel q ns xs" and "sched_inv s rs es" and "sched_locked s" and "thr_ok look s"
    and "\<forall>x \<in> set xs. \<not> is_callback (ns x)" and "n \<noteq> Some 0"
  shows "\<exists>q' ns' s'. (case n of Some c \<Rightarrow> waitqueue_wake_up_head look c (q, ns, s)
      | None \<Rightarrow> waitqueue_wake_up_all look (q, ns, s)) = Some (q', ns', s') \<and>
    wq_rel q' ns' (drop (wake_count n xs) xs) \<and>
    sched_grows s rs es (node_threads look ns (take (wake_count n xs) xs)) s' \<and>
    (\<forall>m. m \<notin> set (drop (wake_count n xs) xs) \<longrightarrow>
       ns' m = (if m \<in> set (take (wake_count n xs) xs) then clear_node (ns m) else ns m)) \<and>
    (\<forall>m. wn_type (ns' m) = wn_type (ns m))"
proof (cases n)
  case None
  from waitqueue_wake_up_all_spec [OF assms(1-5)] obtain q' s' where
    "waitqueue_wake_up_all look (q, ns, s) =
      Some (q', \<lambda>m. if m \<in> set xs then clear_node (ns m) else ns m, s')"
    "wq_rel q' (\<lambda>m. if m \<in> set xs then clear_node (ns m) else ns m) []"
    "sched_grows s rs es (node_threads look ns xs) s'" by blast
  with None show ?thesis by (simp add: wake_count_def clear_node_def)
next
  case (Some c)
  with waitqueue_wake_up_head_spec [OF assms(1-5), of c] assms(6)
  show ?thesis by (simp add: wake_count_def)
qed

text \<open>Waking \<open>n\<close> of the waiters (all for \<open>None\<close>) takes their nodes off the front of the queue and puts
  their threads into the lists of the scheduler.\<close>

lemma wake_waiters_spec:
  assumes "sched_idle e w" and "wq_rel q (lw_nodes w) xs"
    and "\<forall>x \<in> set xs. \<not> is_callback (lw_nodes w x)" and "n \<noteq> Some 0"
  shows "\<exists>q' ns' s'. wake_waiters e n q w = Some (q', w\<lparr> lw_nodes := ns', lw_sched := s' \<rparr>) \<and>
    wq_rel q' ns' (drop (wake_count n xs) xs) \<and>
    sched_idle e (w\<lparr> lw_nodes := ns', lw_sched := s' \<rparr>) \<and>
    (\<forall>t \<in> node_threads (thr e) (lw_nodes w) (take (wake_count n xs) xs). in_scheduler (threads s' t)) \<and>
    (\<forall>t. t \<noteq> idle_thread (lw_sched w) \<longrightarrow> \<not> in_scheduler (threads (lw_sched w) t) \<longrightarrow>
       t \<notin> node_threads (thr e) (lw_nodes w) (take (wake_count n xs) xs) \<longrightarrow> \<not> in_scheduler (threads s' t)) \<and>
    (\<forall>m. m \<notin> set (drop (wake_count n xs) xs) \<longrightarrow>
       ns' m = (if m \<in> set (take (wake_count n xs) xs) then clear_node (lw_nodes w m) else lw_nodes w m)) \<and>
    (\<forall>m. wn_type (ns' m) = wn_type (lw_nodes w m))"
proof -
  let ?k = "wake_count n xs"
  obtain rs es where s: "sched_inv (lw_sched w) rs es" "\<not> sched_locked (lw_sched w)"
    "thr_ok (thr e) (lw_sched w)" using assms(1) by (auto simp: sched_idle_def)
  let ?s = "(lw_sched w)\<lparr> sched_locked := True \<rparr>"
  have "sched_inv ?s rs es" "sched_locked ?s" "thr_ok (thr e) ?s" using s by (auto simp: thr_ok_def)
  from waitqueue_wake_spec [OF assms(2) this assms(3,4)] obtain q' ns' s' where
    r: "(case n of Some c \<Rightarrow> waitqueue_wake_up_head (thr e) c (q, lw_nodes w, ?s)
        | None \<Rightarrow> waitqueue_wake_up_all (thr e) (q, lw_nodes w, ?s)) = Some (q', ns', s')"
      "wq_rel q' ns' (drop ?k xs)"
      "sched_grows ?s rs es (node_threads (thr e) (lw_nodes w) (take ?k xs)) s'"
      "\<forall>m. m \<notin> set (drop ?k xs) \<longrightarrow>
         ns' m = (if m \<in> set (take ?k xs) then clear_node (lw_nodes w m) else lw_nodes w m)"
      "\<forall>m. wn_type (ns' m) = wn_type (lw_nodes w m)" by blast
  obtain ys zs where g: "sched_inv s' (rs @ ys) (es @ zs)" "sched_locked s'"
      "idle_thread s' = idle_thread (lw_sched w)"
      "node_threads (thr e) (lw_nodes w) (take ?k xs) \<subseteq> set ((rs @ ys) @ es @ zs)"
      "set (ys @ zs) \<subseteq> node_threads (thr e) (lw_nodes w) (take ?k xs)"
    using r(3) by (auto simp: sched_grows_def)
  let ?w = "w\<lparr> lw_nodes := ns', lw_sched := s'\<lparr> sched_locked := False \<rparr> \<rparr>"
  have "wake_waiters e n q w = Some (q', ?w)"
    using s(2) r(1) g(2)
    by (cases n) (simp_all add: wake_waiters_def sched_of_def scheduler_lock_def scheduler_unlock_def)
  moreover have "sched_idle e ?w" using g(1,3) s(3) by (auto simp: sched_idle_def thr_ok_def)
  moreover have "\<forall>t \<in> node_threads (thr e) (lw_nodes w) (take ?k xs).
      in_scheduler (threads (s'\<lparr> sched_locked := False \<rparr>) t)"
    using g(4) sched_listed [OF g(1)] by auto
  moreover have "\<not> in_scheduler (threads s' t)" if "t \<noteq> idle_thread (lw_sched w)"
      "\<not> in_scheduler (threads (lw_sched w) t)" "t \<notin> node_threads (thr e) (lw_nodes w) (take ?k xs)" for t
  proof -
    have "t \<notin> set (rs @ es)" using that(2) sched_listed [OF s(1)] by blast
    then have "t \<notin> set ((rs @ ys) @ es @ zs)" using that(3) g(5) by auto
    then show ?thesis using that(1) g(1,3) unfolding sched_inv_def by metis
  qed
  then have "\<forall>t. t \<noteq> idle_thread (lw_sched w) \<longrightarrow> \<not> in_scheduler (threads (lw_sched w) t) \<longrightarrow>
      t \<notin> node_threads (thr e) (lw_nodes w) (take ?k xs) \<longrightarrow>
      \<not> in_scheduler (threads (s'\<lparr> sched_locked := False \<rparr>) t)" by simp
  ultimately show ?thesis using r(2,4,5) by blast
qed

section \<open>Going to sleep and waking up\<close>

text \<open>The thread that runs a part of a lock function is not in the lists of the scheduler.\<close>

definition runs :: "lock_env \<Rightarrow> addr \<Rightarrow> lock_world \<Rightarrow> bool" where
  "runs e t w \<longleftrightarrow> sched_idle e w \<and> \<not> in_scheduler (threads (lw_sched w) t)"

definition cleared :: "waitnode_t \<Rightarrow> bool" where
  "cleared n \<longleftrightarrow> \<not> in_queue n \<and> wn_prev n = None \<and> wn_next n = None"

lemma cleared_clear [simp]: "cleared (clear_node n)"
  by (simp add: cleared_def clear_node_def)

lemma remove_cleared [simp]: "cleared (ns n) \<Longrightarrow> waitqueue_remove_node q ns n = Some (q, ns)"
  by (simp add: cleared_def waitqueue_remove_node_def)

lemma waiters_of_set [simp]: "l \<noteq> Rwlock \<Longrightarrow> waiters_of (set_waiters q l) = q"
  by (cases l) simp_all

lemma type_of_set [simp]: "type_of_lock (set_waiters q l) = type_of_lock l"
  by (cases l) simp_all

lemma sched_inv_sleep:
  assumes "sched_inv s rs es" and "\<not> in_scheduler (threads s t)"
  shows "sched_inv (thread_upd t (\<lambda>th. th\<lparr> t_state := THREAD_WAITING \<rparr>) s) rs es"
proof -
  have out: "t \<notin> set (rs @ es)" using assms sched_listed by blast
  have "next_of (thread_upd t (\<lambda>th. th\<lparr> t_state := THREAD_WAITING \<rparr>) s) = next_of s"
    by (simp add: next_of_upd fun_upd_idem)
  moreover have "in_scheduler (threads (thread_upd t (\<lambda>th. th\<lparr> t_state := THREAD_WAITING \<rparr>) s) u) =
      in_scheduler (threads s u)" for u
    by (cases "u = t") simp_all
  moreover have "t_state (threads (thread_upd t (\<lambda>th. th\<lparr> t_state := THREAD_WAITING \<rparr>) s) u) =
      t_state (threads s u)" if "u \<in> set (rs @ es)" for u
    using that out by (cases "u = t") auto
  ultimately show ?thesis using assms(1) by (simp add: sched_inv_def)
qed

lemma sched_idle_sleep:
  assumes "runs e t w" and "lw_sched w' = thread_upd t (\<lambda>th. th\<lparr> t_state := THREAD_WAITING \<rparr>) (lw_sched w)"
  shows "sched_idle e w'"
  using assms sched_inv_sleep unfolding runs_def sched_idle_def thr_ok_def by fastforce

lemma lock_unlock_sched:
  "\<not> sched_locked s \<Longrightarrow> thread_upd t f (s\<lparr> sched_locked := True \<rparr>) \<lparr> sched_locked := False \<rparr> = thread_upd t f s"
  by (simp add: thread_upd_def)

text \<open>
  Going to sleep appends the node of the thread to the waiters and, for a timed wait, inserts
  its second node into the sleep queue; it ends with both spinlocks released.
\<close>

lemma wait_start_spec:
  assumes run: "runs e t w" and ctx: "ctx_locked w" and tab: "lock_table w i = Some l" "l \<noteq> Rwlock"
    and xs: "wq_rel (waiters_of l) (lw_nodes w) xs" and ss: "wq_rel (sleep_queue w) (lw_nodes w) ss"
    and fresh: "wnode e t \<notin> set xs \<union> set ss" "snode e t \<notin> set xs \<union> set ss" "wnode e t \<noteq> snode e t"
    and disj: "set xs \<inter> set ss = {}"
  shows "\<exists>q ns sq ss'. wait_start e t i timeout wakeup w =
      Some (w\<lparr> lock_table := (lock_table w)(i \<mapsto> set_waiters q l), lw_nodes := ns, sleep_queue := sq,
        lw_sched := thread_upd t (\<lambda>th. th\<lparr> t_state := THREAD_WAITING \<rparr>) (lw_sched w),
        blocking_semaphore := (blocking_semaphore w)(t := i), ctx_locked := False \<rparr>) \<and>
    wq_rel q ns (xs @ [wnode e t]) \<and> wq_rel sq ns ss' \<and>
    set ss' = (if timeout \<noteq> INFINITE_TIMEOUT then insert (snode e t) (set ss) else set ss) \<and>
    wn_type (ns (wnode e t)) = WAIT_THREAD (tid e t) \<and>
    (\<forall>m. m \<noteq> wnode e t \<longrightarrow> m \<noteq> snode e t \<longrightarrow> wn_type (ns m) = wn_type (lw_nodes w m)) \<and>
    (\<forall>m. m \<notin> set xs \<longrightarrow> m \<notin> set ss \<longrightarrow> m \<noteq> wnode e t \<longrightarrow> m \<noteq> snode e t \<longrightarrow> ns m = lw_nodes w m)"
proof -
  have unl: "\<not> sched_locked (lw_sched w)" using run by (simp add: runs_def sched_idle_def)
  note lu = lock_unlock_sched [OF unl]
  let ?n1 = "node_upd (wnode e t) (\<lambda>n. n\<lparr> wn_type := WAIT_THREAD (tid e t), in_queue := False \<rparr>)
    (lw_nodes w)"
  have eq1: "?n1 x = lw_nodes w x" if "x \<in> set xs \<union> set ss" for x
    using that fresh(1) by (cases "x = wnode e t") auto
  have xs1: "wq_rel (waiters_of l) ?n1 xs" using xs by (rule wq_rel_cong) (use eq1 in auto)
  have ss1: "wq_rel (sleep_queue w) ?n1 ss" using ss by (rule wq_rel_cong) (use eq1 in auto)
  obtain q n2 where q: "waitqueue_add_node_tail (waiters_of l) ?n1 (wnode e t) = Some (q, n2)"
    "wq_rel q n2 (xs @ [wnode e t])" "same_nodes (insert (wnode e t) (set xs)) ?n1 n2"
    using waitqueue_add_node_tail_refines [OF xs1, of "wnode e t"] by auto
  have ss2: "wq_rel (sleep_queue w) n2 ss"
    using ss1 q(3) by (rule wq_rel_frame) (use fresh(1) disj in auto)
  have ty2: "wn_type (n2 m) = (if m = wnode e t then WAIT_THREAD (tid e t) else wn_type (lw_nodes w m))"
    "m \<notin> set xs \<Longrightarrow> m \<noteq> wnode e t \<Longrightarrow> n2 m = lw_nodes w m" for m
    using q(3) by (auto simp: same_nodes_def node_upd_def)
  show ?thesis
  proof (cases "timeout = INFINITE_TIMEOUT")
    case True
    have "wait_start e t i timeout wakeup w =
      Some (w\<lparr> lock_table := (lock_table w)(i \<mapsto> set_waiters q l), lw_nodes := n2,
        sleep_queue := sleep_queue w,
        lw_sched := thread_upd t (\<lambda>th. th\<lparr> t_state := THREAD_WAITING \<rparr>) (lw_sched w),
        blocking_semaphore := (blocking_semaphore w)(t := i), ctx_locked := False \<rparr>)"
      using True unl ctx tab(1) q(1) lu
      by (simp add: wait_start_def lock_wait_on_start_def sched_of_def scheduler_lock_def
          scheduler_unlock_def ctx_unlock_def put_lock_def Let_def)
    with q(2) ss2 ty2 True show ?thesis
      by (intro exI [of _ q] exI [of _ n2] exI [of _ "sleep_queue w"] exI [of _ ss]) simp
  next
    case False
    let ?n3 = "node_upd (snode e t) (\<lambda>n. n\<lparr> wn_type := WAIT_THREAD (tid e t), wakeup_time := wakeup,
      in_queue := False \<rparr>) n2"
    have ss3: "wq_rel (sleep_queue w) ?n3 ss"
      using ss2 by (rule wq_rel_cong) (use fresh(2) in \<open>auto simp: node_upd_def\<close>)
    have xs3: "wq_rel q ?n3 (xs @ [wnode e t])"
      using q(2) by (rule wq_rel_cong) (use fresh(2,3) in \<open>auto simp: node_upd_def\<close>)
    obtain sq n4 where s: "waitqueue_add_node (sleep_queue w) ?n3 (snode e t) = Some (sq, n4)"
      "wq_rel sq n4 (wq_insert (\<lambda>m. wakeup_time (?n3 m)) (snode e t) ss)"
      "same_nodes (insert (snode e t) (set ss)) ?n3 n4"
      using waitqueue_add_node_refines [OF ss3, of "snode e t"] by auto
    have xs4: "wq_rel q n4 (xs @ [wnode e t])"
      using xs3 s(3) by (rule wq_rel_frame) (use fresh disj in auto)
    have ty4: "m \<noteq> snode e t \<Longrightarrow> wn_type (n4 m) = wn_type (n2 m)"
      "m \<notin> set ss \<Longrightarrow> m \<noteq> snode e t \<Longrightarrow> n4 m = n2 m" for m
      using s(3) by (auto simp: same_nodes_def node_upd_def)
    have "wait_start e t i timeout wakeup w =
      Some (w\<lparr> lock_table := (lock_table w)(i \<mapsto> set_waiters q l), lw_nodes := n4, sleep_queue := sq,
        lw_sched := thread_upd t (\<lambda>th. th\<lparr> t_state := THREAD_WAITING \<rparr>) (lw_sched w),
        blocking_semaphore := (blocking_semaphore w)(t := i), ctx_locked := False \<rparr>)"
      using False unl ctx tab(1) q(1) s(1) lu
      by (simp add: wait_start_def lock_timed_wait_on_start_def sched_of_def scheduler_lock_def
          scheduler_unlock_def ctx_unlock_def put_lock_def Let_def)
    moreover have "wn_type (n4 (wnode e t)) = WAIT_THREAD (tid e t)"
      using ty4(1) ty2(1) fresh(3) by simp
    ultimately show ?thesis using xs4 s(2) ty2 ty4 False
      by (intro exI [of _ q] exI [of _ n4] exI [of _ sq]
          exI [of _ "wq_insert (\<lambda>m. wakeup_time (?n3 m)) (snode e t) ss"])
        (simp add: set_wq_insert)
  qed
qed

text \<open>Taking a node off a queue, whether a wake-up has done it before or not.\<close>

lemma remove_node_spec:
  assumes "wq_rel q ns xs" and "n \<in> set xs \<or> cleared (ns n)"
  shows "\<exists>q' ns'. waitqueue_remove_node q ns n = Some (q', ns') \<and> wq_rel q' ns' (remove1 n xs) \<and>
    same_nodes (set xs) ns ns'"
proof (cases "n \<in> set xs")
  case True
  with waitqueue_remove_node_refines [OF assms(1)] show ?thesis by blast
next
  case False
  with assms show ?thesis by (simp add: remove1_idem same_nodes_def)
qed

lemma wait_resume_spec:
  assumes sched: "sched_idle e w" and ctx: "\<not> ctx_locked w"
    and tab: "lock_table w i = Some l" "type_of_lock l = ty"
    and xs: "wq_rel (waiters_of l) (lw_nodes w) xs" and ss: "wq_rel (sleep_queue w) (lw_nodes w) ss"
    and node: "wnode e t \<in> set xs \<or> cleared (lw_nodes w (wnode e t))" "wnode e t \<notin> set ss"
    and snode: "timeout \<noteq> INFINITE_TIMEOUT \<Longrightarrow> snode e t \<in> set ss \<or> cleared (lw_nodes w (snode e t))"
    and disj: "set xs \<inter> set ss = {}"
  shows "\<exists>q ns sq. wait_resume e t ty i timeout w =
      Some (Inr (), w\<lparr> lock_table := (lock_table w)(i \<mapsto> set_waiters q l), lw_nodes := ns, sleep_queue := sq,
        blocking_semaphore := (blocking_semaphore w)(t := - 1), ctx_locked := True \<rparr>) \<and>
    wq_rel q ns (remove1 (wnode e t) xs) \<and>
    wq_rel sq ns (if timeout \<noteq> INFINITE_TIMEOUT then remove1 (snode e t) ss else ss) \<and>
    same_nodes (set xs \<union> set ss) (lw_nodes w) ns"
proof -
  have unl: "\<not> sched_locked (lw_sched w)" using sched by (simp add: sched_idle_def)
  have lu: "lw_sched w\<lparr> sched_locked := False \<rparr> = lw_sched w" using unl by simp
  show ?thesis
  proof (cases "timeout = INFINITE_TIMEOUT")
    case True
    obtain q ns where q: "waitqueue_remove_node (waiters_of l) (lw_nodes w) (wnode e t) = Some (q, ns)"
      "wq_rel q ns (remove1 (wnode e t) xs)" "same_nodes (set xs) (lw_nodes w) ns"
      using remove_node_spec [OF xs node(1)] by blast
    have "wq_rel (sleep_queue w) ns ss" using ss q(3) disj by (rule wq_rel_frame)
    moreover have "wait_resume e t ty i timeout w =
      Some (Inr (), w\<lparr> lock_table := (lock_table w)(i \<mapsto> set_waiters q l), lw_nodes := ns,
        sleep_queue := sleep_queue w,
        blocking_semaphore := (blocking_semaphore w)(t := - 1), ctx_locked := True \<rparr>)"
      using True ctx tab q(1)
      by (simp add: wait_resume_def lock_wait_on_resume_def ctx_lock_def lock_context_get_def
          put_lock_def Let_def)
    moreover have "same_nodes (set xs \<union> set ss) (lw_nodes w) ns"
      using q(3) by (simp add: same_nodes_def)
    ultimately show ?thesis using q(2) True
      by (intro exI [of _ q] exI [of _ ns] exI [of _ "sleep_queue w"]) simp
  next
    case False
    obtain sq n1 where s: "waitqueue_remove_node (sleep_queue w) (lw_nodes w) (snode e t) = Some (sq, n1)"
      "wq_rel sq n1 (remove1 (snode e t) ss)" "same_nodes (set ss) (lw_nodes w) n1"
      using remove_node_spec [OF ss snode [OF False]] by blast
    have xs1: "wq_rel (waiters_of l) n1 xs" using xs s(3) by (rule wq_rel_frame) (use disj in auto)
    have "n1 (wnode e t) = lw_nodes w (wnode e t)" using s(3) node(2) by (simp add: same_nodes_def)
    then obtain q ns where q: "waitqueue_remove_node (waiters_of l) n1 (wnode e t) = Some (q, ns)"
      "wq_rel q ns (remove1 (wnode e t) xs)" "same_nodes (set xs) n1 ns"
      using remove_node_spec [OF xs1, of "wnode e t"] node(1) by auto
    have "wq_rel sq ns (remove1 (snode e t) ss)"
      using s(2) q(3) by (rule wq_rel_frame) (use disj set_remove1_subset in fast)
    moreover have "wait_resume e t ty i timeout w =
      Some (Inr (), w\<lparr> lock_table := (lock_table w)(i \<mapsto> set_waiters q l), lw_nodes := ns,
        sleep_queue := sq, blocking_semaphore := (blocking_semaphore w)(t := - 1), ctx_locked := True \<rparr>)"
      using False ctx tab q(1) s(1) unl lu
      by (simp add: wait_resume_def lock_timed_wait_on_resume_def ctx_lock_def lock_context_get_def
          sched_of_def scheduler_lock_def scheduler_unlock_def put_lock_def Let_def)
    moreover have "same_nodes (set xs \<union> set ss) (lw_nodes w) ns"
      using q(3) s(3) by (simp add: same_nodes_def)
    ultimately show ?thesis using q(2) False
      by (intro exI [of _ q] exI [of _ ns] exI [of _ sq]) simp
  qed
qed

section \<open>Threads sharing a mutex\<close>

text \<open>
  A thread is running or waits in \<open>do_acquire_mutex\<close> with the timeout, wake-up time and flags of its
  call. \<open>held\<close> counts, for each thread, the successful lock calls that it has not yet undone by
  an unlock; it is not part of the program.
\<close>

datatype pc_t = Running | Waiting u64 u64 u32

fun timed :: "pc_t \<Rightarrow> bool" where
  "timed Running = False"
| "timed (Waiting timeout _ _) = (timeout \<noteq> INFINITE_TIMEOUT)"

record mutex_sys =
  world :: lock_world
  pc :: "addr \<Rightarrow> pc_t"
  held :: "addr \<Rightarrow> nat"

definition after_lock ::
    "addr \<Rightarrow> pc_t \<Rightarrow> unit progress \<times> lock_world \<Rightarrow> mutex_sys \<Rightarrow> mutex_sys" where
  "after_lock t p rw s = \<lparr> world = snd rw,
     pc = (pc s)(t := if fst rw = Sleep then p else Running),
     held = (held s)(t := held s t + (if fst rw = Return (Inr ()) then 1 else 0)) \<rparr>"

text \<open>Thread ids and nodes of different threads are different.\<close>

definition env_ok :: "lock_env \<Rightarrow> addr set \<Rightarrow> bool" where
  "env_ok e T \<longleftrightarrow> inj_on (tid e) T \<and> inj_on (wnode e) T \<and> inj_on (snode e) T \<and>
     wnode e ` T \<inter> snode e ` T = {} \<and> (\<forall>t \<in> T. tid e t \<noteq> - 1 \<and> thr e (tid e t) = Some t)"

inductive mutex_step :: "lock_env \<Rightarrow> addr set \<Rightarrow> int \<Rightarrow> mutex_sys \<Rightarrow> mutex_sys \<Rightarrow> bool"
  for e :: lock_env and T :: "addr set" and i :: int where
  lock: "t \<in> T \<Longrightarrow> pc s t = Running \<Longrightarrow> runs e t (world s) \<Longrightarrow>
    do_lock_mutex_start e t i try timeout now (world s) = Some rw \<Longrightarrow>
    mutex_step e T i s (after_lock t (Waiting timeout (now + timeout) flags) rw s)"
| resume: "t \<in> T \<Longrightarrow> pc s t = Waiting timeout wakeup flags \<Longrightarrow> runs e t (world s) \<Longrightarrow>
    do_lock_mutex_resume e t i timeout wakeup flags now sig (world s) = Some rw \<Longrightarrow>
    mutex_step e T i s (after_lock t (Waiting timeout wakeup flags) rw s)"
| unlock: "t \<in> T \<Longrightarrow> pc s t = Running \<Longrightarrow> runs e t (world s) \<Longrightarrow>
    do_mutex_unlock e t i (world s) = Some (r, w) \<Longrightarrow>
    mutex_step e T i s (s\<lparr> world := w, held := (held s)(t := held s t - (if r = Inr () then 1 else 0)) \<rparr>)"
| sched: "sched_idle e ((world s)\<lparr> lw_sched := sc \<rparr>) \<Longrightarrow>
    mutex_step e T i s (s\<lparr> world := (world s)\<lparr> lw_sched := sc \<rparr> \<rparr>)"

text \<open>The parts of the invariant: the two queues and the nodes of the waiting threads, the owner of
  the mutex, and that a free mutex with waiters has a waiter on its way to take it.\<close>

definition waiting_ok ::
    "lock_env \<Rightarrow> addr set \<Rightarrow> (addr \<Rightarrow> pc_t) \<Rightarrow> lock_world \<Rightarrow> addr list \<Rightarrow> addr list \<Rightarrow> bool" where
  "waiting_ok e T p w xs ss \<longleftrightarrow> wq_rel (sleep_queue w) (lw_nodes w) ss \<and> set xs \<inter> set ss = {} \<and>
     (\<forall>x \<in> set xs. \<exists>t \<in> T. p t \<noteq> Running \<and> x = wnode e t \<and> wn_type (lw_nodes w x) = WAIT_THREAD (tid e t)) \<and>
     (\<forall>t \<in> T. wnode e t \<notin> set ss) \<and> (\<forall>t \<in> T. snode e t \<in> set ss \<longrightarrow> timed (p t)) \<and>
     (\<forall>t \<in> T. p t \<noteq> Running \<longrightarrow> wnode e t \<notin> set xs \<longrightarrow> cleared (lw_nodes w (wnode e t))) \<and>
     (\<forall>t \<in> T. timed (p t) \<longrightarrow> snode e t \<notin> set ss \<longrightarrow> cleared (lw_nodes w (snode e t)))"

definition owner_ok :: "lock_env \<Rightarrow> addr set \<Rightarrow> mutex_t \<Rightarrow> (addr \<Rightarrow> nat) \<Rightarrow> bool" where
  "owner_ok e T m h \<longleftrightarrow>
     (if holder m = - 1 then recursive_count m = 0 \<and> (\<forall>t. h t = 0)
      else \<exists>t \<in> T. holder m = tid e t \<and> recursive_count m = int (h t) \<and> 0 < h t \<and>
        (\<forall>u. u \<noteq> t \<longrightarrow> h u = 0)) \<and>
     (m_flags m AND MUTEX_RECURSIVE = 0 \<longrightarrow> (\<forall>t. h t \<le> 1))"

definition pending_ok ::
    "lock_env \<Rightarrow> addr set \<Rightarrow> (addr \<Rightarrow> pc_t) \<Rightarrow> mutex_t \<Rightarrow> addr list \<Rightarrow> bool" where
  "pending_ok e T p m xs \<longleftrightarrow> holder m = - 1 \<longrightarrow> xs \<noteq> [] \<longrightarrow>
     (\<exists>t \<in> T. p t \<noteq> Running \<and> wnode e t \<notin> set xs)"

definition mutex_state ::
    "lock_env \<Rightarrow> addr set \<Rightarrow> int \<Rightarrow> (addr \<Rightarrow> pc_t) \<Rightarrow> (addr \<Rightarrow> nat) \<Rightarrow> lock_world \<Rightarrow> mutex_t
     \<Rightarrow> addr list \<Rightarrow> addr list \<Rightarrow> bool" where
  "mutex_state e T i p h w m xs ss \<longleftrightarrow> lock_table w i = Some (Mutex m) \<and> sched_idle e w \<and>
     wq_rel (m_waiters m) (lw_nodes w) xs \<and> waiting_ok e T p w xs ss \<and> owner_ok e T m h"

definition mutex_inv :: "lock_env \<Rightarrow> addr set \<Rightarrow> int \<Rightarrow> mutex_sys \<Rightarrow> bool" where
  "mutex_inv e T i s \<longleftrightarrow> \<not> ctx_locked (world s) \<and>
     (\<exists>m xs ss. mutex_state e T i (pc s) (held s) (world s) m xs ss \<and> pending_ok e T (pc s) m xs)"

lemma env_nodes: "env_ok e T \<Longrightarrow> u \<in> T \<Longrightarrow> v \<in> T \<Longrightarrow> wnode e u \<noteq> snode e v"
  unfolding env_ok_def by blast

lemma waiting_ok_snode:
  assumes "waiting_ok e T p w xs ss" and "env_ok e T" and "u \<in> T"
  shows "snode e u \<notin> set xs"
proof
  assume "snode e u \<in> set xs"
  then obtain v where "v \<in> T" "snode e u = wnode e v" using assms(1) by (auto simp: waiting_ok_def)
  then show False using env_nodes [OF assms(2) _ assms(3), of v] by simp
qed

lemma waiting_ok_nodes:
  assumes "waiting_ok e T p w xs ss" and "env_ok e T" and "t \<in> T" and "p t = Running"
  shows "wnode e t \<notin> set xs \<union> set ss" "snode e t \<notin> set xs \<union> set ss" "wnode e t \<noteq> snode e t"
proof -
  have "wnode e t \<notin> set xs"
  proof
    assume "wnode e t \<in> set xs"
    then obtain u where "u \<in> T" "p u \<noteq> Running" "wnode e t = wnode e u"
      using assms(1) by (auto simp: waiting_ok_def)
    then show False using assms(2-4) by (auto simp: env_ok_def inj_on_def)
  qed
  then show "wnode e t \<notin> set xs \<union> set ss" using assms(1,3) by (auto simp: waiting_ok_def)
  have "\<not> timed (p t)" using assms(4) by simp
  then have "snode e t \<notin> set ss" using assms(1,3) by (auto simp: waiting_ok_def)
  moreover have "snode e t \<notin> set xs" using assms(1-3) by (rule waiting_ok_snode)
  ultimately show "snode e t \<notin> set xs \<union> set ss" by simp
  show "wnode e t \<noteq> snode e t" using env_nodes [OF assms(2,3,3)] .
qed

lemma waiting_ok_start:
  assumes ok: "waiting_ok e T p w xs ss" and env: "env_ok e T" and t: "t \<in> T" "p t = Running"
    and ss': "wq_rel (sleep_queue w') ns ss'"
      "set ss' = (if timeout \<noteq> INFINITE_TIMEOUT then insert (snode e t) (set ss) else set ss)"
    and w': "lw_nodes w' = ns" "wn_type (ns (wnode e t)) = WAIT_THREAD (tid e t)"
      "\<forall>m. m \<noteq> wnode e t \<longrightarrow> m \<noteq> snode e t \<longrightarrow> wn_type (ns m) = wn_type (lw_nodes w m)"
      "\<forall>m. m \<notin> set xs \<longrightarrow> m \<notin> set ss \<longrightarrow> m \<noteq> wnode e t \<longrightarrow> m \<noteq> snode e t \<longrightarrow> ns m = lw_nodes w m"
  shows "waiting_ok e T (p(t := Waiting timeout wakeup flags)) w' (xs @ [wnode e t]) ss'"
proof -
  note out = waiting_ok_nodes [OF ok env t]
  have inj: "u \<in> T \<Longrightarrow> u \<noteq> t \<Longrightarrow> wnode e u \<noteq> wnode e t"
    "u \<in> T \<Longrightarrow> u \<noteq> t \<Longrightarrow> snode e u \<noteq> snode e t"
    "u \<in> T \<Longrightarrow> wnode e u \<noteq> snode e t" "u \<in> T \<Longrightarrow> snode e u \<noteq> wnode e t" for u
    using env t(1) env_nodes [OF env] by (fastforce simp: env_ok_def inj_on_def)+
  note sn = waiting_ok_snode [OF ok env]
  have ss: "set ss \<subseteq> set ss'" "set ss' \<subseteq> insert (snode e t) (set ss)" using ss'(2) by auto
  have "x \<notin> set ss'" if "x \<in> set (xs @ [wnode e t])" for x
    using that ok out ss(2) by (auto simp: waiting_ok_def disjoint_iff)
  moreover have "\<exists>u \<in> T. (p(t := Waiting timeout wakeup flags)) u \<noteq> Running \<and> x = wnode e u \<and>
      wn_type (ns x) = WAIT_THREAD (tid e u)" if x: "x \<in> set (xs @ [wnode e t])" for x
  proof (cases "x = wnode e t")
    case True
    then show ?thesis using t(1) w'(2) by auto
  next
    case False
    then obtain u where "u \<in> T" "p u \<noteq> Running" "x = wnode e u"
      "wn_type (lw_nodes w x) = WAIT_THREAD (tid e u)"
      using x ok by (auto simp: waiting_ok_def)
    moreover have "x \<noteq> snode e t" using x out by auto
    ultimately show ?thesis using False w'(3) by auto
  qed
  moreover have "cleared (ns (wnode e u))"
    if "u \<in> T" "(p(t := Waiting timeout wakeup flags)) u \<noteq> Running" "wnode e u \<notin> set (xs @ [wnode e t])" for u
  proof -
    have u: "u \<noteq> t" "p u \<noteq> Running" "wnode e u \<notin> set xs" using that by (auto split: if_splits)
    then have "cleared (lw_nodes w (wnode e u))" "wnode e u \<notin> set ss"
      using ok that(1) by (auto simp: waiting_ok_def)
    then show ?thesis using w'(4) u inj that(1) by simp
  qed
  moreover have "cleared (ns (snode e u))"
    if "u \<in> T" "timed ((p(t := Waiting timeout wakeup flags)) u)" "snode e u \<notin> set ss'" for u
  proof -
    have "u \<noteq> t" using that ss'(2) by auto
    then have "cleared (lw_nodes w (snode e u))" "snode e u \<notin> set ss"
      using ok that ss(1) by (auto simp: waiting_ok_def)
    then show ?thesis using w'(4) sn inj \<open>u \<noteq> t\<close> that(1) by simp
  qed
  moreover have "wnode e u \<notin> set ss'" if "u \<in> T" for u
    using ok that ss(2) inj(3) by (auto simp: waiting_ok_def)
  moreover have "timed ((p(t := Waiting timeout wakeup flags)) u)" if "u \<in> T" "snode e u \<in> set ss'" for u
    using that ok ss'(2) inj(2) [OF that(1)] out by (cases "u = t") (auto simp: waiting_ok_def split: if_splits)
  ultimately show ?thesis unfolding waiting_ok_def using ss'(1) w'(1) by (simp add: disjoint_iff)
qed

lemma waiting_ok_resume:
  assumes ok: "waiting_ok e T p w xs ss" and env: "env_ok e T"
    and t: "t \<in> T" "p t = Waiting timeout wakeup flags" and d: "distinct xs" "distinct ss"
    and ss': "wq_rel (sleep_queue w') ns (if timeout \<noteq> INFINITE_TIMEOUT then remove1 (snode e t) ss else ss)"
    and w': "lw_nodes w' = ns" "same_nodes (set xs \<union> set ss) (lw_nodes w) ns"
  shows "waiting_ok e T (p(t := Running)) w' (remove1 (wnode e t) xs)
    (if timeout \<noteq> INFINITE_TIMEOUT then remove1 (snode e t) ss else ss)"
proof -
  let ?ss = "if timeout \<noteq> INFINITE_TIMEOUT then remove1 (snode e t) ss else ss"
  have inj: "u \<in> T \<Longrightarrow> u \<noteq> t \<Longrightarrow> wnode e u \<noteq> wnode e t"
    "u \<in> T \<Longrightarrow> u \<noteq> t \<Longrightarrow> snode e u \<noteq> snode e t" for u
    using env t(1) by (auto simp: env_ok_def inj_on_def)
  have sub: "set ?ss \<subseteq> set ss" "set (remove1 (wnode e t) xs) = set xs - {wnode e t}"
    using d by (auto simp: set_remove1_eq)
  have type: "wn_type (ns m) = wn_type (lw_nodes w m)" "m \<notin> set xs \<union> set ss \<Longrightarrow> ns m = lw_nodes w m" for m
    using w'(2) by (auto simp: same_nodes_def)
  have "\<exists>u \<in> T. (p(t := Running)) u \<noteq> Running \<and> x = wnode e u \<and>
      wn_type (ns x) = WAIT_THREAD (tid e u)" if x: "x \<in> set (remove1 (wnode e t) xs)" for x
  proof -
    have x: "x \<in> set xs" "x \<noteq> wnode e t" using x sub(2) by auto
    then obtain u where "u \<in> T" "p u \<noteq> Running" "x = wnode e u"
      "wn_type (lw_nodes w x) = WAIT_THREAD (tid e u)" using ok by (auto simp: waiting_ok_def)
    moreover have "u \<noteq> t" using calculation(3) x(2) by auto
    ultimately show ?thesis using type(1) by (intro bexI [of _ u]) auto
  qed
  moreover have "cleared (ns (wnode e u))"
    if "u \<in> T" "(p(t := Running)) u \<noteq> Running" "wnode e u \<notin> set (remove1 (wnode e t) xs)" for u
  proof -
    have u: "u \<noteq> t" "p u \<noteq> Running" using that by (auto split: if_splits)
    then have "wnode e u \<notin> set xs" using that inj sub(2) by auto
    moreover have "wnode e u \<notin> set ss" using ok that(1) by (auto simp: waiting_ok_def)
    ultimately show ?thesis using ok that(1) u type(2) by (simp add: waiting_ok_def)
  qed
  moreover have "cleared (ns (snode e u))"
    if "u \<in> T" "timed ((p(t := Running)) u)" "snode e u \<notin> set ?ss" for u
  proof -
    have u: "u \<noteq> t" "timed (p u)" using that by (auto split: if_splits)
    then have "snode e u \<notin> set ss" using that inj [of u] d by (auto simp: set_remove1_eq split: if_splits)
    then show ?thesis using ok that(1) u type(2) waiting_ok_snode [OF ok env that(1)]
      by (simp add: waiting_ok_def)
  qed
  moreover have "timed ((p(t := Running)) u)" if u: "u \<in> T" "snode e u \<in> set ?ss" for u
  proof (cases "u = t")
    case True
    have "timed (p t)" using u True ok sub(1) by (auto simp: waiting_ok_def)
    then show ?thesis using u True t(2) d by (simp add: set_remove1_eq)
  next
    case False
    then show ?thesis using u ok sub(1) by (auto simp: waiting_ok_def)
  qed
  moreover have "set (remove1 (wnode e t) xs) \<inter> set ?ss = {}" "\<forall>u \<in> T. wnode e u \<notin> set ?ss"
    using ok sub by (auto simp: waiting_ok_def disjoint_iff)
  ultimately show ?thesis unfolding waiting_ok_def using ss' w'(1) by simp
qed

lemma waiting_ok_wake:
  assumes ok: "waiting_ok e T p w xs ss" and env: "env_ok e T"
    and w': "sleep_queue w' = sleep_queue w" "lw_nodes w' = ns"
      "\<forall>m. m \<notin> set (drop k xs) \<longrightarrow>
         ns m = (if m \<in> set (take k xs) then clear_node (lw_nodes w m) else lw_nodes w m)"
      "\<forall>m. wn_type (ns m) = wn_type (lw_nodes w m)"
  shows "waiting_ok e T p w' (drop k xs) ss"
proof -
  have sub: "set (drop k xs) \<subseteq> set xs" "set (take k xs) \<subseteq> set xs"
    "set xs = set (take k xs) \<union> set (drop k xs)"
    using set_append [of "take k xs" "drop k xs"] unfolding append_take_drop_id by blast+
  have same: "ns m = lw_nodes w m" if "m \<notin> set xs" for m
    using that sub w'(3) by auto
  have "wq_rel (sleep_queue w) ns ss"
    using ok by (auto simp: waiting_ok_def disjoint_iff intro: wq_rel_cong same)
  moreover have "cleared (ns (wnode e u))"
    if "u \<in> T" "p u \<noteq> Running" "wnode e u \<notin> set (drop k xs)" for u
  proof (cases "wnode e u \<in> set xs")
    case True
    then show ?thesis using that(3) sub(3) w'(3) by simp
  next
    case False
    then show ?thesis using ok that same by (simp add: waiting_ok_def)
  qed
  moreover have "cleared (ns (snode e u))" if "u \<in> T" "timed (p u)" "snode e u \<notin> set ss" for u
    using ok that same waiting_ok_snode [OF ok env that(1)] by (simp add: waiting_ok_def)
  moreover have "set (drop k xs) \<inter> set ss = {}" using ok sub(1) by (auto simp: waiting_ok_def)
  moreover have "\<exists>t \<in> T. p t \<noteq> Running \<and> x = wnode e t \<and> wn_type (ns x) = WAIT_THREAD (tid e t)"
    if "x \<in> set (drop k xs)" for x
    using ok w'(4) sub(1) that by (auto simp: waiting_ok_def)
  ultimately show ?thesis unfolding waiting_ok_def using w'(1,2) ok
    by (simp add: waiting_ok_def)
qed

section \<open>Every part keeps the invariant\<close>

text \<open>Taking the mutex, when the loop of \<open>do_acquire_mutex\<close> ends.\<close>

lemma owner_ok_acquire:
  assumes "owner_ok e T m h" and "env_ok e T" and "t \<in> T"
    and "holder m = - 1 \<or> holder m = tid e t \<and> m_flags m AND MUTEX_RECURSIVE \<noteq> 0"
  shows "owner_ok e T (m\<lparr> holder := tid e t, recursive_count := recursive_count m + 1 \<rparr>) (h(t := h t + 1))"
proof -
  have neg: "tid e t \<noteq> - 1" using assms(2,3) by (simp add: env_ok_def)
  show ?thesis
  proof (cases "holder m = - 1")
    case True
    then show ?thesis using assms(1,3) neg by (auto simp: owner_ok_def)
  next
    case False
    then obtain u where u: "u \<in> T" "tid e t = tid e u" "recursive_count m = int (h u)"
      "\<forall>v. v \<noteq> u \<longrightarrow> h v = 0" using assms(1,4) by (auto simp: owner_ok_def)
    then have "u = t" using assms(2,3) by (simp add: env_ok_def inj_on_def)
    then show ?thesis using u assms(3,4) neg False by (auto simp: owner_ok_def)
  qed
qed

definition part_ok ::
    "lock_env \<Rightarrow> addr set \<Rightarrow> int \<Rightarrow> addr \<Rightarrow> pc_t \<Rightarrow> (addr \<Rightarrow> pc_t) \<Rightarrow> (addr \<Rightarrow> nat)
     \<Rightarrow> unit progress \<times> lock_world \<Rightarrow> bool" where
  "part_ok e T i t p q h rw \<longleftrightarrow>
     (\<exists>m xs ss. mutex_state e T i (q(t := if fst rw = Sleep then p else Running))
        (h(t := h t + (if fst rw = Return (Inr ()) then 1 else 0))) (snd rw) m xs ss \<and>
        pending_ok e T (q(t := if fst rw = Sleep then p else Running)) m xs) \<and>
     (ctx_locked (snd rw) \<longleftrightarrow> fst rw \<noteq> Sleep)"

lemma acquire_loop_ok:
  assumes st: "mutex_state e T i q h w m xs ss" and env: "env_ok e T" and t: "t \<in> T" "q t = Running"
    and run: "runs e t w" and ctx: "ctx_locked w"
  shows "\<exists>rw. acquire_loop e t i timeout wakeup try now w = Some rw \<and>
    part_ok e T i t (Waiting timeout wakeup flags) q h rw"
proof -
  have tab: "lock_table w i = Some (Mutex m)" and wq: "wq_rel (m_waiters m) (lw_nodes w) xs"
    and ok: "waiting_ok e T q w xs ss" and own: "owner_ok e T m h" and sch: "sched_idle e w"
    using st by (auto simp: mutex_state_def)
  have q: "q(t := Running) = q" using t(2) by auto
  have neg: "tid e t \<noteq> - 1" using env t(1) by (simp add: env_ok_def)
  have fail: "part_ok e T i t (Waiting timeout wakeup flags) q h (Return (Inl err), w)"
    if "holder m \<noteq> - 1" for err
    using that st ctx q by (auto simp: part_ok_def pending_ok_def)
  consider (take) "holder m = - 1 \<or> holder m = tid e t \<and> m_flags m AND MUTEX_RECURSIVE \<noteq> 0"
    | (busy) "holder m \<noteq> - 1" "\<not> (holder m = tid e t \<and> m_flags m AND MUTEX_RECURSIVE \<noteq> 0)"
        "try \<or> timeout \<noteq> INFINITE_TIMEOUT \<and> wakeup \<le> now"
    | (sleep) "holder m \<noteq> - 1" "\<not> (holder m = tid e t \<and> m_flags m AND MUTEX_RECURSIVE \<noteq> 0)"
        "\<not> try" "\<not> (timeout \<noteq> INFINITE_TIMEOUT \<and> wakeup \<le> now)"
    by blast
  then show ?thesis
  proof cases
    case take
    let ?m = "m\<lparr> holder := tid e t, recursive_count := recursive_count m + 1 \<rparr>"
    have "acquire_loop e t i timeout wakeup try now w = Some (Return (Inr ()), put_lock i (Mutex ?m) w)"
      using take tab by (auto simp: acquire_loop_def)
    moreover have "mutex_state e T i q (h(t := h t + 1)) (put_lock i (Mutex ?m) w) ?m xs ss"
      using owner_ok_acquire [OF own env t(1) take] wq ok sch
      by (simp add: mutex_state_def put_lock_def waiting_ok_def sched_idle_def)
    moreover have "pending_ok e T q ?m xs" using neg by (simp add: pending_ok_def)
    ultimately show ?thesis using q ctx by (auto simp: part_ok_def put_lock_def)
  next
    case busy
    then show ?thesis using tab fail by (auto simp: acquire_loop_def)
  next
    case sleep
    note out = waiting_ok_nodes [OF ok env t]
    have ss: "wq_rel (sleep_queue w) (lw_nodes w) ss" "set xs \<inter> set ss = {}"
      using ok by (auto simp: waiting_ok_def)
    obtain q' ns sq ss' where r: "wait_start e t i timeout wakeup w =
        Some (w\<lparr> lock_table := (lock_table w)(i \<mapsto> set_waiters q' (Mutex m)), lw_nodes := ns, sleep_queue := sq,
          lw_sched := thread_upd t (\<lambda>th. th\<lparr> t_state := THREAD_WAITING \<rparr>) (lw_sched w),
          blocking_semaphore := (blocking_semaphore w)(t := i), ctx_locked := False \<rparr>)"
        (is "_ = Some ?w")
      "wq_rel q' ns (xs @ [wnode e t])" "wq_rel sq ns ss'"
      "set ss' = (if timeout \<noteq> INFINITE_TIMEOUT then insert (snode e t) (set ss) else set ss)"
      "wn_type (ns (wnode e t)) = WAIT_THREAD (tid e t)"
      "\<forall>m. m \<noteq> wnode e t \<longrightarrow> m \<noteq> snode e t \<longrightarrow> wn_type (ns m) = wn_type (lw_nodes w m)"
      "\<forall>m. m \<notin> set xs \<longrightarrow> m \<notin> set ss \<longrightarrow> m \<noteq> wnode e t \<longrightarrow> m \<noteq> snode e t \<longrightarrow> ns m = lw_nodes w m"
      using wait_start_spec [OF run ctx tab, of xs ss timeout wakeup] wq ss out by auto
    have "waiting_ok e T (q(t := Waiting timeout wakeup flags)) ?w (xs @ [wnode e t]) ss'"
      by (rule waiting_ok_start [OF ok env t _ r(4) _ r(5-7)]) (use r(3) in auto)
    moreover have "sched_idle e ?w" using sched_idle_sleep [OF run] by simp
    ultimately have "mutex_state e T i (q(t := Waiting timeout wakeup flags)) h ?w
        (m\<lparr> m_waiters := q' \<rparr>) (xs @ [wnode e t]) ss'"
      using r(2) own by (simp add: mutex_state_def owner_ok_def)
    moreover have "pending_ok e T (q(t := Waiting timeout wakeup flags)) (m\<lparr> m_waiters := q' \<rparr>)
        (xs @ [wnode e t])" using sleep(1) by (simp add: pending_ok_def)
    moreover have "acquire_loop e t i timeout wakeup try now w = Some (Sleep, ?w)"
      using sleep tab r(1) by (auto simp: acquire_loop_def)
    ultimately show ?thesis by (auto simp: part_ok_def)
  qed
qed

lemma acquire_resume_ok:
  assumes st: "mutex_state e T i q h w m xs ss" and env: "env_ok e T"
    and t: "t \<in> T" "q t = Waiting timeout wakeup flags" and run: "runs e t w" and ctx: "\<not> ctx_locked w"
  shows "\<exists>rw. acquire_resume e t i timeout wakeup flags now sig w = Some rw \<and>
    part_ok e T i t (Waiting timeout wakeup flags) q h rw"
proof -
  have tab: "lock_table w i = Some (Mutex m)" and wq: "wq_rel (m_waiters m) (lw_nodes w) xs"
    and ok: "waiting_ok e T q w xs ss" and own: "owner_ok e T m h" and sch: "sched_idle e w"
    using st by (auto simp: mutex_state_def)
  have ss: "wq_rel (sleep_queue w) (lw_nodes w) ss" "set xs \<inter> set ss = {}"
    and nodes: "wnode e t \<in> set xs \<or> cleared (lw_nodes w (wnode e t))" "wnode e t \<notin> set ss"
      "timeout \<noteq> INFINITE_TIMEOUT \<Longrightarrow> snode e t \<in> set ss \<or> cleared (lw_nodes w (snode e t))"
    using ok t by (auto simp: waiting_ok_def)
  let ?ss = "if timeout \<noteq> INFINITE_TIMEOUT then remove1 (snode e t) ss else ss"
  obtain q' ns sq where r: "wait_resume e t MUTEX i timeout w =
      Some (Inr (), w\<lparr> lock_table := (lock_table w)(i \<mapsto> set_waiters q' (Mutex m)), lw_nodes := ns,
        sleep_queue := sq, blocking_semaphore := (blocking_semaphore w)(t := - 1), ctx_locked := True \<rparr>)"
      (is "_ = Some (_, ?w)")
    "wq_rel q' ns (remove1 (wnode e t) xs)" "wq_rel sq ns ?ss"
    "same_nodes (set xs \<union> set ss) (lw_nodes w) ns"
    using wait_resume_spec [OF sch ctx tab, of MUTEX xs ss t timeout] wq ss nodes by auto
  have wok: "waiting_ok e T (q(t := Running)) ?w (remove1 (wnode e t) xs) ?ss"
    by (rule waiting_ok_resume [OF ok env t wq_distinct [OF wq] wq_distinct [OF ss(1)] _ _ r(4)])
      (use r(3) in auto)
  have st': "mutex_state e T i (q(t := Running)) h ?w (m\<lparr> m_waiters := q' \<rparr>) (remove1 (wnode e t) xs) ?ss"
    using wok r(2) own sch by (simp add: mutex_state_def owner_ok_def sched_idle_def)
  have run': "runs e t ?w" using run by (simp add: runs_def sched_idle_def)
  have again: "\<exists>rw. acquire_loop e t i timeout wakeup False now ?w = Some rw \<and>
      part_ok e T i t (Waiting timeout wakeup flags) q h rw"
    using acquire_loop_ok [OF st' env t(1) _ run', of timeout wakeup False now flags]
    by (simp add: part_ok_def)
  have fail: "part_ok e T i t (Waiting timeout wakeup flags) q h (Return (Inl err), ?w)"
    if "holder m \<noteq> - 1" for err
    using that st' unfolding part_ok_def
    by (intro conjI exI [of _ "m\<lparr> m_waiters := q' \<rparr>"] exI [of _ "remove1 (wnode e t) xs"] exI [of _ ?ss])
      (simp_all add: pending_ok_def)
  have "holder m \<noteq> - 1 \<and> (\<exists>err. acquire_resume e t i timeout wakeup flags now sig w =
        Some (Return (Inl err), ?w)) \<or>
      acquire_resume e t i timeout wakeup flags now sig w =
        acquire_loop e t i timeout wakeup False now ?w"
    using r(1) by (simp add: acquire_resume_def)
  then show ?thesis using again fail by metis
qed

text \<open>Leaving the lock function after a part.\<close>

lemma leave_ok:
  assumes "part_ok e T i t p (pc s) (held s) rw"
  shows "\<exists>rw'. leave rw = Some rw' \<and> mutex_inv e T i (after_lock t p rw' s)"
proof (cases "fst rw")
  case (Return r)
  let ?w = "(snd rw)\<lparr> ctx_locked := False \<rparr>"
  have c: "ctx_locked (snd rw)" using assms Return by (simp add: part_ok_def)
  have "leave rw = Some (Return r, ?w)" using c Return by (cases rw) (simp add: leave_def ctx_unlock_def)
  moreover have "mutex_inv e T i (after_lock t p (Return r, ?w) s)"
    using assms Return
    by (auto simp: part_ok_def mutex_inv_def after_lock_def mutex_state_def sched_idle_def waiting_ok_def)
  ultimately show ?thesis by blast
next
  case Sleep
  then have "leave rw = Some rw" by (cases rw) (simp add: leave_def)
  then show ?thesis using assms Sleep by (auto simp: part_ok_def mutex_inv_def after_lock_def)
qed

lemma do_lock_mutex_start_ok:
  assumes inv: "mutex_inv e T i s" and env: "env_ok e T" and t: "t \<in> T" "pc s t = Running"
    and run: "runs e t (world s)"
  shows "\<exists>rw. do_lock_mutex_start e t i try timeout now (world s) = Some rw \<and>
    mutex_inv e T i (after_lock t (Waiting timeout (now + timeout) flags) rw s)"
proof -
  obtain m xs ss where st: "mutex_state e T i (pc s) (held s) (world s) m xs ss"
    and ctx: "\<not> ctx_locked (world s)" using inv by (auto simp: mutex_inv_def)
  let ?w = "(world s)\<lparr> ctx_locked := True \<rparr>" and ?p = "Waiting timeout (now + timeout) flags"
  have tab: "lock_table (world s) i = Some (Mutex m)" using st by (simp add: mutex_state_def)
  have st': "mutex_state e T i (pc s) (held s) ?w m xs ss"
    using st by (simp add: mutex_state_def sched_idle_def waiting_ok_def)
  have run': "runs e t ?w" using run by (simp add: runs_def sched_idle_def)
  let ?dead = "holder m = tid e t \<and> timeout = INFINITE_TIMEOUT \<and> \<not> try \<and> m_flags m AND MUTEX_RECURSIVE = 0"
  have start: "do_lock_mutex_start e t i try timeout now (world s) =
      (if ?dead then leave (Return (Inl EDEADLK), ?w)
       else do { rw \<leftarrow> acquire_loop e t i timeout (now + timeout) try now ?w; leave rw })"
    using ctx tab by (simp add: do_lock_mutex_start_def ctx_lock_def lock_context_get_def)
  show ?thesis
  proof (cases ?dead)
    case True
    have "tid e t \<noteq> - 1" using env t(1) by (simp add: env_ok_def)
    then have "pending_ok e T (pc s) m xs" using True by (simp add: pending_ok_def)
    then have "part_ok e T i t ?p (pc s) (held s) (Return (Inl EDEADLK), ?w)"
      using st' t(2) by (auto simp: part_ok_def fun_upd_idem)
    then show ?thesis using leave_ok start True by simp
  next
    case False
    obtain rw where "acquire_loop e t i timeout (now + timeout) try now ?w = Some rw"
      "part_ok e T i t ?p (pc s) (held s) rw"
      using acquire_loop_ok [OF st' env t run', of timeout "now + timeout" "try" now flags] by auto
    then show ?thesis using leave_ok start False by simp
  qed
qed

lemma do_lock_mutex_resume_ok:
  assumes inv: "mutex_inv e T i s" and env: "env_ok e T"
    and t: "t \<in> T" "pc s t = Waiting timeout wakeup flags" and run: "runs e t (world s)"
  shows "\<exists>rw. do_lock_mutex_resume e t i timeout wakeup flags now sig (world s) = Some rw \<and>
    mutex_inv e T i (after_lock t (Waiting timeout wakeup flags) rw s)"
proof -
  obtain m xs ss where st: "mutex_state e T i (pc s) (held s) (world s) m xs ss"
    and ctx: "\<not> ctx_locked (world s)" using inv by (auto simp: mutex_inv_def)
  obtain rw where "acquire_resume e t i timeout wakeup flags now sig (world s) = Some rw"
    "part_ok e T i t (Waiting timeout wakeup flags) (pc s) (held s) rw"
    using acquire_resume_ok [OF st env t run ctx, of now sig] by blast
  then show ?thesis using leave_ok by (simp add: do_lock_mutex_resume_def)
qed

text \<open>Releasing the mutex: the owner's count goes down by one; at zero the mutex is free and the first
  waiter is taken off the queue and made ready.\<close>

lemma do_release_mutex_ok:
  assumes st: "mutex_state e T i q h w m xs ss" and env: "env_ok e T" and t: "t \<in> T" "holder m = tid e t"
  shows "\<exists>w' m' xs'. do_release_mutex e i m w = Some w' \<and>
    mutex_state e T i q (h(t := h t - 1)) w' m' xs' ss \<and> pending_ok e T q m' xs' \<and>
    ctx_locked w' = ctx_locked w \<and>
    (holder m' = - 1 \<longrightarrow> xs \<noteq> [] \<longrightarrow> (\<exists>u \<in> T. hd xs = wnode e u \<and> in_scheduler (threads (lw_sched w') u)))"
proof -
  have tab: "lock_table w i = Some (Mutex m)" and wq: "wq_rel (m_waiters m) (lw_nodes w) xs"
    and ok: "waiting_ok e T q w xs ss" and own: "owner_ok e T m h" and sch: "sched_idle e w"
    using st by (auto simp: mutex_state_def)
  have neg: "holder m \<noteq> - 1" using env t by (simp add: env_ok_def)
  obtain u where u: "u \<in> T" "holder m = tid e u" "recursive_count m = int (h u)" "0 < h u"
    "\<forall>v. v \<noteq> u \<longrightarrow> h v = 0" using own neg by (auto simp: owner_ok_def)
  have "u = t" using u(1,2) t env by (simp add: env_ok_def inj_on_def)
  note u = u [unfolded this]
  show ?thesis
  proof (cases "h t = 1")
    case False
    let ?m = "m\<lparr> recursive_count := recursive_count m - 1 \<rparr>"
    have "do_release_mutex e i m w = Some (put_lock i (Mutex ?m) w)"
      using False u(3) by (simp add: do_release_mutex_def Let_def)
    moreover have "mutex_state e T i q (h(t := h t - 1)) (put_lock i (Mutex ?m) w) ?m xs ss"
      using st u own neg False t
      by (auto simp: mutex_state_def put_lock_def sched_idle_def waiting_ok_def owner_ok_def)
    moreover have "pending_ok e T q ?m xs" using neg by (simp add: pending_ok_def)
    ultimately show ?thesis using neg
      by (intro exI [of _ "put_lock i (Mutex ?m) w"] exI [of _ ?m] exI [of _ xs]) (simp add: put_lock_def)
  next
    case True
    have cb: "\<forall>x \<in> set xs. \<not> is_callback (lw_nodes w x)"
      using ok by (fastforce simp: waiting_ok_def is_callback_def)
    obtain q' ns s' where r: "wake_waiters e (Some 1) (m_waiters m) w =
        Some (q', w\<lparr> lw_nodes := ns, lw_sched := s' \<rparr>)" (is "_ = Some (_, ?w1)")
      "wq_rel q' ns (drop 1 xs)" "sched_idle e (w\<lparr> lw_nodes := ns, lw_sched := s' \<rparr>)"
      "\<forall>t \<in> node_threads (thr e) (lw_nodes w) (take 1 xs). in_scheduler (threads s' t)"
      "\<forall>m. m \<notin> set (drop 1 xs) \<longrightarrow>
         ns m = (if m \<in> set (take 1 xs) then clear_node (lw_nodes w m) else lw_nodes w m)"
      "\<forall>m. wn_type (ns m) = wn_type (lw_nodes w m)"
      using wake_waiters_spec [OF sch wq cb, of "Some 1"] by (auto simp: wake_count_def)
    let ?m = "m\<lparr> recursive_count := recursive_count m - 1, holder := - 1, m_waiters := q' \<rparr>"
    let ?w = "put_lock i (Mutex ?m) ?w1"
    have "do_release_mutex e i m w = Some ?w"
      using True u(3) r(1) by (simp add: do_release_mutex_def Let_def)
    moreover have "waiting_ok e T q ?w (drop 1 xs) ss"
      by (rule waiting_ok_wake [OF ok env _ _ r(5,6)]) (simp_all add: put_lock_def)
    then have "mutex_state e T i q (h(t := h t - 1)) ?w ?m (drop 1 xs) ss"
      using r(2,3) True u own by (auto simp: mutex_state_def put_lock_def owner_ok_def sched_idle_def)
    moreover have woken: "\<exists>v \<in> T. q v \<noteq> Running \<and> hd xs = wnode e v \<and> wnode e v \<notin> set (drop 1 xs) \<and>
        in_scheduler (threads s' v)" if ne: "xs \<noteq> []"
    proof -
      obtain y ys where xs: "xs = y # ys" using ne by (cases xs) auto
      obtain v where v: "v \<in> T" "q v \<noteq> Running" "y = wnode e v"
        "wn_type (lw_nodes w y) = WAIT_THREAD (tid e v)" using ok xs by (auto simp: waiting_ok_def)
      have "thr e (tid e v) = Some v" using env v(1) by (simp add: env_ok_def)
      then have "v \<in> node_threads (thr e) (lw_nodes w) (take 1 xs)"
        using v xs by (auto simp: node_threads_def)
      then show ?thesis using v xs r(4) wq_distinct [OF wq] by auto
    qed
    moreover have "pending_ok e T q ?m (drop 1 xs)"
      unfolding pending_ok_def using woken by (metis drop_Nil)
    ultimately show ?thesis
      by (intro exI [of _ ?w] exI [of _ ?m] exI [of _ "drop 1 xs"]) (auto simp: put_lock_def)
  qed
qed

lemma owner_ok_held:
  assumes "owner_ok e T m h" and "env_ok e T" and "t \<in> T"
  shows "holder m = tid e t \<longleftrightarrow> 0 < h t"
proof (cases "holder m = - 1")
  case True
  then show ?thesis using assms by (auto simp: owner_ok_def env_ok_def)
next
  case False
  then obtain u where u: "u \<in> T" "holder m = tid e u" "0 < h u" "\<forall>v. v \<noteq> u \<longrightarrow> h v = 0"
    using assms(1) by (auto simp: owner_ok_def)
  have "tid e u = tid e t \<longleftrightarrow> u = t" using assms(2,3) u(1) by (auto simp: env_ok_def inj_on_def)
  then show ?thesis using u by (cases "u = t") auto
qed

lemma do_mutex_unlock_ok:
  assumes inv: "mutex_inv e T i s" and env: "env_ok e T" and t: "t \<in> T"
  shows "\<exists>r w. do_mutex_unlock e t i (world s) = Some (r, w) \<and>
    mutex_inv e T i (s\<lparr> world := w, held := (held s)(t := held s t - (if r = Inr () then 1 else 0)) \<rparr>) \<and>
    (r = Inr () \<longleftrightarrow> 0 < held s t)"
proof -
  obtain m xs ss where st: "mutex_state e T i (pc s) (held s) (world s) m xs ss"
    and pend: "pending_ok e T (pc s) m xs" and ctx: "\<not> ctx_locked (world s)"
    using inv by (auto simp: mutex_inv_def)
  let ?w = "(world s)\<lparr> ctx_locked := True \<rparr>"
  have st': "mutex_state e T i (pc s) (held s) ?w m xs ss"
    using st by (simp add: mutex_state_def sched_idle_def waiting_ok_def)
  have tab: "lock_table (world s) i = Some (Mutex m)" and own: "owner_ok e T m (held s)"
    using st by (auto simp: mutex_state_def)
  have mine: "holder m = tid e t \<longleftrightarrow> 0 < held s t"
    using own env t by (rule owner_ok_held)
  show ?thesis
  proof (cases "holder m = tid e t")
    case False
    then have "do_mutex_unlock e t i (world s) = Some (Inl EPERM, world s)"
      using ctx tab by (simp add: do_mutex_unlock_def ctx_lock_def lock_context_get_def ctx_unlock_def)
    then show ?thesis using inv mine False by (cases s) (simp add: fun_upd_idem)
  next
    case True
    from do_release_mutex_ok [OF st' env t True] obtain w' m' xs' where
      r: "do_release_mutex e i m ?w = Some w'"
        "mutex_state e T i (pc s) ((held s)(t := held s t - 1)) w' m' xs' ss"
        "pending_ok e T (pc s) m' xs'" "ctx_locked w'" by auto
    have "do_mutex_unlock e t i (world s) = Some (Inr (), w'\<lparr> ctx_locked := False \<rparr>)"
      using ctx tab True r(1,4)
      by (simp add: do_mutex_unlock_def ctx_lock_def lock_context_get_def ctx_unlock_def)
    moreover have "mutex_state e T i (pc s) ((held s)(t := held s t - 1))
        (w'\<lparr> ctx_locked := False \<rparr>) m' xs' ss"
      using r(2) by (simp add: mutex_state_def sched_idle_def waiting_ok_def)
    ultimately show ?thesis using r(3) mine True by (auto simp: mutex_inv_def)
  qed
qed

inductive_cases mutex_stepE: "mutex_step e T i s s'"

lemma mutex_step_inv:
  assumes "mutex_step e T i s s'" and inv: "mutex_inv e T i s" and env: "env_ok e T"
  shows "mutex_inv e T i s'"
  using assms(1)
proof cases
  case (lock t "try" timeout now rw flags)
  then show ?thesis
    using do_lock_mutex_start_ok [OF inv env lock(2-4), of "try" timeout now flags] by auto
next
  case (resume t timeout wakeup flags now sig rw)
  then show ?thesis using do_lock_mutex_resume_ok [OF inv env resume(2-4), of now sig] by auto
next
  case (unlock t r w)
  then show ?thesis using do_mutex_unlock_ok [OF inv env unlock(2)] by auto
next
  case (sched sc)
  then show ?thesis using inv by (auto simp: mutex_inv_def mutex_state_def waiting_ok_def)
qed

text \<open>The states to start from: the mutex has just been created, no thread waits on it, and none of
  the nodes is in the sleep queue.\<close>

definition mutex_new :: "lock_env \<Rightarrow> addr set \<Rightarrow> int \<Rightarrow> mutex_sys \<Rightarrow> bool" where
  "mutex_new e T i s \<longleftrightarrow> \<not> ctx_locked (world s) \<and> sched_idle e (world s) \<and>
     (\<exists>m. lock_table (world s) i = Some (Mutex m) \<and> holder m = - 1 \<and> recursive_count m = 0 \<and>
        m_waiters m = init_waitqueue) \<and>
     (\<exists>ss. wq_rel (sleep_queue (world s)) (lw_nodes (world s)) ss \<and>
        (\<forall>t \<in> T. wnode e t \<notin> set ss \<and> snode e t \<notin> set ss)) \<and>
     (\<forall>t. pc s t = Running \<and> held s t = 0)"

lemma mutex_new_inv:
  assumes "mutex_new e T i s"
  shows "mutex_inv e T i s"
proof -
  obtain m ss where m: "lock_table (world s) i = Some (Mutex m)" "holder m = - 1"
    "recursive_count m = 0" "m_waiters m = init_waitqueue"
    and ss: "wq_rel (sleep_queue (world s)) (lw_nodes (world s)) ss"
      "\<forall>t \<in> T. wnode e t \<notin> set ss \<and> snode e t \<notin> set ss"
    and idle: "\<not> ctx_locked (world s)" "sched_idle e (world s)" "\<forall>t. pc s t = Running \<and> held s t = 0"
    using assms unfolding mutex_new_def by blast
  have "mutex_state e T i (pc s) (held s) (world s) m [] ss"
    using m ss idle
    by (simp add: mutex_state_def waiting_ok_def owner_ok_def wq_rel_def init_waitqueue_def)
  moreover have "pending_ok e T (pc s) m []" by (simp add: pending_ok_def)
  ultimately show ?thesis using idle(1) by (auto simp: mutex_inv_def)
qed

lemma mutex_reachable_inv:
  assumes "(mutex_step e T i)\<^sup>*\<^sup>* s s'" and "env_ok e T" and "mutex_new e T i s"
  shows "mutex_inv e T i s'"
  using assms by (induction rule: rtranclp_induct) (auto intro: mutex_new_inv mutex_step_inv)

section \<open>Properties of mutexes\<close>

text \<open>C33: mutual exclusion. In every state that threads reach by locking (blocking, trying or with
  a timeout), waking up and unlocking one mutex in any interleaving, at most one thread holds it, the
  recursion count of the mutex is the number of its outstanding lock calls, and a mutex that is not
  recursive is held at most once.\<close>

theorem mutex_mutual_exclusion:
  assumes "env_ok e T" and "mutex_new e T i s0" and "(mutex_step e T i)\<^sup>*\<^sup>* s0 s"
  shows "\<exists>m. lock_table (world s) i = Some (Mutex m) \<and>
    (\<forall>t u. 0 < held s t \<longrightarrow> 0 < held s u \<longrightarrow> t = u) \<and>
    (\<forall>t \<in> T. holder m = tid e t \<longleftrightarrow> 0 < held s t) \<and>
    (\<forall>t. 0 < held s t \<longrightarrow> recursive_count m = int (held s t)) \<and>
    (m_flags m AND MUTEX_RECURSIVE = 0 \<longrightarrow> (\<forall>t. held s t \<le> 1))"
proof -
  obtain m where m: "lock_table (world s) i = Some (Mutex m)" "owner_ok e T m (held s)"
    using mutex_reachable_inv [OF assms(3,1,2)] by (auto simp: mutex_inv_def mutex_state_def)
  moreover have "t = u" if "0 < held s t" "0 < held s u" for t u
    using that m(2) unfolding owner_ok_def by (metis less_numeral_extra(3))
  moreover have "recursive_count m = int (held s t)" if "0 < held s t" for t
    using that m(2) unfolding owner_ok_def by (metis less_numeral_extra(3))
  ultimately show ?thesis using owner_ok_held [OF m(2) assms(1)] by (auto simp: owner_ok_def)
qed

text \<open>No part of a lock function trips an assertion of the kernel, in any reachable state: locking
  and unlocking by a running thread and waking up of a waiting thread return, and unlocking fails
  (with \<open>EPERM\<close>) exactly when the thread does not hold the mutex.\<close>

theorem mutex_parts_return:
  assumes "env_ok e T" and "mutex_new e T i s0" and "(mutex_step e T i)\<^sup>*\<^sup>* s0 s"
    and "t \<in> T" and "runs e t (world s)"
  shows "(pc s t = Running \<longrightarrow> (\<forall>try timeout now. \<exists>r w.
        do_lock_mutex_start e t i try timeout now (world s) = Some (r, w))) \<and>
    (\<forall>timeout wakeup flags. pc s t = Waiting timeout wakeup flags \<longrightarrow> (\<forall>now sig. \<exists>r w.
        do_lock_mutex_resume e t i timeout wakeup flags now sig (world s) = Some (r, w))) \<and>
    (\<exists>w. do_mutex_unlock e t i (world s) = Some (if 0 < held s t then Inr () else Inl EPERM, w))"
proof -
  have inv: "mutex_inv e T i s" using mutex_reachable_inv [OF assms(3,1,2)] .
  have "\<exists>w. do_mutex_unlock e t i (world s) = Some (if 0 < held s t then Inr () else Inl EPERM, w)"
  proof -
    obtain r w where r: "do_mutex_unlock e t i (world s) = Some (r, w)" "r = Inr () \<longleftrightarrow> 0 < held s t"
      using do_mutex_unlock_ok [OF inv assms(1,4)] by metis
    have "r = Inl EPERM" if "r \<noteq> Inr ()"
      using r(1) that inv
      by (auto simp: mutex_inv_def mutex_state_def do_mutex_unlock_def ctx_lock_def lock_context_get_def
          ctx_unlock_def split: if_splits bind_splits)
    then show ?thesis using r by auto
  qed
  then show ?thesis
    using do_lock_mutex_start_ok [OF inv assms(1,4) _ assms(5)]
      do_lock_mutex_resume_ok [OF inv assms(1,4) _ assms(5)] by (metis surj_pair)
qed


end
