(* ===== verification/Kernel_Sync.thy ===== *)
theory Kernel_Sync
  imports Kernel_Lock_Safety
begin

text \<open>
  Properties of the lock contexts, condition variables and semaphores of \<open>Kernel_Lock\<close>, a concrete
  system of two threads that shows the hypotheses of the mutex theorems to be satisfiable, and the
  behaviour of the error paths after a wait.
\<close>

section \<open>A system of two threads\<close>

definition demo_env :: lock_env where
  "demo_env = \<lparr> tid = int, thr = (\<lambda>j. if j \<in> {1, 2} then Some (nat j) else None),
     wnode = (\<lambda>t. t + 10), snode = (\<lambda>t. t + 20) \<rparr>"

definition demo_node :: "int \<Rightarrow> waitnode_t" where
  "demo_node j = \<lparr> wn_type = WAIT_THREAD j, wakeup_time = 0, in_queue = False, wn_prev = None, wn_next = None \<rparr>"

definition demo_sched :: sched_t where
  "demo_sched = \<lparr> first_ready = None, last_ready = None, first_expired = None, last_expired = None,
     threads = (\<lambda>t. \<lparr> queue_next = None, t_state = THREAD_RUNNING, in_scheduler = False, quantum = 0,
       exec_time = 0, cpu_time = 0, in_system = False, sys_time = 0, user_time = 0, prev_checkpoint = 0 \<rparr>),
     sched_locked = False, idle_thread = 0, idle_time = 0, current_thread = Some 1 \<rparr>"

definition demo_world :: "(int \<Rightarrow> lock_obj option) \<Rightarrow> lock_world" where
  "demo_world tab = \<lparr> ctx_locked = False, next_lock_id = 5, lock_table = tab, lw_nodes = (\<lambda>_. demo_node 0),
     lw_sched = demo_sched, sleep_queue = init_waitqueue, blocking_semaphore = (\<lambda>_. - 1) \<rparr>"

definition demo_mutex :: lock_obj where
  "demo_mutex = Mutex \<lparr> m_flags = 0, recursive_count = 0, holder = - 1, m_waiters = init_waitqueue \<rparr>"

definition demo_sys :: mutex_sys where
  "demo_sys = \<lparr> world = demo_world [0 \<mapsto> demo_mutex], pc = (\<lambda>_. Running), held = (\<lambda>_. 0) \<rparr>"

lemmas demo_defs = demo_env_def demo_node_def demo_sched_def demo_world_def demo_mutex_def demo_sys_def

lemma demo_env_ok: "env_ok demo_env {1, 2}"
  by (auto simp: env_ok_def demo_env_def inj_on_def)

lemma demo_sched_inv: "sched_inv demo_sched [] []"
  by (simp add: sched_inv_def queue_ok_def demo_sched_def)

lemma demo_idle: "sched_idle demo_env (demo_world tab)"
  using demo_sched_inv by (auto simp: sched_idle_def demo_world_def demo_env_def thr_ok_def demo_sched_def)

lemma demo_runs: "runs demo_env t (demo_world tab)"
  using demo_idle by (simp add: runs_def demo_world_def demo_sched_def)

lemma demo_empty: "wq_rel init_waitqueue ns []"
  by (simp add: wq_rel_def init_waitqueue_def)

lemma demo_new: "mutex_new demo_env {1, 2} 0 demo_sys"
proof -
  have "wq_rel (sleep_queue (world demo_sys)) (lw_nodes (world demo_sys)) []"
    using demo_empty by (simp add: demo_sys_def demo_world_def)
  then show ?thesis using demo_idle unfolding mutex_new_def
    by (intro conjI exI [of _ "[] :: addr list"]) (simp_all add: demo_sys_def demo_world_def demo_mutex_def)
qed

text \<open>Thread 1 takes the mutex.\<close>

definition demo_locked :: mutex_sys where
  "demo_locked = after_lock 1 (Waiting INFINITE_TIMEOUT INFINITE_TIMEOUT 0) (Return (Inr ()), demo_world [0 \<mapsto>
     Mutex \<lparr> m_flags = 0, recursive_count = 1, holder = 1, m_waiters = init_waitqueue \<rparr>]) demo_sys"

lemma demo_step: "mutex_step demo_env {1, 2} 0 demo_sys demo_locked"
proof -
  let ?w = "demo_world [0 \<mapsto> Mutex \<lparr> m_flags = 0, recursive_count = 1, holder = 1, m_waiters = init_waitqueue \<rparr>]"
  have "do_lock_mutex_start demo_env 1 0 False INFINITE_TIMEOUT 0 (world demo_sys) = Some (Return (Inr ()), ?w)"
    by (simp add: do_lock_mutex_start_def ctx_lock_def lock_context_get_def acquire_loop_def leave_def
        ctx_unlock_def put_lock_def demo_defs)
  from mutex_step.lock [of 1 "{1, 2}" demo_sys, OF _ _ _ this, of 0]
  show ?thesis using demo_runs [of 1 "[0 \<mapsto> demo_mutex]"]
    by (simp add: demo_locked_def demo_sys_def INFINITE_TIMEOUT_def)
qed

theorem mutex_mutual_exclusion_witness:
  "held demo_locked 1 = 1 \<and> (\<exists>m. lock_table (world demo_locked) 0 = Some (Mutex m) \<and>
     (\<forall>t u. 0 < held demo_locked t \<longrightarrow> 0 < held demo_locked u \<longrightarrow> t = u))"
  using mutex_mutual_exclusion [OF demo_env_ok demo_new r_into_rtranclp [of "mutex_step demo_env {1, 2} 0", OF demo_step]]
  by (auto simp: demo_locked_def after_lock_def demo_sys_def)

theorem mutex_parts_return_witness:
  "\<exists>w. do_mutex_unlock demo_env 1 0 (world demo_locked) = Some (Inr (), w)"
proof -
  have "runs demo_env 1 (world demo_locked)" using demo_runs by (simp add: demo_locked_def after_lock_def)
  from mutex_parts_return [OF demo_env_ok demo_new r_into_rtranclp [of "mutex_step demo_env {1, 2} 0", OF demo_step] _ this]
  show ?thesis by (simp add: demo_locked_def after_lock_def demo_sys_def)
qed


section \<open>Lock contexts\<close>

text \<open>Creating a lock ends with an id that no lock of the context has, also after the id counter
  has wrapped around, as long as one of the ids is free; the new lock is found under that id and the
  others are unchanged. Without memory nothing changes.\<close>

theorem lock_create_fresh:
  assumes "\<not> ctx_locked w" and "0 \<le> next_lock_id w" and "next_lock_id w < 2147483648"
    and "lock_table w j = None" and "0 \<le> j" and "j < 2147483648"
  shows "\<exists>i n. do_create_mutex ok flags w = (if ok then Some (Inr i, w\<lparr> next_lock_id := n,
        lock_table := (lock_table w)(i \<mapsto> Mutex \<lparr> m_flags = flags, recursive_count = 0, holder = - 1,
          m_waiters = init_waitqueue \<rparr>) \<rparr>) else Some (Inl ENOMEM, w)) \<and>
    lock_table w i = None \<and> 0 \<le> i \<and> i < 2147483648 \<and> 0 \<le> n \<and> n < 2147483648"
proof -
  obtain i where i: "fresh_id (lock_table w) (next_lock_id w) = Some (i, next_id i)"
    "lock_table w i = None" "0 \<le> i" "i < 2147483648"
    using fresh_id_ok [of "lock_table w" j "next_lock_id w"] assms by blast
  have "0 \<le> next_id i" "next_id i < 2147483648" using i(3,4) by (auto simp: next_id_def next_id_below_def)
  then show ?thesis using assms(1) i
    by (intro exI [of _ i] exI [of _ "next_id i"])
      (simp add: do_create_mutex_def lock_context_insert_def ctx_lock_def ctx_unlock_def put_lock_def)
qed

theorem lock_create_fresh_witness:
  "\<exists>i w'. do_create_mutex True 1 (demo_world [5 \<mapsto> demo_mutex]) = Some (Inr i, w') \<and> i \<noteq> 5"
proof -
  let ?w = "demo_world [5 \<mapsto> demo_mutex]"
  obtain i w' where "do_create_mutex True 1 ?w = Some (Inr i, w')" "lock_table ?w i = None"
    using lock_create_fresh [of ?w 0 True 1] by (auto simp: demo_world_def)
  then show ?thesis by (auto simp: demo_world_def split: if_splits)
qed

section \<open>Condition variables\<close>

text \<open>A running thread that holds a mutex, a condition, and the queues on both.\<close>

definition wait_state ::
    "lock_env \<Rightarrow> addr \<Rightarrow> int \<Rightarrow> int \<Rightarrow> lock_world \<Rightarrow> mutex_t \<Rightarrow> condition_t
     \<Rightarrow> addr list \<Rightarrow> addr list \<Rightarrow> addr list \<Rightarrow> bool" where
  "wait_state e t c i w m cond xs ys ss \<longleftrightarrow> runs e t w \<and> \<not> ctx_locked w \<and>
     lock_table w c = Some (Condition cond) \<and> lock_table w i = Some (Mutex m) \<and>
     wq_rel (m_waiters m) (lw_nodes w) xs \<and> wq_rel (c_waiters cond) (lw_nodes w) ys \<and>
     wq_rel (sleep_queue w) (lw_nodes w) ss \<and> distinct (wnode e t # snode e t # xs @ ys @ ss) \<and>
     (\<forall>x \<in> set (xs @ ys). \<not> is_callback (lw_nodes w x)) \<and>
     t \<notin> node_threads (thr e) (lw_nodes w) xs \<and> thr e (tid e t) = Some t"

lemma do_release_mutex_last:
  assumes "sched_idle e w" and "wq_rel (m_waiters m) (lw_nodes w) xs"
    and "\<forall>x \<in> set xs. \<not> is_callback (lw_nodes w x)" and "recursive_count m = 1"
  shows "\<exists>q ns s. do_release_mutex e i m w = Some (put_lock i
        (Mutex (m\<lparr> recursive_count := 0, holder := - 1, m_waiters := q \<rparr>)) (w\<lparr> lw_nodes := ns, lw_sched := s \<rparr>)) \<and>
    wq_rel q ns (drop 1 xs) \<and> sched_idle e (w\<lparr> lw_nodes := ns, lw_sched := s \<rparr>) \<and>
    (\<forall>u \<in> node_threads (thr e) (lw_nodes w) (take 1 xs). in_scheduler (threads s u)) \<and>
    (\<forall>u. u \<noteq> idle_thread (lw_sched w) \<longrightarrow> \<not> in_scheduler (threads (lw_sched w) u) \<longrightarrow>
       u \<notin> node_threads (thr e) (lw_nodes w) (take 1 xs) \<longrightarrow> \<not> in_scheduler (threads s u)) \<and>
    (\<forall>x. x \<notin> set xs \<longrightarrow> ns x = lw_nodes w x) \<and> (\<forall>x. wn_type (ns x) = wn_type (lw_nodes w x))"
proof -
  obtain q ns s where r: "wake_waiters e (Some 1) (m_waiters m) w = Some (q, w\<lparr> lw_nodes := ns, lw_sched := s \<rparr>)"
    "wq_rel q ns (drop 1 xs)" "sched_idle e (w\<lparr> lw_nodes := ns, lw_sched := s \<rparr>)"
    "\<forall>u \<in> node_threads (thr e) (lw_nodes w) (take 1 xs). in_scheduler (threads s u)"
    "\<forall>u. u \<noteq> idle_thread (lw_sched w) \<longrightarrow> \<not> in_scheduler (threads (lw_sched w) u) \<longrightarrow>
       u \<notin> node_threads (thr e) (lw_nodes w) (take 1 xs) \<longrightarrow> \<not> in_scheduler (threads s u)"
    "\<forall>x. x \<notin> set (drop 1 xs) \<longrightarrow>
       ns x = (if x \<in> set (take 1 xs) then clear_node (lw_nodes w x) else lw_nodes w x)"
    "\<forall>x. wn_type (ns x) = wn_type (lw_nodes w x)"
    using wake_waiters_spec [OF assms(1-3), of "Some 1"] by (auto simp: wake_count_def)
  have "\<forall>x. x \<notin> set xs \<longrightarrow> ns x = lw_nodes w x"
    using r(6) in_set_takeD [of _ 1 xs] in_set_dropD [of _ 1 xs] by metis
  moreover have "do_release_mutex e i m w = Some (put_lock i
      (Mutex (m\<lparr> recursive_count := 0, holder := - 1, m_waiters := q \<rparr>)) (w\<lparr> lw_nodes := ns, lw_sched := s \<rparr>))"
    using assms(4) r(1) by (simp add: do_release_mutex_def Let_def)
  ultimately show ?thesis using r(2-5,7) by blast
qed

text \<open>What a wake-up by \<open>do_signal_condition\<close> (one waiter) or \<open>do_broadcast_condition\<close> (all) does.\<close>

lemma condition_wake:
  assumes "sched_idle e w" and "\<not> ctx_locked w" and "lock_table w c = Some (Condition cond)"
    and "wq_rel (c_waiters cond) (lw_nodes w) ys" and "\<forall>x \<in> set ys. \<not> is_callback (lw_nodes w x)"
  shows "(\<exists>w'. do_signal_condition e c w = Some (Inr (), w') \<and> \<not> ctx_locked w' \<and>
      (\<forall>u \<in> node_threads (thr e) (lw_nodes w) (take 1 ys). in_scheduler (threads (lw_sched w') u))) \<and>
    (\<exists>w'. do_broadcast_condition e c w = Some (Inr (), w') \<and> \<not> ctx_locked w' \<and>
      (\<forall>u \<in> node_threads (thr e) (lw_nodes w) ys. in_scheduler (threads (lw_sched w') u)))"
proof -
  let ?w = "w\<lparr> ctx_locked := True \<rparr>"
  have idle: "sched_idle e ?w" using assms(1) by (simp add: sched_idle_def)
  have "\<exists>q ns s. wake_waiters e n (c_waiters cond) ?w = Some (q, ?w\<lparr> lw_nodes := ns, lw_sched := s \<rparr>) \<and>
      (\<forall>u \<in> node_threads (thr e) (lw_nodes w) (take (wake_count n ys) ys). in_scheduler (threads s u))"
    if "n \<noteq> Some 0" for n
    using wake_waiters_spec [OF idle, of "c_waiters cond" ys n] assms(4,5) that by auto
  from this [of "Some 1"] this [of None] show ?thesis using assms(2,3)
    by (auto simp: do_signal_condition_def do_broadcast_condition_def ctx_lock_def lock_context_get_def
        ctx_unlock_def put_lock_def wake_count_def)
qed


definition demo_cond :: "int \<Rightarrow> lock_obj option" where
  "demo_cond = [0 \<mapsto> Mutex \<lparr> m_flags = 0, recursive_count = 1, holder = 1, m_waiters = init_waitqueue \<rparr>,
     1 \<mapsto> Condition \<lparr> c_waiters = init_waitqueue \<rparr>]"


section \<open>Semaphores\<close>


definition demo_sem :: "int \<Rightarrow> lock_obj option" where
  "demo_sem = [3 \<mapsto> Semaphore \<lparr> s_count = 2, initial_count = 2, s_waiters = init_waitqueue \<rparr>]"


text \<open>after a semaphore has been destroyed, a thread that was waiting on it returns \<open>EINVAL\<close> with
  the spinlock of the lock context still held: the next use of any lock of the context by any thread
  spins forever (a fault of the model). A thread that was waiting on a destroyed mutex reads the freed
  mutex.\<close>

theorem destroyed_lock_waiters:
  assumes "lock_table w i = None" and "\<not> ctx_locked w"
  shows "(\<exists>w'. do_lock_semaphore_resume e t i c INFINITE_TIMEOUT wakeup flags now sig w =
        Some (Return (Inl EINVAL), w') \<and> ctx_locked w' \<and>
        do_mutex_unlock e u j w' = None \<and> do_unlock_semaphore e j n w' = None \<and>
        do_lock_mutex_start e u j try timeout now' w' = None) \<and>
    do_lock_mutex_resume e t i INFINITE_TIMEOUT wakeup flags now sig w = None"
  using assms
  by (simp add: do_lock_semaphore_resume_def wait_resume_def lock_wait_on_resume_def ctx_lock_def
      lock_context_get_def do_mutex_unlock_def do_unlock_semaphore_def do_lock_mutex_start_def
      do_lock_mutex_resume_def acquire_resume_def)

theorem destroyed_lock_waiters_witness:
  "\<exists>w'. do_lock_semaphore_resume demo_env 1 9 1 INFINITE_TIMEOUT 0 0 0 False (demo_world demo_sem) =
     Some (Return (Inl EINVAL), w') \<and> do_mutex_unlock demo_env 2 0 w' = None"
  using destroyed_lock_waiters [of "demo_world demo_sem" 9 demo_env 1 1 0 0 0 False 2 0 1 True 0 0]
  by (auto simp: demo_world_def demo_sem_def)

end
