(* ===== verification/Kernel_Pages.thy ===== *)
theory Kernel_Pages
  imports Kernel_Prelude
begin

text \<open>
  The physical page allocator, \<^verbatim>\<open>source/kernel/src/mm/pages.c\<close>: an array with a reference count
  for every page of memory, and memory types that are ranges of it. Addresses and sizes are natural
  numbers below \<open>2 ^ 32\<close>, with the wrap-around of \<^verbatim>\<open>ptr_t\<close> arithmetic written out. A failed
  assertion, a panic and an access outside the page array are faults (\<open>None\<close>); \<^verbatim>\<open>NULL\<close> as a result
  is the inner \<open>None\<close>.
\<close>

section \<open>Data\<close>

definition PAGE_SIZE :: nat where
  "PAGE_SIZE = 4096"

definition PAGE_ALIGN :: "nat \<Rightarrow> nat" where
  "PAGE_ALIGN n = u32_of (n + PAGE_SIZE - 1) div PAGE_SIZE * PAGE_SIZE"

definition MAX_MEMORY_TYPES :: nat where
  "MAX_MEMORY_TYPES = 4"

definition MEM_COMMON :: int where
  "MEM_COMMON = 0"

record memory_type_desc_t =
  md_free :: bool
  md_start :: nat
  md_size :: nat

record page_state =
  memory_size :: nat
  memory_pages :: "int list"
  memory_descriptors :: "memory_type_desc_t list"

section \<open>Operations\<close>

definition get_memory_descriptor :: "page_state \<Rightarrow> nat \<Rightarrow> memory_type_desc_t option" where
  "get_memory_descriptor s address =
     List.find (\<lambda>d. \<not> md_free d \<and> md_start d \<le> address \<and> address - md_start d < md_size d)
       (memory_descriptors s)"

text \<open>Setting and clearing \<open>n\<close> reference counts from an index on; clearing requires that they
  are 1.\<close>

primrec mark_pages :: "nat \<Rightarrow> nat \<Rightarrow> int list \<Rightarrow> int list option" where
  "mark_pages 0 k ps = Some ps"
| "mark_pages (Suc n) k ps = (if k < length ps then mark_pages n (Suc k) (ps[k := 1]) else None)"

primrec clear_pages :: "nat \<Rightarrow> nat \<Rightarrow> int list \<Rightarrow> int list option" where
  "clear_pages 0 k ps = Some ps"
| "clear_pages (Suc n) k ps =
     (if k < length ps \<and> ps ! k = 1 then clear_pages n (Suc k) (ps[k := 0]) else None)"

text \<open>The search loop of \<open>do_alloc_pages\<close>: the result is the start of a free run.\<close>

function alloc_scan ::
    "int list \<Rightarrow> nat \<Rightarrow> nat \<Rightarrow> nat \<Rightarrow> nat \<Rightarrow> bool \<Rightarrow> nat \<Rightarrow> nat \<Rightarrow> nat option option" where
  "alloc_scan ps base count page_count i found region_start free_page_count =
     (if \<not> i < page_count then Some None
      else if \<not> base + i < length ps then None
      else if ps ! (base + i) = 0 then
        let region_start = (if found then region_start else i);
            free_page_count = (if found then free_page_count + 1 else 1)
        in if free_page_count = count then Some (Some region_start)
           else alloc_scan ps base count page_count (i + 1) True region_start free_page_count
      else alloc_scan ps base count page_count (i + 1) False region_start free_page_count)"
  by pat_completeness auto
termination
  by (relation "measure (\<lambda>(ps, base, count, page_count, i, _). page_count - i)") auto

declare alloc_scan.simps [simp del]

definition do_alloc_pages ::
    "memory_type_desc_t \<Rightarrow> nat \<Rightarrow> page_state \<Rightarrow> (nat option \<times> page_state) option" where
  "do_alloc_pages desc count s =
     (let page_count = md_size desc div PAGE_SIZE; base = md_start desc div PAGE_SIZE in
      if page_count < count then Some (None, s)
      else do {
        r \<leftarrow> alloc_scan (memory_pages s) base count page_count 0 False 0 0;
        case r of
          None \<Rightarrow> Some (None, s)
        | Some region_start \<Rightarrow> do {
            ps \<leftarrow> mark_pages count (base + region_start) (memory_pages s);
            Some (Some (u32_of (md_start desc + region_start * PAGE_SIZE)), s\<lparr> memory_pages := ps \<rparr>) } })"

definition alloc_pages :: "nat \<Rightarrow> int \<Rightarrow> page_state \<Rightarrow> (nat option \<times> page_state) option" where
  "alloc_pages count mem_type s =
     (if \<not> (0 \<le> mem_type \<and> nat mem_type < MAX_MEMORY_TYPES) then None
      else let desc = memory_descriptors s ! nat mem_type in
      if md_free desc then None else do_alloc_pages desc count s)"

text \<open>The loop of \<open>do_alloc_pages_aligned\<close>. The index \<open>i\<close> counts pages of the region, and the code
  uses it as an index into the array of all pages.\<close>

primrec all_free :: "nat \<Rightarrow> nat \<Rightarrow> int list \<Rightarrow> bool option" where
  "all_free 0 k ps = Some True"
| "all_free (Suc n) k ps =
     (if k < length ps then if ps ! k \<noteq> 0 then Some False else all_free n (Suc k) ps else None)"

partial_function (option) aligned_scan ::
    "int list \<Rightarrow> nat \<Rightarrow> nat \<Rightarrow> nat \<Rightarrow> nat \<Rightarrow> nat option option" where
  "aligned_scan ps count step end_page i =
     (if \<not> i < end_page then Some None
      else do {
        free \<leftarrow> all_free count i ps;
        if free then Some (Some i) else aligned_scan ps count step end_page (u32_of (i + step)) })"

definition do_alloc_pages_aligned ::
    "memory_type_desc_t \<Rightarrow> nat \<Rightarrow> nat \<Rightarrow> page_state \<Rightarrow> (nat option \<times> page_state) option" where
  "do_alloc_pages_aligned desc count alignment s =
     (let start = (if md_start desc mod alignment \<noteq> 0 then u32_of (ALIGN (md_start desc) alignment)
                   else md_start desc);
          step = u32_of (ALIGN (u32_of (count * PAGE_SIZE)) alignment) div PAGE_SIZE;
          start_page = u32_of (start + 4294967296 - md_start desc) div PAGE_SIZE;
          end_page = md_size desc div PAGE_SIZE
      in do {
        r \<leftarrow> aligned_scan (memory_pages s) count step end_page start_page;
        case r of
          None \<Rightarrow> Some (None, s)
        | Some i \<Rightarrow> do {
            ps \<leftarrow> mark_pages count i (memory_pages s);
            Some (Some (u32_of (md_start desc + i * PAGE_SIZE)), s\<lparr> memory_pages := ps \<rparr>) } })"

definition alloc_pages_aligned ::
    "nat \<Rightarrow> int \<Rightarrow> nat \<Rightarrow> page_state \<Rightarrow> (nat option \<times> page_state) option" where
  "alloc_pages_aligned count mem_type alignment s =
     (if \<not> (0 \<le> mem_type \<and> nat mem_type < MAX_MEMORY_TYPES) then None
      else if alignment mod PAGE_SIZE \<noteq> 0 then None
      else let desc = memory_descriptors s ! nat mem_type in
      if md_free desc then None else do_alloc_pages_aligned desc count alignment s)"

definition free_pages :: "nat option \<Rightarrow> nat \<Rightarrow> page_state \<Rightarrow> page_state option" where
  "free_pages address count s = do {
     address \<leftarrow> address;
     if memory_size s \<le> address then None
     else do {
       _ \<leftarrow> get_memory_descriptor s address;
       ps \<leftarrow> clear_pages count (address div PAGE_SIZE) (memory_pages s);
       Some (s\<lparr> memory_pages := ps \<rparr>) } }"

definition get_free_page_count :: "page_state \<Rightarrow> nat" where
  "get_free_page_count s =
     u32_of (length (filter (\<lambda>r. r = 0) (take (memory_size s div PAGE_SIZE) (memory_pages s))))"

definition get_total_page_count :: "page_state \<Rightarrow> nat" where
  "get_total_page_count s = u32_of (memory_size s div PAGE_SIZE)"

primrec reserve_loop :: "nat \<Rightarrow> nat \<Rightarrow> int list \<Rightarrow> int list option" where
  "reserve_loop 0 k ps = Some ps"
| "reserve_loop (Suc n) k ps =
     (if k < length ps then reserve_loop n (Suc k) (if ps ! k = 0 then ps[k := ps ! k + 1] else ps)
      else None)"

definition reserve_memory_pages :: "nat \<Rightarrow> nat \<Rightarrow> page_state \<Rightarrow> page_state option" where
  "reserve_memory_pages start sz s =
     (if start mod PAGE_SIZE \<noteq> 0 \<or> sz mod PAGE_SIZE \<noteq> 0 \<or> memory_size s < u32_of (start + sz) then None
      else do {
        d \<leftarrow> get_memory_descriptor s start;
        if md_size d < u32_of (start - md_start d + sz) then None
        else do {
          ps \<leftarrow> reserve_loop (sz div PAGE_SIZE) (start div PAGE_SIZE) (memory_pages s);
          Some (s\<lparr> memory_pages := ps \<rparr>) } })"

definition register_memory_type :: "int \<Rightarrow> nat \<Rightarrow> nat \<Rightarrow> page_state \<Rightarrow> (errno + unit) \<times> page_state" where
  "register_memory_type mem_type start sz s =
     (if mem_type < 0 \<or> MAX_MEMORY_TYPES \<le> nat mem_type then (Inl EINVAL, s)
      else if \<not> md_free (memory_descriptors s ! nat mem_type) then (Inl EBUSY, s)
      else (Inr (), s\<lparr> memory_descriptors := (memory_descriptors s)[nat mem_type :=
        \<lparr> md_free = False, md_start = start, md_size = sz \<rparr>] \<rparr>))"

definition init_page_allocator :: "nat \<Rightarrow> page_state" where
  "init_page_allocator sz = \<lparr> memory_size = sz,
     memory_pages = replicate (sz div PAGE_SIZE) 0,
     memory_descriptors = replicate MAX_MEMORY_TYPES \<lparr> md_free = True, md_start = 0, md_size = 0 \<rparr> \<rparr>"

text \<open>\<open>page_map_address\<close> is where the page array itself lies, with 4 bytes per page.\<close>

definition init_page_allocator_late :: "nat \<Rightarrow> page_state \<Rightarrow> page_state option" where
  "init_page_allocator_late page_map_address s =
     reserve_memory_pages page_map_address
       (PAGE_ALIGN (memory_size s div PAGE_SIZE * 4)) s"

section \<open>Free runs\<close>

text \<open>\<open>run ps base count page_count r\<close>: the \<open>count\<close> pages from page \<open>r\<close> of a region are free and inside
  it.\<close>

definition run :: "int list \<Rightarrow> nat \<Rightarrow> nat \<Rightarrow> nat \<Rightarrow> nat \<Rightarrow> bool" where
  "run ps base count page_count r \<longleftrightarrow> r + count \<le> page_count \<and> (\<forall>k < count. ps ! (base + r + k) = 0)"

lemma run_page: "run ps base count pc r \<Longrightarrow> r \<le> k \<Longrightarrow> k < r + count \<Longrightarrow> ps ! (base + k) = 0"
  unfolding run_def by (metis add.assoc le_add_diff_inverse less_diff_conv2 add.commute)

text \<open>The state of the scan before page \<open>i\<close>: no run ends at or before \<open>i\<close>, and the pages since
  \<open>region_start\<close> are free while the page before it, if any, is not.\<close>

definition scan_inv :: "int list \<Rightarrow> nat \<Rightarrow> nat \<Rightarrow> nat \<Rightarrow> bool \<Rightarrow> nat \<Rightarrow> nat \<Rightarrow> bool" where
  "scan_inv ps base count i found rs fc \<longleftrightarrow> (\<forall>r. \<not> run ps base count i r) \<and>
     (if found then rs + fc = i \<and> fc < count \<and> (\<forall>k. rs \<le> k \<and> k < i \<longrightarrow> ps ! (base + k) = 0) \<and>
        (rs = 0 \<or> ps ! (base + (rs - 1)) \<noteq> 0)
      else i = 0 \<or> ps ! (base + (i - 1)) \<noteq> 0)"

lemma scan_inv_free:
  assumes inv: "scan_inv ps base count i found rs fc" and free: "ps ! (base + i) = 0" and c: "0 < count"
  defines "rs' \<equiv> if found then rs else i" and "fc' \<equiv> if found then fc + 1 else 1"
  shows "rs' + fc' = i + 1" "\<forall>k. rs' \<le> k \<and> k < i + 1 \<longrightarrow> ps ! (base + k) = 0" "fc' \<le> count"
    "rs' = 0 \<or> ps ! (base + (rs' - 1)) \<noteq> 0"
    "fc' \<noteq> count \<Longrightarrow> scan_inv ps base count (i + 1) True rs' fc'"
proof -
  show a: "rs' + fc' = i + 1" "fc' \<le> count" and d: "rs' = 0 \<or> ps ! (base + (rs' - 1)) \<noteq> 0"
    using inv c by (auto simp: scan_inv_def rs'_def fc'_def)
  have b: "ps ! (base + k) = 0" if "rs' \<le> k" "k < i + 1" for k
    using that inv free by (cases "k = i") (auto simp: scan_inv_def rs'_def split: if_splits)
  then show "\<forall>k. rs' \<le> k \<and> k < i + 1 \<longrightarrow> ps ! (base + k) = 0" by blast
  assume ne: "fc' \<noteq> count"
  have "\<not> run ps base count (i + 1) r" for r
  proof
    assume run: "run ps base count (i + 1) r"
    show False
    proof (cases "r + count \<le> i")
      case True
      then have "run ps base count i r" using run by (simp add: run_def)
      then show False using inv by (simp add: scan_inv_def)
    next
      case False
      then have "r + count = i + 1" using run by (simp add: run_def)
      then have r: "r < rs'" "rs' - 1 < r + count" "r \<le> rs' - 1" using a ne by auto
      then show False using run_page [OF run r(3,2)] d by auto
    qed
  qed
  then show "scan_inv ps base count (i + 1) True rs' fc'"
    unfolding scan_inv_def using a b d ne by auto
qed

lemma scan_inv_used:
  assumes inv: "scan_inv ps base count i found rs fc" and used: "ps ! (base + i) \<noteq> 0" and c: "0 < count"
  shows "scan_inv ps base count (i + 1) False rs fc"
proof -
  have "\<not> run ps base count (i + 1) r" for r
  proof
    assume run: "run ps base count (i + 1) r"
    show False
    proof (cases "r + count \<le> i")
      case True
      then have "run ps base count i r" using run by (simp add: run_def)
      then show False using inv by (simp add: scan_inv_def)
    next
      case False
      then have "r \<le> i" "i < r + count" using run c by (auto simp: run_def)
      then show False using run_page [OF run, of i] used by simp
    qed
  qed
  then show ?thesis using used by (simp add: scan_inv_def)
qed

lemma run_mono: "run ps base count i r \<Longrightarrow> i \<le> j \<Longrightarrow> run ps base count j r"
  by (auto simp: run_def)

lemma alloc_scan_spec:
  assumes "base + page_count \<le> length ps" and "0 < count" and "i \<le> page_count"
    and "scan_inv ps base count i found rs fc"
  shows "case alloc_scan ps base count page_count i found rs fc of None \<Rightarrow> False
    | Some None \<Rightarrow> \<forall>r. \<not> run ps base count page_count r
    | Some (Some r) \<Rightarrow> run ps base count page_count r \<and> (\<forall>r' < r. \<not> run ps base count page_count r')"
  using assms
proof (induction ps base count page_count i found rs fc rule: alloc_scan.induct)
  case (1 ps base count page_count i found rs fc)
  note simp = alloc_scan.simps [of ps base count page_count i found rs fc]
  show ?case
  proof (cases "i < page_count")
    case False
    then have "alloc_scan ps base count page_count i found rs fc = Some None" by (simp add: simp)
    moreover have "i = page_count" using False "1.prems"(3) by simp
    ultimately show ?thesis using "1.prems"(4) by (simp add: scan_inv_def)
  next
    case lt: True
    then have bound: "base + i < length ps" using "1.prems"(1) by simp
    show ?thesis
    proof (cases "ps ! (base + i) = 0")
      case False
      have "scan_inv ps base count (i + 1) False rs fc"
        using scan_inv_used [OF "1.prems"(4) False "1.prems"(2)] .
      then show ?thesis using "1.IH"(2) lt bound False "1.prems" by (simp add: simp)
    next
      case free: True
      let ?rs = "if found then rs else i" and ?fc = "if found then fc + 1 else 1"
      note s = scan_inv_free [OF "1.prems"(4) free "1.prems"(2)]
      show ?thesis
      proof (cases "?fc = count")
        case True
        have "run ps base count page_count ?rs"
        proof -
          have "ps ! (base + ?rs + k) = 0" if "k < count" for k
            using s(2) [rule_format, of "?rs + k"] that s(1) True by (simp add: add.assoc)
          then show ?thesis using s(1) True lt unfolding run_def by auto
        qed
        moreover have "\<not> run ps base count page_count r" if "r < ?rs" for r
        proof
          assume "run ps base count page_count r"
          then have "run ps base count i r" using that s(1) True by (auto simp: run_def)
          then show False using "1.prems"(4) by (simp add: scan_inv_def)
        qed
        moreover have "alloc_scan ps base count page_count i found rs fc = Some (Some ?rs)"
          using lt bound free True by (simp add: simp Let_def)
        ultimately show ?thesis by simp
      next
        case False
        have "alloc_scan ps base count page_count i found rs fc =
            alloc_scan ps base count page_count (i + 1) True ?rs ?fc"
          using lt bound free False by (simp add: simp Let_def)
        then show ?thesis using "1.IH"(1) [OF _ _ free refl refl False] s(5) [OF False] lt bound "1.prems"
          by simp
      qed
    qed
  qed
qed

section \<open>Allocation and release\<close>

lemma mark_pages_eq:
  "k + n \<le> length ps \<Longrightarrow> mark_pages n k ps = Some (take k ps @ replicate n 1 @ drop (k + n) ps)"
proof (induction n arbitrary: k ps)
  case (Suc n)
  then have k: "k < length ps" by simp
  have "mark_pages n (Suc k) (ps[k := 1]) =
      Some (take (Suc k) (ps[k := 1]) @ replicate n 1 @ drop (Suc k + n) (ps[k := 1]))"
    using Suc by simp
  moreover have "take (Suc k) (ps[k := 1]) = take k ps @ [1]" using k by (simp add: take_Suc_nth)
  ultimately show ?case using k by simp
qed simp

lemma clear_pages_eq:
  "k + n \<le> length ps \<Longrightarrow> \<forall>j < n. ps ! (k + j) = 1 \<Longrightarrow>
   clear_pages n k ps = Some (take k ps @ replicate n 0 @ drop (k + n) ps)"
proof (induction n arbitrary: k ps)
  case (Suc n)
  then have k: "k < length ps" "ps ! k = 1" by (auto dest: spec [of _ 0])
  have "ps[k := 0] ! (Suc k + j) = 1" if "j < n" for j
    using Suc.prems(2) that by (auto dest: spec [of _ "Suc j"])
  then have "clear_pages n (Suc k) (ps[k := 0]) =
      Some (take (Suc k) (ps[k := 0]) @ replicate n 0 @ drop (Suc k + n) (ps[k := 0]))"
    using Suc.IH [of "Suc k" "ps[k := 0]"] Suc.prems(1) by simp
  moreover have "take (Suc k) (ps[k := 0]) = take k ps @ [0]" using k by (simp add: take_Suc_nth)
  ultimately show ?case using k by simp
qed simp

text \<open>A memory type lies inside the page array and below 4 GB.\<close>

definition desc_ok :: "memory_type_desc_t \<Rightarrow> page_state \<Rightarrow> bool" where
  "desc_ok d s \<longleftrightarrow> PAGE_SIZE dvd md_start d \<and> md_start d + md_size d \<le> PAGE_SIZE * length (memory_pages s) \<and>
     md_start d + md_size d \<le> 4294967296"

definition pages_inv :: "page_state \<Rightarrow> bool" where
  "pages_inv s \<longleftrightarrow> length (memory_descriptors s) = MAX_MEMORY_TYPES \<and>
     length (memory_pages s) = memory_size s div PAGE_SIZE \<and>
     (\<forall>d \<in> set (memory_descriptors s). md_free d \<or> desc_ok d s)"

lemma desc_pages:
  assumes "desc_ok d s"
  shows "md_start d div PAGE_SIZE + md_size d div PAGE_SIZE \<le> length (memory_pages s)"
proof -
  have "md_start d + md_size d div PAGE_SIZE * PAGE_SIZE \<le> PAGE_SIZE * length (memory_pages s)"
    using assms div_times_less_eq_dividend [of "md_size d" PAGE_SIZE] unfolding desc_ok_def by linarith
  moreover have "md_start d = md_start d div PAGE_SIZE * PAGE_SIZE"
    using assms by (simp add: desc_ok_def)
  ultimately have "(md_start d div PAGE_SIZE + md_size d div PAGE_SIZE) * PAGE_SIZE \<le>
      length (memory_pages s) * PAGE_SIZE" by (simp add: algebra_simps)
  then show ?thesis by (simp add: PAGE_SIZE_def)
qed

lemma do_alloc_pages_spec:
  assumes ok: "desc_ok d s" and c: "0 < count"
  defines "base \<equiv> md_start d div PAGE_SIZE" and "n \<equiv> md_size d div PAGE_SIZE"
  shows "if \<exists>r. run (memory_pages s) base count n r
    then \<exists>r. run (memory_pages s) base count n r \<and> (\<forall>r' < r. \<not> run (memory_pages s) base count n r') \<and>
      do_alloc_pages d count s = Some (Some (md_start d + r * PAGE_SIZE),
        s\<lparr> memory_pages := take (base + r) (memory_pages s) @ replicate count 1 @
             drop (base + r + count) (memory_pages s) \<rparr>)
    else do_alloc_pages d count s = Some (None, s)"
proof (cases "n < count")
  case True
  then have "\<not> run (memory_pages s) base count n r" for r by (simp add: run_def)
  then show ?thesis using True by (simp add: do_alloc_pages_def n_def)
next
  case False
  let ?scan = "alloc_scan (memory_pages s) base count n 0 False 0 0"
  have len: "base + n \<le> length (memory_pages s)"
    using desc_pages [OF ok] by (simp add: base_def n_def)
  have spec: "case ?scan of None \<Rightarrow> False | Some None \<Rightarrow> \<forall>r. \<not> run (memory_pages s) base count n r
    | Some (Some r) \<Rightarrow> run (memory_pages s) base count n r \<and> (\<forall>r' < r. \<not> run (memory_pages s) base count n r')"
    by (rule alloc_scan_spec [OF len c]) (use c in \<open>auto simp: scan_inv_def run_def\<close>)
  have eq: "do_alloc_pages d count s = do {
      r \<leftarrow> ?scan;
      case r of None \<Rightarrow> Some (None, s)
      | Some r \<Rightarrow> do {
          ps \<leftarrow> mark_pages count (base + r) (memory_pages s);
          Some (Some (u32_of (md_start d + r * PAGE_SIZE)), s\<lparr> memory_pages := ps \<rparr>) } }"
    using False unfolding n_def do_alloc_pages_def Let_def base_def by simp
  consider "?scan = Some None" "\<forall>r. \<not> run (memory_pages s) base count n r"
    | r where "?scan = Some (Some r)" "run (memory_pages s) base count n r"
        "\<forall>r' < r. \<not> run (memory_pages s) base count n r'"
    using spec by (auto split: option.splits)
  then show ?thesis
  proof cases
    case 1
    then show ?thesis using eq by simp
  next
    case (2 r)
    have "base + r + count \<le> length (memory_pages s)" using 2(2) len by (simp add: run_def)
    then have m: "mark_pages count (base + r) (memory_pages s) =
        Some (take (base + r) (memory_pages s) @ replicate count 1 @ drop (base + r + count) (memory_pages s))"
      by (rule mark_pages_eq)
    have "r * PAGE_SIZE < md_size d"
    proof -
      have "r + count \<le> n" using 2(2) by (simp add: run_def)
      then have "(r + 1) * PAGE_SIZE \<le> n * PAGE_SIZE" using c by (intro mult_le_mono1) simp
      then show ?thesis using div_times_less_eq_dividend [of "md_size d" PAGE_SIZE]
        by (simp add: n_def PAGE_SIZE_def)
    qed
    then have "u32_of (md_start d + r * PAGE_SIZE) = md_start d + r * PAGE_SIZE"
      using ok by (simp add: desc_ok_def)
    then have "do_alloc_pages d count s = Some (Some (md_start d + r * PAGE_SIZE),
        s\<lparr> memory_pages := take (base + r) (memory_pages s) @ replicate count 1 @
             drop (base + r + count) (memory_pages s) \<rparr>)"
      using eq 2(1) m by simp
    then show ?thesis using 2(2,3) by auto
  qed
qed

section \<open>Properties\<close>

lemma run_slice:
  assumes "run ps base count n r" and "base + n \<le> length ps"
  shows "ps = take (base + r) ps @ replicate count 0 @ drop (base + r + count) ps"
proof -
  have "take count (drop (base + r) ps) = replicate count 0"
    using assms by (intro nth_equalityI) (auto simp: run_def)
  then show ?thesis by (metis append_take_drop_id drop_drop add.commute)
qed

lemma mem_type_desc:
  assumes "pages_inv s" and "0 \<le> mt" and "nat mt < MAX_MEMORY_TYPES"
    and "\<not> md_free (memory_descriptors s ! nat mt)"
  shows "desc_ok (memory_descriptors s ! nat mt) s"
    "alloc_pages count mt s = do_alloc_pages (memory_descriptors s ! nat mt) count s"
  using assms by (auto simp: pages_inv_def alloc_pages_def)


definition demo_pages :: page_state where
  "demo_pages = \<lparr> memory_size = 16384, memory_pages = [1, 0, 0, 0],
     memory_descriptors = \<lparr> md_free = False, md_start = 0, md_size = 16384 \<rparr> #
       replicate 3 \<lparr> md_free = True, md_start = 0, md_size = 0 \<rparr> \<rparr>"

lemma demo_pages_inv: "pages_inv demo_pages"
  by (simp add: pages_inv_def demo_pages_def desc_ok_def PAGE_SIZE_def MAX_MEMORY_TYPES_def)


text \<open>allocating pages and freeing them again restores the allocator exactly, and the free passes all
  of its assertions.\<close>

theorem alloc_free_pages_roundtrip:
  assumes inv: "pages_inv s" and c: "0 < count" and mt: "0 \<le> mt" "nat mt < MAX_MEMORY_TYPES"
    and reg: "\<not> md_free (memory_descriptors s ! nat mt)"
    and alloc: "alloc_pages count mt s = Some (Some p, s')"
  shows "free_pages (Some p) count s' = Some s"
proof -
  define d where "d = memory_descriptors s ! nat mt"
  let ?ps = "memory_pages s" and ?b = "md_start d div PAGE_SIZE" and ?n = "md_size d div PAGE_SIZE"
  note dd = mem_type_desc [OF inv mt reg, folded d_def]
  have len: "?b + ?n \<le> length ?ps" using desc_pages [OF dd(1)] .
  obtain r where r: "run ?ps ?b count ?n r" "p = md_start d + r * PAGE_SIZE"
    "s' = s\<lparr> memory_pages := take (?b + r) ?ps @ replicate count 1 @ drop (?b + r + count) ?ps \<rparr>"
    using do_alloc_pages_spec [OF dd(1) c] alloc dd(2) by (auto split: if_splits)
  have le: "?b + r + count \<le> length ?ps" using r(1) len by (simp add: run_def)
  have pd: "p div PAGE_SIZE = ?b + r"
    using dd(1) by (auto simp: r(2) desc_ok_def PAGE_SIZE_def)
  have "p div PAGE_SIZE < memory_size s div PAGE_SIZE" using pd le c inv by (simp add: pages_inv_def)
  then have "\<not> memory_size s \<le> p" using div_le_mono [of "memory_size s" p PAGE_SIZE] by linarith
  moreover have "get_memory_descriptor s' p \<noteq> None"
  proof -
    have "r < ?n" using r(1) c by (simp add: run_def)
    then have "r * PAGE_SIZE < md_size d"
      using div_times_less_eq_dividend [of "md_size d" PAGE_SIZE] by (simp add: PAGE_SIZE_def)
    moreover have "d \<in> set (memory_descriptors s)" using mt inv by (simp add: d_def pages_inv_def)
    ultimately show ?thesis using reg unfolding get_memory_descriptor_def find_None_iff r(2,3) d_def [symmetric]
      by (auto intro!: exI [of _ d])
  qed
  moreover have "clear_pages count (p div PAGE_SIZE) (memory_pages s') = Some ?ps"
  proof -
    have "clear_pages count (?b + r) (memory_pages s') = Some (take (?b + r) (memory_pages s') @
        replicate count 0 @ drop (?b + r + count) (memory_pages s'))"
      by (rule clear_pages_eq) (use le in \<open>auto simp: r(3) nth_append\<close>)
    then show ?thesis using run_slice [OF r(1) len] le by (simp add: pd r(3))
  qed
  ultimately show ?thesis by (auto simp: free_pages_def r(3))
qed

theorem alloc_free_pages_roundtrip_witness:
  "\<exists>s'. alloc_pages 3 0 demo_pages = Some (Some 4096, s') \<and> free_pages (Some 4096) 3 s' = Some demo_pages"
proof -
  obtain s' where a: "alloc_pages 3 0 demo_pages = Some (Some 4096, s')"
    by (simp add: alloc_pages_def do_alloc_pages_def demo_pages_def PAGE_SIZE_def MAX_MEMORY_TYPES_def
        alloc_scan.simps numeral_3_eq_3)
  have "free_pages (Some 4096) 3 s' = Some demo_pages"
    by (rule alloc_free_pages_roundtrip [OF demo_pages_inv _ _ _ _ a])
      (simp_all add: demo_pages_def MAX_MEMORY_TYPES_def)
  with a show ?thesis by blast
qed

lemma mark_pages_other:
  "mark_pages n k ps = Some ps' \<Longrightarrow> j < k \<or> k + n \<le> j \<Longrightarrow> ps' ! j = ps ! j"
  by (induction n arbitrary: k ps) (auto split: if_splits)

lemma aligned_scan_bound:
  assumes "aligned_scan ps count st end_page i = Some (Some r)"
  shows "r < end_page"
proof -
  have "\<forall>q. Some r = Some q \<longrightarrow> q < end_page"
    by (rule aligned_scan.raw_induct [of "\<lambda>ps count st end_page i x. \<forall>q. x = Some q \<longrightarrow> q < end_page",
          OF _ assms]) (fastforce split: if_splits bind_splits)
  then show ?thesis by simp
qed

text \<open>Aligned allocation marks the wrong pages for a memory type that does not start at address 0. The
  pages it tests and marks are counted from the start of memory, the address it returns from the start
  of the type: when the type starts at or behind the \<open>count\<close>-th page, none of the pages handed out is
  marked as used.\<close>

theorem alloc_pages_aligned_unmarked:
  assumes alloc: "alloc_pages_aligned count mt alignment s = Some (Some p, s')"
    and ok: "desc_ok (memory_descriptors s ! nat mt) s"
    and off: "count * PAGE_SIZE \<le> md_start (memory_descriptors s ! nat mt)" and k: "k < count"
  shows "memory_pages s' ! (p div PAGE_SIZE + k) = memory_pages s ! (p div PAGE_SIZE + k)"
proof -
  define d where "d = memory_descriptors s ! nat mt"
  obtain i i' st ps where i: "aligned_scan (memory_pages s) count st (md_size d div PAGE_SIZE) i' = Some (Some i)"
      "mark_pages count i (memory_pages s) = Some ps"
      "p = u32_of (md_start d + i * PAGE_SIZE)" "s' = s\<lparr> memory_pages := ps \<rparr>"
    using alloc by (auto simp: alloc_pages_aligned_def do_alloc_pages_aligned_def Let_def d_def
        split: if_splits option.splits bind_splits)
  have "i < md_size d div PAGE_SIZE" using aligned_scan_bound [OF i(1)] by simp
  then have "i * PAGE_SIZE < md_size d"
    using div_times_less_eq_dividend [of "md_size d" PAGE_SIZE] by (simp add: PAGE_SIZE_def)
  then have p: "p = md_start d + i * PAGE_SIZE" using ok i(3) by (simp add: desc_ok_def d_def)
  have "p div PAGE_SIZE = md_start d div PAGE_SIZE + i" by (simp add: p PAGE_SIZE_def)
  moreover have "count \<le> md_start d div PAGE_SIZE"
    using off by (simp add: d_def PAGE_SIZE_def less_eq_div_iff_mult_less_eq)
  ultimately show ?thesis using mark_pages_other [OF i(2), of "p div PAGE_SIZE + k"] i(4) k by simp
qed

definition demo_dma :: page_state where
  "demo_dma = \<lparr> memory_size = 16384, memory_pages = [0, 0, 0, 0],
     memory_descriptors = \<lparr> md_free = False, md_start = 8192, md_size = 8192 \<rparr> #
       replicate 3 \<lparr> md_free = True, md_start = 0, md_size = 0 \<rparr> \<rparr>"

theorem alloc_pages_aligned_unmarked_witness:
  "\<exists>s'. alloc_pages_aligned 1 0 4096 demo_dma = Some (Some 8192, s') \<and> memory_pages s' ! 2 = 0"
proof -
  obtain s' where a: "alloc_pages_aligned 1 0 4096 demo_dma = Some (Some 8192, s')"
    by (simp add: alloc_pages_aligned_def do_alloc_pages_aligned_def demo_dma_def PAGE_SIZE_def
        MAX_MEMORY_TYPES_def aligned_scan.simps ALIGN_def)
  have "memory_pages s' ! (8192 div PAGE_SIZE + 0) = memory_pages demo_dma ! (8192 div PAGE_SIZE + 0)"
    by (rule alloc_pages_aligned_unmarked [OF a]) (simp_all add: demo_dma_def desc_ok_def PAGE_SIZE_def)
  with a show ?thesis by (simp add: PAGE_SIZE_def demo_dma_def)
qed

end
