(* ===== verification/Kernel_Kmalloc.thy ===== *)
theory Kernel_Kmalloc
  imports Kernel_Pages
begin

unbundle bit_operations_syntax

text \<open>
  The kernel heap, \<^verbatim>\<open>source/kernel/src/mm/kmalloc.c\<close> with \<^verbatim>\<open>kmalloc.h\<close>: a list of blocks of
  pages, each cut into chunks that tile it without gaps and are linked in both directions. The model
  keeps the headers (blocks and chunks by address) and the page allocator behind them, not the bytes
  of the payloads; barriers and debug output are disabled in \<^verbatim>\<open>config.h\<close>. A failed assertion or a
  panic is a fault (\<open>None\<close>), a \<^verbatim>\<open>NULL\<close> result is the inner \<open>None\<close>. The spinlock is taken and
  released by every operation on all of its paths and is left out.
\<close>

section \<open>Data\<close>

definition KMALLOC_BLOCK_SIZE :: nat where
  "KMALLOC_BLOCK_SIZE = 131072"

definition KMALLOC_ROOT_SIZE :: nat where
  "KMALLOC_ROOT_SIZE = 524288"

definition KMALLOC_BLOCK_MAGIC :: u32 where
  "KMALLOC_BLOCK_MAGIC = 0xCAFEBAB0"

definition KMALLOC_CHUNK_MAGIC :: u32 where
  "KMALLOC_CHUNK_MAGIC = 0xDEADBEE0"

definition CHUNK_FREE :: u32 where
  "CHUNK_FREE = 1"

record kmalloc_block_t =
  b_magic :: u32
  b_pages :: nat
  biggest_free :: nat
  b_next :: vptr

record kmalloc_chunk_t =
  ch_magic :: u32
  ch_size :: nat
  ch_block :: addr
  ch_prev :: vptr
  ch_next :: vptr

definition sizeof_block :: nat where
  "sizeof_block = 16"

definition sizeof_chunk :: nat where
  "sizeof_chunk = 20"

type_synonym chunks = "addr \<Rightarrow> kmalloc_chunk_t"

record kheap =
  kroot :: vptr
  kblocks :: "addr \<Rightarrow> kmalloc_block_t"
  kchunks :: chunks
  used_pages :: nat
  alloc_size :: nat
  kpages :: page_state

section \<open>Operations\<close>

definition kmalloc_block_validate :: "kmalloc_block_t \<Rightarrow> bool" where
  "kmalloc_block_validate b \<longleftrightarrow> b_magic b = KMALLOC_BLOCK_MAGIC"

definition kmalloc_chunk_validate :: "kmalloc_chunk_t \<Rightarrow> bool" where
  "kmalloc_chunk_validate c \<longleftrightarrow> ch_magic c AND 0xFFFFFFF0 = KMALLOC_CHUNK_MAGIC"

definition kmalloc_chunk_set_free :: "bool \<Rightarrow> kmalloc_chunk_t \<Rightarrow> kmalloc_chunk_t" where
  "kmalloc_chunk_set_free free c =
     c\<lparr> ch_magic := (if free then ch_magic c OR CHUNK_FREE else ch_magic c AND NOT CHUNK_FREE) \<rparr>"

definition kmalloc_chunk_is_free :: "kmalloc_chunk_t \<Rightarrow> bool" where
  "kmalloc_chunk_is_free c \<longleftrightarrow> ch_magic c AND CHUNK_FREE \<noteq> 0"

definition chunk_upd :: "addr \<Rightarrow> (kmalloc_chunk_t \<Rightarrow> kmalloc_chunk_t) \<Rightarrow> chunks \<Rightarrow> chunks" where
  "chunk_upd a f cs = cs(a := f (cs a))"

definition kmalloc_block_create :: "nat \<Rightarrow> kheap \<Rightarrow> (addr option \<times> kheap) option" where
  "kmalloc_block_create pages h = do {
     (block, ps) \<leftarrow> alloc_pages pages MEM_COMMON (kpages h);
     case block of
       None \<Rightarrow> Some (None, h\<lparr> kpages := ps \<rparr>)
     | Some block \<Rightarrow> do {
         let chunk = block + sizeof_block;
         let sz = pages * PAGE_SIZE - sizeof_block - sizeof_chunk;
         Some (Some block, h\<lparr> kpages := ps, used_pages := u32_of (used_pages h + pages),
           kblocks := (kblocks h)(block := \<lparr> b_magic = KMALLOC_BLOCK_MAGIC, b_pages = pages,
             biggest_free = sz, b_next = None \<rparr>),
           kchunks := (kchunks h)(chunk := kmalloc_chunk_set_free True \<lparr> ch_magic = KMALLOC_CHUNK_MAGIC,
             ch_size = sz, ch_block = block, ch_prev = None, ch_next = None \<rparr>) \<rparr>) } }"

text \<open>The two loops of \<open>__kmalloc_from_block\<close> over the chunks of a block.\<close>

partial_function (option) find_chunk :: "nat \<Rightarrow> chunks \<Rightarrow> vptr \<Rightarrow> addr option option" where
  "find_chunk sz cs p =
     (case p of None \<Rightarrow> Some None
      | Some c \<Rightarrow>
          if \<not> kmalloc_chunk_is_free (cs c) \<or> ch_size (cs c) < sz then
            if kmalloc_chunk_validate (cs c) then find_chunk sz cs (ch_next (cs c)) else None
          else Some (Some c))"

partial_function (option) biggest_loop :: "chunks \<Rightarrow> vptr \<Rightarrow> nat \<Rightarrow> nat option" where
  "biggest_loop cs p biggest =
     (case p of None \<Rightarrow> Some biggest
      | Some c \<Rightarrow>
          if kmalloc_chunk_validate (cs c) then
            biggest_loop cs (ch_next (cs c))
              (if kmalloc_chunk_is_free (cs c) \<and> biggest < ch_size (cs c) then ch_size (cs c) else biggest)
          else None)"

text \<open>Cutting the rest of a chunk off as a new free chunk, when it is worth it.\<close>

definition split_chunk :: "addr \<Rightarrow> nat \<Rightarrow> chunks \<Rightarrow> chunks" where
  "split_chunk chunk sz cs =
     (if u32_of (sz + sizeof_chunk + 4) < ch_size (cs chunk) then
        let remaining_size = ch_size (cs chunk) - sz - sizeof_chunk;
            cs = chunk_upd chunk (\<lambda>c. c\<lparr> ch_size := sz \<rparr>) cs;
            new_chunk = chunk + sizeof_chunk + sz;
            cs = cs(new_chunk := kmalloc_chunk_set_free True \<lparr> ch_magic = KMALLOC_CHUNK_MAGIC,
              ch_size = remaining_size, ch_block = ch_block (cs chunk), ch_prev = Some chunk,
              ch_next = ch_next (cs chunk) \<rparr>);
            cs = chunk_upd chunk (\<lambda>c. c\<lparr> ch_next := Some new_chunk \<rparr>) cs
        in (case ch_next (cs new_chunk) of None \<Rightarrow> cs
            | Some n \<Rightarrow> chunk_upd n (\<lambda>c. c\<lparr> ch_prev := Some new_chunk \<rparr>) cs)
      else cs)"

definition kmalloc_from_block :: "addr \<Rightarrow> nat \<Rightarrow> kheap \<Rightarrow> (addr option \<times> kheap) option" where
  "kmalloc_from_block block sz h = do {
     r \<leftarrow> find_chunk sz (kchunks h) (Some (block + sizeof_block));
     case r of
       None \<Rightarrow> Some (None, h)
     | Some chunk \<Rightarrow> do {
         let cs = chunk_upd chunk (kmalloc_chunk_set_free False) (kchunks h);
         let cs = split_chunk chunk sz cs;
         biggest \<leftarrow> biggest_loop cs (Some (block + sizeof_block)) 0;
         Some (Some (chunk + sizeof_chunk), h\<lparr> kchunks := cs,
           alloc_size := u32_of (alloc_size h + ch_size (cs chunk)),
           kblocks := (kblocks h)(block := (kblocks h block)\<lparr> biggest_free := biggest \<rparr>) \<rparr>) } }"

partial_function (option) find_block :: "nat \<Rightarrow> (addr \<Rightarrow> kmalloc_block_t) \<Rightarrow> vptr \<Rightarrow> addr option option" where
  "find_block sz bs p =
     (case p of None \<Rightarrow> Some None
      | Some b \<Rightarrow>
          if \<not> kmalloc_block_validate (bs b) then None
          else if sz \<le> biggest_free (bs b) then Some (Some b)
          else find_block sz bs (b_next (bs b)))"

definition kmalloc :: "nat \<Rightarrow> kheap \<Rightarrow> (addr option \<times> kheap) option" where
  "kmalloc n h =
     (if n = 0 then Some (None, h)
      else do {
        let sz = (if n < 4 then 4 else n);
        found \<leftarrow> find_block sz (kblocks h) (kroot h);
        case found of
          Some block \<Rightarrow> kmalloc_from_block block sz h
        | None \<Rightarrow> do {
            let min_size = PAGE_ALIGN (u32_of (sz + sizeof_block + sizeof_chunk));
            let min_size = (if min_size < KMALLOC_BLOCK_SIZE then KMALLOC_BLOCK_SIZE else min_size);
            (block, h) \<leftarrow> kmalloc_block_create (min_size div PAGE_SIZE) h;
            case block of
              None \<Rightarrow> Some (None, h)
            | Some block \<Rightarrow>
                kmalloc_from_block block sz (h\<lparr> kroot := Some block,
                  kblocks := (kblocks h)(block := (kblocks h block)\<lparr> b_next := kroot h \<rparr>) \<rparr>) } })"

definition kcalloc :: "nat \<Rightarrow> nat \<Rightarrow> kheap \<Rightarrow> (addr option \<times> kheap) option" where
  "kcalloc nmemb n h = kmalloc (u32_of (nmemb * n)) h"

text \<open>The two merges of \<open>kfree\<close>; the first one goes on with the previous chunk.\<close>

definition merge_prev :: "addr \<Rightarrow> chunks \<Rightarrow> (addr \<times> chunks) option" where
  "merge_prev chunk cs =
     (case ch_prev (cs chunk) of
        Some prev_chunk \<Rightarrow>
          if kmalloc_chunk_is_free (cs prev_chunk) then
            if \<not> kmalloc_chunk_validate (cs prev_chunk) then None
            else
              let cs = chunk_upd chunk (\<lambda>c. c\<lparr> ch_magic := 0 \<rparr>) cs;
                  cs = chunk_upd prev_chunk (\<lambda>c. c\<lparr> ch_size := u32_of (ch_size c + ch_size (cs chunk) + sizeof_chunk),
                    ch_next := ch_next (cs chunk) \<rparr>) cs
              in Some (prev_chunk, case ch_next (cs prev_chunk) of None \<Rightarrow> cs
                   | Some n \<Rightarrow> chunk_upd n (\<lambda>c. c\<lparr> ch_prev := Some prev_chunk \<rparr>) cs)
          else Some (chunk, cs)
      | None \<Rightarrow> Some (chunk, cs))"

definition merge_next :: "addr \<Rightarrow> chunks \<Rightarrow> chunks option" where
  "merge_next chunk cs =
     (case ch_next (cs chunk) of
        Some next_chunk \<Rightarrow>
          if kmalloc_chunk_is_free (cs next_chunk) then
            if \<not> kmalloc_chunk_validate (cs next_chunk) then None
            else
              let cs = chunk_upd next_chunk (\<lambda>c. c\<lparr> ch_magic := 0 \<rparr>) cs;
                  cs = chunk_upd chunk (\<lambda>c. c\<lparr> ch_size := u32_of (ch_size c + ch_size (cs next_chunk) + sizeof_chunk),
                    ch_next := ch_next (cs next_chunk) \<rparr>) cs
              in Some (case ch_next (cs chunk) of None \<Rightarrow> cs
                   | Some n \<Rightarrow> chunk_upd n (\<lambda>c. c\<lparr> ch_prev := Some chunk \<rparr>) cs)
          else Some cs
      | None \<Rightarrow> Some cs)"

definition kfree :: "addr option \<Rightarrow> kheap \<Rightarrow> kheap option" where
  "kfree p h =
     (case p of
        None \<Rightarrow> Some h
      | Some p \<Rightarrow>
          if p < sizeof_chunk then None
          else let chunk = p - sizeof_chunk; cs = kchunks h in
          if \<not> kmalloc_chunk_validate (cs chunk) \<or> kmalloc_chunk_is_free (cs chunk) then None
          else do {
            let h = h\<lparr> alloc_size := u32_of (alloc_size h + 4294967296 - ch_size (cs chunk)) \<rparr>;
            (chunk, cs) \<leftarrow> merge_prev chunk (chunk_upd chunk (kmalloc_chunk_set_free True) cs);
            cs \<leftarrow> merge_next chunk cs;
            let block = ch_block (cs chunk);
            Some (h\<lparr> kchunks := cs, kblocks := (if biggest_free (kblocks h block) < ch_size (cs chunk)
              then (kblocks h)(block := (kblocks h block)\<lparr> biggest_free := ch_size (cs chunk) \<rparr>)
              else kblocks h) \<rparr>) })"

definition kmalloc_get_statistics :: "kheap \<Rightarrow> nat \<times> nat" where
  "kmalloc_get_statistics h = (used_pages h, alloc_size h)"

definition init_kmalloc :: "kheap \<Rightarrow> ((errno + unit) \<times> kheap) option" where
  "init_kmalloc h = do {
     (r, h) \<leftarrow> kmalloc_block_create (KMALLOC_ROOT_SIZE div PAGE_SIZE) h;
     let h = h\<lparr> kroot := r \<rparr>;
     Some (if r = None then Inl ENOMEM else Inr (), h) }"

end
