(* ===== verification/Kernel_Kmalloc_Safety.thy ===== *)
theory Kernel_Kmalloc_Safety
  imports Kernel_Kmalloc
begin

text \<open>
  Correctness of \<open>Kernel_Kmalloc\<close>. The chunks of a block are described by the list of their sizes and
  free flags; allocation and release refine a first-fit and a coalescing operation on that list, and
  the heap of blocks keeps an invariant from which the memory handed out is disjoint.
\<close>

section \<open>A block as a list of chunks\<close>

type_synonym chunk_list = "(nat \<times> bool) list"

fun tot :: "chunk_list \<Rightarrow> nat" where
  "tot [] = 0"
| "tot ((s, _) # cs) = sizeof_chunk + s + tot cs"

fun big :: "chunk_list \<Rightarrow> nat" where
  "big [] = 0"
| "big ((s, f) # cs) = max (if f then s else 0) (big cs)"

fun chunk_addrs :: "addr \<Rightarrow> chunk_list \<Rightarrow> addr set" where
  "chunk_addrs a [] = {}"
| "chunk_addrs a ((s, _) # cs) = insert a (chunk_addrs (a + sizeof_chunk + s) cs)"

lemma tot_append [simp]: "tot (us @ vs) = tot us + tot vs"
  by (induction us rule: tot.induct) auto

lemma big_append [simp]: "big (us @ vs) = max (big us) (big vs)"
  by (induction us rule: big.induct) auto

lemma chunk_addrs_append [simp]:
  "chunk_addrs a (us @ vs) = chunk_addrs a us \<union> chunk_addrs (a + tot us) vs"
  by (induction a us rule: chunk_addrs.induct) (auto simp: add.assoc)

lemma chunk_addrs_range: "x \<in> chunk_addrs a cs \<Longrightarrow> a \<le> x \<and> x + sizeof_chunk \<le> a + tot cs"
  by (induction a cs rule: chunk_addrs.induct) fastforce+

text \<open>The header at \<open>a\<close>: its magic number says whether the chunk is free.\<close>

definition hdr :: "kmalloc_chunk_t \<Rightarrow> addr \<Rightarrow> vptr \<Rightarrow> nat \<Rightarrow> bool \<Rightarrow> bool" where
  "hdr c B prv s f \<longleftrightarrow> ch_prev c = prv \<and> ch_size c = s \<and> ch_block c = B \<and>
     ch_magic c = (if f then 0xDEADBEE1 else 0xDEADBEE0)"

lemma hdr_validate: "hdr c B prv s f \<Longrightarrow> kmalloc_chunk_validate c"
  by (auto simp: hdr_def kmalloc_chunk_validate_def KMALLOC_CHUNK_MAGIC_def)

lemma hdr_is_free: "hdr c B prv s f \<Longrightarrow> kmalloc_chunk_is_free c = f"
  by (auto simp: hdr_def kmalloc_chunk_is_free_def CHUNK_FREE_def)

lemma hdr_size: "hdr c B prv s f \<Longrightarrow> ch_size c = s"
  by (simp add: hdr_def)

lemmas hdr_facts = hdr_validate hdr_is_free hdr_size

lemma hdr_set_free: "hdr c B prv s f \<Longrightarrow> hdr (kmalloc_chunk_set_free g c) B prv s g"
  by (auto simp: hdr_def kmalloc_chunk_set_free_def CHUNK_FREE_def)

lemma hdr_new: "hdr (kmalloc_chunk_set_free True \<lparr> ch_magic = KMALLOC_CHUNK_MAGIC, ch_size = s,
    ch_block = B, ch_prev = prv, ch_next = nx \<rparr>) B prv s True"
  by (simp add: hdr_def kmalloc_chunk_set_free_def CHUNK_FREE_def KMALLOC_CHUNK_MAGIC_def)

lemma hdr_magic0: "ch_magic c = 0 \<Longrightarrow> \<not> kmalloc_chunk_validate c"
  by (simp add: kmalloc_chunk_validate_def KMALLOC_CHUNK_MAGIC_def)

text \<open>
  \<open>cseg ch B prv p a cs l q\<close>: from the pointer \<open>p\<close> the chunks \<open>cs\<close> of block \<open>B\<close> lie one after the
  other from the address \<open>a\<close> on, linked in both directions; the first points back to \<open>prv\<close>, the
  last is \<open>l\<close> and points on to \<open>q\<close>.
\<close>

fun cseg :: "chunks \<Rightarrow> addr \<Rightarrow> vptr \<Rightarrow> vptr \<Rightarrow> addr \<Rightarrow> chunk_list \<Rightarrow> vptr \<Rightarrow> vptr \<Rightarrow> bool" where
  "cseg ch B prv p a [] l q = (p = q \<and> prv = l)"
| "cseg ch B prv p a ((s, f) # cs) l q = (p = Some a \<and> hdr (ch a) B prv s f \<and>
     cseg ch B (Some a) (ch_next (ch a)) (a + sizeof_chunk + s) cs l q)"

lemma cseg_append:
  "cseg ch B prv p a (us @ vs) l q \<longleftrightarrow>
     (\<exists>m r. cseg ch B prv p a us m r \<and> cseg ch B m r (a + tot us) vs l q)"
  by (induction ch B prv p a us l q rule: cseg.induct) (auto simp: add.assoc)

lemma cseg_cong:
  "(\<And>x. x \<in> chunk_addrs a cs \<Longrightarrow> ch' x = ch x) \<Longrightarrow> cseg ch' B prv p a cs l q = cseg ch B prv p a cs l q"
  by (induction ch B prv p a cs l q rule: cseg.induct) auto

text \<open>A segment whose first chunk gets a new \<^verbatim>\<open>prev\<close> pointer.\<close>

definition set_prev :: "vptr \<Rightarrow> vptr \<Rightarrow> chunks \<Rightarrow> chunks" where
  "set_prev p prv ch = (case p of None \<Rightarrow> ch | Some a \<Rightarrow> chunk_upd a (\<lambda>c. c\<lparr> ch_prev := prv \<rparr>) ch)"

lemma cseg_set_prev:
  assumes "cseg ch B prv p a cs l None" and "\<And>x. x \<in> chunk_addrs a cs \<Longrightarrow> ch' x = set_prev p prv' ch x"
  shows "\<exists>l'. cseg ch' B prv' p a cs l' None"
proof (cases cs)
  case Nil
  then show ?thesis using assms(1) by simp
next
  case (Cons c vs)
  obtain s f where c: "c = (s, f)" by (cases c)
  have p: "p = Some a" using assms(1) Cons c by simp
  have a: "ch' a = (ch a)\<lparr> ch_prev := prv' \<rparr>"
    using assms(2) [of a] Cons c p by (simp add: set_prev_def chunk_upd_def)
  have "ch' x = ch x" if "x \<in> chunk_addrs (a + sizeof_chunk + s) vs" for x
  proof -
    have "x \<noteq> a" using chunk_addrs_range [OF that] by (simp add: sizeof_chunk_def)
    then show ?thesis using assms(2) [of x] that Cons c p by (simp add: set_prev_def chunk_upd_def)
  qed
  then have "cseg ch' B (Some a) (ch_next (ch a)) (a + sizeof_chunk + s) vs l None"
    using assms(1) Cons c cseg_cong [of "a + sizeof_chunk + s" vs ch' ch] by simp
  then show ?thesis using assms(1) Cons c a by (auto simp: hdr_def)
qed

lemma set_prev_idem: "cseg ch B prv p a cs l None \<Longrightarrow> set_prev p prv ch = ch"
  by (cases "(ch, B, prv, p, a, cs, l, None :: vptr)" rule: cseg.cases)
    (auto simp: set_prev_def chunk_upd_def hdr_def fun_eq_iff)

lemma set_prev_apply: "ch' x = ch x \<Longrightarrow> set_prev p prv ch' x = set_prev p prv ch x"
  by (auto simp: set_prev_def chunk_upd_def split: option.split)

lemma set_prev_other [simp]: "p \<noteq> Some x \<Longrightarrow> set_prev p prv ch x = ch x"
  by (auto simp: set_prev_def chunk_upd_def split: option.split)

lemma cseg_ptr: "cseg ch B prv p a cs l None \<Longrightarrow> p = None \<or> p = Some a \<and> a \<in> chunk_addrs a cs"
  by (cases "(ch, B, prv, p, a, cs, l, None :: vptr)" rule: cseg.cases) auto

text \<open>Replacing the middle of a segment by other chunks that fill the same place.\<close>

lemma cseg_replace:
  assumes seg: "cseg ch B prv p a (us @ ms @ vs) l None" and sz: "tot ms' = tot ms"
    and us: "\<And>x. x \<in> chunk_addrs a us \<Longrightarrow> ch' x = ch x"
    and ms: "\<And>m r m' q. cseg ch B prv p a us m r \<Longrightarrow> cseg ch B m r (a + tot us) ms m' q \<Longrightarrow>
      cseg ch B m' q (a + tot us + tot ms) vs l None \<Longrightarrow> \<exists>l'. cseg ch' B m r (a + tot us) ms' l' q \<and>
        (\<forall>x \<in> chunk_addrs (a + tot us + tot ms) vs. ch' x = set_prev q l' ch x)"
  shows "\<exists>l'. cseg ch' B prv p a (us @ ms' @ vs) l' None"
proof -
  obtain m r m' q where mr: "cseg ch B prv p a us m r" "cseg ch B m r (a + tot us) ms m' q"
    "cseg ch B m' q (a + tot us + tot ms) vs l None"
    using seg by (auto simp: cseg_append)
  obtain l' where lq: "cseg ch' B m r (a + tot us) ms' l' q"
    "\<forall>x \<in> chunk_addrs (a + tot us + tot ms) vs. ch' x = set_prev q l' ch x"
    using ms [OF mr] by blast
  obtain l2 where "cseg ch' B l' q (a + tot us + tot ms) vs l2 None"
    using cseg_set_prev [OF mr(3), of ch' l'] lq(2) by blast
  moreover have "cseg ch' B prv p a us m r" using mr(1) us cseg_cong [of a us ch' ch] by blast
  ultimately have "cseg ch' B prv p a (us @ ms' @ vs) l2 None"
    using lq(1) sz unfolding cseg_append by auto
  then show ?thesis by blast
qed

section \<open>Allocating from a block\<close>

text \<open>The first fit on the list: the first free chunk that is big enough becomes used; what is left of
  it becomes a free chunk of its own if it is more than four bytes.\<close>

definition fits :: "nat \<Rightarrow> nat \<times> bool \<Rightarrow> bool" where
  "fits n c \<longleftrightarrow> snd c \<and> n \<le> fst c"

definition carve :: "nat \<Rightarrow> nat \<Rightarrow> chunk_list" where
  "carve n s = (if n + sizeof_chunk + 4 < s then [(n, False), (s - n - sizeof_chunk, True)] else [(s, False)])"

lemma tot_carve [simp]: "n \<le> s \<Longrightarrow> tot (carve n s) = sizeof_chunk + s"
  by (simp add: carve_def)

lemma big_fits: "0 < n \<Longrightarrow> n \<le> big cs \<longleftrightarrow> (\<exists>c \<in> set cs. fits n c)"
  by (induction cs rule: big.induct) (auto simp: fits_def)

lemma find_chunk_spec:
  assumes "cseg ch B prv p a (us @ (s, f) # vs) l None" and "\<forall>c \<in> set us. \<not> fits n c" and "fits n (s, f)"
  shows "find_chunk n ch p = Some (Some (a + tot us))"
  using assms
proof (induction us arbitrary: prv p a)
  case Nil
  then have "p = Some a" "hdr (ch a) B prv s f" by auto
  then show ?case using Nil.prems(3) hdr_facts [of "ch a" B prv s f]
    by (subst find_chunk.simps) (simp add: fits_def)
next
  case (Cons c us)
  obtain t g where c: "c = (t, g)" by (cases c)
  have h: "p = Some a" "hdr (ch a) B prv t g" using Cons.prems(1) c by auto
  have "\<not> (g \<and> n \<le> t)" using Cons.prems(2) c by (simp add: fits_def)
  then have "find_chunk n ch p = find_chunk n ch (ch_next (ch a))"
    using h(1) hdr_facts [OF h(2)] by (subst find_chunk.simps) auto
  then show ?case using Cons.IH [of "Some a" "ch_next (ch a)" "a + sizeof_chunk + t"] Cons.prems c
    by (simp add: add.assoc)
qed

lemma find_chunk_none:
  assumes "cseg ch B prv p a cs l None" and "\<forall>c \<in> set cs. \<not> fits n c"
  shows "find_chunk n ch p = Some None"
  using assms
proof (induction ch B prv p a cs l "None :: vptr" rule: cseg.induct)
  case (1 ch B prv p a l)
  then show ?case by (subst find_chunk.simps) simp
next
  case (2 ch B prv p a s f cs l)
  then have "p = Some a" "hdr (ch a) B prv s f" "\<not> (f \<and> n \<le> s)" by (auto simp: fits_def)
  then have "find_chunk n ch p = find_chunk n ch (ch_next (ch a))"
    using hdr_facts [of "ch a" B prv s f] by (subst find_chunk.simps) auto
  then show ?case using 2 by simp
qed

lemma biggest_loop_spec:
  "cseg ch B prv p a cs l None \<Longrightarrow> biggest_loop ch p m = Some (max m (big cs))"
proof (induction ch B prv p a cs l "None :: vptr" arbitrary: m rule: cseg.induct)
  case (1 ch B prv p a l)
  then show ?case by (subst biggest_loop.simps) simp
next
  case (2 ch B prv p a s f cs l)
  then have "p = Some a" "hdr (ch a) B prv s f" by auto
  then have "biggest_loop ch p m = biggest_loop ch (ch_next (ch a)) (if f \<and> m < s then s else m)"
    using hdr_facts [of "ch a" B prv s f] by (subst biggest_loop.simps) auto
  then show ?case using 2 by auto
qed

lemma split_chunk_cseg:
  assumes seg: "cseg ch B prv p a (us @ (s, True) # vs) l None" and n: "n \<le> s" and sz: "s + 24 < 4294967296"
  defines "c \<equiv> a + tot us"
  defines "ch' \<equiv> split_chunk c n (chunk_upd c (kmalloc_chunk_set_free False) ch)"
  shows "\<exists>l'. cseg ch' B prv p a (us @ carve n s @ vs) l' None" "ch_size (ch' c) = fst (hd (carve n s))"
    "x < a \<or> a + tot (us @ (s, True) # vs) \<le> x \<Longrightarrow> ch' x = ch x"
proof -
  obtain m q where seg_c: "cseg ch B prv p a us m (Some c)" "hdr (ch c) B m s True" "ch_next (ch c) = q"
    "cseg ch B (Some c) q (c + sizeof_chunk + s) vs l None"
    using seg by (auto simp: cseg_append c_def)
  define new where "new = c + sizeof_chunk + n"
  define ch1 where "ch1 = chunk_upd c (kmalloc_chunk_set_free False) ch"
  have h1: "hdr (ch1 c) B m s False" "ch_next (ch1 c) = q"
    using hdr_set_free [OF seg_c(2), of False] seg_c(3)
    by (auto simp: ch1_def chunk_upd_def kmalloc_chunk_set_free_def)
  have q: "q = None \<or> q = Some (c + sizeof_chunk + s)" using cseg_ptr [OF seg_c(4)] by blast
  have out1: "ch1 x = ch x" if "x \<noteq> c" for x using that by (simp add: ch1_def chunk_upd_def)
  have us: "x < c" if "x \<in> chunk_addrs a us" for x
    using chunk_addrs_range [OF that] by (simp add: c_def sizeof_chunk_def)
  have vs: "c + sizeof_chunk + s \<le> x" if "x \<in> chunk_addrs (c + sizeof_chunk + s) vs" for x
    using chunk_addrs_range [OF that] by simp
  have ex: "(\<exists>l'. cseg ch' B prv p a (us @ carve n s @ vs) l' None) \<and> ch_size (ch' c) = fst (hd (carve n s)) \<and>
      (\<forall>x. x < a \<or> a + tot (us @ (s, True) # vs) \<le> x \<longrightarrow> ch' x = ch x)"
  proof (cases "n + sizeof_chunk + 4 < s")
    case False
    have ch': "ch' = ch1"
      using False h1(1) n sz by (simp add: ch'_def split_chunk_def ch1_def [symmetric] hdr_def sizeof_chunk_def)
    have "\<exists>l'. cseg ch1 B prv p a (us @ [(s, False)] @ vs) l' None"
    proof (rule cseg_replace [of ch B prv p a us "[(s, True)]" vs l])
      show "ch1 x = ch x" if "x \<in> chunk_addrs a us" for x using us [OF that] out1 by simp
    next
      fix m r m' q
      assume a: "cseg ch B m r (a + tot us) [(s, True)] m' q"
        "cseg ch B m' q (a + tot us + tot [(s, True)]) vs l None"
      have "ch1 x = set_prev q (Some c) ch x" if "x \<in> chunk_addrs (a + tot us + tot [(s, True)]) vs" for x
        using vs [of x] that out1 [of x] set_prev_idem [OF a(2)] a(1)
        by (simp add: c_def sizeof_chunk_def add.assoc)
      moreover have "cseg ch1 B m r (a + tot us) [(s, False)] (Some c) q"
        using a(1) hdr_set_free [of "ch c" B m s True False]
        by (auto simp: c_def ch1_def chunk_upd_def kmalloc_chunk_set_free_def)
      ultimately show "\<exists>l'. cseg ch1 B m r (a + tot us) [(s, False)] l' q \<and>
          (\<forall>x \<in> chunk_addrs (a + tot us + tot [(s, True)]) vs. ch1 x = set_prev q l' ch x)" by blast
    qed (use seg in auto)
    then show ?thesis using False h1(1) out1
      by (auto simp: ch' carve_def hdr_def c_def sizeof_chunk_def)
  next
    case True
    let ?ch4 = "chunk_upd c (\<lambda>c. c\<lparr> ch_size := n, ch_next := Some new \<rparr>) (ch1(new := kmalloc_chunk_set_free True
      \<lparr> ch_magic = KMALLOC_CHUNK_MAGIC, ch_size = s - n - sizeof_chunk, ch_block = B, ch_prev = Some c,
        ch_next = q \<rparr>))"
    have ne: "new \<noteq> c" by (simp add: new_def sizeof_chunk_def)
    have ch': "ch' = set_prev q (Some new) ?ch4"
    proof -
      have "ch_next (ch1 c) = q" "ch_size (ch1 c) = s" "ch_block (ch1 c) = B" using h1 by (auto simp: hdr_def)
      moreover have "u32_of (n + sizeof_chunk + 4) < s" using True by (simp add: sizeof_chunk_def)
      moreover have "ch' = split_chunk c n ch1" by (simp add: ch'_def ch1_def)
      ultimately show ?thesis using ne
        by (simp add: split_chunk_def Let_def new_def [symmetric] chunk_upd_def
            set_prev_def kmalloc_chunk_set_free_def fun_upd_twist split: option.split)
    qed
    have qn: "q \<noteq> Some c" "q \<noteq> Some new" using q True by (auto simp: new_def sizeof_chunk_def)
    have cc: "ch' c = (ch1 c)\<lparr> ch_size := n, ch_next := Some new \<rparr>" using ne qn by (simp add: ch' chunk_upd_def)
    have cn: "hdr (ch' new) B (Some c) (s - n - sizeof_chunk) True" "ch_next (ch' new) = q"
      using ne qn hdr_new by (auto simp: ch' chunk_upd_def kmalloc_chunk_set_free_def)
    have out: "?ch4 x = ch x" if "x \<noteq> c" "x \<noteq> new" for x using that out1 by (simp add: chunk_upd_def)
    have "\<exists>l'. cseg ch' B prv p a (us @ carve n s @ vs) l' None"
    proof (rule cseg_replace [of ch B prv p a us "[(s, True)]" vs l])
      show "ch' x = ch x" if "x \<in> chunk_addrs a us" for x
        using us [OF that] out [of x] q by (auto simp: ch' new_def sizeof_chunk_def)
    next
      fix m r m' q'
      assume a: "cseg ch B m r (a + tot us) [(s, True)] m' q'"
      then have m: "q' = q" "r = Some c" "hdr (ch c) B m s True" using seg_c(3) by (auto simp: c_def)
      have "ch' x = set_prev q (Some new) ch x" if "x \<in> chunk_addrs (a + tot us + tot [(s, True)]) vs" for x
      proof -
        have "c + sizeof_chunk + s \<le> x" using vs [of x] that by (simp add: c_def add.assoc)
        then have "x \<noteq> c" "x \<noteq> new" using True by (auto simp: new_def sizeof_chunk_def)
        then show ?thesis unfolding ch' using out by (intro set_prev_apply)
      qed
      moreover have "cseg ch' B m r (a + tot us) (carve n s) (Some new) q"
        using True m cn cc hdr_set_free [OF m(3), of False]
        by (auto simp: carve_def c_def [symmetric] new_def [symmetric] hdr_def ch1_def chunk_upd_def
            kmalloc_chunk_set_free_def)
      ultimately show "\<exists>l'. cseg ch' B m r (a + tot us) (carve n s) l' q' \<and>
          (\<forall>x \<in> chunk_addrs (a + tot us + tot [(s, True)]) vs. ch' x = set_prev q' l' ch x)" using m(1) by blast
    qed (use seg n in auto)
    moreover have "ch' x = ch x" if "x < a \<or> a + tot (us @ (s, True) # vs) \<le> x" for x
    proof -
      have "x \<noteq> c" "x \<noteq> new" "q \<noteq> Some x"
        using that q True cseg_ptr [OF seg_c(4)] chunk_addrs_range [of x "c + sizeof_chunk + s" vs]
        by (auto simp: c_def new_def sizeof_chunk_def)
      then show ?thesis using out by (simp add: ch')
    qed
    ultimately show ?thesis using True cc by (simp add: carve_def)
  qed
  then show "\<exists>l'. cseg ch' B prv p a (us @ carve n s @ vs) l' None" "ch_size (ch' c) = fst (hd (carve n s))"
    "x < a \<or> a + tot (us @ (s, True) # vs) \<le> x \<Longrightarrow> ch' x = ch x" by blast+
qed

section \<open>Merging neighbours\<close>

text \<open>Both merges of \<open>kfree\<close> join a chunk \<open>b\<close> with the chunk \<open>c\<close> behind it.\<close>

definition join :: "addr \<Rightarrow> addr \<Rightarrow> chunks \<Rightarrow> chunks" where
  "join b c ch = set_prev (ch_next (ch c)) (Some b)
     (chunk_upd b (\<lambda>k. k\<lparr> ch_size := u32_of (ch_size k + ch_size (ch c) + sizeof_chunk), ch_next := ch_next (ch c) \<rparr>)
       (chunk_upd c (\<lambda>k. k\<lparr> ch_magic := 0 \<rparr>) ch))"

lemma merge_prev_join:
  assumes "ch_prev (ch c) = Some b" and "kmalloc_chunk_validate (ch b)" and "kmalloc_chunk_is_free (ch b)" and "b \<noteq> c"
  shows "merge_prev c ch = Some (b, join b c ch)"
  using assms by (simp add: merge_prev_def join_def Let_def chunk_upd_def set_prev_def split: option.split)

lemma merge_next_join:
  assumes "ch_next (ch b) = Some c" and "kmalloc_chunk_validate (ch c)" and "kmalloc_chunk_is_free (ch c)" and "b \<noteq> c"
  shows "merge_next b ch = Some (join b c ch)"
  using assms by (simp add: merge_next_def join_def Let_def chunk_upd_def set_prev_def split: option.split)

lemma join_cseg:
  assumes seg: "cseg ch B prv p a (us @ (t, True) # (s, True) # vs) l None"
    and sz: "t + s + sizeof_chunk < 4294967296"
  defines "b \<equiv> a + tot us" and "c \<equiv> a + tot us + sizeof_chunk + t"
  shows "\<exists>l'. cseg (join b c ch) B prv p a (us @ (t + s + sizeof_chunk, True) # vs) l' None"
    "ch_magic (join b c ch c) = 0"
    "x < a \<or> a + tot (us @ (t, True) # (s, True) # vs) \<le> x \<Longrightarrow> join b c ch x = ch x"
proof -
  let ?q = "ch_next (ch c)" and ?ch' = "join b c ch"
  have segs: "hdr (ch c) B (Some b) s True" "cseg ch B (Some c) ?q (c + sizeof_chunk + s) vs l None"
    using seg by (auto simp: cseg_append b_def c_def)
  have q: "?q = None \<or> ?q = Some (c + sizeof_chunk + s) \<and> c + sizeof_chunk + s \<in> chunk_addrs (c + sizeof_chunk + s) vs"
    using cseg_ptr [OF segs(2)] .
  then have qn: "?q \<noteq> Some b" "?q \<noteq> Some c" by (auto simp: b_def c_def sizeof_chunk_def)
  have ne: "b \<noteq> c" by (simp add: b_def c_def sizeof_chunk_def)
  have at_b: "?ch' b = (ch b)\<lparr> ch_size := u32_of (ch_size (ch b) + ch_size (ch c) + sizeof_chunk), ch_next := ?q \<rparr>"
    and at_c: "ch_magic (?ch' c) = 0"
    using qn ne by (simp_all add: join_def chunk_upd_def)
  show "ch_magic (?ch' c) = 0" by (rule at_c)
  have inner: "chunk_upd b (\<lambda>k. k\<lparr> ch_size := u32_of (ch_size k + ch_size (ch c) + sizeof_chunk), ch_next := ?q \<rparr>)
       (chunk_upd c (\<lambda>k. k\<lparr> ch_magic := 0 \<rparr>) ch) x = ch x" if "x \<noteq> b" "x \<noteq> c" for x
    using that by (simp add: chunk_upd_def)
  show "?ch' x = ch x" if "x < a \<or> a + tot (us @ (t, True) # (s, True) # vs) \<le> x"
  proof -
    have "x \<noteq> b" "x \<noteq> c" "?q \<noteq> Some x"
      using that q chunk_addrs_range [of x "c + sizeof_chunk + s" vs] by (auto simp: b_def c_def sizeof_chunk_def)
    then show ?thesis by (simp add: join_def chunk_upd_def)
  qed
  have "\<exists>l'. cseg ?ch' B prv p a (us @ [(t + s + sizeof_chunk, True)] @ vs) l' None"
  proof (rule cseg_replace [of ch B prv p a us "[(t, True), (s, True)]" vs l])
    show "?ch' x = ch x" if "x \<in> chunk_addrs a us" for x
    proof -
      have "x < b" using chunk_addrs_range [OF that] by (simp add: b_def sizeof_chunk_def)
      then have "x \<noteq> b" "x \<noteq> c" "?q \<noteq> Some x" using q by (auto simp: b_def c_def sizeof_chunk_def)
      then show ?thesis by (simp add: join_def chunk_upd_def)
    qed
  next
    fix m r m' q'
    assume a: "cseg ch B m r (a + tot us) [(t, True), (s, True)] m' q'"
    then have m: "q' = ?q" "r = Some b" "hdr (ch b) B m t True" "ch_size (ch c) = s"
      by (auto simp: b_def c_def hdr_def)
    have "?ch' x = set_prev ?q (Some b) ch x" if "x \<in> chunk_addrs (a + tot us + tot [(t, True), (s, True)]) vs" for x
    proof -
      have "x \<noteq> b" "x \<noteq> c" using chunk_addrs_range [OF that] by (auto simp: b_def c_def sizeof_chunk_def)
      then show ?thesis unfolding join_def by (intro set_prev_apply inner)
    qed
    moreover have "hdr (?ch' b) B m (t + s + sizeof_chunk) True"
      using m(3,4) sz at_b by (simp add: hdr_def)
    then have "cseg ?ch' B m r (a + tot us) [(t + s + sizeof_chunk, True)] (Some b) ?q"
      using m(2) at_b by (simp add: b_def)
    ultimately show "\<exists>l'. cseg ?ch' B m r (a + tot us) [(t + s + sizeof_chunk, True)] l' q' \<and>
        (\<forall>x \<in> chunk_addrs (a + tot us + tot [(t, True), (s, True)]) vs. ?ch' x = set_prev q' l' ch x)"
      using m(1) by blast
  qed (use seg in auto)
  then show "\<exists>l'. cseg ?ch' B prv p a (us @ (t + s + sizeof_chunk, True) # vs) l' None" by simp
qed

text \<open>Releasing on the list: the chunk joins a free chunk before it and a free chunk behind it.\<close>

definition left_of :: "chunk_list \<Rightarrow> nat \<Rightarrow> chunk_list \<times> nat" where
  "left_of us s = (if us \<noteq> [] \<and> snd (last us) then (butlast us, fst (last us) + s + sizeof_chunk) else (us, s))"

definition right_of :: "nat \<Rightarrow> chunk_list \<Rightarrow> nat \<times> chunk_list" where
  "right_of s vs = (case vs of (t, True) # vs' \<Rightarrow> (s + t + sizeof_chunk, vs') | _ \<Rightarrow> (s, vs))"

lemma merge_prev_spec:
  assumes seg: "cseg ch B None p a (us @ (s, True) # vs) l None"
    and sz: "tot (us @ (s, True) # vs) < 4294967296" and lo: "left_of us s = (us', s')"
  shows "\<exists>ch' l'. merge_prev (a + tot us) ch = Some (a + tot us', ch') \<and>
    cseg ch' B None p a (us' @ (s', True) # vs) l' None \<and>
    tot (us' @ (s', True) # vs) = tot (us @ (s, True) # vs) \<and>
    (us' \<noteq> us \<longrightarrow> ch_magic (ch' (a + tot us)) = 0) \<and>
    (\<forall>x. x < a \<or> a + tot (us @ (s, True) # vs) \<le> x \<longrightarrow> ch' x = ch x)"
proof (cases "us \<noteq> [] \<and> snd (last us)")
  case True
  then obtain us0 t where us: "us = us0 @ [(t, True)]" by (cases us rule: rev_cases) auto
  let ?b = "a + tot us0" and ?c = "a + tot us"
  have c: "?c = a + tot us0 + sizeof_chunk + t" using us by simp
  obtain m where hd: "hdr (ch ?c) B (Some ?b) s True" "hdr (ch ?b) B m t True"
    using seg us by (auto simp: cseg_append add.assoc)
  have "ch_prev (ch ?c) = Some ?b" using hd(1) by (simp add: hdr_def)
  moreover have "?b \<noteq> ?c" using us by (simp add: sizeof_chunk_def)
  ultimately have "merge_prev ?c ch = Some (?b, join ?b ?c ch)"
    using hdr_facts [OF hd(2)] by (simp add: merge_prev_join)
  moreover have "us' = us0" "s' = t + s + sizeof_chunk" using lo us by (auto simp: left_of_def)
  moreover have "t + s + sizeof_chunk < 4294967296" using sz us by simp
  moreover have "cseg ch B None p a (us0 @ (t, True) # (s, True) # vs) l None" using seg us by simp
  ultimately show ?thesis using join_cseg [of ch B None p a us0 t s vs l] us by (auto simp: add.assoc)
next
  case False
  then have lo': "us' = us" "s' = s" using lo by (auto simp: left_of_def)
  have "merge_prev (a + tot us) ch = Some (a + tot us, ch)"
  proof (cases us rule: rev_cases)
    case Nil
    then show ?thesis using seg by (simp add: merge_prev_def hdr_def)
  next
    case (snoc us0 c)
    obtain t where c: "c = (t, False)" using False snoc by (cases c) auto
    obtain m where h: "hdr (ch (a + tot us)) B (Some (a + tot us0)) s True" "hdr (ch (a + tot us0)) B m t False"
      using seg snoc c by (auto simp: cseg_append add.assoc)
    have "ch_prev (ch (a + tot us)) = Some (a + tot us0)" using h(1) by (simp add: hdr_def)
    then show ?thesis using hdr_facts(2) [OF h(2)] by (simp add: merge_prev_def)
  qed
  then show ?thesis using seg lo' by auto
qed

lemma merge_next_spec:
  assumes seg: "cseg ch B None p a (us @ (s, True) # vs) l None"
    and sz: "tot (us @ (s, True) # vs) < 4294967296" and ro: "right_of s vs = (s', vs')"
  shows "\<exists>ch' l'. merge_next (a + tot us) ch = Some ch' \<and>
    cseg ch' B None p a (us @ (s', True) # vs') l' None \<and>
    tot (us @ (s', True) # vs') = tot (us @ (s, True) # vs) \<and>
    (\<forall>x. x < a \<or> a + tot (us @ (s, True) # vs) \<le> x \<longrightarrow> ch' x = ch x) \<and>
    (\<forall>x. ch_magic (ch x) = 0 \<longrightarrow> ch_magic (ch' x) = 0)"
proof -
  let ?b = "a + tot us"
  obtain m where hb: "hdr (ch ?b) B m s True" "cseg ch B (Some ?b) (ch_next (ch ?b)) (?b + sizeof_chunk + s) vs l None"
    using seg by (auto simp: cseg_append)
  consider (join) t ws where "vs = (t, True) # ws" "s' = s + t + sizeof_chunk" "vs' = ws"
    | (keep) "s' = s" "vs' = vs" "\<forall>t ws. vs \<noteq> (t, True) # ws"
    using ro by (auto simp: right_of_def split: list.splits bool.splits)
  then show ?thesis
  proof cases
    case join
    let ?c = "?b + sizeof_chunk + s"
    have hc: "hdr (ch ?c) B (Some ?b) t True" "ch_next (ch ?b) = Some ?c" using hb(2) join(1) by auto
    then have "merge_next ?b ch = Some (join ?b ?c ch)"
      using hdr_facts [OF hc(1)] by (intro merge_next_join) (auto simp: sizeof_chunk_def)
    moreover have "s + t + sizeof_chunk < 4294967296" using sz join(1) by simp
    moreover have "cseg ch B None p a (us @ (s, True) # (t, True) # ws) l None" using seg join(1) by simp
    moreover have "ch_magic (join ?b ?c ch x) = 0" if "ch_magic (ch x) = 0" for x
      using that by (auto simp: join_def set_prev_def chunk_upd_def split: option.split)
    ultimately show ?thesis using join_cseg [of ch B None p a us s t ws l] join by auto
  next
    case keep
    have "merge_next ?b ch = Some ch"
    proof (cases vs)
      case Nil
      then show ?thesis using hb(2) by (simp add: merge_next_def)
    next
      case (Cons c ws)
      obtain t where "c = (t, False)" using keep(3) Cons by (cases c) (metis (full_types))
      then have "hdr (ch (?b + sizeof_chunk + s)) B (Some ?b) t False" "ch_next (ch ?b) = Some (?b + sizeof_chunk + s)"
        using hb(2) Cons by auto
      then show ?thesis using hdr_facts(2) [of "ch (?b + sizeof_chunk + s)"] by (auto simp: merge_next_def)
    qed
    then show ?thesis using seg keep by auto
  qed
qed

section \<open>Blocks\<close>

definition block_rel :: "kheap \<Rightarrow> addr \<Rightarrow> nat \<Rightarrow> chunk_list \<Rightarrow> bool" where
  "block_rel h B n cs \<longleftrightarrow> kmalloc_block_validate (kblocks h B) \<and> b_pages (kblocks h B) = n \<and>
     biggest_free (kblocks h B) = big cs \<and>
     (\<exists>l. cseg (kchunks h) B None (Some (B + sizeof_block)) (B + sizeof_block) cs l None) \<and>
     sizeof_block + tot cs = n * PAGE_SIZE \<and> B + n * PAGE_SIZE \<le> 4294967296 \<and> PAGE_SIZE dvd B"

lemma block_rel_cong:
  assumes "block_rel h B n cs" and "kblocks h' B = kblocks h B"
    and "\<And>x. B + sizeof_block \<le> x \<Longrightarrow> x < B + n * PAGE_SIZE \<Longrightarrow> kchunks h' x = kchunks h x"
  shows "block_rel h' B n cs"
proof -
  have "kchunks h' x = kchunks h x" if "x \<in> chunk_addrs (B + sizeof_block) cs" for x
    using assms(1) chunk_addrs_range [OF that] by (intro assms(3)) (auto simp: block_rel_def sizeof_chunk_def)
  then show ?thesis using assms(1,2) cseg_cong [of "B + sizeof_block" cs "kchunks h'" "kchunks h"]
    by (auto simp: block_rel_def)
qed

lemma block_rel_next:
  assumes "block_rel h B n cs"
  shows "block_rel (h\<lparr> kroot := r, kblocks := (kblocks h)(B := (kblocks h B)\<lparr> b_next := nx \<rparr>) \<rparr>) B n cs"
  using assms by (auto simp: block_rel_def kmalloc_block_validate_def)

lemma fit_split:
  assumes "0 < n" and "n \<le> big cs"
  obtains us s vs where "cs = us @ (s, True) # vs" "\<forall>c \<in> set us. \<not> fits n c" "n \<le> s"
proof -
  have "\<exists>c \<in> set cs. fits n c" using assms big_fits by blast
  then obtain us c vs where "cs = us @ c # vs" "fits n c" "\<forall>c \<in> set us. \<not> fits n c"
    using split_list_first_prop [of cs "fits n"] by blast
  then show ?thesis using that by (cases c) (auto simp: fits_def)
qed

text \<open>Only the block changes, and of its header only the size of the biggest free chunk.\<close>

definition block_frame :: "addr \<Rightarrow> nat \<Rightarrow> kheap \<Rightarrow> kheap \<Rightarrow> bool" where
  "block_frame B n h h' \<longleftrightarrow> kroot h' = kroot h \<and> kpages h' = kpages h \<and> used_pages h' = used_pages h \<and>
     (\<forall>b. b_next (kblocks h' b) = b_next (kblocks h b)) \<and> (\<forall>b. b \<noteq> B \<longrightarrow> kblocks h' b = kblocks h b) \<and>
     (\<forall>x. x < B + sizeof_block \<or> B + n * PAGE_SIZE \<le> x \<longrightarrow> kchunks h' x = kchunks h x)"

lemma kmalloc_from_block_spec:
  assumes rel: "block_rel h B n cs" and sz: "0 < sz" "sz \<le> big cs"
  shows "\<exists>us s vs h'. cs = us @ (s, True) # vs \<and> sz \<le> s \<and>
    kmalloc_from_block B sz h = Some (Some (B + sizeof_block + tot us + sizeof_chunk), h') \<and>
    block_rel h' B n (us @ carve sz s @ vs) \<and> block_frame B n h h' \<and>
    alloc_size h' = u32_of (alloc_size h + fst (hd (carve sz s)))"
proof -
  obtain us s vs where cs: "cs = us @ (s, True) # vs" "\<forall>c \<in> set us. \<not> fits sz c" "sz \<le> s"
    using fit_split [OF sz] by blast
  let ?a = "B + sizeof_block" and ?c = "B + sizeof_block + tot us"
  obtain l where seg: "cseg (kchunks h) B None (Some ?a) ?a (us @ (s, True) # vs) l None"
    using rel cs(1) by (auto simp: block_rel_def)
  let ?ch = "split_chunk ?c sz (chunk_upd ?c (kmalloc_chunk_set_free False) (kchunks h))"
  have len: "sizeof_block + tot cs = n * PAGE_SIZE" "B + n * PAGE_SIZE \<le> 4294967296"
    using rel by (auto simp: block_rel_def)
  then have "s + 24 < 4294967296" using cs(1) by (simp add: sizeof_block_def sizeof_chunk_def)
  note split = split_chunk_cseg [OF seg cs(3) this]
  obtain l' where seg': "cseg ?ch B None (Some ?a) ?a (us @ carve sz s @ vs) l' None" using split(1) by blast
  let ?h = "h\<lparr> kchunks := ?ch, alloc_size := u32_of (alloc_size h + fst (hd (carve sz s))),
    kblocks := (kblocks h)(B := (kblocks h B)\<lparr> biggest_free := big (us @ carve sz s @ vs) \<rparr>) \<rparr>"
  have "find_chunk sz (kchunks h) (Some ?a) = Some (Some ?c)"
    using find_chunk_spec [OF seg cs(2)] cs(3) by (simp add: fits_def)
  moreover have "biggest_loop ?ch (Some ?a) 0 = Some (big (us @ carve sz s @ vs))"
    using biggest_loop_spec [OF seg', of 0] by simp
  ultimately have "kmalloc_from_block B sz h = Some (Some (?c + sizeof_chunk), ?h)"
    using split(2) by (simp add: kmalloc_from_block_def Let_def)
  moreover have "block_rel ?h B n (us @ carve sz s @ vs)"
    using rel seg' cs(1,3) by (auto simp: block_rel_def kmalloc_block_validate_def)
  moreover have "block_frame B n h ?h"
    using split(3) len cs(1) by (auto simp: block_frame_def)
  ultimately show ?thesis using cs(1,3) by (intro exI [of _ us] exI [of _ s] exI [of _ vs] exI [of _ ?h]) simp
qed

lemma big_left: "left_of us s = (us', s') \<Longrightarrow> max s' (big us') = max s' (big us) \<and> s \<le> s'"
  by (cases us rule: rev_cases) (auto simp: left_of_def split: if_splits)

lemma big_right: "right_of s vs = (s', vs') \<Longrightarrow> max s' (big vs') = max s' (big vs) \<and> s \<le> s'"
  by (auto simp: right_of_def split: list.splits bool.splits)

lemma kfree_chunk_spec:
  assumes rel: "block_rel h B n cs" and cs: "cs = us @ (s, False) # vs"
    and lo: "left_of us s = (us', s1)" and ro: "right_of s1 vs = (s2, vs')"
  defines "p \<equiv> B + sizeof_block + tot us + sizeof_chunk"
  shows "\<exists>h'. kfree (Some p) h = Some h' \<and> block_rel h' B n (us' @ (s2, True) # vs') \<and>
    block_frame B n h h' \<and> alloc_size h' = u32_of (alloc_size h + 4294967296 - s) \<and>
    kfree (Some p) h' = None"
proof -
  let ?a = "B + sizeof_block" and ?c = "B + sizeof_block + tot us"
  obtain l where seg: "cseg (kchunks h) B None (Some ?a) ?a (us @ (s, False) # vs) l None"
    using rel cs by (auto simp: block_rel_def)
  have len: "sizeof_block + tot cs = n * PAGE_SIZE" "B + n * PAGE_SIZE \<le> 4294967296"
    using rel by (auto simp: block_rel_def)
  obtain m where hc: "hdr (kchunks h ?c) B m s False" using seg by (auto simp: cseg_append)
  let ?ch = "chunk_upd ?c (kmalloc_chunk_set_free True) (kchunks h)"
  have seg1: "\<exists>l. cseg ?ch B None (Some ?a) ?a (us @ [(s, True)] @ vs) l None"
  proof (rule cseg_replace [of "kchunks h" B None "Some ?a" ?a us "[(s, False)]" vs l])
    show "?ch x = kchunks h x" if "x \<in> chunk_addrs ?a us" for x
      using chunk_addrs_range [OF that] by (simp add: chunk_upd_def sizeof_chunk_def)
  next
    fix m r m' q
    assume a: "cseg (kchunks h) B m r (?a + tot us) [(s, False)] m' q"
      "cseg (kchunks h) B m' q (?a + tot us + tot [(s, False)]) vs l None"
    have "?ch x = set_prev q (Some ?c) (kchunks h) x" if "x \<in> chunk_addrs (?a + tot us + tot [(s, False)]) vs" for x
      using chunk_addrs_range [OF that] set_prev_idem [OF a(2)] a(1)
      by (auto simp: chunk_upd_def sizeof_chunk_def)
    moreover have "cseg ?ch B m r (?a + tot us) [(s, True)] (Some ?c) q"
      using a(1) hdr_set_free [of "kchunks h ?c" B m s False True]
      by (auto simp: chunk_upd_def kmalloc_chunk_set_free_def)
    ultimately show "\<exists>l'. cseg ?ch B m r (?a + tot us) [(s, True)] l' q \<and>
        (\<forall>x \<in> chunk_addrs (?a + tot us + tot [(s, False)]) vs. ?ch x = set_prev q l' (kchunks h) x)" by blast
  qed (use seg in auto)
  then obtain l1 where seg1: "cseg ?ch B None (Some ?a) ?a (us @ (s, True) # vs) l1 None" by auto
  have t1: "tot (us @ (s, True) # vs) < 4294967296" using len cs by (simp add: sizeof_block_def)
  obtain ch2 l2 where m1: "merge_prev ?c ?ch = Some (?a + tot us', ch2)"
    "cseg ch2 B None (Some ?a) ?a (us' @ (s1, True) # vs) l2 None"
    "tot (us' @ (s1, True) # vs) = tot (us @ (s, True) # vs)" "us' \<noteq> us \<longrightarrow> ch_magic (ch2 ?c) = 0"
    "\<forall>x. x < ?a \<or> ?a + tot (us @ (s, True) # vs) \<le> x \<longrightarrow> ch2 x = ?ch x"
    using merge_prev_spec [OF seg1 t1 lo] by blast
  obtain ch3 l3 where m2: "merge_next (?a + tot us') ch2 = Some ch3"
    "cseg ch3 B None (Some ?a) ?a (us' @ (s2, True) # vs') l3 None"
    "tot (us' @ (s2, True) # vs') = tot (us' @ (s1, True) # vs)"
    "\<forall>x. x < ?a \<or> ?a + tot (us' @ (s1, True) # vs) \<le> x \<longrightarrow> ch3 x = ch2 x"
    "\<forall>x. ch_magic (ch2 x) = 0 \<longrightarrow> ch_magic (ch3 x) = 0"
    using merge_next_spec [OF m1(2) _ ro] m1(3) t1 by auto
  obtain m' where hd: "hdr (ch3 (?a + tot us')) B m' s2 True" using m2(2) by (auto simp: cseg_append)
  let ?big = "max (big cs) s2"
  define h' where "h' = h\<lparr> alloc_size := u32_of (alloc_size h + 4294967296 - s), kchunks := ch3,
    kblocks := (if big cs < s2 then (kblocks h)(B := (kblocks h B)\<lparr> biggest_free := s2 \<rparr>) else kblocks h) \<rparr>"
  have bf: "biggest_free (kblocks h B) = big cs" using rel by (simp add: block_rel_def)
  have kb: "kblocks h' = (kblocks h)(B := (kblocks h B)\<lparr> biggest_free := ?big \<rparr>)"
    using bf by (auto simp: h'_def max_def fun_upd_idem)
  have "kfree (Some p) h = Some h'"
    using hdr_facts [OF hc] m1(1) m2(1) hd bf
    by (simp add: kfree_def p_def Let_def h'_def hdr_def [of _ _ m' s2])
  moreover have "block_rel h' B n (us' @ (s2, True) # vs')"
  proof -
    have "big (us' @ (s2, True) # vs') = ?big"
    proof -
      have "max s1 (big us') = max s1 (big us)" "max s2 (big vs') = max s2 (big vs)" "s1 \<le> s2"
        using big_left [OF lo] big_right [OF ro] by auto
      then have "max (big us') (max s2 (big vs')) = max (max (big us) (big vs)) s2" by linarith
      then show ?thesis using cs by simp
    qed
    moreover have "tot (us' @ (s2, True) # vs') = tot cs" using m1(3) m2(3) cs by simp
    moreover have "kchunks h' = ch3" by (simp add: h'_def)
    ultimately show ?thesis using rel m2(2) kb
      by (auto simp: block_rel_def kmalloc_block_validate_def)
  qed
  moreover have "block_frame B n h h'"
  proof -
    have "kchunks h' x = kchunks h x" if "x < ?a \<or> B + n * PAGE_SIZE \<le> x" for x
    proof -
      have x: "x < ?a \<or> ?a + tot cs \<le> x" using that len(1) by auto
      then have "x \<noteq> ?c" using cs by (auto simp: sizeof_chunk_def)
      moreover have "ch3 x = ch2 x" using m2(4) [unfolded m1(3)] x cs by auto
      moreover have "ch2 x = ?ch x" using m1(5) x cs by auto
      ultimately show ?thesis by (simp add: h'_def chunk_upd_def)
    qed
    moreover have "kroot h' = kroot h" "kpages h' = kpages h" "used_pages h' = used_pages h"
      by (simp_all add: h'_def)
    ultimately show ?thesis using kb by (simp add: block_frame_def)
  qed
  moreover have "kfree (Some p) h' = None"
  proof (cases "us' = us")
    case True
    then have "kmalloc_chunk_is_free (kchunks h' ?c)" using hdr_facts(2) [OF hd] by (simp add: h'_def)
    then show ?thesis by (simp add: kfree_def p_def)
  next
    case False
    then have "\<not> kmalloc_chunk_validate (kchunks h' ?c)" using m1(4) m2(5) by (simp add: h'_def hdr_magic0)
    then show ?thesis by (simp add: kfree_def p_def)
  qed
  ultimately show ?thesis by (intro exI [of _ h']) (simp add: h'_def)
qed

section \<open>The heap\<close>

text \<open>Payload address, size and flag of the chunks from address \<open>a\<close> on.\<close>

fun cset :: "addr \<Rightarrow> chunk_list \<Rightarrow> (addr \<times> nat \<times> bool) set" where
  "cset a [] = {}"
| "cset a ((s, f) # cs) = insert (a + sizeof_chunk, s, f) (cset (a + sizeof_chunk + s) cs)"

lemma cset_append [simp]: "cset a (us @ vs) = cset a us \<union> cset (a + tot us) vs"
  by (induction a us rule: cset.induct) (auto simp: add.assoc)

lemma cset_range: "(p, s, f) \<in> cset a cs \<Longrightarrow> a + sizeof_chunk \<le> p \<and> p + s \<le> a + tot cs"
  by (induction a cs rule: cset.induct) fastforce+

lemma cset_apart:
  "(p, s, f) \<in> cset a cs \<Longrightarrow> (p', s', f') \<in> cset a cs \<Longrightarrow> (p, s, f) \<noteq> (p', s', f') \<Longrightarrow>
   p + s < p' \<or> p' + s' < p"
proof (induction a cs rule: cset.induct)
  case (2 a t g cs)
  then show ?case
    using cset_range [of p s f "a + sizeof_chunk + t" cs] cset_range [of p' s' f' "a + sizeof_chunk + t" cs]
    by (auto simp: sizeof_chunk_def)
qed simp

lemma cset_split:
  "(p, s, f) \<in> cset a cs \<Longrightarrow> \<exists>us vs. cs = us @ (s, f) # vs \<and> p = a + tot us + sizeof_chunk"
proof (induction a cs rule: cset.induct)
  case (2 a t g cs)
  show ?case
  proof (cases "(p, s, f) = (a + sizeof_chunk, t, g)")
    case True
    then show ?thesis by (intro exI [of _ "[]"] exI [of _ cs]) simp
  next
    case False
    then obtain us vs where "cs = us @ (s, f) # vs" "p = a + sizeof_chunk + t + tot us + sizeof_chunk"
      using 2 by auto
    then show ?thesis by (intro exI [of _ "(t, g) # us"] exI [of _ vs]) simp
  qed
qed simp

fun used :: "chunk_list \<Rightarrow> nat" where
  "used [] = 0"
| "used ((s, f) # cs) = (if f then 0 else s) + used cs"

lemma used_append [simp]: "used (us @ vs) = used us + used vs"
  by (induction us rule: used.induct) auto

type_synonym blocks = "(addr \<times> nat \<times> chunk_list) list"

definition apart :: "addr \<times> nat \<times> chunk_list \<Rightarrow> addr \<times> nat \<times> chunk_list \<Rightarrow> bool" where
  "apart x y \<longleftrightarrow> fst x + fst (snd x) * PAGE_SIZE \<le> fst y \<or> fst y + fst (snd y) * PAGE_SIZE \<le> fst x"

definition pages_used :: "page_state \<Rightarrow> addr \<Rightarrow> nat \<Rightarrow> bool" where
  "pages_used ps B n \<longleftrightarrow> (\<forall>k < n. memory_pages ps ! (B div PAGE_SIZE + k) \<noteq> 0)"

definition heap_inv :: "kheap \<Rightarrow> blocks \<Rightarrow> bool" where
  "heap_inv h bs \<longleftrightarrow> chain (\<lambda>b. b_next (kblocks h b)) (kroot h) (map fst bs) \<and>
     (\<forall>(B, n, cs) \<in> set bs. block_rel h B n cs \<and> pages_used (kpages h) B n) \<and>
     (\<forall>x \<in> set bs. \<forall>y \<in> set bs. fst x \<noteq> fst y \<longrightarrow> apart x y) \<and>
     pages_inv (kpages h) \<and> memory_size (kpages h) \<le> 4294967296 \<and>
     \<not> md_free (memory_descriptors (kpages h) ! nat MEM_COMMON) \<and>
     alloc_size h = u32_of (sum_list (map (\<lambda>(_, _, cs). used cs) bs))"

definition allocated :: "blocks \<Rightarrow> (addr \<times> nat) set" where
  "allocated bs = {(p, s). \<exists>(B, n, cs) \<in> set bs. (p, s, False) \<in> cset (B + sizeof_block) cs}"

lemma heap_block:
  assumes "heap_inv h bs" and "(B, n, cs) \<in> set bs"
  shows "block_rel h B n cs" "pages_used (kpages h) B n"
  using assms unfolding heap_inv_def by fast+

lemma heap_apart:
  assumes "heap_inv h bs" and "x \<in> set bs" and "y \<in> set bs" and "fst x \<noteq> fst y"
  shows "apart x y"
  using assms unfolding heap_inv_def by fast

lemma heap_pages:
  assumes "heap_inv h bs"
  shows "pages_inv (kpages h)" "memory_size (kpages h) \<le> 4294967296"
    "\<not> md_free (memory_descriptors (kpages h) ! nat MEM_COMMON)"
    "alloc_size h = u32_of (sum_list (map (\<lambda>(_, _, cs). used cs) bs))"
    "chain (\<lambda>b. b_next (kblocks h b)) (kroot h) (map fst bs)" "distinct (map fst bs)"
  using assms chain_distinct unfolding heap_inv_def by blast+

text \<open>Any two chunks of the heap are apart.\<close>

lemma heap_chunks_apart:
  assumes inv: "heap_inv h bs" and x: "(B, n, cs) \<in> set bs" "(p, s, f) \<in> cset (B + sizeof_block) cs"
    and y: "(B', n', cs') \<in> set bs" "(p', s', f') \<in> cset (B' + sizeof_block) cs'"
    and ne: "(p, s, f) \<noteq> (p', s', f')"
  shows "p + s < p' \<or> p' + s' < p"
proof (cases "B = B'")
  case True
  have "distinct (map fst bs)" using heap_pages(6) [OF inv] .
  then have "(n, cs) = (n', cs')" using x(1) y(1) True eq_key_imp_eq_value by metis
  then show ?thesis using cset_apart [OF x(2) _ ne] y(2) True by simp
next
  case False
  have b: "sizeof_block + tot cs = n * PAGE_SIZE" "sizeof_block + tot cs' = n' * PAGE_SIZE"
    "apart (B, n, cs) (B', n', cs')"
    using heap_block(1) [OF inv x(1)] heap_block(1) [OF inv y(1)] heap_apart [OF inv x(1) y(1)] False
    by (auto simp: block_rel_def)
  then show ?thesis using cset_range [OF x(2)] cset_range [OF y(2)]
    by (auto simp: apart_def sizeof_chunk_def sizeof_block_def)
qed

text \<open>Changing one block.\<close>

lemma heap_inv_block:
  assumes inv: "heap_inv h bs" and bs: "bs = xs @ (B, n, cs) # ys"
    and rel: "block_rel h' B n cs'" and fr: "block_frame B n h h'"
    and sz: "alloc_size h' = u32_of (sum_list (map (\<lambda>(_, _, cs). used cs) (xs @ (B, n, cs') # ys)))"
  shows "heap_inv h' (xs @ (B, n, cs') # ys)"
proof -
  have d: "distinct (map fst bs)" using heap_pages(6) [OF inv] .
  have other: "block_rel h' B' n' ds" if "(B', n', ds) \<in> set (xs @ ys)" for B' n' ds
  proof (rule block_rel_cong)
    have mem: "(B', n', ds) \<in> set bs" "(B, n, cs) \<in> set bs" using bs that by auto
    show "block_rel h B' n' ds" using heap_block(1) [OF inv mem(1)] .
    have ne: "B' \<noteq> B" using d bs that by force
    then show "kblocks h' B' = kblocks h B'" using fr by (simp add: block_frame_def)
    have "apart (B', n', ds) (B, n, cs)" using heap_apart [OF inv mem] ne by simp
    then show "kchunks h' x = kchunks h x" if "B' + sizeof_block \<le> x" "x < B' + n' * PAGE_SIZE" for x
      using fr that by (auto simp: block_frame_def apart_def)
  qed
  have ap: "apart x y" if "x \<in> set (xs @ (B, n, cs') # ys)" "y \<in> set (xs @ (B, n, cs') # ys)" "fst x \<noteq> fst y" for x y
  proof -
    let ?old = "\<lambda>x. if x = (B, n, cs') then (B, n, cs) else x"
    have "?old x \<in> set bs" "?old y \<in> set bs" "fst (?old x) \<noteq> fst (?old y)" using that bs by auto
    then have "apart (?old x) (?old y)" by (rule heap_apart [OF inv])
    then show ?thesis by (auto simp: apart_def split: if_splits)
  qed
  have fr': "kpages h' = kpages h" "kroot h' = kroot h" "\<And>b. b_next (kblocks h' b) = b_next (kblocks h b)"
    using fr by (auto simp: block_frame_def)
  have blocks: "block_rel h' B' n' ds \<and> pages_used (kpages h') B' n'" if "(B', n', ds) \<in> set (xs @ (B, n, cs') # ys)" for B' n' ds
  proof (cases "(B', n', ds) = (B, n, cs')")
    case True
    then show ?thesis using rel heap_block(2) [OF inv, of B n cs] bs fr'(1) by simp
  next
    case False
    then have "(B', n', ds) \<in> set (xs @ ys)" using that by auto
    then show ?thesis using other heap_block(2) [OF inv, of B' n' ds] bs fr'(1) by auto
  qed
  show ?thesis unfolding heap_inv_def
  proof (intro conjI)
    show "chain (\<lambda>b. b_next (kblocks h' b)) (kroot h') (map fst (xs @ (B, n, cs') # ys))"
      using heap_pages(5) [OF inv] bs fr'(2,3) by simp
    show "\<forall>(B', n', ds) \<in> set (xs @ (B, n, cs') # ys). block_rel h' B' n' ds \<and> pages_used (kpages h') B' n'"
      using blocks by fast
    show "\<forall>x \<in> set (xs @ (B, n, cs') # ys). \<forall>y \<in> set (xs @ (B, n, cs') # ys). fst x \<noteq> fst y \<longrightarrow> apart x y"
      using ap by blast
  qed (use heap_pages [OF inv] sz fr'(1) in simp_all)
qed

lemma cset_carve:
  assumes "n \<le> s"
  shows "{(p, t). (p, t, False) \<in> cset a (us @ carve n s @ vs)} =
    insert (a + tot us + sizeof_chunk, fst (hd (carve n s))) {(p, t). (p, t, False) \<in> cset a (us @ (s, True) # vs)}"
    "n \<le> fst (hd (carve n s))" "fst (hd (carve n s)) \<le> s"
  using assms by (auto simp: carve_def add.assoc)

lemma allocated_block:
  "allocated (xs @ (B, n, cs) # ys) =
     allocated (xs @ ys) \<union> {(p, t). (p, t, False) \<in> cset (B + sizeof_block) cs}"
  by (auto simp: allocated_def)

text \<open>Allocation from a block that has room.\<close>

lemma kmalloc_from_heap:
  assumes inv: "heap_inv h bs" and B: "(B, n, cs) \<in> set bs" and sz: "0 < sz" "sz \<le> big cs"
  shows "\<exists>p s h' bs'. kmalloc_from_block B sz h = Some (Some p, h') \<and> heap_inv h' bs' \<and> sz \<le> s \<and>
    allocated bs' = insert (p, s) (allocated bs) \<and>
    (\<forall>(p', s') \<in> allocated bs. p + s < p' \<or> p' + s' < p)"
proof -
  obtain xs ys where bs: "bs = xs @ (B, n, cs) # ys" using B by (auto simp: in_set_conv_decomp)
  have rel: "block_rel h B n cs" using heap_block(1) [OF inv B] .
  obtain us s vs h' where r: "cs = us @ (s, True) # vs" "sz \<le> s"
    "kmalloc_from_block B sz h = Some (Some (B + sizeof_block + tot us + sizeof_chunk), h')"
    "block_rel h' B n (us @ carve sz s @ vs)" "block_frame B n h h'"
    "alloc_size h' = u32_of (alloc_size h + fst (hd (carve sz s)))"
    using kmalloc_from_block_spec [OF rel sz] by blast
  let ?p = "B + sizeof_block + tot us + sizeof_chunk" and ?s = "fst (hd (carve sz s))"
  let ?bs = "xs @ (B, n, us @ carve sz s @ vs) # ys"
  have u: "used (carve sz s) = ?s" by (simp add: carve_def)
  have "alloc_size h' = u32_of (sum_list (map (\<lambda>(_, _, cs). used cs) ?bs))"
    using r(1,6) heap_pages(4) [OF inv] bs u by (simp add: mod_simps ac_simps)
  then have "heap_inv h' ?bs" by (rule heap_inv_block [OF inv bs r(4,5)])
  moreover have "allocated ?bs = insert (?p, ?s) (allocated bs)"
    unfolding bs allocated_block cset_carve(1) [OF r(2)] r(1) by auto
  moreover have "?p + ?s < p' \<or> p' + s' < ?p" if mem: "(p', s') \<in> allocated bs" for p' s'
  proof -
    obtain B' n' cs' where y: "(B', n', cs') \<in> set bs" "(p', s', False) \<in> cset (B' + sizeof_block) cs'"
      using mem by (auto simp: allocated_def)
    have "(?p, s, True) \<in> cset (B + sizeof_block) cs" using r(1) by simp
    then have "?p + s < p' \<or> p' + s' < ?p" using heap_chunks_apart [OF inv B _ y] by blast
    then show ?thesis using cset_carve(3) [OF r(2)] by auto
  qed
  ultimately show ?thesis using r(3) cset_carve(2) [OF r(2)]
    by (intro exI [of _ ?p] exI [of _ ?s] exI [of _ h'] exI [of _ ?bs]) auto
qed

text \<open>A new block lies apart from the existing ones, because its pages were free.\<close>

lemma pages_apart:
  assumes new: "\<forall>k < n. memory_pages ps ! (B div PAGE_SIZE + k) = 0" and old: "pages_used ps B' n'"
    and al: "PAGE_SIZE dvd B" "PAGE_SIZE dvd B'" and pos: "0 < n" "0 < n'"
  shows "apart (B, n, cs) (B', n', cs')"
proof -
  obtain b b' where b: "B = PAGE_SIZE * b" "B' = PAGE_SIZE * b'" using al by (auto elim!: dvdE)
  have div: "B div PAGE_SIZE = b" "B' div PAGE_SIZE = b'" by (simp_all add: b PAGE_SIZE_def)
  have "b + n \<le> b' \<or> b' + n' \<le> b"
  proof (rule ccontr)
    assume "\<not> (b + n \<le> b' \<or> b' + n' \<le> b)"
    then have "max b b' - b < n" "max b b' - b' < n'" "b + (max b b' - b) = b' + (max b b' - b')"
      using pos by auto
    then show False using new old div unfolding pages_used_def by metis
  qed
  then show ?thesis by (auto simp: apart_def b PAGE_SIZE_def)
qed

lemma heap_inv_pages:
  "heap_inv h bs \<Longrightarrow> (B, n, cs) \<in> set bs \<Longrightarrow> 0 < n \<and> PAGE_SIZE dvd B"
  using heap_block(1) [of h bs B n cs] by (cases n) (auto simp: block_rel_def sizeof_block_def)

lemma kmalloc_block_create_spec:
  assumes inv: "heap_inv h bs" and n: "0 < n"
  shows "\<exists>r h1. kmalloc_block_create n h = Some (r, h1) \<and>
    (case r of None \<Rightarrow> h1 = h
     | Some B \<Rightarrow> heap_inv (h1\<lparr> kroot := Some B, kblocks := (kblocks h1)(B := (kblocks h1 B)\<lparr> b_next := kroot h1 \<rparr>) \<rparr>)
         ((B, n, [(n * PAGE_SIZE - sizeof_block - sizeof_chunk, True)]) # bs))"
proof -
  let ?ps = "kpages h" and ?d = "memory_descriptors (kpages h) ! nat MEM_COMMON"
  let ?b = "md_start ?d div PAGE_SIZE" and ?m = "md_size ?d div PAGE_SIZE"
  note hp = heap_pages [OF inv]
  have "0 \<le> MEM_COMMON" "nat MEM_COMMON < MAX_MEMORY_TYPES" by (simp_all add: MEM_COMMON_def MAX_MEMORY_TYPES_def)
  note dd = mem_type_desc [OF hp(1) this hp(3)]
  show ?thesis
  proof (cases "\<exists>r. run (memory_pages ?ps) ?b n ?m r")
    case False
    then have "alloc_pages n MEM_COMMON ?ps = Some (None, ?ps)" using do_alloc_pages_spec [OF dd(1) n] dd(2) by auto
    then show ?thesis by (simp add: kmalloc_block_create_def)
  next
    case True
    then obtain r where r: "run (memory_pages ?ps) ?b n ?m r"
      "alloc_pages n MEM_COMMON ?ps = Some (Some (md_start ?d + r * PAGE_SIZE), ?ps\<lparr> memory_pages :=
         take (?b + r) (memory_pages ?ps) @ replicate n 1 @ drop (?b + r + n) (memory_pages ?ps) \<rparr>)"
      using do_alloc_pages_spec [OF dd(1) n] dd(2) by auto
    define B where "B = md_start ?d + r * PAGE_SIZE"
    define ps' where "ps' = ?ps\<lparr> memory_pages :=
         take (?b + r) (memory_pages ?ps) @ replicate n 1 @ drop (?b + r + n) (memory_pages ?ps) \<rparr>"
    define sz where "sz = n * PAGE_SIZE - sizeof_block - sizeof_chunk"
    have le: "?b + r + n \<le> length (memory_pages ?ps)" using r(1) desc_pages [OF dd(1)] by (simp add: run_def)
    have al: "PAGE_SIZE dvd B" using dd(1) by (simp add: B_def desc_ok_def)
    have bd: "B div PAGE_SIZE = ?b + r" by (simp add: B_def PAGE_SIZE_def)
    have free: "\<forall>k < n. memory_pages ?ps ! (B div PAGE_SIZE + k) = 0" using r(1) bd by (simp add: run_def)
    have fits: "B + n * PAGE_SIZE \<le> 4294967296"
    proof -
      have "(r + n) * PAGE_SIZE \<le> ?m * PAGE_SIZE" using r(1) by (intro mult_le_mono1) (simp add: run_def)
      also have "\<dots> \<le> md_size ?d" by (rule div_times_less_eq_dividend)
      finally show ?thesis using dd(1) by (simp add: B_def desc_ok_def algebra_simps)
    qed
    let ?h1 = "h\<lparr> kpages := ps', used_pages := u32_of (used_pages h + n),
       kblocks := (kblocks h)(B := \<lparr> b_magic = KMALLOC_BLOCK_MAGIC, b_pages = n, biggest_free = sz, b_next = None \<rparr>),
       kchunks := (kchunks h)(B + sizeof_block := kmalloc_chunk_set_free True \<lparr> ch_magic = KMALLOC_CHUNK_MAGIC,
         ch_size = sz, ch_block = B, ch_prev = None, ch_next = None \<rparr>) \<rparr>"
    let ?h2 = "?h1\<lparr> kroot := Some B, kblocks := (kblocks ?h1)(B := (kblocks ?h1 B)\<lparr> b_next := kroot ?h1 \<rparr>) \<rparr>"
    have create: "kmalloc_block_create n h = Some (Some B, ?h1)"
      using r(2) by (simp add: kmalloc_block_create_def B_def ps'_def sz_def Let_def)
    have ap: "apart (B, n, [(sz, True)]) x" "B \<noteq> fst x" if "x \<in> set bs" for x
    proof -
      obtain B' n' cs' where x: "x = (B', n', cs')" by (cases x)
      note xb = heap_inv_pages [OF inv that [unfolded x]] heap_block(2) [OF inv that [unfolded x]]
      show "apart (B, n, [(sz, True)]) x" unfolding x by (rule pages_apart [OF free]) (use xb al n in auto)
      then show "B \<noteq> fst x" using xb(1) n x by (auto simp: apart_def PAGE_SIZE_def)
    qed
    have new: "block_rel ?h2 B n [(sz, True)]"
      using hdr_new [of sz B None None] fits al n
      by (cases n) (auto simp: block_rel_def kmalloc_block_validate_def sz_def sizeof_block_def sizeof_chunk_def
          PAGE_SIZE_def kmalloc_chunk_set_free_def)
    have old: "block_rel ?h2 B' n' cs'" if "(B', n', cs') \<in> set bs" for B' n' cs'
    proof (rule block_rel_cong)
      show "block_rel h B' n' cs'" using heap_block(1) [OF inv that] .
      show "kblocks ?h2 B' = kblocks h B'" using ap(2) [OF that] by simp
      show "kchunks ?h2 x = kchunks h x" if "B' + sizeof_block \<le> x" "x < B' + n' * PAGE_SIZE" for x
        using ap(1) [OF \<open>(B', n', cs') \<in> set bs\<close>] that n by (cases n) (auto simp: apart_def PAGE_SIZE_def sizeof_block_def)
    qed
    have used': "pages_used ps' B' n'" if "pages_used ?ps B' n'" for B' n'
      using that le unfolding pages_used_def ps'_def by (auto simp: nth_append)
    have usedB: "pages_used ps' B n" using le bd unfolding pages_used_def ps'_def by (auto simp: nth_append)
    have "heap_inv ?h2 ((B, n, [(sz, True)]) # bs)" unfolding heap_inv_def
    proof (intro conjI)
      have "B \<notin> set (map fst bs)" using ap(2) by auto
      then have "chain (\<lambda>b. b_next (kblocks ?h2 b)) (kroot h) (map fst bs) =
          chain (\<lambda>b. b_next (kblocks h b)) (kroot h) (map fst bs)" by (intro chain_cong) auto
      then show "chain (\<lambda>b. b_next (kblocks ?h2 b)) (kroot ?h2) (map fst ((B, n, [(sz, True)]) # bs))"
        using hp(5) by simp
      show "\<forall>(B', n', cs') \<in> set ((B, n, [(sz, True)]) # bs). block_rel ?h2 B' n' cs' \<and> pages_used (kpages ?h2) B' n'"
        using new old usedB used' heap_block(2) [OF inv] by auto
      show "\<forall>x \<in> set ((B, n, [(sz, True)]) # bs). \<forall>y \<in> set ((B, n, [(sz, True)]) # bs). fst x \<noteq> fst y \<longrightarrow> apart x y"
        using ap(1) heap_apart [OF inv] by (auto simp: apart_def)
      show "pages_inv (kpages ?h2)" using hp(1) le by (auto simp: pages_inv_def desc_ok_def ps'_def)
    qed (use hp in \<open>simp_all add: ps'_def\<close>)
    then show ?thesis using create by (simp add: sz_def)
  qed
qed

lemma find_block_spec:
  assumes "chain (\<lambda>b. b_next (bs b)) p xs" and "\<forall>x \<in> set xs. kmalloc_block_validate (bs x)"
  shows "find_block sz bs p = Some (List.find (\<lambda>x. sz \<le> biggest_free (bs x)) xs)"
  using assms
proof (induction xs arbitrary: p)
  case Nil
  then show ?case by (subst find_block.simps) simp
next
  case (Cons x xs)
  then show ?case by (subst find_block.simps) simp
qed

lemma find_block_heap:
  assumes "heap_inv h bs"
  shows "find_block sz (kblocks h) (kroot h) = Some None \<and> (\<forall>(B, n, cs) \<in> set bs. big cs < sz) \<or>
    (\<exists>(B, n, cs) \<in> set bs. find_block sz (kblocks h) (kroot h) = Some (Some B) \<and> sz \<le> big cs)"
proof -
  have val: "\<forall>x \<in> set (map fst bs). kmalloc_block_validate (kblocks h x)"
    and bf: "biggest_free (kblocks h B) = big cs" if "(B, n, cs) \<in> set bs" for B n cs
    using heap_block(1) [OF assms] that by (auto simp: block_rel_def)
  have val: "\<forall>x \<in> set (map fst bs). kmalloc_block_validate (kblocks h x)"
    using heap_block(1) [OF assms] by (auto simp: block_rel_def)
  note f = find_block_spec [OF heap_pages(5) [OF assms] val, of sz]
  show ?thesis
  proof (cases "List.find (\<lambda>x. sz \<le> biggest_free (kblocks h x)) (map fst bs)")
    case None
    then have "\<forall>x \<in> set (map fst bs). \<not> sz \<le> biggest_free (kblocks h x)" by (auto simp: find_None_iff)
    then have "\<forall>(B, n, cs) \<in> set bs. big cs < sz" using bf by fastforce
    then show ?thesis using f None by simp
  next
    case (Some B)
    then have "B \<in> set (map fst bs)" "sz \<le> biggest_free (kblocks h B)" by (auto simp: find_Some_iff)
    then obtain n cs where "(B, n, cs) \<in> set bs" "sz \<le> big cs" using bf by fastforce
    then show ?thesis using f Some by auto
  qed
qed

section \<open>Properties\<close>


text \<open>What coalescing does to the memory in use: nothing.\<close>

lemma left_of_used:
  assumes "left_of us s = (us', s')"
  shows "used us' = used us" "tot us' + s' = tot us + s"
    "{(q, t). (q, t, False) \<in> cset a us'} = {(q, t). (q, t, False) \<in> cset a us}"
  using assms by (cases us rule: rev_cases; auto simp: left_of_def split: if_splits)+

lemma right_of_used:
  assumes "right_of s vs = (s', vs')"
  shows "used vs' = used vs"
    "{(q, t). (q, t, False) \<in> cset (a + s') vs'} = {(q, t). (q, t, False) \<in> cset (a + s) vs}"
  using assms by (auto simp: right_of_def add.assoc add.commute [of sizeof_chunk] split: list.splits bool.splits)

lemma u32_of_sub: "s < 4294967296 \<Longrightarrow> u32_of (u32_of (v + s) + 4294967296 - s) = u32_of v"
proof -
  assume s: "s < 4294967296"
  then have "u32_of (v + s) + 4294967296 - s = u32_of (v + s) + (4294967296 - s)" by simp
  then have "u32_of (u32_of (v + s) + 4294967296 - s) = u32_of (v + s + (4294967296 - s))"
    by (simp only: mod_add_left_eq)
  also have "v + s + (4294967296 - s) = v + 4294967296" using s by simp
  finally show ?thesis by (simp only: mod_add_self2)
qed

text \<open>C2: \<open>kfree\<close> of memory in use never panics, gives back exactly that memory and keeps the heap well
  formed; freeing it a second time, with nothing in between, is always detected (it panics). The count
  of allocated bytes is the sum of the sizes in use, in 32 bits.\<close>

theorem kfree_safe:
  assumes inv: "heap_inv h bs" and p: "(p, s) \<in> allocated bs"
  shows "\<exists>h' bs'. kfree (Some p) h = Some h' \<and> heap_inv h' bs' \<and> allocated bs' = allocated bs - {(p, s)} \<and>
    kfree (Some p) h' = None \<and> alloc_size h = u32_of (sum_list (map (\<lambda>(_, _, cs). used cs) bs))"
proof -
  obtain B n cs where B: "(B, n, cs) \<in> set bs" "(p, s, False) \<in> cset (B + sizeof_block) cs"
    using p by (auto simp: allocated_def)
  obtain xs ys where bs: "bs = xs @ (B, n, cs) # ys" using B(1) by (auto simp: in_set_conv_decomp)
  obtain us vs where cs: "cs = us @ (s, False) # vs" "p = B + sizeof_block + tot us + sizeof_chunk"
    using cset_split [OF B(2)] by blast
  obtain us' s1 where lo: "left_of us s = (us', s1)" by fastforce
  obtain s2 vs' where ro: "right_of s1 vs = (s2, vs')" by fastforce
  obtain h' where r: "kfree (Some p) h = Some h'" "block_rel h' B n (us' @ (s2, True) # vs')" "block_frame B n h h'"
    "alloc_size h' = u32_of (alloc_size h + 4294967296 - s)" "kfree (Some p) h' = None"
    using kfree_chunk_spec [OF heap_block(1) [OF inv B(1)] cs(1) lo ro] cs(2) by blast
  let ?bs = "xs @ (B, n, us' @ (s2, True) # vs') # ys"
  have mem: "{(q, t). (q, t, False) \<in> cset a (us' @ (s2, True) # vs')} =
      {(q, t). (q, t, False) \<in> cset a us} \<union> {(q, t). (q, t, False) \<in> cset (a + tot us + sizeof_chunk + s) vs}" for a
  proof -
    have e: "a + tot us' + sizeof_chunk + s1 = a + tot us + sizeof_chunk + s" using left_of_used(2) [OF lo] by simp
    show ?thesis
      using left_of_used(3) [OF lo, of a] right_of_used(2) [OF ro, of "a + tot us' + sizeof_chunk", unfolded e]
      by (auto simp: set_eq_iff)
  qed
  have "s < 4294967296" using heap_block(1) [OF inv B(1)] cs(1) by (auto simp: block_rel_def sizeof_chunk_def)
  moreover have "alloc_size h = u32_of (sum_list (map (\<lambda>(_, _, cs). used cs) ?bs) + s)"
    using heap_pages(4) [OF inv] bs cs(1) left_of_used(1) [OF lo] right_of_used(1) [OF ro] by (simp add: ac_simps)
  ultimately have "alloc_size h' = u32_of (sum_list (map (\<lambda>(_, _, cs). used cs) ?bs))"
    using r(4) u32_of_sub by metis
  then have "heap_inv h' ?bs" by (rule heap_inv_block [OF inv bs r(2,3)])
  moreover have "allocated ?bs = allocated bs - {(p, s)}"
  proof -
    have one: "{(q, t). (q, t, False) \<in> cset (B + sizeof_block) cs} =
        insert (p, s) {(q, t). (q, t, False) \<in> cset (B + sizeof_block) (us' @ (s2, True) # vs')}"
      unfolding mem using cs by auto
    have "(p, s) \<notin> allocated ?bs"
    proof
      assume "(p, s) \<in> allocated ?bs"
      then obtain B' n' cs' where y: "(B', n', cs') \<in> set ?bs" "(p, s, False) \<in> cset (B' + sizeof_block) cs'"
        unfolding allocated_def by blast
      show False
      proof (cases "(p, s, False) \<in> cset (B + sizeof_block) us \<or>
          (p, s, False) \<in> cset (B + sizeof_block + tot us + sizeof_chunk + s) vs")
        case True
        then show False using cset_range [of p s False "B + sizeof_block" us]
            cset_range [of p s False "B + sizeof_block + tot us + sizeof_chunk + s" vs] cs(2)
          by (auto simp: sizeof_chunk_def)
      next
        case False
        then have "(B', n', cs') \<noteq> (B, n, us' @ (s2, True) # vs')" using mem [of "B + sizeof_block"] y(2) by auto
        then have "(B', n', cs') \<in> set (xs @ ys)" using y(1) by auto
        then have in': "(B', n', cs') \<in> set bs" "B' \<noteq> B" using bs heap_pages(6) [OF inv] by force+
        have "apart (B, n, cs) (B', n', cs')" using heap_apart [OF inv B(1) in'(1)] in'(2) by simp
        then show False
          using cset_range [OF B(2)] cset_range [OF y(2)] heap_block(1) [OF inv B(1)] heap_block(1) [OF inv in'(1)]
          by (auto simp: apart_def block_rel_def sizeof_chunk_def sizeof_block_def)
      qed
    qed
    then show ?thesis unfolding bs allocated_block one by auto
  qed
  ultimately show ?thesis using r(1,5) heap_pages(4) [OF inv] by blast
qed

text \<open>A heap of one page with one chunk of 100 bytes in use.\<close>

definition demo_heap :: kheap where
  "demo_heap = \<lparr> kroot = Some 4096,
     kblocks = (\<lambda>_. \<lparr> b_magic = KMALLOC_BLOCK_MAGIC, b_pages = 1, biggest_free = 3940, b_next = None \<rparr>),
     kchunks = (\<lambda>a. if a = 4112
       then \<lparr> ch_magic = 0xDEADBEE0, ch_size = 100, ch_block = 4096, ch_prev = None, ch_next = Some 4232 \<rparr>
       else \<lparr> ch_magic = 0xDEADBEE1, ch_size = 3940, ch_block = 4096, ch_prev = Some 4112, ch_next = None \<rparr>),
     used_pages = 1, alloc_size = 100,
     kpages = \<lparr> memory_size = 16384, memory_pages = [1, 1, 0, 0],
       memory_descriptors = \<lparr> md_free = False, md_start = 0, md_size = 16384 \<rparr> #
         replicate 3 \<lparr> md_free = True, md_start = 0, md_size = 0 \<rparr> \<rparr> \<rparr>"

lemma demo_heap_inv: "heap_inv demo_heap [(4096, 1, [(100, False), (3940, True)])]"
  by (simp add: heap_inv_def demo_heap_def block_rel_def kmalloc_block_validate_def hdr_def sizeof_block_def
      sizeof_chunk_def PAGE_SIZE_def pages_used_def pages_inv_def desc_ok_def MAX_MEMORY_TYPES_def MEM_COMMON_def)


theorem kfree_safe_witness:
  "\<exists>h' bs'. kfree (Some 4132) demo_heap = Some h' \<and> heap_inv h' bs' \<and> allocated bs' = {} \<and>
     kfree (Some 4132) h' = None"
proof -
  have "allocated [(4096, 1, [(100, False), (3940, True)])] = {(4132, 100)}"
    by (auto simp: allocated_def sizeof_block_def sizeof_chunk_def)
  then show ?thesis using kfree_safe [OF demo_heap_inv, of 4132 100] by auto
qed

end
