(* ===== verification/Kernel_Heap_Clients.thy ===== *)
theory Kernel_Heap_Clients
  imports Kernel_Kmalloc_Safety Kernel_Item_Table
begin

text \<open>
  The clients of the kernel heap: the interfaces through which the pointer array and the hash table
  use \<^verbatim>\<open>kmalloc\<close>, interpreted on the model of \<^verbatim>\<open>kmalloc.c\<close>. The heap hands out \<open>n\<close> pointer cells of
  4 bytes each, filled with the pattern \<^verbatim>\<open>0xaa\<close> that \<open>kmalloc\<close> writes (here the cell \<open>x\<close>).
\<close>

definition kmalloc_cells :: "'a \<Rightarrow> kheap \<Rightarrow> 'a alloc" where
  "kmalloc_cells x h n =
     (case kmalloc (u32_of (4 * n)) h of Some (Some _, _) \<Rightarrow> Some (replicate n x) | _ \<Rightarrow> None)"

interpretation heap_cells: allocator "kmalloc_cells x h" for x :: 'a and h
  by unfold_locales (auto simp: kmalloc_cells_def kmalloc_def split: option.splits prod.splits)

interpretation heap_ptrs: ptr_allocator "kmalloc_cells x h" for x h
  by unfold_locales

text \<open>The tables of the kernel that are keyed by an integer (locks, threads, processes, regions) and
  by a 64-bit integer (inodes).\<close>

interpretation int_table: hash_table "\<lambda>k. the (hash_int k)" compare_int "kmalloc_cells x h" key for x h key
  by unfold_locales

interpretation int64_table: hash_table "\<lambda>k. the (hash_int64 k)" compare_int64 "kmalloc_cells x h" key for x h key
  by unfold_locales

end
