(* ===== verification/Kernel_Paging.thy ===== *)
theory Kernel_Paging
  imports Kernel_Pages
begin

unbundle bit_operations_syntax

text \<open>
  The i386 page tables, \<^verbatim>\<open>source/kernel/arch/i386/src/mm/paging.c\<close>, \<^verbatim>\<open>region.c\<close> and \<^verbatim>\<open>context.c\<close>, and the
  copy-on-write handler of \<^verbatim>\<open>pagefault.c\<close>. The kernel reaches physical memory at the same addresses, so
  the state is the page allocator together with the words of every page frame, indexed by the address of
  the frame and the number of the word in it. An access through a \<^verbatim>\<open>NULL\<close> table and a failed assertion
  are faults (\<open>None\<close>). The flush of the translation buffer is hardware and left out.
\<close>

section \<open>Data\<close>

record memory_region_t =
  r_id :: int
  r_name :: "byte list"
  r_ref_count :: int
  r_flags :: u32
  r_address :: nat
  r_size :: nat
  r_file :: vptr
  r_file_offset :: int
  r_file_size :: nat
  r_context :: vptr

definition REGION_READ :: u32 where "REGION_READ = 1"
definition REGION_WRITE :: u32 where "REGION_WRITE = 2"
definition REGION_EXECUTE :: u32 where "REGION_EXECUTE = 4"
definition REGION_KERNEL :: u32 where "REGION_KERNEL = 8"
definition REGION_STACK :: u32 where "REGION_STACK = 16"
definition REGION_REMAPPED :: u32 where "REGION_REMAPPED = 32"
definition REGION_ALLOCATED :: u32 where "REGION_ALLOCATED = 64"
definition REGION_CLONED :: u32 where "REGION_CLONED = 128"
definition REGION_CALL_FROM_USERSPACE :: u32 where "REGION_CALL_FROM_USERSPACE = 256"

definition REGION_USER_FLAGS :: u32 where
  "REGION_USER_FLAGS = REGION_READ OR REGION_WRITE OR REGION_EXECUTE OR REGION_KERNEL OR
     REGION_STACK OR REGION_CALL_FROM_USERSPACE"

definition REGION_MAPPING_FLAGS :: u32 where
  "REGION_MAPPING_FLAGS = REGION_REMAPPED OR REGION_ALLOCATED OR REGION_CLONED"

definition PAGE_PRESENT :: u32 where "PAGE_PRESENT = 1"
definition PAGE_WRITE :: u32 where "PAGE_WRITE = 2"
definition PAGE_USER :: u32 where "PAGE_USER = 4"

definition PAGE_MASK :: u32 where "PAGE_MASK = NOT 4095"

definition FIRST_USER_ADDRESS :: nat where
  "FIRST_USER_ADDRESS = 1073741824"

definition PGDIR_SIZE :: nat where
  "PGDIR_SIZE = 4194304"

definition PGD_INDEX :: "nat \<Rightarrow> nat" where
  "PGD_INDEX a = a div PGDIR_SIZE"

definition PT_INDEX :: "nat \<Rightarrow> nat" where
  "PT_INDEX a = a div PAGE_SIZE mod 1024"

record mmu =
  mm_pages :: page_state
  mm_words :: "nat \<Rightarrow> nat \<Rightarrow> u32"

text \<open>\<^verbatim>\<open>virtual + size - 1\<close> with a \<^verbatim>\<open>uint64_t\<close> size.\<close>

definition last_addr :: "nat \<Rightarrow> nat \<Rightarrow> nat" where
  "last_addr a n = (a + n + 18446744073709551615) mod 18446744073709551616"

lemma last_addr_nowrap: "0 < n \<Longrightarrow> a + n \<le> 18446744073709551616 \<Longrightarrow> last_addr a n = a + n - 1"
proof -
  assume n: "0 < n" "a + n \<le> 18446744073709551616"
  then have "a + n + 18446744073709551615 = a + n - 1 + 18446744073709551616" by simp
  then have "last_addr a n = (a + n - 1 + 18446744073709551616) mod 18446744073709551616"
    unfolding last_addr_def by (rule arg_cong)
  also have "\<dots> = (a + n - 1) mod 18446744073709551616" by (rule mod_add_self2)
  also have "\<dots> = a + n - 1" using n by (intro mod_less) simp
  finally show ?thesis .
qed

text \<open>The frame address in an entry.\<close>

definition frame :: "u32 \<Rightarrow> nat" where
  "frame e = unat (e AND PAGE_MASK)"

section \<open>Words of page frames\<close>

definition get_word :: "nat \<Rightarrow> nat \<Rightarrow> mmu \<Rightarrow> u32 option" where
  "get_word t i m = (if t = 0 then None else Some (mm_words m t i))"

definition put_word :: "nat \<Rightarrow> nat \<Rightarrow> u32 \<Rightarrow> mmu \<Rightarrow> mmu option" where
  "put_word t i v m = (if t = 0 then None
     else Some (m\<lparr> mm_words := (mm_words m)(t := (mm_words m t)(i := v)) \<rparr>))"

text \<open>\<^verbatim>\<open>memsetl( p, 0, PAGE_SIZE / 4 )\<close> and \<^verbatim>\<open>alloc_pages( 1, MEM_COMMON )\<close>, with address 0 as \<^verbatim>\<open>NULL\<close>.\<close>

definition zero_page :: "nat \<Rightarrow> mmu \<Rightarrow> mmu" where
  "zero_page p m = m\<lparr> mm_words := (mm_words m)(p := (\<lambda>_. 0)) \<rparr>"

definition alloc_page :: "mmu \<Rightarrow> (nat option \<times> mmu) option" where
  "alloc_page m = do {
     (p, ps) \<leftarrow> alloc_pages 1 MEM_COMMON (mm_pages m);
     Some (if p = Some 0 then None else p, m\<lparr> mm_pages := ps \<rparr>) }"

section \<open>Entries of one table\<close>

text \<open>The loop \<^verbatim>\<open>for ( i = from; i <= to; i++ )\<close> of the functions below, with their two assertions.
  \<open>step\<close> is the body, and an error leaves the loop.\<close>

type_synonym 'r mmu_op = "mmu \<Rightarrow> ((errno + 'r) \<times> mmu) option"

primrec entries_loop :: "(nat \<Rightarrow> unit mmu_op) \<Rightarrow> nat \<Rightarrow> nat \<Rightarrow> unit mmu_op" where
  "entries_loop body 0 i m = Some (Inr (), m)"
| "entries_loop body (Suc n) i m = do {
     (r, m) \<leftarrow> body i m;
     case r of Inl e \<Rightarrow> Some (Inl e, m) | Inr _ \<Rightarrow> entries_loop body n (i + 1) m }"

definition for_entries :: "(nat \<Rightarrow> unit mmu_op) \<Rightarrow> nat \<Rightarrow> nat \<Rightarrow> unit mmu_op" where
  "for_entries body from to m =
     (if \<not> (to \<le> 1023 \<and> from \<le> to) then None else entries_loop body (to + 1 - from) from m)"

definition get_paging_flags_for_region :: "memory_region_t \<Rightarrow> u32" where
  "get_paging_flags_for_region region =
     (let flags = PAGE_PRESENT;
          flags = (if r_flags region AND REGION_WRITE \<noteq> 0 then flags OR PAGE_WRITE else flags)
      in if r_flags region AND REGION_KERNEL = 0 then flags OR PAGE_USER else flags)"

definition paging_alloc_table_entries :: "nat \<Rightarrow> nat \<Rightarrow> nat \<Rightarrow> u32 \<Rightarrow> bool \<Rightarrow> unit mmu_op" where
  "paging_alloc_table_entries table from to flags fail_on_nonempty =
     for_entries (\<lambda>i m. do {
       e \<leftarrow> get_word table i m;
       if e \<noteq> 0 then Some (if fail_on_nonempty then Inl EINVAL else Inr (), m)
       else do {
         (p, m) \<leftarrow> alloc_page m;
         case p of
           None \<Rightarrow> Some (Inl ENOMEM, m)
         | Some p \<Rightarrow> do {
             m \<leftarrow> put_word table i (word_of_nat p OR flags) (zero_page p m);
             Some (Inr (), m) } } }) from to"

definition paging_fill_table_entries :: "nat \<Rightarrow> u32 \<Rightarrow> nat \<Rightarrow> nat \<Rightarrow> u32 \<Rightarrow> unit mmu_op" where
  "paging_fill_table_entries table address from to flags =
     for_entries (\<lambda>i m. do {
       e \<leftarrow> get_word table i m;
       if e \<noteq> 0 then Some (Inl EINVAL, m)
       else do {
         m \<leftarrow> put_word table i ((address OR flags) + word_of_nat ((i - from) * PAGE_SIZE)) m;
         Some (Inr (), m) } }) from to"

definition paging_clear_table_entries :: "nat \<Rightarrow> nat \<Rightarrow> nat \<Rightarrow> unit mmu_op" where
  "paging_clear_table_entries table =
     for_entries (\<lambda>i m. do { m \<leftarrow> put_word table i 0 m; Some (Inr (), m) })"

text \<open>Adding to the reference count of the page at an address, which has to be positive; \<^verbatim>\<open>NULL\<close>
  and addresses behind the page array are faults.\<close>

definition add_ref :: "nat \<Rightarrow> int \<Rightarrow> mmu \<Rightarrow> mmu option" where
  "add_ref ptr d m =
     (let k = ptr div PAGE_SIZE; ps = memory_pages (mm_pages m) in
      if k < length ps \<and> ps ! k > 0
      then Some (m\<lparr> mm_pages := (mm_pages m)\<lparr> memory_pages := ps[k := ps ! k + d] \<rparr> \<rparr>) else None)"

definition paging_free_table_entries :: "nat \<Rightarrow> nat \<Rightarrow> nat \<Rightarrow> unit mmu_op" where
  "paging_free_table_entries table =
     for_entries (\<lambda>i m. do {
       e \<leftarrow> get_word table i m;
       if e = 0 then Some (Inr (), m)
       else do {
         m \<leftarrow> (if frame e < memory_size (mm_pages m) then add_ref (frame e) (- 1) m else Some m);
         m \<leftarrow> put_word table i 0 m;
         Some (Inr (), m) } })"

definition paging_clone_table_entries :: "nat \<Rightarrow> nat \<Rightarrow> nat \<Rightarrow> nat \<Rightarrow> bool \<Rightarrow> unit mmu_op" where
  "paging_clone_table_entries old_table new_table from to remove_write =
     for_entries (\<lambda>i m. do {
       e \<leftarrow> get_word old_table i m;
       m \<leftarrow> (if remove_write then put_word old_table i (e AND NOT PAGE_WRITE) m else Some m);
       e \<leftarrow> get_word old_table i m;
       m \<leftarrow> put_word new_table i e m;
       e \<leftarrow> get_word old_table i m;
       if \<not> frame e < memory_size (mm_pages m) then None
       else do {
         m \<leftarrow> add_ref (frame e) 1 m;
         Some (Inr (), m) } }) from to"

definition paging_copy_table_entries :: "nat \<Rightarrow> nat \<Rightarrow> nat \<Rightarrow> nat \<Rightarrow> unit mmu_op" where
  "paging_copy_table_entries old_table new_table =
     for_entries (\<lambda>i m. do {
       e \<leftarrow> get_word old_table i m;
       m \<leftarrow> put_word new_table i e m;
       Some (Inr (), m) })"

section \<open>The tables of a region\<close>

text \<open>
  The walk over the page tables of an address range that the functions of \<^verbatim>\<open>region.c\<close> share: the tail of
  the first table, the tables between, and the head of the last one. \<open>op i from to k\<close> works on the
  entries \<open>from\<close> to \<open>to\<close> of the table in directory slot \<open>i\<close>; \<open>k\<close> is the number of pages done before.
\<close>

type_synonym table_op = "nat \<Rightarrow> nat \<Rightarrow> nat \<Rightarrow> nat \<Rightarrow> unit mmu_op"

function tables_loop :: "table_op \<Rightarrow> nat \<Rightarrow> nat \<Rightarrow> nat \<Rightarrow> nat \<Rightarrow> unit mmu_op" where
  "tables_loop op curr_pt last_pt last_page k m =
     (if curr_pt < last_pt then do {
        (r, m) \<leftarrow> op curr_pt 0 1023 k m;
        case r of Inl e \<Rightarrow> Some (Inl e, m)
        | Inr _ \<Rightarrow> tables_loop op (curr_pt + 1) last_pt last_page (k + 1024) m }
      else if curr_pt = last_pt then op curr_pt 0 last_page k m
      else Some (Inr (), m))"
  by pat_completeness auto
termination
  by (relation "measure (\<lambda>(_, curr_pt, last_pt, _). last_pt - curr_pt)") auto

declare tables_loop.simps [simp del]

definition for_tables :: "table_op \<Rightarrow> nat \<Rightarrow> nat \<Rightarrow> unit mmu_op" where
  "for_tables op first end_addr m =
     (let curr_pt = PGD_INDEX first; last_pt = u32_of (PGD_INDEX end_addr); first_page = PT_INDEX first;
          last_page = (if curr_pt = last_pt then PT_INDEX end_addr else 1023)
      in do {
        (r, m) \<leftarrow> op curr_pt first_page last_page 0 m;
        case r of Inl e \<Rightarrow> Some (Inl e, m)
        | Inr _ \<Rightarrow> tables_loop op (curr_pt + 1) last_pt (PT_INDEX end_addr) (last_page + 1 - first_page) m })"

text \<open>\<^verbatim>\<open>page_directory[ i ] & PAGE_MASK\<close>.\<close>

definition table_at :: "nat \<Rightarrow> nat \<Rightarrow> mmu \<Rightarrow> nat option" where
  "table_at dir i m = map_option frame (get_word dir i m)"

definition arch_memory_region_remap_pages :: "nat \<Rightarrow> memory_region_t \<Rightarrow> u32 \<Rightarrow> unit mmu_op" where
  "arch_memory_region_remap_pages dir region physical_address m =
     (let flags = get_paging_flags_for_region region;
          end_addr = last_addr (r_address region) (r_size region)
      in do {
        (r, m) \<leftarrow> paging_alloc_table_entries dir (PGD_INDEX (r_address region)) (u32_of (PGD_INDEX end_addr))
           (flags OR PAGE_WRITE) False m;
        case r of Inl e \<Rightarrow> Some (Inl e, m)
        | Inr _ \<Rightarrow> for_tables (\<lambda>i from to k m. do {
            t \<leftarrow> table_at dir i m;
            paging_fill_table_entries t (physical_address + word_of_nat (k * PAGE_SIZE)) from to flags m })
            (r_address region) end_addr m })"

definition arch_memory_region_alloc_pages :: "nat \<Rightarrow> memory_region_t \<Rightarrow> nat \<Rightarrow> nat \<Rightarrow> unit mmu_op" where
  "arch_memory_region_alloc_pages dir region virtual n m =
     (let flags = get_paging_flags_for_region region; end_addr = last_addr virtual n in do {
        (r, m) \<leftarrow> paging_alloc_table_entries dir (PGD_INDEX virtual) (u32_of (PGD_INDEX end_addr))
           (flags OR PAGE_WRITE) False m;
        case r of Inl e \<Rightarrow> Some (Inl e, m)
        | Inr _ \<Rightarrow> for_tables (\<lambda>i from to k m. do {
            t \<leftarrow> table_at dir i m;
            paging_alloc_table_entries t from to flags True m }) virtual end_addr m })"

text \<open>Only the first table of the range is tested for \<^verbatim>\<open>NULL\<close>. The result \<^verbatim>\<open>-1\<close> for an invalid mapping mode
  is read as an error code.\<close>

definition arch_memory_region_unmap_pages :: "nat \<Rightarrow> memory_region_t \<Rightarrow> nat \<Rightarrow> nat \<Rightarrow> unit mmu_op" where
  "arch_memory_region_unmap_pages dir region virtual n m =
     (let mode = r_flags region AND REGION_MAPPING_FLAGS in
      if mode = 0 then Some (Inr (), m)
      else if mode \<noteq> REGION_REMAPPED \<and> mode \<noteq> REGION_ALLOCATED \<and> mode \<noteq> REGION_CLONED
      then Some (Inl ENOMEM, m)
      else let unmap_function = (if mode = REGION_REMAPPED then paging_clear_table_entries
                                 else paging_free_table_entries)
      in for_tables (\<lambda>i from to k m. do {
           pd \<leftarrow> table_at dir i m;
           if i = PGD_INDEX virtual \<and> pd = 0 then Some (Inr (), m)
           else unmap_function pd from to m }) virtual (last_addr virtual n) m)"

definition do_clone_allocated_region_pages ::
    "nat \<Rightarrow> nat \<Rightarrow> memory_region_t \<Rightarrow> unit mmu_op" where
  "do_clone_allocated_region_pages old_dir new_dir new_region m =
     (let flags = get_paging_flags_for_region new_region;
          end_addr = last_addr (r_address new_region) (r_size new_region);
          remove_write = (r_flags new_region AND REGION_WRITE \<noteq> 0 \<and> r_flags new_region AND REGION_CLONED = 0)
      in do {
        (r, m) \<leftarrow> paging_alloc_table_entries new_dir (PGD_INDEX (r_address new_region))
           (u32_of (PGD_INDEX end_addr)) (flags OR PAGE_WRITE) False m;
        case r of Inl e \<Rightarrow> Some (Inl e, m)
        | Inr _ \<Rightarrow> for_tables (\<lambda>i from to k m. do {
            old \<leftarrow> table_at old_dir i m;
            new \<leftarrow> table_at new_dir i m;
            paging_clone_table_entries old new from to remove_write m })
            (r_address new_region) end_addr m })"

text \<open>The loop of \<open>do_clone_region_pages\<close>, page by page. \<open>end_address\<close> is a 64-bit sum, the loop variables
  are 32 bits wide, so a region that ends at 4 GB makes it run forever.\<close>

partial_function (option) clone_pages_loop :: "nat \<Rightarrow> nat \<Rightarrow> nat \<Rightarrow> nat \<Rightarrow> nat \<Rightarrow> mmu \<Rightarrow> mmu option" where
  "clone_pages_loop old_dir new_dir end_address old_address new_address m =
     (if old_address < end_address then do {
        old_pt \<leftarrow> table_at old_dir (PGD_INDEX old_address) m;
        new_pt \<leftarrow> table_at new_dir (PGD_INDEX new_address) m;
        e \<leftarrow> get_word old_pt (PT_INDEX old_address) m;
        m \<leftarrow> put_word new_pt (PT_INDEX new_address) e m;
        if \<not> frame e < memory_size (mm_pages m) then None
        else do {
          m \<leftarrow> add_ref (frame e) 1 m;
          clone_pages_loop old_dir new_dir end_address
            (u32_of (old_address + PAGE_SIZE)) (u32_of (new_address + PAGE_SIZE)) m } }
      else Some m)"

definition do_clone_region_pages ::
    "nat \<Rightarrow> nat \<Rightarrow> memory_region_t \<Rightarrow> memory_region_t \<Rightarrow> unit mmu_op" where
  "do_clone_region_pages old_dir new_dir old_region new_region m =
     (let flags = get_paging_flags_for_region new_region;
          end_addr = last_addr (r_address new_region) (r_size new_region)
      in do {
        (r, m) \<leftarrow> paging_alloc_table_entries new_dir (PGD_INDEX (r_address new_region))
           (u32_of (PGD_INDEX end_addr)) (flags OR PAGE_WRITE) False m;
        case r of Inl e \<Rightarrow> Some (Inl e, m)
        | Inr _ \<Rightarrow> do {
            m \<leftarrow> clone_pages_loop old_dir new_dir ((r_address old_region + r_size old_region) mod 18446744073709551616)
              (r_address old_region) (r_address new_region) m;
            Some (Inr (), m) } })"

definition do_clone_remapped_region_pages ::
    "nat \<Rightarrow> nat \<Rightarrow> memory_region_t \<Rightarrow> unit mmu_op" where
  "do_clone_remapped_region_pages old_dir new_dir new_region m =
     (let flags = get_paging_flags_for_region new_region;
          end_addr = last_addr (r_address new_region) (r_size new_region)
      in do {
        (r, m) \<leftarrow> paging_alloc_table_entries new_dir (PGD_INDEX (r_address new_region))
           (u32_of (PGD_INDEX end_addr)) (flags OR PAGE_WRITE) False m;
        case r of Inl e \<Rightarrow> Some (Inl e, m)
        | Inr _ \<Rightarrow> for_tables (\<lambda>i from to k m. do {
            old \<leftarrow> table_at old_dir i m;
            new \<leftarrow> table_at new_dir i m;
            paging_copy_table_entries old new from to m })
            (r_address new_region) end_addr m })"

definition arch_memory_region_clone_pages ::
    "nat \<Rightarrow> nat \<Rightarrow> memory_region_t \<Rightarrow> memory_region_t \<Rightarrow> unit mmu_op" where
  "arch_memory_region_clone_pages old_dir new_dir old_region new_region m =
     (let mode = r_flags new_region AND REGION_MAPPING_FLAGS in
      if r_size old_region \<noteq> r_size new_region then None
      else if mode = REGION_REMAPPED then do_clone_remapped_region_pages old_dir new_dir new_region m
      else if mode = REGION_ALLOCATED \<or> mode = REGION_CLONED then
        if r_address old_region = r_address new_region
        then do_clone_allocated_region_pages old_dir new_dir new_region m
        else if mode = REGION_ALLOCATED then None
        else do_clone_region_pages old_dir new_dir old_region new_region m
      else Some (Inl ENOMEM, m))"

section \<open>Page directories\<close>

text \<open>The directory of a new context, without the heap object that holds its address.\<close>

definition arch_memory_context_init :: "nat mmu_op" where
  "arch_memory_context_init m = do {
     (p, m) \<leftarrow> alloc_page m;
     case p of None \<Rightarrow> Some (Inl ENOMEM, m) | Some dir \<Rightarrow> Some (Inr dir, zero_page dir m) }"

definition free_frame :: "nat \<Rightarrow> mmu \<Rightarrow> mmu option" where
  "free_frame p m = do {
     ps \<leftarrow> free_pages (if p = 0 then None else Some p) 1 (mm_pages m);
     Some (m\<lparr> mm_pages := ps \<rparr>) }"

primrec free_tables :: "nat \<Rightarrow> nat \<Rightarrow> nat \<Rightarrow> mmu \<Rightarrow> mmu option" where
  "free_tables dir 0 i m = Some m"
| "free_tables dir (Suc n) i m = do {
     e \<leftarrow> get_word dir i m;
     m \<leftarrow> (if e = 0 then Some m else free_frame (frame e) m);
     free_tables dir n (i + 1) m }"

definition arch_memory_context_destroy :: "nat option \<Rightarrow> mmu \<Rightarrow> mmu option" where
  "arch_memory_context_destroy arch_data m =
     (case arch_data of
        None \<Rightarrow> Some m
      | Some dir \<Rightarrow> do {
          let first = FIRST_USER_ADDRESS div PGDIR_SIZE;
          m \<leftarrow> free_tables dir (1024 - first) first m;
          free_frame dir m })"

definition arch_memory_context_clone :: "nat \<Rightarrow> nat \<Rightarrow> mmu \<Rightarrow> mmu option" where
  "arch_memory_context_clone old_dir new_dir m =
     (if old_dir = 0 \<or> new_dir = 0 then None
      else Some (m\<lparr> mm_words := (mm_words m)(new_dir :=
        (\<lambda>i. if i < FIRST_USER_ADDRESS div PGDIR_SIZE then mm_words m old_dir i
              else mm_words m new_dir i)) \<rparr>))"

definition arch_memory_context_translate_address :: "nat \<Rightarrow> nat \<Rightarrow> mmu \<Rightarrow> (errno + u32) option" where
  "arch_memory_context_translate_address dir linear m = do {
     pgd_entry \<leftarrow> get_word dir (PGD_INDEX linear) m;
     if pgd_entry AND PAGE_PRESENT = 0 then Some (Inl EINVAL)
     else do {
       pt_entry \<leftarrow> get_word (frame pgd_entry) (PT_INDEX linear) m;
       if pt_entry AND PAGE_PRESENT = 0 then Some (Inl EINVAL)
       else Some (Inr ((pt_entry AND PAGE_MASK) + word_of_nat (linear mod PAGE_SIZE))) } }"

section \<open>Copy on write\<close>

text \<open>The result is accompanied by the change of the process's \<^verbatim>\<open>pmem_size\<close>.\<close>

definition handle_cow_page :: "nat \<Rightarrow> nat \<Rightarrow> nat mmu_op" where
  "handle_cow_page dir address m = do {
     e \<leftarrow> get_word dir (PGD_INDEX address) m;
     if e = 0 then None
     else do {
       let page_table = frame e;
       let index = PT_INDEX address;
       e \<leftarrow> get_word page_table index m;
       let ptr = frame e;
       let page = ptr div PAGE_SIZE;
       if e = 0 \<or> \<not> (ptr \<noteq> 0 \<and> ptr < memory_size (mm_pages m)) then None
       else if \<not> (page < length (memory_pages (mm_pages m)) \<and> memory_pages (mm_pages m) ! page > 0) then None
       else if memory_pages (mm_pages m) ! page > 1 then do {
         (new_page, ps) \<leftarrow> do_alloc_pages (memory_descriptors (mm_pages m) ! nat MEM_COMMON) 1 (mm_pages m);
         let m = m\<lparr> mm_pages := ps \<rparr>;
         case (if new_page = Some 0 then None else new_page) of
           None \<Rightarrow> Some (Inl ENOMEM, m)
         | Some new_page \<Rightarrow> do {
             let m = m\<lparr> mm_words := (mm_words m)(new_page := mm_words m ptr) \<rparr>;
             m \<leftarrow> add_ref ptr (- 1) m;
             if \<not> memory_pages (mm_pages m) ! page > 0 then None
             else do {
               m \<leftarrow> put_word page_table index
                 (word_of_nat new_page OR PAGE_PRESENT OR PAGE_USER OR PAGE_WRITE) m;
               Some (Inr PAGE_SIZE, m) } } }
       else do {
         m \<leftarrow> put_word page_table index (e OR PAGE_WRITE) m;
         Some (Inr 0, m) } } }"

end
