(* ===== verification/Kernel_Paging_Safety.thy ===== *)
theory Kernel_Paging_Safety
  imports Kernel_Paging
begin

unbundle bit_operations_syntax

text \<open>
  The page tables of a directory seen as one function from page numbers to entries (\<open>pte\<close>), and the
  operations of the paging code as updates of it. The loops over entries and over tables have one rule
  each; an invariant keeps the frames of the directory and its tables apart and reference counted.
\<close>

section \<open>Rules for the loops\<close>

lemma entries_loop_rule:
  assumes "Inv i m"
    and "\<And>j m. Inv j m \<Longrightarrow> i \<le> j \<Longrightarrow> j < i + n \<Longrightarrow> \<exists>r m'. body j m = Some (r, m') \<and>
      (case r of Inl e \<Rightarrow> Err e m' | Inr _ \<Rightarrow> Inv (j + 1) m')"
  shows "\<exists>r m'. entries_loop body n i m = Some (r, m') \<and>
    (case r of Inl e \<Rightarrow> Err e m' | Inr _ \<Rightarrow> Inv (i + n) m')"
  using assms
proof (induction n arbitrary: i m)
  case (Suc n)
  obtain r m' where b: "body i m = Some (r, m')" "case r of Inl e \<Rightarrow> Err e m' | Inr _ \<Rightarrow> Inv (i + 1) m'"
    using Suc.prems(2) [OF Suc.prems(1)] by auto
  show ?case
  proof (cases r)
    case (Inl e)
    with b show ?thesis by simp
  next
    case (Inr u)
    with b have "Inv (i + 1) m'" by simp
    have n: "i + 1 + n = i + Suc n" by simp
    from Suc.IH [OF \<open>Inv (i + 1) m'\<close> Suc.prems(2), unfolded n] Inr b(1) show ?thesis by simp
  qed
qed simp

lemma for_entries_rule:
  assumes "to \<le> 1023" "from \<le> to" and "Inv from m"
    and "\<And>j m. Inv j m \<Longrightarrow> from \<le> j \<Longrightarrow> j \<le> to \<Longrightarrow> \<exists>r m'. body j m = Some (r, m') \<and>
      (case r of Inl e \<Rightarrow> Err e m' | Inr _ \<Rightarrow> Inv (j + 1) m')"
  shows "\<exists>r m'. for_entries body from to m = Some (r, m') \<and>
    (case r of Inl e \<Rightarrow> Err e m' | Inr _ \<Rightarrow> Inv (to + 1) m')"
proof -
  have n: "from + (to + 1 - from) = to + 1" using assms(2) by simp
  show ?thesis
    using entries_loop_rule [of Inv "from" m "to + 1 - from" body Err, OF assms(3), unfolded n] assms(1,2,4)
    by (simp add: for_entries_def)
qed

lemma tables_loop_rule:
  assumes "Inv (ct * 1024) m" and "ct \<le> lst" and "lp \<le> 1023"
    and "\<And>i to m. Inv (i * 1024) m \<Longrightarrow> ct \<le> i \<Longrightarrow> to \<le> 1023 \<Longrightarrow> i * 1024 + to \<le> lst * 1024 + lp \<Longrightarrow>
      \<exists>r m'. op i 0 to (i * 1024 - base) m = Some (r, m') \<and>
        (case r of Inl e \<Rightarrow> Err e m' | Inr _ \<Rightarrow> Inv (i * 1024 + to + 1) m')"
    and "base \<le> ct * 1024"
  shows "\<exists>r m'. tables_loop op ct lst lp (ct * 1024 - base) m = Some (r, m') \<and>
    (case r of Inl e \<Rightarrow> Err e m' | Inr _ \<Rightarrow> Inv (lst * 1024 + lp + 1) m')"
  using assms
proof (induction "lst - ct" arbitrary: ct m)
  case 0
  then have "ct = lst" by simp
  then show ?case using "0.prems"(4) [of ct m lp] "0.prems" by (simp add: tables_loop.simps)
next
  case (Suc n)
  then have lt: "ct < lst" by simp
  then have "ct * 1024 + 1023 \<le> lst * 1024 + lp" by simp
  then obtain r m' where b: "op ct 0 1023 (ct * 1024 - base) m = Some (r, m')"
    "case r of Inl e \<Rightarrow> Err e m' | Inr _ \<Rightarrow> Inv (ct * 1024 + 1023 + 1) m'"
    using Suc.prems(4) [OF Suc.prems(1), of 1023] by auto
  show ?case
  proof (cases r)
    case (Inl e)
    with b lt show ?thesis by (simp add: tables_loop.simps [of op ct])
  next
    case (Inr u)
    then have I: "Inv ((ct + 1) * 1024) m'" using b(2) by (simp add: algebra_simps)
    have k: "ct * 1024 - base + 1024 = (ct + 1) * 1024 - base" using Suc.prems(5) by simp
    have "\<exists>r m''. tables_loop op (ct + 1) lst lp ((ct + 1) * 1024 - base) m' = Some (r, m'') \<and>
        (case r of Inl e \<Rightarrow> Err e m'' | Inr _ \<Rightarrow> Inv (lst * 1024 + lp + 1) m'')"
      by (rule Suc.hyps(1) [OF _ I]) (use Suc.prems Suc.hyps(2) in auto)
    then show ?thesis using Inr b(1) lt k by (simp add: tables_loop.simps [of op ct])
  qed
qed

lemma PGD_INDEX_eq: "PGD_INDEX a = a div PAGE_SIZE div 1024"
  by (simp add: PGD_INDEX_def PAGE_SIZE_def PGDIR_SIZE_def flip: div_mult2_eq)

lemma page_number: "a div PAGE_SIZE = PGD_INDEX a * 1024 + PT_INDEX a"
  by (simp add: PGD_INDEX_eq PT_INDEX_def)

lemma PT_INDEX_le: "PT_INDEX a \<le> 1023"
proof -
  have "PT_INDEX a < 1024" by (simp add: PT_INDEX_def)
  then show ?thesis by simp
qed

lemma for_tables_rule:
  assumes "Inv (first div PAGE_SIZE) m" and "first \<le> lst" and "lst < 4294967296"
    and step: "\<And>i fr to m. Inv (i * 1024 + fr) m \<Longrightarrow> fr \<le> to \<Longrightarrow> to \<le> 1023 \<Longrightarrow> i < 1024 \<Longrightarrow>
      first div PAGE_SIZE \<le> i * 1024 + fr \<Longrightarrow> i * 1024 + to \<le> lst div PAGE_SIZE \<Longrightarrow>
      \<exists>r m'. op i fr to (i * 1024 + fr - first div PAGE_SIZE) m = Some (r, m') \<and>
        (case r of Inl e \<Rightarrow> Err e m' | Inr _ \<Rightarrow> Inv (i * 1024 + to + 1) m')"
  shows "\<exists>r m'. for_tables op first lst m = Some (r, m') \<and>
    (case r of Inl e \<Rightarrow> Err e m' | Inr _ \<Rightarrow> Inv (lst div PAGE_SIZE + 1) m')"
proof -
  let ?c = "PGD_INDEX first" and ?l = "PGD_INDEX lst" and ?f = "PT_INDEX first" and ?e = "PT_INDEX lst"
  let ?b = "first div PAGE_SIZE"
  have l: "?l < 1024" using assms(3) by (simp add: PGD_INDEX_def PGDIR_SIZE_def)
  have cl: "?c \<le> ?l" using assms(2) by (simp add: PGD_INDEX_def div_le_mono)
  have bl: "?b \<le> lst div PAGE_SIZE" using assms(2) by (rule div_le_mono)
  have b: "?b = ?c * 1024 + ?f" "lst div PAGE_SIZE = ?l * 1024 + ?e" by (rule page_number)+
  note le = PT_INDEX_le [of first] PT_INDEX_le [of lst]
  let ?to = "if ?c = ?l then ?e else 1023"
  have to: "?f \<le> ?to" "?to \<le> 1023" "?c * 1024 + ?to \<le> lst div PAGE_SIZE" using b bl le cl by auto
  obtain r m' where s: "op ?c ?f ?to 0 m = Some (r, m')"
    "case r of Inl e \<Rightarrow> Err e m' | Inr _ \<Rightarrow> Inv (?c * 1024 + ?to + 1) m'"
    using step [of ?c ?f m ?to] assms(1) to cl l b(1) by auto
  have eq: "for_tables op first lst m = (case r of Inl e \<Rightarrow> Some (Inl e, m')
      | Inr _ \<Rightarrow> tables_loop op (?c + 1) ?l ?e (?to + 1 - ?f) m')"
    using l s(1) by (simp add: for_tables_def Let_def)
  show ?thesis
  proof (cases r)
    case (Inl e)
    with eq s(2) show ?thesis by simp
  next
    case (Inr u)
    show ?thesis
    proof (cases "?c = ?l")
      case True
      then show ?thesis using eq Inr s(2) b by (simp add: tables_loop.simps)
    next
      case False
      then have I: "Inv ((?c + 1) * 1024) m'" using s(2) Inr by (simp add: algebra_simps)
      have "\<exists>r m''. tables_loop op (?c + 1) ?l ?e ((?c + 1) * 1024 - ?b) m' = Some (r, m'') \<and>
          (case r of Inl e \<Rightarrow> Err e m'' | Inr _ \<Rightarrow> Inv (?l * 1024 + ?e + 1) m'')"
      proof (rule tables_loop_rule [of Inv, OF I])
        show "\<exists>r m'. op i 0 to (i * 1024 - ?b) m = Some (r, m') \<and>
            (case r of Inl e \<Rightarrow> Err e m' | Inr _ \<Rightarrow> Inv (i * 1024 + to + 1) m')"
          if "Inv (i * 1024) m" "?c + 1 \<le> i" "to \<le> 1023" "i * 1024 + to \<le> ?l * 1024 + ?e" for i to m
          using step [of i 0 m to] that b l le by auto
      qed (use False cl le b in auto)
      moreover have "?to + 1 - ?f = (?c + 1) * 1024 - ?b" using False b le by simp
      ultimately show ?thesis unfolding b(2) using eq Inr by simp
    qed
  qed
qed

lemma never_fails:
  assumes "\<exists>r m'. x = Some (r :: errno + unit, m') \<and> (case r of Inl e \<Rightarrow> False | Inr _ \<Rightarrow> Q m')"
  shows "\<exists>m'. x = Some (Inr (), m') \<and> Q m'"
proof -
  obtain r m' where "x = Some (r, m')" "case r of Inl e \<Rightarrow> False | Inr _ \<Rightarrow> Q m'" using assms by blast
  then show ?thesis by (cases r) auto
qed

text \<open>Both loops together: an invariant that is carried from page to page of the range.\<close>

lemma walk_rule:
  assumes I: "Inv (first div PAGE_SIZE) m" and "first \<le> lst" and "lst < 4294967296"
    and op: "\<And>i fr to m. Inv (i * 1024 + fr) m \<Longrightarrow> i < 1024 \<Longrightarrow> first div PAGE_SIZE div 1024 \<le> i \<Longrightarrow>
      i \<le> lst div PAGE_SIZE div 1024 \<Longrightarrow>
      op i fr to (i * 1024 + fr - first div PAGE_SIZE) m = for_entries (body i fr) fr to m"
    and step: "\<And>i fr j m. Inv (i * 1024 + j) m \<Longrightarrow> i < 1024 \<Longrightarrow> fr \<le> j \<Longrightarrow> j \<le> 1023 \<Longrightarrow>
      first div PAGE_SIZE \<le> i * 1024 + fr \<Longrightarrow> i * 1024 + j \<le> lst div PAGE_SIZE \<Longrightarrow>
      \<exists>r m'. body i fr j m = Some (r, m') \<and>
        (case r of Inl e \<Rightarrow> Err e m' | Inr _ \<Rightarrow> Inv (i * 1024 + j + 1) m')"
  shows "\<exists>r m'. for_tables op first lst m = Some (r, m') \<and>
    (case r of Inl e \<Rightarrow> Err e m' | Inr _ \<Rightarrow> Inv (lst div PAGE_SIZE + 1) m')"
proof (rule for_tables_rule [where Inv = Inv, OF I assms(2,3)])
  fix i fr to m
  assume I: "Inv (i * 1024 + fr) m" and b: "fr \<le> to" "to \<le> 1023" "i < 1024"
    "first div PAGE_SIZE \<le> i * 1024 + fr" "i * 1024 + to \<le> lst div PAGE_SIZE"
  have i: "first div PAGE_SIZE div 1024 \<le> i" "i \<le> lst div PAGE_SIZE div 1024" using b by linarith+
  have "\<exists>r m'. for_entries (body i fr) fr to m = Some (r, m') \<and>
      (case r of Inl e \<Rightarrow> Err e m' | Inr _ \<Rightarrow> Inv (i * 1024 + (to + 1)) m')"
  proof (rule for_entries_rule [where Inv = "\<lambda>j. Inv (i * 1024 + j)", OF b(2,1) I])
    show "\<exists>r m'. body i fr j m = Some (r, m') \<and>
        (case r of Inl e \<Rightarrow> Err e m' | Inr _ \<Rightarrow> Inv (i * 1024 + (j + 1)) m')"
      if "Inv (i * 1024 + j) m" "fr \<le> j" "j \<le> to" for j m
      using step [OF that(1) b(3) that(2)] that b unfolding add.assoc [symmetric] by simp
  qed
  then show "\<exists>r m'. op i fr to (i * 1024 + fr - first div PAGE_SIZE) m = Some (r, m') \<and>
      (case r of Inl e \<Rightarrow> Err e m' | Inr _ \<Rightarrow> Inv (i * 1024 + to + 1) m')"
    unfolding op [OF I b(3) i] by (simp only: add.assoc)
qed

section \<open>Entries\<close>

lemma and_mask_zero: "x AND m = 0 \<Longrightarrow> x AND NOT m = x" for x m :: u32
  by (auto simp: bit_eq_iff bit_simps)

lemma aligned_word:
  assumes "PAGE_SIZE dvd p"
  shows "(word_of_nat p :: u32) AND PAGE_MASK = word_of_nat p"
proof -
  have "(word_of_nat p :: u32) AND 4095 = take_bit 12 (word_of_nat p)"
    by (simp add: take_bit_eq_mask mask_eq_exp_minus_1)
  also have "\<dots> = word_of_nat (take_bit 12 p)" by (simp add: take_bit_of_nat)
  also have "take_bit 12 p = 0" using assms by (simp add: take_bit_eq_mod PAGE_SIZE_def)
  finally show ?thesis unfolding PAGE_MASK_def by (intro and_mask_zero) simp
qed

lemma frame_entry [simp]:
  assumes "PAGE_SIZE dvd p" "p < 4294967296" "flags AND PAGE_MASK = 0"
  shows "frame (word_of_nat p OR flags) = p"
proof -
  have "(word_of_nat p OR flags) AND PAGE_MASK = word_of_nat p"
    using aligned_word [OF assms(1)] assms(3) by (simp add: bit.conj_disj_distrib2)
  then show ?thesis using assms(2) by (simp add: frame_def unat_of_nat)
qed

lemma present_odd: "x AND PAGE_PRESENT \<noteq> 0 \<longleftrightarrow> odd x"
  by (simp add: PAGE_PRESENT_def and_one_eq mod_2_eq_odd)

lemma or_present:
  assumes "flags AND PAGE_PRESENT \<noteq> 0"
  shows "(x OR flags) AND PAGE_PRESENT \<noteq> 0" "x OR flags \<noteq> 0"
proof -
  show "(x OR flags) AND PAGE_PRESENT \<noteq> 0"
    using assms unfolding present_odd by (simp add: even_or_iff)
  then show "x OR flags \<noteq> 0" by auto
qed

section \<open>Frames in use\<close>

definition refs :: "mmu \<Rightarrow> nat \<Rightarrow> int" where
  "refs m p = memory_pages (mm_pages m) ! (p div PAGE_SIZE)"

definition in_memory :: "mmu \<Rightarrow> nat \<Rightarrow> bool" where
  "in_memory m p \<longleftrightarrow> p \<noteq> 0 \<and> PAGE_SIZE dvd p \<and> p < 4294967296 \<and>
     p div PAGE_SIZE < length (memory_pages (mm_pages m))"

definition live :: "mmu \<Rightarrow> nat \<Rightarrow> bool" where
  "live m p \<longleftrightarrow> in_memory m p \<and> refs m p > 0"

text \<open>Page 0 is reserved, so that the allocator never returns address 0.\<close>

definition mmu_inv :: "mmu \<Rightarrow> bool" where
  "mmu_inv m \<longleftrightarrow> pages_inv (mm_pages m) \<and> refs m 0 > 0 \<and>
     \<not> md_free (memory_descriptors (mm_pages m) ! nat MEM_COMMON)"

text \<open>Nothing that is in use is lost or counted differently, and only the frames in \<open>S\<close> are written.\<close>

definition grown :: "nat set \<Rightarrow> mmu \<Rightarrow> mmu \<Rightarrow> bool" where
  "grown S m m' \<longleftrightarrow> (\<forall>p. in_memory m' p = in_memory m p) \<and> refs m' 0 = refs m 0 \<and>
     memory_size (mm_pages m') = memory_size (mm_pages m) \<and>
     (\<forall>p. live m p \<longrightarrow> refs m' p = refs m p \<and> (p \<notin> S \<longrightarrow> mm_words m' p = mm_words m p))"

lemma grown_refl [simp]: "grown S m m"
  by (simp add: grown_def)

lemma grown_live: "grown S m m' \<Longrightarrow> live m p \<Longrightarrow> live m' p"
  by (simp add: grown_def live_def)

lemma grown_trans: "grown S m m' \<Longrightarrow> grown S m' m'' \<Longrightarrow> grown S m m''"
  unfolding grown_def live_def by metis

lemma same_frame: "PAGE_SIZE dvd p \<Longrightarrow> PAGE_SIZE dvd q \<Longrightarrow> p div PAGE_SIZE = q div PAGE_SIZE \<Longrightarrow> p = q"
  by (metis dvd_div_mult_self)

lemma alloc_page_spec:
  assumes "mmu_inv m"
  shows "\<exists>r m'. alloc_page m = Some (r, m') \<and> mm_words m' = mm_words m \<and> mmu_inv m' \<and> grown {} m m' \<and>
    (case r of None \<Rightarrow> m' = m
     | Some p \<Rightarrow> \<not> live m p \<and> live m' p \<and> refs m p = 0 \<and> refs m' p = 1 \<and>
         (\<forall>q. in_memory m q \<longrightarrow> q \<noteq> p \<longrightarrow> refs m' q = refs m q))"
proof -
  let ?s = "mm_pages m" and ?d = "memory_descriptors (mm_pages m) ! nat MEM_COMMON"
  let ?ps = "memory_pages ?s" and ?b = "md_start ?d div PAGE_SIZE" and ?n = "md_size ?d div PAGE_SIZE"
  have mt: "0 \<le> MEM_COMMON" "nat MEM_COMMON < MAX_MEMORY_TYPES"
    by (simp_all add: MEM_COMMON_def MAX_MEMORY_TYPES_def)
  have inv: "pages_inv ?s" "\<not> md_free ?d" "?ps ! 0 > 0" using assms by (auto simp: mmu_inv_def refs_def)
  note dd = mem_type_desc [OF inv(1) mt inv(2)]
  note spec = do_alloc_pages_spec [OF dd(1), of 1]
  show ?thesis
  proof (cases "\<exists>r. run ?ps ?b 1 ?n r")
    case False
    then have "alloc_page m = Some (None, m)" using spec dd(2) by (simp add: alloc_page_def)
    with assms show ?thesis by simp
  next
    case True
    then obtain r where r: "run ?ps ?b 1 ?n r"
      "do_alloc_pages ?d 1 ?s = Some (Some (md_start ?d + r * PAGE_SIZE),
         ?s\<lparr> memory_pages := take (?b + r) ?ps @ replicate 1 1 @ drop (?b + r + 1) ?ps \<rparr>)"
      using spec by (auto split: if_splits)
    let ?p = "md_start ?d + r * PAGE_SIZE"
    let ?m = "m\<lparr> mm_pages := ?s\<lparr> memory_pages := ?ps[?b + r := 1] \<rparr> \<rparr>"
    have le: "?b + r < length ?ps" using r(1) desc_pages [OF dd(1)] by (simp add: run_def)
    have free: "?ps ! (?b + r) = 0" using r(1) by (simp add: run_def)
    have pd: "?p div PAGE_SIZE = ?b + r" "PAGE_SIZE dvd ?p"
      using dd(1) by (auto simp: desc_ok_def PAGE_SIZE_def)
    have p0: "?p \<noteq> 0" using pd(1) free inv(3) by (metis div_0 less_irrefl)
    have "r < ?n" using r(1) by (simp add: run_def)
    then have "r * PAGE_SIZE < ?n * PAGE_SIZE" by (simp add: PAGE_SIZE_def)
    then have "r * PAGE_SIZE < md_size ?d"
      using div_times_less_eq_dividend [of "md_size ?d" PAGE_SIZE] by linarith
    then have lt: "?p < 4294967296" using dd(1) by (simp add: desc_ok_def)
    have "take (?b + r) ?ps @ replicate 1 1 @ drop (?b + r + 1) ?ps = ?ps[?b + r := 1]"
      using le by (simp add: upd_conv_take_nth_drop)
    then have a: "alloc_page m = Some (Some ?p, ?m)" using r(2) dd(2) p0 by (simp add: alloc_page_def)
    have other: "refs ?m q = refs m q" if "in_memory m q \<or> q = 0" "q \<noteq> ?p" for q
    proof -
      have "q div PAGE_SIZE \<noteq> ?b + r" using that same_frame pd by (metis in_memory_def dvd_0_right)
      then show ?thesis by (simp add: refs_def)
    qed
    have p: "\<not> live m ?p" "live ?m ?p" "refs m ?p = 0" "refs ?m ?p = 1"
      using p0 lt pd le free by (simp_all add: live_def in_memory_def refs_def)
    have "refs ?m q = refs m q" if "live m q" for q
      by (rule other) (use that p(1) in \<open>auto simp: live_def\<close>)
    moreover have zero: "refs ?m 0 = refs m 0" using p0 by (intro other) auto
    ultimately have "grown {} m ?m" by (simp add: grown_def in_memory_def)
    moreover have "mmu_inv ?m"
      using assms zero by (auto simp: mmu_inv_def pages_inv_def desc_ok_def)
    ultimately show ?thesis using a other p by auto
  qed
qed

section \<open>A directory and its tables\<close>

definition dir_ok :: "nat \<Rightarrow> mmu \<Rightarrow> bool" where
  "dir_ok dir m \<longleftrightarrow> live m dir \<and>
     (\<forall>i < 1024. mm_words m dir i \<noteq> 0 \<longrightarrow> live m (frame (mm_words m dir i)) \<and>
        frame (mm_words m dir i) \<noteq> dir \<and> mm_words m dir i AND PAGE_PRESENT \<noteq> 0) \<and>
     (\<forall>i < 1024. \<forall>j < 1024. mm_words m dir i \<noteq> 0 \<longrightarrow> mm_words m dir j \<noteq> 0 \<longrightarrow>
        frame (mm_words m dir i) = frame (mm_words m dir j) \<longrightarrow> i = j)"

text \<open>The entry of a page number, 0 where there is no table.\<close>

definition pte :: "nat \<Rightarrow> mmu \<Rightarrow> nat \<Rightarrow> u32" where
  "pte dir m q = (let e = mm_words m dir (q div 1024) in
     if e = 0 then 0 else mm_words m (frame e) (q mod 1024))"

definition same_ptes :: "nat \<Rightarrow> mmu \<Rightarrow> mmu \<Rightarrow> bool" where
  "same_ptes dir m m' \<longleftrightarrow> (\<forall>q < 1048576. pte dir m' q = pte dir m q)"

lemma dir_ok_table:
  assumes "dir_ok dir m" and "i < 1024" and "mm_words m dir i \<noteq> 0"
  shows "live m (frame (mm_words m dir i))" "frame (mm_words m dir i) \<noteq> dir"
    "mm_words m dir i AND PAGE_PRESENT \<noteq> 0"
    "j < 1024 \<Longrightarrow> mm_words m dir j \<noteq> 0 \<Longrightarrow> frame (mm_words m dir i) = frame (mm_words m dir j) \<Longrightarrow> i = j"
  using assms unfolding dir_ok_def by blast+

lemma live_nonzero: "live m p \<Longrightarrow> p \<noteq> 0"
  by (simp add: live_def in_memory_def)

lemma dir_nonzero: "dir_ok dir m \<Longrightarrow> dir \<noteq> 0"
  using live_nonzero [of m dir] by (simp add: dir_ok_def)

text \<open>Address translation is a lookup in the entries.\<close>

lemma translate_pte:
  assumes "dir_ok dir m" and "v < 4294967296"
  shows "arch_memory_context_translate_address dir v m =
    Some (let e = pte dir m (v div PAGE_SIZE) in if e AND PAGE_PRESENT = 0 then Inl EINVAL
          else Inr ((e AND PAGE_MASK) + word_of_nat (v mod PAGE_SIZE)))"
proof -
  have i: "PGD_INDEX v < 1024" using assms(2) by (simp add: PGD_INDEX_def PGDIR_SIZE_def)
  have q: "v div PAGE_SIZE div 1024 = PGD_INDEX v" "v div PAGE_SIZE mod 1024 = PT_INDEX v"
    by (simp_all add: PGD_INDEX_eq PT_INDEX_def)
  show ?thesis
  proof (cases "mm_words m dir (PGD_INDEX v) = 0")
    case True
    then show ?thesis using dir_nonzero [OF assms(1)]
      by (simp add: arch_memory_context_translate_address_def get_word_def pte_def q)
  next
    case False
    note t = dir_ok_table [OF assms(1) i False]
    then have "frame (mm_words m dir (PGD_INDEX v)) \<noteq> 0" using live_nonzero by blast
    with False t(3) show ?thesis using dir_nonzero [OF assms(1)]
      by (simp add: arch_memory_context_translate_address_def get_word_def pte_def q Let_def)
  qed
qed

text \<open>Writing an entry of a table of the directory changes the entry of one page.\<close>

lemma put_pte:
  assumes ok: "dir_ok dir m" and q: "q < 1048576" and e: "mm_words m dir (q div 1024) \<noteq> 0"
  defines "t \<equiv> frame (mm_words m dir (q div 1024))"
  shows "\<exists>m'. put_word t (q mod 1024) v m = Some m' \<and> dir_ok dir m' \<and> mm_pages m' = mm_pages m \<and>
    mm_words m' dir = mm_words m dir \<and> (\<forall>p. p \<noteq> t \<longrightarrow> mm_words m' p = mm_words m p) \<and>
    (\<forall>k < 1048576. pte dir m' k = (if k = q then v else pte dir m k))"
proof -
  have i: "q div 1024 < 1024" using q by simp
  note tab = dir_ok_table [OF ok i e, folded t_def]
  have t0: "t \<noteq> 0" using tab(1) live_nonzero by blast
  let ?m = "m\<lparr> mm_words := (mm_words m)(t := (mm_words m t)(q mod 1024 := v)) \<rparr>"
  have live: "live ?m p = live m p" for p by (simp add: live_def in_memory_def refs_def)
  have d: "mm_words ?m dir = mm_words m dir" using tab(2) by simp
  have "dir_ok dir ?m" using ok unfolding dir_ok_def live d .
  moreover have "pte dir ?m k = (if k = q then v else pte dir m k)" if "k < 1048576" for k
  proof (cases "mm_words m dir (k div 1024) = 0")
    case True
    then show ?thesis using e d by (auto simp: pte_def)
  next
    case False
    have k: "k div 1024 < 1024" using that by simp
    show ?thesis
    proof (cases "k div 1024 = q div 1024")
      case True
      then have "k = q \<longleftrightarrow> k mod 1024 = q mod 1024" by (metis div_mult_mod_eq)
      then show ?thesis using True False d by (simp add: pte_def Let_def t_def)
    next
      case neq: False
      then have "frame (mm_words m dir (k div 1024)) \<noteq> t"
        using dir_ok_table(4) [OF ok i e k False] by (auto simp: t_def)
      then show ?thesis using neq False d by (auto simp: pte_def Let_def)
    qed
  qed
  ultimately show ?thesis using t0 d by (simp add: put_word_def)
qed

text \<open>A new, empty table in a free slot of the directory changes no entry.\<close>

lemma new_table:
  assumes inv: "mmu_inv m" and ok: "dir_ok dir m" and j: "j < 1024" "mm_words m dir j = 0"
    and fl: "flags AND PAGE_PRESENT \<noteq> 0" "flags AND PAGE_MASK = 0"
    and a: "alloc_page m = Some (Some p, m1)"
  defines "m' \<equiv> m1\<lparr> mm_words := (mm_words m)(p := (\<lambda>_. 0),
                  dir := (mm_words m dir)(j := word_of_nat p OR flags)) \<rparr>"
  shows "put_word dir j (word_of_nat p OR flags) (zero_page p m1) = Some m'" "mmu_inv m'"
    "dir_ok dir m'" "same_ptes dir m m'" "grown {dir} m m'" "mm_words m' dir j \<noteq> 0"
    "\<And>i. mm_words m dir i \<noteq> 0 \<Longrightarrow> mm_words m' dir i \<noteq> 0"
proof -
  let ?w = "word_of_nat p OR flags"
  have m1: "mm_words m1 = mm_words m" "mmu_inv m1" "grown {} m m1" "\<not> live m p" "live m1 p"
    using alloc_page_spec [OF inv] a by auto
  have dl: "live m dir" using ok by (simp add: dir_ok_def)
  have pd: "p \<noteq> dir" using dl m1(4) by blast
  have fr: "frame ?w = p" using m1(5) fl(2) by (simp add: live_def in_memory_def)
  have w0: "?w \<noteq> 0" "?w AND PAGE_PRESENT \<noteq> 0" using or_present [OF fl(1)] by auto
  show "put_word dir j ?w (zero_page p m1) = Some m'"
    using dir_nonzero [OF ok] pd m1(1) by (simp add: put_word_def zero_page_def m'_def)
  have lv: "live m' q = live m1 q" for q by (simp add: m'_def live_def in_memory_def refs_def)
  show "mmu_inv m'" using m1(2) by (simp add: mmu_inv_def m'_def refs_def)
  have d: "mm_words m' dir = (mm_words m dir)(j := ?w)" by (simp add: m'_def)
  show "mm_words m' dir j \<noteq> 0" using w0 by (simp add: d)
  show "mm_words m' dir i \<noteq> 0" if "mm_words m dir i \<noteq> 0" for i using that w0 by (simp add: d)
  have tab: "live m1 (frame (mm_words m dir i))" "frame (mm_words m dir i) \<noteq> p"
    if "i < 1024" "mm_words m dir i \<noteq> 0" for i
    using dir_ok_table(1) [OF ok that] grown_live [OF m1(3)] m1(4) by auto
  have ne: "p \<noteq> frame (mm_words m dir i)" if "i < 1024" "mm_words m dir i \<noteq> 0" for i
    using tab(2) [OF that] by simp
  show "dir_ok dir m'"
    unfolding dir_ok_def lv d
  proof (intro conjI allI impI)
    show "live m1 dir" using dl grown_live [OF m1(3)] by blast
  qed (use dir_ok_table [OF ok] tab ne fr w0 m1(5) pd j(2) in \<open>auto split: if_splits\<close>)
  show "same_ptes dir m m'"
    unfolding same_ptes_def
  proof (intro allI impI)
    fix q :: nat assume "q < 1048576"
    then have i: "q div 1024 < 1024" by simp
    show "pte dir m' q = pte dir m q"
    proof (cases "q div 1024 = j")
      case True
      then show ?thesis using j(2) fr pd by (simp add: pte_def d Let_def) (simp add: m'_def)
    next
      case False
      then show ?thesis using tab [OF i] dir_ok_table(2) [OF ok i]
        by (auto simp: pte_def d Let_def) (simp add: m'_def)
    qed
  qed
  show "grown {dir} m m'"
    using m1(3,4) by (auto simp: grown_def m'_def in_memory_def refs_def live_def)
qed

lemma same_ptes_trans: "same_ptes dir m m' \<Longrightarrow> same_ptes dir m' m'' \<Longrightarrow> same_ptes dir m m''"
  by (simp add: same_ptes_def)

text \<open>Every slot of the directory that an address range needs gets a table.\<close>

lemma alloc_tables_spec:
  assumes "mmu_inv m" and "dir_ok dir m" and "to \<le> 1023" and "from \<le> to"
    and fl: "flags AND PAGE_PRESENT \<noteq> 0" "flags AND PAGE_MASK = 0"
  shows "\<exists>r m'. paging_alloc_table_entries dir from to flags False m = Some (r, m') \<and>
    mmu_inv m' \<and> dir_ok dir m' \<and> same_ptes dir m m' \<and> grown {dir} m m' \<and>
    (case r of Inl e \<Rightarrow> e = ENOMEM | Inr _ \<Rightarrow> \<forall>i. from \<le> i \<and> i \<le> to \<longrightarrow> mm_words m' dir i \<noteq> 0)"
proof -
  define P where "P m' \<longleftrightarrow> mmu_inv m' \<and> dir_ok dir m' \<and> same_ptes dir m m' \<and> grown {dir} m m'" for m'
  define Inv where "Inv j m' \<longleftrightarrow> P m' \<and> (\<forall>i. from \<le> i \<and> i < j \<longrightarrow> mm_words m' dir i \<noteq> 0)" for j m'
  have "\<exists>r m'. paging_alloc_table_entries dir from to flags False m = Some (r, m') \<and>
    (case r of Inl e \<Rightarrow> P m' \<and> e = ENOMEM | Inr _ \<Rightarrow> Inv (to + 1) m')"
    unfolding paging_alloc_table_entries_def
  proof (rule for_entries_rule [where Inv = Inv])
    show "to \<le> 1023" "from \<le> to" by fact+
    show "Inv from m" using assms by (auto simp: Inv_def P_def same_ptes_def)
    fix j m'
    assume I: "Inv j m'" and j: "from \<le> j" "j \<le> to"
    then have Pm: "mmu_inv m'" "dir_ok dir m'" "same_ptes dir m m'" "grown {dir} m m'"
      by (auto simp: Inv_def P_def)
    have d0: "dir \<noteq> 0" using dir_nonzero [OF Pm(2)] .
    show "\<exists>r m''. do {
         e \<leftarrow> get_word dir j m';
         if e \<noteq> 0 then Some (if False then Inl EINVAL else Inr (), m')
         else do {
           (p, m) \<leftarrow> alloc_page m';
           case p of None \<Rightarrow> Some (Inl ENOMEM, m)
           | Some p \<Rightarrow> do {
               m \<leftarrow> put_word dir j (word_of_nat p OR flags) (zero_page p m);
               Some (Inr (), m) } } } = Some (r, m'') \<and>
      (case r of Inl e \<Rightarrow> P m'' \<and> e = ENOMEM | Inr _ \<Rightarrow> Inv (j + 1) m'')"
    proof (cases "mm_words m' dir j = 0")
      case False
      then show ?thesis using I d0 by (auto simp: get_word_def Inv_def less_Suc_eq)
    next
      case True
      obtain p m1 where a: "alloc_page m' = Some (p, m1)" "p = None \<longrightarrow> m1 = m'"
        using alloc_page_spec [OF Pm(1)] by (auto split: option.splits)
      show ?thesis
      proof (cases p)
        case None
        then show ?thesis using a True I d0 by (simp add: get_word_def Inv_def)
      next
        case (Some q)
        have "j < 1024" using j assms(3) by simp
        note nt = new_table [OF Pm(1,2) this True fl a(1) [unfolded Some]]
        have "P m''" if "m'' = m1\<lparr> mm_words := (mm_words m')(q := (\<lambda>_. 0),
            dir := (mm_words m' dir)(j := word_of_nat q OR flags)) \<rparr>" for m''
          unfolding P_def that using nt same_ptes_trans [OF Pm(3)] grown_trans [OF Pm(4)] by blast
        then show ?thesis using Some a(1) True d0 nt(1,6,7) I
          by (auto simp: get_word_def Inv_def less_Suc_eq)
      qed
    qed
  qed
  then show ?thesis by (auto simp: Inv_def P_def less_Suc_eq_le split: sum.splits)
qed

text \<open>Adding whole pages to an aligned address leaves the flags of an entry alone.\<close>

lemma entry_add:
  assumes "PAGE_SIZE dvd p" and "flags AND PAGE_MASK = 0"
  shows "((word_of_nat p :: u32) OR flags) + word_of_nat (k * PAGE_SIZE) = word_of_nat (p + k * PAGE_SIZE) OR flags"
proof -
  have "(word_of_nat q :: u32) AND flags = 0" if "PAGE_SIZE dvd q" for q
  proof -
    have "(word_of_nat q :: u32) AND flags = (word_of_nat q AND PAGE_MASK) AND flags"
      using aligned_word [OF that] by simp
    also have "\<dots> = word_of_nat q AND (flags AND PAGE_MASK)" by (simp only: ac_simps)
    finally show ?thesis using assms(2) by simp
  qed
  then have o: "(word_of_nat q :: u32) OR flags = word_of_nat q + flags" if "PAGE_SIZE dvd q" for q
    using that by (simp add: disjunctive_add_eq_or)
  have "PAGE_SIZE dvd p + k * PAGE_SIZE" using assms(1) by simp
  then show ?thesis using o [OF assms(1)] o [of "p + k * PAGE_SIZE"] by (simp add: ac_simps)
qed

section \<open>Mapping and unmapping a range\<close>

text \<open>
  \<open>mapped dir f lo hi m m'\<close>: the entries of the pages from \<open>lo\<close> up to but not including \<open>hi\<close> are those of
  \<open>f\<close>, and all others as before. Neither the page allocator nor the directory has changed.
\<close>

definition mapped :: "nat \<Rightarrow> (nat \<Rightarrow> u32) \<Rightarrow> nat \<Rightarrow> nat \<Rightarrow> mmu \<Rightarrow> mmu \<Rightarrow> bool" where
  "mapped dir f lo hi m m' \<longleftrightarrow> mm_pages m' = mm_pages m \<and> dir_ok dir m' \<and> mm_words m' dir = mm_words m dir \<and>
     (\<forall>q < 1048576. pte dir m' q = (if lo \<le> q \<and> q < hi then f q else pte dir m q))"

lemma mapped_refl: "dir_ok dir m \<Longrightarrow> mapped dir f lo lo m m"
  by (auto simp: mapped_def)

text \<open>One table: storing \<open>f q\<close> in the entry of page \<open>q\<close>, for a run of pages of one table.\<close>

lemma mapped_step:
  assumes M: "mapped dir f lo (i * 1024 + j) m m'" and b: "lo \<le> i * 1024 + j" "i < 1024" "j < 1024"
    and e: "mm_words m dir i \<noteq> 0"
  shows "get_word (frame (mm_words m dir i)) j m' = Some (pte dir m (i * 1024 + j))"
    "\<exists>m''. put_word (frame (mm_words m dir i)) j (f (i * 1024 + j)) m' = Some m'' \<and>
       mapped dir f lo (i * 1024 + j + 1) m m''"
proof -
  let ?q = "i * 1024 + j"
  have q: "?q < 1048576" "?q div 1024 = i" "?q mod 1024 = j" using b by auto
  have ok: "dir_ok dir m'" and d: "mm_words m' dir = mm_words m dir" using M by (auto simp: mapped_def)
  have e': "mm_words m' dir (?q div 1024) \<noteq> 0" using e by (simp add: d q)
  have "frame (mm_words m' dir i) \<noteq> 0"
    using dir_ok_table(1) [OF ok b(2)] e live_nonzero by (metis d)
  moreover have "pte dir m' ?q = pte dir m ?q" using M q(1) by (simp add: mapped_def)
  ultimately show "get_word (frame (mm_words m dir i)) j m' = Some (pte dir m ?q)"
    using e b(3) by (simp add: get_word_def pte_def d q Let_def)
  obtain m'' where p: "put_word (frame (mm_words m dir i)) j (f ?q) m' = Some m''" "dir_ok dir m''"
    "mm_pages m'' = mm_pages m'" "mm_words m'' dir = mm_words m' dir"
    "\<forall>k < 1048576. pte dir m'' k = (if k = ?q then f ?q else pte dir m' k)"
    using put_pte [OF ok q(1) e', of "f ?q"] unfolding q d by blast
  have "mapped dir f lo (?q + 1) m m''"
    using M p b(1) unfolding mapped_def by (auto simp: less_Suc_eq)
  with p(1) show "\<exists>m''. put_word (frame (mm_words m dir i)) j (f ?q) m' = Some m'' \<and>
       mapped dir f lo (?q + 1) m m''" by blast
qed

lemma paging_flags:
  "get_paging_flags_for_region region AND PAGE_PRESENT \<noteq> 0"
  "get_paging_flags_for_region region AND PAGE_MASK = 0"
  "(get_paging_flags_for_region region OR PAGE_WRITE) AND PAGE_PRESENT \<noteq> 0"
  "(get_paging_flags_for_region region OR PAGE_WRITE) AND PAGE_MASK = 0"
  by (simp_all add: get_paging_flags_for_region_def PAGE_PRESENT_def PAGE_WRITE_def PAGE_USER_def
      PAGE_MASK_def)

lemma last_addr_eq: "0 < n \<Longrightarrow> a + n \<le> 4294967296 \<Longrightarrow> last_addr a n = a + n - 1"
  by (rule last_addr_nowrap) simp_all

lemma mmu_inv_pages: "mm_pages m' = mm_pages m \<Longrightarrow> mmu_inv m' = mmu_inv m"
  by (simp add: mmu_inv_def refs_def)

lemma fill_range:
  assumes ok: "dir_ok dir m" and r: "first \<le> lst" "lst < 4294967296"
    and tabs: "\<And>i. PGD_INDEX first \<le> i \<Longrightarrow> i \<le> PGD_INDEX lst \<Longrightarrow> mm_words m dir i \<noteq> 0"
    and P: "PAGE_SIZE dvd P" and fl: "flags AND PAGE_MASK = 0"
  defines "lo \<equiv> first div PAGE_SIZE" and "hi \<equiv> lst div PAGE_SIZE + 1"
  defines "f q \<equiv> word_of_nat (P + (q - lo) * PAGE_SIZE) OR flags"
  shows "\<exists>r m'. for_tables (\<lambda>i from to k m. do {
            t \<leftarrow> table_at dir i m;
            paging_fill_table_entries t (word_of_nat P + word_of_nat (k * PAGE_SIZE)) from to flags m })
            first lst m = Some (r, m') \<and>
    (case r of Inl e \<Rightarrow> e = EINVAL \<and> (\<exists>q. lo \<le> q \<and> q < hi \<and> pte dir m q \<noteq> 0) \<and> (\<exists>h. mapped dir f lo h m m')
     | Inr _ \<Rightarrow> mapped dir f lo hi m m' \<and> (\<forall>q. lo \<le> q \<and> q < hi \<longrightarrow> pte dir m q = 0))"
proof -
  define Inv where "Inv k m' \<longleftrightarrow> mapped dir f lo k m m' \<and> (\<forall>q. lo \<le> q \<and> q < k \<longrightarrow> pte dir m q = 0)" for k m'
  define Err where "Err e m' \<longleftrightarrow> e = EINVAL \<and> (\<exists>q. lo \<le> q \<and> q < hi \<and> pte dir m q \<noteq> 0) \<and>
    (\<exists>h. mapped dir f lo h m m')" for e m'
  let ?t = "\<lambda>i. frame (mm_words m dir i)"
  let ?a = "\<lambda>i fr. word_of_nat P + word_of_nat ((i * 1024 + fr - lo) * PAGE_SIZE) :: u32"
  have tab: "mm_words m dir i \<noteq> 0" if "lo div 1024 \<le> i" "i \<le> lst div PAGE_SIZE div 1024" for i
    using tabs [of i] that by (simp add: PGD_INDEX_eq lo_def)
  have "\<exists>r m'. for_tables (\<lambda>i from to k m. do {
            t \<leftarrow> table_at dir i m;
            paging_fill_table_entries t (word_of_nat P + word_of_nat (k * PAGE_SIZE)) from to flags m })
            first lst m = Some (r, m') \<and> (case r of Inl e \<Rightarrow> Err e m' | Inr _ \<Rightarrow> Inv (lst div PAGE_SIZE + 1) m')"
  proof (rule walk_rule [where Inv = Inv and body = "\<lambda>i fr j m. do {
       e \<leftarrow> get_word (?t i) j m;
       if e \<noteq> 0 then Some (Inl EINVAL, m)
       else do {
         m \<leftarrow> put_word (?t i) j ((?a i fr OR flags) + word_of_nat ((j - fr) * PAGE_SIZE)) m;
         Some (Inr (), m) } }", OF _ r])
    show "Inv (first div PAGE_SIZE) m" using mapped_refl [OF ok] by (auto simp: Inv_def lo_def)
  next
    fix i fr to m'
    assume "Inv (i * 1024 + fr) m'"
    then have "table_at dir i m' = Some (?t i)"
      using dir_nonzero [OF ok] by (simp add: table_at_def get_word_def mapped_def Inv_def)
    then show "table_at dir i m' \<bind> (\<lambda>t. paging_fill_table_entries t (word_of_nat P +
          word_of_nat ((i * 1024 + fr - first div PAGE_SIZE) * PAGE_SIZE)) fr to flags m') =
        for_entries (\<lambda>j m. do {
          e \<leftarrow> get_word (?t i) j m;
          if e \<noteq> 0 then Some (Inl EINVAL, m)
          else do {
            m \<leftarrow> put_word (?t i) j ((?a i fr OR flags) + word_of_nat ((j - fr) * PAGE_SIZE)) m;
            Some (Inr (), m) } }) fr to m'"
      by (simp only: paging_fill_table_entries_def Option.bind.simps lo_def)
  next
    fix i fr j m'
    assume I: "Inv (i * 1024 + j) m'" and b: "i < 1024" "fr \<le> j" "j \<le> 1023"
      "first div PAGE_SIZE \<le> i * 1024 + fr" "i * 1024 + j \<le> lst div PAGE_SIZE"
    let ?q = "i * 1024 + j"
    have M: "mapped dir f lo ?q m m'" using I by (simp add: Inv_def)
    have q: "lo \<le> ?q" "?q < hi" using b by (simp_all add: lo_def hi_def)
    have "lo div 1024 \<le> i" "i \<le> lst div PAGE_SIZE div 1024" using b unfolding lo_def by linarith+
    then have e: "mm_words m dir i \<noteq> 0" by (rule tab)
    have "?q - lo = (i * 1024 + fr - lo) + (j - fr)" using b by (simp add: lo_def)
    then have "P + (?q - lo) * PAGE_SIZE = (P + (i * 1024 + fr - lo) * PAGE_SIZE) + (j - fr) * PAGE_SIZE"
      by (simp only: add_mult_distrib add.assoc)
    moreover have "PAGE_SIZE dvd P + (i * 1024 + fr - lo) * PAGE_SIZE" using P by simp
    ultimately have v: "(?a i fr OR flags) + word_of_nat ((j - fr) * PAGE_SIZE) = f ?q"
      using entry_add [OF _ fl, of "P + (i * 1024 + fr - lo) * PAGE_SIZE" "j - fr"]
      unfolding f_def by (simp only: of_nat_add)
    note st = mapped_step [OF M q(1) b(1) _ e]
    show "\<exists>r m''. do {
        e \<leftarrow> get_word (?t i) j m';
        if e \<noteq> 0 then Some (Inl EINVAL, m')
        else do {
          m \<leftarrow> put_word (?t i) j ((?a i fr OR flags) + word_of_nat ((j - fr) * PAGE_SIZE)) m';
          Some (Inr (), m) } } = Some (r, m'') \<and>
      (case r of Inl e \<Rightarrow> Err e m'' | Inr _ \<Rightarrow> Inv (?q + 1) m'')"
    proof (cases "pte dir m ?q = 0")
      case False
      then have "Err EINVAL m'" using M q by (auto simp: Err_def)
      then show ?thesis using False st(1) b(3) by simp
    next
      case True
      obtain m'' where "put_word (?t i) j (f ?q) m' = Some m''" "mapped dir f lo (?q + 1) m m''"
        using st(2) b(3) by auto
      then show ?thesis using True st(1) b(3) I unfolding v by (auto simp: Inv_def less_Suc_eq)
    qed
  qed
  then show ?thesis unfolding Inv_def Err_def hi_def .
qed

text \<open>The unmap walk of a remapped region.\<close>

lemma clear_range:
  assumes ok: "dir_ok dir m" and r: "first \<le> lst" "lst < 4294967296"
    and tabs: "\<And>i. PGD_INDEX first \<le> i \<Longrightarrow> i \<le> PGD_INDEX lst \<Longrightarrow> mm_words m dir i \<noteq> 0"
  defines "lo \<equiv> first div PAGE_SIZE" and "hi \<equiv> lst div PAGE_SIZE + 1"
  shows "\<exists>m'. for_tables (\<lambda>i from to k m. do {
           pd \<leftarrow> table_at dir i m;
           if i = PGD_INDEX first \<and> pd = 0 then Some (Inr (), m)
           else paging_clear_table_entries pd from to m }) first lst m = Some (Inr (), m') \<and>
    mapped dir (\<lambda>_. 0) lo hi m m'"
proof -
  let ?t = "\<lambda>i. frame (mm_words m dir i)"
  have tab: "mm_words m dir i \<noteq> 0" if "lo div 1024 \<le> i" "i \<le> lst div PAGE_SIZE div 1024" for i
    using tabs [of i] that by (simp add: PGD_INDEX_eq lo_def)
  have "\<exists>r m'. for_tables (\<lambda>i from to k m. do {
           pd \<leftarrow> table_at dir i m;
           if i = PGD_INDEX first \<and> pd = 0 then Some (Inr (), m)
           else paging_clear_table_entries pd from to m }) first lst m = Some (r, m') \<and>
      (case r of Inl e \<Rightarrow> False | Inr _ \<Rightarrow> mapped dir (\<lambda>_. 0) lo (lst div PAGE_SIZE + 1) m m')"
  proof (rule walk_rule [where Inv = "\<lambda>k. mapped dir (\<lambda>_. 0) lo k m" and
        body = "\<lambda>i fr j m. do { m \<leftarrow> put_word (?t i) j 0 m; Some (Inr (), m) }", OF _ r])
    show "mapped dir (\<lambda>_. 0) lo (first div PAGE_SIZE) m m" using mapped_refl [OF ok] by (simp add: lo_def)
  next
    fix i fr to m'
    assume M: "mapped dir (\<lambda>_. 0) lo (i * 1024 + fr) m m'" and i: "i < 1024"
      "first div PAGE_SIZE div 1024 \<le> i" "i \<le> lst div PAGE_SIZE div 1024"
    have "?t i \<noteq> 0" using dir_ok_table(1) [OF ok i(1) tab] i(2,3) live_nonzero by (auto simp: lo_def)
    moreover have "table_at dir i m' = Some (?t i)"
      using M dir_nonzero [OF ok] by (simp add: table_at_def get_word_def mapped_def)
    ultimately show "table_at dir i m' \<bind> (\<lambda>pd. if i = PGD_INDEX first \<and> pd = 0 then Some (Inr (), m')
          else paging_clear_table_entries pd fr to m') =
        for_entries (\<lambda>j m. do { m \<leftarrow> put_word (?t i) j 0 m; Some (Inr (), m) }) fr to m'"
      by (simp add: paging_clear_table_entries_def)
  next
    fix i fr j m'
    assume M: "mapped dir (\<lambda>_. 0) lo (i * 1024 + j) m m'" and b: "i < 1024" "fr \<le> j" "j \<le> 1023"
      "first div PAGE_SIZE \<le> i * 1024 + fr" "i * 1024 + j \<le> lst div PAGE_SIZE"
    have "lo div 1024 \<le> i" "i \<le> lst div PAGE_SIZE div 1024" using b unfolding lo_def by linarith+
    then have e: "mm_words m dir i \<noteq> 0" by (rule tab)
    show "\<exists>r m''. (do { m \<leftarrow> put_word (?t i) j 0 m'; Some (Inr (), m) }) = Some (r, m'') \<and>
        (case r of Inl e \<Rightarrow> False | Inr _ \<Rightarrow> mapped dir (\<lambda>_. 0) lo (i * 1024 + j + 1) m m'')"
      using mapped_step(2) [OF M _ b(1) _ e] b by (auto simp: lo_def)
  qed
  then show ?thesis unfolding hi_def by (rule never_fails)
qed

section \<open>Remapped regions\<close>

lemma remap_spec:
  fixes region :: memory_region_t
  assumes inv: "mmu_inv m" and ok: "dir_ok dir m" and P: "PAGE_SIZE dvd P"
    and sz: "0 < r_size region" "r_address region + r_size region \<le> 4294967296"
  defines "lo \<equiv> r_address region div PAGE_SIZE"
    and "hi \<equiv> (r_address region + r_size region - 1) div PAGE_SIZE + 1"
  defines "f q \<equiv> word_of_nat (P + (q - lo) * PAGE_SIZE) OR get_paging_flags_for_region region"
  shows "\<exists>r m1 m'. arch_memory_region_remap_pages dir region (word_of_nat P) m = Some (r, m') \<and>
    mmu_inv m' \<and> dir_ok dir m' \<and> same_ptes dir m m1 \<and> grown {dir} m m1 \<and> mm_pages m' = mm_pages m1 \<and>
    (case r of Inl e \<Rightarrow> e = ENOMEM \<or> e = EINVAL \<and> (\<exists>q. lo \<le> q \<and> q < hi \<and> pte dir m q \<noteq> 0)
     | Inr _ \<Rightarrow> mapped dir f lo hi m1 m' \<and> (\<forall>q. lo \<le> q \<and> q < hi \<longrightarrow> pte dir m q = 0) \<and>
         (\<forall>i. lo div 1024 \<le> i \<and> i \<le> (hi - 1) div 1024 \<longrightarrow> mm_words m' dir i \<noteq> 0))"
proof -
  let ?a = "r_address region" and ?l = "r_address region + r_size region - 1"
  let ?fl = "get_paging_flags_for_region region"
  have last: "last_addr ?a (r_size region) = ?l" using sz by (rule last_addr_eq)
  have al: "?a \<le> ?l" "?l < 4294967296" using sz by simp_all
  then have i: "PGD_INDEX ?a \<le> PGD_INDEX ?l" "PGD_INDEX ?l \<le> 1023" "u32_of (PGD_INDEX ?l) = PGD_INDEX ?l"
    by (simp_all add: PGD_INDEX_def PGDIR_SIZE_def div_le_mono)
  obtain r1 m1 where t: "paging_alloc_table_entries dir (PGD_INDEX ?a) (PGD_INDEX ?l) (?fl OR PAGE_WRITE) False m
      = Some (r1, m1)" "mmu_inv m1" "dir_ok dir m1" "same_ptes dir m m1" "grown {dir} m m1"
    "case r1 of Inl e \<Rightarrow> e = ENOMEM
     | Inr _ \<Rightarrow> \<forall>i. PGD_INDEX ?a \<le> i \<and> i \<le> PGD_INDEX ?l \<longrightarrow> mm_words m1 dir i \<noteq> 0"
    using alloc_tables_spec [OF inv ok i(2,1) paging_flags(3,4), of region] by blast
  show ?thesis
  proof (cases r1)
    case (Inl e)
    then have "arch_memory_region_remap_pages dir region (word_of_nat P) m = Some (Inl ENOMEM, m1)"
      using t(1,6) unfolding arch_memory_region_remap_pages_def last Let_def i(3) by simp
    then show ?thesis using t by auto
  next
    case (Inr u)
    have tabs: "mm_words m1 dir i \<noteq> 0" if "PGD_INDEX ?a \<le> i" "i \<le> PGD_INDEX ?l" for i
      using t(6) Inr that by simp
    obtain r m' where f: "for_tables (\<lambda>i from to k m. do {
            t \<leftarrow> table_at dir i m;
            paging_fill_table_entries t (word_of_nat P + word_of_nat (k * PAGE_SIZE)) from to ?fl m })
            ?a ?l m1 = Some (r, m')"
      "case r of Inl e \<Rightarrow> e = EINVAL \<and> (\<exists>q. lo \<le> q \<and> q < hi \<and> pte dir m1 q \<noteq> 0) \<and> (\<exists>h. mapped dir f lo h m1 m')
       | Inr _ \<Rightarrow> mapped dir f lo hi m1 m' \<and> (\<forall>q. lo \<le> q \<and> q < hi \<longrightarrow> pte dir m1 q = 0)"
      using fill_range [OF t(3) al tabs P paging_flags(2) [of region], folded lo_def hi_def] unfolding f_def by blast
    have eq: "arch_memory_region_remap_pages dir region (word_of_nat P) m = Some (r, m')"
      using t(1) Inr f(1) unfolding arch_memory_region_remap_pages_def last Let_def i(3) by simp
    have "?l div PAGE_SIZE < 1048576" using al(2) by (simp add: PAGE_SIZE_def)
    then have pt: "pte dir m1 q = pte dir m q" if "q < hi" for q
      using t(4) that by (simp add: hi_def same_ptes_def)
    have "\<exists>h. mapped dir f lo h m1 m'" using f(2) by (cases r) auto
    then obtain h where h: "mapped dir f lo h m1 m'" ..
    have "mmu_inv m'" "dir_ok dir m'" "mm_pages m' = mm_pages m1" "mm_words m' dir = mm_words m1 dir"
      using h t(2) mmu_inv_pages [of m' m1] by (auto simp: mapped_def)
    moreover have "mm_words m1 dir i \<noteq> 0" if "lo div 1024 \<le> i" "i \<le> (hi - 1) div 1024" for i
      using tabs [of i] that by (simp add: lo_def hi_def PGD_INDEX_eq)
    ultimately show ?thesis using eq t(4,5) f(2) pt
      by (intro exI [of _ r] exI [of _ m1] exI [of _ m']) (auto split: sum.splits)
  qed
qed

lemma translate_same:
  assumes "dir_ok dir m" "dir_ok dir m'" "v < 4294967296" "pte dir m' (v div PAGE_SIZE) = pte dir m (v div PAGE_SIZE)"
  shows "arch_memory_context_translate_address dir v m' = arch_memory_context_translate_address dir v m"
  using assms by (simp add: translate_pte)

lemma translate_mapped:
  assumes M: "mapped dir f lo hi m1 m'" and eq: "same_ptes dir m m1" and ok: "dir_ok dir m" and v: "v < 4294967296"
  shows "arch_memory_context_translate_address dir v m' =
    (if lo \<le> v div PAGE_SIZE \<and> v div PAGE_SIZE < hi
     then Some (if f (v div PAGE_SIZE) AND PAGE_PRESENT = 0 then Inl EINVAL
                else Inr ((f (v div PAGE_SIZE) AND PAGE_MASK) + word_of_nat (v mod PAGE_SIZE)))
     else arch_memory_context_translate_address dir v m)"
proof -
  have "v div PAGE_SIZE < 1048576" using v by (simp add: PAGE_SIZE_def)
  then have "pte dir m' (v div PAGE_SIZE) =
      (if lo \<le> v div PAGE_SIZE \<and> v div PAGE_SIZE < hi then f (v div PAGE_SIZE) else pte dir m (v div PAGE_SIZE))"
    using M eq by (simp add: mapped_def same_ptes_def)
  moreover have "dir_ok dir m'" using M by (simp add: mapped_def)
  ultimately show ?thesis using ok v by (auto simp: translate_pte Let_def)
qed


definition demo_mmu :: mmu where
  "demo_mmu = \<lparr> mm_pages = \<lparr> memory_size = 16384, memory_pages = [1, 1, 0, 0],
     memory_descriptors = \<lparr> md_free = False, md_start = 0, md_size = 16384 \<rparr> #
       replicate 3 \<lparr> md_free = True, md_start = 0, md_size = 0 \<rparr> \<rparr>, mm_words = (\<lambda>_ _. 0) \<rparr>"

definition demo_region :: memory_region_t where
  "demo_region = \<lparr> r_id = 1, r_name = [], r_ref_count = 1, r_flags = REGION_READ OR REGION_WRITE,
     r_address = 1073741824, r_size = 5000, r_file = None, r_file_offset = 0, r_file_size = 0, r_context = None \<rparr>"

lemma demo_mmu_inv: "mmu_inv demo_mmu"
  by (simp add: mmu_inv_def demo_mmu_def pages_inv_def desc_ok_def refs_def PAGE_SIZE_def
      MAX_MEMORY_TYPES_def MEM_COMMON_def)

lemma demo_dir_ok: "dir_ok 4096 demo_mmu"
  by (simp add: dir_ok_def demo_mmu_def live_def in_memory_def refs_def PAGE_SIZE_def)

lemma demo_flags: "get_paging_flags_for_region demo_region = 7"
  by (simp add: get_paging_flags_for_region_def demo_region_def REGION_READ_def REGION_WRITE_def
      REGION_KERNEL_def PAGE_PRESENT_def PAGE_WRITE_def PAGE_USER_def)

lemma entries_loop_2: "entries_loop body 2 i m = entries_loop body (Suc (Suc 0)) i m"
  by (simp only: numeral_2_eq_2)

lemma demo_remap:
  "map_option fst (arch_memory_region_remap_pages 4096 demo_region (word_of_nat 753664) demo_mmu) = Some (Inr ())"
  unfolding arch_memory_region_remap_pages_def demo_flags
  by (simp add: demo_region_def demo_mmu_def last_addr_eq PGD_INDEX_def PT_INDEX_def PGDIR_SIZE_def
      PAGE_SIZE_def paging_alloc_table_entries_def for_entries_def get_word_def put_word_def alloc_page_def
      alloc_pages_def MEM_COMMON_def MAX_MEMORY_TYPES_def do_alloc_pages_def alloc_scan.simps zero_page_def
      PAGE_WRITE_def for_tables_def table_at_def frame_def PAGE_MASK_def paging_fill_table_entries_def
      entries_loop_2 tables_loop.simps)


section \<open>Copy on write\<close>

text \<open>A frame that holds data and not a page table of the directory.\<close>

definition data_frame :: "nat \<Rightarrow> mmu \<Rightarrow> nat \<Rightarrow> bool" where
  "data_frame dir m p \<longleftrightarrow> live m p \<and> p \<noteq> dir \<and>
     (\<forall>i < 1024. mm_words m dir i \<noteq> 0 \<longrightarrow> frame (mm_words m dir i) \<noteq> p)"

lemma dir_ok_keep:
  assumes ok: "dir_ok dir m" and keep: "\<And>x. live m x \<Longrightarrow> \<not> data_frame dir m x \<Longrightarrow>
      live m' x \<and> mm_words m' x = mm_words m x"
  shows "dir_ok dir m'" "same_ptes dir m m'"
proof -
  have d: "live m' dir" "mm_words m' dir = mm_words m dir"
    using keep [of dir] ok by (auto simp: data_frame_def dir_ok_def)
  have t: "live m' (frame (mm_words m dir i)) \<and>
      mm_words m' (frame (mm_words m dir i)) = mm_words m (frame (mm_words m dir i))"
    if "i < 1024" "mm_words m dir i \<noteq> 0" for i
    using keep [of "frame (mm_words m dir i)"] dir_ok_table(1) [OF ok that] that by (auto simp: data_frame_def)
  show "dir_ok dir m'"
    unfolding dir_ok_def d(2) using d(1) t dir_ok_table [OF ok] by blast
  have "pte dir m' q = pte dir m q" if "q < 1048576" for q
    using t [of "q div 1024"] that by (auto simp: pte_def d(2) Let_def)
  then show "same_ptes dir m m'" by (simp add: same_ptes_def)
qed

lemma write_bit: "(x OR PAGE_WRITE) AND PAGE_WRITE \<noteq> 0"
  by (simp add: PAGE_WRITE_def)

lemma frame_write: "frame (x OR PAGE_WRITE) = frame x"
  by (simp add: frame_def bit.conj_disj_distrib2) (simp add: PAGE_WRITE_def PAGE_MASK_def)

lemma add_ref_spec:
  assumes "live m p"
  shows "\<exists>m'. add_ref p d m = Some m' \<and> mm_words m' = mm_words m \<and> refs m' p = refs m p + d \<and>
    (\<forall>x. in_memory m' x = in_memory m x) \<and> memory_size (mm_pages m') = memory_size (mm_pages m) \<and>
    (\<forall>x. PAGE_SIZE dvd x \<longrightarrow> x \<noteq> p \<longrightarrow> refs m' x = refs m x) \<and> (mmu_inv m \<longrightarrow> mmu_inv m')"
proof -
  let ?k = "p div PAGE_SIZE" and ?ps = "memory_pages (mm_pages m)"
  let ?m = "m\<lparr> mm_pages := (mm_pages m)\<lparr> memory_pages := ?ps[?k := ?ps ! ?k + d] \<rparr> \<rparr>"
  have k: "?k < length ?ps" "?ps ! ?k > 0" "PAGE_SIZE dvd p" "p \<noteq> 0" using assms
    by (auto simp: live_def in_memory_def refs_def)
  have other: "refs ?m x = refs m x" if "PAGE_SIZE dvd x" "x \<noteq> p" for x
  proof -
    have "?k \<noteq> x div PAGE_SIZE" using that k(3) same_frame by metis
    then show ?thesis by (simp add: refs_def)
  qed
  moreover have "refs ?m 0 = refs m 0" using other [of 0] k(4) by simp
  then have "mmu_inv m \<longrightarrow> mmu_inv ?m" by (auto simp: mmu_inv_def pages_inv_def desc_ok_def)
  ultimately show ?thesis using k by (auto simp: add_ref_def in_memory_def refs_def Let_def)
qed

text \<open>The private copy of a shared page: a fresh frame with the same words, one reference taken from the
  shared frame, and everything the directory is made of as before.\<close>

lemma cow_copy:
  assumes inv: "mmu_inv m" and ok: "dir_ok dir m" and df: "data_frame dir m ptr" and sh: "refs m ptr > 1"
    and a: "alloc_page m = Some (Some p, m1)"
  shows "\<exists>m'. add_ref ptr (- 1) (m1\<lparr> mm_words := (mm_words m1)(p := mm_words m1 ptr) \<rparr>) = Some m' \<and>
    mmu_inv m' \<and> dir_ok dir m' \<and> same_ptes dir m m' \<and> mm_words m' dir = mm_words m dir \<and>
    mm_words m' = (mm_words m)(p := mm_words m ptr) \<and>
    refs m' ptr = refs m ptr - 1 \<and> refs m' p = 1 \<and> \<not> live m p \<and> live m' p \<and>
    (\<forall>x. live m x \<longrightarrow> x \<noteq> ptr \<longrightarrow> live m' x \<and> refs m' x = refs m x)"
proof -
  have m1: "mm_words m1 = mm_words m" "mmu_inv m1" "grown {} m m1" "\<not> live m p" "live m1 p" "refs m1 p = 1"
    using alloc_page_spec [OF inv] a by auto
  let ?m2 = "m1\<lparr> mm_words := (mm_words m1)(p := mm_words m1 ptr) \<rparr>"
  have lv: "live ?m2 x = live m1 x" "in_memory ?m2 x = in_memory m1 x" "refs ?m2 x = refs m1 x" for x
    by (simp_all add: live_def in_memory_def refs_def)
  have l1: "live m1 x" "refs m1 x = refs m x" if "live m x" for x
    using that grown_live [OF m1(3)] m1(3) by (auto simp: grown_def)
  have ptr: "live m ptr" "ptr \<noteq> p" "ptr \<noteq> dir" using df m1(4) by (auto simp: data_frame_def)
  obtain m' where m': "add_ref ptr (- 1) ?m2 = Some m'" "mm_words m' = mm_words ?m2"
    "refs m' ptr = refs ?m2 ptr - 1" "\<forall>x. in_memory m' x = in_memory ?m2 x"
    "\<forall>x. PAGE_SIZE dvd x \<longrightarrow> x \<noteq> ptr \<longrightarrow> refs m' x = refs ?m2 x" "mmu_inv ?m2 \<longrightarrow> mmu_inv m'"
    using add_ref_spec [of ?m2 ptr "- 1"] l1(1) [OF ptr(1)] by (auto simp: lv)
  have al: "PAGE_SIZE dvd x" if "live m1 x" for x using that by (simp add: live_def in_memory_def)
  have keep: "live m' x \<and> refs m' x = refs m1 x" if "live m1 x" "x \<noteq> ptr" for x
    using m'(4,5) that al [OF that(1)] by (simp add: live_def lv)
  have w: "mm_words m' = (mm_words m)(p := mm_words m ptr)" using m'(2) m1(1) by simp
  have kp: "live m' x \<and> mm_words m' x = mm_words m x" if "live m x" "\<not> data_frame dir m x" for x
    using keep [OF l1(1) [OF that(1)]] that df m1(4) by (auto simp: w)
  have "dir_ok dir m'" "same_ptes dir m m'" by (rule dir_ok_keep [OF ok kp]; assumption)+
  moreover have "mm_words m' dir = mm_words m dir"
    using ok m1(4) by (auto simp: w dir_ok_def)
  moreover have "mmu_inv m'" using m'(6) m1(2) mmu_inv_pages [of ?m2 m1] by simp
  moreover have "refs m' ptr = refs m ptr - 1" using m'(3) l1(2) [OF ptr(1)] by (simp add: lv)
  moreover have "live m' p" "refs m' p = 1" using keep [OF m1(5)] ptr(2) m1(6) by auto
  moreover have "live m' x \<and> refs m' x = refs m x" if "live m x" "x \<noteq> ptr" for x
    using keep [OF l1(1) [OF that(1)] that(2)] l1(2) [OF that(1)] by simp
  ultimately show ?thesis using m'(1) w m1(4) by blast
qed

lemma do_alloc_page:
  assumes "mmu_inv m" and "alloc_page m = Some (p, m1)"
  obtains r ps where "do_alloc_pages (memory_descriptors (mm_pages m) ! nat MEM_COMMON) 1 (mm_pages m) = Some (r, ps)"
    "p = (if r = Some 0 then None else r)" "m1 = m\<lparr> mm_pages := ps \<rparr>"
proof -
  have "alloc_pages 1 MEM_COMMON (mm_pages m) =
      do_alloc_pages (memory_descriptors (mm_pages m) ! nat MEM_COMMON) 1 (mm_pages m)"
    using assms(1) by (intro mem_type_desc) (auto simp: mmu_inv_def MEM_COMMON_def MAX_MEMORY_TYPES_def)
  with assms(2) that show thesis by (auto simp: alloc_page_def split: bind_splits)
qed


definition demo_cow :: mmu where
  "demo_cow = \<lparr> mm_pages = \<lparr> memory_size = 20480, memory_pages = [1, 1, 1, 2, 0],
     memory_descriptors = \<lparr> md_free = False, md_start = 0, md_size = 20480 \<rparr> #
       replicate 3 \<lparr> md_free = True, md_start = 0, md_size = 0 \<rparr> \<rparr>,
     mm_words = (\<lambda>p i. if p = 4096 \<and> i = 256 then 8199 else if p = 8192 \<and> i = 0 then 12293
                      else if p = 12288 \<and> i = 3 then 99 else 0) \<rparr>"

lemma demo_cow_inv: "mmu_inv demo_cow" "dir_ok 4096 demo_cow" "pte 4096 demo_cow 262144 = 12293"
  "data_frame 4096 demo_cow 12288"
  by (auto simp: mmu_inv_def demo_cow_def pages_inv_def desc_ok_def refs_def PAGE_SIZE_def MAX_MEMORY_TYPES_def
      MEM_COMMON_def dir_ok_def live_def in_memory_def pte_def data_frame_def frame_def PAGE_MASK_def PAGE_PRESENT_def)

lemma demo_cow_result: "map_option fst (handle_cow_page 4096 1073742115 demo_cow) = Some (Inr 4096)"
  by (simp add: handle_cow_page_def demo_cow_def get_word_def put_word_def frame_def PAGE_MASK_def PGD_INDEX_def
      PT_INDEX_def PGDIR_SIZE_def PAGE_SIZE_def MEM_COMMON_def do_alloc_pages_def alloc_scan.simps add_ref_def Let_def)


end
