(* ===== verification/Kernel_Region.thy ===== *)
theory Kernel_Region
  imports Kernel_Array Kernel_Paging Kernel_Ids
begin

unbundle bit_operations_syntax

text \<open>
  Memory regions and memory contexts, \<^verbatim>\<open>source/kernel/src/mm/region.c\<close>, \<^verbatim>\<open>context.c\<close> and \<^verbatim>\<open>sbrk.c\<close>. A region
  is a heap object; freeing it removes it from the store, and using a pointer to a freed region is a fault
  (\<open>None\<close>). A context keeps its regions in a pointer array ordered by address. The global table of regions
  is the dictionary that the hash table implements, keyed by region id. Each function runs under the locks
  it takes, so it is one step on the state.

  \<^verbatim>\<open>ptr_t\<close> and the size argument of the search for an unmapped range are 32 bits wide, region sizes 64
  bits; addresses and sizes are natural numbers with that wrap-around written out.
\<close>

section \<open>Data\<close>

definition LAST_USER_ADDRESS :: nat where "LAST_USER_ADDRESS = 4294967295"
definition FIRST_KERNEL_ADDRESS :: nat where "FIRST_KERNEL_ADDRESS = 1048576"
definition LAST_KERNEL_ADDRESS :: nat where "LAST_KERNEL_ADDRESS = 1073741823"
definition FIRST_USER_REGION_ADDRESS :: nat where "FIRST_USER_REGION_ADDRESS = 2147483648"
definition FIRST_USER_STACK_ADDRESS :: nat where "FIRST_USER_STACK_ADDRESS = 3221225472"

abbreviation u64_of :: "nat \<Rightarrow> nat" where
  "u64_of n \<equiv> n mod 18446744073709551616"

record memory_context_t =
  c_mutex :: int
  c_regions :: array_t
  c_process :: addr
  c_arch_data :: "nat option"

text \<open>The state the functions share: the heap objects, the region table with its id counter, per process
  the context, the heap region and the size of the address space, the reference counts of open files, and
  the page tables.\<close>

record mm_world =
  w_regions :: "addr \<rightharpoonup> memory_region_t"
  w_contexts :: "addr \<rightharpoonup> memory_context_t"
  region_table :: "int \<rightharpoonup> addr"
  region_id_counter :: int
  w_memory_context :: "addr \<Rightarrow> addr"
  w_heap_region :: "addr \<Rightarrow> vptr"
  w_vmem_size :: "addr \<Rightarrow> nat"
  w_files :: "addr \<Rightarrow> int"
  w_mmu :: mmu

text \<open>What the rest of the kernel answers: the allocation of pointer cells and of objects, the creation
  of a mutex, and the address of \<^verbatim>\<open>kernel_memory_context\<close>.\<close>

record region_env =
  env_km :: "vptr alloc"
  env_new :: "mm_world \<Rightarrow> vptr"
  env_mutex :: "mm_world \<Rightarrow> errno + int"
  env_kernel :: addr

definition upd_region :: "addr \<Rightarrow> (memory_region_t \<Rightarrow> memory_region_t) \<Rightarrow> mm_world \<Rightarrow> mm_world option" where
  "upd_region a f w = do {
     r \<leftarrow> w_regions w a;
     Some (w\<lparr> w_regions := (w_regions w)(a \<mapsto> f r) \<rparr>) }"

text \<open>Reading through a pointer of the region array.\<close>

definition region_at :: "mm_world \<Rightarrow> vptr \<Rightarrow> memory_region_t option" where
  "region_at w p = Option.bind p (w_regions w)"

text \<open>An operation of the page tables of a context.\<close>

definition on_mmu :: "unit mmu_op \<Rightarrow> mm_world \<Rightarrow> ((errno + unit) \<times> mm_world) option" where
  "on_mmu f w = do {
     (r, m) \<leftarrow> f (w_mmu w);
     Some (r, w\<lparr> w_mmu := m \<rparr>) }"

definition dir_of :: "mm_world \<Rightarrow> vptr \<Rightarrow> nat option" where
  "dir_of w c = do {
     c \<leftarrow> c;
     ctx \<leftarrow> w_contexts w c;
     c_arch_data ctx }"

section \<open>Contexts\<close>

definition memory_context_insert_region ::
    "region_env \<Rightarrow> addr \<Rightarrow> addr \<Rightarrow> mm_world \<Rightarrow> ((errno + unit) \<times> mm_world) option" where
  "memory_context_insert_region E context region w = do {
     ctx \<leftarrow> w_contexts w context;
     r \<leftarrow> w_regions w region;
     i \<leftarrow> array_scan (array_get_item (c_regions ctx))
           (\<lambda>x. do { tmp \<leftarrow> region_at w x; Some (r_address r < r_address tmp) })
           0 (array_get_size (c_regions ctx));
     (error, arr) \<leftarrow> array_insert_item (env_km E) (c_regions ctx) i (Some region);
     Some (error, w\<lparr> w_contexts := (w_contexts w)(context \<mapsto> ctx\<lparr> c_regions := arr \<rparr>) \<rparr>) }"

definition memory_context_remove_region ::
    "addr \<Rightarrow> addr \<Rightarrow> mm_world \<Rightarrow> ((errno + unit) \<times> mm_world) option" where
  "memory_context_remove_region context region w = do {
     ctx \<leftarrow> w_contexts w context;
     (error, arr) \<leftarrow> array_remove_item (c_regions ctx) (Some region);
     Some (error, w\<lparr> w_contexts := (w_contexts w)(context \<mapsto> ctx\<lparr> c_regions := arr \<rparr>) \<rparr>) }"

definition do_memory_context_get_region_for :: "addr \<Rightarrow> nat \<Rightarrow> mm_world \<Rightarrow> vptr option" where
  "do_memory_context_get_region_for context address w = do {
     ctx \<leftarrow> w_contexts w context;
     i \<leftarrow> array_scan (array_get_item (c_regions ctx))
           (\<lambda>x. do { r \<leftarrow> region_at w x;
                   Some (r_address r \<le> address \<and> address \<le> last_addr (r_address r) (r_size r)) })
           0 (array_get_size (c_regions ctx));
     if i < array_get_size (c_regions ctx) then array_get_item (c_regions ctx) i else Some None }"

definition memory_context_get_region_for :: "addr \<Rightarrow> nat \<Rightarrow> mm_world \<Rightarrow> (vptr \<times> mm_world) option" where
  "memory_context_get_region_for context address w = do {
     region \<leftarrow> do_memory_context_get_region_for context address w;
     case region of
       None \<Rightarrow> Some (None, w)
     | Some a \<Rightarrow> do {
         w \<leftarrow> upd_region a (\<lambda>r. r\<lparr> r_ref_count := r_ref_count r + 1 \<rparr>) w;
         Some (Some a, w) } }"

text \<open>The loop of the search: \<open>Inl\<close> is an address found before a region, \<open>Inr\<close> the first address behind
  all regions.\<close>

function unmapped_loop ::
    "(int \<Rightarrow> vptr option) \<Rightarrow> mm_world \<Rightarrow> nat \<Rightarrow> int \<Rightarrow> int \<Rightarrow> nat \<Rightarrow> (nat + nat) option" where
  "unmapped_loop get w sz i region_count start =
     (if i < region_count then do {
        x \<leftarrow> get i;
        region \<leftarrow> region_at w x;
        if u32_of (start + sz) \<le> r_address region then Some (Inl start)
        else unmapped_loop get w sz (i + 1) region_count
               (u32_of (max start (u64_of (r_address region + r_size region)))) }
      else Some (Inr start))"
  by pat_completeness auto
termination
  by (relation "measure (\<lambda>(get, w, sz, i, region_count, start). nat (region_count - i))") auto

declare unmapped_loop.simps [simp del]

definition memory_context_find_unmapped_region ::
    "addr \<Rightarrow> nat \<Rightarrow> nat \<Rightarrow> nat \<Rightarrow> mm_world \<Rightarrow> nat option option" where
  "memory_context_find_unmapped_region context start end_addr sz w = do {
     ctx \<leftarrow> w_contexts w context;
     r \<leftarrow> unmapped_loop (array_get_item (c_regions ctx)) w sz 0 (array_get_size (c_regions ctx)) start;
     case r of
       Inl a \<Rightarrow> Some (Some a)
     | Inr start \<Rightarrow> Some (if u32_of (start + sz + 4294967295) \<le> end_addr then Some start else None) }"

definition memory_context_can_resize_region :: "addr \<Rightarrow> addr \<Rightarrow> nat \<Rightarrow> mm_world \<Rightarrow> bool option" where
  "memory_context_can_resize_region context region new_size w = do {
     ctx \<leftarrow> w_contexts w context;
     r \<leftarrow> w_regions w region;
     index \<leftarrow> array_index_of (c_regions ctx) (Some region);
     if index = - 1 then Some False
     else if index = array_get_size (c_regions ctx) - 1 then
       Some (last_addr (r_address r) new_size \<le>
         (if r_flags r AND REGION_KERNEL \<noteq> 0 then LAST_KERNEL_ADDRESS else LAST_USER_ADDRESS))
     else do {
       x \<leftarrow> array_get_item (c_regions ctx) (index + 1);
       tmp \<leftarrow> region_at w x;
       Some (last_addr (r_address r) new_size < r_address tmp) } }"

definition memory_context_translate_address ::
    "addr \<Rightarrow> nat \<Rightarrow> mm_world \<Rightarrow> (errno + u32) option" where
  "memory_context_translate_address context linear w =
     (if linear < FIRST_USER_ADDRESS then Some (Inr (word_of_nat linear))
      else do {
        dir \<leftarrow> dir_of w (Some context);
        arch_memory_context_translate_address dir linear (w_mmu w) })"

text \<open>\<open>context\<close> is the fresh object. When the mutex cannot be created the array is destroyed again.\<close>

definition memory_context_init :: "region_env \<Rightarrow> addr \<Rightarrow> mm_world \<Rightarrow> (errno + unit) \<times> mm_world" where
  "memory_context_init E context w =
     (let arr = snd (array_set_realloc_size array_init 32);
          ctx = \<lparr> c_mutex = 0, c_regions = arr, c_process = 0, c_arch_data = None \<rparr>
      in case env_mutex E w of
           Inl e \<Rightarrow> (Inl e, w\<lparr> w_contexts := (w_contexts w)(context \<mapsto> ctx\<lparr> c_regions := array_destroy arr \<rparr>) \<rparr>)
         | Inr mutex \<Rightarrow> (Inr (), w\<lparr> w_contexts := (w_contexts w)(context \<mapsto> ctx\<lparr> c_mutex := mutex \<rparr>) \<rparr>))"

definition memory_context_destroy :: "addr \<Rightarrow> mm_world \<Rightarrow> mm_world option" where
  "memory_context_destroy context w = do {
     ctx \<leftarrow> w_contexts w context;
     m \<leftarrow> arch_memory_context_destroy (c_arch_data ctx) (w_mmu w);
     Some (w\<lparr> w_mmu := m, w_contexts := (w_contexts w)(context := None) \<rparr>) }"

section \<open>Regions\<close>

definition memory_region_allocate ::
    "region_env \<Rightarrow> vptr \<Rightarrow> byte list \<Rightarrow> nat \<Rightarrow> nat \<Rightarrow> u32 \<Rightarrow> mm_world \<Rightarrow> vptr \<times> mm_world" where
  "memory_region_allocate E context name address sz flags w =
     (case env_new E w of
        None \<Rightarrow> (None, w)
      | Some a \<Rightarrow> (Some a, w\<lparr> w_regions := (w_regions w)(a \<mapsto>
          \<lparr> r_id = - 1, r_name = name, r_ref_count = 1, r_flags = flags, r_address = address, r_size = sz,
            r_file = None, r_file_offset = 0, r_file_size = 0, r_context = context \<rparr>) \<rparr>))"

text \<open>Dropping a file only counts here: closing a file whose last reference goes belongs to the file
  system layer.\<close>

definition memory_region_destroy :: "addr \<Rightarrow> mm_world \<Rightarrow> mm_world option" where
  "memory_region_destroy region w = do {
     r \<leftarrow> w_regions w region;
     w \<leftarrow> (case r_file r of
             None \<Rightarrow> Some w
           | Some f \<Rightarrow> do {
               c \<leftarrow> r_context r;
               _ \<leftarrow> w_contexts w c;
               Some (w\<lparr> w_files := (w_files w)(f := w_files w f - 1) \<rparr>) });
     Some (w\<lparr> w_regions := (w_regions w)(region := None) \<rparr>) }"

text \<open>The loop over the ids is \<open>fresh_id\<close>; adding to the table never fails.\<close>

definition memory_region_insert_global :: "addr \<Rightarrow> mm_world \<Rightarrow> mm_world option" where
  "memory_region_insert_global region w = do {
     (i, counter) \<leftarrow> fresh_id (region_table w) (region_id_counter w);
     w \<leftarrow> upd_region region (\<lambda>r. r\<lparr> r_id := i \<rparr>) w;
     Some (w\<lparr> region_id_counter := counter, region_table := (region_table w)(i \<mapsto> region) \<rparr>) }"

definition memory_region_get :: "int \<Rightarrow> mm_world \<Rightarrow> (vptr \<times> mm_world) option" where
  "memory_region_get ident w =
     (case region_table w ident of
        None \<Rightarrow> Some (None, w)
      | Some a \<Rightarrow> do {
          w \<leftarrow> upd_region a (\<lambda>r. r\<lparr> r_ref_count := r_ref_count r + 1 \<rparr>) w;
          Some (Some a, w) })"

text \<open>\<^verbatim>\<open>arch_memory_region_unmap_pages( region, address, size )\<close> for a region of the store.\<close>

definition unmap_pages :: "addr \<Rightarrow> nat \<Rightarrow> nat \<Rightarrow> mm_world \<Rightarrow> mm_world option" where
  "unmap_pages region address sz w = do {
     r \<leftarrow> w_regions w region;
     dir \<leftarrow> dir_of w (r_context r);
     (_, w) \<leftarrow> on_mmu (arch_memory_region_unmap_pages dir r address sz) w;
     Some w }"

definition do_memory_region_put :: "addr \<Rightarrow> mm_world \<Rightarrow> mm_world option" where
  "do_memory_region_put region w = do {
     w \<leftarrow> upd_region region (\<lambda>r. r\<lparr> r_ref_count := r_ref_count r - 1 \<rparr>) w;
     r \<leftarrow> w_regions w region;
     if r_ref_count r > 0 then Some w
     else do {
       w \<leftarrow> (case r_context r of
               None \<Rightarrow> Some w
             | Some c \<Rightarrow> do { (_, w) \<leftarrow> memory_context_remove_region c region w; Some w });
       w \<leftarrow> unmap_pages region (r_address r) (r_size r) w;
       memory_region_destroy region w } }"

definition do_memory_region_put_times :: "addr \<Rightarrow> int \<Rightarrow> mm_world \<Rightarrow> mm_world option" where
  "do_memory_region_put_times region count w = do {
     r \<leftarrow> w_regions w region;
     if \<not> r_ref_count r \<ge> count then None
     else do {
       w \<leftarrow> upd_region region (\<lambda>r. r\<lparr> r_ref_count := r_ref_count r - count \<rparr>) w;
       if r_ref_count r - count \<noteq> 0 then Some w
       else do {
         let w = (if r_id r \<noteq> - 1 then w\<lparr> region_table := (region_table w)(r_id r := None) \<rparr> else w);
         c \<leftarrow> r_context r;
         (_, w) \<leftarrow> memory_context_remove_region c region w;
         w \<leftarrow> unmap_pages region (r_address r) (r_size r) w;
         memory_region_destroy region w } } }"

definition memory_region_put :: "addr \<Rightarrow> mm_world \<Rightarrow> mm_world option" where
  "memory_region_put region = do_memory_region_put_times region 1"

text \<open>The size is passed to the search as a \<^verbatim>\<open>uint32_t\<close> and to the new region as a \<^verbatim>\<open>uint64_t\<close>.\<close>

definition do_create_memory_region ::
    "region_env \<Rightarrow> addr \<Rightarrow> byte list \<Rightarrow> nat \<Rightarrow> u32 \<Rightarrow> mm_world \<Rightarrow> (vptr \<times> mm_world) option" where
  "do_create_memory_region E context name sz flags w =
     (let start = (if flags AND REGION_KERNEL \<noteq> 0 then FIRST_KERNEL_ADDRESS
                   else if flags AND REGION_STACK \<noteq> 0 then FIRST_USER_STACK_ADDRESS
                   else if flags AND REGION_CALL_FROM_USERSPACE \<noteq> 0 then FIRST_USER_REGION_ADDRESS
                   else FIRST_USER_ADDRESS);
          end_addr = (if flags AND REGION_KERNEL \<noteq> 0 then LAST_KERNEL_ADDRESS else LAST_USER_ADDRESS)
      in do {
        address \<leftarrow> memory_context_find_unmapped_region context start end_addr (u32_of sz) w;
        case address of
          None \<Rightarrow> Some (None, w)
        | Some a \<Rightarrow> Some (memory_region_allocate E (Some context) name a sz flags w) })"

definition do_create_memory_region_at ::
    "region_env \<Rightarrow> addr \<Rightarrow> byte list \<Rightarrow> nat \<Rightarrow> nat \<Rightarrow> u32 \<Rightarrow> mm_world \<Rightarrow> (vptr \<times> mm_world) option" where
  "do_create_memory_region_at E context name address sz flags w = do {
     dummy \<leftarrow> memory_context_find_unmapped_region context address
                (u32_of (last_addr address sz)) (u32_of sz) w;
     case dummy of
       None \<Rightarrow> Some (None, w)
     | Some _ \<Rightarrow> Some (memory_region_allocate E (Some context) name address sz flags w) }"

definition memory_region_create ::
    "region_env \<Rightarrow> addr \<Rightarrow> byte list \<Rightarrow> nat \<Rightarrow> u32 \<Rightarrow> mm_world \<Rightarrow> (vptr \<times> mm_world) option" where
  "memory_region_create E process name sz flags w =
     (let flags = flags AND REGION_USER_FLAGS;
          context = (if flags AND REGION_KERNEL \<noteq> 0 then env_kernel E else w_memory_context w process)
      in do {
        (region, w) \<leftarrow> do_create_memory_region E context name sz flags w;
        case region of
          None \<Rightarrow> Some (None, w)
        | Some a \<Rightarrow> do {
            (_, w) \<leftarrow> memory_context_insert_region E context a w;
            ctx \<leftarrow> w_contexts w context;
            r \<leftarrow> w_regions w a;
            let p = c_process ctx;
            Some (Some a, w\<lparr> w_vmem_size := (w_vmem_size w)(p := u64_of (w_vmem_size w p + r_size r)) \<rparr>) } })"

definition do_memory_region_remap_pages ::
    "addr \<Rightarrow> u32 \<Rightarrow> mm_world \<Rightarrow> ((errno + unit) \<times> mm_world) option" where
  "do_memory_region_remap_pages region physical_address w = do {
     r \<leftarrow> w_regions w region;
     if r_flags r AND REGION_MAPPING_FLAGS \<noteq> 0 then Some (Inl EINVAL, w)
     else do {
       dir \<leftarrow> dir_of w (r_context r);
       (error, w) \<leftarrow> on_mmu (arch_memory_region_remap_pages dir r physical_address) w;
       w \<leftarrow> (case error of
               Inl _ \<Rightarrow> Some w
             | Inr _ \<Rightarrow> upd_region region (\<lambda>r. r\<lparr> r_flags := r_flags r OR REGION_REMAPPED \<rparr>) w);
       Some (error, w) } }"

definition memory_region_remap_pages ::
    "addr \<Rightarrow> u32 \<Rightarrow> mm_world \<Rightarrow> ((errno + unit) \<times> mm_world) option" where
  "memory_region_remap_pages = do_memory_region_remap_pages"

definition do_memory_region_alloc_pages :: "addr \<Rightarrow> mm_world \<Rightarrow> ((errno + unit) \<times> mm_world) option" where
  "do_memory_region_alloc_pages region w = do {
     r \<leftarrow> w_regions w region;
     if r_flags r AND REGION_MAPPING_FLAGS \<noteq> 0 then Some (Inl EINVAL, w)
     else do {
       dir \<leftarrow> dir_of w (r_context r);
       (error, w) \<leftarrow> on_mmu (arch_memory_region_alloc_pages dir r (r_address r) (r_size r)) w;
       w \<leftarrow> (case error of
               Inl _ \<Rightarrow> Some w
             | Inr _ \<Rightarrow> upd_region region (\<lambda>r. r\<lparr> r_flags := r_flags r OR REGION_ALLOCATED \<rparr>) w);
       Some (error, w) } }"

definition memory_region_alloc_pages :: "addr \<Rightarrow> mm_world \<Rightarrow> ((errno + unit) \<times> mm_world) option" where
  "memory_region_alloc_pages = do_memory_region_alloc_pages"

text \<open>\<open>file\<close> is the answer of \<^verbatim>\<open>io_context_get_file\<close>, which counts the reference the region keeps.\<close>

definition memory_region_map_to_file ::
    "addr \<Rightarrow> vptr \<Rightarrow> int \<Rightarrow> nat \<Rightarrow> mm_world \<Rightarrow> ((errno + unit) \<times> mm_world) option" where
  "memory_region_map_to_file region file offset len w =
     (case file of
        None \<Rightarrow> Some (Inl EINVAL, w)
      | Some f \<Rightarrow>
          let w = w\<lparr> w_files := (w_files w)(f := w_files w f + 1) \<rparr> in
          if \<not> w_files w f \<ge> 2 then None
          else do {
            r \<leftarrow> w_regions w region;
            if r_flags r AND REGION_MAPPING_FLAGS \<noteq> 0
            then Some (Inl EINVAL, w\<lparr> w_files := (w_files w)(f := w_files w f - 1) \<rparr>)
            else do {
              w \<leftarrow> upd_region region (\<lambda>r. r\<lparr> r_flags := r_flags r OR REGION_ALLOCATED, r_file := Some f,
                     r_file_offset := offset, r_file_size := len \<rparr>) w;
              Some (Inr (), w) } })"

definition memory_region_resize ::
    "addr \<Rightarrow> nat \<Rightarrow> mm_world \<Rightarrow> ((errno + unit) \<times> mm_world) option" where
  "memory_region_resize region new_size w = do {
     r \<leftarrow> w_regions w region;
     context \<leftarrow> r_context r;
     if new_size < r_size r then do {
       w \<leftarrow> unmap_pages region (u32_of (r_address r + new_size)) (r_size r - new_size) w;
       w \<leftarrow> upd_region region (\<lambda>r. r\<lparr> r_size := new_size \<rparr>) w;
       Some (Inr (), w) }
     else if new_size > r_size r then do {
       can \<leftarrow> memory_context_can_resize_region context region new_size w;
       if \<not> can then Some (Inl ENOSPC, w)
       else do {
         dir \<leftarrow> dir_of w (Some context);
         (ret, w) \<leftarrow> (if r_flags r AND REGION_MAPPING_FLAGS = REGION_ALLOCATED
           then on_mmu (arch_memory_region_alloc_pages dir r (u32_of (r_address r + r_size r))
                  (new_size - r_size r)) w
           else Some (Inr (), w));
         case ret of
           Inl e \<Rightarrow> Some (Inl e, w)
         | Inr _ \<Rightarrow> do {
             w \<leftarrow> upd_region region (\<lambda>r. r\<lparr> r_size := new_size \<rparr>) w;
             Some (Inr (), w) } } }
     else Some (Inr (), w) }"

section \<open>Cloning and deleting the regions of a context\<close>

function clone_regions_loop ::
    "region_env \<Rightarrow> addr \<Rightarrow> addr \<Rightarrow> int \<Rightarrow> int \<Rightarrow> mm_world \<Rightarrow> (bool \<times> mm_world) option" where
  "clone_regions_loop E old_context new_context i region_count w =
     (if i < region_count then do {
        ctx \<leftarrow> w_contexts w old_context;
        x \<leftarrow> array_get_item (c_regions ctx) i;
        old_region \<leftarrow> region_at w x;
        if r_flags old_region AND REGION_KERNEL \<noteq> 0
        then clone_regions_loop E old_context new_context (i + 1) region_count w
        else case memory_region_allocate E (Some new_context) (r_name old_region) (r_address old_region)
               (r_size old_region) (r_flags old_region) w of
          (None, w) \<Rightarrow> Some (False, w)
        | (Some a, w) \<Rightarrow> do {
            w \<leftarrow> upd_region a (\<lambda>r. r\<lparr> r_file := r_file old_region, r_file_offset := r_file_offset old_region,
                   r_file_size := r_file_size old_region \<rparr>) w;
            let w = (case r_file old_region of None \<Rightarrow> w
                     | Some f \<Rightarrow> w\<lparr> w_files := (w_files w)(f := w_files w f + 1) \<rparr>);
            new_region \<leftarrow> w_regions w a;
            old_dir \<leftarrow> dir_of w (Some old_context);
            new_dir \<leftarrow> dir_of w (Some new_context);
            (error, w) \<leftarrow> on_mmu (arch_memory_region_clone_pages old_dir new_dir old_region new_region) w;
            case error of
              Inl _ \<Rightarrow> Some (False, w)
            | Inr _ \<Rightarrow> do {
                (error, w) \<leftarrow> memory_context_insert_region E new_context a w;
                case error of
                  Inl _ \<Rightarrow> Some (False, w)
                | Inr _ \<Rightarrow> clone_regions_loop E old_context new_context (i + 1) region_count w } } }
      else Some (True, w))"
  by pat_completeness auto
termination
  by (relation "measure (\<lambda>(E, old_context, new_context, i, region_count, w). nat (region_count - i))") auto

declare clone_regions_loop.simps [simp del]

text \<open>On an error in the loop nothing is cleaned up. \<open>new_process\<close> is the process of the new context.\<close>

definition memory_context_clone ::
    "region_env \<Rightarrow> addr \<Rightarrow> addr \<Rightarrow> mm_world \<Rightarrow> (vptr \<times> mm_world) option" where
  "memory_context_clone E old_context new_process w =
     (case env_new E w of
        None \<Rightarrow> Some (None, w)
      | Some new_context \<Rightarrow>
        (case memory_context_init E new_context w of
           (Inl _, w) \<Rightarrow> Some (None, w\<lparr> w_contexts := (w_contexts w)(new_context := None) \<rparr>)
         | (Inr _, w) \<Rightarrow> do {
             ctx \<leftarrow> w_contexts w new_context;
             (dir, m) \<leftarrow> arch_memory_context_init (w_mmu w);
             let ctx = ctx\<lparr> c_process := new_process \<rparr>;
             let w = w\<lparr> w_mmu := m, w_contexts := (w_contexts w)(new_context \<mapsto> ctx) \<rparr>;
             case dir of
               Inl _ \<Rightarrow> do { w \<leftarrow> memory_context_destroy new_context w; Some (None, w) }
             | Inr dir \<Rightarrow> do {
                 let w = w\<lparr> w_contexts := (w_contexts w)(new_context \<mapsto> ctx\<lparr> c_arch_data := Some dir \<rparr>) \<rparr>;
                 old_dir \<leftarrow> dir_of w (Some old_context);
                 m \<leftarrow> arch_memory_context_clone old_dir dir (w_mmu w);
                 let w = w\<lparr> w_mmu := m \<rparr>;
                 old_ctx \<leftarrow> w_contexts w old_context;
                 (ok, w) \<leftarrow> clone_regions_loop E old_context new_context 0
                    (array_get_size (c_regions old_ctx)) w;
                 Some (if ok then (Some new_context,
                         w\<lparr> w_vmem_size := (w_vmem_size w)(new_process := w_vmem_size w (c_process old_ctx)) \<rparr>)
                       else (None, w)) } }))"

text \<open>The two loops over the regions of \<open>memory_context_delete_regions\<close>, on the pointers of the array.\<close>

primrec remove_ids :: "vptr list \<Rightarrow> mm_world \<Rightarrow> mm_world option" where
  "remove_ids [] w = Some w"
| "remove_ids (x # xs) w = do {
     r \<leftarrow> region_at w x;
     if \<not> (r_ref_count r = 1 \<and> r_flags r AND REGION_KERNEL = 0) then None
     else remove_ids xs (if r_id r \<noteq> - 1 then w\<lparr> region_table := (region_table w)(r_id r := None) \<rparr> else w) }"

primrec destroy_regions :: "vptr list \<Rightarrow> mm_world \<Rightarrow> mm_world option" where
  "destroy_regions [] w = Some w"
| "destroy_regions (x # xs) w = do {
     a \<leftarrow> x;
     r \<leftarrow> w_regions w a;
     w \<leftarrow> unmap_pages a (r_address r) (r_size r) w;
     w \<leftarrow> memory_region_destroy a w;
     destroy_regions xs w }"

definition memory_context_delete_regions :: "addr \<Rightarrow> mm_world \<Rightarrow> mm_world option" where
  "memory_context_delete_regions context w = do {
     ctx \<leftarrow> w_contexts w context;
     let ps = take (nat (array_get_size (c_regions ctx))) (array_cells (c_regions ctx));
     w \<leftarrow> remove_ids ps w;
     w \<leftarrow> destroy_regions ps w;
     arr \<leftarrow> array_make_empty (c_regions ctx);
     Some (w\<lparr> w_contexts := (w_contexts w)(context \<mapsto> ctx\<lparr> c_regions := arr \<rparr>),
              w_vmem_size := (w_vmem_size w)(c_process ctx := 0) \<rparr>) }"

section \<open>System calls\<close>

definition sys_memory_region_create ::
    "region_env \<Rightarrow> addr \<Rightarrow> byte list \<Rightarrow> nat \<Rightarrow> u32 \<Rightarrow> mm_world \<Rightarrow> ((errno + int \<times> nat) \<times> mm_world) option" where
  "sys_memory_region_create E process name sz flags w =
     (let flags = flags AND REGION_USER_FLAGS AND NOT REGION_KERNEL in do {
        (region, w) \<leftarrow> memory_region_create E process name sz (flags OR REGION_CALL_FROM_USERSPACE) w;
        case region of
          None \<Rightarrow> Some (Inl ENOMEM, w)
        | Some a \<Rightarrow> do {
            w \<leftarrow> memory_region_insert_global a w;
            r \<leftarrow> w_regions w a;
            Some (Inr (r_id r, r_address r), w) } })"

definition sys_memory_region_delete :: "int \<Rightarrow> mm_world \<Rightarrow> ((errno + unit) \<times> mm_world) option" where
  "sys_memory_region_delete ident w = do {
     (region, w) \<leftarrow> memory_region_get ident w;
     case region of
       None \<Rightarrow> Some (Inl EINVAL, w)
     | Some a \<Rightarrow> do { w \<leftarrow> do_memory_region_put_times a 2 w; Some (Inr (), w) } }"

definition sys_memory_region_remap_pages :: "int \<Rightarrow> u32 \<Rightarrow> mm_world \<Rightarrow> ((errno + unit) \<times> mm_world) option" where
  "sys_memory_region_remap_pages ident physical w = do {
     (region, w) \<leftarrow> memory_region_get ident w;
     case region of
       None \<Rightarrow> Some (Inl EINVAL, w)
     | Some a \<Rightarrow> do {
         (error, w) \<leftarrow> memory_region_remap_pages a physical w;
         w \<leftarrow> memory_region_put a w;
         Some (error, w) } }"

definition sys_memory_region_alloc_pages :: "int \<Rightarrow> mm_world \<Rightarrow> ((errno + unit) \<times> mm_world) option" where
  "sys_memory_region_alloc_pages ident w = do {
     (region, w) \<leftarrow> memory_region_get ident w;
     case region of
       None \<Rightarrow> Some (Inl EINVAL, w)
     | Some a \<Rightarrow> do {
         (error, w) \<leftarrow> memory_region_alloc_pages a w;
         w \<leftarrow> memory_region_put a w;
         Some (error, w) } }"

definition sys_memory_region_clone_pages ::
    "region_env \<Rightarrow> addr \<Rightarrow> int \<Rightarrow> mm_world \<Rightarrow> ((errno + int \<times> nat) \<times> mm_world) option" where
  "sys_memory_region_clone_pages E process ident w = do {
     (region, w) \<leftarrow> memory_region_get ident w;
     case region of
       None \<Rightarrow> Some (Inl EINVAL, w)
     | Some old \<Rightarrow> do {
         old_region \<leftarrow> w_regions w old;
         (error, w) \<leftarrow>
           (if r_flags old_region AND REGION_MAPPING_FLAGS \<noteq> REGION_ALLOCATED then Some (Inl EINVAL, w)
            else do {
              (region, w) \<leftarrow> memory_region_create E process (r_name old_region) (r_size old_region)
                 (r_flags old_region AND REGION_USER_FLAGS) w;
              case region of
                None \<Rightarrow> Some (Inl ENOMEM, w)
              | Some new \<Rightarrow> do {
                  w \<leftarrow> upd_region new (\<lambda>r. r\<lparr> r_flags := r_flags r OR REGION_CLONED \<rparr>) w;
                  new_region \<leftarrow> w_regions w new;
                  old_region \<leftarrow> w_regions w old;
                  old_dir \<leftarrow> dir_of w (r_context old_region);
                  new_dir \<leftarrow> dir_of w (r_context new_region);
                  (error, w) \<leftarrow> on_mmu (arch_memory_region_clone_pages old_dir new_dir old_region new_region) w;
                  case error of
                    Inl e \<Rightarrow> do { w \<leftarrow> memory_region_put new w; Some (Inl e, w) }
                  | Inr _ \<Rightarrow> do {
                      w \<leftarrow> memory_region_insert_global new w;
                      r \<leftarrow> w_regions w new;
                      Some (Inr (r_id r, r_address r), w) } } });
         w \<leftarrow> memory_region_put old w;
         Some (error, w) } }"

text \<open>\<open>Inl\<close> is the result \<^verbatim>\<open>( void* )-1\<close>. \<^verbatim>\<open>PAGE_ALIGN\<close> rounds the \<^verbatim>\<open>int\<close> increment in unsigned arithmetic and
  the result is stored as an \<^verbatim>\<open>int\<close> again: when it is used as a 64-bit size, rounding up to \<open>2 ^ 31\<close> has
  become negative. A negative increment that rounds to \<open>2 ^ 31\<close> cannot be negated.\<close>

definition sbrk_round :: "int \<Rightarrow> nat" where
  "sbrk_round n = u32_of (nat n + PAGE_SIZE - 1) div PAGE_SIZE * PAGE_SIZE"

definition int_to_u64 :: "nat \<Rightarrow> nat" where
  "int_to_u64 n = (if n \<ge> 2147483648 then n + 18446744069414584320 else n)"

definition sys_sbrk :: "region_env \<Rightarrow> addr \<Rightarrow> int \<Rightarrow> mm_world \<Rightarrow> ((unit + nat) \<times> mm_world) option" where
  "sys_sbrk E process increment w =
     (if increment = 0 then
        case w_heap_region w process of
          None \<Rightarrow> do {
            a \<leftarrow> memory_context_find_unmapped_region (w_memory_context w process)
                   FIRST_USER_ADDRESS LAST_USER_ADDRESS PAGE_SIZE w;
            Some (case a of None \<Rightarrow> Inl () | Some a \<Rightarrow> Inr a, w) }
        | Some h \<Rightarrow> do { r \<leftarrow> w_regions w h; Some (Inr (r_address r), w) }
      else if increment < 0 then
        case w_heap_region w process of
          None \<Rightarrow> Some (Inl (), w)
        | Some h \<Rightarrow> do {
            r \<leftarrow> w_regions w h;
            let n = sbrk_round (- increment);
            let pbreak = Inr (u32_of (r_address r + u32_of (r_size r)));
            if n \<ge> 2147483648 then None
            else if n = r_size r then do {
              w \<leftarrow> memory_region_put h w;
              Some (pbreak, w\<lparr> w_heap_region := (w_heap_region w)(process := None) \<rparr>) }
            else if n < r_size r then do {
              (e, w) \<leftarrow> memory_region_resize h (r_size r - n) w;
              Some (case e of Inl _ \<Rightarrow> Inl () | Inr _ \<Rightarrow> pbreak, w) }
            else Some (pbreak, w) }
      else
        let n = int_to_u64 (sbrk_round increment) in
        case w_heap_region w process of
          None \<Rightarrow> do {
            (region, w) \<leftarrow> memory_region_create E process [104, 101, 97, 112] n (REGION_READ OR REGION_WRITE) w;
            let w = w\<lparr> w_heap_region := (w_heap_region w)(process := region) \<rparr>;
            case region of
              None \<Rightarrow> Some (Inl (), w)
            | Some h \<Rightarrow> do {
                (e, w) \<leftarrow> memory_region_alloc_pages h w;
                case e of
                  Inl _ \<Rightarrow> Some (Inl (), w)
                | Inr _ \<Rightarrow> do { r \<leftarrow> w_regions w h; Some (Inr (r_address r), w) } } }
        | Some h \<Rightarrow> do {
            r \<leftarrow> w_regions w h;
            (e, w) \<leftarrow> memory_region_resize h (u64_of (r_size r + n)) w;
            Some (case e of Inl _ \<Rightarrow> Inl ()
                  | Inr _ \<Rightarrow> Inr (u32_of (r_address r + u32_of (r_size r))), w) })"

end
