(* ===== verification/Kernel_Region_Safety.thy ===== *)
theory Kernel_Region_Safety
  imports Kernel_Region
begin

unbundle bit_operations_syntax

text \<open>
  The layout of an address space: the regions of a context in the order of its array, the search for a
  free range as first fit over them, the test for growing a region, and creating and deleting regions.
\<close>

section \<open>Layout\<close>

text \<open>Regions in address order, not empty, disjoint, and below the last byte of the 4 GB.\<close>

primrec layout :: "nat \<Rightarrow> memory_region_t list \<Rightarrow> bool" where
  "layout lo [] = (lo < 4294967296)"
| "layout lo (r # rs) = (lo \<le> r_address r \<and> 0 < r_size r \<and> layout (r_address r + r_size r) rs)"

definition span :: "memory_region_t \<Rightarrow> nat set" where
  "span r = {r_address r ..< r_address r + r_size r}"

text \<open>\<open>ctx_rel w c xs rs\<close>: the context \<open>c\<close> holds pointers to the objects \<open>xs\<close>, which are the regions \<open>rs\<close>.\<close>

definition ctx_rel :: "mm_world \<Rightarrow> addr \<Rightarrow> addr list \<Rightarrow> memory_region_t list \<Rightarrow> bool" where
  "ctx_rel w c xs rs \<longleftrightarrow> (\<exists>ctx. w_contexts w c = Some ctx \<and> array_inv (c_regions ctx) \<and>
     array_list (c_regions ctx) = map Some xs) \<and> map (w_regions w) xs = map Some rs \<and> layout 0 rs"

lemma layout_mono: "layout lo rs \<Longrightarrow> lo' \<le> lo \<Longrightarrow> layout lo' rs"
  by (cases rs) auto

lemma layout_bound: "layout lo rs \<Longrightarrow> lo < 4294967296"
proof (induction rs arbitrary: lo)
  case (Cons r rs)
  then have "r_address r + r_size r < 4294967296" by simp
  then show ?case using Cons.prems by simp
qed simp

lemma layout_from: "layout lo rs \<Longrightarrow> r \<in> set rs \<Longrightarrow> lo \<le> r_address r \<and> 0 < r_size r \<and> r_address r + r_size r < 4294967296"
proof (induction rs arbitrary: lo)
  case (Cons x rs)
  show ?case
  proof (cases "r = x")
    case True
    then show ?thesis using Cons.prems layout_bound by auto
  next
    case False
    then have "r_address x + r_size x \<le> r_address r \<and> 0 < r_size r \<and> r_address r + r_size r < 4294967296"
      using Cons.IH [of "r_address x + r_size x"] Cons.prems by auto
    then show ?thesis using Cons.prems(1) by auto
  qed
qed simp

lemma layout_append:
  "layout lo (rs @ ss) \<longleftrightarrow> (\<exists>mid. layout lo rs \<and> layout mid ss \<and> (\<forall>r \<in> set rs. r_address r + r_size r \<le> mid) \<and>
     lo \<le> mid)"
proof (induction rs arbitrary: lo)
  case Nil
  then show ?case using layout_mono layout_bound by auto
next
  case (Cons r rs)
  show ?case
  proof
    assume "layout lo ((r # rs) @ ss)"
    with Cons obtain mid where "lo \<le> r_address r" "0 < r_size r" "layout (r_address r + r_size r) rs"
      "layout mid ss" "\<forall>r \<in> set rs. r_address r + r_size r \<le> mid" "r_address r + r_size r \<le> mid" by auto
    then show "\<exists>mid. layout lo (r # rs) \<and> layout mid ss \<and>
        (\<forall>r \<in> set (r # rs). r_address r + r_size r \<le> mid) \<and> lo \<le> mid"
      by (intro exI [of _ mid]) auto
  next
    assume "\<exists>mid. layout lo (r # rs) \<and> layout mid ss \<and>
        (\<forall>r \<in> set (r # rs). r_address r + r_size r \<le> mid) \<and> lo \<le> mid"
    then show "layout lo ((r # rs) @ ss)" using Cons by auto
  qed
qed

text \<open>The regions of a layout are disjoint.\<close>

lemma layout_disjoint:
  "layout lo rs \<Longrightarrow> i < length rs \<Longrightarrow> j < length rs \<Longrightarrow> i \<noteq> j \<Longrightarrow> span (rs ! i) \<inter> span (rs ! j) = {}"
proof (induction rs arbitrary: lo i j)
  case (Cons r rs)
  have r: "span r \<inter> span (rs ! k) = {}" if "k < length rs" for k
    using layout_from [of "r_address r + r_size r" rs "rs ! k"] Cons.prems(1) that by (auto simp: span_def)
  show ?case
  proof (cases "i = 0 \<or> j = 0")
    case True
    then show ?thesis using r Cons.prems(2-4) by (cases i; cases j) (auto simp: Int_commute)
  next
    case False
    then obtain i' j' where "i = Suc i'" "j = Suc j'" by (metis not0_implies_Suc)
    then show ?thesis using Cons.IH [of _ i' j'] Cons.prems by auto
  qed
qed simp

section \<open>Reading the array of a context\<close>

lemmas array_get = pointer_array.item_law [OF array_client [OF allocator_eager [of None]]]
lemmas array_size = pointer_array.size_law [OF array_client [OF allocator_eager [of None]]]
lemmas array_scan_eq = pointer_array.scan_eq [OF array_client [OF allocator_eager [of None]]]

lemma ctx_rel_ctx: "ctx_rel w c xs rs \<Longrightarrow> \<exists>ctx. w_contexts w c = Some ctx"
  by (auto simp: ctx_rel_def)

lemma ctx_relD:
  assumes "ctx_rel w c xs rs" and "w_contexts w c = Some ctx"
  shows "array_inv (c_regions ctx)" "array_list (c_regions ctx) = map Some xs" "length rs = length xs" "layout 0 rs"
    "i < length xs \<Longrightarrow> w_regions w (xs ! i) = Some (rs ! i)"
    "array_get_size (c_regions ctx) = int (length xs)"
    "i < length xs \<Longrightarrow> array_get_item (c_regions ctx) (int i) = Some (Some (xs ! i))"
proof -
  show c: "array_inv (c_regions ctx)" "array_list (c_regions ctx) = map Some xs" "layout 0 rs"
    using assms by (auto simp: ctx_rel_def)
  have m: "map (w_regions w) xs = map Some rs" using assms(1) by (simp add: ctx_rel_def)
  show len: "length rs = length xs" using m by (metis length_map)
  show "w_regions w (xs ! i) = Some (rs ! i)" if "i < length xs"
    using arg_cong [OF m, of "\<lambda>l. l ! i"] that len by simp
  show "array_get_size (c_regions ctx) = int (length xs)" using array_size [OF c(1)] c(2) by simp
  show "array_get_item (c_regions ctx) (int i) = Some (Some (xs ! i))" if "i < length xs"
    using array_get [OF c(1), of i] c(2) that by simp
qed

section \<open>The search for a free range\<close>

primrec first_gap :: "nat \<Rightarrow> nat \<Rightarrow> memory_region_t list \<Rightarrow> nat + nat" where
  "first_gap sz start [] = Inr start"
| "first_gap sz start (r # rs) = (if u32_of (start + sz) \<le> r_address r then Inl start
     else first_gap sz (u32_of (max start (u64_of (r_address r + r_size r)))) rs)"

lemma unmapped_loop_list:
  assumes "ctx_rel w c xs rs" and ctx: "w_contexts w c = Some ctx" and "i \<le> length xs"
  shows "unmapped_loop (array_get_item (c_regions ctx)) w sz (int i) (array_get_size (c_regions ctx)) start =
    Some (first_gap sz start (drop i rs))"
  using assms(3)
proof (induction "length xs - i" arbitrary: i start)
  case 0
  then show ?case using ctx_relD [OF assms(1) ctx] by (simp add: unmapped_loop.simps)
next
  case (Suc n)
  then have i: "i < length xs" by simp
  note c = ctx_relD [OF assms(1) ctx]
  have d: "drop i rs = rs ! i # drop (Suc i) rs" using i c(3) by (simp add: Cons_nth_drop_Suc)
  have IH: "unmapped_loop (array_get_item (c_regions ctx)) w sz (int i + 1) (int (length xs)) s =
      Some (first_gap sz s (drop (Suc i) rs))" for s
    using Suc.hyps(1) [of "Suc i" s] Suc.hyps(2) i c(6) by (simp add: add.commute)
  show ?case using i c(5) [OF i] c(6) c(7) [OF i]
    by (subst unmapped_loop.simps) (simp add: d region_at_def IH)
qed

lemma find_unmapped_list:
  assumes "ctx_rel w c xs rs"
  shows "memory_context_find_unmapped_region c start end_addr sz w =
    Some (case first_gap sz start rs of Inl a \<Rightarrow> Some a
          | Inr s \<Rightarrow> if u32_of (s + sz + 4294967295) \<le> end_addr then Some s else None)"
proof -
  obtain ctx where ctx: "w_contexts w c = Some ctx" using ctx_rel_ctx [OF assms] ..
  show ?thesis using unmapped_loop_list [OF assms ctx, of 0 sz start] ctx
    by (simp add: memory_context_find_unmapped_region_def split: sum.splits)
qed

text \<open>Without wrap-around: \<open>hi\<close> bounds the end of every region and \<open>hi + sz\<close> fits in 32 bits.\<close>

lemma first_gap_spec:
  assumes "layout lo rs" and "\<forall>r \<in> set rs. r_address r + r_size r \<le> hi" and "start \<le> hi"
    and "hi + sz < 4294967296"
  shows "case first_gap sz start rs of
      Inl a \<Rightarrow> start \<le> a \<and> a \<le> hi \<and> (\<forall>r \<in> set rs. r_address r + r_size r \<le> a \<or> a + sz \<le> r_address r) \<and>
        (\<exists>r \<in> set rs. a + sz \<le> r_address r) \<and>
        (\<forall>a'. start \<le> a' \<and> (\<forall>r \<in> set rs. r_address r + r_size r \<le> a' \<or> a' + sz \<le> r_address r) \<longrightarrow> a \<le> a')
    | Inr a \<Rightarrow> start \<le> a \<and> a \<le> hi \<and> (\<forall>r \<in> set rs. r_address r + r_size r \<le> a) \<and>
        (\<forall>a'. start \<le> a' \<and> (\<forall>r \<in> set rs. r_address r + r_size r \<le> a' \<or> a' + sz \<le> r_address r) \<longrightarrow> a \<le> a')"
  using assms
proof (induction rs arbitrary: lo start)
  case (Cons r rs)
  have e: "r_address r + r_size r < 4294967296" using layout_from [OF Cons.prems(1), of r] by simp
  have later: "r_address r + r_size r \<le> r_address x" if "x \<in> set rs" for x
    using layout_from [of "r_address r + r_size r" rs x] Cons.prems(1) that by simp
  show ?case
  proof (cases "start + sz \<le> r_address r")
    case True
    moreover have "start + sz \<le> r_address x" if "x \<in> set rs" for x using later [OF that] True by simp
    ultimately show ?thesis using Cons.prems by auto
  next
    case False
    let ?s = "max start (r_address r + r_size r)"
    have s: "?s \<le> hi" "?s < 4294967296" using Cons.prems e by auto
    have eq: "first_gap sz start (r # rs) = first_gap sz ?s rs"
      using False Cons.prems(3,4) e s(2) by simp
    have gap: "?s \<le> a'" if "start \<le> a'" "r_address r + r_size r \<le> a' \<or> a' + sz \<le> r_address r" for a'
      using that False by auto
    have IH: "case first_gap sz ?s rs of
      Inl a \<Rightarrow> ?s \<le> a \<and> a \<le> hi \<and> (\<forall>r \<in> set rs. r_address r + r_size r \<le> a \<or> a + sz \<le> r_address r) \<and>
        (\<exists>r \<in> set rs. a + sz \<le> r_address r) \<and>
        (\<forall>a'. ?s \<le> a' \<and> (\<forall>r \<in> set rs. r_address r + r_size r \<le> a' \<or> a' + sz \<le> r_address r) \<longrightarrow> a \<le> a')
    | Inr a \<Rightarrow> ?s \<le> a \<and> a \<le> hi \<and> (\<forall>r \<in> set rs. r_address r + r_size r \<le> a) \<and>
        (\<forall>a'. ?s \<le> a' \<and> (\<forall>r \<in> set rs. r_address r + r_size r \<le> a' \<or> a' + sz \<le> r_address r) \<longrightarrow> a \<le> a')"
      using Cons.IH [of "r_address r + r_size r" ?s] Cons.prems s(1) by auto
    show ?thesis
    proof (cases "first_gap sz ?s rs")
      case (Inl a)
      then show ?thesis using IH gap unfolding eq by auto
    next
      case (Inr a)
      then show ?thesis using IH gap unfolding eq by auto
    qed
  qed
qed auto

definition free_range :: "memory_region_t list \<Rightarrow> nat \<Rightarrow> nat \<Rightarrow> bool" where
  "free_range rs a sz \<longleftrightarrow> (\<forall>r \<in> set rs. {a ..< a + sz} \<inter> span r = {})"

lemma free_range_iff:
  assumes "layout lo rs" and "0 < sz"
  shows "free_range rs a sz \<longleftrightarrow> (\<forall>r \<in> set rs. r_address r + r_size r \<le> a \<or> a + sz \<le> r_address r)"
proof -
  have "{a ..< a + sz} \<inter> span r = {} \<longleftrightarrow> r_address r + r_size r \<le> a \<or> a + sz \<le> r_address r" if "r \<in> set rs" for r
    using layout_from [OF assms(1) that] assms(2) by (auto simp: span_def)
  then show ?thesis by (simp add: free_range_def)
qed

text \<open>C29: the search for an unmapped range is first fit. As long as the end of the last region plus the
  size does not leave the 32-bit address space, it returns the lowest address from the start on at which
  the whole range lies outside every region of the context; when it reports failure, every such range
  ends behind the last allowed address. (A range found in front of a region is not compared with the last
  allowed address.)\<close>

theorem find_unmapped_region_first_fit:
  assumes rel: "ctx_rel w c xs rs" and "0 < sz" and "start \<le> hi"
    and "\<forall>r \<in> set rs. r_address r + r_size r \<le> hi" and "hi + sz < 4294967296"
  shows "case memory_context_find_unmapped_region c start end_addr sz w of
      None \<Rightarrow> False
    | Some None \<Rightarrow> \<forall>a. start \<le> a \<and> free_range rs a sz \<longrightarrow> end_addr < a + sz - 1
    | Some (Some a) \<Rightarrow> start \<le> a \<and> free_range rs a sz \<and> (\<forall>a'. start \<le> a' \<and> free_range rs a' sz \<longrightarrow> a \<le> a') \<and>
        (a + sz - 1 \<le> end_addr \<or> (\<exists>r \<in> set rs. a + sz \<le> r_address r))"
proof -
  have lay: "layout 0 rs" using rel by (simp add: ctx_rel_def)
  note spec = first_gap_spec [OF lay assms(4,3,5)] and free = free_range_iff [OF lay assms(2)]
  show ?thesis
  proof (cases "first_gap sz start rs")
    case (Inl a)
    then show ?thesis using spec unfolding find_unmapped_list [OF rel] free by simp
  next
    case (Inr a)
    have "a + sz + 4294967295 = a + sz - 1 + 4294967296" using assms(2) by simp
    then have "u32_of (a + sz + 4294967295) = (a + sz - 1 + 4294967296) mod 4294967296" by (rule arg_cong)
    also have "\<dots> = u32_of (a + sz - 1)" by (rule mod_add_self2)
    also have "\<dots> = a + sz - 1"
    proof (rule mod_less)
      have "a \<le> hi" using spec Inr by simp
      then show "a + sz - 1 < 4294967296" using assms(5) by linarith
    qed
    finally show ?thesis using spec Inr assms(2) unfolding find_unmapped_list [OF rel] free
      by (auto intro: less_le_trans)
  qed
qed

section \<open>Inserting a region\<close>

lemma layout_insert:
  assumes "layout lo rs" and "lo \<le> r_address r" and "0 < r_size r" and "r_address r + r_size r < 4294967296"
    and "\<forall>x \<in> set rs. r_address x + r_size x \<le> r_address r \<or> r_address r + r_size r \<le> r_address x"
  shows "layout lo (takeWhile (\<lambda>x. \<not> r_address r < r_address x) rs @ r #
    dropWhile (\<lambda>x. \<not> r_address r < r_address x) rs)"
  using assms
proof (induction rs arbitrary: lo)
  case (Cons x rs)
  show ?case
  proof (cases "r_address r < r_address x")
    case True
    then have "r_address r + r_size r \<le> r_address x" using Cons.prems(5) by auto
    then show ?thesis using True Cons.prems by simp
  next
    case False
    then have "r_address x + r_size x \<le> r_address r" using Cons.prems(3,5) by auto
    then show ?thesis using False Cons by simp
  qed
qed simp

lemma map_takeWhile_Some:
  assumes "map f xs = map Some rs"
  shows "map f (takeWhile (\<lambda>x. P (the (f x))) xs) = map Some (takeWhile P rs)"
    "map f (dropWhile (\<lambda>x. P (the (f x))) xs) = map Some (dropWhile P rs)"
  using assms
proof (induction xs arbitrary: rs)
  case (Cons x xs)
  {
    case 1
    then show ?case using Cons.IH(1) by (cases rs) auto
  next
    case 2
    then show ?case using Cons.IH(2) by (cases rs) auto
  }
qed simp_all

lemma insert_region_spec:
  assumes km: "allocator (env_km E)" and rel: "ctx_rel w c xs rs" and r: "w_regions w a = Some r"
    and ok: "0 < r_size r" "r_address r + r_size r < 4294967296" "free_range rs (r_address r) (r_size r)"
  shows "\<exists>e w' xs' rs'. memory_context_insert_region E c a w = Some (e, w') \<and> ctx_rel w' c xs' rs' \<and>
    w' = w\<lparr> w_contexts := w_contexts w' \<rparr> \<and> (\<forall>c'. c' \<noteq> c \<longrightarrow> w_contexts w' c' = w_contexts w c') \<and>
    map_option c_process (w_contexts w' c) = map_option c_process (w_contexts w c) \<and>
    map_option c_arch_data (w_contexts w' c) = map_option c_arch_data (w_contexts w c) \<and>
    (e = Inr () \<and> (\<exists>ys zs ps qs. xs = ys @ zs \<and> xs' = ys @ a # zs \<and> rs = ps @ qs \<and> rs' = ps @ r # qs) \<or>
     e = Inl ENOMEM \<and> xs' = xs \<and> rs' = rs)"
proof -
  obtain ctx where ctx: "w_contexts w c = Some ctx" using ctx_rel_ctx [OF rel] ..
  note c = ctx_relD [OF rel ctx]
  have m: "map (w_regions w) xs = map Some rs" using rel by (simp add: ctx_rel_def)
  let ?P = "\<lambda>x. do { tmp \<leftarrow> region_at w x; Some (r_address r < r_address tmp) }"
  let ?p = "\<lambda>x. r_address r < r_address (the (region_at w x))"
  have "?P y = Some (?p y)" if "y \<in> set (array_list (c_regions ctx))" for y
  proof -
    have "y \<in> Some ` set xs" using that c(2) by simp
    then obtain x where "y = Some x" "x \<in> set xs" by blast
    moreover then have "w_regions w x \<in> set (map Some rs)" unfolding m [symmetric] by simp
    ultimately show ?thesis by (auto simp: region_at_def)
  qed
  from pointer_array.scan_insert [OF array_client [OF km] c(1), of ?P ?p "Some a", OF this]
  obtain i e arr where s: "array_scan (array_get_item (c_regions ctx)) ?P 0 (array_get_size (c_regions ctx)) = Some i"
    "array_insert_item (env_km E) (c_regions ctx) i (Some a) = Some (e, arr)" "array_inv arr"
    "e = Inr () \<and> array_list arr = takeWhile (\<lambda>y. \<not> ?p y) (map Some xs) @ Some a # dropWhile (\<lambda>y. \<not> ?p y) (map Some xs) \<or>
     e = Inl ENOMEM \<and> arr = c_regions ctx"
    unfolding c(2) by blast
  let ?w = "w\<lparr> w_contexts := (w_contexts w)(c \<mapsto> ctx\<lparr> c_regions := arr \<rparr>) \<rparr>"
  have run: "memory_context_insert_region E c a w = Some (e, ?w)"
    using s(1,2) ctx r by (simp add: memory_context_insert_region_def)
  let ?q = "\<lambda>x. \<not> r_address r < r_address (the (w_regions w x))"
  let ?t = "takeWhile (\<lambda>x. \<not> r_address r < r_address x) rs" and ?d = "dropWhile (\<lambda>x. \<not> r_address r < r_address x) rs"
  have lay: "layout 0 (?t @ r # ?d)"
    using layout_insert [OF c(4) _ ok(1,2)] ok(3) free_range_iff [OF c(4) ok(1)] by simp
  have tw: "takeWhile (\<lambda>y. \<not> ?p y) (map Some xs) = map Some (takeWhile ?q xs)"
    "dropWhile (\<lambda>y. \<not> ?p y) (map Some xs) = map Some (dropWhile ?q xs)"
    by (simp_all add: takeWhile_map dropWhile_map comp_def region_at_def)
  from s(4) show ?thesis
  proof
    assume e: "e = Inr () \<and> array_list arr =
      takeWhile (\<lambda>y. \<not> ?p y) (map Some xs) @ Some a # dropWhile (\<lambda>y. \<not> ?p y) (map Some xs)"
    have "map (w_regions w) (takeWhile ?q xs @ a # dropWhile ?q xs) = map Some (?t @ r # ?d)"
      using map_takeWhile_Some [OF m, of "\<lambda>x. \<not> r_address r < r_address x"] r by simp
    then have "ctx_rel ?w c (takeWhile ?q xs @ a # dropWhile ?q xs) (?t @ r # ?d)"
      using lay e s(3) by (simp add: ctx_rel_def tw)
    moreover have "\<exists>ys zs ps qs. xs = ys @ zs \<and> takeWhile ?q xs @ a # dropWhile ?q xs = ys @ a # zs \<and>
        rs = ps @ qs \<and> ?t @ r # ?d = ps @ r # qs"
      by (rule exI [of _ "takeWhile ?q xs"], rule exI [of _ "dropWhile ?q xs"], rule exI [of _ ?t],
          rule exI [of _ ?d]) simp
    ultimately show ?thesis using run ctx e
      by (intro exI [of _ e] exI [of _ ?w] exI [of _ "takeWhile ?q xs @ a # dropWhile ?q xs"] exI [of _ "?t @ r # ?d"]) auto
  next
    assume e: "e = Inl ENOMEM \<and> arr = c_regions ctx"
    then have "ctx_rel ?w c xs rs" using rel ctx by (auto simp: ctx_rel_def)
    then show ?thesis using run ctx e
      by (intro exI [of _ e] exI [of _ ?w] exI [of _ xs] exI [of _ rs]) auto
  qed
qed

section \<open>Growing a region\<close>

lemma layout_order:
  "layout lo rs \<Longrightarrow> i < j \<Longrightarrow> j < length rs \<Longrightarrow> r_address (rs ! i) + r_size (rs ! i) \<le> r_address (rs ! j)"
proof (induction rs arbitrary: lo i j)
  case (Cons r rs)
  obtain j' where j: "j = Suc j'" using Cons.prems(2) by (cases j) auto
  show ?case
  proof (cases i)
    case 0
    then show ?thesis using layout_from [of "r_address r + r_size r" rs "rs ! j'"] Cons.prems j by simp
  next
    case (Suc i')
    then show ?thesis using Cons.IH [of "r_address r + r_size r" i' j'] Cons.prems j by simp
  qed
qed simp

lemma ctx_rel_distinct: "ctx_rel w c xs rs \<Longrightarrow> distinct xs"
proof -
  assume rel: "ctx_rel w c xs rs"
  obtain ctx where ctx: "w_contexts w c = Some ctx" using ctx_rel_ctx [OF rel] ..
  note c = ctx_relD [OF rel ctx]
  have "xs ! i \<noteq> xs ! j" if "i < j" "j < length xs" for i j
  proof
    assume "xs ! i = xs ! j"
    then have "rs ! i = rs ! j" using c(5) [of i] c(5) [of j] that by simp
    then show False using layout_order [OF c(4) that(1)] layout_from [OF c(4), of "rs ! j"] that c(3) by simp
  qed
  then show ?thesis by (metis distinct_conv_nth nat_neq_iff)
qed

text \<open>C30: the test before a region is grown looks only at the next region in the array, and this is enough: it
  succeeds exactly when the grown region stays apart from every other region of the context and, for the
  last region, ends inside the part of the address space it belongs to.\<close>

theorem can_resize_region_exact:
  assumes rel: "ctx_rel w c xs rs" and i: "i < length xs" and sz: "r_size (rs ! i) \<le> new_size"
    and fit: "r_address (rs ! i) + new_size \<le> 18446744073709551616"
  defines "limit \<equiv> if r_flags (rs ! i) AND REGION_KERNEL \<noteq> 0 then LAST_KERNEL_ADDRESS else LAST_USER_ADDRESS"
  shows "memory_context_can_resize_region c (xs ! i) new_size w =
    Some ((\<forall>j < length xs. j \<noteq> i \<longrightarrow>
             {r_address (rs ! i) ..< r_address (rs ! i) + new_size} \<inter> span (rs ! j) = {}) \<and>
          (Suc i = length xs \<longrightarrow> r_address (rs ! i) + new_size \<le> limit + 1))"
proof -
  let ?r = "rs ! i" and ?new = "{r_address (rs ! i) ..< r_address (rs ! i) + new_size}"
  obtain ctx where ctx: "w_contexts w c = Some ctx" using ctx_rel_ctx [OF rel] ..
  note c = ctx_relD [OF rel ctx]
  have pos: "0 < r_size (rs ! j)" if "j < length xs" for j using layout_from [OF c(4), of "rs ! j"] that c(3) by simp
  have new: "0 < new_size" using pos [OF i] sz by simp
  have last: "last_addr (r_address ?r) new_size = r_address ?r + new_size - 1" using last_addr_nowrap [OF new fit] .
  obtain k where k: "array_index_of (c_regions ctx) (Some (xs ! i)) = Some (int k)" "k < length xs" "xs ! k = xs ! i"
    using array_index_of_refines [OF c(1), of "Some (xs ! i)"] i unfolding c(2) by auto
  have "k = i" using k(2,3) i ctx_rel_distinct [OF rel] by (simp add: nth_eq_iff_index_eq)
  with k(1) have idx: "array_index_of (c_regions ctx) (Some (xs ! i)) = Some (int i)" by simp
  have before: "?new \<inter> span (rs ! j) = {}" if "j < i" for j
    using layout_order [OF c(4) that] i c(3) by (auto simp: span_def)
  show ?thesis
  proof (cases "Suc i = length xs")
    case True
    then have "\<forall>j < length xs. j \<noteq> i \<longrightarrow> ?new \<inter> span (rs ! j) = {}" using before by (auto simp: less_Suc_eq)
    moreover have "memory_context_can_resize_region c (xs ! i) new_size w =
        Some (r_address ?r + new_size - 1 \<le> limit)"
      using ctx c(5) [OF i] idx c(6) True by (auto simp: memory_context_can_resize_region_def last limit_def)
    moreover have "r_address ?r + new_size - 1 \<le> limit \<longleftrightarrow> r_address ?r + new_size \<le> limit + 1" using new by linarith
    ultimately show ?thesis using True by simp
  next
    case False
    then have n: "Suc i < length xs" using i by simp
    have eq: "memory_context_can_resize_region c (xs ! i) new_size w =
        Some (r_address ?r + new_size - 1 < r_address (rs ! Suc i))"
      using ctx c(5) [OF i] idx c(6) False c(7) [OF n] c(5) [OF n]
      by (auto simp: memory_context_can_resize_region_def last region_at_def add.commute)
    have "r_address ?r + new_size - 1 < r_address (rs ! Suc i) \<longleftrightarrow>
        (\<forall>j < length xs. j \<noteq> i \<longrightarrow> ?new \<inter> span (rs ! j) = {})"
    proof
      assume lt: "r_address ?r + new_size - 1 < r_address (rs ! Suc i)"
      show "\<forall>j < length xs. j \<noteq> i \<longrightarrow> ?new \<inter> span (rs ! j) = {}"
      proof (intro allI impI)
        fix j assume j: "j < length xs" "j \<noteq> i"
        show "?new \<inter> span (rs ! j) = {}"
        proof (cases "j < i")
          case True
          then show ?thesis by (rule before)
        next
          case False
          then have "r_address (rs ! Suc i) \<le> r_address (rs ! j)"
            using j layout_order [OF c(4), of "Suc i" j] c(3) by (cases "j = Suc i") auto
          then show ?thesis using lt new by (auto simp: span_def)
        qed
      qed
    next
      assume all: "\<forall>j < length xs. j \<noteq> i \<longrightarrow> ?new \<inter> span (rs ! j) = {}"
      have "?new \<inter> span (rs ! Suc i) = {}" by (rule all [rule_format, OF n]) simp
      moreover have "r_address (rs ! Suc i) \<in> span (rs ! Suc i)" using pos [OF n] by (simp add: span_def)
      moreover have "r_address ?r \<le> r_address (rs ! Suc i)" using layout_order [OF c(4), of i "Suc i"] n c(3) by simp
      ultimately have "\<not> r_address (rs ! Suc i) < r_address ?r + new_size" by auto
      then show "r_address ?r + new_size - 1 < r_address (rs ! Suc i)" using new by linarith
    qed
    then show ?thesis using eq False by simp
  qed
qed

section \<open>Creating and deleting regions\<close>

text \<open>The allocators keep their contract: cells of the asked number, and objects that are not in use.\<close>

definition region_env_ok :: "region_env \<Rightarrow> bool" where
  "region_env_ok E \<longleftrightarrow> allocator (env_km E) \<and> (\<forall>w a. env_new E w = Some a \<longrightarrow> w_regions w a = None)"

definition user_start :: "u32 \<Rightarrow> nat" where
  "user_start flags = (if flags AND REGION_STACK \<noteq> 0 then FIRST_USER_STACK_ADDRESS else FIRST_USER_REGION_ADDRESS)"

definition user_flags :: "u32 \<Rightarrow> u32" where
  "user_flags flags = ((flags AND REGION_USER_FLAGS AND NOT REGION_KERNEL) OR REGION_CALL_FROM_USERSPACE) AND
     REGION_USER_FLAGS"

lemmas region_flag_defs = REGION_READ_def REGION_WRITE_def REGION_EXECUTE_def REGION_KERNEL_def REGION_STACK_def
  REGION_REMAPPED_def REGION_ALLOCATED_def REGION_CLONED_def REGION_CALL_FROM_USERSPACE_def
  REGION_USER_FLAGS_def REGION_MAPPING_FLAGS_def

lemma user_flags_mask: "user_flags flags AND m =
    (flags AND (REGION_USER_FLAGS AND NOT REGION_KERNEL AND m)) OR
    (REGION_CALL_FROM_USERSPACE AND REGION_USER_FLAGS AND m)"
  unfolding user_flags_def bit.conj_disj_distrib2
  by (simp add: bit_eq_iff bit_simps) blast

lemma user_flags_bits:
  "user_flags flags AND REGION_KERNEL = 0" "user_flags flags AND REGION_MAPPING_FLAGS = 0"
  "user_flags flags AND REGION_CALL_FROM_USERSPACE \<noteq> 0"
  "user_flags flags AND REGION_STACK = flags AND REGION_STACK"
  "user_flags flags AND REGION_USER_FLAGS = user_flags flags"
proof -
  show "user_flags flags AND REGION_KERNEL = 0" "user_flags flags AND REGION_MAPPING_FLAGS = 0"
    "user_flags flags AND REGION_STACK = flags AND REGION_STACK"
    unfolding user_flags_mask by (simp_all add: region_flag_defs)
  have c: "REGION_CALL_FROM_USERSPACE AND REGION_USER_FLAGS AND REGION_CALL_FROM_USERSPACE = 256"
    by (simp add: region_flag_defs)
  show "user_flags flags AND REGION_CALL_FROM_USERSPACE \<noteq> 0"
    unfolding user_flags_mask c by (simp add: or_eq_0_iff)
  show "user_flags flags AND REGION_USER_FLAGS = user_flags flags" by (simp add: user_flags_def and.assoc)
qed

lemma find_gap:
  assumes rel: "ctx_rel w c xs rs" and sz: "0 < sz" and "start \<le> hi"
    and "\<forall>r \<in> set rs. r_address r + r_size r \<le> hi" and "hi + sz < 4294967296"
  shows "\<exists>r. memory_context_find_unmapped_region c start end_addr sz w = Some r \<and>
    (\<forall>a. r = Some a \<longrightarrow> start \<le> a \<and> a + sz < 4294967296 \<and> free_range rs a sz)"
proof -
  have lay: "layout 0 rs" using rel by (simp add: ctx_rel_def)
  note spec = first_gap_spec [OF lay assms(4,3,5)]
  show ?thesis
  proof (cases "first_gap sz start rs")
    case (Inl a)
    then show ?thesis using spec assms(5) unfolding find_unmapped_list [OF rel] free_range_iff [OF lay sz] by simp
  next
    case (Inr a)
    then show ?thesis using spec assms(5) unfolding find_unmapped_list [OF rel] free_range_iff [OF lay sz] by simp
  qed
qed

lemma ctx_rel_cong:
  assumes "ctx_rel w c xs rs" and "w_contexts w' c = w_contexts w c" and "\<And>x. x \<in> set xs \<Longrightarrow> w_regions w' x = w_regions w x"
  shows "ctx_rel w' c xs rs"
proof -
  have m: "map (w_regions w') xs = map (w_regions w) xs" using assms(3) by simp
  show ?thesis using assms(1,2) unfolding ctx_rel_def m by simp
qed

lemma ctx_rel_object: "ctx_rel w c xs rs \<Longrightarrow> x \<in> set xs \<Longrightarrow> \<exists>r. w_regions w x = Some r"
proof -
  assume "ctx_rel w c xs rs" "x \<in> set xs"
  then have "w_regions w x \<in> set (map Some rs)" unfolding ctx_rel_def by (metis image_eqI set_map)
  then show ?thesis by auto
qed

text \<open>A new region of a process: nothing happens, or a fresh object is put into the layout.\<close>

lemma region_create_spec:
  assumes E: "region_env_ok E" and rel: "ctx_rel w c xs rs" and c: "c = w_memory_context w p"
    and sz: "0 < sz" "user_start flags \<le> hi" "\<forall>r \<in> set rs. r_address r + r_size r \<le> hi" "hi + sz < 4294967296"
  shows "\<exists>q w'. memory_region_create E p name sz (user_flags flags) w = Some (q, w') \<and>
    (case q of
       None \<Rightarrow> w' = w
     | Some a \<Rightarrow> \<exists>r xs' rs' v. w_regions w a = None \<and> w_regions w' = (w_regions w)(a \<mapsto> r) \<and>
         r_address r \<ge> user_start flags \<and> free_range rs (r_address r) sz \<and> r_size r = sz \<and> r_id r = - 1 \<and>
         r_ref_count r = 1 \<and> r_context r = Some c \<and> r_file r = None \<and> r_flags r = user_flags flags \<and>
         ctx_rel w' c xs' rs' \<and> w' = w\<lparr> w_regions := w_regions w', w_contexts := w_contexts w', w_vmem_size := v \<rparr> \<and>
         map_option c_arch_data (w_contexts w' c) = map_option c_arch_data (w_contexts w c) \<and>
         (xs' = xs \<and> rs' = rs \<or>
          (\<exists>ys zs ps qs. xs = ys @ zs \<and> xs' = ys @ a # zs \<and> rs = ps @ qs \<and> rs' = ps @ r # qs)))"
proof -
  note b = user_flags_bits [of flags]
  have sz32: "u32_of sz = sz" using sz(4) by simp
  obtain g where g: "memory_context_find_unmapped_region c (user_start flags) LAST_USER_ADDRESS sz w = Some g"
    "\<forall>a. g = Some a \<longrightarrow> user_start flags \<le> a \<and> a + sz < 4294967296 \<and> free_range rs a sz"
    using find_gap [OF rel sz] by blast
  have run: "do_create_memory_region E c name sz (user_flags flags) w =
      (case g of None \<Rightarrow> Some (None, w)
       | Some a \<Rightarrow> Some (memory_region_allocate E (Some c) name a sz (user_flags flags) w))"
    using g(1) b by (simp add: do_create_memory_region_def user_start_def Let_def sz32 split: if_splits)
  have top: "memory_region_create E p name sz (user_flags flags) w = do {
      (region, w) \<leftarrow> do_create_memory_region E c name sz (user_flags flags) w;
      case region of
        None \<Rightarrow> Some (None, w)
      | Some a \<Rightarrow> do {
          (_, w) \<leftarrow> memory_context_insert_region E c a w;
          ctx \<leftarrow> w_contexts w c;
          r \<leftarrow> w_regions w a;
          let p = c_process ctx;
          Some (Some a, w\<lparr> w_vmem_size := (w_vmem_size w)(p := u64_of (w_vmem_size w p + r_size r)) \<rparr>) } }"
    unfolding memory_region_create_def Let_def b(5) b(1) c [symmetric] by simp
  show ?thesis
  proof (cases "\<exists>ad a. g = Some ad \<and> env_new E w = Some a")
    case False
    then have "memory_region_create E p name sz (user_flags flags) w = Some (None, w)"
      unfolding top run by (auto simp: memory_region_allocate_def split: option.splits)
    then show ?thesis by simp
  next
    case True
    then obtain ad a where ga: "g = Some ad" "env_new E w = Some a" by blast
    define r where "r = \<lparr> r_id = - 1, r_name = name, r_ref_count = 1, r_flags = user_flags flags, r_address = ad,
      r_size = sz, r_file = None, r_file_offset = 0, r_file_size = 0, r_context = Some c \<rparr>"
    let ?w1 = "w\<lparr> w_regions := (w_regions w)(a \<mapsto> r) \<rparr>"
    have fresh: "w_regions w a = None" using E ga(2) by (simp add: region_env_ok_def)
    have "x \<noteq> a" if "x \<in> set xs" for x using ctx_rel_object [OF rel that] fresh by auto
    then have rel1: "ctx_rel ?w1 c xs rs" using ctx_rel_cong [OF rel, of ?w1] by auto
    have al: "memory_region_allocate E (Some c) name ad sz (user_flags flags) w = (Some a, ?w1)"
      using ga(2) by (simp add: memory_region_allocate_def r_def)
    have ok: "w_regions ?w1 a = Some r" "0 < r_size r" "r_address r + r_size r < 4294967296"
      "free_range rs (r_address r) (r_size r)" "allocator (env_km E)"
      using g(2) ga(1) sz(1) E by (simp_all add: r_def region_env_ok_def)
    obtain e w2 xs' rs' where i: "memory_context_insert_region E c a ?w1 = Some (e, w2)" "ctx_rel w2 c xs' rs'"
      "w2 = ?w1\<lparr> w_contexts := w_contexts w2 \<rparr>"
      "map_option c_arch_data (w_contexts w2 c) = map_option c_arch_data (w_contexts ?w1 c)"
      "e = Inr () \<and> (\<exists>ys zs ps qs. xs = ys @ zs \<and> xs' = ys @ a # zs \<and> rs = ps @ qs \<and> rs' = ps @ r # qs) \<or>
       e = Inl ENOMEM \<and> xs' = xs \<and> rs' = rs"
      using insert_region_spec [OF ok(5) rel1 ok(1-4)] by blast
    obtain ctx where ctx: "w_contexts w2 c = Some ctx" using ctx_rel_ctx [OF i(2)] ..
    have rg: "w_regions w2 = (w_regions w)(a \<mapsto> r)" by (subst i(3)) simp
    define v where "v = (w_vmem_size w2)(c_process ctx := u64_of (w_vmem_size w2 (c_process ctx) + r_size r))"
    define w3 where "w3 = w2\<lparr> w_vmem_size := v \<rparr>"
    have run3: "memory_region_create E p name sz (user_flags flags) w = Some (Some a, w3)"
      unfolding top run using ga(1) al i(1) ctx rg by (simp add: Let_def w3_def v_def)
    have rel3: "ctx_rel w3 c xs' rs'" using i(2) by (simp add: ctx_rel_def w3_def)
    have eq3: "w3 = w\<lparr> w_regions := w_regions w3, w_contexts := w_contexts w3, w_vmem_size := v \<rparr>"
      unfolding w3_def by (subst (1) i(3)) (simp add: rg)
    have rg3: "w_regions w3 = (w_regions w)(a \<mapsto> r)" using rg by (simp add: w3_def)
    have rp: "user_start flags \<le> r_address r" "free_range rs (r_address r) sz" "r_size r = sz" "r_id r = - 1"
      "r_ref_count r = 1" "r_context r = Some c" "r_file r = None" "r_flags r = user_flags flags"
      using g(2) ga(1) by (simp_all add: r_def)
    have arch3: "map_option c_arch_data (w_contexts w3 c) = map_option c_arch_data (w_contexts w c)"
      using i(4) by (simp add: w3_def)
    have ins3: "xs' = xs \<and> rs' = rs \<or>
        (\<exists>ys zs ps qs. xs = ys @ zs \<and> xs' = ys @ a # zs \<and> rs = ps @ qs \<and> rs' = ps @ r # qs)"
      using i(5) by blast
    show ?thesis
      unfolding run3
      by (rule exI [of _ "Some a"], rule exI [of _ w3], unfold option.case, intro conjI refl,
          rule exI [of _ r], rule exI [of _ xs'], rule exI [of _ rs'], rule exI [of _ v])
        (intro conjI; (rule fresh rg3 rp rel3 eq3 arch3 ins3))
  qed
qed

lemma remove1_Some: "remove1 (Some a) (map Some xs) = map Some (remove1 a xs)"
  by (induction xs) auto

lemma remove_region_spec:
  assumes "w_contexts w c = Some ctx" and "array_inv (c_regions ctx)" and "array_list (c_regions ctx) = map Some xs"
  shows "\<exists>e arr. memory_context_remove_region c a w =
      Some (e, w\<lparr> w_contexts := (w_contexts w)(c \<mapsto> ctx\<lparr> c_regions := arr \<rparr>) \<rparr>) \<and>
    array_inv arr \<and> array_list arr = map Some (remove1 a xs)"
proof -
  obtain e arr where r: "array_remove_item (c_regions ctx) (Some a) = Some (e, arr)" "array_inv arr"
    "if Some a \<in> set (map Some xs) then e = Inr () \<and> array_list arr = remove1 (Some a) (map Some xs)
     else e = Inl ENOENT \<and> arr = c_regions ctx"
    using array_remove_item_refines [OF assms(2), of "Some a"] unfolding assms(3) by blast
  have "array_list arr = map Some (remove1 a xs)"
    using r(3) assms(3) by (cases "a \<in> set xs") (auto simp: remove1_Some remove1_idem image_iff)
  then show ?thesis using assms(1) r(1,2)
    by (intro exI [of _ e] exI [of _ arr]) (simp add: memory_context_remove_region_def)
qed

text \<open>Dropping the last references to a region that was never mapped.\<close>

lemma put_unmapped_region:
  assumes r: "w_regions w a = Some r" "r_ref_count r = n" "r_flags r AND REGION_MAPPING_FLAGS = 0" "r_file r = None"
    "r_context r = Some c" "r_id r \<noteq> - 1"
    and ctx: "w_contexts w c = Some ctx" "array_inv (c_regions ctx)" "array_list (c_regions ctx) = map Some xs"
    "c_arch_data ctx = Some dir"
  shows "\<exists>arr. do_memory_region_put_times a n w = Some (w\<lparr> w_regions := (w_regions w)(a := None),
      region_table := (region_table w)(r_id r := None),
      w_contexts := (w_contexts w)(c \<mapsto> ctx\<lparr> c_regions := arr \<rparr>) \<rparr>) \<and>
    array_inv arr \<and> array_list arr = map Some (remove1 a xs)"
proof -
  let ?w1 = "w\<lparr> w_regions := (w_regions w)(a \<mapsto> r\<lparr> r_ref_count := 0 \<rparr>), region_table := (region_table w)(r_id r := None) \<rparr>"
  obtain e arr where s: "memory_context_remove_region c a ?w1 =
      Some (e, ?w1\<lparr> w_contexts := (w_contexts ?w1)(c \<mapsto> ctx\<lparr> c_regions := arr \<rparr>) \<rparr>)" "array_inv arr"
      "array_list arr = map Some (remove1 a xs)"
    using remove_region_spec [of ?w1 c ctx xs a] ctx by auto
  have "do_memory_region_put_times a n w = Some (w\<lparr> w_regions := (w_regions w)(a := None),
      region_table := (region_table w)(r_id r := None),
      w_contexts := (w_contexts w)(c \<mapsto> ctx\<lparr> c_regions := arr \<rparr>) \<rparr>)"
    using r ctx(4) s(1) by (simp add: do_memory_region_put_times_def upd_region_def unmap_pages_def dir_of_def on_mmu_def
        arch_memory_region_unmap_pages_def memory_region_destroy_def Let_def)
  with s show ?thesis by blast
qed

lemma layout_replace:
  "r_address r' = r_address r \<Longrightarrow> r_size r' = r_size r \<Longrightarrow> layout lo (ps @ r' # qs) = layout lo (ps @ r # qs)"
  by (induction ps arbitrary: lo) auto

text \<open>Changing the id of a region keeps the layout.\<close>

lemma ctx_rel_set_id:
  assumes rel: "ctx_rel w c xs rs" and r: "w_regions w a = Some r" and w': "w_contexts w' c = w_contexts w c"
    "w_regions w' = (w_regions w)(a \<mapsto> r\<lparr> r_id := i \<rparr>)"
  shows "\<exists>rs'. ctx_rel w' c xs rs'"
proof (cases "a \<in> set xs")
  case False
  then have "ctx_rel w' c xs rs" using w' by (intro ctx_rel_cong [OF rel]) auto
  then show ?thesis ..
next
  case True
  then obtain ys zs where xs: "xs = ys @ a # zs" by (auto simp: in_set_conv_decomp)
  have nin: "a \<notin> set ys" "a \<notin> set zs" using ctx_rel_distinct [OF rel] xs by auto
  have m: "map (w_regions w) (ys @ a # zs) = map Some rs" using rel xs by (simp add: ctx_rel_def)
  then obtain ps qs where rs: "rs = ps @ r # qs" "map (w_regions w) ys = map Some ps" "map (w_regions w) zs = map Some qs"
    using r by (auto simp: map_eq_append_conv append_eq_map_conv Cons_eq_map_conv)
  have "map (w_regions w') ys = map (w_regions w) ys" "map (w_regions w') zs = map (w_regions w) zs"
    using nin w'(2) by (auto simp: map_idI)
  then have "map (w_regions w') xs = map Some (ps @ r\<lparr> r_id := i \<rparr> # qs)" using rs(2,3) w'(2) by (simp add: xs)
  moreover have "layout 0 (ps @ r\<lparr> r_id := i \<rparr> # qs)"
    using rel rs(1) layout_replace [of "r\<lparr> r_id := i \<rparr>" r 0 ps qs] by (simp add: ctx_rel_def)
  ultimately show ?thesis using rel w'(1) unfolding ctx_rel_def
    by (intro exI [of _ "ps @ r\<lparr> r_id := i \<rparr> # qs"]) auto
qed


text \<open>The search does its arithmetic in 32 bits without a test for wrap-around. A user request for 2 GB or
  more, whose end wraps around to an address at or below the first region of the context, is granted at
  the start of the user regions, whatever lies there: the new region overlaps every region of the
  context from that address on.\<close>

theorem region_create_wraps:
  assumes rel: "ctx_rel w c xs (r # rs)" and fl: "flags AND REGION_KERNEL = 0" "flags AND REGION_STACK = 0"
    "flags AND REGION_CALL_FROM_USERSPACE \<noteq> 0"
    and sz: "2147483648 \<le> sz" "sz < 4294967296" "sz - 2147483648 \<le> r_address r" and new: "env_new E w = Some a"
  shows "\<exists>w' n. do_create_memory_region E c name sz flags w = Some (Some a, w') \<and> w_regions w' a = Some n \<and>
    r_address n = FIRST_USER_REGION_ADDRESS \<and> r_size n = sz \<and>
    (\<forall>x \<in> set (r # rs). FIRST_USER_REGION_ADDRESS \<le> r_address x \<longrightarrow> span x \<inter> span n \<noteq> {})"
proof -
  have lay: "layout 0 (r # rs)" using rel by (simp add: ctx_rel_def)
  have "2147483648 + sz = sz - 2147483648 + 4294967296" using sz(1) by simp
  then have "u32_of (2147483648 + sz) = sz - 2147483648" using sz(2) by (simp only: mod_add_self2) simp
  then have "memory_context_find_unmapped_region c FIRST_USER_REGION_ADDRESS LAST_USER_ADDRESS sz w =
      Some (Some FIRST_USER_REGION_ADDRESS)"
    using sz(3) by (simp add: find_unmapped_list [OF rel] FIRST_USER_REGION_ADDRESS_def)
  then have run: "do_create_memory_region E c name sz flags w =
      Some (memory_region_allocate E (Some c) name FIRST_USER_REGION_ADDRESS sz flags w)"
    using fl sz(2) by (simp add: do_create_memory_region_def Let_def)
  define n where "n = \<lparr> r_id = - 1, r_name = name, r_ref_count = 1, r_flags = flags,
    r_address = FIRST_USER_REGION_ADDRESS, r_size = sz, r_file = None, r_file_offset = 0, r_file_size = 0,
    r_context = Some c \<rparr>"
  have al: "memory_region_allocate E (Some c) name FIRST_USER_REGION_ADDRESS sz flags w =
      (Some a, w\<lparr> w_regions := (w_regions w)(a \<mapsto> n) \<rparr>)"
    using new by (simp add: memory_region_allocate_def n_def)
  have n: "r_address n = FIRST_USER_REGION_ADDRESS" "r_size n = sz" by (simp_all add: n_def)
  have "span x \<inter> span n \<noteq> {}" if "x \<in> set (r # rs)" "FIRST_USER_REGION_ADDRESS \<le> r_address x" for x
  proof -
    have "r_address x \<in> span x" "r_address x \<in> span n"
      using layout_from [OF lay that(1)] that(2) sz(1) n by (auto simp: span_def FIRST_USER_REGION_ADDRESS_def)
    then show ?thesis by blast
  qed
  then show ?thesis using run n unfolding al
    by (intro exI [of _ "w\<lparr> w_regions := (w_regions w)(a \<mapsto> n) \<rparr>"] exI [of _ n]) simp
qed

section \<open>A process with two regions\<close>

definition demo_reg :: "nat \<Rightarrow> memory_region_t" where
  "demo_reg a = \<lparr> r_id = - 1, r_name = [], r_ref_count = 1, r_flags = 0, r_address = a, r_size = 4096,
     r_file = None, r_file_offset = 0, r_file_size = 0, r_context = Some 10 \<rparr>"

definition demo_mm :: mm_world where
  "demo_mm = \<lparr> w_regions = [50 \<mapsto> demo_reg 2147483648, 51 \<mapsto> demo_reg 2147491840],
     w_contexts = [10 \<mapsto> \<lparr> c_mutex = 0, c_regions = \<lparr> item_count = 2, max_item_count = 2, realloc_size = 32,
       items = Some [Some 50, Some 51] \<rparr>, c_process = 1, c_arch_data = Some 4096 \<rparr>],
     region_table = Map.empty, region_id_counter = 0, w_memory_context = (\<lambda>_. 10), w_heap_region = (\<lambda>_. None),
     w_vmem_size = (\<lambda>_. 0), w_files = (\<lambda>_. 0), w_mmu = \<lparr> mm_pages = demo_pages, mm_words = (\<lambda>_ _. 0) \<rparr> \<rparr>"

definition demo_renv :: region_env where
  "demo_renv = \<lparr> env_km = eager_alloc None, env_new = (\<lambda>w. if w_regions w 60 = None then Some 60 else None),
     env_mutex = (\<lambda>_. Inr 1), env_kernel = 11 \<rparr>"

lemma demo_mm_rel: "ctx_rel demo_mm 10 [50, 51] [demo_reg 2147483648, demo_reg 2147491840]"
  by (simp add: ctx_rel_def demo_mm_def demo_reg_def array_inv_def array_cells_def array_list_def)

lemma demo_renv_ok: "region_env_ok demo_renv"
  by (simp add: region_env_ok_def demo_renv_def allocator_eager split: if_splits)

theorem find_unmapped_region_first_fit_witness:
  "\<exists>a. memory_context_find_unmapped_region 10 2147483648 LAST_USER_ADDRESS 8192 demo_mm = Some (Some a) \<and>
    free_range [demo_reg 2147483648, demo_reg 2147491840] a 8192 \<and> 2147483648 \<le> a"
proof -
  let ?rs = "[demo_reg 2147483648, demo_reg 2147491840]"
  have free: "free_range ?rs 2147495936 8192" by (auto simp: free_range_def span_def demo_reg_def)
  have hi: "\<forall>r \<in> set ?rs. r_address r + r_size r \<le> 2147495936" by (simp add: demo_reg_def)
  have "\<not> (\<forall>a. 2147483648 \<le> a \<and> free_range ?rs a 8192 \<longrightarrow> LAST_USER_ADDRESS < a + 8192 - 1)"
    using free by (auto simp: LAST_USER_ADDRESS_def intro!: exI [of _ 2147495936])
  then show ?thesis
    using find_unmapped_region_first_fit [OF demo_mm_rel _ _ hi, of 8192 2147483648 LAST_USER_ADDRESS]
    by (auto split: option.splits)
qed

theorem can_resize_region_exact_witness:
  "memory_context_can_resize_region 10 50 12288 demo_mm = Some False \<and>
   memory_context_can_resize_region 10 50 8192 demo_mm = Some True"
proof -
  note th = can_resize_region_exact [OF demo_mm_rel, of 0]
  have "2147491840 \<in> {2147483648 ..< 2147483648 + 12288} \<inter> span (demo_reg 2147491840)"
    by (simp add: span_def demo_reg_def)
  then have "{2147483648 ..< 2147483648 + 12288} \<inter> span (demo_reg 2147491840) \<noteq> {}" by blast
  moreover have "{2147483648 ..< 2147483648 + 8192} \<inter> span (demo_reg 2147491840) = {}"
    by (auto simp: span_def demo_reg_def)
  moreover have "r_address (demo_reg x) = x" "r_size (demo_reg x) = 4096" for x by (simp_all add: demo_reg_def)
  ultimately show ?thesis using th [of 12288] th [of 8192] by (auto simp: less_Suc_eq)
qed


theorem region_create_wraps_witness:
  "\<exists>w' n. do_create_memory_region demo_renv 10 [] 4026531840 REGION_CALL_FROM_USERSPACE demo_mm = Some (Some 60, w') \<and>
    w_regions w' 60 = Some n \<and> span (demo_reg 2147483648) \<inter> span n \<noteq> {}"
proof -
  have "env_new demo_renv demo_mm = Some 60" by (simp add: demo_renv_def demo_mm_def)
  from region_create_wraps [OF demo_mm_rel, of REGION_CALL_FROM_USERSPACE 4026531840 demo_renv 60 "[]", OF _ _ _ _ _ _ this]
  show ?thesis by (auto simp: region_flag_defs demo_reg_def FIRST_USER_REGION_ADDRESS_def)
qed

end
