(* ===== verification/Kernel_Route.thy ===== *)
theory Kernel_Route
  imports Kernel_Array Kernel_String
begin

unbundle bit_operations_syntax

text \<open>
  Network devices and routes, \<^verbatim>\<open>source/kernel/src/network/device.c\<close> and \<^verbatim>\<open>route.c\<close>. Devices and routes are
  heap objects with reference counts; the table of devices and the two tables of routes are pointer arrays.
  Each function runs under the mutex it takes, so it is one step on the state. An IPv4 address is the
  \<^verbatim>\<open>uint32_t\<close> that the macros \<^verbatim>\<open>IP_EQUALS_MASKED\<close> and \<^verbatim>\<open>IP_COPY_ADDR\<close> read through the pointer. Using a
  pointer to a freed route is a fault (\<open>None\<close>).
\<close>

section \<open>Data\<close>

definition NETDEV_CARRIER_ON :: u32 where "NETDEV_CARRIER_ON = 1"
definition NETDEV_RUNNING :: u32 where "NETDEV_RUNNING = 2"
definition NETDEV_UP :: u32 where "NETDEV_UP = 4"
definition NETDEV_USER_MASK :: u32 where "NETDEV_USER_MASK = NETDEV_UP"
definition RTF_UP :: u32 where "RTF_UP = 1"
definition RTF_GATEWAY :: u32 where "RTF_GATEWAY = 2"

definition IP_EQUALS_MASKED :: "u32 \<Rightarrow> u32 \<Rightarrow> u32 \<Rightarrow> bool" where
  "IP_EQUALS_MASKED a b m \<longleftrightarrow> a AND m = b AND m"

record net_device_t =
  nd_ref_count :: int
  nd_name :: "byte list"
  nd_flags :: u32
  nd_ip_addr :: u32
  nd_netmask :: u32
  nd_broadcast :: u32

record route_t =
  rt_ref_count :: int
  network_addr :: u32
  network_mask :: u32
  gateway_addr :: u32
  mask_bits :: int
  rt_flags :: u32
  rt_device :: vptr

record net_world =
  n_devices :: "addr \<rightharpoonup> net_device_t"
  n_routes :: "addr \<rightharpoonup> route_t"
  device_table :: array_t
  static_routes :: array_t
  device_routes :: array_t

text \<open>What the heap answers: pointer cells for the arrays, and the address of a new route.\<close>

record net_env =
  ne_km :: "vptr alloc"
  ne_new :: "net_world \<Rightarrow> vptr"

definition device_at :: "net_world \<Rightarrow> vptr \<Rightarrow> net_device_t option" where
  "device_at w p = Option.bind p (n_devices w)"

definition route_at :: "net_world \<Rightarrow> vptr \<Rightarrow> route_t option" where
  "route_at w p = Option.bind p (n_routes w)"

definition upd_device :: "addr \<Rightarrow> (net_device_t \<Rightarrow> net_device_t) \<Rightarrow> net_world \<Rightarrow> net_world option" where
  "upd_device a f w = do {
     d \<leftarrow> n_devices w a;
     Some (w\<lparr> n_devices := (n_devices w)(a \<mapsto> f d) \<rparr>) }"

definition upd_route :: "addr \<Rightarrow> (route_t \<Rightarrow> route_t) \<Rightarrow> net_world \<Rightarrow> net_world option" where
  "upd_route a f w = do {
     r \<leftarrow> n_routes w a;
     Some (w\<lparr> n_routes := (n_routes w)(a \<mapsto> f r) \<rparr>) }"

section \<open>Devices\<close>

text \<open>The item at the index that a scan stopped at, \<^verbatim>\<open>NULL\<close> when it went through.\<close>

definition scan_item :: "array_t \<Rightarrow> (vptr \<Rightarrow> bool option) \<Rightarrow> vptr option" where
  "scan_item t P = do {
     i \<leftarrow> array_scan (array_get_item t) P 0 (array_get_size t);
     if i < array_get_size t then array_get_item t i else Some None }"

definition do_net_device_get :: "byte list \<Rightarrow> net_world \<Rightarrow> vptr option" where
  "do_net_device_get name w =
     scan_item (device_table w)
       (\<lambda>x. do { d \<leftarrow> device_at w x; c \<leftarrow> strcmp (nd_name d) name; Some (c = 0) })"

definition hold_device :: "vptr \<Rightarrow> net_world \<Rightarrow> (vptr \<times> net_world) option" where
  "hold_device p w = (case p of
       None \<Rightarrow> Some (None, w)
     | Some a \<Rightarrow> do {
         w \<leftarrow> upd_device a (\<lambda>d. d\<lparr> nd_ref_count := nd_ref_count d + 1 \<rparr>) w;
         Some (Some a, w) })"

definition net_device_get :: "byte list \<Rightarrow> net_world \<Rightarrow> (vptr \<times> net_world) option" where
  "net_device_get name w = do {
     device \<leftarrow> do_net_device_get name w;
     hold_device device w }"

definition net_device_get_nth :: "int \<Rightarrow> net_world \<Rightarrow> (vptr \<times> net_world) option" where
  "net_device_get_nth index w =
     (if index < 0 \<or> array_get_size (device_table w) \<le> index then Some (None, w)
      else do {
        device \<leftarrow> array_get_item (device_table w) index;
        a \<leftarrow> device;
        hold_device (Some a) w })"

definition net_device_flags :: "net_device_t \<Rightarrow> u32" where
  "net_device_flags d = nd_flags d"

definition net_device_running :: "net_device_t \<Rightarrow> u32" where
  "net_device_running d = nd_flags d AND NETDEV_RUNNING"

definition net_device_carrier_ok :: "net_device_t \<Rightarrow> u32" where
  "net_device_carrier_ok d = nd_flags d AND NETDEV_CARRIER_ON"

definition net_device_carrier_on :: "addr \<Rightarrow> net_world \<Rightarrow> net_world option" where
  "net_device_carrier_on a = upd_device a (\<lambda>d. d\<lparr> nd_flags := nd_flags d OR NETDEV_CARRIER_ON \<rparr>)"

definition net_device_carrier_off :: "addr \<Rightarrow> net_world \<Rightarrow> net_world option" where
  "net_device_carrier_off a = upd_device a (\<lambda>d. d\<lparr> nd_flags := nd_flags d AND NOT NETDEV_CARRIER_ON \<rparr>)"

definition net_device_get_by_address :: "u32 \<Rightarrow> net_world \<Rightarrow> (vptr \<times> net_world) option" where
  "net_device_get_by_address ipv4_addr w = do {
     device \<leftarrow> scan_item (device_table w)
       (\<lambda>x. do { d \<leftarrow> device_at w x;
               Some (net_device_flags d AND NETDEV_UP \<noteq> 0 \<and>
                 IP_EQUALS_MASKED (nd_ip_addr d) ipv4_addr (nd_netmask d)) });
     hold_device device w }"

definition net_device_get_count :: "net_world \<Rightarrow> int" where
  "net_device_get_count w = array_get_size (device_table w)"

text \<open>The device whose last reference is gone leaves the table; nothing more is done with it.\<close>

definition net_device_put :: "addr \<Rightarrow> net_world \<Rightarrow> net_world option" where
  "net_device_put a w = do {
     w \<leftarrow> upd_device a (\<lambda>d. d\<lparr> nd_ref_count := nd_ref_count d - 1 \<rparr>) w;
     d \<leftarrow> n_devices w a;
     if nd_ref_count d = 0 then do {
       (error, arr) \<leftarrow> array_remove_item (device_table w) (Some a);
       Some (w\<lparr> device_table := arr \<rparr>) }
     else Some w }"

text \<open>The requests of \<^verbatim>\<open>SIOCSIF...\<close>: the parameter to set and the fields of \<^verbatim>\<open>struct ifreq\<close> that are read.\<close>

datatype if_param = SIOCSIFADDR | SIOCSIFNETMASK | SIOCSIFBRDADDR | SIOCSIFFLAGS | IF_OTHER int

record ifreq =
  ifrn_name :: "byte list"
  ifru_sin_addr :: u32
  ifru_flags :: "16 word"

fun set_parameter :: "if_param \<Rightarrow> ifreq \<Rightarrow> net_device_t \<Rightarrow> net_device_t" where
  "set_parameter SIOCSIFADDR req d = d\<lparr> nd_ip_addr := ifru_sin_addr req \<rparr>"
| "set_parameter SIOCSIFNETMASK req d = d\<lparr> nd_netmask := ifru_sin_addr req \<rparr>"
| "set_parameter SIOCSIFBRDADDR req d = d\<lparr> nd_broadcast := ifru_sin_addr req \<rparr>"
| "set_parameter SIOCSIFFLAGS req d =
     d\<lparr> nd_flags := (nd_flags d AND NOT NETDEV_USER_MASK) OR (scast (ifru_flags req) AND NETDEV_USER_MASK) \<rparr>"
| "set_parameter (IF_OTHER _) req d = d"

definition set_interface_parameter :: "if_param \<Rightarrow> ifreq \<Rightarrow> net_world \<Rightarrow> ((errno + unit) \<times> net_world) option" where
  "set_interface_parameter param req w = do {
     (device, w) \<leftarrow> net_device_get (ifrn_name req) w;
     case device of
       None \<Rightarrow> Some (Inl EINVAL, w)
     | Some a \<Rightarrow> do {
         w \<leftarrow> upd_device a (set_parameter param req) w;
         Some (Inr (), w) } }"

section \<open>Routes\<close>

text \<open>Counting the bits of the mask.\<close>

function mask_bits_loop :: "u32 \<Rightarrow> int \<Rightarrow> int" where
  "mask_bits_loop tmp bits =
     (if tmp = 0 then bits else mask_bits_loop (drop_bit 1 tmp) (bits + uint (tmp AND 1)))"
  by pat_completeness auto
termination
  by (relation "measure (\<lambda>(tmp, bits). unat tmp)") (auto simp: drop_bit_eq_div unat_div unat_gt_0)

declare mask_bits_loop.simps [simp del]

definition route_create ::
    "net_env \<Rightarrow> u32 \<Rightarrow> u32 \<Rightarrow> u32 option \<Rightarrow> u32 \<Rightarrow> net_world \<Rightarrow> (vptr \<times> net_world) option" where
  "route_create E net_addr net_mask gateway flags w = (case ne_new E w of
       None \<Rightarrow> Some (None, w)
     | Some a \<Rightarrow> do {
         gw \<leftarrow> (if flags AND RTF_GATEWAY \<noteq> 0 then gateway else Some 0);
         Some (Some a, w\<lparr> n_routes := (n_routes w)(a \<mapsto> \<lparr> rt_ref_count = 1, network_addr = net_addr,
           network_mask = net_mask, gateway_addr = gw, mask_bits = mask_bits_loop net_mask 0,
           rt_flags = flags, rt_device = None \<rparr>) \<rparr>) })"

definition route_clone :: "net_env \<Rightarrow> addr \<Rightarrow> net_world \<Rightarrow> (vptr \<times> net_world) option" where
  "route_clone E original w = (case ne_new E w of
       None \<Rightarrow> Some (None, w)
     | Some a \<Rightarrow> do {
         r \<leftarrow> n_routes w original;
         Some (Some a, w\<lparr> n_routes := (n_routes w)(a \<mapsto> \<lparr> rt_ref_count = 1, network_addr = network_addr r,
           network_mask = network_mask r, gateway_addr = gateway_addr r, mask_bits = mask_bits r,
           rt_flags = rt_flags r, rt_device = None \<rparr>) \<rparr>) })"

text \<open>The two tables are both passed to \<open>route_insert\<close> by address.\<close>

datatype route_table = Static | Device

fun table_of :: "route_table \<Rightarrow> net_world \<Rightarrow> array_t" where
  "table_of Static w = static_routes w"
| "table_of Device w = device_routes w"

fun set_table :: "route_table \<Rightarrow> array_t \<Rightarrow> net_world \<Rightarrow> net_world" where
  "set_table Static t w = w\<lparr> static_routes := t \<rparr>"
| "set_table Device t w = w\<lparr> device_routes := t \<rparr>"

text \<open>The result of \<open>array_insert_item\<close> is not looked at.\<close>

definition route_insert :: "net_env \<Rightarrow> route_table \<Rightarrow> addr \<Rightarrow> net_world \<Rightarrow> ((errno + unit) \<times> net_world) option" where
  "route_insert E T route w = do {
     r \<leftarrow> n_routes w route;
     i \<leftarrow> array_scan (array_get_item (table_of T w))
           (\<lambda>x. do { tmp \<leftarrow> route_at w x; Some (mask_bits tmp \<le> mask_bits r) })
           0 (array_get_size (table_of T w));
     w \<leftarrow> upd_route route (\<lambda>r. r\<lparr> rt_ref_count := rt_ref_count r + 1 \<rparr>) w;
     (error, arr) \<leftarrow> array_insert_item (ne_km E) (table_of T w) i (Some route);
     Some (Inr (), set_table T arr w) }"

definition route_find :: "net_env \<Rightarrow> u32 \<Rightarrow> net_world \<Rightarrow> (vptr \<times> net_world) option" where
  "route_find E ipv4_addr w = do {
     (device, w) \<leftarrow> net_device_get_by_address ipv4_addr w;
     case device of
       Some d \<Rightarrow> do {
         dev \<leftarrow> n_devices w d;
         (route, w) \<leftarrow> route_create E (nd_ip_addr dev) (nd_netmask dev) None RTF_UP w;
         case route of
           None \<Rightarrow> Some (None, w)
         | Some a \<Rightarrow> do {
             w \<leftarrow> upd_route a (\<lambda>r. r\<lparr> rt_device := Some d \<rparr>) w;
             Some (Some a, w) } }
     | None \<Rightarrow> do {
         found \<leftarrow> scan_item (static_routes w)
           (\<lambda>x. do { tmp \<leftarrow> route_at w x;
                   Some (IP_EQUALS_MASKED (network_addr tmp) ipv4_addr (network_mask tmp)) });
         case found of
           None \<Rightarrow> Some (None, w)
         | Some f \<Rightarrow> do {
             r \<leftarrow> n_routes w f;
             if rt_flags r AND RTF_GATEWAY = 0 then Some (None, w)
             else do {
               (device, w) \<leftarrow> net_device_get_by_address (gateway_addr r) w;
               case device of
                 None \<Rightarrow> Some (None, w)
               | Some d \<Rightarrow> do {
                   (route, w) \<leftarrow> route_clone E f w;
                   case route of
                     None \<Rightarrow> Some (None, w)
                   | Some a \<Rightarrow> do {
                       w \<leftarrow> upd_route a (\<lambda>r. r\<lparr> rt_device := Some d \<rparr>) w;
                       Some (Some a, w) } } } } } }"

definition route_put :: "addr \<Rightarrow> net_world \<Rightarrow> net_world option" where
  "route_put route w = do {
     w \<leftarrow> upd_route route (\<lambda>r. r\<lparr> rt_ref_count := rt_ref_count r - 1 \<rparr>) w;
     r \<leftarrow> n_routes w route;
     if rt_ref_count r = 0 then do {
       (error, arr) \<leftarrow> array_remove_item (device_routes w) (Some route);
       let w = w\<lparr> device_routes := arr \<rparr>;
       w \<leftarrow> (case rt_device r of None \<Rightarrow> Some w | Some d \<Rightarrow> net_device_put d w);
       Some (w\<lparr> n_routes := (n_routes w)(route := None) \<rparr>) }
     else Some w }"

definition route_find_device :: "net_env \<Rightarrow> byte list \<Rightarrow> net_world \<Rightarrow> (vptr \<times> net_world) option" where
  "route_find_device E dev_name w = do {
     found \<leftarrow> scan_item (device_routes w)
       (\<lambda>x. do { tmp \<leftarrow> route_at w x;
               case rt_device tmp of
                 None \<Rightarrow> Some False
               | Some d \<Rightarrow> do { dev \<leftarrow> n_devices w d; c \<leftarrow> strcmp (nd_name dev) dev_name; Some (c = 0) } });
     case found of
       Some a \<Rightarrow> do {
         w \<leftarrow> upd_route a (\<lambda>r. r\<lparr> rt_ref_count := rt_ref_count r + 1 \<rparr>) w;
         Some (Some a, w) }
     | None \<Rightarrow> do {
         (device, w) \<leftarrow> net_device_get dev_name w;
         case device of
           None \<Rightarrow> Some (None, w)
         | Some d \<Rightarrow> do {
             dev \<leftarrow> n_devices w d;
             (route, w) \<leftarrow> route_create E (nd_ip_addr dev) (nd_netmask dev) None RTF_UP w;
             case route of
               None \<Rightarrow> do { w \<leftarrow> net_device_put d w; Some (None, w) }
             | Some a \<Rightarrow> do {
                 w \<leftarrow> upd_route a (\<lambda>r. r\<lparr> rt_device := Some d \<rparr>) w;
                 (error, w) \<leftarrow> route_insert E Device a w;
                 Some (Some a, w) } } } }"

text \<open>\<^verbatim>\<open>route_add\<close> reads four fields of \<^verbatim>\<open>struct rtentry\<close>.\<close>

record rtentry =
  rt_dst :: u32
  rt_gateway :: u32
  rt_genmask :: u32
  rte_flags :: "16 word"

definition route_add :: "net_env \<Rightarrow> rtentry \<Rightarrow> net_world \<Rightarrow> ((errno + unit) \<times> net_world) option" where
  "route_add E entry w = do {
     (route, w) \<leftarrow> route_create E (rt_dst entry) (rt_genmask entry) (Some (rt_gateway entry))
       (ucast (rte_flags entry)) w;
     case route of
       None \<Rightarrow> Some (Inl ENOMEM, w)
     | Some a \<Rightarrow> do {
         (error, w) \<leftarrow> route_insert E Static a w;
         w \<leftarrow> route_put a w;
         Some (error, w) } }"

text \<open>\<^verbatim>\<open>init_routes\<close>; the result of creating the mutex is a parameter.\<close>

definition init_routes :: "errno + int \<Rightarrow> net_world \<Rightarrow> bool \<times> net_world" where
  "init_routes mutex w =
     (let st = snd (array_set_realloc_size array_init 32);
          dv = snd (array_set_realloc_size array_init 8)
      in case mutex of
           Inl e \<Rightarrow> (False, w\<lparr> static_routes := array_destroy st, device_routes := array_destroy dv \<rparr>)
         | Inr _ \<Rightarrow> (True, w\<lparr> static_routes := st, device_routes := dv \<rparr>))"

end
