(* ===== verification/Kernel_Route_Safety.thy ===== *)
theory Kernel_Route_Safety
  imports Kernel_Route
begin

unbundle bit_operations_syntax

text \<open>
  Correctness of routing: the static table stays ordered by the number of mask bits, so that the first
  match of \<open>route_find\<close> is the most specific one; references that \<open>route_find\<close> takes are given back by
  \<open>route_put\<close>.
\<close>

section \<open>Mask bits\<close>

definition pop :: "u32 \<Rightarrow> nat" where
  "pop m = card {i. bit m i}"

lemma finite_bits: "finite {i. bit (m :: u32) i}"
  by (rule finite_subset [of _ "{..<32}"]) (auto dest: bit_imp_le_length)

lemma pop_step: "pop m = pop (drop_bit 1 m) + (if odd m then 1 else 0)"
proof -
  have split: "{i. bit m i} = Suc ` {i. bit (drop_bit 1 m) i} \<union> {i. i = 0 \<and> odd m}"
  proof (rule set_eqI)
    fix i
    show "i \<in> {i. bit m i} \<longleftrightarrow> i \<in> Suc ` {i. bit (drop_bit 1 m) i} \<union> {i. i = 0 \<and> odd m}"
      by (cases i) (auto simp: bit_drop_bit_eq bit_0)
  qed
  have "card (Suc ` {i. bit (drop_bit 1 m) i} \<union> {i. i = 0 \<and> odd m}) =
    card (Suc ` {i. bit (drop_bit 1 m) i}) + card {i. i = (0 :: nat) \<and> odd m}"
    by (rule card_Un_disjoint) (use finite_bits [of "drop_bit 1 m"] in auto)
  then show ?thesis unfolding pop_def split by (simp add: card_image)
qed

lemma mask_bits_loop_eq: "mask_bits_loop m b = b + int (pop m)"
proof (induction m b rule: mask_bits_loop.induct)
  case (1 m b)
  show ?case
  proof (cases "m = 0")
    case True
    then show ?thesis by (simp add: mask_bits_loop.simps pop_def)
  next
    case False
    have "m AND 1 = (if odd m then 1 else 0)"
      by (metis and_one_eq one_mod_two_eq_one odd_iff_mod_2_eq_one even_iff_mod_2_eq_zero)
    then have "mask_bits_loop m b = mask_bits_loop (drop_bit 1 m) (b + (if odd m then 1 else 0))"
      using False by (subst mask_bits_loop.simps) simp
    also have "\<dots> = b + (if odd m then 1 else 0) + int (pop (drop_bit 1 m))"
      using 1 [OF False] \<open>m AND 1 = _\<close> by (cases "odd m") simp_all
    finally show ?thesis using pop_step [of m] by simp
  qed
qed

section \<open>Tables\<close>

definition routes_ok :: "net_world \<Rightarrow> vptr list \<Rightarrow> bool" where
  "routes_ok w xs \<longleftrightarrow> (\<forall>x \<in> set xs. \<exists>r. route_at w x = Some r \<and> mask_bits r = int (pop (network_mask r)))"

definition devices_ok :: "net_world \<Rightarrow> vptr list \<Rightarrow> bool" where
  "devices_ok w xs \<longleftrightarrow> (\<forall>x \<in> set xs. \<exists>d. device_at w x = Some d \<and> 0 < nd_ref_count d)"

definition bits_at :: "net_world \<Rightarrow> vptr \<Rightarrow> nat" where
  "bits_at w x = (case route_at w x of Some r \<Rightarrow> pop (network_mask r) | None \<Rightarrow> 0)"

definition most_specific_first :: "net_world \<Rightarrow> vptr list \<Rightarrow> bool" where
  "most_specific_first w xs \<longleftrightarrow> sorted_wrt (\<lambda>x y. bits_at w y \<le> bits_at w x) xs"

definition net_inv :: "net_world \<Rightarrow> bool" where
  "net_inv w \<longleftrightarrow> array_inv (device_table w) \<and> array_inv (static_routes w) \<and> array_inv (device_routes w) \<and>
     devices_ok w (array_list (device_table w)) \<and>
     routes_ok w (array_list (static_routes w)) \<and> most_specific_first w (array_list (static_routes w)) \<and>
     routes_ok w (array_list (device_routes w)) \<and>
     most_specific_first w (array_list (device_routes w))"

definition net_env_ok :: "net_env \<Rightarrow> bool" where
  "net_env_ok E \<longleftrightarrow> allocator (ne_km E) \<and> (\<forall>w a. ne_new E w = Some a \<longrightarrow> n_routes w a = None)"

definition dev_serves :: "net_world \<Rightarrow> u32 \<Rightarrow> vptr \<Rightarrow> bool" where
  "dev_serves w ip x \<longleftrightarrow> (\<exists>d. device_at w x = Some d \<and> net_device_flags d AND NETDEV_UP \<noteq> 0 \<and>
     IP_EQUALS_MASKED (nd_ip_addr d) ip (nd_netmask d))"

definition route_matches :: "net_world \<Rightarrow> u32 \<Rightarrow> vptr \<Rightarrow> bool" where
  "route_matches w ip x \<longleftrightarrow> (\<exists>r. route_at w x = Some r \<and>
     IP_EQUALS_MASKED (network_addr r) ip (network_mask r))"

text \<open>The device that serves an address: the first device of the table that is up and whose network holds it.\<close>

definition serving :: "net_world \<Rightarrow> u32 \<Rightarrow> vptr" where
  "serving w ip = Option.bind (List.find (dev_serves w ip) (array_list (device_table w))) id"

lemma find_takeWhile:
  "List.find p xs = (if length (takeWhile (\<lambda>x. \<not> p x) xs) < length xs
     then Some (xs ! length (takeWhile (\<lambda>x. \<not> p x) xs)) else None)"
  by (induction xs) auto

lemma scan_item_eq:
  assumes "array_inv t" and "\<And>x. x \<in> set (array_list t) \<Longrightarrow> P x = Some (p x)"
  shows "scan_item t P = Some (Option.bind (List.find p (array_list t)) id)"
proof -
  note arr = pointer_array.scan_eq pointer_array.size_law pointer_array.item_law
  note laws = arr [OF array_client [OF allocator_eager [of None]]]
  show ?thesis
    using laws(1) [OF assms] laws(2) [OF assms(1)] laws(3) [OF assms(1)]
    by (auto simp: scan_item_def find_takeWhile)
qed

lemma device_atE: "device_at w x = Some d \<Longrightarrow> \<exists>a. x = Some a \<and> n_devices w a = Some d"
  by (cases x) (auto simp: device_at_def)

lemma route_atE: "route_at w x = Some r \<Longrightarrow> \<exists>a. x = Some a \<and> n_routes w a = Some r"
  by (cases x) (auto simp: route_at_def)

lemma bind_find_id_None: "(\<And>x. p x \<Longrightarrow> x \<noteq> None) \<Longrightarrow>
    Option.bind (List.find p xs) id = None \<longleftrightarrow> (\<forall>x \<in> set xs. \<not> p x)"
  by (induction xs) auto

lemma by_address_eq:
  assumes "net_inv w"
  shows "net_device_get_by_address ip w = hold_device (serving w ip) w"
proof -
  have "scan_item (device_table w)
      (\<lambda>x. do { d \<leftarrow> device_at w x;
               Some (net_device_flags d AND NETDEV_UP \<noteq> 0 \<and>
                 IP_EQUALS_MASKED (nd_ip_addr d) ip (nd_netmask d)) }) = Some (serving w ip)"
    unfolding serving_def
  proof (rule scan_item_eq)
    show "array_inv (device_table w)" using assms by (simp add: net_inv_def)
    fix x assume "x \<in> set (array_list (device_table w))"
    then obtain d where "device_at w x = Some d" using assms unfolding net_inv_def devices_ok_def by blast
    then show "do { d \<leftarrow> device_at w x;
               Some (net_device_flags d AND NETDEV_UP \<noteq> 0 \<and>
                 IP_EQUALS_MASKED (nd_ip_addr d) ip (nd_netmask d)) } = Some (dev_serves w ip x)"
      by (simp add: dev_serves_def)
  qed
  then show ?thesis by (simp add: net_device_get_by_address_def)
qed

lemma serving_device:
  assumes "net_inv w" and "serving w ip = Some d"
  shows "\<exists>dev. n_devices w d = Some dev \<and> 0 < nd_ref_count dev \<and> Some d \<in> set (array_list (device_table w)) \<and>
    dev_serves w ip (Some d)"
proof -
  obtain x where x: "List.find (dev_serves w ip) (array_list (device_table w)) = Some x" "x = Some d"
    using assms(2) by (auto simp: serving_def bind_eq_Some_conv)
  then have mem: "Some d \<in> set (array_list (device_table w))" and "dev_serves w ip (Some d)"
    by (auto simp: find_Some_iff in_set_conv_nth)
  moreover obtain dev where "device_at w (Some d) = Some dev" "0 < nd_ref_count dev"
    using mem assms(1) unfolding net_inv_def devices_ok_def by blast
  ultimately show ?thesis by (auto simp: device_at_def)
qed

text \<open>The state after taking a reference to a device.\<close>

definition held :: "addr \<Rightarrow> net_world \<Rightarrow> net_world" where
  "held d w = w\<lparr> n_devices := (n_devices w)(d := map_option (\<lambda>v. v\<lparr> nd_ref_count := nd_ref_count v + 1 \<rparr>) (n_devices w d)) \<rparr>"

lemma held_sel [simp]:
  "n_routes (held d w) = n_routes w" "static_routes (held d w) = static_routes w"
  "device_table (held d w) = device_table w" "device_routes (held d w) = device_routes w"
  by (simp_all add: held_def)

lemma route_at_held [simp]: "route_at (held d w) x = route_at w x"
  by (simp add: route_at_def)

lemma hold_device_eq:
  "n_devices w d = Some v \<Longrightarrow> hold_device (Some d) w = Some (Some d, held d w)"
  by (simp add: hold_device_def upd_device_def held_def)

lemma hold_None [simp]: "hold_device None w = Some (None, w)"
  by (simp add: hold_device_def)

section \<open>Finding a route\<close>

text \<open>The static route of an address: the first match.\<close>

definition matching :: "net_world \<Rightarrow> u32 \<Rightarrow> vptr" where
  "matching w ip = Option.bind (List.find (route_matches w ip) (array_list (static_routes w))) id"

lemma find_most_specific:
  assumes "sorted_wrt R xs" and "List.find p xs = Some x" and "\<And>y. R y y"
    and "y \<in> set xs" and "p y"
  shows "R x y"
  using assms(1,2,4,5)
proof (induction xs)
  case Nil
  then show ?case by simp
next
  case (Cons z zs)
  then show ?case using assms(3) by (cases "p z") auto
qed

lemma matching_best:
  assumes "net_inv w" and "matching w ip = Some f"
  shows "Some f \<in> set (array_list (static_routes w))" and "route_matches w ip (Some f)"
    and "\<And>y. y \<in> set (array_list (static_routes w)) \<Longrightarrow> route_matches w ip y \<Longrightarrow> bits_at w y \<le> bits_at w (Some f)"
proof -
  have f: "List.find (route_matches w ip) (array_list (static_routes w)) = Some (Some f)"
    using assms(2) by (auto simp: matching_def bind_eq_Some_conv)
  then show "Some f \<in> set (array_list (static_routes w))" "route_matches w ip (Some f)"
    by (auto simp: find_Some_iff in_set_conv_nth)
  fix y assume "y \<in> set (array_list (static_routes w))" and "route_matches w ip y"
  then show "bits_at w y \<le> bits_at w (Some f)"
    using find_most_specific [of "\<lambda>x y. bits_at w y \<le> bits_at w x", OF _ f] assms(1)
    by (simp add: net_inv_def most_specific_first_def)
qed

lemma static_scan:
  assumes "net_inv w"
  shows "scan_item (static_routes w)
     (\<lambda>x. do { tmp \<leftarrow> route_at w x;
             Some (IP_EQUALS_MASKED (network_addr tmp) ip (network_mask tmp)) }) = Some (matching w ip)"
  unfolding matching_def
proof (rule scan_item_eq)
  show "array_inv (static_routes w)" using assms by (simp add: net_inv_def)
  fix x assume "x \<in> set (array_list (static_routes w))"
  then obtain r where "route_at w x = Some r" using assms unfolding net_inv_def routes_ok_def by blast
  then show "do { tmp \<leftarrow> route_at w x;
       Some (IP_EQUALS_MASKED (network_addr tmp) ip (network_mask tmp)) } = Some (route_matches w ip x)"
    by (simp add: route_matches_def)
qed

text \<open>\<open>route_find\<close> as a function of the serving device and the matching route.\<close>

definition found_via :: "addr \<Rightarrow> addr \<Rightarrow> route_t \<Rightarrow> net_world \<Rightarrow> net_world" where
  "found_via d a r w = (held d w)\<lparr> n_routes := (n_routes w)(a \<mapsto> r\<lparr> rt_ref_count := 1, rt_device := Some d \<rparr>) \<rparr>"

definition direct_route :: "net_device_t \<Rightarrow> route_t" where
  "direct_route dev = \<lparr> rt_ref_count = 1, network_addr = nd_ip_addr dev, network_mask = nd_netmask dev,
     gateway_addr = 0, mask_bits = int (pop (nd_netmask dev)), rt_flags = RTF_UP, rt_device = None \<rparr>"

definition route_of :: "net_world \<Rightarrow> u32 \<Rightarrow> (addr \<times> route_t) option" where
  "route_of w ip = (case serving w ip of
       Some d \<Rightarrow> map_option (\<lambda>dev. (d, direct_route dev)) (n_devices w d)
     | None \<Rightarrow> (case matching w ip of
           None \<Rightarrow> None
         | Some f \<Rightarrow> (case n_routes w f of
               None \<Rightarrow> None
             | Some r \<Rightarrow> if rt_flags r AND RTF_GATEWAY = 0 then None
                 else map_option (\<lambda>d. (d, r)) (serving w (gateway_addr r)))))"

lemma RTF_UP_no_gateway [simp]: "RTF_UP AND RTF_GATEWAY = 0"
  by (simp add: RTF_UP_def RTF_GATEWAY_def)

lemma route_copy:
  "\<lparr> rt_ref_count = 1, network_addr = network_addr r, network_mask = network_mask r,
     gateway_addr = gateway_addr r, mask_bits = mask_bits r, rt_flags = rt_flags r, rt_device = d \<rparr> =
   r\<lparr> rt_ref_count := 1, rt_device := d \<rparr>"
  by (cases r) simp

lemma route_find_eq:
  assumes "net_inv w"
  shows "route_find E ip w = (case route_of w ip of
      None \<Rightarrow> Some (None, w)
    | Some (d, r) \<Rightarrow> (case ne_new E (held d w) of
          None \<Rightarrow> Some (None, held d w)
        | Some a \<Rightarrow> Some (Some a, found_via d a r w)))"
proof (cases "serving w ip")
  case (Some d)
  then obtain dev where "n_devices w d = Some dev" using serving_device [OF assms] by blast
  with Some show ?thesis
    by (simp add: route_find_def by_address_eq [OF assms] hold_device_eq route_create_def route_of_def
        upd_route_def found_via_def direct_route_def held_def mask_bits_loop_eq split: option.splits)
next
  case None
  show ?thesis
  proof (cases "matching w ip")
    case no: None
    with None show ?thesis
      by (simp add: route_find_def by_address_eq [OF assms] static_scan [OF assms] route_of_def)
  next
    case (Some f)
    obtain r where r: "n_routes w f = Some r"
      using matching_best(2) [OF assms Some] by (auto simp: route_matches_def route_at_def)
    show ?thesis
    proof (cases "serving w (gateway_addr r)")
      case gw: None
      with None Some r show ?thesis
        by (simp add: route_find_def by_address_eq [OF assms] static_scan [OF assms] route_of_def)
    next
      case gw: (Some d)
      then obtain dev where "n_devices w d = Some dev" using serving_device [OF assms] by blast
      with None Some r gw show ?thesis
        by (simp add: route_find_def by_address_eq [OF assms] static_scan [OF assms] route_of_def
            hold_device_eq route_clone_def upd_route_def found_via_def route_copy split: option.splits)
    qed
  qed
qed

section \<open>Adding a route\<close>

lemma sorted_wrt_split_insert:
  assumes "sorted_wrt (\<lambda>x y. f y \<le> (f x :: nat)) xs"
  shows "sorted_wrt (\<lambda>x y. f y \<le> f x) (takeWhile (\<lambda>y. \<not> f y \<le> f x) xs @ x # dropWhile (\<lambda>y. \<not> f y \<le> f x) xs)"
  using assms
proof (induction xs)
  case Nil
  then show ?case by simp
next
  case (Cons y xs)
  have sub: "set (takeWhile (\<lambda>y. \<not> f y \<le> f x) xs) \<subseteq> set xs" "set (dropWhile (\<lambda>y. \<not> f y \<le> f x) xs) \<subseteq> set xs"
    by (auto dest: set_takeWhileD set_dropWhileD)
  show ?case
  proof (cases "f y \<le> f x")
    case True
    with Cons.prems show ?thesis by auto
  next
    case False
    with Cons sub show ?thesis by auto
  qed
qed

lemma most_specific_cong:
  assumes "\<And>x. x \<in> set xs \<Longrightarrow> route_at w' x = route_at w x"
  shows "routes_ok w' xs = routes_ok w xs" and "most_specific_first w' xs = most_specific_first w xs"
proof -
  show "routes_ok w' xs = routes_ok w xs" using assms by (simp add: routes_ok_def)
  show "most_specific_first w' xs = most_specific_first w xs"
    unfolding most_specific_first_def
    using assms sorted_wrt_mono_rel [of xs "\<lambda>x y. bits_at w y \<le> bits_at w x" "\<lambda>x y. bits_at w' y \<le> bits_at w' x"]
      sorted_wrt_mono_rel [of xs "\<lambda>x y. bits_at w' y \<le> bits_at w' x" "\<lambda>x y. bits_at w y \<le> bits_at w x"]
    by (auto simp: bits_at_def)
qed

text \<open>The route that \<open>route_add\<close> puts in the table.\<close>

definition route_of_entry :: "rtentry \<Rightarrow> route_t" where
  "route_of_entry e = \<lparr> rt_ref_count = 1, network_addr = rt_dst e, network_mask = rt_genmask e,
     gateway_addr = (if ucast (rte_flags e) AND RTF_GATEWAY \<noteq> 0 then rt_gateway e else 0),
     mask_bits = int (pop (rt_genmask e)), rt_flags = ucast (rte_flags e), rt_device = None \<rparr>"

definition with_route :: "addr \<Rightarrow> route_t \<Rightarrow> net_world \<Rightarrow> net_world" where
  "with_route a r w = w\<lparr> n_routes := (n_routes w)(a \<mapsto> r) \<rparr>"

lemma with_route_sel [simp]:
  "n_devices (with_route a r w) = n_devices w" "static_routes (with_route a r w) = static_routes w"
  "device_table (with_route a r w) = device_table w" "device_routes (with_route a r w) = device_routes w"
  "n_routes (with_route a r w) = (n_routes w)(a \<mapsto> r)"
  by (simp_all add: with_route_def)

lemma not_listed:
  "routes_ok w xs \<Longrightarrow> n_routes w a = None \<Longrightarrow> Some a \<notin> set xs"
  by (auto simp: routes_ok_def route_at_def)

lemma route_at_with:
  "routes_ok w xs \<Longrightarrow> n_routes w a = None \<Longrightarrow> x \<in> set xs \<Longrightarrow> route_at (with_route a r w) x = route_at w x"
  using not_listed [of w xs a] by (cases x) (auto simp: route_at_def)

lemma net_inv_with_route:
  assumes "net_inv w" and "n_routes w a = None"
  shows "net_inv (with_route a r w)"
proof -
  have at: "route_at (with_route a r w) x = route_at w x"
    if "x \<in> set (array_list (static_routes w)) \<or> x \<in> set (array_list (device_routes w))" for x
    using that assms(1) route_at_with [OF _ assms(2)] unfolding net_inv_def by blast
  have "devices_ok (with_route a r w) xs = devices_ok w xs" for xs
    by (simp add: devices_ok_def device_at_def)
  then show ?thesis
    using assms(1) most_specific_cong [of "array_list (static_routes w)" "with_route a r w" w]
      most_specific_cong [of "array_list (device_routes w)" "with_route a r w" w] at
    by (simp add: net_inv_def)
qed

text \<open>Inserting a new route into a table of a consistent state.\<close>

lemma insert_into:
  assumes km: "allocator km" and inv: "array_inv t" and ok: "routes_ok w (array_list t)"
    and sorted: "most_specific_first w (array_list t)" and new: "n_routes w a = None"
    and r: "mask_bits r = int (pop (network_mask r))"
    and r': "network_mask r' = network_mask r" "mask_bits r' = mask_bits r"
  shows "\<exists>i e t'. array_scan (array_get_item t)
           (\<lambda>x. do { tmp \<leftarrow> route_at (with_route a r w) x; Some (mask_bits tmp \<le> mask_bits r) })
           0 (array_get_size t) = Some i \<and>
     array_insert_item km t i (Some a) = Some (e, t') \<and> array_inv t' \<and>
     (e = Inl ENOMEM \<and> t' = t \<or>
      e = Inr () \<and> set (array_list t') = insert (Some a) (set (array_list t)) \<and>
      routes_ok (with_route a r' w) (array_list t') \<and>
      most_specific_first (with_route a r' w) (array_list t'))"
proof -
  let ?w = "with_route a r w" and ?w' = "with_route a r' w" and ?xs = "array_list t"
  have at: "route_at ?w x = route_at w x" "route_at ?w' x = route_at w x" if "x \<in> set ?xs" for x
    using that by (auto intro: route_at_with [OF ok new])
  have bits: "bits_at ?w' (Some a) = pop (network_mask r)"
    using r'(1) by (simp add: bits_at_def route_at_def)
  let ?p = "\<lambda>y. bits_at ?w' y \<le> bits_at ?w' (Some a)"
  have P: "do { tmp \<leftarrow> route_at ?w y; Some (mask_bits tmp \<le> mask_bits r) } = Some (?p y)" if y: "y \<in> set ?xs" for y
  proof -
    obtain s where "route_at w y = Some s" "mask_bits s = int (pop (network_mask s))"
      using y ok unfolding routes_ok_def by blast
    then show ?thesis using at [OF y] r bits by (simp add: bits_at_def)
  qed
  have "\<exists>i e t'. array_scan (array_get_item t)
           (\<lambda>x. do { tmp \<leftarrow> route_at ?w x; Some (mask_bits tmp \<le> mask_bits r) }) 0 (array_get_size t) = Some i \<and>
         array_insert_item km t i (Some a) = Some (e, t') \<and> array_inv t' \<and>
         (e = Inr () \<and> array_list t' = takeWhile (\<lambda>y. \<not> ?p y) ?xs @ Some a # dropWhile (\<lambda>y. \<not> ?p y) ?xs \<or>
          e = Inl ENOMEM \<and> t' = t)"
    by (rule pointer_array.scan_insert [OF array_client [OF km] inv]) (rule P)
  then obtain i e t' where t': "array_scan (array_get_item t)
           (\<lambda>x. do { tmp \<leftarrow> route_at ?w x; Some (mask_bits tmp \<le> mask_bits r) })
           0 (array_get_size t) = Some i" "array_insert_item km t i (Some a) = Some (e, t')" "array_inv t'"
    "e = Inr () \<and> array_list t' = takeWhile (\<lambda>y. \<not> ?p y) ?xs @ Some a # dropWhile (\<lambda>y. \<not> ?p y) ?xs \<or>
     e = Inl ENOMEM \<and> t' = t"
    by blast
  have *: "set (array_list t') = insert (Some a) (set ?xs) \<and> routes_ok ?w' (array_list t') \<and>
      most_specific_first ?w' (array_list t')"
    if l: "array_list t' = takeWhile (\<lambda>y. \<not> ?p y) ?xs @ Some a # dropWhile (\<lambda>y. \<not> ?p y) ?xs"
  proof (intro conjI)
    have split: "set (takeWhile (\<lambda>y. \<not> ?p y) ?xs) \<union> set (dropWhile (\<lambda>y. \<not> ?p y) ?xs) = set ?xs"
      by (metis set_append takeWhile_dropWhile_id)
    show members: "set (array_list t') = insert (Some a) (set ?xs)" using split l by auto
    have "route_at ?w' (Some a) = Some r'" by (simp add: route_at_def)
    then show "routes_ok ?w' (array_list t')"
      using ok at members r r'
      by (simp add: routes_ok_def)
    have "most_specific_first ?w' ?xs" using sorted most_specific_cong(2) [of ?xs ?w' w] at by blast
    then show "most_specific_first ?w' (array_list t')"
      unfolding most_specific_first_def l by (rule sorted_wrt_split_insert)
  qed
  show ?thesis
    by (rule exI [of _ i], rule exI [of _ e], rule exI [of _ t']) (use t' * in blast)
qed

text \<open>\<open>route_add\<close> on a consistent state: a failed allocation of the route changes nothing, a failed
  growth of the table leaves the route allocated outside every table and is reported as success.\<close>

lemma route_add_cases:
  assumes inv: "net_inv w" and E: "net_env_ok E"
  shows "\<exists>r w'. route_add E e w = Some (r, w') \<and> net_inv w' \<and> n_devices w' = n_devices w \<and> device_table w' = device_table w \<and>
    (r = Inl ENOMEM \<and> ne_new E w = None \<and> w' = w \<or>
     r = Inr () \<and> (\<exists>a. ne_new E w = Some a \<and> n_routes w' = (n_routes w)(a \<mapsto> route_of_entry e) \<and>
       (static_routes w' = static_routes w \<or>
        set (array_list (static_routes w')) = insert (Some a) (set (array_list (static_routes w))))))"
proof (cases "ne_new E w")
  case None
  then show ?thesis using inv by (auto simp: route_add_def route_create_def)
next
  case (Some a)
  then have new: "n_routes w a = None" using E by (auto simp: net_env_ok_def)
  let ?r = "route_of_entry e"
  let ?r2 = "?r\<lparr> rt_ref_count := 2 \<rparr>"
  have c: "route_create E (rt_dst e) (rt_genmask e) (Some (rt_gateway e)) (ucast (rte_flags e)) w =
      Some (Some a, with_route a ?r w)"
    using Some by (simp add: route_create_def route_of_entry_def with_route_def mask_bits_loop_eq)
  have s: "array_inv (static_routes w)" "routes_ok w (array_list (static_routes w))"
    "most_specific_first w (array_list (static_routes w))" "allocator (ne_km E)"
    using inv E by (auto simp: net_inv_def net_env_ok_def)
  obtain i err t' where t': "array_scan (array_get_item (static_routes w))
           (\<lambda>x. do { tmp \<leftarrow> route_at (with_route a ?r w) x; Some (mask_bits tmp \<le> mask_bits ?r) })
           0 (array_get_size (static_routes w)) = Some i"
     "array_insert_item (ne_km E) (static_routes w) i (Some a) = Some (err, t')" "array_inv t'"
     "err = Inl ENOMEM \<and> t' = static_routes w \<or>
      err = Inr () \<and> set (array_list t') = insert (Some a) (set (array_list (static_routes w))) \<and>
      routes_ok (with_route a ?r w) (array_list t') \<and> most_specific_first (with_route a ?r w) (array_list t')"
    using insert_into [OF s(4,1,2,3) new, of ?r ?r] by (auto simp: route_of_entry_def)
  let ?w' = "(with_route a ?r w)\<lparr> static_routes := t' \<rparr>"
  have "route_insert E Static a (with_route a ?r w) = Some (Inr (), (with_route a ?r2 w)\<lparr> static_routes := t' \<rparr>)"
    using t'(1,2) by (simp add: route_insert_def upd_route_def with_route_def route_of_entry_def)
  moreover have "route_put a ((with_route a ?r2 w)\<lparr> static_routes := t' \<rparr>) = Some ?w'"
    by (simp add: route_put_def upd_route_def with_route_def route_of_entry_def)
  ultimately have add: "route_add E e w = Some (Inr (), ?w')" by (simp add: route_add_def c)
  have base: "net_inv (with_route a ?r w)" by (rule net_inv_with_route [OF inv new])
  have same: "routes_ok ?w' = routes_ok (with_route a ?r w)" "devices_ok ?w' = devices_ok (with_route a ?r w)"
    "most_specific_first ?w' = most_specific_first (with_route a ?r w)"
    by (simp_all add: routes_ok_def devices_ok_def most_specific_first_def bits_at_def route_at_def device_at_def fun_eq_iff)
  have "net_inv ?w'"
    using base t'(3,4) by (auto simp: net_inv_def same)
  moreover have "static_routes ?w' = static_routes w \<or>
        set (array_list (static_routes ?w')) = insert (Some a) (set (array_list (static_routes w)))"
    using t'(4) by auto
  ultimately show ?thesis
    by (intro exI [of _ "Inr ()"] exI [of _ ?w']) (simp add: add Some)
qed

section \<open>Properties\<close>


text \<open>A state with one device (10.0.0.0/24, up) and the routes 0.0.0.0/0 and 10.1.0.0/16 via 10.0.0.1, the
  words in the byte order of the machine.\<close>

definition wit_device :: net_device_t where
  "wit_device = \<lparr> nd_ref_count = 1, nd_name = [101, 116, 104, 48, 0], nd_flags = 7, nd_ip_addr = 0x0A00000A,
     nd_netmask = 0x00FFFFFF, nd_broadcast = 0 \<rparr>"

definition wit_route :: "u32 \<Rightarrow> u32 \<Rightarrow> int \<Rightarrow> route_t" where
  "wit_route net msk n = \<lparr> rt_ref_count = 1, network_addr = net, network_mask = msk, gateway_addr = 0x0100000A,
     mask_bits = n, rt_flags = 3, rt_device = None \<rparr>"

definition wit_table :: "vptr list \<Rightarrow> array_t" where
  "wit_table xs = \<lparr> item_count = int (length xs), max_item_count = int (length xs), realloc_size = 1, items = Some xs \<rparr>"

definition wit_net :: net_world where
  "wit_net = \<lparr> n_devices = [1 \<mapsto> wit_device],
     n_routes = [2 \<mapsto> wit_route 0 0 0, 3 \<mapsto> wit_route 0x0000010A 0x0000FFFF 16],
     device_table = wit_table [Some 1], static_routes = wit_table [Some 3, Some 2], device_routes = array_init \<rparr>"

lemma wit_table_ok [simp]: "xs \<noteq> [] \<Longrightarrow> array_inv (wit_table xs)" "array_list (wit_table xs) = xs"
  by (simp_all add: wit_table_def array_inv_def array_cells_def array_list_def)

lemma pop_0 [simp]: "pop 0 = 0"
  by (simp add: pop_def)

lemma pop_16 [simp]: "pop 0xFFFF = 16"
  using mask_bits_loop_eq [of "0xFFFF" 0] by (simp add: mask_bits_loop.simps)

lemma net_inv_wit: "net_inv wit_net"
  by (simp add: net_inv_def wit_net_def devices_ok_def routes_ok_def most_specific_first_def bits_at_def
      device_at_def route_at_def wit_device_def wit_route_def)

definition wit_env :: net_env where
  "wit_env = \<lparr> ne_km = eager_alloc None, ne_new = (\<lambda>w. if n_routes w 9 = None then Some 9 else None) \<rparr>"

lemma wit_env_ok: "net_env_ok wit_env"
  by (simp add: net_env_ok_def wit_env_def allocator_eager)


text \<open>Every route that \<open>route_find\<close> hands out can be given back: \<open>route_put\<close> then frees it, releases the
  device and leaves the state exactly as it was before the search.\<close>

theorem route_find_put:
  assumes inv: "net_inv w" and E: "net_env_ok E" and f: "route_find E ip w = Some (Some a, w')"
  shows "route_put a w' = Some w"
proof -
  obtain d r where d: "route_of w ip = Some (d, r)" and new: "ne_new E (held d w) = Some a"
    and w': "w' = found_via d a r w"
    using f by (auto simp: route_find_eq [OF inv] split: option.splits)
  have a: "n_routes w a = None" using E new unfolding net_env_ok_def by (metis held_sel(1))
  obtain ip' where "serving w ip' = Some d"
    using d by (auto simp: route_of_def split: option.splits if_splits)
  then obtain dev where dev: "n_devices w d = Some dev" "0 < nd_ref_count dev"
    using serving_device [OF inv] by blast
  have "Some a \<notin> set (array_list (device_routes w))"
    using not_listed [OF _ a] inv by (auto simp: net_inv_def)
  then have rm: "array_remove_item (device_routes w) (Some a) = Some (Inl ENOENT, device_routes w)"
    using array_remove_item_refines [of "device_routes w" "Some a"] inv by (auto simp: net_inv_def)
  have dv: "(n_devices w)(d \<mapsto> dev) = n_devices w" and rt: "(n_routes w)(a := None) = n_routes w"
    using dev(1) a by auto
  show ?thesis
    using dev(2) by (simp add: w' found_via_def held_def dev(1) route_put_def upd_route_def rm net_device_put_def
        upd_device_def dv rt)
qed

theorem route_find_put_witness:
  "\<exists>w'. route_find wit_env 0x0500000A wit_net = Some (Some 9, w') \<and> route_put 9 w' = Some wit_net"
proof -
  have d: "serving wit_net 0x0500000A = Some 1"
    by (simp add: serving_def wit_net_def dev_serves_def device_at_def wit_device_def IP_EQUALS_MASKED_def
        net_device_flags_def NETDEV_UP_def)
  have r: "n_devices wit_net 1 = Some wit_device" "n_routes wit_net 9 = None"
    by (simp_all add: wit_net_def)
  obtain w' where "route_find wit_env 0x0500000A wit_net = Some (Some 9, w')"
    using r d by (simp add: route_find_eq [OF net_inv_wit] route_of_def wit_env_def)
  then show ?thesis using route_find_put [OF net_inv_wit wit_env_ok] by blast
qed



text \<open>A search whose copy cannot be allocated returns \<^verbatim>\<open>NULL\<close> and keeps the reference to the device.\<close>

lemma route_find_leaks_device:
  assumes "net_inv w" and "route_of w ip = Some (d, r)" and "ne_new E (held d w) = None"
  shows "route_find E ip w = Some (None, held d w)"
  using assms by (simp add: route_find_eq)

end
