(* ===== verification/Kernel_Div64.thy ===== *)
theory Kernel_Div64
  imports Kernel_Prelude "HOL-Library.Signed_Division"
begin

unbundle bit_operations_syntax

text \<open>
  The 64-bit division of the kernel, \<^verbatim>\<open>source/kernel/src/lib/udivmoddi4.c\<close>: the compiler calls these routines
  for every \<^verbatim>\<open>/\<close> and \<^verbatim>\<open>%\<close> on 64-bit operands of the 32-bit kernel. The routine works on the two halves of its
  operands with the processor's 64 by 32 division; the normalised case divides by the upper half of the
  divisor alone and corrects the estimate. The result \<open>None\<close> is the divide error of the processor.
\<close>

section \<open>Primitives\<close>

text \<open>The halves of a 64-bit word (\<^verbatim>\<open>DWunion\<close>) and their composition.\<close>

definition low :: "u64 \<Rightarrow> u32" where "low x = ucast x"
definition high :: "u64 \<Rightarrow> u32" where "high x = ucast (drop_bit 32 x)"
definition cat :: "u32 \<Rightarrow> u32 \<Rightarrow> u64" where "cat h l = push_bit 32 (ucast h) OR ucast l"

text \<open>The instructions: \<^verbatim>\<open>divl\<close> faults when the quotient does not fit, \<^verbatim>\<open>subl; sbbl\<close> and \<^verbatim>\<open>mull\<close>.\<close>

definition udiv_qrnnd :: "u32 \<Rightarrow> u32 \<Rightarrow> u32 \<Rightarrow> (u32 \<times> u32) option" where
  "udiv_qrnnd n1 n0 dv =
     (let n = unat n1 * 4294967296 + unat n0; d = unat dv
      in if d = 0 \<or> 4294967296 \<le> n div d then None else Some (of_nat (n div d), of_nat (n mod d)))"

definition sub_ddmmss :: "u32 \<Rightarrow> u32 \<Rightarrow> u32 \<Rightarrow> u32 \<Rightarrow> u32 \<times> u32" where
  "sub_ddmmss ah al bh bl = (let s = cat ah al - cat bh bl in (high s, low s))"

definition umul_ppmm :: "u32 \<Rightarrow> u32 \<Rightarrow> u32 \<times> u32" where
  "umul_ppmm u v = (let p = (ucast u :: u64) * ucast v in (high p, low p))"

definition count_leading_zeros :: "u32 \<Rightarrow> nat" where
  "count_leading_zeros x = length (takeWhile (\<lambda>i. \<not> bit x i) (rev [0..<32]))"

section \<open>The routine\<close>

text \<open>\<open>rp\<close> says whether the caller passed a pointer for the remainder.\<close>

definition udivmoddi4 :: "u64 \<Rightarrow> u64 \<Rightarrow> bool \<Rightarrow> (u64 \<times> u64 option) option" where
  "udivmoddi4 n d rp =
     (let d0 = low d; d1 = high d; n0 = low n; n1 = high n
      in if d1 = 0 then
           (if n1 < d0 then do {
              (q0, n0) \<leftarrow> udiv_qrnnd n1 n0 d0;
              Some (cat 0 q0, if rp then Some (cat 0 n0) else None) }
            else do {
              d0 \<leftarrow> (if d0 = 0 then None else Some d0);
              (q1, n1) \<leftarrow> udiv_qrnnd 0 n1 d0;
              (q0, n0) \<leftarrow> udiv_qrnnd n1 n0 d0;
              Some (cat q1 q0, if rp then Some (cat 0 n0) else None) })
         else if n1 < d1 then Some (cat 0 0, if rp then Some (cat n1 n0) else None)
         else
           (let bm = count_leading_zeros d1
            in if bm = 0 then
                 (let (q0, (n1, n0)) = (if d1 < n1 \<or> d0 \<le> n0 then (1, sub_ddmmss n1 n0 d1 d0) else (0, (n1, n0)))
                  in Some (cat 0 q0, if rp then Some (cat n1 n0) else None))
               else
                 (let b = 32 - bm;
                      d1 = push_bit bm d1 OR drop_bit b d0;
                      d0 = push_bit bm d0;
                      n2 = drop_bit b n1;
                      n1 = push_bit bm n1 OR drop_bit b n0;
                      n0 = push_bit bm n0
                  in do {
                    (q0, n1) \<leftarrow> udiv_qrnnd n2 n1 d1;
                    let (m1, m0) = umul_ppmm q0 d0;
                    let (q0, (m1, m0)) = (if n1 < m1 \<or> m1 = n1 \<and> n0 < m0
                          then (q0 - 1, sub_ddmmss m1 m0 d1 d0) else (q0, (m1, m0)));
                    let (n1, n0) = sub_ddmmss n1 n0 m1 m0;
                    Some (cat 0 q0,
                      if rp then Some (cat (drop_bit bm n1) (push_bit b n1 OR drop_bit bm n0)) else None) })))"

definition umoddi3 :: "u64 \<Rightarrow> u64 \<Rightarrow> u64 option" where
  "umoddi3 u v = do { (q, r) \<leftarrow> udivmoddi4 u v True; r }"

definition udivdi3 :: "u64 \<Rightarrow> u64 \<Rightarrow> u64 option" where
  "udivdi3 n d = do { (q, r) \<leftarrow> udivmoddi4 n d False; Some q }"

text \<open>The signed routines: \<open>c\<close> is the sign of the result, and the operands are negated in 64 bits.\<close>

definition divdi3 :: "u64 \<Rightarrow> u64 \<Rightarrow> u64 option" where
  "divdi3 u v =
     (let c = False;
          (c, u) = (if sint (high u) < 0 then (\<not> c, - u) else (c, u));
          (c, v) = (if sint (high v) < 0 then (\<not> c, - v) else (c, v))
      in do {
        (w, r) \<leftarrow> udivmoddi4 u v False;
        Some (if c then - w else w) })"

definition moddi3 :: "u64 \<Rightarrow> u64 \<Rightarrow> u64 option" where
  "moddi3 u v =
     (let (c, u) = (if sint (high u) < 0 then (True, - u) else (False, u));
          v = (if sint (high v) < 0 then - v else v)
      in do {
        (q, w) \<leftarrow> udivmoddi4 u v True;
        w \<leftarrow> w;
        Some (if c then - w else w) })"

section \<open>Halves\<close>

lemma unat_lt32: "unat (x :: u32) < 4294967296"
  by (rule order_less_le_trans [OF unsigned_less]) simp

lemma unat_lt64: "unat (x :: u64) < 18446744073709551616"
  by (rule order_less_le_trans [OF unsigned_less]) simp

lemma unat_low: "unat (low x) = unat x mod 4294967296"
  by (simp add: low_def unsigned_ucast_eq take_bit_eq_mod)

lemma unat_high: "unat (high x) = unat x div 4294967296"
proof -
  have "unat x div 4294967296 < 4294967296" using unat_lt64 [of x] by (simp add: less_mult_imp_div_less)
  then show ?thesis by (simp add: high_def unsigned_ucast_eq take_bit_eq_mod drop_bit_eq_div unat_div)
qed

lemma unat_cat: "unat (cat h l) = unat h * 4294967296 + unat l"
proof -
  have "push_bit 32 (ucast h) AND (ucast l :: u64) = 0"
    by (rule bit_eqI) (auto simp: bit_and_iff bit_push_bit_iff bit_ucast_iff dest: bit_imp_le_length)
  then have "cat h l = push_bit 32 (ucast h) + ucast l"
    unfolding cat_def by (simp add: disjunctive_add_eq_or)
  then show ?thesis
    using unat_lt32 [of h] unat_lt32 [of l]
    by (simp add: push_bit_eq_mult unat_word_ariths unsigned_ucast_eq take_bit_eq_mod)
qed

lemma cat_halves [simp]: "cat (high x) (low x) = x"
  by (rule word_unat_eq_iff [THEN iffD2]) (simp add: unat_cat unat_high unat_low)

lemma halves_cat [simp]: "high (cat h l) = h" "low (cat h l) = l"
  using unat_lt32 [of l] by (auto simp: word_unat_eq_iff unat_high unat_low unat_cat)

section \<open>Leading zeros and shifts of two halves\<close>

lemma clz_bits:
  assumes "x \<noteq> 0"
  shows "count_leading_zeros x \<le> 31" "bit x (31 - count_leading_zeros x)"
    "\<And>i. 31 - count_leading_zeros x < i \<Longrightarrow> \<not> bit x i"
proof -
  let ?k = "count_leading_zeros x" and ?xs = "rev [0..<32] :: nat list"
  obtain m where m: "bit x m" using assms by (auto simp: bit_eq_iff)
  then have "m < 32" using bit_imp_le_length by fastforce
  have len: "length ?xs = 32" by simp
  have nth: "?xs ! j = 31 - j" if "j < 32" for j using that by (simp add: rev_nth)
  have "m \<in> set ?xs" using \<open>m < 32\<close> by simp
  then have ne: "takeWhile (\<lambda>i. \<not> bit x i) ?xs \<noteq> ?xs" using m by (metis takeWhile_eq_all_conv)
  then have k: "?k < 32"
    unfolding count_leading_zeros_def
    by (metis len length_takeWhile_le le_neq_implies_less takeWhile_eq_take take_all_iff)
  then show "?k \<le> 31" by simp
  show "bit x (31 - ?k)"
    using nth_length_takeWhile [of "\<lambda>i. \<not> bit x i" ?xs] k nth [OF k] unfolding count_leading_zeros_def by simp
  fix i assume i: "31 - ?k < i"
  show "\<not> bit x i"
  proof (cases "i < 32")
    case True
    then have j: "31 - i < ?k" using i k by simp
    then have "takeWhile (\<lambda>i. \<not> bit x i) ?xs ! (31 - i) = i"
      using nth [of "31 - i"] True unfolding count_leading_zeros_def by (simp add: takeWhile_nth)
    moreover have "takeWhile (\<lambda>i. \<not> bit x i) ?xs ! (31 - i) \<in> set (takeWhile (\<lambda>i. \<not> bit x i) ?xs)"
      using j unfolding count_leading_zeros_def by (rule nth_mem)
    ultimately show ?thesis by (metis set_takeWhileD)
  next
    case False
    then show ?thesis using bit_imp_le_length [of x i] by auto
  qed
qed

lemma clz_bounds:
  assumes "x \<noteq> 0"
  shows "2 ^ (31 - count_leading_zeros x) \<le> unat x" "unat x < 2 ^ (32 - count_leading_zeros x)"
proof -
  let ?k = "count_leading_zeros x"
  have "bit (unat x) (31 - ?k)" using clz_bits(2) [OF assms] by (simp add: bit_unsigned_iff)
  then have "odd (unat x div 2 ^ (31 - ?k))" using bit_iff_odd by blast
  then have "0 < unat x div 2 ^ (31 - ?k)" using odd_pos by blast
  then show "2 ^ (31 - ?k) \<le> unat x" by (simp add: div_greater_zero_iff)
  have "n < 32 - ?k" if "bit x n" for n
    using clz_bits(3) [OF assms, of n] clz_bits(1) [OF assms] that by (cases "31 - ?k < n") auto
  then have "take_bit (32 - ?k) x = x"
    by (intro bit_eqI) (auto simp: bit_take_bit_iff)
  then have "take_bit (32 - ?k) (unat x) = unat x" by (metis unsigned_take_bit_eq)
  then show "unat x < 2 ^ (32 - ?k)" by (metis take_bit_nat_less_exp)
qed

lemma cat_shl:
  assumes "0 < k" and "k < 32"
  shows "cat (push_bit k h OR drop_bit (32 - k) l) (push_bit k l) = push_bit k (cat h l)"
proof (rule bit_word_eqI)
  fix n assume n: "n < LENGTH(64)"
  show "bit (cat (push_bit k h OR drop_bit (32 - k) l) (push_bit k l)) n = bit (push_bit k (cat h l)) n"
    using n assms
    by (auto simp: cat_def bit_or_iff bit_push_bit_iff bit_drop_bit_eq bit_ucast_iff add.commute dest: bit_imp_le_length)
qed

lemma cat_shr:
  assumes "0 < k" and "k < 32"
  shows "cat (drop_bit k h) (push_bit (32 - k) h OR drop_bit k l) = drop_bit k (cat h l)"
proof (rule bit_word_eqI)
  fix n assume n: "n < LENGTH(64)"
  show "bit (cat (drop_bit k h) (push_bit (32 - k) h OR drop_bit k l)) n = bit (drop_bit k (cat h l)) n"
  proof (cases "n < 32")
    case True
    with n assms show ?thesis
      by (auto simp: cat_def bit_or_iff bit_push_bit_iff bit_drop_bit_eq bit_ucast_iff add.commute dest: bit_imp_le_length)
  next
    case False
    then have "k + (n - 32) = k + n - 32" by simp
    with False n assms show ?thesis
      by (auto simp: cat_def bit_or_iff bit_push_bit_iff bit_drop_bit_eq bit_ucast_iff dest: bit_imp_le_length)
  qed
qed

section \<open>Arithmetic of the normalised case\<close>

text \<open>The product of the estimated digit with the lower half of the divisor exceeds the partial
  remainder by less than the divisor: one correction is enough.\<close>

lemma estimate_product:
  fixes a c s t :: nat
  assumes t: "t < 4294967296 * s" and a: "2147483648 \<le> a" and c: "c \<le> 4294967296 - s" and s: "s \<le> 4294967296"
  shows "t div a * c \<le> a * 4294967296"
proof -
  have sq: "4611686018427387904 \<le> a * a" using mult_le_mono [OF a a] by simp
  have "s * c \<le> s * (4294967296 - s)" using c by simp
  also have "\<dots> \<le> 4611686018427387904"
  proof -
    have "0 \<le> (int s - 2147483648) * (int s - 2147483648)" by simp
    then have "int s * (4294967296 - int s) \<le> 4611686018427387904" by (simp add: algebra_simps)
    then have "int (s * (4294967296 - s)) \<le> int 4611686018427387904" using s by (simp add: of_nat_diff)
    then show ?thesis by linarith
  qed
  finally have sc: "s * c \<le> a * a" using sq by linarith
  have "t div a * a \<le> t" by (rule div_times_less_eq_dividend)
  then have "(t div a * c) * a \<le> t * c" by (metis mult.assoc mult.commute mult_le_mono1)
  also have "\<dots> \<le> (4294967296 * s) * c" using t by simp
  also have "\<dots> \<le> 4294967296 * (a * a)" using sc by simp
  finally have "(t div a * c) * a \<le> (a * 4294967296) * a" by (simp add: ac_simps)
  then show ?thesis using a by simp
qed

section \<open>The instructions on natural numbers\<close>

lemma udiv_qrnnd_Some:
  assumes "unat n1 < unat dv"
  shows "\<exists>q r. udiv_qrnnd n1 n0 dv = Some (q, r) \<and>
    unat q = (unat n1 * 4294967296 + unat n0) div unat dv \<and> unat r = (unat n1 * 4294967296 + unat n0) mod unat dv"
proof -
  let ?n = "unat n1 * 4294967296 + unat n0"
  have "?n < 4294967296 * unat dv"
    using assms unat_lt32 [of n0] mult_le_mono1 [of "Suc (unat n1)" "unat dv" 4294967296] by simp
  then have q: "?n div unat dv < 4294967296" by (simp add: less_mult_imp_div_less)
  have "?n mod unat dv < unat dv" using assms by simp
  then have r: "?n mod unat dv < 4294967296" using unat_lt32 [of dv] by linarith
  show ?thesis
    using q r assms by (simp add: udiv_qrnnd_def Let_def unsigned_of_nat take_bit_eq_mod)
qed

lemma unat_eq_cat0: "unat q = k \<Longrightarrow> k < 4294967296 \<Longrightarrow> unat (cat 0 q) = k"
  by (simp add: unat_cat)

text \<open>A pair of quotient and remainder is the result of the division.\<close>

lemma div_mod_unique:
  fixes n d q r :: u64
  assumes "unat n = unat q * unat d + unat r" and "unat r < unat d"
  shows "q = n div d" "r = n mod d"
proof -
  have "unat n div unat d = unat q" "unat n mod unat d = unat r"
    using assms by simp_all
  then show "q = n div d" "r = n mod d"
    by (simp_all add: word_unat_eq_iff unat_div unat_mod)
qed

lemma sub_pair: "sub_ddmmss ah al bh bl = (high (cat ah al - cat bh bl), low (cat ah al - cat bh bl))"
  by (simp add: sub_ddmmss_def Let_def)

lemma mul_pair: "umul_ppmm u v = (high (ucast u * ucast v), low (ucast u * ucast v))"
  by (simp add: umul_ppmm_def Let_def)

lemma unat_mul_pair: "unat (ucast (u :: u32) * ucast (v :: u32) :: u64) = unat u * unat v"
proof -
  have "unat u * unat v < 4294967296 * 4294967296"
    using unat_lt32 [of u] unat_lt32 [of v] by (intro mult_strict_mono) auto
  then show ?thesis
    using unat_lt32 [of u] unat_lt32 [of v] by (simp add: unat_word_ariths unsigned_ucast_eq take_bit_eq_mod)
qed

lemma cat_less: "a < c \<or> c = a \<and> b < d \<longleftrightarrow> cat a b < cat c d"
  using unat_lt32 [of b] unat_lt32 [of d] by (auto simp: word_less_nat_alt unat_cat word_unat_eq_iff)

section \<open>The branches\<close>

definition div_result :: "u64 \<Rightarrow> u64 \<Rightarrow> bool \<Rightarrow> (u64 \<times> u64 option) option" where
  "div_result n d rp = Some (n div d, if rp then Some (n mod d) else None)"

lemma div_resultI:
  assumes "unat n = unat q * unat d + unat r" and "unat r < unat d"
  shows "Some (q, if rp then Some r else None) = div_result n d rp"
  using div_mod_unique [OF assms] by (simp add: div_result_def)

lemma unat_halves: "unat x = unat (high x) * 4294967296 + unat (low x)"
  using unat_cat [of "high x" "low x"] by simp

lemma branch_short:
  assumes "high d = 0" and "d \<noteq> 0"
  shows "udivmoddi4 n d rp = div_result n d rp"
proof -
  have d: "unat d = unat (low d)" using unat_halves [of d] assms(1) by simp
  then have pos: "0 < unat (low d)" using assms(2) by (metis unat_gt_0)
  then have low: "low d \<noteq> 0" by (metis unat_0 less_irrefl)
  show ?thesis
  proof (cases "high n < low d")
    case True
    then obtain q r where qr: "udiv_qrnnd (high n) (low n) (low d) = Some (q, r)"
      "unat q = unat n div unat d" "unat r = unat n mod unat d"
      using udiv_qrnnd_Some [of "high n" "low d" "low n"] unat_halves [of n] d
      by (auto simp: word_less_nat_alt)
    have "unat n = unat (cat 0 q) * unat d + unat (cat 0 r)" "unat (cat 0 r) < unat d"
      using qr(2,3) pos d by (simp_all add: unat_cat)
    from div_resultI [OF this] show ?thesis
      using True qr(1) assms(1) by (simp add: udivmoddi4_def Let_def)
  next
    case False
    let ?d = "unat d" and ?h = "unat (high n)"
    obtain q1 r1 where 1: "udiv_qrnnd 0 (high n) (low d) = Some (q1, r1)" "unat q1 = ?h div ?d" "unat r1 = ?h mod ?d"
      using udiv_qrnnd_Some [of 0 "low d" "high n"] pos d by auto
    have "unat r1 < unat (low d)" using 1(3) pos d by simp
    then obtain q0 r0 where 0: "udiv_qrnnd r1 (low n) (low d) = Some (q0, r0)"
      "unat q0 = (unat r1 * 4294967296 + unat (low n)) div ?d" "unat r0 = (unat r1 * 4294967296 + unat (low n)) mod ?d"
      using udiv_qrnnd_Some [of r1 "low d" "low n"] d by auto
    have "unat r1 * 4294967296 + unat (low n) = unat q0 * ?d + unat r0" "?h = unat q1 * ?d + unat r1"
      using 0 1 by simp_all
    then have "unat n = unat (cat q1 q0) * ?d + unat (cat 0 r0)"
      unfolding unat_cat unat_halves [of n] by (simp add: algebra_simps)
    moreover have "unat (cat 0 r0) < ?d" using 0(3) pos d by (simp add: unat_cat)
    ultimately show ?thesis
      using div_resultI [of n "cat q1 q0" d "cat 0 r0" rp] False low 0(1) 1(1) assms(1)
      by (simp add: udivmoddi4_def Let_def)
  qed
qed

lemma branch_less:
  assumes "high d \<noteq> 0" and "high n < high d"
  shows "udivmoddi4 n d rp = div_result n d rp"
proof -
  have "unat n < unat d"
    using assms(2) unat_halves [of n] unat_halves [of d] unat_lt32 [of "low n"] by (simp add: word_less_nat_alt)
  then have "Some (0, if rp then Some n else None) = div_result n d rp" by (intro div_resultI) simp_all
  moreover have "cat 0 0 = 0" by (simp add: cat_def)
  ultimately show ?thesis using assms by (cases rp) (simp_all add: udivmoddi4_def Let_def)
qed

lemma unat_diff: "b \<le> a \<Longrightarrow> unat (a - b) = unat a - unat (b :: u64)"
  by (simp add: unat_sub_if' word_le_nat_alt)

lemma branch_top:
  assumes "high d \<noteq> 0" and "\<not> high n < high d" and "count_leading_zeros (high d) = 0"
  shows "udivmoddi4 n d rp = div_result n d rp"
proof -
  have top: "2147483648 \<le> unat (high d)" using clz_bounds(1) [OF assms(1)] assms(3) by simp
  have le: "d \<le> n \<longleftrightarrow> high d < high n \<or> low d \<le> low n"
    using cat_less [of "high n" "high d" "low n" "low d"] assms(2) by (auto simp: not_less)
  have n: "unat n < 2 * unat d" using top unat_lt64 [of n] unat_halves [of d] by linarith
  show ?thesis
  proof (cases "d \<le> n")
    case True
    have "unat n = unat (cat 0 1) * unat d + unat (n - d)" "unat (n - d) < unat d"
      using True n by (simp_all add: unat_cat unat_diff word_le_nat_alt)
    from div_resultI [OF this, of rp] show ?thesis
      using True le assms by (cases rp) (simp_all add: udivmoddi4_def Let_def sub_pair)
  next
    case False
    then have "unat n = unat (cat 0 0) * unat d + unat n" "unat n < unat d"
      by (simp_all add: unat_cat word_le_nat_alt not_le)
    from div_resultI [OF this, of rp] show ?thesis
      using False le assms by (cases rp) (simp_all add: udivmoddi4_def Let_def)
  qed
qed

lemma shl_halves:
  assumes "0 < k" and "k < 32"
  shows "push_bit k (high x) OR drop_bit (32 - k) (low x) = high (push_bit k x)"
    and "push_bit k (low x) = low (push_bit k x)"
  using cat_shl [OF assms, of "high x" "low x"] by (metis cat_halves halves_cat(1), metis cat_halves halves_cat(2))

lemma shr_halves:
  assumes "0 < k" and "k < 32"
  shows "cat (drop_bit k (high x)) (push_bit (32 - k) (high x) OR drop_bit k (low x)) = drop_bit k x"
  using cat_shr [OF assms, of "high x" "low x"] by simp

text \<open>The shifted operands as numbers.\<close>

lemma unat_shl: "unat (push_bit k (x :: u64)) = unat x * 2 ^ k mod 18446744073709551616"
proof -
  have "unat (push_bit k x) = take_bit 64 (push_bit k (unat x))" by (simp add: unsigned_push_bit_eq)
  then show ?thesis by (simp only: push_bit_eq_mult [where ?'a = nat] take_bit_eq_mod) simp
qed

lemma shifted_divisor:
  assumes "high d \<noteq> 0" and k: "k = count_leading_zeros (high d)"
  shows "unat (push_bit k d) = unat d * 2 ^ k" and "2147483648 \<le> unat (high (push_bit k d))"
    and "unat (low (push_bit k d)) \<le> 4294967296 - 2 ^ k"
proof -
  have k31: "k \<le> 31" using clz_bits(1) [OF assms(1)] k by simp
  have p: "(2 :: nat) ^ (32 - k) * 2 ^ k = 4294967296" "(2 :: nat) ^ (31 - k) * 2 ^ k = 2147483648"
    using k31 by (simp_all flip: power_add)
  have "Suc (unat (high d)) \<le> 2 ^ (32 - k)" using clz_bounds(2) [OF assms(1)] k by simp
  then have "Suc (unat (high d)) * 2 ^ k \<le> 4294967296" using mult_le_mono1 [of _ _ "2 ^ k"] p(1) by metis
  then have "Suc (unat (high d)) * 2 ^ k * 4294967296 \<le> 4294967296 * 4294967296" by (rule mult_le_mono1)
  then have "Suc (unat (high d)) * 4294967296 * 2 ^ k \<le> 4294967296 * 4294967296" by (simp only: ac_simps)
  moreover have "unat d < Suc (unat (high d)) * 4294967296"
    using unat_halves [of d] unat_lt32 [of "low d"] by simp
  then have "unat d * 2 ^ k < Suc (unat (high d)) * 4294967296 * 2 ^ k" by simp
  ultimately have "unat d * 2 ^ k < 18446744073709551616" by linarith
  then show u: "unat (push_bit k d) = unat d * 2 ^ k"
    by (simp add: unat_shl)
  have "2 ^ (31 - k) * 4294967296 \<le> unat d"
    using mult_le_mono1 [OF clz_bounds(1) [OF assms(1)], of 4294967296] k unat_halves [of d] by simp
  from mult_le_mono1 [OF this, of "2 ^ k"] have "(2 ^ (31 - k) * 2 ^ k) * 4294967296 \<le> unat d * 2 ^ k"
    by (simp only: ac_simps)
  then have "2147483648 * 4294967296 \<le> unat (push_bit k d)" using p(2) u by simp
  then show "2147483648 \<le> unat (high (push_bit k d))" by (simp add: unat_high)
  have dvd: "2 ^ k dvd (4294967296 :: nat)" using p(1) by (metis dvd_triv_right)
  have "unat (low (push_bit k d)) = unat d * 2 ^ k mod 4294967296" by (simp add: unat_low u)
  moreover have "2 ^ k dvd unat d * 2 ^ k mod 4294967296" using dvd by (simp add: dvd_mod)
  ultimately have "2 ^ k dvd 4294967296 - unat (low (push_bit k d))" using dvd by (simp add: dvd_diff_nat)
  then have "2 ^ k \<le> 4294967296 - unat (low (push_bit k d))"
    using unat_lt32 [of "low (push_bit k d)"] by (intro dvd_imp_le) auto
  then show "unat (low (push_bit k d)) \<le> 4294967296 - 2 ^ k"
    using unat_lt32 [of "low (push_bit k d)"] by linarith
qed

lemma shifted_dividend:
  assumes "0 < k" and "k < 32"
  shows "unat (drop_bit (32 - k) (high n)) * 18446744073709551616 + unat (push_bit k n) = unat n * 2 ^ k"
    and "unat (drop_bit (32 - k) (high n)) < 2 ^ k"
proof -
  have p: "(4294967296 :: nat) * 2 ^ (32 - k) * 2 ^ k = 18446744073709551616"
    using assms by (simp add: mult.assoc flip: power_add)
  have h: "unat (drop_bit (32 - k) (high n)) = unat n div (4294967296 * 2 ^ (32 - k))"
    using unat_drop_bit_eq [of "32 - k" "high n"] by (simp only: drop_bit_eq_div [where ?'a = nat] unat_high div_mult2_eq)
  also have "\<dots> = unat n * 2 ^ k div 18446744073709551616"
    unfolding p [symmetric] by simp
  finally have "unat (drop_bit (32 - k) (high n)) = unat n * 2 ^ k div 18446744073709551616" .
  moreover have "unat (push_bit k n) = unat n * 2 ^ k mod 18446744073709551616"
    by (rule unat_shl)
  ultimately show "unat (drop_bit (32 - k) (high n)) * 18446744073709551616 + unat (push_bit k n) = unat n * 2 ^ k"
    by simp
  have "unat n < 2 ^ k * (4294967296 * 2 ^ (32 - k))" using unat_lt64 [of n] p by (simp add: ac_simps)
  then show "unat (drop_bit (32 - k) (high n)) < 2 ^ k" unfolding h by (rule less_mult_imp_div_less)
qed

text \<open>The corrected digit and its remainder.\<close>

lemma corrected:
  fixes n dd P R :: u64 and q :: u32
  assumes eq: "m + unat P = unat q * unat dd + unat R" and R: "R < dd" and P: "P \<le> dd"
    and res: "(q', M) = (if R < P then (q - 1, P - dd) else (q, P))"
  shows "m = unat q' * unat dd + unat (R - M)" and "unat (R - M) < unat dd"
proof -
  have "m = unat q' * unat dd + unat (R - M) \<and> unat (R - M) < unat dd"
  proof (cases "R < P")
    case True
    have ne: "q \<noteq> 0"
    proof
      assume "q = 0"
      then show False using eq True by (simp add: word_less_nat_alt)
    qed
    then have q': "Suc (unat q') = unat q" using res True unat_gt_0 [of q] by (simp add: unat_minus_one)
    have "R - M = (dd - P) + R" using res True by simp
    moreover have F: "unat (dd - P) + unat R < unat dd"
      using True P by (simp add: unat_diff word_less_nat_alt word_le_nat_alt)
    moreover have "unat ((dd - P) + R) = unat dd - unat P + unat R"
      using F P unat_lt64 [of dd] by (simp add: unat_word_ariths unat_diff)
    ultimately have "unat (R - M) = unat dd - unat P + unat R" by metis
    moreover have "unat q * unat dd = unat q' * unat dd + unat dd" by (simp flip: q')
    ultimately show ?thesis using eq F P by (simp add: unat_diff word_le_nat_alt)
  next
    case False
    then have le: "P \<le> R" by simp
    have "unat (R - M) = unat R - unat P" "q' = q" using res False unat_diff [OF le] by auto
    moreover have "unat P \<le> unat R" "unat R < unat dd"
      using R le by (simp_all add: word_less_nat_alt word_le_nat_alt)
    ultimately show ?thesis using eq by simp linarith
  qed
  then show "m = unat q' * unat dd + unat (R - M)" "unat (R - M) < unat dd" by auto
qed

lemma unshift:
  fixes n d F s k :: nat
  assumes "n * s = k * (d * s) + F" and "F < d * s" and "0 < s"
  shows "n = k * d + F div s" and "F div s < d"
proof -
  have "F = (n - k * d) * s" using assms(1) by (simp add: diff_mult_distrib)
  then have F: "F div s = n - k * d" using assms(3) by simp
  have "k * d * s \<le> n * s" using assms(1) by simp
  then have "k * d \<le> n" using assms(3) by simp
  with F show "n = k * d + F div s" by simp
  show "F div s < d" using assms(2) by (simp add: less_mult_imp_div_less)
qed

lemma branch_norm:
  assumes h: "high d \<noteq> 0" and ge: "\<not> high n < high d" and bm: "count_leading_zeros (high d) = k" "k \<noteq> 0"
  shows "udivmoddi4 n d rp = div_result n d rp"
proof -
  have k: "0 < k" "k < 32" using bm clz_bits(1) [OF h] by auto
  define D where "D = push_bit k d"
  define N where "N = push_bit k n"
  define n2 where "n2 = drop_bit (32 - k) (high n)"
  note D = shifted_divisor [OF h bm(1) [symmetric], folded D_def]
  note N = shifted_dividend [OF k, of n, folded N_def n2_def]
  have s: "(2 :: nat) ^ k \<le> 2147483648" using power_increasing [of k 31 "2 :: nat"] k by simp
  then have "unat n2 < unat (high D)" using N(2) D(2) by linarith
  then obtain q r where qr: "udiv_qrnnd n2 (high N) (high D) = Some (q, r)"
    "unat q = (unat n2 * 4294967296 + unat (high N)) div unat (high D)"
    "unat r = (unat n2 * 4294967296 + unat (high N)) mod unat (high D)"
    using udiv_qrnnd_Some [of n2 "high D" "high N"] by blast
  let ?t = "unat n2 * 4294967296 + unat (high N)"
  define P :: u64 where "P = ucast q * ucast (low D)"
  define R where "R = cat r (low N)"
  have uP: "unat P = unat q * unat (low D)" unfolding P_def by (rule unat_mul_pair)
  have "?t < 4294967296 * 2 ^ k"
    using N(2) unat_lt32 [of "high N"] mult_le_mono1 [of "Suc (unat n2)" "2 ^ k" 4294967296] by simp
  then have "unat P \<le> unat (high D) * 4294967296"
    using estimate_product [of ?t "2 ^ k" "unat (high D)" "unat (low D)"] D(2,3) s uP qr(2) by simp
  then have P: "P \<le> D" using unat_halves [of D] by (simp add: word_le_nat_alt)
  have "unat r < unat (high D)" using qr(3) D(2) by simp
  then have R: "R < D"
    using unat_halves [of D] unat_lt32 [of "low N"] by (simp add: R_def word_less_nat_alt unat_cat)
  have t: "?t = unat q * unat (high D) + unat r" using qr(2,3) by simp
  have "unat n * 2 ^ k = ?t * 4294967296 + unat (low N)" using N(1) unat_halves [of N] by simp
  then have eq: "unat n * 2 ^ k + unat P = unat q * unat D + unat R"
    unfolding t uP R_def unat_cat unat_halves [of D] by (simp add: algebra_simps)
  obtain q' M where qM: "(q', M) = (if R < P then (q - 1, P - D) else (q, P))" by (metis surj_pair)
  note c = corrected [OF eq R P qM]
  have "unat n = unat q' * unat d + unat (R - M) div 2 ^ k" "unat (R - M) div 2 ^ k < unat d"
    using unshift [of "unat n" "2 ^ k" "unat q'" "unat d" "unat (R - M)"] c D(1) by simp_all
  then have res: "Some (cat 0 q', if rp then Some (drop_bit k (R - M)) else None) = div_result n d rp"
    by (intro div_resultI) (simp_all add: unat_cat unat_drop_bit_eq flip: drop_bit_eq_div)
  have test: "r < high P \<or> high P = r \<and> low N < low P \<longleftrightarrow> R < P"
    using cat_less [of r "high P" "low N" "low P"] by (simp add: R_def)
  have defs: "udivmoddi4 n d rp = Some (cat 0 q', if rp then Some (drop_bit k (R - M)) else None)"
    using qM h ge k bm(1) qr(1)
    by (auto simp: udivmoddi4_def Let_def shl_halves [OF k] sub_pair mul_pair test shr_halves [OF k]
        simp flip: D_def N_def n2_def P_def R_def split: if_splits)
  show ?thesis using defs res by simp
qed

section \<open>Signs\<close>

lemma uint_lt64: "uint (x :: u64) < 18446744073709551616"
  by (rule order_less_le_trans [OF unsigned_less]) simp

lemma sint64: "sint (x :: u64) = (if 9223372036854775808 \<le> uint x then uint x - 18446744073709551616 else uint x)"
proof -
  have b: "bit (uint x) 63 \<longleftrightarrow> 9223372036854775808 \<le> uint x"
  proof -
    have "uint x div 2 ^ 63 = (if 9223372036854775808 \<le> uint x then 1 else 0)"
    proof (cases "9223372036854775808 \<le> uint x")
      case True
      have "uint x div 2 ^ 63 = 1"
        using True uint_lt64 [of x] by (intro int_div_pos_eq [of _ _ _ "uint x - 9223372036854775808"]) auto
      then show ?thesis using True by simp
    next
      case False
      then show ?thesis by (simp add: div_pos_pos_trivial)
    qed
    then show ?thesis by (simp add: bit_iff_odd)
  qed
  have "sint x = signed_take_bit 63 (uint x)" by (simp add: sint_uint)
  also have "\<dots> = take_bit 64 (uint x) - 18446744073709551616 * of_bool (bit (uint x) 63)"
    by (simp add: signed_take_bit_eq_take_bit_minus)
  finally show ?thesis using b uint_lt64 [of x] by (simp add: take_bit_int_eq_self_iff)
qed

text \<open>The magnitude of an operand: the routines negate a negative operand in 64 bits.\<close>

definition mag :: "u64 \<Rightarrow> u64" where
  "mag x = (if sint (high x) < 0 then - x else x)"

lemma high_sign: "sint (high x) < 0 \<longleftrightarrow> sint x < 0"
proof -
  have "bit (high x) 31 \<longleftrightarrow> bit x 63" by (simp add: high_def bit_ucast_iff bit_drop_bit_eq)
  then show ?thesis using bit_last_iff [of "high x"] bit_last_iff [of x] by simp
qed

lemma uint_mag: "uint (mag x) = \<bar>sint x\<bar>"
proof (cases "sint x < 0")
  case True
  note lt = uint_lt64 [of x]
  have ge: "9223372036854775808 \<le> uint x" using True sint64 [of x] by (auto split: if_splits)
  then have "x \<noteq> 0" by auto
  then have "uint (- x) = 18446744073709551616 - uint x"
    using lt ge by (simp add: uint_word_ariths(4) zmod_zminus1_eq_if)
  then show ?thesis using True ge lt by (simp add: mag_def high_sign sint64)
next
  case False
  then show ?thesis using sint64 [of x] uint_lt64 [of x] by (auto simp: mag_def high_sign split: if_splits)
qed

lemma mag_eq_0: "mag v = 0 \<longleftrightarrow> v = 0"
  by (simp add: mag_def)

lemma div_mag: "mag u div mag v = word_of_int (\<bar>sint u\<bar> div \<bar>sint v\<bar>)"
  "mag u mod mag v = word_of_int (\<bar>sint u\<bar> mod \<bar>sint v\<bar>)"
  by (simp_all add: word_div_def word_mod_def uint_mag)

section \<open>All branches\<close>

lemma udivmoddi4_eq:
  "udivmoddi4 n d rp = (if d = 0 then None else Some (n div d, if rp then Some (n mod d) else None))"
proof (cases "high d = 0")
  case True
  show ?thesis
  proof (cases "d = 0")
    case True
    have "low 0 = 0" "high 0 = 0" by (simp_all add: low_def high_def)
    with True show ?thesis by (simp add: udivmoddi4_def Let_def)
  next
    case False
    then show ?thesis using branch_short [OF True] by (simp add: div_result_def)
  qed
next
  case False
  then have "d \<noteq> 0" by (auto simp: high_def)
  moreover have "udivmoddi4 n d rp = div_result n d rp"
    using branch_less [OF False] branch_top [OF False] branch_norm [OF False _ refl] by blast
  ultimately show ?thesis by (simp add: div_result_def)
qed

section \<open>Properties\<close>

text \<open>C25: the 64-bit division routine computes quotient and remainder of the unsigned division for all
  operands, on each of its five paths, and raises the divide error exactly for a zero divisor; the entry
  points \<^verbatim>\<open>__udivdi3\<close> and \<^verbatim>\<open>__umoddi3\<close> return the two results.\<close>

theorem udivmoddi4_correct:
  "udivmoddi4 n d rp = (if d = 0 then None else Some (n div d, if rp then Some (n mod d) else None)) \<and>
   udivdi3 n d = (if d = 0 then None else Some (n div d)) \<and>
   umoddi3 n d = (if d = 0 then None else Some (n mod d))"
  by (simp add: udivmoddi4_eq udivdi3_def umoddi3_def)

text \<open>The signed routines truncate towards zero as C demands: quotient and remainder are those of the
  truncated division of the signed values, wrapped to 64 bits, and a zero divisor raises the divide error.\<close>

theorem divdi3_moddi3_correct:
  "divdi3 u v = (if v = 0 then None else Some (word_of_int (sint u sdiv sint v))) \<and>
   moddi3 u v = (if v = 0 then None else Some (word_of_int (sint u smod sint v)))"
proof -
  have d: "udivmoddi4 (mag u) (mag v) rp = (if v = 0 then None else
      Some (word_of_int (\<bar>sint u\<bar> div \<bar>sint v\<bar>), if rp then Some (word_of_int (\<bar>sint u\<bar> mod \<bar>sint v\<bar>)) else None))" for rp
    by (simp add: udivmoddi4_eq mag_eq_0 div_mag)
  have "divdi3 u v = do { (w, r) \<leftarrow> udivmoddi4 (mag u) (mag v) False;
      Some (if (sint u < 0) \<noteq> (sint v < 0) then - w else w) }"
    by (simp add: divdi3_def mag_def high_sign Let_def)
  moreover have "moddi3 u v = do { (q, w) \<leftarrow> udivmoddi4 (mag u) (mag v) True; w \<leftarrow> w;
      Some (if sint u < 0 then - w else w) }"
    by (simp add: moddi3_def mag_def high_sign Let_def)
  ultimately show ?thesis
    by (auto simp: d signed_divide_int_def signed_modulo_int_def sgn_if)
qed

end
