(* ===== verification/Kernel_Inode.thy ===== *)
theory Kernel_Inode
  imports Kernel_String
begin

unbundle bit_operations_syntax

text \<open>
  Inodes, \<^verbatim>\<open>source/kernel/src/vfs/inode.c\<close>, and the parts of \<^verbatim>\<open>vfs.c\<close> that walk paths. A mount point keeps a
  cache of the inodes in use (a dictionary from inode numbers to inodes with reference counts) and a list
  of free inode objects. The file system behind a mount point is the table of its functions,
  \<^verbatim>\<open>filesystem_calls_t\<close>, which work on a state of type \<open>'f\<close>; a function pointer that may be \<^verbatim>\<open>NULL\<close> is an
  option.

  Each function runs under the mutex of the cache, so it is one step on the state. The result \<open>None\<close> is an
  \<^verbatim>\<open>ASSERT\<close> that fails, the use of a freed object, or a path walk that does not end.
\<close>

section \<open>Data\<close>

type_synonym ('f, 'a) fs_op = "'f \<Rightarrow> ((errno + 'a) \<times> 'f) option"

record stat_t =
  st_ino :: int
  st_mode :: u32
  st_size :: int
  st_atime :: int
  st_mtime :: int
  st_ctime :: int

record dirent_t =
  d_inode_number :: int
  d_name :: "byte list"

record 'f filesystem_calls =
  fs_read_inode :: "int \<Rightarrow> ('f, addr) fs_op"
  fs_write_inode :: "(addr \<Rightarrow> ('f, unit) fs_op) option"
  fs_lookup_inode :: "addr \<Rightarrow> byte list \<Rightarrow> nat \<Rightarrow> ('f, int) fs_op"
  fs_open :: "(addr \<Rightarrow> u32 \<Rightarrow> ('f, addr) fs_op) option"
  fs_close :: "(addr \<Rightarrow> addr \<Rightarrow> ('f, unit) fs_op) option"
  fs_free_cookie :: "(addr \<Rightarrow> addr \<Rightarrow> ('f, unit) fs_op) option"
  fs_read :: "(addr \<Rightarrow> addr \<Rightarrow> int \<Rightarrow> nat \<Rightarrow> ('f, byte list) fs_op) option"
  fs_write :: "(addr \<Rightarrow> addr \<Rightarrow> byte list \<Rightarrow> int \<Rightarrow> ('f, nat) fs_op) option"
  fs_read_stat :: "(addr \<Rightarrow> ('f, stat_t) fs_op) option"
  fs_write_stat :: "(addr \<Rightarrow> stat_t \<Rightarrow> u32 \<Rightarrow> ('f, unit) fs_op) option"
  fs_read_directory :: "(addr \<Rightarrow> addr \<Rightarrow> ('f, dirent_t option) fs_op) option"
  fs_rewind_directory :: "(addr \<Rightarrow> addr \<Rightarrow> ('f, unit) fs_op) option"
  fs_create :: "(addr \<Rightarrow> byte list \<Rightarrow> nat \<Rightarrow> u32 \<Rightarrow> u32 \<Rightarrow> ('f, int \<times> addr) fs_op) option"
  fs_unlink :: "(addr \<Rightarrow> byte list \<Rightarrow> nat \<Rightarrow> ('f, unit) fs_op) option"
  fs_mkdir :: "(addr \<Rightarrow> byte list \<Rightarrow> nat \<Rightarrow> u32 \<Rightarrow> ('f, unit) fs_op) option"
  fs_rmdir :: "(addr \<Rightarrow> byte list \<Rightarrow> nat \<Rightarrow> ('f, unit) fs_op) option"
  fs_isatty :: "(addr \<Rightarrow> ('f, int) fs_op) option"
  fs_symlink :: "(addr \<Rightarrow> byte list \<Rightarrow> nat \<Rightarrow> byte list \<Rightarrow> ('f, unit) fs_op) option"
  fs_readlink :: "(addr \<Rightarrow> nat \<Rightarrow> ('f, byte list) fs_op) option"
  fs_set_flags :: "(addr \<Rightarrow> addr \<Rightarrow> u32 \<Rightarrow> ('f, unit) fs_op) option"

record inode_t =
  i_number :: int
  i_ref_count :: int
  i_mount :: vptr
  i_mount_point :: addr
  i_fs_node :: addr
  i_next_free :: vptr

record inode_cache_t =
  inode_table :: "int \<rightharpoonup> addr"
  free_inode_count :: int
  max_free_inode_count :: int
  free_inodes :: vptr

record 'f mount_point_t =
  mp_inode_cache :: inode_cache_t
  mp_calls :: "'f filesystem_calls"
  mp_root_inode_number :: int
  mp_mount_inode :: vptr
  mp_flags :: u32

datatype file_type = TYPE_FILE | TYPE_DIRECTORY

record file_t =
  f_flags :: u32
  f_position :: int
  f_inode :: vptr
  f_type :: file_type
  f_cookie :: addr
  f_ref_count :: int
  f_close_on_exec :: bool

record io_context_t =
  io_root_directory :: vptr
  io_current_directory :: vptr
  io_file_table :: "vptr list"

record 'f vfs_world =
  v_inodes :: "addr \<rightharpoonup> inode_t"
  v_mounts :: "addr \<rightharpoonup> 'f mount_point_t"
  v_files :: "addr \<rightharpoonup> file_t"
  v_contexts :: "addr \<rightharpoonup> io_context_t"
  v_fs :: 'f

text \<open>What the heap answers to the allocation of an inode, of a file, of an I/O context with its table.\<close>

record 'f vfs_env =
  ve_new_inode :: "'f vfs_world \<Rightarrow> vptr"
  ve_new_file :: "'f vfs_world \<Rightarrow> vptr"

definition S_IFMT :: u32 where "S_IFMT = 0xF000"
definition S_IFLNK :: u32 where "S_IFLNK = 0xA000"
definition S_IFREG :: u32 where "S_IFREG = 0x8000"
definition S_IFDIR :: u32 where "S_IFDIR = 0x4000"

definition zero_inode :: inode_t where
  "zero_inode = \<lparr> i_number = 0, i_ref_count = 0, i_mount = None, i_mount_point = 0, i_fs_node = 0, i_next_free = None \<rparr>"

section \<open>Accessing objects\<close>

definition upd_inode :: "addr \<Rightarrow> (inode_t \<Rightarrow> inode_t) \<Rightarrow> 'f vfs_world \<Rightarrow> 'f vfs_world option" where
  "upd_inode a f w = do {
     i \<leftarrow> v_inodes w a;
     Some (w\<lparr> v_inodes := (v_inodes w)(a \<mapsto> f i) \<rparr>) }"

definition inc_inode :: "addr \<Rightarrow> 'f vfs_world \<Rightarrow> 'f vfs_world option" where
  "inc_inode a = upd_inode a (\<lambda>i. i\<lparr> i_ref_count := i_ref_count i + 1 \<rparr>)"

definition set_cache :: "addr \<Rightarrow> inode_cache_t \<Rightarrow> 'f vfs_world \<Rightarrow> 'f vfs_world option" where
  "set_cache mp c w = do {
     m \<leftarrow> v_mounts w mp;
     Some (w\<lparr> v_mounts := (v_mounts w)(mp \<mapsto> m\<lparr> mp_inode_cache := c \<rparr>) \<rparr>) }"

definition fs_run :: "('f, 'a) fs_op \<Rightarrow> 'f vfs_world \<Rightarrow> ((errno + 'a) \<times> 'f vfs_world) option" where
  "fs_run f w = do {
     (r, s) \<leftarrow> f (v_fs w);
     Some (r, w\<lparr> v_fs := s \<rparr>) }"

section \<open>The inode cache\<close>

text \<open>Giving an inode object back: to the free list while that is not full, otherwise to the heap.\<close>

definition recycle_inode :: "addr \<Rightarrow> addr \<Rightarrow> 'f vfs_world \<Rightarrow> 'f vfs_world option" where
  "recycle_inode mp a w = do {
     m \<leftarrow> v_mounts w mp;
     let c = mp_inode_cache m;
     if free_inode_count c < max_free_inode_count c then do {
       w \<leftarrow> upd_inode a (\<lambda>i. i\<lparr> i_next_free := free_inodes c \<rparr>) w;
       set_cache mp (c\<lparr> free_inodes := Some a, free_inode_count := free_inode_count c + 1 \<rparr>) w }
     else Some (w\<lparr> v_inodes := (v_inodes w)(a := None) \<rparr>) }"

text \<open>Taking an inode object: from the free list, or from the heap.\<close>

definition alloc_inode :: "'f vfs_env \<Rightarrow> addr \<Rightarrow> 'f vfs_world \<Rightarrow> (vptr \<times> 'f vfs_world) option" where
  "alloc_inode E mp w = do {
     m \<leftarrow> v_mounts w mp;
     let c = mp_inode_cache m;
     if 0 < free_inode_count c then do {
       a \<leftarrow> free_inodes c;
       i \<leftarrow> v_inodes w a;
       w \<leftarrow> set_cache mp (c\<lparr> free_inodes := i_next_free i, free_inode_count := free_inode_count c - 1 \<rparr>) w;
       Some (Some a, w) }
     else case ve_new_inode E w of
         None \<Rightarrow> Some (None, w)
       | Some a \<Rightarrow> Some (Some a, w\<lparr> v_inodes := (v_inodes w)(a \<mapsto> zero_inode) \<rparr>) }"

text \<open>\<open>hashtable_add\<close> never fails, so the branch of \<open>get_inode\<close> behind its error is not reachable.\<close>

definition get_inode :: "'f vfs_env \<Rightarrow> addr \<Rightarrow> int \<Rightarrow> 'f vfs_world \<Rightarrow> (vptr \<times> 'f vfs_world) option" where
  "get_inode E mp inode_number w = do {
     m \<leftarrow> v_mounts w mp;
     case inode_table (mp_inode_cache m) inode_number of
       Some a \<Rightarrow> do { w \<leftarrow> inc_inode a w; Some (Some a, w) }
     | None \<Rightarrow> do {
         (inode, w) \<leftarrow> alloc_inode E mp w;
         case inode of
           None \<Rightarrow> Some (None, w)
         | Some a \<Rightarrow> do {
             w \<leftarrow> upd_inode a (\<lambda>i. i\<lparr> i_number := inode_number, i_mount_point := mp, i_mount := None, i_ref_count := 1 \<rparr>) w;
             (r, w) \<leftarrow> fs_run (fs_read_inode (mp_calls m) inode_number) w;
             case r of
               Inl error \<Rightarrow> do { w \<leftarrow> recycle_inode mp a w; Some (None, w) }
             | Inr node \<Rightarrow> do {
                 w \<leftarrow> upd_inode a (\<lambda>i. i\<lparr> i_fs_node := node \<rparr>) w;
                 m \<leftarrow> v_mounts w mp;
                 w \<leftarrow> set_cache mp ((mp_inode_cache m)\<lparr> inode_table := (inode_table (mp_inode_cache m))(inode_number \<mapsto> a) \<rparr>) w;
                 Some (Some a, w) } } } }"

definition put_inode :: "addr \<Rightarrow> 'f vfs_world \<Rightarrow> 'f vfs_world option" where
  "put_inode a w = do {
     i \<leftarrow> v_inodes w a;
     let mp = i_mount_point i;
     m \<leftarrow> v_mounts w mp;
     if \<not> 0 < i_ref_count i then None
     else do {
       w \<leftarrow> upd_inode a (\<lambda>i. i\<lparr> i_ref_count := i_ref_count i - 1 \<rparr>) w;
       if i_ref_count i = 1 then do {
         let c = mp_inode_cache m;
         w \<leftarrow> set_cache mp (c\<lparr> inode_table := (inode_table c)(i_number i := None) \<rparr>) w;
         w \<leftarrow> recycle_inode mp a w;
         case fs_write_inode (mp_calls m) of
           None \<Rightarrow> Some w
         | Some f \<Rightarrow> do { (r, w) \<leftarrow> fs_run (f (i_fs_node i)) w; Some w } }
       else Some w } }"

definition get_vnode :: "'f vfs_env \<Rightarrow> addr \<Rightarrow> int \<Rightarrow> 'f vfs_world \<Rightarrow> ((errno + addr) \<times> 'f vfs_world) option" where
  "get_vnode E mp inode_number w = do {
     (inode, w) \<leftarrow> get_inode E mp inode_number w;
     case inode of
       None \<Rightarrow> Some (Inl ENOINO, w)
     | Some a \<Rightarrow> do { i \<leftarrow> v_inodes w a; Some (Inr (i_fs_node i), w) } }"

definition put_vnode :: "'f vfs_env \<Rightarrow> addr \<Rightarrow> int \<Rightarrow> 'f vfs_world \<Rightarrow> ((errno + unit) \<times> 'f vfs_world) option" where
  "put_vnode E mp inode_number w = do {
     (inode, w) \<leftarrow> get_inode E mp inode_number w;
     case inode of
       None \<Rightarrow> Some (Inl ENOINO, w)
     | Some a \<Rightarrow> do {
         w \<leftarrow> upd_inode a (\<lambda>i. i\<lparr> i_ref_count := i_ref_count i - 1 \<rparr>) w;
         w \<leftarrow> put_inode a w;
         Some (Inr (), w) } }"

text \<open>\<open>mount_point_can_unmount\<close> walks the items of the table (given in the order of its buckets) and stops at the
  first inode that is not the root or that has more than one reference.\<close>

definition inode_table_unmount_iterator :: "'f mount_point_t \<Rightarrow> inode_t \<Rightarrow> errno + unit" where
  "inode_table_unmount_iterator m i =
     (if i_number i \<noteq> mp_root_inode_number m \<or> 1 < i_ref_count i then Inl EBUSY else Inr ())"

primrec mount_point_can_unmount :: "'f mount_point_t \<Rightarrow> addr list \<Rightarrow> 'f vfs_world \<Rightarrow> (errno + unit) option" where
  "mount_point_can_unmount m [] w = Some (Inr ())"
| "mount_point_can_unmount m (a # items) w = do {
     i \<leftarrow> v_inodes w a;
     case inode_table_unmount_iterator m i of
       Inl e \<Rightarrow> Some (Inl e)
     | Inr _ \<Rightarrow> mount_point_can_unmount m items w }"

section \<open>Walking paths\<close>

definition do_read_stat :: "addr \<Rightarrow> 'f vfs_world \<Rightarrow> ((errno + stat_t) \<times> 'f vfs_world) option" where
  "do_read_stat a w = do {
     i \<leftarrow> v_inodes w a;
     m \<leftarrow> v_mounts w (i_mount_point i);
     case fs_read_stat (mp_calls m) of
       None \<Rightarrow> Some (Inl ENOSYS, w)
     | Some f \<Rightarrow> fs_run (f (i_fs_node i)) w }"

text \<open>Names are pointers into a path, given with a length; \<open>46\<close> is the dot and \<open>47\<close> the slash.\<close>

definition is_dot :: "byte list \<Rightarrow> nat \<Rightarrow> bool" where
  "is_dot name len \<longleftrightarrow> len = 1 \<and> (\<exists>r. name = 46 # r)"

text \<open>The test for \<^verbatim>\<open>".."\<close> at the root of a mounted file system: \<open>Some (Inl r)\<close> when the walk stays at the
  root directory of the context, \<open>Some (Inr p)\<close> with the directory to look in.\<close>

definition at_mount_root :: "addr \<Rightarrow> byte list \<Rightarrow> nat \<Rightarrow> 'f vfs_world \<Rightarrow> bool option" where
  "at_mount_root parent name len w = do {
     p \<leftarrow> v_inodes w parent;
     m \<leftarrow> v_mounts w (i_mount_point p);
     if len = 2 then do {
       c \<leftarrow> strncmp name [46, 46, 0] 2;
       Some (c = 0 \<and> i_number p = mp_root_inode_number m) }
     else Some False }"

definition do_lookup_child ::
    "'f vfs_env \<Rightarrow> addr \<Rightarrow> byte list \<Rightarrow> nat \<Rightarrow> bool \<Rightarrow> 'f vfs_world \<Rightarrow> ((errno + addr) \<times> 'f vfs_world) option" where
  "do_lookup_child E parent name len follow_mount w = do {
     p \<leftarrow> v_inodes w parent;
     m \<leftarrow> v_mounts w (i_mount_point p);
     (r, w) \<leftarrow> fs_run (fs_lookup_inode (mp_calls m) (i_fs_node p) name len) w;
     case r of
       Inl e \<Rightarrow> Some (Inl e, w)
     | Inr inode_number \<Rightarrow> do {
         (inode, w) \<leftarrow> get_inode E (i_mount_point p) inode_number w;
         case inode of
           None \<Rightarrow> Some (Inl ENOINO, w)
         | Some a \<Rightarrow> do {
             i \<leftarrow> v_inodes w a;
             case (if follow_mount then i_mount i else None) of
               None \<Rightarrow> Some (Inr a, w)
             | Some mnt \<Rightarrow> do {
                 w \<leftarrow> inc_inode mnt w;
                 w \<leftarrow> put_inode a w;
                 Some (Inr mnt, w) } } } }"

definition do_lookup_inode ::
    "'f vfs_env \<Rightarrow> addr \<Rightarrow> addr \<Rightarrow> byte list \<Rightarrow> nat \<Rightarrow> bool \<Rightarrow> 'f vfs_world \<Rightarrow> ((errno + addr) \<times> 'f vfs_world) option" where
  "do_lookup_inode E ctx parent name len follow_mount w = do {
     up \<leftarrow> at_mount_root parent name len w;
     if up then do {
       p \<leftarrow> v_inodes w parent;
       c \<leftarrow> v_contexts w ctx;
       ra \<leftarrow> io_root_directory c;
       r \<leftarrow> v_inodes w ra;
       if i_number p = i_number r \<and> i_mount_point p = i_mount_point r then do {
         w \<leftarrow> inc_inode parent w;
         Some (Inr parent, w) }
       else do {
         m \<leftarrow> v_mounts w (i_mount_point p);
         parent \<leftarrow> mp_mount_inode m;
         w \<leftarrow> inc_inode parent w;
         (r, w) \<leftarrow> do_lookup_child E parent name len follow_mount w;
         w \<leftarrow> put_inode parent w;
         Some (r, w) } }
     else do_lookup_child E parent name len follow_mount w }"

text \<open>The loop of \<open>lookup_parent_inode\<close>, with the function that follows links as a parameter: it returns
  the new parent and inode. The result is the last name, its length and the parent.\<close>

function lookup_parent_loop ::
    "('f vfs_env \<Rightarrow> addr \<Rightarrow> addr \<Rightarrow> addr \<Rightarrow> 'f vfs_world \<Rightarrow> ((errno option \<times> addr \<times> addr) \<times> 'f vfs_world) option) \<Rightarrow>
     'f vfs_env \<Rightarrow> addr \<Rightarrow> addr \<Rightarrow> byte list \<Rightarrow> 'f vfs_world \<Rightarrow> ((errno + byte list \<times> nat \<times> addr) \<times> 'f vfs_world) option" where
  "lookup_parent_loop follow E ctx parent path w = (case strchr path 47 of
       None \<Rightarrow> None
     | Some None \<Rightarrow> do { len \<leftarrow> strlen path; Some (Inr (path, len, parent), w) }
     | Some (Some sep) \<Rightarrow>
         if sep = 0 \<or> is_dot path sep then lookup_parent_loop follow E ctx parent (drop (Suc sep) path) w
         else (case do_lookup_inode E ctx parent path sep True w of
               None \<Rightarrow> None
             | Some (Inl e, w) \<Rightarrow> do { w \<leftarrow> put_inode parent w; Some (Inl e, w) }
             | Some (Inr inode, w) \<Rightarrow> (case follow E ctx parent inode w of
                   None \<Rightarrow> None
                 | Some ((Some e, parent, inode), w) \<Rightarrow> do {
                     w \<leftarrow> put_inode inode w;
                     w \<leftarrow> put_inode parent w;
                     Some (Inl e, w) }
                 | Some ((None, parent, inode), w) \<Rightarrow> (case put_inode parent w of
                       None \<Rightarrow> None
                     | Some w \<Rightarrow> lookup_parent_loop follow E ctx inode (drop (Suc sep) path) w))))"
  by pat_completeness auto
termination
proof (relation "measure (\<lambda>(follow, E, ctx, parent, path, w). length path)", goal_cases)
  case 1
  then show ?case by simp
next
  case (2 follow E ctx parent path w x sep)
  then have "path \<noteq> []" by auto
  then show ?case by simp
next
  case (3 follow E ctx parent path w)
  then have "path \<noteq> []" by auto
  then show ?case by simp
qed

declare lookup_parent_loop.simps [simp del]

definition lookup_parent_with ::
    "('f vfs_env \<Rightarrow> addr \<Rightarrow> addr \<Rightarrow> addr \<Rightarrow> 'f vfs_world \<Rightarrow> ((errno option \<times> addr \<times> addr) \<times> 'f vfs_world) option) \<Rightarrow>
     'f vfs_env \<Rightarrow> addr \<Rightarrow> vptr \<Rightarrow> byte list \<Rightarrow> 'f vfs_world \<Rightarrow> ((errno + byte list \<times> nat \<times> addr) \<times> 'f vfs_world) option" where
  "lookup_parent_with follow E ctx parent path w = do {
     c \<leftarrow> v_contexts w ctx;
     (start, path) \<leftarrow> (case path of
         [] \<Rightarrow> None
       | x # r \<Rightarrow> Some (if x = 47 then (io_root_directory c, r)
                    else (if parent = None then io_current_directory c else parent, path)));
     case start of
       None \<Rightarrow> Some (Inl EINVAL, w)
     | Some p \<Rightarrow> do {
         w \<leftarrow> inc_inode p w;
         lookup_parent_loop follow E ctx p path w } }"

text \<open>\<open>follow_symbolic_link\<close> and \<open>lookup_parent_inode\<close> call each other, and nothing in the code bounds the
  number of links followed: the model has fuel for that, one unit for each link that is expanded, and the result
  \<open>None\<close> when it runs out.\<close>

primrec follow_symbolic_link ::
    "nat \<Rightarrow> 'f vfs_env \<Rightarrow> addr \<Rightarrow> addr \<Rightarrow> addr \<Rightarrow> 'f vfs_world \<Rightarrow> ((errno option \<times> addr \<times> addr) \<times> 'f vfs_world) option" where
  "follow_symbolic_link 0 E ctx parent inode w = None"
| "follow_symbolic_link (Suc fuel) E ctx parent inode w = do {
     (st, w) \<leftarrow> do_read_stat inode w;
     case st of
       Inl e \<Rightarrow> Some ((Some e, parent, inode), w)
     | Inr st \<Rightarrow>
         if st_mode st AND S_IFMT \<noteq> S_IFLNK then Some ((None, parent, inode), w)
         else do {
           i \<leftarrow> v_inodes w inode;
           m \<leftarrow> v_mounts w (i_mount_point i);
           (r, w) \<leftarrow> (case fs_readlink (mp_calls m) of
               None \<Rightarrow> Some (Inl ENOSYS, w)
             | Some f \<Rightarrow> fs_run (f (i_fs_node i) 256) w);
           case r of
             Inl e \<Rightarrow> Some ((Some e, parent, inode), w)
           | Inr buffer \<Rightarrow> do {
               (r, w) \<leftarrow> lookup_parent_with (follow_symbolic_link fuel) E ctx (Some parent) buffer w;
               case r of
                 Inl e \<Rightarrow> Some ((Some e, parent, inode), w)
               | Inr (name, len, new_parent) \<Rightarrow> do {
                   (r, w) \<leftarrow> (if len = 0 \<or> is_dot name len
                       then do { w \<leftarrow> inc_inode new_parent w; Some (Inr new_parent, w) }
                       else do_lookup_inode E ctx new_parent name len True w);
                   case r of
                     Inl e \<Rightarrow> do { w \<leftarrow> put_inode new_parent w; Some ((Some e, parent, inode), w) }
                   | Inr new_inode \<Rightarrow> do {
                       w \<leftarrow> put_inode parent w;
                       w \<leftarrow> put_inode inode w;
                       follow_symbolic_link fuel E ctx new_parent new_inode w } } } } }"

definition lookup_parent_inode ::
    "nat \<Rightarrow> 'f vfs_env \<Rightarrow> addr \<Rightarrow> vptr \<Rightarrow> byte list \<Rightarrow> 'f vfs_world \<Rightarrow> ((errno + byte list \<times> nat \<times> addr) \<times> 'f vfs_world) option" where
  "lookup_parent_inode fuel = lookup_parent_with (follow_symbolic_link fuel)"

definition lookup_inode ::
    "nat \<Rightarrow> 'f vfs_env \<Rightarrow> addr \<Rightarrow> vptr \<Rightarrow> byte list \<Rightarrow> bool \<Rightarrow> bool \<Rightarrow> 'f vfs_world \<Rightarrow> ((errno + addr) \<times> 'f vfs_world) option" where
  "lookup_inode fuel E ctx parent path follow_symlink follow_mount w = do {
     (r, w) \<leftarrow> lookup_parent_inode fuel E ctx parent path w;
     case r of
       Inl e \<Rightarrow> Some (Inl e, w)
     | Inr (name, len, new_parent) \<Rightarrow> do {
         (r, w) \<leftarrow> (if len = 0 \<or> is_dot name len
             then do { w \<leftarrow> inc_inode new_parent w; Some (Inr new_parent, w) }
             else do_lookup_inode E ctx new_parent name len follow_mount w);
         case r of
           Inl e \<Rightarrow> do { w \<leftarrow> put_inode new_parent w; Some (Inl e, w) }
         | Inr inode \<Rightarrow>
             if follow_symlink then do {
               ((error, new_parent, inode), w) \<leftarrow> follow_symbolic_link fuel E ctx new_parent inode w;
               case error of
                 Some e \<Rightarrow> do {
                   w \<leftarrow> put_inode inode w;
                   w \<leftarrow> put_inode new_parent w;
                   Some (Inl e, w) }
               | None \<Rightarrow> do { w \<leftarrow> put_inode new_parent w; Some (Inr inode, w) } }
             else do { w \<leftarrow> put_inode new_parent w; Some (Inr inode, w) } } }"

end
