(* ===== verification/Kernel_Vfs.thy ===== *)
theory Kernel_Vfs
  imports Kernel_Inode
begin

unbundle bit_operations_syntax

text \<open>
  Open files and the file system calls: \<^verbatim>\<open>source/kernel/src/vfs/io_context.c\<close> and \<^verbatim>\<open>vfs.c\<close>. An I/O context is
  a table of file descriptors with a root and a current directory; a descriptor is a pointer to a reference
  counted file, which holds a reference to its inode. The functions of the context run under its mutex.
\<close>

section \<open>Files and I/O contexts\<close>

definition upd_file :: "addr \<Rightarrow> (file_t \<Rightarrow> file_t) \<Rightarrow> 'f vfs_world \<Rightarrow> 'f vfs_world option" where
  "upd_file a f w = do {
     x \<leftarrow> v_files w a;
     Some (w\<lparr> v_files := (v_files w)(a \<mapsto> f x) \<rparr>) }"

definition inc_file :: "addr \<Rightarrow> 'f vfs_world \<Rightarrow> 'f vfs_world option" where
  "inc_file a = upd_file a (\<lambda>f. f\<lparr> f_ref_count := f_ref_count f + 1 \<rparr>)"

definition set_slot :: "addr \<Rightarrow> nat \<Rightarrow> vptr \<Rightarrow> 'f vfs_world \<Rightarrow> 'f vfs_world option" where
  "set_slot ctx i p w = do {
     c \<leftarrow> v_contexts w ctx;
     t \<leftarrow> write_cell (Some (io_file_table c)) (int i) p;
     Some (w\<lparr> v_contexts := (v_contexts w)(ctx \<mapsto> c\<lparr> io_file_table := t \<rparr>) \<rparr>) }"

definition create_file :: "'f vfs_env \<Rightarrow> 'f vfs_world \<Rightarrow> vptr \<times> 'f vfs_world" where
  "create_file E w = (case ve_new_file E w of
       None \<Rightarrow> (None, w)
     | Some a \<Rightarrow> (Some a, w\<lparr> v_files := (v_files w)(a \<mapsto> \<lparr> f_flags = 0, f_position = 0, f_inode = None,
         f_type = TYPE_FILE, f_cookie = 0, f_ref_count = 0, f_close_on_exec = False \<rparr>) \<rparr>))"

definition delete_file :: "addr \<Rightarrow> 'f vfs_world \<Rightarrow> 'f vfs_world option" where
  "delete_file a w = do {
     f \<leftarrow> v_files w a;
     w \<leftarrow> (case f_inode f of None \<Rightarrow> Some w | Some i \<Rightarrow> put_inode i w);
     Some (w\<lparr> v_files := (v_files w)(a := None) \<rparr>) }"

definition call_cookie ::
    "(addr \<Rightarrow> addr \<Rightarrow> ('f, unit) fs_op) option \<Rightarrow> addr \<Rightarrow> addr \<Rightarrow> 'f vfs_world \<Rightarrow> 'f vfs_world option" where
  "call_cookie f node cookie w = (case f of
       None \<Rightarrow> Some w
     | Some f \<Rightarrow> do { (r, w) \<leftarrow> fs_run (f node cookie) w; Some w })"

definition io_context_put_file :: "addr \<Rightarrow> 'f vfs_world \<Rightarrow> 'f vfs_world option" where
  "io_context_put_file a w = do {
     f \<leftarrow> v_files w a;
     w \<leftarrow> upd_file a (\<lambda>f. f\<lparr> f_ref_count := f_ref_count f - 1 \<rparr>) w;
     if f_ref_count f - 1 \<noteq> 0 then Some w
     else do {
       ia \<leftarrow> f_inode f;
       i \<leftarrow> v_inodes w ia;
       m \<leftarrow> v_mounts w (i_mount_point i);
       w \<leftarrow> call_cookie (fs_close (mp_calls m)) (i_fs_node i) (f_cookie f) w;
       w \<leftarrow> call_cookie (fs_free_cookie (mp_calls m)) (i_fs_node i) (f_cookie f) w;
       delete_file a w } }"

text \<open>The search for a free slot; \<^verbatim>\<open>start_fd\<close> is converted to \<^verbatim>\<open>size_t\<close>.\<close>

function free_slot :: "vptr list \<Rightarrow> nat \<Rightarrow> nat" where
  "free_slot t i = (if i < length t \<and> t ! i \<noteq> None then free_slot t (Suc i) else i)"
  by pat_completeness auto
termination
  by (relation "measure (\<lambda>(t, i). length t - i)") auto

declare free_slot.simps [simp del]

definition io_context_insert_file ::
    "addr \<Rightarrow> addr \<Rightarrow> int \<Rightarrow> 'f vfs_world \<Rightarrow> ((errno + int) \<times> 'f vfs_world) option" where
  "io_context_insert_file ctx file start_fd w = do {
     c \<leftarrow> v_contexts w ctx;
     let i = free_slot (io_file_table c) (nat (start_fd mod 4294967296));
     if i = length (io_file_table c) then Some (Inl ENOMEM, w)
     else do {
       w \<leftarrow> set_slot ctx i (Some file) w;
       w \<leftarrow> inc_file file w;
       Some (Inr (int i), w) } }"

definition io_context_insert_file_at ::
    "addr \<Rightarrow> addr \<Rightarrow> int \<Rightarrow> bool \<Rightarrow> 'f vfs_world \<Rightarrow> ((errno + unit) \<times> 'f vfs_world) option" where
  "io_context_insert_file_at ctx file fd close_existing w = do {
     w \<leftarrow> inc_file file w;
     c \<leftarrow> v_contexts w ctx;
     if fd < 0 \<or> int (length (io_file_table c)) \<le> fd then Some (Inl EINVAL, w)
     else (case io_file_table c ! nat fd of
         None \<Rightarrow> do { w \<leftarrow> set_slot ctx (nat fd) (Some file) w; Some (Inr (), w) }
       | Some old \<Rightarrow>
           if close_existing then do {
             w \<leftarrow> io_context_put_file old w;
             w \<leftarrow> set_slot ctx (nat fd) (Some file) w;
             Some (Inr (), w) }
           else Some (Inl EEXIST, w)) }"

definition io_context_remove_file :: "addr \<Rightarrow> int \<Rightarrow> 'f vfs_world \<Rightarrow> ((errno + unit) \<times> 'f vfs_world) option" where
  "io_context_remove_file ctx fd w = do {
     c \<leftarrow> v_contexts w ctx;
     if fd < 0 \<or> int (length (io_file_table c)) \<le> fd then Some (Inl EBADF, w)
     else (case io_file_table c ! nat fd of
         None \<Rightarrow> Some (Inl EBADF, w)
       | Some file \<Rightarrow> do {
           w \<leftarrow> set_slot ctx (nat fd) None w;
           w \<leftarrow> io_context_put_file file w;
           Some (Inr (), w) }) }"

definition io_context_get_file :: "addr \<Rightarrow> int \<Rightarrow> 'f vfs_world \<Rightarrow> (vptr \<times> 'f vfs_world) option" where
  "io_context_get_file ctx fd w = do {
     c \<leftarrow> v_contexts w ctx;
     if fd < 0 \<or> int (length (io_file_table c)) \<le> fd then Some (None, w)
     else (case io_file_table c ! nat fd of
         None \<Rightarrow> Some (None, w)
       | Some file \<Rightarrow> do { w \<leftarrow> inc_file file w; Some (Some file, w) }) }"

text \<open>\<open>init_io_context\<close> with the answers for the mutex and for the table.\<close>

definition init_io_context ::
    "errno + unit \<Rightarrow> bool \<Rightarrow> addr \<Rightarrow> nat \<Rightarrow> 'f vfs_world \<Rightarrow> (errno + unit) \<times> 'f vfs_world" where
  "init_io_context mutex table ctx table_size w = (case mutex of
       Inl e \<Rightarrow> (Inl e, w)
     | Inr _ \<Rightarrow> if \<not> table then (Inl ENOMEM, w)
         else (Inr (), w\<lparr> v_contexts := (v_contexts w)(ctx \<mapsto> \<lparr> io_root_directory = None,
           io_current_directory = None, io_file_table = replicate table_size None \<rparr>) \<rparr>))"

primrec inc_files :: "vptr list \<Rightarrow> 'f vfs_world \<Rightarrow> 'f vfs_world option" where
  "inc_files [] w = Some w"
| "inc_files (p # ps) w = (case p of
       None \<Rightarrow> inc_files ps w
     | Some a \<Rightarrow> do { w \<leftarrow> inc_file a w; inc_files ps w })"

definition io_context_clone ::
    "vptr \<Rightarrow> errno + unit \<Rightarrow> bool \<Rightarrow> addr \<Rightarrow> 'f vfs_world \<Rightarrow> (vptr \<times> 'f vfs_world) option" where
  "io_context_clone new mutex table old_ctx w = (case new of
       None \<Rightarrow> Some (None, w)
     | Some ctx \<Rightarrow> do {
         old \<leftarrow> v_contexts w old_ctx;
         let (r, w) = init_io_context mutex table ctx (length (io_file_table old)) w;
         case r of
           Inl e \<Rightarrow> Some (None, w)
         | Inr _ \<Rightarrow> do {
             root \<leftarrow> io_root_directory old;
             w \<leftarrow> inc_inode root w;
             cwd \<leftarrow> io_current_directory old;
             w \<leftarrow> inc_inode cwd w;
             let w = w\<lparr> v_contexts := (v_contexts w)(ctx \<mapsto> old) \<rparr>;
             w \<leftarrow> inc_files (io_file_table old) w;
             Some (Some ctx, w) } })"

primrec put_files :: "vptr list \<Rightarrow> 'f vfs_world \<Rightarrow> 'f vfs_world option" where
  "put_files [] w = Some w"
| "put_files (p # ps) w = (case p of
       None \<Rightarrow> put_files ps w
     | Some a \<Rightarrow> do { w \<leftarrow> io_context_put_file a w; put_files ps w })"

definition destroy_io_context :: "addr \<Rightarrow> 'f vfs_world \<Rightarrow> 'f vfs_world option" where
  "destroy_io_context ctx w = do {
     c \<leftarrow> v_contexts w ctx;
     w \<leftarrow> put_files (io_file_table c) w;
     root \<leftarrow> io_root_directory c;
     w \<leftarrow> put_inode root w;
     cwd \<leftarrow> io_current_directory c;
     w \<leftarrow> put_inode cwd w;
     Some (w\<lparr> v_contexts := (v_contexts w)(ctx := None) \<rparr>) }"

section \<open>Opening and closing\<close>

definition O_RDONLY :: u32 where "O_RDONLY = 0"
definition O_WRONLY :: u32 where "O_WRONLY = 1"
definition O_RDWR :: u32 where "O_RDWR = 2"
definition O_CREAT :: u32 where "O_CREAT = 0x40"
definition MOUNT_RO :: u32 where "MOUNT_RO = 1"

text \<open>The mount point of an inode.\<close>

definition mount_of :: "addr \<Rightarrow> 'f vfs_world \<Rightarrow> (inode_t \<times> 'f mount_point_t) option" where
  "mount_of a w = do {
     i \<leftarrow> v_inodes w a;
     m \<leftarrow> v_mounts w (i_mount_point i);
     Some (i, m) }"

definition open_node :: "addr \<Rightarrow> addr \<Rightarrow> u32 \<Rightarrow> 'f vfs_world \<Rightarrow> ((errno + unit) \<times> 'f vfs_world) option" where
  "open_node file inode flags w = do {
     (i, m) \<leftarrow> mount_of inode w;
     case fs_open (mp_calls m) of
       None \<Rightarrow> Some (Inl ENOSYS, w)
     | Some f \<Rightarrow> do {
         (r, w) \<leftarrow> fs_run (f (i_fs_node i) flags) w;
         case r of
           Inl e \<Rightarrow> Some (Inl e, w)
         | Inr cookie \<Rightarrow> do {
             w \<leftarrow> upd_file file (\<lambda>f. f\<lparr> f_cookie := cookie \<rparr>) w;
             Some (Inr (), w) } } }"

text \<open>The result has the error and the parent, which following a link may change.\<close>

definition do_open_helper1 ::
    "nat \<Rightarrow> 'f vfs_env \<Rightarrow> addr \<Rightarrow> addr \<Rightarrow> addr \<Rightarrow> byte list \<Rightarrow> nat \<Rightarrow> u32 \<Rightarrow> 'f vfs_world \<Rightarrow>
      ((errno option \<times> addr) \<times> 'f vfs_world) option" where
  "do_open_helper1 fuel E ctx file parent name len flags w =
     (if len = 0 \<or> is_dot name len then do {
        (r, w) \<leftarrow> open_node file parent flags w;
        case r of
          Inl e \<Rightarrow> Some ((Some e, parent), w)
        | Inr _ \<Rightarrow> do {
            w \<leftarrow> upd_file file (\<lambda>f. f\<lparr> f_inode := Some parent \<rparr>) w;
            w \<leftarrow> inc_inode parent w;
            Some ((None, parent), w) } }
      else do {
        (r, w) \<leftarrow> do_lookup_inode E ctx parent name len True w;
        case r of
          Inl e \<Rightarrow> Some ((Some e, parent), w)
        | Inr inode \<Rightarrow> do {
            ((error, parent, inode), w) \<leftarrow> follow_symbolic_link fuel E ctx parent inode w;
            w \<leftarrow> upd_file file (\<lambda>f. f\<lparr> f_inode := Some inode \<rparr>) w;
            case error of
              Some e \<Rightarrow> Some ((Some e, parent), w)
            | None \<Rightarrow> do {
                (r, w) \<leftarrow> open_node file inode flags w;
                case r of
                  Inl e \<Rightarrow> Some ((Some e, parent), w)
                | Inr _ \<Rightarrow> Some ((None, parent), w) } } })"

definition do_open_helper2 ::
    "'f vfs_env \<Rightarrow> addr \<Rightarrow> addr \<Rightarrow> byte list \<Rightarrow> nat \<Rightarrow> u32 \<Rightarrow> u32 \<Rightarrow> 'f vfs_world \<Rightarrow> (errno option \<times> 'f vfs_world) option" where
  "do_open_helper2 E file parent name len flags perms w = do {
     (p, m) \<leftarrow> mount_of parent w;
     case fs_create (mp_calls m) of
       None \<Rightarrow> Some (Some ENOSYS, w)
     | Some f \<Rightarrow> do {
         (r, w) \<leftarrow> fs_run (f (i_fs_node p) name len flags perms) w;
         case r of
           Inl e \<Rightarrow> Some (Some e, w)
         | Inr (inode_number, cookie) \<Rightarrow> do {
             w \<leftarrow> upd_file file (\<lambda>f. f\<lparr> f_cookie := cookie \<rparr>) w;
             (inode, w) \<leftarrow> get_inode E (i_mount_point p) inode_number w;
             w \<leftarrow> upd_file file (\<lambda>f. f\<lparr> f_inode := inode \<rparr>) w;
             Some (if inode = None then Some ENOINO else None, w) } } }"

definition do_open ::
    "nat \<Rightarrow> 'f vfs_env \<Rightarrow> addr \<Rightarrow> byte list \<Rightarrow> u32 \<Rightarrow> u32 \<Rightarrow> 'f vfs_world \<Rightarrow> ((errno + int) \<times> 'f vfs_world) option" where
  "do_open fuel E ctx path flags perms w = do {
     (r, w) \<leftarrow> lookup_parent_inode fuel E ctx None path w;
     case r of
       Inl e \<Rightarrow> Some (Inl e, w)
     | Inr (name, len, parent) \<Rightarrow> do {
         (p, m) \<leftarrow> mount_of parent w;
         if mp_flags m AND MOUNT_RO \<noteq> 0 \<and> (flags AND O_RDWR \<noteq> 0 \<or> flags AND O_WRONLY \<noteq> 0 \<or> flags AND O_CREAT \<noteq> 0)
         then do { w \<leftarrow> put_inode parent w; Some (Inl EROFS, w) }
         else (case create_file E w of
             (None, w) \<Rightarrow> do { w \<leftarrow> put_inode parent w; Some (Inl ENOMEM, w) }
           | (Some file, w) \<Rightarrow> do {
               ((error, parent), w) \<leftarrow> do_open_helper1 fuel E ctx file parent name len flags w;
               (error, w) \<leftarrow> (if error = Some ENOENT \<and> flags AND O_CREAT \<noteq> 0
                   then do_open_helper2 E file parent name len flags perms w else Some (error, w));
               w \<leftarrow> put_inode parent w;
               case error of
                 Some e \<Rightarrow> do { w \<leftarrow> delete_file file w; Some (Inl e, w) }
               | None \<Rightarrow> do {
                   f \<leftarrow> v_files w file;
                   ia \<leftarrow> f_inode f;
                   (st, w) \<leftarrow> do_read_stat ia w;
                   case st of
                     Inl e \<Rightarrow> do { w \<leftarrow> delete_file file w; Some (Inl e, w) }
                   | Inr st \<Rightarrow> do {
                       w \<leftarrow> upd_file file (\<lambda>f. f\<lparr> f_type := (if st_mode st AND S_IFMT = S_IFDIR then TYPE_DIRECTORY else TYPE_FILE),
                              f_flags := flags \<rparr>) w;
                       (r, w) \<leftarrow> io_context_insert_file ctx file 3 w;
                       case r of
                         Inl e \<Rightarrow> do { w \<leftarrow> delete_file file w; Some (Inl e, w) }
                       | Inr fd \<Rightarrow> Some (Inr fd, w) } } }) } }"

definition do_close :: "addr \<Rightarrow> int \<Rightarrow> 'f vfs_world \<Rightarrow> ((errno + unit) \<times> 'f vfs_world) option" where
  "do_close ctx fd w = io_context_remove_file ctx fd w"

section \<open>Calls on a descriptor\<close>

text \<open>The frame of the calls on a descriptor: take a reference to the file, work, put it back.\<close>

definition with_file ::
    "addr \<Rightarrow> int \<Rightarrow> (addr \<Rightarrow> 'f vfs_world \<Rightarrow> ((errno + 'a) \<times> 'f vfs_world) option) \<Rightarrow> 'f vfs_world \<Rightarrow>
      ((errno + 'a) \<times> 'f vfs_world) option" where
  "with_file ctx fd body w = do {
     (file, w) \<leftarrow> io_context_get_file ctx fd w;
     case file of
       None \<Rightarrow> Some (Inl EBADF, w)
     | Some a \<Rightarrow> do {
         (r, w) \<leftarrow> body a w;
         w \<leftarrow> io_context_put_file a w;
         Some (r, w) } }"

text \<open>The file, its inode and its mount point.\<close>

definition file_parts :: "addr \<Rightarrow> 'f vfs_world \<Rightarrow> (file_t \<times> inode_t \<times> 'f mount_point_t) option" where
  "file_parts a w = do {
     f \<leftarrow> v_files w a;
     ia \<leftarrow> f_inode f;
     (i, m) \<leftarrow> mount_of ia w;
     Some (f, i, m) }"

definition do_pread_helper :: "addr \<Rightarrow> nat \<Rightarrow> int \<Rightarrow> 'f vfs_world \<Rightarrow> ((errno + byte list) \<times> 'f vfs_world) option" where
  "do_pread_helper file count offset w = do {
     (f, i, m) \<leftarrow> file_parts file w;
     case fs_read (mp_calls m) of
       None \<Rightarrow> Some (Inl ENOSYS, w)
     | Some op \<Rightarrow> fs_run (op (i_fs_node i) (f_cookie f) offset count) w }"

definition do_pread :: "addr \<Rightarrow> int \<Rightarrow> nat \<Rightarrow> int \<Rightarrow> 'f vfs_world \<Rightarrow> ((errno + byte list) \<times> 'f vfs_world) option" where
  "do_pread ctx fd count offset = with_file ctx fd (\<lambda>a. do_pread_helper a count offset)"

definition do_read :: "addr \<Rightarrow> int \<Rightarrow> nat \<Rightarrow> 'f vfs_world \<Rightarrow> ((errno + byte list) \<times> 'f vfs_world) option" where
  "do_read ctx fd count = with_file ctx fd (\<lambda>a w. do {
     f \<leftarrow> v_files w a;
     if f_type f = TYPE_DIRECTORY then Some (Inl EISDIR, w)
     else do {
       (f, i, m) \<leftarrow> file_parts a w;
       (r, w) \<leftarrow> (case fs_read (mp_calls m) of
           None \<Rightarrow> Some (Inl ENOSYS, w)
         | Some op \<Rightarrow> fs_run (op (i_fs_node i) (f_cookie f) (f_position f) count) w);
       case r of
         Inl e \<Rightarrow> Some (Inl e, w)
       | Inr bytes \<Rightarrow> do {
           w \<leftarrow> upd_file a (\<lambda>f. f\<lparr> f_position := f_position f + int (length bytes) \<rparr>) w;
           Some (Inr bytes, w) } } })"

definition write_node :: "inode_t \<Rightarrow> 'f mount_point_t \<Rightarrow> addr \<Rightarrow> byte list \<Rightarrow> int \<Rightarrow> 'f vfs_world \<Rightarrow> ((errno + nat) \<times> 'f vfs_world) option" where
  "write_node i m cookie buffer offset w =
     (if mp_flags m AND MOUNT_RO \<noteq> 0 then Some (Inl EROFS, w)
      else case fs_write (mp_calls m) of
          None \<Rightarrow> Some (Inl ENOSYS, w)
        | Some op \<Rightarrow> fs_run (op (i_fs_node i) cookie buffer offset) w)"

definition do_pwrite :: "addr \<Rightarrow> int \<Rightarrow> byte list \<Rightarrow> int \<Rightarrow> 'f vfs_world \<Rightarrow> ((errno + nat) \<times> 'f vfs_world) option" where
  "do_pwrite ctx fd buffer offset = with_file ctx fd (\<lambda>a w. do {
     f \<leftarrow> v_files w a;
     if f_type f = TYPE_DIRECTORY then Some (Inl EISDIR, w)
     else do {
       (f, i, m) \<leftarrow> file_parts a w;
       write_node i m (f_cookie f) buffer offset w } })"

definition do_write :: "addr \<Rightarrow> int \<Rightarrow> byte list \<Rightarrow> 'f vfs_world \<Rightarrow> ((errno + nat) \<times> 'f vfs_world) option" where
  "do_write ctx fd buffer = with_file ctx fd (\<lambda>a w. do {
     f \<leftarrow> v_files w a;
     if f_type f = TYPE_DIRECTORY then Some (Inl EISDIR, w)
     else do {
       (f, i, m) \<leftarrow> file_parts a w;
       (r, w) \<leftarrow> write_node i m (f_cookie f) buffer (f_position f) w;
       case r of
         Inl e \<Rightarrow> Some (Inl e, w)
       | Inr n \<Rightarrow> do {
           w \<leftarrow> upd_file a (\<lambda>f. f\<lparr> f_position := f_position f + int n \<rparr>) w;
           Some (Inr n, w) } } })"

definition dirent_size :: nat where
  "dirent_size = 264"

text \<open>The loop of \<open>do_getdents\<close> fills the caller's entries; an error of \<^verbatim>\<open>read_directory\<close> counts as an entry.\<close>

primrec getdents_loop ::
    "(addr \<Rightarrow> addr \<Rightarrow> ('f, dirent_t option) fs_op) \<Rightarrow> file_t \<Rightarrow> inode_t \<Rightarrow> 'f mount_point_t \<Rightarrow> nat \<Rightarrow> nat \<Rightarrow> dirent_t list \<Rightarrow>
      'f vfs_world \<Rightarrow> (nat \<times> dirent_t list \<times> 'f vfs_world) option" where
  "getdents_loop op f i m 0 ret entries w = Some (ret, entries, w)"
| "getdents_loop op f i m (Suc count) ret entries w = do {
     old \<leftarrow> read_cell (Some entries) (int ret);
     (r, w) \<leftarrow> fs_run (op (i_fs_node i) (f_cookie f)) w;
     case r of
       Inr None \<Rightarrow> Some (ret, entries, w)
     | _ \<Rightarrow> do {
         let entry = (case r of Inr (Some e) \<Rightarrow> e | _ \<Rightarrow> old);
         c \<leftarrow> strcmp (d_name entry) [46, 46, 0];
         entry \<leftarrow> (if c = 0 \<and> d_inode_number entry = mp_root_inode_number m
             then (case mp_mount_inode m of
                 None \<Rightarrow> Some entry
               | Some mi \<Rightarrow> do { mi \<leftarrow> v_inodes w mi; Some (entry\<lparr> d_inode_number := i_number mi \<rparr>) })
             else Some entry);
         entries \<leftarrow> write_cell (Some entries) (int ret) entry;
         getdents_loop op f i m count (Suc ret) entries w } }"

definition do_getdents ::
    "addr \<Rightarrow> int \<Rightarrow> dirent_t list \<Rightarrow> nat \<Rightarrow> 'f vfs_world \<Rightarrow> ((errno + nat \<times> dirent_t list) \<times> 'f vfs_world) option" where
  "do_getdents ctx fd entries buf_size = with_file ctx fd (\<lambda>a w. do {
     f \<leftarrow> v_files w a;
     if f_type f \<noteq> TYPE_DIRECTORY then Some (Inl ENOTDIR, w)
     else do {
       (f, i, m) \<leftarrow> file_parts a w;
       case fs_read_directory (mp_calls m) of
         None \<Rightarrow> Some (Inl ENOSYS, w)
       | Some op \<Rightarrow> do {
           (ret, entries, w) \<leftarrow> getdents_loop op f i m (buf_size div dirent_size) 0 entries w;
           Some (Inr (ret, entries), w) } } })"

definition do_rewinddir :: "addr \<Rightarrow> int \<Rightarrow> 'f vfs_world \<Rightarrow> ((errno + unit) \<times> 'f vfs_world) option" where
  "do_rewinddir ctx fd = with_file ctx fd (\<lambda>a w. do {
     f \<leftarrow> v_files w a;
     if f_type f \<noteq> TYPE_DIRECTORY then Some (Inl ENOTDIR, w)
     else do {
       (f, i, m) \<leftarrow> file_parts a w;
       case fs_rewind_directory (mp_calls m) of
         None \<Rightarrow> Some (Inl ENOSYS, w)
       | Some op \<Rightarrow> fs_run (op (i_fs_node i) (f_cookie f)) w } })"

definition do_isatty :: "addr \<Rightarrow> int \<Rightarrow> 'f vfs_world \<Rightarrow> ((errno + int) \<times> 'f vfs_world) option" where
  "do_isatty ctx fd = with_file ctx fd (\<lambda>a w. do {
     f \<leftarrow> v_files w a;
     if f_type f = TYPE_DIRECTORY then Some (Inr 0, w)
     else do {
       (f, i, m) \<leftarrow> file_parts a w;
       case fs_isatty (mp_calls m) of
         None \<Rightarrow> Some (Inr 0, w)
       | Some op \<Rightarrow> fs_run (op (i_fs_node i)) w } })"

definition do_fstat :: "addr \<Rightarrow> int \<Rightarrow> 'f vfs_world \<Rightarrow> ((errno + stat_t) \<times> 'f vfs_world) option" where
  "do_fstat ctx fd = with_file ctx fd (\<lambda>a w. do {
     (f, i, m) \<leftarrow> file_parts a w;
     case fs_read_stat (mp_calls m) of
       None \<Rightarrow> Some (Inl ENOSYS, w)
     | Some op \<Rightarrow> fs_run (op (i_fs_node i)) w })"

datatype whence = SEEK_SET | SEEK_CUR | SEEK_END | SEEK_OTHER

text \<open>Setting the position: a negative one is refused.\<close>

definition seek_to :: "addr \<Rightarrow> int \<Rightarrow> 'f vfs_world \<Rightarrow> ((errno + int) \<times> 'f vfs_world) option" where
  "seek_to a pos w =
     (if pos < 0 then Some (Inl EINVAL, w)
      else do { w \<leftarrow> upd_file a (\<lambda>f. f\<lparr> f_position := pos \<rparr>) w; Some (Inr pos, w) })"

definition do_lseek :: "addr \<Rightarrow> int \<Rightarrow> int \<Rightarrow> whence \<Rightarrow> 'f vfs_world \<Rightarrow> ((errno + int) \<times> 'f vfs_world) option" where
  "do_lseek ctx fd offset whence = with_file ctx fd (\<lambda>a w. do {
     f \<leftarrow> v_files w a;
     case whence of
       SEEK_SET \<Rightarrow> seek_to a offset w
     | SEEK_CUR \<Rightarrow> seek_to a (f_position f + offset) w
     | SEEK_END \<Rightarrow> do {
         ia \<leftarrow> f_inode f;
         (st, w) \<leftarrow> do_read_stat ia w;
         case st of
           Inl e \<Rightarrow> Some (Inl e, w)
         | Inr st \<Rightarrow> seek_to a (st_size st + offset) w }
     | SEEK_OTHER \<Rightarrow> Some (Inl EINVAL, w) })"

datatype fcntl_cmd = F_DUPFD | F_GETFD | F_SETFD | F_GETFL | F_SETFL | F_OTHER

definition do_fcntl :: "addr \<Rightarrow> int \<Rightarrow> fcntl_cmd \<Rightarrow> u32 \<Rightarrow> 'f vfs_world \<Rightarrow> ((errno + int) \<times> 'f vfs_world) option" where
  "do_fcntl ctx fd cmd arg = with_file ctx fd (\<lambda>a w. do {
     f \<leftarrow> v_files w a;
     case cmd of
       F_DUPFD \<Rightarrow> io_context_insert_file ctx a 3 w
     | F_GETFL \<Rightarrow> Some (Inr (uint (f_flags f)), w)
     | F_SETFL \<Rightarrow> do {
         (f, i, m) \<leftarrow> file_parts a w;
         case fs_set_flags (mp_calls m) of
           None \<Rightarrow> Some (Inl ENOSYS, w)
         | Some op \<Rightarrow> do {
             (r, w) \<leftarrow> fs_run (op (i_fs_node i) (f_cookie f) arg) w;
             case r of
               Inl e \<Rightarrow> Some (Inl e, w)
             | Inr _ \<Rightarrow> do { w \<leftarrow> upd_file a (\<lambda>f. f\<lparr> f_flags := arg \<rparr>) w; Some (Inr 0, w) } } }
     | F_GETFD \<Rightarrow> Some (Inr (if f_close_on_exec f then 1 else 0), w)
     | F_SETFD \<Rightarrow> do {
         w \<leftarrow> upd_file a (\<lambda>f. f\<lparr> f_close_on_exec := (arg AND 1 \<noteq> 0) \<rparr>) w;
         Some (Inr 0, w) }
     | F_OTHER \<Rightarrow> Some (Inl EINVAL, w) })"

definition do_dup :: "addr \<Rightarrow> int \<Rightarrow> 'f vfs_world \<Rightarrow> ((errno + int) \<times> 'f vfs_world) option" where
  "do_dup ctx old_fd = with_file ctx old_fd (\<lambda>a. io_context_insert_file ctx a 3)"

definition do_dup2 :: "addr \<Rightarrow> int \<Rightarrow> int \<Rightarrow> 'f vfs_world \<Rightarrow> ((errno + int) \<times> 'f vfs_world) option" where
  "do_dup2 ctx old_fd new_fd = with_file ctx old_fd (\<lambda>a w. do {
     (r, w) \<leftarrow> io_context_insert_file_at ctx a new_fd True w;
     case r of
       Inl e \<Rightarrow> Some (Inl e, w)
     | Inr _ \<Rightarrow> Some (Inr new_fd, w) })"

definition do_fchdir :: "addr \<Rightarrow> int \<Rightarrow> 'f vfs_world \<Rightarrow> ((errno + unit) \<times> 'f vfs_world) option" where
  "do_fchdir ctx fd = with_file ctx fd (\<lambda>a w. do {
     f \<leftarrow> v_files w a;
     if f_type f \<noteq> TYPE_DIRECTORY then Some (Inl ENOTDIR, w)
     else do {
       c \<leftarrow> v_contexts w ctx;
       ia \<leftarrow> f_inode f;
       let w = w\<lparr> v_contexts := (v_contexts w)(ctx \<mapsto> c\<lparr> io_current_directory := Some ia \<rparr>) \<rparr>;
       w \<leftarrow> inc_inode ia w;
       tmp \<leftarrow> io_current_directory c;
       w \<leftarrow> put_inode tmp w;
       Some (Inr (), w) } })"

section \<open>Calls on a path\<close>

text \<open>The frame of the calls that work in the parent directory of a path.\<close>

definition in_parent ::
    "nat \<Rightarrow> 'f vfs_env \<Rightarrow> addr \<Rightarrow> byte list \<Rightarrow> (inode_t \<Rightarrow> 'f mount_point_t \<Rightarrow> byte list \<Rightarrow> nat \<Rightarrow> 'f vfs_world \<Rightarrow> ((errno + unit) \<times> 'f vfs_world) option) \<Rightarrow>
      'f vfs_world \<Rightarrow> ((errno + unit) \<times> 'f vfs_world) option" where
  "in_parent fuel E ctx path body w = do {
     (r, w) \<leftarrow> lookup_parent_inode fuel E ctx None path w;
     case r of
       Inl e \<Rightarrow> Some (Inl e, w)
     | Inr (name, len, parent) \<Rightarrow> do {
         (p, m) \<leftarrow> mount_of parent w;
         (r, w) \<leftarrow> body p m name len w;
         w \<leftarrow> put_inode parent w;
         Some (r, w) } }"

text \<open>A call of the file system that writes: refused on a read-only mount, \<^verbatim>\<open>ENOSYS\<close> when it is missing.\<close>

definition write_call :: "'f mount_point_t \<Rightarrow> 'c option \<Rightarrow> ('c \<Rightarrow> ('f, unit) fs_op) \<Rightarrow> 'f vfs_world \<Rightarrow> ((errno + unit) \<times> 'f vfs_world) option" where
  "write_call m f app w =
     (if mp_flags m AND MOUNT_RO \<noteq> 0 then Some (Inl EROFS, w)
      else case f of None \<Rightarrow> Some (Inl ENOSYS, w) | Some f \<Rightarrow> fs_run (app f) w)"

definition do_mkdir ::
    "nat \<Rightarrow> 'f vfs_env \<Rightarrow> addr \<Rightarrow> byte list \<Rightarrow> u32 \<Rightarrow> 'f vfs_world \<Rightarrow> ((errno + unit) \<times> 'f vfs_world) option" where
  "do_mkdir fuel E ctx path permissions = in_parent fuel E ctx path
     (\<lambda>p m name len. write_call m (fs_mkdir (mp_calls m)) (\<lambda>f. f (i_fs_node p) name len permissions))"

definition do_symlink ::
    "nat \<Rightarrow> 'f vfs_env \<Rightarrow> addr \<Rightarrow> byte list \<Rightarrow> byte list \<Rightarrow> 'f vfs_world \<Rightarrow> ((errno + unit) \<times> 'f vfs_world) option" where
  "do_symlink fuel E ctx src dest = in_parent fuel E ctx src
     (\<lambda>p m name len. write_call m (fs_symlink (mp_calls m)) (\<lambda>f. f (i_fs_node p) name len dest))"

text \<open>\<open>do_rmdir\<close> and \<open>do_unlink\<close> return early for an empty name, without putting the parent back.\<close>

definition do_rmdir ::
    "nat \<Rightarrow> 'f vfs_env \<Rightarrow> addr \<Rightarrow> byte list \<Rightarrow> 'f vfs_world \<Rightarrow> ((errno + unit) \<times> 'f vfs_world) option" where
  "do_rmdir fuel E ctx path w = do {
     (r, w) \<leftarrow> lookup_parent_inode fuel E ctx None path w;
     case r of
       Inl e \<Rightarrow> Some (Inl e, w)
     | Inr (name, len, parent) \<Rightarrow>
         if len = 0 then Some (Inl EINVAL, w)
         else do {
           (p, m) \<leftarrow> mount_of parent w;
           (r, w) \<leftarrow> write_call m (fs_rmdir (mp_calls m)) (\<lambda>f. f (i_fs_node p) name len) w;
           w \<leftarrow> put_inode parent w;
           Some (r, w) } }"

definition do_unlink ::
    "nat \<Rightarrow> 'f vfs_env \<Rightarrow> addr \<Rightarrow> byte list \<Rightarrow> 'f vfs_world \<Rightarrow> ((errno + unit) \<times> 'f vfs_world) option" where
  "do_unlink fuel E ctx path w = do {
     (r, w) \<leftarrow> lookup_parent_inode fuel E ctx None path w;
     case r of
       Inl e \<Rightarrow> Some (Inl e, w)
     | Inr (name, len, parent) \<Rightarrow>
         if len = 0 then Some (Inl EINVAL, w)
         else do {
           (p, m) \<leftarrow> mount_of parent w;
           (r, w) \<leftarrow> write_call m (fs_unlink (mp_calls m)) (\<lambda>f. f (i_fs_node p) name len) w;
           w \<leftarrow> put_inode parent w;
           Some (r, w) } }"

text \<open>The frame of the calls on the inode of a path.\<close>

definition on_path ::
    "nat \<Rightarrow> 'f vfs_env \<Rightarrow> addr \<Rightarrow> byte list \<Rightarrow> bool \<Rightarrow> (addr \<Rightarrow> 'f vfs_world \<Rightarrow> ((errno + 'a) \<times> 'f vfs_world) option) \<Rightarrow>
      'f vfs_world \<Rightarrow> ((errno + 'a) \<times> 'f vfs_world) option" where
  "on_path fuel E ctx path follow_symlink body w = do {
     (r, w) \<leftarrow> lookup_inode fuel E ctx None path follow_symlink True w;
     case r of
       Inl e \<Rightarrow> Some (Inl e, w)
     | Inr inode \<Rightarrow> do {
         (r, w) \<leftarrow> body inode w;
         w \<leftarrow> put_inode inode w;
         Some (r, w) } }"

definition do_access :: "nat \<Rightarrow> 'f vfs_env \<Rightarrow> addr \<Rightarrow> byte list \<Rightarrow> 'f vfs_world \<Rightarrow> ((errno + unit) \<times> 'f vfs_world) option" where
  "do_access fuel E ctx path = on_path fuel E ctx path True (\<lambda>inode w. Some (Inr (), w))"

definition do_stat ::
    "nat \<Rightarrow> 'f vfs_env \<Rightarrow> addr \<Rightarrow> byte list \<Rightarrow> bool \<Rightarrow> 'f vfs_world \<Rightarrow> ((errno + stat_t) \<times> 'f vfs_world) option" where
  "do_stat fuel E ctx path follow_symlink = on_path fuel E ctx path follow_symlink do_read_stat"

definition do_readlink ::
    "nat \<Rightarrow> 'f vfs_env \<Rightarrow> addr \<Rightarrow> byte list \<Rightarrow> nat \<Rightarrow> 'f vfs_world \<Rightarrow> ((errno + byte list) \<times> 'f vfs_world) option" where
  "do_readlink fuel E ctx path len = on_path fuel E ctx path False (\<lambda>inode w. do {
     (i, m) \<leftarrow> mount_of inode w;
     case fs_readlink (mp_calls m) of
       None \<Rightarrow> Some (Inl ENOSYS, w)
     | Some f \<Rightarrow> fs_run (f (i_fs_node i) len) w })"

definition WSTAT_ATIME :: u32 where "WSTAT_ATIME = 0x400"
definition WSTAT_MTIME :: u32 where "WSTAT_MTIME = 0x800"
definition WSTAT_CTIME :: u32 where "WSTAT_CTIME = 0x1000"

text \<open>\<open>do_utime\<close> puts the access time in \<^verbatim>\<open>st_atime\<close> and the modification time in \<^verbatim>\<open>st_ctime\<close>, and asks for
  \<^verbatim>\<open>WSTAT_MTIME | WSTAT_CTIME\<close>.\<close>

definition do_utime ::
    "nat \<Rightarrow> 'f vfs_env \<Rightarrow> addr \<Rightarrow> byte list \<Rightarrow> int \<Rightarrow> int \<Rightarrow> 'f vfs_world \<Rightarrow> ((errno + unit) \<times> 'f vfs_world) option" where
  "do_utime fuel E ctx path actime modtime = on_path fuel E ctx path True (\<lambda>inode w. do {
     (i, m) \<leftarrow> mount_of inode w;
     write_call m (fs_write_stat (mp_calls m))
       (\<lambda>f. f (i_fs_node i) \<lparr> st_ino = 0, st_mode = 0, st_size = 0, st_atime = actime, st_mtime = 0, st_ctime = modtime \<rparr>
         (WSTAT_MTIME OR WSTAT_CTIME)) w })"

definition sys_chdir ::
    "nat \<Rightarrow> 'f vfs_env \<Rightarrow> addr \<Rightarrow> byte list \<Rightarrow> 'f vfs_world \<Rightarrow> ((errno + unit) \<times> 'f vfs_world) option" where
  "sys_chdir fuel E ctx path w = do {
     (r, w) \<leftarrow> do_open fuel E ctx path O_RDONLY 0x1B6 w;
     case r of
       Inl e \<Rightarrow> Some (Inl e, w)
     | Inr fd \<Rightarrow> do {
         (error, w) \<leftarrow> do_fchdir ctx fd w;
         (r, w) \<leftarrow> do_close ctx fd w;
         Some (error, w) } }"

end
