(* ===== verification/Kernel_Vfs_Safety.thy ===== *)
theory Kernel_Vfs_Safety
  imports Kernel_Vfs
begin

text \<open>
  File descriptors: where a new descriptor goes, that duplicating a descriptor and closing the duplicate,
  or cloning an I/O context and destroying the clone, leave no trace, and how \<^verbatim>\<open>dup2\<close> loses a reference.
\<close>

section \<open>Reference counts of files\<close>

text \<open>A state with \<open>g a\<close> more references to each file \<open>a\<close>.\<close>

definition more_refs :: "(addr \<Rightarrow> int) \<Rightarrow> 'f vfs_world \<Rightarrow> 'f vfs_world" where
  "more_refs g w = w\<lparr> v_files := (\<lambda>a. map_option (\<lambda>f. f\<lparr> f_ref_count := f_ref_count f + g a \<rparr>) (v_files w a)) \<rparr>"

lemma more_refs_simps [simp]:
  "v_contexts (more_refs g w) = v_contexts w" "v_inodes (more_refs g w) = v_inodes w" "v_mounts (more_refs g w) = v_mounts w"
  "v_fs (more_refs g w) = v_fs w" "more_refs (\<lambda>_. 0) w = w"
  "v_files (more_refs g w) a = map_option (\<lambda>f. f\<lparr> f_ref_count := f_ref_count f + g a \<rparr>) (v_files w a)"
  by (simp_all add: more_refs_def option.map_ident cong: map_option_cong)

lemma inc_file_eq: "v_files w a \<noteq> None \<Longrightarrow> inc_file a w = Some (more_refs ((\<lambda>_. 0)(a := 1)) w)"
  by (auto simp: inc_file_def upd_file_def more_refs_def fun_eq_iff option.map_ident cong: map_option_cong)

lemma inc_more_refs: "v_files w a \<noteq> None \<Longrightarrow> inc_file a (more_refs g w) = Some (more_refs (g(a := g a + 1)) w)"
  by (auto simp: inc_file_def upd_file_def more_refs_def fun_eq_iff cong: map_option_cong)

lemma put_more_refs:
  assumes "v_files w a = Some f" and "0 < f_ref_count f" and "0 \<le> g a"
  shows "io_context_put_file a (more_refs (g(a := g a + 1)) w) = Some (more_refs g w)"
  using assms by (auto simp: io_context_put_file_def upd_file_def more_refs_def fun_eq_iff cong: map_option_cong)

text \<open>A file in the table has a reference.\<close>

definition slots_ok :: "vptr list \<Rightarrow> 'f vfs_world \<Rightarrow> bool" where
  "slots_ok t w \<longleftrightarrow> (\<forall>a. Some a \<in> set t \<longrightarrow> (\<exists>f. v_files w a = Some f \<and> 0 < f_ref_count f))"

definition uses :: "vptr list \<Rightarrow> addr \<Rightarrow> int" where
  "uses t a = int (count_list t (Some a))"

lemma uses_simps [simp]:
  "uses [] = (\<lambda>_. 0)" "uses (None # t) = uses t" "uses (Some a # t) = (uses t)(a := uses t a + 1)"
  by (auto simp: uses_def fun_eq_iff)

lemma inc_files_eq:
  assumes "slots_ok t w"
  shows "inc_files t (more_refs g w) = Some (more_refs (\<lambda>a. g a + uses t a) w)"
  using assms
proof (induction t arbitrary: g)
  case Nil
  then show ?case by simp
next
  case (Cons p t)
  have ok: "slots_ok t w" using Cons.prems by (simp add: slots_ok_def)
  show ?case
  proof (cases p)
    case None
    then show ?thesis using Cons.IH [OF ok] by simp
  next
    case (Some a)
    then have a: "v_files w a \<noteq> None" using Cons.prems by (auto simp: slots_ok_def)
    have "inc_files (p # t) (more_refs g w) = inc_files t (more_refs (g(a := g a + 1)) w)"
      using Some inc_more_refs [OF a, of g] by (simp del: fun_upd_apply)
    also have "\<dots> = Some (more_refs (\<lambda>b. (g(a := g a + 1)) b + uses t b) w)" by (rule Cons.IH [OF ok])
    also have "(\<lambda>b. (g(a := g a + 1)) b + uses t b) = (\<lambda>b. g b + uses (p # t) b)" using Some by (auto simp: fun_eq_iff)
    finally show ?thesis .
  qed
qed

lemma put_files_eq:
  assumes "slots_ok t w" and "\<And>a. 0 \<le> g a"
  shows "put_files t (more_refs (\<lambda>a. g a + uses t a) w) = Some (more_refs g w)"
  using assms(1)
proof (induction t)
  case Nil
  then show ?case by simp
next
  case (Cons p t)
  have ok: "slots_ok t w" using Cons.prems by (simp add: slots_ok_def)
  show ?case
  proof (cases p)
    case None
    then show ?thesis using Cons.IH [OF ok] by simp
  next
    case (Some a)
    then obtain f where f: "v_files w a = Some f" "0 < f_ref_count f" using Cons.prems by (auto simp: slots_ok_def)
    let ?h = "\<lambda>b. g b + uses t b"
    have h: "(\<lambda>b. g b + uses (p # t) b) = ?h(a := ?h a + 1)" using Some by (auto simp: fun_eq_iff)
    have "0 \<le> ?h a" using assms(2) [of a] by (simp add: uses_def)
    then have "io_context_put_file a (more_refs (?h(a := ?h a + 1)) w) = Some (more_refs ?h w)" by (rule put_more_refs [OF f])
    then show ?thesis unfolding h using Cons.IH [OF ok] Some by (simp del: fun_upd_apply)
  qed
qed

section \<open>Descriptors\<close>

lemma free_slot_spec:
  assumes "i \<le> length t"
  shows "i \<le> free_slot t i \<and> free_slot t i \<le> length t \<and> (\<forall>j. i \<le> j \<and> j < free_slot t i \<longrightarrow> t ! j \<noteq> None) \<and>
    (free_slot t i < length t \<longrightarrow> t ! free_slot t i = None)"
  using assms
proof (induction t i rule: free_slot.induct)
  case (1 t i)
  show ?case
  proof (cases "i < length t \<and> t ! i \<noteq> None")
    case True
    then have "free_slot t i = free_slot t (Suc i)" by (simp add: free_slot.simps [of t i])
    moreover have "j = i \<or> Suc i \<le> j" if "i \<le> j" for j using that by auto
    ultimately show ?thesis using 1 True by (metis Suc_leD Suc_leI)
  next
    case False
    then have "free_slot t i = i" by (subst free_slot.simps) (rule if_not_P)
    then show ?thesis using False 1 by auto
  qed
qed

definition put_slot :: "addr \<Rightarrow> io_context_t \<Rightarrow> nat \<Rightarrow> vptr \<Rightarrow> 'f vfs_world \<Rightarrow> 'f vfs_world" where
  "put_slot ctx c k p w = w\<lparr> v_contexts := (v_contexts w)(ctx \<mapsto> c\<lparr> io_file_table := (io_file_table c)[k := p] \<rparr>) \<rparr>"

lemma put_slot_more [simp]: "put_slot ctx c k p (more_refs g w) = more_refs g (put_slot ctx c k p w)"
  by (simp add: put_slot_def more_refs_def)

lemma put_slot_simps [simp]:
  "v_files (put_slot ctx c k p w) = v_files w" "v_mounts (put_slot ctx c k p w) = v_mounts w"
  "v_inodes (put_slot ctx c k p w) = v_inodes w"
  "v_contexts (put_slot ctx c k p w) = (v_contexts w)(ctx \<mapsto> c\<lparr> io_file_table := (io_file_table c)[k := p] \<rparr>)"
  by (simp_all add: put_slot_def)

lemma put_slot_back:
  assumes "v_contexts w ctx = Some c" and "io_file_table c ! k = p" and "k < length (io_file_table c)"
  shows "put_slot ctx (c\<lparr> io_file_table := (io_file_table c)[k := q] \<rparr>) k p (put_slot ctx c k q w) = w"
  using assms by (auto simp: put_slot_def fun_upd_idem)

lemma set_slot_eq:
  assumes "v_contexts w ctx = Some c" and "k < length (io_file_table c)"
  shows "set_slot ctx k p w = Some (put_slot ctx c k p w)"
  using assms by (simp add: set_slot_def put_slot_def write_cell_def)

lemma with_open_file:
  assumes c: "v_contexts w ctx = Some c" and fd: "0 \<le> fd" "fd < int (length (io_file_table c))"
    and a: "io_file_table c ! nat fd = Some a" and f: "v_files w a = Some f"
  shows "with_file ctx fd body w = do {
     (r, w) \<leftarrow> body a (more_refs ((\<lambda>_. 0)(a := 1)) w);
     w \<leftarrow> io_context_put_file a w;
     Some (r, w) }"
  using inc_file_eq [of w a] f c fd a by (simp add: with_file_def io_context_get_file_def)

lemma open_slot:
  assumes "slots_ok t w" and "0 \<le> fd" "fd < int (length t)" and "t ! nat fd = Some a"
  shows "\<exists>f. v_files w a = Some f \<and> 0 < f_ref_count f"
proof -
  have "Some a \<in> set t" using assms(2-4) nth_mem [of "nat fd" t] by auto
  then show ?thesis using assms(1) by (simp add: slots_ok_def)
qed

text \<open>C22: Duplicating an open descriptor gives the lowest free descriptor from 3 on, now a second name of the same file,
  with one more reference to it and nothing else changed; when the table is full the call fails with
  \<^verbatim>\<open>ENOMEM\<close> and changes nothing. Closing the duplicate restores the state exactly.\<close>

theorem dup_then_close:
  assumes c: "v_contexts w ctx = Some c" and fd: "0 \<le> fd" "fd < int (length (io_file_table c))"
    and a: "io_file_table c ! nat fd = Some a" and ok: "slots_ok (io_file_table c) w" and len: "3 \<le> length (io_file_table c)"
  shows "if \<exists>i < length (io_file_table c). 3 \<le> i \<and> io_file_table c ! i = None
    then \<exists>k w'. do_dup ctx fd w = Some (Inr (int k), w') \<and> 3 \<le> k \<and> k < length (io_file_table c) \<and>
      io_file_table c ! k = None \<and> (\<forall>j. 3 \<le> j \<and> j < k \<longrightarrow> io_file_table c ! j \<noteq> None) \<and>
      w' = put_slot ctx c k (Some a) (more_refs ((\<lambda>_. 0)(a := 1)) w) \<and> do_close ctx (int k) w' = Some (Inr (), w)
    else do_dup ctx fd w = Some (Inl ENOMEM, w)"
proof -
  let ?t = "io_file_table c" and ?one = "(\<lambda>_ :: nat. 0 :: int)(a := 1)"
  let ?k = "free_slot ?t 3"
  obtain f where f: "v_files w a = Some f" "0 < f_ref_count f" using open_slot [OF ok fd a] by blast
  have k: "3 \<le> ?k" "?k \<le> length ?t" "\<forall>j. 3 \<le> j \<and> j < ?k \<longrightarrow> ?t ! j \<noteq> None" "?k < length ?t \<Longrightarrow> ?t ! ?k = None"
    using free_slot_spec [OF len] by blast+
  have undo: "io_context_put_file a (more_refs ?one v) = Some v" if "v_files v a = Some f" for v :: "'a vfs_world"
    using put_more_refs [OF that f(2), of "\<lambda>_. 0"] by simp
  show ?thesis
  proof (cases "?k < length ?t")
    case False
    then have "\<not> (\<exists>i < length ?t. 3 \<le> i \<and> ?t ! i = None)" using k(2,3) by auto
    moreover have "do_dup ctx fd w = Some (Inl ENOMEM, w)"
      unfolding do_dup_def with_open_file [OF c fd a f(1)]
      using False k(2) c undo [OF f(1)] by (simp add: io_context_insert_file_def)
    ultimately show ?thesis by (simp only: if_False)
  next
    case True
    then have ex: "\<exists>i < length ?t. 3 \<le> i \<and> ?t ! i = None" using k(1,4) by blast
    let ?v = "put_slot ctx c ?k (Some a) w"
    have inc: "inc_file a (more_refs ?one ?v) = Some (more_refs (?one(a := ?one a + 1)) ?v)"
      by (rule inc_more_refs) (simp add: f)
    have decr: "io_context_put_file a (more_refs (?one(a := ?one a + 1)) ?v) = Some (more_refs ?one ?v)"
      by (rule put_more_refs [of _ _ f]) (simp_all add: f)
    have ins: "io_context_insert_file ctx a 3 (more_refs ?one w) = Some (Inr (int ?k), more_refs (?one(a := ?one a + 1)) ?v)"
      using True c set_slot_eq [of "more_refs ?one w" ctx c ?k "Some a"] inc by (simp add: io_context_insert_file_def Let_def)
    have dup: "do_dup ctx fd w = Some (Inr (int ?k), more_refs ?one ?v)"
      unfolding do_dup_def with_open_file [OF c fd a f(1)] using ins decr by simp
    let ?c = "c\<lparr> io_file_table := ?t[?k := Some a] \<rparr>"
    have "set_slot ctx ?k None (more_refs ?one ?v) = Some (put_slot ctx ?c ?k None (more_refs ?one ?v))"
      by (rule set_slot_eq) (use True in simp_all)
    also have "put_slot ctx ?c ?k None (more_refs ?one ?v) = more_refs ?one w"
      using put_slot_back [OF c k(4) [OF True] True, of "Some a"] by simp
    finally have gone: "set_slot ctx ?k None (more_refs ?one ?v) = Some (more_refs ?one w)" .
    have "do_close ctx (int ?k) (more_refs ?one ?v) = Some (Inr (), w)"
      using True undo [OF f(1)] gone by (simp add: do_close_def io_context_remove_file_def)
    then have "\<exists>k w'. do_dup ctx fd w = Some (Inr (int k), w') \<and> 3 \<le> k \<and> k < length ?t \<and> ?t ! k = None \<and>
      (\<forall>j. 3 \<le> j \<and> j < k \<longrightarrow> ?t ! j \<noteq> None) \<and>
      w' = put_slot ctx c k (Some a) (more_refs ?one w) \<and> do_close ctx (int k) w' = Some (Inr (), w)"
      using dup k True by (intro exI [of _ ?k] exI [of _ "more_refs ?one ?v"]) (simp only: put_slot_more simp_thms)
    then show ?thesis using ex by (simp only: if_True)
  qed
qed

definition wit_file :: file_t where
  "wit_file = \<lparr> f_flags = 0, f_position = 0, f_inode = None, f_type = TYPE_FILE, f_cookie = 0, f_ref_count = 1,
     f_close_on_exec = False \<rparr>"

definition wit_inode :: inode_t where
  "wit_inode = \<lparr> i_number = 2, i_ref_count = 2, i_mount = None, i_mount_point = 6, i_fs_node = 0, i_next_free = None \<rparr>"

definition no_calls :: "unit filesystem_calls" where
  "no_calls = \<lparr> fs_read_inode = (\<lambda>_ s. Some (Inl ENOENT, s)), fs_write_inode = None,
     fs_lookup_inode = (\<lambda>_ _ _ s. Some (Inl ENOENT, s)), fs_open = None, fs_close = None, fs_free_cookie = None,
     fs_read = None, fs_write = None, fs_read_stat = None, fs_write_stat = None, fs_read_directory = None,
     fs_rewind_directory = None, fs_create = None, fs_unlink = None, fs_mkdir = None, fs_rmdir = None, fs_isatty = None,
     fs_symlink = None, fs_readlink = None, fs_set_flags = None \<rparr>"

text \<open>A context with the descriptor 0 open and room for one more file, its root directory being its current one.\<close>

definition wit_context :: io_context_t where
  "wit_context = \<lparr> io_root_directory = Some 4, io_current_directory = Some 4, io_file_table = [Some 8, None, None, None] \<rparr>"

definition wit_files :: "unit vfs_world" where
  "wit_files = \<lparr> v_inodes = [4 \<mapsto> wit_inode],
     v_mounts = [6 \<mapsto> \<lparr> mp_inode_cache = \<lparr> inode_table = [2 \<mapsto> 4], free_inode_count = 0, max_free_inode_count = 2,
       free_inodes = None \<rparr>, mp_calls = no_calls, mp_root_inode_number = 2, mp_mount_inode = None, mp_flags = 0 \<rparr>],
     v_files = [8 \<mapsto> wit_file], v_contexts = [1 \<mapsto> wit_context], v_fs = () \<rparr>"

lemma wit_slots: "slots_ok (io_file_table wit_context) wit_files"
  by (simp add: slots_ok_def wit_context_def wit_files_def wit_file_def)

theorem dup_then_close_witness:
  "\<exists>w'. do_dup 1 0 wit_files = Some (Inr 3, w') \<and> do_close 1 3 w' = Some (Inr (), wit_files)"
proof -
  have "\<exists>i < length (io_file_table wit_context). 3 \<le> i \<and> io_file_table wit_context ! i = None"
    by (rule exI [of _ 3]) (simp add: wit_context_def)
  then have "\<exists>k w'. do_dup 1 0 wit_files = Some (Inr (int k), w') \<and> 3 \<le> k \<and> k < 4 \<and> do_close 1 (int k) w' = Some (Inr (), wit_files)"
    using dup_then_close [of wit_files 1 wit_context 0 8] wit_slots by (auto simp: wit_files_def wit_context_def)
  then obtain k w' where k: "do_dup 1 0 wit_files = Some (Inr (int k), w')" "3 \<le> k" "k < 4"
    "do_close 1 (int k) w' = Some (Inr (), wit_files)" by (elim exE conjE)
  moreover have "k = 3" using k(2,3) by simp
  ultimately show ?thesis by simp
qed

text \<open>A call of \<^verbatim>\<open>dup2\<close> with a new descriptor outside the table fails with \<^verbatim>\<open>EINVAL\<close> but leaves the reference that
  \<^verbatim>\<open>io_context_insert_file_at\<close> has taken: no descriptor has changed, the file has one reference more than before,
  and closing its only descriptor afterwards removes the descriptor but never closes the file.\<close>

theorem dup2_leaks_reference:
  assumes c: "v_contexts w ctx = Some c" and fd: "0 \<le> fd" "fd < int (length (io_file_table c))"
    and a: "io_file_table c ! nat fd = Some a" and f: "v_files w a = Some f" "f_ref_count f = 1"
    and new: "new_fd < 0 \<or> int (length (io_file_table c)) \<le> new_fd"
  shows "\<exists>w' w''. do_dup2 ctx fd new_fd w = Some (Inl EINVAL, w') \<and> v_contexts w' = v_contexts w \<and>
    v_files w' = (v_files w)(a \<mapsto> f\<lparr> f_ref_count := 2 \<rparr>) \<and>
    do_close ctx fd w' = Some (Inr (), w'') \<and>
    v_contexts w'' = (v_contexts w)(ctx \<mapsto> c\<lparr> io_file_table := (io_file_table c)[nat fd := None] \<rparr>) \<and>
    v_files w'' = v_files w"
proof -
  let ?one = "(\<lambda>_ :: nat. 0 :: int)(a := 1)"
  let ?w = "more_refs ?one w"
  have inc: "inc_file a ?w = Some (more_refs (?one(a := ?one a + 1)) w)" by (rule inc_more_refs) (simp add: f)
  have decr: "io_context_put_file a (more_refs (?one(a := ?one a + 1)) w) = Some ?w"
    by (rule put_more_refs [OF f(1)]) (simp_all add: f)
  have dup: "do_dup2 ctx fd new_fd w = Some (Inl EINVAL, ?w)"
    unfolding do_dup2_def with_open_file [OF c fd a f(1)]
    using inc decr c new by (auto simp: io_context_insert_file_at_def)
  let ?v = "put_slot ctx c (nat fd) None w"
  have "set_slot ctx (nat fd) None ?w = Some (more_refs ?one ?v)"
    using set_slot_eq [of ?w ctx c "nat fd" None] c fd by (simp add: nat_less_iff)
  moreover have "io_context_put_file a (more_refs ?one ?v) = Some ?v"
    using put_more_refs [of ?v a f "\<lambda>_. 0"] f by simp
  ultimately have "do_close ctx fd ?w = Some (Inr (), ?v)"
    using c fd a by (simp add: do_close_def io_context_remove_file_def)
  moreover have "v_files ?w = (v_files w)(a \<mapsto> f\<lparr> f_ref_count := 2 \<rparr>)"
    using f by (auto simp: fun_eq_iff option.map_ident cong: map_option_cong)
  ultimately show ?thesis using dup by (intro exI [of _ ?w] exI [of _ ?v]) simp
qed

theorem dup2_leaks_reference_witness:
  "\<exists>w' w''. do_dup2 1 0 99 wit_files = Some (Inl EINVAL, w') \<and> v_contexts w' = v_contexts wit_files \<and>
    v_files w' = (v_files wit_files)(8 \<mapsto> wit_file\<lparr> f_ref_count := 2 \<rparr>) \<and>
    do_close 1 0 w' = Some (Inr (), w'') \<and>
    v_contexts w'' = (v_contexts wit_files)(1 \<mapsto> wit_context\<lparr> io_file_table := (io_file_table wit_context)[nat 0 := None] \<rparr>) \<and>
    v_files w'' = v_files wit_files"
  by (rule dup2_leaks_reference) (simp_all add: wit_files_def wit_context_def wit_file_def)

section \<open>Cloning contexts\<close>

lemma put_inc_inode:
  assumes "v_inodes w a = Some i" and "v_mounts w (i_mount_point i) \<noteq> None" and "0 < k" and "0 < i_ref_count i"
  shows "put_inode a (w\<lparr> v_inodes := (v_inodes w)(a \<mapsto> i\<lparr> i_ref_count := i_ref_count i + k \<rparr>) \<rparr>) =
    Some (w\<lparr> v_inodes := (v_inodes w)(a \<mapsto> i\<lparr> i_ref_count := i_ref_count i + k - 1 \<rparr>) \<rparr>)"
  using assms by (auto simp: put_inode_def upd_inode_def)

text \<open>The state with one more reference to each of two inodes.\<close>

definition inodes_plus :: "addr \<Rightarrow> addr \<Rightarrow> 'f vfs_world \<Rightarrow> 'f vfs_world" where
  "inodes_plus a b w = w\<lparr> v_inodes := (\<lambda>x. map_option (\<lambda>i. i\<lparr> i_ref_count := i_ref_count i +
     (if x = a then 1 else 0) + (if x = b then 1 else 0) \<rparr>) (v_inodes w x)) \<rparr>"

lemma inc_two:
  assumes "v_inodes w a \<noteq> None" and "v_inodes w b \<noteq> None"
  shows "do { w \<leftarrow> inc_inode a w; inc_inode b w } = Some (inodes_plus a b w)"
  using assms by (auto simp: inc_inode_def upd_inode_def inodes_plus_def fun_eq_iff option.map_ident cong: map_option_cong)

lemma put_two:
  assumes "v_inodes w a = Some i" "v_inodes w b = Some j" and "v_mounts w (i_mount_point i) \<noteq> None" "v_mounts w (i_mount_point j) \<noteq> None"
    and "0 < i_ref_count i" "0 < i_ref_count j"
  shows "do { w \<leftarrow> put_inode a (inodes_plus a b w); put_inode b w } = Some w"
proof -
  have "put_inode a (inodes_plus a b w) = Some (w\<lparr> v_inodes := (v_inodes w)(b \<mapsto> j\<lparr> i_ref_count := i_ref_count j + 1 \<rparr>) \<rparr>)"
    using assms
    by (auto simp: put_inode_def upd_inode_def inodes_plus_def fun_eq_iff option.map_ident cong: map_option_cong)
  moreover have "put_inode b (w\<lparr> v_inodes := (v_inodes w)(b \<mapsto> j\<lparr> i_ref_count := i_ref_count j + 1 \<rparr>) \<rparr>) = Some w"
    using put_inc_inode [OF assms(2,4) _ assms(6), of 1] assms(2) by (simp add: fun_upd_idem)
  ultimately show ?thesis by simp
qed

text \<open>C21: Cloning an I/O context, as a fork does, gives a context with the same descriptors and directories in which each
  file has one reference more for each descriptor and the directories one more each; destroying the clone, as the exit
  of the child does, restores the state exactly.\<close>

theorem clone_then_destroy:
  assumes c: "v_contexts w old_ctx = Some c" and fresh: "v_contexts w ctx = None"
    and dirs: "io_root_directory c = Some r" "io_current_directory c = Some d"
    and i: "v_inodes w r = Some i" "v_inodes w d = Some j" "v_mounts w (i_mount_point i) \<noteq> None"
      "v_mounts w (i_mount_point j) \<noteq> None" "0 < i_ref_count i" "0 < i_ref_count j"
    and ok: "slots_ok (io_file_table c) w"
  shows "\<exists>w'. io_context_clone (Some ctx) (Inr ()) True old_ctx w = Some (Some ctx, w') \<and>
    v_contexts w' = (v_contexts w)(ctx \<mapsto> c) \<and> v_files w' = v_files (more_refs (uses (io_file_table c)) w) \<and>
    v_inodes w' = v_inodes (inodes_plus r d w) \<and> destroy_io_context ctx w' = Some w"
proof -
  let ?e = "\<lparr> io_root_directory = None, io_current_directory = None, io_file_table = replicate (length (io_file_table c)) None \<rparr>"
  let ?w0 = "w\<lparr> v_contexts := (v_contexts w)(ctx \<mapsto> ?e) \<rparr>" and ?w1 = "w\<lparr> v_contexts := (v_contexts w)(ctx \<mapsto> c) \<rparr>"
  let ?v = "inodes_plus r d ?w1"
  have two: "do { w \<leftarrow> inc_inode r ?w0; inc_inode d w } = Some (inodes_plus r d ?w0)" by (rule inc_two) (simp_all add: i)
  then obtain u where u: "inc_inode r ?w0 = Some u" "inc_inode d u = Some (inodes_plus r d ?w0)" by (auto split: bind_splits)
  have "(inodes_plus r d ?w0)\<lparr> v_contexts := (v_contexts (inodes_plus r d ?w0))(ctx \<mapsto> c) \<rparr> = ?v" by (simp add: inodes_plus_def)
  moreover have ok': "slots_ok (io_file_table c) ?v" using ok by (simp add: slots_ok_def inodes_plus_def)
  then have "inc_files (io_file_table c) ?v = Some (more_refs (uses (io_file_table c)) ?v)"
    using inc_files_eq [OF ok', of "\<lambda>_. 0"] by simp
  ultimately have run: "io_context_clone (Some ctx) (Inr ()) True old_ctx w = Some (Some ctx, more_refs (uses (io_file_table c)) ?v)"
    using c dirs u by (simp add: io_context_clone_def init_io_context_def Let_def)
  have "put_files (io_file_table c) (more_refs (uses (io_file_table c)) ?v) = Some ?v"
    using put_files_eq [OF ok', of "\<lambda>_. 0"] by simp
  moreover have "do { w \<leftarrow> put_inode r ?v; put_inode d w } = Some ?w1" by (rule put_two [of _ _ i _ j]) (simp_all add: i)
  then obtain u' where "put_inode r ?v = Some u'" "put_inode d u' = Some ?w1" by (auto split: bind_splits)
  moreover have "?w1\<lparr> v_contexts := (v_contexts ?w1)(ctx := None) \<rparr> = w" using fresh by (simp add: fun_upd_idem)
  ultimately have "destroy_io_context ctx (more_refs (uses (io_file_table c)) ?v) = Some w"
    using dirs by (simp add: destroy_io_context_def inodes_plus_def)
  then show ?thesis using run
    by (intro exI [of _ "more_refs (uses (io_file_table c)) ?v"]) (simp add: inodes_plus_def more_refs_def)
qed

theorem clone_then_destroy_witness:
  "\<exists>w'. io_context_clone (Some 3) (Inr ()) True 1 wit_files = Some (Some 3, w') \<and>
    v_contexts w' = (v_contexts wit_files)(3 \<mapsto> wit_context) \<and>
    v_files w' = v_files (more_refs (uses (io_file_table wit_context)) wit_files) \<and>
    v_inodes w' = v_inodes (inodes_plus 4 4 wit_files) \<and> destroy_io_context 3 w' = Some wit_files"
  by (rule clone_then_destroy [OF _ _ _ _ _ _ _ _ _ _ wit_slots, where i = wit_inode and j = wit_inode])
    (simp_all add: wit_files_def wit_context_def wit_inode_def)

end
