(* ===== verification/Kernel_Rootfs.thy ===== *)
theory Kernel_Rootfs
  imports Kernel_Inode Kernel_Ids
begin

unbundle bit_operations_syntax

text \<open>
  The root file system, \<^verbatim>\<open>source/kernel/src/vfs/rootfs.c\<close>: a tree of directories and symbolic links in the
  memory of the kernel. A node is linked to its parent, its siblings and its first child, and is entered in
  a table by its inode number. The functions are those of the table \<^verbatim>\<open>rootfs_calls\<close>, each running under the
  mutex of the file system.

  A node and its name are one heap object (\<^verbatim>\<open>node->name\<close> points behind the node), so that
  \<^verbatim>\<open>kfree( node->name )\<close> passes a pointer that \<^verbatim>\<open>kmalloc\<close> never returned: \<^verbatim>\<open>kfree\<close> panics on it.
\<close>

section \<open>Data\<close>

record rootfs_node_t =
  rn_name :: "byte list"
  rn_is_directory :: bool
  rn_inode_number :: int
  rn_atime :: int
  rn_mtime :: int
  rn_ctime :: int
  rn_link_path :: "byte list option"
  rn_is_loaded :: bool
  rn_link_count :: int
  rn_parent :: vptr
  rn_prev_sibling :: vptr
  rn_next_sibling :: vptr
  rn_first_child :: vptr

record rootfs =
  rf_nodes :: "addr \<rightharpoonup> rootfs_node_t"
  rootfs_node_table :: "int \<rightharpoonup> addr"
  rootfs_inode_counter :: int
  rf_cookies :: "addr \<rightharpoonup> int"
  rf_now :: int

text \<open>The heap: a node with room for a name of \<open>n\<close> bytes (its address and the content of that room), a
  directory cookie, and the block of a link path.\<close>

record rootfs_env =
  re_node :: "rootfs \<Rightarrow> nat \<Rightarrow> (addr \<times> byte list) option"
  re_cookie :: "rootfs \<Rightarrow> vptr"
  re_bytes :: "byte alloc"

definition upd_node :: "addr \<Rightarrow> (rootfs_node_t \<Rightarrow> rootfs_node_t) \<Rightarrow> rootfs \<Rightarrow> rootfs option" where
  "upd_node a f s = do {
     n \<leftarrow> rf_nodes s a;
     Some (s\<lparr> rf_nodes := (rf_nodes s)(a \<mapsto> f n) \<rparr>) }"

text \<open>An assignment through a pointer that has been tested for \<^verbatim>\<open>NULL\<close>.\<close>

definition upd_ptr :: "vptr \<Rightarrow> (rootfs_node_t \<Rightarrow> rootfs_node_t) \<Rightarrow> rootfs \<Rightarrow> rootfs option" where
  "upd_ptr p f s = (case p of None \<Rightarrow> Some s | Some a \<Rightarrow> upd_node a f s)"

section \<open>Nodes\<close>

definition rootfs_create_node ::
    "rootfs_env \<Rightarrow> vptr \<Rightarrow> byte list \<Rightarrow> nat option \<Rightarrow> bool \<Rightarrow> rootfs \<Rightarrow> (vptr \<times> rootfs) option" where
  "rootfs_create_node E parent name len is_directory s = do {
     len \<leftarrow> (case len of None \<Rightarrow> strlen name | Some n \<Rightarrow> Some n);
     case re_node E s len of
       None \<Rightarrow> Some (None, s)
     | Some (a, room) \<Rightarrow> do {
         buf \<leftarrow> strncpy room name len;
         buf \<leftarrow> write_cell (Some buf) (int len) 0;
         next \<leftarrow> (case parent of None \<Rightarrow> Some None
                | Some p \<Rightarrow> do { pn \<leftarrow> rf_nodes s p; Some (rn_first_child pn) });
         let s = s\<lparr> rf_nodes := (rf_nodes s)(a \<mapsto> \<lparr> rn_name = buf, rn_is_directory = is_directory, rn_inode_number = 0,
                rn_atime = rf_now s, rn_mtime = rf_now s, rn_ctime = rf_now s, rn_link_path = None, rn_is_loaded = False,
                rn_link_count = 1, rn_parent = parent, rn_prev_sibling = None, rn_next_sibling = next,
                rn_first_child = None \<rparr>) \<rparr>;
         s \<leftarrow> upd_ptr next (\<lambda>n. n\<lparr> rn_prev_sibling := Some a \<rparr>) s;
         s \<leftarrow> upd_ptr parent (\<lambda>n. n\<lparr> rn_first_child := Some a \<rparr>) s;
         (ino, counter) \<leftarrow> fresh_ino (rootfs_node_table s) (rootfs_inode_counter s);
         s \<leftarrow> upd_node a (\<lambda>n. n\<lparr> rn_inode_number := ino \<rparr>) s;
         Some (Some a, s\<lparr> rootfs_inode_counter := counter,
           rootfs_node_table := (rootfs_node_table s)(ino \<mapsto> a) \<rparr>) } }"

text \<open>Deleting a node: the unlinking is skipped for a node that is unlinked already, the memory of a node that
  is loaded is kept. Otherwise \<^verbatim>\<open>kfree\<close> is called on the name and panics.\<close>

definition rootfs_delete_node :: "addr \<Rightarrow> rootfs \<Rightarrow> rootfs option" where
  "rootfs_delete_node a s = do {
     n \<leftarrow> rf_nodes s a;
     s \<leftarrow> (if 0 < rn_link_count n then do {
         p \<leftarrow> rn_parent n;
         pn \<leftarrow> rf_nodes s p;
         s \<leftarrow> (if rn_first_child pn = Some a then upd_node p (\<lambda>n'. n'\<lparr> rn_first_child := rn_next_sibling n \<rparr>) s else Some s);
         s \<leftarrow> upd_ptr (rn_prev_sibling n) (\<lambda>n'. n'\<lparr> rn_next_sibling := rn_next_sibling n \<rparr>) s;
         s \<leftarrow> upd_ptr (rn_next_sibling n) (\<lambda>n'. n'\<lparr> rn_prev_sibling := rn_prev_sibling n \<rparr>) s;
         upd_node a (\<lambda>n'. n'\<lparr> rn_link_count := rn_link_count n' - 1 \<rparr>) s }
       else Some s);
     n \<leftarrow> rf_nodes s a;
     if rn_link_count n \<noteq> 0 then None
     else do {
       let s = s\<lparr> rootfs_node_table := (rootfs_node_table s)(rn_inode_number n := None) \<rparr>;
       if \<not> rn_is_loaded n then None else Some s } }"

section \<open>The calls\<close>

definition rootfs_read_inode :: "int \<Rightarrow> (rootfs, addr) fs_op" where
  "rootfs_read_inode inode_num s = (case rootfs_node_table s inode_num of
       None \<Rightarrow> Some (Inl ENOENT, s)
     | Some a \<Rightarrow> do {
         n \<leftarrow> rf_nodes s a;
         if rn_is_loaded n then None
         else do {
           s \<leftarrow> upd_node a (\<lambda>n. n\<lparr> rn_is_loaded := True \<rparr>) s;
           Some (Inr a, s) } })"

definition rootfs_write_inode :: "addr \<Rightarrow> (rootfs, unit) fs_op" where
  "rootfs_write_inode a s = do {
     n \<leftarrow> rf_nodes s a;
     if \<not> rn_is_loaded n then None
     else do {
       s \<leftarrow> upd_node a (\<lambda>n. n\<lparr> rn_is_loaded := False \<rparr>) s;
       s \<leftarrow> (if rn_link_count n = 0 then rootfs_delete_node a s else Some s);
       Some (Inr (), s) } }"

text \<open>The search among the children.\<close>

definition name_is :: "rootfs_node_t \<Rightarrow> byte list \<Rightarrow> nat \<Rightarrow> bool option" where
  "name_is n name len = do {
     k \<leftarrow> strlen (rn_name n);
     if k = len then do { c \<leftarrow> strncmp (rn_name n) name len; Some (c = 0) } else Some False }"

partial_function (option) rootfs_child_loop :: "rootfs \<Rightarrow> byte list \<Rightarrow> nat \<Rightarrow> vptr \<Rightarrow> (errno + int) option" where
  "rootfs_child_loop s name len p =
     (if p = None then Some (Inl ENOENT)
      else do {
         a \<leftarrow> p;
         n \<leftarrow> rf_nodes s a;
         hit \<leftarrow> name_is n name len;
         if hit then Some (Inr (rn_inode_number n)) else rootfs_child_loop s name len (rn_next_sibling n) })"

definition rootfs_do_lookup_inode :: "addr \<Rightarrow> byte list \<Rightarrow> nat \<Rightarrow> rootfs \<Rightarrow> (errno + int) option" where
  "rootfs_do_lookup_inode parent name len s = do {
     p \<leftarrow> rf_nodes s parent;
     dots \<leftarrow> (if len = 2 then do { c \<leftarrow> strncmp name [46, 46, 0] 2; Some (c = 0) } else Some False);
     if dots then (case rn_parent p of
         None \<Rightarrow> Some (Inl EINVAL)
       | Some pp \<Rightarrow> do { ppn \<leftarrow> rf_nodes s pp; Some (Inr (rn_inode_number ppn)) })
     else rootfs_child_loop s name len (rn_first_child p) }"

definition rootfs_lookup_inode :: "addr \<Rightarrow> byte list \<Rightarrow> nat \<Rightarrow> (rootfs, int) fs_op" where
  "rootfs_lookup_inode parent name len s = do {
     r \<leftarrow> rootfs_do_lookup_inode parent name len s;
     Some (r, s) }"

definition rootfs_open_directory :: "rootfs_env \<Rightarrow> (rootfs, addr) fs_op" where
  "rootfs_open_directory E s = (case re_cookie E s of
       None \<Rightarrow> Some (Inl ENOMEM, s)
     | Some c \<Rightarrow> Some (Inr c, s\<lparr> rf_cookies := (rf_cookies s)(c \<mapsto> 0) \<rparr>))"

definition rootfs_open :: "rootfs_env \<Rightarrow> addr \<Rightarrow> u32 \<Rightarrow> (rootfs, addr) fs_op" where
  "rootfs_open E node mode s = do {
     n \<leftarrow> rf_nodes s node;
     if rn_is_directory n then rootfs_open_directory E s else Some (Inl ENOSYS, s) }"

definition rootfs_close :: "addr \<Rightarrow> addr \<Rightarrow> (rootfs, unit) fs_op" where
  "rootfs_close node cookie s = Some (Inr (), s)"

definition rootfs_free_cookie :: "addr \<Rightarrow> addr \<Rightarrow> (rootfs, unit) fs_op" where
  "rootfs_free_cookie node cookie s = Some (Inr (), s)"

definition rootfs_read_stat :: "addr \<Rightarrow> (rootfs, stat_t) fs_op" where
  "rootfs_read_stat node s = do {
     n \<leftarrow> rf_nodes s node;
     Some (Inr \<lparr> st_ino = rn_inode_number n,
       st_mode = 0x1FF OR (if rn_link_path n \<noteq> None then S_IFLNK else if rn_is_directory n then S_IFDIR else S_IFREG),
       st_size = 0, st_atime = rn_atime n, st_mtime = rn_mtime n, st_ctime = rn_ctime n \<rparr>, s) }"

definition rootfs_write_stat :: "addr \<Rightarrow> stat_t \<Rightarrow> u32 \<Rightarrow> (rootfs, unit) fs_op" where
  "rootfs_write_stat node st msk s = do {
     s \<leftarrow> upd_node node (\<lambda>n. n\<lparr>
       rn_atime := (if msk AND 0x400 \<noteq> 0 then st_atime st else rn_atime n),
       rn_mtime := (if msk AND 0x800 \<noteq> 0 then st_mtime st else rn_mtime n),
       rn_ctime := (if msk AND 0x1000 \<noteq> 0 then st_ctime st else rn_ctime n) \<rparr>) s;
     Some (Inr (), s) }"

text \<open>The child at a position of the directory.\<close>

partial_function (option) rootfs_nth_child :: "rootfs \<Rightarrow> int \<Rightarrow> int \<Rightarrow> vptr \<Rightarrow> vptr option" where
  "rootfs_nth_child s position current p =
     (if p = None then Some None
      else if current = position then Some p
      else do { a \<leftarrow> p; n \<leftarrow> rf_nodes s a; rootfs_nth_child s position (current + 1) (rn_next_sibling n) })"

definition NAME_MAX :: nat where "NAME_MAX = 255"

definition rootfs_read_directory :: "addr \<Rightarrow> addr \<Rightarrow> byte list \<Rightarrow> (rootfs, dirent_t option) fs_op" where
  "rootfs_read_directory node cookie buf s = do {
     n \<leftarrow> rf_nodes s node;
     if \<not> rn_is_directory n then Some (Inl ENOTDIR, s)
     else do {
       position \<leftarrow> rf_cookies s cookie;
       child \<leftarrow> rootfs_nth_child s position 0 (rn_first_child n);
       case child of
         Some a \<Rightarrow> do {
           c \<leftarrow> rf_nodes s a;
           buf \<leftarrow> strncpy buf (rn_name c) NAME_MAX;
           buf \<leftarrow> write_cell (Some buf) (int NAME_MAX) 0;
           Some (Inr (Some \<lparr> d_inode_number = rn_inode_number c, d_name = buf \<rparr>),
             s\<lparr> rf_cookies := (rf_cookies s)(cookie \<mapsto> position + 1) \<rparr>) }
       | None \<Rightarrow> do {
           s \<leftarrow> upd_node node (\<lambda>n. n\<lparr> rn_atime := rf_now s \<rparr>) s;
           Some (Inr None, s) } } }"

definition rootfs_rewind_directory :: "addr \<Rightarrow> addr \<Rightarrow> (rootfs, unit) fs_op" where
  "rootfs_rewind_directory node cookie s = do {
     position \<leftarrow> rf_cookies s cookie;
     Some (Inr (), s\<lparr> rf_cookies := (rf_cookies s)(cookie \<mapsto> 0) \<rparr>) }"

definition touch_mtime :: "addr \<Rightarrow> rootfs \<Rightarrow> rootfs option" where
  "touch_mtime a s = upd_node a (\<lambda>n. n\<lparr> rn_mtime := rf_now s \<rparr>) s"

definition rootfs_mkdir :: "rootfs_env \<Rightarrow> addr \<Rightarrow> byte list \<Rightarrow> nat \<Rightarrow> u32 \<Rightarrow> (rootfs, unit) fs_op" where
  "rootfs_mkdir E node name len permissions s = do {
     r \<leftarrow> rootfs_do_lookup_inode node name len s;
     case r of
       Inr _ \<Rightarrow> Some (Inl EEXIST, s)
     | Inl _ \<Rightarrow> do {
         n \<leftarrow> rf_nodes s node;
         if \<not> rn_is_directory n then Some (Inl EINVAL, s)
         else do {
           (new_node, s) \<leftarrow> rootfs_create_node E (Some node) name (Some len) True s;
           case new_node of
             None \<Rightarrow> Some (Inl ENOMEM, s)
           | Some a \<Rightarrow> do { s \<leftarrow> touch_mtime node s; Some (Inr (), s) } } } }"

definition rootfs_rmdir :: "addr \<Rightarrow> byte list \<Rightarrow> nat \<Rightarrow> (rootfs, unit) fs_op" where
  "rootfs_rmdir parent name len s = do {
     r \<leftarrow> rootfs_do_lookup_inode parent name len s;
     case r of
       Inl e \<Rightarrow> Some (Inl e, s)
     | Inr inode_number \<Rightarrow> (case rootfs_node_table s inode_number of
           None \<Rightarrow> Some (Inl ENOENT, s)
         | Some a \<Rightarrow> do {
             n \<leftarrow> rf_nodes s a;
             if \<not> rn_is_directory n then Some (Inl ENOTDIR, s)
             else if rn_first_child n \<noteq> None then Some (Inl ENOTEMPTY, s)
             else do {
               s \<leftarrow> rootfs_delete_node a s;
               s \<leftarrow> touch_mtime parent s;
               Some (Inr (), s) } }) }"

text \<open>A link is created as a directory node; its path is what makes it a link.\<close>

definition rootfs_symlink :: "rootfs_env \<Rightarrow> addr \<Rightarrow> byte list \<Rightarrow> nat \<Rightarrow> byte list \<Rightarrow> (rootfs, unit) fs_op" where
  "rootfs_symlink E node name len link_path s = do {
     r \<leftarrow> rootfs_do_lookup_inode node name len s;
     case r of
       Inr _ \<Rightarrow> Some (Inl EEXIST, s)
     | Inl _ \<Rightarrow> do {
         n \<leftarrow> rf_nodes s node;
         if \<not> rn_is_directory n then Some (Inl EINVAL, s)
         else do {
           (new_node, s) \<leftarrow> rootfs_create_node E (Some node) name (Some len) True s;
           case new_node of
             None \<Rightarrow> Some (Inl ENOMEM, s)
           | Some a \<Rightarrow> do {
               path \<leftarrow> strdup (re_bytes E) link_path;
               s \<leftarrow> upd_node a (\<lambda>n. n\<lparr> rn_link_path := path \<rparr>) s;
               case path of
                 None \<Rightarrow> do { s \<leftarrow> rootfs_delete_node a s; Some (Inl ENOMEM, s) }
               | Some _ \<Rightarrow> do { s \<leftarrow> touch_mtime node s; Some (Inr (), s) } } } } }"

text \<open>The caller's buffer of \<open>len\<close> bytes is an argument of \<^verbatim>\<open>readlink\<close>.\<close>

definition rootfs_readlink :: "addr \<Rightarrow> byte list \<Rightarrow> nat \<Rightarrow> (rootfs, byte list) fs_op" where
  "rootfs_readlink node buffer len s = do {
     n \<leftarrow> rf_nodes s node;
     case rn_link_path n of
       None \<Rightarrow> Some (Inl EINVAL, s)
     | Some path \<Rightarrow> do {
         buffer \<leftarrow> strncpy buffer path len;
         buffer \<leftarrow> write_cell (Some buffer) (int len - 1) 0;
         s \<leftarrow> upd_node node (\<lambda>n. n\<lparr> rn_atime := rf_now s \<rparr>) s;
         Some (Inr buffer, s) } }"

text \<open>The table of the file system; the buffers that the callers pass are filled with \<open>fill\<close>.\<close>

definition rootfs_calls :: "rootfs_env \<Rightarrow> byte \<Rightarrow> rootfs filesystem_calls" where
  "rootfs_calls E fill = \<lparr> fs_read_inode = rootfs_read_inode, fs_write_inode = Some rootfs_write_inode,
     fs_lookup_inode = rootfs_lookup_inode, fs_open = Some (rootfs_open E), fs_close = Some rootfs_close,
     fs_free_cookie = Some rootfs_free_cookie, fs_read = None, fs_write = None, fs_read_stat = Some rootfs_read_stat,
     fs_write_stat = Some rootfs_write_stat,
     fs_read_directory = Some (\<lambda>node cookie. rootfs_read_directory node cookie (replicate 256 fill)),
     fs_rewind_directory = Some rootfs_rewind_directory, fs_create = None, fs_unlink = None,
     fs_mkdir = Some (rootfs_mkdir E), fs_rmdir = Some rootfs_rmdir, fs_isatty = None, fs_symlink = Some (rootfs_symlink E),
     fs_readlink = Some (\<lambda>node len. rootfs_readlink node (replicate len fill) len), fs_set_flags = None \<rparr>"

end
