(* ===== verification/Kernel_Inode_Safety.thy ===== *)
theory Kernel_Inode_Safety
  imports Kernel_Inode
begin

text \<open>
  The inode cache of a mount point as a client of its file system. The file system sees an inode as loaded
  from a successful \<^verbatim>\<open>read_inode\<close> to the next \<^verbatim>\<open>write_inode\<close> of its node; some file systems insist on that
  protocol with assertions. The contract is the locale \<open>inode_driver\<close>; in it, the cache is shown to load an
  inode exactly while it has references, to count these, and to keep its free list sound.
\<close>

section \<open>State\<close>

definition next_free :: "'f vfs_world \<Rightarrow> addr \<Rightarrow> vptr" where
  "next_free w a = Option.bind (v_inodes w a) i_next_free"

abbreviation table_of_mount :: "'f mount_point_t \<Rightarrow> int \<Rightarrow> addr option" where
  "table_of_mount m \<equiv> inode_table (mp_inode_cache m)"

text \<open>The inode objects that belong to the cache of a mount point: in use, or free.\<close>

definition owned :: "'f mount_point_t \<Rightarrow> addr list \<Rightarrow> addr set" where
  "owned m xs = set xs \<union> ran (table_of_mount m)"

text \<open>The number of references to an inode of a mount point.\<close>

definition refs :: "'f vfs_world \<Rightarrow> addr \<Rightarrow> int \<Rightarrow> int" where
  "refs w mp n = (case v_mounts w mp of None \<Rightarrow> 0
     | Some m \<Rightarrow> (case table_of_mount m n of None \<Rightarrow> 0
         | Some a \<Rightarrow> (case v_inodes w a of None \<Rightarrow> 0 | Some i \<Rightarrow> i_ref_count i)))"

definition vfs_env_ok :: "'f vfs_env \<Rightarrow> bool" where
  "vfs_env_ok E \<longleftrightarrow> (\<forall>w a. ve_new_inode E w = Some a \<longrightarrow> v_inodes w a = None)"

definition cache_ok ::
    "('f \<Rightarrow> int \<rightharpoonup> addr) \<Rightarrow> ('f \<Rightarrow> bool) \<Rightarrow> 'f vfs_world \<Rightarrow> addr \<Rightarrow> 'f mount_point_t \<Rightarrow> addr list \<Rightarrow> bool" where
  "cache_ok loaded fs_inv w mp m xs \<longleftrightarrow>
     v_mounts w mp = Some m \<and> fs_inv (v_fs w) \<and>
     chain (next_free w) (free_inodes (mp_inode_cache m)) xs \<and>
     int (length xs) = free_inode_count (mp_inode_cache m) \<and>
     (\<forall>x \<in> set xs. v_inodes w x \<noteq> None) \<and> set xs \<inter> ran (table_of_mount m) = {} \<and>
     (\<forall>n a. table_of_mount m n = Some a \<longrightarrow> (\<exists>i. v_inodes w a = Some i \<and> i_number i = n \<and> i_mount_point i = mp \<and>
        0 < i_ref_count i \<and> loaded (v_fs w) n = Some (i_fs_node i))) \<and>
     (\<forall>n. table_of_mount m n = None \<longrightarrow> loaded (v_fs w) n = None)"

lemma cache_okD:
  assumes "cache_ok ld fi w mp m xs"
  shows "v_mounts w mp = Some m" "fi (v_fs w)" "chain (next_free w) (free_inodes (mp_inode_cache m)) xs"
    "int (length xs) = free_inode_count (mp_inode_cache m)" "x \<in> set xs \<Longrightarrow> v_inodes w x \<noteq> None"
    "table_of_mount m n = Some a \<Longrightarrow> \<exists>i. v_inodes w a = Some i \<and> i_number i = n \<and> i_mount_point i = mp \<and>
        0 < i_ref_count i \<and> ld (v_fs w) n = Some (i_fs_node i)"
    "table_of_mount m n = None \<Longrightarrow> ld (v_fs w) n = None" "set xs \<inter> ran (table_of_mount m) = {}"
  using assms unfolding cache_ok_def by blast+

text \<open>Two inodes in use have different numbers.\<close>

lemma cache_ok_inj:
  "cache_ok ld fi w mp m xs \<Longrightarrow> table_of_mount m n = Some a \<Longrightarrow> table_of_mount m n' = Some a \<Longrightarrow> n = n'"
  using cache_okD(6) [of ld fi w mp m xs n a] cache_okD(6) [of ld fi w mp m xs n' a] by auto

text \<open>Changing an object that the cache does not own.\<close>

lemma cache_ok_other:
  assumes "cache_ok ld fi w mp m xs" and "a \<notin> owned m xs"
    and "v_inodes w' = (v_inodes w)(a := y)" and "v_mounts w' = v_mounts w" and "v_fs w' = v_fs w"
  shows "cache_ok ld fi w' mp m xs"
proof -
  have a: "a \<notin> set xs" "\<And>n b. table_of_mount m n = Some b \<Longrightarrow> b \<noteq> a"
    using assms(2) by (auto simp: owned_def ran_def)
  have "chain (next_free w') p xs = chain (next_free w) p xs" for p
    by (rule chain_cong) (use a(1) assms(3) in \<open>auto simp: next_free_def\<close>)
  moreover have "(\<forall>x \<in> set xs. v_inodes w' x \<noteq> None) = (\<forall>x \<in> set xs. v_inodes w x \<noteq> None)"
    using a(1) assms(3) by (auto split: if_splits)
  moreover have "table_of_mount m n = Some b \<Longrightarrow> v_inodes w' b = v_inodes w b" for n b
    using a(2) assms(3) by auto
  ultimately show ?thesis using assms(1,4,5) unfolding cache_ok_def by metis
qed

text \<open>Changing the reference count of an inode in use.\<close>

lemma cache_ok_ref:
  assumes ok: "cache_ok ld fi w mp m xs" and t: "table_of_mount m n = Some a" and i: "v_inodes w a = Some i" and k: "0 < k"
    and w': "w' = w\<lparr> v_inodes := (v_inodes w)(a \<mapsto> i\<lparr> i_ref_count := k \<rparr>) \<rparr>"
  shows "cache_ok ld fi w' mp m xs" and "refs w' mp = (refs w mp)(n := k)"
proof -
  have ax: "a \<notin> set xs" using cache_okD(8) [OF ok] t by (auto simp: ran_def)
  have ch: "chain (next_free w') p xs = chain (next_free w) p xs" for p
    by (rule chain_cong) (use ax w' in \<open>auto simp: next_free_def\<close>)
  have entry: "\<exists>j. v_inodes w' b = Some j \<and> i_number j = q \<and> i_mount_point j = mp \<and> 0 < i_ref_count j \<and>
      ld (v_fs w) q = Some (i_fs_node j)" if "table_of_mount m q = Some b" for q b
    using cache_okD(6) [OF ok that] i k w' by (cases "b = a") auto
  have free: "v_inodes w' x \<noteq> None" if "x \<in> set xs" for x
    using cache_okD(5) [OF ok that] ax that w' by auto
  have same: "v_mounts w' = v_mounts w" "v_fs w' = v_fs w" using w' by simp_all
  show "cache_ok ld fi w' mp m xs"
    unfolding cache_ok_def ch same
    by (intro conjI ballI allI impI) (erule entry free cache_okD(7) [OF ok] | rule cache_okD(1-4,8) [OF ok])+
  show "refs w' mp = (refs w mp)(n := k)"
  proof
    fix q
    note m = cache_okD(1) [OF ok]
    show "refs w' mp q = ((refs w mp)(n := k)) q"
    proof (cases "table_of_mount m q")
      case None
      then have "q \<noteq> n" using t by auto
      then show ?thesis using None m same(1) by (simp add: refs_def)
    next
      case (Some b)
      have "b = a \<longleftrightarrow> q = n" using Some t cache_ok_inj [OF ok t, of q] by auto
      then show ?thesis using Some m same(1) by (simp add: refs_def w')
    qed
  qed
qed

section \<open>Allocation of inode objects\<close>

lemma alloc_inode_ok:
  assumes E: "vfs_env_ok E" and ok: "cache_ok ld fi w mp m xs"
  shows "\<exists>r w' m' xs'. alloc_inode E mp w = Some (r, w') \<and> cache_ok ld fi w' mp m' xs' \<and>
    table_of_mount m' = table_of_mount m \<and> mp_calls m' = mp_calls m \<and> v_fs w' = v_fs w \<and>
    (\<forall>b \<in> ran (table_of_mount m). v_inodes w' b = v_inodes w b) \<and>
    (case r of None \<Rightarrow> w' = w
     | Some a \<Rightarrow> v_inodes w' a \<noteq> None \<and> a \<notin> owned m' xs' \<and> owned m' xs' \<subseteq> owned m xs \<and>
         (a \<in> owned m xs \<or> v_inodes w a = None) \<and>
         v_inodes w' = (v_inodes w)(a := v_inodes w' a) \<and> v_mounts w' = (v_mounts w)(mp \<mapsto> m'))"
proof (cases "0 < free_inode_count (mp_inode_cache m)")
  case True
  then obtain a ys where xs: "xs = a # ys" using cache_okD(4) [OF ok] by (cases xs) auto
  then have f: "free_inodes (mp_inode_cache m) = Some a" "chain (next_free w) (next_free w a) ys"
    using cache_okD(3) [OF ok] by auto
  obtain i where i: "v_inodes w a = Some i" using cache_okD(5) [OF ok, of a] xs by auto
  let ?c = "(mp_inode_cache m)\<lparr> free_inodes := i_next_free i, free_inode_count := free_inode_count (mp_inode_cache m) - 1 \<rparr>"
  let ?m = "m\<lparr> mp_inode_cache := ?c \<rparr>" and ?w = "w\<lparr> v_mounts := (v_mounts w)(mp \<mapsto> m\<lparr> mp_inode_cache := ?c \<rparr>) \<rparr>"
  have run: "alloc_inode E mp w = Some (Some a, ?w)"
    using True f(1) i cache_okD(1) [OF ok] by (simp add: alloc_inode_def set_cache_def Let_def)
  have a: "a \<notin> owned ?m ys"
    using chain_distinct [OF cache_okD(3) [OF ok]] cache_okD(8) [OF ok] xs by (auto simp: owned_def)
  have nf: "next_free ?w = next_free w" by (simp add: next_free_def fun_eq_iff)
  have "cache_ok ld fi ?w mp ?m ys"
    using ok xs f(2) i unfolding cache_ok_def nf by (auto simp: next_free_def)
  then show ?thesis
    using run a i xs
    by (intro exI [of _ "Some a"] exI [of _ ?w] exI [of _ ?m] exI [of _ ys]) (auto simp: owned_def)
next
  case False
  show ?thesis
  proof (cases "ve_new_inode E w")
    case None
    then show ?thesis using False ok cache_okD(1) [OF ok]
      by (intro exI [of _ None] exI [of _ w] exI [of _ m] exI [of _ xs]) (simp add: alloc_inode_def)
  next
    case (Some a)
    then have fresh: "v_inodes w a = None" using E by (simp add: vfs_env_ok_def)
    have a: "a \<notin> owned m xs"
      using fresh cache_okD(5,6) [OF ok] by (fastforce simp: owned_def ran_def)
    let ?w = "w\<lparr> v_inodes := (v_inodes w)(a \<mapsto> zero_inode) \<rparr>"
    have "cache_ok ld fi ?w mp m xs" by (rule cache_ok_other [OF ok a]) simp_all
    moreover have "alloc_inode E mp w = Some (Some a, ?w)"
      using False Some cache_okD(1) [OF ok] by (simp add: alloc_inode_def)
    moreover have "v_inodes ?w b = v_inodes w b" if "b \<in> ran (table_of_mount m)" for b
      using that a by (auto simp: owned_def)
    ultimately show ?thesis
      using a fresh cache_okD(1) [OF ok]
      by (intro exI [of _ "Some a"] exI [of _ ?w] exI [of _ m] exI [of _ xs]) auto
  qed
qed

lemma recycle_inode_ok:
  assumes ok: "cache_ok ld fi w mp m xs" and a: "a \<notin> owned m xs" and i: "v_inodes w a \<noteq> None"
  shows "\<exists>w' m' xs'. recycle_inode mp a w = Some w' \<and> cache_ok ld fi w' mp m' xs' \<and>
    table_of_mount m' = table_of_mount m \<and> mp_calls m' = mp_calls m \<and> v_fs w' = v_fs w \<and>
    v_inodes w' = (v_inodes w)(a := v_inodes w' a) \<and> v_mounts w' = (v_mounts w)(mp \<mapsto> m')"
proof (cases "free_inode_count (mp_inode_cache m) < max_free_inode_count (mp_inode_cache m)")
  case True
  obtain i where i: "v_inodes w a = Some i" using i by blast
  let ?c = "(mp_inode_cache m)\<lparr> free_inodes := Some a, free_inode_count := free_inode_count (mp_inode_cache m) + 1 \<rparr>"
  let ?m = "m\<lparr> mp_inode_cache := ?c \<rparr>"
  let ?w1 = "w\<lparr> v_inodes := (v_inodes w)(a \<mapsto> i\<lparr> i_next_free := free_inodes (mp_inode_cache m) \<rparr>) \<rparr>"
  let ?w = "?w1\<lparr> v_mounts := (v_mounts w)(mp \<mapsto> ?m) \<rparr>"
  have run: "recycle_inode mp a w = Some ?w"
    using True i cache_okD(1) [OF ok] by (simp add: recycle_inode_def upd_inode_def set_cache_def Let_def)
  have ok1: "cache_ok ld fi ?w1 mp m xs" by (rule cache_ok_other [OF ok a]) simp_all
  have nf: "next_free ?w = next_free ?w1" by (simp add: next_free_def fun_eq_iff)
  have "next_free ?w1 a = free_inodes (mp_inode_cache m)" by (simp add: next_free_def)
  then have "cache_ok ld fi ?w mp ?m (a # xs)"
    using ok1 a unfolding cache_ok_def nf by (auto simp: owned_def)
  then show ?thesis using run
    by (intro exI [of _ ?w] exI [of _ ?m] exI [of _ "a # xs"]) simp
next
  case False
  let ?w = "w\<lparr> v_inodes := (v_inodes w)(a := None) \<rparr>"
  have "cache_ok ld fi ?w mp m xs" by (rule cache_ok_other [OF ok a]) simp_all
  moreover have "recycle_inode mp a w = Some ?w"
    using False cache_okD(1) [OF ok] by (simp add: recycle_inode_def)
  ultimately show ?thesis using cache_okD(1) [OF ok]
    by (intro exI [of _ ?w] exI [of _ m] exI [of _ xs]) (simp add: fun_upd_idem)
qed

section \<open>The contract of the file system\<close>

locale inode_driver =
  fixes loaded :: "'f \<Rightarrow> int \<rightharpoonup> addr"
    and fs_inv :: "'f \<Rightarrow> bool"
    and C :: "'f filesystem_calls"
    and wr :: "addr \<Rightarrow> ('f, unit) fs_op"
  assumes writes: "fs_write_inode C = Some wr"
    and read_law: "fs_inv s \<Longrightarrow> loaded s n = None \<Longrightarrow>
      \<exists>r s'. fs_read_inode C n s = Some (r, s') \<and> fs_inv s' \<and>
        (case r of Inl _ \<Rightarrow> loaded s' = loaded s | Inr node \<Rightarrow> loaded s' = (loaded s)(n \<mapsto> node))"
    and write_law: "fs_inv s \<Longrightarrow> loaded s n = Some node \<Longrightarrow>
      \<exists>r s'. wr node s = Some (r, s') \<and> fs_inv s' \<and> loaded s' = (loaded s)(n := None)"
begin

lemma get_inode_ok:
  assumes E: "vfs_env_ok E" and ok: "cache_ok loaded fs_inv w mp m xs" and C: "mp_calls m = C"
  shows "\<exists>r w' m' xs'. get_inode E mp n w = Some (r, w') \<and> cache_ok loaded fs_inv w' mp m' xs' \<and> mp_calls m' = C \<and>
    (case r of
       None \<Rightarrow> table_of_mount m n = None \<and> refs w' mp = refs w mp
     | Some a \<Rightarrow> table_of_mount m' n = Some a \<and> refs w' mp = (refs w mp)(n := refs w mp n + 1))"
proof (cases "table_of_mount m n")
  case (Some a)
  obtain i where i: "v_inodes w a = Some i" "i_number i = n" using cache_okD(6) [OF ok Some] by blast
  let ?w = "w\<lparr> v_inodes := (v_inodes w)(a \<mapsto> i\<lparr> i_ref_count := i_ref_count i + 1 \<rparr>) \<rparr>"
  have run: "get_inode E mp n w = Some (Some a, ?w)"
    using Some i(1) cache_okD(1) [OF ok] by (simp add: get_inode_def inc_inode_def upd_inode_def)
  have "refs w mp n = i_ref_count i" using cache_okD(1) [OF ok] Some i by (simp add: refs_def)
  then have "cache_ok loaded fs_inv ?w mp m xs" "refs ?w mp = (refs w mp)(n := refs w mp n + 1)"
    using cache_ok_ref [OF ok Some i(1), of "i_ref_count i + 1" ?w] cache_okD(6) [OF ok Some] i by auto
  then show ?thesis using run Some C by (intro exI [of _ "Some a"] exI [of _ ?w] exI [of _ m] exI [of _ xs]) simp
next
  case None
  note m = cache_okD(1) [OF ok]
  obtain r w1 m1 xs1 where al: "alloc_inode E mp w = Some (r, w1)" "cache_ok loaded fs_inv w1 mp m1 xs1"
    "table_of_mount m1 = table_of_mount m" "mp_calls m1 = C" "v_fs w1 = v_fs w"
    "\<forall>b \<in> ran (table_of_mount m). v_inodes w1 b = v_inodes w b"
    "case r of None \<Rightarrow> w1 = w | Some a \<Rightarrow> v_inodes w1 a \<noteq> None \<and> a \<notin> owned m1 xs1"
    using alloc_inode_ok [OF E ok] C by (auto split: option.splits)
  show ?thesis
  proof (cases r)
    case no: None
    then show ?thesis
      using al None m by (intro exI [of _ None] exI [of _ w1] exI [of _ m1] exI [of _ xs1]) (simp add: get_inode_def)
  next
    case (Some a)
    obtain i where i: "v_inodes w1 a = Some i" and a: "a \<notin> owned m1 xs1" using al(7) Some by auto
    let ?i = "i\<lparr> i_number := n, i_mount_point := mp, i_mount := None, i_ref_count := 1 \<rparr>"
    let ?w2 = "w1\<lparr> v_inodes := (v_inodes w1)(a \<mapsto> ?i) \<rparr>"
    have ok2: "cache_ok loaded fs_inv ?w2 mp m1 xs1" by (rule cache_ok_other [OF al(2) a]) simp_all
    obtain rr s' where rd: "fs_read_inode C n (v_fs w) = Some (rr, s')" "fs_inv s'"
      "case rr of Inl _ \<Rightarrow> loaded s' = loaded (v_fs w) | Inr node \<Rightarrow> loaded s' = (loaded (v_fs w))(n \<mapsto> node)"
      using read_law [OF cache_okD(2) [OF ok] cache_okD(7) [OF ok None]] by blast
    let ?w3 = "?w2\<lparr> v_fs := s' \<rparr>"
    have in_use: "\<And>k b. table_of_mount m k = Some b \<Longrightarrow> b \<noteq> a \<and> v_inodes w1 b = v_inodes w b"
      using a al(3,6) by (auto simp: owned_def ran_def)
    show ?thesis
    proof (cases rr)
      case (Inl e)
      have "cache_ok loaded fs_inv ?w3 mp m1 xs1"
        using ok2 rd(2,3) al(5) Inl unfolding cache_ok_def by (simp add: next_free_def [abs_def])
      then obtain w4 m4 xs4 where rc: "recycle_inode mp a ?w3 = Some w4" "cache_ok loaded fs_inv w4 mp m4 xs4"
        "table_of_mount m4 = table_of_mount m" "mp_calls m4 = C" "v_inodes w4 = (v_inodes ?w3)(a := v_inodes w4 a)"
        using recycle_inode_ok [of loaded fs_inv ?w3 mp m1 xs1 a] a al(3,4) by auto
      have "get_inode E mp n w = Some (None, w4)"
        using m None al(1) Some i rd(1) Inl rc(1) al(5) C by (simp add: get_inode_def upd_inode_def fs_run_def)
      moreover have "refs w4 mp = refs w mp"
      proof
        fix k
        show "refs w4 mp k = refs w mp k"
          using cache_okD(1) [OF rc(2)] m rc(3,5) in_use [of k]
          by (auto simp: refs_def split: option.splits) (metis fun_upd_other option.inject option.distinct(1))+
      qed
      ultimately show ?thesis using rc(2,4) None
        by (intro exI [of _ None] exI [of _ w4] exI [of _ m4] exI [of _ xs4]) simp
    next
      case (Inr node)
      let ?w4 = "?w3\<lparr> v_inodes := (v_inodes w1)(a \<mapsto> ?i\<lparr> i_fs_node := node \<rparr>) \<rparr>"
      let ?c = "(mp_inode_cache m1)\<lparr> inode_table := (inode_table (mp_inode_cache m1))(n \<mapsto> a) \<rparr>"
      let ?m = "m1\<lparr> mp_inode_cache := ?c \<rparr>"
      let ?w5 = "?w4\<lparr> v_mounts := (v_mounts w1)(mp \<mapsto> ?m) \<rparr>"
      have "get_inode E mp n w = Some (Some a, ?w5)"
        using m None al(1) Some i rd(1) Inr al(5) C cache_okD(1) [OF al(2)]
        by (simp add: get_inode_def upd_inode_def fs_run_def set_cache_def)
      moreover have "cache_ok loaded fs_inv ?w5 mp ?m xs1"
      proof -
        have ch: "chain (next_free ?w5) p xs1 = chain (next_free w1) p xs1" for p
          by (rule chain_cong) (use a in \<open>auto simp: next_free_def owned_def\<close>)
        have ran: "ran ((table_of_mount m1)(n \<mapsto> a)) = insert a (ran (table_of_mount m1))"
          using None al(3) by (simp add: ran_map_upd)
        have entry: "\<exists>i. v_inodes ?w5 b = Some i \<and> i_number i = k \<and> i_mount_point i = mp \<and> 0 < i_ref_count i \<and>
            loaded s' k = Some (i_fs_node i)" if "table_of_mount ?m k = Some b" for k b
        proof (cases "k = n")
          case True
          then show ?thesis using that rd(3) Inr by simp
        next
          case False
          then have t: "table_of_mount m1 k = Some b" using that by simp
          then have "b \<noteq> a" using in_use [of k b] al(3) by simp
          then show ?thesis using cache_okD(6) [OF al(2) t] False rd(3) Inr al(5) by auto
        qed
        show ?thesis
          unfolding cache_ok_def ch
          using cache_okD [OF al(2)] rd(2,3) Inr al(5) a ran entry
          by (auto simp: owned_def split: if_splits)
      qed
      moreover have "refs ?w5 mp = (refs w mp)(n := refs w mp n + 1)"
      proof
        fix k
        show "refs ?w5 mp k = ((refs w mp)(n := refs w mp n + 1)) k"
          using m None al(3) in_use [of k] by (auto simp: refs_def split: option.splits)
      qed
      ultimately show ?thesis using al(4)
        by (intro exI [of _ "Some a"] exI [of _ ?w5] exI [of _ ?m] exI [of _ xs1]) simp
    qed
  qed
qed

lemma put_inode_ok:
  assumes ok: "cache_ok loaded fs_inv w mp m xs" and C: "mp_calls m = C" and t: "table_of_mount m n = Some a"
  shows "\<exists>w' m' xs'. put_inode a w = Some w' \<and> cache_ok loaded fs_inv w' mp m' xs' \<and> mp_calls m' = C \<and>
    refs w' mp = (refs w mp)(n := refs w mp n - 1)"
proof -
  note m = cache_okD(1) [OF ok]
  obtain i where i: "v_inodes w a = Some i" "i_number i = n" "i_mount_point i = mp" "0 < i_ref_count i"
    "loaded (v_fs w) n = Some (i_fs_node i)"
    using cache_okD(6) [OF ok t] by blast
  have ref: "refs w mp n = i_ref_count i" using m t i by (simp add: refs_def)
  let ?w1 = "w\<lparr> v_inodes := (v_inodes w)(a \<mapsto> i\<lparr> i_ref_count := i_ref_count i - 1 \<rparr>) \<rparr>"
  show ?thesis
  proof (cases "i_ref_count i = 1")
    case False
    then have "put_inode a w = Some ?w1" using i m by (simp add: put_inode_def upd_inode_def)
    moreover have "cache_ok loaded fs_inv ?w1 mp m xs" "refs ?w1 mp = (refs w mp)(n := refs w mp n - 1)"
      using cache_ok_ref [OF ok t i(1), of "i_ref_count i - 1" ?w1] i(4) False ref by auto
    ultimately show ?thesis using C by blast
  next
    case True
    let ?c = "(mp_inode_cache m)\<lparr> inode_table := (inode_table (mp_inode_cache m))(n := None) \<rparr>"
    let ?m = "m\<lparr> mp_inode_cache := ?c \<rparr>"
    let ?w2 = "?w1\<lparr> v_mounts := (v_mounts w)(mp \<mapsto> ?m) \<rparr>"
    let ?ld = "\<lambda>s. (loaded s)(n := None)"
    have ax: "a \<notin> set xs" using cache_okD(8) [OF ok] t by (auto simp: ran_def)
    have others: "b \<noteq> a" if "table_of_mount m q = Some b" "q \<noteq> n" for q b
      using cache_ok_inj [OF ok t] that by auto
    have a: "a \<notin> owned ?m xs" using ax others by (auto simp: owned_def ran_def)
    have ok2: "cache_ok ?ld fs_inv ?w2 mp ?m xs"
    proof -
      have ch: "chain (next_free ?w2) p xs = chain (next_free w) p xs" for p
        by (rule chain_cong) (use ax in \<open>auto simp: next_free_def\<close>)
      have entry: "\<exists>j. v_inodes ?w2 b = Some j \<and> i_number j = q \<and> i_mount_point j = mp \<and> 0 < i_ref_count j \<and>
          ?ld (v_fs w) q = Some (i_fs_node j)" if q: "table_of_mount ?m q = Some b" for q b
      proof -
        have "q \<noteq> n" "table_of_mount m q = Some b" using q by (auto split: if_splits)
        then show ?thesis using cache_okD(6) [OF ok] others by fastforce
      qed
      show ?thesis
        unfolding cache_ok_def ch
        using cache_okD(1-5,8) [OF ok] cache_okD(7) [OF ok] entry ax by (auto simp: ran_def split: if_splits)
    qed
    obtain w3 m3 xs3 where rc: "recycle_inode mp a ?w2 = Some w3" "cache_ok ?ld fs_inv w3 mp m3 xs3"
      "table_of_mount m3 = (table_of_mount m)(n := None)" "mp_calls m3 = C" "v_fs w3 = v_fs w"
      "v_inodes w3 = (v_inodes ?w2)(a := v_inodes w3 a)"
      using recycle_inode_ok [OF ok2 a] C by auto
    obtain r s' where wr: "wr (i_fs_node i) (v_fs w) = Some (r, s')" "fs_inv s'" "loaded s' = (loaded (v_fs w))(n := None)"
      using write_law [OF cache_okD(2) [OF ok] i(5)] by blast
    let ?w4 = "w3\<lparr> v_fs := s' \<rparr>"
    have "put_inode a w = Some ?w4"
      using i(1-4) m True rc(1,5) writes C wr(1) by (simp add: put_inode_def upd_inode_def set_cache_def Let_def fs_run_def)
    moreover have "cache_ok loaded fs_inv ?w4 mp m3 xs3"
      using rc(2,5) wr(2,3) unfolding cache_ok_def by (simp add: next_free_def [abs_def])
    moreover have "refs ?w4 mp = (refs w mp)(n := refs w mp n - 1)"
    proof
      fix q
      show "refs ?w4 mp q = ((refs w mp)(n := refs w mp n - 1)) q"
      proof (cases "q = n \<or> table_of_mount m q = None")
        case here: True
        then show ?thesis using cache_okD(1) [OF rc(2)] rc(3) m True ref by (auto simp: refs_def)
      next
        case there: False
        then obtain b where b: "q \<noteq> n" "table_of_mount m q = Some b" by auto
        have "v_inodes w3 b = v_inodes ?w2 b" using rc(6) others [OF b(2,1)] by (metis fun_upd_other)
        then have "v_inodes w3 b = v_inodes w b" using others [OF b(2,1)] by simp
        then show ?thesis using cache_okD(1) [OF rc(2)] rc(3) m b by (simp add: refs_def)
      qed
    qed
    ultimately show ?thesis using rc(4) by blast
  qed
qed

text \<open>Every run of the two operations, in any order and by any number of clients: an inode is put only by a
  holder, that is, while it is in the table.\<close>

lemma step_ok:
  assumes "vfs_env_ok E" and "cache_ok loaded fs_inv w mp m xs" and "mp_calls m = C"
  shows "get_inode E mp n w = Some (r, w') \<Longrightarrow> \<exists>m' xs'. cache_ok loaded fs_inv w' mp m' xs' \<and> mp_calls m' = C"
    and "table_of_mount m n = Some a \<Longrightarrow> put_inode a w = Some w'' \<Longrightarrow> \<exists>m' xs'. cache_ok loaded fs_inv w'' mp m' xs' \<and> mp_calls m' = C"
  using get_inode_ok [OF assms, of n] put_inode_ok [OF assms(2,3), of n a] by auto

end

end
