(* ===== verification/Kernel_Rootfs_Safety.thy ===== *)
theory Kernel_Rootfs_Safety
  imports Kernel_Rootfs Kernel_Inode_Safety
begin

text \<open>
  The root file system: directories as lists of entries, the contract of the inode cache, and what happens
  when a directory is removed.
\<close>

section \<open>Names\<close>

text \<open>A C string in a buffer, and a name of \<open>len\<close> bytes at the start of a longer string.\<close>

definition c_string :: "byte list \<Rightarrow> byte list \<Rightarrow> bool" where
  "c_string buf nm \<longleftrightarrow> 0 \<notin> set nm \<and> (\<exists>r. buf = nm @ 0 # r)"

definition names :: "byte list \<Rightarrow> nat \<Rightarrow> byte list \<Rightarrow> bool" where
  "names name len nm \<longleftrightarrow> (\<exists>t. c_string name t \<and> len \<le> length t \<and> nm = take len t)"

lemma c_string_unique: "c_string buf nm \<Longrightarrow> c_string buf nm' \<Longrightarrow> nm = nm'"
  unfolding c_string_def
proof (elim conjE exE)
  fix r r' assume *: "0 \<notin> set nm" "0 \<notin> set nm'" "buf = nm @ 0 # r" "buf = nm' @ 0 # r'"
  have "nm = takeWhile (\<lambda>b. b \<noteq> 0) buf" using *(1,3) by (simp add: takeWhile_tail takeWhile_eq_all_conv takeWhile_append)
  also have "\<dots> = nm'" using *(2,4) by (simp add: takeWhile_tail takeWhile_eq_all_conv takeWhile_append)
  finally show ?thesis .
qed

lemma names_no_0: "names name len nm \<Longrightarrow> 0 \<notin> set nm \<and> length nm = len"
  by (auto simp: names_def c_string_def dest: in_set_takeD)

lemma name_is_eq:
  assumes "c_string (rn_name n) nm" and "names name len nm'"
  shows "name_is n name len = Some (nm = nm')"
proof -
  obtain r where r: "0 \<notin> set nm" "rn_name n = nm @ 0 # r" using assms(1) by (auto simp: c_string_def)
  obtain t y where t: "0 \<notin> set t" "name = t @ 0 # y" "len \<le> length t" "nm' = take len t"
    using assms(2) by (auto simp: names_def c_string_def)
  obtain c where c: "strncmp (nm @ 0 # r) (t @ 0 # y) len = Some c" "c = 0 \<longleftrightarrow> take len nm = take len t"
    using strncmp_zero_iff [OF r(1) t(1)] by blast
  have len': "length nm' = len" using t(3,4) by simp
  show ?thesis
  proof (cases "length nm = len")
    case True
    then show ?thesis using c r t by (simp add: name_is_def)
  next
    case False
    then have "nm \<noteq> nm'" using len' by blast
    then show ?thesis using False r by (simp add: name_is_def)
  qed
qed

definition dotdot :: "byte list" where
  "dotdot = [46, 46]"

lemma dots_test:
  assumes "names name len nm"
  shows "(if len = 2 then do { c \<leftarrow> strncmp name [46, 46, 0] 2; Some (c = 0) } else Some False) = Some (nm = dotdot)"
proof -
  obtain t y where t: "0 \<notin> set t" "name = t @ 0 # y" "len \<le> length t" "nm = take len t"
    using assms by (auto simp: names_def c_string_def)
  obtain c where c: "strncmp (t @ 0 # y) (dotdot @ 0 # []) 2 = Some c" "c = 0 \<longleftrightarrow> take 2 t = take 2 dotdot"
    using strncmp_zero_iff [OF t(1), of dotdot y "[]" 2] by (auto simp: dotdot_def)
  show ?thesis
  proof (cases "len = 2")
    case True
    then show ?thesis using c t by (simp add: dotdot_def)
  next
    case False
    then have "nm \<noteq> dotdot" using names_no_0 [OF assms] by (auto simp: dotdot_def)
    then show ?thesis using False by simp
  qed
qed

section \<open>Directories\<close>

definition sib :: "rootfs \<Rightarrow> addr \<Rightarrow> vptr" where
  "sib s a = Option.bind (rf_nodes s a) rn_next_sibling"

definition node_name :: "rootfs \<Rightarrow> addr \<Rightarrow> byte list" where
  "node_name s a = (case rf_nodes s a of None \<Rightarrow> [] | Some n \<Rightarrow> takeWhile (\<lambda>b. b \<noteq> 0) (rn_name n))"

definition node_ino :: "rootfs \<Rightarrow> addr \<Rightarrow> int" where
  "node_ino s a = (case rf_nodes s a of None \<Rightarrow> 0 | Some n \<Rightarrow> rn_inode_number n)"

text \<open>\<open>dir_list s d xs\<close>: the directory \<open>d\<close> has the children \<open>xs\<close>, in the order of the sibling list.\<close>

definition dir_list :: "rootfs \<Rightarrow> addr \<Rightarrow> addr list \<Rightarrow> bool" where
  "dir_list s d xs \<longleftrightarrow> (\<exists>dn. rf_nodes s d = Some dn \<and> chain (sib s) (rn_first_child dn) xs) \<and>
     (\<forall>x \<in> set xs. \<exists>n nm. rf_nodes s x = Some n \<and> c_string (rn_name n) nm \<and> rn_parent n = Some d)"

lemma node_name_eq: "rf_nodes s x = Some n \<Longrightarrow> c_string (rn_name n) nm \<Longrightarrow> node_name s x = nm"
  by (auto simp: node_name_def c_string_def takeWhile_tail takeWhile_append)

lemma child_loop_eq:
  assumes "chain (sib s) p xs" and "\<forall>x \<in> set xs. \<exists>n nm. rf_nodes s x = Some n \<and> c_string (rn_name n) nm"
    and "names name len nm"
  shows "rootfs_child_loop s name len p =
    Some (case List.find (\<lambda>x. node_name s x = nm) xs of None \<Rightarrow> Inl ENOENT | Some x \<Rightarrow> Inr (node_ino s x))"
  using assms(1,2)
proof (induction xs arbitrary: p)
  case Nil
  then show ?case by (subst rootfs_child_loop.simps) simp
next
  case (Cons x xs)
  obtain n nm' where n: "rf_nodes s x = Some n" "c_string (rn_name n) nm'" using Cons.prems(2) by auto
  have "sib s x = rn_next_sibling n" using n(1) by (simp add: sib_def)
  then have p: "p = Some x" "chain (sib s) (rn_next_sibling n) xs" using Cons.prems(1) by auto
  show ?case
    using Cons.IH [OF p(2)] Cons.prems(2) n(1) name_is_eq [OF n(2) assms(3)] node_name_eq [OF n] p(1)
    by (subst rootfs_child_loop.simps) (auto simp: node_ino_def)
qed

lemma lookup_eq:
  assumes d: "dir_list s d xs" and nm: "names name len nm" and dots: "nm \<noteq> dotdot"
  shows "rootfs_do_lookup_inode d name len s =
    Some (case List.find (\<lambda>x. node_name s x = nm) xs of None \<Rightarrow> Inl ENOENT | Some x \<Rightarrow> Inr (node_ino s x))"
proof -
  obtain dn where dn: "rf_nodes s d = Some dn" "chain (sib s) (rn_first_child dn) xs"
    "\<forall>x \<in> set xs. \<exists>n nm. rf_nodes s x = Some n \<and> c_string (rn_name n) nm"
    using d unfolding dir_list_def by blast
  show ?thesis
    using dots_test [OF nm] dots dn(1) child_loop_eq [OF dn(2,3) nm] by (simp add: rootfs_do_lookup_inode_def)
qed

section \<open>The state of the file system\<close>

text \<open>Changes to a node that leave the entries of all directories as they are, and, with the first child, its
  own entries too.\<close>

definition kept :: "rootfs_node_t \<Rightarrow> rootfs_node_t \<Rightarrow> bool" where
  "kept n n' \<longleftrightarrow> rn_name n' = rn_name n \<and> rn_inode_number n' = rn_inode_number n \<and>
     rn_next_sibling n' = rn_next_sibling n \<and> rn_parent n' = rn_parent n \<and> rn_link_count n' = rn_link_count n \<and>
     rn_is_directory n' = rn_is_directory n"

lemma kept_refl [simp]: "kept n n" and kept_trans: "kept n n' \<Longrightarrow> kept n' n'' \<Longrightarrow> kept n n''"
  by (auto simp: kept_def)

lemma kept_upd [simp]:
  "kept n (n'\<lparr> rn_prev_sibling := q \<rparr>) = kept n n'" "kept n (n'\<lparr> rn_first_child := c \<rparr>) = kept n n'"
  "kept n (n'\<lparr> rn_mtime := t \<rparr>) = kept n n'" "kept n (n'\<lparr> rn_is_loaded := b \<rparr>) = kept n n'"
  "kept n (n'\<lparr> rn_link_path := l \<rparr>) = kept n n'"
  by (simp_all add: kept_def)

lemma dir_list_keep:
  assumes d: "dir_list s d xs"
    and first: "\<And>n. rf_nodes s d = Some n \<Longrightarrow> \<exists>n'. rf_nodes s' d = Some n' \<and> rn_first_child n' = rn_first_child n"
    and xs: "\<And>x n. x \<in> set xs \<Longrightarrow> rf_nodes s x = Some n \<Longrightarrow> \<exists>n'. rf_nodes s' x = Some n' \<and> kept n n'"
  shows "dir_list s' d xs" and "x \<in> set xs \<Longrightarrow> node_name s' x = node_name s x"
    and "x \<in> set xs \<Longrightarrow> node_ino s' x = node_ino s x"
proof -
  obtain dn where dn: "rf_nodes s d = Some dn" "chain (sib s) (rn_first_child dn) xs"
    and ent: "\<forall>x \<in> set xs. \<exists>n nm. rf_nodes s x = Some n \<and> c_string (rn_name n) nm \<and> rn_parent n = Some d"
    using d unfolding dir_list_def by blast
  have same: "sib s' x = sib s x \<and> node_name s' x = node_name s x \<and> node_ino s' x = node_ino s x \<and>
      (\<exists>n nm. rf_nodes s' x = Some n \<and> c_string (rn_name n) nm \<and> rn_parent n = Some d)" if x: "x \<in> set xs" for x
  proof -
    obtain n nm n' where n: "rf_nodes s x = Some n" "c_string (rn_name n) nm" "rn_parent n = Some d"
      "rf_nodes s' x = Some n'" "kept n n'"
      using bspec [OF ent x] xs [OF x] by blast
    then have "c_string (rn_name n') nm" "rn_parent n' = Some d" by (simp_all add: kept_def)
    then show ?thesis using n by (auto simp: sib_def node_name_def node_ino_def kept_def)
  qed
  have "chain (sib s') p xs = chain (sib s) p xs" for p by (rule chain_cong) (use same in blast)
  then show "dir_list s' d xs" using first [OF dn(1)] dn(2) same by (auto simp: dir_list_def)
  show "x \<in> set xs \<Longrightarrow> node_name s' x = node_name s x" "x \<in> set xs \<Longrightarrow> node_ino s' x = node_ino s x"
    using same by blast+
qed

text \<open>A node in the table is linked under its number, and is a directory (maybe without entries) whose entries
  are in the table; its parent exists.\<close>

definition node_ok :: "rootfs \<Rightarrow> int \<Rightarrow> addr \<Rightarrow> addr list \<Rightarrow> bool" where
  "node_ok s k a xs \<longleftrightarrow> (\<exists>n. rf_nodes s a = Some n \<and> rn_inode_number n = k \<and> 0 < rn_link_count n \<and>
       (\<forall>p. rn_parent n = Some p \<longrightarrow> rf_nodes s p \<noteq> None)) \<and>
     dir_list s a xs \<and> (\<forall>x \<in> set xs. rootfs_node_table s (node_ino s x) = Some x)"

definition rootfs_inv :: "rootfs \<Rightarrow> bool" where
  "rootfs_inv s \<longleftrightarrow> 0 \<le> rootfs_inode_counter s \<and> rootfs_inode_counter s < 9223372036854775808 \<and>
     (\<forall>k a. rootfs_node_table s k = Some a \<longrightarrow> (\<exists>xs. node_ok s k a xs))"

lemma rootfs_inv_dir:
  "rootfs_inv s \<Longrightarrow> rootfs_node_table s k = Some a \<Longrightarrow> \<exists>xs. node_ok s k a xs"
  by (simp add: rootfs_inv_def)

lemma rootfs_invD:
  "rootfs_inv s \<Longrightarrow> rootfs_node_table s k = Some a \<Longrightarrow>
     \<exists>n. rf_nodes s a = Some n \<and> rn_inode_number n = k \<and> 0 < rn_link_count n"
  using rootfs_inv_dir [of s k a] by (auto simp: node_ok_def)

text \<open>The invariant survives when every node is kept with its entries, and the table grows only.\<close>

lemma node_ok_keep:
  assumes ok: "node_ok s k a xs"
    and all: "\<And>x n. rf_nodes s x = Some n \<Longrightarrow>
      \<exists>n'. rf_nodes s' x = Some n' \<and> kept n n' \<and> (x = a \<longrightarrow> rn_first_child n' = rn_first_child n)"
    and table: "\<And>j x. rootfs_node_table s j = Some x \<Longrightarrow> rootfs_node_table s' j = Some x"
  shows "node_ok s' k a xs"
proof -
  obtain n n' where n: "rf_nodes s a = Some n" "rn_inode_number n = k" "0 < rn_link_count n"
    "\<forall>p. rn_parent n = Some p \<longrightarrow> rf_nodes s p \<noteq> None" "rf_nodes s' a = Some n'" "kept n n'"
    using ok all unfolding node_ok_def by blast
  have d: "dir_list s a xs" and t: "\<forall>x \<in> set xs. rootfs_node_table s (node_ino s x) = Some x"
    using ok by (simp_all add: node_ok_def)
  have "dir_list s' a xs" and "x \<in> set xs \<Longrightarrow> node_ino s' x = node_ino s x" for x
    using dir_list_keep [OF d, of s'] all by blast+
  moreover have "rf_nodes s' p \<noteq> None" if "rn_parent n' = Some p" for p
  proof -
    have "rf_nodes s p \<noteq> None" using n(4,6) that by (simp add: kept_def)
    then show ?thesis using all by (metis option.exhaust_sel option.distinct(1))
  qed
  ultimately show ?thesis using n t table unfolding node_ok_def kept_def by auto
qed

definition rootfs_loaded :: "rootfs \<Rightarrow> int \<rightharpoonup> addr" where
  "rootfs_loaded s k = (case rootfs_node_table s k of None \<Rightarrow> None
     | Some a \<Rightarrow> (case rf_nodes s a of None \<Rightarrow> None | Some n \<Rightarrow> if rn_is_loaded n then Some a else None))"

text \<open>Setting the loaded flag of a node in the table.\<close>

lemma set_loaded:
  assumes inv: "rootfs_inv s" and t: "rootfs_node_table s k = Some a" and n: "rf_nodes s a = Some n"
    and s': "s' = s\<lparr> rf_nodes := (rf_nodes s)(a \<mapsto> n\<lparr> rn_is_loaded := b \<rparr>) \<rparr>"
  shows "rootfs_inv s'" and "rootfs_loaded s' = (rootfs_loaded s)(k := if b then Some a else None)"
proof -
  have k: "rn_inode_number n = k" "0 < rn_link_count n" using rootfs_invD [OF inv t] n by auto
  have "\<exists>xs. node_ok s' j x xs" if "rootfs_node_table s' j = Some x" for j x
  proof -
    have t: "rootfs_node_table s j = Some x" using that s' by simp
    obtain xs where "node_ok s j x xs" using rootfs_inv_dir [OF inv t] by (elim exE)
    then have "node_ok s' j x xs" by (rule node_ok_keep) (use n s' in auto)
    then show ?thesis ..
  qed
  then show "rootfs_inv s'" using inv s' by (simp add: rootfs_inv_def)
  show "rootfs_loaded s' = (rootfs_loaded s)(k := if b then Some a else None)"
  proof
    fix j
    show "rootfs_loaded s' j = ((rootfs_loaded s)(k := if b then Some a else None)) j"
    proof (cases "rootfs_node_table s j = Some a")
      case True
      then have "j = k" using rootfs_invD [OF inv True] n k by auto
      then show ?thesis using True by (simp add: rootfs_loaded_def s')
    next
      case False
      then have "j \<noteq> k" using t by auto
      then show ?thesis using False by (auto simp: rootfs_loaded_def s' split: option.splits)
    qed
  qed
qed

interpretation rootfs_driver: inode_driver rootfs_loaded rootfs_inv "rootfs_calls E fill" rootfs_write_inode for E fill
proof
  show "fs_write_inode (rootfs_calls E fill) = Some rootfs_write_inode" by (simp add: rootfs_calls_def)
  fix s k node
  assume inv: "rootfs_inv s"
  show "\<exists>r s'. fs_read_inode (rootfs_calls E fill) k s = Some (r, s') \<and> rootfs_inv s' \<and>
    (case r of Inl _ \<Rightarrow> rootfs_loaded s' = rootfs_loaded s | Inr node \<Rightarrow> rootfs_loaded s' = (rootfs_loaded s)(k \<mapsto> node))"
    if "rootfs_loaded s k = None"
  proof (cases "rootfs_node_table s k")
    case None
    then show ?thesis using inv by (simp add: rootfs_calls_def rootfs_read_inode_def)
  next
    case (Some a)
    then obtain n where n: "rf_nodes s a = Some n" using rootfs_invD [OF inv] by blast
    then have "\<not> rn_is_loaded n" using that Some by (simp add: rootfs_loaded_def split: if_splits)
    then show ?thesis using Some n set_loaded [OF inv Some n refl, of True]
      by (simp add: rootfs_calls_def rootfs_read_inode_def upd_node_def)
  qed
  show "\<exists>r s'. rootfs_write_inode node s = Some (r, s') \<and> rootfs_inv s' \<and> rootfs_loaded s' = (rootfs_loaded s)(k := None)"
    if ld: "rootfs_loaded s k = Some node"
  proof -
    obtain n where n: "rootfs_node_table s k = Some node" "rf_nodes s node = Some n" "rn_is_loaded n"
      using ld by (auto simp: rootfs_loaded_def split: option.splits if_splits)
    then have "0 < rn_link_count n" using rootfs_invD [OF inv n(1)] by auto
    then show ?thesis using n set_loaded [OF inv n(1,2) refl, of False]
      by (simp add: rootfs_write_inode_def upd_node_def)
  qed
qed

section \<open>Creating a node\<close>

definition rootfs_env_ok :: "rootfs_env \<Rightarrow> bool" where
  "rootfs_env_ok E \<longleftrightarrow> allocator (re_bytes E) \<and>
     (\<forall>s k a room. re_node E s k = Some (a, room) \<longrightarrow> rf_nodes s a = None \<and> length room = k + 1)"

lemma name_buffer:
  assumes "names name len nm" and "length room = len + 1"
  shows "\<exists>buf. strncpy room name len = Some buf \<and> write_cell (Some buf) (int len) 0 = Some (nm @ [0])"
proof -
  obtain t y where t: "0 \<notin> set t" "name = t @ 0 # y" "len \<le> length t" "nm = take len t"
    using assms(1) by (auto simp: names_def c_string_def)
  have r: "drop len room = [room ! len]" using assms(2) by (simp add: Cons_nth_drop_Suc [symmetric])
  have "strncpy room name len = Some (nm @ [room ! len])"
    using strncpy_eq [OF t(1), of len room y] t assms(2) r by simp
  moreover have "write_cell (Some (nm @ [room ! len])) (int len) 0 = Some (nm @ [0])"
    using t(3,4) by (simp add: write_cell_def list_update_append)
  ultimately show ?thesis by blast
qed

text \<open>A new entry \<open>nm\<close> in the directory \<open>d\<close>: the node \<open>a\<close>, entered under the number \<open>ino\<close>.\<close>

definition entry_added :: "rootfs \<Rightarrow> rootfs \<Rightarrow> addr \<Rightarrow> addr \<Rightarrow> int \<Rightarrow> byte list \<Rightarrow> bool" where
  "entry_added s s' d a ino nm \<longleftrightarrow> rf_nodes s a = None \<and> rootfs_node_table s ino = None \<and>
     rootfs_node_table s' = (rootfs_node_table s)(ino \<mapsto> a) \<and>
     0 \<le> rootfs_inode_counter s' \<and> rootfs_inode_counter s' < 9223372036854775808 \<and>
     (\<exists>dn dn' n. rf_nodes s d = Some dn \<and> rf_nodes s' d = Some dn' \<and> rn_first_child dn' = Some a \<and>
        rf_nodes s' a = Some n \<and> rn_name n = nm @ [0] \<and> rn_inode_number n = ino \<and> rn_parent n = Some d \<and>
        rn_next_sibling n = rn_first_child dn \<and> rn_link_count n = 1 \<and> \<not> rn_is_loaded n \<and> rn_first_child n = None) \<and>
     (\<forall>x n. rf_nodes s x = Some n \<longrightarrow> (\<exists>n'. rf_nodes s' x = Some n' \<and> kept n n' \<and> rn_is_loaded n' = rn_is_loaded n \<and>
        (x \<noteq> d \<longrightarrow> rn_first_child n' = rn_first_child n)))"

lemma create_node_ok:
  assumes E: "rootfs_env_ok E" and new: "re_node E s len = Some (a, room)" and inv: "rootfs_inv s"
    and d: "rf_nodes s d = Some dn" and first: "\<And>x. rn_first_child dn = Some x \<Longrightarrow> rf_nodes s x \<noteq> None"
    and nm: "names name len nm" and free: "rootfs_node_table s j = None" "0 \<le> j" "j < 9223372036854775808"
  shows "\<exists>s' ino. rootfs_create_node E (Some d) name (Some len) dir s = Some (Some a, s') \<and> entry_added s s' d a ino nm"
proof -
  have fresh: "rf_nodes s a = None" and room: "length room = len + 1"
    using E new by (auto simp: rootfs_env_ok_def)
  obtain buf where buf: "strncpy room name len = Some buf" "write_cell (Some buf) (int len) 0 = Some (nm @ [0])"
    using name_buffer [OF nm room] by blast
  obtain ino where ino: "fresh_ino (rootfs_node_table s) (rootfs_inode_counter s) = Some (ino, next_ino ino)"
    "rootfs_node_table s ino = None" "0 \<le> ino" "ino < 9223372036854775808"
    using fresh_ino_ok [of "rootfs_node_table s" j "rootfs_inode_counter s"] free inv by (auto simp: rootfs_inv_def)
  have counter: "0 \<le> next_ino ino" "next_ino ino < 9223372036854775808"
    using ino(3,4) by (auto simp: next_ino_def next_id_below_def)
  have ad: "a \<noteq> d" using fresh d by auto
  let ?n = "\<lparr> rn_name = nm @ [0], rn_is_directory = dir, rn_inode_number = 0,
                rn_atime = rf_now s, rn_mtime = rf_now s, rn_ctime = rf_now s, rn_link_path = None, rn_is_loaded = False,
                rn_link_count = 1, rn_parent = Some d, rn_prev_sibling = None, rn_next_sibling = rn_first_child dn,
                rn_first_child = None \<rparr>"
  let ?s1 = "s\<lparr> rf_nodes := (rf_nodes s)(a \<mapsto> ?n) \<rparr>"
  obtain s2 where s2: "upd_ptr (rn_first_child dn) (\<lambda>n. n\<lparr> rn_prev_sibling := Some a \<rparr>) ?s1 = Some s2"
    "rootfs_node_table s2 = rootfs_node_table s" "rootfs_inode_counter s2 = rootfs_inode_counter s"
    "rf_nodes s2 a = Some ?n"
    "\<forall>x n. rf_nodes s x = Some n \<longrightarrow> (\<exists>n'. rf_nodes s2 x = Some n' \<and> kept n n' \<and> rn_is_loaded n' = rn_is_loaded n \<and>
        rn_first_child n' = rn_first_child n)"
  proof (cases "rn_first_child dn")
    case None
    then show ?thesis using that [of ?s1] fresh by (auto simp: upd_ptr_def)
  next
    case (Some x)
    then obtain xn where xn: "rf_nodes s x = Some xn" using first by blast
    then have "x \<noteq> a" using fresh by auto
    then show ?thesis
      using that [of "?s1\<lparr> rf_nodes := (rf_nodes ?s1)(x \<mapsto> xn\<lparr> rn_prev_sibling := Some a \<rparr>) \<rparr>"] xn Some fresh
      by (auto simp: upd_ptr_def upd_node_def)
  qed
  obtain d2 where d2: "rf_nodes s2 d = Some d2" "kept dn d2" "rn_is_loaded d2 = rn_is_loaded dn"
    using s2(5) [rule_format, OF d] by auto
  let ?s3 = "s2\<lparr> rf_nodes := (rf_nodes s2)(d \<mapsto> d2\<lparr> rn_first_child := Some a \<rparr>) \<rparr>"
  let ?s4 = "?s3\<lparr> rf_nodes := (rf_nodes ?s3)(a \<mapsto> ?n\<lparr> rn_inode_number := ino \<rparr>), rootfs_inode_counter := next_ino ino,
       rootfs_node_table := (rootfs_node_table s)(ino \<mapsto> a) \<rparr>"
  have run: "rootfs_create_node E (Some d) name (Some len) dir s = Some (Some a, ?s4)"
    using new buf d s2(1-4) d2(1) ino(1) ad
    by (simp add: rootfs_create_node_def upd_ptr_def upd_node_def Let_def)
  have others: "\<exists>n'. rf_nodes ?s4 x = Some n' \<and> kept n n' \<and> rn_is_loaded n' = rn_is_loaded n \<and>
        (x \<noteq> d \<longrightarrow> rn_first_child n' = rn_first_child n)"
    if x: "rf_nodes s x = Some n" for x n
  proof (cases "x = d")
    case True
    then show ?thesis using x d d2 ad by simp
  next
    case False
    then show ?thesis using s2(5) [rule_format, OF x] x fresh by (cases "x = a") auto
  qed
  have "entry_added s ?s4 d a ino nm"
    unfolding entry_added_def
    by (intro conjI allI impI others) (use fresh ino(2) counter d ad in simp_all)
  then show ?thesis using run by blast
qed

section \<open>What a new entry changes\<close>

lemma entry_addedD:
  assumes "entry_added s s' d a ino nm"
  shows "rf_nodes s a = None" "rootfs_node_table s ino = None" "rootfs_node_table s' = (rootfs_node_table s)(ino \<mapsto> a)"
    "0 \<le> rootfs_inode_counter s'" "rootfs_inode_counter s' < 9223372036854775808"
    "\<exists>dn dn' n. rf_nodes s d = Some dn \<and> rf_nodes s' d = Some dn' \<and> rn_first_child dn' = Some a \<and>
        rf_nodes s' a = Some n \<and> rn_name n = nm @ [0] \<and> rn_inode_number n = ino \<and> rn_parent n = Some d \<and>
        rn_next_sibling n = rn_first_child dn \<and> rn_link_count n = 1 \<and> \<not> rn_is_loaded n \<and> rn_first_child n = None"
    "rf_nodes s x = Some m \<Longrightarrow> \<exists>n'. rf_nodes s' x = Some n' \<and> kept m n' \<and> rn_is_loaded n' = rn_is_loaded m \<and>
        (x \<noteq> d \<longrightarrow> rn_first_child n' = rn_first_child m)"
  using assms unfolding entry_added_def by blast+

text \<open>Later changes to the fields that the entries do not depend on.\<close>

lemma entry_added_upd:
  assumes e: "entry_added s s' d a ino nm" and x: "rf_nodes s' x = Some n"
    and f: "kept n (f n)" "rn_is_loaded (f n) = rn_is_loaded n" "rn_first_child (f n) = rn_first_child n"
  shows "entry_added s (s'\<lparr> rf_nodes := (rf_nodes s')(x \<mapsto> f n) \<rparr>) d a ino nm"
proof -
  let ?s = "s'\<lparr> rf_nodes := (rf_nodes s')(x \<mapsto> f n) \<rparr>"
  obtain dn dn' an where n: "rf_nodes s d = Some dn" "rf_nodes s' d = Some dn'" "rn_first_child dn' = Some a"
    "rf_nodes s' a = Some an" "rn_name an = nm @ [0]" "rn_inode_number an = ino" "rn_parent an = Some d"
    "rn_next_sibling an = rn_first_child dn" "rn_link_count an = 1" "\<not> rn_is_loaded an" "rn_first_child an = None"
    using entry_addedD(6) [OF e] by (elim exE conjE)
  have d: "\<exists>dn'. rf_nodes ?s d = Some dn' \<and> rn_first_child dn' = Some a" using n(2,3) x f by auto
  have new: "\<exists>an. rf_nodes ?s a = Some an \<and> rn_name an = nm @ [0] \<and> rn_inode_number an = ino \<and> rn_parent an = Some d \<and>
    rn_next_sibling an = rn_first_child dn \<and> rn_link_count an = 1 \<and> \<not> rn_is_loaded an \<and> rn_first_child an = None"
    using n(4-) x f by (auto simp: kept_def)
  have others: "\<exists>n'. rf_nodes ?s y = Some n' \<and> kept m n' \<and> rn_is_loaded n' = rn_is_loaded m \<and>
      (y \<noteq> d \<longrightarrow> rn_first_child n' = rn_first_child m)" if y: "rf_nodes s y = Some m" for y m
    using entry_addedD(7) [OF e y] x f by (auto intro: kept_trans)
  show ?thesis
    unfolding entry_added_def
  proof (intro conjI)
    show "\<exists>dn dn' n. rf_nodes s d = Some dn \<and> rf_nodes ?s d = Some dn' \<and> rn_first_child dn' = Some a \<and>
        rf_nodes ?s a = Some n \<and> rn_name n = nm @ [0] \<and> rn_inode_number n = ino \<and> rn_parent n = Some d \<and>
        rn_next_sibling n = rn_first_child dn \<and> rn_link_count n = 1 \<and> \<not> rn_is_loaded n \<and> rn_first_child n = None"
      using n(1) d new by blast
    show "\<forall>y m. rf_nodes s y = Some m \<longrightarrow> (\<exists>n'. rf_nodes ?s y = Some n' \<and> kept m n' \<and>
        rn_is_loaded n' = rn_is_loaded m \<and> (y \<noteq> d \<longrightarrow> rn_first_child n' = rn_first_child m))"
      using others by blast
  qed (use entry_addedD(1-5) [OF e] in simp_all)
qed

lemma entry_added_list:
  assumes e: "entry_added s s' d a ino nm" and nm: "0 \<notin> set nm" and xs: "dir_list s d xs"
  shows "dir_list s' d (a # xs)" and "node_name s' a = nm" and "node_ino s' a = ino" and "dir_list s' a []"
    and "x \<in> set xs \<Longrightarrow> node_name s' x = node_name s x \<and> node_ino s' x = node_ino s x"
proof -
  obtain dn dn' an where n: "rf_nodes s d = Some dn" "rf_nodes s' d = Some dn'" "rn_first_child dn' = Some a"
    "rf_nodes s' a = Some an" "rn_name an = nm @ [0]" "rn_inode_number an = ino" "rn_parent an = Some d"
    "rn_next_sibling an = rn_first_child dn" "rn_link_count an = 1" "\<not> rn_is_loaded an" "rn_first_child an = None"
    using entry_addedD(6) [OF e] by (elim exE conjE)
  let ?t = "s'\<lparr> rf_nodes := (rf_nodes s')(d \<mapsto> dn'\<lparr> rn_first_child := rn_first_child dn \<rparr>) \<rparr>"
  have sibs: "sib ?t x = sib s' x" for x using n(2) by (simp add: sib_def)
  have f: "\<exists>n'. rf_nodes ?t d = Some n' \<and> rn_first_child n' = rn_first_child m" if "rf_nodes s d = Some m" for m
    using that n(1) by simp
  have k: "\<exists>n'. rf_nodes ?t x = Some n' \<and> kept m n'" if "rf_nodes s x = Some m" for x m
    using entry_addedD(7) [OF e that] n(2) by auto
  have old: "dir_list ?t d xs" "\<And>x. x \<in> set xs \<Longrightarrow> node_name ?t x = node_name s x"
    "\<And>x. x \<in> set xs \<Longrightarrow> node_ino ?t x = node_ino s x"
    by (rule dir_list_keep [OF xs f k]; assumption)+
  have same: "node_name ?t x = node_name s' x" "node_ino ?t x = node_ino s' x" for x
    using n(2) by (auto simp: node_name_def node_ino_def)
  have name: "c_string (rn_name an) nm" using n(5) nm by (simp add: c_string_def)
  have ent: "\<exists>n nm. rf_nodes s' x = Some n \<and> c_string (rn_name n) nm \<and> rn_parent n = Some d" if x: "x \<in> set xs" for x
  proof -
    have "\<exists>n nm. rf_nodes ?t x = Some n \<and> c_string (rn_name n) nm \<and> rn_parent n = Some d"
      using old(1) x unfolding dir_list_def by (elim conjE) (rule bspec)
    then show ?thesis using n(2) by (cases "x = d") auto
  qed
  have "chain (sib ?t) p xs = chain (sib s') p xs" for p by (rule chain_cong) (rule sibs)
  then have "chain (sib s') (rn_first_child dn) xs" using old(1) by (simp add: dir_list_def)
  moreover have "sib s' a = rn_first_child dn" using n(4,8) by (simp add: sib_def)
  ultimately show "dir_list s' d (a # xs)" using n(2-4,7) name ent by (auto simp: dir_list_def)
  show "node_name s' a = nm" by (rule node_name_eq [OF n(4) name])
  show "node_ino s' a = ino" using n(4,6) by (simp add: node_ino_def)
  show "dir_list s' a []" using n(4,11) by (simp add: dir_list_def)
  show "x \<in> set xs \<Longrightarrow> node_name s' x = node_name s x \<and> node_ino s' x = node_ino s x" using old(2,3) same by simp
qed

lemma entry_added_inv:
  assumes e: "entry_added s s' d a ino nm" and nm: "0 \<notin> set nm" and inv: "rootfs_inv s"
    and d: "rootfs_node_table s k = Some d"
  shows "rootfs_inv s'" and "rootfs_loaded s' = rootfs_loaded s"
proof -
  obtain dn dn' an where n: "rf_nodes s d = Some dn" "rf_nodes s' d = Some dn'" "rn_first_child dn' = Some a"
    "rf_nodes s' a = Some an" "rn_name an = nm @ [0]" "rn_inode_number an = ino" "rn_parent an = Some d"
    "rn_next_sibling an = rn_first_child dn" "rn_link_count an = 1" "\<not> rn_is_loaded an" "rn_first_child an = None"
    using entry_addedD(6) [OF e] by (elim exE conjE)
  have grow: "rootfs_node_table s j = Some x \<Longrightarrow> rootfs_node_table s' j = Some x" for j x
    using entry_addedD(2,3) [OF e] by auto
  have "\<exists>xs. node_ok s' j x xs" if t: "rootfs_node_table s' j = Some x" for j x
  proof (cases "j = ino")
    case True
    then have "x = a" using t entry_addedD(3) [OF e] by simp
    moreover obtain ys where "node_ok s k d ys" using rootfs_inv_dir [OF inv d] by (elim exE)
    then have "dir_list s d ys" by (simp add: node_ok_def)
    ultimately have "node_ok s' j x []"
      using True n entry_added_list(4) [OF e nm] by (simp add: node_ok_def)
    then show ?thesis ..
  next
    case False
    then have t': "rootfs_node_table s j = Some x" using t entry_addedD(3) [OF e] by simp
    obtain xs where ok: "node_ok s j x xs" using rootfs_inv_dir [OF inv t'] by (elim exE)
    show ?thesis
    proof (cases "x = d")
      case False
      have "node_ok s' j x xs"
        by (rule node_ok_keep [OF ok _ grow]) (use entry_addedD(7) [OF e] False in blast)+
      then show ?thesis ..
    next
      case True
      have xs: "dir_list s d xs" "\<forall>x \<in> set xs. rootfs_node_table s (node_ino s x) = Some x"
        using ok True by (simp_all add: node_ok_def)
      have "rn_parent dn = Some p \<Longrightarrow> rf_nodes s' p \<noteq> None" for p
        using ok True n(1) entry_addedD(7) [OF e] unfolding node_ok_def
        by (metis option.exhaust_sel option.inject option.distinct(1))
      moreover have "kept dn dn'" using entry_addedD(7) [OF e n(1)] n(2) by simp
      moreover have "rootfs_node_table s' (node_ino s' y) = Some y" if "y \<in> set (a # xs)" for y
      proof (cases "y = a")
        case True
        then show ?thesis using entry_added_list(3) [OF e nm xs(1)] entry_addedD(3) [OF e] by simp
      next
        case False
        then have "rootfs_node_table s (node_ino s y) = Some y" "node_ino s' y = node_ino s y"
          using that xs(2) entry_added_list(5) [OF e nm xs(1)] by auto
        then show ?thesis using grow by simp
      qed
      ultimately have "node_ok s' j d (a # xs)"
        using ok True n(1,2) entry_added_list(1) [OF e nm xs(1)] unfolding node_ok_def by (simp add: kept_def)
      then show ?thesis using True by blast
    qed
  qed
  then show "rootfs_inv s'" using entry_addedD(4,5) [OF e] by (simp add: rootfs_inv_def)
  show "rootfs_loaded s' = rootfs_loaded s"
  proof
    fix j
    show "rootfs_loaded s' j = rootfs_loaded s j"
    proof (cases "rootfs_node_table s j")
      case None
      then show ?thesis using entry_addedD(3) [OF e] n(4,10) by (simp add: rootfs_loaded_def)
    next
      case (Some x)
      then obtain m where m: "rf_nodes s x = Some m" using rootfs_invD [OF inv] by blast
      then show ?thesis using Some grow [OF Some] entry_addedD(7) [OF e m] by (auto simp: rootfs_loaded_def)
    qed
  qed
qed

lemma entry_added_lookup:
  assumes e: "entry_added s s' d a ino nm" and nm: "0 \<notin> set nm" and inv: "rootfs_inv s"
    and d': "rootfs_node_table s k = Some d'" and nm': "names name' len' nm'" "nm' \<noteq> dotdot"
  shows "rootfs_do_lookup_inode d' name' len' s' =
    (if d' = d \<and> nm' = nm then Some (Inr ino) else rootfs_do_lookup_inode d' name' len' s)"
proof -
  obtain xs where ok: "node_ok s k d' xs" using rootfs_inv_dir [OF inv d'] by (elim exE)
  then have xs: "dir_list s d' xs" by (simp add: node_ok_def)
  note before = lookup_eq [OF xs nm']
  show ?thesis
  proof (cases "d' = d")
    case True
    note l = entry_added_list [OF e nm xs [unfolded True]]
    have f: "List.find (\<lambda>x. node_name s' x = nm') xs = List.find (\<lambda>x. node_name s x = nm') xs"
      by (rule find_cong) (use l(5) in auto)
    have i: "List.find (\<lambda>x. node_name s x = nm') xs = Some y \<Longrightarrow> node_ino s' y = node_ino s y" for y
      using l(5) by (auto simp: find_Some_iff)
    show ?thesis using lookup_eq [OF l(1) nm'] before True l(2,3) f i by (auto split: option.splits)
  next
    case False
    have keep: "dir_list s' d' xs" "x \<in> set xs \<Longrightarrow> node_name s' x = node_name s x" "x \<in> set xs \<Longrightarrow> node_ino s' x = node_ino s x" for x
      using dir_list_keep [OF xs, of s'] entry_addedD(7) [OF e] False by blast+
    have f: "List.find (\<lambda>x. node_name s' x = nm') xs = List.find (\<lambda>x. node_name s x = nm') xs"
      by (rule find_cong) (use keep(2) in auto)
    have i: "List.find (\<lambda>x. node_name s x = nm') xs = Some y \<Longrightarrow> node_ino s' y = node_ino s y" for y
      using keep(3) by (auto simp: find_Some_iff)
    show ?thesis using lookup_eq [OF keep(1) nm'] before False f i by (auto split: option.splits)
  qed
qed

end
