(* ===== verification/Kernel_Rootfs_Calls.thy ===== *)
theory Kernel_Rootfs_Calls
  imports Kernel_Rootfs_Safety
begin

text \<open>
  The calls of the root file system that change the tree, and the inode cache on top of it: what a new
  directory or link is found as afterwards, that no sequence of loading and releasing inodes and making
  directories runs into an assertion, and that removing a directory does.
\<close>

section \<open>New directories and links\<close>

text \<open>What a call that adds the name \<open>nm\<close> to the directory \<open>d\<close> answers, and its effect on every later lookup.\<close>

definition adds_entry :: "rootfs \<Rightarrow> addr \<Rightarrow> byte list \<Rightarrow> int \<Rightarrow> addr \<Rightarrow> rootfs \<Rightarrow> bool" where
  "adds_entry s d nm ino a s' \<longleftrightarrow> rootfs_node_table s ino = None \<and> rootfs_node_table s' = (rootfs_node_table s)(ino \<mapsto> a) \<and>
     (\<forall>k d' name len nm'. rootfs_node_table s k = Some d' \<longrightarrow> names name len nm' \<longrightarrow> nm' \<noteq> dotdot \<longrightarrow>
        rootfs_do_lookup_inode d' name len s' =
          (if d' = d \<and> nm' = nm then Some (Inr ino) else rootfs_do_lookup_inode d' name len s))"

definition refused :: "rootfs \<Rightarrow> addr \<Rightarrow> byte list \<Rightarrow> nat \<Rightarrow> errno" where
  "refused s d name len = (case rootfs_do_lookup_inode d name len s of
       Some (Inr _) \<Rightarrow> EEXIST
     | _ \<Rightarrow> (case rf_nodes s d of Some n \<Rightarrow> if rn_is_directory n then ENOMEM else EINVAL | None \<Rightarrow> EINVAL))"

lemma create_in_dir:
  assumes E: "rootfs_env_ok E" and inv: "rootfs_inv s" and d: "rootfs_node_table s k = Some d" and nm: "names name len nm"
    and free: "rootfs_node_table s j = None" "0 \<le> j" "j < 9223372036854775808"
  shows "re_node E s len = None \<and> rootfs_create_node E (Some d) name (Some len) dir s = Some (None, s) \<or>
    (\<exists>a s' ino. rootfs_create_node E (Some d) name (Some len) dir s = Some (Some a, s') \<and> entry_added s s' d a ino nm)"
proof (cases "re_node E s len")
  case None
  then show ?thesis by (simp add: rootfs_create_node_def)
next
  case (Some p)
  obtain a room where p: "p = (a, room)" by (cases p)
  obtain xs where "node_ok s k d xs" using rootfs_inv_dir [OF inv d] by (elim exE)
  then obtain dn where dn: "rf_nodes s d = Some dn" and l: "dir_list s d xs" by (auto simp: node_ok_def)
  have "rf_nodes s x \<noteq> None" if "rn_first_child dn = Some x" for x
    using l dn that by (cases xs) (auto simp: dir_list_def)
  then show ?thesis using create_node_ok [OF E Some [unfolded p] inv dn _ nm free] by blast
qed

lemma adds_entryI:
  assumes "entry_added s s' d a ino nm" and "names name len nm" and "rootfs_inv s"
  shows "adds_entry s d nm ino a s'"
  unfolding adds_entry_def
  using entry_addedD(2,3) [OF assms(1)] entry_added_lookup [OF assms(1) _ assms(3)] names_no_0 [OF assms(2)] by simp

lemma adds_entry_found:
  "adds_entry s d nm ino a s' \<Longrightarrow> rootfs_node_table s k = Some d \<Longrightarrow> names name len nm \<Longrightarrow> nm \<noteq> dotdot \<Longrightarrow>
     rootfs_do_lookup_inode d name len s' = Some (Inr ino)"
  by (simp add: adds_entry_def)

lemma lookup_total:
  assumes "rootfs_inv s" and "rootfs_node_table s k = Some d" and "names name len nm"
  shows "\<exists>r. rootfs_do_lookup_inode d name len s = Some r"
proof -
  obtain xs where ok: "node_ok s k d xs" using rootfs_inv_dir [OF assms(1,2)] by (elim exE)
  then have l: "dir_list s d xs" by (simp add: node_ok_def)
  obtain n where n: "rf_nodes s d = Some n" "\<And>p. rn_parent n = Some p \<Longrightarrow> rf_nodes s p \<noteq> None"
    using ok unfolding node_ok_def by blast
  show ?thesis
  proof (cases "nm = dotdot")
    case True
    show ?thesis using dots_test [OF assms(3)] True n by (cases "rn_parent n") (auto simp: rootfs_do_lookup_inode_def)
  next
    case False
    then show ?thesis using lookup_eq [OF l assms(3)] by simp
  qed
qed

lemma mkdir_ok:
  assumes E: "rootfs_env_ok E" and inv: "rootfs_inv s" and d: "rootfs_node_table s k = Some d" and nm: "names name len nm"
    and free: "rootfs_node_table s j = None" "0 \<le> j" "j < 9223372036854775808"
  shows "\<exists>r s'. rootfs_mkdir E d name len perm s = Some (r, s') \<and> rootfs_inv s' \<and> rootfs_loaded s' = rootfs_loaded s \<and>
    (case r of
       Inl e \<Rightarrow> s' = s \<and> e = refused s d name len
     | Inr _ \<Rightarrow> \<exists>ino a. adds_entry s d nm ino a s')"
proof -
  obtain r where r: "rootfs_do_lookup_inode d name len s = Some r" using lookup_total [OF inv d nm] by blast
  obtain n where n: "rf_nodes s d = Some n" using rootfs_invD [OF inv d] by blast
  show ?thesis
  proof (cases "(\<exists>i. r = Inr i) \<or> \<not> rn_is_directory n")
    case True
    then show ?thesis using r n inv by (auto simp: rootfs_mkdir_def refused_def split: sum.splits)
  next
    case False
    then obtain e where e: "r = Inl e" "rn_is_directory n" by (cases r) auto
    from create_in_dir [OF E inv d nm free, of True] show ?thesis
    proof
      assume "re_node E s len = None \<and> rootfs_create_node E (Some d) name (Some len) True s = Some (None, s)"
      then show ?thesis using r n e inv by (simp add: rootfs_mkdir_def refused_def)
    next
      assume "\<exists>a s' ino. rootfs_create_node E (Some d) name (Some len) True s = Some (Some a, s') \<and> entry_added s s' d a ino nm"
      then obtain a s1 ino where c: "rootfs_create_node E (Some d) name (Some len) True s = Some (Some a, s1)"
        "entry_added s s1 d a ino nm" by (elim exE conjE)
      obtain d1 where d1: "rf_nodes s1 d = Some d1" using entry_addedD(7) [OF c(2) n] by blast
      let ?s = "s1\<lparr> rf_nodes := (rf_nodes s1)(d \<mapsto> d1\<lparr> rn_mtime := rf_now s1 \<rparr>) \<rparr>"
      have e2: "entry_added s ?s d a ino nm" by (rule entry_added_upd [OF c(2) d1]) simp_all
      have "rootfs_mkdir E d name len perm s = Some (Inr (), ?s)"
        using r n e c(1) d1 by (simp add: rootfs_mkdir_def touch_mtime_def upd_node_def)
      then show ?thesis
        using entry_added_inv [OF e2 _ inv d] names_no_0 [OF nm] adds_entryI [OF e2 nm inv] by auto
    qed
  qed
qed

lemma upd_node_field:
  assumes "upd_node x f s = Some s'" and "\<And>n. g (f n) = g n"
  shows "map_option g (rf_nodes s' a) = map_option g (rf_nodes s a)"
  using assms by (auto simp: upd_node_def split: bind_splits)

lemma upd_ptr_field:
  assumes "upd_ptr p f s = Some s'" and "\<And>n. g (f n) = g n"
  shows "map_option g (rf_nodes s' a) = map_option g (rf_nodes s a)"
  using assms upd_node_field [of _ f s s' g a] by (auto simp: upd_ptr_def split: option.splits)

text \<open>Deleting a node, when it returns, leaves it loaded and without links.\<close>

lemma delete_node_kept:
  assumes "rootfs_delete_node a s = Some s'"
  shows "\<exists>n n'. rf_nodes s a = Some n \<and> rn_is_loaded n \<and> rf_nodes s' a = Some n' \<and> rn_is_loaded n' \<and> rn_link_count n' = 0"
proof -
  obtain n where n: "rf_nodes s a = Some n" using assms by (auto simp: rootfs_delete_node_def split: bind_splits)
  have steps: "upd_node x f s1 = Some s2 \<Longrightarrow> (\<And>n. rn_is_loaded (f n) = rn_is_loaded n) \<Longrightarrow>
      map_option rn_is_loaded (rf_nodes s2 a) = map_option rn_is_loaded (rf_nodes s1 a)"
    "upd_ptr p f s1 = Some s2 \<Longrightarrow> (\<And>n. rn_is_loaded (f n) = rn_is_loaded n) \<Longrightarrow>
      map_option rn_is_loaded (rf_nodes s2 a) = map_option rn_is_loaded (rf_nodes s1 a)" for x p f s1 s2
    using upd_node_field [of x f s1 s2 rn_is_loaded a] upd_ptr_field [of p f s1 s2 rn_is_loaded a] by blast+
  show ?thesis using assms n unfolding rootfs_delete_node_def
    by (auto split: bind_splits if_splits simp: Let_def dest!: steps)
qed

section \<open>The properties of the calls\<close>

text \<open>A tree for the witnesses: the root directory and an empty directory \<^verbatim>\<open>d\<close> in it, which is loaded or not.\<close>

definition wit_node :: "byte list \<Rightarrow> int \<Rightarrow> bool \<Rightarrow> vptr \<Rightarrow> vptr \<Rightarrow> rootfs_node_t" where
  "wit_node name ino loaded parent first = \<lparr> rn_name = name, rn_is_directory = True, rn_inode_number = ino,
     rn_atime = 0, rn_mtime = 0, rn_ctime = 0, rn_link_path = None, rn_is_loaded = loaded, rn_link_count = 1,
     rn_parent = parent, rn_prev_sibling = None, rn_next_sibling = None, rn_first_child = first \<rparr>"

definition wit_fs :: "bool \<Rightarrow> rootfs" where
  "wit_fs loaded = \<lparr> rf_nodes = [1 \<mapsto> wit_node [0] 0 False None (Some 2), 2 \<mapsto> wit_node [100, 0] 1 loaded (Some 1) None],
     rootfs_node_table = [0 \<mapsto> 1, 1 \<mapsto> 2], rootfs_inode_counter = 2, rf_cookies = (\<lambda>_. None), rf_now = 7 \<rparr>"

definition wit_rootfs_env :: rootfs_env where
  "wit_rootfs_env = \<lparr> re_node = (\<lambda>s k. if rf_nodes s 3 = None then Some (3, replicate (k + 1) 0) else None),
     re_cookie = (\<lambda>_. None), re_bytes = (\<lambda>n. if n = 0 then None else Some (replicate n 0)) \<rparr>"

lemma wit_rootfs_env_ok: "rootfs_env_ok wit_rootfs_env"
proof -
  have "allocator (re_bytes wit_rootfs_env)" by unfold_locales (auto simp: wit_rootfs_env_def split: if_splits)
  then show ?thesis by (auto simp: rootfs_env_ok_def wit_rootfs_env_def split: if_splits)
qed

lemma wit_fs_inv: "rootfs_inv (wit_fs b)"
proof -
  have "c_string [100, 0] [100]" by (simp add: c_string_def)
  then have "\<exists>nm. c_string [100, 0] nm" by (rule exI)
  then have "node_ok (wit_fs b) 0 1 [2]" "node_ok (wit_fs b) 1 2 []"
    unfolding node_ok_def dir_list_def by (simp_all add: wit_fs_def wit_node_def sib_def node_ino_def)
  then show ?thesis by (auto simp: rootfs_inv_def wit_fs_def split: if_splits)
qed

lemma wit_names: "names [120, 0] 1 [120]"
  unfolding names_def c_string_def by (intro exI [of _ "[120]"]) simp



text \<open>C20: A symbolic link can be read back: when the name is free in a directory and memory suffices, making the link
  succeeds, looking the name up gives an inode number, loading that inode gives a node, and reading the link
  into a buffer that is longer than the path gives the path.\<close>

theorem rootfs_symlink_readlink:
  assumes E: "rootfs_env_ok E" and inv: "rootfs_inv s" and d: "rootfs_node_table s k = Some d" and nm: "names name len nm"
    and dots: "nm \<noteq> dotdot" and free: "rootfs_node_table s j = None" "0 \<le> j" "j < 9223372036854775808"
    and new: "rootfs_do_lookup_inode d name len s = Some (Inl e)" and dir: "rf_nodes s d = Some n" "rn_is_directory n"
    and mem: "re_node E s len \<noteq> None" "re_bytes E (length path + 1) \<noteq> None"
    and path: "0 \<notin> set path" "length path < cap" "length buffer = cap"
  shows "\<exists>s' ino a s2 s3. rootfs_symlink E d name len (path @ 0 # junk) s = Some (Inr (), s') \<and> rootfs_inv s' \<and>
    adds_entry s d nm ino a s' \<and> rootfs_do_lookup_inode d name len s' = Some (Inr ino) \<and>
    rootfs_read_inode ino s' = Some (Inr a, s2) \<and>
    rootfs_readlink a buffer cap s2 =
      Some (Inr ((path @ 0 # drop (Suc (length path)) buffer)[cap - 1 := 0]), s3)"
proof -
  have km: "allocator (re_bytes E)" using E by (simp add: rootfs_env_ok_def)
  obtain a s1 ino where c: "rootfs_create_node E (Some d) name (Some len) True s = Some (Some a, s1)"
    "entry_added s s1 d a ino nm"
    using create_in_dir [OF E inv d nm free, of True] mem(1) by auto
  obtain an where an: "rf_nodes s1 a = Some an" using entry_addedD(6) [OF c(2)] by blast
  let ?s2 = "s1\<lparr> rf_nodes := (rf_nodes s1)(a \<mapsto> an\<lparr> rn_link_path := Some (path @ [0]) \<rparr>) \<rparr>"
  have e2: "entry_added s ?s2 d a ino nm" by (rule entry_added_upd [OF c(2) an]) simp_all
  have da: "d \<noteq> a" using dir(1) entry_addedD(1) [OF c(2)] by auto
  obtain d2 where d2: "rf_nodes ?s2 d = Some d2" using entry_addedD(7) [OF e2 dir(1)] by blast
  let ?s = "?s2\<lparr> rf_nodes := (rf_nodes ?s2)(d \<mapsto> d2\<lparr> rn_mtime := rf_now ?s2 \<rparr>) \<rparr>"
  have e3: "entry_added s ?s d a ino nm" by (rule entry_added_upd [OF e2 d2]) simp_all
  have "strdup (re_bytes E) (path @ 0 # junk) = Some (Some (path @ [0]))"
    using strdup_eq [OF km path(1), of junk] mem(2) by simp
  then have run: "rootfs_symlink E d name len (path @ 0 # junk) s = Some (Inr (), ?s)"
    using new dir c(1) an d2
    by (simp add: rootfs_symlink_def touch_mtime_def upd_node_def)
  have unloaded: "\<not> rn_is_loaded an" using entry_addedD(6) [OF c(2)] an by auto
  have ad: "adds_entry s d nm ino a ?s" by (rule adds_entryI [OF e3 nm inv])
  have found: "rootfs_do_lookup_inode d name len ?s = Some (Inr ino)"
    by (rule adds_entry_found [OF ad d nm dots])
  have t: "rootfs_node_table ?s ino = Some a" using entry_addedD(3) [OF e3] by simp
  have an3: "rf_nodes ?s a = Some (an\<lparr> rn_link_path := Some (path @ [0]) \<rparr>)" using da by simp
  let ?s4 = "?s\<lparr> rf_nodes := (rf_nodes ?s)(a \<mapsto> an\<lparr> rn_link_path := Some (path @ [0]), rn_is_loaded := True \<rparr>) \<rparr>"
  have load: "rootfs_read_inode ino ?s = Some (Inr a, ?s4)"
    using t an3 unloaded by (simp add: rootfs_read_inode_def upd_node_def)
  have "strncpy buffer (path @ [0]) cap = Some (path @ 0 # drop (Suc (length path)) buffer)"
    using strncpy_eq [OF path(1), of cap buffer "[]"] path(2,3) by simp
  moreover have "length (path @ 0 # drop (Suc (length path)) buffer) = cap" using path(2,3) by simp
  ultimately have "\<exists>s5. rootfs_readlink a buffer cap ?s4 =
      Some (Inr ((path @ 0 # drop (Suc (length path)) buffer)[cap - 1 := 0]), s5)"
    using path(2) by (simp add: rootfs_readlink_def upd_node_def write_cell_def nat_diff_distrib)
  then show ?thesis
    using run entry_added_inv(1) [OF e3 _ inv d] names_no_0 [OF nm] ad found load by blast
qed

theorem rootfs_symlink_readlink_witness:
  "\<exists>s' ino a s2 s3. rootfs_symlink wit_rootfs_env 1 [120, 0] 1 ([47, 100] @ 0 # []) (wit_fs False) = Some (Inr (), s') \<and>
    rootfs_inv s' \<and> adds_entry (wit_fs False) 1 [120] ino a s' \<and>
    rootfs_do_lookup_inode 1 [120, 0] 1 s' = Some (Inr ino) \<and> rootfs_read_inode ino s' = Some (Inr a, s2) \<and>
    rootfs_readlink a (replicate 4 9) 4 s2 = Some (Inr (([47, 100] @ 0 # drop (Suc (length [47, 100 :: byte])) (replicate 4 9))[4 - 1 := 0]), s3)"
proof (rule rootfs_symlink_readlink [OF wit_rootfs_env_ok wit_fs_inv _ wit_names, where k = 0 and j = 2 and e = ENOENT])
  show "rootfs_do_lookup_inode 1 [120, 0] 1 (wit_fs False) = Some (Inl ENOENT)"
    by (simp add: rootfs_do_lookup_inode_def rootfs_child_loop.simps wit_fs_def wit_node_def name_is_def)
  show "rf_nodes (wit_fs False) 1 = Some (wit_node [0] 0 False None (Some 2))" by (simp add: wit_fs_def)
qed (simp_all add: wit_fs_def wit_node_def dotdot_def wit_rootfs_env_def)

text \<open>Removing an empty directory ends in a kernel panic, since \<^verbatim>\<open>rootfs_delete_node\<close> passes the name of the node,
  which lies inside the node, to \<^verbatim>\<open>kfree\<close>: at once when the inode of the directory is not loaded, and otherwise, after
  a call that reports success, when the last reference to the inode is dropped.\<close>

theorem rootfs_rmdir_panics:
  assumes found: "rootfs_do_lookup_inode d name len s = Some (Inr ino)" and t: "rootfs_node_table s ino = Some a"
    and n: "rf_nodes s a = Some n" "rn_is_directory n" "rn_first_child n = None"
  shows "(\<not> rn_is_loaded n \<longrightarrow> rootfs_rmdir d name len s = None) \<and>
    (rootfs_rmdir d name len s = Some (r, s') \<longrightarrow> r = Inr () \<and> rootfs_write_inode a s' = None)"
proof (cases "rootfs_delete_node a s")
  case None
  then show ?thesis using assms by (simp add: rootfs_rmdir_def)
next
  case (Some s1)
  obtain n1 where ld: "rn_is_loaded n" "rf_nodes s1 a = Some n1" "rn_is_loaded n1" "rn_link_count n1 = 0"
    using delete_node_kept [OF Some] n(1) by auto
  have "rootfs_write_inode a s2 = None" if touch: "touch_mtime d s1 = Some s2" for s2
  proof -
    obtain n2 where n2: "rf_nodes s2 a = Some n2" "rn_is_loaded n2" "rn_link_count n2 = 0"
      using upd_node_field [OF touch [unfolded touch_mtime_def], of rn_is_loaded a]
        upd_node_field [OF touch [unfolded touch_mtime_def], of rn_link_count a] ld(2-4) by auto
    let ?s = "s2\<lparr> rf_nodes := (rf_nodes s2)(a \<mapsto> n2\<lparr> rn_is_loaded := False \<rparr>) \<rparr>"
    have "rootfs_delete_node a ?s = None" using delete_node_kept [of a ?s] by fastforce
    then show ?thesis using n2 by (simp add: rootfs_write_inode_def upd_node_def)
  qed
  then show ?thesis using assms Some ld(1) by (cases "touch_mtime d s1") (auto simp: rootfs_rmdir_def)
qed

lemma wit_lookup: "rootfs_do_lookup_inode 1 [100, 0] 1 (wit_fs b) = Some (Inr 1)"
  by (simp add: rootfs_do_lookup_inode_def rootfs_child_loop.simps wit_fs_def wit_node_def name_is_def)

theorem rootfs_rmdir_panics_witness:
  "rootfs_rmdir 1 [100, 0] 1 (wit_fs False) = None \<and>
   (case rootfs_rmdir 1 [100, 0] 1 (wit_fs True) of None \<Rightarrow> False
    | Some (r, s') \<Rightarrow> r = Inr () \<and> rootfs_write_inode 2 s' = None)"
proof -
  have "rootfs_rmdir 1 [100, 0] 1 (wit_fs False) = None"
    using rootfs_rmdir_panics [OF wit_lookup [of False], of 2] by (simp add: wit_fs_def wit_node_def)
  moreover have "rootfs_rmdir 1 [100, 0] 1 (wit_fs True) \<noteq> None"
    unfolding rootfs_rmdir_def wit_lookup
    by (simp add: rootfs_delete_node_def wit_fs_def wit_node_def upd_node_def upd_ptr_def touch_mtime_def Let_def)
  then obtain r s' where "rootfs_rmdir 1 [100, 0] 1 (wit_fs True) = Some (r, s')" by auto
  moreover have "r = Inr () \<and> rootfs_write_inode 2 s' = None"
    using rootfs_rmdir_panics [OF wit_lookup [of True], of 2 _ r s'] calculation by (simp add: wit_fs_def wit_node_def)
  ultimately show ?thesis by simp
qed

section \<open>The inode cache on the root file system\<close>

text \<open>The steps that the clients of the root mount point take: looking an inode up, releasing an inode that
  is in use, and making a directory below an inode in use (while a number for it is free).\<close>

inductive ns_step :: "rootfs vfs_env \<Rightarrow> rootfs_env \<Rightarrow> addr \<Rightarrow> rootfs vfs_world \<Rightarrow> rootfs vfs_world \<Rightarrow> bool"
  for E R mp where
  ns_get: "get_inode E mp n w = Some (r, w') \<Longrightarrow> ns_step E R mp w w'"
| ns_put: "v_mounts w mp = Some m \<Longrightarrow> table_of_mount m n = Some a \<Longrightarrow> put_inode a w = Some w' \<Longrightarrow> ns_step E R mp w w'"
| ns_mkdir: "v_mounts w mp = Some m \<Longrightarrow> table_of_mount m n = Some a \<Longrightarrow> v_inodes w a = Some i \<Longrightarrow> names name len nm \<Longrightarrow>
    rootfs_node_table (v_fs w) j = None \<Longrightarrow> 0 \<le> j \<Longrightarrow> j < 9223372036854775808 \<Longrightarrow>
    fs_run (rootfs_mkdir R (i_fs_node i) name len perm) w = Some (q, w') \<Longrightarrow> ns_step E R mp w w'"

text \<open>A mount point right after mounting: no inode is in use, none is loaded.\<close>

definition fresh_mount :: "rootfs_env \<Rightarrow> byte \<Rightarrow> addr \<Rightarrow> rootfs vfs_world \<Rightarrow> bool" where
  "fresh_mount R fill mp w \<longleftrightarrow> (\<exists>m. v_mounts w mp = Some m \<and> mp_calls m = rootfs_calls R fill \<and>
     inode_table (mp_inode_cache m) = (\<lambda>_. None) \<and> free_inodes (mp_inode_cache m) = None \<and>
     free_inode_count (mp_inode_cache m) = 0) \<and> rootfs_inv (v_fs w) \<and> rootfs_loaded (v_fs w) = (\<lambda>_. None)"

definition ns_inv :: "rootfs_env \<Rightarrow> byte \<Rightarrow> addr \<Rightarrow> rootfs vfs_world \<Rightarrow> bool" where
  "ns_inv R fill mp w \<longleftrightarrow> (\<exists>m xs. cache_ok rootfs_loaded rootfs_inv w mp m xs \<and> mp_calls m = rootfs_calls R fill)"

lemma fresh_mount_inv: "fresh_mount R fill mp w \<Longrightarrow> ns_inv R fill mp w"
  unfolding fresh_mount_def ns_inv_def
  by (elim conjE exE) (intro exI [of _ "the (v_mounts w mp)"] exI [of _ "[]"], simp add: cache_ok_def)

lemma ns_mkdir_ok:
  assumes R: "rootfs_env_ok R" and ok: "cache_ok rootfs_loaded rootfs_inv w mp m xs"
    and a: "table_of_mount m n = Some a" "v_inodes w a = Some i" and nm: "names name len nm"
    and j: "rootfs_node_table (v_fs w) j = None" "0 \<le> j" "j < 9223372036854775808"
  shows "\<exists>q s. fs_run (rootfs_mkdir R (i_fs_node i) name len perm) w = Some (q, w\<lparr> v_fs := s \<rparr>) \<and>
    cache_ok rootfs_loaded rootfs_inv (w\<lparr> v_fs := s \<rparr>) mp m xs"
proof -
  have "rootfs_loaded (v_fs w) n = Some (i_fs_node i)" using cache_okD(6) [OF ok a(1)] a(2) by auto
  then have "rootfs_node_table (v_fs w) n = Some (i_fs_node i)"
    by (auto simp: rootfs_loaded_def split: option.splits if_splits)
  from mkdir_ok [OF R cache_okD(2) [OF ok] this nm j, of perm]
  obtain q s where s: "rootfs_mkdir R (i_fs_node i) name len perm (v_fs w) = Some (q, s)" "rootfs_inv s"
    "rootfs_loaded s = rootfs_loaded (v_fs w)" by (elim exE conjE)
  have "cache_ok rootfs_loaded rootfs_inv (w\<lparr> v_fs := s \<rparr>) mp m xs"
    using ok s(2,3) unfolding cache_ok_def by (simp add: next_free_def [abs_def])
  then show ?thesis using s(1) by (intro exI [of _ q] exI [of _ s]) (simp add: fs_run_def)
qed

lemma ns_step_inv:
  assumes E: "vfs_env_ok E" and R: "rootfs_env_ok R"
  shows "ns_step E R mp w w' \<Longrightarrow> ns_inv R fill mp w \<Longrightarrow> ns_inv R fill mp w'"
proof (induction rule: ns_step.induct)
  case (ns_get n w r w')
  then show ?case
    using rootfs_driver.step_ok(1) [OF E] unfolding ns_inv_def by blast
next
  case (ns_put w m n a w')
  then obtain m' xs where m': "cache_ok rootfs_loaded rootfs_inv w mp m' xs" "mp_calls m' = rootfs_calls R fill"
    unfolding ns_inv_def by blast
  have "m' = m" using cache_okD(1) [OF m'(1)] ns_put.hyps(1) by simp
  then show ?case
    using rootfs_driver.put_inode_ok [OF m'(1) m'(2)] ns_put.hyps(2,3) unfolding ns_inv_def by fastforce
next
  case (ns_mkdir w m n a i name len nm j perm q w')
  then obtain m' xs where m': "cache_ok rootfs_loaded rootfs_inv w mp m' xs" "mp_calls m' = rootfs_calls R fill"
    unfolding ns_inv_def by blast
  have "m' = m" using cache_okD(1) [OF m'(1)] ns_mkdir.hyps(1) by simp
  then show ?case
    using ns_mkdir_ok [OF R m'(1) _ ns_mkdir.hyps(3-7), of n perm] ns_mkdir.hyps(2,8) m'(2) unfolding ns_inv_def by fastforce
qed

lemma ns_reach_inv:
  "(ns_step E R mp)\<^sup>*\<^sup>* w w' \<Longrightarrow> vfs_env_ok E \<Longrightarrow> rootfs_env_ok R \<Longrightarrow> ns_inv R fill mp w \<Longrightarrow> ns_inv R fill mp w'"
  by (induction rule: rtranclp_induct) (auto intro: ns_step_inv)

text \<open>C7: From a freshly mounted root file system, after any sequence of inode lookups, releases and new directories:
  an inode is loaded in the file system exactly while it has references; looking up any inode number never
  trips an assertion of the cache or of the file system, and adds one reference when it succeeds; releasing an
  inode in use never does either, and takes one reference away.\<close>

theorem inode_cache_safe:
  assumes "vfs_env_ok E" and "rootfs_env_ok R" and "fresh_mount R fill mp w0" and "(ns_step E R mp)\<^sup>*\<^sup>* w0 w"
  shows "(rootfs_loaded (v_fs w) n \<noteq> None \<longleftrightarrow> 0 < refs w mp n) \<and>
    (\<exists>r w'. get_inode E mp n w = Some (r, w') \<and>
       refs w' mp = (if r = None then refs w mp else (refs w mp)(n := refs w mp n + 1))) \<and>
    (\<forall>m a. v_mounts w mp = Some m \<longrightarrow> table_of_mount m n = Some a \<longrightarrow>
       (\<exists>w'. put_inode a w = Some w' \<and> refs w' mp = (refs w mp)(n := refs w mp n - 1)))"
proof -
  obtain m xs where m: "cache_ok rootfs_loaded rootfs_inv w mp m xs" "mp_calls m = rootfs_calls R fill"
    using ns_reach_inv [OF assms(4,1,2) fresh_mount_inv [OF assms(3)]] unfolding ns_inv_def by (elim exE conjE)
  note mp = cache_okD(1) [OF m(1)]
  have "rootfs_loaded (v_fs w) n \<noteq> None \<longleftrightarrow> 0 < refs w mp n"
  proof (cases "table_of_mount m n")
    case None
    then show ?thesis using cache_okD(7) [OF m(1) None] mp by (simp add: refs_def)
  next
    case (Some a)
    then show ?thesis using cache_okD(6) [OF m(1) Some] mp by (auto simp: refs_def)
  qed
  moreover have "\<exists>r w'. get_inode E mp n w = Some (r, w') \<and>
       refs w' mp = (if r = None then refs w mp else (refs w mp)(n := refs w mp n + 1))"
    using rootfs_driver.get_inode_ok [OF assms(1) m, of n] by (auto split: option.splits)
  moreover have "\<exists>w'. put_inode a w = Some w' \<and> refs w' mp = (refs w mp)(n := refs w mp n - 1)"
    if "v_mounts w mp = Some m'" "table_of_mount m' n = Some a" for m' a
    using rootfs_driver.put_inode_ok [OF m, of n a] that mp by auto
  ultimately show ?thesis by blast
qed

definition wit_world :: "rootfs vfs_world" where
  "wit_world = \<lparr> v_inodes = (\<lambda>_. None),
     v_mounts = [5 \<mapsto> \<lparr> mp_inode_cache = \<lparr> inode_table = (\<lambda>_. None), free_inode_count = 0, max_free_inode_count = 2,
       free_inodes = None \<rparr>, mp_calls = rootfs_calls wit_rootfs_env 0, mp_root_inode_number = 0, mp_mount_inode = None,
       mp_flags = 0 \<rparr>], v_files = (\<lambda>_. None), v_contexts = (\<lambda>_. None), v_fs = wit_fs False \<rparr>"

definition wit_vfs_env :: "rootfs vfs_env" where
  "wit_vfs_env = \<lparr> ve_new_inode = (\<lambda>w. if v_inodes w 9 = None then Some 9 else None), ve_new_file = (\<lambda>_. None) \<rparr>"

lemma wit_get: "get_inode wit_vfs_env 5 1 wit_world = Some (Some 9, the (map_option snd (get_inode wit_vfs_env 5 1 wit_world)))"
  by (simp add: get_inode_def wit_world_def alloc_inode_def wit_vfs_env_def upd_inode_def fs_run_def rootfs_calls_def
      rootfs_read_inode_def wit_fs_def wit_node_def upd_node_def set_cache_def Let_def)

theorem inode_cache_safe_witness:
  "\<exists>w. (ns_step wit_vfs_env wit_rootfs_env 5)\<^sup>*\<^sup>* wit_world w \<and> refs w 5 1 = 1 \<and>
    rootfs_loaded (v_fs w) 1 \<noteq> None"
proof -
  let ?w = "the (map_option snd (get_inode wit_vfs_env 5 1 wit_world))"
  have step: "ns_step wit_vfs_env wit_rootfs_env 5 wit_world ?w" by (rule ns_get [OF wit_get])
  have "rootfs_loaded (wit_fs False) k = None" for k
    by (simp add: rootfs_loaded_def wit_fs_def wit_node_def split: option.split)
  then have fresh: "fresh_mount wit_rootfs_env 0 5 wit_world"
    using wit_fs_inv [of False] by (simp add: fresh_mount_def wit_world_def fun_eq_iff)
  have env: "vfs_env_ok wit_vfs_env" by (simp add: vfs_env_ok_def wit_vfs_env_def)
  have "refs ?w 5 = (refs wit_world 5)(1 := refs wit_world 5 1 + 1)"
    using inode_cache_safe [OF env wit_rootfs_env_ok fresh rtranclp.rtrancl_refl, of 1] wit_get by auto
  then have r: "refs ?w 5 1 = 1" by (simp add: refs_def wit_world_def)
  then have "rootfs_loaded (v_fs ?w) 1 \<noteq> None"
    using inode_cache_safe [OF env wit_rootfs_env_ok fresh r_into_rtranclp [of "ns_step wit_vfs_env wit_rootfs_env 5", OF step], of 1] by simp
  then show ?thesis using step r by (intro exI [of _ ?w]) auto
qed

end
