(* ===== verification/Kernel_Ipc.thy ===== *)
theory Kernel_Ipc
  imports Kernel_String Kernel_Ids
begin

text \<open>
  Message ports, \<^verbatim>\<open>source/kernel/src/ipc.c\<close>. A port belongs to a process, is entered in a table by its id and in the
  list of its owner, and holds a queue of messages and a semaphore that counts them. The functions run under the
  mutex of the port table, so each is one step; receiving is cut where the mutex is released to wait for the
  semaphore. Names of ports are in a table of their own.

  The semaphores appear as counters, which is what the operations on semaphores implement (property
  \<open>semaphore_units\<close> of the lock theories): \<^verbatim>\<open>semaphore_timedlock\<close> with the timeout 0 takes a unit or fails at once.
  A result \<open>None\<close> is an \<^verbatim>\<open>ASSERT\<close> that fails, the use of a freed object or a write outside an object.
\<close>

section \<open>Data\<close>

record ipc_message_t =
  msg_code :: u32
  msg_size :: nat
  msg_data :: "byte list"
  msg_next :: vptr

record ipc_port_t =
  owner_id :: int
  proc_next :: vptr
  port_id :: int
  queue_semaphore :: int
  message_queue :: vptr
  message_queue_tail :: vptr

record ipc_world =
  ip_ports :: "addr \<rightharpoonup> ipc_port_t"
  ip_messages :: "addr \<rightharpoonup> ipc_message_t"
  ipc_port_table :: "int \<rightharpoonup> addr"
  ipc_port_id_counter :: int
  ipc_port_list :: "int \<Rightarrow> vptr"
  named_ipc_port_table :: "byte list \<rightharpoonup> int"
  ip_sems :: "int \<rightharpoonup> int"

text \<open>The heap (a port; a message block of \<open>n\<close> bytes, with the bytes behind its header; a named port) and the creation of
  a semaphore.\<close>

record ipc_env =
  ie_port :: "ipc_world \<Rightarrow> vptr"
  ie_message :: "ipc_world \<Rightarrow> nat \<Rightarrow> (addr \<times> byte list) option"
  ie_named :: "nat \<Rightarrow> bool"
  ie_sem :: "ipc_world \<Rightarrow> errno + int"

definition sizeof_message :: nat where
  "sizeof_message = 12"

definition upd_port :: "addr \<Rightarrow> (ipc_port_t \<Rightarrow> ipc_port_t) \<Rightarrow> ipc_world \<Rightarrow> ipc_world option" where
  "upd_port a f w = do {
     p \<leftarrow> ip_ports w a;
     Some (w\<lparr> ip_ports := (ip_ports w)(a \<mapsto> f p) \<rparr>) }"

definition upd_message :: "addr \<Rightarrow> (ipc_message_t \<Rightarrow> ipc_message_t) \<Rightarrow> ipc_world \<Rightarrow> ipc_world option" where
  "upd_message a f w = do {
     m \<leftarrow> ip_messages w a;
     Some (w\<lparr> ip_messages := (ip_messages w)(a \<mapsto> f m) \<rparr>) }"

text \<open>Semaphores as counters: adding a unit, and taking one without waiting. On an id that is no semaphore both fail.\<close>

definition sem_up :: "int \<Rightarrow> ipc_world \<Rightarrow> ipc_world" where
  "sem_up i w = w\<lparr> ip_sems := (ip_sems w)(i := map_option (\<lambda>c. c + 1) (ip_sems w i)) \<rparr>"

definition sem_try :: "int \<Rightarrow> ipc_world \<Rightarrow> (errno + unit) \<times> ipc_world" where
  "sem_try i w = (case ip_sems w i of
       None \<Rightarrow> (Inl EINVAL, w)
     | Some c \<Rightarrow> if c < 1 then (Inl ETIME, w) else (Inr (), w\<lparr> ip_sems := (ip_sems w)(i \<mapsto> c - 1) \<rparr>))"

section \<open>Ports\<close>

definition ipc_port_insert :: "int \<Rightarrow> addr \<Rightarrow> ipc_world \<Rightarrow> (int \<times> ipc_world) option" where
  "ipc_port_insert pid port w = do {
     (i, counter) \<leftarrow> fresh_id (ipc_port_table w) (ipc_port_id_counter w);
     w \<leftarrow> upd_port port (\<lambda>p. p\<lparr> owner_id := pid, port_id := i \<rparr>) w;
     Some (i, w\<lparr> ipc_port_id_counter := counter, ipc_port_table := (ipc_port_table w)(i \<mapsto> port) \<rparr>) }"

definition ipc_port_remove :: "int \<Rightarrow> int \<Rightarrow> ipc_world \<Rightarrow> ((errno + addr) \<times> ipc_world) option" where
  "ipc_port_remove pid i w = (case ipc_port_table w i of
       None \<Rightarrow> Some (Inl EINVAL, w)
     | Some port \<Rightarrow> do {
         p \<leftarrow> ip_ports w port;
         if owner_id p \<noteq> pid then Some (Inl EPERM, w)
         else Some (Inr port, w\<lparr> ipc_port_table := (ipc_port_table w)(i := None) \<rparr>) })"

definition sys_create_ipc_port :: "ipc_env \<Rightarrow> int \<Rightarrow> ipc_world \<Rightarrow> ((errno + int) \<times> ipc_world) option" where
  "sys_create_ipc_port E pid w = (case ie_port E w of
       None \<Rightarrow> Some (Inl ENOMEM, w)
     | Some port \<Rightarrow> (case ie_sem E w of
           Inl e \<Rightarrow> Some (Inl e, w)
         | Inr sem \<Rightarrow> do {
             let w = w\<lparr> ip_sems := (ip_sems w)(sem \<mapsto> 0), ip_ports := (ip_ports w)(port \<mapsto> \<lparr> owner_id = 0,
                   proc_next = None, port_id = 0, queue_semaphore = sem, message_queue = None, message_queue_tail = None \<rparr>) \<rparr>;
             (i, w) \<leftarrow> ipc_port_insert pid port w;
             w \<leftarrow> upd_port port (\<lambda>p. p\<lparr> proc_next := ipc_port_list w pid \<rparr>) w;
             Some (Inr i, w\<lparr> ipc_port_list := (ipc_port_list w)(pid := Some port) \<rparr>) }))"

text \<open>Freeing the queue, then the semaphore and the port.\<close>

partial_function (option) free_messages :: "vptr \<Rightarrow> ipc_world \<Rightarrow> ipc_world option" where
  "free_messages q w =
     (if q = None then Some w
      else do {
        a \<leftarrow> q;
        m \<leftarrow> ip_messages w a;
        free_messages (msg_next m) (w\<lparr> ip_messages := (ip_messages w)(a := None) \<rparr>) })"

definition do_destroy_ipc_port :: "addr \<Rightarrow> ipc_world \<Rightarrow> ipc_world option" where
  "do_destroy_ipc_port port w = do {
     p \<leftarrow> ip_ports w port;
     w \<leftarrow> free_messages (message_queue p) w;
     Some (w\<lparr> ip_sems := (ip_sems w)(queue_semaphore p := None), ip_ports := (ip_ports w)(port := None) \<rparr>) }"

partial_function (option) destroy_ports_loop :: "vptr \<Rightarrow> ipc_world \<Rightarrow> ipc_world option" where
  "destroy_ports_loop current w =
     (if current = None then Some w
      else do {
        a \<leftarrow> current;
        p \<leftarrow> ip_ports w a;
        w \<leftarrow> do_destroy_ipc_port a (w\<lparr> ipc_port_table := (ipc_port_table w)(port_id p := None) \<rparr>);
        destroy_ports_loop (proc_next p) w })"

definition ipc_destroy_process_ports :: "int \<Rightarrow> ipc_world \<Rightarrow> ipc_world option" where
  "ipc_destroy_process_ports pid w = destroy_ports_loop (ipc_port_list w pid) w"

text \<open>Taking a port out of the list of its owner.\<close>

partial_function (option) proc_unlink_loop :: "int \<Rightarrow> addr \<Rightarrow> vptr \<Rightarrow> vptr \<Rightarrow> ipc_world \<Rightarrow> ipc_world option" where
  "proc_unlink_loop pid port prev current w =
     (if current = None then Some w
      else do {
        c \<leftarrow> current;
        p \<leftarrow> ip_ports w c;
        if c = port then
          (if prev = None then Some (w\<lparr> ipc_port_list := (ipc_port_list w)(pid := proc_next p) \<rparr>)
           else do { q \<leftarrow> prev; upd_port q (\<lambda>x. x\<lparr> proc_next := proc_next p \<rparr>) w })
        else proc_unlink_loop pid port (Some c) (proc_next p) w })"

text \<open>The system call reports success in every case.\<close>

definition sys_destroy_ipc_port :: "int \<Rightarrow> int \<Rightarrow> ipc_world \<Rightarrow> ((errno + unit) \<times> ipc_world) option" where
  "sys_destroy_ipc_port pid i w = do {
     (r, w) \<leftarrow> ipc_port_remove pid i w;
     case r of
       Inl e \<Rightarrow> Some (Inr (), w)
     | Inr port \<Rightarrow> do {
         w \<leftarrow> proc_unlink_loop pid port None (ipc_port_list w pid) w;
         w \<leftarrow> do_destroy_ipc_port port w;
         Some (Inr (), w) } }"

section \<open>Messages\<close>

text \<open>The size of the message is added to the size of its header in 32 bits.\<close>

definition sys_send_ipc_message ::
    "ipc_env \<Rightarrow> int \<Rightarrow> u32 \<Rightarrow> byte list \<Rightarrow> nat \<Rightarrow> ipc_world \<Rightarrow> ((errno + unit) \<times> ipc_world) option" where
  "sys_send_ipc_message E i code data len w = (case ipc_port_table w i of
       None \<Rightarrow> Some (Inl EINVAL, w)
     | Some port \<Rightarrow> (case ie_message E w (u32_of (sizeof_message + len)) of
           None \<Rightarrow> Some (Inl ENOMEM, w)
         | Some (a, room) \<Rightarrow> do {
             room \<leftarrow> (if 0 < len then memcpy room data len else Some room);
             let w = w\<lparr> ip_messages := (ip_messages w)(a \<mapsto> \<lparr> msg_code = code, msg_size = len, msg_data = room, msg_next = None \<rparr>) \<rparr>;
             p \<leftarrow> ip_ports w port;
             w \<leftarrow> (if message_queue p = None then
                   (if message_queue_tail p \<noteq> None then None
                    else upd_port port (\<lambda>p. p\<lparr> message_queue := Some a, message_queue_tail := Some a \<rparr>) w)
                 else do {
                   t \<leftarrow> message_queue_tail p;
                   w \<leftarrow> upd_message t (\<lambda>m. m\<lparr> msg_next := Some a \<rparr>) w;
                   upd_port port (\<lambda>p. p\<lparr> message_queue_tail := Some a \<rparr>) w });
             Some (Inr (), sem_up (queue_semaphore p) w) }))"

text \<open>The end of a receive, when the mutex is held: the first message is taken when it fits. The result is the code
  and the bytes copied to the buffer of \<open>len\<close> bytes.\<close>

definition recv_message :: "addr \<Rightarrow> nat \<Rightarrow> ipc_world \<Rightarrow> ((errno + u32 \<times> byte list) \<times> ipc_world) option" where
  "recv_message port len w = do {
     p \<leftarrow> ip_ports w port;
     case message_queue p of
       None \<Rightarrow> Some (Inl ENOENT, w)
     | Some a \<Rightarrow> do {
         m \<leftarrow> ip_messages w a;
         if len < msg_size m then Some (Inl E2BIG, w)
         else do {
           w \<leftarrow> upd_port port (\<lambda>p. p\<lparr> message_queue := msg_next m,
                 message_queue_tail := (if msg_next m = None then None else message_queue_tail p) \<rparr>) w;
           Some (Inr (msg_code m, take (msg_size m) (msg_data m)), w\<lparr> ip_messages := (ip_messages w)(a := None) \<rparr>) } } }"

text \<open>A receive returns, or waits for the semaphore of a port, whose address it keeps.\<close>

datatype 'a ipc_outcome = Ipc_return 'a | Ipc_wait addr

definition sys_recv_ipc_message_start ::
    "int \<Rightarrow> nat \<Rightarrow> ipc_world \<Rightarrow> ((errno + u32 \<times> byte list) ipc_outcome \<times> ipc_world) option" where
  "sys_recv_ipc_message_start i len w = (case ipc_port_table w i of
       None \<Rightarrow> Some (Ipc_return (Inl EINVAL), w)
     | Some port \<Rightarrow> do {
         p \<leftarrow> ip_ports w port;
         if message_queue p = None then Some (Ipc_wait port, w)
         else do {
           let (r, w) = sem_try (queue_semaphore p) w;
           (r, w) \<leftarrow> recv_message port len w;
           Some (Ipc_return r, w) } })"

text \<open>The mutex is free here: the id of the semaphore is read from a port that may be gone.\<close>

definition ipc_wait_semaphore :: "addr \<Rightarrow> ipc_world \<Rightarrow> int option" where
  "ipc_wait_semaphore port w = map_option queue_semaphore (ip_ports w port)"

definition sys_recv_ipc_message_resume ::
    "int \<Rightarrow> nat \<Rightarrow> errno + unit \<Rightarrow> ipc_world \<Rightarrow> ((errno + u32 \<times> byte list) \<times> ipc_world) option" where
  "sys_recv_ipc_message_resume i len granted w = (case granted of
       Inl e \<Rightarrow> Some (Inl e, w)
     | Inr _ \<Rightarrow> (case ipc_port_table w i of
           None \<Rightarrow> Some (Inl EINVAL, w)
         | Some port \<Rightarrow> recv_message port len w))"

definition peek_message :: "addr \<Rightarrow> ipc_world \<Rightarrow> ((errno + u32 \<times> nat) \<times> ipc_world) option" where
  "peek_message port w = do {
     p \<leftarrow> ip_ports w port;
     case message_queue p of
       None \<Rightarrow> Some (Inl ENOENT, w)
     | Some a \<Rightarrow> do {
         m \<leftarrow> ip_messages w a;
         Some (Inr (msg_code m, msg_size m), sem_up (queue_semaphore p) w) } }"

definition sys_peek_ipc_message_start ::
    "int \<Rightarrow> ipc_world \<Rightarrow> ((errno + u32 \<times> nat) ipc_outcome \<times> ipc_world) option" where
  "sys_peek_ipc_message_start i w = (case ipc_port_table w i of
       None \<Rightarrow> Some (Ipc_return (Inl EINVAL), w)
     | Some port \<Rightarrow> do {
         p \<leftarrow> ip_ports w port;
         if message_queue p = None then Some (Ipc_wait port, w)
         else do {
           let (r, w) = sem_try (queue_semaphore p) w;
           (r, w) \<leftarrow> peek_message port w;
           Some (Ipc_return r, w) } })"

definition sys_peek_ipc_message_resume ::
    "int \<Rightarrow> errno + unit \<Rightarrow> ipc_world \<Rightarrow> ((errno + u32 \<times> nat) \<times> ipc_world) option" where
  "sys_peek_ipc_message_resume i granted w = (case granted of
       Inl e \<Rightarrow> Some (Inl e, w)
     | Inr _ \<Rightarrow> (case ipc_port_table w i of
           None \<Rightarrow> Some (Inl EINVAL, w)
         | Some port \<Rightarrow> peek_message port w))"

section \<open>Names\<close>

text \<open>The table is keyed by the characters of the name.\<close>

definition sys_register_named_ipc_port ::
    "ipc_env \<Rightarrow> byte list \<Rightarrow> int \<Rightarrow> ipc_world \<Rightarrow> ((errno + unit) \<times> ipc_world) option" where
  "sys_register_named_ipc_port E name i w = do {
     len \<leftarrow> strlen name;
     if named_ipc_port_table w (take len name) \<noteq> None then Some (Inl EEXIST, w)
     else if \<not> ie_named E (len + 1) then Some (Inl ENOMEM, w)
     else Some (Inr (), w\<lparr> named_ipc_port_table := (named_ipc_port_table w)(take len name \<mapsto> i) \<rparr>) }"

definition sys_get_named_ipc_port :: "byte list \<Rightarrow> ipc_world \<Rightarrow> (errno + int) option" where
  "sys_get_named_ipc_port name w = do {
     len \<leftarrow> strlen name;
     Some (case named_ipc_port_table w (take len name) of None \<Rightarrow> Inl ENOENT | Some i \<Rightarrow> Inr i) }"

end
