(* ===== verification/Kernel_Ipc_Safety.thy ===== *)
theory Kernel_Ipc_Safety
  imports Kernel_Ipc
begin

text \<open>
  Message ports as queues: a port holds the list of messages that were sent and not yet received. Sending
  appends, receiving takes the first; no message is lost, duplicated or moved to another port, and the exit of a
  process removes its ports with everything they hold, and nothing else.
\<close>

section \<open>State\<close>

definition mnext :: "ipc_world \<Rightarrow> addr \<Rightarrow> vptr" where
  "mnext w a = Option.bind (ip_messages w a) msg_next"

definition pnext :: "ipc_world \<Rightarrow> addr \<Rightarrow> vptr" where
  "pnext w a = Option.bind (ip_ports w a) proc_next"

definition queue_ok :: "(addr \<rightharpoonup> ipc_message_t) \<Rightarrow> ipc_port_t \<Rightarrow> addr list \<Rightarrow> bool" where
  "queue_ok M p xs \<longleftrightarrow> chain (\<lambda>a. Option.bind (M a) msg_next) (message_queue p) xs \<and>
     message_queue_tail p = (if xs = [] then None else Some (last xs)) \<and>
     (\<forall>x \<in> set xs. \<exists>m. M x = Some m \<and> msg_size m \<le> length (msg_data m))"

text \<open>The ports: \<open>q a\<close> are the messages of the port \<open>a\<close>.\<close>

definition ports_ok :: "ipc_world \<Rightarrow> (addr \<Rightarrow> addr list) \<Rightarrow> bool" where
  "ports_ok w q \<longleftrightarrow> (\<forall>i a. ipc_port_table w i = Some a \<longrightarrow> (\<exists>p. ip_ports w a = Some p \<and> port_id p = i \<and>
       ip_sems w (queue_semaphore p) \<noteq> None \<and> queue_ok (ip_messages w) p (q a))) \<and>
     (\<forall>i j a b p r. ipc_port_table w i = Some a \<longrightarrow> ipc_port_table w j = Some b \<longrightarrow> ip_ports w a = Some p \<longrightarrow>
       ip_ports w b = Some r \<longrightarrow> a \<noteq> b \<longrightarrow> set (q a) \<inter> set (q b) = {} \<and> queue_semaphore p \<noteq> queue_semaphore r)"

text \<open>The lists of the processes: \<open>L pid\<close> are the ports of the process \<open>pid\<close>.\<close>

definition lists_ok :: "ipc_world \<Rightarrow> (int \<Rightarrow> addr list) \<Rightarrow> bool" where
  "lists_ok w L \<longleftrightarrow> (\<forall>pid. chain (pnext w) (ipc_port_list w pid) (L pid) \<and>
       (\<forall>a \<in> set (L pid). \<exists>p i. ip_ports w a = Some p \<and> owner_id p = pid \<and> ipc_port_table w i = Some a)) \<and>
     (\<forall>i a p. ipc_port_table w i = Some a \<longrightarrow> ip_ports w a = Some p \<longrightarrow> a \<in> set (L (owner_id p)))"

definition ipc_inv :: "ipc_world \<Rightarrow> bool" where
  "ipc_inv w \<longleftrightarrow> 0 \<le> ipc_port_id_counter w \<and> ipc_port_id_counter w < 2147483648 \<and> (\<exists>q. ports_ok w q) \<and> (\<exists>L. lists_ok w L)"

definition ipc_env_ok :: "ipc_env \<Rightarrow> bool" where
  "ipc_env_ok E \<longleftrightarrow> (\<forall>w a. ie_port E w = Some a \<longrightarrow> ip_ports w a = None) \<and>
     (\<forall>w n a room. ie_message E w n = Some (a, room) \<longrightarrow> ip_messages w a = None \<and> length room = n - sizeof_message) \<and>
     (\<forall>w s. ie_sem E w = Inr s \<longrightarrow> ip_sems w s = None)"

text \<open>The abstract view: the messages that the port with an id holds, oldest first.\<close>

definition msg_at :: "ipc_world \<Rightarrow> addr \<Rightarrow> u32 \<times> byte list" where
  "msg_at w a = (case ip_messages w a of None \<Rightarrow> (0, []) | Some m \<Rightarrow> (msg_code m, take (msg_size m) (msg_data m)))"

definition holds :: "ipc_world \<Rightarrow> int \<Rightarrow> (u32 \<times> byte list) list \<Rightarrow> bool" where
  "holds w i ms \<longleftrightarrow> (\<exists>a p xs. ipc_port_table w i = Some a \<and> ip_ports w a = Some p \<and>
     queue_ok (ip_messages w) p xs \<and> ms = map (msg_at w) xs)"

lemma ports_okD:
  assumes "ports_ok w q" and "ipc_port_table w i = Some a"
  shows "\<exists>p. ip_ports w a = Some p \<and> port_id p = i \<and> ip_sems w (queue_semaphore p) \<noteq> None \<and> queue_ok (ip_messages w) p (q a)"
  using assms by (simp add: ports_ok_def)

lemma ports_ok_apart:
  assumes "ports_ok w q" and "ipc_port_table w i = Some a" and "ipc_port_table w j = Some b" and "a \<noteq> b"
    and "ip_ports w a = Some p" and "ip_ports w b = Some r"
  shows "set (q a) \<inter> set (q b) = {}" and "queue_semaphore p \<noteq> queue_semaphore r"
  using assms unfolding ports_ok_def by blast+

lemma queue_ok_unique: "queue_ok M p xs \<Longrightarrow> queue_ok M p ys \<Longrightarrow> xs = ys"
  by (auto simp: queue_ok_def intro: chain_unique)

lemma msg_queue_ok_cong:
  assumes "queue_ok M p xs" and "\<And>x. x \<in> set xs \<Longrightarrow> M' x = M x"
    and "message_queue p' = message_queue p" and "message_queue_tail p' = message_queue_tail p"
  shows "queue_ok M' p' xs"
proof -
  have "chain (\<lambda>a. Option.bind (M' a) msg_next) c xs = chain (\<lambda>a. Option.bind (M a) msg_next) c xs" for c
    by (rule chain_cong) (use assms(2) in simp)
  then show ?thesis using assms unfolding queue_ok_def by auto
qed

lemma holds_iff:
  assumes "ports_ok w q" and "ipc_port_table w i = Some a"
  shows "holds w i ms \<longleftrightarrow> ms = map (msg_at w) (q a)"
  using ports_okD [OF assms] assms(2) unfolding holds_def by (auto dest: queue_ok_unique)

text \<open>A change to the queue of one port.\<close>

lemma port_queue_change:
  assumes ok: "ports_ok w q" and i: "ipc_port_table w i = Some a" and p: "ip_ports w a = Some p"
    and w': "ipc_port_table w' = ipc_port_table w" "ip_ports w' = (ip_ports w)(a \<mapsto> p')"
    and p': "port_id p' = port_id p" "queue_semaphore p' = queue_semaphore p"
    and sems: "dom (ip_sems w) \<subseteq> dom (ip_sems w')"
    and M: "\<And>j b x. ipc_port_table w j = Some b \<Longrightarrow> b \<noteq> a \<Longrightarrow> x \<in> set (q b) \<Longrightarrow> x \<notin> set xs \<and> ip_messages w' x = ip_messages w x"
    and new: "queue_ok (ip_messages w') p' xs"
  shows "ports_ok w' (q(a := xs))" and "j \<noteq> i \<Longrightarrow> holds w j ms \<Longrightarrow> holds w' j ms"
proof -
  have other: "\<exists>r. ip_ports w b = Some r \<and> ip_ports w' b = Some r \<and> port_id r = j \<and> ip_sems w' (queue_semaphore r) \<noteq> None \<and>
      queue_ok (ip_messages w') r (q b)" if b: "ipc_port_table w j = Some b" "b \<noteq> a" for j b
  proof -
    obtain r where r: "ip_ports w b = Some r" "port_id r = j" "ip_sems w (queue_semaphore r) \<noteq> None"
      "queue_ok (ip_messages w) r (q b)" using ports_okD [OF ok b(1)] by blast
    have "queue_ok (ip_messages w') r (q b)" by (rule msg_queue_ok_cong [OF r(4)]) (use M [OF b] in auto)
    then show ?thesis using r w'(2) b(2) sems by auto
  qed
  have own: "j = i" if "ipc_port_table w j = Some a" for j
    using ports_okD [OF ok that] ports_okD [OF ok i] by auto
  have self: "port_id p' = i \<and> ip_sems w' (queue_semaphore p') \<noteq> None"
    using ports_okD [OF ok i] p p' sems by auto
  show "ports_ok w' (q(a := xs))"
    unfolding ports_ok_def w'(1)
  proof (intro conjI allI impI)
    fix j b assume b: "ipc_port_table w j = Some b"
    show "\<exists>p. ip_ports w' b = Some p \<and> port_id p = j \<and> ip_sems w' (queue_semaphore p) \<noteq> None \<and> queue_ok (ip_messages w') p ((q(a := xs)) b)"
    proof (cases "b = a")
      case True
      then show ?thesis using self new w'(2) own b by simp
    next
      case False
      then show ?thesis using other [OF b False] by auto
    qed
  next
    fix j k b c r s
    assume bc: "ipc_port_table w j = Some b" "ipc_port_table w k = Some c" "ip_ports w' b = Some r" "ip_ports w' c = Some s" "b \<noteq> c"
    obtain r0 s0 where rs: "ip_ports w b = Some r0" "ip_ports w c = Some s0" "queue_semaphore r = queue_semaphore r0"
      "queue_semaphore s = queue_semaphore s0"
      using bc(3,4) w'(2) p p'(2) by (auto split: if_splits)
    note apart = ports_ok_apart [OF ok bc(1,2,5) rs(1,2)]
    show "queue_semaphore r \<noteq> queue_semaphore s" using apart(2) rs by simp
    show "set ((q(a := xs)) b) \<inter> set ((q(a := xs)) c) = {}"
      using apart(1) M [OF bc(1)] M [OF bc(2)] bc(5) by (cases "b = a"; cases "c = a") (simp_all add: disjoint_iff, blast+)
  qed
  show "holds w' j ms" if ne: "j \<noteq> i" and h: "holds w j ms"
  proof -
    obtain b where b: "ipc_port_table w j = Some b" using h by (auto simp: holds_def)
    have ba: "b \<noteq> a" using own ne b by auto
    have "ms = map (msg_at w) (q b)" using holds_iff [OF ok b] h by simp
    also have "\<dots> = map (msg_at w') (q b)" using M [OF b ba] by (auto simp: msg_at_def)
    finally show ?thesis using other [OF b ba] b w'(1) unfolding holds_def by auto
  qed
qed

lemma lists_ok_keep:
  assumes ok: "lists_ok w L" and p: "ip_ports w a = Some p"
    and w': "ipc_port_table w' = ipc_port_table w" "ip_ports w' = (ip_ports w)(a \<mapsto> p')" "ipc_port_list w' = ipc_port_list w"
    and p': "owner_id p' = owner_id p" "proc_next p' = proc_next p"
  shows "lists_ok w' L"
proof -
  have nx: "pnext w' x = pnext w x" for x using p w'(2) p'(2) by (simp add: pnext_def)
  have "chain (pnext w') c xs = chain (pnext w) c xs" for c xs by (rule chain_cong) (rule nx)
  moreover have "(\<exists>r j. ip_ports w' x = Some r \<and> owner_id r = k \<and> ipc_port_table w j = Some x) \<longleftrightarrow>
      (\<exists>r j. ip_ports w x = Some r \<and> owner_id r = k \<and> ipc_port_table w j = Some x)" for x k
    using p w'(2) p'(1) by auto
  moreover have "(\<forall>r. ip_ports w' x = Some r \<longrightarrow> x \<in> set (L (owner_id r))) \<longleftrightarrow> (\<forall>r. ip_ports w x = Some r \<longrightarrow> x \<in> set (L (owner_id r)))" for x
    using p w'(2) p'(1) by auto
  ultimately show ?thesis using ok unfolding lists_ok_def w'(1,3) by simp
qed

section \<open>Sending\<close>

lemma queue_ok_append:
  assumes q: "queue_ok M p xs" and a: "a \<notin> set xs" and m: "msg_size m \<le> length (msg_data m)" "msg_next m = None"
    and xs: "xs \<noteq> []" and t: "M (last xs) = Some t"
    and p': "message_queue p' = message_queue p" "message_queue_tail p' = Some a"
  shows "queue_ok (M(a \<mapsto> m, last xs \<mapsto> t\<lparr> msg_next := Some a \<rparr>)) p' (xs @ [a])"
proof -
  let ?M = "M(a \<mapsto> m, last xs \<mapsto> t\<lparr> msg_next := Some a \<rparr>)"
  obtain ys y where ys: "xs = ys @ [y]" using xs by (cases xs rule: rev_cases) auto
  have dis: "distinct xs" using q chain_distinct by (auto simp: queue_ok_def)
  have old: "chain (\<lambda>x. Option.bind (M x) msg_next) (message_queue p) (ys @ [y])" using q ys by (simp add: queue_ok_def)
  have "chain (\<lambda>x. Option.bind (?M x) msg_next) c (zs @ [y, a])" if "chain (\<lambda>x. Option.bind (M x) msg_next) c (zs @ [y])"
      "y \<notin> set zs" "a \<notin> set zs" for c zs
    using that a m(2) ys by (induction zs arbitrary: c) auto
  then have "chain (\<lambda>x. Option.bind (?M x) msg_next) (message_queue p) (ys @ [y, a])" using old dis ys a by auto
  moreover have "\<exists>m'. ?M x = Some m' \<and> msg_size m' \<le> length (msg_data m')" if "x \<in> set (xs @ [a])" for x
  proof -
    have sz: "\<exists>m'. M x = Some m' \<and> msg_size m' \<le> length (msg_data m')" if "x \<in> set xs" for x
      using q that by (simp add: queue_ok_def)
    have "msg_size t \<le> length (msg_data t)" using sz [OF last_in_set [OF xs]] t by simp
    then show ?thesis using sz [of x] that m(1) by auto
  qed
  ultimately show ?thesis using p' ys unfolding queue_ok_def by simp
qed

lemma send_ok:
  assumes E: "ipc_env_ok E" and ok: "ports_ok w q" and L: "lists_ok w L" and i: "ipc_port_table w i = Some a"
    and new: "ie_message E w (u32_of (sizeof_message + len)) = Some (x, room)"
    and len: "len \<le> length data" "sizeof_message + len < 4294967296"
  shows "\<exists>w'. sys_send_ipc_message E i code data len w = Some (Inr (), w') \<and> ports_ok w' (q(a := q a @ [x])) \<and> lists_ok w' L \<and>
    ipc_port_table w' = ipc_port_table w \<and> ipc_port_id_counter w' = ipc_port_id_counter w \<and>
    holds w' i (map (msg_at w) (q a) @ [(code, take len data)]) \<and> (\<forall>j ms. j \<noteq> i \<longrightarrow> holds w j ms \<longrightarrow> holds w' j ms)"
proof -
  have fresh: "ip_messages w x = None" and room: "length room = len" using E new len(2) by (auto simp: ipc_env_ok_def)
  obtain p where p: "ip_ports w a = Some p" "port_id p = i" "ip_sems w (queue_semaphore p) \<noteq> None" "queue_ok (ip_messages w) p (q a)"
    using ports_okD [OF ok i] by blast
  let ?m = "\<lparr> msg_code = code, msg_size = len, msg_data = take len data, msg_next = None \<rparr>"
  have copy: "(if 0 < len then memcpy room data len else Some room) = Some (take len data)"
    using memcpy_eq [of len room data] room len(1) by auto
  have x: "x \<notin> set (q b)" if "ipc_port_table w j = Some b" for j b
    using ports_okD [OF ok that] fresh by (auto simp: queue_ok_def)
  obtain p' M where run: "sys_send_ipc_message E i code data len w =
      Some (Inr (), sem_up (queue_semaphore p) (w\<lparr> ip_messages := M, ip_ports := (ip_ports w)(a \<mapsto> p') \<rparr>))"
    and p': "port_id p' = port_id p" "queue_semaphore p' = queue_semaphore p" "owner_id p' = owner_id p" "proc_next p' = proc_next p"
    and q: "queue_ok M p' (q a @ [x])" and M: "M x = Some ?m" "\<And>y. y \<noteq> x \<Longrightarrow> map_option (\<lambda>m. (msg_code m, msg_size m, msg_data m)) (M y) = map_option (\<lambda>m. (msg_code m, msg_size m, msg_data m)) (ip_messages w y)"
      "\<And>y. y \<noteq> x \<Longrightarrow> y \<notin> set (q a) \<Longrightarrow> M y = ip_messages w y"
  proof (cases "q a = []")
    case True
    let ?p = "p\<lparr> message_queue := Some x, message_queue_tail := Some x \<rparr>" and ?M = "(ip_messages w)(x \<mapsto> ?m)"
    have "message_queue p = None" "message_queue_tail p = None" using p(4) True by (auto simp: queue_ok_def)
    then have "sys_send_ipc_message E i code data len w =
        Some (Inr (), sem_up (queue_semaphore p) (w\<lparr> ip_messages := ?M, ip_ports := (ip_ports w)(a \<mapsto> ?p) \<rparr>))"
      using i new p(1) copy by (simp add: sys_send_ipc_message_def upd_port_def Let_def)
    moreover have "queue_ok ?M ?p (q a @ [x])" using True len(1) by (simp add: queue_ok_def)
    ultimately show ?thesis by (intro that [of ?p ?M]) auto
  next
    case False
    then obtain t where t: "ip_messages w (last (q a)) = Some t"
      using p(4) last_in_set [of "q a"] unfolding queue_ok_def by blast
    let ?p = "p\<lparr> message_queue_tail := Some x \<rparr>" and ?M = "(ip_messages w)(x \<mapsto> ?m, last (q a) \<mapsto> t\<lparr> msg_next := Some x \<rparr>)"
    have xl: "last (q a) \<noteq> x" using x [OF i] last_in_set [OF False] by auto
    have "message_queue p \<noteq> None" "message_queue_tail p = Some (last (q a))" using p(4) False
      by (cases "q a"; auto simp: queue_ok_def)+
    then have "sys_send_ipc_message E i code data len w =
        Some (Inr (), sem_up (queue_semaphore p) (w\<lparr> ip_messages := ?M, ip_ports := (ip_ports w)(a \<mapsto> ?p) \<rparr>))"
      using i new p(1) copy t xl by (simp add: sys_send_ipc_message_def upd_port_def upd_message_def Let_def)
    moreover have "queue_ok ?M ?p (q a @ [x])"
      by (rule queue_ok_append [OF p(4) x [OF i] _ _ False t]) (use len(1) in simp_all)
    moreover have "last (q a) \<in> set (q a)" using False by simp
    ultimately show ?thesis using xl t by (intro that [of ?p ?M]) auto
  qed
  let ?w = "sem_up (queue_semaphore p) (w\<lparr> ip_messages := M, ip_ports := (ip_ports w)(a \<mapsto> p') \<rparr>)"
  have w': "ipc_port_table ?w = ipc_port_table w" "ip_ports ?w = (ip_ports w)(a \<mapsto> p')" "ip_messages ?w = M"
    "ipc_port_list ?w = ipc_port_list w" "ipc_port_id_counter ?w = ipc_port_id_counter w"
    by (simp_all add: sem_up_def)
  have sems: "dom (ip_sems w) \<subseteq> dom (ip_sems ?w)" by (auto simp: sem_up_def)
  have keep: "y \<notin> set (q a @ [x]) \<and> ip_messages ?w y = ip_messages w y"
    if b: "ipc_port_table w j = Some b" "b \<noteq> a" "y \<in> set (q b)" for j b y
  proof -
    obtain r where r: "ip_ports w b = Some r" using ports_okD [OF ok b(1)] by blast
    have "y \<notin> set (q a)" using ports_ok_apart(1) [OF ok b(1) i b(2) r p(1)] b(3) by auto
    moreover have "y \<noteq> x" using x [OF b(1)] b(3) by auto
    ultimately show ?thesis using M(3) w'(3) by simp
  qed
  have q': "queue_ok (ip_messages ?w) p' (q a @ [x])" using q w'(3) by simp
  have ports: "ports_ok ?w (q(a := q a @ [x]))"
    by (rule port_queue_change(1) [OF ok i p(1) w'(1,2) p'(1,2) sems keep q'])
  have others: "holds ?w j ms" if "j \<noteq> i" "holds w j ms" for j ms
    by (rule port_queue_change(2) [OF ok i p(1) w'(1,2) p'(1,2) sems keep q' that])
  have "msg_at ?w y = msg_at w y" if "y \<in> set (q a)" for y
  proof -
    have "y \<noteq> x" using x [OF i] that by auto
    then show ?thesis using M(2) [of y] w'(3) by (auto simp: msg_at_def split: option.splits)
  qed
  then have "map (msg_at ?w) (q a @ [x]) = map (msg_at w) (q a) @ [(code, take len data)]"
    using M(1) w'(3) by (auto simp: msg_at_def)
  then have "holds ?w i (map (msg_at w) (q a) @ [(code, take len data)])"
    using holds_iff [OF ports, of i a] i w'(1) by simp
  then show ?thesis using run ports others lists_ok_keep [OF L p(1) w'(1,2,4) p'(3,4)] w'(1,5) by blast
qed

section \<open>Receiving\<close>

lemma sem_try_keeps:
  "ports_ok (snd (sem_try i w)) q = ports_ok w q" "lists_ok (snd (sem_try i w)) L = lists_ok w L"
  "holds (snd (sem_try i w)) j ms = holds w j ms" "msg_at (snd (sem_try i w)) = msg_at w"
  "ipc_port_table (snd (sem_try i w)) = ipc_port_table w" "ip_ports (snd (sem_try i w)) = ip_ports w"
  "ip_messages (snd (sem_try i w)) = ip_messages w" "ipc_port_id_counter (snd (sem_try i w)) = ipc_port_id_counter w"
proof -
  have s: "ip_sems (snd (sem_try i w)) k = None \<longleftrightarrow> ip_sems w k = None" for k
    by (auto simp: sem_try_def split: option.splits)
  have f: "ipc_port_table (snd (sem_try i w)) = ipc_port_table w" "ip_ports (snd (sem_try i w)) = ip_ports w"
    "ip_messages (snd (sem_try i w)) = ip_messages w" "ipc_port_list (snd (sem_try i w)) = ipc_port_list w"
    "ipc_port_id_counter (snd (sem_try i w)) = ipc_port_id_counter w"
    by (auto simp: sem_try_def split: option.splits)
  show "ports_ok (snd (sem_try i w)) q = ports_ok w q" by (simp add: ports_ok_def f s)
  have "pnext (snd (sem_try i w)) = pnext w" by (simp add: pnext_def [abs_def] f)
  then show "lists_ok (snd (sem_try i w)) L = lists_ok w L" by (simp add: lists_ok_def f)
  show at: "msg_at (snd (sem_try i w)) = msg_at w" by (simp add: msg_at_def [abs_def] f)
  show "holds (snd (sem_try i w)) j ms = holds w j ms" by (simp add: holds_def f at)
qed (auto simp: sem_try_def split: option.splits)

lemma recv_message_ok:
  assumes ok: "ports_ok w q" and L: "lists_ok w L" and i: "ipc_port_table w i = Some a"
    and q: "q a = x # xs" and m: "msg_at w x = (c, d)"
  shows "\<exists>w'. recv_message a len w = Some (if len < length d then Inl E2BIG else Inr (c, d), w') \<and>
    ports_ok w' (if len < length d then q else q(a := xs)) \<and> lists_ok w' L \<and> ipc_port_table w' = ipc_port_table w \<and>
    ipc_port_id_counter w' = ipc_port_id_counter w \<and>
    holds w' i (map (msg_at w) (if len < length d then x # xs else xs)) \<and>
    (\<forall>j ms. j \<noteq> i \<longrightarrow> holds w j ms \<longrightarrow> holds w' j ms)"
proof -
  obtain p where p: "ip_ports w a = Some p" "ip_sems w (queue_semaphore p) \<noteq> None" "queue_ok (ip_messages w) p (x # xs)"
    using ports_okD [OF ok i] q by auto
  then obtain y where y: "ip_messages w x = Some y" "msg_size y \<le> length (msg_data y)" by (auto simp: queue_ok_def)
  have y': "msg_code y = c" "take (msg_size y) (msg_data y) = d" "msg_size y = length d" using m y by (auto simp: msg_at_def)
  have mq: "message_queue p = Some x" "chain (\<lambda>a. Option.bind (ip_messages w a) msg_next) (msg_next y) xs"
    using p(3) y(1) by (auto simp: queue_ok_def)
  have "distinct (x # xs)" using p(3) chain_distinct unfolding queue_ok_def by blast
  then have xx: "x \<notin> set xs" by simp
  show ?thesis
  proof (cases "len < length d")
    case True
    then show ?thesis using p(1) mq(1) y y' ok L holds_iff [OF ok i] q by (auto simp: recv_message_def)
  next
    case False
    let ?p = "p\<lparr> message_queue := msg_next y, message_queue_tail := (if msg_next y = None then None else message_queue_tail p) \<rparr>"
    let ?M = "(ip_messages w)(x := None)"
    let ?w = "w\<lparr> ip_ports := (ip_ports w)(a \<mapsto> ?p), ip_messages := ?M \<rparr>"
    have run: "recv_message a len w = Some (Inr (c, d), ?w)"
      using False p(1) mq(1) y(1) y' by (simp add: recv_message_def upd_port_def)
    have w': "ipc_port_table ?w = ipc_port_table w" "ip_ports ?w = (ip_ports w)(a \<mapsto> ?p)" "ipc_port_list ?w = ipc_port_list w"
      by simp_all
    have "chain (\<lambda>a. Option.bind (?M a) msg_next) c xs = chain (\<lambda>a. Option.bind (ip_messages w a) msg_next) c xs" for c
      by (rule chain_cong) (use xx in auto)
    then have "chain (\<lambda>a. Option.bind (?M a) msg_next) (msg_next y) xs" using mq(2) by blast
    moreover have "msg_next y = None \<longleftrightarrow> xs = []" using mq(2) by (cases xs) auto
    moreover have "message_queue_tail p = Some (last (x # xs))" using p(3) by (simp add: queue_ok_def)
    ultimately have new: "queue_ok (ip_messages ?w) ?p xs"
      using p(3) xx unfolding queue_ok_def by auto
    have keep: "z \<notin> set xs \<and> ip_messages ?w z = ip_messages w z"
      if b: "ipc_port_table w j = Some b" "b \<noteq> a" "z \<in> set (q b)" for j b z
    proof -
      obtain r where r: "ip_ports w b = Some r" using ports_okD [OF ok b(1)] by blast
      show ?thesis using ports_ok_apart(1) [OF ok b(1) i b(2) r p(1)] b(3) q by auto
    qed
    have sems: "dom (ip_sems w) \<subseteq> dom (ip_sems ?w)" by simp
    have p': "port_id ?p = port_id p" "queue_semaphore ?p = queue_semaphore p" "owner_id ?p = owner_id p" "proc_next ?p = proc_next p"
      by simp_all
    have ports: "ports_ok ?w (q(a := xs))" by (rule port_queue_change(1) [OF ok i p(1) w'(1,2) p'(1,2) sems keep new])
    have others: "holds ?w j ms" if "j \<noteq> i" "holds w j ms" for j ms
      by (rule port_queue_change(2) [OF ok i p(1) w'(1,2) p'(1,2) sems keep new that])
    have "map (msg_at ?w) xs = map (msg_at w) xs" using xx by (auto simp: msg_at_def)
    then have "holds ?w i (map (msg_at w) xs)" using holds_iff [OF ports, of i a] i by simp
    then show ?thesis using False run ports others lists_ok_keep [OF L p(1) w' p'(3,4)] by auto
  qed
qed

lemma recv_start_ok:
  assumes ok: "ports_ok w q" and L: "lists_ok w L" and i: "ipc_port_table w i = Some a"
  shows "case q a of [] \<Rightarrow> sys_recv_ipc_message_start i len w = Some (Ipc_wait a, w)
    | x # xs \<Rightarrow> (\<forall>c d. msg_at w x = (c, d) \<longrightarrow> (\<exists>w'. sys_recv_ipc_message_start i len w =
        Some (Ipc_return (if len < length d then Inl E2BIG else Inr (c, d)), w') \<and>
        (\<exists>q'. ports_ok w' q') \<and> lists_ok w' L \<and> ipc_port_id_counter w' = ipc_port_id_counter w \<and>
        holds w' i (map (msg_at w) (if len < length d then x # xs else xs)) \<and> (\<forall>j ms. j \<noteq> i \<longrightarrow> holds w j ms \<longrightarrow> holds w' j ms)))"
proof -
  obtain p where p: "ip_ports w a = Some p" "queue_ok (ip_messages w) p (q a)" using ports_okD [OF ok i] by blast
  show ?thesis
  proof (cases "q a")
    case Nil
    then show ?thesis using p i by (simp add: sys_recv_ipc_message_start_def queue_ok_def)
  next
    case (Cons x xs)
    have mq: "message_queue p \<noteq> None" using p(2) Cons by (auto simp: queue_ok_def)
    let ?v = "snd (sem_try (queue_semaphore p) w)"
    have "\<exists>w'. sys_recv_ipc_message_start i len w = Some (Ipc_return (if len < length d then Inl E2BIG else Inr (c, d)), w') \<and>
        (\<exists>q'. ports_ok w' q') \<and> lists_ok w' L \<and> ipc_port_id_counter w' = ipc_port_id_counter w \<and>
        holds w' i (map (msg_at w) (if len < length d then x # xs else xs)) \<and> (\<forall>j ms. j \<noteq> i \<longrightarrow> holds w j ms \<longrightarrow> holds w' j ms)"
      if cd: "msg_at w x = (c, d)" for c d
    proof -
      have v: "ports_ok ?v q" "lists_ok ?v L" "ipc_port_table ?v i = Some a" "msg_at ?v x = (c, d)"
        using ok L i cd by (simp_all add: sem_try_keeps)
      obtain w' where w': "recv_message a len ?v = Some (if len < length d then Inl E2BIG else Inr (c, d), w')"
        "ports_ok w' (if len < length d then q else q(a := xs))" "lists_ok w' L" "ipc_port_id_counter w' = ipc_port_id_counter ?v"
        "holds w' i (map (msg_at ?v) (if len < length d then x # xs else xs))" "\<forall>j ms. j \<noteq> i \<longrightarrow> holds ?v j ms \<longrightarrow> holds w' j ms"
        using recv_message_ok [OF v(1-3) Cons v(4), of len] by (elim exE conjE)
      have "sys_recv_ipc_message_start i len w = Some (Ipc_return (if len < length d then Inl E2BIG else Inr (c, d)), w')"
        using i p(1) mq w'(1) by (simp add: sys_recv_ipc_message_start_def case_prod_beta)
      then show ?thesis using w'(2-6) sem_try_keeps(3,4,8) [of "queue_semaphore p" w] by auto
    qed
    then show ?thesis using Cons by simp
  qed
qed

section \<open>Destroying ports\<close>

lemma free_messages_eq:
  assumes "chain (mnext w) c xs" and "\<forall>x \<in> set xs. ip_messages w x \<noteq> None"
  shows "free_messages c w = Some (w\<lparr> ip_messages := (\<lambda>x. if x \<in> set xs then None else ip_messages w x) \<rparr>)"
  using assms
proof (induction xs arbitrary: c w)
  case Nil
  then show ?case by (subst free_messages.simps) simp
next
  case (Cons x xs)
  obtain m where m: "ip_messages w x = Some m" using Cons.prems(2) by auto
  have "mnext w x = msg_next m" using m by (simp add: mnext_def)
  then have c: "c = Some x" "chain (mnext w) (msg_next m) xs" using Cons.prems(1) by auto
  have x: "x \<notin> set xs" using chain_distinct [OF Cons.prems(1)] by simp
  let ?w = "w\<lparr> ip_messages := (ip_messages w)(x := None) \<rparr>"
  have "chain (mnext ?w) d xs = chain (mnext w) d xs" for d by (rule chain_cong) (use x in \<open>auto simp: mnext_def\<close>)
  then have "chain (mnext ?w) (msg_next m) xs" using c(2) by blast
  moreover have "ip_messages ?w y \<noteq> None" if "y \<in> set xs" for y using Cons.prems(2) that x by auto
  ultimately have "free_messages (msg_next m) ?w = Some (?w\<lparr> ip_messages := (\<lambda>y. if y \<in> set xs then None else ip_messages ?w y) \<rparr>)"
    by (intro Cons.IH ballI)
  moreover have "(\<lambda>y. if y \<in> set xs then None else ip_messages ?w y) = (\<lambda>y. if y \<in> set (x # xs) then None else ip_messages w y)"
    by (auto simp: fun_eq_iff)
  ultimately show ?case using c(1) m by (subst free_messages.simps) simp
qed

text \<open>The state after the port \<open>a\<close> with its queue has been freed.\<close>

definition port_gone :: "addr \<Rightarrow> ipc_port_t \<Rightarrow> addr list \<Rightarrow> ipc_world \<Rightarrow> ipc_world" where
  "port_gone a p xs w = w\<lparr> ip_messages := (\<lambda>x. if x \<in> set xs then None else ip_messages w x),
     ip_sems := (ip_sems w)(queue_semaphore p := None), ip_ports := (ip_ports w)(a := None) \<rparr>"

lemma do_destroy_eq:
  assumes "ip_ports w a = Some p" and "queue_ok (ip_messages w) p xs"
  shows "do_destroy_ipc_port a w = Some (port_gone a p xs w)"
proof -
  have "chain (mnext w) (message_queue p) xs" "\<forall>x \<in> set xs. ip_messages w x \<noteq> None"
    using assms(2) by (auto simp: queue_ok_def mnext_def [abs_def])
  then show ?thesis using assms(1) free_messages_eq by (simp add: do_destroy_ipc_port_def port_gone_def)
qed

lemma port_remove:
  assumes ok: "ports_ok w q" and i: "ipc_port_table w i = Some a" and p: "ip_ports w a = Some p"
    and v: "ipc_port_table v = (ipc_port_table w)(i := None)" "ip_messages v = ip_messages w" "ip_sems v = ip_sems w"
    and same: "\<And>b r. b \<noteq> a \<Longrightarrow> ip_ports w b = Some r \<Longrightarrow> \<exists>n. ip_ports v b = Some (r\<lparr> proc_next := n \<rparr>)"
    and sem: "queue_semaphore p' = queue_semaphore p"
  shows "ports_ok (port_gone a p' (q a) v) q" and "j \<noteq> i \<Longrightarrow> holds w j ms \<Longrightarrow> holds (port_gone a p' (q a) v) j ms"
proof -
  let ?g = "port_gone a p' (q a) v"
  have tab: "ipc_port_table ?g = (ipc_port_table w)(i := None)" by (simp add: port_gone_def v)
  have not_a: "b \<noteq> a" if "ipc_port_table w j = Some b" "j \<noteq> i" for j b
    using that ports_okD [OF ok that(1)] ports_okD [OF ok i] by auto
  have other: "\<exists>r n. ip_ports w b = Some r \<and> ip_ports ?g b = Some (r\<lparr> proc_next := n \<rparr>) \<and> port_id r = j \<and>
      ip_sems ?g (queue_semaphore r) \<noteq> None \<and> queue_ok (ip_messages ?g) (r\<lparr> proc_next := n \<rparr>) (q b) \<and> (\<forall>x \<in> set (q b). ip_messages ?g x = ip_messages w x)"
    if b: "ipc_port_table w j = Some b" "j \<noteq> i" for j b
  proof -
    note ba = not_a [OF b]
    obtain r where r: "ip_ports w b = Some r" "port_id r = j" "ip_sems w (queue_semaphore r) \<noteq> None" "queue_ok (ip_messages w) r (q b)"
      using ports_okD [OF ok b(1)] by blast
    obtain n where n: "ip_ports v b = Some (r\<lparr> proc_next := n \<rparr>)" using same [OF ba r(1)] by blast
    have msgs: "\<forall>x \<in> set (q b). ip_messages ?g x = ip_messages w x"
      using ports_ok_apart(1) [OF ok b(1) i ba r(1) p] v(2) by (auto simp: port_gone_def)
    have "queue_ok (ip_messages ?g) (r\<lparr> proc_next := n \<rparr>) (q b)" by (rule msg_queue_ok_cong [OF r(4)]) (use msgs in auto)
    moreover have "queue_semaphore r \<noteq> queue_semaphore p'" using ports_ok_apart(2) [OF ok b(1) i ba r(1) p] sem by simp
    ultimately show ?thesis using r n msgs ba v(3) by (auto simp: port_gone_def)
  qed
  show "ports_ok ?g q"
    unfolding ports_ok_def tab
  proof (intro conjI allI impI)
    fix j b assume "((ipc_port_table w)(i := None)) j = Some b"
    then have "ipc_port_table w j = Some b" "j \<noteq> i" by (auto split: if_splits)
    then show "\<exists>p. ip_ports ?g b = Some p \<and> port_id p = j \<and> ip_sems ?g (queue_semaphore p) \<noteq> None \<and> queue_ok (ip_messages ?g) p (q b)"
      using other by fastforce
  next
    fix j k b c r s
    assume "((ipc_port_table w)(i := None)) j = Some b" "((ipc_port_table w)(i := None)) k = Some c"
      and rs: "ip_ports ?g b = Some r" "ip_ports ?g c = Some s" and bc: "b \<noteq> c"
    then have t: "ipc_port_table w j = Some b" "j \<noteq> i" "ipc_port_table w k = Some c" "k \<noteq> i" by (auto split: if_splits)
    obtain r0 s0 where o: "ip_ports w b = Some r0" "ip_ports w c = Some s0" "queue_semaphore r = queue_semaphore r0" "queue_semaphore s = queue_semaphore s0"
      using other [OF t(1,2)] other [OF t(3,4)] rs by auto
    show "set (q b) \<inter> set (q c) = {}" "queue_semaphore r \<noteq> queue_semaphore s"
      using ports_ok_apart [OF ok t(1,3) bc o(1,2)] o(3,4) by auto
  qed
  show "holds ?g j ms" if ne: "j \<noteq> i" and h: "holds w j ms"
  proof -
    obtain b where b: "ipc_port_table w j = Some b" using h by (auto simp: holds_def)
    obtain r n where r: "ip_ports ?g b = Some (r\<lparr> proc_next := n \<rparr>)" "queue_ok (ip_messages ?g) (r\<lparr> proc_next := n \<rparr>) (q b)"
      "\<forall>x \<in> set (q b). ip_messages ?g x = ip_messages w x" using other [OF b ne] by blast
    have "ms = map (msg_at w) (q b)" using holds_iff [OF ok b] h by simp
    also have "\<dots> = map (msg_at ?g) (q b)" using r(3) by (auto simp: msg_at_def)
    finally show ?thesis using r b ne tab unfolding holds_def by auto
  qed
qed

lemma destroy_ports_ok:
  assumes "ports_ok w q" and "chain (pnext w) c xs"
    and "\<forall>a \<in> set xs. \<exists>p. ip_ports w a = Some p \<and> ipc_port_table w (port_id p) = Some a"
  shows "\<exists>w'. destroy_ports_loop c w = Some w' \<and> ports_ok w' q \<and>
    ipc_port_table w' = (\<lambda>i. if \<exists>a \<in> set xs. ipc_port_table w i = Some a then None else ipc_port_table w i) \<and>
    ip_ports w' = (\<lambda>a. if a \<in> set xs then None else ip_ports w a) \<and>
    ip_messages w' = (\<lambda>x. if \<exists>a \<in> set xs. x \<in> set (q a) then None else ip_messages w x) \<and>
    ipc_port_list w' = ipc_port_list w \<and> ipc_port_id_counter w' = ipc_port_id_counter w \<and>
    (\<forall>j ms. ipc_port_table w' j \<noteq> None \<longrightarrow> holds w j ms \<longrightarrow> holds w' j ms)"
  using assms
proof (induction xs arbitrary: c w)
  case Nil
  then show ?case by (subst destroy_ports_loop.simps) auto
next
  case (Cons a xs)
  obtain p where p: "ip_ports w a = Some p" "ipc_port_table w (port_id p) = Some a" using Cons.prems(3) by auto
  have qa: "queue_ok (ip_messages w) p (q a)" using ports_okD [OF Cons.prems(1) p(2)] p(1) by auto
  have "pnext w a = proc_next p" using p(1) by (simp add: pnext_def)
  then have c: "c = Some a" "chain (pnext w) (proc_next p) xs" using Cons.prems(2) by auto
  have ax: "a \<notin> set xs" using chain_distinct [OF Cons.prems(2)] by simp
  let ?v = "w\<lparr> ipc_port_table := (ipc_port_table w)(port_id p := None) \<rparr>"
  let ?g = "port_gone a p (q a) ?v"
  have run: "do_destroy_ipc_port a ?v = Some ?g" by (rule do_destroy_eq) (use p(1) qa in simp_all)
  have same: "\<exists>n. ip_ports ?v b = Some (r\<lparr> proc_next := n \<rparr>)" if "ip_ports w b = Some r" for b r
    using that by (intro exI [of _ "proc_next r"]) simp
  have g: "ports_ok ?g q" and h: "\<And>j ms. j \<noteq> port_id p \<Longrightarrow> holds w j ms \<Longrightarrow> holds ?g j ms"
    using port_remove [OF Cons.prems(1) p(2,1), of ?v p] same by simp_all
  have nx: "pnext ?g x = pnext w x" if "x \<in> set xs" for x using that ax by (auto simp: pnext_def port_gone_def)
  have "chain (pnext ?g) d xs = chain (pnext w) d xs" for d by (rule chain_cong) (rule nx)
  then have ch: "chain (pnext ?g) (proc_next p) xs" using c(2) by blast
  have rest: "\<exists>r. ip_ports ?g b = Some r \<and> ipc_port_table ?g (port_id r) = Some b" if b: "b \<in> set xs" for b
  proof -
    obtain r where r: "ip_ports w b = Some r" "ipc_port_table w (port_id r) = Some b" using Cons.prems(3) b by auto
    have "b \<noteq> a" using b ax by auto
    moreover from this have "port_id r \<noteq> port_id p" using r(2) p(2) by auto
    ultimately show ?thesis using r by (simp add: port_gone_def)
  qed
  have rest': "\<forall>b \<in> set xs. \<exists>r. ip_ports ?g b = Some r \<and> ipc_port_table ?g (port_id r) = Some b" by (rule ballI) (rule rest)
  obtain w' where w': "destroy_ports_loop (proc_next p) ?g = Some w'" "ports_ok w' q"
    "ipc_port_table w' = (\<lambda>i. if \<exists>a \<in> set xs. ipc_port_table ?g i = Some a then None else ipc_port_table ?g i)"
    "ip_ports w' = (\<lambda>a. if a \<in> set xs then None else ip_ports ?g a)"
    "ip_messages w' = (\<lambda>x. if \<exists>a \<in> set xs. x \<in> set (q a) then None else ip_messages ?g x)"
    "ipc_port_list w' = ipc_port_list ?g" "ipc_port_id_counter w' = ipc_port_id_counter ?g"
    "\<forall>j ms. ipc_port_table w' j \<noteq> None \<longrightarrow> holds ?g j ms \<longrightarrow> holds w' j ms"
    using Cons.IH [OF g ch rest'] by (elim exE conjE)
  have own: "ipc_port_table w j = Some a \<longleftrightarrow> j = port_id p" for j
    using p ports_okD [OF Cons.prems(1), of j a] by auto
  have "destroy_ports_loop c w = Some w'"
    using c(1) p(1) run w'(1) by (subst destroy_ports_loop.simps) simp
  moreover have "ipc_port_table w' = (\<lambda>i. if \<exists>b \<in> set (a # xs). ipc_port_table w i = Some b then None else ipc_port_table w i)"
    using own by (auto simp: w'(3) port_gone_def fun_eq_iff)
  moreover have "ip_ports w' = (\<lambda>b. if b \<in> set (a # xs) then None else ip_ports w b)"
    by (auto simp: w'(4) port_gone_def fun_eq_iff)
  moreover have "ip_messages w' = (\<lambda>x. if \<exists>b \<in> set (a # xs). x \<in> set (q b) then None else ip_messages w x)"
    by (auto simp: w'(5) port_gone_def fun_eq_iff)
  moreover have "holds w' j ms" if "ipc_port_table w' j \<noteq> None" "holds w j ms" for j ms
  proof -
    have "j \<noteq> port_id p" using that(1) by (auto simp: w'(3) port_gone_def)
    then show ?thesis using h that w'(8) by blast
  qed
  ultimately show ?case using w'(2,6,7) by (simp add: port_gone_def)
qed

text \<open>The exit of a process. Its list of ports is not reset by the code, since the process goes away with it.\<close>

lemma exit_ok:
  assumes inv: "ipc_inv w"
  shows "\<exists>w'. ipc_destroy_process_ports pid w = Some w' \<and> ipc_inv (w'\<lparr> ipc_port_list := (ipc_port_list w')(pid := None) \<rparr>) \<and>
    (\<forall>i. ipc_port_table w' i = (case ipc_port_table w i of None \<Rightarrow> None
       | Some a \<Rightarrow> if map_option owner_id (ip_ports w a) = Some pid then None else Some a)) \<and>
    (\<forall>i ms. ipc_port_table w' i \<noteq> None \<longrightarrow> holds w i ms \<longrightarrow> holds w' i ms)"
proof -
  obtain q L where q: "ports_ok w q" and L: "lists_ok w L" and n: "0 \<le> ipc_port_id_counter w" "ipc_port_id_counter w < 2147483648"
    using inv unfolding ipc_inv_def by (elim exE conjE)
  have ch: "chain (pnext w) (ipc_port_list w k) (L k)" for k using L by (simp add: lists_ok_def)
  have mem: "\<exists>p i. ip_ports w a = Some p \<and> owner_id p = k \<and> ipc_port_table w i = Some a" if "a \<in> set (L k)" for a k
    using L that unfolding lists_ok_def by blast
  have mem2: "a \<in> set (L (owner_id p))" if "ipc_port_table w i = Some a" "ip_ports w a = Some p" for i a p
    using L that unfolding lists_ok_def by blast
  have ids: "\<forall>a \<in> set (L pid). \<exists>p. ip_ports w a = Some p \<and> ipc_port_table w (port_id p) = Some a"
  proof
    fix a assume "a \<in> set (L pid)"
    then obtain p i where a: "ip_ports w a = Some p" "ipc_port_table w i = Some a" using mem by blast
    then show "\<exists>p. ip_ports w a = Some p \<and> ipc_port_table w (port_id p) = Some a" using ports_okD [OF q a(2)] by auto
  qed
  obtain w' where w': "destroy_ports_loop (ipc_port_list w pid) w = Some w'" "ports_ok w' q"
    "ipc_port_table w' = (\<lambda>i. if \<exists>a \<in> set (L pid). ipc_port_table w i = Some a then None else ipc_port_table w i)"
    "ip_ports w' = (\<lambda>a. if a \<in> set (L pid) then None else ip_ports w a)"
    "ipc_port_list w' = ipc_port_list w" "ipc_port_id_counter w' = ipc_port_id_counter w"
    "\<forall>j ms. ipc_port_table w' j \<noteq> None \<longrightarrow> holds w j ms \<longrightarrow> holds w' j ms"
    using destroy_ports_ok [OF q ch ids] by (elim exE conjE)
  let ?w = "w'\<lparr> ipc_port_list := (ipc_port_list w')(pid := None) \<rparr>"
  have own: "map_option owner_id (ip_ports w a) = Some pid \<longleftrightarrow> a \<in> set (L pid)" if "ipc_port_table w i = Some a" for i a
    using mem [of a pid] mem2 [OF that] by auto
  have apart: "a \<notin> set (L pid)" if "a \<in> set (L k)" "k \<noteq> pid" for a k using mem [OF that(1)] mem [of a pid] that(2) by auto
  have "lists_ok ?w (L(pid := []))"
    unfolding lists_ok_def
  proof (intro conjI allI impI)
    fix k
    have "chain (pnext ?w) c (L k) = chain (pnext w) c (L k)" if "k \<noteq> pid" for c
      by (rule chain_cong) (use apart that w'(4) in \<open>auto simp: pnext_def\<close>)
    then show "chain (pnext ?w) (ipc_port_list ?w k) ((L(pid := [])) k)" using ch [of k] w'(5) by simp
    show "\<forall>a \<in> set ((L(pid := [])) k). \<exists>p i. ip_ports ?w a = Some p \<and> owner_id p = k \<and> ipc_port_table ?w i = Some a"
    proof
      fix a assume a: "a \<in> set ((L(pid := [])) k)"
      then have k: "a \<in> set (L k)" "k \<noteq> pid" by (auto split: if_splits)
      obtain p i where p: "ip_ports w a = Some p" "owner_id p = k" "ipc_port_table w i = Some a" using mem [OF k(1)] by blast
      then show "\<exists>p i. ip_ports ?w a = Some p \<and> owner_id p = k \<and> ipc_port_table ?w i = Some a"
        using apart [OF k] w'(3,4) by (intro exI [of _ p] exI [of _ i]) auto
    qed
  next
    fix i a p assume "ipc_port_table ?w i = Some a" "ip_ports ?w a = Some p"
    then show "a \<in> set ((L(pid := [])) (owner_id p))" using w'(3,4) mem2 by (auto split: if_splits)
  qed
  moreover have "ports_ok ?w q" using w'(2) by (simp add: ports_ok_def)
  ultimately have "ipc_inv ?w" using n w'(6) unfolding ipc_inv_def by auto
  moreover have "ipc_port_table w' i = (case ipc_port_table w i of None \<Rightarrow> None
       | Some a \<Rightarrow> if map_option owner_id (ip_ports w a) = Some pid then None else Some a)" for i
    using own [of i] by (auto simp: w'(3) split: option.splits)
  ultimately show ?thesis using w'(1,7) unfolding ipc_destroy_process_ports_def by blast
qed

section \<open>Creating ports\<close>

lemma create_ok:
  assumes E: "ipc_env_ok E" and inv: "ipc_inv w" and free: "ipc_port_table w j = None" "0 \<le> j" "j < 2147483648"
  shows "\<exists>r w'. sys_create_ipc_port E pid w = Some (r, w') \<and> ipc_inv w' \<and>
    (case r of Inl e \<Rightarrow> w' = w
     | Inr i \<Rightarrow> ipc_port_table w i = None \<and> holds w' i [] \<and> (\<forall>k ms. holds w k ms \<longrightarrow> holds w' k ms))"
proof (cases "\<exists>a s. ie_port E w = Some a \<and> ie_sem E w = Inr s")
  case False
  then show ?thesis using inv by (auto simp: sys_create_ipc_port_def split: option.splits sum.splits)
next
  case True
  then obtain a s where new: "ie_port E w = Some a" "ie_sem E w = Inr s" by blast
  have fresh: "ip_ports w a = None" "ip_sems w s = None" using E new by (auto simp: ipc_env_ok_def)
  obtain q L where q: "ports_ok w q" and L: "lists_ok w L" and n: "0 \<le> ipc_port_id_counter w" "ipc_port_id_counter w < 2147483648"
    using inv unfolding ipc_inv_def by (elim exE conjE)
  obtain i where i: "fresh_id (ipc_port_table w) (ipc_port_id_counter w) = Some (i, next_id i)" "ipc_port_table w i = None"
    "0 \<le> i" "i < 2147483648"
    using fresh_id_ok [of "ipc_port_table w" j "ipc_port_id_counter w"] free n by auto
  have counter: "0 \<le> next_id i" "next_id i < 2147483648" using i(3,4) by (auto simp: next_id_def next_id_below_def)
  let ?p = "\<lparr> owner_id = pid, proc_next = ipc_port_list w pid, port_id = i, queue_semaphore = s, message_queue = None, message_queue_tail = None \<rparr>"
  let ?w = "w\<lparr> ip_sems := (ip_sems w)(s \<mapsto> 0), ip_ports := (ip_ports w)(a \<mapsto> ?p), ipc_port_id_counter := next_id i,
    ipc_port_table := (ipc_port_table w)(i \<mapsto> a), ipc_port_list := (ipc_port_list w)(pid := Some a) \<rparr>"
  have run: "sys_create_ipc_port E pid w = Some (Inr i, ?w)"
    using new i(1) by (simp add: sys_create_ipc_port_def ipc_port_insert_def upd_port_def Let_def)
  have old: "b \<noteq> a \<and> ip_ports ?w b = ip_ports w b" if "ipc_port_table w k = Some b" for k b
    using ports_okD [OF q that] fresh(1) by auto
  have sem: "queue_semaphore r \<noteq> s" if "ipc_port_table w k = Some b" "ip_ports w b = Some r" for k b r
    using ports_okD [OF q that(1)] that(2) fresh(2) by auto
  have ports: "ports_ok ?w (q(a := []))"
    unfolding ports_ok_def
  proof (intro conjI allI impI)
    fix k b assume "ipc_port_table ?w k = Some b"
    then show "\<exists>p. ip_ports ?w b = Some p \<and> port_id p = k \<and> ip_sems ?w (queue_semaphore p) \<noteq> None \<and> queue_ok (ip_messages ?w) p ((q(a := [])) b)"
      using old [of k b] ports_okD [OF q, of k b] by (cases "k = i") (auto simp: queue_ok_def)
  next
    fix k l b c r t
    assume t: "ipc_port_table ?w k = Some b" "ipc_port_table ?w l = Some c" "ip_ports ?w b = Some r" "ip_ports ?w c = Some t" "b \<noteq> c"
    show "set ((q(a := [])) b) \<inter> set ((q(a := [])) c) = {}" "queue_semaphore r \<noteq> queue_semaphore t"
      using t old [of k b] old [of l c] sem [of k b] sem [of l c] ports_ok_apart [OF q, of k b l c r t]
      by (auto split: if_splits)
  qed
  have mem: "\<exists>p i. ip_ports w b = Some p \<and> owner_id p = k \<and> ipc_port_table w i = Some b" if "b \<in> set (L k)" for b k
    using L that unfolding lists_ok_def by blast
  have ax: "a \<notin> set (L k)" for k using mem [of a k] fresh(1) by auto
  have lists: "lists_ok ?w (L(pid := a # L pid))"
    unfolding lists_ok_def
  proof (intro conjI allI impI)
    fix k
    have "chain (pnext ?w) c (L k) = chain (pnext w) c (L k)" for c k
      by (rule chain_cong) (use ax [of k] in \<open>auto simp: pnext_def\<close>)
    moreover have "pnext ?w a = ipc_port_list w pid" by (simp add: pnext_def)
    ultimately show "chain (pnext ?w) (ipc_port_list ?w k) ((L(pid := a # L pid)) k)" using L by (auto simp: lists_ok_def)
    show "\<forall>b \<in> set ((L(pid := a # L pid)) k). \<exists>p i. ip_ports ?w b = Some p \<and> owner_id p = k \<and> ipc_port_table ?w i = Some b"
    proof
      fix b assume b: "b \<in> set ((L(pid := a # L pid)) k)"
      show "\<exists>p i. ip_ports ?w b = Some p \<and> owner_id p = k \<and> ipc_port_table ?w i = Some b"
      proof (cases "b = a")
        case True
        then have "k = pid" using b ax [of k] by (auto split: if_splits)
        then show ?thesis using True by (intro exI [of _ ?p] exI [of _ i]) simp
      next
        case False
        then have "b \<in> set (L k)" using b by (auto split: if_splits)
        then obtain p l where "ip_ports w b = Some p" "owner_id p = k" "ipc_port_table w l = Some b" using mem by blast
        then show ?thesis using False i(2) by (intro exI [of _ p] exI [of _ l]) auto
      qed
    qed
  next
    fix k b p assume "ipc_port_table ?w k = Some b" "ip_ports ?w b = Some p"
    then show "b \<in> set ((L(pid := a # L pid)) (owner_id p))"
      using old [of k b] L unfolding lists_ok_def by (auto split: if_splits)
  qed
  have at: "msg_at ?w = msg_at w" by (simp add: msg_at_def [abs_def])
  have "holds ?w i []" unfolding holds_def by (intro exI [of _ a] exI [of _ ?p] exI [of _ "[]"]) (simp add: queue_ok_def)
  moreover have "holds ?w k ms" if "holds w k ms" for k ms
  proof -
    obtain b r xs where b: "ipc_port_table w k = Some b" "ip_ports w b = Some r" "queue_ok (ip_messages w) r xs" "ms = map (msg_at w) xs"
      using \<open>holds w k ms\<close> unfolding holds_def by blast
    then show ?thesis using old [OF b(1)] i(2) at unfolding holds_def by (intro exI [of _ b] exI [of _ r] exI [of _ xs]) auto
  qed
  moreover have "ipc_inv ?w" using ports lists counter unfolding ipc_inv_def by auto
  ultimately show ?thesis using run i(2) by (intro exI [of _ "Inr i"] exI [of _ ?w]) simp
qed

section \<open>Destroying one port\<close>

definition unlinked :: "int \<Rightarrow> vptr \<Rightarrow> vptr \<Rightarrow> ipc_world \<Rightarrow> ipc_world" where
  "unlinked pid prev n w = (case prev of
       None \<Rightarrow> w\<lparr> ipc_port_list := (ipc_port_list w)(pid := n) \<rparr>
     | Some b \<Rightarrow> w\<lparr> ip_ports := (ip_ports w)(b := map_option (\<lambda>r. r\<lparr> proc_next := n \<rparr>) (ip_ports w b)) \<rparr>)"

lemma proc_unlink_eq:
  assumes "chain (pnext w) c (ys @ a # zs)" and "\<forall>x \<in> set (ys @ [a]). ip_ports w x \<noteq> None"
    and "\<forall>b. prev = Some b \<longrightarrow> ip_ports w b \<noteq> None"
  shows "proc_unlink_loop pid a prev c w = Some (unlinked pid (if ys = [] then prev else Some (last ys)) (pnext w a) w)"
  using assms
proof (induction ys arbitrary: prev c)
  case Nil
  then show ?case
    by (subst proc_unlink_loop.simps) (auto simp: unlinked_def upd_port_def pnext_def split: option.splits)
next
  case (Cons y ys)
  obtain r where r: "ip_ports w y = Some r" using Cons.prems(2) by auto
  have "pnext w y = proc_next r" using r by (simp add: pnext_def)
  then have c: "c = Some y" "chain (pnext w) (proc_next r) (ys @ a # zs)" using Cons.prems(1) by auto
  have "a \<noteq> y" using chain_distinct [OF Cons.prems(1)] by auto
  then have "proc_unlink_loop pid a prev c w = proc_unlink_loop pid a (Some y) (proc_next r) w"
    using c(1) r by (subst proc_unlink_loop.simps) simp
  also have "\<dots> = Some (unlinked pid (if ys = [] then Some y else Some (last ys)) (pnext w a) w)"
    by (rule Cons.IH [OF c(2)]) (use Cons.prems(2) r in auto)
  finally show ?case by simp
qed

lemma port_chain_unlink:
  assumes "chain nx c (ys @ a # zs)"
  shows "chain (\<lambda>x. if ys \<noteq> [] \<and> x = last ys then nx a else nx x) (if ys = [] then nx a else c) (ys @ zs)"
  using assms
proof (induction ys arbitrary: c)
  case Nil
  then show ?case by simp
next
  case (Cons y ys)
  have dis: "distinct (y # ys @ a # zs)" using chain_distinct [OF Cons.prems] by simp
  show ?case
  proof (cases ys)
    case Nil
    then show ?thesis using Cons.prems dis chain_upd_eta [of y zs "nx a" nx] by simp
  next
    case (Cons z zs')
    then show ?thesis using Cons.IH [of "nx y"] Cons.prems dis by auto
  qed
qed

lemma destroy_ok:
  assumes inv: "ipc_inv w"
  shows "\<exists>w'. sys_destroy_ipc_port pid i w = Some (Inr (), w') \<and> ipc_inv w' \<and>
    (if \<exists>a p. ipc_port_table w i = Some a \<and> ip_ports w a = Some p \<and> owner_id p = pid
     then ipc_port_table w' = (ipc_port_table w)(i := None) \<and> (\<forall>j ms. j \<noteq> i \<longrightarrow> holds w j ms \<longrightarrow> holds w' j ms)
     else w' = w)"
proof (cases "\<exists>a p. ipc_port_table w i = Some a \<and> ip_ports w a = Some p \<and> owner_id p = pid")
  case False
  obtain q where q: "ports_ok w q" using inv unfolding ipc_inv_def by blast
  show ?thesis
  proof (cases "ipc_port_table w i")
    case None
    then show ?thesis using inv by (simp add: sys_destroy_ipc_port_def ipc_port_remove_def)
  next
    case (Some a)
    then obtain p where "ip_ports w a = Some p" using ports_okD [OF q Some] by blast
    then show ?thesis using Some False inv by (simp add: sys_destroy_ipc_port_def ipc_port_remove_def)
  qed
next
  case True
  then obtain a p where a: "ipc_port_table w i = Some a" "ip_ports w a = Some p" "owner_id p = pid" by blast
  obtain q L where q: "ports_ok w q" and L: "lists_ok w L" and n: "0 \<le> ipc_port_id_counter w" "ipc_port_id_counter w < 2147483648"
    using inv unfolding ipc_inv_def by (elim exE conjE)
  have ch: "chain (pnext w) (ipc_port_list w k) (L k)" for k using L by (simp add: lists_ok_def)
  have mem: "\<exists>p i. ip_ports w b = Some p \<and> owner_id p = k \<and> ipc_port_table w i = Some b" if "b \<in> set (L k)" for b k
    using L that unfolding lists_ok_def by blast
  have "a \<in> set (L pid)" using L a unfolding lists_ok_def by blast
  then obtain ys zs where ys: "L pid = ys @ a # zs" by (meson split_list)
  have dis: "distinct (ys @ a # zs)" using chain_distinct [OF ch [of pid]] ys by simp
  let ?u = "w\<lparr> ipc_port_table := (ipc_port_table w)(i := None) \<rparr>"
  let ?v = "unlinked pid (if ys = [] then None else Some (last ys)) (pnext w a) ?u"
  have "pnext ?u = pnext w" by (simp add: pnext_def [abs_def])
  moreover have "\<forall>x \<in> set (ys @ [a]). ip_ports ?u x \<noteq> None"
  proof
    fix x assume "x \<in> set (ys @ [a])"
    then show "ip_ports ?u x \<noteq> None" using mem [of x pid] ys by auto
  qed
  ultimately have unl: "proc_unlink_loop pid a None (ipc_port_list ?u pid) ?u = Some ?v"
    using proc_unlink_eq [of ?u "ipc_port_list ?u pid" ys a zs None pid] ch [of pid] ys by simp
  have pv: "ip_ports ?v b = (if ys \<noteq> [] \<and> b = last ys then map_option (\<lambda>r. r\<lparr> proc_next := pnext w a \<rparr>) (ip_ports w b) else ip_ports w b)" for b
    by (simp add: unlinked_def)
  have vf: "ipc_port_table ?v = (ipc_port_table w)(i := None)" "ip_messages ?v = ip_messages w" "ip_sems ?v = ip_sems w"
    "ipc_port_id_counter ?v = ipc_port_id_counter w"
    "ipc_port_list ?v k = (if k = pid \<and> ys = [] then pnext w a else ipc_port_list w k)" for k
    by (auto simp: unlinked_def)
  have al: "ys \<noteq> [] \<Longrightarrow> a \<noteq> last ys" using dis by auto
  have pa: "ip_ports ?v a = Some p" using pv [of a] a(2) al by auto
  have qa: "queue_ok (ip_messages w) p (q a)" using ports_okD [OF q a(1)] a(2) by auto
  let ?w = "port_gone a p (q a) ?v"
  have run: "sys_destroy_ipc_port pid i w = Some (Inr (), ?w)"
    using a unl do_destroy_eq [OF pa, of "q a"] qa vf(2) by (simp add: sys_destroy_ipc_port_def ipc_port_remove_def)
  have same: "\<exists>n. ip_ports ?v b = Some (r\<lparr> proc_next := n \<rparr>)" if "ip_ports w b = Some r" for b r
  proof (cases "ys \<noteq> [] \<and> b = last ys")
    case True
    then show ?thesis using that pv [of b] by (intro exI [of _ "pnext w a"]) simp
  next
    case False
    then have "ip_ports ?v b = Some r" using that pv [of b] by (simp only: if_False)
    then show ?thesis by (intro exI [of _ "proc_next r"]) simp
  qed
  have ports: "ports_ok ?w q" and keep: "\<And>j ms. j \<noteq> i \<Longrightarrow> holds w j ms \<Longrightarrow> holds ?w j ms"
    using port_remove [OF q a(1,2), of ?v p] vf(1-3) same by simp_all
  have pw: "ip_ports ?w b = (if b = a then None else ip_ports ?v b)" for b by (simp add: port_gone_def)
  have nx: "pnext ?w x = (if ys \<noteq> [] \<and> x = last ys then pnext w a else pnext w x)" if "x \<noteq> a" "ip_ports w x \<noteq> None" for x
    using that pw [of x] pv [of x] by (auto simp: pnext_def)
  have ax: "a \<notin> set (L k)" if "k \<noteq> pid" for k using mem [of a k] a(2,3) that by auto
  have lx: "ys \<noteq> [] \<Longrightarrow> last ys \<notin> set (L k)" if "k \<noteq> pid" for k
  proof -
    assume "ys \<noteq> []"
    then have "last ys \<in> set (L pid)" using ys by simp
    then show ?thesis using mem [of "last ys" k] mem [of "last ys" pid] that by auto
  qed
  have lists: "lists_ok ?w (L(pid := ys @ zs))"
    unfolding lists_ok_def
  proof (intro conjI allI impI)
    fix k
    show "chain (pnext ?w) (ipc_port_list ?w k) ((L(pid := ys @ zs)) k)"
    proof (cases "k = pid")
      case True
      have e: "ip_ports w x \<noteq> None" if "x \<in> set (ys @ zs)" for x using mem [of x pid] ys that by auto
      have "chain (pnext ?w) c (ys @ zs) = chain (\<lambda>x. if ys \<noteq> [] \<and> x = last ys then pnext w a else pnext w x) c (ys @ zs)" for c
      proof (rule chain_cong)
        fix x assume x: "x \<in> set (ys @ zs)"
        then have "x \<noteq> a" using dis by auto
        then show "pnext ?w x = (if ys \<noteq> [] \<and> x = last ys then pnext w a else pnext w x)" by (rule nx [OF _ e [OF x]])
      qed
      then show ?thesis using port_chain_unlink [of "pnext w" "ipc_port_list w pid" ys a zs] ch [of pid] ys True vf(5) [of pid]
        by (simp add: port_gone_def)
    next
      case False
      have "chain (pnext ?w) c (L k) = chain (pnext w) c (L k)" for c
      proof (rule chain_cong)
        fix x assume x: "x \<in> set (L k)"
        then have "x \<noteq> a" "ip_ports w x \<noteq> None" "ys \<noteq> [] \<Longrightarrow> x \<noteq> last ys" using ax [OF False] mem [OF x] lx [OF False] by auto
        then show "pnext ?w x = pnext w x" using nx [of x] by (auto split: if_splits)
      qed
      then show ?thesis using ch [of k] False vf(5) [of k] by (simp add: port_gone_def)
    qed
    show "\<forall>b \<in> set ((L(pid := ys @ zs)) k). \<exists>p i. ip_ports ?w b = Some p \<and> owner_id p = k \<and> ipc_port_table ?w i = Some b"
    proof
      fix b assume b: "b \<in> set ((L(pid := ys @ zs)) k)"
      then have bL: "b \<in> set (L k)" and ba: "b \<noteq> a" using ys dis ax by (auto split: if_splits)
      obtain r l where r: "ip_ports w b = Some r" "owner_id r = k" "ipc_port_table w l = Some b" using mem [OF bL] by blast
      obtain n where "ip_ports ?v b = Some (r\<lparr> proc_next := n \<rparr>)" using same [OF r(1)] by blast
      moreover have "l \<noteq> i" using r(3) a(1) ba by auto
      ultimately show "\<exists>p i. ip_ports ?w b = Some p \<and> owner_id p = k \<and> ipc_port_table ?w i = Some b"
        using r ba pw [of b] vf(1) by (intro exI [of _ "r\<lparr> proc_next := n \<rparr>"] exI [of _ l]) (simp add: port_gone_def)
    qed
  next
    fix l b r assume b: "ipc_port_table ?w l = Some b" "ip_ports ?w b = Some r"
    then have t: "ipc_port_table w l = Some b" "b \<noteq> a" using vf(1) pw [of b] by (auto simp: port_gone_def split: if_splits)
    obtain r0 where r0: "ip_ports w b = Some r0" using ports_okD [OF q t(1)] by blast
    then have "owner_id r = owner_id r0" using b(2) same [OF r0] pw [of b] t(2) by auto
    moreover have "b \<in> set (L (owner_id r0))" using L t(1) r0 unfolding lists_ok_def by blast
    ultimately show "b \<in> set ((L(pid := ys @ zs)) (owner_id r))" using ys t(2) by (auto split: if_splits)
  qed
  have cnt: "ipc_port_id_counter ?w = ipc_port_id_counter w" using vf(4) by (simp add: port_gone_def)
  have "ipc_inv ?w" unfolding ipc_inv_def cnt using n ports lists by blast
  moreover have "ipc_port_table ?w = (ipc_port_table w)(i := None)" using vf(1) by (simp add: port_gone_def)
  moreover have "\<forall>j ms. j \<noteq> i \<longrightarrow> holds w j ms \<longrightarrow> holds ?w j ms" using keep by blast
  ultimately show ?thesis using run True by (intro exI [of _ ?w]) (simp only: if_True simp_thms)
qed

section \<open>Looking at a message\<close>

lemma sem_up_keeps:
  "ports_ok (sem_up i w) q = ports_ok w q" "lists_ok (sem_up i w) L = lists_ok w L"
  "holds (sem_up i w) j ms = holds w j ms" "ipc_port_id_counter (sem_up i w) = ipc_port_id_counter w"
proof -
  have s: "ip_sems (sem_up i w) k = None \<longleftrightarrow> ip_sems w k = None" for k by (simp add: sem_up_def)
  have f: "ipc_port_table (sem_up i w) = ipc_port_table w" "ip_ports (sem_up i w) = ip_ports w"
    "ip_messages (sem_up i w) = ip_messages w" "ipc_port_list (sem_up i w) = ipc_port_list w" by (simp_all add: sem_up_def)
  show "ports_ok (sem_up i w) q = ports_ok w q" by (simp add: ports_ok_def f s)
  have "pnext (sem_up i w) = pnext w" by (simp add: pnext_def [abs_def] f)
  then show "lists_ok (sem_up i w) L = lists_ok w L" by (simp add: lists_ok_def f)
  have "msg_at (sem_up i w) = msg_at w" by (simp add: msg_at_def [abs_def] f)
  then show "holds (sem_up i w) j ms = holds w j ms" by (simp add: holds_def f)
qed (simp add: sem_up_def)

lemma inv_try: "ipc_inv w \<Longrightarrow> ipc_inv (snd (sem_try i w))"
  by (simp add: ipc_inv_def sem_try_keeps)

lemma inv_up: "ipc_inv w \<Longrightarrow> ipc_inv (sem_up i w)"
  by (simp add: ipc_inv_def sem_up_keeps)

lemma peek_message_ok:
  assumes "ipc_inv w" and "ipc_port_table w i = Some a"
  shows "\<exists>r w'. peek_message a w = Some (r, w') \<and> ipc_inv w' \<and> (\<forall>j ms. holds w j ms \<longrightarrow> holds w' j ms)"
proof -
  obtain q where q: "ports_ok w q" using assms(1) unfolding ipc_inv_def by blast
  obtain p where p: "ip_ports w a = Some p" "queue_ok (ip_messages w) p (q a)" using ports_okD [OF q assms(2)] by blast
  show ?thesis
  proof (cases "message_queue p")
    case None
    then show ?thesis using p assms(1) by (simp add: peek_message_def)
  next
    case (Some x)
    then obtain m where "ip_messages w x = Some m" using p(2) by (cases "q a") (auto simp: queue_ok_def)
    then show ?thesis using p(1) Some inv_up [OF assms(1)] by (simp add: peek_message_def sem_up_keeps)
  qed
qed

lemma recv_message_inv:
  assumes "ipc_inv w" and "ipc_port_table w i = Some a"
  shows "\<exists>r w'. recv_message a len w = Some (r, w') \<and> ipc_inv w'"
proof -
  obtain q L where q: "ports_ok w q" "lists_ok w L" and n: "0 \<le> ipc_port_id_counter w" "ipc_port_id_counter w < 2147483648"
    using assms(1) unfolding ipc_inv_def by (elim exE conjE)
  obtain p where p: "ip_ports w a = Some p" "queue_ok (ip_messages w) p (q a)" using ports_okD [OF q(1) assms(2)] by blast
  show ?thesis
  proof (cases "q a")
    case Nil
    then show ?thesis using p assms(1) by (simp add: recv_message_def queue_ok_def)
  next
    case (Cons x xs)
    obtain c d where cd: "msg_at w x = (c, d)" by (cases "msg_at w x")
    obtain r w' where "recv_message a len w = Some (r, w')" "ports_ok w' (if len < length d then q else q(a := xs))" "lists_ok w' L"
      "ipc_port_id_counter w' = ipc_port_id_counter w"
      using recv_message_ok [OF q assms(2) Cons cd, of len] by (elim exE conjE)
    then show ?thesis using n unfolding ipc_inv_def by (intro exI [of _ r] exI [of _ w']) auto
  qed
qed

section \<open>Runs\<close>

text \<open>The steps of the processes: the system calls, with receiving and looking cut at the wait, and the exit of a
  process. A message is sent from a buffer of at least the size given, which is not so large that the size of the
  block wraps around; a port is created while an id is free.\<close>

inductive ipc_step :: "ipc_env \<Rightarrow> ipc_world \<Rightarrow> ipc_world \<Rightarrow> bool" for E where
  step_create: "ipc_port_table w j = None \<Longrightarrow> 0 \<le> j \<Longrightarrow> j < 2147483648 \<Longrightarrow> sys_create_ipc_port E pid w = Some (r, w') \<Longrightarrow> ipc_step E w w'"
| step_destroy: "sys_destroy_ipc_port pid i w = Some (u, w') \<Longrightarrow> ipc_step E w w'"
| step_send: "len \<le> length data \<Longrightarrow> sizeof_message + len < 4294967296 \<Longrightarrow>
    sys_send_ipc_message E i code data len w = Some (u, w') \<Longrightarrow> ipc_step E w w'"
| step_recv: "sys_recv_ipc_message_start i len w = Some (out, w') \<Longrightarrow> ipc_step E w w'"
| step_recv_resume: "sys_recv_ipc_message_resume i len g w = Some (res, w') \<Longrightarrow> ipc_step E w w'"
| step_peek: "sys_peek_ipc_message_start i w = Some (out', w') \<Longrightarrow> ipc_step E w w'"
| step_peek_resume: "sys_peek_ipc_message_resume i g w = Some (res', w') \<Longrightarrow> ipc_step E w w'"
| step_grant: "w' = snd (sem_try s w) \<Longrightarrow> ipc_step E w w'"
| step_register: "sys_register_named_ipc_port E name i w = Some (u, w') \<Longrightarrow> ipc_step E w w'"
| step_exit: "ipc_destroy_process_ports pid w = Some w1 \<Longrightarrow> w' = w1\<lparr> ipc_port_list := (ipc_port_list w1)(pid := None) \<rparr> \<Longrightarrow> ipc_step E w w'"

lemma send_inv:
  assumes E: "ipc_env_ok E" and inv: "ipc_inv w" and len: "len \<le> length data" "sizeof_message + len < 4294967296"
  shows "\<exists>u w'. sys_send_ipc_message E i code data len w = Some (u, w') \<and> ipc_inv w'"
proof (cases "ipc_port_table w i = None \<or> ie_message E w (u32_of (sizeof_message + len)) = None")
  case True
  then show ?thesis using inv by (cases "ipc_port_table w i") (auto simp: sys_send_ipc_message_def)
next
  case False
  then obtain a x room where a: "ipc_port_table w i = Some a" "ie_message E w (u32_of (sizeof_message + len)) = Some (x, room)" by auto
  obtain q L where q: "ports_ok w q" "lists_ok w L" and n: "0 \<le> ipc_port_id_counter w" "ipc_port_id_counter w < 2147483648"
    using inv unfolding ipc_inv_def by (elim exE conjE)
  obtain w' where "sys_send_ipc_message E i code data len w = Some (Inr (), w')" "ports_ok w' (q(a := q a @ [x]))" "lists_ok w' L"
    "ipc_port_id_counter w' = ipc_port_id_counter w"
    using send_ok [OF E q a len, of code] by (elim exE conjE)
  then show ?thesis using n unfolding ipc_inv_def by auto
qed

lemma recv_start_inv:
  assumes inv: "ipc_inv w"
  shows "\<exists>out w'. sys_recv_ipc_message_start i len w = Some (out, w') \<and> ipc_inv w'"
    and "\<exists>out w'. sys_peek_ipc_message_start i w = Some (out, w') \<and> ipc_inv w'"
proof -
  obtain q where q: "ports_ok w q" using inv unfolding ipc_inv_def by blast
  show "\<exists>out w'. sys_recv_ipc_message_start i len w = Some (out, w') \<and> ipc_inv w'"
    "\<exists>out w'. sys_peek_ipc_message_start i w = Some (out, w') \<and> ipc_inv w'"
  proof (atomize (full), cases "ipc_port_table w i")
    case None
    then show "(\<exists>out w'. sys_recv_ipc_message_start i len w = Some (out, w') \<and> ipc_inv w') \<and>
        (\<exists>out w'. sys_peek_ipc_message_start i w = Some (out, w') \<and> ipc_inv w')"
      using inv by (simp add: sys_recv_ipc_message_start_def sys_peek_ipc_message_start_def)
  next
    case (Some a)
    obtain p where p: "ip_ports w a = Some p" using ports_okD [OF q Some] by blast
    let ?v = "snd (sem_try (queue_semaphore p) w)"
    have v: "ipc_inv ?v" "ipc_port_table ?v i = Some a" using inv_try [OF inv] Some by (simp_all add: sem_try_keeps)
    show "(\<exists>out w'. sys_recv_ipc_message_start i len w = Some (out, w') \<and> ipc_inv w') \<and>
        (\<exists>out w'. sys_peek_ipc_message_start i w = Some (out, w') \<and> ipc_inv w')"
      using recv_message_inv [OF v, of len] peek_message_ok [OF v] Some p inv
      by (auto simp: sys_recv_ipc_message_start_def sys_peek_ipc_message_start_def case_prod_beta)
  qed
qed

lemma resume_inv:
  assumes inv: "ipc_inv w"
  shows "\<exists>r w'. sys_recv_ipc_message_resume i len g w = Some (r, w') \<and> ipc_inv w'"
    and "\<exists>r w'. sys_peek_ipc_message_resume i g w = Some (r, w') \<and> ipc_inv w'"
  using inv recv_message_inv [OF inv, of i _ len] peek_message_ok [OF inv, of i]
  by (auto simp: sys_recv_ipc_message_resume_def sys_peek_ipc_message_resume_def split: sum.splits option.splits)

lemma inv_names: "ipc_inv (w\<lparr> named_ipc_port_table := t \<rparr>) = ipc_inv w"
  by (simp add: ipc_inv_def ports_ok_def lists_ok_def pnext_def [abs_def])

lemma ipc_step_inv:
  assumes E: "ipc_env_ok E"
  shows "ipc_step E w w' \<Longrightarrow> ipc_inv w \<Longrightarrow> ipc_inv w'"
proof (induction rule: ipc_step.induct)
  case (step_create w j pid r w')
  then show ?case using create_ok [OF E step_create.prems step_create.hyps(1-3), of pid] by auto
next
  case (step_destroy pid i w u w')
  then show ?case using destroy_ok [OF step_destroy.prems, of pid i] by auto
next
  case (step_send len data i code w u w')
  then show ?case using send_inv [OF E step_send.prems step_send.hyps(1,2), of i code] by auto
next
  case (step_recv i len w out w')
  then show ?case using recv_start_inv(1) [OF step_recv.prems, of i len] by auto
next
  case (step_recv_resume i len g w res w')
  then show ?case using resume_inv(1) [OF step_recv_resume.prems, of i len g] by auto
next
  case (step_peek i w out w')
  then show ?case using recv_start_inv(2) [OF step_peek.prems, of i] by auto
next
  case (step_peek_resume i g w res w')
  then show ?case using resume_inv(2) [OF step_peek_resume.prems, of i g] by auto
next
  case (step_grant w' s w)
  then show ?case using inv_try by simp
next
  case (step_register name i w u w')
  then show ?case
    by (auto simp: sys_register_named_ipc_port_def inv_names split: bind_splits if_splits)
next
  case (step_exit pid w w1 w')
  then show ?case using exit_ok [OF step_exit.prems, of pid] by auto
qed

lemma ipc_run_inv: "(ipc_step E)\<^sup>*\<^sup>* w w' \<Longrightarrow> ipc_env_ok E \<Longrightarrow> ipc_inv w \<Longrightarrow> ipc_inv w'"
  by (induction rule: rtranclp_induct) (auto intro: ipc_step_inv)

text \<open>The state that \<^verbatim>\<open>init_ipc\<close> leaves.\<close>

definition ipc_start :: ipc_world where
  "ipc_start = \<lparr> ip_ports = (\<lambda>_. None), ip_messages = (\<lambda>_. None), ipc_port_table = (\<lambda>_. None), ipc_port_id_counter = 0,
     ipc_port_list = (\<lambda>_. None), named_ipc_port_table = (\<lambda>_. None), ip_sems = (\<lambda>_. None) \<rparr>"

lemma ipc_start_inv: "ipc_inv ipc_start"
proof -
  have "ports_ok ipc_start (\<lambda>_. [])" by (simp add: ports_ok_def ipc_start_def)
  moreover have "lists_ok ipc_start (\<lambda>_. [])" by (simp add: lists_ok_def ipc_start_def)
  ultimately show ?thesis unfolding ipc_inv_def by (auto simp: ipc_start_def)
qed


text \<open>C9: The exit of a process removes exactly its own ports. In every state that system calls can lead to, the removal
  returns, the ids of the ports that the process owns are free afterwards, every other port is still there with
  the messages it held, and the system keeps running safely from there.\<close>

theorem ipc_exit_removes_own_ports:
  assumes "ipc_env_ok E" and "(ipc_step E)\<^sup>*\<^sup>* ipc_start w"
  shows "\<exists>w'. ipc_destroy_process_ports pid w = Some w' \<and> ipc_inv (w'\<lparr> ipc_port_list := (ipc_port_list w')(pid := None) \<rparr>) \<and>
    (\<forall>i. ipc_port_table w' i = (case ipc_port_table w i of None \<Rightarrow> None
       | Some a \<Rightarrow> if map_option owner_id (ip_ports w a) = Some pid then None else Some a)) \<and>
    (\<forall>i ms. ipc_port_table w' i \<noteq> None \<longrightarrow> holds w i ms \<longrightarrow> holds w' i ms)"
  by (rule exit_ok [OF ipc_run_inv [OF assms(2,1) ipc_start_inv]])

definition wit_ipc_env :: ipc_env where
  "wit_ipc_env = \<lparr> ie_port = (\<lambda>w. if ip_ports w 1 = None then Some 1 else None),
     ie_message = (\<lambda>w n. if ip_messages w 2 = None then Some (2, replicate (n - 12) 0) else None),
     ie_named = (\<lambda>_. True), ie_sem = (\<lambda>w. if ip_sems w 5 = None then Inr 5 else Inl ENOMEM) \<rparr>"

lemma wit_ipc_env_ok: "ipc_env_ok wit_ipc_env"
  by (auto simp: ipc_env_ok_def wit_ipc_env_def sizeof_message_def split: if_splits)

text \<open>A port that the process 7 has created.\<close>

definition wit_ipc :: ipc_world where
  "wit_ipc = ipc_start\<lparr> ip_ports := [1 \<mapsto> \<lparr> owner_id = 7, proc_next = None, port_id = 0, queue_semaphore = 5,
     message_queue = None, message_queue_tail = None \<rparr>], ipc_port_table := [0 \<mapsto> 1], ipc_port_id_counter := 1,
     ipc_port_list := (\<lambda>_. None)(7 := Some 1), ip_sems := [5 \<mapsto> 0] \<rparr>"

lemma wit_ipc_reached: "(ipc_step wit_ipc_env)\<^sup>*\<^sup>* ipc_start wit_ipc"
proof -
  have "fresh_id (\<lambda>_. None :: addr option) 0 = Some (0, 1)"
    unfolding fresh_id_def by (subst fresh_id_below.simps) (simp add: next_id_below_def)
  then have "sys_create_ipc_port wit_ipc_env 7 ipc_start = Some (Inr 0, wit_ipc)"
    by (simp add: sys_create_ipc_port_def wit_ipc_env_def ipc_start_def ipc_port_insert_def upd_port_def wit_ipc_def Let_def)
  then have "ipc_step wit_ipc_env ipc_start wit_ipc" by (rule step_create [of _ 0, rotated 3]) (simp_all add: ipc_start_def)
  then show ?thesis by auto
qed

lemma wit_holds: "holds wit_ipc 0 []"
  by (auto simp: holds_def wit_ipc_def queue_ok_def)


theorem ipc_exit_removes_own_ports_witness:
  "\<exists>w'. ipc_destroy_process_ports 7 wit_ipc = Some w' \<and> ipc_port_table w' 0 = None"
  using ipc_exit_removes_own_ports [OF wit_ipc_env_ok wit_ipc_reached, of 7] by (auto simp: wit_ipc_def)

end
