(* ===== verification/Kernel_Ramfs.thy ===== *)
theory Kernel_Ramfs
  imports Kernel_Inode Kernel_Ids
begin

unbundle bit_operations_syntax

text \<open>
  The memory file system, \<^verbatim>\<open>source/drivers/filesystem/ramfs/ramfs.c\<close>: a loadable file system whose directories, links
  and files are heap objects. An inode and its name are one heap object, so that \<^verbatim>\<open>kfree( inode->name )\<close> passes a
  pointer that \<^verbatim>\<open>kmalloc\<close> never returned and panics. Offsets in files are 64-bit signed, sizes of heap blocks 32-bit.
\<close>

section \<open>Data\<close>

record ramfs_inode_t =
  ri_inode_number :: int
  ri_name :: "byte list"
  ri_is_directory :: bool
  ri_data :: "byte list option"
  ri_size :: nat
  ri_link_path :: "byte list option"
  ri_link_count :: int
  ri_is_loaded :: bool
  ri_atime :: int
  ri_mtime :: int
  ri_ctime :: int
  ri_parent :: vptr
  ri_first_children :: vptr
  ri_prev_sibling :: vptr
  ri_next_sibling :: vptr

datatype ramfs_file_cookie = Dir_cookie int | File_cookie u32

record ramfs_cookie_t =
  rs_inodes :: "addr \<rightharpoonup> ramfs_inode_t"
  rs_inode_table :: "int \<rightharpoonup> addr"
  rs_inode_id_counter :: int
  rs_root_inode :: vptr
  rs_cookies :: "addr \<rightharpoonup> ramfs_file_cookie"
  rs_now :: int

text \<open>The heap: an inode with room for a name of \<open>n\<close> bytes and one more, a cookie, and a block of bytes.\<close>

record ramfs_env =
  rme_inode :: "ramfs_cookie_t \<Rightarrow> nat \<Rightarrow> (addr \<times> byte list) option"
  rme_cookie :: "ramfs_cookie_t \<Rightarrow> vptr"
  rme_bytes :: "byte alloc"

definition upd_ri :: "addr \<Rightarrow> (ramfs_inode_t \<Rightarrow> ramfs_inode_t) \<Rightarrow> ramfs_cookie_t \<Rightarrow> ramfs_cookie_t option" where
  "upd_ri a f s = do {
     n \<leftarrow> rs_inodes s a;
     Some (s\<lparr> rs_inodes := (rs_inodes s)(a \<mapsto> f n) \<rparr>) }"

definition upd_ri_ptr :: "vptr \<Rightarrow> (ramfs_inode_t \<Rightarrow> ramfs_inode_t) \<Rightarrow> ramfs_cookie_t \<Rightarrow> ramfs_cookie_t option" where
  "upd_ri_ptr p f s = (case p of None \<Rightarrow> Some s | Some a \<Rightarrow> upd_ri a f s)"

definition O_TRUNC :: u32 where "O_TRUNC = 0x200"
definition O_APPEND :: u32 where "O_APPEND = 0x400"

section \<open>Inodes\<close>

text \<open>The name is copied without a terminating zero: the last byte of the name is what the heap block held.\<close>

definition ramfs_create_inode ::
    "ramfs_env \<Rightarrow> vptr \<Rightarrow> byte list \<Rightarrow> nat \<Rightarrow> bool \<Rightarrow> ramfs_cookie_t \<Rightarrow> (vptr \<times> ramfs_cookie_t) option" where
  "ramfs_create_inode E parent name len is_directory s = (case rme_inode E s len of
       None \<Rightarrow> Some (None, s)
     | Some (a, room) \<Rightarrow> do {
         buf \<leftarrow> strncpy room name len;
         next \<leftarrow> (case parent of None \<Rightarrow> Some None
                | Some p \<Rightarrow> do { pn \<leftarrow> rs_inodes s p; Some (ri_first_children pn) });
         let s = s\<lparr> rs_inodes := (rs_inodes s)(a \<mapsto> \<lparr> ri_inode_number = 0, ri_name = buf, ri_is_directory = is_directory,
                ri_data = None, ri_size = 0, ri_link_path = None, ri_link_count = 1, ri_is_loaded = False,
                ri_atime = rs_now s, ri_mtime = rs_now s, ri_ctime = rs_now s, ri_parent = parent, ri_first_children = None,
                ri_prev_sibling = None, ri_next_sibling = next \<rparr>) \<rparr>;
         s \<leftarrow> upd_ri_ptr next (\<lambda>n. n\<lparr> ri_prev_sibling := Some a \<rparr>) s;
         s \<leftarrow> upd_ri_ptr parent (\<lambda>n. n\<lparr> ri_first_children := Some a \<rparr>) s;
         (ino, counter) \<leftarrow> fresh_ino (rs_inode_table s) (rs_inode_id_counter s);
         s \<leftarrow> upd_ri a (\<lambda>n. n\<lparr> ri_inode_number := ino \<rparr>) s;
         Some (Some a, s\<lparr> rs_inode_id_counter := counter, rs_inode_table := (rs_inode_table s)(ino \<mapsto> a) \<rparr>) })"

text \<open>An inode that is not loaded is freed, with \<^verbatim>\<open>kfree\<close> on its name.\<close>

definition ramfs_delete_inode :: "addr \<Rightarrow> ramfs_cookie_t \<Rightarrow> ramfs_cookie_t option" where
  "ramfs_delete_inode a s = do {
     n \<leftarrow> rs_inodes s a;
     s \<leftarrow> (if 0 < ri_link_count n then do {
         p \<leftarrow> ri_parent n;
         pn \<leftarrow> rs_inodes s p;
         s \<leftarrow> (if ri_first_children pn = Some a then upd_ri p (\<lambda>n'. n'\<lparr> ri_first_children := ri_next_sibling n \<rparr>) s else Some s);
         s \<leftarrow> upd_ri_ptr (ri_prev_sibling n) (\<lambda>n'. n'\<lparr> ri_next_sibling := ri_next_sibling n \<rparr>) s;
         s \<leftarrow> upd_ri_ptr (ri_next_sibling n) (\<lambda>n'. n'\<lparr> ri_prev_sibling := ri_prev_sibling n \<rparr>) s;
         upd_ri a (\<lambda>n'. n'\<lparr> ri_link_count := ri_link_count n' - 1 \<rparr>) s }
       else Some s);
     n \<leftarrow> rs_inodes s a;
     if ri_link_count n \<noteq> 0 then None
     else if \<not> ri_is_loaded n then None
     else Some s }"

text \<open>Mounting, with the answers for the cookie, the hash table and the mutex; unmounting frees the names of all inodes
  of the table, given in the order of its buckets.\<close>

definition ramfs_mount ::
    "ramfs_env \<Rightarrow> bool \<Rightarrow> errno + unit \<Rightarrow> errno + unit \<Rightarrow> int \<Rightarrow> ((errno + int) \<times> ramfs_cookie_t) option" where
  "ramfs_mount E cookie table mutex now =
     (let s = \<lparr> rs_inodes = (\<lambda>_. None), rs_inode_table = (\<lambda>_. None), rs_inode_id_counter = 0, rs_root_inode = None,
            rs_cookies = (\<lambda>_. None), rs_now = now \<rparr>
      in if \<not> cookie then Some (Inl ENOMEM, s)
         else case table of Inl e \<Rightarrow> Some (Inl e, s)
           | Inr _ \<Rightarrow> (case mutex of Inl e \<Rightarrow> Some (Inl e, s)
               | Inr _ \<Rightarrow> do {
                   (root, s) \<leftarrow> ramfs_create_inode E None [0] 0 True s;
                   case root of
                     None \<Rightarrow> Some (Inl ENOMEM, s)
                   | Some a \<Rightarrow> do {
                       n \<leftarrow> rs_inodes s a;
                       Some (Inr (ri_inode_number n), s\<lparr> rs_root_inode := Some a \<rparr>) } }))"

primrec ramfs_unmount :: "addr list \<Rightarrow> ramfs_cookie_t \<Rightarrow> (errno + unit) option" where
  "ramfs_unmount [] s = Some (Inr ())"
| "ramfs_unmount (a # items) s = None"

definition ramfs_read_inode :: "int \<Rightarrow> (ramfs_cookie_t, addr) fs_op" where
  "ramfs_read_inode inode_number s = (case rs_inode_table s inode_number of
       None \<Rightarrow> Some (Inl ENOINO, s)
     | Some a \<Rightarrow> do {
         n \<leftarrow> rs_inodes s a;
         if ri_is_loaded n then None
         else do {
           s \<leftarrow> upd_ri a (\<lambda>n. n\<lparr> ri_is_loaded := True \<rparr>) s;
           Some (Inr a, s) } })"

definition ramfs_write_inode :: "addr \<Rightarrow> (ramfs_cookie_t, unit) fs_op" where
  "ramfs_write_inode a s = do {
     n \<leftarrow> rs_inodes s a;
     if \<not> ri_is_loaded n then None
     else do {
       s \<leftarrow> upd_ri a (\<lambda>n. n\<lparr> ri_is_loaded := False \<rparr>) s;
       s \<leftarrow> (if ri_link_count n = 0 then ramfs_delete_inode a s else Some s);
       Some (Inr (), s) } }"

section \<open>Lookup\<close>

definition ri_name_is :: "ramfs_inode_t \<Rightarrow> byte list \<Rightarrow> nat \<Rightarrow> bool option" where
  "ri_name_is n name len = do {
     k \<leftarrow> strlen (ri_name n);
     if k = len then do { c \<leftarrow> strncmp (ri_name n) name len; Some (c = 0) } else Some False }"

partial_function (option) ramfs_lookup_loop :: "ramfs_cookie_t \<Rightarrow> byte list \<Rightarrow> nat \<Rightarrow> vptr \<Rightarrow> vptr option" where
  "ramfs_lookup_loop s name len p =
     (if p = None then Some None
      else do {
         a \<leftarrow> p;
         n \<leftarrow> rs_inodes s a;
         hit \<leftarrow> ri_name_is n name len;
         if hit then Some (Some a) else ramfs_lookup_loop s name len (ri_next_sibling n) })"

definition ramfs_do_lookup_inode :: "addr \<Rightarrow> byte list \<Rightarrow> nat \<Rightarrow> ramfs_cookie_t \<Rightarrow> vptr option" where
  "ramfs_do_lookup_inode parent name len s = do {
     p \<leftarrow> rs_inodes s parent;
     dots \<leftarrow> (if len = 2 then do { c \<leftarrow> strncmp name [46, 46, 0] 2; Some (c = 0) } else Some False);
     if dots then Some (ri_parent p) else ramfs_lookup_loop s name len (ri_first_children p) }"

definition ramfs_lookup_inode :: "addr \<Rightarrow> byte list \<Rightarrow> nat \<Rightarrow> (ramfs_cookie_t, int) fs_op" where
  "ramfs_lookup_inode parent name len s = do {
     inode \<leftarrow> ramfs_do_lookup_inode parent name len s;
     case inode of
       None \<Rightarrow> Some (Inl ENOENT, s)
     | Some a \<Rightarrow> do { n \<leftarrow> rs_inodes s a; Some (Inr (ri_inode_number n), s) } }"

section \<open>Opening\<close>

definition ramfs_open_directory :: "ramfs_env \<Rightarrow> (ramfs_cookie_t, addr) fs_op" where
  "ramfs_open_directory E s = (case rme_cookie E s of
       None \<Rightarrow> Some (Inl ENOMEM, s)
     | Some c \<Rightarrow> Some (Inr c, s\<lparr> rs_cookies := (rs_cookies s)(c \<mapsto> Dir_cookie 0) \<rparr>))"

definition ramfs_open_file :: "ramfs_env \<Rightarrow> addr \<Rightarrow> u32 \<Rightarrow> (ramfs_cookie_t, addr) fs_op" where
  "ramfs_open_file E inode flags s = (case rme_cookie E s of
       None \<Rightarrow> Some (Inl ENOMEM, s)
     | Some c \<Rightarrow> do {
         let s = s\<lparr> rs_cookies := (rs_cookies s)(c \<mapsto> File_cookie flags) \<rparr>;
         s \<leftarrow> (if flags AND 3 \<noteq> 0 \<and> flags AND O_TRUNC \<noteq> 0
             then upd_ri inode (\<lambda>n. n\<lparr> ri_data := None, ri_size := 0 \<rparr>) s else Some s);
         Some (Inr c, s) })"

definition ramfs_open :: "ramfs_env \<Rightarrow> addr \<Rightarrow> u32 \<Rightarrow> (ramfs_cookie_t, addr) fs_op" where
  "ramfs_open E node mode s = do {
     n \<leftarrow> rs_inodes s node;
     if ri_is_directory n then ramfs_open_directory E s else ramfs_open_file E node mode s }"

definition ramfs_close :: "addr \<Rightarrow> addr \<Rightarrow> (ramfs_cookie_t, unit) fs_op" where
  "ramfs_close node cookie s = Some (Inr (), s)"

definition ramfs_free_cookie :: "addr \<Rightarrow> addr \<Rightarrow> (ramfs_cookie_t, unit) fs_op" where
  "ramfs_free_cookie node cookie s = Some (Inr (), s\<lparr> rs_cookies := (rs_cookies s)(cookie := None) \<rparr>)"

section \<open>Data\<close>

text \<open>The result of a read is what has been copied to the buffer.\<close>

definition ramfs_read :: "addr \<Rightarrow> addr \<Rightarrow> int \<Rightarrow> nat \<Rightarrow> (ramfs_cookie_t, byte list) fs_op" where
  "ramfs_read node cookie pos len s =
     (if pos < 0 then Some (Inl EINVAL, s)
      else if len = 0 then Some (Inr [], s)
      else do {
        n \<leftarrow> rs_inodes s node;
        case ri_data n of
          None \<Rightarrow> Some (Inr [], s)
        | Some data \<Rightarrow>
            if int (ri_size n) \<le> pos then Some (Inr [], s)
            else do {
              let len = (if int (ri_size n) < pos + int len then nat (int (ri_size n) - pos) else len);
              if length data < nat pos + len then None
              else do {
                s \<leftarrow> upd_ri node (\<lambda>n. n\<lparr> ri_atime := rs_now s \<rparr>) s;
                Some (Inr (take len (drop (nat pos) data)), s) } } })"

text \<open>A write beyond the end moves the data to a block of \<^verbatim>\<open>pos + size\<close> bytes, a number that is cut to 32 bits; the
  address of the copy is computed in 32 bits as well.\<close>

definition grow_data :: "ramfs_env \<Rightarrow> ramfs_inode_t \<Rightarrow> int \<Rightarrow> byte list option option" where
  "grow_data E n end_pos = (case rme_bytes E (u32_of (nat end_pos)) of
       None \<Rightarrow> Some None
     | Some block \<Rightarrow> (case ri_data n of
           None \<Rightarrow> Some (Some block)
         | Some data \<Rightarrow> do { block \<leftarrow> memcpy block data (ri_size n); Some (Some block) }))"

definition ramfs_write :: "ramfs_env \<Rightarrow> addr \<Rightarrow> addr \<Rightarrow> byte list \<Rightarrow> int \<Rightarrow> (ramfs_cookie_t, nat) fs_op" where
  "ramfs_write E node cookie buffer pos s =
     (if pos < 0 then Some (Inl EINVAL, s)
      else if length buffer = 0 then Some (Inr 0, s)
      else do {
        n \<leftarrow> rs_inodes s node;
        c \<leftarrow> rs_cookies s cookie;
        flags \<leftarrow> (case c of File_cookie flags \<Rightarrow> Some flags | Dir_cookie p \<Rightarrow> Some (word_of_int p));
        let pos = (if flags AND O_APPEND \<noteq> 0 then int (ri_size n) else pos);
        new_data \<leftarrow> (if int (ri_size n) < pos + int (length buffer) \<or> ri_data n = None
            then grow_data E n (pos + int (length buffer)) else Some (ri_data n));
        case new_data of
          None \<Rightarrow> Some (Inl ENOMEM, s)
        | Some data \<Rightarrow> do {
            let at = u32_of (nat pos);
            rest \<leftarrow> memcpy (drop at data) buffer (length buffer);
            s \<leftarrow> upd_ri node (\<lambda>n. n\<lparr> ri_data := Some (take at data @ rest),
              ri_size := (if int (ri_size n) < pos + int (length buffer) \<or> ri_data n = None
                then u32_of (nat (pos + int (length buffer))) else ri_size n) \<rparr>) s;
            parent \<leftarrow> ri_parent n;
            s \<leftarrow> upd_ri parent (\<lambda>n. n\<lparr> ri_mtime := rs_now s \<rparr>) s;
            Some (Inr (length buffer), s) } })"

definition ramfs_read_stat :: "addr \<Rightarrow> (ramfs_cookie_t, stat_t) fs_op" where
  "ramfs_read_stat node s = do {
     n \<leftarrow> rs_inodes s node;
     Some (Inr \<lparr> st_ino = ri_inode_number n,
       st_mode = 0x1FF OR (if ri_link_path n \<noteq> None then S_IFLNK else if ri_is_directory n then S_IFDIR else S_IFREG),
       st_size = int (ri_size n), st_atime = ri_atime n, st_mtime = ri_mtime n, st_ctime = ri_ctime n \<rparr>, s) }"

definition ramfs_write_stat :: "addr \<Rightarrow> stat_t \<Rightarrow> u32 \<Rightarrow> (ramfs_cookie_t, unit) fs_op" where
  "ramfs_write_stat node st msk s = do {
     s \<leftarrow> upd_ri node (\<lambda>n. n\<lparr>
       ri_atime := (if msk AND 0x400 \<noteq> 0 then st_atime st else ri_atime n),
       ri_mtime := (if msk AND 0x800 \<noteq> 0 then st_mtime st else ri_mtime n),
       ri_ctime := (if msk AND 0x1000 \<noteq> 0 then st_ctime st else ri_ctime n) \<rparr>) s;
     Some (Inr (), s) }"

section \<open>Directories\<close>

partial_function (option) ramfs_nth_child :: "ramfs_cookie_t \<Rightarrow> int \<Rightarrow> int \<Rightarrow> vptr \<Rightarrow> vptr option" where
  "ramfs_nth_child s position current p =
     (if p = None then Some None
      else if current = position then Some p
      else do { a \<leftarrow> p; n \<leftarrow> rs_inodes s a; ramfs_nth_child s position (current + 1) (ri_next_sibling n) })"

definition ramfs_read_directory :: "addr \<Rightarrow> addr \<Rightarrow> byte list \<Rightarrow> (ramfs_cookie_t, dirent_t option) fs_op" where
  "ramfs_read_directory node cookie buf s = do {
     n \<leftarrow> rs_inodes s node;
     if \<not> ri_is_directory n then None
     else do {
       c \<leftarrow> rs_cookies s cookie;
       position \<leftarrow> (case c of Dir_cookie p \<Rightarrow> Some p | File_cookie f \<Rightarrow> Some (sint f));
       child \<leftarrow> ramfs_nth_child s position 0 (ri_first_children n);
       (r, s) \<leftarrow> (case child of
         None \<Rightarrow> Some (None, s)
       | Some a \<Rightarrow> do {
           x \<leftarrow> rs_inodes s a;
           buf \<leftarrow> strncpy buf (ri_name x) 255;
           buf \<leftarrow> write_cell (Some buf) 254 0;
           Some (Some \<lparr> d_inode_number = ri_inode_number x, d_name = buf \<rparr>,
             s\<lparr> rs_cookies := (rs_cookies s)(cookie \<mapsto> Dir_cookie (position + 1)) \<rparr>) });
       s \<leftarrow> upd_ri node (\<lambda>n. n\<lparr> ri_atime := rs_now s \<rparr>) s;
       Some (Inr r, s) } }"

definition ramfs_rewind_directory :: "addr \<Rightarrow> addr \<Rightarrow> (ramfs_cookie_t, unit) fs_op" where
  "ramfs_rewind_directory node cookie s = do {
     c \<leftarrow> rs_cookies s cookie;
     Some (Inr (), s\<lparr> rs_cookies := (rs_cookies s)(cookie \<mapsto> Dir_cookie 0) \<rparr>) }"

definition ramfs_create :: "ramfs_env \<Rightarrow> addr \<Rightarrow> byte list \<Rightarrow> nat \<Rightarrow> u32 \<Rightarrow> u32 \<Rightarrow> (ramfs_cookie_t, int \<times> addr) fs_op" where
  "ramfs_create E node name len mode perms s = do {
     old \<leftarrow> ramfs_do_lookup_inode node name len s;
     if old \<noteq> None then Some (Inl EEXIST, s)
     else do {
       (new_inode, s) \<leftarrow> ramfs_create_inode E (Some node) name len False s;
       case new_inode of
         None \<Rightarrow> Some (Inl ENOMEM, s)
       | Some a \<Rightarrow> do {
           (r, s) \<leftarrow> ramfs_open_file E a mode s;
           case r of
             Inl e \<Rightarrow> do { s \<leftarrow> ramfs_delete_inode a s; Some (Inl e, s) }
           | Inr c \<Rightarrow> do { n \<leftarrow> rs_inodes s a; Some (Inr (ri_inode_number n, c), s) } } } }"

definition ramfs_unlink :: "addr \<Rightarrow> byte list \<Rightarrow> nat \<Rightarrow> (ramfs_cookie_t, unit) fs_op" where
  "ramfs_unlink node name len s = do {
     inode \<leftarrow> ramfs_do_lookup_inode node name len s;
     case inode of
       None \<Rightarrow> Some (Inl ENOENT, s)
     | Some a \<Rightarrow> do {
         n \<leftarrow> rs_inodes s a;
         if ri_is_directory n then Some (Inl EISDIR, s)
         else do { s \<leftarrow> ramfs_delete_inode a s; Some (Inr (), s) } } }"

definition ri_touch_mtime :: "addr \<Rightarrow> ramfs_cookie_t \<Rightarrow> ramfs_cookie_t option" where
  "ri_touch_mtime a s = upd_ri a (\<lambda>n. n\<lparr> ri_mtime := rs_now s \<rparr>) s"

definition ramfs_mkdir :: "ramfs_env \<Rightarrow> addr \<Rightarrow> byte list \<Rightarrow> nat \<Rightarrow> u32 \<Rightarrow> (ramfs_cookie_t, unit) fs_op" where
  "ramfs_mkdir E node name len permissions s = do {
     p \<leftarrow> rs_inodes s node;
     if \<not> ri_is_directory p then Some (Inl EINVAL, s)
     else do {
       old \<leftarrow> ramfs_do_lookup_inode node name len s;
       if old \<noteq> None then Some (Inl EEXIST, s)
       else do {
         (new_inode, s) \<leftarrow> ramfs_create_inode E (Some node) name len True s;
         case new_inode of
           None \<Rightarrow> Some (Inl ENOMEM, s)
         | Some a \<Rightarrow> do { s \<leftarrow> ri_touch_mtime node s; Some (Inr (), s) } } } }"

definition ramfs_rmdir :: "addr \<Rightarrow> byte list \<Rightarrow> nat \<Rightarrow> (ramfs_cookie_t, unit) fs_op" where
  "ramfs_rmdir node name len s = do {
     inode \<leftarrow> ramfs_do_lookup_inode node name len s;
     case inode of
       None \<Rightarrow> Some (Inl ENOENT, s)
     | Some a \<Rightarrow> do {
         n \<leftarrow> rs_inodes s a;
         if \<not> ri_is_directory n then Some (Inl ENOTDIR, s)
         else if ri_first_children n \<noteq> None then Some (Inl ENOTEMPTY, s)
         else do {
           s \<leftarrow> ramfs_delete_inode a s;
           s \<leftarrow> ri_touch_mtime node s;
           Some (Inr (), s) } } }"

definition ramfs_symlink :: "ramfs_env \<Rightarrow> addr \<Rightarrow> byte list \<Rightarrow> nat \<Rightarrow> byte list \<Rightarrow> (ramfs_cookie_t, unit) fs_op" where
  "ramfs_symlink E node name len link_path s = do {
     old \<leftarrow> ramfs_do_lookup_inode node name len s;
     if old \<noteq> None then Some (Inl EEXIST, s)
     else do {
       p \<leftarrow> rs_inodes s node;
       if \<not> ri_is_directory p then Some (Inl EINVAL, s)
       else do {
         (new_node, s) \<leftarrow> ramfs_create_inode E (Some node) name len True s;
         case new_node of
           None \<Rightarrow> Some (Inl ENOMEM, s)
         | Some a \<Rightarrow> do {
             path \<leftarrow> strdup (rme_bytes E) link_path;
             s \<leftarrow> upd_ri a (\<lambda>n. n\<lparr> ri_link_path := path \<rparr>) s;
             case path of
               None \<Rightarrow> do { s \<leftarrow> ramfs_delete_inode a s; Some (Inl ENOMEM, s) }
             | Some _ \<Rightarrow> do { s \<leftarrow> ri_touch_mtime node s; Some (Inr (), s) } } } } }"

definition ramfs_readlink :: "addr \<Rightarrow> byte list \<Rightarrow> nat \<Rightarrow> (ramfs_cookie_t, byte list) fs_op" where
  "ramfs_readlink node buffer len s = do {
     n \<leftarrow> rs_inodes s node;
     case ri_link_path n of
       None \<Rightarrow> Some (Inl EINVAL, s)
     | Some path \<Rightarrow> do {
         buffer \<leftarrow> strncpy buffer path len;
         buffer \<leftarrow> write_cell (Some buffer) (int len - 1) 0;
         s \<leftarrow> upd_ri node (\<lambda>n. n\<lparr> ri_atime := rs_now s \<rparr>) s;
         Some (Inr buffer, s) } }"

definition ramfs_calls :: "ramfs_env \<Rightarrow> byte \<Rightarrow> ramfs_cookie_t filesystem_calls" where
  "ramfs_calls E fill = \<lparr> fs_read_inode = ramfs_read_inode, fs_write_inode = Some ramfs_write_inode,
     fs_lookup_inode = ramfs_lookup_inode, fs_open = Some (ramfs_open E), fs_close = Some ramfs_close,
     fs_free_cookie = Some ramfs_free_cookie, fs_read = Some ramfs_read, fs_write = Some (ramfs_write E),
     fs_read_stat = Some ramfs_read_stat, fs_write_stat = Some ramfs_write_stat,
     fs_read_directory = Some (\<lambda>node cookie. ramfs_read_directory node cookie (replicate 256 fill)),
     fs_rewind_directory = Some ramfs_rewind_directory, fs_create = Some (ramfs_create E), fs_unlink = Some ramfs_unlink,
     fs_mkdir = Some (ramfs_mkdir E), fs_rmdir = Some ramfs_rmdir, fs_isatty = None, fs_symlink = Some (ramfs_symlink E),
     fs_readlink = Some (\<lambda>node len. ramfs_readlink node (replicate len fill) len), fs_set_flags = None \<rparr>"

end
