(* ===== verification/Kernel_Ramfs_Safety.thy ===== *)
theory Kernel_Ramfs_Safety
  imports Kernel_Ramfs Kernel_Inode_Safety
begin

unbundle bit_operations_syntax

text \<open>
  The memory file system: its side of the contract of the inode cache, the contents of a file as a list of bytes
  with the effect of reads and writes on it, and the release of an unlinked file.
\<close>

section \<open>Loading\<close>

definition ramfs_inv :: "ramfs_cookie_t \<Rightarrow> bool" where
  "ramfs_inv s \<longleftrightarrow> (\<forall>k a. rs_inode_table s k = Some a \<longrightarrow>
     (\<exists>n. rs_inodes s a = Some n \<and> ri_inode_number n = k \<and> 0 < ri_link_count n))"

definition ramfs_loaded :: "ramfs_cookie_t \<Rightarrow> int \<rightharpoonup> addr" where
  "ramfs_loaded s k = (case rs_inode_table s k of None \<Rightarrow> None
     | Some a \<Rightarrow> (case rs_inodes s a of None \<Rightarrow> None | Some n \<Rightarrow> if ri_is_loaded n then Some a else None))"

lemma ramfs_invD:
  "ramfs_inv s \<Longrightarrow> rs_inode_table s k = Some a \<Longrightarrow>
     \<exists>n. rs_inodes s a = Some n \<and> ri_inode_number n = k \<and> 0 < ri_link_count n"
  by (simp add: ramfs_inv_def)

lemma ramfs_set_loaded:
  assumes inv: "ramfs_inv s" and t: "rs_inode_table s k = Some a" and n: "rs_inodes s a = Some n"
    and s': "s' = s\<lparr> rs_inodes := (rs_inodes s)(a \<mapsto> n\<lparr> ri_is_loaded := b \<rparr>) \<rparr>"
  shows "ramfs_inv s'" and "ramfs_loaded s' = (ramfs_loaded s)(k := if b then Some a else None)"
proof -
  show "ramfs_inv s'" using inv n by (fastforce simp: ramfs_inv_def s')
  have k: "ri_inode_number n = k" using ramfs_invD [OF inv t] n by auto
  show "ramfs_loaded s' = (ramfs_loaded s)(k := if b then Some a else None)"
  proof
    fix j
    show "ramfs_loaded s' j = ((ramfs_loaded s)(k := if b then Some a else None)) j"
    proof (cases "rs_inode_table s j = Some a")
      case True
      then have "j = k" using ramfs_invD [OF inv True] n k by auto
      then show ?thesis using True by (simp add: ramfs_loaded_def s')
    next
      case False
      then have "j \<noteq> k" using t by auto
      then show ?thesis using False by (auto simp: ramfs_loaded_def s' split: option.splits)
    qed
  qed
qed

interpretation ramfs_driver: inode_driver ramfs_loaded ramfs_inv "ramfs_calls E fill" ramfs_write_inode for E fill
proof
  show "fs_write_inode (ramfs_calls E fill) = Some ramfs_write_inode" by (simp add: ramfs_calls_def)
  fix s k node
  assume inv: "ramfs_inv s"
  show "\<exists>r s'. fs_read_inode (ramfs_calls E fill) k s = Some (r, s') \<and> ramfs_inv s' \<and>
    (case r of Inl _ \<Rightarrow> ramfs_loaded s' = ramfs_loaded s | Inr node \<Rightarrow> ramfs_loaded s' = (ramfs_loaded s)(k \<mapsto> node))"
    if "ramfs_loaded s k = None"
  proof (cases "rs_inode_table s k")
    case None
    then show ?thesis using inv by (simp add: ramfs_calls_def ramfs_read_inode_def)
  next
    case (Some a)
    then obtain n where n: "rs_inodes s a = Some n" using ramfs_invD [OF inv] by blast
    then have "\<not> ri_is_loaded n" using that Some by (simp add: ramfs_loaded_def split: if_splits)
    then show ?thesis using Some n ramfs_set_loaded [OF inv Some n refl, of True]
      by (simp add: ramfs_calls_def ramfs_read_inode_def upd_ri_def)
  qed
  show "\<exists>r s'. ramfs_write_inode node s = Some (r, s') \<and> ramfs_inv s' \<and> ramfs_loaded s' = (ramfs_loaded s)(k := None)"
    if ld: "ramfs_loaded s k = Some node"
  proof -
    obtain n where n: "rs_inode_table s k = Some node" "rs_inodes s node = Some n" "ri_is_loaded n"
      using ld by (auto simp: ramfs_loaded_def split: option.splits if_splits)
    then have "ri_link_count n \<noteq> 0" using ramfs_invD [OF inv n(1)] by auto
    then show ?thesis using n ramfs_set_loaded [OF inv n(1,2) refl, of False]
      by (simp add: ramfs_write_inode_def upd_ri_def)
  qed
qed

section \<open>Contents of files\<close>

definition ramfs_contents :: "ramfs_cookie_t \<Rightarrow> addr \<Rightarrow> byte list" where
  "ramfs_contents s a = (case rs_inodes s a of None \<Rightarrow> []
     | Some n \<Rightarrow> (case ri_data n of None \<Rightarrow> [] | Some data \<Rightarrow> take (ri_size n) data))"

definition ramfs_file_ok :: "ramfs_cookie_t \<Rightarrow> addr \<Rightarrow> bool" where
  "ramfs_file_ok s a = (case rs_inodes s a of None \<Rightarrow> False
     | Some n \<Rightarrow> (case ri_data n of None \<Rightarrow> ri_size n = 0 | Some data \<Rightarrow> ri_size n \<le> length data))"

lemma ramfs_read_contents:
  assumes ok: "ramfs_file_ok s a" and pos: "0 \<le> pos"
  shows "\<exists>s'. ramfs_read a c pos len s = Some (Inr (take len (drop (nat pos) (ramfs_contents s a))), s') \<and>
    ramfs_contents s' = ramfs_contents s"
proof -
  obtain n where n: "rs_inodes s a = Some n" using ok by (auto simp: ramfs_file_ok_def split: option.splits)
  show ?thesis
  proof (cases "len = 0 \<or> ri_data n = None \<or> int (ri_size n) \<le> pos")
    case True
    then show ?thesis using n pos
      by (auto simp: ramfs_read_def ramfs_contents_def nat_le_iff split: option.splits)
  next
    case False
    then obtain data where d: "ri_data n = Some data" "0 < len" "nat pos < ri_size n" "ri_size n \<le> length data"
      using ok n pos by (auto simp: ramfs_file_ok_def)
    let ?s = "s\<lparr> rs_inodes := (rs_inodes s)(a \<mapsto> n\<lparr> ri_atime := rs_now s \<rparr>) \<rparr>"
    let ?l = "if int (ri_size n) < pos + int len then nat (int (ri_size n) - pos) else len"
    have l: "nat pos + ?l \<le> length data" "?l = min len (ri_size n - nat pos)" using d pos by auto
    have "ramfs_read a c pos len s = Some (Inr (take ?l (drop (nat pos) data)), ?s)"
      using False n d pos l(1) by (simp add: ramfs_read_def upd_ri_def Let_def)
    moreover have "take ?l (drop (nat pos) data) = take len (drop (nat pos) (ramfs_contents s a))"
      using n d l(2) by (simp add: ramfs_contents_def drop_take)
    moreover have "ramfs_contents ?s = ramfs_contents s" using n by (auto simp: ramfs_contents_def fun_eq_iff split: option.splits)
    ultimately show ?thesis by metis
  qed
qed
text \<open>The position a write starts at: with \<^verbatim>\<open>O_APPEND\<close>, the end of the file.\<close>

definition write_pos :: "ramfs_cookie_t \<Rightarrow> addr \<Rightarrow> u32 \<Rightarrow> int \<Rightarrow> nat" where
  "write_pos s a flags pos = (if flags AND O_APPEND \<noteq> 0 then length (ramfs_contents s a) else nat pos)"

lemma write_block:
  assumes "at + length buf \<le> length data"
  shows "memcpy (drop at data) buf (length buf) = Some (buf @ drop (at + length buf) data)"
  using assms by (simp add: memcpy_eq add.commute)

lemma grow_data_eq:
  assumes al: "allocator (rme_bytes E)" and ok: "ramfs_file_ok s a" and n: "rs_inodes s a = Some n"
    and e: "int (ri_size n) \<le> e" "e < 4294967296"
  shows "grow_data E n e = Some None \<or> (\<exists>hole. int (length (ramfs_contents s a @ hole)) = e \<and>
    grow_data E n e = Some (Some (ramfs_contents s a @ hole)))"
proof (cases "rme_bytes E (u32_of (nat e))")
  case None
  then show ?thesis by (simp add: grow_data_def)
next
  case (Some b)
  have l: "length b = nat e" using allocator.km_length [OF al Some] e by simp
  show ?thesis
  proof (cases "ri_data n")
    case None
    then have "ramfs_contents s a = []" using n by (simp add: ramfs_contents_def)
    then show ?thesis using Some None l e by (simp add: grow_data_def)
  next
    case (Some data)
    then have c: "ramfs_contents s a = take (ri_size n) data" "ri_size n \<le> length data"
      using ok n by (simp_all add: ramfs_contents_def ramfs_file_ok_def)
    then have "memcpy b data (ri_size n) = Some (ramfs_contents s a @ drop (ri_size n) b)"
      using l e by (simp add: memcpy_eq)
    moreover have "int (length (ramfs_contents s a @ drop (ri_size n) b)) = e" using c l e by simp
    ultimately show ?thesis using \<open>rme_bytes E (u32_of (nat e)) = Some b\<close> Some
      by (intro disjI2 exI [of _ "drop (ri_size n) b"]) (simp add: grow_data_def)
  qed
qed

text \<open>Changes of an inode that leave the data of the file alone.\<close>

lemma upd_ri_contents:
  assumes "rs_inodes s p \<noteq> None" and "\<And>n. ri_data (f n) = ri_data n" and "\<And>n. ri_size (f n) = ri_size n"
  shows "\<exists>s'. upd_ri p f s = Some s' \<and> ramfs_contents s' = ramfs_contents s \<and> ramfs_file_ok s' = ramfs_file_ok s"
  using assms
  by (auto simp: upd_ri_def ramfs_contents_def ramfs_file_ok_def fun_eq_iff split: option.splits)

text \<open>The tail of a write: the block \<open>data\<close> of the file is filled, and \<open>z\<close> bytes of it become the file.\<close>

lemma fill_block:
  assumes n: "rs_inodes s a = Some n" and d: "at + length buf \<le> length data" "z \<le> length data"
    and p: "rs_inodes s p \<noteq> None"
    and g: "g n = n\<lparr> ri_data := Some (take at data @ buf @ drop (at + length buf) data), ri_size := z \<rparr>"
    and f: "\<And>n. ri_data (f n) = ri_data n" "\<And>n. ri_size (f n) = ri_size n"
  shows "\<exists>s2. Option.bind (upd_ri a g s) (upd_ri p f) = Some s2 \<and> ramfs_file_ok s2 = (ramfs_file_ok s)(a := True) \<and>
    ramfs_contents s2 = (ramfs_contents s)(a := take z (take at data @ buf @ drop (at + length buf) data))"
proof -
  let ?s = "s\<lparr> rs_inodes := (rs_inodes s)(a \<mapsto> g n) \<rparr>"
  have "rs_inodes ?s p \<noteq> None" using p by simp
  then obtain s2 where s2: "upd_ri p f ?s = Some s2" "ramfs_contents s2 = ramfs_contents ?s" "ramfs_file_ok s2 = ramfs_file_ok ?s"
    using upd_ri_contents [OF _ f] by blast
  have "upd_ri a g s = Some ?s" using n by (simp add: upd_ri_def)
  moreover have "ramfs_contents ?s = (ramfs_contents s)(a := take z (take at data @ buf @ drop (at + length buf) data))"
    using g by (simp add: ramfs_contents_def fun_eq_iff)
  moreover have "ramfs_file_ok ?s = (ramfs_file_ok s)(a := True)" using d g by (auto simp: ramfs_file_ok_def fun_eq_iff)
  ultimately show ?thesis using s2 by simp
qed

lemma ramfs_write_run:
  assumes n: "rs_inodes s a = Some n" "ri_parent n = Some p" "rs_inodes s p \<noteq> None"
    and c: "rs_cookies s c = Some (File_cookie flags)" and pos: "0 \<le> pos" and buf: "buf \<noteq> []"
    and at: "(if flags AND O_APPEND \<noteq> 0 then int (ri_size n) else pos) = int at" "at + length buf < 4294967296"
    and g: "grow \<longleftrightarrow> ri_size n < at + length buf \<or> ri_data n = None"
    and data: "(if grow then grow_data E n (int (at + length buf)) else Some (ri_data n)) = Some (Some data)"
    and z: "z = (if grow then at + length buf else ri_size n)"
    and len: "at + length buf \<le> length data" "z \<le> length data"
  shows "\<exists>s'. ramfs_write E a c buf pos s = Some (Inr (length buf), s') \<and> ramfs_file_ok s' = (ramfs_file_ok s)(a := True) \<and>
    ramfs_contents s' = (ramfs_contents s)(a := take z (take at data @ buf @ drop (at + length buf) data))"
proof -
  have m: "nat (int at) mod 4294967296 = at" "nat (int at + int (length buf)) mod 4294967296 = at + length buf"
    "int (ri_size n) < int at + int (length buf) \<longleftrightarrow> ri_size n < at + length buf"
    "at mod 4294967296 = at"
    using at(2) by (simp_all add: nat_add_distrib, linarith)
  let ?g = "\<lambda>n. n\<lparr> ri_data := Some (take at data @ buf @ drop (at + length buf) data),
    ri_size := (if int (ri_size n) < int at + int (length buf) \<or> ri_data n = None
       then nat (int at + int (length buf)) mod 4294967296 else ri_size n) \<rparr>"
  have "?g n = n\<lparr> ri_data := Some (take at data @ buf @ drop (at + length buf) data), ri_size := z \<rparr>"
    unfolding m z g by simp
  from fill_block [OF n(1) len n(3), of ?g, OF this, of "\<lambda>n. n\<lparr> ri_mtime := rs_now s \<rparr>"]
  obtain s2 where s2: "Option.bind (upd_ri a ?g s) (upd_ri p (\<lambda>n. n\<lparr> ri_mtime := rs_now s \<rparr>)) = Some s2"
    "ramfs_file_ok s2 = (ramfs_file_ok s)(a := True)"
    "ramfs_contents s2 = (ramfs_contents s)(a := take z (take at data @ buf @ drop (at + length buf) data))" by auto
  let ?s = "s\<lparr> rs_inodes := (rs_inodes s)(a \<mapsto> ?g n) \<rparr>"
  have u: "upd_ri a ?g s = Some ?s" using n(1) by (simp add: upd_ri_def)
  have v: "upd_ri p (\<lambda>n. n\<lparr> ri_mtime := rs_now ?s \<rparr>) ?s = Some s2" using s2(1) unfolding u by simp
  have d: "(if int (ri_size n) < int at + int (length buf) \<or> ri_data n = None
      then grow_data E n (int at + int (length buf)) else Some (ri_data n)) = Some (Some data)"
    using data unfolding m(3) g [symmetric] by (simp split: if_splits)
  have skip: "(pos < 0) = False" "(length buf = 0) = False" using pos buf by simp_all
  have "ramfs_write E a c buf pos s = Some (Inr (length buf), s2)"
    unfolding ramfs_write_def Let_def
    by (simp only: n(1,2) c at(1) d m(1) write_block [OF len(1)] u v skip bind.bind_lunit option.case ramfs_file_cookie.case
      if_False)
  then show ?thesis using s2(2,3) by blast
qed

text \<open>A write puts its bytes at its position; what is between the old end and the position is whatever the new
  block held.\<close>

lemma ramfs_write_contents:
  assumes al: "allocator (rme_bytes E)" and ok: "ramfs_file_ok s a" and n: "rs_inodes s a = Some n"
    and p: "ri_parent n = Some p" "rs_inodes s p \<noteq> None" and c: "rs_cookies s c = Some (File_cookie flags)"
    and at: "at = write_pos s a flags pos" and pos: "0 \<le> pos" and buf: "buf \<noteq> []"
    and e: "at + length buf < 4294967296"
  shows "ramfs_write E a c buf pos s = Some (Inl ENOMEM, s) \<or>
    (\<exists>s' hole. ramfs_write E a c buf pos s = Some (Inr (length buf), s') \<and> length hole = at - length (ramfs_contents s a) \<and>
       ramfs_file_ok s' = (ramfs_file_ok s)(a := True) \<and>
       ramfs_contents s' = (ramfs_contents s)(a := take at (ramfs_contents s a @ hole) @ buf @
         drop (at + length buf) (ramfs_contents s a)))"
proof -
  let ?c = "ramfs_contents s a" and ?e = "at + length buf"
  have size: "length ?c = ri_size n"
    using ok n by (auto simp: ramfs_contents_def ramfs_file_ok_def split: option.splits)
  have pos': "(if flags AND O_APPEND \<noteq> 0 then int (ri_size n) else pos) = int at"
    using at pos size by (simp add: write_pos_def)
  note run = ramfs_write_run [OF n p c pos buf pos' e refl _ refl]
  show ?thesis
  proof (cases "ri_size n < ?e \<or> ri_data n = None")
    case True
    then have le: "int (ri_size n) \<le> int ?e" using ok n by (auto simp: ramfs_file_ok_def)
    have "int ?e < 4294967296" using e by simp
    from grow_data_eq [OF al ok n le this] consider
      (fail) "grow_data E n (int ?e) = Some None"
    | (grown) hole where "length (?c @ hole) = ?e" "grow_data E n (int ?e) = Some (Some (?c @ hole))"
      by (metis of_nat_eq_iff)
    then show ?thesis
    proof cases
      case fail
      have skip: "(pos < 0) = False" "(length buf = 0) = False" using pos buf by simp_all
      have d: "(if int (ri_size n) < int at + int (length buf) \<or> ri_data n = None
          then grow_data E n (int at + int (length buf)) else Some (ri_data n)) = Some None"
        using fail True by (auto simp: algebra_simps)
      have "ramfs_write E a c buf pos s = Some (Inl ENOMEM, s)"
        unfolding ramfs_write_def Let_def
        by (simp only: n c pos' d skip bind.bind_lunit option.case ramfs_file_cookie.case if_False)
      then show ?thesis ..
    next
      case grown
      let ?h = "take (at - length ?c) hole"
      have "take at (?c @ hole) = take at (?c @ ?h)" "length (take at (?c @ hole)) = at" "drop ?e (?c @ hole) = []" "drop ?e ?c = []"
        using grown(1) by simp_all
      then have d: "take ?e (take at (?c @ hole) @ buf @ drop ?e (?c @ hole)) = take at (?c @ ?h) @ buf @ drop ?e ?c"
        by simp
      have h: "length ?h = at - length ?c" using grown(1) by auto
      have "\<exists>s'. ramfs_write E a c buf pos s = Some (Inr (length buf), s') \<and> ramfs_file_ok s' = (ramfs_file_ok s)(a := True) \<and>
          ramfs_contents s' = (ramfs_contents s)(a := take ?e (take at (?c @ hole) @ buf @ drop ?e (?c @ hole)))"
        using run [of E "?c @ hole"] True grown by (simp only: simp_thms if_True order_refl)
      then show ?thesis using h unfolding d by blast
    qed
  next
    case False
    then obtain data where d: "ri_data n = Some data" "?c = take (ri_size n) data" "?e \<le> ri_size n" "ri_size n \<le> length data"
      using ok n by (auto simp: ramfs_contents_def ramfs_file_ok_def)
    have d': "take (ri_size n) (take at data @ buf @ drop ?e data) = take at (?c @ []) @ buf @ drop ?e ?c"
      using d by (simp add: min_absorb1 min_absorb2 drop_take)
    have "\<exists>s'. ramfs_write E a c buf pos s = Some (Inr (length buf), s') \<and> ramfs_file_ok s' = (ramfs_file_ok s)(a := True) \<and>
        ramfs_contents s' = (ramfs_contents s)(a := take (ri_size n) (take at data @ buf @ drop ?e data))"
      using run [of E data] False d(1,3,4) by simp
    moreover have "length ([] :: byte list) = at - length ?c" using d(3) size by simp
    ultimately show ?thesis unfolding d' by blast
  qed
qed

text \<open>C40: Reads and writes of a file of the memory file system. A write of at least one byte that ends below 4 GB either fails
  with \<^verbatim>\<open>ENOMEM\<close> and changes nothing, or stores all its bytes at its position (with \<^verbatim>\<open>O_APPEND\<close>, at the end): a read at any
  position returns the bytes of the old contents around it and the written bytes in their place, cut at the end of the file.
  Bytes between the old end and the position are unspecified. No other file changes.\<close>

theorem ramfs_write_read:
  assumes "allocator (rme_bytes E)" and "ramfs_file_ok s a" and "rs_inodes s a = Some n"
    and "ri_parent n = Some p" and "rs_inodes s p \<noteq> None" and "rs_cookies s c = Some (File_cookie flags)"
    and "at = write_pos s a flags pos" and "0 \<le> pos" and "buf \<noteq> []" and "at + length buf < 4294967296"
  shows "ramfs_write E a c buf pos s = Some (Inl ENOMEM, s) \<or>
    (\<exists>s' hole. ramfs_write E a c buf pos s = Some (Inr (length buf), s') \<and> length hole = at - length (ramfs_contents s a) \<and>
       (\<forall>b. b \<noteq> a \<longrightarrow> ramfs_contents s' b = ramfs_contents s b) \<and>
       (\<forall>c' r l. 0 \<le> r \<longrightarrow> (\<exists>s''. ramfs_read a c' r l s' =
          Some (Inr (take l (drop (nat r) (take at (ramfs_contents s a @ hole) @ buf @
            drop (at + length buf) (ramfs_contents s a)))), s''))))"
  using ramfs_write_contents [OF assms]
proof
  assume "\<exists>s' hole. ramfs_write E a c buf pos s = Some (Inr (length buf), s') \<and> length hole = at - length (ramfs_contents s a) \<and>
       ramfs_file_ok s' = (ramfs_file_ok s)(a := True) \<and>
       ramfs_contents s' = (ramfs_contents s)(a := take at (ramfs_contents s a @ hole) @ buf @
         drop (at + length buf) (ramfs_contents s a))"
  then obtain s' hole where w: "ramfs_write E a c buf pos s = Some (Inr (length buf), s')"
    "length hole = at - length (ramfs_contents s a)" "ramfs_file_ok s' = (ramfs_file_ok s)(a := True)"
    "ramfs_contents s' = (ramfs_contents s)(a := take at (ramfs_contents s a @ hole) @ buf @
       drop (at + length buf) (ramfs_contents s a))"
    by (elim exE conjE)
  have "ramfs_file_ok s' a" using w(3) by simp
  from ramfs_read_contents [OF this]
  have "0 \<le> r \<Longrightarrow> \<exists>s''. ramfs_read a c' r l s' = Some (Inr (take l (drop (nat r) (ramfs_contents s' a))), s'')" for c' r l
    by blast
  moreover have "ramfs_contents s' a = take at (ramfs_contents s a @ hole) @ buf @ drop (at + length buf) (ramfs_contents s a)"
    "b \<noteq> a \<Longrightarrow> ramfs_contents s' b = ramfs_contents s b" for b
    using w(4) by simp_all
  ultimately show ?thesis using w(1,2) by (intro disjI2 exI [of _ s'] exI [of _ hole]) simp
qed simp

definition wit_ri :: "byte list option \<Rightarrow> vptr \<Rightarrow> ramfs_inode_t" where
  "wit_ri data parent = \<lparr> ri_inode_number = 1, ri_name = [120, 0], ri_is_directory = (data = None), ri_data = data,
     ri_size = (case data of None \<Rightarrow> 0 | Some d \<Rightarrow> length d), ri_link_path = None, ri_link_count = 1, ri_is_loaded = True,
     ri_atime = 0, ri_mtime = 0, ri_ctime = 0, ri_parent = parent, ri_first_children = None, ri_prev_sibling = None,
     ri_next_sibling = None \<rparr>"

definition wit_ramfs :: ramfs_cookie_t where
  "wit_ramfs = \<lparr> rs_inodes = [100 \<mapsto> wit_ri None None, 200 \<mapsto> wit_ri (Some [1, 2, 3]) (Some 100)],
     rs_inode_table = [1 \<mapsto> 200], rs_inode_id_counter = 2, rs_root_inode = Some 100, rs_cookies = [300 \<mapsto> File_cookie 1],
     rs_now = 5 \<rparr>"

definition wit_ramfs_env :: ramfs_env where
  "wit_ramfs_env = \<lparr> rme_inode = (\<lambda>s k. None), rme_cookie = (\<lambda>s. None),
     rme_bytes = (\<lambda>k. if k = 0 then None else Some (replicate k 0)) \<rparr>"

theorem ramfs_write_read_witness:
  "\<exists>s' s''. ramfs_write wit_ramfs_env 200 300 [7, 8] 2 wit_ramfs = Some (Inr 2, s') \<and>
     ramfs_read 200 300 1 9 s' = Some (Inr [2, 7, 8], s'')"
proof -
  let ?n = "wit_ri (Some [1, 2, 3]) (Some 100)"
  have al: "allocator (rme_bytes wit_ramfs_env)" by unfold_locales (auto simp: wit_ramfs_env_def split: if_splits)
  have n: "rs_inodes wit_ramfs 200 = Some ?n" "rs_inodes wit_ramfs 100 \<noteq> None" "ri_parent ?n = Some 100"
    "rs_cookies wit_ramfs 300 = Some (File_cookie 1)"
    by (simp_all add: wit_ramfs_def wit_ri_def)
  have ok: "ramfs_file_ok wit_ramfs 200" by (simp add: wit_ramfs_def wit_ri_def ramfs_file_ok_def)
  have c: "ramfs_contents wit_ramfs 200 = [1, 2, 3]" by (simp add: wit_ramfs_def wit_ri_def ramfs_contents_def)
  have at: "2 = write_pos wit_ramfs 200 1 2" by (simp add: write_pos_def O_APPEND_def)
  have mem: "ramfs_write wit_ramfs_env 200 300 [7, 8] 2 wit_ramfs \<noteq> Some (Inl ENOMEM, wit_ramfs)"
    by (simp add: ramfs_write_def wit_ramfs_def wit_ri_def wit_ramfs_env_def grow_data_def O_APPEND_def upd_ri_def
      Let_def bind_eq_Some_conv)
  from ramfs_write_read [OF al ok n(1,3,2,4) at, of "[7, 8]"] mem
  obtain s' hole where w: "ramfs_write wit_ramfs_env 200 300 [7, 8] 2 wit_ramfs = Some (Inr (length [7 :: byte, 8]), s')"
    "\<forall>c' r l. 0 \<le> r \<longrightarrow> (\<exists>s''. ramfs_read 200 c' r l s' =
          Some (Inr (take l (drop (nat r) (take 2 ([1, 2, 3] @ hole) @ [7, 8] @ drop (2 + length [7 :: byte, 8]) [1, 2, 3]))), s''))"
    unfolding c by auto
  have "\<exists>s''. ramfs_read 200 300 1 9 s' = Some (Inr [2, 7, 8], s'')" using w(2) [THEN spec, of 300, THEN spec, of 1, THEN spec, of 9]
    by simp
  then show ?thesis using w(1) by auto
qed

section \<open>Unlinking\<close>

lemma upd_ri_field:
  assumes "upd_ri x f s = Some s'" and "\<And>n. g (f n) = g n"
  shows "map_option g (rs_inodes s' a) = map_option g (rs_inodes s a)"
  using assms by (auto simp: upd_ri_def split: bind_splits)

lemma upd_ri_ptr_field:
  assumes "upd_ri_ptr p f s = Some s'" and "\<And>n. g (f n) = g n"
  shows "map_option g (rs_inodes s' a) = map_option g (rs_inodes s a)"
  using assms upd_ri_field [of _ f s s' g a] by (auto simp: upd_ri_ptr_def split: option.splits)

lemma ramfs_delete_inode_kept:
  assumes "ramfs_delete_inode a s = Some s'"
  shows "\<exists>n n'. rs_inodes s a = Some n \<and> ri_is_loaded n \<and> rs_inodes s' a = Some n' \<and> ri_is_loaded n' \<and> ri_link_count n' = 0"
proof -
  obtain n where n: "rs_inodes s a = Some n" using assms by (auto simp: ramfs_delete_inode_def split: bind_splits)
  have steps: "upd_ri x f s1 = Some s2 \<Longrightarrow> (\<And>n. ri_is_loaded (f n) = ri_is_loaded n) \<Longrightarrow>
      map_option ri_is_loaded (rs_inodes s2 a) = map_option ri_is_loaded (rs_inodes s1 a)"
    "upd_ri_ptr p f s1 = Some s2 \<Longrightarrow> (\<And>n. ri_is_loaded (f n) = ri_is_loaded n) \<Longrightarrow>
      map_option ri_is_loaded (rs_inodes s2 a) = map_option ri_is_loaded (rs_inodes s1 a)" for x p f s1 s2
    using upd_ri_field [of x f s1 s2 ri_is_loaded a] upd_ri_ptr_field [of p f s1 s2 ri_is_loaded a] by blast+
  show ?thesis using assms n unfolding ramfs_delete_inode_def
    by (auto split: bind_splits if_splits simp: Let_def dest!: steps)
qed

text \<open>Unlinking a file panics, at once when its inode is not loaded, and otherwise, after a call that reports
  success, when the inode cache writes the inode back.\<close>

theorem ramfs_unlink_panics:
  assumes found: "ramfs_do_lookup_inode d name len s = Some (Some a)"
    and n: "rs_inodes s a = Some n" "\<not> ri_is_directory n"
  shows "(\<not> ri_is_loaded n \<longrightarrow> ramfs_unlink d name len s = None) \<and>
    (ramfs_unlink d name len s = Some (r, s') \<longrightarrow> r = Inr () \<and> ramfs_write_inode a s' = None)"
proof (cases "ramfs_delete_inode a s")
  case None
  then show ?thesis using assms by (simp add: ramfs_unlink_def)
next
  case (Some s1)
  obtain n1 where ld: "ri_is_loaded n" "rs_inodes s1 a = Some n1" "ri_is_loaded n1" "ri_link_count n1 = 0"
    using ramfs_delete_inode_kept [OF Some] n(1) by auto
  let ?s = "s1\<lparr> rs_inodes := (rs_inodes s1)(a \<mapsto> n1\<lparr> ri_is_loaded := False \<rparr>) \<rparr>"
  have "ramfs_delete_inode a ?s = None" using ramfs_delete_inode_kept [of a ?s] by fastforce
  then have "ramfs_write_inode a s1 = None" using ld by (simp add: ramfs_write_inode_def upd_ri_def)
  then show ?thesis using assms Some ld(1) by (auto simp: ramfs_unlink_def)
qed

section \<open>Names\<close>

text \<open>A name is stored without its terminator, so that a lookup in the directory reads on behind the name.\<close>

lemma strlen_unterminated: "0 \<notin> set xs \<Longrightarrow> strlen xs = None"
  by (induction xs) auto

theorem ramfs_name_unterminated:
  assumes nm: "0 \<notin> set nm" and room: "rme_inode E s (length nm) = Some (a, room)" "length room = length nm + 1" "last room \<noteq> 0"
    and run: "ramfs_create_inode E (Some d) (nm @ 0 # y) (length nm) dir s = Some (r, s')" and a: "a \<noteq> d"
    and len: "len' \<noteq> 2"
  shows "r = Some a \<and> ramfs_lookup_inode d name' len' s' = None"
proof -
  let ?b = "nm @ drop (length nm) room"
  have b: "strncpy room (nm @ 0 # y) (length nm) = Some ?b" using strncpy_eq [OF nm, of "length nm" room y] room(2) by simp
  have "drop (length nm) room = [last room]" using room(2)
    by (simp add: Cons_nth_drop_Suc [symmetric] last_conv_nth flip: length_greater_0_conv)
  then have "0 \<notin> set ?b" using nm room(3) by simp
  then have no: "strlen ?b = None" by (rule strlen_unterminated)
  obtain n1 dn where "r = Some a" "rs_inodes s' a = Some n1" "ri_name n1 = ?b" "rs_inodes s' d = Some dn" "ri_first_children dn = Some a"
    using run room(1) b a
    by (auto simp: ramfs_create_inode_def upd_ri_def upd_ri_ptr_def Let_def split: bind_splits option.splits if_splits prod.splits)
  then show ?thesis using len no
    by (simp add: ramfs_lookup_inode_def ramfs_do_lookup_inode_def ramfs_lookup_loop.simps ri_name_is_def)
qed

end
