(* ===== verification/Kernel_Checksum.thy ===== *)
theory Kernel_Checksum
  imports Kernel_Prelude
begin

unbundle bit_operations_syntax

text \<open>
  The Internet checksum: \<^verbatim>\<open>ip_checksum\<close> of \<^verbatim>\<open>source/kernel/src/network/ipv4.c\<close> and \<^verbatim>\<open>tcp_checksum\<close>, \<^verbatim>\<open>udp_checksum\<close> of
  \<^verbatim>\<open>tcp.c\<close> and \<^verbatim>\<open>udp.c\<close>. The code adds 16-bit words as they lie in memory (the processor is little-endian) in a 32-bit
  register and folds the carries in at different times; the result is the complement of the one's complement sum. A header
  whose checksum field has been filled in passes the test of the receiver. On i386 the assembly in
  \<^verbatim>\<open>arch/i386/src/asm/network.S\<close>, which takes the same steps, is linked instead of the C function.
\<close>

section \<open>Operations\<close>

type_synonym u16 = "16 word"

definition le16 :: "byte \<Rightarrow> byte \<Rightarrow> u16" where
  "le16 b0 b1 = word_of_nat (unat b0 + 256 * unat b1)"

definition ntohw :: "u16 \<Rightarrow> u16" where
  "ntohw n = push_bit 8 (n AND 0xFF) OR drop_bit 8 n"

definition ntohl :: "u32 \<Rightarrow> u32" where
  "ntohl n = push_bit 24 n OR push_bit 8 (n AND 0xFF00) OR drop_bit 8 (n AND 0xFF0000) OR drop_bit 24 n"

fun ip_sum_loop :: "byte list \<Rightarrow> nat \<Rightarrow> u32 \<Rightarrow> (byte list \<times> nat \<times> u32) option" where
  "ip_sum_loop (b0 # b1 # data) (Suc (Suc len)) checksum =
     (let checksum = checksum + ucast (le16 b0 b1);
          checksum = (if checksum AND 0x80000000 \<noteq> 0 then (checksum AND 0xFFFF) + drop_bit 16 checksum else checksum)
      in ip_sum_loop data len checksum)"
| "ip_sum_loop data (Suc (Suc len)) checksum = None"
| "ip_sum_loop data len checksum = Some (data, len, checksum)"

lemma unat_and_FFFF: "unat (c AND 0xFFFF :: u32) = unat c mod 65536"
proof -
  have "c AND 0xFFFF = take_bit 16 c" by (simp add: take_bit_eq_mask mask_eq_exp_minus_1)
  then have "unat (c AND 0xFFFF) = take_bit 16 (unat c)" by (simp only: unsigned_take_bit_eq)
  then show ?thesis by (simp add: take_bit_eq_mod)
qed

lemma unat_shr16: "unat (drop_bit 16 c :: u32) = unat c div 65536"
  by (simp add: drop_bit_eq_div unat_div)

lemma unat_fold: "unat ((c AND 0xFFFF) + drop_bit 16 (c :: u32)) = unat c mod 65536 + unat c div 65536"
proof -
  have "unat c < 4294967296" using unsigned_less [where 'a=nat, of c] by simp
  then have "unat c div 65536 < 65536" by auto
  moreover have "unat c mod 65536 < 65536" by simp
  ultimately have "unat c mod 65536 + unat c div 65536 < 2 ^ 32" by simp
  then show ?thesis by (simp add: unat_word_ariths unat_and_FFFF unat_shr16)
qed

function fold_checksum :: "u32 \<Rightarrow> u32" where
  "fold_checksum checksum =
     (if drop_bit 16 checksum \<noteq> 0 then fold_checksum ((checksum AND 0xFFFF) + drop_bit 16 checksum) else checksum)"
  by pat_completeness auto
termination
proof (relation "measure unat")
  fix c :: u32 assume "drop_bit 16 c \<noteq> 0"
  then have "unat c div 65536 \<noteq> 0" using unat_shr16 [of c] by (metis unsigned_eq_0_iff)
  moreover have "unat c = 65536 * (unat c div 65536) + unat c mod 65536" by simp
  ultimately have "unat c mod 65536 + unat c div 65536 < unat c" by linarith
  then show "((c AND 0xFFFF) + drop_bit 16 c, c) \<in> measure unat" by (simp add: unat_fold)
qed simp

declare fold_checksum.simps [simp del]

text \<open>The length is a \<^verbatim>\<open>uint16_t\<close>.\<close>

definition ip_checksum :: "byte list \<Rightarrow> nat \<Rightarrow> u16 option" where
  "ip_checksum data len = do {
     (data, len, checksum) \<leftarrow> ip_sum_loop data (len mod 65536) 0;
     checksum \<leftarrow> (if len \<noteq> 0 then do { b \<leftarrow> read_cell (Some data) 0; Some (checksum + ucast b) } else Some checksum);
     Some (ucast (NOT (fold_checksum checksum))) }"

text \<open>The sums over the pseudo header and the segment: no folding before the end.\<close>

fun sum_words :: "byte list \<Rightarrow> nat \<Rightarrow> u32 \<Rightarrow> (byte list \<times> u32) option" where
  "sum_words (b0 # b1 # data) (Suc n) checksum = sum_words data n (checksum + ucast (le16 b0 b1))"
| "sum_words data (Suc n) checksum = None"
| "sum_words data 0 checksum = Some (data, checksum)"

definition IP_PROTO_ICMP :: byte where "IP_PROTO_ICMP = 1"
definition IP_PROTO_TCP :: byte where "IP_PROTO_TCP = 6"
definition IP_PROTO_UDP :: byte where "IP_PROTO_UDP = 17"

definition transport_checksum :: "byte \<Rightarrow> byte list \<Rightarrow> byte list \<Rightarrow> byte list \<Rightarrow> nat \<Rightarrow> u16 option" where
  "transport_checksum proto src_address dest_address header sz = do {
     (_, checksum) \<leftarrow> sum_words src_address 2 0;
     (_, checksum) \<leftarrow> sum_words dest_address 2 checksum;
     let checksum = checksum + ucast (ntohw (ucast proto)) + ucast (ntohw (word_of_nat sz));
     (data, checksum) \<leftarrow> sum_words header (sz div 2) checksum;
     checksum \<leftarrow> (if sz mod 2 \<noteq> 0 then do { b \<leftarrow> read_cell (Some data) 0; Some (checksum + ucast b) } else Some checksum);
     Some (ucast (NOT (fold_checksum checksum))) }"

definition tcp_checksum :: "byte list \<Rightarrow> byte list \<Rightarrow> byte list \<Rightarrow> nat \<Rightarrow> u16 option" where
  "tcp_checksum = transport_checksum IP_PROTO_TCP"

definition udp_checksum :: "byte list \<Rightarrow> byte list \<Rightarrow> byte list \<Rightarrow> nat \<Rightarrow> u16 option" where
  "udp_checksum = transport_checksum IP_PROTO_UDP"

section \<open>One's complement sums\<close>

text \<open>The sum of the 16-bit words of a byte string, the last one padded with zero, and its value with the carries added
  in until none is left.\<close>

fun sum16 :: "byte list \<Rightarrow> nat" where
  "sum16 (b0 # b1 # data) = unat b0 + 256 * unat b1 + sum16 data"
| "sum16 [b] = unat b"
| "sum16 [] = 0"

lemma sum16_append: "even (length xs) \<Longrightarrow> sum16 (xs @ ys) = sum16 xs + sum16 ys"
  by (induction xs rule: sum16.induct) auto

lemma sum16_snoc: "even (length xs) \<Longrightarrow> sum16 (xs @ [b]) = sum16 xs + unat b"
  by (simp add: sum16_append)

definition ones16 :: "nat \<Rightarrow> nat" where
  "ones16 t = (if t = 0 then 0 else (t - 1) mod 65535 + 1)"

lemma ones16_le: "ones16 t \<le> 65535"
  using mod_less_divisor [of 65535 "t - 1"] by (simp add: ones16_def Suc_le_eq del: mod_less_divisor)

lemma ones16_small: "t < 65536 \<Longrightarrow> ones16 t = t"
  by (simp add: ones16_def)

lemma pred_mod: "0 < a \<Longrightarrow> (a - 1) mod 65535 = (a mod 65535 + 65534) mod (65535 :: nat)"
proof -
  assume "0 < a"
  then have "(a mod 65535 + 65534) mod 65535 = (a - 1 + 65535) mod 65535"
    unfolding mod_add_left_eq by (simp add: add.commute)
  then show ?thesis by simp
qed

lemma ones16_cong: "a mod 65535 = b mod 65535 \<Longrightarrow> (a = 0 \<longleftrightarrow> b = 0) \<Longrightarrow> ones16 a = ones16 b"
proof (cases "b = 0")
  case False
  assume *: "a mod 65535 = b mod 65535" "a = 0 \<longleftrightarrow> b = 0"
  then have "(a - 1) mod 65535 = (b - 1) mod 65535" using False pred_mod [of a] pred_mod [of b] by simp
  then show ?thesis using * False by (simp add: ones16_def)
qed (simp add: ones16_def)

lemma ones16_mod: "ones16 t mod 65535 = t mod 65535"
  by (cases t) (simp_all add: ones16_def mod_Suc_eq)

lemma ones16_0: "ones16 t = 0 \<longleftrightarrow> t = 0"
  by (simp add: ones16_def)

lemma fold_mod: "(t mod 65536 + t div 65536) mod 65535 = (t :: nat) mod 65535"
proof -
  have "t = 65536 * (t div 65536) + t mod 65536" by simp
  then have "t = 65535 * (t div 65536) + (t mod 65536 + t div 65536)" by linarith
  then show ?thesis by (metis mod_mult_self4)
qed

lemma fold_checksum_ones: "unat (fold_checksum c) = ones16 (unat c)"
proof (induction c rule: fold_checksum.induct)
  case (1 c)
  show ?case
  proof (cases "drop_bit 16 c = 0")
    case True
    then have "unat c div 65536 = 0" using unat_shr16 [of c] by simp
    then have "unat c < 65536" by auto
    then show ?thesis using True by (subst fold_checksum.simps) (simp add: ones16_small)
  next
    case False
    have "unat c mod 65536 + unat c div 65536 = 0 \<longleftrightarrow> unat c = 0" by auto
    then have "ones16 (unat c mod 65536 + unat c div 65536) = ones16 (unat c)"
      by (intro ones16_cong fold_mod)
    then show ?thesis using 1 [OF False] False by (subst fold_checksum.simps) (simp add: unat_fold)
  qed
qed

lemma unat_le16: "unat (le16 b0 b1) = unat b0 + 256 * unat b1"
proof -
  have "unat b0 < 256" "unat b1 < 256" using unsigned_less [where 'a=nat, of b0] unsigned_less [where 'a=nat, of b1] by simp_all
  then have "take_bit 16 (unat b0 + 256 * unat b1) = unat b0 + 256 * unat b1" by (simp add: take_bit_eq_mod)
  moreover have "unat (le16 b0 b1) = take_bit 16 (unat b0 + 256 * unat b1)"
    unfolding le16_def unsigned_of_nat by simp
  ultimately show ?thesis by simp
qed

lemma unat_ucast16: "unat (ucast (w :: u16) :: u32) = unat w"
proof -
  have "unat w < 65536" using unsigned_less [where 'a=nat, of w] by simp
  then show ?thesis by (simp add: unsigned_ucast_eq take_bit_eq_mod)
qed

lemma unat_ucast8: "unat (ucast (b :: byte) :: u32) = unat b"
proof -
  have "unat b < 256" using unsigned_less [where 'a=nat, of b] by simp
  then show ?thesis by (simp add: unsigned_ucast_eq take_bit_eq_mod)
qed

lemma add_word: "unat (c :: u32) + n < 4294967296 \<Longrightarrow> unat d = n \<Longrightarrow> unat (c + d) = unat c + n"
  by (simp add: unat_word_ariths)

lemma sign_bit: "(c :: u32) AND 0x80000000 \<noteq> 0 \<longleftrightarrow> 2147483648 \<le> unat c"
proof -
  have c: "unat c < 4294967296" using unsigned_less [where 'a=nat, of c] by simp
  have "c AND 0x80000000 \<noteq> 0 \<longleftrightarrow> bit c 31" using and_exp_eq_0_iff_not_bit [of c 31] by simp
  also have "\<dots> \<longleftrightarrow> bit (unat c) 31" by (simp add: bit_unsigned_iff)
  also have "\<dots> \<longleftrightarrow> odd (unat c div 2147483648)" by (simp add: bit_iff_odd)
  also have "\<dots> \<longleftrightarrow> 2147483648 \<le> unat c"
  proof (cases "2147483648 \<le> unat c")
    case True
    then have "unat c div 2147483648 = 1" using c by (simp add: div_nat_eqI)
    then show ?thesis using True by simp
  qed simp
  finally show ?thesis .
qed

text \<open>The loop keeps the sum below \<open>2^31\<close> and equivalent to the sum of the words.\<close>

definition sums :: "nat \<Rightarrow> nat \<Rightarrow> bool" where
  "sums a b \<longleftrightarrow> a mod 65535 = b mod 65535 \<and> (a = 0 \<longleftrightarrow> b = 0)"

lemma sums_ones16: "sums a b \<Longrightarrow> ones16 a = ones16 b"
  unfolding sums_def by (elim conjE) (rule ones16_cong)

lemma sums_refl [simp]: "sums a a"
  by (simp add: sums_def)

lemma sums_trans: "sums a b \<Longrightarrow> sums b c \<Longrightarrow> sums a c"
  by (simp add: sums_def)

lemma sums_add: "sums a b \<Longrightarrow> sums (a + c) (b + c)"
  using mod_add_cong [of a 65535 b c c] by (auto simp: sums_def)

lemma sums_fold: "sums (t mod 65536 + t div 65536) t"
  by (auto simp: sums_def fold_mod)

lemma ip_sum_step:
  assumes "unat (c :: u32) < 2147483648" and "unat d < 65536"
  shows "unat (let c = c + d in if c AND 0x80000000 \<noteq> 0 then (c AND 0xFFFF) + drop_bit 16 c else c) < 2147483648"
    and "sums (unat (let c = c + d in if c AND 0x80000000 \<noteq> 0 then (c AND 0xFFFF) + drop_bit 16 c else c)) (unat c + unat d)"
proof -
  have a: "unat (c + d) = unat c + unat d" by (rule add_word) (use assms in simp_all)
  have "(unat c + unat d) div 65536 < 65536" using assms by auto
  moreover have "(unat c + unat d) mod 65536 < 65536" by simp
  ultimately have "(unat c + unat d) mod 65536 + (unat c + unat d) div 65536 < 2147483648" by linarith
  then show "unat (let c = c + d in if c AND 0x80000000 \<noteq> 0 then (c AND 0xFFFF) + drop_bit 16 c else c) < 2147483648"
    unfolding Let_def sign_bit a [symmetric] using a by (simp add: unat_fold)
  show "sums (unat (let c = c + d in if c AND 0x80000000 \<noteq> 0 then (c AND 0xFFFF) + drop_bit 16 c else c)) (unat c + unat d)"
    unfolding Let_def sign_bit a [symmetric] by (simp add: unat_fold sums_fold)
qed

lemma ip_sum_loop_eq:
  assumes "len \<le> length data" and "unat c < 2147483648"
  shows "\<exists>c'. ip_sum_loop data len c = Some (drop (len - len mod 2) data, len mod 2, c') \<and> unat c' < 2147483648 \<and>
    sums (unat c') (unat c + sum16 (take (len - len mod 2) data))"
  using assms
proof (induction data len c rule: ip_sum_loop.induct)
  case (1 b0 b1 data len c)
  let ?d = "ucast (le16 b0 b1) :: u32"
  let ?c = "let c = c + ?d in if c AND 0x80000000 \<noteq> 0 then (c AND 0xFFFF) + drop_bit 16 c else c"
  have d: "unat ?d = unat b0 + 256 * unat b1" by (simp add: unat_ucast16 unat_le16)
  have "unat ?d < 65536" using unat_ucast16 [of "le16 b0 b1"] unsigned_less [where 'a=nat, of "le16 b0 b1"] by simp
  note step = ip_sum_step [OF "1.prems"(2) this]
  obtain c' where c': "ip_sum_loop data len ?c = Some (drop (len - len mod 2) data, len mod 2, c')" "unat c' < 2147483648"
    "sums (unat c') (unat ?c + sum16 (take (len - len mod 2) data))"
    using "1.IH" [OF refl refl] "1.prems"(1) step(1) by (auto simp: Let_def)
  have "sums (unat c') (unat c + unat ?d + sum16 (take (len - len mod 2) data))"
    using sums_trans [OF c'(3) sums_add [OF step(2)]] .
  moreover have "Suc (Suc len) - Suc (Suc len) mod 2 = Suc (Suc (len - len mod 2))" by (simp add: mod_Suc Suc_diff_le)
  ultimately show ?case using c'(1,2) d by (auto simp: Let_def add.assoc)
qed auto

lemma complement16:
  assumes c: "unat (c :: u32) = t" "t < 65536"
  shows "(ucast (NOT c) :: u16) = word_of_nat (65535 - t)"
proof -
  have "c = of_nat t" using c(1) by (metis of_nat_unat ucast_id)
  then have "NOT c = (of_int (- int t - 1) :: u32)" by (simp add: not_eq_complement)
  then have "(ucast (NOT c) :: u16) = of_int (take_bit 32 (- int t - 1))"
    by (simp only: unsigned_of_int) simp
  also have "\<dots> = of_int (65535 - int t)"
  proof -
    have "take_bit 16 (take_bit 32 (- int t - 1)) = take_bit 16 (- int t - 1)" by (simp only: take_bit_take_bit)
    also have "\<dots> = (- int t - 1 + 65536) mod 65536" by (simp only: take_bit_eq_mod mod_add_self2) simp
    also have "\<dots> = take_bit 16 (65535 - int t)" by (simp add: take_bit_eq_mod)
    finally show ?thesis by (simp only: word_of_int_eq_iff) simp
  qed
  also have "\<dots> = of_nat (65535 - t)" using c(2) by (simp add: of_nat_diff)
  finally show ?thesis .
qed

text \<open>The end of each routine: an odd byte, the carries, and the complement.\<close>

lemma finish_checksum:
  assumes c: "unat c < 4294967040" "sums (unat c) (base + sum16 (take n data))"
    and n: "n = len - len mod 2" "len \<le> length data"
  shows "Option.bind (if len mod 2 \<noteq> 0 then Option.bind (read_cell (Some (drop n data)) 0) (\<lambda>b. Some (c + ucast b)) else Some c)
      (\<lambda>checksum. Some (ucast (NOT (fold_checksum checksum)) :: u16)) =
    Some (word_of_nat (65535 - ones16 (base + sum16 (take len data))))"
proof (cases "len mod 2 = 0")
  case True
  then have "unat (fold_checksum c) = ones16 (base + sum16 (take len data))"
    using sums_ones16 [OF c(2)] n by (simp add: fold_checksum_ones)
  from complement16 [OF this] show ?thesis using True ones16_le [of "base + sum16 (take len data)"] by simp
next
  case False
  then have l: "len mod 2 = 1" "len = n + 1" "n < length data" using n odd_pos [of len] by (auto simp: mod_2_eq_odd)
  let ?b = "data ! n"
  have e: "even n" unfolding n(1) by (rule even_diff_nat [THEN iffD2]) (simp add: mod_2_eq_odd)
  have "take len data = take n data @ [?b]" using l by (metis Suc_eq_plus1 take_Suc_nth)
  then have s: "base + sum16 (take len data) = base + sum16 (take n data) + unat ?b"
    using sum16_snoc [of "take n data" ?b] e l(3) by simp
  have a: "unat (c + ucast ?b) = unat c + unat ?b"
    by (rule add_word) (use c(1) unsigned_less [where 'a=nat, of ?b] in \<open>simp_all add: unat_ucast8\<close>)
  have "sums (unat (c + ucast ?b)) (base + sum16 (take len data))" unfolding a s by (rule sums_add [OF c(2)])
  then have "unat (fold_checksum (c + ucast ?b)) = ones16 (base + sum16 (take len data))"
    by (simp add: fold_checksum_ones sums_ones16)
  from complement16 [OF this] show ?thesis
    using l ones16_le [of "base + sum16 (take len data)"] by (simp add: read_cell_def)
qed

text \<open>The code computes the complement of the one's complement sum of the words.\<close>

lemma ip_checksum_eq:
  assumes len: "len \<le> length data" and lt: "len < 65536"
  shows "ip_checksum data len = Some (word_of_nat (65535 - ones16 (sum16 (take len data))))"
proof -
  obtain c where c: "ip_sum_loop data len 0 = Some (drop (len - len mod 2) data, len mod 2, c)" "unat c < 2147483648"
    "sums (unat c) (0 + sum16 (take (len - len mod 2) data))"
    using ip_sum_loop_eq [OF len, of 0] by auto
  show ?thesis using finish_checksum [OF _ c(3) refl len] c(1,2) lt by (simp add: ip_checksum_def Let_def)
qed

text \<open>Filling in the checksum: two bytes at an even place that were 0 take the value \<open>c\<close>.\<close>

definition put16 :: "byte list \<Rightarrow> nat \<Rightarrow> u16 \<Rightarrow> byte list option" where
  "put16 mem off v =
     (if off + 2 \<le> length mem then Some (mem[off := ucast v, off + 1 := ucast (drop_bit 8 v)]) else None)"

definition get16 :: "byte list \<Rightarrow> nat \<Rightarrow> u16 option" where
  "get16 mem off = (if off + 2 \<le> length mem then Some (le16 (mem ! off) (mem ! (off + 1))) else None)"

lemma split16: "unat (ucast v :: byte) + 256 * unat (ucast (drop_bit 8 v) :: byte) = unat (v :: u16)"
proof -
  have v: "unat v < 65536" using unsigned_less [where 'a=nat, of v] by simp
  then have "unat v div 256 < 256" by auto
  then have "unat (ucast (drop_bit 8 v) :: byte) = unat v div 256"
    by (simp add: unsigned_ucast_eq take_bit_eq_mod drop_bit_eq_div unat_div)
  moreover have "unat (ucast v :: byte) = unat v mod 256" by (simp add: unsigned_ucast_eq take_bit_eq_mod)
  ultimately show ?thesis by simp
qed

lemma two_cells:
  assumes "off + 2 \<le> length mem"
  obtains a b0 b1 z where "mem = a @ b0 # b1 # z" "length a = off"
proof
  show "mem = take off mem @ mem ! off # mem ! Suc off # drop (Suc (Suc off)) mem"
    using assms by (metis Cons_nth_drop_Suc Suc_le_lessD add_2_eq_Suc' append_take_drop_id less_imp_le_nat less_SucI)
  show "length (take off mem) = off" using assms by simp
qed

lemma sum16_put16:
  assumes "even off" and "put16 mem off v = Some mem'" and "get16 mem off = Some 0"
  shows "sum16 mem' = sum16 mem + unat v" and "length mem' = length mem"
proof -
  have l: "off + 2 \<le> length mem" using assms(2) by (simp add: put16_def split: if_splits)
  obtain a b0 b1 z where m: "mem = a @ b0 # b1 # z" "length a = off" by (rule two_cells [OF l])
  then have "le16 b0 b1 = 0" using assms(3) l by (simp add: get16_def nth_append)
  then have b: "unat b0 + 256 * unat b1 = 0" using unat_le16 [of b0 b1] by (simp only: unsigned_0)
  have "mem' = a @ ucast v # ucast (drop_bit 8 v) # z"
    using assms(2) m l by (auto simp: put16_def list_update_append)
  then show "sum16 mem' = sum16 mem + unat v" using m assms(1) b split16 [of v] by (simp add: sum16_append)
  show "length mem' = length mem" using assms(2) by (auto simp: put16_def split: if_splits)
qed

text \<open>The sum of a block with its checksum filled in.\<close>

lemma ones16_completed: "ones16 (t + (65535 - ones16 t)) = 65535"
proof -
  have le: "ones16 t \<le> t" by (cases t) (auto simp: ones16_def)
  then have t: "t + (65535 - ones16 t) = t - ones16 t + 65535" using ones16_le [of t] by simp
  have "(t - ones16 t) mod 65535 = 0"
    using ones16_mod [of t] le by (metis mod_eq_dvd_iff_nat dvd_imp_mod_0)
  then have "(t + (65535 - ones16 t)) mod 65535 = 65535 mod 65535" "t + (65535 - ones16 t) \<noteq> 0"
    unfolding t by simp_all
  then have "ones16 (t + (65535 - ones16 t)) = ones16 65535" by (intro ones16_cong) simp_all
  then show ?thesis by (simp add: ones16_def)
qed

lemma ip_block_verifies:
  assumes "length mem < 65536" and "even off" and "get16 mem off = Some 0"
  shows "\<exists>c mem'. ip_checksum mem (length mem) = Some c \<and> put16 mem off c = Some mem' \<and> length mem' = length mem \<and>
    ones16 (sum16 mem') = 65535 \<and> ip_checksum mem' (length mem') = Some 0"
proof -
  let ?c = "word_of_nat (65535 - ones16 (sum16 mem)) :: u16"
  have c: "ip_checksum mem (length mem) = Some ?c" using ip_checksum_eq [of "length mem" mem] assms(1) by simp
  have u: "unat ?c = 65535 - ones16 (sum16 mem)"
    by (subst unsigned_of_nat) (simp add: take_bit_eq_mod)
  obtain mem' where m: "put16 mem off ?c = Some mem'" using assms(3) by (simp add: put16_def get16_def split: if_splits)
  have l: "length mem' = length mem" and s: "sum16 mem' = sum16 mem + unat ?c" using sum16_put16 [OF assms(2) m assms(3)] by simp_all
  have o: "ones16 (sum16 mem') = 65535" unfolding s u by (rule ones16_completed)
  then have "ip_checksum mem' (length mem') = Some 0" using ip_checksum_eq [of "length mem'" mem'] assms(1) l by simp
  then show ?thesis using c m l o by blast
qed

text \<open>The checksum of an IP header (or any even place in a block) verifies. The code computes it for a block whose
  checksum field is 0, the sum wraps around and is folded as often as it takes, and never faults; with the field filled in, the
  same function returns 0, which is what \<^verbatim>\<open>ipv4_input\<close> tests. A change of the block that alters the sum of its 16-bit
  words modulo 65535 is detected.\<close>

theorem ip_checksum_verifies:
  assumes "length mem < 65536" and "even off" and "get16 mem off = Some 0"
  shows "\<exists>c mem'. ip_checksum mem (length mem) = Some c \<and> put16 mem off c = Some mem' \<and>
    ip_checksum mem' (length mem') = Some 0 \<and>
    (\<forall>bad. length bad = length mem' \<longrightarrow> sum16 bad mod 65535 \<noteq> sum16 mem' mod 65535 \<longrightarrow>
       (\<exists>r. ip_checksum bad (length bad) = Some r \<and> r \<noteq> 0))"
proof -
  obtain c mem' where c: "ip_checksum mem (length mem) = Some c" and m: "put16 mem off c = Some mem'"
    and l: "length mem' = length mem" and o: "ones16 (sum16 mem') = 65535"
    and z: "ip_checksum mem' (length mem') = Some 0" using ip_block_verifies [OF assms] by blast
  have "\<exists>r. ip_checksum bad (length bad) = Some r \<and> r \<noteq> 0"
    if bad: "length bad = length mem'" "sum16 bad mod 65535 \<noteq> sum16 mem' mod 65535" for bad
  proof -
    have "ones16 (sum16 bad) mod 65535 \<noteq> 0" using bad(2) o ones16_mod [of "sum16 bad"] ones16_mod [of "sum16 mem'"] by simp
    then have "ones16 (sum16 bad) \<noteq> 65535" by auto
    then have lt: "0 < 65535 - ones16 (sum16 bad)" "65535 - ones16 (sum16 bad) < 65536" using ones16_le [of "sum16 bad"] by auto
    have "unat (word_of_nat (65535 - ones16 (sum16 bad)) :: u16) \<noteq> 0"
      using lt by (subst unsigned_of_nat) (simp add: take_bit_eq_mod)
    then have "(word_of_nat (65535 - ones16 (sum16 bad)) :: u16) \<noteq> 0" by (metis unsigned_0)
    then show ?thesis using ip_checksum_eq [of "length bad" bad] bad(1) assms(1) l by simp
  qed
  then show ?thesis using c m z by blast
qed

theorem ip_checksum_verifies_witness:
  "\<exists>c mem'. ip_checksum [0x45, 0, 0, 0, 0xFF] 5 = Some c \<and> put16 [0x45, 0, 0, 0, 0xFF] 2 c = Some mem' \<and>
     ip_checksum mem' 5 = Some 0"
proof -
  have "get16 [0x45, 0, 0, 0, 0xFF :: byte] 2 = Some 0" by (simp add: get16_def le16_def)
  from ip_checksum_verifies [OF _ _ this] obtain c mem' where c:
    "ip_checksum [0x45, 0, 0, 0, 0xFF] (length [0x45, 0, 0, 0, 0xFF :: byte]) = Some c"
    "put16 [0x45, 0, 0, 0, 0xFF] 2 c = Some mem'" "ip_checksum mem' (length mem') = Some 0" by auto
  have l: "length [0x45, 0, 0, 0, 0xFF :: byte] = 5" by simp
  have "length mem' = 5" using c(2) by (auto simp: put16_def)
  then show ?thesis using c unfolding l by auto
qed

section \<open>Checksums over the pseudo header\<close>

lemma sum_words_eq:
  assumes "2 * n \<le> length data" and "unat c + sum16 (take (2 * n) data) < 4294967296"
  shows "\<exists>c'. sum_words data n c = Some (drop (2 * n) data, c') \<and> unat c' = unat c + sum16 (take (2 * n) data)"
  using assms
proof (induction data n c rule: sum_words.induct)
  case (1 b0 b1 data n c)
  have d: "unat (ucast (le16 b0 b1) :: u32) = unat b0 + 256 * unat b1" by (simp add: unat_ucast16 unat_le16)
  have "unat (c + ucast (le16 b0 b1)) = unat c + (unat b0 + 256 * unat b1)"
    by (rule add_word) (use "1.prems"(2) d in simp_all)
  then show ?case using "1.IH" "1.prems" by (auto simp: add.assoc)
qed auto

lemma sum16_bound: "sum16 data \<le> 32768 * (length data + 1)"
proof (induction data rule: sum16.induct)
  case (1 b0 b1 data)
  have "unat b0 < 256" "unat b1 < 256" using unsigned_less [where 'a=nat, of b0] unsigned_less [where 'a=nat, of b1] by simp_all
  then show ?case using 1 by simp
next
  case (2 b)
  show ?case using unsigned_less [where 'a=nat, of b] by simp
qed simp

definition pseudo_sum :: "byte \<Rightarrow> byte list \<Rightarrow> byte list \<Rightarrow> nat \<Rightarrow> nat" where
  "pseudo_sum proto src dest sz =
     sum16 (take 4 src) + sum16 (take 4 dest) + unat (ntohw (ucast proto)) + unat (ntohw (word_of_nat sz))"

lemma transport_checksum_eq:
  assumes "4 \<le> length src" and "4 \<le> length dest" and sz: "sz \<le> length data" "sz < 65536"
  shows "transport_checksum proto src dest data sz =
    Some (word_of_nat (65535 - ones16 (pseudo_sum proto src dest sz + sum16 (take sz data))))"
proof -
  have b: "sum16 (take 4 src) \<le> 163840" "sum16 (take 4 dest) \<le> 163840" "sum16 (take (2 * (sz div 2)) data) \<le> 2147516416"
    using sum16_bound [of "take 4 src"] sum16_bound [of "take 4 dest"] sum16_bound [of "take (2 * (sz div 2)) data"] assms by auto
  have p: "unat (ntohw (ucast proto)) < 65536" "unat (ntohw (word_of_nat sz)) < 65536"
    using unsigned_less [where 'a=nat, of "ntohw (ucast proto)"] unsigned_less [where 'a=nat, of "ntohw (word_of_nat sz)"] by simp_all
  obtain c1 where c1: "sum_words src 2 0 = Some (drop 4 src, c1)" "unat c1 = sum16 (take 4 src)"
    using sum_words_eq [of 2 src 0] assms(1) b(1) by auto
  obtain c2 where c2: "sum_words dest 2 c1 = Some (drop 4 dest, c2)" "unat c2 = unat c1 + sum16 (take 4 dest)"
    using sum_words_eq [of 2 dest c1] assms(2) b(2) c1(2) b(1) by auto
  let ?p1 = "ucast (ntohw (ucast proto)) :: u32" and ?p2 = "ucast (ntohw (word_of_nat sz)) :: u32"
  have "unat (c2 + ?p1) = unat c2 + unat (ntohw (ucast proto))"
    by (rule add_word) (use b p c1(2) c2(2) in \<open>simp_all add: unat_ucast16\<close>)
  moreover have "unat (c2 + ?p1 + ?p2) = unat (c2 + ?p1) + unat (ntohw (word_of_nat sz))"
    by (rule add_word) (use b p c1(2) c2(2) calculation in \<open>simp_all add: unat_ucast16\<close>)
  ultimately have c3: "unat (c2 + ?p1 + ?p2) = pseudo_sum proto src dest sz" using c1 c2 by (simp add: pseudo_sum_def)
  have ps: "pseudo_sum proto src dest sz \<le> 458752" using b p unfolding pseudo_sum_def by linarith
  let ?n = "2 * (sz div 2)"
  have le: "?n \<le> length data" using sz(1) by (meson order_trans times_div_less_eq_dividend)
  obtain c4 where c4: "sum_words data (sz div 2) (c2 + ?p1 + ?p2) = Some (drop ?n data, c4)"
    "unat c4 = pseudo_sum proto src dest sz + sum16 (take ?n data)"
    using sum_words_eq [OF le, of "c2 + ?p1 + ?p2"] b(3) c3 ps by auto
  have n: "?n = sz - sz mod 2" by (simp add: minus_mod_eq_mult_div)
  have "unat c4 < 4294967040" using c4(2) ps b(3) by linarith
  moreover have "sums (unat c4) (pseudo_sum proto src dest sz + sum16 (take ?n data))" unfolding c4(2) by simp
  ultimately show ?thesis using finish_checksum [OF _ _ n sz(1)] c1(1) c2(1) c4(1)
    by (simp add: transport_checksum_def Let_def)
qed

text \<open>A segment whose checksum has been filled in passes the test of the receiver; the order of the two addresses does
  not matter.\<close>

lemma transport_verifies:
  assumes "4 \<le> length src" and "4 \<le> length dest" and "length mem < 65536" and "even off" and "get16 mem off = Some 0"
  shows "\<exists>c mem'. transport_checksum proto src dest mem (length mem) = Some c \<and> put16 mem off c = Some mem' \<and>
    length mem' = length mem \<and> transport_checksum proto src dest mem' (length mem') = Some 0"
proof -
  let ?t = "pseudo_sum proto src dest (length mem) + sum16 mem"
  let ?c = "word_of_nat (65535 - ones16 ?t) :: u16"
  have c: "transport_checksum proto src dest mem (length mem) = Some ?c"
    using transport_checksum_eq [OF assms(1,2), of "length mem" mem] assms(3) by simp
  have u: "unat ?c = 65535 - ones16 ?t" by (subst unsigned_of_nat) (simp add: take_bit_eq_mod)
  obtain mem' where m: "put16 mem off ?c = Some mem'" using assms(5) by (simp add: put16_def get16_def split: if_splits)
  have l: "length mem' = length mem" and s: "sum16 mem' = sum16 mem + unat ?c" using sum16_put16 [OF assms(4) m assms(5)] by simp_all
  have "ones16 (pseudo_sum proto src dest (length mem') + sum16 mem') = 65535"
    unfolding s l u add.assoc [symmetric] by (rule ones16_completed)
  then have "transport_checksum proto src dest mem' (length mem') = Some 0"
    using transport_checksum_eq [OF assms(1,2), of "length mem'" mem'] assms(3) l by simp
  then show ?thesis using c m l by blast
qed

end
