(* ===== verification/Kernel_Packet.thy ===== *)
theory Kernel_Packet
  imports Kernel_Checksum Kernel_Circular Kernel_Route Kernel_Bitmap
begin

unbundle bit_operations_syntax

text \<open>
  The data of the network stack and packets, \<^verbatim>\<open>source/kernel/src/network/packet.c\<close>. A packet is a heap block with a header,
  followed by the data at the next address that is a multiple of 16; the list \<open>pk_data\<close> holds the bytes from there to the end of
  the block. Pointers into the data are offsets. A queue counts its packets in a semaphore; a pop that gets no unit of the
  semaphore before its timeout returns \<^verbatim>\<open>NULL\<close>.
\<close>

section \<open>Data\<close>

record packet_t =
  pk_next :: vptr
  pk_data :: "byte list"
  pk_network_data :: "int option"
  pk_transport_data :: "int option"
  pk_size :: int

record packet_queue_t =
  pq_sync :: int
  pq_first :: vptr
  pq_last :: vptr

record arp_cache_item_t =
  ai_flags :: u32
  ai_hw_address :: "byte list"
  ai_expire_time :: nat

text \<open>The part of a network device that ARP uses: its address, the cache and the requests that wait for an answer.\<close>

record net_if =
  if_dev_addr :: "byte list"
  if_mtu :: int
  if_input_queue :: packet_queue_t
  if_arp_cache :: "u32 \<rightharpoonup> arp_cache_item_t"
  if_arp_requests :: "u32 \<rightharpoonup> packet_queue_t"

datatype select_type = SELECT_READ | SELECT_WRITE | SELECT_EXCEPT

record select_request_t =
  sr_sync :: int
  sr_type :: select_type
  sr_ready :: bool
  sr_next :: vptr

record socket_t =
  so_type :: int
  so_inode_number :: int
  so_src_address :: u32
  so_src_port :: u16
  so_dest_address :: u32
  so_dest_port :: u16
  so_error :: "errno option"
  so_data :: vptr

record udp_socket_t =
  us_ref_count :: int
  us_nonblocking :: bool
  us_rx_signals :: nat
  us_rx_queue :: packet_queue_t
  us_port :: "int option"
  us_bind_to_device :: "byte list"
  us_first_read_select :: vptr

datatype tcp_state = TCP_STATE_CLOSED | TCP_STATE_SYN_SENT | TCP_STATE_SYN_RECEIVED | TCP_STATE_ESTABLISHED
  | TCP_STATE_FIN_WAIT_1 | TCP_STATE_FIN_WAIT_2 | TCP_STATE_CLOSE_WAIT | TCP_STATE_CLOSING | TCP_STATE_LAST_ACK
  | TCP_STATE_TIME_WAIT

record tcp_endpoint_key_t =
  ep_src_address :: u32
  ep_src_port :: u16
  ep_dest_address :: u32
  ep_dest_port :: u16

record tcp_socket_t =
  ts_ref_count :: int
  ts_endpoint_info :: tcp_endpoint_key_t
  ts_socket :: addr
  ts_sync :: int
  ts_state :: tcp_state
  ts_mss :: int
  ts_nonblocking :: bool
  ts_rx_signals :: nat
  ts_rx_last_received_seq :: u32
  ts_rx_buffer :: circular_buffer_t
  ts_rx_user_data :: circular_pointer_t
  ts_rx_free_data :: circular_pointer_t
  ts_tx_signals :: nat
  ts_tx_buffer :: circular_buffer_t
  ts_tx_last_unacked_seq :: u32
  ts_tx_first_unacked :: circular_pointer_t
  ts_tx_last_sent_seq :: u32
  ts_tx_last_sent :: circular_pointer_t
  ts_tx_free_data :: circular_pointer_t
  ts_tx_window_size :: u16
  ts_syn_timer :: "nat option"
  ts_first_read_select :: vptr
  ts_first_write_select :: vptr

text \<open>The stack: packets, devices and routes, sockets, and the frames that the drivers have accepted. The number of
  signals of a condition and of wake-ups of the timer thread are counted. The endpoint tables are hash tables in which a key
  can occur more than once (\<^verbatim>\<open>hashtable_add\<close> does not look for it); they are kept as lists with the newest item in front, which is
  the item that a lookup finds as long as the table has not been resized.\<close>

record net_stack =
  st_packets :: "addr \<rightharpoonup> packet_t"
  st_net :: net_world
  st_ifs :: "addr \<rightharpoonup> net_if"
  st_sent :: "(addr \<times> byte list) list"
  st_now :: nat
  st_sockets :: "addr \<rightharpoonup> socket_t"
  socket_inode_table :: "int \<rightharpoonup> addr"
  socket_inode_counter :: int
  st_selects :: "addr \<rightharpoonup> select_request_t"
  st_udp :: "addr \<rightharpoonup> udp_socket_t"
  udp_port_table :: bitmap_t
  udp_endpoint_table :: "(int \<times> addr) list"
  st_tcp :: "addr \<rightharpoonup> tcp_socket_t"
  tcp_endpoint_table :: "addr list"
  st_timer_wakeups :: nat

text \<open>What the stack gets from outside: blocks for packets, memory for small objects, and whether the driver of a device
  accepts a frame.\<close>

record stack_env =
  se_net :: net_env
  se_block :: "(addr \<rightharpoonup> packet_t) \<Rightarrow> nat \<Rightarrow> (addr \<times> byte list) option"
  se_object :: "net_stack \<Rightarrow> bool"
  se_bytes :: "byte alloc"
  se_new_tcp :: "(addr \<rightharpoonup> tcp_socket_t) \<Rightarrow> vptr"
  se_new_udp :: "(addr \<rightharpoonup> udp_socket_t) \<Rightarrow> vptr"
  se_locks :: "net_stack \<Rightarrow> bool"
  se_transmit :: "net_stack \<Rightarrow> addr \<Rightarrow> byte list \<Rightarrow> bool"

section \<open>Bytes\<close>

definition get_bytes :: "byte list \<Rightarrow> int \<Rightarrow> nat \<Rightarrow> byte list option" where
  "get_bytes mem off n =
     (if 0 \<le> off \<and> nat off + n \<le> length mem then Some (take n (drop (nat off) mem)) else None)"

definition put_bytes :: "byte list \<Rightarrow> int \<Rightarrow> byte list \<Rightarrow> byte list option" where
  "put_bytes mem off bs =
     (if 0 \<le> off \<and> nat off + length bs \<le> length mem
      then Some (take (nat off) mem @ bs @ drop (nat off + length bs) mem) else None)"

definition bytes16 :: "u16 \<Rightarrow> byte list" where
  "bytes16 v = [ucast v, ucast (drop_bit 8 v)]"

definition bytes32 :: "u32 \<Rightarrow> byte list" where
  "bytes32 v = [ucast v, ucast (drop_bit 8 v), ucast (drop_bit 16 v), ucast (drop_bit 24 v)]"

definition word16_at :: "byte list \<Rightarrow> int \<Rightarrow> u16 option" where
  "word16_at mem off = do { bs \<leftarrow> get_bytes mem off 2; Some (le16 (bs ! 0) (bs ! 1)) }"

definition word32_at :: "byte list \<Rightarrow> int \<Rightarrow> u32 option" where
  "word32_at mem off = do {
     bs \<leftarrow> get_bytes mem off 4;
     Some (ucast (bs ! 0) OR push_bit 8 (ucast (bs ! 1)) OR push_bit 16 (ucast (bs ! 2)) OR push_bit 24 (ucast (bs ! 3))) }"

definition byte_at :: "byte list \<Rightarrow> int \<Rightarrow> byte option" where
  "byte_at mem off = read_cell (Some mem) off"

section \<open>Packets\<close>

abbreviation sizeof_packet :: nat where
  "sizeof_packet \<equiv> 20"

definition create_packet :: "stack_env \<Rightarrow> int \<Rightarrow> net_stack \<Rightarrow> vptr \<times> net_stack" where
  "create_packet E sz s =
     (case se_block E (st_packets s) (nat ((int sizeof_packet + sz + 15) mod 4294967296)) of
        None \<Rightarrow> (None, s)
      | Some (a, block) \<Rightarrow>
          let tmp = (a + sizeof_packet + 15) div 16 * 16
          in (Some a, s\<lparr> st_packets := (st_packets s)(a \<mapsto> \<lparr> pk_next = None, pk_data = drop (tmp - a) block,
                pk_network_data = None, pk_transport_data = None, pk_size = sz \<rparr>) \<rparr>))"

definition delete_packet :: "addr \<Rightarrow> net_stack \<Rightarrow> net_stack option" where
  "delete_packet a s = do {
     p \<leftarrow> st_packets s a;
     Some (s\<lparr> st_packets := (st_packets s)(a := None) \<rparr>) }"

definition upd_packet :: "addr \<Rightarrow> (packet_t \<Rightarrow> packet_t) \<Rightarrow> net_stack \<Rightarrow> net_stack option" where
  "upd_packet a f s = do {
     p \<leftarrow> st_packets s a;
     Some (s\<lparr> st_packets := (st_packets s)(a \<mapsto> f p) \<rparr>) }"

section \<open>Queues of packets\<close>

definition packet_queue_init :: packet_queue_t where
  "packet_queue_init = \<lparr> pq_sync = 0, pq_first = None, pq_last = None \<rparr>"

partial_function (option) packet_queue_destroy :: "packet_queue_t \<Rightarrow> net_stack \<Rightarrow> net_stack option" where
  "packet_queue_destroy q s =
     (if pq_first q = None then Some s
      else do {
        a \<leftarrow> pq_first q;
        p \<leftarrow> st_packets s a;
        s \<leftarrow> delete_packet a s;
        packet_queue_destroy (q\<lparr> pq_first := pk_next p \<rparr>) s })"

definition packet_queue_insert :: "addr \<Rightarrow> packet_queue_t \<Rightarrow> net_stack \<Rightarrow> (packet_queue_t \<times> net_stack) option" where
  "packet_queue_insert a q s = do {
     s \<leftarrow> upd_packet a (\<lambda>p. p\<lparr> pk_next := None \<rparr>) s;
     (q, s) \<leftarrow> (case pq_first q of
         None \<Rightarrow> if pq_last q \<noteq> None then None else Some (q\<lparr> pq_first := Some a, pq_last := Some a \<rparr>, s)
       | Some _ \<Rightarrow> do {
           l \<leftarrow> pq_last q;
           s \<leftarrow> upd_packet l (\<lambda>p. p\<lparr> pk_next := Some a \<rparr>) s;
           Some (q\<lparr> pq_last := Some a \<rparr>, s) });
     Some (q\<lparr> pq_sync := pq_sync q + 1 \<rparr>, s) }"

definition packet_queue_pop_head :: "packet_queue_t \<Rightarrow> net_stack \<Rightarrow> (vptr \<times> packet_queue_t) option" where
  "packet_queue_pop_head q s =
     (if pq_sync q < 1 then Some (None, q)
      else let q = q\<lparr> pq_sync := pq_sync q - 1 \<rparr> in
        case pq_first q of
          None \<Rightarrow> Some (None, q)
        | Some a \<Rightarrow> do {
            p \<leftarrow> st_packets s a;
            Some (Some a, q\<lparr> pq_first := pk_next p, pq_last := (if pk_next p = None then None else pq_last q) \<rparr>) })"

definition packet_queue_is_empty :: "packet_queue_t \<Rightarrow> bool" where
  "packet_queue_is_empty q \<longleftrightarrow> pq_first q = None"

end
