(* ===== verification/Kernel_Ip.thy ===== *)
theory Kernel_Ip
  imports Kernel_Packet
begin

unbundle bit_operations_syntax

text \<open>
  Sending: Ethernet frames (\<^verbatim>\<open>source/kernel/src/network/ethernet.c\<close>), address resolution (\<^verbatim>\<open>arp.c\<close>) and IP packets (\<^verbatim>\<open>ipv4.c\<close>),
  and the ICMP echo reply (\<^verbatim>\<open>icmp.c\<close>). A packet that the driver accepts belongs to the driver; its bytes are appended to
  \<open>st_sent\<close>. The C functions return \<open>-1\<close> when the driver is busy, which is the code of \<^verbatim>\<open>ENOMEM\<close>.
\<close>

section \<open>Ethernet\<close>

definition ETH_P_IP :: u16 where "ETH_P_IP = 0x0800"
definition ETH_P_ARP :: u16 where "ETH_P_ARP = 0x0806"

definition is_zero_ethernet_address :: "byte list \<Rightarrow> bool" where
  "is_zero_ethernet_address addr \<longleftrightarrow>
     addr ! 0 OR addr ! 1 OR addr ! 2 OR addr ! 3 OR addr ! 4 OR addr ! 5 = 0"

definition is_multicast_ethernet_address :: "byte list \<Rightarrow> bool" where
  "is_multicast_ethernet_address addr \<longleftrightarrow> addr ! 0 AND 1 \<noteq> 0"

definition is_valid_ethernet_address :: "byte list \<Rightarrow> bool" where
  "is_valid_ethernet_address addr \<longleftrightarrow> \<not> is_multicast_ethernet_address addr \<and> \<not> is_zero_ethernet_address addr"

definition net_device_transmit :: "stack_env \<Rightarrow> addr \<Rightarrow> addr \<Rightarrow> net_stack \<Rightarrow> ((errno + unit) \<times> net_stack) option" where
  "net_device_transmit E device packet s = do {
     p \<leftarrow> st_packets s packet;
     if se_transmit E s device (pk_data p)
     then Some (Inr (), s\<lparr> st_packets := (st_packets s)(packet := None), st_sent := st_sent s @ [(device, pk_data p)] \<rparr>)
     else Some (Inl ENOMEM, s) }"

definition ethernet_send_packet ::
    "stack_env \<Rightarrow> addr \<Rightarrow> byte list \<Rightarrow> u16 \<Rightarrow> addr \<Rightarrow> net_stack \<Rightarrow> ((errno + unit) \<times> net_stack) option" where
  "ethernet_send_packet E device hw_address protocol packet s = do {
     p \<leftarrow> st_packets s packet;
     dev \<leftarrow> st_ifs s device;
     mem \<leftarrow> put_bytes (pk_data p) 12 (bytes16 (ntohw protocol));
     mem \<leftarrow> put_bytes mem 0 (take 6 hw_address);
     mem \<leftarrow> put_bytes mem 6 (take 6 (if_dev_addr dev));
     s \<leftarrow> upd_packet packet (\<lambda>p. p\<lparr> pk_data := mem \<rparr>) s;
     (error, s) \<leftarrow> net_device_transmit E device packet s;
     case error of
       Inl e \<Rightarrow> do { s \<leftarrow> delete_packet packet s; Some (Inl e, s) }
     | Inr _ \<Rightarrow> Some (Inr (), s) }"

section \<open>ARP\<close>

definition ARP_CACHE_EXPIRE_TIME :: nat where "ARP_CACHE_EXPIRE_TIME = 1000000"
definition ARP_DONTCLEAN :: u32 where "ARP_DONTCLEAN = 1"
definition ARP_CMD_REQUEST :: u16 where "ARP_CMD_REQUEST = 1"
definition ARP_CMD_REPLY :: u16 where "ARP_CMD_REPLY = 2"
definition broadcast_ip :: u32 where "broadcast_ip = 0xFFFFFFFF"

definition upd_if :: "addr \<Rightarrow> (net_if \<Rightarrow> net_if) \<Rightarrow> net_stack \<Rightarrow> net_stack option" where
  "upd_if a f s = do {
     i \<leftarrow> st_ifs s a;
     Some (s\<lparr> st_ifs := (st_ifs s)(a \<mapsto> f i) \<rparr>) }"

definition arp_cache_create_item :: "stack_env \<Rightarrow> byte list \<Rightarrow> u32 \<Rightarrow> net_stack \<Rightarrow> arp_cache_item_t option" where
  "arp_cache_create_item E hw_address flags s =
     (if se_object E s
      then Some \<lparr> ai_flags = flags, ai_hw_address = take 6 hw_address, ai_expire_time = st_now s + ARP_CACHE_EXPIRE_TIME \<rparr>
      else None)"

text \<open>The tables of a new device, with the answers for the memory of the two tables.\<close>

definition arp_interface_init ::
    "stack_env \<Rightarrow> addr \<Rightarrow> errno + unit \<Rightarrow> errno + unit \<Rightarrow> net_stack \<Rightarrow> ((errno + unit) \<times> net_stack) option" where
  "arp_interface_init E device requests cache s = (case requests of
       Inl e \<Rightarrow> Some (Inl e, s)
     | Inr _ \<Rightarrow> (case cache of
           Inl e \<Rightarrow> Some (Inl e, s)
         | Inr _ \<Rightarrow> (case arp_cache_create_item E (replicate 6 0xFF) ARP_DONTCLEAN s of
               None \<Rightarrow> Some (Inr (), s)
             | Some item \<Rightarrow> do {
                 s \<leftarrow> upd_if device (\<lambda>i. i\<lparr> if_arp_requests := (\<lambda>_. None), if_arp_cache := [broadcast_ip \<mapsto> item] \<rparr>) s;
                 Some (Inr (), s) })))"

text \<open>Packets that wait for the address of their next hop are sent in their order.\<close>

partial_function (option) arp_flush_loop ::
    "stack_env \<Rightarrow> addr \<Rightarrow> byte list \<Rightarrow> packet_queue_t \<Rightarrow> net_stack \<Rightarrow> (packet_queue_t \<times> net_stack) option" where
  "arp_flush_loop E device hw_address q s = do {
     (packet, q) \<leftarrow> packet_queue_pop_head q s;
     if packet = None then Some (q, s)
     else do {
       a \<leftarrow> packet;
       (error, s) \<leftarrow> ethernet_send_packet E device hw_address ETH_P_IP a s;
       arp_flush_loop E device hw_address q s } }"

definition arp_cache_insert :: "stack_env \<Rightarrow> addr \<Rightarrow> byte list \<Rightarrow> u32 \<Rightarrow> net_stack \<Rightarrow> net_stack option" where
  "arp_cache_insert E device hw_address ip_address s = do {
     i \<leftarrow> st_ifs s device;
     (pending_req, s) \<leftarrow> (case if_arp_cache i ip_address of
         Some item \<Rightarrow> if if_arp_requests i ip_address \<noteq> None then None else Some (None, s)
       | None \<Rightarrow> do {
           s \<leftarrow> (case arp_cache_create_item E hw_address 0 s of
               None \<Rightarrow> Some s
             | Some item \<Rightarrow> upd_if device (\<lambda>i. i\<lparr> if_arp_cache := (if_arp_cache i)(ip_address \<mapsto> item) \<rparr>) s);
           s \<leftarrow> upd_if device (\<lambda>i. i\<lparr> if_arp_requests := (if_arp_requests i)(ip_address := None) \<rparr>) s;
           Some (if_arp_requests i ip_address, s) });
     case pending_req of
       None \<Rightarrow> Some s
     | Some q \<Rightarrow> do {
         (q, s) \<leftarrow> arp_flush_loop E device hw_address q s;
         packet_queue_destroy q s } }"

text \<open>The header and the data of an ARP packet for addresses of Ethernet and IP.\<close>

definition arp_packet :: "u16 \<Rightarrow> byte list \<Rightarrow> u32 \<Rightarrow> byte list \<Rightarrow> u32 \<Rightarrow> byte list" where
  "arp_packet command hw_sender ip_sender hw_target ip_target =
     bytes16 (ntohw 1) @ bytes16 (ntohw ETH_P_IP) @ [6, 4] @ bytes16 (ntohw command) @
     take 6 hw_sender @ bytes32 ip_sender @ take 6 hw_target @ bytes32 ip_target"

definition arp_send_packet :: "stack_env \<Rightarrow> addr \<Rightarrow> u32 \<Rightarrow> addr \<Rightarrow> net_stack \<Rightarrow> ((errno + unit) \<times> net_stack) option" where
  "arp_send_packet E device dest_ip packet s = do {
     d \<leftarrow> n_devices (st_net s) device;
     i \<leftarrow> st_ifs s device;
     if net_device_flags d AND NETDEV_UP = 0 then Some (Inl ENETDOWN, s)
     else case if_arp_cache i dest_ip of
       Some item \<Rightarrow> ethernet_send_packet E device (ai_hw_address item) ETH_P_IP packet s
     | None \<Rightarrow>
         if dest_ip = broadcast_ip then None
         else case if_arp_requests i dest_ip of
           Some q \<Rightarrow> do {
             (q, s) \<leftarrow> packet_queue_insert packet q s;
             s \<leftarrow> upd_if device (\<lambda>i. i\<lparr> if_arp_requests := (if_arp_requests i)(dest_ip \<mapsto> q) \<rparr>) s;
             Some (Inr (), s) }
         | None \<Rightarrow>
             if \<not> se_object E s then Some (Inl ENOMEM, s)
             else do {
               (q, s) \<leftarrow> packet_queue_insert packet packet_queue_init s;
               s \<leftarrow> upd_if device (\<lambda>i. i\<lparr> if_arp_requests := (if_arp_requests i)(dest_ip \<mapsto> q) \<rparr>) s;
               let (arp_request, s) = create_packet E 42 s;
               case arp_request of
                 None \<Rightarrow> Some (Inl ENOMEM, s)
               | Some r \<Rightarrow> do {
                   p \<leftarrow> st_packets s r;
                   mem \<leftarrow> put_bytes (pk_data p) 14
                     (arp_packet ARP_CMD_REQUEST (if_dev_addr i) (nd_ip_addr d) (replicate 6 0) dest_ip);
                   s \<leftarrow> upd_packet r (\<lambda>p. p\<lparr> pk_data := mem \<rparr>) s;
                   ethernet_send_packet E device (replicate 6 0xFF) ETH_P_ARP r s } } }"

definition arp_handle_request ::
    "stack_env \<Rightarrow> addr \<Rightarrow> byte list \<Rightarrow> u32 \<Rightarrow> u32 \<Rightarrow> net_stack \<Rightarrow> ((errno + unit) \<times> net_stack) option" where
  "arp_handle_request E device hw_sender ip_sender ip_target s = do {
     d \<leftarrow> n_devices (st_net s) device;
     i \<leftarrow> st_ifs s device;
     if ip_target \<noteq> nd_ip_addr d then Some (Inr (), s)
     else do {
       let (reply, s) = create_packet E 42 s;
       case reply of
         None \<Rightarrow> Some (Inl ENOMEM, s)
       | Some r \<Rightarrow> do {
           p \<leftarrow> st_packets s r;
           mem \<leftarrow> put_bytes (pk_data p) 0 (take 6 hw_sender @ take 6 (if_dev_addr i) @ bytes16 (ntohw ETH_P_ARP));
           mem \<leftarrow> put_bytes mem 14 (arp_packet ARP_CMD_REPLY (if_dev_addr i) (nd_ip_addr d) hw_sender ip_sender);
           s \<leftarrow> upd_packet r (\<lambda>p. p\<lparr> pk_data := mem \<rparr>) s;
           (error, s) \<leftarrow> net_device_transmit E device r s;
           case error of
             Inl e \<Rightarrow> do { s \<leftarrow> delete_packet r s; Some (Inr (), s) }
           | Inr _ \<Rightarrow> Some (Inr (), s) } } }"

definition arp_input :: "stack_env \<Rightarrow> addr \<Rightarrow> addr \<Rightarrow> net_stack \<Rightarrow> net_stack option" where
  "arp_input E device packet s = do {
     p \<leftarrow> st_packets s packet;
     command \<leftarrow> word16_at (pk_data p) 20;
     if ntohw command = ARP_CMD_REQUEST then do {
       hw_sender \<leftarrow> get_bytes (pk_data p) 22 6;
       ip_sender \<leftarrow> word32_at (pk_data p) 28;
       s \<leftarrow> arp_cache_insert E device hw_sender ip_sender s;
       ip_target \<leftarrow> word32_at (pk_data p) 38;
       (error, s) \<leftarrow> arp_handle_request E device hw_sender ip_sender ip_target s;
       Some s }
     else if ntohw command = ARP_CMD_REPLY then do {
       hw_sender \<leftarrow> get_bytes (pk_data p) 22 6;
       ip_sender \<leftarrow> word32_at (pk_data p) 28;
       arp_cache_insert E device hw_sender ip_sender s }
     else Some s }"

section \<open>IP\<close>

definition IPV4_HDR_SIZE :: "byte \<Rightarrow> nat" where
  "IPV4_HDR_SIZE n = unat (n AND 0x0F)"

text \<open>The header that both send functions write before the transport data, with the checksum over its 20 bytes.\<close>

definition ipv4_build_header :: "u32 \<Rightarrow> u32 \<Rightarrow> byte \<Rightarrow> addr \<Rightarrow> net_stack \<Rightarrow> net_stack option" where
  "ipv4_build_header src dest protocol packet s = do {
     p \<leftarrow> st_packets s packet;
     t \<leftarrow> pk_transport_data p;
     let h = t - 20;
     if h < 0 then None
     else do {
       mem \<leftarrow> put_bytes (pk_data p) h ([0x45, 0] @ bytes16 (ntohw (word_of_int (pk_size p - h))) @ [0, 0] @
         bytes16 (ntohw 0x4000) @ [255, protocol] @ [0, 0] @ bytes32 src @ bytes32 dest);
       c \<leftarrow> ip_checksum (drop (nat h) mem) 20;
       mem \<leftarrow> put_bytes mem (h + 10) (bytes16 c);
       upd_packet packet (\<lambda>p. p\<lparr> pk_network_data := Some h, pk_data := mem \<rparr>) s } }"

definition ipv4_send_packet_via_route ::
    "stack_env \<Rightarrow> addr \<Rightarrow> u32 \<Rightarrow> addr \<Rightarrow> byte \<Rightarrow> net_stack \<Rightarrow> ((errno + unit) \<times> net_stack) option" where
  "ipv4_send_packet_via_route E route dest_ip packet protocol s = do {
     r \<leftarrow> n_routes (st_net s) route;
     device \<leftarrow> rt_device r;
     d \<leftarrow> n_devices (st_net s) device;
     s \<leftarrow> ipv4_build_header (nd_ip_addr d) dest_ip protocol packet s;
     if rt_flags r AND RTF_GATEWAY \<noteq> 0 then arp_send_packet E device (gateway_addr r) packet s
     else arp_send_packet E device dest_ip packet s }"

definition ipv4_send_packet :: "stack_env \<Rightarrow> u32 \<Rightarrow> addr \<Rightarrow> byte \<Rightarrow> net_stack \<Rightarrow> ((errno + unit) \<times> net_stack) option" where
  "ipv4_send_packet E dest_ip packet protocol s = do {
     (route, w) \<leftarrow> route_find (se_net E) dest_ip (st_net s);
     let s = s\<lparr> st_net := w \<rparr>;
     case route of
       None \<Rightarrow> Some (Inl EINVAL, s)
     | Some r \<Rightarrow> do {
         (error, s) \<leftarrow> ipv4_send_packet_via_route E r dest_ip packet protocol s;
         w \<leftarrow> route_put r (st_net s);
         Some (error, s\<lparr> st_net := w \<rparr>) } }"

section \<open>ICMP\<close>

text \<open>The number of payload bytes is the size of the IP packet less the IP header and the identifier and sequence number; the
  four bytes of the ICMP header are not subtracted.\<close>

definition icmp_handle_echo :: "stack_env \<Rightarrow> addr \<Rightarrow> net_stack \<Rightarrow> ((errno + unit) \<times> net_stack) option" where
  "icmp_handle_echo E packet s = do {
     p \<leftarrow> st_packets s packet;
     n \<leftarrow> pk_network_data p;
     t \<leftarrow> pk_transport_data p;
     packet_size \<leftarrow> word16_at (pk_data p) (n + 2);
     vs \<leftarrow> byte_at (pk_data p) n;
     let payload = uint (ntohw packet_size) - int (IPV4_HDR_SIZE vs) * 4 - 4;
     let (reply, s) = create_packet E (14 + 20 + 4 + 4 + payload) s;
     case reply of
       None \<Rightarrow> do { s \<leftarrow> delete_packet packet s; Some (Inl ENOMEM, s) }
     | Some r \<Rightarrow> do {
         q \<leftarrow> st_packets s r;
         let data = pk_size q;
         (mem, data) \<leftarrow> (if payload > 0 then do {
             bs \<leftarrow> get_bytes (pk_data p) (t + 8) (nat payload);
             mem \<leftarrow> put_bytes (pk_data q) (data - payload) bs;
             Some (mem, data - payload) } else Some (pk_data q, data));
         ids \<leftarrow> get_bytes (pk_data p) (t + 4) 4;
         mem \<leftarrow> put_bytes mem (data - 4) ids;
         let data = data - 8;
         code \<leftarrow> byte_at (pk_data p) (t + 1);
         src \<leftarrow> word32_at (pk_data p) (n + 12);
         s \<leftarrow> delete_packet packet s;
         mem \<leftarrow> put_bytes mem data [0, code, 0, 0];
         c \<leftarrow> ip_checksum (drop (nat data) mem) (nat ((8 + payload) mod 65536));
         mem \<leftarrow> put_bytes mem (data + 2) (bytes16 c);
         s \<leftarrow> upd_packet r (\<lambda>q. q\<lparr> pk_data := mem, pk_transport_data := Some data \<rparr>) s;
         ipv4_send_packet E src r IP_PROTO_ICMP s } }"

definition icmp_input :: "stack_env \<Rightarrow> addr \<Rightarrow> net_stack \<Rightarrow> ((errno + unit) \<times> net_stack) option" where
  "icmp_input E packet s = do {
     p \<leftarrow> st_packets s packet;
     t \<leftarrow> pk_transport_data p;
     type \<leftarrow> byte_at (pk_data p) t;
     if type = 8 then do { (error, s) \<leftarrow> icmp_handle_echo E packet s; Some (Inr (), s) }
     else do { s \<leftarrow> delete_packet packet s; Some (Inl EINVAL, s) } }"

end
