(* ===== verification/Kernel_Udp.thy ===== *)
theory Kernel_Udp
  imports Kernel_Ip
begin

unbundle bit_operations_syntax

text \<open>
  Datagrams, \<^verbatim>\<open>source/kernel/src/network/udp.c\<close>. A socket gets a local port when it is bound or first sends; datagrams for the
  port are queued and handed out whole. Blocking calls return \<open>Waits\<close> where the thread goes to sleep on the condition.
\<close>

section \<open>Access to sockets and requests\<close>

definition upd_udp :: "addr \<Rightarrow> (udp_socket_t \<Rightarrow> udp_socket_t) \<Rightarrow> net_stack \<Rightarrow> net_stack option" where
  "upd_udp a f s = do {
     u \<leftarrow> st_udp s a;
     Some (s\<lparr> st_udp := (st_udp s)(a \<mapsto> f u) \<rparr>) }"

definition upd_select :: "addr \<Rightarrow> (select_request_t \<Rightarrow> select_request_t) \<Rightarrow> net_stack \<Rightarrow> net_stack option" where
  "upd_select a f s = do {
     r \<leftarrow> st_selects s a;
     Some (s\<lparr> st_selects := (st_selects s)(a \<mapsto> f r) \<rparr>) }"

text \<open>Removing the first item with a key from a table.\<close>

fun remove_key :: "'k \<Rightarrow> ('k \<times> 'v) list \<Rightarrow> ('k \<times> 'v) list" where
  "remove_key k [] = []"
| "remove_key k ((k', v) # t) = (if k' = k then t else (k', v) # remove_key k t)"

text \<open>Waking the threads that wait in \<^verbatim>\<open>select\<close>.\<close>

partial_function (option) notify_selects :: "vptr \<Rightarrow> net_stack \<Rightarrow> net_stack option" where
  "notify_selects p s =
     (if p = None then Some s
      else do {
        a \<leftarrow> p;
        s \<leftarrow> upd_select a (\<lambda>r. r\<lparr> sr_ready := True, sr_sync := sr_sync r + 1 \<rparr>) s;
        r \<leftarrow> st_selects s a;
        notify_selects (sr_next r) s })"

text \<open>Taking a request out of a list of requests: the new head of the list.\<close>

partial_function (option) unlink_select_loop :: "addr \<Rightarrow> vptr \<Rightarrow> vptr \<Rightarrow> vptr \<Rightarrow> net_stack \<Rightarrow> (vptr \<times> net_stack) option" where
  "unlink_select_loop request first prev tmp s =
     (if tmp = None then Some (first, s)
      else do {
        a \<leftarrow> tmp;
        r \<leftarrow> st_selects s a;
        if a = request then
          (case prev of
             None \<Rightarrow> Some (sr_next r, s)
           | Some q \<Rightarrow> do { s \<leftarrow> upd_select q (\<lambda>x. x\<lparr> sr_next := sr_next r \<rparr>) s; Some (first, s) })
        else unlink_select_loop request first tmp (sr_next r) s })"

section \<open>Endpoints\<close>

definition udp_get_endpoint :: "int \<Rightarrow> net_stack \<Rightarrow> (vptr \<times> net_stack) option" where
  "udp_get_endpoint port s = (case map_of (udp_endpoint_table s) port of
       None \<Rightarrow> Some (None, s)
     | Some u \<Rightarrow> do {
         s \<leftarrow> upd_udp u (\<lambda>x. x\<lparr> us_ref_count := us_ref_count x + 1 \<rparr>) s;
         Some (Some u, s) })"

definition udp_put_endpoint :: "addr \<Rightarrow> net_stack \<Rightarrow> net_stack option" where
  "udp_put_endpoint u s = do {
     s \<leftarrow> upd_udp u (\<lambda>x. x\<lparr> us_ref_count := us_ref_count x - 1 \<rparr>) s;
     x \<leftarrow> st_udp s u;
     if us_ref_count x = 0 then do {
       port \<leftarrow> us_port x;
       Some (s\<lparr> udp_endpoint_table := remove_key port (udp_endpoint_table s) \<rparr>) }
     else Some s }"

definition udp_close :: "addr \<Rightarrow> net_stack \<Rightarrow> ((errno + unit) \<times> net_stack) option" where
  "udp_close socket s = Some (Inr (), s)"

text \<open>A port given by the caller is tested but not marked as used.\<close>

definition udp_bind :: "stack_env \<Rightarrow> addr \<Rightarrow> u16 \<Rightarrow> net_stack \<Rightarrow> ((errno + unit) \<times> net_stack) option" where
  "udp_bind E socket sin_port s = do {
     k \<leftarrow> st_sockets s socket;
     u \<leftarrow> so_data k;
     x \<leftarrow> st_udp s u;
     if us_port x \<noteq> None then Some (Inl EINVAL, s)
     else do {
       (r, s) \<leftarrow> (if ntohw sin_port = 0 then do {
           port \<leftarrow> bitmap_first_not_set_in_range (udp_port_table s) 1024 65535;
           if port < 0 then Some (Inl ENOSPC, s)
           else do {
             (_, t) \<leftarrow> bitmap_set (udp_port_table s) port;
             Some (Inr port, s\<lparr> udp_port_table := t \<rparr>) } }
         else do {
           b \<leftarrow> bitmap_get (udp_port_table s) (uint (ntohw sin_port));
           if b \<noteq> 0 then Some (Inl EADDRINUSE, s) else Some (Inr (uint (ntohw sin_port)), s) });
       case r of
         Inl e \<Rightarrow> Some (Inl e, s)
       | Inr port \<Rightarrow>
           if \<not> se_object E s then do {
             (_, t) \<leftarrow> bitmap_unset (udp_port_table s) port;
             Some (Inl ENOMEM, s\<lparr> udp_port_table := t \<rparr>) }
           else do {
             s \<leftarrow> upd_udp u (\<lambda>x. x\<lparr> us_port := Some port \<rparr>) s;
             Some (Inr (), s\<lparr> udp_endpoint_table := (port, u) # udp_endpoint_table s \<rparr>) } } }"

section \<open>Receiving\<close>

text \<open>Copying to the buffers of a message; the sizes of the buffers are given, the result is what each one gets.\<close>

fun udp_copy_loop :: "byte list \<Rightarrow> int \<Rightarrow> int \<Rightarrow> nat list \<Rightarrow> byte list list option" where
  "udp_copy_loop mem data data_size [] = Some []"
| "udp_copy_loop mem data data_size (iov_len # iovs) = do {
     let to_copy = nat (min (int iov_len) data_size);
     bs \<leftarrow> get_bytes mem data to_copy;
     rest \<leftarrow> udp_copy_loop mem (data + int to_copy) (data_size - int to_copy) iovs;
     Some (bs # rest) }"

text \<open>\<^verbatim>\<open>udp_recvmsg\<close>, called again when the thread has been woken; the result is the number that is returned and what has been
  copied. The size in the header counts the header as well.\<close>

definition udp_recvmsg :: "addr \<Rightarrow> nat list \<Rightarrow> net_stack \<Rightarrow> (((errno + int \<times> byte list list) call) \<times> net_stack) option" where
  "udp_recvmsg socket iovs s = do {
     k \<leftarrow> st_sockets s socket;
     u \<leftarrow> so_data k;
     x \<leftarrow> st_udp s u;
     if us_port x = None then Some (Returns (Inl ENOTCONN), s)
     else if packet_queue_is_empty (us_rx_queue x) then
       Some (if us_nonblocking x then Returns (Inl EWOULDBLOCK) else Waits, s)
     else do {
       (packet, q) \<leftarrow> packet_queue_pop_head (us_rx_queue x) s;
       a \<leftarrow> packet;
       s \<leftarrow> upd_udp u (\<lambda>x. x\<lparr> us_rx_queue := q \<rparr>) s;
       p \<leftarrow> st_packets s a;
       t \<leftarrow> pk_transport_data p;
       sz \<leftarrow> word16_at (pk_data p) (t + 4);
       bufs \<leftarrow> udp_copy_loop (pk_data p) (t + 8) (uint (ntohw sz)) iovs;
       s \<leftarrow> delete_packet a s;
       Some (Returns (Inr (uint (ntohw sz), bufs)), s) } }"

definition udp_notify_read_waiters :: "addr \<Rightarrow> net_stack \<Rightarrow> net_stack option" where
  "udp_notify_read_waiters u s = do {
     x \<leftarrow> st_udp s u;
     s \<leftarrow> notify_selects (us_first_read_select x) s;
     upd_udp u (\<lambda>x. x\<lparr> us_rx_signals := us_rx_signals x + 1 \<rparr>) s }"

definition udp_input :: "addr \<Rightarrow> net_stack \<Rightarrow> net_stack option" where
  "udp_input packet s = do {
     p \<leftarrow> st_packets s packet;
     n \<leftarrow> pk_network_data p;
     t \<leftarrow> pk_transport_data p;
     packet_size \<leftarrow> word16_at (pk_data p) (n + 2);
     vs \<leftarrow> byte_at (pk_data p) n;
     src \<leftarrow> get_bytes (pk_data p) (n + 12) 4;
     dest \<leftarrow> get_bytes (pk_data p) (n + 16) 4;
     c \<leftarrow> (if t < 0 then None else udp_checksum src dest (drop (nat t) (pk_data p))
       (nat ((uint (ntohw packet_size) - int (IPV4_HDR_SIZE vs) * 4) mod 4294967296)));
     if c \<noteq> 0 then delete_packet packet s
     else do {
       port \<leftarrow> word16_at (pk_data p) (t + 2);
       (endpoint, s) \<leftarrow> udp_get_endpoint (uint (ntohw port)) s;
       case endpoint of
         None \<Rightarrow> delete_packet packet s
       | Some u \<Rightarrow> do {
           x \<leftarrow> st_udp s u;
           (q, s) \<leftarrow> packet_queue_insert packet (us_rx_queue x) s;
           s \<leftarrow> upd_udp u (\<lambda>x. x\<lparr> us_rx_queue := q \<rparr>) s;
           s \<leftarrow> udp_notify_read_waiters u s;
           udp_put_endpoint u s } } }"

section \<open>Sending\<close>

definition udp_sendmsg ::
    "stack_env \<Rightarrow> addr \<Rightarrow> u32 \<Rightarrow> u16 \<Rightarrow> byte list list \<Rightarrow> net_stack \<Rightarrow> ((errno + int) \<times> net_stack) option" where
  "udp_sendmsg E socket ip sin_port iovs s = do {
     k \<leftarrow> st_sockets s socket;
     u \<leftarrow> so_data k;
     x \<leftarrow> st_udp s u;
     n \<leftarrow> strlen (us_bind_to_device x);
     (found, w) \<leftarrow> (if 0 < n then route_find_device (se_net E) (us_bind_to_device x) (st_net s)
                    else route_find (se_net E) ip (st_net s));
     let s = s\<lparr> st_net := w \<rparr>;
     case found of
       None \<Rightarrow> Some (Inl ENETUNREACH, s)
     | Some route \<Rightarrow> do {
         (bound, s) \<leftarrow> (if us_port x = None then udp_bind E socket 0 s else Some (Inr (), s));
         if bound \<noteq> Inr () then do { w \<leftarrow> route_put route (st_net s); Some (Inl EAGAIN, s\<lparr> st_net := w \<rparr>) }
         else do {
           x \<leftarrow> st_udp s u;
           port \<leftarrow> us_port x;
           let payload_size = length (concat iovs);
           if 65535 < payload_size then do { w \<leftarrow> route_put route (st_net s); Some (Inl E2BIG, s\<lparr> st_net := w \<rparr>) }
           else do {
             let (packet, s) = create_packet E (14 + 20 + 8 + int payload_size) s;
             case packet of
               None \<Rightarrow> do { w \<leftarrow> route_put route (st_net s); Some (Inl ENOMEM, s\<lparr> st_net := w \<rparr>) }
             | Some a \<Rightarrow> do {
                 r \<leftarrow> n_routes (st_net s) route;
                 device \<leftarrow> rt_device r;
                 d \<leftarrow> n_devices (st_net s) device;
                 p \<leftarrow> st_packets s a;
                 mem \<leftarrow> put_bytes (pk_data p) 34 (bytes16 (ntohw (word_of_int port)) @ bytes16 sin_port @
                   bytes16 (ntohw (word_of_nat (8 + payload_size))) @ [0, 0] @ concat iovs);
                 c \<leftarrow> udp_checksum (bytes32 (nd_ip_addr d)) (bytes32 ip) (drop 34 mem) (8 + payload_size);
                 mem \<leftarrow> put_bytes mem 40 (bytes16 c);
                 s \<leftarrow> upd_packet a (\<lambda>p. p\<lparr> pk_data := mem, pk_transport_data := Some 34 \<rparr>) s;
                 (error, s) \<leftarrow> (if 0 < n then ipv4_send_packet_via_route E route ip a IP_PROTO_UDP s
                                else ipv4_send_packet E ip a IP_PROTO_UDP s);
                 w \<leftarrow> route_put route (st_net s);
                 let s = s\<lparr> st_net := w \<rparr>;
                 case error of
                   Inl e \<Rightarrow> do {
                     s \<leftarrow> delete_packet a s;
                     w \<leftarrow> route_put route (st_net s);
                     Some (Inl e, s\<lparr> st_net := w \<rparr>) }
                 | Inr _ \<Rightarrow> Some (Inr (int payload_size), s) } } } } }"

section \<open>Options, select and creation\<close>

definition udp_getsockopt :: "int \<Rightarrow> errno + unit" where
  "udp_getsockopt optname = Inr ()"

definition SO_BINDTODEVICE :: int where "SO_BINDTODEVICE = 22"
abbreviation IFNAMSIZ :: nat where "IFNAMSIZ \<equiv> 16"

definition udp_setsockopt :: "addr \<Rightarrow> int \<Rightarrow> byte list option \<Rightarrow> nat \<Rightarrow> net_stack \<Rightarrow> ((errno + unit) \<times> net_stack) option" where
  "udp_setsockopt socket optname optval optlen s = do {
     k \<leftarrow> st_sockets s socket;
     u \<leftarrow> so_data k;
     x \<leftarrow> st_udp s u;
     if optname \<noteq> SO_BINDTODEVICE then Some (Inl EINVAL, s)
     else case optval of
       None \<Rightarrow> Some (Inl EINVAL, s)
     | Some name \<Rightarrow>
         if IFNAMSIZ < optlen then Some (Inl EINVAL, s)
         else do {
           buf \<leftarrow> strncpy (us_bind_to_device x) name IFNAMSIZ;
           buf \<leftarrow> write_cell (Some buf) (int IFNAMSIZ - 1) 0;
           s \<leftarrow> upd_udp u (\<lambda>x. x\<lparr> us_bind_to_device := buf \<rparr>) s;
           Some (Inr (), s) } }"

definition udp_add_select_request :: "addr \<Rightarrow> addr \<Rightarrow> net_stack \<Rightarrow> net_stack option" where
  "udp_add_select_request socket request s = do {
     k \<leftarrow> st_sockets s socket;
     u \<leftarrow> so_data k;
     x \<leftarrow> st_udp s u;
     r \<leftarrow> st_selects s request;
     case sr_type r of
       SELECT_READ \<Rightarrow> do {
         s \<leftarrow> upd_select request (\<lambda>r. r\<lparr> sr_next := us_first_read_select x \<rparr>) s;
         s \<leftarrow> upd_udp u (\<lambda>x. x\<lparr> us_first_read_select := Some request \<rparr>) s;
         if \<not> packet_queue_is_empty (us_rx_queue x)
         then upd_select request (\<lambda>r. r\<lparr> sr_ready := True, sr_sync := sr_sync r + 1 \<rparr>) s else Some s }
     | SELECT_WRITE \<Rightarrow> upd_select request (\<lambda>r. r\<lparr> sr_ready := True, sr_sync := sr_sync r + 1 \<rparr>) s
     | SELECT_EXCEPT \<Rightarrow> Some s }"

definition udp_remove_select_request :: "addr \<Rightarrow> addr \<Rightarrow> net_stack \<Rightarrow> net_stack option" where
  "udp_remove_select_request socket request s = do {
     k \<leftarrow> st_sockets s socket;
     u \<leftarrow> so_data k;
     x \<leftarrow> st_udp s u;
     r \<leftarrow> st_selects s request;
     if sr_type r = SELECT_READ then do {
       (first, s) \<leftarrow> unlink_select_loop request (us_first_read_select x) None (us_first_read_select x) s;
       upd_udp u (\<lambda>x. x\<lparr> us_first_read_select := first \<rparr>) s }
     else Some s }"

text \<open>A new socket, with the answers for its memory, its mutex and its condition.\<close>

definition udp_create_socket :: "stack_env \<Rightarrow> addr \<Rightarrow> net_stack \<Rightarrow> ((errno + unit) \<times> net_stack) option" where
  "udp_create_socket E socket s = (case se_new_udp E (st_udp s) of
       None \<Rightarrow> Some (Inl ENOMEM, s)
     | Some u \<Rightarrow>
         if \<not> se_locks E s then Some (Inl ENOMEM, s)
         else do {
           k \<leftarrow> st_sockets s socket;
           Some (Inr (), s\<lparr> st_udp := (st_udp s)(u \<mapsto> \<lparr> us_ref_count = 1, us_nonblocking = False, us_rx_signals = 0,
               us_rx_queue = packet_queue_init, us_port = None, us_bind_to_device = replicate IFNAMSIZ 0,
               us_first_read_select = None \<rparr>),
             st_sockets := (st_sockets s)(socket \<mapsto> k\<lparr> so_data := Some u \<rparr>) \<rparr>) })"

end
