(* ===== verification/Kernel_Tcp.thy ===== *)
theory Kernel_Tcp
  imports Kernel_Udp
begin

unbundle bit_operations_syntax

text \<open>
  TCP, \<^verbatim>\<open>source/kernel/src/network/tcp.c\<close>: active connections with a receive and a send window in circular buffers, driven by the
  socket calls, by segments from the network and by the timer thread. Blocking calls are cut where they wait, as for UDP.
\<close>

section \<open>Data\<close>

definition TCP_SYN :: byte where "TCP_SYN = 2"
definition TCP_RST :: byte where "TCP_RST = 4"
definition TCP_PSH :: byte where "TCP_PSH = 8"
definition TCP_ACK :: byte where "TCP_ACK = 16"

abbreviation TCP_RECV_BUFFER_SIZE :: nat where "TCP_RECV_BUFFER_SIZE \<equiv> 32768"
abbreviation TCP_SEND_BUFFER_SIZE :: nat where "TCP_SEND_BUFFER_SIZE \<equiv> 32768"
abbreviation TCP_SYN_TIMEOUT :: nat where "TCP_SYN_TIMEOUT \<equiv> 75000000"

definition upd_tcp :: "addr \<Rightarrow> (tcp_socket_t \<Rightarrow> tcp_socket_t) \<Rightarrow> net_stack \<Rightarrow> net_stack option" where
  "upd_tcp a f s = do {
     x \<leftarrow> st_tcp s a;
     Some (s\<lparr> st_tcp := (st_tcp s)(a \<mapsto> f x) \<rparr>) }"

definition upd_socket :: "addr \<Rightarrow> (socket_t \<Rightarrow> socket_t) \<Rightarrow> net_stack \<Rightarrow> net_stack option" where
  "upd_socket a f s = do {
     k \<leftarrow> st_sockets s a;
     Some (s\<lparr> st_sockets := (st_sockets s)(a \<mapsto> f k) \<rparr>) }"

text \<open>The bytes that wait for the reader, the room in the receive buffer and in the send buffer, what has not been acknowledged
  and what has not been sent: differences of circular pointers.\<close>

definition rx_data :: "tcp_socket_t \<Rightarrow> nat" where
  "rx_data x = circular_pointer_diff (ts_rx_buffer x) (ts_rx_user_data x) (ts_rx_free_data x)"

definition rx_room :: "tcp_socket_t \<Rightarrow> nat" where
  "rx_room x = circular_buffer_size (ts_rx_buffer x) - rx_data x"

definition tx_room :: "tcp_socket_t \<Rightarrow> nat" where
  "tx_room x = circular_buffer_size (ts_tx_buffer x) -
     circular_pointer_diff (ts_tx_buffer x) (ts_tx_first_unacked x) (ts_tx_free_data x)"

definition tx_unacked :: "tcp_socket_t \<Rightarrow> nat" where
  "tx_unacked x = circular_pointer_diff (ts_tx_buffer x) (ts_tx_first_unacked x) (ts_tx_last_sent x)"

definition tx_unsent :: "tcp_socket_t \<Rightarrow> nat" where
  "tx_unsent x = circular_pointer_diff (ts_tx_buffer x) (ts_tx_last_sent x) (ts_tx_free_data x)"

section \<open>Segments\<close>

text \<open>The bytes of a header, with checksum and urgent pointer 0.\<close>

definition tcp_header :: "u16 \<Rightarrow> u16 \<Rightarrow> u32 \<Rightarrow> u32 \<Rightarrow> nat \<Rightarrow> byte \<Rightarrow> u16 \<Rightarrow> byte list" where
  "tcp_header src_port dest_port seq_number ack_number option_size flags window =
     bytes16 (ntohw src_port) @ bytes16 (ntohw dest_port) @ bytes32 (ntohl seq_number) @ bytes32 (ntohl ack_number) @
     [push_bit 4 (word_of_nat ((20 + option_size) div 4)), flags] @ bytes16 (ntohw window) @ [0, 0] @ [0, 0]"

text \<open>A payload is given with the bytes that follow it in memory; \<^verbatim>\<open>NULL\<close> is \<open>None\<close>.\<close>

definition tcp_send_packet ::
    "stack_env \<Rightarrow> addr \<Rightarrow> tcp_socket_t \<Rightarrow> byte \<Rightarrow> byte list option \<Rightarrow> nat \<Rightarrow> nat \<Rightarrow> u32 \<Rightarrow> u32 \<Rightarrow> net_stack \<Rightarrow>
     ((errno + unit) \<times> net_stack) option" where
  "tcp_send_packet E socket x flags payload payload_size option_size seq_number ack_number s = do {
     k \<leftarrow> st_sockets s socket;
     let (packet, s) = create_packet E (14 + 20 + 20 + int payload_size) s;
     case packet of
       None \<Rightarrow> Some (Inl ENOMEM, s)
     | Some a \<Rightarrow> do {
         p \<leftarrow> st_packets s a;
         let t = pk_size p - (20 + int payload_size);
         mem \<leftarrow> put_bytes (pk_data p) t (tcp_header (so_src_port k) (so_dest_port k) seq_number ack_number option_size flags
           (word_of_nat (min (rx_room x) 65535)));
         mem \<leftarrow> (case payload of
             None \<Rightarrow> Some mem
           | Some bs \<Rightarrow> if length bs < payload_size then None else put_bytes mem (t + 20) (take payload_size bs));
         c \<leftarrow> tcp_checksum (bytes32 (so_src_address k)) (bytes32 (so_dest_address k)) (drop (nat t) mem) (20 + payload_size);
         mem \<leftarrow> put_bytes mem (t + 16) (bytes16 c);
         s \<leftarrow> upd_packet a (\<lambda>p. p\<lparr> pk_data := mem, pk_transport_data := Some t \<rparr>) s;
         ipv4_send_packet E (so_dest_address k) a IP_PROTO_TCP s } }"

definition tcp_send_reset :: "stack_env \<Rightarrow> addr \<Rightarrow> net_stack \<Rightarrow> ((errno + unit) \<times> net_stack) option" where
  "tcp_send_reset E packet s = do {
     p \<leftarrow> st_packets s packet;
     n \<leftarrow> pk_network_data p;
     t \<leftarrow> pk_transport_data p;
     flags \<leftarrow> byte_at (pk_data p) (t + 13);
     if flags AND TCP_RST \<noteq> 0 then Some (Inr (), s)
     else do {
       let (reply, s) = create_packet E (14 + 20 + 20) s;
       case reply of
         None \<Rightarrow> Some (Inl ENOMEM, s)
       | Some r \<Rightarrow> do {
           q \<leftarrow> st_packets s r;
           let d = pk_size q - 20;
           src_port \<leftarrow> word16_at (pk_data p) t;
           dest_port \<leftarrow> word16_at (pk_data p) (t + 2);
           seq \<leftarrow> word32_at (pk_data p) (t + 4);
           src \<leftarrow> word32_at (pk_data p) (n + 12);
           dest \<leftarrow> word32_at (pk_data p) (n + 16);
           mem \<leftarrow> put_bytes (pk_data q) d (bytes16 dest_port @ bytes16 src_port @ bytes32 0 @ bytes32 (ntohl (ntohl seq + 1)) @
             [push_bit 4 5, TCP_RST OR TCP_ACK] @ [0, 0] @ [0, 0] @ [0, 0]);
           c \<leftarrow> tcp_checksum (bytes32 src) (bytes32 dest) (drop (nat d) mem) 20;
           mem \<leftarrow> put_bytes mem (d + 16) (bytes16 c);
           s \<leftarrow> upd_packet r (\<lambda>q. q\<lparr> pk_data := mem, pk_transport_data := Some d \<rparr>) s;
           ipv4_send_packet E src r IP_PROTO_TCP s } } }"

section \<open>Connecting\<close>

definition tcp_close :: "addr \<Rightarrow> net_stack \<Rightarrow> ((errno + unit) \<times> net_stack) option" where
  "tcp_close socket s = Some (Inr (), s)"

text \<open>\<^verbatim>\<open>tcp_connect\<close> up to the wait for the answer, and after it.\<close>

definition tcp_connect_start ::
    "stack_env \<Rightarrow> addr \<Rightarrow> u32 \<Rightarrow> net_stack \<Rightarrow> ((errno + unit) call \<times> net_stack) option" where
  "tcp_connect_start E socket ip s = do {
     k \<leftarrow> st_sockets s socket;
     a \<leftarrow> so_data k;
     x \<leftarrow> st_tcp s a;
     if ts_state x \<noteq> TCP_STATE_CLOSED then
       Some (Returns (Inl (case ts_state x of TCP_STATE_SYN_SENT \<Rightarrow> EALREADY | TCP_STATE_ESTABLISHED \<Rightarrow> EISCONN | _ \<Rightarrow> EINVAL)), s)
     else do {
       (found, w) \<leftarrow> route_find (se_net E) ip (st_net s);
       let s = s\<lparr> st_net := w \<rparr>;
       case found of
         None \<Rightarrow> Some (Returns (Inl ENETUNREACH), s)
       | Some route \<Rightarrow> do {
           r \<leftarrow> n_routes (st_net s) route;
           device \<leftarrow> rt_device r;
           d \<leftarrow> n_devices (st_net s) device;
           i \<leftarrow> st_ifs s device;
           let port = word_of_nat (st_now s mod 65535 + 1);
           s \<leftarrow> upd_socket socket (\<lambda>k. k\<lparr> so_src_address := nd_ip_addr d, so_src_port := port \<rparr>) s;
           let mss = if_mtu i - 40;
           w \<leftarrow> route_put route (st_net s);
           let s = s\<lparr> st_net := w \<rparr>;
           s \<leftarrow> upd_tcp a (\<lambda>x. x\<lparr> ts_mss := mss, ts_state := TCP_STATE_SYN_SENT,
             ts_endpoint_info := \<lparr> ep_src_address = nd_ip_addr d, ep_src_port = port,
               ep_dest_address = so_dest_address k, ep_dest_port = so_dest_port k \<rparr>,
             ts_syn_timer := Some (st_now s + TCP_SYN_TIMEOUT) \<rparr>) s;
           let s = s\<lparr> tcp_endpoint_table := a # tcp_endpoint_table s \<rparr>;
           x \<leftarrow> st_tcp s a;
           s \<leftarrow> upd_tcp a (\<lambda>x. x\<lparr> ts_tx_last_sent_seq := ts_tx_last_sent_seq x + 1 \<rparr>) s;
           (error, s) \<leftarrow> tcp_send_packet E socket x TCP_SYN (Some ([2, 4] @ bytes16 (ntohw (word_of_int mss)))) 4 4
             (ts_tx_last_sent_seq x) 0 s;
           Some (if ts_nonblocking x then Returns (Inl EINPROGRESS) else Waits, s) } } }"

definition tcp_connect_resume :: "addr \<Rightarrow> net_stack \<Rightarrow> ((errno + unit) call \<times> net_stack) option" where
  "tcp_connect_resume socket s = do {
     k \<leftarrow> st_sockets s socket;
     a \<leftarrow> so_data k;
     x \<leftarrow> st_tcp s a;
     if ts_sync x < 1 then Some (Waits, s)
     else do {
       s \<leftarrow> upd_tcp a (\<lambda>x. x\<lparr> ts_sync := ts_sync x - 1 \<rparr>) s;
       k \<leftarrow> st_sockets s (ts_socket x);
       Some (Returns (if ts_state x = TCP_STATE_ESTABLISHED then Inr ()
         else case so_error k of None \<Rightarrow> Inr () | Some e \<Rightarrow> Inl e), s) } }"

section \<open>Reading and writing\<close>

text \<open>Reading goes through the buffers of the message; the result is what each of them gets. The caller's buffers hold \<open>fill\<close>
  before.\<close>

fun tcp_read_loop :: "byte \<Rightarrow> nat list \<Rightarrow> tcp_socket_t \<Rightarrow> (byte list list \<times> tcp_socket_t) option" where
  "tcp_read_loop fill [] x = Some ([], x)"
| "tcp_read_loop fill (iov_len # iovs) x =
     (if rx_data x = 0 then Some ([], x)
      else do {
        let to_copy = min (rx_data x) iov_len;
        buf \<leftarrow> circular_buffer_read (ts_rx_buffer x) (ts_rx_user_data x) (replicate iov_len fill) to_copy;
        let x = x\<lparr> ts_rx_user_data := circular_pointer_move (ts_rx_buffer x) (ts_rx_user_data x) to_copy \<rparr>;
        (bufs, x) \<leftarrow> tcp_read_loop fill iovs x;
        Some (take to_copy buf # bufs, x) })"

text \<open>\<^verbatim>\<open>tcp_recvmsg\<close>: the state is tested at the start only; a thread that has been woken looks at the buffer again.\<close>

definition tcp_recvmsg_resume ::
    "byte \<Rightarrow> addr \<Rightarrow> nat list \<Rightarrow> net_stack \<Rightarrow> ((errno + byte list list) call \<times> net_stack) option" where
  "tcp_recvmsg_resume fill socket iovs s = do {
     k \<leftarrow> st_sockets s socket;
     a \<leftarrow> so_data k;
     x \<leftarrow> st_tcp s a;
     if rx_data x = 0 then Some (if ts_nonblocking x then Returns (Inl EWOULDBLOCK) else Waits, s)
     else do {
       (bufs, x') \<leftarrow> tcp_read_loop fill iovs x;
       s \<leftarrow> upd_tcp a (\<lambda>_. x') s;
       Some (Returns (Inr bufs), s) } }"

definition tcp_recvmsg_start ::
    "byte \<Rightarrow> addr \<Rightarrow> nat list \<Rightarrow> net_stack \<Rightarrow> ((errno + byte list list) call \<times> net_stack) option" where
  "tcp_recvmsg_start fill socket iovs s = do {
     k \<leftarrow> st_sockets s socket;
     a \<leftarrow> so_data k;
     x \<leftarrow> st_tcp s a;
     if ts_state x \<noteq> TCP_STATE_ESTABLISHED then Some (Returns (Inl ENOTCONN), s)
     else tcp_recvmsg_resume fill socket iovs s }"

text \<open>Writing fills the send buffer; when it is full the thread waits, with the bytes that are left.\<close>

datatype tx_progress = Tx_done | Tx_wait "byte list" "byte list list"

partial_function (option) tcp_write_loop ::
    "byte list \<Rightarrow> nat \<Rightarrow> tcp_socket_t \<Rightarrow> (byte list \<times> nat \<times> tcp_socket_t) option" where
  "tcp_write_loop data wakeups x =
     (if data = [] then Some ([], wakeups, x)
      else if tx_room x = 0 then Some (data, wakeups, x)
      else do {
        let to_copy = min (length data) (tx_room x);
        b \<leftarrow> circular_buffer_write (ts_tx_buffer x) (ts_tx_free_data x) data to_copy;
        let x = x\<lparr> ts_tx_buffer := b, ts_tx_free_data := circular_pointer_move b (ts_tx_free_data x) to_copy \<rparr>;
        tcp_write_loop (drop to_copy data) (wakeups + 1) x })"

fun tcp_write_iovs :: "byte list list \<Rightarrow> nat \<Rightarrow> tcp_socket_t \<Rightarrow> (tx_progress \<times> nat \<times> tcp_socket_t) option" where
  "tcp_write_iovs [] wakeups x = Some (Tx_done, wakeups, x)"
| "tcp_write_iovs (iov # iovs) wakeups x = do {
     (rest, wakeups, x) \<leftarrow> tcp_write_loop iov wakeups x;
     if rest \<noteq> [] then Some (Tx_wait rest iovs, wakeups, x) else tcp_write_iovs iovs wakeups x }"

text \<open>The result is the number of bytes written so far; \<open>Tx_wait\<close> holds what a thread that waits goes on with.\<close>

definition tcp_sendmsg_resume ::
    "addr \<Rightarrow> byte list list \<Rightarrow> net_stack \<Rightarrow> ((tx_progress \<times> nat) \<times> net_stack) option" where
  "tcp_sendmsg_resume socket iovs s = do {
     k \<leftarrow> st_sockets s socket;
     a \<leftarrow> so_data k;
     x \<leftarrow> st_tcp s a;
     (r, wakeups, x') \<leftarrow> tcp_write_iovs iovs 0 x;
     s \<leftarrow> upd_tcp a (\<lambda>_. x') s;
     Some ((r, length (concat iovs) - (case r of Tx_done \<Rightarrow> 0 | Tx_wait rest iovs \<Rightarrow> length (concat (rest # iovs)))),
       s\<lparr> st_timer_wakeups := st_timer_wakeups s + wakeups \<rparr>) }"

definition tcp_sendmsg_start ::
    "addr \<Rightarrow> byte list list \<Rightarrow> net_stack \<Rightarrow> ((errno + tx_progress \<times> nat) \<times> net_stack) option" where
  "tcp_sendmsg_start socket iovs s = do {
     k \<leftarrow> st_sockets s socket;
     a \<leftarrow> so_data k;
     x \<leftarrow> st_tcp s a;
     if ts_state x \<noteq> TCP_STATE_ESTABLISHED then Some (Inl ENOTCONN, s)
     else do {
       (r, s) \<leftarrow> tcp_sendmsg_resume socket iovs s;
       Some (Inr r, s) } }"

section \<open>Options, flags and select\<close>

definition tcp_getsockopt :: "int \<Rightarrow> errno + unit" where
  "tcp_getsockopt optname = Inl EINVAL"

definition tcp_setsockopt :: "int \<Rightarrow> errno + unit" where
  "tcp_setsockopt optname = Inl EINVAL"

definition O_NONBLOCK :: u32 where "O_NONBLOCK = 0x800"

definition tcp_set_flags :: "addr \<Rightarrow> u32 \<Rightarrow> net_stack \<Rightarrow> net_stack option" where
  "tcp_set_flags socket flags s = do {
     k \<leftarrow> st_sockets s socket;
     a \<leftarrow> so_data k;
     upd_tcp a (\<lambda>x. x\<lparr> ts_nonblocking := (flags AND O_NONBLOCK \<noteq> 0) \<rparr>) s }"

definition select_ready :: "addr \<Rightarrow> net_stack \<Rightarrow> net_stack option" where
  "select_ready request = upd_select request (\<lambda>r. r\<lparr> sr_ready := True, sr_sync := sr_sync r + 1 \<rparr>)"

definition tcp_add_select_request :: "addr \<Rightarrow> addr \<Rightarrow> net_stack \<Rightarrow> net_stack option" where
  "tcp_add_select_request socket request s = do {
     k \<leftarrow> st_sockets s socket;
     a \<leftarrow> so_data k;
     x \<leftarrow> st_tcp s a;
     r \<leftarrow> st_selects s request;
     case sr_type r of
       SELECT_READ \<Rightarrow> do {
         s \<leftarrow> upd_select request (\<lambda>r. r\<lparr> sr_next := ts_first_read_select x \<rparr>) s;
         s \<leftarrow> upd_tcp a (\<lambda>x. x\<lparr> ts_first_read_select := Some request \<rparr>) s;
         if ts_state x = TCP_STATE_CLOSED \<or> ts_state x = TCP_STATE_ESTABLISHED \<and> 0 < rx_data x
         then select_ready request s else Some s }
     | SELECT_WRITE \<Rightarrow> do {
         s \<leftarrow> upd_select request (\<lambda>r. r\<lparr> sr_next := ts_first_write_select x \<rparr>) s;
         s \<leftarrow> upd_tcp a (\<lambda>x. x\<lparr> ts_first_write_select := Some request \<rparr>) s;
         if ts_state x = TCP_STATE_CLOSED \<or> ts_state x = TCP_STATE_ESTABLISHED \<and> 0 < tx_room x
         then select_ready request s else Some s }
     | SELECT_EXCEPT \<Rightarrow> Some s }"

definition tcp_remove_select_request :: "addr \<Rightarrow> addr \<Rightarrow> net_stack \<Rightarrow> net_stack option" where
  "tcp_remove_select_request socket request s = do {
     k \<leftarrow> st_sockets s socket;
     a \<leftarrow> so_data k;
     x \<leftarrow> st_tcp s a;
     r \<leftarrow> st_selects s request;
     case sr_type r of
       SELECT_READ \<Rightarrow> do {
         (first, s) \<leftarrow> unlink_select_loop request (ts_first_read_select x) None (ts_first_read_select x) s;
         upd_tcp a (\<lambda>x. x\<lparr> ts_first_read_select := first \<rparr>) s }
     | SELECT_WRITE \<Rightarrow> do {
         (first, s) \<leftarrow> unlink_select_loop request (ts_first_write_select x) None (ts_first_write_select x) s;
         upd_tcp a (\<lambda>x. x\<lparr> ts_first_write_select := first \<rparr>) s }
     | SELECT_EXCEPT \<Rightarrow> Some s }"

definition tcp_notify_write_listeners :: "addr \<Rightarrow> net_stack \<Rightarrow> net_stack option" where
  "tcp_notify_write_listeners a s = do {
     x \<leftarrow> st_tcp s a;
     notify_selects (ts_first_write_select x) s }"

definition tcp_notify_read_waiters :: "addr \<Rightarrow> net_stack \<Rightarrow> net_stack option" where
  "tcp_notify_read_waiters a s = do {
     x \<leftarrow> st_tcp s a;
     s \<leftarrow> notify_selects (ts_first_read_select x) s;
     upd_tcp a (\<lambda>x. x\<lparr> ts_rx_signals := ts_rx_signals x + 1 \<rparr>) s }"

text \<open>The end of a connection attempt, for a thread that waits in \<^verbatim>\<open>connect\<close> or in \<^verbatim>\<open>select\<close>.\<close>

definition tcp_connected :: "addr \<Rightarrow> net_stack \<Rightarrow> net_stack option" where
  "tcp_connected a s = do {
     x \<leftarrow> st_tcp s a;
     if ts_nonblocking x then tcp_notify_write_listeners a s
     else upd_tcp a (\<lambda>x. x\<lparr> ts_sync := ts_sync x + 1 \<rparr>) s }"

definition tcp_handle_syn_timeout :: "addr \<Rightarrow> net_stack \<Rightarrow> net_stack option" where
  "tcp_handle_syn_timeout a s = do {
     s \<leftarrow> upd_tcp a (\<lambda>x. x\<lparr> ts_syn_timer := None, ts_state := TCP_STATE_CLOSED \<rparr>) s;
     x \<leftarrow> st_tcp s a;
     s \<leftarrow> upd_socket (ts_socket x) (\<lambda>k. k\<lparr> so_error := Some ETIMEDOUT \<rparr>) s;
     tcp_connected a s }"

section \<open>The timer thread\<close>

definition tcp_handle_transmit :: "stack_env \<Rightarrow> addr \<Rightarrow> net_stack \<Rightarrow> net_stack option" where
  "tcp_handle_transmit E a s = do {
     x \<leftarrow> st_tcp s a;
     if ts_tx_window_size x = 0 \<or> tx_unsent x = 0 then None
     else do {
       let n = min (tx_unsent x) (unat (ts_tx_window_size x));
       data \<leftarrow> circular_pointer_get (ts_tx_buffer x) (ts_tx_last_sent x);
       (error, s) \<leftarrow> tcp_send_packet E (ts_socket x) x (TCP_PSH OR TCP_ACK) (Some data) n 0 (ts_tx_last_sent_seq x)
         (ts_rx_last_received_seq x + 1) s;
       upd_tcp a (\<lambda>x. x\<lparr> ts_tx_last_sent := circular_pointer_move (ts_tx_buffer x) (ts_tx_last_sent x) n,
         ts_tx_window_size := ts_tx_window_size x - word_of_nat n,
         ts_tx_last_sent_seq := ts_tx_last_sent_seq x + word_of_nat n \<rparr>) s } }"

text \<open>The next socket with something to send, in the order of the table.\<close>

fun find_work :: "net_stack \<Rightarrow> addr list \<Rightarrow> vptr option" where
  "find_work s [] = Some None"
| "find_work s (a # as) = do {
     x \<leftarrow> st_tcp s a;
     if 0 < tx_unsent x \<and> 0 < ts_tx_window_size x then Some (Some a) else find_work s as }"

definition get_tcp_socket_for_work :: "net_stack \<Rightarrow> vptr option" where
  "get_tcp_socket_for_work s = find_work s (tcp_endpoint_table s)"

text \<open>One round of the timer thread: sockets are served until none has work.\<close>

partial_function (option) tcp_timer_round :: "stack_env \<Rightarrow> net_stack \<Rightarrow> net_stack option" where
  "tcp_timer_round E s = do {
     socket \<leftarrow> get_tcp_socket_for_work s;
     if socket = None then Some s
     else do {
       a \<leftarrow> socket;
       s \<leftarrow> tcp_handle_transmit E a s;
       tcp_timer_round E s } }"

section \<open>Sockets and endpoints\<close>

text \<open>A new socket, with the answers for its memory, the two buffers and the locks.\<close>

definition tcp_create_socket :: "stack_env \<Rightarrow> addr \<Rightarrow> net_stack \<Rightarrow> ((errno + unit) \<times> net_stack) option" where
  "tcp_create_socket E socket s = (case se_new_tcp E (st_tcp s) of
       None \<Rightarrow> Some (Inl ENOMEM, s)
     | Some a \<Rightarrow> do {
         k \<leftarrow> st_sockets s socket;
         let (error, rx) = init_circular_buffer (se_bytes E) \<lparr> cb_buffer = None, cb_buffer_size = 0 \<rparr> TCP_RECV_BUFFER_SIZE;
         case error of Inl e \<Rightarrow> Some (Inl ENOMEM, s)
         | Inr _ \<Rightarrow> do {
             let (error, tx) = init_circular_buffer (se_bytes E) \<lparr> cb_buffer = None, cb_buffer_size = 0 \<rparr> TCP_SEND_BUFFER_SIZE;
             case error of Inl e \<Rightarrow> Some (Inl ENOMEM, s)
             | Inr _ \<Rightarrow>
                 if \<not> se_locks E s then Some (Inl ENOMEM, s)
                 else Some (Inr (), s\<lparr>
                   st_tcp := (st_tcp s)(a \<mapsto> \<lparr> ts_ref_count = 1,
                     ts_endpoint_info = \<lparr> ep_src_address = 0, ep_src_port = 0, ep_dest_address = 0, ep_dest_port = 0 \<rparr>,
                     ts_socket = socket, ts_sync = 0, ts_state = TCP_STATE_CLOSED, ts_mss = 0, ts_nonblocking = False,
                     ts_rx_signals = 0, ts_rx_last_received_seq = 0, ts_rx_buffer = rx, ts_rx_user_data = \<lparr> cp_offset = 0 \<rparr>,
                     ts_rx_free_data = \<lparr> cp_offset = 0 \<rparr>, ts_tx_signals = 0, ts_tx_buffer = tx, ts_tx_last_unacked_seq = 0,
                     ts_tx_first_unacked = \<lparr> cp_offset = 0 \<rparr>, ts_tx_last_sent_seq = word_of_nat (st_now s),
                     ts_tx_last_sent = \<lparr> cp_offset = 0 \<rparr>, ts_tx_free_data = \<lparr> cp_offset = 0 \<rparr>, ts_tx_window_size = 0,
                     ts_syn_timer = None, ts_first_read_select = None, ts_first_write_select = None \<rparr>),
                   st_sockets := (st_sockets s)(socket \<mapsto> k\<lparr> so_data := Some a \<rparr>) \<rparr>) } })"

text \<open>The key of an endpoint is read from its socket.\<close>

definition tcp_endpoint_key :: "net_stack \<Rightarrow> addr \<Rightarrow> tcp_endpoint_key_t option" where
  "tcp_endpoint_key s a = do {
     x \<leftarrow> st_tcp s a;
     k \<leftarrow> st_sockets s (ts_socket x);
     Some \<lparr> ep_src_address = so_src_address k, ep_src_port = so_src_port k,
       ep_dest_address = so_dest_address k, ep_dest_port = so_dest_port k \<rparr> }"

fun find_endpoint :: "net_stack \<Rightarrow> tcp_endpoint_key_t \<Rightarrow> addr list \<Rightarrow> vptr option" where
  "find_endpoint s key [] = Some None"
| "find_endpoint s key (a # as) = do {
     k \<leftarrow> tcp_endpoint_key s a;
     if k = key then Some (Some a) else find_endpoint s key as }"

definition get_tcp_endpoint :: "addr \<Rightarrow> net_stack \<Rightarrow> (vptr \<times> net_stack) option" where
  "get_tcp_endpoint packet s = do {
     p \<leftarrow> st_packets s packet;
     n \<leftarrow> pk_network_data p;
     t \<leftarrow> pk_transport_data p;
     src \<leftarrow> word32_at (pk_data p) (n + 12);
     src_port \<leftarrow> word16_at (pk_data p) t;
     dest \<leftarrow> word32_at (pk_data p) (n + 16);
     dest_port \<leftarrow> word16_at (pk_data p) (t + 2);
     found \<leftarrow> find_endpoint s \<lparr> ep_src_address = dest, ep_src_port = ntohw dest_port,
       ep_dest_address = src, ep_dest_port = ntohw src_port \<rparr> (tcp_endpoint_table s);
     case found of
       None \<Rightarrow> Some (None, s)
     | Some a \<Rightarrow> do {
         x \<leftarrow> st_tcp s a;
         if ts_ref_count x \<le> 0 then None
         else do {
           s \<leftarrow> upd_tcp a (\<lambda>x. x\<lparr> ts_ref_count := ts_ref_count x + 1 \<rparr>) s;
           Some (Some a, s) } } }"

definition put_tcp_endpoint :: "addr \<Rightarrow> net_stack \<Rightarrow> net_stack option" where
  "put_tcp_endpoint a s = do {
     s \<leftarrow> upd_tcp a (\<lambda>x. x\<lparr> ts_ref_count := ts_ref_count x - 1 \<rparr>) s;
     x \<leftarrow> st_tcp s a;
     if ts_ref_count x \<noteq> 0 then Some s
     else do {
       found \<leftarrow> find_endpoint s (ts_endpoint_info x) (tcp_endpoint_table s);
       Some (s\<lparr> tcp_endpoint_table := (case found of None \<Rightarrow> tcp_endpoint_table s | Some b \<Rightarrow> remove1 b (tcp_endpoint_table s)),
         st_tcp := (st_tcp s)(a := None) \<rparr>) } }"

section \<open>Segments from the network\<close>

text \<open>The loop over the options of a SYN segment: each option is skipped by its length.\<close>

partial_function (option) tcp_option_loop :: "byte list \<Rightarrow> int \<Rightarrow> int \<Rightarrow> unit option" where
  "tcp_option_loop mem data option_size =
     (if option_size > 0 then do {
        len \<leftarrow> byte_at mem (data + 1);
        tcp_option_loop mem (data + uint len) (option_size - uint len) }
      else Some ())"

definition tcp_handle_syn_sent :: "stack_env \<Rightarrow> addr \<Rightarrow> addr \<Rightarrow> net_stack \<Rightarrow> net_stack option" where
  "tcp_handle_syn_sent E a packet s = do {
     p \<leftarrow> st_packets s packet;
     t \<leftarrow> pk_transport_data p;
     x \<leftarrow> st_tcp s a;
     flags \<leftarrow> byte_at (pk_data p) (t + 13);
     s \<leftarrow> (if flags AND (TCP_SYN OR TCP_ACK) \<noteq> TCP_SYN OR TCP_ACK then do {
         s \<leftarrow> upd_tcp a (\<lambda>x. x\<lparr> ts_state := TCP_STATE_CLOSED \<rparr>) s;
         if flags AND TCP_RST \<noteq> 0 then upd_socket (ts_socket x) (\<lambda>k. k\<lparr> so_error := Some ECONNREFUSED \<rparr>) s
         else do {
           s \<leftarrow> upd_socket (ts_socket x) (\<lambda>k. k\<lparr> so_error := Some EINVAL \<rparr>) s;
           (error, s) \<leftarrow> tcp_send_reset E packet s;
           Some s } }
       else do {
         off \<leftarrow> byte_at (pk_data p) (t + 12);
         tcp_option_loop (pk_data p) (t + 20) (uint (drop_bit 4 off) * 4 - 20);
         window \<leftarrow> word16_at (pk_data p) (t + 14);
         seq \<leftarrow> word32_at (pk_data p) (t + 4);
         s \<leftarrow> upd_tcp a (\<lambda>x. x\<lparr> ts_state := TCP_STATE_ESTABLISHED, ts_tx_window_size := ntohw window,
           ts_tx_last_unacked_seq := ts_tx_last_sent_seq x, ts_rx_last_received_seq := ntohl seq \<rparr>) s;
         x \<leftarrow> st_tcp s a;
         (error, s) \<leftarrow> tcp_send_packet E (ts_socket x) x TCP_ACK None 0 0 (ts_tx_last_sent_seq x)
           (ts_rx_last_received_seq x + 1) s;
         s \<leftarrow> upd_tcp a (\<lambda>x. x\<lparr> ts_syn_timer := None \<rparr>) s;
         upd_socket (ts_socket x) (\<lambda>k. k\<lparr> so_error := None \<rparr>) s });
     tcp_connected a s }"

text \<open>The payload of a segment goes to the receive buffer as far as there is room, whatever its sequence number.\<close>

definition tcp_store_data :: "byte list \<Rightarrow> tcp_socket_t \<Rightarrow> tcp_socket_t option" where
  "tcp_store_data bs x = do {
     b \<leftarrow> circular_buffer_write (ts_rx_buffer x) (ts_rx_free_data x) bs (length bs);
     Some (x\<lparr> ts_rx_buffer := b, ts_rx_free_data := circular_pointer_move b (ts_rx_free_data x) (length bs) \<rparr>) }"

definition tcp_receive_data :: "stack_env \<Rightarrow> addr \<Rightarrow> byte list \<Rightarrow> int \<Rightarrow> nat \<Rightarrow> u32 \<Rightarrow> net_stack \<Rightarrow> net_stack option" where
  "tcp_receive_data E a mem data data_size seq s =
     (if data_size = 0 then Some s
      else do {
        x \<leftarrow> st_tcp s a;
        let n = min (rx_room x) data_size;
        s \<leftarrow> (if 0 < n then do {
            bs \<leftarrow> get_bytes mem data n;
            x' \<leftarrow> tcp_store_data bs x;
            s \<leftarrow> upd_tcp a (\<lambda>_. x') s;
            tcp_notify_read_waiters a s } else Some s);
        x \<leftarrow> st_tcp s a;
        (error, s) \<leftarrow> tcp_send_packet E (ts_socket x) x TCP_ACK None 0 0 (ts_tx_last_sent_seq x) (seq + word_of_nat n) s;
        Some s })"

text \<open>The acknowledgement: the number of bytes acknowledged is counted from the last number seen, plus one.\<close>

definition tcp_handle_ack :: "addr \<Rightarrow> u32 \<Rightarrow> u16 \<Rightarrow> net_stack \<Rightarrow> net_stack option" where
  "tcp_handle_ack a ack_number window s = do {
     x \<leftarrow> st_tcp s a;
     let acked = unat (ack_number - ts_tx_last_unacked_seq x);
     if tx_unacked x < acked then Some s
     else do {
       let full = (tx_room x = 0);
       s \<leftarrow> upd_tcp a (\<lambda>x. x\<lparr> ts_tx_last_unacked_seq := ack_number + 1 \<rparr>) s;
       s \<leftarrow> (if 0 < acked then do {
           s \<leftarrow> upd_tcp a (\<lambda>x. x\<lparr> ts_tx_first_unacked := circular_pointer_move (ts_tx_buffer x) (ts_tx_first_unacked x) acked \<rparr>) s;
           if full then upd_tcp a (\<lambda>x. x\<lparr> ts_tx_signals := ts_tx_signals x + 1 \<rparr>) s else Some s } else Some s);
       let s = (if ts_tx_window_size x = 0 \<and> 0 < window then s\<lparr> st_timer_wakeups := st_timer_wakeups s + 1 \<rparr> else s);
       upd_tcp a (\<lambda>x. x\<lparr> ts_tx_window_size := window \<rparr>) s } }"

definition tcp_handle_established :: "stack_env \<Rightarrow> addr \<Rightarrow> addr \<Rightarrow> net_stack \<Rightarrow> net_stack option" where
  "tcp_handle_established E a packet s = do {
     p \<leftarrow> st_packets s packet;
     n \<leftarrow> pk_network_data p;
     t \<leftarrow> pk_transport_data p;
     seq \<leftarrow> word32_at (pk_data p) (t + 4);
     s \<leftarrow> upd_tcp a (\<lambda>x. x\<lparr> ts_rx_last_received_seq := ntohl seq \<rparr>) s;
     off \<leftarrow> byte_at (pk_data p) (t + 12);
     packet_size \<leftarrow> word16_at (pk_data p) (n + 2);
     vs \<leftarrow> byte_at (pk_data p) n;
     let head = uint (drop_bit 4 off) * 4;
     s \<leftarrow> tcp_receive_data E a (pk_data p) (t + head)
       (nat ((uint (ntohw packet_size) - (int (IPV4_HDR_SIZE vs) * 4 + head)) mod 4294967296)) (ntohl seq) s;
     flags \<leftarrow> byte_at (pk_data p) (t + 13);
     if flags AND TCP_ACK \<noteq> 0 then do {
       ack \<leftarrow> word32_at (pk_data p) (t + 8);
       window \<leftarrow> word16_at (pk_data p) (t + 14);
       tcp_handle_ack a (ntohl ack) (ntohw window) s }
     else Some s }"

definition tcp_input :: "stack_env \<Rightarrow> addr \<Rightarrow> net_stack \<Rightarrow> net_stack option" where
  "tcp_input E packet s = do {
     p \<leftarrow> st_packets s packet;
     n \<leftarrow> pk_network_data p;
     t \<leftarrow> pk_transport_data p;
     packet_size \<leftarrow> word16_at (pk_data p) (n + 2);
     vs \<leftarrow> byte_at (pk_data p) n;
     src \<leftarrow> get_bytes (pk_data p) (n + 12) 4;
     dest \<leftarrow> get_bytes (pk_data p) (n + 16) 4;
     c \<leftarrow> (if t < 0 then None else tcp_checksum src dest (drop (nat t) (pk_data p))
       (nat ((uint (ntohw packet_size) - int (IPV4_HDR_SIZE vs) * 4) mod 4294967296)));
     if c \<noteq> 0 then delete_packet packet s
     else do {
       (endpoint, s) \<leftarrow> get_tcp_endpoint packet s;
       s \<leftarrow> (case endpoint of
           None \<Rightarrow> do { (error, s) \<leftarrow> tcp_send_reset E packet s; Some s }
         | Some a \<Rightarrow> do {
             x \<leftarrow> st_tcp s a;
             s \<leftarrow> (case ts_state x of
                 TCP_STATE_SYN_SENT \<Rightarrow> tcp_handle_syn_sent E a packet s
               | TCP_STATE_ESTABLISHED \<Rightarrow> tcp_handle_established E a packet s
               | _ \<Rightarrow> Some s);
             put_tcp_endpoint a s });
       delete_packet packet s } }"

end
