(* ===== verification/Kernel_Socket.thy ===== *)
theory Kernel_Socket
  imports Kernel_Tcp
begin

unbundle bit_operations_syntax

text \<open>
  Packets from the network (\<^verbatim>\<open>ipv4_input\<close>, \<^verbatim>\<open>ethernet_input\<close> and the body of the receive thread in
  \<^verbatim>\<open>source/kernel/src/network/ipv4.c\<close>, \<^verbatim>\<open>ethernet.c\<close>, \<^verbatim>\<open>device.c\<close>) and the socket layer, \<^verbatim>\<open>socket.c\<close>.
\<close>

section \<open>Input\<close>

definition ipv4_handle_packet :: "stack_env \<Rightarrow> addr \<Rightarrow> net_stack \<Rightarrow> ((errno + unit) \<times> net_stack) option" where
  "ipv4_handle_packet E packet s = do {
     p \<leftarrow> st_packets s packet;
     n \<leftarrow> pk_network_data p;
     vs \<leftarrow> byte_at (pk_data p) n;
     s \<leftarrow> upd_packet packet (\<lambda>p. p\<lparr> pk_transport_data := Some (n + int (IPV4_HDR_SIZE vs) * 4) \<rparr>) s;
     protocol \<leftarrow> byte_at (pk_data p) (n + 9);
     if protocol = IP_PROTO_TCP then do { s \<leftarrow> tcp_input E packet s; Some (Inr (), s) }
     else if protocol = IP_PROTO_UDP then do { s \<leftarrow> udp_input packet s; Some (Inr (), s) }
     else if protocol = IP_PROTO_ICMP then icmp_input E packet s
     else do { s \<leftarrow> delete_packet packet s; Some (Inr (), s) } }"

definition ipv4_input :: "stack_env \<Rightarrow> addr \<Rightarrow> net_stack \<Rightarrow> ((errno + unit) \<times> net_stack) option" where
  "ipv4_input E packet s = do {
     p \<leftarrow> st_packets s packet;
     vs \<leftarrow> byte_at (pk_data p) 14;
     c \<leftarrow> ip_checksum (drop 14 (pk_data p)) (IPV4_HDR_SIZE vs * 4);
     if c \<noteq> 0 then do { s \<leftarrow> delete_packet packet s; Some (Inl EINVAL, s) }
     else ipv4_handle_packet E packet s }"

definition ethernet_input :: "stack_env \<Rightarrow> addr \<Rightarrow> addr \<Rightarrow> net_stack \<Rightarrow> net_stack option" where
  "ethernet_input E device packet s = do {
     s \<leftarrow> upd_packet packet (\<lambda>p. p\<lparr> pk_network_data := Some 14 \<rparr>) s;
     p \<leftarrow> st_packets s packet;
     proto \<leftarrow> word16_at (pk_data p) 12;
     if ntohw proto = ETH_P_IP then do { (error, s) \<leftarrow> ipv4_input E packet s; Some s }
     else if ntohw proto = ETH_P_ARP then arp_input E device packet s
     else delete_packet packet s }"

definition net_device_insert_packet :: "addr \<Rightarrow> addr \<Rightarrow> net_stack \<Rightarrow> net_stack option" where
  "net_device_insert_packet device packet s = do {
     i \<leftarrow> st_ifs s device;
     (q, s) \<leftarrow> packet_queue_insert packet (if_input_queue i) s;
     upd_if device (\<lambda>i. i\<lparr> if_input_queue := q \<rparr>) s }"

text \<open>One round of the receive thread; without a packet it goes on waiting.\<close>

definition network_rx_step :: "stack_env \<Rightarrow> addr \<Rightarrow> net_stack \<Rightarrow> net_stack option" where
  "network_rx_step E device s = do {
     i \<leftarrow> st_ifs s device;
     d \<leftarrow> n_devices (st_net s) device;
     (packet, q) \<leftarrow> packet_queue_pop_head (if_input_queue i) s;
     s \<leftarrow> upd_if device (\<lambda>i. i\<lparr> if_input_queue := q \<rparr>) s;
     case packet of
       None \<Rightarrow> Some s
     | Some a \<Rightarrow>
         if net_device_flags d AND NETDEV_UP = 0 then delete_packet a s
         else ethernet_input E device a s }"

section \<open>Sockets\<close>

definition socket_get_error :: "socket_t \<Rightarrow> errno option" where
  "socket_get_error k = so_error k"

definition socket_set_error :: "addr \<Rightarrow> errno option \<Rightarrow> net_stack \<Rightarrow> net_stack option" where
  "socket_set_error a error s = upd_socket a (\<lambda>k. k\<lparr> so_error := error \<rparr>) s"

definition socket_read_inode :: "int \<Rightarrow> net_stack \<Rightarrow> ((errno + addr) \<times> net_stack) option" where
  "socket_read_inode inode_number s = (case socket_inode_table s inode_number of
       None \<Rightarrow> Some (Inl ENOINO, s)
     | Some a \<Rightarrow> Some (Inr a, s))"

abbreviation SOCK_STREAM :: int where "SOCK_STREAM \<equiv> 1"
abbreviation SOCK_DGRAM :: int where "SOCK_DGRAM \<equiv> 2"

definition socket_write_inode :: "addr \<Rightarrow> net_stack \<Rightarrow> ((errno + unit) \<times> net_stack) option" where
  "socket_write_inode a s = do {
     k \<leftarrow> st_sockets s a;
     let s = s\<lparr> socket_inode_table := (socket_inode_table s)(so_inode_number k := None) \<rparr>;
     s \<leftarrow> (if so_type k = SOCK_STREAM then do { x \<leftarrow> so_data k; put_tcp_endpoint x s } else Some s);
     Some (Inr (), s\<lparr> st_sockets := (st_sockets s)(a := None) \<rparr>) }"

text \<open>Numbering sockets: the counter is not tested for a wrap-around.\<close>

partial_function (option) socket_number :: "(int \<rightharpoonup> addr) \<Rightarrow> int \<Rightarrow> (int \<times> int) option" where
  "socket_number table counter =
     (if table counter = None then Some (counter, counter + 1) else socket_number table (counter + 1))"

text \<open>The socket behind a descriptor: it is found by the inode number of the file only.\<close>

definition socket_get :: "int option \<Rightarrow> net_stack \<Rightarrow> errno + addr" where
  "socket_get file_inode s = (case file_inode of
       None \<Rightarrow> Inl EBADF
     | Some inode_number \<Rightarrow> (case socket_inode_table s inode_number of None \<Rightarrow> Inl EINVAL | Some a \<Rightarrow> Inr a))"

definition do_connect ::
    "stack_env \<Rightarrow> int option \<Rightarrow> u32 \<Rightarrow> u16 \<Rightarrow> net_stack \<Rightarrow> ((errno + unit) call \<times> net_stack) option" where
  "do_connect E file_inode sin_addr sin_port s = (case socket_get file_inode s of
       Inl e \<Rightarrow> Some (Returns (Inl e), s)
     | Inr a \<Rightarrow> do {
         s \<leftarrow> upd_socket a (\<lambda>k. k\<lparr> so_dest_address := sin_addr, so_dest_port := ntohw sin_port \<rparr>) s;
         k \<leftarrow> st_sockets s a;
         if so_type k = SOCK_STREAM then tcp_connect_start E a sin_addr s else Some (Returns (Inl ENOSYS), s) })"

definition do_bind :: "stack_env \<Rightarrow> int option \<Rightarrow> u16 \<Rightarrow> net_stack \<Rightarrow> ((errno + unit) \<times> net_stack) option" where
  "do_bind E file_inode sin_port s = (case socket_get file_inode s of
       Inl e \<Rightarrow> Some (Inl e, s)
     | Inr a \<Rightarrow> do {
         k \<leftarrow> st_sockets s a;
         if so_type k = SOCK_DGRAM then udp_bind E a sin_port s else Some (Inl ENOSYS, s) })"

text \<open>The operations of a socket, chosen by its type. A call that a protocol does not have answers \<^verbatim>\<open>ENOSYS\<close>. The number that
  \<^verbatim>\<open>recvmsg\<close> of TCP returns is the number of bytes it has copied.\<close>

definition op_recvmsg ::
    "byte \<Rightarrow> addr \<Rightarrow> nat list \<Rightarrow> net_stack \<Rightarrow> ((errno + int \<times> byte list list) call \<times> net_stack) option" where
  "op_recvmsg fill a iovs s = do {
     k \<leftarrow> st_sockets s a;
     if so_type k = SOCK_STREAM then do {
       (r, s) \<leftarrow> tcp_recvmsg_start fill a iovs s;
       Some (case r of Waits \<Rightarrow> Waits | Returns (Inl e) \<Rightarrow> Returns (Inl e)
         | Returns (Inr bufs) \<Rightarrow> Returns (Inr (int (length (concat bufs)), bufs)), s) }
     else udp_recvmsg a iovs s }"

text \<open>The name of a message is missing when the caller has not set it: \<^verbatim>\<open>udp_sendmsg\<close> reads through the pointer that is there.\<close>

definition op_sendmsg ::
    "stack_env \<Rightarrow> addr \<Rightarrow> (u32 \<times> u16) option \<Rightarrow> byte list list \<Rightarrow> net_stack \<Rightarrow> ((errno + int) call \<times> net_stack) option" where
  "op_sendmsg E a name iovs s = do {
     k \<leftarrow> st_sockets s a;
     if so_type k = SOCK_STREAM then do {
       (r, s) \<leftarrow> tcp_sendmsg_start a iovs s;
       Some (case r of Inl e \<Rightarrow> Returns (Inl e) | Inr (Tx_done, n) \<Rightarrow> Returns (Inr (int n)) | Inr (Tx_wait _ _, n) \<Rightarrow> Waits, s) }
     else do {
       (ip, port) \<leftarrow> name;
       (r, s) \<leftarrow> udp_sendmsg E a ip port iovs s;
       Some (Returns r, s) } }"

definition socket_close :: "addr \<Rightarrow> net_stack \<Rightarrow> ((errno + unit) \<times> net_stack) option" where
  "socket_close a s = do {
     k \<leftarrow> st_sockets s a;
     (_, s) \<leftarrow> (if so_type k = SOCK_STREAM then tcp_close a s else udp_close a s);
     Some (Inr (), s) }"

definition socket_read :: "byte \<Rightarrow> addr \<Rightarrow> nat \<Rightarrow> net_stack \<Rightarrow> ((errno + int \<times> byte list list) call \<times> net_stack) option" where
  "socket_read fill a sz = op_recvmsg fill a [sz]"

definition socket_write :: "stack_env \<Rightarrow> addr \<Rightarrow> byte list \<Rightarrow> net_stack \<Rightarrow> ((errno + int) call \<times> net_stack) option" where
  "socket_write E a buffer = op_sendmsg E a None [buffer]"

text \<open>The flags: the pointer that is tested is not the one that is called, which UDP leaves \<^verbatim>\<open>NULL\<close>.\<close>

definition socket_set_flags :: "addr \<Rightarrow> u32 \<Rightarrow> net_stack \<Rightarrow> ((errno + unit) \<times> net_stack) option" where
  "socket_set_flags a flags s = do {
     k \<leftarrow> st_sockets s a;
     if so_type k = SOCK_STREAM then do { s \<leftarrow> tcp_set_flags a flags s; Some (Inr (), s) } else None }"

definition socket_add_select_request :: "addr \<Rightarrow> addr \<Rightarrow> net_stack \<Rightarrow> ((errno + unit) \<times> net_stack) option" where
  "socket_add_select_request a request s = do {
     k \<leftarrow> st_sockets s a;
     s \<leftarrow> (if so_type k = SOCK_STREAM then tcp_add_select_request a request s else udp_add_select_request a request s);
     Some (Inr (), s) }"

definition socket_remove_select_request :: "addr \<Rightarrow> addr \<Rightarrow> net_stack \<Rightarrow> ((errno + unit) \<times> net_stack) option" where
  "socket_remove_select_request a request s = do {
     k \<leftarrow> st_sockets s a;
     s \<leftarrow> (if so_type k = SOCK_STREAM then tcp_remove_select_request a request s else udp_remove_select_request a request s);
     Some (Inr (), s) }"

definition socket_read_stat :: "int \<Rightarrow> addr \<Rightarrow> net_stack \<Rightarrow> (int \<times> int) option" where
  "socket_read_stat fs_cookie a s = do { k \<leftarrow> st_sockets s a; Some (fs_cookie, so_inode_number k) }"

section \<open>System calls on sockets\<close>

text \<open>A new socket, with the answers of the heap and of the file system: the block with what it holds, whether the file, the place in the table and
  the inode are there, and the descriptor. Every error is reported as \<^verbatim>\<open>ENOMEM\<close>; the protocol's part of the socket is not
  freed.\<close>

record socket_answers =
  sa_socket :: "(addr \<times> socket_t) option"
  sa_file :: bool
  sa_table :: bool
  sa_inode :: bool
  sa_fd :: "errno + int"

definition AF_INET :: int where "AF_INET = 2"

definition do_socket :: "stack_env \<Rightarrow> socket_answers \<Rightarrow> int \<Rightarrow> int \<Rightarrow> net_stack \<Rightarrow> ((errno + int) \<times> net_stack) option" where
  "do_socket E A family type s =
     (if family \<noteq> AF_INET then Some (Inl EINVAL, s)
      else case sa_socket A of
        None \<Rightarrow> Some (Inl ENOMEM, s)
      | Some (a, garbage) \<Rightarrow> do {
          let fail = (\<lambda>s. (Inl ENOMEM, s\<lparr> st_sockets := (st_sockets s)(a := None) \<rparr>));
          let s = s\<lparr> st_sockets := (st_sockets s)(a \<mapsto> garbage) \<rparr>;
          (error, s) \<leftarrow> (if type = SOCK_STREAM then tcp_create_socket E a s
            else if type = SOCK_DGRAM then udp_create_socket E a s else Some (Inl EINVAL, s));
          case error of
            Inl e \<Rightarrow> Some (fail s)
          | Inr _ \<Rightarrow> do {
              s \<leftarrow> upd_socket a (\<lambda>k. k\<lparr> so_type := type \<rparr>) s;
              if \<not> sa_file A then Some (fail s)
              else do {
                (number, counter) \<leftarrow> socket_number (socket_inode_table s) (socket_inode_counter s);
                s \<leftarrow> upd_socket a (\<lambda>k. k\<lparr> so_inode_number := number \<rparr>) s;
                let s = s\<lparr> socket_inode_counter := counter \<rparr>;
                if \<not> sa_table A then Some (fail s)
                else do {
                  let s = s\<lparr> socket_inode_table := (socket_inode_table s)(number \<mapsto> a) \<rparr>;
                  let undo = (\<lambda>s. s\<lparr> socket_inode_table := (socket_inode_table s)(number := None) \<rparr>);
                  if \<not> sa_inode A then Some (fail (undo s))
                  else case sa_fd A of
                    Inl e \<Rightarrow> Some (fail (undo s))
                  | Inr fd \<Rightarrow> Some (Inr fd, s) } } } })"

definition SOL_SOCKET :: int where "SOL_SOCKET = 1"
definition SO_ERROR :: int where "SO_ERROR = 4"

definition do_getsockopt ::
    "int option \<Rightarrow> int \<Rightarrow> int \<Rightarrow> net_stack \<Rightarrow> ((errno + errno option option) \<times> net_stack) option" where
  "do_getsockopt file_inode level optname s = (case socket_get file_inode s of
       Inl e \<Rightarrow> Some (Inl e, s)
     | Inr a \<Rightarrow> do {
         k \<leftarrow> st_sockets s a;
         if level \<noteq> SOL_SOCKET then Some (Inl EINVAL, s)
         else if optname = SO_ERROR then Some (Inr (Some (so_error k)), s)
         else Some (case (if so_type k = SOCK_STREAM then tcp_getsockopt optname else udp_getsockopt optname) of
             Inl e \<Rightarrow> Inl e | Inr _ \<Rightarrow> Inr None, s) })"

definition do_setsockopt ::
    "int option \<Rightarrow> int \<Rightarrow> int \<Rightarrow> byte list option \<Rightarrow> nat \<Rightarrow> net_stack \<Rightarrow> ((errno + unit) \<times> net_stack) option" where
  "do_setsockopt file_inode level optname optval optlen s = (case socket_get file_inode s of
       Inl e \<Rightarrow> Some (Inl e, s)
     | Inr a \<Rightarrow> do {
         k \<leftarrow> st_sockets s a;
         if level \<noteq> SOL_SOCKET \<or> optname = SO_ERROR then Some (Inl EINVAL, s)
         else if so_type k = SOCK_STREAM then Some (tcp_setsockopt optname, s)
         else udp_setsockopt a optname optval optlen s })"

definition do_recvmsg ::
    "byte \<Rightarrow> int option \<Rightarrow> nat list \<Rightarrow> net_stack \<Rightarrow> ((errno + int \<times> byte list list) call \<times> net_stack) option" where
  "do_recvmsg fill file_inode iovs s = (case socket_get file_inode s of
       Inl e \<Rightarrow> Some (Returns (Inl e), s)
     | Inr a \<Rightarrow> op_recvmsg fill a iovs s)"

definition do_sendmsg ::
    "stack_env \<Rightarrow> int option \<Rightarrow> (u32 \<times> u16) option \<Rightarrow> byte list list \<Rightarrow> net_stack \<Rightarrow> ((errno + int) call \<times> net_stack) option" where
  "do_sendmsg E file_inode name iovs s = (case socket_get file_inode s of
       Inl e \<Rightarrow> Some (Returns (Inl e), s)
     | Inr a \<Rightarrow> op_sendmsg E a name iovs s)"

section \<open>Requests on network devices\<close>

text \<open>The names of the first devices, in the order of the table; the caller's buffers hold \<open>fill\<close> before. The number of
  devices is not reported.\<close>

definition copy_name :: "byte \<Rightarrow> nat \<Rightarrow> byte list \<Rightarrow> byte list option" where
  "copy_name fill n name = do {
     buf \<leftarrow> strncpy (replicate n fill) name n;
     write_cell (Some buf) (int n - 1) 0 }"

function interface_list_loop :: "byte \<Rightarrow> net_world \<Rightarrow> int \<Rightarrow> int \<Rightarrow> byte list list option" where
  "interface_list_loop fill w i sz =
     (if i < sz then do {
        x \<leftarrow> array_get_item (device_table w) i;
        d \<leftarrow> device_at w x;
        name \<leftarrow> copy_name fill IFNAMSIZ (nd_name d);
        rest \<leftarrow> interface_list_loop fill w (i + 1) sz;
        Some (name # rest) }
      else Some [])"
  by pat_completeness auto
termination
  by (relation "measure (\<lambda>(fill, w, i, sz). nat (sz - i))") auto

declare interface_list_loop.simps [simp del]

definition get_interface_list :: "byte \<Rightarrow> int \<Rightarrow> net_world \<Rightarrow> byte list list option" where
  "get_interface_list fill ifc_len w = interface_list_loop fill w 0 (min (array_get_size (device_table w)) ifc_len)"

datatype if_query = SIOCGIFADDR | SIOCGIFNETMASK | SIOCGIFBRDADDR | SIOCGIFHWADDR | SIOCGIFFLAGS | SIOCGIFMTU | SIOCGIFSTAT

text \<open>What is stored in the request; the statistics of a device are a parameter.\<close>

datatype if_value = IF_addr u32 | IF_hwaddr "byte list" | IF_flags "16 word" | IF_mtu int | IF_stats "byte list"

fun get_parameter :: "byte list \<Rightarrow> if_query \<Rightarrow> net_device_t \<Rightarrow> net_if \<Rightarrow> if_value" where
  "get_parameter stats SIOCGIFADDR d i = IF_addr (nd_ip_addr d)"
| "get_parameter stats SIOCGIFNETMASK d i = IF_addr (nd_netmask d)"
| "get_parameter stats SIOCGIFBRDADDR d i = IF_addr (nd_broadcast d)"
| "get_parameter stats SIOCGIFHWADDR d i = IF_hwaddr (take 6 (if_dev_addr i))"
| "get_parameter stats SIOCGIFFLAGS d i = IF_flags (ucast (nd_flags d))"
| "get_parameter stats SIOCGIFMTU d i = IF_mtu (if_mtu i)"
| "get_parameter stats SIOCGIFSTAT d i = IF_stats stats"

definition get_interface_parameter ::
    "(addr \<Rightarrow> byte list) \<Rightarrow> if_query \<Rightarrow> byte list \<Rightarrow> net_stack \<Rightarrow> ((errno + if_value) \<times> net_stack) option" where
  "get_interface_parameter stats param name s = do {
     (device, w) \<leftarrow> net_device_get name (st_net s);
     case device of
       None \<Rightarrow> Some (Inl EINVAL, s\<lparr> st_net := w \<rparr>)
     | Some a \<Rightarrow> do {
         d \<leftarrow> n_devices w a;
         i \<leftarrow> st_ifs s a;
         w \<leftarrow> net_device_put a w;
         Some (Inr (get_parameter (stats a) param d i), s\<lparr> st_net := w \<rparr>) } }"

text \<open>The table of routes: the static routes, then one for each device that is up, as long as there is room. For a device the
  gateway is left as it was.\<close>

record rtabentry =
  re_dst :: u32
  re_genmask :: u32
  re_gateway :: "u32 option"
  re_flags :: "16 word"
  re_dev :: "byte list"

function static_table_loop :: "byte \<Rightarrow> net_world \<Rightarrow> int \<Rightarrow> int \<Rightarrow> int \<Rightarrow> (rtabentry list \<times> int) option" where
  "static_table_loop fill w i sz remaining =
     (if i < sz \<and> 0 < remaining then do {
        x \<leftarrow> array_get_item (static_routes w) i;
        r \<leftarrow> route_at w x;
        dev \<leftarrow> (case rt_device r of
            None \<Rightarrow> write_cell (Some (replicate 64 fill)) 0 0
          | Some a \<Rightarrow> do { d \<leftarrow> n_devices w a; copy_name fill 64 (nd_name d) });
        (rest, remaining) \<leftarrow> static_table_loop fill w (i + 1) sz (remaining - 1);
        Some (\<lparr> re_dst = network_addr r, re_genmask = network_mask r, re_gateway = Some (gateway_addr r), re_flags = ucast (rt_flags r),
          re_dev = dev \<rparr> # rest, remaining) }
      else Some ([], remaining))"
  by pat_completeness auto
termination
  by (relation "measure (\<lambda>(fill, w, i, sz, remaining). nat (sz - i))") auto

declare static_table_loop.simps [simp del]

function device_table_loop :: "byte \<Rightarrow> int \<Rightarrow> int \<Rightarrow> int \<Rightarrow> net_world \<Rightarrow> (rtabentry list \<times> net_world) option" where
  "device_table_loop fill i count remaining w =
     (if i < count \<and> 0 < remaining then do {
        (device, w) \<leftarrow> net_device_get_nth i w;
        a \<leftarrow> device;
        d \<leftarrow> n_devices w a;
        if net_device_flags d AND NETDEV_UP = 0 then do {
          w \<leftarrow> net_device_put a w;
          device_table_loop fill (i + 1) count remaining w }
        else do {
          dev \<leftarrow> copy_name fill 64 (nd_name d);
          w \<leftarrow> net_device_put a w;
          (rest, w) \<leftarrow> device_table_loop fill (i + 1) count (remaining - 1) w;
          Some (\<lparr> re_dst = nd_ip_addr d AND nd_netmask d, re_genmask = nd_netmask d, re_gateway = None, re_flags = ucast RTF_UP,
            re_dev = dev \<rparr> # rest, w) } }
      else Some ([], w))"
  by pat_completeness auto
termination
  by (relation "measure (\<lambda>(fill, i, count, remaining, w). nat (count - i))") auto

declare device_table_loop.simps [simp del]

definition route_get_table :: "byte \<Rightarrow> int \<Rightarrow> net_world \<Rightarrow> (rtabentry list \<times> net_world) option" where
  "route_get_table fill rtt_count w = do {
     (statics, remaining) \<leftarrow> static_table_loop fill w 0 (array_get_size (static_routes w)) rtt_count;
     (devices, w) \<leftarrow> device_table_loop fill 0 (net_device_get_count w) remaining w;
     Some (statics @ devices, w) }"

datatype net_ioctl = SIOCGIFCOUNT | SIOCGIFCONF int | SIOCGIF if_query "byte list" | SIOCSIF if_param ifreq | SIOCADDRT rtentry
  | SIOCDELRT | SIOCGETRTAB int | IOCTL_other int

datatype ioctl_result = IO_number int | IO_names "byte list list" | IO_value if_value | IO_routes "rtabentry list" | IO_done

fun net_device_ioctl ::
    "stack_env \<Rightarrow> byte \<Rightarrow> (addr \<Rightarrow> byte list) \<Rightarrow> net_ioctl \<Rightarrow> net_stack \<Rightarrow> ((errno + ioctl_result) \<times> net_stack) option" where
  "net_device_ioctl E fill stats SIOCGIFCOUNT s = Some (Inr (IO_number (net_device_get_count (st_net s))), s)"
| "net_device_ioctl E fill stats (SIOCGIFCONF len) s = do {
     names \<leftarrow> get_interface_list fill len (st_net s);
     Some (Inr (IO_names names), s) }"
| "net_device_ioctl E fill stats (SIOCGIF q name) s = do {
     (r, s) \<leftarrow> get_interface_parameter stats q name s;
     Some (case r of Inl e \<Rightarrow> Inl e | Inr v \<Rightarrow> Inr (IO_value v), s) }"
| "net_device_ioctl E fill stats (SIOCSIF p req) s = do {
     (r, w) \<leftarrow> set_interface_parameter p req (st_net s);
     Some (case r of Inl e \<Rightarrow> Inl e | Inr _ \<Rightarrow> Inr IO_done, s\<lparr> st_net := w \<rparr>) }"
| "net_device_ioctl E fill stats (SIOCADDRT entry) s = do {
     (r, w) \<leftarrow> route_add (se_net E) entry (st_net s);
     Some (case r of Inl e \<Rightarrow> Inl e | Inr _ \<Rightarrow> Inr IO_done, s\<lparr> st_net := w \<rparr>) }"
| "net_device_ioctl E fill stats SIOCDELRT s = Some (Inl ENOSYS, s)"
| "net_device_ioctl E fill stats (SIOCGETRTAB n) s = do {
     (entries, w) \<leftarrow> route_get_table fill n (st_net s);
     Some (Inr (IO_routes entries), s\<lparr> st_net := w \<rparr>) }"
| "net_device_ioctl E fill stats (IOCTL_other _) s = Some (Inl ENOSYS, s)"

definition socket_ioctl ::
    "stack_env \<Rightarrow> byte \<Rightarrow> (addr \<Rightarrow> byte list) \<Rightarrow> net_ioctl \<Rightarrow> net_stack \<Rightarrow> ((errno + ioctl_result) \<times> net_stack) option" where
  "socket_ioctl E fill stats command s = net_device_ioctl E fill stats command s"

end
