(* ===== verification/Kernel_Ip_Safety.thy ===== *)
theory Kernel_Ip_Safety
  imports Kernel_Socket "HOL-Library.Sublist"
begin

unbundle bit_operations_syntax

text \<open>
  Correctness of IP, ARP and ICMP: a header that is built is accepted on the other side, packets that wait for an address leave in
  their order, and an echo request with too small a length stops the kernel.
\<close>

section \<open>Bytes\<close>

lemma put_bytes_mid: "length old = length bs \<Longrightarrow> put_bytes (pre @ old @ post) (int (length pre)) bs = Some (pre @ bs @ post)"
  by (simp add: put_bytes_def)

lemma get_bytes_mid: "get_bytes (pre @ bs @ post) (int (length pre)) (length bs) = Some bs"
  by (simp add: get_bytes_def)

lemma length_bytes [simp]: "length (bytes16 v) = 2" "length (bytes32 w) = 4"
  by (simp_all add: bytes16_def bytes32_def)

lemma byte_pick: "bit (ucast (drop_bit k (w :: u32)) :: byte) n \<longleftrightarrow> n < 8 \<and> bit w (k + n)"
  by (simp add: bit_ucast_iff bit_drop_bit_eq)

lemma byte_place: "bit (push_bit k (ucast (b :: byte)) :: u32) n \<longleftrightarrow> k \<le> n \<and> n < 32 \<and> n - k < 8 \<and> bit b (n - k)"
  using bit_imp_le_length [of b "n - k"] by (auto simp: bit_push_bit_iff bit_ucast_iff)

lemma four_bytes:
  "ucast (ucast v :: byte) OR push_bit 8 (ucast (ucast (drop_bit 8 v) :: byte)) OR push_bit 16 (ucast (ucast (drop_bit 16 v) :: byte)) OR
     push_bit 24 (ucast (ucast (drop_bit 24 v) :: byte)) = (v :: u32)" (is "?w = _")
proof (rule bit_word_eqI)
  fix n assume "n < LENGTH(32)"
  then have n: "n < 32" by simp
  then consider "n < 8" | "8 \<le> n" "n < 16" | "16 \<le> n" "n < 24" | "24 \<le> n" "n < 32" by linarith
  then show "bit ?w n = bit v n"
    by cases (auto simp: bit_or_iff byte_place byte_pick bit_ucast_iff bit_drop_bit_eq)
qed

lemma word32_mid: "word32_at (pre @ bytes32 v @ post) (int (length pre)) = Some v"
proof -
  have "get_bytes (pre @ bytes32 v @ post) (int (length pre)) 4 = Some (bytes32 v)"
    using get_bytes_mid [of pre "bytes32 v" post] by simp
  then show ?thesis by (simp add: word32_at_def bytes32_def four_bytes)
qed

lemma byte_mid: "byte_at (pre @ b # post) (int (length pre)) = Some b"
  by (simp add: byte_at_def read_cell_def)

lemma byte_at_nat: "byte_at mem (int k) = (if k < length mem then Some (mem ! k) else None)"
  by (simp add: byte_at_def read_cell_def)

text \<open>A checksum over the first bytes of a block.\<close>

lemma ip_checksum_prefix: "length h0 < 65536 \<Longrightarrow> ip_checksum (h0 @ post) (length h0) = ip_checksum h0 (length h0)"
  using ip_checksum_eq [of "length h0" "h0 @ post"] ip_checksum_eq [of "length h0" h0] by simp

lemma put16_eq: "put16 (x @ [b0, b1] @ y) (length x) c = Some (x @ bytes16 c @ y)"
  by (simp add: put16_def bytes16_def list_update_append)

section \<open>IP headers\<close>

definition ip_header :: "u32 \<Rightarrow> u32 \<Rightarrow> byte \<Rightarrow> u16 \<Rightarrow> byte list \<Rightarrow> byte list" where
  "ip_header src dest protocol len c =
     [0x45, 0] @ bytes16 (ntohw len) @ [0, 0] @ bytes16 (ntohw 0x4000) @ [255, protocol] @ c @ bytes32 src @ bytes32 dest"

lemma length_ip_header: "length c = 2 \<Longrightarrow> length (ip_header src dest protocol len c) = 20"
  by (simp add: ip_header_def)

lemma ip_header_checksum:
  "\<exists>c. ip_checksum (ip_header src dest protocol len [0, 0]) 20 = Some c \<and>
     ip_checksum (ip_header src dest protocol len (bytes16 c)) 20 = Some 0"
proof -
  let ?x = "[0x45, 0] @ bytes16 (ntohw len) @ [0, 0] @ bytes16 (ntohw 0x4000) @ [255, protocol]" and ?y = "bytes32 src @ bytes32 dest"
  let ?h = "?x @ [0, 0] @ ?y"
  have x: "length ?x = 10" by simp
  have "length ?h < 65536" "even (length ?x)" by simp_all
  moreover have "get16 ?h (length ?x) = Some 0" by (simp add: get16_def nth_append le16_def)
  ultimately obtain c h' where c: "ip_checksum ?h (length ?h) = Some c" "put16 ?h (length ?x) c = Some h'"
    "ip_checksum h' (length h') = Some 0" using ip_block_verifies [of ?h "length ?x"] by blast
  have h': "h' = ip_header src dest protocol len (bytes16 c)" using c(2) unfolding put16_eq by (simp add: ip_header_def)
  have "?h = ip_header src dest protocol len [0, 0]" by (simp add: ip_header_def)
  then show ?thesis using c(1,3) length_ip_header [of "[0, 0]" src dest protocol len] length_ip_header [of "bytes16 c" src dest protocol len]
    unfolding h' by (intro exI [of _ c]) simp
qed

lemma upd_packet_eq [simp]: "st_packets s a = Some p \<Longrightarrow> upd_packet a f s = Some (s\<lparr> st_packets := (st_packets s)(a \<mapsto> f p) \<rparr>)"
  by (simp add: upd_packet_def)

text \<open>What building a header does to a packet whose transport data starts at \<open>t\<close>.\<close>

lemma ipv4_build_header_eq:
  assumes p: "st_packets s packet = Some p" "pk_transport_data p = Some t" and t: "20 \<le> t" "t \<le> int (length (pk_data p))"
  shows "\<exists>c. ipv4_build_header src dest protocol packet s = Some (s\<lparr> st_packets := (st_packets s)(packet \<mapsto>
      p\<lparr> pk_network_data := Some (t - 20), pk_data := take (nat t - 20) (pk_data p) @
        ip_header src dest protocol (word_of_int (pk_size p - (t - 20))) (bytes16 c) @ drop (nat t) (pk_data p) \<rparr>) \<rparr>) \<and>
    ip_checksum (ip_header src dest protocol (word_of_int (pk_size p - (t - 20))) (bytes16 c)) 20 = Some 0"
proof -
  let ?len = "word_of_int (pk_size p - (t - 20))" and ?pre = "take (nat t - 20) (pk_data p)" and ?post = "drop (nat t) (pk_data p)"
  let ?h = "ip_header src dest protocol ?len"
  obtain c where c: "ip_checksum (?h [0, 0]) 20 = Some c" "ip_checksum (?h (bytes16 c)) 20 = Some 0"
    using ip_header_checksum by blast
  have lt: "nat t \<le> length (pk_data p)" "20 \<le> nat t" using t by linarith+
  have pre: "length ?pre = nat t - 20" "int (length ?pre) = t - 20" using lt t by auto
  have "pk_data p = ?pre @ drop (nat t - 20) (take (nat t) (pk_data p)) @ ?post"
    using lt by (metis append_assoc append_take_drop_id diff_le_self take_take min_absorb1)
  moreover have "length (drop (nat t - 20) (take (nat t) (pk_data p))) = length (?h [0, 0])" using lt by (simp add: ip_header_def)
  ultimately have put1: "put_bytes (pk_data p) (t - 20) (?h [0, 0]) = Some (?pre @ ?h [0, 0] @ ?post)"
    using put_bytes_mid pre(2) by metis
  have "ip_checksum (?h [0, 0] @ ?post) 20 = Some c"
    using ip_checksum_prefix [of "?h [0, 0]" ?post] length_ip_header [of "[0, 0]" src dest protocol ?len] c(1) by simp
  then have sum: "ip_checksum (drop (nat (t - 20)) (?pre @ ?h [0, 0] @ ?post)) 20 = Some c"
    using pre(1) by (simp add: nat_diff_distrib)
  let ?x = "[0x45, 0] @ bytes16 (ntohw ?len) @ [0, 0] @ bytes16 (ntohw 0x4000) @ [255, protocol]"
  have "put_bytes ((?pre @ ?x) @ [0, 0] @ (bytes32 src @ bytes32 dest @ ?post)) (int (length (?pre @ ?x))) (bytes16 c) =
      Some ((?pre @ ?x) @ bytes16 c @ (bytes32 src @ bytes32 dest @ ?post))" by (rule put_bytes_mid) simp
  moreover have "int (length (?pre @ ?x)) = t - 20 + 10" using pre(2) by simp
  ultimately have put2: "put_bytes (?pre @ ?h [0, 0] @ ?post) (t - 20 + 10) (bytes16 c) = Some (?pre @ ?h (bytes16 c) @ ?post)"
    by (simp add: ip_header_def)
  have nt: "\<not> t - 20 < 0" using t by simp
  have "ipv4_build_header src dest protocol packet s = Some (s\<lparr> st_packets := (st_packets s)(packet \<mapsto>
      p\<lparr> pk_network_data := Some (t - 20), pk_data := ?pre @ ?h (bytes16 c) @ ?post \<rparr>) \<rparr>)"
    unfolding ipv4_build_header_def Let_def p bind.bind_lunit if_not_P [OF nt] put1 [unfolded ip_header_def]
      sum [unfolded ip_header_def] put2 [unfolded ip_header_def] ip_header_def
    using p by simp
  then show ?thesis using c(2) by blast
qed

text \<open>C17: A packet for which the kernel builds an IP header is accepted on input: when the header is written right behind
  the Ethernet header, the bytes of the checksum make the test of \<^verbatim>\<open>ipv4_input\<close> succeed, the addresses and the protocol are read back, and
  the transport data is untouched and found where it was written.\<close>

theorem ipv4_header_accepted:
  assumes "st_packets s packet = Some p" and "pk_transport_data p = Some 34" and "34 \<le> length (pk_data p)"
  shows "\<exists>s' p'. ipv4_build_header src dest protocol packet s = Some s' \<and> st_packets s' packet = Some p' \<and>
    ipv4_input E packet s' = ipv4_handle_packet E packet s' \<and>
    byte_at (pk_data p') 23 = Some protocol \<and> word32_at (pk_data p') 26 = Some src \<and> word32_at (pk_data p') 30 = Some dest \<and>
    pk_network_data p' = Some 14 \<and> byte_at (pk_data p') 14 = Some 0x45 \<and> drop (14 + IPV4_HDR_SIZE 0x45 * 4) (pk_data p') = drop 34 (pk_data p) \<and>
    take 14 (pk_data p') = take 14 (pk_data p)"
proof -
  let ?len = "word_of_int (pk_size p - 14)"
  obtain c where s': "ipv4_build_header src dest protocol packet s = Some (s\<lparr> st_packets := (st_packets s)(packet \<mapsto>
      p\<lparr> pk_network_data := Some 14, pk_data := take 14 (pk_data p) @ ip_header src dest protocol ?len (bytes16 c) @
        drop 34 (pk_data p) \<rparr>) \<rparr>)"
    and c: "ip_checksum (ip_header src dest protocol ?len (bytes16 c)) 20 = Some 0"
    using ipv4_build_header_eq [OF assms(1,2), of src dest protocol] assms(3) by auto
  let ?h = "ip_header src dest protocol ?len (bytes16 c)" and ?pre = "take 14 (pk_data p)" and ?post = "drop 34 (pk_data p)"
  let ?mem = "?pre @ ?h @ ?post"
  let ?s = "s\<lparr> st_packets := (st_packets s)(packet \<mapsto> p\<lparr> pk_network_data := Some 14, pk_data := ?mem \<rparr>) \<rparr>"
  have pre: "length ?pre = 14" and h: "length ?h = 20" using assms(3) length_ip_header by simp_all
  have mid: "\<And>b i. ?h ! i = b \<Longrightarrow> i < 20 \<Longrightarrow> byte_at ?mem (int (14 + i)) = Some b"
    unfolding byte_at_nat using pre h by (simp add: nth_append)
  have b0: "byte_at ?mem 14 = Some 0x45" using mid [of 0 "0x45"] by (simp add: ip_header_def)
  have b9: "byte_at ?mem 23 = Some protocol" using mid [of 9 protocol] by (simp add: ip_header_def bytes16_def)
  have w: "word32_at ?mem 26 = Some src" "word32_at ?mem 30 = Some dest"
    using word32_mid [of "?pre @ take 12 ?h" src "bytes32 dest @ ?post"] word32_mid [of "?pre @ take 16 ?h" dest ?post] pre
    by (simp_all add: ip_header_def bytes16_def bytes32_def)
  have hs: "IPV4_HDR_SIZE 0x45 = 5" by (simp add: IPV4_HDR_SIZE_def)
  have "ip_checksum (drop 14 ?mem) (IPV4_HDR_SIZE 0x45 * 4) = Some 0"
    using ip_checksum_prefix [of ?h ?post] h c pre hs by simp
  then have "ipv4_input E packet ?s = ipv4_handle_packet E packet ?s" using b0 by (simp add: ipv4_input_def)
  moreover have "drop (14 + IPV4_HDR_SIZE 0x45 * 4) ?mem = ?post" "take 14 ?mem = ?pre" using pre h hs by simp_all
  ultimately show ?thesis using s' b0 b9 w by (intro exI [of _ ?s]) simp
qed

theorem ipv4_header_accepted_witness:
  "\<forall>E s. \<exists>s' p'. ipv4_build_header 0x0100000A 0x0200000A 17 7 (s\<lparr> st_packets := [7 \<mapsto> \<lparr> pk_next = None, pk_data = replicate 42 0,
       pk_network_data = None, pk_transport_data = Some 34, pk_size = 42 \<rparr>] \<rparr>) = Some s' \<and>
     ipv4_input E 7 s' = ipv4_handle_packet E 7 s' \<and> st_packets s' 7 = Some p' \<and> word32_at (pk_data p') 30 = Some 0x0200000A"
proof (intro allI)
  fix E :: stack_env and s :: net_stack
  let ?p = "\<lparr> pk_next = None, pk_data = replicate 42 0, pk_network_data = None, pk_transport_data = Some 34, pk_size = 42 \<rparr>"
  let ?s = "s\<lparr> st_packets := [7 \<mapsto> ?p] \<rparr>"
  have "st_packets ?s 7 = Some ?p" "pk_transport_data ?p = Some 34" "34 \<le> length (pk_data ?p)" by simp_all
  from ipv4_header_accepted [OF this, of "0x0100000A" "0x0200000A" 17 E]
  show "\<exists>s' p'. ipv4_build_header 0x0100000A 0x0200000A 17 7 ?s = Some s' \<and> ipv4_input E 7 s' = ipv4_handle_packet E 7 s' \<and>
      st_packets s' 7 = Some p' \<and> word32_at (pk_data p') 30 = Some 0x0200000A" by blast
qed

section \<open>Queues of packets\<close>

text \<open>The packets of a queue, in order: a chain from the first packet to \<^verbatim>\<open>NULL\<close> that counts what the semaphore holds.\<close>

fun packet_chain :: "(addr \<rightharpoonup> packet_t) \<Rightarrow> vptr \<Rightarrow> addr list \<Rightarrow> bool" where
  "packet_chain m first [] \<longleftrightarrow> first = None"
| "packet_chain m first (a # as) \<longleftrightarrow> first = Some a \<and> (\<exists>p. m a = Some p \<and> packet_chain m (pk_next p) as)"

definition queue_ok :: "(addr \<rightharpoonup> packet_t) \<Rightarrow> packet_queue_t \<Rightarrow> addr list \<Rightarrow> bool" where
  "queue_ok m q as \<longleftrightarrow> packet_chain m (pq_first q) as \<and> distinct as \<and> pq_sync q = int (length as) \<and>
     pq_last q = (if as = [] then None else Some (last as))"

lemma packet_chain_cong: "(\<And>a. a \<in> set as \<Longrightarrow> m' a = m a) \<Longrightarrow> packet_chain m' first as = packet_chain m first as"
  by (induction as arbitrary: first) auto

lemma packet_chain_snoc:
  "packet_chain m first (as @ [l]) \<Longrightarrow> distinct (as @ [l]) \<Longrightarrow> a \<notin> set (as @ [l]) \<Longrightarrow> m l = Some p \<Longrightarrow> m a = Some r \<Longrightarrow>
   packet_chain (m(a \<mapsto> r\<lparr> pk_next := None \<rparr>, l \<mapsto> p\<lparr> pk_next := Some a \<rparr>)) first (as @ [l, a])"
proof (induction as arbitrary: first)
  case (Cons b as)
  from Cons.prems(1) obtain k where k: "first = Some b" "m b = Some k" "packet_chain m (pk_next k) (as @ [l])" by auto
  have b: "b \<noteq> l" "b \<noteq> a" using Cons.prems(2,3) by auto
  let ?m = "m(a \<mapsto> r\<lparr> pk_next := None \<rparr>, l \<mapsto> p\<lparr> pk_next := Some a \<rparr>)"
  have "packet_chain ?m (pk_next k) (as @ [l, a])"
    by (rule Cons.IH [OF k(3) _ _ Cons.prems(4,5)]) (use Cons.prems(2,3) in auto)
  moreover have "?m b = Some k" using k(2) b by simp
  ultimately show ?case using k(1) unfolding append_Cons packet_chain.simps by blast
qed auto

lemma packet_chain_known: "packet_chain m first as \<Longrightarrow> a \<in> set as \<Longrightarrow> \<exists>p. m a = Some p"
  by (induction as arbitrary: first) auto

lemma queue_ok_init: "queue_ok m packet_queue_init []"
  by (simp add: queue_ok_def packet_queue_init_def)

lemma packet_queue_insert_eq:
  assumes ok: "queue_ok (st_packets s) q as" and a: "a \<notin> set as" "st_packets s a = Some r"
  shows "\<exists>q' s'. packet_queue_insert a q s = Some (q', s') \<and> queue_ok (st_packets s') q' (as @ [a]) \<and>
    (\<forall>b. map_option pk_data (st_packets s' b) = map_option pk_data (st_packets s b)) \<and>
    s' = s\<lparr> st_packets := st_packets s' \<rparr>"
proof (cases "as = []")
  case True
  then show ?thesis using ok a
    by (intro exI [of _ "q\<lparr> pq_first := Some a, pq_last := Some a, pq_sync := pq_sync q + 1 \<rparr>"]
          exI [of _ "s\<lparr> st_packets := (st_packets s)(a \<mapsto> r\<lparr> pk_next := None \<rparr>) \<rparr>"])
       (auto simp: packet_queue_insert_def queue_ok_def)
next
  case False
  then obtain bs l where as: "as = bs @ [l]" by (metis rev_exhaust)
  have c: "packet_chain (st_packets s) (pq_first q) (bs @ [l])" "distinct (bs @ [l])" "pq_last q = Some l" "pq_sync q = int (length as)"
    using ok as by (simp_all add: queue_ok_def)
  obtain p where p: "st_packets s l = Some p" using packet_chain_known [OF c(1)] by auto
  have al: "a \<noteq> l" "a \<notin> set (bs @ [l])" using a(1) as by auto
  obtain f where f: "pq_first q = Some f" using c(1) by (cases bs) auto
  let ?m = "(st_packets s)(a \<mapsto> r\<lparr> pk_next := None \<rparr>, l \<mapsto> p\<lparr> pk_next := Some a \<rparr>)"
  let ?q = "q\<lparr> pq_last := Some a, pq_sync := pq_sync q + 1 \<rparr>"
  have "packet_queue_insert a q s = Some (?q, s\<lparr> st_packets := ?m \<rparr>)"
    using f a(2) p al c(3) by (simp add: packet_queue_insert_def)
  moreover have "queue_ok ?m ?q (as @ [a])"
    using packet_chain_snoc [OF c(1,2) al(2) p a(2)] c(2,4) al(2) as by (simp add: queue_ok_def)
  ultimately show ?thesis using a(2) p al(1) by (intro exI [of _ ?q] exI [of _ "s\<lparr> st_packets := ?m \<rparr>"]) simp
qed

lemma packet_queue_pop_head_eq:
  assumes "queue_ok (st_packets s) q (a # as)"
  shows "\<exists>q'. packet_queue_pop_head q s = Some (Some a, q') \<and> queue_ok (st_packets s) q' as"
proof -
  obtain p where p: "pq_first q = Some a" "st_packets s a = Some p" "packet_chain (st_packets s) (pk_next p) as"
    using assms by (auto simp: queue_ok_def)
  have n: "pk_next p = None \<longleftrightarrow> as = []" using p(3) by (cases as) auto
  show ?thesis using assms p n by (auto simp: packet_queue_pop_head_def queue_ok_def)
qed

lemma packet_queue_pop_head_empty:
  "queue_ok (st_packets s) q [] \<Longrightarrow> packet_queue_pop_head q s = Some (None, q)"
  by (simp add: packet_queue_pop_head_def queue_ok_def)

section \<open>Packets that wait for an address\<close>

definition framed :: "byte list \<Rightarrow> byte list \<Rightarrow> u16 \<Rightarrow> byte list \<Rightarrow> byte list" where
  "framed hw dev protocol data = hw @ dev @ bytes16 (ntohw protocol) @ drop 14 data"

lemma put_bytes_start: "length bs \<le> length mem \<Longrightarrow> put_bytes mem 0 bs = Some (bs @ drop (length bs) mem)"
  by (simp add: put_bytes_def)

lemma ethernet_send_packet_eq:
  assumes p: "st_packets s a = Some p" "14 \<le> length (pk_data p)" and i: "st_ifs s device = Some i" "length (if_dev_addr i) = 6"
    and hw: "length hw = 6"
  shows "ethernet_send_packet E device hw protocol a s =
    (let m = framed hw (if_dev_addr i) protocol (pk_data p) in
     if se_transmit E (s\<lparr> st_packets := (st_packets s)(a \<mapsto> p\<lparr> pk_data := m \<rparr>) \<rparr>) device m
     then Some (Inr (), s\<lparr> st_packets := (st_packets s)(a := None), st_sent := st_sent s @ [(device, m)] \<rparr>)
     else Some (Inl ENOMEM, s\<lparr> st_packets := (st_packets s)(a := None) \<rparr>))"
proof -
  let ?d = "pk_data p" and ?t = "bytes16 (ntohw protocol)"
  have "put_bytes ?d 12 ?t = Some (take 12 ?d @ ?t @ drop 14 ?d)" using p(2) by (simp add: put_bytes_def)
  moreover have "put_bytes (take 12 ?d @ ?t @ drop 14 ?d) 0 (take 6 hw) = Some (hw @ drop 6 (take 12 ?d) @ ?t @ drop 14 ?d)"
    using p(2) hw by (simp add: put_bytes_start)
  moreover have "put_bytes (hw @ drop 6 (take 12 ?d) @ ?t @ drop 14 ?d) 6 (take 6 (if_dev_addr i)) =
      Some (framed hw (if_dev_addr i) protocol ?d)"
    using put_bytes_mid [of "drop 6 (take 12 ?d)" "if_dev_addr i" hw "?t @ drop 14 ?d"] p(2) hw i(2) by (simp add: framed_def)
  ultimately show ?thesis using p(1) i(1)
    by (simp add: ethernet_send_packet_def net_device_transmit_def delete_packet_def Let_def)
qed

text \<open>The frames that the packets of a queue become.\<close>

definition frames_of :: "byte list \<Rightarrow> net_if \<Rightarrow> net_stack \<Rightarrow> addr list \<Rightarrow> byte list list" where
  "frames_of hw i s as = map (\<lambda>a. framed hw (if_dev_addr i) ETH_P_IP (pk_data (the (st_packets s a)))) as"

lemma arp_flush_loop_eq:
  assumes "queue_ok (st_packets s) q as" and "\<forall>a \<in> set as. \<exists>p. st_packets s a = Some p \<and> 14 \<le> length (pk_data p)"
    and "st_ifs s device = Some i" and "length (if_dev_addr i) = 6" and "length hw = 6"
  shows "\<exists>q' s' sent. arp_flush_loop E device hw q s = Some (q', s') \<and> pq_first q' = None \<and> subseq sent (frames_of hw i s as) \<and>
    ((\<forall>t m. se_transmit E t device m) \<longrightarrow> sent = frames_of hw i s as) \<and>
    s' = s\<lparr> st_packets := (\<lambda>a. if a \<in> set as then None else st_packets s a), st_sent := st_sent s @ map (Pair device) sent \<rparr>"
  using assms(1-3)
proof (induction as arbitrary: q s)
  case Nil
  have "arp_flush_loop E device hw q s = Some (q, s)"
    by (subst arp_flush_loop.simps) (simp add: packet_queue_pop_head_empty [OF Nil.prems(1)])
  then show ?case using Nil.prems(1)
    by (intro exI [of _ q] exI [of _ s] exI [of _ "[]"]) (simp add: queue_ok_def frames_of_def)
next
  case (Cons a as)
  obtain q1 where q1: "packet_queue_pop_head q s = Some (Some a, q1)" "queue_ok (st_packets s) q1 as"
    using packet_queue_pop_head_eq [OF Cons.prems(1)] by blast
  obtain p where p: "st_packets s a = Some p" "14 \<le> length (pk_data p)" using Cons.prems(2) by auto
  have a: "a \<notin> set as" using Cons.prems(1) by (simp add: queue_ok_def)
  define f where "f = framed hw (if_dev_addr i) ETH_P_IP (pk_data p)"
  define ok where "ok = se_transmit E (s\<lparr> st_packets := (st_packets s)(a \<mapsto> p\<lparr> pk_data := f \<rparr>) \<rparr>) device f"
  define s1 where "s1 = s\<lparr> st_packets := (st_packets s)(a := None), st_sent := st_sent s @ (if ok then [(device, f)] else []) \<rparr>"
  have e: "ethernet_send_packet E device hw ETH_P_IP a s = Some (if ok then Inr () else Inl ENOMEM, s1)"
    unfolding ethernet_send_packet_eq [OF p Cons.prems(3) assms(4,5)] Let_def f_def [symmetric] ok_def [symmetric] s1_def
    by (cases ok) simp_all
  have m1: "st_packets s1 b = st_packets s b" if "b \<in> set as" for b using that a by (auto simp: s1_def)
  have "packet_chain (st_packets s1) first as = packet_chain (st_packets s) first as" for first
    by (rule packet_chain_cong) (rule m1)
  then have s1: "queue_ok (st_packets s1) q1 as" "\<forall>b \<in> set as. \<exists>p. st_packets s1 b = Some p \<and> 14 \<le> length (pk_data p)"
    "st_ifs s1 device = Some i" "frames_of hw i s1 as = frames_of hw i s as"
    using q1(2) Cons.prems(2,3) m1 by (simp_all add: queue_ok_def frames_of_def) (simp add: s1_def)
  obtain q' s' sent where r: "arp_flush_loop E device hw q1 s1 = Some (q', s')" "pq_first q' = None"
    "subseq sent (frames_of hw i s1 as)" "(\<forall>t m. se_transmit E t device m) \<longrightarrow> sent = frames_of hw i s1 as"
    "s' = s1\<lparr> st_packets := (\<lambda>a. if a \<in> set as then None else st_packets s1 a), st_sent := st_sent s1 @ map (Pair device) sent \<rparr>"
    using Cons.IH [OF s1(1-3)] by blast
  have loop: "arp_flush_loop E device hw q s = Some (q', s')"
    by (subst arp_flush_loop.simps) (simp add: q1(1) e r(1))
  have fr: "frames_of hw i s (a # as) = f # frames_of hw i s as" using p(1) by (simp add: frames_of_def f_def)
  show ?case
  proof (intro exI [of _ q'] exI [of _ s'] exI [of _ "(if ok then [f] else []) @ sent"] conjI)
    show "arp_flush_loop E device hw q s = Some (q', s')" by (rule loop)
    show "pq_first q' = None" by (rule r(2))
    show "subseq ((if ok then [f] else []) @ sent) (frames_of hw i s (a # as))" using r(3) fr s1(4) by auto
    show "(\<forall>t m. se_transmit E t device m) \<longrightarrow> (if ok then [f] else []) @ sent = frames_of hw i s (a # as)"
      using r(4) fr s1(4) by (auto simp: ok_def)
    show "s' = s\<lparr> st_packets := (\<lambda>b. if b \<in> set (a # as) then None else st_packets s b),
        st_sent := st_sent s @ map (Pair device) ((if ok then [f] else []) @ sent) \<rparr>"
      unfolding r(5) by (simp add: s1_def fun_eq_iff)
  qed
qed

lemma upd_if_eq [simp]: "st_ifs s a = Some i \<Longrightarrow> upd_if a f s = Some (s\<lparr> st_ifs := (st_ifs s)(a \<mapsto> f i) \<rparr>)"
  by (simp add: upd_if_def)

text \<open>A device on which no address is both known and waited for, and a queue of waiting packets.\<close>

definition arp_ok :: "net_if \<Rightarrow> bool" where
  "arp_ok i \<longleftrightarrow> length (if_dev_addr i) = 6 \<and> (\<forall>ip. if_arp_cache i ip = None \<or> if_arp_requests i ip = None)"

definition waiting :: "net_stack \<Rightarrow> packet_queue_t \<Rightarrow> addr list \<Rightarrow> bool" where
  "waiting s q as \<longleftrightarrow> queue_ok (st_packets s) q as \<and> (\<forall>a \<in> set as. \<exists>p. st_packets s a = Some p \<and> 14 \<le> length (pk_data p))"

definition learned :: "stack_env \<Rightarrow> byte list \<Rightarrow> u32 \<Rightarrow> net_stack \<Rightarrow> net_if \<Rightarrow> net_if" where
  "learned E hw ip s i = i\<lparr> if_arp_cache := (case arp_cache_create_item E hw 0 s of None \<Rightarrow> if_arp_cache i
     | Some item \<Rightarrow> (if_arp_cache i)(ip \<mapsto> item)), if_arp_requests := (if_arp_requests i)(ip := None) \<rparr>"

lemma arp_cache_insert_eq:
  assumes "st_ifs s device = Some i" and "if_arp_cache i ip = None"
  shows "arp_cache_insert E device hw ip s = (case if_arp_requests i ip of
      None \<Rightarrow> Some (s\<lparr> st_ifs := (st_ifs s)(device \<mapsto> learned E hw ip s i) \<rparr>)
    | Some q \<Rightarrow> do {
        (q, s) \<leftarrow> arp_flush_loop E device hw q (s\<lparr> st_ifs := (st_ifs s)(device \<mapsto> learned E hw ip s i) \<rparr>);
        packet_queue_destroy q s })"
  using assms by (auto simp: arp_cache_insert_def learned_def split: option.splits)

text \<open>C16: When the address of a neighbour becomes known, the packets that wait for it are sent to it, in the order in which
  they were queued and with the rest of their bytes unchanged; a driver that accepts every frame gets all of them, another one a
  subsequence. The packets leave the kernel, the request is removed, and no address is both known and waited for afterwards, which
  is what the code asserts.\<close>

theorem arp_pending_sent:
  assumes i: "st_ifs s device = Some i" "arp_ok i" and ip: "if_arp_requests i ip = Some q" and w: "waiting s q as"
    and hw: "length hw = 6"
  shows "\<exists>s' sent i'. arp_cache_insert E device hw ip s = Some s' \<and> st_sent s' = st_sent s @ map (Pair device) sent \<and>
    subseq sent (frames_of hw i s as) \<and> ((\<forall>t m. se_transmit E t device m) \<longrightarrow> sent = frames_of hw i s as) \<and>
    st_packets s' = (\<lambda>a. if a \<in> set as then None else st_packets s a) \<and>
    st_ifs s' device = Some i' \<and> arp_ok i' \<and> if_arp_requests i' ip = None \<and>
    (se_object E s \<longrightarrow> (\<exists>item. if_arp_cache i' ip = Some item \<and> ai_hw_address item = hw))"
proof -
  have none: "if_arp_cache i ip = None" using i(2) ip by (auto simp: arp_ok_def)
  let ?i = "learned E hw ip s i" and ?s = "s\<lparr> st_ifs := (st_ifs s)(device \<mapsto> learned E hw ip s i) \<rparr>"
  have d: "if_dev_addr ?i = if_dev_addr i" "length (if_dev_addr ?i) = 6" using i(2) by (simp_all add: learned_def arp_ok_def)
  have w': "queue_ok (st_packets ?s) q as" "\<forall>a \<in> set as. \<exists>p. st_packets ?s a = Some p \<and> 14 \<le> length (pk_data p)"
    "st_ifs ?s device = Some ?i" using w by (simp_all add: waiting_def)
  have f: "frames_of hw ?i ?s as = frames_of hw i s as" using d(1) by (simp add: frames_of_def)
  obtain q' s' sent where r: "arp_flush_loop E device hw q ?s = Some (q', s')" "pq_first q' = None" "subseq sent (frames_of hw i s as)"
    "(\<forall>t m. se_transmit E t device m) \<longrightarrow> sent = frames_of hw i s as"
    "s' = ?s\<lparr> st_packets := (\<lambda>a. if a \<in> set as then None else st_packets ?s a), st_sent := st_sent ?s @ map (Pair device) sent \<rparr>"
    using arp_flush_loop_eq [OF w' d(2) hw] unfolding f by blast
  have "packet_queue_destroy q' s' = Some s'" using r(2) by (subst packet_queue_destroy.simps) simp
  then have "arp_cache_insert E device hw ip s = Some s'" unfolding arp_cache_insert_eq [OF i(1) none] ip using r(1) by simp
  moreover have "arp_ok ?i" "if_arp_requests ?i ip = None" using i(2) d
    by (auto simp: arp_ok_def learned_def split: option.splits)
  moreover have "\<exists>item. if_arp_cache ?i ip = Some item \<and> ai_hw_address item = hw" if "se_object E s"
    using that hw by (simp add: learned_def arp_cache_create_item_def)
  moreover have "st_ifs s' device = Some ?i" "st_sent s' = st_sent s @ map (Pair device) sent"
    "st_packets s' = (\<lambda>a. if a \<in> set as then None else st_packets s a)" unfolding r(5) by (simp_all add: fun_eq_iff)
  ultimately show ?thesis using r(3,4) by blast
qed

definition wit_if :: net_if where
  "wit_if = \<lparr> if_dev_addr = [2, 0, 0, 0, 0, 1], if_mtu = 1500, if_input_queue = packet_queue_init, if_arp_cache = Map.empty,
     if_arp_requests = [0x0200000A \<mapsto> \<lparr> pq_sync = 2, pq_first = Some 7, pq_last = Some 8 \<rparr>] \<rparr>"

definition wit_packet :: "vptr \<Rightarrow> byte \<Rightarrow> packet_t" where
  "wit_packet next b = \<lparr> pk_next = next, pk_data = replicate 14 0 @ [b], pk_network_data = Some 14, pk_transport_data = Some 34,
     pk_size = 15 \<rparr>"

text \<open>A stack without devices, packets and sockets, and an environment with a driver that accepts every frame.\<close>

definition no_items :: array_t where
  "no_items = \<lparr> item_count = 0, max_item_count = 0, realloc_size = 1, items = None \<rparr>"

definition empty_stack :: net_stack where
  "empty_stack = \<lparr> st_packets = Map.empty,
     st_net = \<lparr> n_devices = Map.empty, n_routes = Map.empty, device_table = no_items, static_routes = no_items,
       device_routes = no_items \<rparr>,
     st_ifs = Map.empty, st_sent = [], st_now = 0, st_sockets = Map.empty, socket_inode_table = Map.empty,
     socket_inode_counter = 0, st_selects = Map.empty, st_udp = Map.empty,
     udp_port_table = \<lparr> bm_table = None, max_bit_count = 0 \<rparr>, udp_endpoint_table = [], st_tcp = Map.empty,
     tcp_endpoint_table = [], st_timer_wakeups = 0 \<rparr>"

definition open_env :: stack_env where
  "open_env = \<lparr> se_net = \<lparr> ne_km = (\<lambda>n. Some (replicate n None)), ne_new = (\<lambda>_. Some 99) \<rparr>,
     se_block = (\<lambda>m n. if m 64 = None then Some (64, replicate n 0) else None), se_object = (\<lambda>_. True),
     se_bytes = (\<lambda>n. Some (replicate n 0)), se_new_tcp = (\<lambda>_. None), se_new_udp = (\<lambda>_. None), se_locks = (\<lambda>_. True),
     se_transmit = (\<lambda>_ _ _. True) \<rparr>"

definition arp_stack :: net_stack where
  "arp_stack = empty_stack\<lparr> st_packets := [7 \<mapsto> wit_packet (Some 8) 5, 8 \<mapsto> wit_packet None 6], st_ifs := [1 \<mapsto> wit_if] \<rparr>"

theorem arp_pending_sent_witness:
  "\<exists>s'. arp_cache_insert open_env 1 [2, 0, 0, 0, 0, 9] 0x0200000A arp_stack = Some s' \<and>
     map (\<lambda>(d, f). drop 14 f) (st_sent s') = [[5], [6]]"
proof -
  let ?q = "\<lparr> pq_sync = 2, pq_first = Some 7, pq_last = Some 8 \<rparr>"
  have i: "st_ifs arp_stack 1 = Some wit_if" "arp_ok wit_if" "if_arp_requests wit_if 0x0200000A = Some ?q"
    by (simp_all add: wit_if_def arp_ok_def arp_stack_def)
  have w: "waiting arp_stack ?q [7, 8]" by (simp add: waiting_def queue_ok_def wit_packet_def arp_stack_def)
  have hw: "length [2, 0, 0, 0, 0, 9 :: byte] = 6" by simp
  have E: "\<forall>t m. se_transmit open_env t 1 m" by (simp add: open_env_def)
  obtain s' where s': "arp_cache_insert open_env 1 [2, 0, 0, 0, 0, 9] 0x0200000A arp_stack = Some s'"
    "st_sent s' = st_sent arp_stack @ map (Pair 1) (frames_of [2, 0, 0, 0, 0, 9] wit_if arp_stack [7, 8])"
    using arp_pending_sent [OF i w hw, of open_env] E by blast
  have d: "pk_data (the (st_packets arp_stack 7)) = replicate 14 0 @ [5]" "pk_data (the (st_packets arp_stack 8)) = replicate 14 0 @ [6]"
    by (simp_all add: arp_stack_def wit_packet_def)
  have n: "length (if_dev_addr wit_if) = 6" by (simp add: wit_if_def)
  have "map (\<lambda>(d, f). drop 14 f) (st_sent s') = [[5], [6]]" unfolding s'(2)
    unfolding frames_of_def list.map d framed_def using n by (simp add: arp_stack_def empty_stack_def)
  with s'(1) show ?thesis by (intro exI [of _ s'] conjI)
qed

text \<open>Sending keeps an address from being both known and waited for.\<close>

lemma packet_queue_insert_ifs: "packet_queue_insert a q s = Some (q', s') \<Longrightarrow> st_ifs s' = st_ifs s"
  by (auto simp: packet_queue_insert_def upd_packet_def split: option.splits if_splits bind_splits)

lemma ethernet_send_packet_ifs: "ethernet_send_packet E device hw protocol a s = Some (r, s') \<Longrightarrow> st_ifs s' = st_ifs s"
  by (auto simp: ethernet_send_packet_def net_device_transmit_def delete_packet_def upd_packet_def
      split: option.splits if_splits bind_splits sum.splits)

lemma create_packet_ifs: "create_packet E n s = (r, s') \<Longrightarrow> st_ifs s' = st_ifs s"
  by (auto simp: create_packet_def Let_def split: option.splits prod.splits)

lemma arp_send_packet_ok:
  assumes i: "st_ifs s device = Some i" "arp_ok i" and r: "arp_send_packet E device ip packet s = Some (r, s')"
  shows "\<exists>i'. st_ifs s' device = Some i' \<and> arp_ok i' \<and> if_arp_cache i' = if_arp_cache i"
proof -
  obtain d where d: "n_devices (st_net s) device = Some d" using r by (auto simp: arp_send_packet_def split: bind_splits)
  have queued: "\<exists>i'. st_ifs t device = Some i' \<and> arp_ok i' \<and> if_arp_cache i' = if_arp_cache i"
    if "st_ifs t = (st_ifs s)(device \<mapsto> i\<lparr> if_arp_requests := (if_arp_requests i)(ip \<mapsto> q) \<rparr>)" "if_arp_cache i ip = None" for t q
    using that i by (auto simp: arp_ok_def)
  show ?thesis
  proof (cases "net_device_flags d AND NETDEV_UP = 0 \<or> if_arp_cache i ip \<noteq> None")
    case True
    then have "st_ifs s' = st_ifs s" using r i(1) d
      by (auto simp: arp_send_packet_def split: option.splits if_splits dest: ethernet_send_packet_ifs)
    then show ?thesis using i by auto
  next
    case False
    then show ?thesis
    proof (cases "if_arp_requests i ip")
      case (Some q)
      then obtain q' t where "packet_queue_insert packet q s = Some (q', t)"
        "upd_if device (\<lambda>i. i\<lparr> if_arp_requests := (if_arp_requests i)(ip \<mapsto> q') \<rparr>) t = Some s'"
        using r i(1) d False by (auto simp: arp_send_packet_def split: if_splits bind_splits)
      then show ?thesis using queued [of s' q'] packet_queue_insert_ifs i(1) False by fastforce
    next
      case None
      show ?thesis
      proof (cases "se_object E s")
        case True
        then obtain q' t where t: "packet_queue_insert packet packet_queue_init s = Some (q', t)"
          using r i(1) d False None by (auto simp: arp_send_packet_def split: if_splits bind_splits)
        let ?u = "t\<lparr> st_ifs := (st_ifs s)(device \<mapsto> i\<lparr> if_arp_requests := (if_arp_requests i)(ip \<mapsto> q') \<rparr>) \<rparr>"
        have tifs: "st_ifs t = st_ifs s" by (rule packet_queue_insert_ifs [OF t])
        obtain v req where v: "create_packet E 42 ?u = (req, v)" by (cases "create_packet E 42 ?u")
        have "st_ifs s' = st_ifs v" using r i(1) d False None True t tifs v
          by (auto simp: arp_send_packet_def upd_packet_def split: if_splits bind_splits option.splits dest!: ethernet_send_packet_ifs)
        then show ?thesis using queued [of s' q'] create_packet_ifs [OF v] False by simp
      qed (use r i d False None in \<open>auto simp: arp_send_packet_def split: if_splits\<close>)
    qed
  qed
qed

section \<open>Echo requests\<close>

lemma ip_sum_loop_beyond: "length data + 1 < len \<Longrightarrow> ip_sum_loop data len c = None"
  by (induction data len c rule: ip_sum_loop.induct) (simp_all add: Let_def)

lemma ip_checksum_beyond: "length data + 1 < len \<Longrightarrow> len < 65536 \<Longrightarrow> ip_checksum data len = None"
  by (simp add: ip_checksum_def ip_sum_loop_beyond)

lemma length_put_bytes: "put_bytes mem off bs = Some mem' \<Longrightarrow> length mem' = length mem"
  by (auto simp: put_bytes_def split: if_splits)

text \<open>An echo request whose length field is more than four bytes smaller than its own IP header makes the kernel run off the end
  of the reply: the number of bytes for the checksum is negative, is taken as an unsigned 16-bit number, and no reply block
  that the request for it gets is that long.\<close>

theorem icmp_short_echo_overruns:
  assumes p: "st_packets s packet = Some p" "pk_transport_data p = Some t" "byte_at (pk_data p) t = Some 8" "pk_network_data p = Some n"
    and vs: "byte_at (pk_data p) n = Some vs" "word16_at (pk_data p) (n + 2) = Some w"
    and short: "uint (ntohw w) < int (IPV4_HDR_SIZE vs) * 4 - 4"
    and block: "\<And>m z. \<exists>a b. se_block E m z = Some (a, b) \<and> length b = z"
  shows "icmp_input E packet s = None"
proof -
  define payload where "payload = uint (ntohw w) - int (IPV4_HDR_SIZE vs) * 4 - 4"
  have "IPV4_HDR_SIZE vs < 16"
    using word_and_le1 [of vs "0x0F"] by (simp add: IPV4_HDR_SIZE_def word_le_nat_alt)
  moreover have "0 \<le> uint (ntohw w)" by simp
  ultimately have pl: "- 64 \<le> payload" "payload < - 8" unfolding payload_def using short by linarith+
  obtain a b where ab: "se_block E (st_packets s) (nat ((int sizeof_packet + (14 + 20 + 4 + 4 + payload) + 15) mod 4294967296)) = Some (a, b)"
    "length b = nat ((int sizeof_packet + (14 + 20 + 4 + 4 + payload) + 15) mod 4294967296)" using block by blast
  have "length b < 100" using ab(2) pl by (simp add: mod_pos_pos_trivial)
  then have sum: "ip_checksum m (nat ((8 + payload) mod 65536)) = None" if "length m \<le> length b" for m
  proof -
    have "(8 + payload) mod 65536 = (8 + payload + 65536) mod 65536" by (simp only: mod_add_self2)
    also have "\<dots> = 65544 + payload" using pl by (subst mod_pos_pos_trivial) simp_all
    finally have "(8 + payload) mod 65536 = 65544 + payload" .
    then show ?thesis using that \<open>length b < 100\<close> pl by (intro ip_checksum_beyond) auto
  qed
  define q where "q = \<lparr> pk_next = None, pk_data = drop ((a + sizeof_packet + 15) div 16 * 16 - a) b, pk_network_data = None,
    pk_transport_data = None, pk_size = 14 + 20 + 4 + 4 + payload \<rparr>"
  define s1 where "s1 = s\<lparr> st_packets := (st_packets s)(a \<mapsto> q) \<rparr>"
  have cp: "create_packet E (14 + 20 + 4 + 4 + payload) s = (Some a, s1)"
    unfolding create_packet_def ab(1) by (simp add: Let_def s1_def q_def)
  have q: "st_packets s1 a = Some q" "length (pk_data q) \<le> length b" by (simp_all add: s1_def q_def)
  have np: "\<not> payload > 0" using pl by simp
  have none: "ip_checksum (drop k m) (nat ((8 + payload) mod 65536)) = None"
    if "put_bytes (pk_data q) o1 x = Some m0" "put_bytes m0 o2 y = Some m" for k m m0 o1 o2 x y
    using sum [of "drop k m"] length_put_bytes [OF that(1)] length_put_bytes [OF that(2)] q(2) by simp
  have "icmp_handle_echo E packet s = None"
    unfolding icmp_handle_echo_def p vs bind.bind_lunit Let_def payload_def [symmetric] cp prod.case option.case q(1) if_not_P [OF np]
    using none by (auto simp: Option.bind_eq_None_conv)
  then show ?thesis using p(1-3) by (simp add: icmp_input_def)
qed

definition short_echo :: net_stack where
  "short_echo = empty_stack\<lparr> st_packets := [7 \<mapsto> \<lparr> pk_next = None,
     pk_data = replicate 14 0 @ [0x45, 0, 0, 4] @ replicate 16 0 @ [8, 0, 0, 0, 0, 0, 0, 0], pk_network_data = Some 14,
     pk_transport_data = Some 34, pk_size = 42 \<rparr>] \<rparr>"

theorem icmp_short_echo_overruns_witness:
  "icmp_input (open_env\<lparr> se_block := (\<lambda>m z. Some (64, replicate z 0)) \<rparr>) 7 short_echo = None"
proof (rule icmp_short_echo_overruns)
  let ?p = "\<lparr> pk_next = None, pk_data = replicate 14 0 @ [0x45, 0, 0, 4] @ replicate 16 0 @ [8, 0, 0, 0, 0, 0, 0, 0],
    pk_network_data = Some 14, pk_transport_data = Some 34, pk_size = 42 \<rparr>"
  show "st_packets short_echo 7 = Some ?p" by (simp add: short_echo_def)
  show "byte_at (pk_data ?p) 34 = Some 8" "byte_at (pk_data ?p) 14 = Some 0x45"
    using byte_at_nat [of "pk_data ?p" 34] byte_at_nat [of "pk_data ?p" 14] by (simp_all add: nth_append)
  have "get_bytes (pk_data ?p) (14 + 2) 2 = Some [0, 4]" by (simp add: get_bytes_def)
  then show "word16_at (pk_data ?p) (14 + 2) = Some 0x400" unfolding word16_at_def by (simp add: le16_def)
  show "uint (ntohw 0x400) < int (IPV4_HDR_SIZE 0x45) * 4 - 4" by (simp add: IPV4_HDR_SIZE_def ntohw_def)
qed simp_all

end
