(* ===== verification/Kernel_Tcp_Safety.thy ===== *)
theory Kernel_Tcp_Safety
  imports Kernel_Ip_Safety
begin

unbundle bit_operations_syntax

text \<open>
  TCP as a stream of bytes: what is stored in the receive window is read in order, what is written to the send window goes
  behind what is there, as long as a window is not filled to its last byte. A full window cannot be told from an empty one. Errors
  in the handling of acknowledgements and options.
\<close>

section \<open>Windows\<close>

text \<open>The bytes between two pointers of a circular buffer.\<close>

definition span :: "circular_buffer_t \<Rightarrow> circular_pointer_t \<Rightarrow> circular_pointer_t \<Rightarrow> byte list" where
  "span b p q = map (circular_cell b p) [0..<circular_pointer_diff b p q]"

definition window_ok :: "circular_buffer_t \<Rightarrow> circular_pointer_t \<Rightarrow> circular_pointer_t \<Rightarrow> bool" where
  "window_ok b p q \<longleftrightarrow> circular_inv b p \<and> circular_inv b q \<and> cb_buffer_size b \<le> 2147483648"

lemma diff_less: "window_ok b p q \<Longrightarrow> circular_pointer_diff b p q < cb_buffer_size b"
  by (auto simp: window_ok_def circular_inv_def circular_pointer_diff_def)

lemma length_span [simp]: "length (span b p q) = circular_pointer_diff b p q"
  by (simp add: span_def)

text \<open>Moving a pointer forward by no more than the size of the buffer.\<close>

lemma move_offset:
  assumes "window_ok b p q" and "n \<le> cb_buffer_size b"
  shows "cp_offset (circular_pointer_move b q n) = (cp_offset q + n) mod cb_buffer_size b"
    and "window_ok b p (circular_pointer_move b q n)"
proof -
  have "cp_offset q + n < 4294967296" using assms by (auto simp: window_ok_def circular_inv_def)
  then show "cp_offset (circular_pointer_move b q n) = (cp_offset q + n) mod cb_buffer_size b"
    by (simp add: circular_pointer_move_def)
  then show "window_ok b p (circular_pointer_move b q n)" using assms(1) by (auto simp: window_ok_def circular_inv_def)
qed

lemma diff_mod:
  assumes "window_ok b p q"
  shows "(cp_offset p + circular_pointer_diff b p q) mod cb_buffer_size b = cp_offset q"
  using assms by (auto simp: window_ok_def circular_inv_def circular_pointer_diff_def)

lemma diff_unique:
  assumes "window_ok b p q" and "d < cb_buffer_size b" and "cp_offset q = (cp_offset p + d) mod cb_buffer_size b"
  shows "circular_pointer_diff b p q = d"
proof -
  have "cp_offset p < cb_buffer_size b" using assms(1) by (auto simp: window_ok_def circular_inv_def)
  then show ?thesis using assms(2,3)
    by (cases "cp_offset p + d < cb_buffer_size b") (auto simp: circular_pointer_diff_def mod_if)
qed

lemma diff_move:
  assumes ok: "window_ok b p q" and n: "circular_pointer_diff b p q + n < cb_buffer_size b"
  shows "circular_pointer_diff b p (circular_pointer_move b q n) = circular_pointer_diff b p q + n"
proof (rule diff_unique)
  have le: "n \<le> cb_buffer_size b" using n by simp
  show "window_ok b p (circular_pointer_move b q n)" by (rule move_offset(2) [OF ok le])
  show "circular_pointer_diff b p q + n < cb_buffer_size b" by (rule n)
  show "cp_offset (circular_pointer_move b q n) = (cp_offset p + (circular_pointer_diff b p q + n)) mod cb_buffer_size b"
    unfolding move_offset(1) [OF ok le] using diff_mod [OF ok] by (metis add.assoc mod_add_left_eq)
qed

text \<open>Filling the window completely makes it empty.\<close>

lemma diff_full:
  assumes ok: "window_ok b p q" and n: "n = cb_buffer_size b - circular_pointer_diff b p q"
  shows "circular_pointer_diff b p (circular_pointer_move b q n) = 0"
proof (rule diff_unique)
  have le: "n \<le> cb_buffer_size b" and s: "circular_pointer_diff b p q + n = cb_buffer_size b" using n diff_less [OF ok] by simp_all
  show "window_ok b p (circular_pointer_move b q n)" by (rule move_offset(2) [OF ok le])
  show "0 < cb_buffer_size b" using diff_less [OF ok] by simp
  have "(cp_offset q + n) mod cb_buffer_size b = (cp_offset p + (circular_pointer_diff b p q + n)) mod cb_buffer_size b"
    using diff_mod [OF ok] by (metis add.assoc mod_add_left_eq)
  then show "cp_offset (circular_pointer_move b q n) = (cp_offset p + 0) mod cb_buffer_size b"
    unfolding move_offset(1) [OF ok le] s by simp
qed

lemma cell_wrap: "circular_cell b p (i + cb_buffer_size b) = circular_cell b p i"
proof -
  have "(cp_offset p + (i + cb_buffer_size b)) mod cb_buffer_size b = (cp_offset p + i) mod cb_buffer_size b"
    by (metis add.assoc mod_add_self2)
  then show ?thesis unfolding circular_cell_def by (simp only:)
qed

lemma cell_shift:
  assumes "window_ok b p q"
  shows "circular_cell b q i = circular_cell b p (circular_pointer_diff b p q + i)"
proof -
  have "(cp_offset q + i) mod cb_buffer_size b = (cp_offset p + (circular_pointer_diff b p q + i)) mod cb_buffer_size b"
    using diff_mod [OF assms] by (metis add.assoc mod_add_left_eq)
  then show ?thesis unfolding circular_cell_def by (simp only:)
qed

text \<open>Writing at the end of a window, with the cells seen from its start.\<close>

lemma write_window:
  assumes ok: "window_ok b p q" and n: "n \<le> length bs" and bs: "circular_pointer_diff b p q + n \<le> cb_buffer_size b"
  shows "\<exists>b'. circular_buffer_write b q bs n = Some b' \<and> cb_buffer_size b' = cb_buffer_size b \<and> window_ok b' p q \<and>
    (\<forall>i < circular_pointer_diff b p q + n. circular_cell b' p i =
       (if i < circular_pointer_diff b p q then circular_cell b p i else bs ! (i - circular_pointer_diff b p q)))"
proof -
  let ?d = "circular_pointer_diff b p q" and ?z = "cb_buffer_size b"
  have inv: "circular_inv b p" "circular_inv b q" "?z \<le> 2147483648" using ok by (simp_all add: window_ok_def)
  have "n \<le> ?z" using bs by simp
  then obtain b' where b': "circular_buffer_write b q bs n = Some b'" "circular_inv b' q" "cb_buffer_size b' = ?z"
    "\<And>i. i < ?z \<Longrightarrow> circular_cell b' q i = (if i < n then bs ! i else circular_cell b q i)"
    using circular_buffer_write_eq [OF inv(2) n] by blast
  then have ok': "window_ok b' p q" using inv by (auto simp: window_ok_def circular_inv_def)
  have d': "circular_pointer_diff b' p q = ?d" using b'(3) by (simp add: circular_pointer_diff_def)
  have "circular_cell b' p i = (if i < ?d then circular_cell b p i else bs ! (i - ?d))" if i: "i < ?d + n" for i
  proof (cases "i < ?d")
    case True
    let ?j = "i + ?z - ?d"
    have j: "?j < ?z" "\<not> ?j < n" "?d + ?j = i + ?z" using True bs diff_less [OF ok] by auto
    have "circular_cell b' p i = circular_cell b' q ?j" using cell_shift [OF ok', of ?j] cell_wrap [of b' p i] d' b'(3) j(3) by simp
    also have "\<dots> = circular_cell b q ?j" using b'(4) [OF j(1)] j(2) by simp
    also have "\<dots> = circular_cell b p i" using cell_shift [OF ok, of ?j] cell_wrap [of b p i] j(3) by simp
    finally show ?thesis using True by simp
  next
    case False
    have "circular_cell b' p i = circular_cell b' q (i - ?d)" using cell_shift [OF ok', of "i - ?d"] d' False by simp
    also have "\<dots> = bs ! (i - ?d)" using b'(4) [of "i - ?d"] i False bs by auto
    finally show ?thesis using False by simp
  qed
  then show ?thesis using b'(1,3) ok' by blast
qed

lemma span_append:
  assumes ok: "window_ok b p q" and n: "n \<le> length bs" and bs: "circular_pointer_diff b p q + n < cb_buffer_size b"
  shows "\<exists>b'. circular_buffer_write b q bs n = Some b' \<and> cb_buffer_size b' = cb_buffer_size b \<and>
    window_ok b' p (circular_pointer_move b' q n) \<and> span b' p (circular_pointer_move b' q n) = span b p q @ take n bs"
proof -
  let ?d = "circular_pointer_diff b p q"
  obtain b' where b': "circular_buffer_write b q bs n = Some b'" "cb_buffer_size b' = cb_buffer_size b" "window_ok b' p q"
    "\<And>i. i < ?d + n \<Longrightarrow> circular_cell b' p i = (if i < ?d then circular_cell b p i else bs ! (i - ?d))"
    using write_window [OF ok n] bs by (metis less_imp_le_nat)
  have d': "circular_pointer_diff b' p q = ?d" using b'(2) by (simp add: circular_pointer_diff_def)
  have "circular_pointer_diff b' p (circular_pointer_move b' q n) = ?d + n"
    using diff_move [OF b'(3)] bs d' b'(2) by simp
  then have "span b' p (circular_pointer_move b' q n) = span b p q @ take n bs"
    by (intro nth_equalityI) (auto simp: span_def nth_append b'(4) n min_absorb2)
  moreover have "window_ok b' p (circular_pointer_move b' q n)"
    by (rule move_offset(2) [OF b'(3)]) (use bs b'(2) in simp)
  ultimately show ?thesis using b'(1,2) by blast
qed

text \<open>Taking bytes from the start of a window.\<close>

lemma diff_take:
  assumes ok: "window_ok b p q" and n: "n \<le> circular_pointer_diff b p q"
  shows "window_ok b (circular_pointer_move b p n) q" and "span b (circular_pointer_move b p n) q = drop n (span b p q)"
proof -
  let ?p = "circular_pointer_move b p n"
  have le: "n \<le> cb_buffer_size b" using n diff_less [OF ok] by simp
  have self: "window_ok b p p" using ok by (simp add: window_ok_def)
  have off: "cp_offset ?p = (cp_offset p + n) mod cb_buffer_size b" by (rule move_offset(1) [OF self le])
  have ok': "window_ok b p ?p" by (rule move_offset(2) [OF self le])
  then show okq: "window_ok b ?p q" using ok by (simp add: window_ok_def)
  have "(cp_offset ?p + (circular_pointer_diff b p q - n)) mod cb_buffer_size b = (cp_offset p + circular_pointer_diff b p q) mod cb_buffer_size b"
    unfolding off mod_add_left_eq using n by simp
  then have d: "circular_pointer_diff b ?p q = circular_pointer_diff b p q - n"
    using diff_mod [OF ok] diff_less [OF ok] by (intro diff_unique [OF okq]) auto
  have "circular_pointer_diff b p ?p = n" by (rule diff_unique [OF ok' _ off]) (use n diff_less [OF ok] in simp)
  then have "circular_cell b ?p i = circular_cell b p (n + i)" for i using cell_shift [OF ok', of i] by simp
  then show "span b ?p q = drop n (span b p q)"
    by (intro nth_equalityI) (auto simp: span_def d)
qed

lemma read_window:
  assumes ok: "window_ok b p q" and n: "n \<le> circular_pointer_diff b p q" "n \<le> length out"
  shows "\<exists>r. circular_buffer_read b p out n = Some r \<and> take n r = take n (span b p q)"
proof -
  have "circular_inv b p" using ok by (simp add: window_ok_def)
  from circular_buffer_read_eq [OF this n(2)] show ?thesis using n(1)
    by (auto simp: span_def take_map min_absorb1)
qed

section \<open>The receive side\<close>

definition rx_ok :: "tcp_socket_t \<Rightarrow> bool" where
  "rx_ok x \<longleftrightarrow> window_ok (ts_rx_buffer x) (ts_rx_user_data x) (ts_rx_free_data x)"

definition rx_bytes :: "tcp_socket_t \<Rightarrow> byte list" where
  "rx_bytes x = span (ts_rx_buffer x) (ts_rx_user_data x) (ts_rx_free_data x)"

lemma length_rx_bytes: "length (rx_bytes x) = rx_data x"
  by (simp add: rx_bytes_def rx_data_def)

lemma rx_room_eq: "rx_ok x \<Longrightarrow> length (rx_bytes x) + rx_room x = cb_buffer_size (ts_rx_buffer x)"
  using diff_less [of "ts_rx_buffer x" "ts_rx_user_data x" "ts_rx_free_data x"]
  by (simp add: rx_ok_def rx_bytes_def rx_room_def rx_data_def circular_buffer_size_def)

lemma tcp_store_data_appends:
  assumes ok: "rx_ok x" and n: "length bs < rx_room x"
  shows "\<exists>x'. tcp_store_data bs x = Some x' \<and> rx_ok x' \<and> rx_bytes x' = rx_bytes x @ bs \<and>
    rx_room x' = rx_room x - length bs"
proof -
  let ?b = "ts_rx_buffer x"
  have w: "window_ok ?b (ts_rx_user_data x) (ts_rx_free_data x)" using ok by (simp add: rx_ok_def)
  have "circular_pointer_diff ?b (ts_rx_user_data x) (ts_rx_free_data x) + length bs < cb_buffer_size ?b"
    using n by (auto simp: rx_room_def rx_data_def circular_buffer_size_def)
  from span_append [OF w order_refl this] obtain b' where b': "circular_buffer_write ?b (ts_rx_free_data x) bs (length bs) = Some b'"
    "cb_buffer_size b' = cb_buffer_size ?b" "window_ok b' (ts_rx_user_data x) (circular_pointer_move b' (ts_rx_free_data x) (length bs))"
    "span b' (ts_rx_user_data x) (circular_pointer_move b' (ts_rx_free_data x) (length bs)) = rx_bytes x @ bs"
    by (auto simp: rx_bytes_def)
  define x' where "x' = x\<lparr> ts_rx_buffer := b', ts_rx_free_data := circular_pointer_move b' (ts_rx_free_data x) (length bs) \<rparr>"
  have s: "tcp_store_data bs x = Some x'" and ok': "rx_ok x'" and bytes: "rx_bytes x' = rx_bytes x @ bs"
    using b' by (simp_all add: tcp_store_data_def x'_def rx_ok_def rx_bytes_def)
  have "rx_room x' = rx_room x - length bs"
    using rx_room_eq [OF ok] rx_room_eq [OF ok'] bytes b'(2) by (simp add: x'_def)
  then show ?thesis using s ok' bytes by blast
qed

lemma tcp_read_loop_takes:
  "rx_ok x \<Longrightarrow> \<exists>bufs x'. tcp_read_loop fill iovs x = Some (bufs, x') \<and> rx_ok x' \<and>
     ts_rx_buffer x' = ts_rx_buffer x \<and>
     concat bufs = take (sum_list iovs) (rx_bytes x) \<and> rx_bytes x' = drop (sum_list iovs) (rx_bytes x)"
proof (induction iovs arbitrary: x)
  case Nil
  then show ?case by simp
next
  case (Cons n iovs)
  show ?case
  proof (cases "rx_data x = 0")
    case True
    then have "rx_bytes x = []" using length_rx_bytes [of x] by simp
    then show ?thesis using True Cons.prems by simp
  next
    case False
    let ?m = "min (rx_data x) n" and ?b = "ts_rx_buffer x"
    let ?x = "x\<lparr> ts_rx_user_data := circular_pointer_move ?b (ts_rx_user_data x) ?m \<rparr>"
    have w: "window_ok ?b (ts_rx_user_data x) (ts_rx_free_data x)" using Cons.prems by (simp add: rx_ok_def)
    have m: "?m \<le> circular_pointer_diff ?b (ts_rx_user_data x) (ts_rx_free_data x)" "?m \<le> length (replicate n fill)"
      by (simp_all add: rx_data_def)
    obtain r where r: "circular_buffer_read ?b (ts_rx_user_data x) (replicate n fill) ?m = Some r" "take ?m r = take ?m (rx_bytes x)"
      using read_window [OF w m] by (auto simp: rx_bytes_def)
    have ok: "rx_ok ?x" and bytes: "rx_bytes ?x = drop ?m (rx_bytes x)"
      using diff_take [OF w m(1)] by (simp_all add: rx_ok_def rx_bytes_def)
    have cut: "take ?m (rx_bytes x) = take n (rx_bytes x)" "drop ?m (rx_bytes x) = drop n (rx_bytes x)"
      using length_rx_bytes [of x] by (simp_all add: min_def)
    from Cons.IH [OF ok] obtain bufs x' where IH: "tcp_read_loop fill iovs ?x = Some (bufs, x')" "rx_ok x'"
      "ts_rx_buffer x' = ts_rx_buffer ?x" "concat bufs = take (sum_list iovs) (rx_bytes ?x)"
      "rx_bytes x' = drop (sum_list iovs) (rx_bytes ?x)" by blast
    have "tcp_read_loop fill (n # iovs) x = Some (take ?m r # bufs, x')" using False r(1) IH(1) by simp
    moreover have "concat (take ?m r # bufs) = take (sum_list (n # iovs)) (rx_bytes x)"
      using r(2) cut IH(4) bytes by (simp add: take_add)
    moreover have "rx_bytes x' = drop (sum_list (n # iovs)) (rx_bytes x)" using IH(5) bytes cut by (simp add: add.commute)
    ultimately show ?thesis using IH(2,3) by simp
  qed
qed

text \<open>What a reader relies on: a store that takes blocks of bytes at its end, as long as they leave room, and hands out bytes
  from its start.\<close>

fun put_all :: "(byte list \<Rightarrow> 'a \<Rightarrow> 'a option) \<Rightarrow> byte list list \<Rightarrow> 'a \<Rightarrow> 'a option" where
  "put_all put [] x = Some x"
| "put_all put (bs # blocks) x = do { x \<leftarrow> put bs x; put_all put blocks x }"

locale byte_stream =
  fixes ok :: "'a \<Rightarrow> bool" and bytes :: "'a \<Rightarrow> byte list" and room :: "'a \<Rightarrow> nat"
    and put :: "byte list \<Rightarrow> 'a \<Rightarrow> 'a option" and get :: "nat list \<Rightarrow> 'a \<Rightarrow> (byte list list \<times> 'a) option"
  assumes put_appends: "ok x \<Longrightarrow> length bs < room x \<Longrightarrow>
      \<exists>x'. put bs x = Some x' \<and> ok x' \<and> bytes x' = bytes x @ bs \<and> room x' = room x - length bs"
    and get_takes: "ok x \<Longrightarrow> \<exists>bufs x'. get iovs x = Some (bufs, x') \<and> ok x' \<and>
      concat bufs = take (sum_list iovs) (bytes x) \<and> bytes x' = drop (sum_list iovs) (bytes x)"
begin

lemma put_all_appends:
  "ok x \<Longrightarrow> length (concat blocks) < room x \<Longrightarrow>
   \<exists>x'. put_all put blocks x = Some x' \<and> ok x' \<and> bytes x' = bytes x @ concat blocks"
proof (induction blocks arbitrary: x)
  case (Cons bs blocks)
  then have "length bs < room x" by simp
  from put_appends [OF Cons.prems(1) this] obtain y where y: "put bs x = Some y" "ok y" "bytes y = bytes x @ bs"
    "room y = room x - length bs" by blast
  have "length (concat blocks) < room y" using Cons.prems(2) y(4) by simp
  from Cons.IH [OF y(2) this] show ?case using y(1,3) by auto
qed simp

lemma in_order:
  assumes "ok x" and "length (concat blocks) < room x"
  shows "\<exists>y bufs z. put_all put blocks x = Some y \<and> get iovs y = Some (bufs, z) \<and> ok z \<and>
    concat bufs @ bytes z = bytes x @ concat blocks \<and>
    length (concat bufs) = min (sum_list iovs) (length (bytes x @ concat blocks))"
proof -
  from put_all_appends [OF assms] obtain y where y: "put_all put blocks x = Some y" "ok y"
    "bytes y = bytes x @ concat blocks" by blast
  from get_takes [OF y(2)] obtain bufs z where z: "get iovs y = Some (bufs, z)" "ok z"
    "concat bufs = take (sum_list iovs) (bytes y)" "bytes z = drop (sum_list iovs) (bytes y)" by blast
  have "concat bufs @ bytes z = bytes y" unfolding z(3,4) by (rule append_take_drop_id)
  moreover have "length (concat bufs) = min (sum_list iovs) (length (bytes y))" unfolding z(3) by (simp add: min.commute)
  ultimately show ?thesis using y(1) z(1,2) unfolding y(3) by blast
qed

end

interpretation rx_stream: byte_stream rx_ok rx_bytes rx_room tcp_store_data "tcp_read_loop fill" for fill
  by unfold_locales (rule tcp_store_data_appends, assumption+, use tcp_read_loop_takes in blast)

text \<open>C15: The receive window is a stream: segments that together leave at least one byte of the window free are stored, and a
  reader with buffers of any sizes gets, in order, the bytes that were there before followed by theirs; what does not fit into its
  buffers stays for the next call.\<close>

theorem tcp_stream_in_order:
  assumes "rx_ok x" and "length (concat segments) < rx_room x"
  shows "\<exists>y bufs z. put_all tcp_store_data segments x = Some y \<and> tcp_read_loop fill iovs y = Some (bufs, z) \<and> rx_ok z \<and>
    concat bufs @ rx_bytes z = rx_bytes x @ concat segments \<and>
    length (concat bufs) = min (sum_list iovs) (length (rx_bytes x @ concat segments))"
  by (rule rx_stream.in_order [OF assms])

text \<open>A fresh socket.\<close>

definition idle_socket :: "nat \<Rightarrow> nat \<Rightarrow> tcp_socket_t" where
  "idle_socket sz off = \<lparr> ts_ref_count = 1,
     ts_endpoint_info = \<lparr> ep_src_address = 0, ep_src_port = 0, ep_dest_address = 0, ep_dest_port = 0 \<rparr>,
     ts_socket = 1, ts_sync = 0, ts_state = TCP_STATE_ESTABLISHED, ts_mss = 1460, ts_nonblocking = False,
     ts_rx_signals = 0, ts_rx_last_received_seq = 0, ts_rx_buffer = \<lparr> cb_buffer = Some (replicate sz 0), cb_buffer_size = sz \<rparr>,
     ts_rx_user_data = \<lparr> cp_offset = off \<rparr>, ts_rx_free_data = \<lparr> cp_offset = off \<rparr>,
     ts_tx_signals = 0, ts_tx_buffer = \<lparr> cb_buffer = Some (replicate sz 0), cb_buffer_size = sz \<rparr>, ts_tx_last_unacked_seq = 0,
     ts_tx_first_unacked = \<lparr> cp_offset = off \<rparr>, ts_tx_last_sent_seq = 0,
     ts_tx_last_sent = \<lparr> cp_offset = off \<rparr>, ts_tx_free_data = \<lparr> cp_offset = off \<rparr>, ts_tx_window_size = 0,
     ts_syn_timer = None, ts_first_read_select = None, ts_first_write_select = None \<rparr>"

lemma idle_socket_ok: "off < sz \<Longrightarrow> sz \<le> 2147483648 \<Longrightarrow> rx_ok (idle_socket sz off) \<and> rx_bytes (idle_socket sz off) = [] \<and>
    rx_room (idle_socket sz off) = sz"
  by (simp add: rx_ok_def rx_bytes_def rx_room_def rx_data_def circular_buffer_size_def window_ok_def circular_inv_def span_def
      circular_pointer_diff_def idle_socket_def)

theorem tcp_stream_in_order_witness:
  "\<exists>y bufs z. put_all tcp_store_data [[1, 2, 3], [4, 5]] (idle_socket 8 6) = Some y \<and> tcp_read_loop 0 [1, 3] y = Some (bufs, z) \<and>
     concat bufs @ rx_bytes z = [1, 2, 3, 4, 5] \<and> length (concat bufs) = 4"
proof -
  have ok: "rx_ok (idle_socket 8 6)" "rx_bytes (idle_socket 8 6) = []" "rx_room (idle_socket 8 6) = 8"
    using idle_socket_ok [of 6 8] by simp_all
  have len: "length (concat [[1, 2, 3], [4, 5 :: byte]]) < rx_room (idle_socket 8 6)" using ok(3) by simp
  have sums: "concat [[1, 2, 3], [4, 5]] = [1, 2, 3, 4, 5 :: byte]" "min (sum_list [1, 3]) (length [1, 2, 3, 4, 5 :: byte]) = 4"
    by simp_all
  from tcp_stream_in_order [OF ok(1) len, of 0 "[1, 3]"] show ?thesis unfolding ok(2) append_Nil sums by blast
qed

text \<open>A segment that fills the receive window to its last byte is lost: the window looks empty afterwards, a reader waits
  although the sender has had its bytes acknowledged.\<close>

theorem tcp_full_window_lost:
  assumes ok: "rx_ok x" and n: "length bs = rx_room x"
  shows "\<exists>x'. tcp_store_data bs x = Some x' \<and> rx_ok x' \<and> rx_data x' = 0 \<and>
    (\<forall>s k. st_sockets s h = Some k \<and> so_data k = Some a \<and> st_tcp s a = Some x' \<and> \<not> ts_nonblocking x' \<longrightarrow>
      tcp_recvmsg_resume fill h iovs s = Some (Waits, s))"
proof -
  let ?b = "ts_rx_buffer x"
  have w: "window_ok ?b (ts_rx_user_data x) (ts_rx_free_data x)" using ok by (simp add: rx_ok_def)
  have len: "length bs = cb_buffer_size ?b - circular_pointer_diff ?b (ts_rx_user_data x) (ts_rx_free_data x)"
    using n by (simp add: rx_room_def rx_data_def circular_buffer_size_def)
  then have "circular_pointer_diff ?b (ts_rx_user_data x) (ts_rx_free_data x) + length bs \<le> cb_buffer_size ?b"
    using diff_less [OF w] by simp
  from write_window [OF w order_refl this] obtain b' where b': "circular_buffer_write ?b (ts_rx_free_data x) bs (length bs) = Some b'"
    "cb_buffer_size b' = cb_buffer_size ?b" "window_ok b' (ts_rx_user_data x) (ts_rx_free_data x)" by blast
  have len': "length bs = cb_buffer_size b' - circular_pointer_diff b' (ts_rx_user_data x) (ts_rx_free_data x)"
    using len unfolding circular_pointer_diff_def b'(2) .
  define x' where "x' = x\<lparr> ts_rx_buffer := b', ts_rx_free_data := circular_pointer_move b' (ts_rx_free_data x) (length bs) \<rparr>"
  have "tcp_store_data bs x = Some x'" using b'(1) by (simp add: tcp_store_data_def x'_def)
  moreover have "rx_ok x'" using move_offset(2) [OF b'(3)] b'(2) len by (simp add: rx_ok_def x'_def)
  moreover have z: "rx_data x' = 0"
    unfolding rx_data_def x'_def using diff_full [OF b'(3) len'] by simp
  moreover have "tcp_recvmsg_resume fill h iovs s = Some (Waits, s)"
    if "st_sockets s h = Some k" "so_data k = Some a" "st_tcp s a = Some x'" "\<not> ts_nonblocking x'" for s k
    using that z by (simp add: tcp_recvmsg_resume_def)
  ultimately show ?thesis by blast
qed

theorem tcp_full_window_lost_witness:
  "\<exists>x'. tcp_store_data [1, 2, 3, 4] (idle_socket 4 1) = Some x' \<and> rx_data x' = 0"
proof -
  have ok: "rx_ok (idle_socket 4 1)" "length [1, 2, 3, 4 :: byte] = rx_room (idle_socket 4 1)"
    using idle_socket_ok [of 1 4] by simp_all
  show ?thesis using tcp_full_window_lost [OF ok] by blast
qed

section \<open>Acknowledgements\<close>

text \<open>The number of bytes that an acknowledgement releases is counted from the number of the one before plus one: the same number
  again looks like all of \<open>2^32 - 1\<close> bytes, more than can be outstanding.\<close>

lemma upd_tcp_eq [simp]: "st_tcp s a = Some x \<Longrightarrow> upd_tcp a f s = Some (s\<lparr> st_tcp := (st_tcp s)(a \<mapsto> f x) \<rparr>)"
  by (simp add: upd_tcp_def)

definition acked_socket :: "u32 \<Rightarrow> u16 \<Rightarrow> tcp_socket_t \<Rightarrow> tcp_socket_t" where
  "acked_socket ack window x = (let acked = unat (ack - ts_tx_last_unacked_seq x) in
     x\<lparr> ts_tx_last_unacked_seq := ack + 1,
       ts_tx_first_unacked := (if 0 < acked then circular_pointer_move (ts_tx_buffer x) (ts_tx_first_unacked x) acked
         else ts_tx_first_unacked x),
       ts_tx_signals := (if 0 < acked \<and> tx_room x = 0 then ts_tx_signals x + 1 else ts_tx_signals x),
       ts_tx_window_size := window \<rparr>)"

lemma tcp_handle_ack_eq:
  assumes x: "st_tcp s a = Some x" and le: "unat (ack - ts_tx_last_unacked_seq x) \<le> tx_unacked x"
  shows "tcp_handle_ack a ack window s = Some (
    (s\<lparr> st_timer_wakeups := st_timer_wakeups s + (if ts_tx_window_size x = 0 \<and> 0 < window then 1 else 0) \<rparr>)
      \<lparr> st_tcp := (st_tcp s)(a \<mapsto> acked_socket ack window x) \<rparr>)"
proof -
  have nl: "\<not> tx_unacked x < unat (ack - ts_tx_last_unacked_seq x)" using le by simp
  show ?thesis
    by (cases "0 < unat (ack - ts_tx_last_unacked_seq x)"; cases "tx_room x = 0"; cases "ts_tx_window_size x = 0 \<and> 0 < window")
       (simp_all only: tcp_handle_ack_def acked_socket_def Let_def x nl bind.bind_lunit if_True if_False upd_tcp_def option.case
          simp_thms fun_upd_same fun_upd_upd, simp_all)
qed

definition tx_ok :: "tcp_socket_t \<Rightarrow> bool" where
  "tx_ok x \<longleftrightarrow> window_ok (ts_tx_buffer x) (ts_tx_first_unacked x) (ts_tx_last_sent x)"

lemma acked_socket_ok:
  assumes ok: "tx_ok x" and le: "unat (ack - ts_tx_last_unacked_seq x) \<le> tx_unacked x"
  shows "tx_ok (acked_socket ack window x)" and "ts_tx_last_unacked_seq (acked_socket ack window x) = ack + 1"
    and "tx_unacked (acked_socket ack window x) = tx_unacked x - unat (ack - ts_tx_last_unacked_seq x)"
proof -
  let ?n = "unat (ack - ts_tx_last_unacked_seq x)"
  have w: "window_ok (ts_tx_buffer x) (ts_tx_first_unacked x) (ts_tx_last_sent x)" using ok by (simp add: tx_ok_def)
  have le': "?n \<le> circular_pointer_diff (ts_tx_buffer x) (ts_tx_first_unacked x) (ts_tx_last_sent x)" using le by (simp add: tx_unacked_def)
  note taken = diff_take [OF w le']
  have "length (span (ts_tx_buffer x) (circular_pointer_move (ts_tx_buffer x) (ts_tx_first_unacked x) ?n) (ts_tx_last_sent x)) =
      tx_unacked x - ?n" unfolding taken(2) by (simp add: tx_unacked_def)
  then show "tx_ok (acked_socket ack window x)" and "tx_unacked (acked_socket ack window x) = tx_unacked x - ?n"
    using taken(1) ok by (simp_all add: tx_ok_def tx_unacked_def acked_socket_def Let_def)
  show "ts_tx_last_unacked_seq (acked_socket ack window x) = ack + 1" by (simp add: acked_socket_def Let_def)
qed

lemma tx_unacked_less: "tx_ok x \<Longrightarrow> tx_unacked x < 2147483648"
  using diff_less by (fastforce simp: tx_ok_def tx_unacked_def window_ok_def)

lemma acked_again: "unat (ack - (ack + 1) :: u32) = 4294967295"
proof -
  have "ack - (ack + 1) = (4294967295 :: u32)" by simp
  then show ?thesis by (simp only:) simp
qed

lemma acked_next:
  assumes "0 < n" "n < 4294967296"
  shows "unat (ack + word_of_nat n - (ack + 1) :: u32) = n - 1"
proof -
  have "ack + word_of_nat n - (ack + 1) = (word_of_nat (n - 1) :: u32)" using assms(1) by (simp add: of_nat_diff)
  then show ?thesis using assms(2) by (simp add: unat_of_nat)
qed

text \<open>After an acknowledgement has been taken, a second segment with the same number is ignored, so that a peer that has
  closed its window cannot open it again by a window update, and an acknowledgement of \<open>n\<close> further bytes releases only
  \<open>n - 1\<close> of them.\<close>

theorem tcp_window_update_lost:
  assumes x: "st_tcp s a = Some x" and ok: "tx_ok x" and le: "unat (ack - ts_tx_last_unacked_seq x) \<le> tx_unacked x"
  shows "\<exists>s' x'. tcp_handle_ack a ack window s = Some s' \<and> st_tcp s' a = Some x' \<and>
    ts_tx_window_size x' = window \<and> (\<forall>window2. tcp_handle_ack a ack window2 s' = Some s') \<and>
    (\<forall>n window2. 0 < n \<and> n \<le> tx_unacked x' \<longrightarrow> (\<exists>s'' x''. tcp_handle_ack a (ack + word_of_nat n) window2 s' = Some s'' \<and>
       st_tcp s'' a = Some x'' \<and> tx_unacked x'' = tx_unacked x' - (n - 1)))"
proof -
  define x' where "x' = acked_socket ack window x"
  obtain s' where s': "tcp_handle_ack a ack window s = Some s'" "st_tcp s' a = Some x'"
    using tcp_handle_ack_eq [OF x le] by (auto simp: x'_def)
  have x': "tx_ok x'" "ts_tx_last_unacked_seq x' = ack + 1" using acked_socket_ok [OF ok le] by (simp_all add: x'_def)
  have bound: "tx_unacked x' < 2147483648" by (rule tx_unacked_less [OF x'(1)])
  have again: "tcp_handle_ack a ack window2 s' = Some s'" for window2
    using s'(2) x'(2) bound acked_again by (simp add: tcp_handle_ack_def)
  have "\<exists>s'' x''. tcp_handle_ack a (ack + word_of_nat n) window2 s' = Some s'' \<and> st_tcp s'' a = Some x'' \<and>
      tx_unacked x'' = tx_unacked x' - (n - 1)" if n: "0 < n \<and> n \<le> tx_unacked x'" for n window2
  proof -
    have u: "unat (ack + word_of_nat n - ts_tx_last_unacked_seq x') = n - 1" unfolding x'(2) using acked_next [of n ack] n bound by simp
    then have le': "unat (ack + word_of_nat n - ts_tx_last_unacked_seq x') \<le> tx_unacked x'" using n by linarith
    show ?thesis using tcp_handle_ack_eq [OF s'(2) le'] acked_socket_ok(3) [OF x'(1) le'] u by auto
  qed
  moreover have "ts_tx_window_size x' = window" by (simp add: x'_def acked_socket_def Let_def)
  ultimately show ?thesis using s' again by blast
qed

text \<open>A stack with one socket, at address 5.\<close>

definition idle_stack :: "tcp_socket_t \<Rightarrow> net_stack" where
  "idle_stack x = empty_stack\<lparr> st_tcp := [5 \<mapsto> x], tcp_endpoint_table := [5] \<rparr>"

definition sent_socket :: tcp_socket_t where
  "sent_socket = (idle_socket 8 2)\<lparr> ts_tx_last_unacked_seq := 100, ts_tx_last_sent := \<lparr> cp_offset = 7 \<rparr> \<rparr>"

theorem tcp_window_update_lost_witness:
  "\<exists>s' x'. tcp_handle_ack 5 102 0 (idle_stack sent_socket) = Some s' \<and> st_tcp s' 5 = Some x' \<and> ts_tx_window_size x' = 0 \<and>
     tcp_handle_ack 5 102 4096 s' = Some s'"
proof -
  have x: "st_tcp (idle_stack sent_socket) 5 = Some sent_socket" by (simp add: idle_stack_def)
  have ok: "tx_ok sent_socket"
    by (simp add: tx_ok_def sent_socket_def idle_socket_def window_ok_def circular_inv_def)
  have le: "unat (102 - ts_tx_last_unacked_seq sent_socket) \<le> tx_unacked sent_socket"
    by (simp add: tx_unacked_def sent_socket_def idle_socket_def circular_pointer_diff_def)
  from tcp_window_update_lost [OF x ok le, of 0] show ?thesis by blast
qed

section \<open>Options of a SYN segment\<close>

text \<open>An option of length 0 is never left.\<close>

lemma tcp_option_loop_stuck:
  assumes "byte_at mem (data + 1) = Some 0" and "0 < option_size"
  shows "tcp_option_loop mem data option_size = None"
proof (rule ccontr)
  assume "tcp_option_loop mem data option_size \<noteq> None"
  then obtain u where u: "tcp_option_loop mem data option_size = Some u" by blast
  have "byte_at mem (data + 1) = Some 0 \<longrightarrow> \<not> 0 < option_size"
    by (rule tcp_option_loop.raw_induct [where P = "\<lambda>m d z v. byte_at m (d + 1) = Some 0 \<longrightarrow> \<not> 0 < z", OF _ u])
       (fastforce split: if_splits bind_splits)
  then show False using assms by blast
qed

text \<open>A SYN segment with an option of length 0 as its first option stops the network: the loop over the options does not
  end, the call that handles the segment never returns.\<close>

theorem tcp_syn_option_hangs:
  assumes p: "st_packets s packet = Some p" "pk_transport_data p = Some t" and x: "st_tcp s a = Some x"
    and flags: "byte_at (pk_data p) (t + 13) = Some flags" "flags AND (TCP_SYN OR TCP_ACK) = TCP_SYN OR TCP_ACK"
    and off: "byte_at (pk_data p) (t + 12) = Some off" "5 < drop_bit 4 off"
    and opt: "byte_at (pk_data p) (t + 21) = Some 0"
  shows "tcp_handle_syn_sent E a packet s = None"
proof -
  have "5 < uint (drop_bit 4 off)" using off(2) by (simp add: word_less_def)
  then have "0 < uint (drop_bit 4 off) * 4 - 20" by simp
  moreover have "byte_at (pk_data p) (t + 20 + 1) = Some 0" using opt by (simp add: add.assoc)
  ultimately have "tcp_option_loop (pk_data p) (t + 20) (uint (drop_bit 4 off) * 4 - 20) = None"
    by (intro tcp_option_loop_stuck)
  then show ?thesis using p x flags off(1) by (simp add: tcp_handle_syn_sent_def)
qed

theorem tcp_syn_option_hangs_witness:
  "\<forall>E. tcp_handle_syn_sent E 5 9 ((idle_stack (idle_socket 8 0))\<lparr> st_packets := [9 \<mapsto> \<lparr> pk_next = None,
     pk_data = replicate 12 0 @ [0x60, 0x12] @ replicate 10 0, pk_network_data = None, pk_transport_data = Some 0, pk_size = 24 \<rparr>] \<rparr>)
   = None"
proof -
  have x: "st_tcp (idle_stack y\<lparr> st_packets := m \<rparr>) 5 = Some y" for y m by (simp add: idle_stack_def)
  show ?thesis
    by (intro allI tcp_syn_option_hangs [OF _ _ x, where p = "\<lparr> pk_next = None, pk_data = replicate 12 0 @ [0x60, 0x12] @ replicate 10 0,
          pk_network_data = None, pk_transport_data = Some 0, pk_size = 24 \<rparr>" and t = 0 and flags = "0x12" and off = "0x60"])
       (simp_all add: byte_at_def read_cell_def nth_append TCP_SYN_def TCP_ACK_def)
qed

section \<open>The send side\<close>

definition tx_win :: "tcp_socket_t \<Rightarrow> bool" where
  "tx_win x \<longleftrightarrow> window_ok (ts_tx_buffer x) (ts_tx_first_unacked x) (ts_tx_free_data x)"

definition tx_bytes :: "tcp_socket_t \<Rightarrow> byte list" where
  "tx_bytes x = span (ts_tx_buffer x) (ts_tx_first_unacked x) (ts_tx_free_data x)"

lemma tx_room_eq: "tx_win x \<Longrightarrow> length (tx_bytes x) + tx_room x = cb_buffer_size (ts_tx_buffer x) \<and> 0 < tx_room x"
  using diff_less [of "ts_tx_buffer x" "ts_tx_first_unacked x" "ts_tx_free_data x"]
  by (simp add: tx_win_def tx_bytes_def tx_room_def circular_buffer_size_def)

text \<open>One round of the loop.\<close>

definition written :: "circular_buffer_t \<Rightarrow> nat \<Rightarrow> tcp_socket_t \<Rightarrow> tcp_socket_t" where
  "written b n x = x\<lparr> ts_tx_buffer := b, ts_tx_free_data := circular_pointer_move b (ts_tx_free_data x) n \<rparr>"

lemma tcp_write_step:
  assumes ok: "tx_win x" and ne: "data \<noteq> []"
  obtains b where "tcp_write_loop data k x =
      tcp_write_loop (drop (min (length data) (tx_room x)) data) (k + 1) (written b (min (length data) (tx_room x)) x)"
    and "tx_win (written b (min (length data) (tx_room x)) x)"
    and "cb_buffer_size b = cb_buffer_size (ts_tx_buffer x)"
    and "length data < tx_room x \<Longrightarrow> tx_bytes (written b (length data) x) = tx_bytes x @ data"
proof -
  let ?n = "min (length data) (tx_room x)" and ?b = "ts_tx_buffer x" and ?p = "ts_tx_first_unacked x" and ?q = "ts_tx_free_data x"
  have w: "window_ok ?b ?p ?q" using ok by (simp add: tx_win_def)
  have le: "circular_pointer_diff ?b ?p ?q + ?n \<le> cb_buffer_size ?b" "?n \<le> cb_buffer_size ?b"
    using tx_room_eq [OF ok] by (auto simp: tx_bytes_def min_def)
  obtain b where b: "circular_buffer_write ?b ?q data ?n = Some b" "cb_buffer_size b = cb_buffer_size ?b" "window_ok b ?p ?q"
    using write_window [OF w _ le(1), of data] by auto
  have "tcp_write_loop data k x = tcp_write_loop (drop ?n data) (k + 1) (written b ?n x)"
    using ne tx_room_eq [OF ok] b(1) by (subst tcp_write_loop.simps) (simp add: written_def Let_def)
  moreover have "tx_win (written b ?n x)" using move_offset(2) [OF b(3)] le(2) b(2) by (simp add: tx_win_def written_def)
  moreover have "tx_bytes (written b (length data) x) = tx_bytes x @ data" if lt: "length data < tx_room x"
  proof -
    have "circular_pointer_diff ?b ?p ?q + length data < cb_buffer_size ?b" using lt tx_room_eq [OF ok] by (simp add: tx_bytes_def)
    from span_append [OF w order_refl this] show ?thesis using b(1) lt by (auto simp: tx_bytes_def written_def)
  qed
  ultimately show thesis using that b(2) by blast
qed

lemma tcp_write_loop_returns:
  assumes "tx_win x"
  shows "\<exists>k' x'. tcp_write_loop data k x = Some ([], k', x') \<and> tx_win x'"
  using assms
proof (induction "length data" arbitrary: data k x rule: less_induct)
  case less
  show ?case
  proof (cases "data = []")
    case True
    then show ?thesis using less.prems by (subst tcp_write_loop.simps) simp
  next
    case False
    from tcp_write_step [OF less.prems False, of k] obtain b where b: "tcp_write_loop data k x =
      tcp_write_loop (drop (min (length data) (tx_room x)) data) (k + 1) (written b (min (length data) (tx_room x)) x)"
      "tx_win (written b (min (length data) (tx_room x)) x)" by blast
    have "length (drop (min (length data) (tx_room x)) data) < length data" using False tx_room_eq [OF less.prems] by auto
    from less.hyps [OF this b(2)] show ?thesis unfolding b(1) by blast
  qed
qed



text \<open>Data as long as the room makes the send window look empty: nothing of it is unacknowledged or unsent.\<close>

lemma tcp_write_full_lost:
  assumes ok: "tx_win x" and ne: "data \<noteq> []" and n: "length data = tx_room x"
  shows "\<exists>k' x'. tcp_write_loop data k x = Some ([], k', x') \<and> tx_bytes x' = []"
proof -
  let ?b = "ts_tx_buffer x" and ?p = "ts_tx_first_unacked x" and ?q = "ts_tx_free_data x"
  have w: "window_ok ?b ?p ?q" using ok by (simp add: tx_win_def)
  obtain b where b: "circular_buffer_write ?b ?q data (length data) = Some b" "cb_buffer_size b = cb_buffer_size ?b" "window_ok b ?p ?q"
    using write_window [OF w order_refl, of data] tx_room_eq [OF ok] n by (auto simp: tx_bytes_def)
  have len: "length data = cb_buffer_size b - circular_pointer_diff b ?p ?q"
    using n unfolding tx_room_def circular_buffer_size_def circular_pointer_diff_def b(2) .
  have "tcp_write_loop data k x = Some ([], k + 1, written b (length data) x)"
    using ne tx_room_eq [OF ok] b(1) n
    by (subst tcp_write_loop.simps) (simp add: written_def Let_def tcp_write_loop.simps [of "[]"])
  moreover have "tx_bytes (written b (length data) x) = []"
    unfolding tx_bytes_def written_def span_def using diff_full [OF b(3) len] by simp
  ultimately show ?thesis by blast
qed

end
