(* ===== verification/Kernel_Udp_Safety.thy ===== *)
theory Kernel_Udp_Safety
  imports Kernel_Ip_Safety
begin

text \<open>
  Ports of UDP sockets: a port that the kernel chooses is free and stays marked, so that two sockets never get the same one; a
  port that the caller chooses is not marked, and two sockets can be bound to it.
\<close>

section \<open>Binding\<close>

definition unbound :: "net_stack \<Rightarrow> addr \<Rightarrow> addr \<Rightarrow> bool" where
  "unbound s h u \<longleftrightarrow> (\<exists>k x. st_sockets s h = Some k \<and> so_data k = Some u \<and> st_udp s u = Some x \<and> us_port x = None)"

definition ports_ok :: "net_stack \<Rightarrow> bool" where
  "ports_ok s \<longleftrightarrow> bitmap_inv (udp_port_table s) \<and> max_bit_count (udp_port_table s) = 65536"

definition port_used :: "net_stack \<Rightarrow> int \<Rightarrow> bool" where
  "port_used s port \<longleftrightarrow> bitmap_bit (udp_port_table s) port"

definition bound_to :: "net_stack \<Rightarrow> addr \<Rightarrow> int \<Rightarrow> bool" where
  "bound_to s u port \<longleftrightarrow> (\<exists>x. st_udp s u = Some x \<and> us_port x = Some port)"

lemma upd_udp_eq: "st_udp s u = Some x \<Longrightarrow> upd_udp u f s = Some (s\<lparr> st_udp := (st_udp s)(u \<mapsto> f x) \<rparr>)"
  by (simp add: upd_udp_def)

lemma udp_get_endpoint_head:
  assumes "udp_endpoint_table s = (port, u) # t" and "st_udp s u = Some x"
  shows "\<exists>s'. udp_get_endpoint port s = Some (Some u, s')"
  using assms by (simp add: udp_get_endpoint_def upd_udp_eq)

text \<open>A bind that has found a port.\<close>

lemma udp_bind_chosen:
  assumes un: "unbound s h u" and p: "ntohw port = 0" and ok: "ports_ok s"
    and free: "\<exists>j. 1024 \<le> j \<and> j \<le> 65535 \<and> \<not> port_used s j" and E: "\<And>t. se_object E t"
  shows "\<exists>s' j. udp_bind E h port s = Some (Inr (), s') \<and> 1024 \<le> j \<and> j \<le> 65535 \<and> \<not> port_used s j \<and> bound_to s' u j \<and>
    ports_ok s' \<and> (\<forall>i. port_used s' i = (i = j \<or> port_used s i)) \<and>
    udp_endpoint_table s' = (j, u) # udp_endpoint_table s \<and> st_sockets s' = st_sockets s \<and>
    (\<forall>v. v \<noteq> u \<longrightarrow> st_udp s' v = st_udp s v)"
proof -
  obtain k x where k: "st_sockets s h = Some k" "so_data k = Some u" "st_udp s u = Some x" "us_port x = None"
    using un by (auto simp: unbound_def)
  have inv: "bitmap_inv (udp_port_table s)" "max_bit_count (udp_port_table s) = 65536" using ok by (simp_all add: ports_ok_def)
  obtain j where j: "bitmap_first_not_set_in_range (udp_port_table s) 1024 65535 = Some j" "1024 \<le> j" "j \<le> 65535" "\<not> port_used s j"
    using bitmap_first_not_set_in_range_spec [OF inv(1), of 1024 65535] inv(2) free by (auto simp: port_used_def)
  obtain t where t: "bitmap_set (udp_port_table s) j = Some (Inr (), t)" "bitmap_inv t" "max_bit_count t = 65536"
    "\<And>i. bitmap_bit t i = (i = j \<or> bitmap_bit (udp_port_table s) i)"
    using bitmap_set_spec [OF inv(1), of j] inv(2) j(2,3) by auto
  let ?s = "s\<lparr> udp_port_table := t, st_udp := (st_udp s)(u \<mapsto> x\<lparr> us_port := Some j \<rparr>),
    udp_endpoint_table := (j, u) # udp_endpoint_table s \<rparr>"
  have "udp_bind E h port s = Some (Inr (), ?s)"
    using k p j(1,2) t(1) E by (simp add: udp_bind_def upd_udp_eq)
  moreover have "bound_to ?s u j" "ports_ok ?s" "\<forall>i. port_used ?s i = (i = j \<or> port_used s i)"
    using t by (simp_all add: bound_to_def ports_ok_def port_used_def)
  ultimately show ?thesis using j(2-4) by (intro exI [of _ ?s] exI [of _ j]) simp
qed

text \<open>Two sockets that let the kernel choose their ports get different ones, which were free before and are marked
  afterwards, as long as two ports are free; a datagram for the port of the second socket finds that socket.\<close>

theorem udp_bind_distinct_ports:
  assumes un: "unbound s h1 u1" "unbound s h2 u2" "u1 \<noteq> u2" and ok: "ports_ok s"
    and free: "1024 \<le> a \<and> a < b \<and> b \<le> 65535 \<and> \<not> port_used s a \<and> \<not> port_used s b" and E: "\<And>t. se_object E t"
  shows "\<exists>s1 s2 j1 j2. udp_bind E h1 0 s = Some (Inr (), s1) \<and> udp_bind E h2 0 s1 = Some (Inr (), s2) \<and>
    bound_to s2 u1 j1 \<and> bound_to s2 u2 j2 \<and> j1 \<noteq> j2 \<and> \<not> port_used s j1 \<and> \<not> port_used s j2 \<and>
    port_used s2 j1 \<and> port_used s2 j2 \<and> ports_ok s2 \<and> (\<exists>s3. udp_get_endpoint j2 s2 = Some (Some u2, s3))"
proof -
  have z: "ntohw 0 = 0" by (simp add: ntohw_def)
  have "\<exists>j. 1024 \<le> j \<and> j \<le> 65535 \<and> \<not> port_used s j" using free by force
  from udp_bind_chosen [OF un(1) z ok this E] obtain s1 j1 where s1: "udp_bind E h1 0 s = Some (Inr (), s1)" "\<not> port_used s j1"
    "bound_to s1 u1 j1" "ports_ok s1" "\<And>i. port_used s1 i = (i = j1 \<or> port_used s i)" "st_sockets s1 = st_sockets s"
    "\<And>v. v \<noteq> u1 \<Longrightarrow> st_udp s1 v = st_udp s v" by blast
  have un2: "unbound s1 h2 u2" using un(2,3) s1(6,7) by (simp add: unbound_def)
  have "\<exists>j. 1024 \<le> j \<and> j \<le> 65535 \<and> \<not> port_used s1 j"
    using free s1(5) by (cases "a = j1") (auto intro: exI [of _ a] exI [of _ b])
  from udp_bind_chosen [OF un2 z s1(4) this E] obtain s2 j2 where s2: "udp_bind E h2 0 s1 = Some (Inr (), s2)" "\<not> port_used s1 j2"
    "bound_to s2 u2 j2" "ports_ok s2" "\<And>i. port_used s2 i = (i = j2 \<or> port_used s1 i)"
    "udp_endpoint_table s2 = (j2, u2) # udp_endpoint_table s1" "\<And>v. v \<noteq> u2 \<Longrightarrow> st_udp s2 v = st_udp s1 v" by blast
  obtain x where "st_udp s2 u2 = Some x" using s2(3) by (auto simp: bound_to_def)
  then have "\<exists>s3. udp_get_endpoint j2 s2 = Some (Some u2, s3)" by (rule udp_get_endpoint_head [OF s2(6)])
  moreover have "bound_to s2 u1 j1" using s1(3) s2(7) un(3) by (simp add: bound_to_def)
  ultimately show ?thesis using s1(1,2,5) s2(1-5) by blast
qed

definition udp_idle :: udp_socket_t where
  "udp_idle = \<lparr> us_ref_count = 1, us_nonblocking = False, us_rx_signals = 0, us_rx_queue = packet_queue_init, us_port = None,
     us_bind_to_device = [], us_first_read_select = None \<rparr>"

definition udp_handle :: "addr \<Rightarrow> socket_t" where
  "udp_handle u = \<lparr> so_type = 2, so_inode_number = 0, so_src_address = 0, so_src_port = 0, so_dest_address = 0, so_dest_port = 0,
     so_error = None, so_data = Some u \<rparr>"

definition udp_stack :: net_stack where
  "udp_stack = empty_stack\<lparr> st_sockets := [1 \<mapsto> udp_handle 11, 2 \<mapsto> udp_handle 12], st_udp := [11 \<mapsto> udp_idle, 12 \<mapsto> udp_idle],
     udp_port_table := \<lparr> bm_table = Some (replicate 2048 0), max_bit_count = 65536 \<rparr> \<rparr>"

lemma udp_stack_facts: "unbound udp_stack 1 11" "unbound udp_stack 2 12" "ports_ok udp_stack" "\<not> port_used udp_stack 2000"
    "\<not> port_used udp_stack 2001" "se_object open_env t"
  by (simp_all add: unbound_def udp_stack_def udp_idle_def udp_handle_def ports_ok_def bitmap_inv_def port_used_def bitmap_bit_def
      open_env_def)

theorem udp_bind_distinct_ports_witness:
  "\<exists>s1 s2 j1 j2. udp_bind open_env 1 0 udp_stack = Some (Inr (), s1) \<and> udp_bind open_env 2 0 s1 = Some (Inr (), s2) \<and>
     bound_to s2 11 j1 \<and> bound_to s2 12 j2 \<and> j1 \<noteq> j2"
proof -
  have free: "1024 \<le> (2000::int) \<and> (2000::int) < 2001 \<and> (2001::int) \<le> 65535 \<and> \<not> port_used udp_stack 2000 \<and> \<not> port_used udp_stack 2001"
    using udp_stack_facts by simp
  have ne: "(11::addr) \<noteq> 12" by simp
  from udp_bind_distinct_ports [OF udp_stack_facts(1,2) ne udp_stack_facts(3) free udp_stack_facts(6)] show ?thesis by blast
qed

text \<open>A port that the caller names is tested but never marked: a second socket can be bound to the same port, and takes
  over the datagrams of the first.\<close>

theorem udp_bind_twice:
  assumes un: "unbound s h1 u1" "unbound s h2 u2" "u1 \<noteq> u2" and ok: "ports_ok s"
    and port: "ntohw port \<noteq> 0" "\<not> port_used s (uint (ntohw port))" and E: "\<And>t. se_object E t"
  shows "\<exists>s1 s2 s3. udp_bind E h1 port s = Some (Inr (), s1) \<and> udp_bind E h2 port s1 = Some (Inr (), s2) \<and>
    bound_to s2 u1 (uint (ntohw port)) \<and> bound_to s2 u2 (uint (ntohw port)) \<and>
    udp_get_endpoint (uint (ntohw port)) s2 = Some (Some u2, s3)"
proof -
  let ?j = "uint (ntohw port)"
  obtain w where w: "bitmap_get (udp_port_table s) ?j = Some w" "w = 0"
    using bitmap_get_iff [of "udp_port_table s" ?j] ok port(2) by (auto simp: ports_ok_def port_used_def)
  have bind: "udp_bind E h port t = Some (Inr (), t\<lparr> st_udp := (st_udp t)(u \<mapsto> x\<lparr> us_port := Some ?j \<rparr>),
      udp_endpoint_table := (?j, u) # udp_endpoint_table t \<rparr>)"
    if "st_sockets t h = Some k" "so_data k = Some u" "st_udp t u = Some x" "us_port x = None" "udp_port_table t = udp_port_table s"
    for t h u k x using that w port(1) E by (simp add: udp_bind_def upd_udp_eq)
  obtain k1 x1 k2 x2 where k: "st_sockets s h1 = Some k1" "so_data k1 = Some u1" "st_udp s u1 = Some x1" "us_port x1 = None"
    "st_sockets s h2 = Some k2" "so_data k2 = Some u2" "st_udp s u2 = Some x2" "us_port x2 = None"
    using un(1,2) by (auto simp: unbound_def)
  let ?s1 = "s\<lparr> st_udp := (st_udp s)(u1 \<mapsto> x1\<lparr> us_port := Some ?j \<rparr>), udp_endpoint_table := (?j, u1) # udp_endpoint_table s \<rparr>"
  let ?s2 = "?s1\<lparr> st_udp := (st_udp ?s1)(u2 \<mapsto> x2\<lparr> us_port := Some ?j \<rparr>), udp_endpoint_table := (?j, u2) # udp_endpoint_table ?s1 \<rparr>"
  have "udp_bind E h1 port s = Some (Inr (), ?s1)" by (rule bind [OF k(1-4)]) simp
  moreover have "udp_bind E h2 port ?s1 = Some (Inr (), ?s2)" by (rule bind [where k = k2]) (use k un(3) in simp_all)
  moreover have "bound_to ?s2 u1 ?j" "bound_to ?s2 u2 ?j" using un(3) by (simp_all add: bound_to_def)
  moreover obtain s3 where "udp_get_endpoint ?j ?s2 = Some (Some u2, s3)"
    using udp_get_endpoint_head [of ?s2 ?j u2 "udp_endpoint_table ?s1" "x2\<lparr> us_port := Some ?j \<rparr>"] by auto
  ultimately show ?thesis by blast
qed

theorem udp_bind_twice_witness:
  "\<exists>s1 s2. udp_bind open_env 1 0x5000 udp_stack = Some (Inr (), s1) \<and> udp_bind open_env 2 0x5000 s1 = Some (Inr (), s2) \<and>
     bound_to s2 11 80 \<and> bound_to s2 12 80"
proof -
  have n: "ntohw 0x5000 = 80" by (simp add: ntohw_def)
  have ne: "(11::addr) \<noteq> 12" and nz: "ntohw 0x5000 \<noteq> 0" and u: "uint (ntohw 0x5000) = 80" unfolding n by simp_all
  have free: "\<not> port_used udp_stack (uint (ntohw 0x5000))"
    unfolding u by (simp add: port_used_def udp_stack_def bitmap_bit_def)
  from udp_bind_twice [OF udp_stack_facts(1,2) ne udp_stack_facts(3) nz free udp_stack_facts(6)] show ?thesis unfolding u by blast
qed

end
