(* ===== verification/Kernel_Process.thy ===== *)
theory Kernel_Process
  imports Kernel_Waitqueue Kernel_Ids
begin

unbundle bit_operations_syntax

text \<open>
  Processes, threads and signals: \<^verbatim>\<open>source/kernel/src/process.c\<close>, \<^verbatim>\<open>thread.c\<close>, \<^verbatim>\<open>signal.c\<close> and the signal frames of
  \<^verbatim>\<open>arch/i386/src/signal.c\<close>. The part of a thread that the scheduler works on is the record of \<open>Kernel_Scheduler\<close>; the rest is
  here, at the same address. The hash tables of threads and processes are maps from ids; the order in which an iteration visits
  a table is a parameter. Memory, stacks and register frames of a new thread are answers of the heap and of the architecture.
\<close>

section \<open>Data\<close>

datatype sighandler = SIG_DFL | SIG_IGN | SIG_HANDLER u32

record sigaction =
  sa_handler :: sighandler
  sa_mask :: u64
  sa_flags :: u32

text \<open>The registers of user code that a signal frame changes. A saved context lies in user memory at some address; words that the
  kernel writes to a user stack are kept apart from the contexts.\<close>

record user_regs =
  ur_eax :: u32
  ur_eip :: u32
  ur_esp :: u32

record task_t =
  th_id :: int
  th_parent_id :: int
  th_name :: "byte list"
  th_exit_code :: int
  th_process :: addr
  pending_signals :: u64
  blocked_signals :: u64
  signal_handlers :: "sigaction list"
  th_regs :: user_regs

record process_t =
  pr_id :: int
  pr_name :: "byte list"
  pr_thread_count :: int
  pr_vmem_size :: u64
  pr_pmem_size :: u64
  pr_tld_table :: "u32 list"

record task_world =
  tw_sched :: sched_t
  tw_tasks :: "addr \<rightharpoonup> task_t"
  tw_processes :: "addr \<rightharpoonup> process_t"
  thread_table :: "int \<rightharpoonup> addr"
  thread_id_counter :: int
  process_table :: "int \<rightharpoonup> addr"
  process_id_counter :: int
  tw_destroyed :: "addr list"
  tw_contexts :: "u32 \<Rightarrow> user_regs"
  tw_stack :: "u32 \<Rightarrow> u32"

text \<open>The id of the init thread and the order of an iteration over a table.\<close>

record task_env =
  init_thread_id :: int
  te_order :: "(int \<rightharpoonup> addr) \<Rightarrow> addr list"

definition upd_task :: "addr \<Rightarrow> (task_t \<Rightarrow> task_t) \<Rightarrow> task_world \<Rightarrow> task_world option" where
  "upd_task a f w = do {
     th \<leftarrow> tw_tasks w a;
     Some (w\<lparr> tw_tasks := (tw_tasks w)(a \<mapsto> f th) \<rparr>) }"

definition upd_process :: "addr \<Rightarrow> (process_t \<Rightarrow> process_t) \<Rightarrow> task_world \<Rightarrow> task_world option" where
  "upd_process a f w = do {
     p \<leftarrow> tw_processes w a;
     Some (w\<lparr> tw_processes := (tw_processes w)(a \<mapsto> f p) \<rparr>) }"

definition on_sched :: "(sched_t \<Rightarrow> sched_t option) \<Rightarrow> task_world \<Rightarrow> task_world option" where
  "on_sched f w = do {
     s \<leftarrow> f (tw_sched w);
     Some (w\<lparr> tw_sched := s \<rparr>) }"

definition set_state :: "addr \<Rightarrow> thread_state \<Rightarrow> task_world \<Rightarrow> task_world" where
  "set_state a st w = w\<lparr> tw_sched := thread_upd a (\<lambda>th. th\<lparr> t_state := st \<rparr>) (tw_sched w) \<rparr>"

section \<open>Lookup and wake-up\<close>

text \<open>Functions that assert that the scheduler is locked.\<close>

definition get_thread_by_id :: "int \<Rightarrow> task_world \<Rightarrow> vptr option" where
  "get_thread_by_id tid w = (if sched_locked (tw_sched w) then Some (thread_table w tid) else None)"

definition get_process_by_id :: "int \<Rightarrow> task_world \<Rightarrow> vptr option" where
  "get_process_by_id pid w = (if sched_locked (tw_sched w) then Some (process_table w pid) else None)"

definition do_wake_up_thread :: "addr \<Rightarrow> task_world \<Rightarrow> ((errno + unit) \<times> task_world) option" where
  "do_wake_up_thread a w =
     (if \<not> sched_locked (tw_sched w) then None
      else if t_state (threads (tw_sched w) a) \<in> {THREAD_NEW, THREAD_WAITING, THREAD_SLEEPING} then do {
        w \<leftarrow> on_sched (add_thread_to_ready a) w;
        Some (Inr (), w) }
      else Some (Inl EINVAL, w))"

definition thread_wake_up :: "int \<Rightarrow> task_world \<Rightarrow> ((errno + unit) \<times> task_world) option" where
  "thread_wake_up tid w = do {
     w \<leftarrow> on_sched scheduler_lock w;
     found \<leftarrow> get_thread_by_id tid w;
     (r, w) \<leftarrow> (case found of None \<Rightarrow> Some (Inl EINVAL, w) | Some a \<Rightarrow> do_wake_up_thread a w);
     w \<leftarrow> on_sched scheduler_unlock w;
     Some (r, w) }"

section \<open>Signals\<close>

abbreviation NSIG :: int where "NSIG \<equiv> 65"
abbreviation SIGKILL :: int where "SIGKILL \<equiv> 9"
abbreviation SIGCHLD :: int where "SIGCHLD \<equiv> 17"
abbreviation SIGCONT :: int where "SIGCONT \<equiv> 18"
abbreviation SIGSTOP :: int where "SIGSTOP \<equiv> 19"
abbreviation SIGWINCH :: int where "SIGWINCH \<equiv> 28"

definition SA_ONESHOT :: u32 where "SA_ONESHOT = 0x80000000"

definition sig_bit :: "int \<Rightarrow> u64" where
  "sig_bit i = push_bit (nat i) 1"

definition BLOCKABLE_SIGNALS :: u64 where
  "BLOCKABLE_SIGNALS = NOT (sig_bit (SIGKILL - 1) OR sig_bit (SIGSTOP - 1))"

definition is_signal_pending :: "task_t \<Rightarrow> bool" where
  "is_signal_pending th \<longleftrightarrow> pending_signals th AND NOT (blocked_signals th) \<noteq> 0"

definition do_send_signal :: "task_env \<Rightarrow> addr \<Rightarrow> int \<Rightarrow> task_world \<Rightarrow> task_world option" where
  "do_send_signal E a signal w =
     (if \<not> (0 < signal \<and> signal < NSIG) then None
      else do {
        th \<leftarrow> tw_tasks w a;
        if th_id th = init_thread_id E then do { (_, w) \<leftarrow> do_wake_up_thread a w; Some w }
        else do {
          w \<leftarrow> upd_task a (\<lambda>th. th\<lparr> pending_signals := pending_signals th OR sig_bit (signal - 1) \<rparr>) w;
          th \<leftarrow> tw_tasks w a;
          if is_signal_pending th then do { (_, w) \<leftarrow> do_wake_up_thread a w; Some w } else Some w } })"

definition send_signal :: "task_env \<Rightarrow> addr \<Rightarrow> int \<Rightarrow> task_world \<Rightarrow> task_world option" where
  "send_signal E a signal w =
     (if signal = 0 then Some w
      else do {
        w \<leftarrow> on_sched scheduler_lock w;
        w \<leftarrow> do_send_signal E a signal w;
        on_sched scheduler_unlock w })"

definition sys_kill_thread :: "task_env \<Rightarrow> int \<Rightarrow> int \<Rightarrow> task_world \<Rightarrow> ((errno + unit) \<times> task_world) option" where
  "sys_kill_thread E tid signal w = do {
     w \<leftarrow> on_sched scheduler_lock w;
     found \<leftarrow> get_thread_by_id tid w;
     w \<leftarrow> on_sched scheduler_unlock w;
     case found of
       None \<Rightarrow> Some (Inl EINVAL, w)
     | Some a \<Rightarrow> do { w \<leftarrow> send_signal E a signal w; Some (Inr (), w) } }"

definition sys_sigaction ::
    "int \<Rightarrow> sigaction option \<Rightarrow> addr \<Rightarrow> task_world \<Rightarrow> ((errno + sigaction) \<times> task_world) option" where
  "sys_sigaction signal act cur w =
     (if signal < 1 \<or> signal \<ge> NSIG then Some (Inl EINVAL, w)
      else do {
        th \<leftarrow> tw_tasks w cur;
        old \<leftarrow> read_cell (Some (signal_handlers th)) (signal - 1);
        case act of
          None \<Rightarrow> Some (Inr old, w)
        | Some new \<Rightarrow> do {
            w \<leftarrow> upd_task cur (\<lambda>th. th\<lparr> signal_handlers := (signal_handlers th)[nat (signal - 1) := new],
              pending_signals := (if sa_handler new = SIG_IGN then pending_signals th AND NOT (sig_bit (signal - 1))
                else pending_signals th) \<rparr>) w;
            Some (Inr old, w) } })"

abbreviation SIG_BLOCK :: int where "SIG_BLOCK \<equiv> 0"
abbreviation SIG_UNBLOCK :: int where "SIG_UNBLOCK \<equiv> 1"
abbreviation SIG_SETMASK :: int where "SIG_SETMASK \<equiv> 2"

definition sys_sigprocmask :: "int \<Rightarrow> u64 option \<Rightarrow> addr \<Rightarrow> task_world \<Rightarrow> ((errno + u64) \<times> task_world) option" where
  "sys_sigprocmask how sigset cur w = do {
     th \<leftarrow> tw_tasks w cur;
     let old = blocked_signals th;
     case sigset of
       None \<Rightarrow> Some (Inr old, w)
     | Some s \<Rightarrow> do {
         let newset = s AND BLOCKABLE_SIGNALS;
         if how = SIG_BLOCK then do {
           w \<leftarrow> upd_task cur (\<lambda>th. th\<lparr> blocked_signals := blocked_signals th OR newset \<rparr>) w;
           Some (Inr old, w) }
         else if how = SIG_UNBLOCK then do {
           w \<leftarrow> upd_task cur (\<lambda>th. th\<lparr> blocked_signals := blocked_signals th AND NOT newset \<rparr>) w;
           Some (Inr old, w) }
         else if how = SIG_SETMASK then do {
           w \<leftarrow> upd_task cur (\<lambda>th. th\<lparr> blocked_signals := newset \<rparr>) w;
           Some (Inr old, w) }
         else Some (Inl EINVAL, w) } }"

section \<open>Processes\<close>

text \<open>A new process, with the answers for its memory, its name and its two mutexes.\<close>

record process_answers =
  pa_process :: vptr
  pa_name :: bool
  pa_mutex :: bool
  pa_tld_lock :: bool

abbreviation TLD_SIZE :: nat where "TLD_SIZE \<equiv> 1024"

definition allocate_process :: "process_answers \<Rightarrow> byte list \<Rightarrow> task_world \<Rightarrow> vptr \<times> task_world" where
  "allocate_process A name w = (case pa_process A of
       None \<Rightarrow> (None, w)
     | Some p \<Rightarrow>
         if \<not> pa_name A \<or> \<not> pa_mutex A \<or> \<not> pa_tld_lock A then (None, w)
         else (Some p, w\<lparr> tw_processes := (tw_processes w)(p \<mapsto> \<lparr> pr_id = - 1, pr_name = name, pr_thread_count = 0,
           pr_vmem_size = 0, pr_pmem_size = 0, pr_tld_table = replicate (TLD_SIZE div 32) 0 \<rparr>) \<rparr>))"

text \<open>The contexts of a process are destroyed by their components; here the call is recorded.\<close>

definition destroy_process :: "addr \<Rightarrow> task_world \<Rightarrow> task_world option" where
  "destroy_process p w = do {
     _ \<leftarrow> tw_processes w p;
     Some (w\<lparr> tw_processes := (tw_processes w)(p := None), tw_destroyed := tw_destroyed w @ [p] \<rparr>) }"

text \<open>Inserting gives an id that is not in the table; \<open>added\<close> is the answer of \<^verbatim>\<open>hashtable_add\<close>.\<close>

definition insert_process :: "errno option \<Rightarrow> addr \<Rightarrow> task_world \<Rightarrow> ((errno + unit) \<times> task_world) option" where
  "insert_process added p w =
     (if \<not> sched_locked (tw_sched w) then None
      else do {
        (pid, counter) \<leftarrow> fresh_id (process_table w) (process_id_counter w);
        w \<leftarrow> upd_process p (\<lambda>pr. pr\<lparr> pr_id := pid \<rparr>) w;
        let w = w\<lparr> process_id_counter := counter \<rparr>;
        case added of
          Some e \<Rightarrow> Some (Inl e, w)
        | None \<Rightarrow> Some (Inr (), w\<lparr> process_table := (process_table w)(pid \<mapsto> p) \<rparr>) })"

definition remove_process :: "addr \<Rightarrow> task_world \<Rightarrow> task_world option" where
  "remove_process p w =
     (if \<not> sched_locked (tw_sched w) then None
      else do {
        pr \<leftarrow> tw_processes w p;
        Some (w\<lparr> process_table := (process_table w)(pr_id pr := None) \<rparr>) })"

definition rename_process :: "bool \<Rightarrow> addr \<Rightarrow> byte list \<Rightarrow> task_world \<Rightarrow> ((errno + unit) \<times> task_world) option" where
  "rename_process copied p new_name w =
     (if \<not> sched_locked (tw_sched w) then None
      else if \<not> copied then Some (Inl ENOMEM, w)
      else do {
        w \<leftarrow> upd_process p (\<lambda>pr. pr\<lparr> pr_name := new_name \<rparr>) w;
        Some (Inr (), w) })"

definition get_process_count :: "task_world \<Rightarrow> nat option" where
  "get_process_count w = (if sched_locked (tw_sched w) then Some (card (dom (process_table w))) else None)"

text \<open>Thread local data: the first slot whose bit is clear.\<close>

function alloc_tld_loop :: "int \<Rightarrow> u32 list \<Rightarrow> (int option \<times> u32 list) option" where
  "alloc_tld_loop i table =
     (if i < int TLD_SIZE then do {
        v \<leftarrow> read_cell (Some table) (i div 32);
        if v AND push_bit (nat (i mod 32)) 1 = 0 then do {
          t \<leftarrow> write_cell (Some table) (i div 32) (v OR push_bit (nat (i mod 32)) 1);
          Some (Some i, t) }
        else alloc_tld_loop (i + 1) table }
      else Some (None, table))"
  by pat_completeness auto
termination
  by (relation "measure (\<lambda>(i, table). nat (int TLD_SIZE - i))") auto

declare alloc_tld_loop.simps [simp del]

definition sys_alloc_tld :: "addr \<Rightarrow> task_world \<Rightarrow> ((errno + int) \<times> task_world) option" where
  "sys_alloc_tld cur w = do {
     th \<leftarrow> tw_tasks w cur;
     p \<leftarrow> tw_processes w (th_process th);
     (r, table) \<leftarrow> alloc_tld_loop 0 (pr_tld_table p);
     w \<leftarrow> upd_process (th_process th) (\<lambda>p. p\<lparr> pr_tld_table := table \<rparr>) w;
     Some (case r of None \<Rightarrow> Inl EAGAIN | Some i \<Rightarrow> Inr i, w) }"

definition sys_free_tld :: "int \<Rightarrow> task_world \<Rightarrow> task_world" where
  "sys_free_tld tld w = w"

section \<open>Threads\<close>

record thread_answers =
  ta_thread :: vptr
  ta_name :: bool
  ta_stack :: bool
  ta_arch :: bool

definition default_handlers :: "sigaction list" where
  "default_handlers = (replicate 64 \<lparr> sa_handler = SIG_DFL, sa_mask = 0, sa_flags = 0 \<rparr>)
     [nat (SIGCHLD - 1) := \<lparr> sa_handler = SIG_IGN, sa_mask = 0, sa_flags = 0 \<rparr>]"

definition new_thread :: thread_t where
  "new_thread = reset_thread_quantum \<lparr> queue_next = None, t_state = THREAD_NEW, in_scheduler = False, quantum = 0, exec_time = 0,
     cpu_time = 0, in_system = False, sys_time = 0, user_time = 0, prev_checkpoint = 0 \<rparr>"

definition allocate_thread :: "thread_answers \<Rightarrow> byte list \<Rightarrow> addr \<Rightarrow> task_world \<Rightarrow> (vptr \<times> task_world) option" where
  "allocate_thread A name p w = (case ta_thread A of
       None \<Rightarrow> Some (None, w)
     | Some a \<Rightarrow>
         if \<not> ta_name A \<or> \<not> ta_stack A \<or> \<not> ta_arch A then Some (None, w)
         else do {
           w \<leftarrow> upd_process p (\<lambda>pr. pr\<lparr> pr_thread_count := pr_thread_count pr + 1 \<rparr>) w;
           Some (Some a, w\<lparr>
             tw_sched := thread_upd a (\<lambda>_. new_thread) (tw_sched w),
             tw_tasks := (tw_tasks w)(a \<mapsto> \<lparr> th_id = - 1, th_parent_id = - 1, th_name = name, th_exit_code = 0, th_process = p,
               pending_signals = 0, blocked_signals = 0, signal_handlers = default_handlers,
               th_regs = \<lparr> ur_eax = 0, ur_eip = 0, ur_esp = 0 \<rparr> \<rparr>) \<rparr>) })"

definition destroy_thread :: "addr \<Rightarrow> task_world \<Rightarrow> task_world option" where
  "destroy_thread a w = do {
     th \<leftarrow> tw_tasks w a;
     w \<leftarrow> upd_process (th_process th) (\<lambda>pr. pr\<lparr> pr_thread_count := pr_thread_count pr - 1 \<rparr>) w;
     pr \<leftarrow> tw_processes w (th_process th);
     w \<leftarrow> (if pr_thread_count pr = 0 then do {
         w \<leftarrow> on_sched scheduler_lock w;
         w \<leftarrow> remove_process (th_process th) w;
         w \<leftarrow> on_sched scheduler_unlock w;
         destroy_process (th_process th) w } else Some w);
     Some (w\<lparr> tw_tasks := (tw_tasks w)(a := None) \<rparr>) }"

definition insert_thread :: "errno option \<Rightarrow> addr \<Rightarrow> task_world \<Rightarrow> ((errno + unit) \<times> task_world) option" where
  "insert_thread added a w =
     (if \<not> sched_locked (tw_sched w) then None
      else do {
        (tid, counter) \<leftarrow> fresh_id (thread_table w) (thread_id_counter w);
        w \<leftarrow> upd_task a (\<lambda>th. th\<lparr> th_id := tid \<rparr>) w;
        let w = w\<lparr> thread_id_counter := counter \<rparr>;
        case added of
          Some e \<Rightarrow> Some (Inl e, w)
        | None \<Rightarrow> Some (Inr (), w\<lparr> thread_table := (thread_table w)(tid \<mapsto> a) \<rparr>) })"

definition rename_thread :: "bool \<Rightarrow> addr \<Rightarrow> byte list \<Rightarrow> task_world \<Rightarrow> ((errno + unit) \<times> task_world) option" where
  "rename_thread copied a new_name w =
     (if \<not> sched_locked (tw_sched w) then None
      else if \<not> copied then Some (Inl ENOMEM, w)
      else do {
        w \<leftarrow> upd_task a (\<lambda>th. th\<lparr> th_name := new_name \<rparr>) w;
        Some (Inr (), w) })"

text \<open>The end of the functions that create a thread: an id, or everything is undone. \<open>arch\<close> is the answer of the
  architecture, \<open>parent\<close> the id of the creating thread.\<close>

definition publish_thread ::
    "errno option \<Rightarrow> errno option \<Rightarrow> bool \<Rightarrow> int option \<Rightarrow> addr \<Rightarrow> task_world \<Rightarrow> ((errno + int) \<times> task_world) option" where
  "publish_thread arch added system parent a w = (case arch of
       Some e \<Rightarrow> do { w \<leftarrow> destroy_thread a w; Some (Inl e, w) }
     | None \<Rightarrow> do {
         let w = w\<lparr> tw_sched := thread_upd a (\<lambda>th. th\<lparr> in_system := system \<rparr>) (tw_sched w) \<rparr>;
         w \<leftarrow> (case parent of None \<Rightarrow> Some w | Some i \<Rightarrow> upd_task a (\<lambda>th. th\<lparr> th_parent_id := i \<rparr>) w);
         w \<leftarrow> on_sched scheduler_lock w;
         (r, w) \<leftarrow> insert_thread added a w;
         th \<leftarrow> tw_tasks w a;
         w \<leftarrow> on_sched scheduler_unlock w;
         case r of
           Inl e \<Rightarrow> do { w \<leftarrow> destroy_thread a w; Some (Inl e, w) }
         | Inr _ \<Rightarrow> Some (Inr (th_id th), w) })"

definition create_kernel_thread ::
    "thread_answers \<Rightarrow> errno option \<Rightarrow> errno option \<Rightarrow> byte list \<Rightarrow> vptr \<Rightarrow> task_world \<Rightarrow> ((errno + int) \<times> task_world) option" where
  "create_kernel_thread A arch added name current w = do {
     w \<leftarrow> on_sched scheduler_lock w;
     found \<leftarrow> get_process_by_id 0 w;
     w \<leftarrow> on_sched scheduler_unlock w;
     case found of
       None \<Rightarrow> Some (Inl EINVAL, w)
     | Some p \<Rightarrow> do {
         (thread, w) \<leftarrow> allocate_thread A name p w;
         case thread of
           None \<Rightarrow> Some (Inl ENOMEM, w)
         | Some a \<Rightarrow> do {
             parent \<leftarrow> (case current of None \<Rightarrow> Some None | Some c \<Rightarrow> do { th \<leftarrow> tw_tasks w c; Some (Some (th_id th)) });
             publish_thread arch added True parent a w } } }"

text \<open>A thread of the current process; the stack region and its pages are answers.\<close>

definition sys_create_thread ::
    "thread_answers \<Rightarrow> errno option \<Rightarrow> errno option \<Rightarrow> errno option \<Rightarrow> byte list \<Rightarrow> addr \<Rightarrow> task_world \<Rightarrow>
     ((errno + int) \<times> task_world) option" where
  "sys_create_thread A stack arch added name cur w = do {
     c \<leftarrow> tw_tasks w cur;
     (thread, w) \<leftarrow> allocate_thread A name (th_process c) w;
     case thread of
       None \<Rightarrow> Some (Inl ENOMEM, w)
     | Some a \<Rightarrow> (case stack of
           Some e \<Rightarrow> do { w \<leftarrow> destroy_thread a w; Some (Inl e, w) }
         | None \<Rightarrow> publish_thread arch added False (Some (th_id c)) a w) }"

section \<open>Exit and wait\<close>

text \<open>Every child of the thread gets the init thread as its parent.\<close>

fun reparent_loop :: "task_env \<Rightarrow> int \<Rightarrow> addr list \<Rightarrow> bool \<Rightarrow> task_world \<Rightarrow> (bool \<times> task_world) option" where
  "reparent_loop E parent [] found w = Some (found, w)"
| "reparent_loop E parent (a # as) found w = do {
     th \<leftarrow> tw_tasks w a;
     if th_parent_id th = parent then do {
       w \<leftarrow> upd_task a (\<lambda>th. th\<lparr> th_parent_id := init_thread_id E \<rparr>) w;
       reparent_loop E parent as True w }
     else reparent_loop E parent as found w }"

text \<open>The exit of the current thread, up to the point where it only yields.\<close>

definition thread_exit :: "task_env \<Rightarrow> int \<Rightarrow> addr \<Rightarrow> task_world \<Rightarrow> task_world option" where
  "thread_exit E exit_code cur w = do {
     w \<leftarrow> on_sched scheduler_lock w;
     let w = set_state cur THREAD_ZOMBIE w;
     w \<leftarrow> upd_task cur (\<lambda>th. th\<lparr> th_exit_code := exit_code \<rparr>) w;
     th \<leftarrow> tw_tasks w cur;
     w \<leftarrow> (if th_parent_id th \<noteq> - 1 then do {
         parent \<leftarrow> get_thread_by_id (th_parent_id th) w;
         case parent of None \<Rightarrow> Some w | Some p \<Rightarrow> do_send_signal E p SIGCHLD w }
       else Some w);
     (children_found, w) \<leftarrow> reparent_loop E (th_id th) (te_order E (thread_table w)) False w;
     w \<leftarrow> (if children_found then do {
         init \<leftarrow> get_thread_by_id (init_thread_id E) w;
         i \<leftarrow> init;
         do_send_signal E i SIGCHLD w }
       else Some w);
     on_sched scheduler_unlock w }"

definition sys_exit :: "task_env \<Rightarrow> u32 \<Rightarrow> addr \<Rightarrow> task_world \<Rightarrow> task_world option" where
  "sys_exit E exit_code = thread_exit E (uint (push_bit 8 (exit_code AND 0x7F)))"

text \<open>The first child in the order of the table, or the first that is a zombie.\<close>

fun find_child :: "bool \<Rightarrow> int \<Rightarrow> addr list \<Rightarrow> task_world \<Rightarrow> vptr option" where
  "find_child zombie_only parent [] w = Some None"
| "find_child zombie_only parent (a # as) w =
     (if zombie_only \<and> t_state (threads (tw_sched w) a) \<noteq> THREAD_ZOMBIE then find_child zombie_only parent as w
      else do {
        th \<leftarrow> tw_tasks w a;
        if th_parent_id th = parent then Some (Some a) else find_child zombie_only parent as w })"

definition find_and_remove_zombie_child :: "task_env \<Rightarrow> int \<Rightarrow> int \<Rightarrow> task_world \<Rightarrow> (vptr \<times> task_world) option" where
  "find_and_remove_zombie_child E parent pid w =
     (if \<not> sched_locked (tw_sched w) then None
      else do {
        tmp \<leftarrow> (if 0 < pid then
              (case thread_table w pid of
                 None \<Rightarrow> Some None
               | Some a \<Rightarrow> Some (if t_state (threads (tw_sched w) a) \<noteq> THREAD_ZOMBIE then None else Some a))
            else if pid = - 1 then find_child True parent (te_order E (thread_table w)) w
            else Some None);
        case tmp of
          None \<Rightarrow> Some (None, w)
        | Some a \<Rightarrow> do {
            th \<leftarrow> tw_tasks w a;
            Some (Some a, w\<lparr> thread_table := (thread_table w)(th_id th := None) \<rparr>) } })"

definition WNOHANG :: u32 where "WNOHANG = 1"

text \<open>What the caller gets: the id and the exit code of the child; nothing with \<^verbatim>\<open>WNOHANG\<close>. One turn of the loop; \<open>Waits\<close> means
  that the thread has marked itself as waiting and yields.\<close>

definition wait4_turn ::
    "task_env \<Rightarrow> int \<Rightarrow> u32 \<Rightarrow> addr \<Rightarrow> task_world \<Rightarrow> ((errno + (int \<times> int) option) call \<times> task_world) option" where
  "wait4_turn E pid options cur w = do {
     w \<leftarrow> on_sched scheduler_lock w;
     c \<leftarrow> tw_tasks w cur;
     (tmp, w) \<leftarrow> find_and_remove_zombie_child E (th_id c) pid w;
     case tmp of
       Some a \<Rightarrow> do {
         w \<leftarrow> on_sched scheduler_unlock w;
         th \<leftarrow> tw_tasks w a;
         w \<leftarrow> destroy_thread a w;
         Some (Returns (Inr (Some (th_id th, th_exit_code th))), w) }
     | None \<Rightarrow>
         if options AND WNOHANG \<noteq> 0 then do { w \<leftarrow> on_sched scheduler_unlock w; Some (Returns (Inr None), w) }
         else if is_signal_pending c then do { w \<leftarrow> on_sched scheduler_unlock w; Some (Returns (Inl EINTR), w) }
         else do {
           w \<leftarrow> on_sched scheduler_unlock (set_state cur THREAD_WAITING w);
           Some (Waits, w) } }"

definition sys_wait4 ::
    "task_env \<Rightarrow> int \<Rightarrow> u32 \<Rightarrow> addr \<Rightarrow> task_world \<Rightarrow> ((errno + (int \<times> int) option) call \<times> task_world) option" where
  "sys_wait4 E pid options cur w = do {
     w \<leftarrow> on_sched scheduler_lock w;
     c \<leftarrow> tw_tasks w cur;
     tmp \<leftarrow> (if 0 < pid then get_thread_by_id pid w
        else if pid = - 1 then find_child False (th_id c) (te_order E (thread_table w)) w
        else Some None);
     w \<leftarrow> on_sched scheduler_unlock w;
     if tmp = None then Some (Returns (Inl ECHILD), w) else wait4_turn E pid options cur w }"

section \<open>Delivery of signals\<close>

text \<open>A signal frame: the registers are saved below the stack pointer, the handler is entered with four times the number of the
  signal as its argument. A context takes 76 bytes (18 registers and \<^verbatim>\<open>cr2\<close>), the return code 16, the arguments 8.\<close>

definition arch_handle_userspace_signal :: "addr \<Rightarrow> int \<Rightarrow> u32 \<Rightarrow> task_world \<Rightarrow> task_world option" where
  "arch_handle_userspace_signal a signal handler w = do {
     th \<leftarrow> tw_tasks w a;
     let stack = ur_esp (th_regs th) - 76;
     let w = w\<lparr> tw_contexts := (tw_contexts w)(stack := th_regs th),
       tw_stack := (tw_stack w)(stack - 24 := stack - 16, stack - 20 := word_of_int (signal * 4)) \<rparr>;
     upd_task a (\<lambda>th. th\<lparr> th_regs := (th_regs th)\<lparr> ur_eip := handler, ur_esp := stack - 24 \<rparr> \<rparr>) w }"

text \<open>The return from the handler: the context is read from the stack that the return code has left.\<close>

definition sys_signal_return :: "addr \<Rightarrow> task_world \<Rightarrow> task_world option" where
  "sys_signal_return cur w = upd_task cur (\<lambda>th. th\<lparr> th_regs := tw_contexts w (ur_esp (th_regs th)) \<rparr>) w"

text \<open>An ignored \<^verbatim>\<open>SIGCHLD\<close> makes the kernel collect the zombies.\<close>

partial_function (option) reap_loop :: "task_env \<Rightarrow> addr \<Rightarrow> task_world \<Rightarrow> task_world option" where
  "reap_loop E cur w = do {
     (r, w) \<leftarrow> sys_wait4 E (- 1) WNOHANG cur w;
     case r of
       Returns (Inr (Some (tid, code))) \<Rightarrow> if 0 < tid then reap_loop E cur w else Some w
     | _ \<Rightarrow> Some w }"

text \<open>All pending signals, from the lowest number; the flag says that the thread has exited.\<close>

function handle_signals_loop :: "task_env \<Rightarrow> int \<Rightarrow> addr \<Rightarrow> task_world \<Rightarrow> (bool \<times> task_world) option" where
  "handle_signals_loop E i a w =
     (if i < NSIG - 1 then do {
        th \<leftarrow> tw_tasks w a;
        if pending_signals th AND sig_bit i = 0 then handle_signals_loop E (i + 1) a w
        else do {
          w \<leftarrow> upd_task a (\<lambda>th. th\<lparr> pending_signals := pending_signals th AND NOT (sig_bit i) \<rparr>) w;
          handler \<leftarrow> read_cell (Some (signal_handlers th)) i;
          case sa_handler handler of
            SIG_IGN \<Rightarrow> do {
              w \<leftarrow> (if i + 1 = SIGCHLD then reap_loop E a w else Some w);
              handle_signals_loop E (i + 1) a w }
          | SIG_DFL \<Rightarrow>
              if i + 1 \<in> {SIGCHLD, SIGWINCH, SIGSTOP, SIGCONT} then handle_signals_loop E (i + 1) a w
              else do { w \<leftarrow> thread_exit E (i + 1) a w; Some (True, w) }
          | SIG_HANDLER f \<Rightarrow> do {
              w \<leftarrow> arch_handle_userspace_signal a (i + 1) f w;
              w \<leftarrow> (if sa_flags handler AND SA_ONESHOT \<noteq> 0
                then upd_task a (\<lambda>th. th\<lparr> signal_handlers := (signal_handlers th)[nat i := handler\<lparr> sa_handler := SIG_DFL \<rparr>] \<rparr>) w
                else Some w);
              handle_signals_loop E (i + 1) a w } } }
      else Some (False, w))"
  by pat_completeness auto
termination
  by (relation "measure (\<lambda>(E, i, a, w). nat (NSIG - i))") auto

declare handle_signals_loop.simps [simp del]

definition handle_signals :: "task_env \<Rightarrow> addr \<Rightarrow> task_world \<Rightarrow> (bool \<times> task_world) option" where
  "handle_signals E = handle_signals_loop E 0"

definition arch_handle_signals :: "task_env \<Rightarrow> bool \<Rightarrow> addr \<Rightarrow> task_world \<Rightarrow> (bool \<times> task_world) option" where
  "arch_handle_signals E to_user cur w =
     (if \<not> to_user then Some (False, w)
      else do {
        th \<leftarrow> tw_tasks w cur;
        if \<not> is_signal_pending th then Some (False, w) else handle_signals E cur w })"

section \<open>System calls\<close>

text \<open>The table of system calls is a parameter: a number gives a function on the current thread, or there is no such call. The two
  times are those of the clock before and after the call.\<close>

type_synonym system_call = "addr \<Rightarrow> task_world \<Rightarrow> (u32 \<times> task_world) option"

definition handle_system_call ::
    "(u32 \<Rightarrow> system_call option) \<Rightarrow> u64 \<Rightarrow> u64 \<Rightarrow> u32 \<Rightarrow> addr \<Rightarrow> task_world \<Rightarrow> (u32 \<times> task_world) option" where
  "handle_system_call table before after number cur w = (case table number of
       None \<Rightarrow> Some (- 2, w)
     | Some syscall \<Rightarrow> do {
         w \<leftarrow> on_sched scheduler_lock w;
         let w = w\<lparr> tw_sched := thread_upd cur (\<lambda>th. th\<lparr> in_system := True,
           user_time := user_time th + (before - prev_checkpoint th), prev_checkpoint := before \<rparr>) (tw_sched w) \<rparr>;
         w \<leftarrow> on_sched scheduler_unlock w;
         (result, w) \<leftarrow> syscall cur w;
         if \<not> in_system (threads (tw_sched w) cur) then None
         else do {
           w \<leftarrow> on_sched scheduler_lock w;
           let w = w\<lparr> tw_sched := thread_upd cur (\<lambda>th. th\<lparr> in_system := False,
             sys_time := sys_time th + (after - prev_checkpoint th), prev_checkpoint := after \<rparr>) (tw_sched w) \<rparr>;
           w \<leftarrow> on_sched scheduler_unlock w;
           Some (result, w) } })"

text \<open>The result of the call goes to a register of the frame on which the call was made.\<close>

definition system_call_entry ::
    "(u32 \<Rightarrow> system_call option) \<Rightarrow> u64 \<Rightarrow> u64 \<Rightarrow> addr \<Rightarrow> task_world \<Rightarrow> task_world option" where
  "system_call_entry table before after cur w = do {
     th \<leftarrow> tw_tasks w cur;
     (r, w) \<leftarrow> handle_system_call table before after (ur_eax (th_regs th)) cur w;
     upd_task cur (\<lambda>th. th\<lparr> th_regs := (th_regs th)\<lparr> ur_eax := r \<rparr> \<rparr>) w }"

section \<open>Fork\<close>

record fork_answers =
  fa_process :: process_answers
  fa_memory :: bool
  fa_io :: bool
  fa_lock :: bool
  fa_thread :: thread_answers
  fa_arch :: "errno option"
  fa_add_process :: "errno option"
  fa_add_thread :: "errno option"

text \<open>The clones of the three contexts are answers; the registers are copied with the result zero, the pending signals and the mask are not
  copied, and the new process has no thread local slots.\<close>

definition sys_fork :: "fork_answers \<Rightarrow> addr \<Rightarrow> task_world \<Rightarrow> ((errno + int) \<times> task_world) option" where
  "sys_fork A cur w = do {
     this \<leftarrow> tw_tasks w cur;
     this_process \<leftarrow> tw_processes w (th_process this);
     let (new_process, w) = allocate_process (fa_process A) (pr_name this_process) w;
     case new_process of
       None \<Rightarrow> Some (Inl ENOMEM, w)
     | Some p \<Rightarrow>
         if \<not> fa_memory A \<or> \<not> fa_io A \<or> \<not> fa_lock A then do { w \<leftarrow> destroy_process p w; Some (Inl ENOMEM, w) }
         else do {
           (thread, w) \<leftarrow> allocate_thread (fa_thread A) (th_name this) p w;
           case thread of
             None \<Rightarrow> do { w \<leftarrow> destroy_process p w; Some (Inl ENOMEM, w) }
           | Some a \<Rightarrow> do {
               w \<leftarrow> upd_task a (\<lambda>th. th\<lparr> th_parent_id := th_id this \<rparr>) w;
               case fa_arch A of
                 Some e \<Rightarrow> do { w \<leftarrow> destroy_thread a w; Some (Inl e, w) }
               | None \<Rightarrow> do {
                   w \<leftarrow> upd_task a (\<lambda>th. th\<lparr> signal_handlers := signal_handlers this, th_regs := (th_regs this)\<lparr> ur_eax := 0 \<rparr> \<rparr>) w;
                   w \<leftarrow> on_sched scheduler_lock w;
                   (r, w) \<leftarrow> insert_process (fa_add_process A) p w;
                   (r, w) \<leftarrow> (case r of
                       Inl e \<Rightarrow> Some (Inl e, w)
                     | Inr _ \<Rightarrow> do {
                         (r, w) \<leftarrow> insert_thread (fa_add_thread A) a w;
                         case r of
                           Inl e \<Rightarrow> Some (Inl e, w)
                         | Inr _ \<Rightarrow> do {
                             w \<leftarrow> on_sched (add_thread_to_ready a) w;
                             th \<leftarrow> tw_tasks w a;
                             Some (Inr (th_id th), w) } });
                   w \<leftarrow> on_sched scheduler_unlock w;
                   case r of
                     Inl e \<Rightarrow> do { w \<leftarrow> destroy_thread a w; Some (Inl e, w) }
                   | Inr tid \<Rightarrow> Some (Inr tid, w) } } } }"

section \<open>Times and lists\<close>

text \<open>Seconds and microseconds in user mode and in the kernel; \<^verbatim>\<open>sys_wait4\<close> takes the microseconds of the system time from the user
  time.\<close>

definition rusage_of :: "thread_t \<Rightarrow> (u64 \<times> u64) \<times> (u64 \<times> u64)" where
  "rusage_of th = ((user_time th div 1000000, user_time th mod 1000000), (sys_time th div 1000000, sys_time th mod 1000000))"

definition wait4_rusage :: "thread_t \<Rightarrow> (u64 \<times> u64) \<times> (u64 \<times> u64)" where
  "wait4_rusage th = ((user_time th div 1000000, user_time th mod 1000000), (sys_time th div 1000000, user_time th mod 1000000))"

abbreviation RUSAGE_SELF :: int where "RUSAGE_SELF \<equiv> 1"
abbreviation RUSAGE_CHILDREN :: int where "RUSAGE_CHILDREN \<equiv> 2"
abbreviation RUSAGE_THREAD :: int where "RUSAGE_THREAD \<equiv> 3"

definition sys_getrusage :: "int \<Rightarrow> addr \<Rightarrow> task_world \<Rightarrow> errno + (u64 \<times> u64) \<times> (u64 \<times> u64)" where
  "sys_getrusage who cur w =
     (if who = RUSAGE_SELF \<or> who = RUSAGE_THREAD then Inr (rusage_of (threads (tw_sched w) cur))
      else if who = RUSAGE_CHILDREN then Inl ENOSYS else Inl EINVAL)"

record thread_info_t =
  ti_id :: int
  ti_name :: "byte list"
  ti_state :: thread_state
  ti_cpu_time :: u64

text \<open>The threads of a process, in the order of the table, as many as the caller has room for; a name is cut at 63 characters.\<close>

fun thread_info_loop :: "int \<Rightarrow> nat \<Rightarrow> addr list \<Rightarrow> task_world \<Rightarrow> thread_info_t list option" where
  "thread_info_loop pid room [] w = Some []"
| "thread_info_loop pid room (a # as) w = do {
     th \<leftarrow> tw_tasks w a;
     p \<leftarrow> tw_processes w (th_process th);
     if pr_id p \<noteq> pid \<or> room = 0 then thread_info_loop pid room as w
     else do {
       rest \<leftarrow> thread_info_loop pid (room - 1) as w;
       Some (\<lparr> ti_id = th_id th, ti_name = take 63 (th_name th), ti_state = t_state (threads (tw_sched w) a),
         ti_cpu_time = cpu_time (threads (tw_sched w) a) \<rparr> # rest) } }"

definition sys_get_thread_info_for_process :: "task_env \<Rightarrow> int \<Rightarrow> nat \<Rightarrow> task_world \<Rightarrow> thread_info_t list option" where
  "sys_get_thread_info_for_process E pid max_count w = thread_info_loop pid max_count (te_order E (thread_table w)) w"

definition get_thread_count :: "task_world \<Rightarrow> nat option" where
  "get_thread_count w = (if sched_locked (tw_sched w) then Some (card (dom (thread_table w))) else None)"

definition sys_get_process_count :: "task_world \<Rightarrow> nat" where
  "sys_get_process_count w = card (dom (process_table w))"

definition sys_get_thread_count_for_process :: "task_env \<Rightarrow> int \<Rightarrow> task_world \<Rightarrow> nat option" where
  "sys_get_thread_count_for_process E pid w =
     map_option length (thread_info_loop pid (length (te_order E (thread_table w))) (te_order E (thread_table w)) w)"

record process_info_t =
  pi_id :: int
  pi_name :: "byte list"
  pi_pmem_size :: u64
  pi_vmem_size :: u64

fun process_info_loop :: "nat \<Rightarrow> addr list \<Rightarrow> task_world \<Rightarrow> process_info_t list option" where
  "process_info_loop room [] w = Some []"
| "process_info_loop room (p # ps) w =
     (if room = 0 then process_info_loop room ps w
      else do {
        pr \<leftarrow> tw_processes w p;
        rest \<leftarrow> process_info_loop (room - 1) ps w;
        Some (\<lparr> pi_id = pr_id pr, pi_name = take 63 (pr_name pr), pi_pmem_size = pr_pmem_size pr,
          pi_vmem_size = pr_vmem_size pr \<rparr> # rest) })"

definition sys_get_process_info :: "task_env \<Rightarrow> nat \<Rightarrow> task_world \<Rightarrow> process_info_t list option" where
  "sys_get_process_info E max_count w = process_info_loop max_count (te_order E (process_table w)) w"

definition sys_getpid :: "addr \<Rightarrow> task_world \<Rightarrow> int option" where
  "sys_getpid cur w = do { th \<leftarrow> tw_tasks w cur; p \<leftarrow> tw_processes w (th_process th); Some (pr_id p) }"

definition sys_gettid :: "addr \<Rightarrow> task_world \<Rightarrow> int option" where
  "sys_gettid cur w = map_option th_id (tw_tasks w cur)"

definition sys_exit_thread :: "task_env \<Rightarrow> int \<Rightarrow> addr \<Rightarrow> task_world \<Rightarrow> task_world option" where
  "sys_exit_thread E exit_code = thread_exit E exit_code"

definition sys_wake_up_thread :: "int \<Rightarrow> task_world \<Rightarrow> ((errno + unit) \<times> task_world) option" where
  "sys_wake_up_thread tid w = do {
     w \<leftarrow> on_sched scheduler_lock w;
     found \<leftarrow> get_thread_by_id tid w;
     (r, w) \<leftarrow> (case found of None \<Rightarrow> Some (Inl EINVAL, w) | Some a \<Rightarrow> do_wake_up_thread a w);
     w \<leftarrow> on_sched scheduler_unlock w;
     Some (r, w) }"

section \<open>Sleep\<close>

text \<open>A sleeping thread has a node on its stack, which it puts into the sleep queue; the sleep is cut where the thread yields. The
  wake-up time wraps around. After it the thread takes its node off the queue, if the wake-up has not done it, and gets the time
  that is left when it was woken early.\<close>

definition do_sleep_start ::
    "u64 \<Rightarrow> u64 \<Rightarrow> addr \<Rightarrow> addr \<Rightarrow> waitqueue_t \<times> nodes \<Rightarrow> task_world \<Rightarrow> ((waitqueue_t \<times> nodes) \<times> task_world) option" where
  "do_sleep_start now microsecs node cur sq w = do {
     let (sleep_queue, ns) = sq;
     let ns = node_upd node (\<lambda>n. n\<lparr> wakeup_time := now + microsecs, in_queue := False \<rparr>) ns;
     w \<leftarrow> on_sched scheduler_lock w;
     let w = set_state cur THREAD_SLEEPING w;
     th \<leftarrow> tw_tasks w cur;
     let ns = node_upd node (\<lambda>n. n\<lparr> wn_type := WAIT_THREAD (th_id th) \<rparr>) ns;
     sq \<leftarrow> waitqueue_add_node sleep_queue ns node;
     w \<leftarrow> on_sched scheduler_unlock w;
     Some (sq, w) }"

definition do_sleep_resume ::
    "u64 \<Rightarrow> addr \<Rightarrow> waitqueue_t \<times> nodes \<Rightarrow> task_world \<Rightarrow> ((u64 + unit) \<times> (waitqueue_t \<times> nodes) \<times> task_world) option" where
  "do_sleep_resume now node sq w = do {
     w \<leftarrow> on_sched scheduler_lock w;
     (sleep_queue, ns) \<leftarrow> waitqueue_remove_node (fst sq) (snd sq) node;
     w \<leftarrow> on_sched scheduler_unlock w;
     Some (if now < wakeup_time (ns node) then Inl (wakeup_time (ns node) - now) else Inr (), (sleep_queue, ns), w) }"

end
