(* ===== verification/Kernel_Process_Safety.thy ===== *)
theory Kernel_Process_Safety
  imports Kernel_Process
begin

unbundle bit_operations_syntax

text \<open>
  Exit, wait and signals: a thread that exits wakes its waiting parent, its children go to the init thread, and the parent collects
  the exit code; the mask of blocked signals never contains the two that cannot be blocked; a signal frame is undone
  by the return from the handler. Two errors: signals are delivered although they are blocked, and a parent that has blocked
  \<^verbatim>\<open>SIGCHLD\<close> is not woken.
\<close>

section \<open>Invariant\<close>

text \<open>An iteration over the thread table visits every thread.\<close>

definition env_order :: "task_env \<Rightarrow> task_world \<Rightarrow> bool" where
  "env_order E w \<longleftrightarrow> set (te_order E (thread_table w)) = ran (thread_table w)"

definition sched_ok :: "sched_t \<Rightarrow> bool" where
  "sched_ok s \<longleftrightarrow> (\<exists>rs es. sched_inv s rs es)"

text \<open>The table names threads by their ids; every thread belongs to a process; the idle thread is not in the table.\<close>

definition tasks_ok :: "task_world \<Rightarrow> bool" where
  "tasks_ok w \<longleftrightarrow> sched_ok (tw_sched w) \<and>
     (\<forall>tid a. thread_table w tid = Some a \<longrightarrow> a \<noteq> idle_thread (tw_sched w) \<and> (\<exists>th. tw_tasks w a = Some th \<and> th_id th = tid)) \<and>
     (\<forall>a th. tw_tasks w a = Some th \<longrightarrow> (\<exists>p. tw_processes w (th_process th) = Some p))"

lemma tasks_okD:
  assumes "tasks_ok w" and "thread_table w tid = Some a"
  obtains th where "tw_tasks w a = Some th" "th_id th = tid" "a \<noteq> idle_thread (tw_sched w)"
  using assms by (auto simp: tasks_ok_def)

lemma tasks_ok_id: "tasks_ok w \<Longrightarrow> thread_table w tid = Some a \<Longrightarrow> tw_tasks w a = Some th \<Longrightarrow> th_id th = tid"
  by (metis option.inject tasks_okD)

lemma tasks_ok_process: "tasks_ok w \<Longrightarrow> tw_tasks w a = Some th \<Longrightarrow> \<exists>p. tw_processes w (th_process th) = Some p"
  unfolding tasks_ok_def by blast

lemma upd_task_eq [simp]: "tw_tasks w a = Some th \<Longrightarrow> upd_task a f w = Some (w\<lparr> tw_tasks := (tw_tasks w)(a \<mapsto> f th) \<rparr>)"
  by (simp add: upd_task_def)

section \<open>Waking\<close>

definition asleep :: "thread_state \<Rightarrow> bool" where
  "asleep st \<longleftrightarrow> st \<in> {THREAD_NEW, THREAD_WAITING, THREAD_SLEEPING}"

definition woken :: "addr \<Rightarrow> sched_t \<Rightarrow> sched_t \<Rightarrow> bool" where
  "woken a s s' \<longleftrightarrow> sched_ok s' \<and> sched_locked s' = sched_locked s \<and> idle_thread s' = idle_thread s \<and>
     (\<forall>b. t_state (threads s' b) = (if b = a \<and> asleep (t_state (threads s a)) then THREAD_READY else t_state (threads s b))) \<and>
     (\<forall>b. in_scheduler (threads s b) \<longrightarrow> in_scheduler (threads s' b)) \<and>
     (asleep (t_state (threads s a)) \<longrightarrow> in_scheduler (threads s' a))"

lemma add_thread_to_ready_states:
  assumes "add_thread_to_ready a s = Some s'" and "\<not> in_scheduler (threads s a)"
  shows "t_state (threads s' b) = (if b = a then THREAD_READY else t_state (threads s b))" and
    "in_scheduler (threads s' b) = (b = a \<or> in_scheduler (threads s b))"
proof -
  let ?s = "thread_upd a (\<lambda>th. th\<lparr> t_state := THREAD_READY, queue_next := None, in_scheduler := True \<rparr>) s"
  consider "s' = ?s\<lparr> first_ready := Some a, last_ready := Some a \<rparr>"
    | l where "s' = (thread_upd l (\<lambda>th. th\<lparr> queue_next := Some a \<rparr>) ?s)\<lparr> last_ready := Some a \<rparr>"
    using assms by (auto simp: add_thread_to_ready_def Let_def bind_eq_Some_conv split: if_splits option.splits)
  then have *: "t_state (threads s' b) = (if b = a then THREAD_READY else t_state (threads s b)) \<and>
      in_scheduler (threads s' b) = (b = a \<or> in_scheduler (threads s b))" for b
  proof cases
    case 1
    then show ?thesis by (cases "b = a") simp_all
  next
    case (2 l)
    then show ?thesis by (cases "b = a"; cases "b = l"; cases "a = l") simp_all
  qed
  show "t_state (threads s' b) = (if b = a then THREAD_READY else t_state (threads s b))"
    "in_scheduler (threads s' b) = (b = a \<or> in_scheduler (threads s b))" using * by simp_all
qed

lemma do_wake_up_thread_eq:
  assumes ok: "sched_ok (tw_sched w)" and lk: "sched_locked (tw_sched w)" and a: "a \<noteq> idle_thread (tw_sched w)"
  shows "\<exists>r s'. do_wake_up_thread a w = Some (r, w\<lparr> tw_sched := s' \<rparr>) \<and> woken a (tw_sched w) s'"
proof (cases "asleep (t_state (threads (tw_sched w) a))")
  case True
  obtain rs es where inv: "sched_inv (tw_sched w) rs es" using ok by (auto simp: sched_ok_def)
  have out: "\<not> in_scheduler (threads (tw_sched w) a)"
  proof
    assume "in_scheduler (threads (tw_sched w) a)"
    then have "t_state (threads (tw_sched w) a) = THREAD_READY" using inv a by (auto simp: sched_inv_def)
    with True show False by (simp add: asleep_def)
  qed
  obtain s' where s': "add_thread_to_ready a (tw_sched w) = Some s'" "sched_inv s' (rs @ [a]) es" "sched_locked s'"
    "idle_thread s' = idle_thread (tw_sched w)" using add_thread_to_ready_inv [OF inv lk a out] by blast
  then have "woken a (tw_sched w) s'"
    using True lk add_thread_to_ready_states [OF s'(1) out] by (auto simp: woken_def sched_ok_def)
  then show ?thesis using s'(1) True lk by (auto simp: do_wake_up_thread_def on_sched_def asleep_def)
next
  case False
  then have "do_wake_up_thread a w = Some (Inl EINVAL, w\<lparr> tw_sched := tw_sched w \<rparr>)"
    using lk by (simp add: do_wake_up_thread_def asleep_def)
  moreover have "woken a (tw_sched w) (tw_sched w)" using False ok by (simp add: woken_def)
  ultimately show ?thesis by blast
qed

section \<open>Sending a signal\<close>

definition signalled :: "task_env \<Rightarrow> int \<Rightarrow> task_t \<Rightarrow> task_t" where
  "signalled E signal th = (if th_id th = init_thread_id E then th
     else th\<lparr> pending_signals := pending_signals th OR sig_bit (signal - 1) \<rparr>)"

text \<open>Whether the receiver is woken.\<close>

definition heard :: "task_env \<Rightarrow> int \<Rightarrow> task_t \<Rightarrow> bool" where
  "heard E signal th \<longleftrightarrow> th_id th = init_thread_id E \<or> is_signal_pending (signalled E signal th)"

lemma do_send_signal_eq:
  assumes ok: "sched_ok (tw_sched w)" and lk: "sched_locked (tw_sched w)" and a: "a \<noteq> idle_thread (tw_sched w)"
    and th: "tw_tasks w a = Some th" and sig: "0 < signal" "signal < NSIG"
  shows "\<exists>s'. do_send_signal E a signal w = Some (w\<lparr> tw_tasks := (tw_tasks w)(a \<mapsto> signalled E signal th), tw_sched := s' \<rparr>) \<and>
    (if heard E signal th then woken a (tw_sched w) s' else s' = tw_sched w)"
proof (cases "th_id th = init_thread_id E")
  case True
  then have same: "w\<lparr> tw_tasks := (tw_tasks w)(a \<mapsto> signalled E signal th) \<rparr> = w" using th by (simp add: signalled_def map_upd_triv)
  obtain r s' where s': "do_wake_up_thread a w = Some (r, w\<lparr> tw_sched := s' \<rparr>)" "woken a (tw_sched w) s'"
    using do_wake_up_thread_eq [OF ok lk a] by blast
  then show ?thesis using True th sig same by (intro exI [of _ s']) (simp add: do_send_signal_def heard_def signalled_def map_upd_triv)
next
  case False
  let ?w = "w\<lparr> tw_tasks := (tw_tasks w)(a \<mapsto> signalled E signal th) \<rparr>"
  have step: "do_send_signal E a signal w =
      (if is_signal_pending (signalled E signal th) then do { (_, w) \<leftarrow> do_wake_up_thread a ?w; Some w } else Some ?w)"
    using False th sig by (simp add: do_send_signal_def signalled_def)
  show ?thesis
  proof (cases "is_signal_pending (signalled E signal th)")
    case True
    obtain r s' where s': "do_wake_up_thread a ?w = Some (r, ?w\<lparr> tw_sched := s' \<rparr>)" "woken a (tw_sched w) s'"
      using do_wake_up_thread_eq [of ?w a] ok lk a by auto
    then show ?thesis using True step by (intro exI [of _ s']) (simp add: heard_def)
  next
    case no: False
    then show ?thesis using step False by (intro exI [of _ "tw_sched w"]) (simp add: heard_def)
  qed
qed

text \<open>What sending signals may change: sleeping threads become ready, signals become pending.\<close>

definition more_pending :: "task_t option \<Rightarrow> task_t option \<Rightarrow> bool" where
  "more_pending t t' \<longleftrightarrow> (\<exists>ps. t' = map_option (\<lambda>th. th\<lparr> pending_signals := pending_signals th OR ps \<rparr>) t)"

definition progressed :: "task_world \<Rightarrow> task_world \<Rightarrow> bool" where
  "progressed w w' \<longleftrightarrow> thread_table w' = thread_table w \<and> tw_processes w' = tw_processes w \<and> sched_ok (tw_sched w') \<and>
     sched_locked (tw_sched w') = sched_locked (tw_sched w) \<and> idle_thread (tw_sched w') = idle_thread (tw_sched w) \<and>
     (\<forall>b. t_state (threads (tw_sched w') b) = t_state (threads (tw_sched w) b) \<or>
        asleep (t_state (threads (tw_sched w) b)) \<and> t_state (threads (tw_sched w') b) = THREAD_READY) \<and>
     (\<forall>b. in_scheduler (threads (tw_sched w) b) \<longrightarrow> in_scheduler (threads (tw_sched w') b)) \<and>
     (\<forall>b. more_pending (tw_tasks w b) (tw_tasks w' b))"

lemma more_pending_refl [simp]: "more_pending t t"
  unfolding more_pending_def by (rule exI [of _ 0]) (cases t; simp)

lemma more_pending_signalled [simp]: "more_pending (Some th) (Some (signalled E signal th))"
  using more_pending_refl [of "Some th"] by (cases "th_id th = init_thread_id E") (auto simp: signalled_def more_pending_def)

lemma progressed_refl: "sched_ok (tw_sched w) \<Longrightarrow> progressed w w"
  by (simp add: progressed_def)

lemma do_send_signal_progress:
  assumes ok: "sched_ok (tw_sched w)" and lk: "sched_locked (tw_sched w)" and a: "a \<noteq> idle_thread (tw_sched w)"
    and th: "tw_tasks w a = Some th" and sig: "0 < signal" "signal < NSIG"
  shows "\<exists>w'. do_send_signal E a signal w = Some w' \<and> progressed w w' \<and>
    (heard E signal th \<and> asleep (t_state (threads (tw_sched w) a)) \<longrightarrow>
      t_state (threads (tw_sched w') a) = THREAD_READY \<and> in_scheduler (threads (tw_sched w') a)) \<and>
    (\<not> heard E signal th \<longrightarrow> tw_sched w' = tw_sched w)"
proof -
  obtain s' where s': "do_send_signal E a signal w = Some (w\<lparr> tw_tasks := (tw_tasks w)(a \<mapsto> signalled E signal th), tw_sched := s' \<rparr>)"
    "if heard E signal th then woken a (tw_sched w) s' else s' = tw_sched w" using do_send_signal_eq [OF assms] by blast
  let ?w = "w\<lparr> tw_tasks := (tw_tasks w)(a \<mapsto> signalled E signal th), tw_sched := s' \<rparr>"
  have "more_pending (tw_tasks w b) (tw_tasks ?w b)" for b using th by simp
  then have "progressed w ?w" using s'(2) ok by (auto simp: progressed_def woken_def split: if_splits)
  then show ?thesis using s' by (auto simp: woken_def)
qed

section \<open>Exit\<close>

definition reparented :: "int \<Rightarrow> int \<Rightarrow> task_t \<Rightarrow> task_t" where
  "reparented parent init th = (if th_parent_id th = parent then th\<lparr> th_parent_id := init \<rparr> else th)"

lemma reparent_loop_eq:
  "\<forall>a \<in> set as. tw_tasks w a \<noteq> None \<Longrightarrow>
   \<exists>f'. reparent_loop E parent as f w = Some (f', w\<lparr> tw_tasks := (\<lambda>b. if b \<in> set as
       then map_option (reparented parent (init_thread_id E)) (tw_tasks w b) else tw_tasks w b) \<rparr>) \<and>
     (f' \<longrightarrow> f \<or> (\<exists>a \<in> set as. \<exists>th. tw_tasks w a = Some th \<and> th_parent_id th = parent))"
proof (induction as arbitrary: f w)
  case (Cons a as)
  obtain th where th: "tw_tasks w a = Some th" using Cons.prems by auto
  let ?r = "reparented parent (init_thread_id E)"
  have twice: "map_option ?r (map_option ?r x) = map_option ?r x" for x by (cases x) (simp_all add: reparented_def)
  show ?case
  proof (cases "th_parent_id th = parent")
    case True
    let ?w = "w\<lparr> tw_tasks := (tw_tasks w)(a \<mapsto> ?r th) \<rparr>"
    have "\<forall>b \<in> set as. tw_tasks ?w b \<noteq> None" using Cons.prems by auto
    from Cons.IH [OF this, of True] obtain f' where f': "reparent_loop E parent as True ?w = Some (f', ?w\<lparr> tw_tasks := (\<lambda>b. if b \<in> set as
       then map_option ?r (tw_tasks ?w b) else tw_tasks ?w b) \<rparr>)" by blast
    have "(\<lambda>b. if b \<in> set as then map_option ?r (tw_tasks ?w b) else tw_tasks ?w b) =
        (\<lambda>b. if b \<in> set (a # as) then map_option ?r (tw_tasks w b) else tw_tasks w b)"
      using th twice [of "Some th"] by (auto simp: fun_eq_iff)
    then have "reparent_loop E parent (a # as) f w = Some (f', w\<lparr> tw_tasks := (\<lambda>b. if b \<in> set (a # as)
        then map_option ?r (tw_tasks w b) else tw_tasks w b) \<rparr>)" using f' True th by (simp add: reparented_def)
    then show ?thesis using th True by auto
  next
    case False
    then have same: "?r th = th" by (simp add: reparented_def)
    have "\<forall>b \<in> set as. tw_tasks w b \<noteq> None" using Cons.prems by simp
    from Cons.IH [OF this, of f] obtain f' where f': "reparent_loop E parent as f w = Some (f', w\<lparr> tw_tasks := (\<lambda>b. if b \<in> set as
       then map_option ?r (tw_tasks w b) else tw_tasks w b) \<rparr>)"
       "f' \<longrightarrow> f \<or> (\<exists>a \<in> set as. \<exists>th. tw_tasks w a = Some th \<and> th_parent_id th = parent)" by blast
    have "(\<lambda>b. if b \<in> set as then map_option ?r (tw_tasks w b) else tw_tasks w b) =
        (\<lambda>b. if b \<in> set (a # as) then map_option ?r (tw_tasks w b) else tw_tasks w b)" using th same by (auto simp: fun_eq_iff)
    then show ?thesis using f' False th by auto
  qed
qed simp


lemma progressed_more: "progressed w w' \<Longrightarrow> more_pending (tw_tasks w b) (tw_tasks w' b)"
  unfolding progressed_def by blast

lemma progressed_task:
  assumes "progressed w w'" and "tw_tasks w b = Some th"
  obtains ps where "tw_tasks w' b = Some (th\<lparr> pending_signals := ps \<rparr>)"
proof -
  have "more_pending (tw_tasks w b) (tw_tasks w' b)" using assms(1) by (rule progressed_more)
  then show ?thesis using that assms(2) by (auto simp: more_pending_def)
qed

lemma progressed_task_None: "progressed w w' \<Longrightarrow> tw_tasks w b = None \<Longrightarrow> tw_tasks w' b = None"
  using progressed_more [of w w' b] by (simp add: more_pending_def)

lemma mark_state_ok:
  assumes ok: "sched_ok s" and out: "cur \<noteq> idle_thread s" "\<not> in_scheduler (threads s cur)"
  shows "sched_ok (thread_upd cur (\<lambda>th. th\<lparr> t_state := st \<rparr>) s)"
proof -
  obtain rs es where inv: "sched_inv s rs es" using ok by (auto simp: sched_ok_def)
  have "sched_inv (thread_upd cur (\<lambda>th. th\<lparr> t_state := st \<rparr>) s) rs es"
    using sched_inv_upd_out [OF inv, of cur] sched_inv_mark [OF inv out] out by simp
  then show ?thesis by (auto simp: sched_ok_def)
qed

lemma sched_ok_locked [simp]: "sched_ok (s\<lparr> sched_locked := b \<rparr>) = sched_ok s"
  by (simp add: sched_ok_def)

text \<open>A signal to a thread of the table.\<close>

lemma signal_by_id:
  assumes ok: "tasks_ok w" and lk: "sched_locked (tw_sched w)" and a: "thread_table w tid = Some a"
  shows "\<exists>w'. do_send_signal E a SIGCHLD w = Some w' \<and> progressed w w' \<and>
    (\<forall>th. tw_tasks w a = Some th \<and> heard E SIGCHLD th \<and> asleep (t_state (threads (tw_sched w) a)) \<longrightarrow>
      t_state (threads (tw_sched w') a) = THREAD_READY \<and> in_scheduler (threads (tw_sched w') a))"
proof -
  obtain th where th: "tw_tasks w a = Some th" "a \<noteq> idle_thread (tw_sched w)" using tasks_okD [OF ok a] by blast
  have "sched_ok (tw_sched w)" using ok by (simp add: tasks_ok_def)
  from do_send_signal_progress [OF this lk th(2,1), of SIGCHLD E] show ?thesis using th(1) by auto
qed

lemma progressed_tasks_ok:
  assumes ok: "tasks_ok w" and pr: "progressed w w'"
  shows "tasks_ok w'"
proof -
  have "\<exists>th. tw_tasks w' a = Some th \<and> th_id th = tid" if tab: "thread_table w tid = Some a" for tid a
  proof -
    obtain th where th: "tw_tasks w a = Some th" "th_id th = tid" using tasks_okD [OF ok tab] by blast
    obtain ps where "tw_tasks w' a = Some (th\<lparr> pending_signals := ps \<rparr>)" by (rule progressed_task [OF pr th(1)])
    then show ?thesis using th(2) by simp
  qed
  moreover have "\<exists>p. tw_processes w (th_process th) = Some p" if "tw_tasks w' a = Some th" for a th
  proof (cases "tw_tasks w a")
    case None
    then show ?thesis using that progressed_task_None [OF pr] by simp
  next
    case (Some t)
    obtain ps where "tw_tasks w' a = Some (t\<lparr> pending_signals := ps \<rparr>)" by (rule progressed_task [OF pr Some])
    then show ?thesis using that ok Some by (auto simp: tasks_ok_def)
  qed
  ultimately show ?thesis using ok pr by (auto simp: tasks_ok_def progressed_def)
qed

text \<open>What an exit leaves of the other threads: those that were asleep may be ready, the children of the exiting thread belong to
  the init thread.\<close>

definition kept_task :: "task_env \<Rightarrow> int \<Rightarrow> bool \<Rightarrow> task_t \<Rightarrow> task_t \<Rightarrow> bool" where
  "kept_task E tid listed th th' \<longleftrightarrow> th_id th' = th_id th \<and> th_process th' = th_process th \<and> th_exit_code th' = th_exit_code th \<and>
     th_parent_id th' = (if listed \<and> th_parent_id th = tid then init_thread_id E else th_parent_id th)"

definition kept_states :: "sched_t \<Rightarrow> sched_t \<Rightarrow> bool" where
  "kept_states s s' \<longleftrightarrow> sched_ok s' \<and> sched_locked s' = sched_locked s \<and> idle_thread s' = idle_thread s \<and>
     (\<forall>b. t_state (threads s' b) = t_state (threads s b) \<or>
        asleep (t_state (threads s b)) \<and> t_state (threads s' b) = THREAD_READY) \<and>
     (\<forall>b. in_scheduler (threads s b) \<longrightarrow> in_scheduler (threads s' b))"

definition orphaned :: "task_env \<Rightarrow> int \<Rightarrow> task_world \<Rightarrow> task_world \<Rightarrow> bool" where
  "orphaned E tid w w' \<longleftrightarrow> thread_table w' = thread_table w \<and> tw_processes w' = tw_processes w \<and>
     kept_states (tw_sched w) (tw_sched w') \<and>
     (\<forall>b. rel_option (kept_task E tid (b \<in> ran (thread_table w))) (tw_tasks w b) (tw_tasks w' b))"

lemma progressed_states: "progressed w w' \<Longrightarrow> kept_states (tw_sched w) (tw_sched w')"
  unfolding progressed_def kept_states_def by (elim conjE) (intro conjI; assumption)

lemma kept_states_trans: "kept_states s s' \<Longrightarrow> kept_states s' s'' \<Longrightarrow> kept_states s s''"
  unfolding kept_states_def by metis

lemma orphaned_task:
  assumes "orphaned E tid w w'" and "tw_tasks w b = Some th"
  obtains th' where "tw_tasks w' b = Some th'" "kept_task E tid (b \<in> ran (thread_table w)) th th'"
proof -
  have "rel_option (kept_task E tid (b \<in> ran (thread_table w))) (tw_tasks w b) (tw_tasks w' b)"
    using assms(1) unfolding orphaned_def by blast
  then show ?thesis using that assms(2) by (auto simp: option_rel_Some1)
qed

lemma orphaned_task_ex:
  "orphaned E tid w w' \<Longrightarrow> tw_tasks w b = Some th \<Longrightarrow>
   \<exists>th'. tw_tasks w' b = Some th' \<and> kept_task E tid (b \<in> ran (thread_table w)) th th'"
  by (rule orphaned_task [of E tid w w' b th]) blast+

lemma orphaned_tasks_ok:
  assumes ok: "tasks_ok w" and or: "orphaned E tid w w'"
  shows "tasks_ok w'"
proof -
  have "\<exists>th. tw_tasks w' a = Some th \<and> th_id th = tid'" if tab: "thread_table w tid' = Some a" for tid' a
  proof -
    obtain th where th: "tw_tasks w a = Some th" "th_id th = tid'" using tasks_okD [OF ok tab] by blast
    obtain th' where "tw_tasks w' a = Some th'" "kept_task E tid (a \<in> ran (thread_table w)) th th'" by (rule orphaned_task [OF or th(1)])
    then show ?thesis using th(2) by (simp add: kept_task_def)
  qed
  moreover have "\<exists>p. tw_processes w (th_process th) = Some p" if "tw_tasks w' a = Some th" for a th
  proof -
    have "rel_option (kept_task E tid (a \<in> ran (thread_table w))) (tw_tasks w a) (tw_tasks w' a)"
      using or unfolding orphaned_def by blast
    then show ?thesis using ok that by (auto simp: option_rel_Some2 kept_task_def tasks_ok_def)
  qed
  ultimately show ?thesis using ok or by (auto simp: tasks_ok_def orphaned_def kept_states_def)
qed

lemma orphaned_progressed:
  assumes "progressed w1 w2" and "orphaned E tid w2 w3" and "progressed w3 w4"
  shows "orphaned E tid w1 w4"
proof -
  have same: "thread_table w2 = thread_table w1" "thread_table w3 = thread_table w2" "thread_table w4 = thread_table w3"
    "tw_processes w2 = tw_processes w1" "tw_processes w3 = tw_processes w2" "tw_processes w4 = tw_processes w3"
    using assms by (auto simp: progressed_def orphaned_def)
  have "kept_states (tw_sched w2) (tw_sched w3)" using assms(2) by (simp add: orphaned_def)
  from kept_states_trans [OF kept_states_trans [OF progressed_states [OF assms(1)] this] progressed_states [OF assms(3)]]
  have "kept_states (tw_sched w1) (tw_sched w4)" .
  moreover have "rel_option (kept_task E tid (b \<in> ran (thread_table w1))) (tw_tasks w1 b) (tw_tasks w4 b)" for b
  proof (cases "tw_tasks w1 b")
    case None
    then have "tw_tasks w2 b = None" using progressed_task_None [OF assms(1)] by simp
    moreover have "rel_option (kept_task E tid (b \<in> ran (thread_table w2))) (tw_tasks w2 b) (tw_tasks w3 b)"
      using assms(2) unfolding orphaned_def by blast
    ultimately show ?thesis using None progressed_task_None [OF assms(3)] by simp
  next
    case (Some th)
    obtain ps where 2: "tw_tasks w2 b = Some (th\<lparr> pending_signals := ps \<rparr>)" by (rule progressed_task [OF assms(1) Some])
    obtain th' where 3: "tw_tasks w3 b = Some th'" "kept_task E tid (b \<in> ran (thread_table w2)) (th\<lparr> pending_signals := ps \<rparr>) th'"
      by (rule orphaned_task [OF assms(2) 2])
    obtain ps' where "tw_tasks w4 b = Some (th'\<lparr> pending_signals := ps' \<rparr>)" by (rule progressed_task [OF assms(3) 3(1)])
    then show ?thesis using Some 3(2) same by (simp add: kept_task_def)
  qed
  ultimately show ?thesis using same by (simp add: orphaned_def)
qed

lemma reparent_phase:
  assumes ord: "env_order E w" and ok: "tasks_ok w"
  shows "\<exists>f w'. reparent_loop E tid (te_order E (thread_table w)) False w = Some (f, w') \<and> tw_sched w' = tw_sched w \<and> orphaned E tid w w'"
proof -
  have as: "set (te_order E (thread_table w)) = ran (thread_table w)" using ord by (simp add: env_order_def)
  have "\<forall>a \<in> set (te_order E (thread_table w)). tw_tasks w a \<noteq> None"
  proof
    fix a assume "a \<in> set (te_order E (thread_table w))"
    then obtain t where "thread_table w t = Some a" using as by (auto simp: ran_def)
    from tasks_okD [OF ok this] show "tw_tasks w a \<noteq> None" by auto
  qed
  from reparent_loop_eq [OF this, of E tid False] obtain f where
    f: "reparent_loop E tid (te_order E (thread_table w)) False w = Some (f, w\<lparr> tw_tasks := (\<lambda>b. if b \<in> ran (thread_table w)
       then map_option (reparented tid (init_thread_id E)) (tw_tasks w b) else tw_tasks w b) \<rparr>)" unfolding as by blast
  have "orphaned E tid w (w\<lparr> tw_tasks := (\<lambda>b. if b \<in> ran (thread_table w)
       then map_option (reparented tid (init_thread_id E)) (tw_tasks w b) else tw_tasks w b) \<rparr>)"
  proof -
    have "rel_option (kept_task E tid (b \<in> ran (thread_table w))) (tw_tasks w b) (if b \<in> ran (thread_table w)
       then map_option (reparented tid (init_thread_id E)) (tw_tasks w b) else tw_tasks w b)" for b
      by (cases "tw_tasks w b") (auto simp: kept_task_def reparented_def)
    moreover have "kept_states (tw_sched w) (tw_sched w)" using ok by (simp add: kept_states_def tasks_ok_def)
    ultimately show ?thesis by (simp add: orphaned_def)
  qed
  with f show ?thesis by auto
qed


lemma notify_parent:
  assumes ok: "tasks_ok w" and lk: "sched_locked (tw_sched w)"
  shows "\<exists>w'. (if parent \<noteq> - 1 then do {
         p \<leftarrow> get_thread_by_id parent w;
         case p of None \<Rightarrow> Some w | Some p \<Rightarrow> do_send_signal E p SIGCHLD w }
       else Some w) = Some w' \<and> progressed w w' \<and>
    (\<forall>p th. parent \<noteq> - 1 \<and> thread_table w parent = Some p \<and> tw_tasks w p = Some th \<and> heard E SIGCHLD th \<and>
        asleep (t_state (threads (tw_sched w) p)) \<longrightarrow>
      t_state (threads (tw_sched w') p) = THREAD_READY \<and> in_scheduler (threads (tw_sched w') p))"
proof (cases "parent \<noteq> - 1 \<and> thread_table w parent \<noteq> None")
  case True
  then obtain p where p: "thread_table w parent = Some p" by blast
  from signal_by_id [OF ok lk p, of E] obtain w' where "do_send_signal E p SIGCHLD w = Some w'" "progressed w w'"
    "\<forall>th. tw_tasks w p = Some th \<and> heard E SIGCHLD th \<and> asleep (t_state (threads (tw_sched w) p)) \<longrightarrow>
      t_state (threads (tw_sched w') p) = THREAD_READY \<and> in_scheduler (threads (tw_sched w') p)" by blast
  with True p lk show ?thesis by (intro exI [of _ w']) (simp add: get_thread_by_id_def)
next
  case False
  then show ?thesis using ok lk by (intro exI [of _ w]) (auto simp: get_thread_by_id_def tasks_ok_def intro: progressed_refl)
qed

lemma notify_init:
  assumes ok: "tasks_ok w" and lk: "sched_locked (tw_sched w)" and i: "thread_table w (init_thread_id E) = Some i"
  shows "\<exists>w'. (if f then do {
         init \<leftarrow> get_thread_by_id (init_thread_id E) w;
         i \<leftarrow> init;
         do_send_signal E i SIGCHLD w }
       else Some w) = Some w' \<and> progressed w w'"
proof (cases f)
  case True
  from signal_by_id [OF ok lk i, of E] obtain w' where "do_send_signal E i SIGCHLD w = Some w'" "progressed w w'" by blast
  with True i lk show ?thesis by (intro exI [of _ w']) (simp add: get_thread_by_id_def)
next
  case False
  then show ?thesis using ok by (intro exI [of _ w]) (auto simp: tasks_ok_def intro: progressed_refl)
qed

text \<open>The world at the moment the thread has become a zombie.\<close>

definition zombied :: "int \<Rightarrow> addr \<Rightarrow> task_t \<Rightarrow> task_world \<Rightarrow> task_world" where
  "zombied code cur c w = w\<lparr>
     tw_sched := thread_upd cur (\<lambda>th. th\<lparr> t_state := THREAD_ZOMBIE \<rparr>) (tw_sched w\<lparr> sched_locked := True \<rparr>),
     tw_tasks := (tw_tasks w)(cur \<mapsto> c\<lparr> th_exit_code := code \<rparr>) \<rparr>"

lemma zombied_ok:
  assumes ok: "tasks_ok w" and c: "tw_tasks w cur = Some c" and out: "cur \<noteq> idle_thread (tw_sched w)" "\<not> in_scheduler (threads (tw_sched w) cur)"
  shows "tasks_ok (zombied code cur c w)"
proof -
  have "sched_ok (tw_sched (zombied code cur c w))"
    using ok out mark_state_ok [of "tw_sched w\<lparr> sched_locked := True \<rparr>" cur THREAD_ZOMBIE] by (simp add: zombied_def tasks_ok_def)
  moreover have "th_id c = tid" if tab: "thread_table w tid = Some cur" for tid
  proof -
    obtain th where "tw_tasks w cur = Some th" "th_id th = tid" using tasks_okD [OF ok tab] by blast
    then show ?thesis using c by simp
  qed
  ultimately show ?thesis using ok c by (auto simp: tasks_ok_def zombied_def)
qed

lemma thread_exit_steps:
  assumes "\<not> sched_locked (tw_sched w)" and "tw_tasks w cur = Some c"
  shows "thread_exit E code cur w = do {
    w \<leftarrow> (if th_parent_id c \<noteq> - 1 then do {
         p \<leftarrow> get_thread_by_id (th_parent_id c) (zombied code cur c w);
         case p of None \<Rightarrow> Some (zombied code cur c w) | Some p \<Rightarrow> do_send_signal E p SIGCHLD (zombied code cur c w) }
       else Some (zombied code cur c w));
    (f, w) \<leftarrow> reparent_loop E (th_id c) (te_order E (thread_table w)) False w;
    w \<leftarrow> (if f then do {
         init \<leftarrow> get_thread_by_id (init_thread_id E) w;
         i \<leftarrow> init;
         do_send_signal E i SIGCHLD w }
       else Some w);
    on_sched scheduler_unlock w }"
  using assms unfolding zombied_def by (simp add: thread_exit_def on_sched_def scheduler_lock_def set_state_def)

lemma thread_exit_eq:
  assumes ord: "env_order E w" and ok: "tasks_ok w" and un: "\<not> sched_locked (tw_sched w)" and c: "tw_tasks w cur = Some c"
    and out: "cur \<noteq> idle_thread (tw_sched w)" "\<not> in_scheduler (threads (tw_sched w) cur)"
    and i: "thread_table w (init_thread_id E) = Some i"
  shows "\<exists>w'. thread_exit E code cur w = Some (w'\<lparr> tw_sched := tw_sched w'\<lparr> sched_locked := False \<rparr> \<rparr>) \<and>
    orphaned E (th_id c) (zombied code cur c w) w' \<and>
    (\<forall>p th. th_parent_id c \<noteq> - 1 \<and> thread_table w (th_parent_id c) = Some p \<and> p \<noteq> cur \<and> tw_tasks w p = Some th \<and>
        heard E SIGCHLD th \<and> asleep (t_state (threads (tw_sched w) p)) \<longrightarrow>
      t_state (threads (tw_sched w') p) = THREAD_READY \<and> in_scheduler (threads (tw_sched w') p))"
proof -
  let ?z = "zombied code cur c w"
  have z: "tasks_ok ?z" "sched_locked (tw_sched ?z)" using zombied_ok [OF ok c out] by (simp_all add: zombied_def)
  obtain w2 where w2: "(if th_parent_id c \<noteq> - 1 then do {
         p \<leftarrow> get_thread_by_id (th_parent_id c) ?z;
         case p of None \<Rightarrow> Some ?z | Some p \<Rightarrow> do_send_signal E p SIGCHLD ?z }
       else Some ?z) = Some w2" "progressed ?z w2"
    "\<forall>p th. th_parent_id c \<noteq> - 1 \<and> thread_table ?z (th_parent_id c) = Some p \<and> tw_tasks ?z p = Some th \<and> heard E SIGCHLD th \<and>
        asleep (t_state (threads (tw_sched ?z) p)) \<longrightarrow>
      t_state (threads (tw_sched w2) p) = THREAD_READY \<and> in_scheduler (threads (tw_sched w2) p)"
    using notify_parent [OF z, of "th_parent_id c" E] by blast
  have ok2: "tasks_ok w2" by (rule progressed_tasks_ok [OF z(1) w2(2)])
  have ord2: "env_order E w2" using ord w2(2) by (simp add: env_order_def progressed_def zombied_def)
  obtain f w3 where w3: "reparent_loop E (th_id c) (te_order E (thread_table w2)) False w2 = Some (f, w3)" "tw_sched w3 = tw_sched w2"
    "orphaned E (th_id c) w2 w3" using reparent_phase [OF ord2 ok2, of "th_id c"] by blast
  have ok3: "tasks_ok w3" by (rule orphaned_tasks_ok [OF ok2 w3(3)])
  have lk3: "sched_locked (tw_sched w3)" using z(2) w2(2) w3(2) by (simp add: progressed_def)
  have i3: "thread_table w3 (init_thread_id E) = Some i" using i w2(2) w3(3) by (simp add: progressed_def orphaned_def zombied_def)
  obtain w4 where w4: "(if f then do {
         init \<leftarrow> get_thread_by_id (init_thread_id E) w3;
         i \<leftarrow> init;
         do_send_signal E i SIGCHLD w3 }
       else Some w3) = Some w4" "progressed w3 w4" using notify_init [OF ok3 lk3 i3, of f] by blast
  have lk4: "sched_locked (tw_sched w4)" using lk3 w4(2) by (simp add: progressed_def)
  have "thread_exit E code cur w = Some (w4\<lparr> tw_sched := tw_sched w4\<lparr> sched_locked := False \<rparr> \<rparr>)"
    unfolding thread_exit_steps [OF un c] w2(1) Option.bind.bind_lunit w3(1) prod.case w4(1)
    using lk4 by (simp add: on_sched_def scheduler_unlock_def)
  moreover have "orphaned E (th_id c) ?z w4" by (rule orphaned_progressed [OF w2(2) w3(3) w4(2)])
  moreover have "t_state (threads (tw_sched w4) p) = THREAD_READY \<and> in_scheduler (threads (tw_sched w4) p)"
    if "t_state (threads (tw_sched w2) p) = THREAD_READY \<and> in_scheduler (threads (tw_sched w2) p)" for p
    using that progressed_states [OF w4(2)] w3(2) unfolding kept_states_def by metis
  moreover have "tw_tasks ?z p = tw_tasks w p" "t_state (threads (tw_sched ?z) p) = t_state (threads (tw_sched w) p)" if "p \<noteq> cur" for p
    using that by (simp_all add: zombied_def)
  moreover have "thread_table ?z = thread_table w" by (simp add: zombied_def)
  ultimately show ?thesis using w2(3) by (intro exI [of _ w4] conjI) (assumption | metis)+
qed


section \<open>Wait\<close>

lemma heard_unblocked:
  assumes "blocked_signals th AND sig_bit (signal - 1) = 0" and "0 < signal" "signal < NSIG"
  shows "heard E signal th"
proof (cases "th_id th = init_thread_id E")
  case False
  let ?n = "nat (signal - 1)"
  have n: "?n < 64" using assms(2,3) by simp
  have b: "bit (sig_bit (signal - 1)) ?n" using n by (simp add: sig_bit_def bit_simps)
  then have "\<not> bit (blocked_signals th) ?n" using assms(1) by (metis bit_0_eq bit_and_iff bot_apply bot_bool_def)
  then have "bit ((pending_signals th OR sig_bit (signal - 1)) AND NOT (blocked_signals th)) ?n"
    using b n by (simp add: bit_simps)
  then show ?thesis using False by (auto simp: heard_def is_signal_pending_def signalled_def)
qed (simp add: heard_def)

lemma find_child_zombie:
  assumes "a \<in> set as" and "t_state (threads (tw_sched w) a) = THREAD_ZOMBIE"
    and "\<forall>b \<in> set as. b \<noteq> a \<longrightarrow> t_state (threads (tw_sched w) b) \<noteq> THREAD_ZOMBIE"
    and "tw_tasks w a = Some th" and "th_parent_id th = parent"
  shows "find_child True parent as w = Some (Some a)"
  using assms by (induction as) auto

lemma destroy_thread_eq:
  assumes "tw_tasks w a = Some th" and "tw_processes w (th_process th) = Some pr" and "\<not> sched_locked (tw_sched w)"
  shows "\<exists>w'. destroy_thread a w = Some w' \<and> thread_table w' = thread_table w \<and> tw_tasks w' = (tw_tasks w)(a := None) \<and>
    tw_sched w' = tw_sched w"
proof -
  have "(tw_sched w)\<lparr> sched_locked := False \<rparr> = tw_sched w" using assms(3) by simp
  then show ?thesis using assms
    by (auto simp: destroy_thread_def upd_process_def on_sched_def scheduler_lock_def scheduler_unlock_def remove_process_def
      destroy_process_def)
qed

lemma zombied_states:
  "kept_states (tw_sched (zombied code cur c w)) s \<Longrightarrow>
   t_state (threads s b) = THREAD_ZOMBIE \<longleftrightarrow> b = cur \<or> t_state (threads (tw_sched w) b) = THREAD_ZOMBIE"
proof -
  assume "kept_states (tw_sched (zombied code cur c w)) s"
  then have "t_state (threads s b) = t_state (threads (tw_sched (zombied code cur c w)) b) \<or>
      asleep (t_state (threads (tw_sched (zombied code cur c w)) b)) \<and> t_state (threads s b) = THREAD_READY"
    unfolding kept_states_def by blast
  then show ?thesis by (cases "b = cur") (auto simp: zombied_def asleep_def)
qed

lemma wait4_turn_collects:
  assumes un: "\<not> sched_locked (tw_sched w)" and c: "tw_tasks w cur = Some c"
    and tab: "thread_table w (th_id th) = Some a" and th: "tw_tasks w a = Some th" and z: "t_state (threads (tw_sched w) a) = THREAD_ZOMBIE"
    and pr: "tw_processes w (th_process th) = Some pr"
    and pid: "0 < pid \<and> pid = th_id th \<or>
      pid = - 1 \<and> find_child True (th_id c) (te_order E (thread_table w)) (w\<lparr> tw_sched := tw_sched w\<lparr> sched_locked := True \<rparr> \<rparr>) = Some (Some a)"
  shows "\<exists>w'. wait4_turn E pid options cur w = Some (Returns (Inr (Some (th_id th, th_exit_code th))), w') \<and>
    thread_table w' = (thread_table w)(th_id th := None) \<and> tw_tasks w' = (tw_tasks w)(a := None) \<and> tw_sched w' = tw_sched w"
proof -
  let ?l = "w\<lparr> tw_sched := tw_sched w\<lparr> sched_locked := True \<rparr> \<rparr>"
  let ?w = "w\<lparr> thread_table := (thread_table w)(th_id th := None) \<rparr>"
  have f: "find_and_remove_zombie_child E (th_id c) pid ?l = Some (Some a, ?l\<lparr> thread_table := (thread_table w)(th_id th := None) \<rparr>)"
    using pid tab th z by (auto simp: find_and_remove_zombie_child_def)
  have same: "w\<lparr> thread_table := (thread_table w)(th_id th := None), tw_sched := tw_sched w\<lparr> sched_locked := False \<rparr> \<rparr> = ?w"
    using un by simp
  obtain w' where w': "destroy_thread a ?w = Some w'" "thread_table w' = thread_table ?w" "tw_tasks w' = (tw_tasks w)(a := None)"
    "tw_sched w' = tw_sched w" using destroy_thread_eq [of ?w a th pr] th pr un by auto
  have "wait4_turn E pid options cur w = Some (Returns (Inr (Some (th_id th, th_exit_code th))), w')"
    using un c f th w'(1) by (simp add: wait4_turn_def on_sched_def scheduler_lock_def scheduler_unlock_def same)
  with w' show ?thesis by simp
qed


text \<open>C10: A thread that exits is collected by its parent. If the parent waits for it, by its id or for any child when no other thread is a
  zombie, and has not blocked \<^verbatim>\<open>SIGCHLD\<close>, then the exit puts the parent among the ready threads, and its next turn in
  \<^verbatim>\<open>wait4\<close> returns the id and the exit code of the child, which leaves the table and the memory; the children that the exited thread had
  belong to the init thread.\<close>

theorem exit_is_collected:
  assumes ord: "env_order E w" and ok: "tasks_ok w" and un: "\<not> sched_locked (tw_sched w)"
    and init: "thread_table w (init_thread_id E) = Some i"
    and c: "thread_table w (th_id c) = Some cur" "tw_tasks w cur = Some c" "\<not> in_scheduler (threads (tw_sched w) cur)"
    and p: "thread_table w (th_parent_id c) = Some p" "tw_tasks w p = Some parent" "p \<noteq> cur" "th_parent_id c \<noteq> - 1"
    and waits: "t_state (threads (tw_sched w) p) = THREAD_WAITING" "blocked_signals parent AND sig_bit (SIGCHLD - 1) = 0"
    and pid: "0 < pid \<and> pid = th_id c \<or>
      pid = - 1 \<and> (\<forall>a \<in> ran (thread_table w). a \<noteq> cur \<longrightarrow> t_state (threads (tw_sched w) a) \<noteq> THREAD_ZOMBIE)"
  shows "\<exists>w' w''. thread_exit E code cur w = Some w' \<and>
    t_state (threads (tw_sched w') p) = THREAD_READY \<and> in_scheduler (threads (tw_sched w') p) \<and>
    wait4_turn E pid options p w' = Some (Returns (Inr (Some (th_id c, code))), w'') \<and>
    thread_table w'' = (thread_table w)(th_id c := None) \<and> tw_tasks w'' cur = None \<and> tasks_ok w' \<and>
    (\<forall>b \<in> ran (thread_table w). \<forall>th. b \<noteq> cur \<and> tw_tasks w b = Some th \<and> th_parent_id th = th_id c \<longrightarrow>
      (\<exists>th'. tw_tasks w'' b = Some th' \<and> th_id th' = th_id th \<and> th_parent_id th' = init_thread_id E))"
proof -
  let ?z = "zombied code cur c w" and ?u = "\<lambda>v. v\<lparr> tw_sched := tw_sched v\<lparr> sched_locked := False \<rparr> \<rparr>"
  have idle: "cur \<noteq> idle_thread (tw_sched w)" using tasks_okD [OF ok c(1)] by blast
  have ids: "th_id parent = th_parent_id c" "th_parent_id c \<noteq> th_id c" using tasks_ok_id [OF ok p(1,2)] p(1,3) c(1) by auto
  obtain v where v: "thread_exit E code cur w = Some (?u v)" "orphaned E (th_id c) ?z v"
    "t_state (threads (tw_sched v) p) = THREAD_READY \<and> in_scheduler (threads (tw_sched v) p)"
    using thread_exit_eq [OF ord ok un c(2) idle c(3) init, of code] p waits heard_unblocked [of parent SIGCHLD E]
    by (auto simp: asleep_def)
  have tab: "thread_table v = thread_table w" using v(2) by (simp add: orphaned_def zombied_def)
  have okv: "tasks_ok v" using orphaned_tasks_ok [OF zombied_ok [OF ok c(2) idle c(3)] v(2)] .
  have z: "tw_tasks ?z cur = Some (c\<lparr> th_exit_code := code \<rparr>)" "thread_table ?z = thread_table w" by (simp_all add: zombied_def)
  obtain th where th: "tw_tasks v cur = Some th" "kept_task E (th_id c) (cur \<in> ran (thread_table w)) (c\<lparr> th_exit_code := code \<rparr>) th"
    using orphaned_task_ex [OF v(2) z(1)] z(2) by auto
  have th': "th_id th = th_id c" "th_exit_code th = code" "th_parent_id th = th_parent_id c"
    using th(2) ids by (auto simp: kept_task_def)
  obtain pt where pt: "tw_tasks v p = Some pt" "th_id pt = th_id parent"
    using orphaned_task_ex [OF v(2), of p parent] p by (auto simp: zombied_def kept_task_def)
  obtain pr where pr: "tw_processes v (th_process th) = Some pr" using tasks_ok_process [OF okv th(1)] by blast
  have states: "kept_states (tw_sched ?z) (tw_sched v)" using v(2) by (simp add: orphaned_def)
  have zs: "t_state (threads (tw_sched v) b) = THREAD_ZOMBIE \<longleftrightarrow> b = cur \<or> t_state (threads (tw_sched w) b) = THREAD_ZOMBIE" for b
    by (rule zombied_states [OF states])
  have "find_child True (th_id pt) (te_order E (thread_table (?u v))) ((?u v)\<lparr> tw_sched := tw_sched v\<lparr> sched_locked := True \<rparr> \<rparr>) =
      Some (Some cur)" if "pid = - 1"
    using that pid c(1) zs th th' pt(2) ids(1) ord tab by (intro find_child_zombie [where th = th]) (auto simp: env_order_def ran_def)
  then obtain w'' where w'': "wait4_turn E pid options p (?u v) = Some (Returns (Inr (Some (th_id th, th_exit_code th))), w'')"
    "thread_table w'' = (thread_table w)(th_id th := None)" "tw_tasks w'' = (tw_tasks v)(cur := None)"
    using wait4_turn_collects [of "?u v" p pt th cur pr pid E options] pt th pr zs th' tab c(1) pid by auto
  have "\<exists>th'. tw_tasks w'' b = Some th' \<and> th_id th' = th_id t \<and> th_parent_id th' = init_thread_id E"
    if b: "b \<in> ran (thread_table w)" "b \<noteq> cur" "tw_tasks w b = Some t" "th_parent_id t = th_id c" for b t
    using orphaned_task_ex [OF v(2), of b t] b w''(3) by (auto simp: zombied_def kept_task_def)
  moreover have "tasks_ok (?u v)" using okv by (simp add: tasks_ok_def)
  ultimately show ?thesis using v(1,3) w'' th' by (intro exI [of _ "?u v"] exI [of _ w'']) auto
qed


text \<open>An init thread that waits, its child, and a grandchild.\<close>

definition family_task :: "int \<Rightarrow> int \<Rightarrow> task_t" where
  "family_task i p = \<lparr> th_id = i, th_parent_id = p, th_name = [], th_exit_code = 0, th_process = 100, pending_signals = 0,
     blocked_signals = 0, signal_handlers = default_handlers, th_regs = \<lparr> ur_eax = 0, ur_eip = 0, ur_esp = 0 \<rparr> \<rparr>"

definition family :: task_world where
  "family = \<lparr> tw_sched = \<lparr> first_ready = None, last_ready = None, first_expired = None, last_expired = None,
       threads = (\<lambda>a. new_thread\<lparr> t_state := (if a = 20 then THREAD_RUNNING else THREAD_WAITING) \<rparr>),
       sched_locked = False, idle_thread = 1, idle_time = 0, current_thread = Some 20 \<rparr>,
     tw_tasks = [10 \<mapsto> family_task 1 (- 1), 20 \<mapsto> family_task 2 1, 30 \<mapsto> family_task 3 2],
     tw_processes = [100 \<mapsto> \<lparr> pr_id = 0, pr_name = [], pr_thread_count = 3, pr_vmem_size = 0, pr_pmem_size = 0, pr_tld_table = [] \<rparr>],
     thread_table = [1 \<mapsto> 10, 2 \<mapsto> 20, 3 \<mapsto> 30], thread_id_counter = 4, process_table = [0 \<mapsto> 100], process_id_counter = 1,
     tw_destroyed = [], tw_contexts = (\<lambda>_. \<lparr> ur_eax = 0, ur_eip = 0, ur_esp = 0 \<rparr>), tw_stack = (\<lambda>_. 0) \<rparr>"

definition family_env :: task_env where
  "family_env = \<lparr> init_thread_id = 1, te_order = (\<lambda>_. [10, 20, 30]) \<rparr>"

lemma family_ran [simp]: "ran (thread_table family) = {10, 20, 30}"
  by (auto simp: family_def)

lemma family_ok: "tasks_ok family" "env_order family_env family"
proof -
  have "sched_inv (tw_sched family) [] []" by (simp add: sched_inv_def queue_ok_def family_def new_thread_def reset_thread_quantum_def)
  then have "sched_ok (tw_sched family)" by (auto simp: sched_ok_def)
  then show "tasks_ok family" by (auto simp: tasks_ok_def family_def family_task_def split: if_splits)
  show "env_order family_env family" by (simp add: env_order_def family_env_def)
qed

theorem exit_is_collected_witness:
  "\<exists>w' w''. thread_exit family_env 5 20 family = Some w' \<and>
    t_state (threads (tw_sched w') 10) = THREAD_READY \<and>
    wait4_turn family_env (- 1) 0 10 w' = Some (Returns (Inr (Some (2, 5))), w'') \<and> tw_tasks w'' 20 = None \<and>
    map_option th_parent_id (tw_tasks w'' 30) = Some 1"
proof -
  have "\<forall>a \<in> ran (thread_table family). a \<noteq> 20 \<longrightarrow> t_state (threads (tw_sched family) a) \<noteq> THREAD_ZOMBIE"
    by (simp add: family_def)
  moreover have "30 \<in> ran (thread_table family)" by simp
  moreover have "tw_tasks family 30 = Some (family_task 3 2)" by (simp add: family_def)
  ultimately show ?thesis
    using exit_is_collected [OF family_ok(2,1), of 10 "family_task 2 1" 20 10 "family_task 1 (- 1)" "- 1" 5 0]
    by (fastforce simp: family_def family_env_def family_task_def new_thread_def reset_thread_quantum_def)
qed


section \<open>Masks\<close>

definition masks_ok :: "task_world \<Rightarrow> bool" where
  "masks_ok w \<longleftrightarrow> (\<forall>a th. tw_tasks w a = Some th \<longrightarrow> blocked_signals th AND NOT BLOCKABLE_SIGNALS = 0)"

lemma blockable_parts:
  fixes x y :: u64
  assumes "x AND NOT BLOCKABLE_SIGNALS = 0"
  shows "(x OR y AND BLOCKABLE_SIGNALS) AND NOT BLOCKABLE_SIGNALS = 0"
    and "(x AND NOT (y AND BLOCKABLE_SIGNALS)) AND NOT BLOCKABLE_SIGNALS = 0"
    and "(y AND BLOCKABLE_SIGNALS) AND NOT BLOCKABLE_SIGNALS = 0"
proof -
  have z: "(y AND BLOCKABLE_SIGNALS) AND NOT BLOCKABLE_SIGNALS = 0" by (simp add: and.assoc)
  have "(x OR y AND BLOCKABLE_SIGNALS) AND NOT BLOCKABLE_SIGNALS =
      (x AND NOT BLOCKABLE_SIGNALS) OR ((y AND BLOCKABLE_SIGNALS) AND NOT BLOCKABLE_SIGNALS)"
    by (simp add: bit.conj_disj_distrib2)
  then show "(x OR y AND BLOCKABLE_SIGNALS) AND NOT BLOCKABLE_SIGNALS = 0" using assms z by simp
  have "(x AND NOT (y AND BLOCKABLE_SIGNALS)) AND NOT BLOCKABLE_SIGNALS = (x AND NOT BLOCKABLE_SIGNALS) AND NOT (y AND BLOCKABLE_SIGNALS)"
    by (simp only: ac_simps)
  then show "(x AND NOT (y AND BLOCKABLE_SIGNALS)) AND NOT BLOCKABLE_SIGNALS = 0" using assms by simp
  show "(y AND BLOCKABLE_SIGNALS) AND NOT BLOCKABLE_SIGNALS = 0" by (rule z)
qed

lemma unblockable_heard:
  assumes "blocked_signals th AND NOT BLOCKABLE_SIGNALS = 0" and "signal = SIGKILL \<or> signal = SIGSTOP"
  shows "heard E signal th"
proof -
  have "sig_bit (signal - 1) AND NOT BLOCKABLE_SIGNALS = sig_bit (signal - 1)"
    using assms(2) by (auto simp: BLOCKABLE_SIGNALS_def sig_bit_def)
  then have "blocked_signals th AND sig_bit (signal - 1) = (blocked_signals th AND NOT BLOCKABLE_SIGNALS) AND sig_bit (signal - 1)"
    by (metis and.assoc and.commute)
  then show ?thesis using assms by (intro heard_unblocked) auto
qed




section \<open>Delivery\<close>

lemma sig_bit_disjoint: "0 \<le> i \<Longrightarrow> 0 \<le> j \<Longrightarrow> i \<noteq> j \<Longrightarrow> sig_bit i AND sig_bit j = 0"
proof -
  assume ij: "0 \<le> i" "0 \<le> j" "i \<noteq> j"
  have "bit (sig_bit k) n \<longleftrightarrow> n = nat k \<and> n < 64" for k n by (auto simp: sig_bit_def bit_simps)
  then have "\<not> bit (sig_bit i AND sig_bit j) n" for n using ij by (auto simp: bit_and_iff)
  then show ?thesis by (intro bit_eqI) simp
qed

lemma handle_signals_loop_skip:
  assumes "tw_tasks w a = Some th" and "\<forall>j. i \<le> j \<and> j < k \<longrightarrow> pending_signals th AND sig_bit j = 0" and "i \<le> k" "k \<le> NSIG - 1"
  shows "handle_signals_loop E i a w = handle_signals_loop E k a w"
  using assms(2,3)
proof (induction "nat (k - i)" arbitrary: i)
  case (Suc n)
  have ik: "i < k" using Suc.hyps(2) by simp
  have "pending_signals th AND sig_bit i = 0" using Suc.prems ik by blast
  then have "handle_signals_loop E i a w = handle_signals_loop E (i + 1) a w"
    using assms(1,4) ik by (subst handle_signals_loop.simps) simp
  also have "\<dots> = handle_signals_loop E k a w" using Suc.hyps Suc.prems ik by (intro Suc.hyps(1)) auto
  finally show ?case .
qed simp

text \<open>The mask plays no part in the delivery: once some signal is to be delivered, the lowest pending signal ends a thread that has no
  handler for it, also when the thread has blocked that signal.\<close>

theorem blocked_signal_delivered:
  assumes th: "tw_tasks w a = Some th" and len: "length (signal_handlers th) = 64"
    and sig: "0 < signal" "signal < NSIG" "signal \<notin> {SIGCHLD, SIGWINCH, SIGSTOP, SIGCONT}"
    and pend: "pending_signals th AND sig_bit (signal - 1) \<noteq> 0" "\<forall>j. 0 \<le> j \<and> j < signal - 1 \<longrightarrow> pending_signals th AND sig_bit j = 0"
    and dfl: "sa_handler (signal_handlers th ! nat (signal - 1)) = SIG_DFL" and some: "is_signal_pending th"
  shows "arch_handle_signals E True a w = do {
    w \<leftarrow> thread_exit E signal a (w\<lparr> tw_tasks := (tw_tasks w)(a \<mapsto> th\<lparr> pending_signals := pending_signals th AND NOT (sig_bit (signal - 1)) \<rparr>) \<rparr>);
    Some (True, w) }"
proof -
  have "arch_handle_signals E True a w = handle_signals_loop E (signal - 1) a w"
    using th some sig pend(2) handle_signals_loop_skip [OF th, of 0 "signal - 1" E] by (simp add: arch_handle_signals_def handle_signals_def)
  also have "\<dots> = do {
    w \<leftarrow> thread_exit E signal a (w\<lparr> tw_tasks := (tw_tasks w)(a \<mapsto> th\<lparr> pending_signals := pending_signals th AND NOT (sig_bit (signal - 1)) \<rparr>) \<rparr>);
    Some (True, w) }"
    using th sig pend(1) dfl len by (subst handle_signals_loop.simps) (simp add: read_cell_def)
  finally show ?thesis .
qed

text \<open>C14: A thread can refuse to be killed: \<^verbatim>\<open>sigaction\<close> accepts an action for \<^verbatim>\<open>SIGKILL\<close>, and when a running thread ignores it,
  a \<^verbatim>\<open>SIGKILL\<close> that is sent to it as the only pending signal is dropped on the next return to user code and the thread goes on.\<close>

theorem sigkill_can_be_ignored:
  assumes c: "tw_tasks w cur = Some c" and len: "length (signal_handlers c) = 64" and none: "pending_signals c = 0" "blocked_signals c = 0"
    and un: "\<not> sched_locked (tw_sched w)" and run: "t_state (threads (tw_sched w) cur) = THREAD_RUNNING" and init: "th_id c \<noteq> init_thread_id E"
  shows "\<exists>old w' w1. sys_sigaction SIGKILL (Some \<lparr> sa_handler = SIG_IGN, sa_mask = 0, sa_flags = 0 \<rparr>) cur w = Some (Inr old, w') \<and>
    send_signal E cur SIGKILL w' = Some w1 \<and> arch_handle_signals E True cur w1 = Some (False, w')"
proof -
  let ?c = "c\<lparr> signal_handlers := (signal_handlers c)[8 := \<lparr> sa_handler = SIG_IGN, sa_mask = 0, sa_flags = 0 \<rparr>], pending_signals := 0 \<rparr>"
  let ?w = "w\<lparr> tw_tasks := (tw_tasks w)(cur \<mapsto> ?c) \<rparr>" and ?k = "?c\<lparr> pending_signals := sig_bit 8 \<rparr>"
  let ?w1 = "w\<lparr> tw_tasks := (tw_tasks w)(cur \<mapsto> ?k) \<rparr>"
  have act: "sys_sigaction SIGKILL (Some \<lparr> sa_handler = SIG_IGN, sa_mask = 0, sa_flags = 0 \<rparr>) cur w = Some (Inr (signal_handlers c ! 8), ?w)"
    using c len none by (simp add: sys_sigaction_def read_cell_def)
  have same: "w\<lparr> tw_tasks := t, tw_sched := (tw_sched w)\<lparr> sched_locked := False \<rparr> \<rparr> = w\<lparr> tw_tasks := t \<rparr>" for t using un by simp
  have send: "send_signal E cur SIGKILL ?w = Some ?w1"
    using un run init none by (simp add: send_signal_def do_send_signal_def do_wake_up_thread_def on_sched_def scheduler_lock_def
      scheduler_unlock_def is_signal_pending_def sig_bit_def same)
  have "handle_signals_loop E 0 cur ?w1 = handle_signals_loop E 8 cur ?w1"
    using sig_bit_disjoint by (intro handle_signals_loop_skip [where th = ?k]) auto
  also have "\<dots> = handle_signals_loop E 9 cur ?w"
    using len none by (subst handle_signals_loop.simps) (simp add: read_cell_def sig_bit_def)
  also have "\<dots> = handle_signals_loop E 64 cur ?w"
    using none by (intro handle_signals_loop_skip [where th = ?c]) auto
  also have "\<dots> = Some (False, ?w)" by (subst handle_signals_loop.simps) simp
  finally have "arch_handle_signals E True cur ?w1 = Some (False, ?w)"
    using none by (simp add: arch_handle_signals_def handle_signals_def is_signal_pending_def sig_bit_def)
  with act send show ?thesis by blast
qed

theorem sigkill_can_be_ignored_witness:
  "\<exists>old w' w1. sys_sigaction SIGKILL (Some \<lparr> sa_handler = SIG_IGN, sa_mask = 0, sa_flags = 0 \<rparr>) 20 family = Some (Inr old, w') \<and>
    send_signal family_env 20 SIGKILL w' = Some w1 \<and> arch_handle_signals family_env True 20 w1 = Some (False, w')"
  using sigkill_can_be_ignored [of family 20 "family_task 2 1" family_env]
  by (simp add: family_def family_task_def default_handlers_def family_env_def)

text \<open>The number of a signal is not tested by the system call but asserted in the kernel: a call with a number that is out of range, for
  any thread that exists, stops the kernel.\<close>

theorem kill_bad_signal_panics:
  assumes "\<not> sched_locked (tw_sched w)" and "thread_table w tid = Some a" and "signal < 0 \<or> NSIG \<le> signal"
  shows "sys_kill_thread E tid signal w = None"
  using assms by (auto simp: sys_kill_thread_def on_sched_def scheduler_lock_def scheduler_unlock_def get_thread_by_id_def send_signal_def
    do_send_signal_def)

text \<open>The state of a thread whose handler has returned through the code on its stack: the return address and the argument are gone, and
  the number of the system call is in its register.\<close>

definition handler_returned :: "u32 \<Rightarrow> u32 \<Rightarrow> addr \<Rightarrow> task_world \<Rightarrow> task_world option" where
  "handler_returned number eip cur =
     upd_task cur (\<lambda>th. th\<lparr> th_regs := \<lparr> ur_eax = number, ur_eip = eip, ur_esp = ur_esp (th_regs th) + 4 + 20 \<rparr> \<rparr>)"




section \<open>Fork\<close>

definition fork_granted :: "fork_answers \<Rightarrow> addr \<Rightarrow> addr \<Rightarrow> bool" where
  "fork_granted A p a \<longleftrightarrow> pa_process (fa_process A) = Some p \<and> pa_name (fa_process A) \<and> pa_mutex (fa_process A) \<and> pa_tld_lock (fa_process A) \<and>
     fa_memory A \<and> fa_io A \<and> fa_lock A \<and> ta_thread (fa_thread A) = Some a \<and> ta_name (fa_thread A) \<and> ta_stack (fa_thread A) \<and>
     ta_arch (fa_thread A) \<and> fa_arch A = None \<and> fa_add_process A = None \<and> fa_add_thread A = None"

definition ids_left :: "task_world \<Rightarrow> bool" where
  "ids_left w \<longleftrightarrow> 0 \<le> thread_id_counter w \<and> thread_id_counter w < 2147483648 \<and>
     0 \<le> process_id_counter w \<and> process_id_counter w < 2147483648 \<and>
     (\<exists>j. thread_table w j = None \<and> 0 \<le> j \<and> j < 2147483648) \<and> (\<exists>j. process_table w j = None \<and> 0 \<le> j \<and> j < 2147483648)"

definition forked_child :: "int \<Rightarrow> addr \<Rightarrow> task_t \<Rightarrow> task_t" where
  "forked_child tid p this = \<lparr> th_id = tid, th_parent_id = th_id this, th_name = th_name this, th_exit_code = 0, th_process = p,
     pending_signals = 0, blocked_signals = 0, signal_handlers = signal_handlers this, th_regs = (th_regs this)\<lparr> ur_eax := 0 \<rparr> \<rparr>"

lemma add_ready_ok:
  assumes ok: "sched_ok s" and lk: "sched_locked s" and out: "a \<noteq> idle_thread s" "\<not> in_scheduler (threads s a)"
  shows "\<exists>s'. add_thread_to_ready a s = Some s' \<and> sched_ok s' \<and> sched_locked s'"
proof -
  obtain rs es where inv: "sched_inv s rs es" using ok by (auto simp: sched_ok_def)
  from add_thread_to_ready_inv [OF inv lk out] show ?thesis by (auto simp: sched_ok_def)
qed

lemma new_thread_ok:
  assumes ok: "sched_ok s" and out: "a \<noteq> idle_thread s" "\<not> in_scheduler (threads s a)"
  shows "sched_ok (thread_upd a (\<lambda>_. new_thread) s)"
proof -
  obtain rs es where inv: "sched_inv s rs es" using ok by (auto simp: sched_ok_def)
  have "sched_inv (thread_upd a (\<lambda>_. new_thread) s) rs es"
    using sched_inv_upd_out [OF inv, of a "\<lambda>_. new_thread"] sched_inv_mark [OF inv out]
    by (simp add: new_thread_def reset_thread_quantum_def)
  then show ?thesis by (auto simp: sched_ok_def)
qed



section \<open>Thread local data\<close>

definition tld_used :: "u32 list \<Rightarrow> int \<Rightarrow> bool" where
  "tld_used table i \<longleftrightarrow> bit (table ! nat (i div 32)) (nat (i mod 32))"

lemma tld_cell:
  assumes "length table = TLD_SIZE div 32" and "0 \<le> i" "i < int TLD_SIZE"
  shows "read_cell (Some table) (i div 32) = Some (table ! nat (i div 32))"
    and "table ! nat (i div 32) AND push_bit (nat (i mod 32)) 1 = 0 \<longleftrightarrow> \<not> tld_used table i"
proof -
  show "read_cell (Some table) (i div 32) = Some (table ! nat (i div 32))"
    using assms by (simp add: read_cell_def) linarith
  show "table ! nat (i div 32) AND push_bit (nat (i mod 32)) 1 = 0 \<longleftrightarrow> \<not> tld_used table i"
    by (simp add: tld_used_def and_exp_eq_0_iff_not_bit push_bit_of_1)
qed

lemma tld_used_set:
  assumes len: "length table = TLD_SIZE div 32" and i: "0 \<le> i" "i < int TLD_SIZE" and j: "0 \<le> j" "j < int TLD_SIZE"
  shows "tld_used (table[nat (i div 32) := (table ! nat (i div 32)) OR push_bit (nat (i mod 32)) 1]) j = (j = i \<or> tld_used table j)"
proof (cases "i div 32 = j div 32")
  case True
  have lt: "nat (i div 32) < length table" using len i by (simp add: nat_less_iff)
  have "i = j \<longleftrightarrow> i mod 32 = j mod 32" using True by (metis div_mult_mod_eq)
  then have "nat (i mod 32) = nat (j mod 32) \<longleftrightarrow> i = j" by (simp add: eq_nat_nat_iff)
  then show ?thesis using True lt by (auto simp: tld_used_def bit_simps)
next
  case False
  then have "nat (i div 32) \<noteq> nat (j div 32)" using i j by (simp add: eq_nat_nat_iff)
  then show ?thesis using False by (auto simp: tld_used_def)
qed

lemma alloc_tld_loop_eq:
  assumes len: "length table = TLD_SIZE div 32" and "0 \<le> i"
  shows "\<exists>r table'. alloc_tld_loop i table = Some (r, table') \<and> length table' = TLD_SIZE div 32 \<and>
    (case r of None \<Rightarrow> table' = table \<and> (\<forall>j. i \<le> j \<and> j < int TLD_SIZE \<longrightarrow> tld_used table j)
     | Some n \<Rightarrow> i \<le> n \<and> n < int TLD_SIZE \<and> \<not> tld_used table n \<and> (\<forall>j. i \<le> j \<and> j < n \<longrightarrow> tld_used table j) \<and>
         (\<forall>j. 0 \<le> j \<and> j < int TLD_SIZE \<longrightarrow> tld_used table' j = (j = n \<or> tld_used table j)))"
  using assms(2)
proof (induction "nat (int TLD_SIZE - i)" arbitrary: i)
  case 0
  then show ?case using len by (subst alloc_tld_loop.simps) auto
next
  case (Suc k)
  have lt: "i < int TLD_SIZE" using Suc.hyps(2) by simp
  note cell = tld_cell [OF len Suc.prems lt]
  show ?case
  proof (cases "tld_used table i")
    case True
    then have step: "alloc_tld_loop i table = alloc_tld_loop (i + 1) table"
      using lt cell by (subst alloc_tld_loop.simps) simp
    have "k = nat (int TLD_SIZE - (i + 1))" using Suc.hyps(2) by simp
    from Suc.hyps(1) [OF this] Suc.prems obtain r table' where r: "alloc_tld_loop (i + 1) table = Some (r, table')" "length table' = TLD_SIZE div 32"
      "case r of None \<Rightarrow> table' = table \<and> (\<forall>j. i + 1 \<le> j \<and> j < int TLD_SIZE \<longrightarrow> tld_used table j)
       | Some n \<Rightarrow> i + 1 \<le> n \<and> n < int TLD_SIZE \<and> \<not> tld_used table n \<and> (\<forall>j. i + 1 \<le> j \<and> j < n \<longrightarrow> tld_used table j) \<and>
         (\<forall>j. 0 \<le> j \<and> j < int TLD_SIZE \<longrightarrow> tld_used table' j = (j = n \<or> tld_used table j))" by auto
    have "tld_used table j" if "i \<le> j" "i + 1 \<le> j \<Longrightarrow> tld_used table j" for j using that True by (cases "j = i") auto
    then show ?thesis using step r by (intro exI [of _ r] exI [of _ table']) (auto split: option.splits)
  next
    case False
    let ?t = "table[nat (i div 32) := table ! nat (i div 32) OR push_bit (nat (i mod 32)) 1]"
    have "write_cell (Some table) (i div 32) (table ! nat (i div 32) OR push_bit (nat (i mod 32)) 1) = Some ?t"
      using Suc.prems lt len by (simp add: write_cell_def) linarith
    then have "alloc_tld_loop i table = Some (Some i, ?t)" using lt cell False by (subst alloc_tld_loop.simps) simp
    then show ?thesis using False lt len tld_used_set [OF len Suc.prems lt] by auto
  qed
qed

text \<open>A new slot was free, is the lowest free one, is below the limit, and is taken afterwards, and no other slot
  changes; there is no slot exactly when all are taken. A slot is never given back: \<^verbatim>\<open>sys_free_tld\<close> does nothing.\<close>

theorem alloc_tld_fresh:
  assumes c: "tw_tasks w cur = Some c" "tw_processes w (th_process c) = Some p" and len: "length (pr_tld_table p) = TLD_SIZE div 32"
  shows "\<exists>r p' w'. sys_alloc_tld cur w = Some (r, w') \<and> tw_processes w' (th_process c) = Some p' \<and>
    length (pr_tld_table p') = TLD_SIZE div 32 \<and>
    (case r of Inl e \<Rightarrow> e = EAGAIN \<and> pr_tld_table p' = pr_tld_table p \<and> (\<forall>j. 0 \<le> j \<and> j < int TLD_SIZE \<longrightarrow> tld_used (pr_tld_table p) j)
     | Inr n \<Rightarrow> 0 \<le> n \<and> n < int TLD_SIZE \<and> \<not> tld_used (pr_tld_table p) n \<and> (\<forall>j. 0 \<le> j \<and> j < n \<longrightarrow> tld_used (pr_tld_table p) j) \<and>
         (\<forall>j. 0 \<le> j \<and> j < int TLD_SIZE \<longrightarrow> tld_used (pr_tld_table p') j = (j = n \<or> tld_used (pr_tld_table p) j)))"
proof -
  obtain r t where "alloc_tld_loop 0 (pr_tld_table p) = Some (r, t)" "length t = TLD_SIZE div 32"
    "case r of None \<Rightarrow> t = pr_tld_table p \<and> (\<forall>j. 0 \<le> j \<and> j < int TLD_SIZE \<longrightarrow> tld_used (pr_tld_table p) j)
     | Some n \<Rightarrow> 0 \<le> n \<and> n < int TLD_SIZE \<and> \<not> tld_used (pr_tld_table p) n \<and> (\<forall>j. 0 \<le> j \<and> j < n \<longrightarrow> tld_used (pr_tld_table p) j) \<and>
         (\<forall>j. 0 \<le> j \<and> j < int TLD_SIZE \<longrightarrow> tld_used t j = (j = n \<or> tld_used (pr_tld_table p) j))"
    using alloc_tld_loop_eq [OF len, of 0] by auto
  then show ?thesis using c
    by (intro exI [of _ "case r of None \<Rightarrow> Inl EAGAIN | Some i \<Rightarrow> Inr i"] exI [of _ "p\<lparr> pr_tld_table := t \<rparr>"])
      (simp add: sys_alloc_tld_def upd_process_def split: option.splits)
qed


section \<open>Sleep\<close>

text \<open>A thread that goes to sleep is in the sleep queue with its wake-up time; when it is woken early, it takes its node off the queue
  and gets the rest of its time, otherwise none; the queue is well formed at every point.\<close>

theorem sleep_start_resume:
  assumes rel: "wq_rel q ns xs" and n: "node \<notin> set xs" and un: "\<not> sched_locked (tw_sched w)" and th: "tw_tasks w cur = Some th"
  shows "\<exists>q' ns' w' sq w''. do_sleep_start now microsecs node cur (q, ns) w = Some ((q', ns'), w') \<and>
    (\<exists>ys. wq_rel q' ns' ys \<and> set ys = insert node (set xs)) \<and> wakeup_time (ns' node) = now + microsecs \<and>
    wn_type (ns' node) = WAIT_THREAD (th_id th) \<and> t_state (threads (tw_sched w') cur) = THREAD_SLEEPING \<and>
    do_sleep_resume now2 node (q', ns') w' =
      Some (if now2 < now + microsecs then Inl (now + microsecs - now2) else Inr (), sq, w'') \<and>
    (\<exists>ys. wq_rel (fst sq) (snd sq) ys \<and> set ys = set xs)"
proof -
  let ?ns = "node_upd node (\<lambda>n. n\<lparr> wakeup_time := now + microsecs, in_queue := False, wn_type := WAIT_THREAD (th_id th) \<rparr>) ns"
  let ?ys = "wq_insert (\<lambda>m. wakeup_time (?ns m)) node xs"
  have links: "wnx ?ns = wnx ns" "wpv ?ns = wpv ns" by (auto simp: fun_eq_iff node_upd_def)
  have "wq_rel q ?ns xs" using rel n unfolding wq_rel_def links by (auto simp: node_upd_def)
  then obtain q' ns' where a: "waitqueue_add_node q ?ns node = Some (q', ns')" "wq_rel q' ns' ?ys" "same_nodes (insert node (set xs)) ?ns ns'"
    using waitqueue_add_node_refines [of q ?ns xs node] by auto
  have ys: "set ?ys = insert node (set xs)" "distinct ?ys" using set_wq_insert wq_distinct [OF a(2)] by auto
  obtain q'' ns'' where r: "waitqueue_remove_node q' ns' node = Some (q'', ns'')" "wq_rel q'' ns'' (remove1 node ?ys)"
    "same_nodes (set ?ys) ns' ns''" using waitqueue_remove_node_refines [OF a(2), of node] ys(1) by auto
  have t: "wakeup_time (ns' node) = now + microsecs" "wn_type (ns' node) = WAIT_THREAD (th_id th)" "wakeup_time (ns'' node) = now + microsecs"
    using a(3) r(3) by (simp_all add: same_nodes_def)
  let ?w' = "w\<lparr> tw_sched := thread_upd cur (\<lambda>th. th\<lparr> t_state := THREAD_SLEEPING \<rparr>) (tw_sched w)\<lparr> sched_locked := False \<rparr> \<rparr>"
  have "node_upd node (\<lambda>n. n\<lparr> wn_type := WAIT_THREAD (th_id th) \<rparr>) (node_upd node (\<lambda>n. n\<lparr> wakeup_time := now + microsecs, in_queue := False \<rparr>) ns) = ?ns"
    by (simp add: node_upd_def)
  then have start: "do_sleep_start now microsecs node cur (q, ns) w = Some ((q', ns'), ?w')"
    using un th a(1) by (simp add: do_sleep_start_def on_sched_def scheduler_lock_def scheduler_unlock_def set_state_def thread_upd_def)
  have resume: "do_sleep_resume now2 node (q', ns') ?w' =
      Some (if now2 < now + microsecs then Inl (now + microsecs - now2) else Inr (), (q'', ns''), ?w')"
    using un r(1) t by (simp add: do_sleep_resume_def on_sched_def scheduler_lock_def scheduler_unlock_def)
  have "set (remove1 node ?ys) = set xs" using ys n by (simp add: set_remove1_eq)
  with start resume a(2) ys(1) t r(2) show ?thesis
    by (intro exI [of _ q'] exI [of _ ns'] exI [of _ ?w'] exI [of _ "(q'', ns'')"]) auto
qed

end
