(* ===== verification/Kernel_Printf.thy ===== *)
theory Kernel_Printf
  imports Kernel_String
begin

text \<open>
  Formatted output, \<^verbatim>\<open>source/kernel/src/lib/printf.c\<close>: the state machine that all kernel messages go through. The format pointer is
  the rest of the memory it points to, so that reading past the end of the format is \<open>None\<close>. The arguments are a list of values
  of the three sizes that the code reads; reading an argument as a value of another size is \<open>None\<close>. The characters that the
  code passes to its helper are appended to a list; it counts every one of them, so that its result is the length of the list.
\<close>

section \<open>Data\<close>

text \<open>The flags are the bits of \<^verbatim>\<open>flags\<close>, the width is an unsigned 32 bit integer.\<close>

record printf_flags =
  PRINTF_LEFT :: bool
  PRINTF_CAPITAL :: bool
  PRINTF_SIGNED :: bool
  PRINTF_LONG :: bool
  PRINTF_SHORT :: bool
  PRINTF_NEEDSIGN :: bool
  PRINTF_LZERO :: bool
  PRINTF_NEEDPLUS :: bool
  PRINTF_LONGLONG :: bool
  PRINTF_PRECIS :: bool

definition no_flags :: printf_flags where
  "no_flags = \<lparr> PRINTF_LEFT = False, PRINTF_CAPITAL = False, PRINTF_SIGNED = False, PRINTF_LONG = False, PRINTF_SHORT = False,
     PRINTF_NEEDSIGN = False, PRINTF_LZERO = False, PRINTF_NEEDPLUS = False, PRINTF_LONGLONG = False, PRINTF_PRECIS = False \<rparr>"

abbreviation PRINTF_BUFLEN :: nat where "PRINTF_BUFLEN \<equiv> 32"

datatype printf_arg = Arg32 u32 | Arg64 u64 | ArgStr "byte list option"

record printf_t =
  pf_state :: nat
  pf_flags :: printf_flags
  given_wd :: nat
  pf_args :: "printf_arg list"
  pf_out :: "byte list"

definition reset_printf :: "printf_t \<Rightarrow> printf_t" where
  "reset_printf s = s\<lparr> pf_state := 0, pf_flags := no_flags, given_wd := 0 \<rparr>"

definition helper :: "byte list \<Rightarrow> printf_t \<Rightarrow> printf_t" where
  "helper cs s = s\<lparr> pf_out := pf_out s @ cs \<rparr>"

section \<open>Numbers\<close>

text \<open>The digits are written downwards from the end of a buffer of 32 bytes, the last of which is the terminator.\<close>

definition printf_digit :: "bool \<Rightarrow> nat \<Rightarrow> byte" where
  "printf_digit capital n = of_nat (if n < 10 then n + 48 else if capital then n - 10 + 65 else n - 10 + 97)"

function printf_digits :: "nat \<Rightarrow> bool \<Rightarrow> nat \<Rightarrow> byte list \<Rightarrow> byte list option" where
  "printf_digits radix capital num buf =
     (if PRINTF_BUFLEN - 1 \<le> length buf then None
      else do {
        let buf = printf_digit capital (num mod radix) # buf;
        if num div radix = 0 then Some buf else printf_digits radix capital (num div radix) buf })"
  by pat_completeness auto
termination
  by (relation "measure (\<lambda>(radix, capital, num, buf). PRINTF_BUFLEN - length buf)") auto

declare printf_digits.simps [simp del]

text \<open>The argument as a \<^verbatim>\<open>long long\<close>; a \<^verbatim>\<open>long\<close> is always read without its sign.\<close>

fun printf_num :: "printf_flags \<Rightarrow> printf_arg list \<Rightarrow> (int \<times> printf_arg list) option" where
  "printf_num fl (Arg32 w # args) =
     (if PRINTF_LONG fl then Some (uint w, args)
      else if PRINTF_LONGLONG fl then None
      else if PRINTF_SIGNED fl then Some (sint w, args) else Some (uint w, args))"
| "printf_num fl (Arg64 w # args) = (if \<not> PRINTF_LONG fl \<and> PRINTF_LONGLONG fl then Some (sint w, args) else None)"
| "printf_num fl _ = None"

section \<open>Output of a field\<close>

text \<open>From the label \<^verbatim>\<open>PRINTF_OUT2\<close>: padding, sign and text; \<open>actual\<close> is \<^verbatim>\<open>actual_wd\<close>.\<close>

definition printf_out2 :: "nat \<Rightarrow> byte list \<Rightarrow> printf_t \<Rightarrow> printf_t" where
  "printf_out2 actual txt s = (let
     fl = pf_flags s;
     padded = \<not> PRINTF_LEFT fl \<and> actual < given_wd s;
     s = (if padded then helper (replicate (given_wd s - actual) (if PRINTF_LZERO fl then 48 else 32)) s else s);
     s = (if padded then s\<lparr> given_wd := actual \<rparr> else s);
     s = (if PRINTF_NEEDSIGN fl \<and> \<not> PRINTF_LZERO fl then helper [45] s else s);
     s = helper txt s;
     rest = (if given_wd s < actual then 0 else given_wd s - actual)
     in (helper (replicate rest 32) s)\<lparr> given_wd := 0 \<rparr>)"

text \<open>From the label \<^verbatim>\<open>PRINTF_OUT\<close>, for a text in memory.\<close>

definition printf_out :: "byte list \<Rightarrow> printf_t \<Rightarrow> printf_t option" where
  "printf_out mem s = do {
     n \<leftarrow> strlen mem;
     let fl = pf_flags s;
     let actual = (if PRINTF_PRECIS fl then min n (given_wd s) else n);
     let actual = (if PRINTF_NEEDSIGN fl \<or> PRINTF_NEEDPLUS fl then actual + 1 else actual);
     let s = (if PRINTF_NEEDSIGN fl \<and> PRINTF_LZERO fl then helper [45] s
       else if PRINTF_NEEDPLUS fl \<and> \<not> PRINTF_NEEDSIGN fl then helper [43] s else s);
     Some (printf_out2 actual (take n mem) s) }"

definition printf_do_num :: "nat \<Rightarrow> printf_t \<Rightarrow> printf_t option" where
  "printf_do_num radix s = do {
     (num, args) \<leftarrow> printf_num (pf_flags s) (pf_args s);
     let neg = (PRINTF_SIGNED (pf_flags s) \<and> num < 0);
     let s = s\<lparr> pf_args := args, pf_flags := (pf_flags s)\<lparr> PRINTF_NEEDSIGN := PRINTF_NEEDSIGN (pf_flags s) \<or> neg \<rparr> \<rparr>;
     let num = nat ((if neg then - num else num) mod 2 ^ 64);
     buf \<leftarrow> printf_digits radix (PRINTF_CAPITAL (pf_flags s)) num [];
     printf_out (buf @ [0]) s }"

section \<open>The state machine\<close>

text \<open>\<^verbatim>\<open>case 4\<close>: the conversion. An unknown one is dropped.\<close>

definition printf_conv :: "byte \<Rightarrow> printf_t \<Rightarrow> printf_t option" where
  "printf_conv c s =
     (let lz = (\<lambda>s. s\<lparr> pf_flags := (pf_flags s)\<lparr> PRINTF_LZERO := False \<rparr> \<rparr>) in
      if c = 88 then printf_do_num 16 (s\<lparr> pf_flags := (pf_flags s)\<lparr> PRINTF_CAPITAL := True \<rparr> \<rparr>)
      else if c \<in> {120, 112, 110} then printf_do_num 16 s
      else if c \<in> {100, 105} then printf_do_num 10 (s\<lparr> pf_flags := (pf_flags s)\<lparr> PRINTF_SIGNED := True \<rparr> \<rparr>)
      else if c = 117 then printf_do_num 10 s
      else if c = 111 then printf_do_num 8 s
      else if c = 99 then
        (case pf_args s of
           Arg32 w # args \<Rightarrow> (let ch = ucast w :: byte in
             Some (printf_out2 1 (if ch = 0 then [] else [ch]) (lz (s\<lparr> pf_args := args \<rparr>))))
         | _ \<Rightarrow> None)
      else if c = 115 then
        (case pf_args s of
           ArgStr p # args \<Rightarrow>
             printf_out (case p of None \<Rightarrow> [60, 78, 85, 76, 76, 62, 0] | Some mem \<Rightarrow> mem) (lz (s\<lparr> pf_args := args \<rparr>))
         | _ \<Rightarrow> None)
      else Some s)"

text \<open>The cases 4 to 0, each going on with the next where the code has no \<^verbatim>\<open>break\<close>; the result is the pointer before the increment of
  the loop.\<close>

definition printf_case4 :: "byte list \<Rightarrow> printf_t \<Rightarrow> (byte list \<times> printf_t) option" where
  "printf_case4 format s = (case format of [] \<Rightarrow> None | c # _ \<Rightarrow> do {
     s \<leftarrow> printf_conv c s;
     Some (format, reset_printf s) })"

definition printf_case3 :: "byte list \<Rightarrow> printf_t \<Rightarrow> (byte list \<times> printf_t) option" where
  "printf_case3 format s = (case format of [] \<Rightarrow> None | c # rest \<Rightarrow>
     if c = 78 then Some (format, s)
     else if c = 108 then
       (case rest of
          [] \<Rightarrow> None
        | d # _ \<Rightarrow>
            if d = 108 then Some (rest, s\<lparr> pf_flags := (pf_flags s)\<lparr> PRINTF_LONGLONG := True \<rparr> \<rparr>)
            else Some (format, s\<lparr> pf_flags := (pf_flags s)\<lparr> PRINTF_LONG := True \<rparr> \<rparr>))
     else if c = 104 then Some (format, s\<lparr> pf_flags := (pf_flags s)\<lparr> PRINTF_SHORT := True \<rparr> \<rparr>)
     else printf_case4 format (s\<lparr> pf_state := 4 \<rparr>))"

definition printf_case2 :: "byte list \<Rightarrow> printf_t \<Rightarrow> (byte list \<times> printf_t) option" where
  "printf_case2 format s = (case format of [] \<Rightarrow> None | c # _ \<Rightarrow>
     if 48 \<le> c \<and> c \<le> 57 then Some (format, s\<lparr> given_wd := u32_of (10 * given_wd s + unat (c - 48)) \<rparr>)
     else printf_case3 format (s\<lparr> pf_state := 3 \<rparr>))"

definition printf_case1 :: "byte list \<Rightarrow> printf_t \<Rightarrow> (byte list \<times> printf_t) option" where
  "printf_case1 format s = (case format of [] \<Rightarrow> None | c # rest \<Rightarrow>
     if c = 37 then Some (format, reset_printf (helper [c] s))
     else if c = 45 then
       (let s = s\<lparr> pf_flags := (pf_flags s)\<lparr> PRINTF_LZERO := False \<rparr> \<rparr> in
        if PRINTF_LEFT (pf_flags s) then Some (format, reset_printf s)
        else Some (format, s\<lparr> pf_flags := (pf_flags s)\<lparr> PRINTF_LEFT := True \<rparr> \<rparr>))
     else if c = 43 then Some (format, s\<lparr> pf_flags := (pf_flags s)\<lparr> PRINTF_NEEDPLUS := True \<rparr> \<rparr>)
     else do {
       let (format, s) = (if c = 46 then (rest, s\<lparr> pf_flags := (pf_flags s)\<lparr> PRINTF_PRECIS := True \<rparr> \<rparr>) else (format, s));
       let s = s\<lparr> pf_state := 2 \<rparr>;
       case format of [] \<Rightarrow> None | c # rest \<Rightarrow>
         if c = 48 \<and> \<not> PRINTF_LEFT (pf_flags s) then printf_case2 rest (s\<lparr> pf_flags := (pf_flags s)\<lparr> PRINTF_LZERO := True \<rparr> \<rparr>)
         else printf_case2 format s })"

definition printf_step :: "byte list \<Rightarrow> printf_t \<Rightarrow> (byte list \<times> printf_t) option" where
  "printf_step format s = (case format of [] \<Rightarrow> None | c # rest \<Rightarrow>
     if pf_state s = 0 then
       if c \<noteq> 37 then Some (format, helper [c] s)
       else (case rest of
           [] \<Rightarrow> None
         | d # _ \<Rightarrow> if d = 0 then Some (rest, s\<lparr> pf_state := 1 \<rparr>) else printf_case1 rest (s\<lparr> pf_state := 1 \<rparr>))
     else if pf_state s = 1 then printf_case1 format s
     else if pf_state s = 2 then printf_case2 format s
     else if pf_state s = 3 then printf_case3 format s
     else printf_case4 format s)"

partial_function (option) printf_loop :: "byte list \<Rightarrow> printf_t \<Rightarrow> printf_t option" where
  "printf_loop format s = (case format of
       [] \<Rightarrow> None
     | c # _ \<Rightarrow>
         if c = 0 then Some s
         else do {
           (format, s) \<leftarrow> printf_step format s;
           case format of [] \<Rightarrow> None | _ # format \<Rightarrow> printf_loop format s })"

definition do_printf :: "byte list \<Rightarrow> printf_arg list \<Rightarrow> (nat \<times> byte list) option" where
  "do_printf format args = do {
     s \<leftarrow> printf_loop format \<lparr> pf_state = 0, pf_flags = no_flags, given_wd = 0, pf_args = args, pf_out = [] \<rparr>;
     Some (length (pf_out s), pf_out s) }"

end
