(* ===== verification/Kernel_Printf_Safety.thy ===== *)
theory Kernel_Printf_Safety
  imports Kernel_Printf
begin

text \<open>
  The output of \<open>do_printf\<close> for a format that is built from pieces (text and fields with flags, width and size) is the rendering of the
  pieces one after the other; the digits of the largest number fit into the buffer. Errors: a format that ends in
  \<^verbatim>\<open>%\<close> is read past its end, and a negative \<^verbatim>\<open>long\<close> is printed as if it had no sign.
\<close>

section \<open>Digits\<close>

function radix_digits :: "nat \<Rightarrow> bool \<Rightarrow> nat \<Rightarrow> byte list" where
  "radix_digits radix capital n = (if radix < 2 \<or> n < radix then [printf_digit capital n]
     else radix_digits radix capital (n div radix) @ [printf_digit capital (n mod radix)])"
  by pat_completeness auto
termination
  by (relation "measure (\<lambda>(radix, capital, n). n)") auto

declare radix_digits.simps [simp del]

lemma radix_digits_length: "2 \<le> radix \<Longrightarrow> n < radix ^ Suc k \<Longrightarrow> length (radix_digits radix capital n) \<le> Suc k"
proof (induction k arbitrary: n)
  case 0
  then show ?case by (subst radix_digits.simps) simp
next
  case (Suc k)
  show ?case
  proof (cases "n < radix")
    case True
    then show ?thesis by (subst radix_digits.simps) simp
  next
    case False
    have "n div radix < radix ^ Suc k" using Suc.prems by (simp add: less_mult_imp_div_less mult.commute)
    from Suc.IH [OF Suc.prems(1) this] show ?thesis using False by (subst radix_digits.simps) (simp add: not_less)
  qed
qed

lemma printf_digits_eq:
  assumes "2 \<le> radix" and "length (radix_digits radix capital n) + length buf < PRINTF_BUFLEN"
  shows "printf_digits radix capital n buf = Some (radix_digits radix capital n @ buf)"
  using assms(2)
proof (induction n arbitrary: buf rule: less_induct)
  case (less n)
  have some: "1 \<le> length (radix_digits radix capital n)" by (subst radix_digits.simps) simp
  then have room: "\<not> PRINTF_BUFLEN - 1 \<le> length buf" using less.prems by linarith
  show ?case
  proof (cases "n < radix")
    case True
    then show ?thesis using room assms(1) by (subst printf_digits.simps, subst radix_digits.simps) (simp add: Let_def)
  next
    case False
    have eq: "radix_digits radix capital n = radix_digits radix capital (n div radix) @ [printf_digit capital (n mod radix)]"
      using False assms(1) by (subst radix_digits.simps) simp
    have "n div radix < n" "n div radix \<noteq> 0" using False assms(1) by (auto simp: div_eq_0_iff)
    then show ?thesis using less.IH [of "n div radix" "printf_digit capital (n mod radix) # buf"] less.prems room eq
      by (subst printf_digits.simps) (simp add: Let_def)
  qed
qed

text \<open>The digits of every number of 64 bits fit into the buffer, in the smallest radix too.\<close>

lemma printf_digits_fit:
  assumes "8 \<le> radix" and "n < 2 ^ 64"
  shows "printf_digits radix capital n [] = Some (radix_digits radix capital n)"
proof -
  have "(8 :: nat) ^ Suc 21 \<le> radix ^ Suc 21" using assms(1) by (rule power_mono) simp
  then have "n < radix ^ Suc 21" using assms(2) by simp
  from radix_digits_length [OF _ this] assms(1) have "length (radix_digits radix capital n) \<le> 22" by simp
  then show ?thesis using printf_digits_eq [of radix capital n "[]"] assms(1) by simp
qed

lemma printf_digit_nonzero: "n < 36 \<Longrightarrow> printf_digit capital n \<noteq> 0"
proof -
  assume n: "n < 36"
  define k where "k = (if n < 10 then n + 48 else if capital then n - 10 + 65 else n - 10 + 97)"
  have k: "0 < k" "k < 256" using n by (auto simp: k_def)
  then have "unat (of_nat k :: byte) = k" by (simp add: unat_of_nat)
  then have "(of_nat k :: byte) \<noteq> 0" using k(1) by auto
  then show "printf_digit capital n \<noteq> 0" by (simp add: printf_digit_def k_def)
qed

lemma radix_digits_nonzero: "2 \<le> radix \<Longrightarrow> radix \<le> 36 \<Longrightarrow> 0 \<notin> set (radix_digits radix capital n)"
proof (induction n rule: less_induct)
  case (less n)
  show ?case
  proof (cases "n < radix")
    case True
    then show ?thesis using less.prems printf_digit_nonzero [of n capital] by (subst radix_digits.simps) auto
  next
    case False
    then have "n div radix < n" using less.prems by simp
    note ih = less.IH [OF this less.prems]
    have "n mod radix < radix" using less.prems by simp
    then have "printf_digit capital (n mod radix) \<noteq> 0" using less.prems by (intro printf_digit_nonzero) linarith
    then show ?thesis using ih False less.prems by (subst radix_digits.simps) auto
  qed
qed


section \<open>Parsing of a field\<close>

definition printf_cont :: "(byte list \<times> printf_t) option \<Rightarrow> printf_t option" where
  "printf_cont r = do { (format, s) \<leftarrow> r; case format of [] \<Rightarrow> None | _ # format \<Rightarrow> printf_loop format s }"

lemma printf_cont_Some [simp]: "printf_cont (Some (c # format, s)) = printf_loop format s"
  by (simp add: printf_cont_def)

lemma printf_loop_nonzero: "c \<noteq> 0 \<Longrightarrow> printf_loop (c # r) s = printf_cont (printf_step (c # r) s)"
  by (subst printf_loop.simps) (simp add: printf_cont_def)

lemma printf_loop_state:
  "c \<noteq> 0 \<Longrightarrow> pf_state s = 1 \<Longrightarrow> printf_loop (c # r) s = printf_cont (printf_case1 (c # r) s)"
  "c \<noteq> 0 \<Longrightarrow> pf_state s = 2 \<Longrightarrow> printf_loop (c # r) s = printf_cont (printf_case2 (c # r) s)"
  "c \<noteq> 0 \<Longrightarrow> pf_state s = 3 \<Longrightarrow> printf_loop (c # r) s = printf_cont (printf_case3 (c # r) s)"
  by (simp_all add: printf_loop_nonzero printf_step_def)

definition is_dec :: "byte \<Rightarrow> bool" where
  "is_dec c \<longleftrightarrow> 48 \<le> c \<and> c \<le> 57"

lemma dec_nonzero: "is_dec c \<Longrightarrow> c \<noteq> 0"
  by (auto simp: is_dec_def)

definition wd_fold :: "byte list \<Rightarrow> nat \<Rightarrow> nat" where
  "wd_fold ds n = foldl (\<lambda>n d. u32_of (10 * n + unat (d - 48))) n ds"

lemma wd_fold_simps [simp]: "wd_fold [] n = n" "wd_fold (d # ds) n = wd_fold ds (u32_of (10 * n + unat (d - 48)))"
  "wd_fold (ds @ [d]) n = u32_of (10 * wd_fold ds n + unat (d - 48))"
  by (simp_all add: wd_fold_def)

lemma printf_width:
  assumes "\<forall>d \<in> set ds. is_dec d" and "\<not> is_dec c" "c \<noteq> 0" and "pf_state s = 2"
  shows "printf_cont (printf_case2 (ds @ c # r) s) = printf_cont (printf_case3 (c # r) (s\<lparr> given_wd := wd_fold ds (given_wd s), pf_state := 3 \<rparr>))"
  using assms(1,4)
proof (induction ds arbitrary: s)
  case Nil
  then show ?case using assms(2) by (auto simp: printf_case2_def is_dec_def)
next
  case (Cons d ds)
  let ?s = "s\<lparr> given_wd := u32_of (10 * given_wd s + unat (d - 48)) \<rparr>"
  have "printf_cont (printf_case2 ((d # ds) @ c # r) s) = printf_loop (ds @ c # r) ?s"
    using Cons.prems(1) by (simp add: printf_case2_def is_dec_def)
  also have "\<dots> = printf_cont (printf_case2 (ds @ c # r) ?s)"
    using Cons.prems assms(3) dec_nonzero by (cases ds) (auto simp: printf_loop_state)
  also have "\<dots> = printf_cont (printf_case3 (c # r) (?s\<lparr> given_wd := wd_fold ds (given_wd ?s), pf_state := 3 \<rparr>))"
    using Cons.prems by (intro Cons.IH) auto
  finally show ?case by simp
qed

lemma unat_dec_digit: "n < 10 \<Longrightarrow> unat (printf_digit capital n - 48) = n"
proof -
  assume "n < 10"
  then have "printf_digit capital n - 48 = of_nat n" by (simp add: printf_digit_def)
  with \<open>n < 10\<close> show ?thesis by (simp add: unat_of_nat)
qed

lemma is_dec_digit: "n < 10 \<Longrightarrow> is_dec (printf_digit capital n)"
proof -
  assume "n < 10"
  then have "n \<in> {0, 1, 2, 3, 4, 5, 6, 7, 8, 9}" by auto
  then show ?thesis by (auto simp: is_dec_def printf_digit_def)
qed

lemma dec_digits:
  "\<forall>d \<in> set (radix_digits 10 capital n). is_dec d"
  "n < 4294967296 \<Longrightarrow> wd_fold (radix_digits 10 capital n) 0 = n"
  "0 < n \<Longrightarrow> hd (radix_digits 10 capital n) \<noteq> 48"
proof (induction n rule: less_induct)
  case (less n)
  have ih: "\<forall>d \<in> set (radix_digits 10 capital (n div 10)). is_dec d"
    "n div 10 < 4294967296 \<Longrightarrow> wd_fold (radix_digits 10 capital (n div 10)) 0 = n div 10"
    "0 < n div 10 \<Longrightarrow> hd (radix_digits 10 capital (n div 10)) \<noteq> 48" if "\<not> n < 10"
    using less.IH [of "n div 10"] that by simp_all
  have eq: "radix_digits 10 capital n = (if n < 10 then [printf_digit capital n]
      else radix_digits 10 capital (n div 10) @ [printf_digit capital (n mod 10)])" by (subst radix_digits.simps) simp
  have ne: "radix_digits 10 capital (n div 10) \<noteq> []" by (subst radix_digits.simps) simp
  {
    case 1
    show ?case using ih(1) eq is_dec_digit by auto
  next
    case 2
    then show ?case using ih(2) eq unat_dec_digit [of n capital] unat_dec_digit [of "n mod 10" capital] by (cases "n < 10") simp_all
  next
    case 3
    have "printf_digit capital n \<noteq> 48" if "n < 10"
      using unat_dec_digit [OF that, of capital] 3 by auto
    then show ?case using 3 ih(3) eq ne by (cases "n < 10") (simp_all add: div_greater_zero_iff)
  }
qed


text \<open>A field: its flags, its width, the number of \<^verbatim>\<open>l\<close> and the conversion. A width is written without leading zeros.\<close>

record printf_field =
  fd_left :: bool
  fd_plus :: bool
  fd_zero :: bool
  fd_wd :: nat
  fd_long :: nat
  fd_conv :: byte

definition field_chars :: "printf_field \<Rightarrow> byte list" where
  "field_chars fd = 37 # (if fd_left fd then [45] else []) @ (if fd_plus fd then [43] else []) @ (if fd_zero fd then [48] else []) @
     (if fd_wd fd = 0 then [] else radix_digits 10 False (fd_wd fd)) @ replicate (fd_long fd) 108 @ [fd_conv fd]"

definition field_ok :: "printf_field \<Rightarrow> bool" where
  "field_ok fd \<longleftrightarrow> (fd_zero fd \<longrightarrow> \<not> fd_left fd) \<and> fd_wd fd < 4294967296 \<and> fd_long fd \<le> 2 \<and>
     fd_conv fd \<in> {88, 120, 112, 110, 100, 105, 117, 111, 99, 115}"

definition field_flags :: "printf_field \<Rightarrow> printf_flags" where
  "field_flags fd = no_flags\<lparr> PRINTF_LEFT := fd_left fd, PRINTF_NEEDPLUS := fd_plus fd, PRINTF_LZERO := fd_zero fd,
     PRINTF_LONG := (fd_long fd = 1), PRINTF_LONGLONG := (fd_long fd = 2) \<rparr>"

lemma field_conv_props:
  assumes "field_ok fd"
  shows "fd_conv fd \<noteq> 0" "\<not> is_dec (fd_conv fd)" "fd_conv fd \<notin> {37, 45, 43, 46, 78, 108, 104}"
  using assms by (auto simp: field_ok_def is_dec_def)

lemma printf_lengths:
  assumes ok: "field_ok fd" and st: "pf_state s = 3" and fl: "pf_flags s = (field_flags fd)\<lparr> PRINTF_LONG := False, PRINTF_LONGLONG := False \<rparr>"
  shows "printf_cont (printf_case3 (replicate (fd_long fd) 108 @ fd_conv fd # r) s) =
    printf_cont (printf_case4 (fd_conv fd # r) (s\<lparr> pf_flags := field_flags fd, pf_state := 4 \<rparr>))"
proof -
  note c = field_conv_props [OF ok]
  have conv: "printf_case3 (fd_conv fd # r) s' = printf_case4 (fd_conv fd # r) (s'\<lparr> pf_state := 4 \<rparr>)" for s'
    using c(3) by (simp add: printf_case3_def)
  consider "fd_long fd = 0" | "fd_long fd = 1" | "fd_long fd = 2" using ok by (force simp: field_ok_def)
  then show ?thesis
  proof cases
    case 1
    then have "s\<lparr> pf_state := 4 \<rparr> = s\<lparr> pf_flags := field_flags fd, pf_state := 4 \<rparr>" using fl by (simp add: field_flags_def)
    then show ?thesis using 1 conv by simp
  next
    case 2
    let ?s = "s\<lparr> pf_flags := field_flags fd \<rparr>"
    have "printf_case3 (108 # fd_conv fd # r) s = Some (108 # fd_conv fd # r, ?s)"
      using c(3) fl 2 by (simp add: printf_case3_def field_flags_def)
    then show ?thesis using 2 c(1) st conv by (simp add: printf_loop_state)
  next
    case 3
    let ?s = "s\<lparr> pf_flags := field_flags fd \<rparr>"
    have "printf_case3 (108 # 108 # fd_conv fd # r) s = Some (108 # fd_conv fd # r, ?s)"
      using fl 3 by (simp add: printf_case3_def field_flags_def)
    then show ?thesis using 3 c(1) st conv by (simp add: printf_loop_state numeral_2_eq_2)
  qed
qed

lemma printf_width_lengths:
  assumes ok: "field_ok fd" and st: "pf_state s = 2" "given_wd s = 0"
    and fl: "pf_flags s = (field_flags fd)\<lparr> PRINTF_LONG := False, PRINTF_LONGLONG := False \<rparr>"
  shows "printf_cont (printf_case2 ((if fd_wd fd = 0 then [] else radix_digits 10 False (fd_wd fd)) @ replicate (fd_long fd) 108 @ fd_conv fd # r) s) =
    printf_cont (printf_case4 (fd_conv fd # r) (s\<lparr> given_wd := fd_wd fd, pf_flags := field_flags fd, pf_state := 4 \<rparr>))"
proof -
  note c = field_conv_props [OF ok]
  let ?ds = "if fd_wd fd = 0 then [] else radix_digits 10 False (fd_wd fd)"
  obtain d tl where tl: "replicate (fd_long fd) 108 @ fd_conv fd # r = d # tl" "d \<noteq> 0" "\<not> is_dec d"
    using c(1,2) by (cases "fd_long fd") (auto simp: is_dec_def)
  have "\<forall>d \<in> set ?ds. is_dec d" using dec_digits(1) by auto
  moreover have "wd_fold ?ds 0 = fd_wd fd" using dec_digits(2) ok by (simp add: field_ok_def)
  ultimately have "printf_cont (printf_case2 (?ds @ d # tl) s) = printf_cont (printf_case3 (d # tl) (s\<lparr> given_wd := fd_wd fd, pf_state := 3 \<rparr>))"
    using printf_width [of ?ds d s tl] tl(2,3) st by simp
  then show ?thesis using printf_lengths [OF ok, of "s\<lparr> given_wd := fd_wd fd, pf_state := 3 \<rparr>" r] fl tl(1) by simp
qed


text \<open>What follows the flags \<^verbatim>\<open>-\<close> and \<^verbatim>\<open>+\<close> of a field.\<close>

definition field_tail :: "printf_field \<Rightarrow> byte list \<Rightarrow> byte list" where
  "field_tail fd r = (if fd_zero fd then [48] else []) @
     (if fd_wd fd = 0 then [] else radix_digits 10 False (fd_wd fd)) @ replicate (fd_long fd) 108 @ fd_conv fd # r"

lemma field_tail_head:
  assumes ok: "field_ok fd" and z: "\<not> fd_zero fd"
  obtains c tl where "field_tail fd r = c # tl" "c \<notin> {0, 37, 45, 43, 46, 48}"
proof (cases "fd_wd fd = 0")
  case True
  have "48 \<noteq> fd_conv fd" using field_conv_props(2) [OF ok] by (auto simp: is_dec_def)
  then show ?thesis using that True z field_conv_props [OF ok] by (cases "fd_long fd") (auto simp: field_tail_def)
next
  case False
  have "radix_digits 10 False (fd_wd fd) \<noteq> []" by (subst radix_digits.simps) simp
  then obtain c ds where c: "radix_digits 10 False (fd_wd fd) = c # ds" by (meson neq_Nil_conv)
  have "is_dec c" "c \<noteq> 48" using dec_digits(1) [of False "fd_wd fd"] dec_digits(3) [of "fd_wd fd" False] False c by auto
  then have "c \<notin> {0, 37, 45, 43, 46, 48}" by (auto simp: is_dec_def)
  then show ?thesis using that [of c] c False z by (simp add: field_tail_def)
qed

lemma printf_tail:
  assumes ok: "field_ok fd" and st: "pf_state s = 1" "given_wd s = 0"
    and fl: "pf_flags s = (field_flags fd)\<lparr> PRINTF_LZERO := False, PRINTF_LONG := False, PRINTF_LONGLONG := False \<rparr>"
  shows "printf_cont (printf_case1 (field_tail fd r) s) =
    printf_cont (printf_case4 (fd_conv fd # r) (s\<lparr> given_wd := fd_wd fd, pf_flags := field_flags fd, pf_state := 4 \<rparr>))"
proof -
  let ?s = "s\<lparr> pf_state := 2, pf_flags := (field_flags fd)\<lparr> PRINTF_LONG := False, PRINTF_LONGLONG := False \<rparr> \<rparr>"
  note wl = printf_width_lengths [OF ok, of ?s r]
  show ?thesis
  proof (cases "fd_zero fd")
    case True
    have left: "\<not> PRINTF_LEFT (pf_flags s)" using ok True fl by (simp add: field_ok_def field_flags_def)
    have "s\<lparr> pf_state := 2, pf_flags := (pf_flags s)\<lparr> PRINTF_LZERO := True \<rparr> \<rparr> = ?s"
      using fl True by (simp add: field_flags_def)
    then have "printf_case1 (field_tail fd r) s = printf_case2 ((if fd_wd fd = 0 then [] else radix_digits 10 False (fd_wd fd)) @
        replicate (fd_long fd) 108 @ fd_conv fd # r) ?s"
      using True left by (simp add: field_tail_def printf_case1_def)
    then show ?thesis using wl st by simp
  next
    case False
    obtain c tl where c: "field_tail fd r = c # tl" "c \<notin> {0, 37, 45, 43, 46, 48}" using field_tail_head [OF ok False] .
    have "s\<lparr> pf_state := 2 \<rparr> = ?s" using fl False by (simp add: field_flags_def)
    then have "printf_case1 (field_tail fd r) s = printf_case2 (field_tail fd r) ?s"
      using c by (simp add: printf_case1_def)
    then show ?thesis using wl st False by (simp add: field_tail_def)
  qed
qed

lemma field_tail_nonzero:
  assumes "field_ok fd"
  obtains c tl where "field_tail fd r = c # tl" "c \<noteq> 0"
proof (cases "fd_zero fd")
  case True
  then show ?thesis using that by (simp add: field_tail_def)
next
  case False
  then show ?thesis using that field_tail_head [OF assms False, of r] by blast
qed

lemma printf_loop_case1: "X = c # cs \<Longrightarrow> c \<noteq> 0 \<Longrightarrow> pf_state s = 1 \<Longrightarrow> printf_loop X s = printf_cont (printf_case1 X s)"
  by (simp add: printf_loop_state)

lemma printf_plus:
  assumes ok: "field_ok fd" and st: "pf_state s = 1" "given_wd s = 0"
    and fl: "pf_flags s = (field_flags fd)\<lparr> PRINTF_NEEDPLUS := False, PRINTF_LZERO := False, PRINTF_LONG := False, PRINTF_LONGLONG := False \<rparr>"
  shows "printf_cont (printf_case1 ((if fd_plus fd then [43] else []) @ field_tail fd r) s) =
    printf_cont (printf_case4 (fd_conv fd # r) (s\<lparr> given_wd := fd_wd fd, pf_flags := field_flags fd, pf_state := 4 \<rparr>))"
proof (cases "fd_plus fd")
  case True
  let ?s = "s\<lparr> pf_flags := (pf_flags s)\<lparr> PRINTF_NEEDPLUS := True \<rparr> \<rparr>"
  obtain c tl where c: "field_tail fd r = c # tl" "c \<noteq> 0" using field_tail_nonzero [OF ok] .
  have "printf_cont (printf_case1 (43 # field_tail fd r) s) = printf_loop (field_tail fd r) ?s" by (simp add: printf_case1_def)
  also have "\<dots> = printf_cont (printf_case1 (field_tail fd r) ?s)" using printf_loop_case1 [OF c] st by simp
  finally show ?thesis using printf_tail [OF ok, of ?s r] st fl True by (simp add: field_flags_def)
next
  case False
  then show ?thesis using printf_tail [OF ok st, of r] fl by (simp add: field_flags_def)
qed

lemma printf_field_parse:
  assumes ok: "field_ok fd" and st: "pf_state s = 0" "given_wd s = 0" "pf_flags s = no_flags"
  shows "printf_loop (field_chars fd @ r) s =
    printf_cont (printf_case4 (fd_conv fd # r) (s\<lparr> given_wd := fd_wd fd, pf_flags := field_flags fd, pf_state := 4 \<rparr>))"
proof -
  let ?X = "(if fd_plus fd then [43] else []) @ field_tail fd r"
  have chars: "field_chars fd @ r = 37 # (if fd_left fd then [45] else []) @ ?X" by (simp add: field_chars_def field_tail_def)
  obtain d ds where d: "field_tail fd r = d # ds" "d \<noteq> 0" using field_tail_nonzero [OF ok] .
  obtain c cs where c: "?X = c # cs" "c \<noteq> 0" using d by (cases "fd_plus fd") simp_all
  let ?s1 = "s\<lparr> pf_state := 1 \<rparr>" and ?s2 = "s\<lparr> pf_state := 1, pf_flags := no_flags\<lparr> PRINTF_LEFT := True \<rparr> \<rparr>"
  show ?thesis
  proof (cases "fd_left fd")
    case True
    have "printf_loop (37 # 45 # ?X) s = printf_cont (printf_case1 (45 # ?X) ?s1)"
      using st by (simp add: printf_loop_nonzero printf_step_def)
    also have "\<dots> = printf_loop ?X ?s2" using st by (simp add: printf_case1_def no_flags_def)
    also have "\<dots> = printf_cont (printf_case1 ?X ?s2)" using printf_loop_case1 [OF c] by simp
    finally show ?thesis using printf_plus [OF ok, of ?s2 r] st True chars by (simp add: field_flags_def no_flags_def)
  next
    case False
    have "printf_loop (37 # ?X) s = printf_cont (printf_case1 ?X ?s1)"
      using st c by (simp add: printf_loop_nonzero printf_step_def)
    then show ?thesis using printf_plus [OF ok, of ?s1 r] st False chars by (simp add: field_flags_def no_flags_def)
  qed
qed


section \<open>Rendering\<close>

definition conv_signed :: "byte \<Rightarrow> bool" where
  "conv_signed c \<longleftrightarrow> c = 100 \<or> c = 105"

definition conv_radix :: "byte \<Rightarrow> nat" where
  "conv_radix c = (if c = 111 then 8 else if c \<in> {100, 105, 117} then 10 else 16)"

text \<open>The value of an argument; with one \<^verbatim>\<open>l\<close> the code ignores the sign.\<close>

fun number_value :: "printf_field \<Rightarrow> printf_arg \<Rightarrow> int option" where
  "number_value fd (Arg32 w) = (if fd_long fd = 2 then None else if conv_signed (fd_conv fd) \<and> fd_long fd = 0 then Some (sint w) else Some (uint w))"
| "number_value fd (Arg64 w) = (if fd_long fd \<noteq> 2 then None else if conv_signed (fd_conv fd) then Some (sint w) else Some (uint w))"
| "number_value fd (ArgStr p) = None"

text \<open>A plus sign stands in front of the padding, a minus sign behind it unless it is zeros.\<close>

definition render_number :: "printf_field \<Rightarrow> int \<Rightarrow> byte list" where
  "render_number fd v = (let
     sign = (if v < 0 then [45] else if fd_plus fd then [43] else []);
     ds = radix_digits (conv_radix (fd_conv fd)) (fd_conv fd = 88) (nat \<bar>v\<bar>);
     pad = fd_wd fd - (length sign + length ds)
     in if fd_left fd then sign @ ds @ replicate pad 32
        else if fd_zero fd then sign @ replicate pad 48 @ ds
        else if v < 0 then replicate pad 32 @ sign @ ds
        else sign @ replicate pad 32 @ ds)"

definition render_text :: "printf_field \<Rightarrow> byte list \<Rightarrow> byte list \<Rightarrow> nat \<Rightarrow> byte list" where
  "render_text fd sign t n = (let pad = replicate (fd_wd fd - (length sign + n)) 32
     in if fd_left fd then sign @ t @ pad else sign @ pad @ t)"

definition string_at :: "byte list option \<Rightarrow> byte list" where
  "string_at p = (case p of None \<Rightarrow> [60, 78, 85, 76, 76, 62] | Some mem \<Rightarrow> take (the (strlen mem)) mem)"

fun render_field :: "printf_field \<Rightarrow> printf_arg \<Rightarrow> byte list" where
  "render_field fd (ArgStr p) = render_text fd (if fd_plus fd then [43] else []) (string_at p) (length (string_at p))"
| "render_field fd arg = (if fd_conv fd = 99
     then (case arg of Arg32 w \<Rightarrow> render_text fd [] (if ucast w = (0 :: byte) then [] else [ucast w]) 1 | _ \<Rightarrow> [])
     else render_number fd (the (number_value fd arg)))"

fun arg_ok :: "printf_field \<Rightarrow> printf_arg \<Rightarrow> bool" where
  "arg_ok fd (ArgStr p) = (fd_conv fd = 115 \<and> (case p of None \<Rightarrow> True | Some mem \<Rightarrow> strlen mem \<noteq> None))"
| "arg_ok fd (Arg32 w) = (fd_conv fd \<noteq> 115 \<and> (fd_conv fd = 99 \<or> fd_long fd \<noteq> 2))"
| "arg_ok fd (Arg64 w) = (fd_conv fd \<notin> {99, 115} \<and> fd_long fd = 2)"

lemma printf_out2_eq:
  "printf_out2 actual txt s = s\<lparr> pf_out := pf_out s @
     (if PRINTF_LEFT (pf_flags s) then (if PRINTF_NEEDSIGN (pf_flags s) \<and> \<not> PRINTF_LZERO (pf_flags s) then [45] else []) @ txt @
         replicate (given_wd s - actual) 32
      else replicate (given_wd s - actual) (if PRINTF_LZERO (pf_flags s) then 48 else 32) @
         (if PRINTF_NEEDSIGN (pf_flags s) \<and> \<not> PRINTF_LZERO (pf_flags s) then [45] else []) @ txt),
     given_wd := 0 \<rparr>"
  by (simp add: printf_out2_def helper_def Let_def)

lemma printf_out_eq:
  assumes "strlen mem = Some n" and "\<not> PRINTF_PRECIS (pf_flags s)"
  shows "printf_out mem s = Some (printf_out2 (if PRINTF_NEEDSIGN (pf_flags s) \<or> PRINTF_NEEDPLUS (pf_flags s) then n + 1 else n) (take n mem)
    (if PRINTF_NEEDSIGN (pf_flags s) \<and> PRINTF_LZERO (pf_flags s) then helper [45] s
       else if PRINTF_NEEDPLUS (pf_flags s) \<and> \<not> PRINTF_NEEDSIGN (pf_flags s) then helper [43] s else s))"
  using assms by (simp add: printf_out_def)

lemma word_ranges:
  fixes w :: u32 and x :: u64
  shows "- 2147483648 \<le> sint w" "sint w < 2147483648" "0 \<le> uint w" "uint w < 4294967296"
    "- 9223372036854775808 \<le> sint x" "sint x < 9223372036854775808" "0 \<le> uint x" "uint x < 18446744073709551616"
  using sint_ge [of w] sint_lt [of w] uint_bounded [of w] sint_ge [of x] sint_lt [of x] uint_bounded [of x] by simp_all

lemma sint_mod_u64: "sint (x :: u64) mod 18446744073709551616 = uint x"
  using uint_sint [of x] by (simp add: take_bit_eq_mod)

lemma printf_num_value:
  assumes "number_value fd arg = Some v" and "PRINTF_LONG fl = (fd_long fd = 1)" and "PRINTF_LONGLONG fl = (fd_long fd = 2)"
    and "PRINTF_SIGNED fl = conv_signed (fd_conv fd)" and "fd_long fd \<le> 2"
  shows "\<exists>num. printf_num fl (arg # args) = Some (num, args) \<and> (PRINTF_SIGNED fl \<and> num < 0) = (v < 0) \<and>
    nat ((if PRINTF_SIGNED fl \<and> num < 0 then - num else num) mod 2 ^ 64) = nat \<bar>v\<bar> \<and> nat \<bar>v\<bar> < 2 ^ 64"
proof (cases arg)
  case (Arg32 w)
  have l: "fd_long fd = 0 \<or> fd_long fd = 1 \<or> fd_long fd = 2" using assms(5) by arith
  have num: "printf_num fl (arg # args) = Some (v, args)" using assms(1-4) Arg32 l by (auto split: if_splits)
  have "v = uint w \<or> PRINTF_SIGNED fl \<and> v = sint w" using assms(1-4) Arg32 by (auto split: if_splits)
  then have "v < 0 \<longrightarrow> PRINTF_SIGNED fl" "- 2147483648 \<le> v" "v < 4294967296" using word_ranges(1-4) [of w] by linarith+
  then show ?thesis using num by (intro exI [of _ v]) auto
next
  case (Arg64 x)
  have num: "printf_num fl (arg # args) = Some (sint x, args)" using assms Arg64 by (auto split: if_splits)
  have v: "v = (if PRINTF_SIGNED fl then sint x else uint x)" using assms Arg64 by (auto split: if_splits)
  have r: "- 9223372036854775808 \<le> sint x" "sint x < 9223372036854775808" "0 \<le> uint x" "uint x < 18446744073709551616"
    using word_ranges(5-8) [of x] by simp_all
  show ?thesis
  proof (cases "PRINTF_SIGNED fl")
    case True
    then show ?thesis using num v r by (intro exI [of _ "sint x"]) auto
  next
    case False
    have "unat x < 18446744073709551616" using unsigned_less [of x] by simp
    then show ?thesis using False num v r sint_mod_u64 [of x] by (intro exI [of _ "sint x"]) auto
  qed
qed (use assms in auto)


text \<open>The conversion of a number whose argument is read.\<close>

lemma printf_do_num_render:
  assumes v: "number_value fd arg = Some v" and ok: "field_ok fd"
    and args: "pf_args s = arg # args" and wd: "given_wd s = fd_wd fd"
    and fl: "pf_flags s = (field_flags fd)\<lparr> PRINTF_SIGNED := conv_signed (fd_conv fd), PRINTF_CAPITAL := (fd_conv fd = 88) \<rparr>"
  shows "\<exists>s'. printf_do_num (conv_radix (fd_conv fd)) s = Some s' \<and> pf_out s' = pf_out s @ render_number fd v \<and> pf_args s' = args"
proof -
  let ?ds = "radix_digits (conv_radix (fd_conv fd)) (fd_conv fd = 88) (nat \<bar>v\<bar>)"
  have long: "fd_long fd \<le> 2" using ok by (simp add: field_ok_def)
  obtain num where num: "printf_num (pf_flags s) (pf_args s) = Some (num, args)" "(PRINTF_SIGNED (pf_flags s) \<and> num < 0) = (v < 0)"
    "nat ((if PRINTF_SIGNED (pf_flags s) \<and> num < 0 then - num else num) mod 2 ^ 64) = nat \<bar>v\<bar>" "nat \<bar>v\<bar> < 2 ^ 64"
  proof -
    have flags: "PRINTF_LONG (pf_flags s) = (fd_long fd = 1)" "PRINTF_LONGLONG (pf_flags s) = (fd_long fd = 2)"
      "PRINTF_SIGNED (pf_flags s) = conv_signed (fd_conv fd)" using fl by (simp_all add: field_flags_def)
    show thesis using printf_num_value [OF v flags long, of args] that unfolding args by blast
  qed
  have radix: "8 \<le> conv_radix (fd_conv fd)" "conv_radix (fd_conv fd) \<le> 36" by (simp_all add: conv_radix_def)
  have ds: "printf_digits (conv_radix (fd_conv fd)) (fd_conv fd = 88) (nat \<bar>v\<bar>) [] = Some ?ds"
    by (rule printf_digits_fit [OF radix(1) num(4)])
  have "0 \<notin> set ?ds" using radix by (intro radix_digits_nonzero) auto
  then have len: "strlen (?ds @ [0]) = Some (length ?ds)" by simp
  let ?s = "s\<lparr> pf_args := args, pf_flags := (pf_flags s)\<lparr> PRINTF_NEEDSIGN := v < 0 \<rparr> \<rparr>"
  have cap: "PRINTF_CAPITAL (pf_flags s) = (fd_conv fd = 88)" "\<not> PRINTF_NEEDSIGN (pf_flags s)" "\<not> PRINTF_PRECIS (pf_flags s)"
    using fl by (simp_all add: field_flags_def no_flags_def)
  have run: "printf_do_num (conv_radix (fd_conv fd)) s = printf_out (?ds @ [0]) ?s"
    unfolding printf_do_num_def num(1) using num(2,3) ds cap by (simp add: Let_def)
  have zl: "fd_zero fd \<longrightarrow> \<not> fd_left fd" using ok by (simp add: field_ok_def)
  have "printf_out (?ds @ [0]) ?s = Some (printf_out2 (if v < 0 \<or> fd_plus fd then length ?ds + 1 else length ?ds) ?ds
      (if v < 0 \<and> fd_zero fd then helper [45] ?s else if fd_plus fd \<and> \<not> v < 0 then helper [43] ?s else ?s))"
    using printf_out_eq [OF len, of ?s] fl cap(3) by (simp add: field_flags_def)
  then show ?thesis using run fl wd zl
    by (auto simp: printf_out2_eq render_number_def helper_def field_flags_def Let_def)
qed

lemma printf_conv_number:
  assumes "field_ok fd" and "fd_conv fd \<notin> {99, 115}" and "pf_flags s = field_flags fd"
  shows "printf_conv (fd_conv fd) s = printf_do_num (conv_radix (fd_conv fd)) (s\<lparr> pf_flags := (field_flags fd)\<lparr>
     PRINTF_SIGNED := conv_signed (fd_conv fd), PRINTF_CAPITAL := (fd_conv fd = 88) \<rparr> \<rparr>)"
proof -
  have same: "s\<lparr> pf_flags := (field_flags fd)\<lparr> PRINTF_SIGNED := False, PRINTF_CAPITAL := False \<rparr> \<rparr> = s"
    "(field_flags fd)\<lparr> PRINTF_SIGNED := False, PRINTF_CAPITAL := True \<rparr> = (field_flags fd)\<lparr> PRINTF_CAPITAL := True \<rparr>"
    "(field_flags fd)\<lparr> PRINTF_SIGNED := True, PRINTF_CAPITAL := False \<rparr> = (field_flags fd)\<lparr> PRINTF_SIGNED := True \<rparr>"
    using assms(3) by (simp_all add: field_flags_def no_flags_def)
  have "fd_conv fd \<in> {88, 120, 112, 110, 100, 105, 117, 111}" using assms(1,2) by (auto simp: field_ok_def)
  then show ?thesis using assms(3) same by (auto simp: printf_conv_def conv_radix_def conv_signed_def Let_def)
qed


lemma printf_conv_char:
  assumes "fd_conv fd = 99" and "pf_flags s = field_flags fd" and "given_wd s = fd_wd fd" and "pf_args s = Arg32 w # args"
  shows "\<exists>s'. printf_conv (fd_conv fd) s = Some s' \<and> pf_out s' = pf_out s @ render_field fd (Arg32 w) \<and> pf_args s' = args"
  using assms by (simp add: printf_conv_def printf_out2_eq render_text_def field_flags_def no_flags_def Let_def)

lemma string_memory:
  assumes "case p of None \<Rightarrow> True | Some mem \<Rightarrow> strlen mem \<noteq> None"
  shows "strlen (case p of None \<Rightarrow> [60, 78, 85, 76, 76, 62, 0] | Some mem \<Rightarrow> mem) = Some (length (string_at p))"
    and "take (length (string_at p)) (case p of None \<Rightarrow> [60, 78, 85, 76, 76, 62, 0] | Some mem \<Rightarrow> mem) = string_at p"
proof -
  have len: "strlen m = Some n \<Longrightarrow> n < length m" for m n
    by (induction m arbitrary: n) (auto split: if_splits)
  have "strlen (case p of None \<Rightarrow> [60, 78, 85, 76, 76, 62, 0] | Some mem \<Rightarrow> mem) = Some (length (string_at p)) \<and>
    take (length (string_at p)) (case p of None \<Rightarrow> [60, 78, 85, 76, 76, 62, 0] | Some mem \<Rightarrow> mem) = string_at p"
  proof (cases p)
    case (Some mem)
    then obtain n where "strlen mem = Some n" using assms by auto
    with len [OF this] Some show ?thesis by (simp add: string_at_def)
  qed (simp add: string_at_def)
  then show "strlen (case p of None \<Rightarrow> [60, 78, 85, 76, 76, 62, 0] | Some mem \<Rightarrow> mem) = Some (length (string_at p))"
    "take (length (string_at p)) (case p of None \<Rightarrow> [60, 78, 85, 76, 76, 62, 0] | Some mem \<Rightarrow> mem) = string_at p" by simp_all
qed

lemma printf_conv_string:
  assumes c: "fd_conv fd = 115" and fl: "pf_flags s = field_flags fd" and wd: "given_wd s = fd_wd fd" and args: "pf_args s = ArgStr p # args"
    and p: "case p of None \<Rightarrow> True | Some mem \<Rightarrow> strlen mem \<noteq> None"
  shows "\<exists>s'. printf_conv (fd_conv fd) s = Some s' \<and> pf_out s' = pf_out s @ render_field fd (ArgStr p) \<and> pf_args s' = args"
proof -
  let ?mem = "case p of None \<Rightarrow> [60, 78, 85, 76, 76, 62, 0] | Some mem \<Rightarrow> mem"
  let ?s = "s\<lparr> pf_args := args, pf_flags := (field_flags fd)\<lparr> PRINTF_LZERO := False \<rparr> \<rparr>"
  note mem = string_memory [OF p]
  have "printf_conv (fd_conv fd) s = printf_out ?mem ?s" using c fl args by (simp add: printf_conv_def Let_def)
  also have "\<dots> = Some (printf_out2 (if fd_plus fd then length (string_at p) + 1 else length (string_at p)) (string_at p)
      (if fd_plus fd then helper [43] ?s else ?s))"
    using printf_out_eq [OF mem(1), of ?s] mem(2) by (simp add: field_flags_def no_flags_def)
  finally show ?thesis using wd by (auto simp: printf_out2_eq render_text_def helper_def field_flags_def no_flags_def Let_def)
qed

lemma printf_conv_render:
  assumes ok: "field_ok fd" and arg: "arg_ok fd arg" and fl: "pf_flags s = field_flags fd" and wd: "given_wd s = fd_wd fd"
    and args: "pf_args s = arg # args"
  shows "\<exists>s'. printf_conv (fd_conv fd) s = Some s' \<and> pf_out s' = pf_out s @ render_field fd arg \<and> pf_args s' = args"
proof (cases "fd_conv fd \<in> {99, 115}")
  case True
  consider w where "fd_conv fd = 99" "arg = Arg32 w" | p where "fd_conv fd = 115" "arg = ArgStr p" using True arg by (cases arg) auto
  then show ?thesis
  proof cases
    case (1 w)
    then show ?thesis using printf_conv_char [OF 1(1) fl wd, of w args] args by simp
  next
    case (2 p)
    then show ?thesis using printf_conv_string [OF 2(1) fl wd, of p args] args arg by simp
  qed
next
  case False
  have "number_value fd arg \<noteq> None" using False arg by (cases arg) auto
  then obtain v where v: "number_value fd arg = Some v" by blast
  have "render_field fd arg = render_number fd v" using False v arg by (cases arg) auto
  then show ?thesis
    using printf_conv_number [OF ok False fl] printf_do_num_render [OF v ok, of "s\<lparr> pf_flags := (field_flags fd)\<lparr>
      PRINTF_SIGNED := conv_signed (fd_conv fd), PRINTF_CAPITAL := (fd_conv fd = 88) \<rparr> \<rparr>" args] args wd by simp
qed

section \<open>Formats\<close>

text \<open>A format is a sequence of pieces: text, in which a percent sign is written twice, and fields with their arguments.\<close>

datatype printf_piece = Text "byte list" | Field printf_field printf_arg

fun piece_chars :: "printf_piece \<Rightarrow> byte list" where
  "piece_chars (Text t) = concat (map (\<lambda>c. if c = 37 then [37, 37] else [c]) t)"
| "piece_chars (Field fd arg) = field_chars fd"

fun piece_args :: "printf_piece \<Rightarrow> printf_arg list" where
  "piece_args (Text t) = []"
| "piece_args (Field fd arg) = [arg]"

fun piece_ok :: "printf_piece \<Rightarrow> bool" where
  "piece_ok (Text t) = (0 \<notin> set t)"
| "piece_ok (Field fd arg) = (field_ok fd \<and> arg_ok fd arg)"

fun render_piece :: "printf_piece \<Rightarrow> byte list" where
  "render_piece (Text t) = t"
| "render_piece (Field fd arg) = render_field fd arg"

definition printf_at :: "printf_arg list \<Rightarrow> byte list \<Rightarrow> printf_t" where
  "printf_at args out = \<lparr> pf_state = 0, pf_flags = no_flags, given_wd = 0, pf_args = args, pf_out = out \<rparr>"

lemma reset_printf_at: "reset_printf s = printf_at (pf_args s) (pf_out s)"
  by (simp add: reset_printf_def printf_at_def)

lemma printf_text: "0 \<notin> set t \<Longrightarrow> printf_loop (piece_chars (Text t) @ r) (printf_at args out) = printf_loop r (printf_at args (out @ t))"
proof (induction t arbitrary: out)
  case (Cons c t)
  have c: "c \<noteq> 0" using Cons.prems by auto
  have "printf_loop ((if c = 37 then [37, 37] else [c]) @ x) (printf_at args out) = printf_loop x (printf_at args (out @ [c]))" for x
  proof (cases "c = 37")
    case True
    then show ?thesis
      by (simp add: printf_loop_nonzero printf_step_def printf_case1_def printf_at_def reset_printf_def helper_def)
  next
    case False
    then show ?thesis using c by (simp add: printf_loop_nonzero printf_step_def printf_at_def helper_def)
  qed
  then show ?case using Cons.IH [of "out @ [c]"] Cons.prems by simp
qed simp

lemma printf_piece:
  assumes "piece_ok p"
  shows "printf_loop (piece_chars p @ r) (printf_at (piece_args p @ args) out) = printf_loop r (printf_at args (out @ render_piece p))"
proof (cases p)
  case (Text t)
  then show ?thesis using assms printf_text by simp
next
  case (Field fd arg)
  then have ok: "field_ok fd" "arg_ok fd arg" using assms by simp_all
  let ?s = "(printf_at (arg # args) out)\<lparr> given_wd := fd_wd fd, pf_flags := field_flags fd, pf_state := 4 \<rparr>"
  obtain s' where s': "printf_conv (fd_conv fd) ?s = Some s'" "pf_out s' = out @ render_field fd arg" "pf_args s' = args"
    using printf_conv_render [OF ok, of ?s args] by (auto simp: printf_at_def)
  have "printf_loop (field_chars fd @ r) (printf_at (arg # args) out) = printf_cont (printf_case4 (fd_conv fd # r) ?s)"
    by (rule printf_field_parse [OF ok(1)]) (simp_all add: printf_at_def)
  also have "\<dots> = printf_loop r (printf_at args (out @ render_field fd arg))"
    using s' by (simp add: printf_case4_def reset_printf_at)
  finally show ?thesis using Field by simp
qed

lemma printf_pieces:
  "\<forall>p \<in> set ps. piece_ok p \<Longrightarrow>
   printf_loop (concat (map piece_chars ps) @ r) (printf_at (concat (map piece_args ps) @ args) out) =
     printf_loop r (printf_at args (out @ concat (map render_piece ps)))"
  by (induction ps arbitrary: out) (simp_all add: printf_piece)

lemma do_printf_pieces:
  assumes "\<forall>p \<in> set ps. piece_ok p"
  shows "do_printf (concat (map piece_chars ps) @ 0 # r) (concat (map piece_args ps)) =
    Some (length (concat (map render_piece ps)), concat (map render_piece ps))"
proof -
  have "printf_loop (0 # r) s = Some s" for s by (subst printf_loop.simps) simp
  then show ?thesis using printf_pieces [OF assms, of "0 # r" "[]" "[]"] by (simp add: do_printf_def printf_at_def)
qed



section \<open>Numbers that are read back\<close>

lemma dec_value_digits: "foldl (\<lambda>n c. n * 10 + nat (sint c - 48)) 0 (radix_digits 10 False n) = n"
proof (induction n rule: less_induct)
  case (less n)
  have one: "nat (sint (printf_digit False k) - 48) = k" if "k < 10" for k
  proof -
    have "k \<in> {0, 1, 2, 3, 4, 5, 6, 7, 8, 9}" using that by auto
    then show ?thesis by (auto simp: printf_digit_def)
  qed
  show ?case
  proof (cases "n < 10")
    case True
    then show ?thesis using one by (subst radix_digits.simps) simp
  next
    case False
    then have "foldl (\<lambda>n c. n * 10 + nat (sint c - 48)) 0 (radix_digits 10 False (n div 10)) = n div 10" by (intro less.IH) simp
    then show ?thesis using False one [of "n mod 10"] by (subst radix_digits.simps) simp
  qed
qed

lemma is_dec_isdigit: "is_dec c \<Longrightarrow> isdigit (sint c)"
proof -
  assume c: "is_dec c"
  then have n: "48 \<le> unat c" "unat c \<le> 57" unfolding is_dec_def word_le_nat_alt by simp_all
  have "unat c = 48 \<or> unat c = 49 \<or> unat c = 50 \<or> unat c = 51 \<or> unat c = 52 \<or> unat c = 53 \<or> unat c = 54 \<or> unat c = 55 \<or>
    unat c = 56 \<or> unat c = 57" using n by arith
  moreover have "c = of_nat (unat c)" by simp
  ultimately have "c \<in> {48, 49, 50, 51, 52, 53, 54, 55, 56, 57}" by (elim disjE) simp_all
  then show ?thesis by (auto simp: isdigit_def)
qed

text \<open>The number that \<^verbatim>\<open>%u\<close> prints is read back by \<^verbatim>\<open>str_to_num\<close>, for all 32 bit numbers.\<close>

theorem printf_str_to_num:
  "\<exists>out. do_printf [37, 117, 0] [Arg32 w] = Some (length out, out) \<and> str_to_num (out @ [0]) = Some (Some w)"
proof -
  let ?fd = "\<lparr> fd_left = False, fd_plus = False, fd_zero = False, fd_wd = 0, fd_long = 0, fd_conv = 117 \<rparr>"
  let ?ds = "radix_digits 10 False (unat w)"
  have "do_printf [37, 117, 0] [Arg32 w] = Some (length ?ds, ?ds)"
    using do_printf_pieces [of "[Field ?fd (Arg32 w)]" "[]"]
    by (simp add: field_ok_def field_chars_def render_number_def conv_signed_def conv_radix_def)
  moreover have "\<forall>c \<in> set ?ds. isdigit (sint c)" using dec_digits(1) is_dec_isdigit by blast
  from str_to_num_loop_digits [OF this, of "[]" 0] have "str_to_num (?ds @ [0]) = Some (Some w)"
    by (simp add: str_to_num_def dec_value_digits)
  ultimately show ?thesis by blast
qed

section \<open>Errors\<close>

text \<open>A negative \<^verbatim>\<open>long\<close> is printed as the unsigned number with the same bits.\<close>

theorem printf_long_unsigned:
  "do_printf [37, 108, 100, 0] [Arg32 w] = Some (length (radix_digits 10 False (unat w)), radix_digits 10 False (unat w))"
proof -
  let ?fd = "\<lparr> fd_left = False, fd_plus = False, fd_zero = False, fd_wd = 0, fd_long = 1, fd_conv = 100 \<rparr>"
  show ?thesis
    using do_printf_pieces [of "[Field ?fd (Arg32 w)]" "[]"]
    by (simp add: field_ok_def field_chars_def render_number_def conv_radix_def)
qed

text \<open>A format that ends in a percent sign is read behind its end, whatever comes before it: the loop steps over the terminator.\<close>

theorem printf_percent_overrun:
  assumes "\<forall>p \<in> set ps. piece_ok p"
  shows "do_printf (concat (map piece_chars ps) @ [37, 0]) (concat (map piece_args ps)) = None"
proof -
  have nil: "printf_loop [] s = None" for s by (subst printf_loop.simps) simp
  have "printf_loop [37, 0] (printf_at [] out) = None" for out
    by (simp add: printf_loop_nonzero printf_step_def printf_at_def nil)
  then show ?thesis using printf_pieces [OF assms, of "[37, 0]" "[]" "[]"] by (simp add: do_printf_def printf_at_def)
qed

end
