(* ===== verification/Spec2Isabelle.thy ===== *)
theory Spec2Isabelle
  imports Kernel_Array Kernel_Stack Kernel_Bitmap Kernel_Circular Kernel_Time Kernel_Item_Table
    Kernel_Sync Kernel_Heap_Clients Kernel_Paging_Safety Kernel_Region_Safety
    Kernel_Route_Safety Kernel_Div64 Kernel_Vfs_Safety Kernel_Rootfs_Calls Kernel_Ipc_Safety Kernel_Ramfs_Safety
    Kernel_Tcp_Safety Kernel_Udp_Safety Kernel_Process_Safety Kernel_Printf_Safety
begin

text \<open>
  \<^bold>\<open>Verification of the yaosp kernel.\<close> yaosp is an operating system for i386 machines; \<^verbatim>\<open>source/kernel\<close> is its monolithic
  kernel, \<^verbatim>\<open>source/drivers\<close> its loadable modules. The development models the parts of the kernel that are algorithms over
  data structures, function by function, and proves what their callers rely on. Paths below are relative to
  \<^verbatim>\<open>source/kernel\<close> unless they start with \<^verbatim>\<open>source\<close>.

  \<^bold>\<open>Conventions.\<close>
  \<^item> A C function is a HOL function of the same name from the state it reads to its result and the new state. \<open>None\<close> stands for
    a run that ends in a failed \<^verbatim>\<open>ASSERT\<close>, a \<^verbatim>\<open>panic\<close>, an access outside an object or through a bad pointer, or that does
    not end. So a theorem that concludes \<open>= Some _\<close> says that none of this happens.
  \<^item> Error codes are values of the datatype \<open>errno\<close>; a function that returns 0 or a negative code returns \<open>Inl e\<close> or \<open>Inr v\<close>.
  \<^item> Pointers to kernel objects are \<open>vptr = addr option\<close>; \<open>None\<close> is \<^verbatim>\<open>NULL\<close>. The objects of a component are maps from addresses
    to records, one per C structure. Memory that is addressed byte by byte is a list of cells.
  \<^item> Integers have their C width where wrap-around can matter: words (\<open>u32\<close>, \<open>u64\<close>, \<open>byte\<close>) or naturals with \<open>u32_of\<close> and
    \<open>u64_of\<close>; otherwise they are \<open>int\<close> or \<open>nat\<close>.
  \<^item> Loops are recursive functions, \<^verbatim>\<open>partial_function (option)\<close> where they run over pointers or ids; each such loop is shown to
    end in well-formed states. Fuel is used once: \<open>follow_symbolic_link\<close> and \<open>lookup_parent_inode\<close> call each other without a
    bound in the code, the fuel counts the links that may be expanded.
  \<^item> What the components get from outside (fresh memory, the clock, answers of devices) is a parameter, a record \<open>*_env\<close>; theorems
    state as \<open>*_env_ok\<close> that fresh memory is not in use. The kernel heap itself is modelled, and the interfaces through which
    arrays and hash tables allocate are interpreted on it.
  \<^item> Spinlocks and the disabling of interrupts make the code between them atomic: the functions are the steps of the
    interleavings. A blocking function is split where the thread sleeps into a start and a resume part; a thread in between is
    part of the state. Properties of concurrent use quantify over all interleavings of the parts.

  \<^bold>\<open>Theories and sources.\<close>
  \<^item> \<^verbatim>\<open>Kernel_Prelude\<close>: error codes, pointer types, memory cells, linked chains (\<open>chain\<close>), the locales \<open>allocator\<close> and \<open>ptr_allocator\<close>
    of \<^verbatim>\<open>kmalloc\<close>.
  \<^item> \<^verbatim>\<open>Kernel_String\<close>, \<^verbatim>\<open>Kernel_Array\<close>, \<^verbatim>\<open>Kernel_Stack\<close>, \<^verbatim>\<open>Kernel_Bitmap\<close>, \<^verbatim>\<open>Kernel_Circular\<close>, \<^verbatim>\<open>Kernel_Time\<close>, \<^verbatim>\<open>Kernel_Div64\<close>: the
    routines of \<^verbatim>\<open>src/lib\<close> (\<^verbatim>\<open>string.c\<close>, \<^verbatim>\<open>ctype.c\<close>, \<^verbatim>\<open>array.c\<close>, \<^verbatim>\<open>stack.c\<close>, \<^verbatim>\<open>bitmap.c\<close>, \<^verbatim>\<open>circular.c\<close>, \<^verbatim>\<open>time.c\<close>, \<^verbatim>\<open>udivmoddi4.c\<close>). The
    containers refine lists; division agrees with arithmetic for all operands.
  \<^item> \<^verbatim>\<open>Kernel_Printf\<close>, \<^verbatim>\<open>Kernel_Printf_Safety\<close>: formatted output (\<^verbatim>\<open>src/lib/printf.c\<close>), a state machine over the characters of the
    format. It agrees with a rendering of text and fields; the loop over a format is shown to end for every such format.
  \<^item> \<^verbatim>\<open>Kernel_Hashtable\<close>, \<^verbatim>\<open>Kernel_Item_Table\<close>: \<^verbatim>\<open>hashtable.c\<close> at pointer level, and its contract as the locales \<open>item_table\<close>,
    \<open>hash_keys\<close> and \<open>hash_table\<close>, interpreted for the kernel's integer and string keys. Later components use tables as maps.
  \<^item> \<^verbatim>\<open>Kernel_Pages\<close>, \<^verbatim>\<open>Kernel_Kmalloc\<close>, \<^verbatim>\<open>Kernel_Kmalloc_Safety\<close>, \<^verbatim>\<open>Kernel_Heap_Clients\<close>: physical pages (\<^verbatim>\<open>mm/pages.c\<close>), the heap
    (\<^verbatim>\<open>mm/kmalloc.c\<close>: blocks of chunks, first fit, merging), and the allocator locales interpreted on the heap.
  \<^item> \<^verbatim>\<open>Kernel_Paging\<close>, \<^verbatim>\<open>Kernel_Paging_Safety\<close>, \<^verbatim>\<open>Kernel_Region\<close>, \<^verbatim>\<open>Kernel_Region_Safety\<close>: the i386 page tables
    (\<^verbatim>\<open>arch/i386/src/mm\<close>), copy on write, memory regions, contexts and \<^verbatim>\<open>sbrk\<close> (\<^verbatim>\<open>mm/region.c\<close>, \<^verbatim>\<open>mm/context.c\<close>, \<^verbatim>\<open>mm/sbrk.c\<close>).
  \<^item> \<^verbatim>\<open>Kernel_Scheduler\<close>, \<^verbatim>\<open>Kernel_Waitqueue\<close>: \<^verbatim>\<open>sched/scheduler.c\<close>, \<^verbatim>\<open>sched/waitqueue.c\<close>, \<^verbatim>\<open>timer.c\<close>.
  \<^item> \<^verbatim>\<open>Kernel_Process\<close>, \<^verbatim>\<open>Kernel_Process_Safety\<close>: threads and processes (\<^verbatim>\<open>thread.c\<close>, \<^verbatim>\<open>process.c\<close>, \<^verbatim>\<open>fork.c\<close>), signals (\<^verbatim>\<open>signal.c\<close>,
    \<^verbatim>\<open>arch/i386/src/signal.c\<close>) and the entry of system calls (\<^verbatim>\<open>syscall.c\<close>) on the scheduler. The record \<open>task_world\<close> is the scheduler
    with the two tables; \<open>tasks_ok\<close> relates them. An exit wakes the parent, which collects the child; a fork adds one thread;
    the unblockable signals stay unblocked; the return from a handler restores the frame except for the result register.
  \<^item> \<^verbatim>\<open>Kernel_Ids\<close>, \<^verbatim>\<open>Kernel_Lock\<close>, \<^verbatim>\<open>Kernel_Lock_Safety\<close>, \<^verbatim>\<open>Kernel_Sync\<close>: lock contexts, mutexes, semaphores, conditions (\<^verbatim>\<open>src/lock\<close>)
    on the wait queues and the scheduler.
  \<^item> \<^verbatim>\<open>Kernel_Ipc\<close>, \<^verbatim>\<open>Kernel_Ipc_Safety\<close>: message ports (\<^verbatim>\<open>ipc.c\<close>).
  \<^item> \<^verbatim>\<open>Kernel_Inode\<close>, \<^verbatim>\<open>Kernel_Inode_Safety\<close>, \<^verbatim>\<open>Kernel_Vfs\<close>, \<^verbatim>\<open>Kernel_Vfs_Safety\<close>: the inode cache and path lookup (\<^verbatim>\<open>vfs/inode.c\<close>), open files and
    I/O contexts (\<^verbatim>\<open>vfs/io_context.c\<close>) and the file calls (\<^verbatim>\<open>vfs/vfs.c\<close>) over an arbitrary file system, the record
    \<open>filesystem_calls\<close>. The locale \<open>inode_driver\<close> states what the cache needs of a file system.
  \<^item> \<^verbatim>\<open>Kernel_Rootfs\<close>, \<^verbatim>\<open>Kernel_Rootfs_Safety\<close>, \<^verbatim>\<open>Kernel_Rootfs_Calls\<close>, \<^verbatim>\<open>Kernel_Ramfs\<close>, \<^verbatim>\<open>Kernel_Ramfs_Safety\<close>: the two file systems in
    memory (\<^verbatim>\<open>vfs/rootfs.c\<close>, \<^verbatim>\<open>source/drivers/filesystem/ramfs/ramfs.c\<close>), each an interpretation of \<open>inode_driver\<close>.
  \<^item> \<^verbatim>\<open>Kernel_Route\<close>, \<^verbatim>\<open>Kernel_Route_Safety\<close>: network devices and routes (\<^verbatim>\<open>network/device.c\<close>, \<^verbatim>\<open>network/route.c\<close>).
  \<^item> \<^verbatim>\<open>Kernel_Checksum\<close>, \<^verbatim>\<open>Kernel_Packet\<close>, \<^verbatim>\<open>Kernel_Ip\<close>, \<^verbatim>\<open>Kernel_Ip_Safety\<close>: Internet checksums, packets and their queues (\<^verbatim>\<open>network/packet.c\<close>),
    Ethernet, ARP, IP and ICMP. The record \<open>net_stack\<close> is the state of the whole stack; a packet is a list of bytes with offsets
    where the code has pointers into it, so that a read or write outside its block is \<open>None\<close>. Frames that a driver has accepted
    are collected in \<open>st_sent\<close>. Checksums verify, a header that is built is accepted on input, packets that wait for an
    address leave in order.
  \<^item> \<^verbatim>\<open>Kernel_Udp\<close>, \<^verbatim>\<open>Kernel_Udp_Safety\<close>, \<^verbatim>\<open>Kernel_Tcp\<close>, \<^verbatim>\<open>Kernel_Tcp_Safety\<close>, \<^verbatim>\<open>Kernel_Socket\<close>: \<^verbatim>\<open>network/udp.c\<close>, \<^verbatim>\<open>tcp.c\<close> and
    \<^verbatim>\<open>socket.c\<close>, with the requests on devices. A call that waits returns \<open>Waits\<close> and is called again after a wake-up. The endpoint
    tables are lists (their keys can repeat). The windows of TCP are streams, the locale \<open>byte_stream\<close> interpreted on the receive
    side, as long as they are not filled to the last byte.

  \<^bold>\<open>Structure of the proofs.\<close> Each component has a well-formedness predicate (\<open>*_inv\<close>, \<open>*_rel\<close>, \<open>*_ok\<close>) that relates its pointer
  structure to lists or maps. Lemmas show that every operation, on every branch, returns and keeps it, and compute its effect on
  the abstract value. The properties are stated over the code's functions and follow from these lemmas. Errors of the
  code appear as theorems too, where they make a natural claim false.

  \<^bold>\<open>Not modelled.\<close> Start-up code, the processor and the interrupt controllers, console output and the debugger are hardware or
  output; so are the loaders that run a program from a file. The vendored BIOS emulator, the C library and the programs outside the kernel are not part of the kernel's logic. The
  manifest lists the remaining kernel parts one by one with the reason.
\<close>

end
